(* ===== verification/Prelude.thy ===== *)
theory Prelude
  imports Main
begin

text \<open>
  Shared base of the development: the result type of a Python call (an exception or a value),
  its sequencing, the lemma collections the components extend, and generic facts on lists,
  index loops and partitions that several components use.
\<close>

named_theorems exc_simps "exception class hierarchy"
named_theorems lane_defs "operations of a service lane"
named_theorems val_defs "boundary validators"

subsection \<open>Sequencing of calls that may raise\<close>

definition rbind :: "'e + 'a \<Rightarrow> ('a \<Rightarrow> 'e + 'b) \<Rightarrow> 'e + 'b" where
  "rbind r f = (case r of Inl e \<Rightarrow> Inl e | Inr x \<Rightarrow> f x)"

lemma rbind_Inl [simp]: "rbind (Inl e) f = Inl e"
  by (simp add: rbind_def)

lemma rbind_Inr [simp]: "rbind (Inr x) f = f x"
  by (simp add: rbind_def)

lemma rbind_eq_Inr: "rbind r f = Inr y \<longleftrightarrow> (\<exists>x. r = Inr x \<and> f x = Inr y)"
  by (cases r) auto

lemma rbind_eq_Inl: "rbind r f = Inl e \<longleftrightarrow> r = Inl e \<or> (\<exists>x. r = Inr x \<and> f x = Inl e)"
  by (cases r) auto

lemma rbind_assoc: "rbind (rbind r f) g = rbind r (\<lambda>x. rbind (f x) g)"
  by (cases r) auto

text \<open>A loop that validates one element at a time and stops at the first exception.\<close>

fun mapM_idx :: "(nat \<Rightarrow> 'a \<Rightarrow> 'e + 'b) \<Rightarrow> nat \<Rightarrow> 'a list \<Rightarrow> 'e + 'b list" where
  "mapM_idx f i [] = Inr []"
| "mapM_idx f i (x # xs) =
     rbind (f i x) (\<lambda>y. rbind (mapM_idx f (Suc i) xs) (\<lambda>ys. Inr (y # ys)))"

lemma mapM_idx_Inr_length: "mapM_idx f i xs = Inr ys \<Longrightarrow> length ys = length xs"
  by (induction xs arbitrary: i ys) (auto simp: rbind_eq_Inr)

lemma mapM_idx_Inr_nth:
  "mapM_idx f i xs = Inr ys \<Longrightarrow> k < length xs \<Longrightarrow> f (i + k) (xs ! k) = Inr (ys ! k)"
proof (induction xs arbitrary: i ys k)
  case Nil
  then show ?case by simp
next
  case (Cons x xs)
  then show ?case by (cases k) (fastforce simp: rbind_eq_Inr)+
qed

lemma mapM_idx_all_Inr:
  "(\<And>k. k < length xs \<Longrightarrow> f (i + k) (xs ! k) = Inr (ys ! k)) \<Longrightarrow> length ys = length xs
    \<Longrightarrow> mapM_idx f i xs = Inr ys"
proof (induction xs arbitrary: i ys)
  case Nil
  then show ?case by simp
next
  case (Cons x xs)
  from Cons.prems(2) obtain y ys' where ys: "ys = y # ys'" and l: "length ys' = length xs"
    by (cases ys) auto
  have "f i x = Inr y" using Cons.prems(1) [of 0] ys by simp
  moreover have "mapM_idx f (Suc i) xs = Inr ys'"
  proof (rule Cons.IH [OF _ l])
    fix k assume "k < length xs"
    then show "f (Suc i + k) (xs ! k) = Inr (ys' ! k)"
      using Cons.prems(1) [of "Suc k"] ys by simp
  qed
  ultimately show ?case using ys by simp
qed

lemma mapM_idx_Inl:
  "mapM_idx f i xs = Inl e \<Longrightarrow> \<exists>k < length xs. f (i + k) (xs ! k) = Inl e"
proof (induction xs arbitrary: i)
  case Nil
  then show ?case by simp
next
  case (Cons x xs)
  from Cons.prems consider "f i x = Inl e" | "mapM_idx f (Suc i) xs = Inl e"
    by (auto simp: rbind_eq_Inl)
  then show ?case
  proof cases
    case 1
    then show ?thesis by (intro exI [of _ 0]) simp
  next
    case 2
    then obtain k where "k < length xs" "f (Suc i + k) (xs ! k) = Inl e"
      using Cons.IH by blast
    then show ?thesis by (intro exI [of _ "Suc k"]) simp
  qed
qed

subsection \<open>Map cells and list slots\<close>

lemma list_update_all:
  "i < length xs \<Longrightarrow> (\<forall>x \<in> set xs. P x) \<Longrightarrow> P y \<Longrightarrow> \<forall>x \<in> set (xs[i := y]). P x"
  using set_update_subset_insert [of xs i y] by blast

end
