(* ===== verification/CancelToken.thy ===== *)
theory CancelToken
  imports Prelude
begin

text \<open>
  The cancellation tokens: the harness token (\<open>CancelToken\<close> in \<open>hpx_impl/service_lane.hpp\<close>) and
  its runtime mirror (\<open>RuntimeCancelToken\<close> in \<open>python/src/rayx/runtime_cancel.hpp\<close>). Every
  operation below is one critical section under the token's mutex. \<open>cancel\<close> also says whether
  the caller must fulfil the promise itself: that happens after the lock is released, so it is a
  separate step of the lane models.
\<close>

subsection \<open>The harness token\<close>

datatype phase = Queued | Running | StopRequested | Cancelled | Completed

record token =
  tk_phase :: phase
  tk_cancellable :: bool

definition new_token :: token where
  "new_token = \<lparr>tk_phase = Queued, tk_cancellable = False\<rparr>"

text \<open>Result: the token, the value \<open>cancel\<close> returns, and \<open>fulfill_now\<close>.\<close>

definition cancel :: "token \<Rightarrow> token \<times> bool \<times> bool" where
  "cancel t =
     (if tk_phase t = Queued then (t\<lparr>tk_phase := Cancelled\<rparr>, True, True)
      else if tk_phase t = Running \<and> tk_cancellable t
      then (t\<lparr>tk_phase := StopRequested\<rparr>, True, False)
      else (t, False, False))"

definition begin_service :: "int \<Rightarrow> token \<Rightarrow> token \<times> bool" where
  "begin_service chunks t =
     (if tk_phase t = Cancelled then (t, False)
      else (t\<lparr>tk_phase := Running, tk_cancellable := chunks > 1\<rparr>, True))"

definition stop_at_boundary :: "bool \<Rightarrow> token \<Rightarrow> token \<times> bool" where
  "stop_at_boundary next_is_final t =
     (if tk_phase t = StopRequested then (t\<lparr>tk_phase := Cancelled\<rparr>, True)
      else if next_is_final then (t\<lparr>tk_cancellable := False\<rparr>, False)
      else (t, False))"

definition mark_completed :: "token \<Rightarrow> token" where
  "mark_completed t = (if tk_phase t = Running then t\<lparr>tk_phase := Completed\<rparr> else t)"

definition is_cancelled :: "token \<Rightarrow> bool" where
  "is_cancelled t = (tk_phase t = Cancelled \<or> tk_phase t = StopRequested)"

lemmas token_defs = cancel_def begin_service_def stop_at_boundary_def mark_completed_def
  is_cancelled_def new_token_def

subsection \<open>The runtime token\<close>

datatype rphase = RQueued | RRunning | RStopRequested | RCancelled | RCompleted

record rtoken =
  rt_phase :: rphase
  rt_cancellable :: bool

definition new_rtoken :: rtoken where
  "new_rtoken = \<lparr>rt_phase = RQueued, rt_cancellable = False\<rparr>"

definition rcancel :: "rtoken \<Rightarrow> rtoken \<times> bool \<times> bool" where
  "rcancel t =
     (if rt_phase t = RQueued then (t\<lparr>rt_phase := RCancelled\<rparr>, True, True)
      else if rt_phase t = RRunning \<and> rt_cancellable t
      then (t\<lparr>rt_phase := RStopRequested\<rparr>, True, False)
      else (t, False, False))"

definition rbegin_service :: "int \<Rightarrow> rtoken \<Rightarrow> rtoken \<times> bool" where
  "rbegin_service checkpoint_count t =
     (if rt_phase t = RCancelled then (t, False)
      else (t\<lparr>rt_phase := RRunning, rt_cancellable := checkpoint_count > 1\<rparr>, True))"

definition rstop_at_boundary :: "bool \<Rightarrow> rtoken \<Rightarrow> rtoken \<times> bool" where
  "rstop_at_boundary next_is_final t =
     (if rt_phase t = RStopRequested then (t\<lparr>rt_phase := RCancelled\<rparr>, True)
      else if next_is_final then (t\<lparr>rt_cancellable := False\<rparr>, False)
      else (t, False))"

definition mark_finished :: "rtoken \<Rightarrow> rtoken" where
  "mark_finished t = (if rt_phase t = RRunning then t\<lparr>rt_phase := RCompleted\<rparr> else t)"

definition ris_cancelled :: "rtoken \<Rightarrow> bool" where
  "ris_cancelled t = (rt_phase t = RCancelled \<or> rt_phase t = RStopRequested)"

lemmas rtoken_defs = rcancel_def rbegin_service_def rstop_at_boundary_def mark_finished_def
  ris_cancelled_def new_rtoken_def

subsection \<open>The contract both tokens keep\<close>

text \<open>One call on a token, by the client (\<open>ECancel\<close>) or by the lane.\<close>

datatype token_event = ECancel | EBegin int | EStop bool | EFinish

text \<open>
  A lane calls \<open>begin_service\<close> once per request: histories with a second \<open>EBegin\<close> are not
  in the contract (a second call would forget a pending stop request).
\<close>

fun begins :: "token_event list \<Rightarrow> nat" where
  "begins [] = 0"
| "begins (EBegin _ # es) = Suc (begins es)"
| "begins (_ # es) = begins es"

locale cancel_arbiter =
  fixes cancel_op :: "'t \<Rightarrow> 't \<times> bool \<times> bool"
    and begin_op :: "int \<Rightarrow> 't \<Rightarrow> 't \<times> bool"
    and stop_op :: "bool \<Rightarrow> 't \<Rightarrow> 't \<times> bool"
    and finish_op :: "'t \<Rightarrow> 't"
    and settled :: "'t \<Rightarrow> bool"
    and unstarted :: "'t \<Rightarrow> bool"
  assumes cancel_settles: "fst (snd (cancel_op t)) \<Longrightarrow> \<not> settled t \<and> settled (fst (cancel_op t))"
    and cancel_refused: "\<not> fst (snd (cancel_op t)) \<Longrightarrow> fst (cancel_op t) = t"
    and fulfil_unstarted: "snd (snd (cancel_op t)) \<longleftrightarrow> fst (snd (cancel_op t)) \<and> unstarted t"
    and begin_settled: "unstarted t \<Longrightarrow> settled (fst (begin_op n t)) = settled t"
    and begin_enters: "unstarted t \<Longrightarrow> snd (begin_op n t) = (\<not> settled t)"
    and stop_settled: "settled (fst (stop_op f t)) = settled t"
    and stop_only_settled: "snd (stop_op f t) \<Longrightarrow> settled t"
    and stop_final: "\<not> unstarted t \<Longrightarrow> \<not> snd (stop_op True t)
                      \<Longrightarrow> \<not> fst (snd (cancel_op (fst (stop_op True t))))"
    and finish_settled: "settled (finish_op t) = settled t"
    and keeps_unstarted: "unstarted t \<Longrightarrow> unstarted (fst (cancel_op t))"
      "unstarted t \<Longrightarrow> unstarted (fst (stop_op f t))" "unstarted t \<Longrightarrow> unstarted (finish_op t)"
begin

fun replay :: "token_event list \<Rightarrow> 't \<Rightarrow> 't" where
  "replay [] t = t"
| "replay (ECancel # es) t = replay es (fst (cancel_op t))"
| "replay (EBegin n # es) t = replay es (fst (begin_op n t))"
| "replay (EStop f # es) t = replay es (fst (stop_op f t))"
| "replay (EFinish # es) t = replay es (finish_op t)"

text \<open>How many \<open>cancel()\<close> calls of the history return \<open>True\<close>.\<close>

fun wins :: "token_event list \<Rightarrow> 't \<Rightarrow> nat" where
  "wins [] t = 0"
| "wins (ECancel # es) t =
     (if fst (snd (cancel_op t)) then 1 else 0) + wins es (fst (cancel_op t))"
| "wins (EBegin n # es) t = wins es (fst (begin_op n t))"
| "wins (EStop f # es) t = wins es (fst (stop_op f t))"
| "wins (EFinish # es) t = wins es (finish_op t)"

lemma settled_cancel: "settled t \<Longrightarrow> settled (fst (cancel_op t))"
  using cancel_settles cancel_refused by metis

lemma wins_settled:
  assumes "if begins es = 0 then True else begins es = 1 \<and> unstarted t"
  shows "wins es t = (if settled t then 0 else if settled (replay es t) then 1 else 0)
         \<and> (settled t \<longrightarrow> settled (replay es t))"
  using assms
proof (induction es t rule: replay.induct)
  case (1 t)
  then show ?case by simp
next
  case (2 es t)
  then have "if begins es = 0 then True else begins es = 1 \<and> unstarted (fst (cancel_op t))"
    using keeps_unstarted(1) [of t] by (auto split: if_splits)
  with 2 show ?case
    using cancel_settles [of t] cancel_refused [of t] by (cases "fst (snd (cancel_op t))") auto
next
  case (3 n es t)
  then show ?case using begin_settled [of t n] by (auto split: if_splits)
next
  case (4 f es t)
  then have "if begins es = 0 then True else begins es = 1 \<and> unstarted (fst (stop_op f t))"
    using keeps_unstarted(2) [of t f] by (auto split: if_splits)
  with 4 show ?case using stop_settled [of f t] by simp
next
  case (5 es t)
  then have "if begins es = 0 then True else begins es = 1 \<and> unstarted (finish_op t)"
    using keeps_unstarted(3) [of t] by (auto split: if_splits)
  with 5 show ?case using finish_settled [of t] by simp
qed

theorem one_winner:
  assumes "unstarted t" and "\<not> settled t" and "begins es \<le> 1"
  shows "wins es t = (if settled (replay es t) then 1 else 0)"
  using wins_settled [of es t] assms by (auto split: if_splits)

end

definition token_unstarted :: "token \<Rightarrow> bool" where
  "token_unstarted t = (tk_phase t = Queued \<or> tk_phase t = Cancelled)"

definition rtoken_unstarted :: "rtoken \<Rightarrow> bool" where
  "rtoken_unstarted t = (rt_phase t = RQueued \<or> rt_phase t = RCancelled)"

interpretation harness_token:
  cancel_arbiter cancel begin_service stop_at_boundary mark_completed is_cancelled token_unstarted
  by unfold_locales (auto simp: token_defs token_unstarted_def split: if_splits)

interpretation runtime_token:
  cancel_arbiter rcancel rbegin_service rstop_at_boundary mark_finished ris_cancelled rtoken_unstarted
  by unfold_locales (auto simp: rtoken_defs rtoken_unstarted_def split: if_splits)

subsection \<open>The runtime token mirrors the harness token\<close>

fun mirror_phase :: "phase \<Rightarrow> rphase" where
  "mirror_phase Queued = RQueued"
| "mirror_phase Running = RRunning"
| "mirror_phase StopRequested = RStopRequested"
| "mirror_phase Cancelled = RCancelled"
| "mirror_phase Completed = RCompleted"

definition mirror :: "token \<Rightarrow> rtoken" where
  "mirror t = \<lparr>rt_phase = mirror_phase (tk_phase t), rt_cancellable = tk_cancellable t\<rparr>"

text \<open>A token between Queued and its end: \<open>cancellable\<close> is set only while a boundary remains.\<close>

lemma mirror_simulates:
  "rcancel (mirror t) = map_prod mirror id (cancel t)
    \<and> rbegin_service n (mirror t) = map_prod mirror id (begin_service n t)
    \<and> rstop_at_boundary f (mirror t) = map_prod mirror id (stop_at_boundary f t)
    \<and> mark_finished (mirror t) = mirror (mark_completed t)
    \<and> ris_cancelled (mirror t) = is_cancelled t
    \<and> mirror new_token = new_rtoken"
  by (cases "tk_phase t") (simp_all add: token_defs rtoken_defs mirror_def)

text \<open>
  C9. Cancellation has a single winner: over every history of calls on a fresh harness token with
  at most one \<open>begin_service\<close>, exactly one \<open>cancel()\<close> returned \<open>True\<close> if the token ends
  cancelled, and none did otherwise; the runtime token decides every such history alike.
\<close>

theorem cancel_single_winner:
  assumes "begins es \<le> 1"
  shows "harness_token.wins es new_token
           = (if is_cancelled (harness_token.replay es new_token) then 1 else 0)
         \<and> runtime_token.wins es new_rtoken
           = (if ris_cancelled (runtime_token.replay es new_rtoken) then 1 else 0)"
  using harness_token.one_winner [OF _ _ assms, of new_token]
    runtime_token.one_winner [OF _ _ assms, of new_rtoken]
  by (simp add: token_defs rtoken_defs token_unstarted_def rtoken_unstarted_def)

lemma cancel_single_winner_witness:
  "harness_token.wins [EBegin 3, ECancel, ECancel, EStop False, ECancel] new_token = 1"
  using cancel_single_winner [of "[EBegin 3, ECancel, ECancel, EStop False, ECancel]"]
  by (simp add: token_defs)

end
