(* ===== verification/PyFloat.thy ===== *)
theory PyFloat
  imports Complex_Main "HOL-Library.Log_Nat" Prelude
begin

text \<open>
  Python's \<open>float\<close> and C++'s \<open>double\<close>: IEEE 754 binary64 with round-to-nearest-even,
  over exact rationals. A finite value is the rational it denotes; the two zeros are one value,
  since no modelled code tells them apart (they only compare, add and print).
  \<open>b64_round\<close> is executable, so a witness can compute a quotient the way the interpreter does.
\<close>

datatype pyfloat = Fin rat | PInf | NInf | NaN

subsection \<open>Rounding\<close>

definition round_half_even :: "rat \<Rightarrow> int" where
  "round_half_even x = (let f = \<lfloor>x\<rfloor>; d = x - of_int f in
     if d < 1 / 2 then f else if 1 / 2 < d then f + 1 else if even f then f else f + 1)"

definition pow2 :: "int \<Rightarrow> rat" where
  "pow2 e = (if 0 \<le> e then 2 ^ nat e else 1 / 2 ^ nat (- e))"

text \<open>The exponent \<open>e\<close> with \<open>2^e \<le> x < 2^(e+1)\<close> for a positive rational.\<close>

definition ilog2 :: "rat \<Rightarrow> int" where
  "ilog2 x = (case quotient_of x of (p, q) \<Rightarrow>
     let k = bitlen p - bitlen q in if pow2 k \<le> x then k else k - 1)"

definition b64_ulp_exp :: "rat \<Rightarrow> int" where
  "b64_ulp_exp a = max (-1074) (ilog2 a - 52)"

definition b64_mag :: "rat \<Rightarrow> rat" where
  "b64_mag a = of_int (round_half_even (a / pow2 (b64_ulp_exp a))) * pow2 (b64_ulp_exp a)"

definition b64_round :: "rat \<Rightarrow> pyfloat" where
  "b64_round x = (if x = 0 then Fin 0
     else if 2 ^ 1024 \<le> b64_mag \<bar>x\<bar> then (if 0 < x then PInf else NInf)
     else Fin (sgn x * b64_mag \<bar>x\<bar>))"

subsection \<open>The operations the source uses\<close>

definition fisfinite :: "pyfloat \<Rightarrow> bool" where
  "fisfinite f = (case f of Fin _ \<Rightarrow> True | _ \<Rightarrow> False)"

fun flt :: "pyfloat \<Rightarrow> pyfloat \<Rightarrow> bool" where
  "flt (Fin a) (Fin b) = (a < b)"
| "flt NaN _ = False"
| "flt _ NaN = False"
| "flt NInf NInf = False"
| "flt NInf _ = True"
| "flt PInf _ = False"
| "flt (Fin _) PInf = True"
| "flt (Fin _) NInf = False"

definition fle :: "pyfloat \<Rightarrow> pyfloat \<Rightarrow> bool" where
  "fle a b = (flt a b \<or> (a = b \<and> a \<noteq> NaN))"

fun fneg :: "pyfloat \<Rightarrow> pyfloat" where
  "fneg (Fin a) = Fin (- a)"
| "fneg PInf = NInf"
| "fneg NInf = PInf"
| "fneg NaN = NaN"

fun fadd :: "pyfloat \<Rightarrow> pyfloat \<Rightarrow> pyfloat" where
  "fadd (Fin a) (Fin b) = b64_round (a + b)"
| "fadd NaN _ = NaN"
| "fadd _ NaN = NaN"
| "fadd PInf NInf = NaN"
| "fadd NInf PInf = NaN"
| "fadd PInf _ = PInf"
| "fadd NInf _ = NInf"
| "fadd (Fin _) x = x"

definition fsub :: "pyfloat \<Rightarrow> pyfloat \<Rightarrow> pyfloat" where
  "fsub a b = fadd a (fneg b)"

fun fmul :: "pyfloat \<Rightarrow> pyfloat \<Rightarrow> pyfloat" where
  "fmul (Fin a) (Fin b) = b64_round (a * b)"
| "fmul NaN _ = NaN"
| "fmul _ NaN = NaN"
| "fmul (Fin a) PInf = (if a = 0 then NaN else if 0 < a then PInf else NInf)"
| "fmul (Fin a) NInf = (if a = 0 then NaN else if 0 < a then NInf else PInf)"
| "fmul PInf (Fin a) = (if a = 0 then NaN else if 0 < a then PInf else NInf)"
| "fmul NInf (Fin a) = (if a = 0 then NaN else if 0 < a then NInf else PInf)"
| "fmul PInf PInf = PInf"
| "fmul NInf NInf = PInf"
| "fmul PInf NInf = NInf"
| "fmul NInf PInf = NInf"

text \<open>
  Division by a non-zero finite divisor (the only kind the source has: \<open>1e6\<close>, \<open>2 ** 64\<close>
  and a positive chunk count).
\<close>

fun fdiv_pos :: "pyfloat \<Rightarrow> rat \<Rightarrow> pyfloat" where
  "fdiv_pos (Fin a) b = b64_round (a / b)"
| "fdiv_pos x _ = x"

text \<open>\<open>float(n)\<close> of an \<open>int\<close>: \<open>None\<close> is \<open>OverflowError\<close>.\<close>

definition float_of_int :: "int \<Rightarrow> pyfloat option" where
  "float_of_int n = (case b64_round (of_int n) of Fin x \<Rightarrow> Some (Fin x) | _ \<Rightarrow> None)"

subsection \<open>Facts\<close>

lemma round_half_even_of_int [simp]: "round_half_even (of_int n) = n"
  by (simp add: round_half_even_def)

lemma round_half_even_nonneg: "0 \<le> x \<Longrightarrow> 0 \<le> round_half_even x"
  by (auto simp: round_half_even_def Let_def)

lemma pow2_pos [simp]: "0 < pow2 e"
  by (simp add: pow2_def)

lemma pow2_nonneg [simp]: "0 \<le> pow2 e"
  using pow2_pos [of e] by linarith

lemma b64_mag_nonneg: "0 \<le> a \<Longrightarrow> 0 \<le> b64_mag a"
proof -
  assume "0 \<le> a"
  then have "0 \<le> round_half_even (a / pow2 (b64_ulp_exp a))"
    by (intro round_half_even_nonneg divide_nonneg_nonneg) simp_all
  then show ?thesis
    unfolding b64_mag_def by (intro mult_nonneg_nonneg) simp_all
qed

text \<open>A rounded value keeps the sign of the exact one: clamping at zero is never defeated.\<close>

lemma b64_round_nonneg: "0 \<le> x \<Longrightarrow> \<not> flt (b64_round x) (Fin 0)"
  using b64_mag_nonneg [of "\<bar>x\<bar>"]
  by (auto simp: b64_round_def not_less intro!: mult_nonneg_nonneg)

lemma b64_round_0 [simp]: "b64_round 0 = Fin 0"
  by (simp add: b64_round_def)

lemma b64_round_not_NaN [simp]: "b64_round x \<noteq> NaN"
  by (simp add: b64_round_def)

lemma flt_irrefl [simp]: "\<not> flt a a"
  by (cases a) auto

lemma flt_trans: "flt a b \<Longrightarrow> flt b c \<Longrightarrow> flt a c"
  by (cases a; cases b; cases c) auto

lemma float_of_int_finite: "float_of_int n = Some x \<Longrightarrow> fisfinite x"
  by (auto simp: float_of_int_def fisfinite_def split: pyfloat.splits)

lemma float_of_int_0 [simp]: "float_of_int 0 = Some (Fin 0)"
  by (simp add: float_of_int_def)

lemma float_of_int_sign:
  assumes "float_of_int n = Some x" and "0 \<le> n"
  shows "\<not> flt x (Fin 0)"
proof -
  from assms(1) have "x = b64_round (of_int n)"
    by (auto simp: float_of_int_def split: pyfloat.splits)
  then show ?thesis using b64_round_nonneg [of "of_int n"] assms(2) by simp
qed

text \<open>Integers below \<open>2^53\<close> convert exactly.\<close>

lemma ilog2_small_int:
  assumes "0 < n" and "n < 2 ^ 53"
  shows "ilog2 (of_int n) \<le> 52"
proof -
  have "bitlen n \<le> 53"
    using assms by (simp add: bitlen_le_iff_power)
  moreover have "bitlen 1 = 1" by (simp add: bitlen_def floorlog_def)
  ultimately show ?thesis
    by (simp add: ilog2_def quotient_of_int Let_def)
qed

lemma b64_mag_small_int:
  assumes "0 < n" and "n < 2 ^ 53"
  shows "b64_mag (of_int n) = of_int n"
proof -
  define e where "e = b64_ulp_exp (of_int n)"
  have e: "e \<le> 0" using ilog2_small_int [OF assms] by (simp add: e_def b64_ulp_exp_def)
  have "of_int n / pow2 e = of_int (n * 2 ^ nat (- e))"
    using e by (cases "e = 0") (simp_all add: pow2_def)
  then have "round_half_even (of_int n / pow2 e) = n * 2 ^ nat (- e)"
    by (simp only: round_half_even_of_int)
  then have "b64_mag (of_int n) = of_int (n * 2 ^ nat (- e)) * pow2 e"
    by (simp add: b64_mag_def e_def)
  also have "\<dots> = of_int n"
    using e by (cases "e = 0") (simp_all add: pow2_def)
  finally show ?thesis .
qed

lemma b64_round_small_int:
  assumes "\<bar>n\<bar> < 2 ^ 53"
  shows "b64_round (of_int n) = Fin (of_int n)"
proof (cases "n = 0")
  case True
  then show ?thesis by simp
next
  case False
  have m: "b64_mag (of_int \<bar>n\<bar>) = of_int \<bar>n\<bar>"
    using False assms by (intro b64_mag_small_int) auto
  have "(of_int \<bar>n\<bar> :: rat) < of_int (2 ^ 53)"
    using assms by (simp only: of_int_less_iff)
  also have "(of_int (2 ^ 53) :: rat) < 2 ^ 1024" by simp
  finally have "\<not> (2 ^ 1024 :: rat) \<le> of_int \<bar>n\<bar>" by simp
  with m False show ?thesis
    by (simp add: b64_round_def sgn_if)
qed

lemma float_of_int_small: "\<bar>n\<bar> < 2 ^ 53 \<Longrightarrow> float_of_int n = Some (Fin (of_int n))"
  by (simp add: float_of_int_def b64_round_small_int)

lemma fisfinite_simps [simp]:
  "fisfinite (Fin a)" "\<not> fisfinite PInf" "\<not> fisfinite NInf" "\<not> fisfinite NaN"
  by (simp_all add: fisfinite_def)

end
