(* ===== verification/ServiceLane.thy ===== *)
theory ServiceLane
  imports CancelToken PyFloat
begin

text \<open>
  One serialized service lane (\<open>ServiceLane\<close> in \<open>hpx_impl/service_lane.hpp\<close>; the HPX lane keeps
  the same contract). The queue mutex makes every queue operation one step and the token mutex every
  token operation one step; the worker's loop, the client's calls and the clock interleave freely
  between those steps. What a lane shares with a client about one request (the request, its token
  and its promise) is a \<open>cell\<close>; \<open>cl_proms\<close> lists every value set in the promise, so that ``set once''
  is a theorem. \<open>ln_log\<close> is a ghost: the order in which the worker popped requests.
\<close>

subsection \<open>Data\<close>

record request =
  rq_request_id :: string
  rq_service_ms :: pyfloat
  rq_work_mode :: string
  rq_submit_ns :: int
  rq_chunks :: int
  rq_chunk_delay_ms :: pyfloat

record result =
  rs_request_id :: string
  rs_actor_id :: string
  rs_submit_ns :: int
  rs_start_ns :: int
  rs_end_ns :: int
  rs_enqueue_ns :: int
  rs_queue_depth :: int
  rs_status :: string
  rs_error :: string
  rs_chunks_completed :: int

record item =
  it_id :: nat
  it_req :: request
  it_tok :: bool
  it_enqueue_ns :: int
  it_depth :: int

record cell =
  cl_req :: request
  cl_tok :: "token option"
  cl_pend :: bool
  cl_proms :: "result list"

text \<open>
  Where the worker's loop is. \<open>WChunk it c start until\<close>: active chunk \<open>c\<close>, not over before
  \<open>until\<close>; \<open>WGap\<close>: the parked gap after chunk \<open>c\<close>; \<open>WBoundary\<close>: before the arbiter check of chunk \<open>c\<close>;
  \<open>WRefused\<close>: the exception for an unsupported work mode is thrown, the end stamp not yet taken.
\<close>

datatype worker =
    WIdle
  | WPopped item
  | WChunk item int int int
  | WGap item int int int
  | WBoundary item int int
  | WRefused item int
  | WFulfil item result
  | WClear
  | WExited

record lane =
  ln_actor_id :: string
  ln_diag :: bool
  ln_queue :: "item list"
  ln_stop :: bool
  ln_active :: bool
  ln_worker :: worker
  ln_cells :: "cell list"
  ln_now :: int
  ln_log :: "nat list"

definition new_lane :: "string \<Rightarrow> bool \<Rightarrow> int \<Rightarrow> lane" where
  "new_lane actor diag t = \<lparr>ln_actor_id = actor, ln_diag = diag, ln_queue = [], ln_stop = False,
     ln_active = False, ln_worker = WIdle, ln_cells = [], ln_now = t, ln_log = []\<rparr>"

definition blank_result :: "string \<Rightarrow> request \<Rightarrow> result" where
  "blank_result actor rq = \<lparr>rs_request_id = rq_request_id rq, rs_actor_id = actor,
     rs_submit_ns = rq_submit_ns rq, rs_start_ns = 0, rs_end_ns = 0, rs_enqueue_ns = 0,
     rs_queue_depth = 0, rs_status = ''completed'', rs_error = '''', rs_chunks_completed = 0\<rparr>"

subsection \<open>Client operations\<close>

text \<open>Push one item and create its promise (and token, when asked for one).\<close>

definition push_item :: "request \<Rightarrow> bool \<Rightarrow> lane \<Rightarrow> lane" where
  "push_item rq has_tok l = l\<lparr>
     ln_queue := ln_queue l @ [\<lparr>it_id = length (ln_cells l), it_req = rq, it_tok = has_tok,
       it_enqueue_ns = (if ln_diag l then ln_now l else 0),
       it_depth = (if ln_diag l then int (length (ln_queue l)) + 1 else 0)\<rparr>],
     ln_cells := ln_cells l @ [\<lparr>cl_req = rq, cl_tok = (if has_tok then Some new_token else None),
       cl_pend = False, cl_proms = []\<rparr>]\<rparr>"

definition submit :: "request \<Rightarrow> bool \<Rightarrow> lane \<Rightarrow> lane \<times> nat" where
  "submit rq has_tok l = (push_item rq has_tok l, length (ln_cells l))"

definition try_submit :: "request \<Rightarrow> int \<Rightarrow> bool \<Rightarrow> lane \<Rightarrow> lane \<times> nat option" where
  "try_submit rq max_queue_depth has_tok l =
     (if int (length (ln_queue l)) \<ge> max_queue_depth then (l, None)
      else (push_item rq has_tok l, Some (length (ln_cells l))))"

fun push_all :: "request list \<Rightarrow> lane \<Rightarrow> lane" where
  "push_all [] l = l"
| "push_all (rq # rqs) l = push_all rqs (push_item rq False l)"

definition submit_bulk :: "request list \<Rightarrow> lane \<Rightarrow> lane \<times> nat list" where
  "submit_bulk rqs l =
     (push_all rqs l, [length (ln_cells l)..<length (ln_cells l) + length rqs])"

definition stats :: "lane \<Rightarrow> string \<times> int \<times> bool" where
  "stats l = (ln_actor_id l, int (length (ln_queue l)), ln_active l)"

text \<open>\<open>cancel()\<close> in its two steps: the phase change under the token mutex, then, when this call must
  fulfil the promise, \<open>set_value\<close> outside it.\<close>

definition cancel_cell :: "cell \<Rightarrow> cell \<times> bool" where
  "cancel_cell c = (case cl_tok c of None \<Rightarrow> (c, False)
     | Some t \<Rightarrow> (case cancel t of (t', did, now) \<Rightarrow>
         (c\<lparr>cl_tok := Some t', cl_pend := cl_pend c \<or> now\<rparr>, did)))"

definition settle_cell :: "string \<Rightarrow> int \<Rightarrow> cell \<Rightarrow> cell" where
  "settle_cell actor t c =
     (if cl_pend c then c\<lparr>cl_pend := False, cl_proms := cl_proms c @
        [\<lparr>rs_request_id = '''', rs_actor_id = actor, rs_submit_ns = rq_submit_ns (cl_req c),
          rs_start_ns = t, rs_end_ns = t, rs_enqueue_ns = 0, rs_queue_depth = 0,
          rs_status = ''cancelled'', rs_error = '''', rs_chunks_completed = 0\<rparr>]\<rparr> else c)"

definition cancel_request :: "nat \<Rightarrow> lane \<Rightarrow> lane \<times> bool" where
  "cancel_request i l = (case cancel_cell (ln_cells l ! i) of (c, did) \<Rightarrow>
     (l\<lparr>ln_cells := (ln_cells l)[i := c]\<rparr>, did))"

definition settle_request :: "nat \<Rightarrow> lane \<Rightarrow> lane" where
  "settle_request i l =
     l\<lparr>ln_cells := (ln_cells l)[i := settle_cell (ln_actor_id l) (ln_now l) (ln_cells l ! i)]\<rparr>"

definition request_stop :: "lane \<Rightarrow> lane" where
  "request_stop l = l\<lparr>ln_stop := True\<rparr>"

subsection \<open>The worker's loop\<close>

definition supported_mode :: "string \<Rightarrow> bool" where
  "supported_mode m = (m = ''sleep'' \<or> m = ''spin'')"

definition n_chunks :: "request \<Rightarrow> int" where
  "n_chunks rq = (if rq_chunks rq < 1 then 1 else rq_chunks rq)"

text \<open>
  The least time, in nanoseconds, that a blocking sleep or a spin of \<open>ms\<close> milliseconds takes.
  \<open>sleep_for\<close> and \<open>spin_for\<close> convert the \<open>double\<close> milliseconds to integral nanoseconds: below \<open>2 ^ 53\<close>
  nanoseconds (104 days) the rounded product is not under the floor of the exact one and the deadline
  fits the clock's 64 bits. Nothing is promised of a longer duration, whose conversion may round
  down or overflow, nor of one that is not finite.
\<close>

fun wait_ns :: "pyfloat \<Rightarrow> int" where
  "wait_ns (Fin q) = (if 0 < q \<and> q * 1000000 < 2 ^ 53 then \<lfloor>q * 1000000\<rfloor> else 0)"
| "wait_ns _ = 0"

definition chunk_ns :: "request \<Rightarrow> int" where
  "chunk_ns rq = wait_ns (fdiv_pos (rq_service_ms rq) (of_int (n_chunks rq)))"

definition gap_ns :: "request \<Rightarrow> int" where
  "gap_ns rq = wait_ns (rq_chunk_delay_ms rq)"

definition set_worker :: "worker \<Rightarrow> lane \<Rightarrow> lane" where
  "set_worker w l = l\<lparr>ln_worker := w\<rparr>"

definition set_tok :: "nat \<Rightarrow> token \<Rightarrow> lane \<Rightarrow> lane" where
  "set_tok i t l = l\<lparr>ln_cells := (ln_cells l)[i := (ln_cells l ! i)\<lparr>cl_tok := Some t\<rparr>]\<rparr>"

definition start_chunk :: "item \<Rightarrow> int \<Rightarrow> int \<Rightarrow> lane \<Rightarrow> lane" where
  "start_chunk it c start l = set_worker (WChunk it c start (ln_now l + chunk_ns (it_req it))) l"

text \<open>
  Entry of \<open>service\<close>: the start stamp and the work-mode check, which throws; the handler and the end
  stamp, a clock reading of its own, are the worker's next step.
\<close>

definition refused_row :: "string \<Rightarrow> request \<Rightarrow> int \<Rightarrow> int \<Rightarrow> result" where
  "refused_row actor rq start stop = (blank_result actor rq)
     \<lparr>rs_start_ns := start, rs_end_ns := stop, rs_status := ''failed'',
      rs_error := ''unsupported work_mode: '' @ rq_work_mode rq\<rparr>"

definition service_start :: "item \<Rightarrow> lane \<Rightarrow> lane" where
  "service_start it l =
     (if \<not> supported_mode (rq_work_mode (it_req it))
      then set_worker (WRefused it (ln_now l)) l
      else start_chunk it 0 (ln_now l) l)"

text \<open>The end of chunk \<open>c\<close>'s loop body: the next boundary, or normal completion.\<close>

definition after_chunk :: "item \<Rightarrow> int \<Rightarrow> int \<Rightarrow> lane \<Rightarrow> lane" where
  "after_chunk it c start l =
     (if c + 1 < n_chunks (it_req it) then set_worker (WBoundary it (c + 1) start) l
      else
        let l' = (case cl_tok (ln_cells l ! it_id it) of None \<Rightarrow> l
                  | Some t \<Rightarrow> set_tok (it_id it) (mark_completed t) l)
        in set_worker (WFulfil it ((blank_result (ln_actor_id l) (it_req it))
             \<lparr>rs_start_ns := start, rs_end_ns := ln_now l,
              rs_chunks_completed := n_chunks (it_req it)\<rparr>)) l')"

text \<open>\<open>None\<close>: the worker is blocked (idle, inside a wait) or has left its loop.\<close>

fun worker_step_at :: "worker \<Rightarrow> lane \<Rightarrow> lane option" where
  "worker_step_at WIdle l = (case ln_queue l of
       [] \<Rightarrow> if ln_stop l then Some (set_worker WExited l) else None
     | it # q \<Rightarrow> Some (set_worker (WPopped it)
         (l\<lparr>ln_queue := q, ln_active := True, ln_log := ln_log l @ [it_id it]\<rparr>)))"
| "worker_step_at (WPopped it) l = (case cl_tok (ln_cells l ! it_id it) of
       None \<Rightarrow> Some (service_start it l)
     | Some t \<Rightarrow> (case begin_service (rq_chunks (it_req it)) t of (t', ok) \<Rightarrow>
         if ok then Some (service_start it (set_tok (it_id it) t' l))
         else Some (set_worker WIdle (l\<lparr>ln_active := False\<rparr>))))"
| "worker_step_at (WChunk it c start until) l =
     (if ln_now l < until then None
      else if c + 1 < n_chunks (it_req it) \<and> flt (Fin 0) (rq_chunk_delay_ms (it_req it))
      then Some (set_worker (WGap it c start (ln_now l + gap_ns (it_req it))) l)
      else Some (after_chunk it c start l))"
| "worker_step_at (WGap it c start until) l =
     (if ln_now l < until then None else Some (after_chunk it c start l))"
| "worker_step_at (WBoundary it c start) l = (case cl_tok (ln_cells l ! it_id it) of
       None \<Rightarrow> Some (start_chunk it c start l)
     | Some t \<Rightarrow> (case stop_at_boundary (c = n_chunks (it_req it) - 1) t of (t', stop) \<Rightarrow>
         if stop then Some (set_worker (WFulfil it ((blank_result (ln_actor_id l) (it_req it))
             \<lparr>rs_start_ns := start, rs_end_ns := ln_now l, rs_status := ''cancelled'',
              rs_chunks_completed := c\<rparr>)) (set_tok (it_id it) t' l))
         else Some (start_chunk it c start (set_tok (it_id it) t' l))))"
| "worker_step_at (WRefused it start) l =
     Some (set_worker (WFulfil it (refused_row (ln_actor_id l) (it_req it) start (ln_now l))) l)"
| "worker_step_at (WFulfil it r) l = Some (set_worker WClear
     (l\<lparr>ln_cells := (ln_cells l)[it_id it := (ln_cells l ! it_id it)
        \<lparr>cl_proms := cl_proms (ln_cells l ! it_id it) @
           [r\<lparr>rs_enqueue_ns := it_enqueue_ns it, rs_queue_depth := it_depth it\<rparr>]\<rparr>]\<rparr>))"
| "worker_step_at WClear l = Some (set_worker WIdle (l\<lparr>ln_active := False\<rparr>))"
| "worker_step_at WExited l = None"

definition worker_step :: "lane \<Rightarrow> lane option" where
  "worker_step l = worker_step_at (ln_worker l) l"

lemmas lane_op_defs = push_item_def cancel_cell_def settle_cell_def cancel_request_def
  settle_request_def request_stop_def set_worker_def set_tok_def start_chunk_def
  service_start_def refused_row_def after_chunk_def blank_result_def

declare set_worker_def [lane_defs] set_tok_def [lane_defs] start_chunk_def [lane_defs]
  refused_row_def [lane_defs]
  after_chunk_def [lane_defs] service_start_def [lane_defs] blank_result_def [lane_defs]

text \<open>
  Every interleaving: client calls (submissions end up as \<open>push_item\<close>), the two halves of a
  cancellation, the destructor's stop flag, the clock and the worker. No client submits to a lane
  that is being destroyed: the engines clear their running flag first.
\<close>

inductive lane_step :: "lane \<Rightarrow> lane \<Rightarrow> bool" where
  Push: "\<not> ln_stop l \<Longrightarrow> lane_step l (push_item rq has_tok l)"
| Cancel: "i < length (ln_cells l) \<Longrightarrow> lane_step l (fst (cancel_request i l))"
| Settle: "i < length (ln_cells l) \<Longrightarrow> lane_step l (settle_request i l)"
| Stop: "lane_step l (request_stop l)"
| Tick: "0 \<le> d \<Longrightarrow> lane_step l (l\<lparr>ln_now := ln_now l + d\<rparr>)"
| Work: "worker_step l = Some l' \<Longrightarrow> lane_step l l'"

inductive lane_reachable :: "lane \<Rightarrow> bool" where
  New: "lane_reachable (new_lane actor diag t)"
| Step: "lane_reachable l \<Longrightarrow> lane_step l l' \<Longrightarrow> lane_reachable l'"

end
