(* ===== verification/ServiceLaneInv.thy ===== *)
theory ServiceLaneInv
  imports ServiceLane
begin

text \<open>
  The invariant of a service lane over every interleaving of \<open>lane_step\<close>: each request is in exactly
  one stage (waiting, in service, done), its promise is set at most once, and the row it gets agrees
  with what became of its token.
\<close>

subsection \<open>Stages of a request\<close>

definition row_ok :: "string \<Rightarrow> request \<Rightarrow> token option \<Rightarrow> result \<Rightarrow> bool" where
  "row_ok actor rq tk r \<longleftrightarrow>
     rs_actor_id r = actor \<and> rs_submit_ns r = rq_submit_ns rq \<and>
     (rs_status r = ''completed'' \<and> supported_mode (rq_work_mode rq) \<and> rs_error r = ''''
        \<and> rs_chunks_completed r = n_chunks rq
        \<and> n_chunks rq * chunk_ns rq + (n_chunks rq - 1) * gap_ns rq \<le> rs_end_ns r - rs_start_ns r
        \<and> (\<forall>t. tk = Some t \<longrightarrow> tk_phase t = Completed)
    \<or> rs_status r = ''cancelled'' \<and> rs_error r = '''' \<and> (\<exists>t. tk = Some t \<and> tk_phase t = Cancelled)
        \<and> (rs_chunks_completed r = 0 \<and> rs_start_ns r = rs_end_ns r
           \<or> 1 \<le> rs_chunks_completed r \<and> rs_chunks_completed r < n_chunks rq
             \<and> rs_chunks_completed r * (chunk_ns rq + gap_ns rq) \<le> rs_end_ns r - rs_start_ns r)
    \<or> rs_status r = ''failed'' \<and> \<not> supported_mode (rq_work_mode rq) \<and> rs_error r \<noteq> ''''
        \<and> rs_chunks_completed r = 0 \<and> rs_start_ns r \<le> rs_end_ns r
        \<and> (\<forall>t. tk = Some t \<longrightarrow> tk_phase t = Running \<or> tk_phase t = StopRequested))"

text \<open>A queued cancellation won: its row is set, or the canceller is about to set it.\<close>

definition cell_skipped :: "string \<Rightarrow> cell \<Rightarrow> bool" where
  "cell_skipped actor c \<longleftrightarrow> (\<exists>t. cl_tok c = Some t \<and> tk_phase t = Cancelled) \<and>
     (cl_pend c \<and> cl_proms c = []
      \<or> \<not> cl_pend c \<and> (\<exists>r. cl_proms c = [r] \<and> rs_status r = ''cancelled'' \<and> rs_error r = ''''
            \<and> rs_chunks_completed r = 0 \<and> rs_start_ns r = rs_end_ns r
            \<and> rs_actor_id r = actor \<and> rs_submit_ns r = rq_submit_ns (cl_req c)))"

definition cell_waiting :: "string \<Rightarrow> cell \<Rightarrow> bool" where
  "cell_waiting actor c \<longleftrightarrow> cell_skipped actor c
     \<or> \<not> cl_pend c \<and> cl_proms c = [] \<and> (\<forall>t. cl_tok c = Some t \<longrightarrow> tk_phase t = Queued)"

text \<open>In service, chunk \<open>i\<close> (from 0) running or just over.\<close>

definition cell_serving :: "int \<Rightarrow> cell \<Rightarrow> bool" where
  "cell_serving i c \<longleftrightarrow> \<not> cl_pend c \<and> cl_proms c = [] \<and> supported_mode (rq_work_mode (cl_req c))
     \<and> 0 \<le> i \<and> i < n_chunks (cl_req c)
     \<and> (\<forall>t. cl_tok c = Some t \<longrightarrow>
          tk_phase t = Running \<and> tk_cancellable t = (i < n_chunks (cl_req c) - 1)
          \<or> tk_phase t = StopRequested \<and> i < n_chunks (cl_req c) - 1)"

definition cell_done :: "string \<Rightarrow> cell \<Rightarrow> bool" where
  "cell_done actor c \<longleftrightarrow> cell_skipped actor c
     \<or> \<not> cl_pend c \<and> (\<exists>r. cl_proms c = [r] \<and> row_ok actor (cl_req c) (cl_tok c) r)"

definition cell_fulfilling :: "string \<Rightarrow> result \<Rightarrow> cell \<Rightarrow> bool" where
  "cell_fulfilling actor r c \<longleftrightarrow> \<not> cl_pend c \<and> cl_proms c = [] \<and> row_ok actor (cl_req c) (cl_tok c) r"

lemmas cell_defs = cell_skipped_def cell_waiting_def cell_serving_def cell_done_def
  cell_fulfilling_def

text \<open>A client's cancellation, in either half, keeps the stage.\<close>

lemma cancel_cell_req [simp]: "cl_req (fst (cancel_cell c)) = cl_req c"
  by (auto simp: cancel_cell_def split: option.splits prod.splits)

lemma cancel_cell_has_tok [simp]: "(cl_tok (fst (cancel_cell c)) = None) = (cl_tok c = None)"
  by (auto simp: cancel_cell_def split: option.splits prod.splits)

lemma settle_cell_req [simp]: "cl_req (settle_cell a n c) = cl_req c"
  by (simp add: settle_cell_def)

lemma settle_cell_tok [simp]: "cl_tok (settle_cell a n c) = cl_tok c"
  by (simp add: settle_cell_def)

lemma cancel_skipped: "cell_skipped a c \<Longrightarrow> fst (cancel_cell c) = c \<and> \<not> snd (cancel_cell c)"
  by (auto simp: cell_skipped_def cancel_cell_def cancel_def)

lemma cancel_keeps_skipped: "cell_skipped a c \<Longrightarrow> cell_skipped a (fst (cancel_cell c))"
  using cancel_skipped by simp

lemma cancel_keeps_waiting: "cell_waiting a c \<Longrightarrow> cell_waiting a (fst (cancel_cell c))"
  using cancel_skipped [of a c]
  by (auto simp: cell_waiting_def)
    (auto simp: cell_skipped_def cancel_cell_def cancel_def split: option.splits if_splits)

lemma cancel_keeps_serving: "cell_serving i c \<Longrightarrow> cell_serving i (fst (cancel_cell c))"
  by (cases "cl_tok c") (auto simp: cell_serving_def cancel_cell_def cancel_def)

lemma row_ok_no_tok: "row_ok a rq None r \<Longrightarrow> rs_status r \<noteq> ''cancelled''"
  by (auto simp: row_ok_def)

lemma cancel_keeps_row:
  assumes "\<not> cl_pend c" "row_ok a (cl_req c) (cl_tok c) r"
  shows "\<not> cl_pend (fst (cancel_cell c))
       \<and> cl_proms (fst (cancel_cell c)) = cl_proms c
       \<and> row_ok a (cl_req c) (cl_tok (fst (cancel_cell c))) r"
  using assms by (cases "cl_tok c") (auto simp: row_ok_def cancel_cell_def cancel_def)

lemma cancel_keeps_done: "cell_done a c \<Longrightarrow> cell_done a (fst (cancel_cell c))"
  using cancel_keeps_skipped [of a c] cancel_keeps_row [of c a]
  by (auto simp: cell_done_def)

lemma cancel_keeps_fulfilling: "cell_fulfilling a r c \<Longrightarrow> cell_fulfilling a r (fst (cancel_cell c))"
  using cancel_keeps_row [of c a r] by (auto simp: cell_fulfilling_def)

lemma settle_keeps_skipped: "cell_skipped a c \<Longrightarrow> cell_skipped a (settle_cell a n c)"
  by (auto simp: cell_skipped_def settle_cell_def)

lemma settle_id: "\<not> cl_pend c \<Longrightarrow> settle_cell a n c = c"
  by (simp add: settle_cell_def)

lemma settle_keeps_stage:
  "cell_waiting a c \<Longrightarrow> cell_waiting a (settle_cell a n c)"
  "cell_serving i c \<Longrightarrow> cell_serving i (settle_cell a n c)"
  "cell_done a c \<Longrightarrow> cell_done a (settle_cell a n c)"
  "cell_fulfilling a r c \<Longrightarrow> cell_fulfilling a r (settle_cell a n c)"
proof -
  show "cell_waiting a c \<Longrightarrow> cell_waiting a (settle_cell a n c)"
    using settle_keeps_skipped [of a c n] by (auto simp: cell_waiting_def settle_id)
  show "cell_serving i c \<Longrightarrow> cell_serving i (settle_cell a n c)"
    by (auto simp: cell_serving_def settle_id)
  show "cell_done a c \<Longrightarrow> cell_done a (settle_cell a n c)"
    using settle_keeps_skipped [of a c n] by (auto simp: cell_done_def settle_id)
  show "cell_fulfilling a r c \<Longrightarrow> cell_fulfilling a r (settle_cell a n c)"
    by (auto simp: cell_fulfilling_def settle_id)
qed

subsection \<open>The invariant\<close>

text \<open>The request the worker holds, and the part of the log it is done with.\<close>

fun worker_item :: "worker \<Rightarrow> item option" where
  "worker_item (WPopped it) = Some it"
| "worker_item (WChunk it c start until) = Some it"
| "worker_item (WGap it c start until) = Some it"
| "worker_item (WBoundary it c start) = Some it"
| "worker_item (WRefused it start) = Some it"
| "worker_item (WFulfil it r) = Some it"
| "worker_item w = None"

definition held :: "lane \<Rightarrow> nat list" where
  "held l = (case worker_item (ln_worker l) of None \<Rightarrow> [] | Some it \<Rightarrow> [it_id it])"

definition item_ok :: "lane \<Rightarrow> item \<Rightarrow> bool" where
  "item_ok l it \<longleftrightarrow> it_id it < length (ln_cells l) \<and> cl_req (ln_cells l ! it_id it) = it_req it
     \<and> it_tok it = (cl_tok (ln_cells l ! it_id it) \<noteq> None)"

fun stage_ok :: "worker \<Rightarrow> lane \<Rightarrow> bool" where
  "stage_ok (WPopped it) l = cell_waiting (ln_actor_id l) (ln_cells l ! it_id it)"
| "stage_ok (WChunk it c start until) l = (cell_serving c (ln_cells l ! it_id it)
     \<and> start + (c + 1) * chunk_ns (it_req it) + c * gap_ns (it_req it) \<le> until)"
| "stage_ok (WGap it c start until) l = (cell_serving c (ln_cells l ! it_id it)
     \<and> c + 1 < n_chunks (it_req it)
     \<and> start + (c + 1) * chunk_ns (it_req it) + (c + 1) * gap_ns (it_req it) \<le> until)"
| "stage_ok (WBoundary it c start) l = (cell_serving (c - 1) (ln_cells l ! it_id it)
     \<and> 1 \<le> c \<and> c < n_chunks (it_req it)
     \<and> start + c * (chunk_ns (it_req it) + gap_ns (it_req it)) \<le> ln_now l)"
| "stage_ok (WRefused it start) l = (start \<le> ln_now l \<and> (\<forall>t \<ge> start.
     cell_fulfilling (ln_actor_id l) (refused_row (ln_actor_id l) (it_req it) start t)
       (ln_cells l ! it_id it)))"
| "stage_ok (WFulfil it r) l = cell_fulfilling (ln_actor_id l) r (ln_cells l ! it_id it)"
| "stage_ok WExited l = (ln_stop l \<and> ln_queue l = [])"
| "stage_ok w l = True"

definition lane_inv :: "lane \<Rightarrow> bool" where
  "lane_inv l \<longleftrightarrow>
     ln_log l @ map it_id (ln_queue l) = [0..<length (ln_cells l)]
     \<and> (\<exists>past. ln_log l = past @ held l
          \<and> (\<forall>i \<in> set past. cell_done (ln_actor_id l) (ln_cells l ! i)))
     \<and> (\<forall>it \<in> set (ln_queue l). item_ok l it \<and> cell_waiting (ln_actor_id l) (ln_cells l ! it_id it))
     \<and> (\<forall>it. worker_item (ln_worker l) = Some it \<longrightarrow> item_ok l it)
     \<and> stage_ok (ln_worker l) l
     \<and> ln_active l = (ln_worker l \<notin> {WIdle, WExited})"

lemma lane_inv_new: "lane_inv (new_lane actor diag t)"
  by (simp add: lane_inv_def new_lane_def held_def)

lemma held_fresh:
  assumes "lane_inv l" and "worker_item (ln_worker l) = Some it" and "ln_log l = past @ held l"
  shows "it_id it \<notin> set past" and "it_id it \<notin> it_id ` set (ln_queue l)"
    and "it_id it < length (ln_cells l)"
proof -
  have "distinct (ln_log l @ map it_id (ln_queue l))"
    using assms(1) by (simp add: lane_inv_def)
  then show "it_id it \<notin> set past" "it_id it \<notin> it_id ` set (ln_queue l)"
    using assms(2,3) by (auto simp: held_def)
  show "it_id it < length (ln_cells l)"
    using assms(1,2) by (auto simp: lane_inv_def item_ok_def)
qed

text \<open>The worker moves on with the same request, whose cell becomes \<open>c'\<close>.\<close>

lemma inv_work:
  assumes inv: "lane_inv l" and w: "worker_item (ln_worker l) = Some it"
    and same: "ln_actor_id l' = ln_actor_id l" "ln_log l' = ln_log l" "ln_queue l' = ln_queue l"
    and cells: "ln_cells l' = (ln_cells l)[it_id it := c']"
    and c': "cl_req c' = cl_req (ln_cells l ! it_id it)"
      "(cl_tok c' = None) = (cl_tok (ln_cells l ! it_id it) = None)"
    and w': "worker_item (ln_worker l') = Some it" and st: "stage_ok (ln_worker l') l'"
    and act: "ln_active l'"
  shows "lane_inv l'"
proof -
  obtain past where past: "ln_log l = past @ held l"
    "\<forall>i \<in> set past. cell_done (ln_actor_id l) (ln_cells l ! i)"
    using inv by (auto simp: lane_inv_def)
  note fresh = held_fresh [OF inv w past(1)]
  have it: "item_ok l it" using inv w by (simp add: lane_inv_def)
  have held: "held l' = held l" by (simp add: held_def w w')
  have "\<exists>past. ln_log l' = past @ held l'
      \<and> (\<forall>i \<in> set past. cell_done (ln_actor_id l') (ln_cells l' ! i))"
    using past fresh by (intro exI [of _ past]) (auto simp: same held cells nth_list_update)
  moreover have "\<forall>x \<in> set (ln_queue l'). item_ok l' x
      \<and> cell_waiting (ln_actor_id l') (ln_cells l' ! it_id x)"
  proof
    fix x assume "x \<in> set (ln_queue l')"
    then have x: "x \<in> set (ln_queue l)" by (simp add: same)
    then have "it_id x \<noteq> it_id it" using fresh(2) by (metis imageI)
    then show "item_ok l' x \<and> cell_waiting (ln_actor_id l') (ln_cells l' ! it_id x)"
      using inv x by (auto simp: lane_inv_def item_ok_def same cells)
  qed
  moreover have "item_ok l' it"
    using it c' fresh(3) by (auto simp: item_ok_def cells)
  moreover have "ln_active l' = (ln_worker l' \<notin> {WIdle, WExited})"
    using act w' by auto
  ultimately show ?thesis
    using inv st w' by (simp add: lane_inv_def same cells)
qed

text \<open>The worker is done with its request.\<close>

lemma inv_retire:
  assumes inv: "lane_inv l" and w: "worker_item (ln_worker l) = Some it"
    and same: "ln_actor_id l' = ln_actor_id l" "ln_log l' = ln_log l" "ln_queue l' = ln_queue l"
    and cells: "ln_cells l' = (ln_cells l)[it_id it := c']"
    and c': "cell_done (ln_actor_id l) c'"
    and w': "ln_worker l' = WClear \<and> ln_active l' \<or> ln_worker l' = WIdle \<and> \<not> ln_active l'"
  shows "lane_inv l'"
proof -
  obtain past where past: "ln_log l = past @ held l"
    "\<forall>i \<in> set past. cell_done (ln_actor_id l) (ln_cells l ! i)"
    using inv by (auto simp: lane_inv_def)
  note fresh = held_fresh [OF inv w past(1)]
  have "\<exists>past. ln_log l' = past @ held l'
      \<and> (\<forall>i \<in> set past. cell_done (ln_actor_id l') (ln_cells l' ! i))"
    using past fresh w' c' w
    by (intro exI [of _ "ln_log l"]) (auto simp: same held_def cells nth_list_update)
  moreover have "\<forall>x \<in> set (ln_queue l'). item_ok l' x
      \<and> cell_waiting (ln_actor_id l') (ln_cells l' ! it_id x)"
  proof
    fix x assume "x \<in> set (ln_queue l')"
    then have x: "x \<in> set (ln_queue l)" by (simp add: same)
    then have "it_id x \<noteq> it_id it" using fresh(2) by (metis imageI)
    then show "item_ok l' x \<and> cell_waiting (ln_actor_id l') (ln_cells l' ! it_id x)"
      using inv x by (auto simp: lane_inv_def item_ok_def same cells)
  qed
  ultimately show ?thesis
    using inv w' by (auto simp: lane_inv_def same cells)
qed

text \<open>A client changes one cell in a way that keeps its stage.\<close>

lemma inv_client:
  assumes inv: "lane_inv l" and i: "i < length (ln_cells l)"
    and f: "\<And>c. cl_req (f c) = cl_req c" "\<And>c. (cl_tok (f c) = None) = (cl_tok c = None)"
      "\<And>c. cell_waiting (ln_actor_id l) c \<Longrightarrow> cell_waiting (ln_actor_id l) (f c)"
      "\<And>k c. cell_serving k c \<Longrightarrow> cell_serving k (f c)"
      "\<And>c. cell_done (ln_actor_id l) c \<Longrightarrow> cell_done (ln_actor_id l) (f c)"
      "\<And>r c. cell_fulfilling (ln_actor_id l) r c \<Longrightarrow> cell_fulfilling (ln_actor_id l) r (f c)"
  shows "lane_inv (l\<lparr>ln_cells := (ln_cells l)[i := f (ln_cells l ! i)]\<rparr>)"
proof -
  let ?l = "l\<lparr>ln_cells := (ln_cells l)[i := f (ln_cells l ! i)]\<rparr>"
  have item: "item_ok l it \<Longrightarrow> item_ok ?l it" for it
    using i by (cases "it_id it = i") (simp_all add: item_ok_def f(1,2) del: not_None_eq)
  have nth: "P (ln_cells l ! k) \<Longrightarrow> (\<And>c. P c \<Longrightarrow> P (f c)) \<Longrightarrow> P (ln_cells ?l ! k)" for P k
    using i by (cases "k = i") auto
  have stage: "stage_ok (ln_worker l) l \<Longrightarrow> stage_ok (ln_worker ?l) ?l"
    using i f(3-6) by (cases "ln_worker l") (auto simp: nth_list_update)
  obtain past where past: "ln_log l = past @ held l"
    "\<forall>i \<in> set past. cell_done (ln_actor_id l) (ln_cells l ! i)"
    using inv by (auto simp: lane_inv_def)
  have "\<exists>past. ln_log ?l = past @ held ?l
      \<and> (\<forall>k \<in> set past. cell_done (ln_actor_id ?l) (ln_cells ?l ! k))"
  proof (intro exI conjI ballI)
    show "ln_log ?l = past @ held ?l" using past(1) by (simp add: held_def)
    fix k assume "k \<in> set past"
    then have "cell_done (ln_actor_id l) (ln_cells l ! k)" using past(2) by blast
    then show "cell_done (ln_actor_id ?l) (ln_cells ?l ! k)"
      using nth [of "cell_done (ln_actor_id l)" k] f(5) by simp
  qed
  moreover have "\<forall>it \<in> set (ln_queue ?l). item_ok ?l it
      \<and> cell_waiting (ln_actor_id ?l) (ln_cells ?l ! it_id it)"
  proof
    fix it assume "it \<in> set (ln_queue ?l)"
    then have "item_ok l it" "cell_waiting (ln_actor_id l) (ln_cells l ! it_id it)"
      using inv by (auto simp: lane_inv_def)
    then show "item_ok ?l it \<and> cell_waiting (ln_actor_id ?l) (ln_cells ?l ! it_id it)"
      using item nth [of "cell_waiting (ln_actor_id l)" "it_id it"] f(3) by simp
  qed
  ultimately show ?thesis
    using inv item stage by (simp add: lane_inv_def)
qed

subsection \<open>Every step keeps the invariant\<close>

lemma lane_inv_push:
  assumes inv: "lane_inv l" and "\<not> ln_stop l"
  shows "lane_inv (push_item rq has_tok l)"
proof -
  let ?l = "push_item rq has_tok l" and ?n = "length (ln_cells l)"
  obtain past where past: "ln_log l = past @ held l"
    "\<forall>i \<in> set past. cell_done (ln_actor_id l) (ln_cells l ! i)"
    using inv by (auto simp: lane_inv_def)
  have ids: "set (ln_log l) \<subseteq> {..<?n}" "set (map it_id (ln_queue l)) \<subseteq> {..<?n}"
  proof -
    have "set (ln_log l @ map it_id (ln_queue l)) = {..<?n}"
      using inv by (simp only: lane_inv_def set_upt) auto
    then show "set (ln_log l) \<subseteq> {..<?n}" "set (map it_id (ln_queue l)) \<subseteq> {..<?n}" by auto
  qed
  have item: "item_ok l it \<Longrightarrow> item_ok ?l it" for it
    by (auto simp: item_ok_def push_item_def nth_append)
  have stage: "stage_ok (ln_worker ?l) ?l"
  proof -
    have "worker_item (ln_worker l) = Some it \<Longrightarrow> it_id it < ?n" for it
      using inv by (simp add: lane_inv_def item_ok_def)
    then show ?thesis
      using inv assms(2) by (cases "ln_worker l") (auto simp: lane_inv_def push_item_def nth_append)
  qed
  have "\<exists>past. ln_log ?l = past @ held ?l
      \<and> (\<forall>k \<in> set past. cell_done (ln_actor_id ?l) (ln_cells ?l ! k))"
    using past ids(1) by (intro exI [of _ past]) (auto simp: push_item_def held_def nth_append)
  moreover have "\<forall>it \<in> set (ln_queue ?l). item_ok ?l it
      \<and> cell_waiting (ln_actor_id ?l) (ln_cells ?l ! it_id it)"
  proof
    fix it assume "it \<in> set (ln_queue ?l)"
    then consider (old) "it \<in> set (ln_queue l)" | (new) "it_id it = ?n" "it_req it = rq" "it_tok it = has_tok"
      by (auto simp: push_item_def)
    then show "item_ok ?l it \<and> cell_waiting (ln_actor_id ?l) (ln_cells ?l ! it_id it)"
    proof cases
      case old
      then have "item_ok l it" "cell_waiting (ln_actor_id l) (ln_cells l ! it_id it)"
        using inv by (auto simp: lane_inv_def)
      then show ?thesis using item by (simp add: push_item_def nth_append item_ok_def)
    next
      case new
      then show ?thesis
        by (auto simp: item_ok_def push_item_def cell_waiting_def new_token_def)
    qed
  qed
  moreover have "ln_log ?l @ map it_id (ln_queue ?l) = [0..<length (ln_cells ?l)]"
    using inv by (simp add: lane_inv_def push_item_def flip: append_assoc)
  ultimately show ?thesis
    using inv item stage unfolding lane_inv_def by (simp add: push_item_def)
qed

lemma lane_inv_cancel: "lane_inv l \<Longrightarrow> i < length (ln_cells l) \<Longrightarrow> lane_inv (fst (cancel_request i l))"
  using inv_client [of l i "\<lambda>c. fst (cancel_cell c)"]
  by (simp add: cancel_request_def case_prod_unfold cancel_keeps_waiting cancel_keeps_serving
      cancel_keeps_done cancel_keeps_fulfilling)

lemma lane_inv_settle: "lane_inv l \<Longrightarrow> i < length (ln_cells l) \<Longrightarrow> lane_inv (settle_request i l)"
  using inv_client [of l i "settle_cell (ln_actor_id l) (ln_now l)"]
  by (simp add: settle_request_def settle_keeps_stage)

lemma lane_inv_stop: "lane_inv l \<Longrightarrow> lane_inv (request_stop l)"
  by (cases "ln_worker l") (auto simp: lane_inv_def request_stop_def item_ok_def held_def)

lemma lane_inv_tick: "lane_inv l \<Longrightarrow> 0 \<le> d \<Longrightarrow> lane_inv (l\<lparr>ln_now := ln_now l + d\<rparr>)"
  by (cases "ln_worker l") (auto simp: lane_inv_def item_ok_def held_def)

text \<open>The worker's steps, one lemma per place in the loop.\<close>

lemma lane_inv_pop:
  assumes inv: "lane_inv l" and w: "ln_worker l = WIdle" and q: "ln_queue l = it # q"
  shows "lane_inv (set_worker (WPopped it)
           (l\<lparr>ln_queue := q, ln_active := True, ln_log := ln_log l @ [it_id it]\<rparr>))"
proof -
  have "\<exists>past. ln_log l = past \<and> (\<forall>i \<in> set past. cell_done (ln_actor_id l) (ln_cells l ! i))"
    using inv w by (auto simp: lane_inv_def held_def)
  then show ?thesis
    using inv w q by (auto simp: lane_inv_def set_worker_def held_def item_ok_def)
qed

lemma lane_inv_service_start:
  assumes inv: "lane_inv l" and w: "ln_worker l = WPopped it"
    and c: "\<not> cl_pend c" "cl_proms c = []" "cl_req c = it_req it"
      "(cl_tok c = None) = (cl_tok (ln_cells l ! it_id it) = None)"
      "\<forall>t. cl_tok c = Some t \<longrightarrow> tk_phase t = Running \<and> tk_cancellable t = (0 < n_chunks (it_req it) - 1)"
  shows "lane_inv (service_start it (l\<lparr>ln_cells := (ln_cells l)[it_id it := c]\<rparr>))"
proof -
  have it: "item_ok l it" and act: "ln_active l" using inv w by (auto simp: lane_inv_def)
  have n: "0 < n_chunks (it_req it)" by (simp add: n_chunks_def)
  show ?thesis
    by (rule inv_work [OF inv, where it = it and c' = c])
      (use w c it act n in \<open>auto simp: lane_defs item_ok_def cell_serving_def cell_fulfilling_def
        row_ok_def\<close>)
qed

lemma lane_inv_after_chunk:
  assumes inv: "lane_inv l" and w: "worker_item (ln_worker l) = Some it"
    and cell: "cell_serving c (ln_cells l ! it_id it)" and act: "ln_active l"
    and t: "c + 1 < n_chunks (it_req it) \<Longrightarrow>
              start + (c + 1) * (chunk_ns (it_req it) + gap_ns (it_req it)) \<le> ln_now l"
      "start + (c + 1) * chunk_ns (it_req it) + c * gap_ns (it_req it) \<le> ln_now l"
  shows "lane_inv (after_chunk it c start l)"
proof (cases "c + 1 < n_chunks (it_req it)")
  case True
  have it: "item_ok l it" using inv w by (simp add: lane_inv_def)
  show ?thesis
    by (rule inv_work [OF inv w, where c' = "ln_cells l ! it_id it"])
      (use True cell act it t(1) in \<open>auto simp: lane_defs item_ok_def cell_serving_def\<close>)
next
  case False
  have it: "item_ok l it" using inv w by (simp add: lane_inv_def)
  then have req: "cl_req (ln_cells l ! it_id it) = it_req it" "it_id it < length (ln_cells l)"
    by (auto simp: item_ok_def)
  have c: "c = n_chunks (it_req it) - 1" using False cell req by (auto simp: cell_serving_def)
  have time: "n_chunks (it_req it) * chunk_ns (it_req it) + (n_chunks (it_req it) - 1) * gap_ns (it_req it)
      \<le> ln_now l - start"
    using t(2) c by (simp add: algebra_simps)
  define cell' where "cell' = (case cl_tok (ln_cells l ! it_id it) of None \<Rightarrow> ln_cells l ! it_id it
    | Some t \<Rightarrow> (ln_cells l ! it_id it)\<lparr>cl_tok := Some (mark_completed t)\<rparr>)"
  show ?thesis
    by (rule inv_work [OF inv w, where c' = cell'])
      (use False cell act req time c in \<open>auto simp: lane_defs cell'_def cell_serving_def
        cell_fulfilling_def row_ok_def mark_completed_def Let_def split: option.splits\<close>)
qed

lemma lane_inv_popped:
  assumes inv: "lane_inv l" and w: "ln_worker l = WPopped it"
    and step: "worker_step_at (WPopped it) l = Some l'"
  shows "lane_inv l'"
proof -
  let ?c = "ln_cells l ! it_id it"
  have it: "item_ok l it" and wait: "cell_waiting (ln_actor_id l) ?c"
    using inv w by (auto simp: lane_inv_def)
  then have req: "cl_req ?c = it_req it" by (simp add: item_ok_def)
  consider (skip) "cell_skipped (ln_actor_id l) ?c" | (notok) "\<not> cl_pend ?c" "cl_proms ?c = []" "cl_tok ?c = None"
    | (tok) t where "\<not> cl_pend ?c" "cl_proms ?c = []" "cl_tok ?c = Some t" "tk_phase t = Queued"
    using wait by (cases "cl_tok ?c") (auto simp: cell_waiting_def)
  then show ?thesis
  proof cases
    case skip
    then have "l' = set_worker WIdle (l\<lparr>ln_active := False\<rparr>)"
      using step by (auto simp: cell_skipped_def begin_service_def)
    moreover have "cell_done (ln_actor_id l) ?c" using skip by (simp add: cell_done_def)
    ultimately show ?thesis
      using inv_retire [OF inv, of it "set_worker WIdle (l\<lparr>ln_active := False\<rparr>)" ?c] w
      by (simp add: set_worker_def)
  next
    case notok
    then have "l' = service_start it l" using step by simp
    moreover have "lane_inv (service_start it (l\<lparr>ln_cells := (ln_cells l)[it_id it := ?c]\<rparr>))"
      by (rule lane_inv_service_start [OF inv w]) (use notok req in auto)
    ultimately show ?thesis by simp
  next
    case tok
    define c where "c = ?c\<lparr>cl_tok := Some (fst (begin_service (rq_chunks (it_req it)) t))\<rparr>"
    have "l' = service_start it (l\<lparr>ln_cells := (ln_cells l)[it_id it := c]\<rparr>)"
      using step tok by (auto simp: begin_service_def set_tok_def c_def)
    moreover have "lane_inv (service_start it (l\<lparr>ln_cells := (ln_cells l)[it_id it := c]\<rparr>))"
      by (rule lane_inv_service_start [OF inv w])
        (use tok req in \<open>auto simp: c_def begin_service_def n_chunks_def\<close>)
    ultimately show ?thesis by simp
  qed
qed

lemma lane_inv_boundary:
  assumes inv: "lane_inv l" and w: "ln_worker l = WBoundary it c start"
    and step: "worker_step_at (WBoundary it c start) l = Some l'"
  shows "lane_inv l'"
proof -
  let ?c = "ln_cells l ! it_id it" and ?rq = "it_req it"
  have it: "item_ok l it" and st: "cell_serving (c - 1) ?c" "1 \<le> c" "c < n_chunks ?rq"
      "start + c * (chunk_ns ?rq + gap_ns ?rq) \<le> ln_now l" and act: "ln_active l"
    using inv w by (auto simp: lane_inv_def)
  then have req: "cl_req ?c = ?rq" "it_id it < length (ln_cells l)" by (auto simp: item_ok_def)
  have time: "start + (c + 1) * chunk_ns ?rq + c * gap_ns ?rq \<le> ln_now l + chunk_ns ?rq"
    using st(4) by (simp add: algebra_simps)
  show ?thesis
  proof (cases "cl_tok ?c")
    case None
    then have l': "l' = start_chunk it c start l" using step by simp
    show ?thesis unfolding l'
      by (rule inv_work [OF inv, where it = it and c' = ?c])
        (use w None act st time req in \<open>auto simp: lane_defs cell_serving_def\<close>)
  next
    case (Some t)
    define t' where "t' = fst (stop_at_boundary (c = n_chunks ?rq - 1) t)"
    show ?thesis
    proof (cases "tk_phase t = StopRequested")
      case True
      then have l': "l' = set_worker (WFulfil it ((blank_result (ln_actor_id l) ?rq)
             \<lparr>rs_start_ns := start, rs_end_ns := ln_now l, rs_status := ''cancelled'',
              rs_chunks_completed := c\<rparr>)) (set_tok (it_id it) t' l)"
        using step Some by (auto simp: stop_at_boundary_def t'_def)
      show ?thesis unfolding l'
        by (rule inv_work [OF inv, where it = it and c' = "?c\<lparr>cl_tok := Some t'\<rparr>"])
          (use w Some True act st req in \<open>auto simp: lane_defs cell_serving_def cell_fulfilling_def
            row_ok_def t'_def stop_at_boundary_def\<close>)
    next
      case False
      then have run: "tk_phase t = Running" using st(1) Some by (auto simp: cell_serving_def)
      have l': "l' = start_chunk it c start (set_tok (it_id it) t' l)"
        using step Some False by (auto simp: stop_at_boundary_def t'_def split: if_splits)
      show ?thesis unfolding l'
        by (rule inv_work [OF inv, where it = it and c' = "?c\<lparr>cl_tok := Some t'\<rparr>"])
          (use w Some run act st time req in \<open>auto simp: lane_defs cell_serving_def t'_def
            stop_at_boundary_def\<close>)
    qed
  qed
qed

lemma row_ok_stamp:
  "row_ok a rq tk r \<Longrightarrow> row_ok a rq tk (r\<lparr>rs_enqueue_ns := e, rs_queue_depth := d\<rparr>)"
  by (simp add: row_ok_def)

lemma lane_inv_fulfil:
  assumes inv: "lane_inv l" and w: "ln_worker l = WFulfil it r"
    and step: "worker_step_at (WFulfil it r) l = Some l'"
  shows "lane_inv l'"
proof -
  have "cell_fulfilling (ln_actor_id l) r (ln_cells l ! it_id it)" "ln_active l"
    using inv w by (auto simp: lane_inv_def)
  then have "cell_done (ln_actor_id l) ((ln_cells l ! it_id it)\<lparr>cl_proms := cl_proms (ln_cells l ! it_id it)
      @ [r\<lparr>rs_enqueue_ns := it_enqueue_ns it, rs_queue_depth := it_depth it\<rparr>]\<rparr>)"
    using row_ok_stamp by (auto simp: cell_fulfilling_def cell_done_def)
  from inv_retire [OF inv _ _ _ _ _ this, of it l'] show ?thesis
    using step w \<open>ln_active l\<close> by (auto simp: set_worker_def)
qed

lemma lane_inv_refused:
  assumes inv: "lane_inv l" and w: "ln_worker l = WRefused it start"
    and step: "worker_step_at (WRefused it start) l = Some l'"
  shows "lane_inv l'"
proof -
  have "ln_active l" "start \<le> ln_now l" "\<forall>t \<ge> start. cell_fulfilling (ln_actor_id l)
      (refused_row (ln_actor_id l) (it_req it) start t) (ln_cells l ! it_id it)"
    using inv w by (auto simp: lane_inv_def)
  then show ?thesis
    using w step by (intro inv_work [OF inv, where it = it and c' = "ln_cells l ! it_id it"])
      (auto simp: set_worker_def)
qed

lemma lane_inv_work:
  assumes inv: "lane_inv l" and step: "worker_step l = Some l'"
  shows "lane_inv l'"
proof (cases "ln_worker l")
  case WIdle
  then show ?thesis
    using step inv lane_inv_pop [OF inv WIdle]
    by (auto simp: worker_step_def lane_inv_def set_worker_def held_def item_ok_def
        split: list.splits if_splits)
next
  case (WPopped it)
  then show ?thesis using step lane_inv_popped [OF inv] by (simp add: worker_step_def)
next
  case (WChunk it c start until)
  have st: "cell_serving c (ln_cells l ! it_id it)" "ln_active l" "item_ok l it"
    "start + (c + 1) * chunk_ns (it_req it) + c * gap_ns (it_req it) \<le> until"
    using inv WChunk by (auto simp: lane_inv_def)
  have due: "until \<le> ln_now l" using step WChunk by (auto simp: worker_step_def split: if_splits)
  show ?thesis
  proof (cases "c + 1 < n_chunks (it_req it) \<and> flt (Fin 0) (rq_chunk_delay_ms (it_req it))")
    case True
    then have l': "l' = set_worker (WGap it c start (ln_now l + gap_ns (it_req it))) l"
      using step WChunk due by (simp add: worker_step_def)
    have "start + (c + 1) * chunk_ns (it_req it) + (c + 1) * gap_ns (it_req it)
        \<le> ln_now l + gap_ns (it_req it)"
      using st(4) due by (simp add: algebra_simps)
    then show ?thesis unfolding l'
      by (intro inv_work [OF inv, where it = it and c' = "ln_cells l ! it_id it"])
        (use WChunk True st in \<open>auto simp: lane_defs\<close>)
  next
    case False
    then have l': "l' = after_chunk it c start l"
      using step WChunk due by (auto simp: worker_step_def split: if_splits)
    have "gap_ns (it_req it) = 0" if "c + 1 < n_chunks (it_req it)"
      using False that by (cases "rq_chunk_delay_ms (it_req it)") (auto simp: gap_ns_def)
    then show ?thesis unfolding l' using st due WChunk
      by (intro lane_inv_after_chunk [OF inv]) (auto simp: algebra_simps)
  qed
next
  case (WGap it c start until)
  have st: "cell_serving c (ln_cells l ! it_id it)" "ln_active l" "c + 1 < n_chunks (it_req it)"
    "start + (c + 1) * chunk_ns (it_req it) + (c + 1) * gap_ns (it_req it) \<le> until"
    using inv WGap by (auto simp: lane_inv_def)
  have due: "until \<le> ln_now l" and l': "l' = after_chunk it c start l"
    using step WGap by (auto simp: worker_step_def split: if_splits)
  have "0 \<le> gap_ns (it_req it)"
    by (cases "rq_chunk_delay_ms (it_req it)") (auto simp: gap_ns_def)
  then show ?thesis unfolding l' using st due WGap
    by (intro lane_inv_after_chunk [OF inv]) (auto simp: algebra_simps)
next
  case (WBoundary it c start)
  then show ?thesis using step lane_inv_boundary [OF inv] by (simp add: worker_step_def)
next
  case (WRefused it start)
  then show ?thesis using step lane_inv_refused [OF inv] by (simp add: worker_step_def)
next
  case (WFulfil it r)
  then show ?thesis using step lane_inv_fulfil [OF inv] by (simp add: worker_step_def)
next
  case WClear
  then show ?thesis
    using step inv by (auto simp: worker_step_def lane_inv_def set_worker_def held_def item_ok_def)
next
  case WExited
  then show ?thesis using step by (simp add: worker_step_def)
qed

lemma lane_inv_step: "lane_step l l' \<Longrightarrow> lane_inv l \<Longrightarrow> lane_inv l'"
  by (induction rule: lane_step.induct)
    (simp_all add: lane_inv_push lane_inv_cancel lane_inv_settle lane_inv_stop lane_inv_tick
      lane_inv_work)

lemma reachable_inv: "lane_reachable l \<Longrightarrow> lane_inv l"
  by (induction rule: lane_reachable.induct) (use lane_inv_new lane_inv_step in auto)

subsection \<open>Draining a stopped lane\<close>

text \<open>The worker runs, and time passes whenever it is inside a wait.\<close>

definition lane_advance :: "lane \<Rightarrow> lane option" where
  "lane_advance l = (case worker_step l of Some l' \<Rightarrow> Some l'
     | None \<Rightarrow> (case ln_worker l of
           WChunk it c start until \<Rightarrow> Some (l\<lparr>ln_now := until\<rparr>)
         | WGap it c start until \<Rightarrow> Some (l\<lparr>ln_now := until\<rparr>)
         | _ \<Rightarrow> None))"

fun drain :: "nat \<Rightarrow> lane \<Rightarrow> lane" where
  "drain 0 l = l"
| "drain (Suc fuel) l = (case lane_advance l of None \<Rightarrow> l | Some l' \<Rightarrow> drain fuel l')"

text \<open>An upper bound on the steps left: five per chunk, and a few per request.\<close>

definition request_work :: "request \<Rightarrow> nat" where
  "request_work rq = 5 * nat (n_chunks rq) + 6"

fun worker_work :: "worker \<Rightarrow> int \<Rightarrow> nat" where
  "worker_work WIdle t = 1"
| "worker_work (WPopped it) t = 5 * nat (n_chunks (it_req it)) + 5"
| "worker_work (WChunk it c start until) t =
     5 * nat (n_chunks (it_req it) - c) + 3 + (if t < until then 1 else 0)"
| "worker_work (WGap it c start until) t =
     5 * nat (n_chunks (it_req it) - c) + 1 + (if t < until then 1 else 0)"
| "worker_work (WBoundary it c start) t = 5 * nat (n_chunks (it_req it) - c) + 5"
| "worker_work (WRefused it start) t = 4"
| "worker_work (WFulfil it r) t = 3"
| "worker_work WClear t = 2"
| "worker_work WExited t = 0"

definition lane_work :: "lane \<Rightarrow> nat" where
  "lane_work l = worker_work (ln_worker l) (ln_now l)
     + sum_list (map (\<lambda>it. request_work (it_req it)) (ln_queue l))"

lemma n_chunks_pos: "1 \<le> n_chunks rq"
  by (simp add: n_chunks_def)

lemma after_chunk_work:
  assumes "0 \<le> c" "c < n_chunks (it_req it)"
  shows "worker_work (ln_worker (after_chunk it c start l)) t < 5 * nat (n_chunks (it_req it) - c) + 1"
    "ln_queue (after_chunk it c start l) = ln_queue l" "ln_stop (after_chunk it c start l) = ln_stop l"
    "ln_now (after_chunk it c start l) = ln_now l"
  using assms by (auto simp: lane_defs Let_def nat_diff_distrib split: option.splits)

lemma service_start_work:
  "worker_work (ln_worker (service_start it l)) (ln_now l) < 5 * nat (n_chunks (it_req it)) + 5"
  "ln_queue (service_start it l) = ln_queue l" "ln_stop (service_start it l) = ln_stop l"
  "ln_now (service_start it l) = ln_now l"
  by (auto simp: lane_defs)

lemma start_chunk_work:
  "worker_work (ln_worker (start_chunk it c start l)) (ln_now l) < 5 * nat (n_chunks (it_req it) - c) + 5"
  "ln_queue (start_chunk it c start l) = ln_queue l" "ln_stop (start_chunk it c start l) = ln_stop l"
  "ln_now (start_chunk it c start l) = ln_now l"
  by (auto simp: lane_defs)

lemma set_tok_fields [simp]:
  "ln_queue (set_tok i t l) = ln_queue l" "ln_stop (set_tok i t l) = ln_stop l"
  "ln_now (set_tok i t l) = ln_now l" "ln_worker (set_tok i t l) = ln_worker l"
  by (simp_all add: set_tok_def)

lemma worker_step_work:
  assumes inv: "lane_inv l" and step: "worker_step l = Some l'"
  shows "lane_work l' < lane_work l \<and> ln_stop l' = ln_stop l"
proof (cases "ln_worker l")
  case WIdle
  then show ?thesis
    using step by (auto simp: worker_step_def lane_work_def request_work_def set_worker_def
        split: list.splits if_splits)
next
  case (WPopped it)
  then show ?thesis
    using step service_start_work [of it l]
      service_start_work [of it "set_tok (it_id it) t l" for t]
    by (auto simp: worker_step_def lane_work_def set_worker_def split: option.splits prod.splits if_splits)
next
  case (WChunk it c start until)
  then have c: "0 \<le> c" "c < n_chunks (it_req it)"
    using inv by (auto simp: lane_inv_def cell_serving_def item_ok_def)
  note after = after_chunk_work(1) [OF c, of start l "ln_now l"] after_chunk_work(2-4) [OF c]
  have due: "\<not> ln_now l < until" using step WChunk by (auto simp: worker_step_def split: if_splits)
  from step WChunk due consider
      "l' = set_worker (WGap it c start (ln_now l + gap_ns (it_req it))) l"
    | "l' = after_chunk it c start l"
    by (auto simp: worker_step_def split: if_splits)
  then show ?thesis
  proof cases
    case 1
    then show ?thesis using WChunk due by (simp add: lane_work_def set_worker_def)
  next
    case 2
    then show ?thesis using WChunk due after by (simp add: lane_work_def)
  qed
next
  case (WGap it c start until)
  then have c: "0 \<le> c" "c < n_chunks (it_req it)"
    using inv by (auto simp: lane_inv_def cell_serving_def item_ok_def)
  note after = after_chunk_work(1) [OF c, of start l "ln_now l"] after_chunk_work(2-4) [OF c]
  have "\<not> ln_now l < until" "l' = after_chunk it c start l"
    using step WGap by (auto simp: worker_step_def split: if_splits)
  then show ?thesis using WGap after by (simp add: lane_work_def)
next
  case (WBoundary it c start)
  then have c: "0 \<le> c" "c < n_chunks (it_req it)"
    using inv by (auto simp: lane_inv_def cell_serving_def item_ok_def)
  then have "1 \<le> nat (n_chunks (it_req it) - c)" by simp
  then show ?thesis
    using WBoundary step start_chunk_work [of it c start l]
      start_chunk_work [of it c start "set_tok (it_id it) t l" for t]
    by (auto simp: worker_step_def lane_work_def set_worker_def split: option.splits prod.splits if_splits)
next
  case (WRefused it start)
  then show ?thesis using step by (auto simp: worker_step_def lane_work_def set_worker_def)
next
  case (WFulfil it r)
  then show ?thesis using step by (auto simp: worker_step_def lane_work_def set_worker_def)
next
  case WClear
  then show ?thesis using step by (auto simp: worker_step_def lane_work_def set_worker_def)
next
  case WExited
  then show ?thesis using step by (simp add: worker_step_def)
qed

lemma lane_advance_step:
  assumes "lane_inv l" and "lane_advance l = Some l'"
  shows "lane_step l l' \<and> lane_work l' < lane_work l \<and> ln_stop l' = ln_stop l"
proof (cases "worker_step l")
  case (Some l2)
  then show ?thesis
    using assms worker_step_work by (auto simp: lane_advance_def intro: lane_step.Work)
next
  case None
  then obtain until where l': "l' = l\<lparr>ln_now := until\<rparr>" and lt: "ln_now l < until"
      and w: "(\<exists>it c start. ln_worker l = WChunk it c start until)
              \<or> (\<exists>it c start. ln_worker l = WGap it c start until)"
    using assms(2)
    by (auto simp: lane_advance_def worker_step_def split: worker.splits if_splits)
  have "lane_step l (l\<lparr>ln_now := ln_now l + (until - ln_now l)\<rparr>)"
    by (rule lane_step.Tick) (use lt in simp)
  then show ?thesis using l' lt w by (auto simp: lane_work_def)
qed

lemma lane_advance_blocked:
  "lane_advance l = None \<Longrightarrow> ln_stop l \<Longrightarrow> ln_worker l = WExited"
  by (cases "ln_worker l")
    (auto simp: lane_advance_def worker_step_def split: list.splits if_splits option.splits prod.splits)

lemma drain_exits:
  assumes "lane_reachable l" "ln_stop l" "lane_work l \<le> fuel"
  shows "lane_reachable (drain fuel l) \<and> ln_worker (drain fuel l) = WExited"
  using assms
proof (induction fuel arbitrary: l)
  case 0
  then show ?case
    by (cases "ln_worker l") (auto simp: lane_work_def)
next
  case (Suc fuel)
  show ?case
  proof (cases "lane_advance l")
    case None
    then show ?thesis using Suc.prems lane_advance_blocked by simp
  next
    case (Some l')
    note adv = lane_advance_step [OF reachable_inv [OF Suc.prems(1)] Some]
    have "lane_reachable l'" using adv Suc.prems(1) lane_reachable.Step by blast
    then show ?thesis using Suc adv Some by simp
  qed
qed

lemma cell_done_count:
  "cell_done a c \<Longrightarrow> length (cl_proms c) + (if cl_pend c then 1 else 0) = 1"
  by (auto simp: cell_done_def cell_skipped_def)

lemma exited_done:
  assumes "lane_reachable l" "ln_worker l = WExited" "i < length (ln_cells l)"
  shows "cell_done (ln_actor_id l) (ln_cells l ! i)"
proof -
  have inv: "lane_inv l" using reachable_inv assms(1) .
  then have "ln_queue l = []" using assms(2) by (simp add: lane_inv_def)
  then have "ln_log l = [0..<length (ln_cells l)]" using inv by (simp add: lane_inv_def)
  then show ?thesis using inv assms(2,3) by (auto simp: lane_inv_def held_def)
qed

subsection \<open>What a client can rely on\<close>

lemma cell_stage:
  assumes inv: "lane_inv l" and i: "i < length (ln_cells l)"
  shows "cell_waiting (ln_actor_id l) (ln_cells l ! i) \<or> (\<exists>k. cell_serving k (ln_cells l ! i))
     \<or> (\<exists>r. cell_fulfilling (ln_actor_id l) r (ln_cells l ! i))
     \<or> cell_done (ln_actor_id l) (ln_cells l ! i)"
proof -
  obtain past where past: "ln_log l = past @ held l"
    "\<forall>k \<in> set past. cell_done (ln_actor_id l) (ln_cells l ! k)"
    using inv by (auto simp: lane_inv_def)
  have "i \<in> set (ln_log l @ map it_id (ln_queue l))"
    using inv i by (simp only: lane_inv_def) simp
  then consider "i \<in> set past" | "i \<in> set (held l)" | "i \<in> it_id ` set (ln_queue l)"
    using past(1) by auto
  then show ?thesis
  proof cases
    case 1
    then show ?thesis using past(2) by blast
  next
    case 2
    then show ?thesis
      using inv by (cases "ln_worker l") (auto simp: held_def lane_inv_def)
  next
    case 3
    then show ?thesis using inv by (auto simp: lane_inv_def)
  qed
qed

lemma cell_rows:
  assumes "lane_inv l" and "i < length (ln_cells l)"
  shows "cl_proms (ln_cells l ! i) = []
     \<or> (\<exists>r. cl_proms (ln_cells l ! i) = [r] \<and> \<not> cl_pend (ln_cells l ! i)
            \<and> row_ok (ln_actor_id l) (cl_req (ln_cells l ! i)) (cl_tok (ln_cells l ! i)) r)"
  using cell_stage [OF assms] by (auto simp: cell_defs row_ok_def)

text \<open>A settled cancellation stays settled.\<close>

definition cell_cancelled :: "cell \<Rightarrow> bool" where
  "cell_cancelled c = (case cl_tok c of None \<Rightarrow> False | Some t \<Rightarrow> is_cancelled t)"

lemma cancel_settles_cell: "snd (cancel_cell c) \<Longrightarrow> cell_cancelled (fst (cancel_cell c))"
  by (auto simp: cancel_cell_def cell_cancelled_def cancel_def is_cancelled_def
      split: option.splits if_splits)

lemma cancel_keeps_cancelled: "cell_cancelled c \<Longrightarrow> cell_cancelled (fst (cancel_cell c))"
  by (auto simp: cancel_cell_def cell_cancelled_def cancel_def is_cancelled_def
      split: option.splits if_splits)

lemma set_tok_cancelled:
  assumes "cell_cancelled (ln_cells l ! i)" "i < length (ln_cells l)"
    and "\<And>t. k = i \<Longrightarrow> cl_tok (ln_cells l ! k) = Some t \<Longrightarrow> is_cancelled t \<Longrightarrow> is_cancelled t'"
  shows "cell_cancelled (ln_cells (set_tok k t' l) ! i)"
  using assms by (cases "k = i") (auto simp: cell_cancelled_def set_tok_def split: option.splits)

lemma after_chunk_cancelled:
  assumes "cell_cancelled (ln_cells l ! i)" "i < length (ln_cells l)"
  shows "cell_cancelled (ln_cells (after_chunk it c start l) ! i)"
proof -
  have mark: "is_cancelled t \<Longrightarrow> is_cancelled (mark_completed t)" for t
    by (auto simp: is_cancelled_def mark_completed_def)
  have "cell_cancelled (ln_cells (set_tok (it_id it) (mark_completed t) l) ! i)"
    if "cl_tok (ln_cells l ! it_id it) = Some t" for t
    using that by (intro set_tok_cancelled assms) (auto intro: mark)
  then show ?thesis
    using assms by (auto simp: after_chunk_def set_worker_def Let_def split: option.splits)
qed

lemma begin_waiting:
  "cell_waiting a c \<Longrightarrow> cl_tok c = Some t \<Longrightarrow> is_cancelled t \<Longrightarrow> begin_service n t = (t, False)"
  by (auto simp: cell_waiting_def cell_skipped_def is_cancelled_def begin_service_def)

lemma worker_keeps_cancelled:
  assumes inv: "lane_inv l" and step: "worker_step l = Some l'"
    and i: "i < length (ln_cells l)" "cell_cancelled (ln_cells l ! i)"
  shows "cell_cancelled (ln_cells l' ! i)"
proof (cases "ln_worker l")
  case WIdle
  then show ?thesis
    using step i by (auto simp: worker_step_def set_worker_def split: list.splits if_splits)
next
  case (WPopped it)
  show ?thesis
  proof (cases "it_id it = i")
    case True
    then obtain t where t: "cl_tok (ln_cells l ! it_id it) = Some t" "is_cancelled t"
      using i(2) by (auto simp: cell_cancelled_def split: option.splits)
    have "begin_service (rq_chunks (it_req it)) t = (t, False)"
      using inv WPopped t by (auto simp: lane_inv_def intro: begin_waiting)
    then show ?thesis using step WPopped t i by (auto simp: worker_step_def set_worker_def)
  next
    case False
    then show ?thesis
      using step WPopped i
      by (auto simp: worker_step_def lane_defs split: option.splits prod.splits if_splits)
  qed
next
  case (WChunk it c start until)
  then show ?thesis
    using step i after_chunk_cancelled
    by (auto simp: worker_step_def set_worker_def split: if_splits)
next
  case (WGap it c start until)
  then show ?thesis
    using step i after_chunk_cancelled by (auto simp: worker_step_def split: if_splits)
next
  case (WBoundary it c start)
  have stop: "is_cancelled t \<Longrightarrow> is_cancelled (fst (stop_at_boundary f t))" for t f
    by (auto simp: is_cancelled_def stop_at_boundary_def)
  have "cell_cancelled (ln_cells (set_tok (it_id it) (fst (stop_at_boundary f t)) l) ! i)"
    if "cl_tok (ln_cells l ! it_id it) = Some t" for t f
    using that i by (intro set_tok_cancelled) (auto intro: stop)
  then show ?thesis
    using WBoundary step i
    by (auto simp: worker_step_def start_chunk_def set_worker_def case_prod_unfold
        split: option.splits if_splits)
next
  case (WRefused it start)
  then show ?thesis using step i by (auto simp: worker_step_def set_worker_def)
next
  case (WFulfil it r)
  then show ?thesis
    using step i
    by (cases "it_id it = i") (auto simp: worker_step_def set_worker_def cell_cancelled_def)
next
  case WClear
  then show ?thesis using step i by (auto simp: worker_step_def set_worker_def)
next
  case WExited
  then show ?thesis using step by (simp add: worker_step_def)
qed

lemma worker_keeps_cells:
  assumes "worker_step l = Some l'"
  shows "length (ln_cells l') = length (ln_cells l)
    \<and> map cl_req (ln_cells l') = map cl_req (ln_cells l)"
proof -
  have tok: "map cl_req (xs[k := (xs ! k)\<lparr>cl_tok := t\<rparr>]) = map cl_req xs" for k xs t
    by (cases "k < length xs") (simp_all add: map_update list_update_same_conv list_update_beyond not_less)
  have proms: "map cl_req (xs[k := (xs ! k)\<lparr>cl_proms := p\<rparr>]) = map cl_req xs" for k xs p
    by (cases "k < length xs") (simp_all add: map_update list_update_same_conv list_update_beyond not_less)
  show ?thesis
    using assms
    by (cases "ln_worker l") (auto simp: worker_step_def lane_defs Let_def tok proms
        split: option.splits prod.splits list.splits if_splits)
qed

text \<open>A step never forgets a request, nor a settled cancellation.\<close>

lemma lane_step_keeps:
  assumes "lane_step l l'" "lane_inv l" "i < length (ln_cells l)"
  shows "i < length (ln_cells l') \<and> cl_req (ln_cells l' ! i) = cl_req (ln_cells l ! i)
    \<and> (cell_cancelled (ln_cells l ! i) \<longrightarrow> cell_cancelled (ln_cells l' ! i))"
  using assms
proof (induction rule: lane_step.induct)
  case (Push l rq has_tok)
  then show ?case by (simp add: push_item_def nth_append)
next
  case (Cancel k l)
  then show ?case
    using cancel_keeps_cancelled
    by (auto simp: cancel_request_def case_prod_unfold nth_list_update)
next
  case (Settle k l)
  then show ?case by (auto simp: settle_request_def cell_cancelled_def nth_list_update)
next
  case (Stop l)
  then show ?case by (simp add: request_stop_def)
next
  case (Tick d l)
  then show ?case by simp
next
  case (Work l l')
  have "length (ln_cells l') = length (ln_cells l)"
      "map cl_req (ln_cells l') ! i = map cl_req (ln_cells l) ! i"
    using worker_keeps_cells [OF Work.hyps] by simp_all
  then show ?case using Work worker_keeps_cancelled [OF Work.prems(1) Work.hyps] by simp
qed

lemma lane_steps_keep:
  assumes "lane_step\<^sup>*\<^sup>* l l'" "lane_reachable l" "i < length (ln_cells l)"
  shows "lane_reachable l' \<and> i < length (ln_cells l') \<and> cl_req (ln_cells l' ! i) = cl_req (ln_cells l ! i)
    \<and> (cell_cancelled (ln_cells l ! i) \<longrightarrow> cell_cancelled (ln_cells l' ! i))"
  using assms
proof (induction rule: rtranclp_induct)
  case base
  then show ?case by simp
next
  case (step l1 l2)
  then have "lane_reachable l1" "i < length (ln_cells l1)" by auto
  then show ?case
    using step lane_step_keeps [OF step.hyps(2) reachable_inv] lane_reachable.Step by metis
qed

lemma drain_cells:
  "lane_reachable l \<Longrightarrow> length (ln_cells (drain fuel l)) = length (ln_cells l)
     \<and> lane_step\<^sup>*\<^sup>* l (drain fuel l)"
proof (induction fuel arbitrary: l)
  case 0
  then show ?case by simp
next
  case (Suc fuel)
  show ?case
  proof (cases "lane_advance l")
    case None
    then show ?thesis by simp
  next
    case (Some l')
    then have st: "lane_step l l'" using lane_advance_step reachable_inv Suc.prems by blast
    have "length (ln_cells l') = length (ln_cells l)"
      using Some worker_keeps_cells
      by (auto simp: lane_advance_def split: option.splits worker.splits)
    then show ?thesis
      using Suc.IH [of l'] lane_reachable.Step [OF Suc.prems st] st Some
      by (auto intro: converse_rtranclp_into_rtranclp)
  qed
qed

lemmas step_run = lane_reachable.Step [OF _ lane_step.Push] lane_reachable.Step [OF _ lane_step.Cancel]
  lane_reachable.Step [OF _ lane_step.Settle] lane_reachable.Step [OF _ lane_step.Stop]

subsection \<open>Properties\<close>

text \<open>
  C1. In every interleaving of clients, clock and worker, a request's promise is set at most once,
  and the row it carries fits what became of the request: completed with all its chunks and at least
  the requested active and parked time, cancelled with no chunk (queued) or some but not all of them
  (stopped at a boundary) and a cancelled token, or failed for an unsupported work mode, with an end
  stamp not before its start stamp.
\<close>

theorem lane_row_once:
  assumes "lane_reachable l" and "i < length (ln_cells l)"
  shows "cl_proms (ln_cells l ! i) = []
     \<or> (\<exists>r. cl_proms (ln_cells l ! i) = [r]
            \<and> row_ok (ln_actor_id l) (cl_req (ln_cells l ! i)) (cl_tok (ln_cells l ! i)) r)"
  using cell_rows [OF reachable_inv [OF assms(1)] assms(2)] by blast

definition demo_request :: request where
  "demo_request = \<lparr>rq_request_id = '''', rq_service_ms = Fin 6, rq_work_mode = ''sleep'',
     rq_submit_ns = 1, rq_chunks = 3, rq_chunk_delay_ms = Fin 1\<rparr>"

definition demo_lane :: lane where
  "demo_lane = fst (cancel_request 0 (push_item demo_request True (new_lane ''act-hpx-0'' False 7)))"

lemma demo_reachable: "lane_reachable demo_lane \<and> length (ln_cells demo_lane) = 1"
proof
  have "lane_reachable (push_item demo_request True (new_lane ''act-hpx-0'' False 7))"
    by (intro step_run lane_reachable.New) (simp add: new_lane_def)
  then show "lane_reachable demo_lane"
    unfolding demo_lane_def by (rule step_run(2)) (simp add: push_item_def)
  show "length (ln_cells demo_lane) = 1"
    by (simp add: demo_lane_def cancel_request_def push_item_def new_lane_def case_prod_unfold)
qed

lemma lane_row_once_witness:
  "cl_proms (ln_cells (settle_request 0 demo_lane) ! 0) \<noteq> []
    \<and> (\<exists>r. cl_proms (ln_cells (settle_request 0 demo_lane) ! 0) = [r])"
proof -
  have "lane_reachable (settle_request 0 demo_lane)"
    by (rule step_run(3)) (use demo_reachable in auto)
  moreover have len: "0 < length (ln_cells (settle_request 0 demo_lane))"
    using demo_reachable by (simp add: settle_request_def)
  moreover have "cl_proms (ln_cells (settle_request 0 demo_lane) ! 0) \<noteq> []"
    by (simp add: demo_lane_def settle_request_def settle_cell_def cancel_request_def cancel_cell_def
        cancel_def push_item_def new_lane_def new_token_def)
  ultimately show ?thesis using lane_row_once [of "settle_request 0 demo_lane" 0] by blast
qed

text \<open>
  C2. A cancellation that \<open>cancel()\<close> reported as settled is never lost: whatever the clients and the
  worker do afterwards, the request's row, once there, has status cancelled.
\<close>

theorem cancel_true_is_final:
  assumes "lane_reachable l" and "i < length (ln_cells l)"
    and "supported_mode (rq_work_mode (cl_req (ln_cells l ! i)))"
    and "cancel_request i l = (l1, True)" and "lane_step\<^sup>*\<^sup>* l1 l2"
    and "r \<in> set (cl_proms (ln_cells l2 ! i))"
  shows "rs_status r = ''cancelled'' \<and> rs_chunks_completed r < n_chunks (cl_req (ln_cells l ! i))"
proof -
  have l1: "l1 = fst (cancel_request i l)" using assms(4) by simp
  have r1: "lane_reachable l1" unfolding l1 by (rule step_run(2) [OF assms(1,2)])
  have len: "i < length (ln_cells l1)" "cl_req (ln_cells l1 ! i) = cl_req (ln_cells l ! i)"
    using assms(2) by (auto simp: l1 cancel_request_def case_prod_unfold)
  have "cell_cancelled (ln_cells l1 ! i)"
    using assms(2,4) cancel_settles_cell [of "ln_cells l ! i"]
    by (auto simp: cancel_request_def case_prod_unfold)
  then have l2: "lane_reachable l2" "i < length (ln_cells l2)" "cell_cancelled (ln_cells l2 ! i)"
      "cl_req (ln_cells l2 ! i) = cl_req (ln_cells l ! i)"
    using lane_steps_keep [OF assms(5) r1 len(1)] len(2) by auto
  then have "row_ok (ln_actor_id l2) (cl_req (ln_cells l ! i)) (cl_tok (ln_cells l2 ! i)) r"
    using cell_rows [OF reachable_inv, of l2 i] assms(6) by auto
  then show ?thesis
    using l2(3) assms(3) n_chunks_pos [of "cl_req (ln_cells l ! i)"]
    by (auto simp: row_ok_def cell_cancelled_def is_cancelled_def split: option.splits)
qed

lemma cancel_true_is_final_witness:
  "rs_status (hd (cl_proms (ln_cells (settle_request 0 demo_lane) ! 0))) = ''cancelled''"
proof -
  let ?l = "push_item demo_request True (new_lane ''act-hpx-0'' False 7)"
  have l: "lane_reachable ?l" by (intro step_run lane_reachable.New) (simp add: new_lane_def)
  have step: "lane_step\<^sup>*\<^sup>* demo_lane (settle_request 0 demo_lane)"
    using demo_reachable by (intro r_into_rtranclp lane_step.Settle) simp
  have r: "hd (cl_proms (ln_cells (settle_request 0 demo_lane) ! 0))
      \<in> set (cl_proms (ln_cells (settle_request 0 demo_lane) ! 0))"
    by (simp add: demo_lane_def settle_request_def settle_cell_def cancel_request_def cancel_cell_def
        cancel_def push_item_def new_lane_def new_token_def)
  show ?thesis
    using cancel_true_is_final [OF l _ _ _ step r]
    by (simp add: demo_lane_def cancel_request_def cancel_cell_def cancel_def push_item_def
        new_lane_def new_token_def demo_request_def supported_mode_def)
qed

text \<open>
  A lane starts requests in submission order and skips none: those popped so far are exactly
  the first submitted ones, and the queue holds all the later ones, in order.
\<close>

theorem lane_fifo:
  assumes "lane_reachable l"
  shows "ln_log l = [0..<length (ln_log l)]
    \<and> map it_id (ln_queue l) = [length (ln_log l)..<length (ln_cells l)]"
proof -
  have all: "ln_log l @ map it_id (ln_queue l) = [0..<length (ln_cells l)]"
    using reachable_inv [OF assms] by (simp add: lane_inv_def)
  then have len: "length (ln_log l) \<le> length (ln_cells l)"
    by (metis diff_zero length_append length_upt le_add1)
  from arg_cong [OF all, of "take (length (ln_log l))"] arg_cong [OF all, of "drop (length (ln_log l))"]
  show ?thesis using len by simp
qed

lemma lane_fifo_witness: "map it_id (ln_queue demo_lane) = [0]"
  using lane_fifo [of demo_lane] demo_reachable
  by (simp add: demo_lane_def cancel_request_def push_item_def new_lane_def case_prod_unfold)

text \<open>
  C5. Graceful drain: once the lane is told to stop, a bounded number of worker steps (five per
  chunk and six per queued request are enough) runs every request to its end; then the worker has
  left its loop, no request was dropped, and each has exactly one row (or a queued-cancel row that
  its canceller is about to set).
\<close>

theorem lane_drains:
  assumes "lane_reachable l" and "ln_stop l"
  shows "ln_worker (drain (lane_work l) l) = WExited
    \<and> length (ln_cells (drain (lane_work l) l)) = length (ln_cells l)
    \<and> list_all (\<lambda>c. length (cl_proms c) + (if cl_pend c then 1 else 0) = 1)
        (ln_cells (drain (lane_work l) l))"
proof -
  let ?d = "drain (lane_work l) l"
  have d: "lane_reachable ?d" "ln_worker ?d = WExited"
    using drain_exits [OF assms, of "lane_work l"] by auto
  have "list_all (\<lambda>c. length (cl_proms c) + (if cl_pend c then 1 else 0) = 1) (ln_cells ?d)"
    unfolding list_all_length using exited_done [OF d] cell_done_count by blast
  then show ?thesis
    using d(2) drain_cells [OF assms(1), of "lane_work l"] by blast
qed

lemma lane_drains_witness:
  "ln_worker (drain (lane_work (request_stop demo_lane)) (request_stop demo_lane)) = WExited"
proof -
  have "lane_reachable (request_stop demo_lane)"
    by (rule step_run(4)) (use demo_reachable in auto)
  then show ?thesis using lane_drains [of "request_stop demo_lane"] by (simp add: request_stop_def)
qed

end
