(* ===== verification/PyValue.thy ===== *)
theory PyValue
  imports PyFloat
begin

text \<open>
  Dynamically typed values at the Python boundary and the exception classes the package raises.
  Messages are not modelled: an exception is its class. \<open>string\<close> is a Python \<open>str\<close> whose
  code points are below 256 (the code only compares strings, and encodes them as ASCII, which
  every code point above 127 makes fail in the same way).
\<close>

subsection \<open>Values\<close>

text \<open>A dict key: a \<open>str\<close>, or any other hashable (here an \<open>int\<close>, which does not order against a \<open>str\<close>).\<close>

datatype pykey = KStr string | KInt int

datatype pyval =
    VNone
  | VBool bool
  | VInt int
  | VFloat pyfloat
  | VStr string
  | VList "pyval list"
  | VTuple "pyval list"
  | VDict "(pykey \<times> pyval) list"
  | VObj nat

text \<open>\<open>isinstance(x, int)\<close> holds of \<open>bool\<close> values too, as in Python.\<close>

fun is_bool :: "pyval \<Rightarrow> bool" where
  "is_bool (VBool _) = True"
| "is_bool _ = False"

fun is_int :: "pyval \<Rightarrow> bool" where
  "is_int (VInt _) = True"
| "is_int (VBool _) = True"
| "is_int _ = False"

fun is_float :: "pyval \<Rightarrow> bool" where
  "is_float (VFloat _) = True"
| "is_float _ = False"

fun is_str :: "pyval \<Rightarrow> bool" where
  "is_str (VStr _) = True"
| "is_str _ = False"

fun is_hashable :: "pyval \<Rightarrow> bool" where
  "is_hashable (VList _) = False"
| "is_hashable (VDict _) = False"
| "is_hashable (VTuple vs) = list_all is_hashable vs"
| "is_hashable _ = True"

fun the_int :: "pyval \<Rightarrow> int" where
  "the_int (VInt n) = n"
| "the_int (VBool b) = (if b then 1 else 0)"
| "the_int _ = 0"

lemma is_int_not_bool: "is_int v \<Longrightarrow> \<not> is_bool v \<Longrightarrow> v = VInt (the_int v)"
  by (cases v) auto

lemma is_str_iff: "is_str v \<longleftrightarrow> (\<exists>s. v = VStr s)"
  by (cases v) auto

lemma is_float_iff: "is_float v \<longleftrightarrow> (\<exists>f. v = VFloat f)"
  by (cases v) auto

subsection \<open>Exception classes\<close>

datatype builtin_exc =
    Py_Exception | Py_TypeError | Py_ValueError | Py_RuntimeError | Py_NotImplementedError
  | Py_AttributeError | Py_ArithmeticError | Py_OverflowError | Py_ZeroDivisionError
  | Py_UnicodeEncodeError | Py_UnicodeDecodeError | Py_LookupError | Py_KeyError | Py_IndexError | Py_StructError

datatype harness_error = H_QueueFullError

datatype rt_error =
    RT_QueueFullError | RT_RuntimeOperationError | RT_OperationFailedError
  | RT_OperationCancelledError

datatype ep_error =
    EP_EndpointError | EP_EndpointValidationError | EP_EndpointNotFoundError
  | EP_EndpointClosedError | EP_EndpointProtocolError | EP_EndpointUnreachableError
  | EP_EndpointTimeoutError | EP_EndpointRuntimeUnavailableError | EP_EndpointOperationError

datatype exc = Builtin builtin_exc | Harness harness_error | Rt rt_error | Ep ep_error

abbreviation "TypeError \<equiv> Builtin Py_TypeError"
abbreviation "ValueError \<equiv> Builtin Py_ValueError"
abbreviation "RuntimeError \<equiv> Builtin Py_RuntimeError"
abbreviation "NotImplementedError \<equiv> Builtin Py_NotImplementedError"
abbreviation "AttributeError \<equiv> Builtin Py_AttributeError"
abbreviation "OverflowError \<equiv> Builtin Py_OverflowError"
abbreviation "ZeroDivisionError \<equiv> Builtin Py_ZeroDivisionError"
abbreviation "UnicodeEncodeError \<equiv> Builtin Py_UnicodeEncodeError"
abbreviation "UnicodeDecodeError \<equiv> Builtin Py_UnicodeDecodeError"
abbreviation "KeyError \<equiv> Builtin Py_KeyError"
abbreviation "IndexError \<equiv> Builtin Py_IndexError"
abbreviation "StructError \<equiv> Builtin Py_StructError"
abbreviation "QueueFullError \<equiv> Harness H_QueueFullError"
abbreviation "EndpointError \<equiv> Ep EP_EndpointError"
abbreviation "EndpointValidationError \<equiv> Ep EP_EndpointValidationError"
abbreviation "EndpointNotFoundError \<equiv> Ep EP_EndpointNotFoundError"
abbreviation "EndpointClosedError \<equiv> Ep EP_EndpointClosedError"
abbreviation "EndpointProtocolError \<equiv> Ep EP_EndpointProtocolError"
abbreviation "EndpointUnreachableError \<equiv> Ep EP_EndpointUnreachableError"
abbreviation "EndpointTimeoutError \<equiv> Ep EP_EndpointTimeoutError"
abbreviation "EndpointRuntimeUnavailableError \<equiv> Ep EP_EndpointRuntimeUnavailableError"
abbreviation "EndpointOperationError \<equiv> Ep EP_EndpointOperationError"

type_synonym 'a py = "exc + 'a"

text \<open>Direct bases of each class.\<close>

fun builtin_bases :: "builtin_exc \<Rightarrow> exc list" where
  "builtin_bases Py_Exception = []"
| "builtin_bases Py_NotImplementedError = [RuntimeError]"
| "builtin_bases Py_OverflowError = [Builtin Py_ArithmeticError]"
| "builtin_bases Py_ZeroDivisionError = [Builtin Py_ArithmeticError]"
| "builtin_bases Py_UnicodeEncodeError = [ValueError]"
| "builtin_bases Py_UnicodeDecodeError = [ValueError]"
| "builtin_bases Py_KeyError = [Builtin Py_LookupError]"
| "builtin_bases Py_IndexError = [Builtin Py_LookupError]"
| "builtin_bases _ = [Builtin Py_Exception]"

fun harness_error_bases :: "harness_error \<Rightarrow> exc list" where
  "harness_error_bases H_QueueFullError = [RuntimeError]"

fun rt_error_bases :: "rt_error \<Rightarrow> exc list" where
  "rt_error_bases RT_QueueFullError = [RuntimeError]"
| "rt_error_bases RT_RuntimeOperationError = [RuntimeError]"
| "rt_error_bases RT_OperationFailedError = [Rt RT_RuntimeOperationError]"
| "rt_error_bases RT_OperationCancelledError = [Rt RT_RuntimeOperationError]"

fun ep_error_bases :: "ep_error \<Rightarrow> exc list" where
  "ep_error_bases EP_EndpointError = [RuntimeError]"
| "ep_error_bases EP_EndpointValidationError = [EndpointError, ValueError]"
| "ep_error_bases _ = [EndpointError]"

fun bases :: "exc \<Rightarrow> exc list" where
  "bases (Builtin e) = builtin_bases e"
| "bases (Harness e) = harness_error_bases e"
| "bases (Rt e) = rt_error_bases e"
| "bases (Ep e) = ep_error_bases e"

text \<open>
  The classes an exception is an instance of. The hierarchy is at most five levels deep
  (\<open>supers_enough\<close>), so six levels of unfolding reach every base.
\<close>

fun supers :: "nat \<Rightarrow> exc \<Rightarrow> exc list" where
  "supers 0 e = []"
| "supers (Suc n) e = e # concat (map (supers n) (bases e))"

definition caught_by :: "exc \<Rightarrow> exc \<Rightarrow> bool" where
  "caught_by c e = (c \<in> set (supers 6 e))"

lemma supers_builtin: "supers (Suc (Suc (Suc n))) (Builtin e) = supers 3 (Builtin e)"
  by (cases e) (simp_all add: eval_nat_numeral)

lemma supers_enough: "set (supers (n + 6) e) = set (supers 6 e)"
proof -
  have "supers (n + 6) e = supers 6 e"
  proof (cases e)
    case (Builtin b)
    then show ?thesis using supers_builtin [of "n + 3" b] supers_builtin [of 3 b]
      by (simp add: eval_nat_numeral)
  next
    case (Harness h)
    then show ?thesis by (cases h) (simp add: eval_nat_numeral)
  next
    case (Rt r)
    then show ?thesis by (cases r) (simp_all add: eval_nat_numeral)
  next
    case (Ep x)
    then show ?thesis by (cases x) (simp_all add: eval_nat_numeral)
  qed
  then show ?thesis by simp
qed

lemma caught_by_refl [simp]: "caught_by e e"
  by (simp add: caught_by_def eval_nat_numeral)

lemma endpoint_family: "caught_by EndpointError (Ep e) \<and> caught_by RuntimeError (Ep e)"
  by (cases e) (simp_all add: caught_by_def eval_nat_numeral)

lemma endpoint_value_errors: "caught_by ValueError (Ep e) \<longleftrightarrow> e = EP_EndpointValidationError"
  by (cases e) (simp_all add: caught_by_def eval_nat_numeral)

lemma runtime_family: "caught_by RuntimeError (Rt e) \<and> \<not> caught_by ValueError (Rt e)"
  by (cases e) (simp_all add: caught_by_def eval_nat_numeral)

lemma queue_full_family:
  "caught_by RuntimeError QueueFullError \<and> caught_by RuntimeError (Rt RT_QueueFullError)
    \<and> \<not> caught_by QueueFullError (Rt RT_QueueFullError)
    \<and> \<not> caught_by QueueFullError RuntimeError"
  by (simp add: caught_by_def eval_nat_numeral)

end
