(* ===== verification/HarnessValidate.thy ===== *)
theory HarnessValidate
  imports PyValue
begin

text \<open>
  The argument validators of the harness front end (\<open>python/src/rayx/__init__.py\<close>): each runs at
  the Python boundary, before anything crosses into C++. A validator returns the value it hands
  on, or the class of the exception it raises; the checks are in the code's order.
\<close>

definition validate_label :: "pyval \<Rightarrow> pyval py" where
  "validate_label label =
     (if label \<noteq> VNone \<and> \<not> is_str label then Inl TypeError else Inr label)"

definition validate_max_queue_depth_per_lane :: "pyval \<Rightarrow> int py" where
  "validate_max_queue_depth_per_lane value =
     (if value = VNone then Inr (- 1)
      else if is_bool value \<or> \<not> is_int value then Inl TypeError
      else if the_int value < 1 then Inl ValueError
      else Inr (the_int value))"

fun validate_lane_impl :: "pyval \<Rightarrow> string py" where
  "validate_lane_impl (VStr value) =
     (if value \<notin> {''std'', ''hpx''} then Inl ValueError else Inr value)"
| "validate_lane_impl _ = Inl TypeError"

definition work_modes :: "string list" where
  "work_modes = [''sleep'', ''spin'']"

fun validate_work_mode :: "pyval \<Rightarrow> string py" where
  "validate_work_mode (VStr work_mode) =
     (if work_mode \<notin> set work_modes then Inl ValueError else Inr work_mode)"
| "validate_work_mode _ = Inl TypeError"

text \<open>\<open>float(x)\<close> of an \<open>int\<close>, \<open>bool\<close> or \<open>float\<close>; an \<open>int\<close> beyond the double range raises.\<close>

fun py_float :: "pyval \<Rightarrow> pyfloat py" where
  "py_float (VFloat f) = Inr f"
| "py_float (VInt n) = (case float_of_int n of None \<Rightarrow> Inl OverflowError | Some f \<Rightarrow> Inr f)"
| "py_float (VBool b) = Inr (Fin (if b then 1 else 0))"
| "py_float _ = Inl TypeError"

definition real_number :: "pyval \<Rightarrow> bool" where
  "real_number x = (\<not> is_bool x \<and> (is_int x \<or> is_float x))"

text \<open>One element of the varied batch form.\<close>

definition validate_batch_element :: "pyval \<Rightarrow> pyfloat py" where
  "validate_batch_element x =
     (if \<not> real_number x then Inl TypeError
      else rbind (py_float x) (\<lambda>xf.
        if \<not> fisfinite xf then Inl ValueError
        else if fle xf (Fin 0) then Inl ValueError
        else Inr xf))"

text \<open>\<open>count != len(out)\<close> for the \<open>count\<close> argument (\<open>None\<close>, or any value compared with \<open>!=\<close>).\<close>

fun count_differs :: "pyval \<Rightarrow> nat \<Rightarrow> bool" where
  "count_differs VNone n = False"
| "count_differs (VInt c) n = (c \<noteq> int n)"
| "count_differs (VBool b) n = ((if b then 1 else 0) \<noteq> int n)"
| "count_differs (VFloat (Fin q)) n = (q \<noteq> of_nat n)"
| "count_differs _ n = True"

definition validate_batch_list :: "pyval list \<Rightarrow> pyval \<Rightarrow> pyfloat list py" where
  "validate_batch_list xs count =
     (if xs = [] then Inl ValueError
      else rbind (mapM_idx (\<lambda>i x. validate_batch_element x) 0 xs) (\<lambda>out.
        if count_differs count (length out) then Inl ValueError else Inr out))"

text \<open>\<open>None\<close> is the scalar form, \<open>Some\<close> the list of the varied form.\<close>

fun validate_batch_service_ms :: "pyval \<Rightarrow> pyval \<Rightarrow> pyfloat list option py" where
  "validate_batch_service_ms (VList xs) count = rbind (validate_batch_list xs count) (\<lambda>o'. Inr (Some o'))"
| "validate_batch_service_ms (VTuple xs) count = rbind (validate_batch_list xs count) (\<lambda>o'. Inr (Some o'))"
| "validate_batch_service_ms _ count = Inr None"

definition validate_chunks :: "pyval \<Rightarrow> int py" where
  "validate_chunks chunks =
     (if is_bool chunks \<or> \<not> is_int chunks then Inl TypeError
      else if the_int chunks < 1 then Inl ValueError
      else Inr (the_int chunks))"

definition validate_chunk_delay_ms :: "pyval \<Rightarrow> pyfloat py" where
  "validate_chunk_delay_ms d =
     (if \<not> real_number d then Inl TypeError
      else rbind (py_float d) (\<lambda>v.
        if \<not> fisfinite v then Inl ValueError
        else if flt v (Fin 0) then Inl ValueError
        else Inr v))"

definition validate_timeout :: "pyval \<Rightarrow> pyfloat py" where
  "validate_timeout timeout =
     (if \<not> real_number timeout then Inl TypeError
      else rbind (py_float timeout) (\<lambda>t.
        if \<not> fisfinite t then Inl ValueError
        else if flt t (Fin 0) then Inl ValueError
        else Inr t))"

declare validate_label_def [val_defs] validate_max_queue_depth_per_lane_def [val_defs]
  validate_batch_element_def [val_defs] validate_chunks_def [val_defs]
  validate_chunk_delay_ms_def [val_defs] validate_timeout_def [val_defs]
  real_number_def [val_defs]

subsection \<open>What each validator accepts\<close>

lemma validate_max_queue_depth_Inr:
  "validate_max_queue_depth_per_lane v = Inr c \<longleftrightarrow>
     (v = VNone \<and> c = -1) \<or> (\<exists>n \<ge> 1. v = VInt n \<and> c = n)"
  by (cases v) (auto simp: val_defs)

lemma validate_chunks_Inr: "validate_chunks v = Inr n \<longleftrightarrow> v = VInt n \<and> 1 \<le> n"
  by (cases v) (auto simp: val_defs)

lemma validate_work_mode_Inr:
  "validate_work_mode v = Inr m \<longleftrightarrow> v = VStr m \<and> (m = ''sleep'' \<or> m = ''spin'')"
  by (cases v) (auto simp: work_modes_def)

lemma validate_lane_impl_Inr:
  "validate_lane_impl v = Inr m \<longleftrightarrow> v = VStr m \<and> (m = ''std'' \<or> m = ''hpx'')"
  by (cases v) auto

lemma finite_nonneg: "fisfinite f \<Longrightarrow> \<not> flt f (Fin 0) \<Longrightarrow> \<exists>q \<ge> 0. f = Fin q"
  by (cases f) auto

lemma validate_chunk_delay_Inr:
  "validate_chunk_delay_ms v = Inr f \<Longrightarrow> \<exists>q \<ge> 0. f = Fin q"
  by (auto simp: val_defs rbind_eq_Inr intro!: finite_nonneg split: if_splits)

lemma validate_timeout_Inr:
  "validate_timeout v = Inr f \<Longrightarrow> \<exists>q \<ge> 0. f = Fin q"
  by (auto simp: val_defs rbind_eq_Inr intro!: finite_nonneg split: if_splits)

lemma validate_timeout_small_int:
  "0 \<le> n \<Longrightarrow> n < 2 ^ 53 \<Longrightarrow> validate_timeout (VInt n) = Inr (Fin (of_int n))"
  by (simp add: val_defs float_of_int_small)

lemma validate_batch_element_Inr:
  assumes "validate_batch_element x = Inr f"
  shows "(\<exists>q > 0. f = Fin q) \<and> real_number x"
proof -
  from assms have "py_float x = Inr f" "fisfinite f" "\<not> fle f (Fin 0)" "real_number x"
    by (auto simp: validate_batch_element_def rbind_eq_Inr split: if_splits)
  then show ?thesis by (cases f) (auto simp: fle_def)
qed

text \<open>
  The exceptions of a numeric validator: a wrong type, a non-finite or negative number, or an
  \<open>int\<close> too large for a double, which \<open>float\<close> itself refuses.
\<close>

lemma validate_timeout_exc:
  "validate_timeout v = Inl e \<Longrightarrow> e = TypeError \<or> e = ValueError \<or> e = OverflowError"
  by (cases v) (auto simp: val_defs split: if_splits option.splits)

end
