(* ===== verification/PyNumber.thy ===== *)
theory PyNumber
  imports HarnessValidate
begin

text \<open>
  The constructors \<open>int(x)\<close> and \<open>float(x)\<close> on any value, text included, and the narrowing of a
  Python \<open>int\<close> at a native call. The front ends apply them to arguments they do not validate.
  An opaque object (\<open>VObj\<close>) has no numeric protocol: both constructors refuse it.
\<close>

definition is_space :: "char \<Rightarrow> bool" where
  "is_space c = (of_char c \<in> {9, 10, 11, 12, 13, 28, 29, 30, 31, 32, 133, 160 :: nat})"

definition strip_space :: "string \<Rightarrow> string" where
  "strip_space s = rev (dropWhile is_space (rev (dropWhile is_space s)))"

definition digit_of :: "char \<Rightarrow> nat option" where
  "digit_of c = (if 48 \<le> (of_char c :: nat) \<and> of_char c \<le> (57 :: nat) then Some (of_char c - 48) else None)"

text \<open>
  Digits with single underscores between them: the digits read and the rest of the text
  (an underscore not followed by a digit is left in the rest).
\<close>

fun digits_from :: "string \<Rightarrow> nat list \<times> string" where
  "digits_from [] = ([], [])"
| "digits_from (c # cs) = (case digit_of c of
       Some d \<Rightarrow> (case digits_from cs of (ds, rest) \<Rightarrow> (d # ds, rest))
     | None \<Rightarrow> (case cs of
           c2 # cs2 \<Rightarrow> if c = CHR ''_'' \<and> digit_of c2 \<noteq> None
             then (case digits_from cs of (ds, rest) \<Rightarrow> (ds, rest)) else ([], c # cs)
         | [] \<Rightarrow> ([], c # cs)))"

text \<open>A digit sequence must start with a digit.\<close>

definition read_digits :: "string \<Rightarrow> nat list \<times> string" where
  "read_digits s = (case s of [] \<Rightarrow> ([], []) | c # cs \<Rightarrow> if digit_of c = None then ([], s) else digits_from s)"

definition digits_value :: "nat list \<Rightarrow> int" where
  "digits_value ds = fold (\<lambda>d v. 10 * v + int d) ds 0"

definition read_sign :: "string \<Rightarrow> int \<times> string" where
  "read_sign s = (case s of c # cs \<Rightarrow>
       if c = CHR ''-'' then (- 1, cs) else if c = CHR ''+'' then (1, cs) else (1, s)
     | [] \<Rightarrow> (1, s))"

definition int_of_str :: "string \<Rightarrow> int py" where
  "int_of_str s = (case read_sign (strip_space s) of (sg, t) \<Rightarrow>
     (case read_digits t of (ds, rest) \<Rightarrow>
        if ds = [] \<or> rest \<noteq> [] \<or> 4300 < length ds then Inl ValueError else Inr (sg * digits_value ds)))"

definition lower :: "char \<Rightarrow> char" where
  "lower c = (if 65 \<le> (of_char c :: nat) \<and> of_char c \<le> (90 :: nat) then char_of ((of_char c :: nat) + 32) else c)"

definition scale10 :: "int \<Rightarrow> int \<Rightarrow> rat" where
  "scale10 m e = (if 0 \<le> e then of_int m * 10 ^ nat e else of_int m / 10 ^ nat (- e))"

text \<open>The exponent after the mantissa: \<open>None\<close> when the text does not end there.\<close>

definition read_exponent :: "string \<Rightarrow> int option" where
  "read_exponent s = (case s of [] \<Rightarrow> Some 0 | c # cs \<Rightarrow>
     if lower c \<noteq> CHR ''e'' then None
     else (case read_sign cs of (sg, t) \<Rightarrow> (case read_digits t of (ds, rest) \<Rightarrow>
        if ds = [] \<or> rest \<noteq> [] then None else Some (sg * digits_value ds))))"

definition read_mantissa :: "string \<Rightarrow> (nat list \<times> nat list \<times> string) option" where
  "read_mantissa s = (case read_digits s of (whole, rest) \<Rightarrow>
     (case rest of c # cs \<Rightarrow>
        if c = CHR ''.'' then (case read_digits cs of (fracd, rest2) \<Rightarrow>
          if whole = [] \<and> fracd = [] then None else Some (whole, fracd, rest2))
        else if whole = [] then None else Some (whole, [], rest)
      | [] \<Rightarrow> if whole = [] then None else Some (whole, [], [])))"

definition float_of_str :: "string \<Rightarrow> pyfloat py" where
  "float_of_str s = (case read_sign (strip_space s) of (sg, t) \<Rightarrow>
     let word = map lower t in
     if word = ''inf'' \<or> word = ''infinity'' then Inr (if sg = 1 then PInf else NInf)
     else if word = ''nan'' then Inr NaN
     else (case read_mantissa t of None \<Rightarrow> Inl ValueError
       | Some (whole, fracd, rest) \<Rightarrow> (case read_exponent rest of None \<Rightarrow> Inl ValueError
         | Some e \<Rightarrow> Inr (b64_round
             (of_int sg * scale10 (digits_value (whole @ fracd)) (e - int (length fracd)))))))"

fun py_float_any :: "pyval \<Rightarrow> pyfloat py" where
  "py_float_any (VStr s) = float_of_str s"
| "py_float_any v = py_float v"

definition trunc_rat :: "rat \<Rightarrow> int" where
  "trunc_rat q = (if 0 \<le> q then \<lfloor>q\<rfloor> else \<lceil>q\<rceil>)"

fun py_int :: "pyval \<Rightarrow> int py" where
  "py_int (VInt n) = Inr n"
| "py_int (VBool b) = Inr (if b then 1 else 0)"
| "py_int (VFloat (Fin q)) = Inr (trunc_rat q)"
| "py_int (VFloat NaN) = Inl ValueError"
| "py_int (VFloat _) = Inl OverflowError"
| "py_int (VStr s) = int_of_str s"
| "py_int _ = Inl TypeError"

text \<open>
  Crossing into C++: an \<open>int\<close> parameter takes a Python \<open>int\<close> (or \<open>bool\<close>) in the 32-bit range, an
  \<open>std::int64_t\<close> one in the 64-bit range; anything else is a \<open>TypeError\<close> of the call.
\<close>

definition cross_int32 :: "pyval \<Rightarrow> int py" where
  "cross_int32 v = (if is_int v \<and> - (2 ^ 31) \<le> the_int v \<and> the_int v < 2 ^ 31 then Inr (the_int v)
     else Inl TypeError)"

definition cross_int64 :: "pyval \<Rightarrow> int py" where
  "cross_int64 v = (if is_int v \<and> - (2 ^ 63) \<le> the_int v \<and> the_int v < 2 ^ 63 then Inr (the_int v)
     else Inl TypeError)"

lemma cross_int32_Inr:
  "cross_int32 v = Inr n \<longleftrightarrow> is_int v \<and> n = the_int v \<and> - (2 ^ 31) \<le> n \<and> n < 2 ^ 31"
  by (auto simp: cross_int32_def)

lemma trunc_rat_of_int [simp]: "trunc_rat (of_int n) = n"
  by (simp add: trunc_rat_def)

text \<open>An integral float in the exact range converts back to the \<open>int\<close> it came from.\<close>

lemma py_int_float: "\<bar>n\<bar> < 2 ^ 53 \<Longrightarrow> rbind (py_float (VInt n)) (\<lambda>f. py_int (VFloat f)) = Inr n"
  by (simp add: float_of_int_small)

end
