(* ===== verification/ProcessOwner.thy ===== *)
theory ProcessOwner
  imports PyValue
begin

text \<open>
  Who may hold the process-wide HPX runtime (\<open>ProcessHpxOwner\<close> in \<open>python/src/rayx/_rayx.cpp\<close>):
  a harness engine is exclusive, a runtime is a singleton, endpoints need no HPX and coexist with a
  runtime but not with an engine. Whether HPX starts is not decided here: \<open>start_ok\<close> is the outcome
  of the start call.
\<close>

datatype attach_kind = AEngine | ARuntime | AEndpoint

record owner =
  ow_started :: bool
  ow_threads :: int
  ow_refcount :: int
  ow_engine :: bool
  ow_runtime :: bool
  ow_endpoints :: int

definition new_owner :: owner where
  "new_owner = \<lparr>ow_started = False, ow_threads = 0, ow_refcount = 0, ow_engine = False,
     ow_runtime = False, ow_endpoints = 0\<rparr>"

definition start_hpx_locked :: "bool \<Rightarrow> int \<Rightarrow> owner \<Rightarrow> owner py" where
  "start_hpx_locked start_ok threads w =
     (if \<not> ow_started w
      then (if start_ok
            then Inr (w\<lparr>ow_started := True, ow_threads := threads, ow_refcount := ow_refcount w + 1\<rparr>)
            else Inl RuntimeError)
      else Inr (w\<lparr>ow_refcount := ow_refcount w + 1\<rparr>))"

definition stop_hpx_locked :: "owner \<Rightarrow> owner" where
  "stop_hpx_locked w =
     (if 0 < ow_refcount w
      then (let w' = w\<lparr>ow_refcount := ow_refcount w - 1\<rparr> in
            if ow_refcount w' = 0 \<and> ow_started w' then w'\<lparr>ow_started := False\<rparr> else w')
      else w)"

text \<open>A refused attach leaves the owner as it was, so the result is the new state or the error.\<close>

fun attach :: "bool \<Rightarrow> attach_kind \<Rightarrow> int \<Rightarrow> owner \<Rightarrow> owner py" where
  "attach start_ok AEngine threads w =
     (if ow_engine w \<or> ow_runtime w \<or> 0 < ow_endpoints w then Inl RuntimeError
      else rbind (start_hpx_locked start_ok threads w) (\<lambda>w. Inr (w\<lparr>ow_engine := True\<rparr>)))"
| "attach start_ok ARuntime threads w =
     (if ow_engine w \<or> ow_runtime w then Inl RuntimeError
      else rbind (start_hpx_locked start_ok threads w) (\<lambda>w. Inr (w\<lparr>ow_runtime := True\<rparr>)))"
| "attach start_ok AEndpoint threads w =
     (if ow_engine w then Inl RuntimeError
      else Inr (w\<lparr>ow_endpoints := ow_endpoints w + 1\<rparr>))"

fun detach :: "attach_kind \<Rightarrow> owner \<Rightarrow> owner" where
  "detach AEngine w = (if ow_engine w then stop_hpx_locked (w\<lparr>ow_engine := False\<rparr>) else w)"
| "detach ARuntime w = (if ow_runtime w then stop_hpx_locked (w\<lparr>ow_runtime := False\<rparr>) else w)"
| "detach AEndpoint w = (if 0 < ow_endpoints w then w\<lparr>ow_endpoints := ow_endpoints w - 1\<rparr> else w)"

inductive owner_reachable :: "owner \<Rightarrow> bool" where
  New: "owner_reachable new_owner"
| Attach: "owner_reachable w \<Longrightarrow> attach ok k n w = Inr w' \<Longrightarrow> owner_reachable w'"
| Detach: "owner_reachable w \<Longrightarrow> owner_reachable (detach k w)"

definition owner_inv :: "owner \<Rightarrow> bool" where
  "owner_inv w \<longleftrightarrow> ow_refcount w = (if ow_engine w then 1 else 0) + (if ow_runtime w then 1 else 0)
     \<and> ow_started w = (0 < ow_refcount w) \<and> 0 \<le> ow_endpoints w
     \<and> (ow_engine w \<longrightarrow> \<not> ow_runtime w \<and> ow_endpoints w = 0)"

lemmas owner_defs = owner_inv_def start_hpx_locked_def stop_hpx_locked_def Let_def

lemma new_owner_inv: "owner_inv new_owner"
  by (simp add: owner_defs new_owner_def)

lemma attach_inv: "owner_inv w \<Longrightarrow> attach ok k n w = Inr w' \<Longrightarrow> owner_inv w'"
  by (cases k) (auto simp: owner_defs rbind_eq_Inr split: if_splits)

lemma detach_inv: "owner_inv w \<Longrightarrow> owner_inv (detach k w)"
  by (cases k) (auto simp: owner_defs split: if_splits)

lemma owner_reachable_inv: "owner_reachable w \<Longrightarrow> owner_inv w"
  by (induction rule: owner_reachable.induct)
    (blast intro: new_owner_inv attach_inv detach_inv)+

text \<open>
  C10. Ownership of the process: in every reachable state HPX runs exactly while an engine or a
  runtime holds it, never both; a live engine excludes every endpoint; and a stray or repeated
  detach cannot stop HPX under another owner.
\<close>

theorem owner_exclusive:
  assumes "owner_reachable w"
  shows "ow_started w = (ow_engine w \<or> ow_runtime w)
    \<and> \<not> (ow_engine w \<and> ow_runtime w) \<and> \<not> (ow_engine w \<and> 0 < ow_endpoints w)
    \<and> ow_started (detach AEngine (detach AEngine (detach AEndpoint w))) = ow_runtime w"
  using owner_reachable_inv [OF assms] by (auto simp: owner_defs)

lemma owner_exclusive_witness:
  "\<exists>w. attach True ARuntime 4 new_owner = Inr w \<and> ow_started w \<and> ow_started (detach AEngine (detach AEngine (detach AEndpoint w)))"
proof -
  define w where "w = new_owner\<lparr>ow_started := True, ow_threads := 4, ow_refcount := 1, ow_runtime := True\<rparr>"
  have a: "attach True ARuntime 4 new_owner = Inr w"
    by (simp add: new_owner_def start_hpx_locked_def w_def)
  then have "owner_reachable w" by (rule owner_reachable.Attach [OF owner_reachable.New])
  from owner_exclusive [OF this] show ?thesis using a by (auto simp: w_def new_owner_def)
qed

end
