(* ===== verification/HarnessEngine.thy ===== *)
theory HarnessEngine
  imports ServiceLaneInv PyNumber ProcessOwner
begin

text \<open>
  The native harness engine: \<open>_Engine\<close> and \<open>_Future\<close> of \<open>python/src/rayx/_rayx.cpp\<close>. A \<open>_Future\<close>
  names a request's cell on a lane; the cells outlive the lanes, as the shared states behind the
  futures do, so a future stays usable after \<open>shutdown\<close>. A call that would block returns \<open>Blocked\<close>:
  it has no result before the lanes move on.
\<close>

subsection \<open>State\<close>

record efuture =
  ef_lane :: nat
  ef_id :: nat
  ef_tok :: bool
  ef_valid :: bool

record engine =
  en_running :: bool
  en_lanes :: "lane list"
  en_rr :: nat
  en_cap :: int
  en_bulk :: bool
  en_futs :: "efuture list"

datatype 'a outcome = Blocked | Returns 'a | Raises exc

definition en_cell :: "engine \<Rightarrow> nat \<Rightarrow> cell" where
  "en_cell e k = ln_cells (en_lanes e ! ef_lane (en_futs e ! k)) ! ef_id (en_futs e ! k)"

definition upd_lane :: "nat \<Rightarrow> lane \<Rightarrow> engine \<Rightarrow> engine" where
  "upd_lane i l e = e\<lparr>en_lanes := (en_lanes e)[i := l]\<rparr>"

text \<open>
  Construction: the argument checks, then the process attach, then the lanes. \<open>actors\<close> are the
  random actor ids drawn for them, \<open>t\<close> the time.
\<close>

definition engine_new ::
    "bool \<Rightarrow> string list \<Rightarrow> int \<Rightarrow> int \<Rightarrow> int \<Rightarrow> int \<Rightarrow> string \<Rightarrow> owner \<Rightarrow> (owner \<times> engine) py" where
  "engine_new start_ok actors t num_lanes hpx_threads cap lane_impl w =
     (if num_lanes < 1 then Inl ValueError
      else if hpx_threads < 1 then Inl ValueError
      else if cap \<noteq> - 1 \<and> cap < 1 then Inl ValueError
      else if lane_impl \<noteq> ''std'' \<and> lane_impl \<noteq> ''hpx'' then Inl ValueError
      else rbind (attach start_ok AEngine hpx_threads w) (\<lambda>w.
        Inr (w, \<lparr>en_running = True,
          en_lanes = map (\<lambda>i. new_lane (actors ! i) False t) [0..<nat num_lanes],
          en_rr = 0, en_cap = cap, en_bulk = True, en_futs = []\<rparr>)))"

subsection \<open>Submission\<close>

text \<open>\<open>rr_\<close> is a \<open>std::size_t\<close>.\<close>

definition rr_lane :: "engine \<Rightarrow> nat \<Rightarrow> nat" where
  "rr_lane e i = (en_rr e + i) mod 2 ^ 64 mod length (en_lanes e)"

definition rr_advance :: "nat \<Rightarrow> engine \<Rightarrow> engine" where
  "rr_advance n e = e\<lparr>en_rr := (en_rr e + n) mod 2 ^ 64\<rparr>"

definition add_future :: "nat \<Rightarrow> nat \<Rightarrow> bool \<Rightarrow> engine \<Rightarrow> engine" where
  "add_future i k tok e =
     e\<lparr>en_futs := en_futs e @ [\<lparr>ef_lane = i, ef_id = k, ef_tok = tok, ef_valid = True\<rparr>]\<rparr>"

definition single_request :: "pyfloat \<Rightarrow> string \<Rightarrow> int \<Rightarrow> pyfloat \<Rightarrow> int \<Rightarrow> request" where
  "single_request service_ms work_mode chunks delay t = \<lparr>rq_request_id = '''',
     rq_service_ms = service_ms, rq_work_mode = work_mode, rq_submit_ns = t, rq_chunks = chunks,
     rq_chunk_delay_ms = delay\<rparr>"

text \<open>\<open>Some k\<close>: the index of the new future; \<open>None\<close>: rejected by a full lane.\<close>

definition engine_submit ::
    "pyfloat \<Rightarrow> string \<Rightarrow> int \<Rightarrow> pyfloat \<Rightarrow> engine \<Rightarrow> (engine \<times> nat option) py" where
  "engine_submit service_ms work_mode chunks delay e =
     (if \<not> en_running e then Inl RuntimeError
      else
        let i = rr_lane e 0; l = en_lanes e ! i;
            rq = single_request service_ms work_mode chunks delay (ln_now l);
            e = rr_advance 1 e
        in if 0 \<le> en_cap e
           then (case try_submit rq (en_cap e) True l of
                (l', None) \<Rightarrow> Inr (upd_lane i l' e, None)
              | (l', Some k) \<Rightarrow> Inr (add_future i k True (upd_lane i l' e), Some (length (en_futs e))))
           else (case submit rq True l of (l', k) \<Rightarrow>
                Inr (add_future i k True (upd_lane i l' e), Some (length (en_futs e)))))"

text \<open>
  Batch enqueue, one request at a time: request \<open>i\<close> of the group goes to lane
  \<open>(rr_start + i) mod num_lanes\<close>. The result lists (lane, id) per request in input order.
\<close>

fun enqueue_single :: "(nat \<Rightarrow> nat) \<Rightarrow> nat \<Rightarrow> request list \<Rightarrow> lane list \<Rightarrow> lane list \<times> (nat \<times> nat) list" where
  "enqueue_single route i [] ls = (ls, [])"
| "enqueue_single route i (rq # rqs) ls =
     (case submit rq False (ls ! route i) of (l', k) \<Rightarrow>
        (case enqueue_single route (Suc i) rqs (ls[route i := l']) of (ls', ks) \<Rightarrow>
           (ls', (route i, k) # ks)))"

text \<open>
  Bulk: group the requests per lane, in input order; push each group under one lock; then scatter
  the futures back to the input positions.
\<close>

definition group_for :: "(nat \<Rightarrow> nat) \<Rightarrow> request list \<Rightarrow> nat \<Rightarrow> nat list" where
  "group_for route rqs l = filter (\<lambda>i. route i = l) [0..<length rqs]"

fun scatter :: "'a list \<Rightarrow> nat list \<Rightarrow> 'a list \<Rightarrow> 'a list" where
  "scatter out (i # is) (x # xs) = scatter (out[i := x]) is xs"
| "scatter out _ _ = out"

fun enqueue_bulk_lanes ::
    "(nat \<Rightarrow> nat) \<Rightarrow> request list \<Rightarrow> nat list \<Rightarrow> lane list \<Rightarrow> (nat \<times> nat) list \<Rightarrow> lane list \<times> (nat \<times> nat) list" where
  "enqueue_bulk_lanes route rqs [] ls out = (ls, out)"
| "enqueue_bulk_lanes route rqs (l # rest) ls out =
     (let idx = group_for route rqs l in
      if idx = [] then enqueue_bulk_lanes route rqs rest ls out
      else (case submit_bulk (map ((!) rqs) idx) (ls ! l) of (l', ks) \<Rightarrow>
        enqueue_bulk_lanes route rqs rest (ls[l := l']) (scatter out idx (map (Pair l) ks))))"

definition enqueue_bulk :: "(nat \<Rightarrow> nat) \<Rightarrow> request list \<Rightarrow> lane list \<Rightarrow> lane list \<times> (nat \<times> nat) list" where
  "enqueue_bulk route rqs ls =
     enqueue_bulk_lanes route rqs [0..<length ls] ls (replicate (length rqs) (0, 0))"

fun add_futures :: "(nat \<times> nat) list \<Rightarrow> engine \<Rightarrow> engine" where
  "add_futures [] e = e"
| "add_futures ((i, k) # ks) e = add_futures ks (add_future i k False e)"

text \<open>The new futures are those from the old number of futures on.\<close>

definition enqueue_round_robin :: "request list \<Rightarrow> engine \<Rightarrow> engine \<times> nat list" where
  "enqueue_round_robin rqs e =
     (case (if en_bulk e then enqueue_bulk (rr_lane e) rqs (en_lanes e)
            else enqueue_single (rr_lane e) 0 rqs (en_lanes e)) of (ls, ks) \<Rightarrow>
        (add_futures ks (rr_advance (length rqs) e\<lparr>en_lanes := ls\<rparr>),
         [length (en_futs e)..<length (en_futs e) + length rqs]))"

definition batch_request :: "string \<Rightarrow> int \<Rightarrow> pyfloat \<Rightarrow> request" where
  "batch_request work_mode t service_ms = single_request service_ms work_mode 1 (Fin 0) t"

text \<open>All requests of a batch are stamped before the first is enqueued; \<open>t\<close> is that time.\<close>

definition engine_submit_batch ::
    "int \<Rightarrow> pyfloat \<Rightarrow> int \<Rightarrow> string \<Rightarrow> engine \<Rightarrow> (engine \<times> nat list) py" where
  "engine_submit_batch t service_ms count work_mode e =
     (if \<not> en_running e then Inl RuntimeError
      else if count < 1 then Inl ValueError
      else Inr (enqueue_round_robin
             (map (batch_request work_mode t) (replicate (nat count) service_ms)) e))"

definition engine_submit_batch_varied ::
    "int \<Rightarrow> pyfloat list \<Rightarrow> string \<Rightarrow> engine \<Rightarrow> (engine \<times> nat list) py" where
  "engine_submit_batch_varied t service_ms_list work_mode e =
     (if \<not> en_running e then Inl RuntimeError
      else if service_ms_list = [] then Inl ValueError
      else Inr (enqueue_round_robin (map (batch_request work_mode t) service_ms_list) e))"

subsection \<open>Futures\<close>

definition ef_ready_now :: "engine \<Rightarrow> nat \<Rightarrow> bool" where
  "ef_ready_now e k = (cl_proms (en_cell e k) \<noteq> [])"

definition set_valid :: "nat \<Rightarrow> bool \<Rightarrow> engine \<Rightarrow> engine" where
  "set_valid k b e = e\<lparr>en_futs := (en_futs e)[k := (en_futs e ! k)\<lparr>ef_valid := b\<rparr>]\<rparr>"

definition future_result :: "nat \<Rightarrow> engine \<Rightarrow> engine \<times> result outcome" where
  "future_result k e =
     (if \<not> ef_valid (en_futs e ! k) then (e, Raises RuntimeError)
      else (case cl_proms (en_cell e k) of [] \<Rightarrow> (e, Blocked)
            | r # rs \<Rightarrow> (set_valid k False e, Returns r)))"

definition future_ready :: "nat \<Rightarrow> engine \<Rightarrow> bool py" where
  "future_ready k e =
     (if \<not> ef_valid (en_futs e ! k) then Inl RuntimeError else Inr (ef_ready_now e k))"

text \<open>\<open>cancel\<close> runs both halves of the token's cancellation before it returns.\<close>

definition cancel_now :: "nat \<Rightarrow> engine \<Rightarrow> engine \<times> bool" where
  "cancel_now k e =
     (let i = ef_lane (en_futs e ! k); r = ef_id (en_futs e ! k) in
      case cancel_request r (en_lanes e ! i) of (l', did) \<Rightarrow>
        (upd_lane i (settle_request r l') e, did))"

definition future_cancel :: "nat \<Rightarrow> engine \<Rightarrow> engine \<times> bool py" where
  "future_cancel k e =
     (if \<not> ef_valid (en_futs e ! k) then (e, Inl RuntimeError)
      else if \<not> ef_tok (en_futs e ! k) then (e, Inl RuntimeError)
      else (case cancel_now k e of (e', did) \<Rightarrow> (e', Inr did)))"

definition future_cancelled :: "nat \<Rightarrow> engine \<Rightarrow> bool" where
  "future_cancelled k e = (ef_tok (en_futs e ! k) \<and> cell_cancelled (en_cell e k))"

definition engine_cancel :: "nat \<Rightarrow> engine \<Rightarrow> engine \<times> bool py" where
  "engine_cancel k e = (if \<not> en_running e then (e, Inl RuntimeError) else future_cancel k e)"

subsection \<open>Waiting, observing, stopping\<close>

text \<open>The loop that borrows the wrappers: a retired future or a duplicate is refused.\<close>

fun borrow_futures :: "nat list \<Rightarrow> nat list \<Rightarrow> engine \<Rightarrow> unit py" where
  "borrow_futures seen [] e = Inr ()"
| "borrow_futures seen (k # ks) e =
     (if \<not> ef_valid (en_futs e ! k) then Inl RuntimeError
      else if k \<in> set seen then Inl ValueError
      else borrow_futures (k # seen) ks e)"

definition ready_indices :: "nat list \<Rightarrow> engine \<Rightarrow> nat list" where
  "ready_indices ks e = filter (\<lambda>i. ef_ready_now e (ks ! i)) [0..<length ks]"

definition engine_wait :: "nat list \<Rightarrow> int \<Rightarrow> engine \<Rightarrow> nat list outcome" where
  "engine_wait ks num_returns e =
     (if \<not> en_running e then Raises RuntimeError
      else if ks = [] then Raises ValueError
      else if num_returns < 1 then Raises ValueError
      else if int (length ks) < num_returns then Raises ValueError
      else (case borrow_futures [] ks e of Inl x \<Rightarrow> Raises x
        | Inr _ \<Rightarrow> if int (length (ready_indices ks e)) < num_returns then Blocked
                  else Returns (ready_indices ks e)))"

definition engine_num_lanes :: "engine \<Rightarrow> int" where
  "engine_num_lanes e = (if en_running e then int (length (en_lanes e)) else 0)"

definition engine_lane_stats :: "engine \<Rightarrow> (string \<times> int \<times> bool) list py" where
  "engine_lane_stats e =
     (if \<not> en_running e then Inl RuntimeError else Inr (map stats (en_lanes e)))"

definition set_bulk_enqueue :: "bool \<Rightarrow> engine \<Rightarrow> engine" where
  "set_bulk_enqueue on e = e\<lparr>en_bulk := on\<rparr>"

text \<open>Destroying a lane sets its stop flag and joins its worker.\<close>

definition destroy_lane :: "lane \<Rightarrow> lane" where
  "destroy_lane l = (let l' = request_stop l in drain (lane_work l') l')"

definition engine_shutdown :: "engine \<times> owner \<Rightarrow> engine \<times> owner" where
  "engine_shutdown ew = (case ew of (e, w) \<Rightarrow>
     if \<not> en_running e then (e, w)
     else (e\<lparr>en_running := False, en_lanes := map destroy_lane (en_lanes e)\<rparr>, detach AEngine w))"

end
