(* ===== verification/HarnessBatch.thy ===== *)
theory HarnessBatch
  imports HarnessEngine
begin

text \<open>
  The two batch strategies of \<open>enqueue_round_robin\<close> agree. Both are compared with a specification:
  what each lane receives and where each request lands, computed from the routing alone.
\<close>

definition spec_lanes :: "(nat \<Rightarrow> nat) \<Rightarrow> request list \<Rightarrow> lane list \<Rightarrow> lane list" where
  "spec_lanes route rqs ls =
     map (\<lambda>l. push_all (map ((!) rqs) (group_for route rqs l)) (ls ! l)) [0..<length ls]"

definition spec_key :: "(nat \<Rightarrow> nat) \<Rightarrow> lane list \<Rightarrow> nat \<Rightarrow> nat \<times> nat" where
  "spec_key route ls i = (route i,
     length (ln_cells (ls ! route i)) + length (filter (\<lambda>j. route j = route i) [0..<i]))"

lemma push_all_append: "push_all (xs @ ys) l = push_all ys (push_all xs l)"
  by (induction xs arbitrary: l) simp_all

lemma push_all_cells: "length (ln_cells (push_all rqs l)) = length (ln_cells l) + length rqs"
  by (induction rqs arbitrary: l) (simp_all add: push_item_def)

lemma group_snoc:
  "group_for route (rqs @ [rq]) l = group_for route rqs l @ (if route (length rqs) = l then [length rqs] else [])"
  by (simp add: group_for_def)

lemma group_bound: "i \<in> set (group_for route rqs l) \<Longrightarrow> i < length rqs"
  by (simp add: group_for_def)

lemma map_nth_group:
  "map ((!) (rqs @ [rq])) (group_for route rqs l) = map ((!) rqs) (group_for route rqs l)"
  by (auto simp: nth_append dest: group_bound)

lemma spec_lanes_snoc:
  assumes "route (length rqs) < length ls"
  shows "spec_lanes route (rqs @ [rq]) ls = (spec_lanes route rqs ls)[route (length rqs) :=
           push_item rq False (spec_lanes route rqs ls ! route (length rqs))]"
proof (rule nth_equalityI)
  show "length (spec_lanes route (rqs @ [rq]) ls) = length ((spec_lanes route rqs ls)[route (length rqs) :=
          push_item rq False (spec_lanes route rqs ls ! route (length rqs))])"
    by (simp add: spec_lanes_def)
  fix l assume "l < length (spec_lanes route (rqs @ [rq]) ls)"
  then have l: "l < length ls" by (simp add: spec_lanes_def)
  then show "spec_lanes route (rqs @ [rq]) ls ! l = (spec_lanes route rqs ls)[route (length rqs) :=
      push_item rq False (spec_lanes route rqs ls ! route (length rqs))] ! l"
    using assms map_nth_group [of rqs rq route l]
    by (cases "l = route (length rqs)")
      (simp_all add: spec_lanes_def group_snoc push_all_append del: map_eq_conv)
qed

subsection \<open>One request at a time\<close>

lemma enqueue_single_append:
  "enqueue_single route i (xs @ ys) ls =
     (case enqueue_single route i xs ls of (ls', ks) \<Rightarrow>
        (case enqueue_single route (i + length xs) ys ls' of (ls'', ks') \<Rightarrow> (ls'', ks @ ks')))"
  by (induction xs arbitrary: i ls) (simp_all add: split: prod.splits)

lemma enqueue_single_spec:
  assumes "\<forall>i < length rqs. route i < length ls"
  shows "enqueue_single route 0 rqs ls = (spec_lanes route rqs ls, map (spec_key route ls) [0..<length rqs])"
  using assms
proof (induction rqs rule: rev_induct)
  case Nil
  then show ?case by (simp add: spec_lanes_def group_for_def map_nth)
next
  case (snoc rq rqs)
  then have IH: "enqueue_single route 0 rqs ls = (spec_lanes route rqs ls, map (spec_key route ls) [0..<length rqs])"
    and r: "route (length rqs) < length ls" by simp_all
  have "length (ln_cells (spec_lanes route rqs ls ! route (length rqs)))
      = length (ln_cells (ls ! route (length rqs))) + length (filter (\<lambda>j. route j = route (length rqs)) [0..<length rqs])"
    using r by (simp add: spec_lanes_def push_all_cells group_for_def)
  then show ?case
    by (simp add: enqueue_single_append IH submit_def spec_lanes_snoc [of route rqs ls rq, OF r] spec_key_def)
qed

subsection \<open>Grouped per lane\<close>

lemma scatter_length [simp]: "length (scatter out is xs) = length out"
  by (induction out "is" xs rule: scatter.induct) simp_all

lemma scatter_other: "i \<notin> set is \<Longrightarrow> scatter out is xs ! i = out ! i"
  by (induction out "is" xs rule: scatter.induct) simp_all

lemma scatter_nth:
  "distinct is \<Longrightarrow> length xs = length is \<Longrightarrow> set is \<subseteq> {..<length out} \<Longrightarrow> k < length is
    \<Longrightarrow> scatter out is xs ! (is ! k) = xs ! k"
proof (induction out "is" xs arbitrary: k rule: scatter.induct)
  case (1 out i "is" x xs)
  then show ?case by (cases k) (simp_all add: scatter_other)
qed simp_all

lemma group_nth_pos:
  assumes "i < length rqs" and "route i = l"
  defines "k \<equiv> length (filter (\<lambda>j. route j = l) [0..<i])"
  shows "k < length (group_for route rqs l) \<and> group_for route rqs l ! k = i"
proof -
  have "[0..<length rqs] = [0..<i] @ i # [Suc i..<length rqs]"
    using assms(1) by (metis le_add1 less_imp_add_positive plus_nat.add_0 upt_add_eq_append upt_conv_Cons less_add_same_cancel1)
  then show ?thesis using assms(2) by (simp add: group_for_def k_def nth_append)
qed

lemma bulk_lanes_spec:
  assumes "distinct todo" and "set todo \<subseteq> {..<length ls}" and "length out = length rqs"
  shows "enqueue_bulk_lanes route rqs todo ls out =
     (map (\<lambda>l. if l \<in> set todo then push_all (map ((!) rqs) (group_for route rqs l)) (ls ! l) else ls ! l)
        [0..<length ls],
      map (\<lambda>i. if route i \<in> set todo then spec_key route ls i else out ! i) [0..<length rqs])"
  using assms
proof (induction todo arbitrary: ls out)
  case Nil
  then show ?case by (simp add: map_nth) (metis map_nth)
next
  case (Cons l todo)
  let ?idx = "group_for route rqs l"
  have l: "l < length ls" "l \<notin> set todo" using Cons.prems by auto
  show ?case
  proof (cases "?idx = []")
    case True
    have "route i \<noteq> l" if "i < length rqs" for i
      using True that by (auto simp: group_for_def filter_empty_conv)
    then have "enqueue_bulk_lanes route rqs todo ls out =
     (map (\<lambda>x. if x \<in> set (l # todo) then push_all (map ((!) rqs) (group_for route rqs x)) (ls ! x) else ls ! x)
        [0..<length ls],
      map (\<lambda>i. if route i \<in> set (l # todo) then spec_key route ls i else out ! i) [0..<length rqs])"
      using Cons.IH [of ls out] Cons.prems True by auto
    then show ?thesis using True by (simp add: Let_def)
  next
    case False
    let ?l' = "push_all (map ((!) rqs) ?idx) (ls ! l)" and ?n = "length (ln_cells (ls ! l))"
    let ?ks = "map (Pair l) [?n..<?n + length ?idx]"
    let ?out = "scatter out ?idx ?ks"
    have key: "spec_key route (ls[l := ?l']) i = spec_key route ls i" if "route i \<in> set todo" for i
      using that l(2) by (cases "route i = l") (simp_all add: spec_key_def)
    have out_l: "?out ! i = spec_key route ls i" if "i < length rqs" "route i = l" for i
    proof -
      let ?k = "length (filter (\<lambda>j. route j = l) [0..<i])"
      have k: "?k < length ?idx" "?idx ! ?k = i" using group_nth_pos [of i rqs route l] that by auto
      have "?out ! (?idx ! ?k) = ?ks ! ?k"
        by (rule scatter_nth) (use k(1) Cons.prems(3) in \<open>auto simp: group_for_def\<close>)
      then show ?thesis using k that(2) by (simp add: spec_key_def)
    qed
    have out_other: "?out ! i = out ! i" if "route i \<noteq> l" for i
      using that by (intro scatter_other) (auto simp: group_for_def)
    have "enqueue_bulk_lanes route rqs todo (ls[l := ?l']) ?out =
      (map (\<lambda>x. if x \<in> set todo then push_all (map ((!) rqs) (group_for route rqs x)) (ls[l := ?l'] ! x) else ls[l := ?l'] ! x)
        [0..<length ls],
       map (\<lambda>i. if route i \<in> set todo then spec_key route (ls[l := ?l']) i else ?out ! i) [0..<length rqs])"
      using Cons.IH [of "ls[l := ?l']" ?out] Cons.prems by simp
    also have "\<dots> = (map (\<lambda>x. if x \<in> set (l # todo) then push_all (map ((!) rqs) (group_for route rqs x)) (ls ! x) else ls ! x)
        [0..<length ls],
       map (\<lambda>i. if route i \<in> set (l # todo) then spec_key route ls i else out ! i) [0..<length rqs])"
      using l key out_l out_other by (auto simp: nth_list_update)
    finally show ?thesis using False by (simp add: Let_def submit_bulk_def)
  qed
qed

text \<open>
  C8. The two batch strategies are interchangeable: whatever the routing, grouping the requests per
  lane and pushing each group at once leaves every lane, and hands every request the same future, as
  submitting them one by one in input order does.
\<close>

theorem bulk_equals_single:
  assumes "\<forall>i < length rqs. route i < length ls"
  shows "enqueue_bulk route rqs ls = enqueue_single route 0 rqs ls"
proof -
  have "enqueue_bulk route rqs ls = (spec_lanes route rqs ls, map (spec_key route ls) [0..<length rqs])"
    using assms unfolding enqueue_bulk_def
    by (subst bulk_lanes_spec) (auto simp: spec_lanes_def)
  then show ?thesis using enqueue_single_spec [OF assms] by simp
qed

lemma bulk_equals_single_witness:
  "enqueue_bulk (\<lambda>i. (i + 1) mod 2) [demo_request, demo_request, demo_request]
       [new_lane ''a'' False 0, new_lane ''b'' False 0]
     = enqueue_single (\<lambda>i. (i + 1) mod 2) 0 [demo_request, demo_request, demo_request]
       [new_lane ''a'' False 0, new_lane ''b'' False 0]"
  by (rule bulk_equals_single) (simp del: One_nat_def add: numeral_2_eq_2 [symmetric])

end
