(* ===== verification/HarnessFacade.thy ===== *)
theory HarnessFacade
  imports HarnessBatch
begin

text \<open>
  The Python face of the harness (\<open>python/src/rayx/__init__.py\<close>): \<open>Future\<close>, \<open>Engine\<close> and
  \<open>SyntheticActor\<close>. An engine value carries every \<open>Future\<close> object made from it; a future is named by
  its position. \<open>t\<close> is what \<open>time.perf_counter_ns()\<close> returns in the call. A method that changes state
  returns the new state also when it raises.
\<close>

subsection \<open>Objects\<close>

record pyfuture =
  fu_cf :: nat
  fu_submit_ns :: int
  fu_retired :: bool
  fu_label :: pyval
  fu_chunks :: int
  fu_chunk_delay_ms :: pyfloat

record pyengine =
  pe_cap_arg :: pyval
  pe_lane_impl :: string
  pe_closed :: bool
  pe_native :: engine
  pe_futs :: "pyfuture list"

record hrow =
  hr_actor_id :: string
  hr_submit_ns :: int
  hr_start_ns :: int
  hr_end_ns :: int
  hr_total_ms :: pyfloat
  hr_queue_wait_ms :: pyfloat
  hr_service_ms_observed :: pyfloat
  hr_status :: string
  hr_error :: pyval
  hr_label :: pyval
  hr_chunks :: int
  hr_chunk_delay_ms :: pyfloat
  hr_chunks_completed :: int

text \<open>What a caller may pass where a \<open>Future\<close> is expected: one of the engine's futures, or an object
  without a \<open>_cf\<close> attribute.\<close>

datatype fut_arg = AFuture nat | ANot

definition new_pyfuture :: "nat \<Rightarrow> int \<Rightarrow> pyval \<Rightarrow> int \<Rightarrow> pyfloat \<Rightarrow> pyfuture" where
  "new_pyfuture cf submit_ns label chunks delay = \<lparr>fu_cf = cf, fu_submit_ns = submit_ns,
     fu_retired = False, fu_label = label, fu_chunks = chunks, fu_chunk_delay_ms = delay\<rparr>"

definition with_native :: "engine \<Rightarrow> pyengine \<Rightarrow> pyengine" where
  "with_native e pe = pe\<lparr>pe_native := e\<rparr>"

subsection \<open>\<open>Future\<close>\<close>

definition fut_ready :: "nat \<Rightarrow> pyengine \<Rightarrow> bool py" where
  "fut_ready k pe = future_ready (fu_cf (pe_futs pe ! k)) (pe_native pe)"

definition fut_cancelled :: "nat \<Rightarrow> pyengine \<Rightarrow> bool" where
  "fut_cancelled k pe = future_cancelled (fu_cf (pe_futs pe ! k)) (pe_native pe)"

definition retire :: "nat \<Rightarrow> pyengine \<Rightarrow> pyengine" where
  "retire k pe = pe\<lparr>pe_futs := (pe_futs pe)[k := (pe_futs pe ! k)\<lparr>fu_retired := True\<rparr>]\<rparr>"

definition ns_to_ms :: "int \<Rightarrow> pyfloat py" where
  "ns_to_ms n = (case float_of_int n of None \<Rightarrow> Inl OverflowError | Some f \<Rightarrow> Inr (fdiv_pos f 1000000))"

text \<open>The native row's \<open>service_ms_observed\<close>: a 64-bit difference over \<open>1e6\<close>.\<close>

definition service_ms_observed :: "result \<Rightarrow> pyfloat" where
  "service_ms_observed r = fdiv_pos (b64_round (of_int (rs_end_ns r - rs_start_ns r))) 1000000"

definition clamp0 :: "pyfloat \<Rightarrow> pyfloat" where
  "clamp0 x = (if flt x (Fin 0) then Fin 0 else x)"

definition build_row :: "pyfuture \<Rightarrow> int \<Rightarrow> result \<Rightarrow> hrow py" where
  "build_row f recv_ns r =
     rbind (ns_to_ms (recv_ns - fu_submit_ns f)) (\<lambda>total_ms.
       let service_ms = service_ms_observed r in
       Inr \<lparr>hr_actor_id = rs_actor_id r, hr_submit_ns = fu_submit_ns f, hr_start_ns = rs_start_ns r,
         hr_end_ns = rs_end_ns r, hr_total_ms = total_ms,
         hr_queue_wait_ms = clamp0 (fsub total_ms service_ms),
         hr_service_ms_observed = service_ms, hr_status = rs_status r,
         hr_error = (if rs_error r = '''' then VNone else VStr (rs_error r)),
         hr_label = fu_label f, hr_chunks = fu_chunks f, hr_chunk_delay_ms = fu_chunk_delay_ms f,
         hr_chunks_completed = rs_chunks_completed r\<rparr>)"

definition fut_result :: "nat \<Rightarrow> int option \<Rightarrow> int \<Rightarrow> pyengine \<Rightarrow> pyengine \<times> hrow outcome" where
  "fut_result k recv_ns t pe =
     (case future_result (fu_cf (pe_futs pe ! k)) (pe_native pe) of
        (e, Blocked) \<Rightarrow> (pe, Blocked)
      | (e, Raises x) \<Rightarrow> (pe, Raises x)
      | (e, Returns r) \<Rightarrow>
          (retire k (with_native e pe),
           (case build_row (pe_futs pe ! k) (case recv_ns of None \<Rightarrow> t | Some n \<Rightarrow> n) r of
              Inl x \<Rightarrow> Raises x | Inr row \<Rightarrow> Returns row)))"

datatype fut_state = Pending | Ready | Retired

definition fut_repr :: "nat \<Rightarrow> pyengine \<Rightarrow> fut_state py" where
  "fut_repr k pe = (if fu_retired (pe_futs pe ! k) then Inr Retired
     else rbind (fut_ready k pe) (\<lambda>r. Inr (if r then Ready else Pending)))"

subsection \<open>\<open>Engine\<close>\<close>

definition eng_init ::
    "bool \<Rightarrow> string list \<Rightarrow> int \<Rightarrow> pyval \<Rightarrow> pyval \<Rightarrow> pyval \<Rightarrow> pyval \<Rightarrow> owner \<Rightarrow> (owner \<times> pyengine) py" where
  "eng_init start_ok actors t num_lanes hpx_threads cap_arg lane_impl w =
     rbind (validate_max_queue_depth_per_lane cap_arg) (\<lambda>cap.
     rbind (validate_lane_impl lane_impl) (\<lambda>impl.
     rbind (cross_int32 num_lanes) (\<lambda>n.
     rbind (cross_int32 hpx_threads) (\<lambda>h.
     rbind (cross_int32 (VInt cap)) (\<lambda>cap.
     rbind (engine_new start_ok actors t n h cap impl w) (\<lambda>we.
       Inr (fst we, \<lparr>pe_cap_arg = cap_arg, pe_lane_impl = impl, pe_closed = False,
         pe_native = snd we, pe_futs = []\<rparr>)))))))"

text \<open>The arguments of one native submit, in the order the code checks and converts them.\<close>

definition submit_args ::
    "pyval \<Rightarrow> pyval \<Rightarrow> pyval \<Rightarrow> pyval \<Rightarrow> pyval \<Rightarrow> (pyfloat \<times> string \<times> int \<times> pyfloat) py" where
  "submit_args service_ms work_mode label chunks chunk_delay_ms =
     rbind (validate_label label) (\<lambda>_.
     rbind (validate_work_mode work_mode) (\<lambda>mode.
     rbind (validate_chunks chunks) (\<lambda>nch.
     rbind (validate_chunk_delay_ms chunk_delay_ms) (\<lambda>delay.
     rbind (py_float_any service_ms) (\<lambda>svc.
     rbind (cross_int32 (VInt nch)) (\<lambda>nch.
       Inr (svc, mode, nch, delay)))))))"

definition add_pyfuture :: "pyfuture \<Rightarrow> pyengine \<Rightarrow> pyengine" where
  "add_pyfuture f pe = pe\<lparr>pe_futs := pe_futs pe @ [f]\<rparr>"

definition eng_submit ::
    "int \<Rightarrow> pyval \<Rightarrow> pyval \<Rightarrow> pyval \<Rightarrow> pyval \<Rightarrow> pyval \<Rightarrow> pyengine \<Rightarrow> pyengine \<times> nat py" where
  "eng_submit t service_ms work_mode label chunks chunk_delay_ms pe =
     (case submit_args service_ms work_mode label chunks chunk_delay_ms of
        Inl x \<Rightarrow> (pe, Inl x)
      | Inr (svc, mode, nch, delay) \<Rightarrow>
        (case engine_submit svc mode nch delay (pe_native pe) of
           Inl x \<Rightarrow> (pe, Inl x)
         | Inr (e, None) \<Rightarrow> (with_native e pe, Inl QueueFullError)
         | Inr (e, Some cf) \<Rightarrow>
             (add_pyfuture (new_pyfuture cf t label nch delay) (with_native e pe),
              Inr (length (pe_futs pe)))))"

fun wrap_batch :: "int \<Rightarrow> nat list \<Rightarrow> pyengine \<Rightarrow> pyengine" where
  "wrap_batch t [] pe = pe"
| "wrap_batch t (cf # cfs) pe = wrap_batch t cfs (add_pyfuture (new_pyfuture cf t VNone 1 (Fin 0)) pe)"

text \<open>\<open>now\<close>: the native clock when the batch's requests are stamped.\<close>

definition batch_native ::
    "int \<Rightarrow> pyval \<Rightarrow> pyval \<Rightarrow> string \<Rightarrow> pyfloat list option \<Rightarrow> engine \<Rightarrow> (engine \<times> nat list) py" where
  "batch_native now service_ms count mode svc_list e = (case svc_list of
       None \<Rightarrow> rbind (if count = VNone then Inr 1 else py_int count) (\<lambda>n.
               rbind (py_float_any service_ms) (\<lambda>svc.
               rbind (cross_int32 (VInt n)) (\<lambda>n. engine_submit_batch now svc n mode e)))
     | Some svcs \<Rightarrow> engine_submit_batch_varied now svcs mode e)"

definition eng_submit_batch ::
    "int \<Rightarrow> int \<Rightarrow> pyval \<Rightarrow> pyval \<Rightarrow> pyval \<Rightarrow> pyengine \<Rightarrow> pyengine \<times> nat list py" where
  "eng_submit_batch t now service_ms count work_mode pe =
     (if pe_cap_arg pe \<noteq> VNone then (pe, Inl RuntimeError)
      else (case rbind (validate_work_mode work_mode) (\<lambda>mode.
                 rbind (validate_batch_service_ms service_ms count) (\<lambda>svc_list.
                   batch_native now service_ms count mode svc_list (pe_native pe))) of
          Inl x \<Rightarrow> (pe, Inl x)
        | Inr (e, cfs) \<Rightarrow> (wrap_batch t cfs (with_native e pe),
            Inr [length (pe_futs pe)..<length (pe_futs pe) + length cfs])))"

definition eng_cancel :: "fut_arg \<Rightarrow> pyengine \<Rightarrow> pyengine \<times> bool py" where
  "eng_cancel a pe = (case a of ANot \<Rightarrow> (pe, Inl AttributeError)
     | AFuture k \<Rightarrow> (case engine_cancel (fu_cf (pe_futs pe ! k)) (pe_native pe) of
         (e, r) \<Rightarrow> (with_native e pe, r)))"

text \<open>\<open>[f._cf for f in futures]\<close>.\<close>

fun cfs_of :: "fut_arg list \<Rightarrow> pyengine \<Rightarrow> nat list py" where
  "cfs_of [] pe = Inr []"
| "cfs_of (ANot # as) pe = Inl AttributeError"
| "cfs_of (AFuture k # as) pe = rbind (cfs_of as pe) (\<lambda>cs. Inr (fu_cf (pe_futs pe ! k) # cs))"

definition partition_by :: "(nat \<Rightarrow> bool) \<Rightarrow> 'a list \<Rightarrow> 'a list \<times> 'a list" where
  "partition_by p xs = (map ((!) xs) (filter p [0..<length xs]),
     map ((!) xs) (filter (\<lambda>i. \<not> p i) [0..<length xs]))"

definition wait_blocking :: "fut_arg list \<Rightarrow> pyval \<Rightarrow> pyengine \<Rightarrow> (fut_arg list \<times> fut_arg list) outcome" where
  "wait_blocking futures num_returns pe =
     (case cfs_of futures pe of Inl x \<Rightarrow> Raises x
      | Inr cfs \<Rightarrow> (case rbind (py_int num_returns) (\<lambda>n. cross_int32 (VInt n)) of Inl x \<Rightarrow> Raises x
        | Inr n \<Rightarrow> (case engine_wait cfs n (pe_native pe) of Raises x \<Rightarrow> Raises x | Blocked \<Rightarrow> Blocked
          | Returns idx \<Rightarrow> Returns (partition_by (\<lambda>i. i \<in> set idx) futures))))"

fun check_distinct :: "nat list \<Rightarrow> fut_arg list \<Rightarrow> pyengine \<Rightarrow> unit py" where
  "check_distinct seen [] pe = Inr ()"
| "check_distinct seen (ANot # as) pe = Inl AttributeError"
| "check_distinct seen (AFuture k # as) pe =
     (if fu_cf (pe_futs pe ! k) \<in> set seen then Inl ValueError
      else check_distinct (fu_cf (pe_futs pe ! k) # seen) as pe)"

fun probe_ready :: "fut_arg list \<Rightarrow> pyengine \<Rightarrow> bool list py" where
  "probe_ready [] pe = Inr []"
| "probe_ready (ANot # as) pe = Inl AttributeError"
| "probe_ready (AFuture k # as) pe = rbind (fut_ready k pe) (\<lambda>b. rbind (probe_ready as pe) (\<lambda>bs. Inr (b # bs)))"

definition wait_poll :: "fut_arg list \<Rightarrow> pyval \<Rightarrow> pyengine \<Rightarrow> (fut_arg list \<times> fut_arg list) py" where
  "wait_poll futures num_returns pe =
     (if pe_closed pe then Inl RuntimeError
      else rbind (py_int num_returns) (\<lambda>nr.
        if nr < 1 then Inl ValueError
        else if nr > int (length futures) then Inl ValueError
        else rbind (check_distinct [] futures pe) (\<lambda>_.
             rbind (probe_ready futures pe) (\<lambda>bs. Inr (partition_by (\<lambda>i. bs ! i) futures)))))"

definition eng_wait :: "fut_arg list \<Rightarrow> pyval \<Rightarrow> pyval \<Rightarrow> pyengine \<Rightarrow> (fut_arg list \<times> fut_arg list) outcome" where
  "eng_wait futures num_returns timeout pe =
     (if futures = [] then Raises ValueError
      else if timeout = VNone then wait_blocking futures num_returns pe
      else (case validate_timeout timeout of Inl x \<Rightarrow> Raises x
        | Inr t \<Rightarrow> if flt (Fin 0) t then Raises NotImplementedError
          else (case wait_poll futures num_returns pe of Inl x \<Rightarrow> Raises x | Inr p \<Rightarrow> Returns p)))"

text \<open>
  The generator \<open>as_completed\<close>. Between two of its waits the rest of the system moves, so it runs over
  a sequence of engine states, one per attempt to return from \<open>wait\<close> (a blocked attempt changes
  nothing). Result: the futures yielded, those still in flight, and the exception that ended it.
\<close>

fun as_completed :: "pyengine list \<Rightarrow> fut_arg list \<Rightarrow> fut_arg list \<times> fut_arg list \<times> exc option" where
  "as_completed pes [] = ([], [], None)"
| "as_completed [] inflight = ([], inflight, None)"
| "as_completed (pe # pes) inflight = (case eng_wait inflight (VInt 1) VNone pe of
       Blocked \<Rightarrow> as_completed pes inflight
     | Raises x \<Rightarrow> ([], inflight, Some x)
     | Returns (ready, inflight') \<Rightarrow> (case as_completed pes inflight' of
         (ys, fl, x) \<Rightarrow> (ready @ ys, fl, x)))"

text \<open>\<open>get\<close> of one future or a list. A call that would block has not returned: its effects are taken
  together, in the state in which every row it needs is there.\<close>

fun get_list :: "nat list \<Rightarrow> int option \<Rightarrow> int \<Rightarrow> pyengine \<Rightarrow> pyengine \<times> hrow list outcome" where
  "get_list [] recv t pe = (pe, Returns [])"
| "get_list (k # ks) recv t pe = (case fut_result k recv t pe of
       (pe', Blocked) \<Rightarrow> (pe', Blocked)
     | (pe', Raises x) \<Rightarrow> (pe', Raises x)
     | (pe', Returns row) \<Rightarrow> (case get_list ks recv t pe' of
           (pe'', Returns rows) \<Rightarrow> (pe'', Returns (row # rows))
         | (pe'', r) \<Rightarrow> (pe'', r)))"

definition eng_get :: "nat list \<Rightarrow> int option \<Rightarrow> int \<Rightarrow> pyengine \<Rightarrow> pyengine \<times> hrow list outcome" where
  "eng_get ks recv t pe = (case get_list ks recv t pe of
       (pe', Blocked) \<Rightarrow> (pe, Blocked) | r \<Rightarrow> r)"

definition eng_num_lanes :: "pyengine \<Rightarrow> int" where
  "eng_num_lanes pe = engine_num_lanes (pe_native pe)"

definition eng_lane_impl :: "pyengine \<Rightarrow> string" where
  "eng_lane_impl pe = pe_lane_impl pe"

definition eng_lane_stats :: "pyengine \<Rightarrow> (string \<times> int \<times> bool) list py" where
  "eng_lane_stats pe = engine_lane_stats (pe_native pe)"

definition eng_shutdown :: "pyengine \<times> owner \<Rightarrow> pyengine \<times> owner" where
  "eng_shutdown pw = (case pw of (pe, w) \<Rightarrow>
     if pe_closed pe then (pe, w)
     else (case engine_shutdown (pe_native pe, w) of (e, w') \<Rightarrow>
       (pe\<lparr>pe_closed := True, pe_native := e\<rparr>, w')))"

text \<open>\<open>__exit__\<close> never swallows the exception of the block it ends.\<close>

definition eng_exit :: "pyengine \<times> owner \<Rightarrow> (pyengine \<times> owner) \<times> bool" where
  "eng_exit pw = (eng_shutdown pw, False)"

text \<open>\<open>__del__\<close>: whether it warned, and the state after the shutdown it attempts.\<close>

definition eng_del :: "pyengine \<times> owner \<Rightarrow> (pyengine \<times> owner) \<times> bool" where
  "eng_del pw = (if \<not> pe_closed (fst pw) then (eng_shutdown pw, True) else (pw, False))"

subsection \<open>\<open>SyntheticActor\<close>\<close>

text \<open>An actor is its engine; every method forwards. \<open>serve\<close> is a handle on the same actor.\<close>

type_synonym actor = pyengine

definition actor_init ::
    "bool \<Rightarrow> string list \<Rightarrow> int \<Rightarrow> pyval \<Rightarrow> pyval \<Rightarrow> pyval \<Rightarrow> pyval \<Rightarrow> owner \<Rightarrow> (owner \<times> actor) py" where
  "actor_init start_ok actors t num_lanes hpx_threads cap_arg lane_impl w =
     eng_init start_ok actors t num_lanes hpx_threads cap_arg lane_impl w"

definition actor_remote ::
    "int \<Rightarrow> pyval \<Rightarrow> pyval \<Rightarrow> pyval \<Rightarrow> pyval \<Rightarrow> pyval \<Rightarrow> actor \<Rightarrow> actor \<times> nat py" where
  "actor_remote t service_ms work_mode label chunks chunk_delay_ms a =
     eng_submit t service_ms work_mode label chunks chunk_delay_ms a"

definition actor_remote_batch ::
    "int \<Rightarrow> int \<Rightarrow> pyval \<Rightarrow> pyval \<Rightarrow> pyval \<Rightarrow> actor \<Rightarrow> actor \<times> nat list py" where
  "actor_remote_batch t now service_ms count work_mode a =
     eng_submit_batch t now service_ms count work_mode a"

datatype serve_method = ServeMethod (sm_actor: actor)

definition actor_serve :: "actor \<Rightarrow> serve_method" where
  "actor_serve a = ServeMethod a"

definition serve_remote ::
    "int \<Rightarrow> pyval \<Rightarrow> pyval \<Rightarrow> pyval \<Rightarrow> pyval \<Rightarrow> pyval \<Rightarrow> serve_method \<Rightarrow> actor \<times> nat py" where
  "serve_remote t service_ms work_mode label chunks chunk_delay_ms m =
     actor_remote t service_ms work_mode label chunks chunk_delay_ms (sm_actor m)"

definition serve_remote_batch ::
    "int \<Rightarrow> int \<Rightarrow> pyval \<Rightarrow> pyval \<Rightarrow> pyval \<Rightarrow> serve_method \<Rightarrow> actor \<times> nat list py" where
  "serve_remote_batch t now service_ms count work_mode m =
     actor_remote_batch t now service_ms count work_mode (sm_actor m)"

definition actor_wait :: "fut_arg list \<Rightarrow> pyval \<Rightarrow> pyval \<Rightarrow> actor \<Rightarrow> (fut_arg list \<times> fut_arg list) outcome" where
  "actor_wait futures num_returns timeout a = eng_wait futures num_returns timeout a"

definition actor_get :: "nat list \<Rightarrow> int option \<Rightarrow> int \<Rightarrow> actor \<Rightarrow> actor \<times> hrow list outcome" where
  "actor_get ks recv t a = eng_get ks recv t a"

definition actor_cancel :: "fut_arg \<Rightarrow> actor \<Rightarrow> actor \<times> bool py" where
  "actor_cancel f a = eng_cancel f a"

definition actor_lane_stats :: "actor \<Rightarrow> (string \<times> int \<times> bool) list py" where
  "actor_lane_stats a = eng_lane_stats a"

definition actor_shutdown :: "actor \<times> owner \<Rightarrow> actor \<times> owner" where
  "actor_shutdown aw = eng_shutdown aw"

end
