(* ===== verification/HarnessFacadeInv.thy ===== *)
theory HarnessFacadeInv
  imports HarnessFacade
begin

text \<open>
  The invariant of a Python engine over every sequence of calls, worker steps and clock ticks, and
  what it gives the callers of \<open>Engine\<close> and \<open>Future\<close>.
\<close>

subsection \<open>What the operations keep of a lane\<close>

definition cell_shape :: "cell \<Rightarrow> request \<times> bool \<times> bool" where
  "cell_shape c = (cl_req c, cl_tok c = None, cl_pend c)"

lemma map_shape_update:
  "cell_shape c = cell_shape (xs ! k) \<Longrightarrow> map cell_shape (xs[k := c]) = map cell_shape xs"
  by (cases "k < length xs") (simp_all add: map_update list_update_same_conv list_update_beyond not_less)

lemma shape_set_tok:
  "cl_tok (ln_cells l ! k) = Some t \<Longrightarrow> map cell_shape (ln_cells (set_tok k t' l)) = map cell_shape (ln_cells l)"
  unfolding set_tok_def by (simp, rule map_shape_update) (simp add: cell_shape_def)

lemma shape_after_chunk [simp]:
  "map cell_shape (ln_cells (after_chunk it c start l)) = map cell_shape (ln_cells l)"
  by (auto simp: after_chunk_def set_worker_def Let_def shape_set_tok split: option.splits)

lemma shape_service_start [simp]: "ln_cells (service_start it l) = ln_cells l"
  by (simp add: lane_defs)

lemma shape_start_chunk [simp]: "ln_cells (start_chunk it c start l) = ln_cells l"
  by (simp add: lane_defs)

lemma worker_step_shape:
  assumes "worker_step l = Some l'"
  shows "map cell_shape (ln_cells l') = map cell_shape (ln_cells l)"
proof (cases "ln_worker l")
  case (WFulfil it r)
  then show ?thesis
    using assms by (auto simp: worker_step_def set_worker_def cell_shape_def intro!: map_shape_update)
qed (use assms in \<open>auto simp: worker_step_def set_worker_def shape_set_tok
      split: list.splits option.splits prod.splits if_splits\<close>)

lemma after_chunk_queue [simp]: "ln_queue (after_chunk it c start l) = ln_queue l"
  by (simp add: lane_defs Let_def split: option.splits)

lemma service_start_queue [simp]: "ln_queue (service_start it l) = ln_queue l"
  by (simp add: lane_defs)

lemma start_chunk_queue [simp]: "ln_queue (start_chunk it c start l) = ln_queue l"
  by (simp add: lane_defs)

lemma worker_step_queue:
  "worker_step l = Some l' \<Longrightarrow> length (ln_queue l') \<le> length (ln_queue l)"
  by (cases "ln_worker l")
    (auto simp: worker_step_def set_worker_def split: list.splits option.splits prod.splits if_splits)

text \<open>A lane of an engine: \<open>run\<close> is the engine's running flag, \<open>cap\<close> its admission bound.\<close>

definition lane_ok :: "bool \<Rightarrow> int \<Rightarrow> lane \<Rightarrow> bool" where
  "lane_ok run cap l \<longleftrightarrow> lane_reachable l
     \<and> (\<forall>c \<in> set (ln_cells l). supported_mode (rq_work_mode (cl_req c)) \<and> \<not> cl_pend c)
     \<and> (if run then \<not> ln_stop l else ln_worker l = WExited)
     \<and> (0 \<le> cap \<longrightarrow> int (length (ln_queue l)) \<le> cap)"

definition cells_extend :: "lane \<Rightarrow> lane \<Rightarrow> bool" where
  "cells_extend l l' \<longleftrightarrow> length (ln_cells l) \<le> length (ln_cells l')
     \<and> (\<forall>i < length (ln_cells l). cl_req (ln_cells l' ! i) = cl_req (ln_cells l ! i)
          \<and> (cl_tok (ln_cells l' ! i) = None) = (cl_tok (ln_cells l ! i) = None))"

lemma cells_extend_refl [simp]: "cells_extend l l"
  by (simp add: cells_extend_def)

lemma cells_extend_trans: "cells_extend l l1 \<Longrightarrow> cells_extend l1 l2 \<Longrightarrow> cells_extend l l2"
  by (auto simp: cells_extend_def)

lemma shape_extend:
  assumes "map cell_shape (ln_cells l') = map cell_shape (ln_cells l)"
  shows "cells_extend l l'"
proof -
  have "length (ln_cells l') = length (ln_cells l)" using assms by (metis length_map)
  moreover have "cell_shape (ln_cells l' ! i) = cell_shape (ln_cells l ! i)" if "i < length (ln_cells l)" for i
    using assms calculation that by (metis nth_map)
  ultimately show ?thesis by (simp add: cells_extend_def cell_shape_def)
qed

lemma shape_cells:
  assumes "map cell_shape (ln_cells l') = map cell_shape (ln_cells l)"
    and "\<forall>c \<in> set (ln_cells l). supported_mode (rq_work_mode (cl_req c)) \<and> \<not> cl_pend c"
  shows "\<forall>c \<in> set (ln_cells l'). supported_mode (rq_work_mode (cl_req c)) \<and> \<not> cl_pend c"
proof
  fix c assume "c \<in> set (ln_cells l')"
  then have "cell_shape c \<in> cell_shape ` set (ln_cells l)"
    using assms(1) by (metis image_eqI image_set)
  then show "supported_mode (rq_work_mode (cl_req c)) \<and> \<not> cl_pend c"
    using assms(2) by (auto simp: cell_shape_def)
qed

lemma lane_ok_push:
  assumes "lane_ok True cap l" "supported_mode (rq_work_mode rq)"
    and "cap < 0 \<or> int (length (ln_queue l)) < cap"
  shows "lane_ok True cap (push_item rq has_tok l) \<and> cells_extend l (push_item rq has_tok l)"
proof -
  have "lane_reachable (push_item rq has_tok l)"
    using assms(1) by (auto simp: lane_ok_def intro: step_run(1))
  then show ?thesis using assms by (auto simp: lane_ok_def cells_extend_def push_item_def nth_append)
qed

lemma lane_ok_work:
  assumes "lane_ok run cap l" "worker_step l = Some l'"
  shows "lane_ok run cap l' \<and> cells_extend l l'"
proof -
  have l: "lane_reachable l" "\<forall>c \<in> set (ln_cells l). supported_mode (rq_work_mode (cl_req c)) \<and> \<not> cl_pend c"
      "if run then \<not> ln_stop l else ln_worker l = WExited" "0 \<le> cap \<longrightarrow> int (length (ln_queue l)) \<le> cap"
    using assms(1) unfolding lane_ok_def by blast+
  note sh = worker_step_shape [OF assms(2)]
  have "ln_worker l \<noteq> WExited" using assms(2) by (auto simp: worker_step_def)
  with l(3) have run: "run" "\<not> ln_stop l" by (cases run; simp)+
  have "lane_reachable l'" using lane_reachable.Step [OF l(1) lane_step.Work [OF assms(2)]] .
  moreover have "\<not> ln_stop l'"
    using worker_step_work [OF reachable_inv [OF l(1)] assms(2)] run(2) by simp
  moreover have "0 \<le> cap \<longrightarrow> int (length (ln_queue l')) \<le> cap"
    using worker_step_queue [OF assms(2)] l(4) by linarith
  ultimately show ?thesis
    unfolding lane_ok_def using run(1) shape_cells [OF sh l(2)] shape_extend [OF sh] by simp
qed

lemma lane_ok_tick:
  assumes "lane_ok run cap l" "0 \<le> d"
  shows "lane_ok run cap (l\<lparr>ln_now := ln_now l + d\<rparr>) \<and> cells_extend l (l\<lparr>ln_now := ln_now l + d\<rparr>)"
proof -
  have "lane_reachable (l\<lparr>ln_now := ln_now l + d\<rparr>)"
    using assms lane_reachable.Step [OF _ lane_step.Tick] unfolding lane_ok_def by blast
  then show ?thesis using assms unfolding lane_ok_def cells_extend_def by simp
qed

lemma settle_cell_pend [simp]: "\<not> cl_pend (settle_cell a t c)"
  by (simp add: settle_cell_def)

lemma lane_ok_cancel:
  assumes "lane_ok run cap l" "r < length (ln_cells l)"
  defines "l' \<equiv> settle_request r (fst (cancel_request r l))"
  shows "lane_ok run cap l' \<and> cells_extend l l'"
proof -
  let ?l1 = "fst (cancel_request r l)"
  have "lane_reachable ?l1" using assms(1,2) by (auto simp: lane_ok_def intro: step_run(2))
  moreover have len: "r < length (ln_cells ?l1)"
    using assms(2) by (simp add: cancel_request_def case_prod_unfold)
  ultimately have "lane_reachable l'" unfolding l'_def by (intro step_run(3))
  moreover have cells: "ln_cells l' = (ln_cells l)[r := settle_cell (ln_actor_id l) (ln_now l) (fst (cancel_cell (ln_cells l ! r)))]"
    and same: "ln_queue l' = ln_queue l" "ln_stop l' = ln_stop l" "ln_worker l' = ln_worker l"
    using assms(2) by (simp_all add: l'_def settle_request_def cancel_request_def case_prod_unfold)
  moreover have "\<forall>c \<in> set (ln_cells l'). supported_mode (rq_work_mode (cl_req c)) \<and> \<not> cl_pend c"
    using assms(1,2) unfolding cells
    by (intro list_update_all) (auto simp: lane_ok_def)
  ultimately show ?thesis
    using assms(1,2) by (auto simp: lane_ok_def cells_extend_def nth_list_update)
qed

lemma drain_shape: "map cell_shape (ln_cells (drain fuel l)) = map cell_shape (ln_cells l)"
proof (induction fuel arbitrary: l)
  case 0
  then show ?case by simp
next
  case (Suc fuel)
  have "map cell_shape (ln_cells l') = map cell_shape (ln_cells l)" if "lane_advance l = Some l'" for l'
    using that worker_step_shape
    by (auto simp: lane_advance_def split: option.splits worker.splits)
  then show ?case using Suc.IH by (auto split: option.splits)
qed

lemma lane_ok_destroy:
  assumes "lane_ok run cap l"
  shows "lane_ok False cap (destroy_lane l) \<and> cells_extend l (destroy_lane l)"
proof -
  let ?s = "request_stop l" and ?d = "destroy_lane l"
  have l: "lane_reachable l" "\<forall>c \<in> set (ln_cells l). supported_mode (rq_work_mode (cl_req c)) \<and> \<not> cl_pend c"
    using assms unfolding lane_ok_def by blast+
  have r: "lane_reachable ?s" "ln_stop ?s"
    using step_run(4) [OF l(1)] by (simp_all add: request_stop_def)
  have d: "lane_reachable ?d" "ln_worker ?d = WExited"
    using drain_exits [OF r order.refl] by (simp_all add: destroy_lane_def Let_def)
  then have "ln_queue ?d = []" using reachable_inv [OF d(1)] by (simp add: lane_inv_def)
  moreover have sh: "map cell_shape (ln_cells ?d) = map cell_shape (ln_cells l)"
    by (simp add: destroy_lane_def Let_def drain_shape request_stop_def)
  ultimately show ?thesis
    unfolding lane_ok_def using d shape_cells [OF sh l(2)] shape_extend [OF sh] by simp
qed

subsection \<open>The invariant of an engine\<close>

definition fut_ok :: "lane list \<Rightarrow> nat \<Rightarrow> efuture \<Rightarrow> pyfuture \<Rightarrow> bool" where
  "fut_ok ls k ef f \<longleftrightarrow> fu_cf f = k \<and> fu_retired f = (\<not> ef_valid ef)
     \<and> ef_lane ef < length ls \<and> ef_id ef < length (ln_cells (ls ! ef_lane ef))
     \<and> ef_tok ef = (cl_tok (ln_cells (ls ! ef_lane ef) ! ef_id ef) \<noteq> None)
     \<and> fu_chunks f = rq_chunks (cl_req (ln_cells (ls ! ef_lane ef) ! ef_id ef)) \<and> 1 \<le> fu_chunks f"

definition lanes_ok :: "pyengine \<Rightarrow> bool" where
  "lanes_ok pe = (\<forall>l \<in> set (en_lanes (pe_native pe)). lane_ok (en_running (pe_native pe)) (en_cap (pe_native pe)) l)"

definition futs_ok :: "pyengine \<Rightarrow> bool" where
  "futs_ok pe \<longleftrightarrow> length (pe_futs pe) = length (en_futs (pe_native pe))
     \<and> (\<forall>k < length (pe_futs pe). fut_ok (en_lanes (pe_native pe)) k (en_futs (pe_native pe) ! k) (pe_futs pe ! k))"

definition pe_inv :: "pyengine \<Rightarrow> bool" where
  "pe_inv pe \<longleftrightarrow> lanes_ok pe \<and> futs_ok pe
     \<and> en_lanes (pe_native pe) \<noteq> [] \<and> en_running (pe_native pe) = (\<not> pe_closed pe)
     \<and> (pe_cap_arg pe = VNone \<and> en_cap (pe_native pe) = -1
        \<or> (\<exists>n \<ge> 1. pe_cap_arg pe = VInt n \<and> en_cap (pe_native pe) = n))"

definition lanes_extend :: "lane list \<Rightarrow> lane list \<Rightarrow> bool" where
  "lanes_extend ls ls' \<longleftrightarrow> length ls' = length ls \<and> (\<forall>i < length ls. cells_extend (ls ! i) (ls' ! i))"

lemma lanes_extend_update: "cells_extend (ls ! i) l' \<Longrightarrow> lanes_extend ls (ls[i := l'])"
  unfolding lanes_extend_def by (auto, rename_tac j, case_tac "j = i") simp_all

lemma lanes_extend_trans: "lanes_extend a b \<Longrightarrow> lanes_extend b c \<Longrightarrow> lanes_extend a c"
  unfolding lanes_extend_def using cells_extend_trans by auto

lemma fut_ok_extend:
  assumes "fut_ok ls k ef f" and "lanes_extend ls ls'"
  shows "fut_ok ls' k ef f"
proof -
  have "cells_extend (ls ! ef_lane ef) (ls' ! ef_lane ef)" "length ls' = length ls"
    using assms by (auto simp: fut_ok_def lanes_extend_def)
  then show ?thesis using assms(1) unfolding fut_ok_def cells_extend_def by simp
qed

lemma futs_ok_extend:
  assumes "futs_ok pe" and "lanes_extend (en_lanes (pe_native pe)) ls"
    and "en_futs e = en_futs (pe_native pe)" and "en_lanes e = ls"
  shows "futs_ok (with_native e pe)"
  unfolding futs_ok_def with_native_def
  using assms fut_ok_extend by (auto simp: futs_ok_def)

lemma futs_ok_add:
  assumes "futs_ok pe" and "fut_ok (en_lanes (pe_native pe)) (length (pe_futs pe)) ef f"
  shows "futs_ok (add_pyfuture f (with_native ((pe_native pe)\<lparr>en_futs := en_futs (pe_native pe) @ [ef]\<rparr>) pe))"
  using assms by (auto simp: futs_ok_def add_pyfuture_def with_native_def nth_append less_Suc_eq)

lemma futs_ok_append:
  assumes "futs_ok pe" and "length efs = length fs"
    and "en_lanes e = en_lanes (pe_native pe)" "en_futs e = en_futs (pe_native pe) @ efs"
    and "\<And>j. j < length fs \<Longrightarrow> fut_ok (en_lanes (pe_native pe)) (length (pe_futs pe) + j) (efs ! j) (fs ! j)"
  shows "futs_ok (pe\<lparr>pe_native := e, pe_futs := pe_futs pe @ fs\<rparr>)"
  unfolding futs_ok_def
proof (intro conjI allI impI)
  have len: "length (pe_futs pe) = length (en_futs (pe_native pe))" using assms(1) by (simp add: futs_ok_def)
  then show "length (pe_futs (pe\<lparr>pe_native := e, pe_futs := pe_futs pe @ fs\<rparr>))
      = length (en_futs (pe_native (pe\<lparr>pe_native := e, pe_futs := pe_futs pe @ fs\<rparr>)))"
    using assms(2,4) by simp
  fix k assume k: "k < length (pe_futs (pe\<lparr>pe_native := e, pe_futs := pe_futs pe @ fs\<rparr>))"
  show "fut_ok (en_lanes (pe_native (pe\<lparr>pe_native := e, pe_futs := pe_futs pe @ fs\<rparr>))) k
      (en_futs (pe_native (pe\<lparr>pe_native := e, pe_futs := pe_futs pe @ fs\<rparr>)) ! k)
      (pe_futs (pe\<lparr>pe_native := e, pe_futs := pe_futs pe @ fs\<rparr>) ! k)"
  proof (cases "k < length (pe_futs pe)")
    case True
    then show ?thesis using assms(1,3,4) len by (simp add: futs_ok_def nth_append)
  next
    case False
    then show ?thesis
      using assms(3,4) assms(5) [of "k - length (pe_futs pe)"] k len by (simp add: nth_append)
  qed
qed

lemma lanes_ok_update:
  "\<forall>l \<in> set ls. lane_ok run cap l \<Longrightarrow> lane_ok run cap l' \<Longrightarrow> \<forall>l \<in> set (ls[i := l']). lane_ok run cap l"
  using set_update_subset_insert [of ls i l'] by blast

subsection \<open>The calls keep it\<close>

lemma rr_lane_bound: "en_lanes e \<noteq> [] \<Longrightarrow> rr_lane e i < length (en_lanes e)"
  by (simp add: rr_lane_def)

lemma submit_args_Inr:
  assumes "submit_args a b c d f = Inr (svc, mode, k, delay)"
  shows "supported_mode mode" "1 \<le> k" "k < 2 ^ 31"
  using assms
  by (auto simp: submit_args_def rbind_eq_Inr validate_work_mode_Inr validate_chunks_Inr
      cross_int32_Inr supported_mode_def)

text \<open>The single submit: where the request goes, and when it is refused.\<close>

lemma engine_submit_cases:
  assumes "engine_submit svc mode k delay e = Inr (e', r)"
  defines "i \<equiv> rr_lane e 0"
  defines "rq \<equiv> single_request svc mode k delay (ln_now (en_lanes e ! i))"
  shows "r = None \<and> 0 \<le> en_cap e \<and> en_cap e \<le> int (length (ln_queue (en_lanes e ! i)))
        \<and> e' = upd_lane i (en_lanes e ! i) (rr_advance 1 e)
     \<or> r = Some (length (en_futs e)) \<and> (en_cap e < 0 \<or> int (length (ln_queue (en_lanes e ! i))) < en_cap e)
        \<and> e' = add_future i (length (ln_cells (en_lanes e ! i))) True
                 (upd_lane i (push_item rq True (en_lanes e ! i)) (rr_advance 1 e))"
  using assms
  by (auto simp: engine_submit_def Let_def try_submit_def submit_def rr_advance_def
      split: if_splits)

lemma pe_inv_submit:
  assumes inv: "pe_inv pe"
  shows "pe_inv (fst (eng_submit t a b c d f pe))"
proof (cases "submit_args a b c d f")
  case (Inl x)
  then show ?thesis using inv by (simp add: eng_submit_def)
next
  case (Inr args)
  obtain svc mode k delay where args: "args = (svc, mode, k, delay)" by (cases args) auto
  note ok = submit_args_Inr [OF Inr [unfolded args]]
  let ?e = "pe_native pe" and ?i = "rr_lane (pe_native pe) 0"
  let ?l = "en_lanes ?e ! ?i"
  let ?rq = "single_request svc mode k delay (ln_now ?l)"
  have i: "?i < length (en_lanes ?e)" using inv rr_lane_bound by (simp add: pe_inv_def)
  show ?thesis
  proof (cases "engine_submit svc mode k delay ?e")
    case (Inl x)
    then show ?thesis using inv Inr args by (simp add: eng_submit_def)
  next
    case sub: (Inr er)
    obtain e' r where er: "er = (e', r)" by (cases er)
    then have run: "en_running ?e" using sub by (auto simp: engine_submit_def split: if_splits)
    have lok: "lane_ok True (en_cap ?e) ?l" using inv i run by (auto simp: pe_inv_def lanes_ok_def)
    consider (full) "r = None" "e' = upd_lane ?i ?l (rr_advance 1 ?e)"
      | (room) "r = Some (length (en_futs ?e))"
          "en_cap ?e < 0 \<or> int (length (ln_queue ?l)) < en_cap ?e"
          "e' = add_future ?i (length (ln_cells ?l)) True (upd_lane ?i (push_item ?rq True ?l) (rr_advance 1 ?e))"
      using engine_submit_cases [OF sub [unfolded er]] by blast
    then show ?thesis
    proof cases
      case full
      note e' = full(2)
      from full have "fst (eng_submit t a b c d f pe) = with_native e' pe"
        using Inr args sub er by (simp add: eng_submit_def)
      then show ?thesis
        using inv by (auto simp: e' pe_inv_def lanes_ok_def futs_ok_def with_native_def upd_lane_def rr_advance_def)
    next
      case room
      note r = room(1) and e' = room(3)
      let ?l' = "push_item ?rq True ?l" and ?n = "length (pe_futs pe)"
      let ?ef = "\<lparr>ef_lane = ?i, ef_id = length (ln_cells ?l), ef_tok = True, ef_valid = True\<rparr>"
      let ?f = "new_pyfuture ?n t c k delay"
      have n: "length (en_futs ?e) = ?n" using inv by (simp add: pe_inv_def futs_ok_def)
      have push: "lane_ok True (en_cap ?e) ?l'" "cells_extend ?l ?l'"
        using lane_ok_push [OF lok _ room(2), of ?rq True] ok(1) by (simp_all add: single_request_def)
      define pe1 where "pe1 = with_native (upd_lane ?i ?l' (rr_advance 1 ?e)) pe"
      have new: "fst (eng_submit t a b c d f pe)
          = add_pyfuture ?f (with_native ((pe_native pe1)\<lparr>en_futs := en_futs (pe_native pe1) @ [?ef]\<rparr>) pe1)"
        using Inr args sub er r n
        by (simp add: eng_submit_def e' add_future_def upd_lane_def rr_advance_def pe1_def with_native_def)
      have all: "\<forall>l \<in> set (en_lanes ?e). lane_ok True (en_cap ?e) l"
        using inv run by (auto simp: pe_inv_def lanes_ok_def)
      have "lanes_ok pe1"
        using lanes_ok_update [OF all push(1), of ?i] inv run
        by (simp add: pe_inv_def lanes_ok_def pe1_def with_native_def upd_lane_def rr_advance_def)
      moreover have "futs_ok pe1" unfolding pe1_def
        by (rule futs_ok_extend [where ls = "(en_lanes ?e)[?i := ?l']"])
          (use inv push(2) lanes_extend_update in \<open>simp_all add: pe_inv_def upd_lane_def rr_advance_def\<close>)
      moreover have "fut_ok (en_lanes (pe_native pe1)) (length (pe_futs pe1)) ?ef ?f"
        using i ok(2) by (simp add: pe1_def with_native_def upd_lane_def rr_advance_def fut_ok_def
            new_pyfuture_def push_item_def single_request_def nth_append)
      ultimately show ?thesis
        unfolding new using inv futs_ok_add [of pe1 ?ef ?f]
        by (simp add: pe_inv_def lanes_ok_def add_pyfuture_def with_native_def pe1_def upd_lane_def rr_advance_def)
    qed
  qed
qed

text \<open>The batch: every request lands, unchunked and without a token, on the lane the routing names.\<close>

lemma enqueue_single_ok:
  assumes "\<forall>l \<in> set ls. lane_ok True cap l" "cap < 0" "\<forall>i. route i < length ls"
    and "\<forall>rq \<in> set rqs. supported_mode (rq_work_mode rq) \<and> rq_chunks rq = 1"
    and "enqueue_single route i rqs ls = (ls', ks)"
  shows "(\<forall>l \<in> set ls'. lane_ok True cap l) \<and> lanes_extend ls ls' \<and> length ks = length rqs
    \<and> (\<forall>(j, k) \<in> set ks. j < length ls' \<and> k < length (ln_cells (ls' ! j))
         \<and> cl_tok (ln_cells (ls' ! j) ! k) = None \<and> rq_chunks (cl_req (ln_cells (ls' ! j) ! k)) = 1)"
  using assms
proof (induction rqs arbitrary: i ls ls' ks)
  case Nil
  then show ?case by (auto simp: lanes_extend_def)
next
  case (Cons rq rqs)
  let ?r = "route i" and ?l = "push_item rq False (ls ! route i)"
  obtain ls2 ks2 where rest: "enqueue_single route (Suc i) rqs (ls[?r := ?l]) = (ls2, ks2)"
    by (cases "enqueue_single route (Suc i) rqs (ls[?r := ?l])")
  then have out: "ls' = ls2" "ks = (?r, length (ln_cells (ls ! ?r))) # ks2"
    using Cons.prems(5) by (auto simp: submit_def)
  have r: "?r < length ls" using Cons.prems(3) by blast
  have push: "lane_ok True cap ?l" "cells_extend (ls ! ?r) ?l"
    using lane_ok_push [of cap "ls ! ?r" rq False] Cons.prems(1,2,4) r by auto
  have IH: "(\<forall>l \<in> set ls2. lane_ok True cap l) \<and> lanes_extend (ls[?r := ?l]) ls2 \<and> length ks2 = length rqs
    \<and> (\<forall>(j, k) \<in> set ks2. j < length ls2 \<and> k < length (ln_cells (ls2 ! j))
         \<and> cl_tok (ln_cells (ls2 ! j) ! k) = None \<and> rq_chunks (cl_req (ln_cells (ls2 ! j) ! k)) = 1)"
    using Cons.prems lanes_ok_update [OF Cons.prems(1) push(1), of ?r]
    by (intro Cons.IH [OF _ _ _ _ rest]) auto
  then have ext: "cells_extend ?l (ls2 ! ?r)" "length ls2 = length ls"
    using r by (auto simp: lanes_extend_def)
  have "lanes_extend ls ls2"
    using IH lanes_extend_update [OF push(2)] lanes_extend_trans by blast
  moreover have "length (ln_cells (ls ! ?r)) < length (ln_cells (ls2 ! ?r))"
      "cl_tok (ln_cells (ls2 ! ?r) ! length (ln_cells (ls ! ?r))) = None"
      "rq_chunks (cl_req (ln_cells (ls2 ! ?r) ! length (ln_cells (ls ! ?r)))) = 1"
    using ext(1) Cons.prems(4) by (auto simp: cells_extend_def push_item_def nth_append)
  ultimately show ?case using IH ext(2) r by (simp add: out)
qed

lemma add_futures_eq:
  "add_futures ks e = e\<lparr>en_futs := en_futs e @ map (\<lambda>(i, k). \<lparr>ef_lane = i, ef_id = k, ef_tok = False, ef_valid = True\<rparr>) ks\<rparr>"
  by (induction ks e rule: add_futures.induct) (simp_all add: add_future_def)

lemma wrap_batch_eq:
  "wrap_batch t cfs pe = pe\<lparr>pe_futs := pe_futs pe @ map (\<lambda>cf. new_pyfuture cf t VNone 1 (Fin 0)) cfs\<rparr>"
  by (induction cfs arbitrary: pe) (simp_all add: add_pyfuture_def)

definition batch_of :: "string \<Rightarrow> request list \<Rightarrow> bool" where
  "batch_of mode rqs \<longleftrightarrow> rqs \<noteq> [] \<and> (\<forall>rq \<in> set rqs. rq_work_mode rq = mode \<and> rq_chunks rq = 1)"

lemma batch_of_map: "xs \<noteq> [] \<Longrightarrow> batch_of mode (map (batch_request mode t) xs)"
  by (auto simp: batch_of_def batch_request_def single_request_def)

lemma engine_batch_Inr:
  "engine_submit_batch t sv n mode e = Inr r \<Longrightarrow> en_running e \<and> (\<exists>rqs. batch_of mode rqs \<and> enqueue_round_robin rqs e = r)"
  "engine_submit_batch_varied t svs mode e = Inr r \<Longrightarrow> en_running e \<and> (\<exists>rqs. batch_of mode rqs \<and> enqueue_round_robin rqs e = r)"
  using batch_of_map [of "replicate (nat n) sv" mode t] batch_of_map [of svs mode t]
  unfolding engine_submit_batch_def engine_submit_batch_varied_def
  by (auto simp del: map_replicate split: if_splits)

lemma batch_native_Inr:
  "batch_native now sv count mode svcs e = Inr r
    \<Longrightarrow> en_running e \<and> (\<exists>rqs. batch_of mode rqs \<and> enqueue_round_robin rqs e = r)"
  by (auto simp: batch_native_def rbind_eq_Inr split: option.splits dest!: engine_batch_Inr)

lemma enqueue_round_robin_eq:
  assumes "en_lanes e \<noteq> []" and "enqueue_single (rr_lane e) 0 rqs (en_lanes e) = (ls, ks)"
  shows "enqueue_round_robin rqs e = (add_futures ks (rr_advance (length rqs) e\<lparr>en_lanes := ls\<rparr>),
     [length (en_futs e)..<length (en_futs e) + length rqs])"
  using assms bulk_equals_single [of rqs "rr_lane e" "en_lanes e"] rr_lane_bound [OF assms(1)]
  by (simp add: enqueue_round_robin_def)

lemma pe_inv_batch:
  assumes inv: "pe_inv pe"
  shows "pe_inv (fst (eng_submit_batch t now a b c pe))"
proof (cases "pe_cap_arg pe \<noteq> VNone \<or> (\<exists>x. rbind (validate_work_mode c) (\<lambda>mode.
                 rbind (validate_batch_service_ms a b) (\<lambda>svc_list.
                   batch_native now a b mode svc_list (pe_native pe))) = Inl x)")
  case True
  then show ?thesis using inv by (auto simp: eng_submit_batch_def)
next
  case False
  let ?e = "pe_native pe"
  from False obtain mode svcs e' cfs where mode: "validate_work_mode c = Inr mode"
    and bn: "batch_native now a b mode svcs ?e = Inr (e', cfs)"
    and res: "fst (eng_submit_batch t now a b c pe) = wrap_batch t cfs (with_native e' pe)"
    by (cases "rbind (validate_work_mode c) (\<lambda>mode.
                 rbind (validate_batch_service_ms a b) (\<lambda>svc_list.
                   batch_native now a b mode svc_list ?e))")
      (auto simp: eng_submit_batch_def rbind_eq_Inr)
  have cap: "en_cap ?e = -1" using inv False by (auto simp: pe_inv_def)
  obtain rqs where run: "en_running ?e" and enq: "enqueue_round_robin rqs ?e = (e', cfs)"
    and rqs: "\<forall>rq \<in> set rqs. rq_work_mode rq = mode \<and> rq_chunks rq = 1"
    using batch_native_Inr [OF bn] by (auto simp: batch_of_def)
  have ne: "en_lanes ?e \<noteq> []" using inv by (simp add: pe_inv_def)
  obtain ls ks where single: "enqueue_single (rr_lane ?e) 0 rqs (en_lanes ?e) = (ls, ks)"
    by (cases "enqueue_single (rr_lane ?e) 0 rqs (en_lanes ?e)")
  have all: "\<forall>l \<in> set (en_lanes ?e). lane_ok True (en_cap ?e) l"
    using inv run by (auto simp: pe_inv_def lanes_ok_def)
  have sup: "\<forall>rq \<in> set rqs. supported_mode (rq_work_mode rq) \<and> rq_chunks rq = 1"
    using rqs mode by (auto simp: validate_work_mode_Inr supported_mode_def)
  have ok: "(\<forall>l \<in> set ls. lane_ok True (en_cap ?e) l) \<and> lanes_extend (en_lanes ?e) ls \<and> length ks = length rqs
    \<and> (\<forall>(j, k) \<in> set ks. j < length ls \<and> k < length (ln_cells (ls ! j))
         \<and> cl_tok (ln_cells (ls ! j) ! k) = None \<and> rq_chunks (cl_req (ln_cells (ls ! j) ! k)) = 1)"
    by (rule enqueue_single_ok [OF all _ _ sup single]) (use cap rr_lane_bound [OF ne] in auto)
  have n: "length (en_futs ?e) = length (pe_futs pe)" using inv by (simp add: pe_inv_def futs_ok_def)
  define pe1 where "pe1 = with_native (rr_advance (length rqs) ?e\<lparr>en_lanes := ls\<rparr>) pe"
  have final: "fst (eng_submit_batch t now a b c pe) = pe1\<lparr>
      pe_native := (pe_native pe1)\<lparr>en_futs := en_futs (pe_native pe1) @ map (\<lambda>(i, k). \<lparr>ef_lane = i, ef_id = k, ef_tok = False, ef_valid = True\<rparr>) ks\<rparr>,
      pe_futs := pe_futs pe1 @ map (\<lambda>cf. new_pyfuture cf t VNone 1 (Fin 0)) [length (pe_futs pe)..<length (pe_futs pe) + length rqs]\<rparr>"
    using enq n unfolding res enqueue_round_robin_eq [OF ne single]
    by (simp add: wrap_batch_eq add_futures_eq with_native_def pe1_def rr_advance_def)
  have "futs_ok pe1" unfolding pe1_def
    by (rule futs_ok_extend [where ls = ls]) (use inv ok in \<open>simp_all add: pe_inv_def rr_advance_def\<close>)
  moreover have "fut_ok ls (length (pe_futs pe) + j) ((\<lambda>(i, k). \<lparr>ef_lane = i, ef_id = k, ef_tok = False, ef_valid = True\<rparr>) (ks ! j))
      (new_pyfuture (length (pe_futs pe) + j) t VNone 1 (Fin 0))" if "j < length ks" for j
    using ok nth_mem [OF that] by (cases "ks ! j") (auto simp: fut_ok_def new_pyfuture_def)
  ultimately have "futs_ok (fst (eng_submit_batch t now a b c pe))"
    using ok n unfolding final by (intro futs_ok_append) (auto simp: pe1_def with_native_def rr_advance_def)
  moreover have "lanes_ok (fst (eng_submit_batch t now a b c pe))"
    using ok run unfolding final by (auto simp: lanes_ok_def pe1_def with_native_def rr_advance_def)
  moreover have "ls \<noteq> []" using ok ne by (auto simp: lanes_extend_def)
  ultimately show ?thesis
    using inv by (simp add: pe_inv_def final pe1_def with_native_def rr_advance_def)
qed

text \<open>Cancelling, retiring, and the moves of worker and clock.\<close>

lemma pe_inv_lanes: "pe_inv pe \<Longrightarrow>
  \<forall>l \<in> set (en_lanes (pe_native pe)). lane_ok (en_running (pe_native pe)) (en_cap (pe_native pe)) l"
  unfolding pe_inv_def lanes_ok_def by blast

lemma futs_ok_fut: "pe_inv pe \<Longrightarrow> k < length (pe_futs pe)
  \<Longrightarrow> fut_ok (en_lanes (pe_native pe)) k (en_futs (pe_native pe) ! k) (pe_futs pe ! k)"
  by (simp add: pe_inv_def futs_ok_def)

lemma pe_inv_lane_update:
  assumes inv: "pe_inv pe" and i: "i < length (en_lanes (pe_native pe))"
    and ok: "lane_ok (en_running (pe_native pe)) (en_cap (pe_native pe)) l'"
    and ext: "cells_extend (en_lanes (pe_native pe) ! i) l'"
  shows "pe_inv (with_native (upd_lane i l' (pe_native pe)) pe)"
proof -
  let ?e = "pe_native pe"
  have all: "\<forall>l \<in> set (en_lanes ?e). lane_ok (en_running ?e) (en_cap ?e) l"
    using pe_inv_lanes [OF inv] .
  have "futs_ok (with_native (upd_lane i l' ?e) pe)"
    by (rule futs_ok_extend [where ls = "(en_lanes ?e)[i := l']"])
      (use inv lanes_extend_update [OF ext] in \<open>simp_all add: pe_inv_def upd_lane_def\<close>)
  moreover have "lanes_ok (with_native (upd_lane i l' ?e) pe)"
    using lanes_ok_update [OF all ok, of i] by (simp add: lanes_ok_def with_native_def upd_lane_def)
  ultimately show ?thesis
    using inv by (simp add: pe_inv_def with_native_def upd_lane_def)
qed

lemma with_native_self [simp]: "with_native (pe_native pe) pe = pe"
  by (simp add: with_native_def)

lemma pe_inv_cancel:
  assumes inv: "pe_inv pe" and k: "k < length (pe_futs pe)"
  shows "pe_inv (fst (eng_cancel (AFuture k) pe))"
proof -
  let ?e = "pe_native pe" and ?ef = "en_futs (pe_native pe) ! k"
  have f: "fut_ok (en_lanes ?e) k ?ef (pe_futs pe ! k)" by (rule futs_ok_fut [OF inv k])
  let ?i = "ef_lane ?ef" and ?r = "ef_id ?ef"
  let ?l = "en_lanes ?e ! ?i"
  have i: "?i < length (en_lanes ?e)" and r: "?r < length (ln_cells ?l)"
    using f by (auto simp: fut_ok_def)
  then have "lane_ok (en_running ?e) (en_cap ?e) ?l" using pe_inv_lanes [OF inv] by simp
  from pe_inv_lane_update [OF inv i] lane_ok_cancel [OF this r]
  have "pe_inv (with_native (fst (cancel_now k ?e)) pe)"
    by (simp add: cancel_now_def Let_def case_prod_unfold)
  moreover have "fu_cf (pe_futs pe ! k) = k" using f by (simp add: fut_ok_def)
  ultimately show ?thesis
    using inv by (auto simp: eng_cancel_def engine_cancel_def future_cancel_def case_prod_unfold)
qed

lemma fut_result_state:
  assumes inv: "pe_inv pe" and k: "k < length (pe_futs pe)"
  shows "fst (fut_result k recv t pe) =
    (if fu_retired (pe_futs pe ! k) \<or> \<not> ef_ready_now (pe_native pe) k then pe
     else retire k (with_native (set_valid k False (pe_native pe)) pe))"
  using futs_ok_fut [OF inv k]
  by (auto simp: fut_result_def future_result_def fut_ok_def ef_ready_now_def split: list.splits)

lemma pe_inv_result:
  assumes inv: "pe_inv pe" and k: "k < length (pe_futs pe)"
  shows "pe_inv (fst (fut_result k recv t pe))"
proof -
  have "futs_ok (retire k (with_native (set_valid k False (pe_native pe)) pe))"
    using inv k unfolding pe_inv_def futs_ok_def
    by (auto simp: retire_def with_native_def set_valid_def nth_list_update fut_ok_def)
  then have "pe_inv (retire k (with_native (set_valid k False (pe_native pe)) pe))"
    using inv by (auto simp: pe_inv_def lanes_ok_def retire_def with_native_def set_valid_def)
  then show ?thesis using inv by (simp add: fut_result_state [OF inv k])
qed

definition tick_engine :: "int \<Rightarrow> engine \<Rightarrow> engine" where
  "tick_engine d e = e\<lparr>en_lanes := map (\<lambda>l. l\<lparr>ln_now := ln_now l + d\<rparr>) (en_lanes e)\<rparr>"

lemma pe_inv_map:
  assumes inv: "pe_inv pe"
    and ok: "\<And>l. lane_ok (en_running (pe_native pe)) (en_cap (pe_native pe)) l
               \<Longrightarrow> lane_ok run (en_cap (pe_native pe)) (g l) \<and> cells_extend l (g l)"
  shows "pe_inv (pe\<lparr>pe_closed := \<not> run,
           pe_native := (pe_native pe)\<lparr>en_running := run, en_lanes := map g (en_lanes (pe_native pe))\<rparr>\<rparr>)"
proof -
  let ?e = "pe_native pe"
  have all: "\<forall>l \<in> set (en_lanes ?e). lane_ok (en_running ?e) (en_cap ?e) l"
    using pe_inv_lanes [OF inv] .
  then have "lanes_extend (en_lanes ?e) (map g (en_lanes ?e))"
    using ok unfolding lanes_extend_def by simp
  then have "futs_ok (pe\<lparr>pe_closed := \<not> run, pe_native := ?e\<lparr>en_running := run, en_lanes := map g (en_lanes ?e)\<rparr>\<rparr>)"
    using inv fut_ok_extend by (auto simp: pe_inv_def futs_ok_def)
  moreover have "lanes_ok (pe\<lparr>pe_closed := \<not> run, pe_native := ?e\<lparr>en_running := run, en_lanes := map g (en_lanes ?e)\<rparr>\<rparr>)"
    using all ok by (auto simp: lanes_ok_def)
  ultimately show ?thesis using inv by (simp add: pe_inv_def)
qed

lemma pe_inv_tick:
  assumes "pe_inv pe" and "0 \<le> d"
  shows "pe_inv (with_native (tick_engine d (pe_native pe)) pe)"
proof -
  have "pe_closed pe = (\<not> en_running (pe_native pe))" using assms(1) by (simp add: pe_inv_def)
  then have "with_native (tick_engine d (pe_native pe)) pe = pe\<lparr>pe_closed := \<not> en_running (pe_native pe),
      pe_native := (pe_native pe)\<lparr>en_running := en_running (pe_native pe),
        en_lanes := map (\<lambda>l. l\<lparr>ln_now := ln_now l + d\<rparr>) (en_lanes (pe_native pe))\<rparr>\<rparr>"
    by (simp add: with_native_def tick_engine_def)
  moreover have "pe_inv (pe\<lparr>pe_closed := \<not> en_running (pe_native pe),
      pe_native := (pe_native pe)\<lparr>en_running := en_running (pe_native pe),
        en_lanes := map (\<lambda>l. l\<lparr>ln_now := ln_now l + d\<rparr>) (en_lanes (pe_native pe))\<rparr>\<rparr>)"
    by (rule pe_inv_map [OF assms(1)]) (rule lane_ok_tick [OF _ assms(2)])
  ultimately show ?thesis by simp
qed

lemma pe_inv_shutdown:
  assumes "pe_inv pe"
  shows "pe_inv (fst (eng_shutdown (pe, w)))"
proof (cases "pe_closed pe")
  case True
  then show ?thesis using assms by (simp add: eng_shutdown_def)
next
  case False
  then have "en_running (pe_native pe)" using assms by (simp add: pe_inv_def)
  then show ?thesis
    using False pe_inv_map [OF assms lane_ok_destroy]
    by (simp add: eng_shutdown_def engine_shutdown_def)
qed

lemma pe_inv_init:
  assumes "eng_init ok actors t n h cap impl w = Inr (w', pe)"
  shows "pe_inv pe"
proof -
  have "lane_ok True c (new_lane a False t)" if "c = -1 \<or> 1 \<le> c" for a c
    using that lane_reachable.New [of a False t] by (auto simp: lane_ok_def new_lane_def)
  then show ?thesis
    using assms
    by (auto simp: eng_init_def rbind_eq_Inr validate_max_queue_depth_Inr engine_new_def pe_inv_def
        lanes_ok_def futs_ok_def cross_int32_Inr split: if_splits)
qed

inductive pe_reachable :: "pyengine \<Rightarrow> bool" where
  Init: "eng_init ok actors t n h cap impl w = Inr (w', pe) \<Longrightarrow> pe_reachable pe"
| Submit: "pe_reachable pe \<Longrightarrow> pe_reachable (fst (eng_submit t a b c d f pe))"
| Batch: "pe_reachable pe \<Longrightarrow> pe_reachable (fst (eng_submit_batch t now a b c pe))"
| Cancel: "pe_reachable pe \<Longrightarrow> k < length (pe_futs pe) \<Longrightarrow> pe_reachable (fst (eng_cancel (AFuture k) pe))"
| Result: "pe_reachable pe \<Longrightarrow> k < length (pe_futs pe) \<Longrightarrow> pe_reachable (fst (fut_result k recv t pe))"
| Work: "pe_reachable pe \<Longrightarrow> i < length (en_lanes (pe_native pe))
    \<Longrightarrow> worker_step (en_lanes (pe_native pe) ! i) = Some l'
    \<Longrightarrow> pe_reachable (with_native (upd_lane i l' (pe_native pe)) pe)"
| Tick: "pe_reachable pe \<Longrightarrow> 0 \<le> d \<Longrightarrow> pe_reachable (with_native (tick_engine d (pe_native pe)) pe)"
| Shutdown: "pe_reachable pe \<Longrightarrow> pe_reachable (fst (eng_shutdown (pe, w)))"

lemma pe_reachable_inv: "pe_reachable pe \<Longrightarrow> pe_inv pe"
proof (induction rule: pe_reachable.induct)
  case (Work pe i l')
  have "lane_ok (en_running (pe_native pe)) (en_cap (pe_native pe)) (en_lanes (pe_native pe) ! i)"
    using pe_inv_lanes [OF Work.IH] Work.hyps(2) by simp
  then show ?case using pe_inv_lane_update [OF Work.IH Work.hyps(2)] lane_ok_work Work.hyps(3) by blast
qed (simp_all add: pe_inv_init pe_inv_submit pe_inv_batch pe_inv_cancel pe_inv_result pe_inv_tick pe_inv_shutdown)

end
