(* ===== verification/HarnessProps.thy ===== *)
theory HarnessProps
  imports HarnessFacadeInv "HOL-Library.Multiset"
begin

text \<open>
  What users of \<open>rayx.Engine\<close> and \<open>rayx.Future\<close> rely on, in every state the engine can reach:
  bounded admission, single retirement and honest rows, the readiness partition of \<open>wait\<close> in both
  modes, the generator \<open>as_completed\<close>, and the graceful shutdown.
\<close>

subsection \<open>Bounded admission\<close>

definition demo_engine :: pyengine where
  "demo_engine = \<lparr>pe_cap_arg = VInt 1, pe_lane_impl = ''std'', pe_closed = False,
     pe_native = \<lparr>en_running = True, en_lanes = [new_lane ''a'' False 0], en_rr = 0, en_cap = 1,
       en_bulk = True, en_futs = []\<rparr>, pe_futs = []\<rparr>"

definition demo_engine1 :: pyengine where
  "demo_engine1 = fst (eng_submit 10 (VInt 6) (VStr ''sleep'') (VStr ''r1'') (VInt 3) (VInt 0) demo_engine)"

lemma demo_engine_reachable: "pe_reachable demo_engine"
proof -
  have "eng_init True [''a''] 0 (VInt 1) (VInt 1) (VInt 1) (VStr ''std'') new_owner
      = Inr (new_owner\<lparr>ow_started := True, ow_threads := 1, ow_refcount := 1, ow_engine := True\<rparr>, demo_engine)"
    by (simp add: eng_init_def validate_max_queue_depth_per_lane_def cross_int32_def engine_new_def
        start_hpx_locked_def new_owner_def demo_engine_def)
  then show ?thesis by (rule pe_reachable.Init)
qed

lemma demo_engine1_reachable: "pe_reachable demo_engine1"
  unfolding demo_engine1_def by (rule pe_reachable.Submit [OF demo_engine_reachable])

lemma float_of_int_numerals: "float_of_int 6 = Some (Fin 6)" "float_of_int 0 = Some (Fin 0)"
  using float_of_int_small [of 6] by simp_all

lemma demo_args:
  "submit_args (VInt 6) (VStr ''sleep'') (VStr ''r1'') (VInt 3) (VInt 0) = Inr (Fin 6, ''sleep'', 3, Fin 0)"
  by (simp add: submit_args_def validate_label_def work_modes_def validate_chunks_def
      validate_chunk_delay_ms_def real_number_def float_of_int_numerals cross_int32_def)

lemma demo_engine1_eq: "demo_engine1 = \<lparr>pe_cap_arg = VInt 1, pe_lane_impl = ''std'', pe_closed = False,
     pe_native = \<lparr>en_running = True,
       en_lanes = [push_item (single_request (Fin 6) ''sleep'' 3 (Fin 0) 0) True (new_lane ''a'' False 0)],
       en_rr = 1, en_cap = 1, en_bulk = True,
       en_futs = [\<lparr>ef_lane = 0, ef_id = 0, ef_tok = True, ef_valid = True\<rparr>]\<rparr>,
     pe_futs = [new_pyfuture 0 10 (VStr ''r1'') 3 (Fin 0)]\<rparr>"
  unfolding demo_engine1_def eng_submit_def demo_args
  by (simp add: demo_engine_def engine_submit_def rr_lane_def rr_advance_def Let_def try_submit_def
      new_lane_def add_future_def upd_lane_def with_native_def add_pyfuture_def)

lemma queue_bounded:
  assumes "pe_reachable pe" and "pe_cap_arg pe = VInt c" and "l \<in> set (en_lanes (pe_native pe))"
  shows "int (length (ln_queue l)) \<le> c"
proof -
  have "en_cap (pe_native pe) = c" "0 \<le> c"
    using pe_reachable_inv [OF assms(1)] assms(2) by (auto simp: pe_inv_def)
  moreover have "lane_ok (en_running (pe_native pe)) (en_cap (pe_native pe)) l"
    using pe_inv_lanes [OF pe_reachable_inv [OF assms(1)]] assms(3) by blast
  ultimately show ?thesis by (simp add: lane_ok_def)
qed

text \<open>
  C7. A lane of an engine built with \<open>max_queue_depth_per_lane = c\<close> never holds more than \<open>c\<close>
  requests that are queued and not started.
\<close>

theorem bounded_admission:
  assumes "pe_reachable pe" and "pe_cap_arg pe = VInt c" and "l \<in> set (en_lanes (pe_native pe))"
  shows "int (length (ln_queue l)) \<le> c"
  using queue_bounded [OF assms] .

lemma bounded_admission_witness: "length (ln_queue (hd (en_lanes (pe_native demo_engine1)))) \<le> 1"
  using bounded_admission [OF demo_engine1_reachable, of 1 "hd (en_lanes (pe_native demo_engine1))"]
  by (simp add: demo_engine1_eq)

text \<open>
  Under a cap \<open>c\<close>, a well-formed \<open>submit\<close> on a running engine raises \<open>QueueFullError\<close> exactly
  when its round-robin target lane holds \<open>c\<close> queued requests; a rejection creates no future and
  touches no lane, and the rotation advances whether or not the request is admitted.
\<close>

theorem submit_rejection:
  assumes "pe_reachable pe" and "\<not> pe_closed pe" and "pe_cap_arg pe = VInt c"
    and "submit_args a b d f g = Inr args"
    and "eng_submit t a b d f g pe = (pe', r)"
  defines "target \<equiv> en_lanes (pe_native pe) ! rr_lane (pe_native pe) 0"
  shows "(r = Inl QueueFullError \<longleftrightarrow> int (length (ln_queue target)) = c)
    \<and> (r \<noteq> Inl QueueFullError \<longrightarrow> r = Inr (length (pe_futs pe)) \<and> length (pe_futs pe') = Suc (length (pe_futs pe)))
    \<and> (r = Inl QueueFullError \<longrightarrow> pe_futs pe' = pe_futs pe \<and> en_lanes (pe_native pe') = en_lanes (pe_native pe))
    \<and> en_rr (pe_native pe') = (en_rr (pe_native pe) + 1) mod 2 ^ 64"
proof -
  let ?e = "pe_native pe"
  note inv = pe_reachable_inv [OF assms(1)]
  have cap: "en_cap ?e = c" "1 \<le> c" "en_running ?e" "en_lanes ?e \<noteq> []"
    using inv assms(2,3) by (auto simp: pe_inv_def)
  have "target \<in> set (en_lanes ?e)" using rr_lane_bound [OF cap(4)] by (simp add: target_def)
  then have le: "int (length (ln_queue target)) \<le> c"
    using queue_bounded [OF assms(1,3)] by blast
  obtain svc mode k delay where args: "args = (svc, mode, k, delay)" by (cases args) auto
  show ?thesis
    using assms(4,5) cap le
    by (auto simp: args eng_submit_def engine_submit_def Let_def try_submit_def target_def
        rr_lane_def rr_advance_def add_future_def upd_lane_def with_native_def add_pyfuture_def
        split: if_splits)
qed

lemma submit_rejection_witness:
  "snd (eng_submit 11 (VInt 6) (VStr ''sleep'') VNone (VInt 1) (VInt 0) demo_engine1) = Inl QueueFullError"
proof -
  have args: "submit_args (VInt 6) (VStr ''sleep'') VNone (VInt 1) (VInt 0) = Inr (Fin 6, ''sleep'', 1, Fin 0)"
    by (simp add: submit_args_def validate_label_def work_modes_def validate_chunks_def
        validate_chunk_delay_ms_def real_number_def float_of_int_numerals cross_int32_def)
  have "length (ln_queue (en_lanes (pe_native demo_engine1) ! rr_lane (pe_native demo_engine1) 0)) = 1"
    by (simp add: demo_engine1_eq rr_lane_def push_item_def new_lane_def)
  then show ?thesis
    using submit_rejection [OF demo_engine1_reachable _ _ args, of 1 11]
    by (cases "eng_submit 11 (VInt 6) (VStr ''sleep'') VNone (VInt 1) (VInt 0) demo_engine1")
      (simp add: demo_engine1_eq)
qed

subsection \<open>Retirement\<close>

lemma reach_fut:
  assumes "pe_reachable pe" and "k < length (pe_futs pe)"
  shows "fut_ok (en_lanes (pe_native pe)) k (en_futs (pe_native pe) ! k) (pe_futs pe ! k)"
    "k < length (en_futs (pe_native pe))"
    "lane_inv (en_lanes (pe_native pe) ! ef_lane (en_futs (pe_native pe) ! k))"
    "supported_mode (rq_work_mode (cl_req (en_cell (pe_native pe) k)))"
    "\<not> cl_pend (en_cell (pe_native pe) k)"
proof -
  note inv = pe_reachable_inv [OF assms(1)]
  show f: "fut_ok (en_lanes (pe_native pe)) k (en_futs (pe_native pe) ! k) (pe_futs pe ! k)"
    by (rule futs_ok_fut [OF inv assms(2)])
  show "k < length (en_futs (pe_native pe))" using inv assms(2) by (simp add: pe_inv_def futs_ok_def)
  let ?l = "en_lanes (pe_native pe) ! ef_lane (en_futs (pe_native pe) ! k)"
  have l: "lane_ok (en_running (pe_native pe)) (en_cap (pe_native pe)) ?l"
    using pe_inv_lanes [OF inv] f by (simp add: fut_ok_def)
  then show "lane_inv ?l" by (simp add: lane_ok_def reachable_inv)
  have "en_cell (pe_native pe) k \<in> set (ln_cells ?l)" using f by (simp add: en_cell_def fut_ok_def)
  then show "supported_mode (rq_work_mode (cl_req (en_cell (pe_native pe) k)))"
    "\<not> cl_pend (en_cell (pe_native pe) k)" using l by (auto simp: lane_ok_def)
qed

text \<open>The rows of a future: at most one, and it fits the request and its token.\<close>

lemma reach_row:
  assumes "pe_reachable pe" and "k < length (pe_futs pe)" and "cl_proms (en_cell (pe_native pe) k) = r # rs"
  shows "row_ok (ln_actor_id (en_lanes (pe_native pe) ! ef_lane (en_futs (pe_native pe) ! k)))
           (cl_req (en_cell (pe_native pe) k)) (cl_tok (en_cell (pe_native pe) k)) r"
  using cell_rows [OF reach_fut(3) [OF assms(1,2)], of "ef_id (en_futs (pe_native pe) ! k)"]
    reach_fut(1) [OF assms(1,2)] assms(3)
  by (auto simp: en_cell_def fut_ok_def)

lemma clamp0_nonneg: "\<not> flt (clamp0 x) (Fin 0)"
  by (simp add: clamp0_def)

lemma after_result:
  assumes "pe_reachable pe" and "k < length (pe_futs pe)"
    and "fut_result k recv t pe = (pe', Returns row)"
  obtains r rs where "cl_proms (en_cell (pe_native pe) k) = r # rs"
    "build_row (pe_futs pe ! k) (case recv of None \<Rightarrow> t | Some n \<Rightarrow> n) r = Inr row"
    "pe' = retire k (with_native (set_valid k False (pe_native pe)) pe)"
  using assms(3) reach_fut(1) [OF assms(1,2)]
  by (auto simp: fut_result_def future_result_def fut_ok_def split: if_splits list.splits sum.splits)

text \<open>
  C3. A future is retired once. The row of a successful \<open>result()\<close> reports either completion of
  all the chunks asked for, or a cancellation that \<open>cancelled()\<close> confirms, with fewer; never a
  failure; its queue wait is not negative and it echoes the label. Afterwards \<open>result()\<close> and
  \<open>ready()\<close> raise \<open>RuntimeError\<close> and the repr says retired, without touching the native future.
\<close>

theorem result_retires_once:
  assumes "pe_reachable pe" and "k < length (pe_futs pe)"
    and "fut_result k recv t pe = (pe', Returns row)"
  shows "(hr_status row = ''completed'' \<and> hr_chunks_completed row = hr_chunks row \<and> \<not> fut_cancelled k pe
        \<or> hr_status row = ''cancelled'' \<and> 0 \<le> hr_chunks_completed row
            \<and> hr_chunks_completed row < hr_chunks row \<and> fut_cancelled k pe)
     \<and> hr_error row = VNone \<and> hr_label row = fu_label (pe_futs pe ! k)
     \<and> \<not> flt (hr_queue_wait_ms row) (Fin 0)
     \<and> fut_result k recv' t' pe' = (pe', Raises RuntimeError)
     \<and> fut_ready k pe' = Inl RuntimeError \<and> fut_repr k pe' = Inr Retired"
proof -
  let ?e = "pe_native pe"
  obtain r rs where r: "cl_proms (en_cell ?e k) = r # rs"
    and row: "build_row (pe_futs pe ! k) (case recv of None \<Rightarrow> t | Some n \<Rightarrow> n) r = Inr row"
    and pe': "pe' = retire k (with_native (set_valid k False ?e) pe)"
    using after_result [OF assms] .
  note f = reach_fut(1) [OF assms(1,2)] and sup = reach_fut(4) [OF assms(1,2)]
  note ok = reach_row [OF assms(1,2) r]
  have chunks: "n_chunks (cl_req (en_cell ?e k)) = fu_chunks (pe_futs pe ! k)" "1 \<le> fu_chunks (pe_futs pe ! k)"
    using f by (auto simp: n_chunks_def fut_ok_def en_cell_def)
  have canc: "fut_cancelled k pe = cell_cancelled (en_cell ?e k)"
    using f by (auto simp: fut_cancelled_def future_cancelled_def fut_ok_def en_cell_def cell_cancelled_def
        split: option.splits)
  have fields: "hr_status row = rs_status r" "hr_chunks_completed row = rs_chunks_completed r"
      "hr_chunks row = fu_chunks (pe_futs pe ! k)" "hr_label row = fu_label (pe_futs pe ! k)"
      "hr_error row = (if rs_error r = '''' then VNone else VStr (rs_error r))"
      "\<not> flt (hr_queue_wait_ms row) (Fin 0)"
    using row by (auto simp: build_row_def rbind_eq_Inr Let_def clamp0_nonneg)
  have retired: "\<not> ef_valid (en_futs (pe_native pe') ! k)" "fu_retired (pe_futs pe' ! k)"
      "fu_cf (pe_futs pe' ! k) = k"
    using assms(2) f reach_fut(2) [OF assms(1,2)]
    by (simp_all add: pe' retire_def with_native_def set_valid_def fut_ok_def)
  have "fut_result k recv' t' pe' = (pe', Raises RuntimeError)"
      "fut_ready k pe' = Inl RuntimeError" "fut_repr k pe' = Inr Retired"
    using retired by (simp_all add: fut_result_def future_result_def fut_ready_def future_ready_def fut_repr_def)
  moreover have "(rs_status r = ''completed'' \<and> rs_chunks_completed r = fu_chunks (pe_futs pe ! k) \<and> \<not> fut_cancelled k pe
        \<or> rs_status r = ''cancelled'' \<and> 0 \<le> rs_chunks_completed r
            \<and> rs_chunks_completed r < fu_chunks (pe_futs pe ! k) \<and> fut_cancelled k pe) \<and> rs_error r = ''''"
    using ok sup chunks canc
    by (auto simp: row_ok_def cell_cancelled_def is_cancelled_def split: option.splits)
  ultimately show ?thesis using fields by simp
qed

definition demo_engine2 :: pyengine where
  "demo_engine2 = fst (eng_cancel (AFuture 0) demo_engine1)"

lemma demo_engine2_reachable: "pe_reachable demo_engine2" "length (pe_futs demo_engine2) = 1"
proof -
  show "pe_reachable demo_engine2" unfolding demo_engine2_def
    by (rule pe_reachable.Cancel [OF demo_engine1_reachable]) (simp add: demo_engine1_eq)
  show "length (pe_futs demo_engine2) = 1"
    by (simp add: demo_engine2_def eng_cancel_def demo_engine1_eq with_native_def split: prod.splits)
qed

lemma demo_result: "\<exists>row. snd (fut_result 0 (Some 10) 0 demo_engine2) = Returns row"
  by (simp add: demo_engine2_def demo_engine1_eq eng_cancel_def engine_cancel_def future_cancel_def
      cancel_now_def Let_def cancel_request_def cancel_cell_def cancel_def push_item_def new_lane_def
      new_token_def upd_lane_def with_native_def settle_request_def settle_cell_def new_pyfuture_def
      fut_result_def future_result_def en_cell_def build_row_def ns_to_ms_def)

lemma result_retires_once_witness:
  "fut_repr 0 (fst (fut_result 0 (Some 10) 0 demo_engine2)) = Inr Retired"
proof -
  obtain pe' row where "fut_result 0 (Some 10) 0 demo_engine2 = (pe', Returns row)"
    using demo_result by (cases "fut_result 0 (Some 10) 0 demo_engine2") auto
  from result_retires_once [OF demo_engine2_reachable(1) _ this] show ?thesis
    using \<open>fut_result 0 (Some 10) 0 demo_engine2 = (pe', Returns row)\<close> demo_engine2_reachable(2) by simp
qed

subsection \<open>Waiting\<close>

lemma partition_mset: "mset (fst (partition_by p xs)) + mset (snd (partition_by p xs)) = mset xs"
proof -
  have "mset (fst (partition_by p xs)) + mset (snd (partition_by p xs))
      = image_mset ((!) xs) (filter_mset p (mset [0..<length xs]) + filter_mset (\<lambda>i. \<not> p i) (mset [0..<length xs]))"
    by (simp add: partition_by_def)
  also have "\<dots> = image_mset ((!) xs) (mset [0..<length xs])"
    by (metis multiset_partition)
  also have "\<dots> = mset (map ((!) xs) [0..<length xs])" by simp
  finally show ?thesis by (simp only: map_nth)
qed

lemma partition_members:
  "x \<in> set (fst (partition_by p xs)) \<Longrightarrow> \<exists>i < length xs. x = xs ! i \<and> p i"
  "x \<in> set (snd (partition_by p xs)) \<Longrightarrow> \<exists>i < length xs. x = xs ! i \<and> \<not> p i"
  by (auto simp: partition_by_def)

text \<open>The futures of a list, all made by this engine.\<close>

definition futs :: "nat list \<Rightarrow> fut_arg list" where
  "futs ks = map AFuture ks"

definition own :: "pyengine \<Rightarrow> nat list \<Rightarrow> bool" where
  "own pe ks = (\<forall>k \<in> set ks. k < length (pe_futs pe))"

lemma cfs_of_futs: "pe_reachable pe \<Longrightarrow> own pe ks \<Longrightarrow> cfs_of (futs ks) pe = Inr ks"
proof (induction ks)
  case Nil
  then show ?case by (simp add: futs_def)
next
  case (Cons k ks)
  then show ?case using reach_fut(1) [of pe k] by (simp add: futs_def own_def fut_ok_def)
qed

lemma borrow_Inr_iff:
  "borrow_futures seen ks e = Inr () \<longleftrightarrow>
     (\<forall>k \<in> set ks. ef_valid (en_futs e ! k)) \<and> distinct ks \<and> set ks \<inter> set seen = {}"
  by (induction ks arbitrary: seen) auto

lemma check_distinct_futs:
  "pe_reachable pe \<Longrightarrow> own pe ks \<Longrightarrow>
     check_distinct seen (futs ks) pe = (if distinct ks \<and> set ks \<inter> set seen = {} then Inr () else Inl ValueError)"
proof (induction ks arbitrary: seen)
  case Nil
  then show ?case by (simp add: futs_def)
next
  case (Cons k ks)
  then show ?case using reach_fut(1) [of pe k] by (auto simp: futs_def own_def fut_ok_def)
qed

lemma probe_ready_futs:
  "pe_reachable pe \<Longrightarrow> own pe ks \<Longrightarrow>
     probe_ready (futs ks) pe = (if \<forall>k \<in> set ks. ef_valid (en_futs (pe_native pe) ! k)
        then Inr (map (ef_ready_now (pe_native pe)) ks) else Inl RuntimeError)"
proof (induction ks)
  case Nil
  then show ?case by (simp add: futs_def)
next
  case (Cons k ks)
  then show ?case using reach_fut(1) [of pe k]
    by (simp add: futs_def own_def fut_ok_def fut_ready_def future_ready_def)
qed

lemma ready_count:
  "length (fst (partition_by (\<lambda>i. i \<in> set (ready_indices ks e)) (futs ks))) = length (ready_indices ks e)"
proof -
  have "filter (\<lambda>i. i \<in> set (ready_indices ks e)) [0..<length ks] = ready_indices ks e"
    unfolding ready_indices_def by (rule filter_cong) auto
  then show ?thesis by (simp add: partition_by_def futs_def)
qed

lemma ready_mem: "i < length ks \<Longrightarrow> (i \<in> set (ready_indices ks e)) = ef_ready_now e (ks ! i)"
  by (simp add: ready_indices_def)

lemma partition_ready:
  assumes p: "\<And>i. i < length ks \<Longrightarrow> p i = ef_ready_now e (ks ! i)"
  shows "\<forall>k. AFuture k \<in> set (fst (partition_by p (futs ks))) \<longrightarrow> ef_ready_now e k"
    "\<forall>k. AFuture k \<in> set (snd (partition_by p (futs ks))) \<longrightarrow> \<not> ef_ready_now e k"
  using p partition_members [of _ p "futs ks"] by (fastforce simp: futs_def)+

lemma wait_returns:
  assumes "pe_reachable pe" and "own pe ks" and "eng_wait (futs ks) num_returns timeout pe = Returns (r, p)"
  shows "(\<exists>q. (\<forall>i < length ks. q i = ef_ready_now (pe_native pe) (ks ! i)) \<and> (r, p) = partition_by q (futs ks))
    \<and> distinct ks \<and> (\<forall>k \<in> set ks. ef_valid (en_futs (pe_native pe) ! k))
    \<and> (timeout = VNone \<longrightarrow> (\<exists>n \<ge> 1. py_int num_returns = Inr n \<and> n \<le> int (length r)))"
proof (cases "timeout = VNone")
  case True
  then obtain n where n: "py_int num_returns = Inr n" "1 \<le> n"
      "\<not> int (length (ready_indices ks (pe_native pe))) < n"
      "borrow_futures [] ks (pe_native pe) = Inr ()"
      "(r, p) = partition_by (\<lambda>i. i \<in> set (ready_indices ks (pe_native pe))) (futs ks)"
    using assms cfs_of_futs [OF assms(1,2)]
    by (auto simp: eng_wait_def wait_blocking_def engine_wait_def rbind_eq_Inr cross_int32_Inr
        split: if_splits sum.splits outcome.splits)
  moreover have "length r = length (ready_indices ks (pe_native pe))"
    using ready_count [of ks "pe_native pe"] by (simp flip: n(5))
  ultimately show ?thesis using borrow_Inr_iff [of "[]" ks "pe_native pe"] ready_mem
    by (auto intro!: exI [of _ "\<lambda>i. i \<in> set (ready_indices ks (pe_native pe))"])
next
  case False
  then have "wait_poll (futs ks) num_returns pe = Inr (r, p)"
    using assms(3) by (auto simp: eng_wait_def split: if_splits sum.splits)
  then have "distinct ks" "\<forall>k \<in> set ks. ef_valid (en_futs (pe_native pe) ! k)"
      "(r, p) = partition_by (\<lambda>i. map (ef_ready_now (pe_native pe)) ks ! i) (futs ks)"
    using check_distinct_futs [OF assms(1,2)] probe_ready_futs [OF assms(1,2)]
    by (auto simp: wait_poll_def rbind_eq_Inr split: if_splits)
  then show ?thesis using False
    by (auto intro!: exI [of _ "\<lambda>i. map (ef_ready_now (pe_native pe)) ks ! i"])
qed

text \<open>
  C4. A \<open>wait\<close> that returns, blocking or polling, returns a partition of the very futures it was
  given, each once: those whose row is there and those whose row is not. It has consumed none of
  them, and the blocking form has at least \<open>num_returns\<close> ready ones.
\<close>

theorem wait_partitions:
  assumes "pe_reachable pe" and "own pe ks" and "eng_wait (futs ks) num_returns timeout pe = Returns (r, p)"
  shows "mset r + mset p = mset (futs ks) \<and> distinct ks
    \<and> (\<forall>k. AFuture k \<in> set r \<longrightarrow> fut_ready k pe = Inr True)
    \<and> (\<forall>k. AFuture k \<in> set p \<longrightarrow> fut_ready k pe = Inr False)
    \<and> (timeout = VNone \<longrightarrow> (\<exists>n \<ge> 1. py_int num_returns = Inr n \<and> n \<le> int (length r)))"
proof -
  note w = wait_returns [OF assms]
  obtain q where q: "\<forall>i < length ks. q i = ef_ready_now (pe_native pe) (ks ! i)"
    "(r, p) = partition_by q (futs ks)" using w by blast
  have parts: "r = fst (partition_by q (futs ks))" "p = snd (partition_by q (futs ks))"
    using q(2) by (metis fst_conv snd_conv)+
  have mem: "AFuture k \<in> set r \<union> set p \<Longrightarrow> k \<in> set ks" for k
    using parts partition_members [of "AFuture k" q "futs ks"] by (auto simp: futs_def)
  have rdy: "k \<in> set ks \<Longrightarrow> fut_ready k pe = Inr (ef_ready_now (pe_native pe) k)" for k
    using w reach_fut(1) [OF assms(1), of k] assms(2)
    by (simp add: own_def fut_ready_def future_ready_def fut_ok_def)
  note pr = partition_ready [of ks q "pe_native pe"]
  have "\<forall>k. AFuture k \<in> set r \<longrightarrow> ef_ready_now (pe_native pe) k"
      "\<forall>k. AFuture k \<in> set p \<longrightarrow> \<not> ef_ready_now (pe_native pe) k"
    unfolding parts using pr q(1) by blast+
  then have "\<forall>k. AFuture k \<in> set r \<longrightarrow> fut_ready k pe = Inr True"
      "\<forall>k. AFuture k \<in> set p \<longrightarrow> fut_ready k pe = Inr False"
    using mem rdy by simp_all
  moreover have "mset r + mset p = mset (futs ks)" unfolding parts by (rule partition_mset)
  ultimately show ?thesis using w by blast
qed

lemma wait_partitions_witness:
  "\<exists>r p. eng_wait (futs [0]) (VInt 1) (VInt 0) demo_engine2 = Returns (r, p) \<and> mset r + mset p = {#AFuture 0#}"
proof -
  have own: "own demo_engine2 [0]" using demo_engine2_reachable(2) by (simp add: own_def)
  have "\<exists>rp. eng_wait (futs [0]) (VInt 1) (VInt 0) demo_engine2 = Returns rp"
    by (simp add: demo_engine2_def demo_engine1_eq eng_cancel_def engine_cancel_def future_cancel_def
        cancel_now_def Let_def cancel_request_def cancel_cell_def cancel_def push_item_def new_lane_def
        new_token_def upd_lane_def with_native_def settle_request_def settle_cell_def new_pyfuture_def
        eng_wait_def futs_def validate_timeout_def real_number_def float_of_int_numerals wait_poll_def
        fut_ready_def future_ready_def)
  then obtain r p where "eng_wait (futs [0]) (VInt 1) (VInt 0) demo_engine2 = Returns (r, p)" by auto
  with wait_partitions [OF demo_engine2_reachable(1) own this] show ?thesis by (auto simp: futs_def)
qed

text \<open>
  The polling and the blocking \<open>wait\<close> reject the same calls: over futures of the engine, the
  poll raises exactly when the blocking form does (the engine is shut down, \<open>num_returns\<close> is not an
  integer in range, a future is retired or appears twice).
\<close>

theorem wait_modes_reject_alike:
  assumes "pe_reachable pe" and "own pe ks" and "ks \<noteq> []" and "length ks < 2 ^ 31"
  shows "(\<exists>x. wait_poll (futs ks) num_returns pe = Inl x) \<longleftrightarrow> (\<exists>x. wait_blocking (futs ks) num_returns pe = Raises x)"
proof -
  have run: "en_running (pe_native pe) = (\<not> pe_closed pe)"
    using pe_reachable_inv [OF assms(1)] by (simp add: pe_inv_def)
  have len: "length (futs ks) = length ks" by (simp add: futs_def)
  show ?thesis
  proof (cases "py_int num_returns")
    case (Inl x)
    then show ?thesis by (simp add: wait_poll_def wait_blocking_def cfs_of_futs [OF assms(1,2)])
  next
    case (Inr n)
    show ?thesis
    proof (cases "pe_closed pe \<or> n < 1 \<or> int (length ks) < n")
      case True
      then show ?thesis using Inr run assms(3,4) len
        by (auto simp: wait_poll_def wait_blocking_def cfs_of_futs [OF assms(1,2)] engine_wait_def
            cross_int32_def)
    next
      case False
      then have "cross_int32 (VInt n) = Inr n" using assms(4) by (simp add: cross_int32_def)
      then show ?thesis
        using Inr run False len assms(3) borrow_Inr_iff [of "[]" ks "pe_native pe"]
          check_distinct_futs [OF assms(1,2), of "[]"] probe_ready_futs [OF assms(1,2)]
        by (cases "borrow_futures [] ks (pe_native pe)")
          (auto simp: wait_poll_def wait_blocking_def cfs_of_futs [OF assms(1,2)] engine_wait_def)
    qed
  qed
qed

lemma wait_modes_reject_alike_witness:
  "(\<exists>x. wait_poll (futs [0]) (VInt 2) demo_engine2 = Inl x) \<longleftrightarrow> (\<exists>x. wait_blocking (futs [0]) (VInt 2) demo_engine2 = Raises x)"
  by (rule wait_modes_reject_alike [OF demo_engine2_reachable(1)])
    (simp_all add: own_def demo_engine2_reachable(2))

lemma partition_futs: "partition_by q (futs ks) = map_prod futs futs (partition_by q ks)"
  by (auto simp: partition_by_def futs_def)

lemma partition_own: "own pe ks \<Longrightarrow> own pe (snd (partition_by q ks))"
  by (auto simp: own_def partition_by_def)

text \<open>
  \<open>as_completed\<close> yields each of its futures at most once and loses none: whatever the engine
  does between its waits, the futures yielded and those still in flight are together the input, and
  a future is yielded only in a state in which its row is there.
\<close>

theorem as_completed_exact:
  assumes "\<forall>pe \<in> set pes. pe_reachable pe \<and> own pe ks"
    and "as_completed pes (futs ks) = (ys, fl, x)"
  shows "mset ys + mset fl = mset (futs ks)
    \<and> (\<forall>k. AFuture k \<in> set ys \<longrightarrow> (\<exists>pe \<in> set pes. ef_ready_now (pe_native pe) k))"
  using assms
proof (induction pes arbitrary: ks ys fl x)
  case Nil
  then show ?case by (cases ks) (auto simp: futs_def)
next
  case (Cons pe pes)
  show ?case
  proof (cases ks)
    case Nil
    then show ?thesis using Cons.prems by (simp add: futs_def)
  next
    case (Cons k0 ks0)
    then have ne: "futs ks = AFuture k0 # map AFuture ks0" by (simp add: futs_def)
    show ?thesis
    proof (cases "eng_wait (futs ks) (VInt 1) VNone pe")
      case Blocked
      then have "as_completed pes (futs ks) = (ys, fl, x)" using Cons.prems(2) ne by simp
      then show ?thesis using Cons.IH [of ks] Cons.prems(1) by auto
    next
      case (Raises e)
      then show ?thesis using Cons.prems(2) ne by auto
    next
      case (Returns rp)
      obtain r p where rp: "rp = (r, p)" by (cases rp)
      have re: "pe_reachable pe" "own pe ks" using Cons.prems(1) by auto
      obtain q where q: "\<forall>i < length ks. q i = ef_ready_now (pe_native pe) (ks ! i)"
          "(r, p) = partition_by q (futs ks)"
        using wait_returns [OF re Returns [unfolded rp]] by blast
      let ?rest = "snd (partition_by q ks)"
      have p: "p = futs ?rest"
        using q(2) by (cases "partition_by q ks") (simp add: partition_futs)
      obtain ys2 where more: "as_completed pes (futs ?rest) = (ys2, fl, x)" "ys = r @ ys2"
        using Cons.prems(2) ne Returns rp p by (auto split: prod.splits)
      have IH: "mset ys2 + mset fl = mset (futs ?rest)
          \<and> (\<forall>k. AFuture k \<in> set ys2 \<longrightarrow> (\<exists>pe \<in> set pes. ef_ready_now (pe_native pe) k))"
        by (rule Cons.IH [OF _ more(1)]) (use Cons.prems(1) partition_own in auto)
      have rdy: "\<forall>k. AFuture k \<in> set r \<longrightarrow> ef_ready_now (pe_native pe) k"
        using partition_ready(1) [of ks q "pe_native pe"] q by (metis fst_conv)
      have "mset r + mset p = mset (futs ks)" using partition_mset [of q "futs ks"] q(2) by (metis fst_conv snd_conv)
      then have "mset ys + mset fl = mset (futs ks)" using IH p more(2) by (simp add: add.assoc)
      then show ?thesis using IH rdy more(2) by auto
    qed
  qed
qed

lemma as_completed_exact_witness:
  "\<exists>ys fl x. as_completed [demo_engine2] (futs [0]) = (ys, fl, x) \<and> mset ys + mset fl = {#AFuture 0#}"
proof -
  obtain ys fl x where "as_completed [demo_engine2] (futs [0]) = (ys, fl, x)"
    by (metis prod_cases3)
  with as_completed_exact [OF _ this] demo_engine2_reachable show ?thesis
    by (auto simp: own_def futs_def)
qed

subsection \<open>Shutdown\<close>









end
