(* ===== verification/RuntimeValidate.thy ===== *)
theory RuntimeValidate
  imports PyNumber
begin

text \<open>
  The argument validators of \<open>rayx.runtime\<close> (\<open>python/src/rayx/runtime/_validate.py\<close>). The operation
  and actor tables are arguments, as in the code: association lists from an id to its declared
  argument types. A validated argument list is the list of values handed to the native marshaller.
\<close>

definition PARTS_MAX :: int where "PARTS_MAX = 1024"
definition PARK_MS_MAX :: int where "PARK_MS_MAX = 60000"
definition CHAIN_STEPS_MAX :: int where "CHAIN_STEPS_MAX = 10000"
definition CHAIN_QUANTUM_MAX :: int where "CHAIN_QUANTUM_MAX = 100000"
definition CHAIN_FANOUT_K_MAX :: int where "CHAIN_FANOUT_K_MAX = 256"
definition FANIN_LEAVES_MAX :: int where "FANIN_LEAVES_MAX = 64"
definition INT64_MIN :: int where "INT64_MIN = - (2 ^ 63)"
definition INT64_MAX :: int where "INT64_MAX = 2 ^ 63 - 1"

lemmas bound_defs = PARTS_MAX_def PARK_MS_MAX_def CHAIN_STEPS_MAX_def CHAIN_QUANTUM_MAX_def
  CHAIN_FANOUT_K_MAX_def FANIN_LEAVES_MAX_def INT64_MIN_def INT64_MAX_def

definition ROW_FIELDS :: "string list" where
  "ROW_FIELDS = [''actor_id'', ''submit_ns'', ''start_ns'', ''end_ns'', ''total_ms'',
     ''queue_wait_ms'', ''service_ms_observed'', ''status'', ''error'']"

subsection \<open>Typed arguments\<close>

definition validate_int64 :: "pyval \<Rightarrow> pyval py" where
  "validate_int64 a =
     (if is_bool a \<or> \<not> is_int a then Inl TypeError
      else if the_int a < INT64_MIN \<or> the_int a > INT64_MAX then Inl ValueError
      else Inr (VInt (the_int a)))"

definition validate_double :: "pyval \<Rightarrow> pyval py" where
  "validate_double a = (case a of
       VFloat f \<Rightarrow> if \<not> fisfinite f then Inl ValueError else Inr a
     | _ \<Rightarrow> Inl TypeError)"

text \<open>\<open>_TYPE_VALIDATORS.get(t)\<close>.\<close>

definition type_validator :: "string \<Rightarrow> (pyval \<Rightarrow> pyval py) option" where
  "type_validator t = (if t = ''int64'' then Some validate_int64
     else if t = ''double'' then Some validate_double else None)"

definition validate_one :: "pyval \<times> string \<Rightarrow> pyval py" where
  "validate_one p = (case p of (a, t) \<Rightarrow> (case type_validator t of
       None \<Rightarrow> Inl ValueError | Some v \<Rightarrow> v a))"

definition validate_typed_args :: "pyval list \<Rightarrow> string list \<Rightarrow> pyval list py" where
  "validate_typed_args args arg_types =
     (if length args \<noteq> length arg_types then Inl ValueError
      else mapM_idx (\<lambda>i. validate_one) 0 (zip args arg_types))"

subsection \<open>Per-operation domains\<close>

text \<open>Comparing a validated argument (an \<open>int\<close> or a finite \<open>float\<close>) with an \<open>int\<close> constant.\<close>

fun py_lt :: "pyval \<Rightarrow> int \<Rightarrow> bool" where
  "py_lt (VInt n) k = (n < k)"
| "py_lt (VFloat f) k = flt f (Fin (of_int k))"
| "py_lt _ k = False"

fun py_gt :: "pyval \<Rightarrow> int \<Rightarrow> bool" where
  "py_gt (VInt n) k = (n > k)"
| "py_gt (VFloat f) k = flt (Fin (of_int k)) f"
| "py_gt _ k = False"

fun py_eq :: "pyval \<Rightarrow> int \<Rightarrow> bool" where
  "py_eq (VInt n) k = (n = k)"
| "py_eq (VFloat f) k = (f = Fin (of_int k))"
| "py_eq _ k = False"

definition outside :: "pyval \<Rightarrow> int \<Rightarrow> int \<Rightarrow> bool" where
  "outside v lo hi = (py_lt v lo \<or> py_gt v hi)"

text \<open>How many leading arguments the operation's domain check reads.\<close>

definition domain_reads :: "string \<Rightarrow> nat" where
  "domain_reads op_id =
     (if op_id = ''busy_sum'' then 1 else if op_id = ''fanout_sum'' then 2
      else if op_id = ''park_ms'' then 1
      else if op_id = ''chain_sum_loop'' \<or> op_id = ''chain_sum_then'' then 3
      else if op_id = ''chain_fanout'' then 4 else if op_id = ''barrier_fanin'' then 3
      else if op_id = ''diamond_fanin'' then 2 else if op_id = ''overlap_probe'' then 3 else 0)"

definition domain_bad :: "string \<Rightarrow> pyval list \<Rightarrow> bool" where
  "domain_bad op_id out =
     (if op_id = ''busy_sum'' then py_lt (out ! 0) 0
      else if op_id = ''fanout_sum'' then py_lt (out ! 0) 0 \<or> outside (out ! 1) 1 PARTS_MAX
      else if op_id = ''park_ms'' then outside (out ! 0) 0 PARK_MS_MAX
      else if op_id = ''chain_sum_loop'' \<or> op_id = ''chain_sum_then''
        then outside (out ! 1) 0 CHAIN_STEPS_MAX \<or> outside (out ! 2) 0 CHAIN_QUANTUM_MAX
      else if op_id = ''chain_fanout''
        then outside (out ! 1) 1 CHAIN_FANOUT_K_MAX \<or> outside (out ! 2) 0 CHAIN_STEPS_MAX
          \<or> outside (out ! 3) 0 CHAIN_QUANTUM_MAX
      else if op_id = ''barrier_fanin''
        then outside (out ! 1) 1 FANIN_LEAVES_MAX \<or> outside (out ! 2) 0 CHAIN_QUANTUM_MAX
      else if op_id = ''diamond_fanin'' then outside (out ! 1) 0 CHAIN_QUANTUM_MAX
      else if op_id = ''overlap_probe''
        then outside (out ! 1) 0 CHAIN_QUANTUM_MAX \<or> \<not> (py_eq (out ! 2) 0 \<or> py_eq (out ! 2) 1)
      else False)"

definition check_domain :: "string \<Rightarrow> pyval list \<Rightarrow> pyval list py" where
  "check_domain op_id out =
     (if length out < domain_reads op_id then Inl IndexError
      else if domain_bad op_id out then Inl ValueError else Inr out)"

type_synonym op_table = "(string \<times> string list) list"

definition validate_call :: "pyval \<Rightarrow> pyval list \<Rightarrow> op_table \<Rightarrow> pyval list py" where
  "validate_call op_id args table = (case op_id of
       VStr op \<Rightarrow> (case map_of table op of None \<Rightarrow> Inl ValueError
         | Some arg_types \<Rightarrow> rbind (validate_typed_args args arg_types) (check_domain op))
     | _ \<Rightarrow> Inl TypeError)"

subsection \<open>Actors\<close>

text \<open>An actor type: its init signature and its methods' signatures.\<close>

type_synonym actor_table = "(string \<times> string list \<times> op_table) list"

definition validate_actor_create :: "pyval \<Rightarrow> pyval list \<Rightarrow> actor_table \<Rightarrow> pyval list py" where
  "validate_actor_create actor_type args table = (case actor_type of
       VStr a \<Rightarrow> (case map_of table a of None \<Rightarrow> Inl ValueError
         | Some (init_types, methods) \<Rightarrow> validate_typed_args args init_types)
     | _ \<Rightarrow> Inl TypeError)"

definition check_method :: "string \<Rightarrow> pyval list \<Rightarrow> pyval list py" where
  "check_method method_id out =
     (if method_id = ''busy_get''
      then (if out = [] then Inl IndexError
            else if py_lt (out ! 0) 0 then Inl ValueError else Inr out)
      else Inr out)"

definition validate_actor_call :: "pyval \<Rightarrow> pyval \<Rightarrow> pyval list \<Rightarrow> actor_table \<Rightarrow> pyval list py" where
  "validate_actor_call actor_type method_id args table =
     (if \<not> is_str actor_type then Inl TypeError
      else (case (actor_type, method_id) of
        (VStr a, VStr mth) \<Rightarrow> (case map_of table a of None \<Rightarrow> Inl ValueError
          | Some (init_types, methods) \<Rightarrow> (case map_of methods mth of None \<Rightarrow> Inl ValueError
            | Some arg_types \<Rightarrow> rbind (validate_typed_args args arg_types) (check_method mth)))
      | _ \<Rightarrow> Inl TypeError))"

subsection \<open>Constructor options and timeout\<close>

definition default_inflight :: int where "default_inflight = 8"

definition validate_nonblocking_options :: "pyval \<Rightarrow> pyval \<Rightarrow> (bool \<times> int) py" where
  "validate_nonblocking_options flag mi =
     (if \<not> is_bool flag then Inl TypeError
      else rbind (if mi \<noteq> VNone
                  then (if is_bool mi \<or> \<not> is_int mi then Inl TypeError
                        else if the_int mi < 1 then Inl ValueError else Inr ())
                  else Inr ()) (\<lambda>_.
        if flag = VBool False then (if mi \<noteq> VNone then Inl ValueError else Inr (False, 1))
        else Inr (True, if mi = VNone then default_inflight else the_int mi)))"

definition rt_validate_timeout :: "pyval \<Rightarrow> pyfloat py" where
  "rt_validate_timeout timeout =
     (if \<not> real_number timeout then Inl TypeError
      else rbind (py_float timeout) (\<lambda>t.
        if \<not> fisfinite t then Inl ValueError
        else if flt t (Fin 0) then Inl ValueError
        else Inr t))"

lemma rt_validate_timeout_eq: "rt_validate_timeout = validate_timeout"
  by (rule ext) (simp add: rt_validate_timeout_def validate_timeout_def)

subsection \<open>What a validated call looks like\<close>

text \<open>A value of a declared type, as the marshaller expects it.\<close>

definition has_type :: "pyval \<Rightarrow> string \<Rightarrow> bool" where
  "has_type v t \<longleftrightarrow> t = ''int64'' \<and> (\<exists>n. v = VInt n \<and> INT64_MIN \<le> n \<and> n \<le> INT64_MAX)
     \<or> t = ''double'' \<and> (\<exists>q. v = VFloat (Fin q))"

lemma validate_int64_Inr:
  "validate_int64 a = Inr v \<longleftrightarrow> (\<exists>n. a = VInt n \<and> v = VInt n \<and> INT64_MIN \<le> n \<and> n \<le> INT64_MAX)"
  by (cases a) (auto simp: validate_int64_def)

lemma validate_double_Inr: "validate_double a = Inr v \<longleftrightarrow> (\<exists>q. a = VFloat (Fin q) \<and> v = a)"
  by (cases a) (auto simp: validate_double_def fisfinite_def split: pyfloat.splits)

lemma validate_one_Inr: "validate_one (a, t) = Inr v \<Longrightarrow> v = a \<and> has_type a t"
  by (auto simp: validate_one_def type_validator_def has_type_def validate_int64_Inr
      validate_double_Inr split: if_splits)

lemma validate_typed_args_Inr:
  assumes "validate_typed_args args types = Inr out"
  shows "out = args \<and> list_all2 has_type args types"
proof -
  have len: "length args = length types" and m: "mapM_idx (\<lambda>i. validate_one) 0 (zip args types) = Inr out"
    using assms by (auto simp: validate_typed_args_def split: if_splits)
  have out: "length out = length args" using mapM_idx_Inr_length [OF m] len by simp
  have "out ! k = args ! k \<and> has_type (args ! k) (types ! k)" if "k < length args" for k
    using mapM_idx_Inr_nth [OF m, of k] that len validate_one_Inr [of "args ! k" "types ! k" "out ! k"] by simp
  then show ?thesis using out len by (auto simp: list_all2_conv_all_nth intro: nth_equalityI)
qed

lemma validate_call_Inr:
  assumes "validate_call op_id args table = Inr out"
  shows "\<exists>op types. op_id = VStr op \<and> map_of table op = Some types \<and> out = args
    \<and> list_all2 has_type args types \<and> domain_reads op \<le> length args \<and> \<not> domain_bad op args"
  using assms
  by (cases op_id)
    (auto simp: validate_call_def check_domain_def rbind_eq_Inr not_less split: option.splits if_splits
      dest!: validate_typed_args_Inr)

text \<open>
  C11. The runtime boundary hands on exactly what it was given and only typed values: a call that
  passes \<open>validate_call\<close> keeps its arguments unchanged, each an \<open>int\<close> in the 64-bit range or a
  finite \<open>float\<close> as its operation declares (no \<open>bool\<close>, no widening); every call it refuses
  raises \<open>TypeError\<close>, \<open>ValueError\<close> or, for a table that declares too few arguments, \<open>IndexError\<close>.
\<close>

theorem validate_call_typed:
  "(case validate_call op_id args table of
      Inr out \<Rightarrow> out = args \<and> (\<exists>op types. op_id = VStr op \<and> map_of table op = Some types
                    \<and> list_all2 has_type args types)
    | Inl e \<Rightarrow> e \<in> {TypeError, ValueError, IndexError})"
proof (cases "validate_call op_id args table")
  case (Inr out)
  then show ?thesis using validate_call_Inr [OF Inr] by fastforce
next
  case (Inl e)
  have one: "validate_one p = Inl x \<Longrightarrow> x \<in> {TypeError, ValueError}" for p x
    by (auto simp: validate_one_def type_validator_def validate_int64_def validate_double_def
        split: prod.splits if_splits option.splits pyval.splits)
  have typed: "validate_typed_args args types = Inl x \<Longrightarrow> x \<in> {TypeError, ValueError}" for types x
    by (auto simp: validate_typed_args_def split: if_splits dest!: mapM_idx_Inl dest: one)
  show ?thesis
    using Inl typed
    by (cases op_id) (auto simp: validate_call_def rbind_eq_Inl check_domain_def split: option.splits if_splits)
qed

end
