(* ===== verification/RuntimeOps.thy ===== *)
theory RuntimeOps
  imports RuntimeValidate "HOL-Library.Word"
begin

unbundle bit_operations_syntax

text \<open>
  The registered native operations (\<open>python/src/rayx/runtime_ops.hpp\<close>, \<open>runtime_ops_hpx.hpp\<close>) and
  the counter actor (\<open>runtime_actor_ops.hpp\<close>). Unsigned accumulators are \<open>64 word\<close>s; an
  \<open>std::int64_t\<close> argument is the \<open>int\<close> it denotes. Signed arithmetic that leaves the 64-bit range is
  undefined behaviour in C++: such a call has the outcome \<open>Undefined\<close>, and the 64 bits it leaves
  behind, in a row or in an actor, are an unspecified constant. The fan-out operations run
  their pieces as HPX tasks and join them all; a piece reads nothing another one writes, so the model
  takes the list of their results.
\<close>

datatype op_value = OVInt int | OVDouble pyfloat

datatype op_outcome = Completed_with op_value | Cancelled_op | Failed_op | Undefined

definition int64_ok :: "int \<Rightarrow> bool" where
  "int64_ok n \<longleftrightarrow> INT64_MIN \<le> n \<and> n \<le> INT64_MAX"

text \<open>The result of a signed 64-bit computation whose exact value is \<open>n\<close>.\<close>

definition signed_result :: "int \<Rightarrow> op_outcome" where
  "signed_result n = (if int64_ok n then Completed_with (OVInt n) else Undefined)"

text \<open>What a 64-bit location holds after an overflow; nothing is known of it but its range.\<close>

definition unspecified_int64 :: "int list \<Rightarrow> int" where
  "unspecified_int64 xs = sint ((undefined :: int list \<Rightarrow> 64 word) xs)"

definition as_int64 :: "op_value list \<Rightarrow> nat \<Rightarrow> int option" where
  "as_int64 a i = (if i < length a then (case a ! i of OVInt n \<Rightarrow> Some n | _ \<Rightarrow> None) else None)"

definition as_double :: "op_value list \<Rightarrow> nat \<Rightarrow> pyfloat option" where
  "as_double a i = (if i < length a then (case a ! i of OVDouble f \<Rightarrow> Some f | _ \<Rightarrow> None) else None)"

subsection \<open>The masked checkpoint loop\<close>

definition BUSY_SUM_STRIDE :: int where "BUSY_SUM_STRIDE = 8192"
definition BUSY_SUM_MASK :: "64 word" where "BUSY_SUM_MASK = 0x7FFFFFFF"
definition INT_MAX :: int where "INT_MAX = 2 ^ 31 - 1"

definition busy_sum_checkpoints :: "int \<Rightarrow> int" where
  "busy_sum_checkpoints n =
     (if n \<le> BUSY_SUM_STRIDE then 1
      else let c = (n - 1) div BUSY_SUM_STRIDE + 1 in if c > INT_MAX then INT_MAX else c)"

definition add_masked :: "64 word \<Rightarrow> int \<Rightarrow> 64 word" where
  "add_masked acc i = (acc + word_of_int i) AND BUSY_SUM_MASK"

definition masked_sum_from :: "64 word \<Rightarrow> int \<Rightarrow> int \<Rightarrow> 64 word" where
  "masked_sum_from acc lo hi = foldl add_masked acc [lo..hi - 1]"

text \<open>
  \<open>stop k final\<close> is what the stop checkpoint answers before chunk \<open>k\<close>. The chunks are
  \<open>0 .. n_chk - 1\<close>; \<open>todo\<close> of them are left. \<open>None\<close>: a running cancel was honoured.
\<close>

fun checkpoint_loop :: "(int \<Rightarrow> bool \<Rightarrow> bool) \<Rightarrow> int \<Rightarrow> int \<Rightarrow> nat \<Rightarrow> 64 word \<Rightarrow> 64 word option" where
  "checkpoint_loop stop n n_chk 0 acc = Some acc"
| "checkpoint_loop stop n n_chk (Suc todo) acc =
     (let k = n_chk - int (Suc todo) in
      if 0 < k \<and> stop k (k = n_chk - 1) then None
      else checkpoint_loop stop n n_chk todo
             (masked_sum_from acc (k * BUSY_SUM_STRIDE) (min (k * BUSY_SUM_STRIDE + BUSY_SUM_STRIDE) n)))"

definition run_masked_checkpoint_loop :: "(int \<Rightarrow> bool \<Rightarrow> bool) \<Rightarrow> int \<Rightarrow> 64 word option" where
  "run_masked_checkpoint_loop stop n =
     (let n_chk = busy_sum_checkpoints n in checkpoint_loop stop n n_chk (nat n_chk) 0)"

definition masked_range_sum :: "int \<Rightarrow> int \<Rightarrow> 64 word" where
  "masked_range_sum lo hi = masked_sum_from 0 lo hi"

definition chain_stage :: "int \<Rightarrow> int \<Rightarrow> int" where
  "chain_stage x q = sint ((word_of_int x + masked_range_sum 0 q) AND BUSY_SUM_MASK)"

text \<open>\<open>seed + j\<close> in unsigned arithmetic, read back as a signed value.\<close>

definition offset_seed :: "int \<Rightarrow> int \<Rightarrow> int" where
  "offset_seed seed j = sint (word_of_int seed + word_of_int j :: 64 word)"

definition join_masked :: "int list \<Rightarrow> int" where
  "join_masked vs = sint (foldl add_masked 0 vs)"

subsection \<open>Operation bodies\<close>

definition PARK_MS_STRIDE :: int where "PARK_MS_STRIDE = 10"

definition park_ms_checkpoints :: "int \<Rightarrow> int" where
  "park_ms_checkpoints ms =
     (if ms \<le> PARK_MS_STRIDE then 1
      else let c = (ms - 1) div PARK_MS_STRIDE + 1 in if c > INT_MAX then INT_MAX else c)"

definition busy_sum :: "(int \<Rightarrow> bool \<Rightarrow> bool) \<Rightarrow> int \<Rightarrow> op_outcome" where
  "busy_sum stop n = (case run_masked_checkpoint_loop stop n of None \<Rightarrow> Cancelled_op
     | Some acc \<Rightarrow> Completed_with (OVInt (sint acc)))"

text \<open>The part lengths of \<open>fanout_sum\<close>: the first \<open>rem\<close> parts are one longer.\<close>

fun part_sums :: "int \<Rightarrow> int \<Rightarrow> int \<Rightarrow> int \<Rightarrow> nat \<Rightarrow> int list" where
  "part_sums base rem k lo 0 = []"
| "part_sums base rem k lo (Suc todo) =
     (let hi = lo + base + (if k < rem then 1 else 0) in
      uint (masked_range_sum lo hi) # part_sums base rem (k + 1) hi todo)"

definition fanout_sum :: "int \<Rightarrow> int \<Rightarrow> op_outcome" where
  "fanout_sum n parts =
     (if n < 0 \<or> parts < 1 \<or> parts > PARTS_MAX then Failed_op
      else Completed_with (OVInt (join_masked (part_sums (n div parts) (n mod parts) 0 0 (nat parts)))))"

text \<open>The sleeps, in milliseconds, of \<open>park_ms\<close>; \<open>None\<close>: stopped at a boundary.\<close>

fun park_loop :: "(int \<Rightarrow> bool \<Rightarrow> bool) \<Rightarrow> int \<Rightarrow> int \<Rightarrow> nat \<Rightarrow> int list option" where
  "park_loop stop n_chk remaining 0 = Some []"
| "park_loop stop n_chk remaining (Suc todo) =
     (let k = n_chk - int (Suc todo) in
      if 0 < k \<and> stop k (k = n_chk - 1) then None
      else let chunk = (if remaining < PARK_MS_STRIDE then remaining else PARK_MS_STRIDE) in
        (case park_loop stop n_chk (remaining - chunk) todo of None \<Rightarrow> None
         | Some cs \<Rightarrow> Some (if chunk > 0 then chunk # cs else cs)))"

definition park_ms :: "(int \<Rightarrow> bool \<Rightarrow> bool) \<Rightarrow> int \<Rightarrow> op_outcome" where
  "park_ms stop ms =
     (if ms < 0 \<or> ms > PARK_MS_MAX then Failed_op
      else (case park_loop stop (park_ms_checkpoints ms) ms (nat (park_ms_checkpoints ms)) of
          None \<Rightarrow> Cancelled_op | Some cs \<Rightarrow> Completed_with (OVInt ms)))"

definition chain_guard :: "int \<Rightarrow> int \<Rightarrow> bool" where
  "chain_guard steps quantum \<longleftrightarrow> steps < 0 \<or> steps > CHAIN_STEPS_MAX \<or> quantum < 0 \<or> quantum > CHAIN_QUANTUM_MAX"

fun iterate :: "('a \<Rightarrow> 'a) \<Rightarrow> nat \<Rightarrow> 'a \<Rightarrow> 'a" where
  "iterate f 0 x = x"
| "iterate f (Suc n) x = iterate f n (f x)"

definition chain_sum_loop :: "int \<Rightarrow> int \<Rightarrow> int \<Rightarrow> op_outcome" where
  "chain_sum_loop seed steps quantum =
     (if chain_guard steps quantum then Failed_op
      else Completed_with (OVInt (iterate (\<lambda>x. chain_stage x quantum) (nat steps) seed)))"

text \<open>The continuation chain: each \<open>then\<close> applies one stage to the future before it.\<close>

fun then_chain :: "(int \<Rightarrow> int) \<Rightarrow> nat \<Rightarrow> int \<Rightarrow> int" where
  "then_chain stage 0 seed = seed"
| "then_chain stage (Suc k) seed = stage (then_chain stage k seed)"

definition chain_sum_then :: "int \<Rightarrow> int \<Rightarrow> int \<Rightarrow> op_outcome" where
  "chain_sum_then seed steps quantum =
     (if chain_guard steps quantum then Failed_op
      else Completed_with (OVInt (then_chain (\<lambda>x. chain_stage x quantum) (nat steps) seed)))"

definition chain_fanout :: "int \<Rightarrow> int \<Rightarrow> int \<Rightarrow> int \<Rightarrow> op_outcome" where
  "chain_fanout seed count steps quantum =
     (if count < 1 \<or> count > CHAIN_FANOUT_K_MAX \<or> chain_guard steps quantum then Failed_op
      else Completed_with (OVInt (join_masked
        (map (\<lambda>j. iterate (\<lambda>x. chain_stage x quantum) (nat steps) (offset_seed seed j)) [0..count - 1]))))"

definition barrier_fanin :: "int \<Rightarrow> int \<Rightarrow> int \<Rightarrow> op_outcome" where
  "barrier_fanin seed leaves quantum =
     (if leaves < 1 \<or> leaves > FANIN_LEAVES_MAX \<or> quantum < 0 \<or> quantum > CHAIN_QUANTUM_MAX then Failed_op
      else Completed_with (OVInt (join_masked
        (map (\<lambda>j. chain_stage (offset_seed seed j) quantum) [0..leaves - 1]))))"

definition diamond_fanin :: "int \<Rightarrow> int \<Rightarrow> op_outcome" where
  "diamond_fanin seed quantum =
     (if quantum < 0 \<or> quantum > CHAIN_QUANTUM_MAX then Failed_op
      else
        let a = chain_stage seed quantum; b = chain_stage (a + 1) quantum; c = chain_stage (a + 2) quantum;
            joined = (word_of_int b + word_of_int c) AND BUSY_SUM_MASK
        in Completed_with (OVInt (chain_stage (sint joined) quantum)))"

text \<open>One arm of \<open>overlap_probe\<close>: the flat kernel (mode 0) or the chunked one (mode 1).\<close>

definition overlap_arm :: "int \<Rightarrow> int \<Rightarrow> int \<Rightarrow> int" where
  "overlap_arm mode quantum x =
     (if mode = 0 then chain_stage x quantum
      else let n_chk = busy_sum_checkpoints quantum;
               acc = (case checkpoint_loop (\<lambda>k final. False) quantum n_chk (nat n_chk) 0 of
                        Some acc \<Rightarrow> acc | None \<Rightarrow> 0)
           in sint ((word_of_int x + acc) AND BUSY_SUM_MASK))"

definition overlap_probe :: "int \<Rightarrow> int \<Rightarrow> int \<Rightarrow> op_outcome" where
  "overlap_probe seed quantum mode =
     (if quantum < 0 \<or> quantum > CHAIN_QUANTUM_MAX \<or> (mode \<noteq> 0 \<and> mode \<noteq> 1) then Failed_op
      else Completed_with (OVInt (sint ((word_of_int (overlap_arm mode quantum seed)
        + word_of_int (overlap_arm mode quantum (offset_seed seed 1))) AND BUSY_SUM_MASK))))"

subsection \<open>The registry\<close>

text \<open>Typed access: an argument of the wrong tag is thrown on, which the lane maps to a failed row.\<close>

fun with_ints :: "op_value list \<Rightarrow> nat \<Rightarrow> nat \<Rightarrow> int list option" where
  "with_ints a i 0 = Some []"
| "with_ints a i (Suc n) = (case as_int64 a i of None \<Rightarrow> None | Some x \<Rightarrow>
     (case with_ints a (Suc i) n of None \<Rightarrow> None | Some xs \<Rightarrow> Some (x # xs)))"

definition on_ints :: "nat \<Rightarrow> (int list \<Rightarrow> op_outcome) \<Rightarrow> op_value list \<Rightarrow> op_outcome" where
  "on_ints n f a = (case with_ints a 0 n of None \<Rightarrow> Failed_op | Some xs \<Rightarrow> f xs)"

definition run_op :: "(int \<Rightarrow> bool \<Rightarrow> bool) \<Rightarrow> string \<Rightarrow> op_value list \<Rightarrow> op_outcome" where
  "run_op stop op a =
     (if op = ''square'' then on_ints 1 (\<lambda>xs. signed_result (xs ! 0 * xs ! 0)) a
      else if op = ''add'' then on_ints 2 (\<lambda>xs. signed_result (xs ! 0 + xs ! 1)) a
      else if op = ''boom'' then Failed_op
      else if op = ''busy_sum'' then on_ints 1 (\<lambda>xs. busy_sum stop (xs ! 0)) a
      else if op = ''scale_double'' then (case (as_double a 0, as_double a 1) of
          (Some x, Some factor) \<Rightarrow> Completed_with (OVDouble (fmul x factor)) | _ \<Rightarrow> Failed_op)
      else if op = ''chain_sum_loop'' then on_ints 3 (\<lambda>xs. chain_sum_loop (xs ! 0) (xs ! 1) (xs ! 2)) a
      else if op = ''fanout_sum'' then on_ints 2 (\<lambda>xs. fanout_sum (xs ! 0) (xs ! 1)) a
      else if op = ''park_ms'' then on_ints 1 (\<lambda>xs. park_ms stop (xs ! 0)) a
      else if op = ''chain_sum_then'' then on_ints 3 (\<lambda>xs. chain_sum_then (xs ! 0) (xs ! 1) (xs ! 2)) a
      else if op = ''chain_fanout'' then on_ints 4 (\<lambda>xs. chain_fanout (xs ! 0) (xs ! 1) (xs ! 2) (xs ! 3)) a
      else if op = ''barrier_fanin'' then on_ints 3 (\<lambda>xs. barrier_fanin (xs ! 0) (xs ! 1) (xs ! 2)) a
      else if op = ''diamond_fanin'' then on_ints 2 (\<lambda>xs. diamond_fanin (xs ! 0) (xs ! 1)) a
      else if op = ''overlap_probe'' then on_ints 3 (\<lambda>xs. overlap_probe (xs ! 0) (xs ! 1) (xs ! 2)) a
      else Failed_op)"

definition registry :: op_table where
  "registry = [(''square'', [''int64'']), (''add'', [''int64'', ''int64'']), (''boom'', []),
     (''busy_sum'', [''int64'']), (''scale_double'', [''double'', ''double'']),
     (''chain_sum_loop'', [''int64'', ''int64'', ''int64'']),
     (''fanout_sum'', [''int64'', ''int64'']), (''park_ms'', [''int64'']),
     (''chain_sum_then'', [''int64'', ''int64'', ''int64'']),
     (''chain_fanout'', [''int64'', ''int64'', ''int64'', ''int64'']),
     (''barrier_fanin'', [''int64'', ''int64'', ''int64'']),
     (''diamond_fanin'', [''int64'', ''int64'']),
     (''overlap_probe'', [''int64'', ''int64'', ''int64''])]"

text \<open>Checkpoints of a call: how many chunk boundaries it can be stopped at, plus one.\<close>

definition checkpoint_count :: "string \<Rightarrow> op_value list \<Rightarrow> int" where
  "checkpoint_count op a =
     (if op = ''busy_sum'' then (case as_int64 a 0 of Some n \<Rightarrow> busy_sum_checkpoints n | None \<Rightarrow> 1)
      else if op = ''park_ms'' then (case as_int64 a 0 of Some n \<Rightarrow> park_ms_checkpoints n | None \<Rightarrow> 1)
      else 1)"

text \<open>The marshaller's image of a validated argument.\<close>

fun marshal :: "pyval \<Rightarrow> op_value" where
  "marshal (VFloat f) = OVDouble f"
| "marshal v = OVInt (the_int v)"

subsection \<open>The counter actor\<close>

definition counter_method :: "(int \<Rightarrow> bool \<Rightarrow> bool) \<Rightarrow> string \<Rightarrow> op_value list \<Rightarrow> int \<Rightarrow> int \<times> op_outcome" where
  "counter_method stop mth a v =
     (if mth = ''add'' then (case as_int64 a 0 of None \<Rightarrow> (v, Failed_op)
        | Some x \<Rightarrow> if int64_ok (v + x) then (v + x, Completed_with (OVInt (v + x)))
            else (unspecified_int64 [v, x], Undefined))
      else if mth = ''get'' then (v, Completed_with (OVInt v))
      else if mth = ''reset'' then (case as_int64 a 0 of None \<Rightarrow> (v, Failed_op)
        | Some x \<Rightarrow> (x, Completed_with (OVInt x)))
      else if mth = ''busy_get'' then (case as_int64 a 0 of None \<Rightarrow> (v, Failed_op)
        | Some n \<Rightarrow> (v, (case run_masked_checkpoint_loop stop n of None \<Rightarrow> Cancelled_op
                        | Some acc \<Rightarrow> Completed_with (OVInt v))))
      else (v, Failed_op))"

definition actor_registry :: actor_table where
  "actor_registry = [(''counter'', [''int64''],
     [(''add'', [''int64'']), (''get'', []), (''reset'', [''int64'']), (''busy_get'', [''int64''])])]"

end
