(* ===== verification/RuntimeOpsProps.thy ===== *)
theory RuntimeOpsProps
  imports RuntimeOps
begin

text \<open>
  What the registered operations compute: closed forms modulo \<open>2^31\<close>, independent of chunking,
  splitting and fan-out; and what the Python boundary's validation guarantees to them.
\<close>

definition tri :: "int \<Rightarrow> int" where
  "tri n = n * (n - 1) div 2"

subsection \<open>Masked sums\<close>

lemma even_tri: "even (n * (n - 1 :: int))"
  by simp

lemma tri_Suc: "tri (n + 1) = tri n + n"
proof -
  have "(n + 1) * n = n * (n - 1) + n * 2" by (simp add: algebra_simps)
  then show ?thesis by (simp add: tri_def)
qed

lemma tri_0 [simp]: "tri 0 = 0"
  by (simp add: tri_def)

lemma mask_mod: "uint (w AND BUSY_SUM_MASK) = uint w mod 2 ^ 31"
proof -
  have "BUSY_SUM_MASK = mask 31" by (simp add: BUSY_SUM_MASK_def mask_eq_exp_minus_1)
  then have "w AND BUSY_SUM_MASK = take_bit 31 w" by (simp only: take_bit_eq_mask)
  then show ?thesis by (simp only: unsigned_take_bit_eq) (simp only: take_bit_eq_mod)
qed

lemma uint_of_int_mod: "uint (word_of_int i :: 64 word) = i mod 2 ^ 64"
  by (simp add: unsigned_of_int take_bit_eq_mod)

lemma mod_64_31 [simp]: "(a mod 2 ^ 64) mod 2 ^ 31 = a mod (2 ^ 31 :: int)"
  by (rule mod_mod_cancel) (rule le_imp_power_dvd, simp)

lemma uint_plus_mod: "uint (a + b :: 64 word) = (uint a + uint b) mod 2 ^ 64"
  by (simp add: uint_word_ariths)

lemma masked_value: "uint ((word_of_int a + word_of_int b) AND BUSY_SUM_MASK) = (a + b) mod 2 ^ 31"
proof -
  have "uint (word_of_int a + word_of_int b :: 64 word) = (a + b) mod 2 ^ 64"
    by (simp add: uint_plus_mod uint_of_int_mod mod_simps)
  then show ?thesis by (simp only: mask_mod mod_64_31)
qed

lemma add_masked_uint: "uint (add_masked acc i) = (uint acc + i) mod 2 ^ 31"
  using masked_value [of "uint acc" i] by (simp add: add_masked_def)

lemma foldl_masked: "uint (foldl add_masked acc xs) mod 2 ^ 31 = (uint acc + sum_list xs) mod 2 ^ 31"
proof (induction xs arbitrary: acc)
  case Nil
  then show ?case by simp
next
  case (Cons x xs)
  have "(((uint acc + x) mod 2 ^ 31) + sum_list xs) mod 2 ^ 31 = (uint acc + (x + sum_list xs)) mod (2 ^ 31 :: int)"
    by (simp add: mod_simps algebra_simps)
  then show ?case using Cons by (simp add: add_masked_uint)
qed

lemma foldl_masked_bound: "uint acc < 2 ^ 31 \<Longrightarrow> uint (foldl add_masked acc xs) < 2 ^ 31"
  by (induction xs arbitrary: acc) (simp_all add: add_masked_uint)

lemma foldl_masked_eq:
  assumes "uint acc < 2 ^ 31"
  shows "uint (foldl add_masked acc xs) = (uint acc + sum_list xs) mod 2 ^ 31"
  using foldl_masked [of acc xs] foldl_masked_bound [OF assms, of xs] by (simp add: mod_pos_pos_trivial)

lemma sint_masked: "uint (w :: 64 word) < 2 ^ 31 \<Longrightarrow> sint w = uint w"
proof -
  assume "uint w < 2 ^ 31"
  then have "signed_take_bit 63 (uint w) = uint w"
    by (intro signed_take_bit_int_eq_self) (auto intro: order_trans [OF _ unsigned_greater_eq])
  then show ?thesis by (simp add: sint_uint)
qed

lemma sum_upto: "lo \<le> hi \<Longrightarrow> sum_list [lo..hi - 1] = tri hi - tri lo"
proof (induction "nat (hi - lo)" arbitrary: hi)
  case 0
  then show ?case by simp
next
  case (Suc k)
  then have lt: "lo \<le> hi - 1" and k: "k = nat (hi - 1 - lo)" by auto
  have "[lo..hi - 1] = [lo..hi - 1 - 1] @ [hi - 1]"
    using lt upto_rec2 [of lo "hi - 1"] by simp
  then have "sum_list [lo..hi - 1] = sum_list [lo..hi - 1 - 1] + (hi - 1)" by simp
  also have "\<dots> = tri hi - tri lo"
    using Suc.hyps(1) [OF k lt] tri_Suc [of "hi - 1"] by simp
  finally show ?case .
qed

lemma masked_sum_eq:
  assumes "lo \<le> hi" "uint acc < 2 ^ 31"
  shows "uint (masked_sum_from acc lo hi) = (uint acc + (tri hi - tri lo)) mod 2 ^ 31"
  using assms by (simp add: masked_sum_from_def foldl_masked_eq sum_upto)

lemma masked_range_eq: "lo \<le> hi \<Longrightarrow> uint (masked_range_sum lo hi) = (tri hi - tri lo) mod 2 ^ 31"
  by (simp add: masked_range_sum_def masked_sum_eq)

subsection \<open>The checkpoint loop\<close>

definition no_stop :: "int \<Rightarrow> bool \<Rightarrow> bool" where
  "no_stop k final = False"

text \<open>How far \<open>n_chk\<close> chunks reach, and what is summed after the first \<open>k\<close> of them.\<close>

lemma checkpoint_loop_sum:
  assumes "0 \<le> n" "int todo \<le> n_chk" "(n_chk - 1) * BUSY_SUM_STRIDE \<le> n"
    and "uint acc = tri (min ((n_chk - int todo) * BUSY_SUM_STRIDE) n) mod 2 ^ 31"
  shows "\<exists>acc'. checkpoint_loop no_stop n n_chk todo acc = Some acc'
     \<and> uint acc' = tri (min (n_chk * BUSY_SUM_STRIDE) n) mod 2 ^ 31"
  using assms
proof (induction todo arbitrary: acc)
  case 0
  then show ?case by simp
next
  case (Suc todo)
  define k where "k = n_chk - int (Suc todo)"
  have k: "0 \<le> k" "k \<le> n_chk - 1" using Suc.prems(2) by (auto simp: k_def)
  then have lo: "k * BUSY_SUM_STRIDE \<le> n"
    using Suc.prems(3) mult_right_mono [of k "n_chk - 1" BUSY_SUM_STRIDE] by (simp add: BUSY_SUM_STRIDE_def)
  let ?hi = "min (k * BUSY_SUM_STRIDE + BUSY_SUM_STRIDE) n"
  have hi: "k * BUSY_SUM_STRIDE \<le> ?hi" using lo by (simp add: BUSY_SUM_STRIDE_def)
  have acc: "uint acc = tri (k * BUSY_SUM_STRIDE) mod 2 ^ 31" using Suc.prems(4) lo by (simp add: k_def)
  then have "uint acc < 2 ^ 31" by simp
  then have "uint (masked_sum_from acc (k * BUSY_SUM_STRIDE) ?hi)
      = (tri (k * BUSY_SUM_STRIDE) mod 2 ^ 31 + (tri ?hi - tri (k * BUSY_SUM_STRIDE))) mod 2 ^ 31"
    using masked_sum_eq [OF hi] acc by simp
  also have "\<dots> = tri ?hi mod 2 ^ 31" by (simp add: mod_simps)
  finally have acc0: "uint (masked_sum_from acc (k * BUSY_SUM_STRIDE) ?hi) = tri ?hi mod 2 ^ 31" .
  have hi2: "?hi = min ((n_chk - int todo) * BUSY_SUM_STRIDE) n"
    by (simp add: k_def algebra_simps)
  have acc': "uint (masked_sum_from acc (k * BUSY_SUM_STRIDE) ?hi)
      = tri (min ((n_chk - int todo) * BUSY_SUM_STRIDE) n) mod 2 ^ 31"
    using acc0 by (simp only: hi2)
  have "checkpoint_loop no_stop n n_chk (Suc todo) acc
      = checkpoint_loop no_stop n n_chk todo (masked_sum_from acc (k * BUSY_SUM_STRIDE) ?hi)"
    by (simp add: k_def Let_def no_stop_def)
  then show ?case using Suc.IH [OF _ _ _ acc'] Suc.prems(1-3) by simp
qed

lemma checkpoints_reach:
  assumes "0 \<le> n"
  shows "(busy_sum_checkpoints n - 1) * BUSY_SUM_STRIDE \<le> n" "1 \<le> busy_sum_checkpoints n"
    "min (busy_sum_checkpoints n * BUSY_SUM_STRIDE) n = min (INT_MAX * BUSY_SUM_STRIDE) n"
proof -
  let ?c = "(n - 1) div 8192 + 1"
  have "n - 1 = (n - 1) div 8192 * 8192 + (n - 1) mod 8192" by simp
  moreover have "0 \<le> (n - 1) mod 8192" "(n - 1) mod 8192 < 8192" by simp_all
  ultimately have c: "(?c - 1) * 8192 \<le> n - 1" "n \<le> ?c * 8192" by simp_all
  show "1 \<le> busy_sum_checkpoints n"
    using assms by (auto simp: busy_sum_checkpoints_def BUSY_SUM_STRIDE_def Let_def INT_MAX_def)
  show "(busy_sum_checkpoints n - 1) * BUSY_SUM_STRIDE \<le> n"
    using c assms by (auto simp: busy_sum_checkpoints_def BUSY_SUM_STRIDE_def Let_def INT_MAX_def)
  show "min (busy_sum_checkpoints n * BUSY_SUM_STRIDE) n = min (INT_MAX * BUSY_SUM_STRIDE) n"
    using c assms by (auto simp: busy_sum_checkpoints_def BUSY_SUM_STRIDE_def Let_def INT_MAX_def)
qed

lemma run_masked_sum:
  assumes "0 \<le> n"
  shows "\<exists>acc. run_masked_checkpoint_loop no_stop n = Some acc
     \<and> uint acc = tri (min (INT_MAX * BUSY_SUM_STRIDE) n) mod 2 ^ 31"
proof -
  let ?c = "busy_sum_checkpoints n"
  note r = checkpoints_reach [OF assms]
  have "\<exists>acc. checkpoint_loop no_stop n ?c (nat ?c) 0 = Some acc \<and> uint acc = tri (min (?c * BUSY_SUM_STRIDE) n) mod 2 ^ 31"
    by (rule checkpoint_loop_sum) (use assms r in \<open>simp_all add: BUSY_SUM_STRIDE_def\<close>)
  then show ?thesis by (simp add: run_masked_checkpoint_loop_def Let_def r(3))
qed

lemma busy_sum_value:
  assumes "0 \<le> n"
  shows "busy_sum no_stop n = Completed_with (OVInt (tri (min (INT_MAX * BUSY_SUM_STRIDE) n) mod 2 ^ 31))"
proof -
  obtain acc where "run_masked_checkpoint_loop no_stop n = Some acc"
      "uint acc = tri (min (INT_MAX * BUSY_SUM_STRIDE) n) mod 2 ^ 31"
    using run_masked_sum [OF assms] by blast
  then show ?thesis by (simp add: busy_sum_def sint_masked)
qed

text \<open>
  \<open>busy_sum(n)\<close> is the documented \<open>n (n - 1) / 2 mod 2^31\<close>, whatever the chunking, for every
  \<open>n\<close> up to \<open>INT_MAX\<close> chunks of 8192 steps.
\<close>

theorem busy_sum_closed_form:
  assumes "0 \<le> n" and "n \<le> INT_MAX * BUSY_SUM_STRIDE"
  shows "busy_sum no_stop n = Completed_with (OVInt ((n * (n - 1) div 2) mod 2 ^ 31))"
  using busy_sum_value [OF assms(1)] assms(2) by (simp add: tri_def)

lemma busy_sum_closed_form_witness: "busy_sum no_stop 100000 = Completed_with (OVInt (4999950000 mod 2 ^ 31))"
  using busy_sum_closed_form [of 100000] by (simp add: INT_MAX_def BUSY_SUM_STRIDE_def)

text \<open>
  Beyond that bound the clamp on the checkpoint count truncates the work: every larger \<open>n\<close>
  passes validation, but the call sums only the first \<open>INT_MAX\<close> chunks and completes with their sum,
  which is not the documented value.
\<close>

theorem busy_sum_truncates:
  assumes "INT_MAX * BUSY_SUM_STRIDE < n" and "n \<le> INT64_MAX"
  shows "validate_call (VStr ''busy_sum'') [VInt n] registry = Inr [VInt n]
    \<and> busy_sum no_stop n = busy_sum no_stop (INT_MAX * BUSY_SUM_STRIDE)
    \<and> busy_sum no_stop (INT_MAX * BUSY_SUM_STRIDE + 2)
        \<noteq> Completed_with (OVInt (((INT_MAX * BUSY_SUM_STRIDE + 2) * (INT_MAX * BUSY_SUM_STRIDE + 1) div 2) mod 2 ^ 31))"
proof -
  have "validate_call (VStr ''busy_sum'') [VInt n] registry = Inr [VInt n]"
    using assms by (simp add: validate_call_def registry_def validate_typed_args_def validate_one_def
        type_validator_def validate_int64_def check_domain_def domain_reads_def domain_bad_def
        bound_defs INT_MAX_def BUSY_SUM_STRIDE_def)
  moreover have "busy_sum no_stop n = busy_sum no_stop (INT_MAX * BUSY_SUM_STRIDE)"
    using busy_sum_value [of n] busy_sum_value [of "INT_MAX * BUSY_SUM_STRIDE"] assms(1)
    by (simp add: INT_MAX_def BUSY_SUM_STRIDE_def)
  moreover have "busy_sum no_stop (INT_MAX * BUSY_SUM_STRIDE + 2)
        \<noteq> Completed_with (OVInt (((INT_MAX * BUSY_SUM_STRIDE + 2) * (INT_MAX * BUSY_SUM_STRIDE + 1) div 2) mod 2 ^ 31))"
    using busy_sum_value [of "INT_MAX * BUSY_SUM_STRIDE + 2"]
    by (simp add: INT_MAX_def BUSY_SUM_STRIDE_def tri_def)
  ultimately show ?thesis by blast
qed

lemma busy_sum_truncates_witness:
  "busy_sum no_stop (2 ^ 60) = busy_sum no_stop (INT_MAX * BUSY_SUM_STRIDE)"
  using busy_sum_truncates [of "2 ^ 60"] by (simp add: INT_MAX_def BUSY_SUM_STRIDE_def INT64_MAX_def)

subsection \<open>Splitting and chaining\<close>

lemma join_masked_eq: "join_masked vs = sum_list vs mod 2 ^ 31"
  using foldl_masked_eq [of 0 vs] foldl_masked_bound [of 0 vs] by (simp add: join_masked_def sint_masked)

lemma part_sums_total:
  assumes "0 \<le> base" "0 \<le> rem" "0 \<le> k" "lo = k * base + min k rem"
  shows "sum_list (part_sums base rem k lo todo) mod 2 ^ 31
     = (tri ((k + int todo) * base + min (k + int todo) rem) - tri lo) mod 2 ^ 31"
  using assms
proof (induction todo arbitrary: k lo)
  case 0
  then show ?case by simp
next
  case (Suc todo)
  let ?hi = "lo + base + (if k < rem then 1 else 0)"
  have hi: "?hi = (k + 1) * base + min (k + 1) rem" using Suc.prems by (auto simp: algebra_simps)
  have IH: "sum_list (part_sums base rem (k + 1) ?hi todo) mod 2 ^ 31
     = (tri ((k + 1 + int todo) * base + min (k + 1 + int todo) rem) - tri ?hi) mod 2 ^ 31"
    by (rule Suc.IH) (use Suc.prems hi in auto)
  have "sum_list (part_sums base rem k lo (Suc todo)) mod 2 ^ 31
      = ((tri ?hi - tri lo) mod 2 ^ 31 + sum_list (part_sums base rem (k + 1) ?hi todo) mod 2 ^ 31) mod 2 ^ 31"
    using Suc.prems(1) by (simp add: Let_def masked_range_eq mod_simps)
  also have "\<dots> = (tri ((k + 1 + int todo) * base + min (k + 1 + int todo) rem) - tri lo) mod 2 ^ 31"
    unfolding IH by (simp add: mod_simps)
  finally show ?case by (simp add: algebra_simps)
qed

lemma fanout_value:
  assumes "0 \<le> n" "1 \<le> parts" "parts \<le> PARTS_MAX"
  shows "fanout_sum n parts = Completed_with (OVInt (tri n mod 2 ^ 31))"
proof -
  have "n = parts * (n div parts) + n mod parts" by simp
  moreover have "0 \<le> n div parts" "0 \<le> n mod parts" "n mod parts < parts"
    using assms by (simp_all add: pos_imp_zdiv_nonneg_iff)
  ultimately have "sum_list (part_sums (n div parts) (n mod parts) 0 0 (nat parts)) mod 2 ^ 31 = tri n mod 2 ^ 31"
    using part_sums_total [of "n div parts" "n mod parts" 0 0 "nat parts"] assms
    by (simp add: min_absorb2)
  then show ?thesis using assms by (simp add: fanout_sum_def join_masked_eq)
qed

lemma chain_stage_eq: "0 \<le> q \<Longrightarrow> chain_stage x q = (x + tri q) mod 2 ^ 31"
proof -
  assume q: "0 \<le> q"
  have "(word_of_int x + masked_range_sum 0 q) = word_of_int x + word_of_int (uint (masked_range_sum 0 q))" by simp
  then have u: "uint ((word_of_int x + masked_range_sum 0 q) AND BUSY_SUM_MASK)
      = (x + tri q mod 2 ^ 31) mod 2 ^ 31"
    using masked_value [of x "uint (masked_range_sum 0 q)"] masked_range_eq [OF q] by simp
  then show ?thesis by (simp add: chain_stage_def sint_masked mod_simps)
qed

lemma iterate_stage:
  "0 \<le> q \<Longrightarrow> iterate (\<lambda>x. chain_stage x q) n x mod 2 ^ 31 = (x + int n * tri q) mod 2 ^ 31"
proof (induction n arbitrary: x)
  case 0
  then show ?case by simp
next
  case (Suc n)
  then have "iterate (\<lambda>x. chain_stage x q) (Suc n) x mod 2 ^ 31 = ((x + tri q) mod 2 ^ 31 + int n * tri q) mod 2 ^ 31"
    by (simp add: chain_stage_eq)
  then show ?case by (simp add: mod_simps algebra_simps)
qed

lemma iterate_Suc_end: "iterate f (Suc n) x = f (iterate f n x)"
  by (induction n arbitrary: x) simp_all

lemma then_chain_iterate: "then_chain f n x = iterate f n x"
  by (induction n) (simp_all only: then_chain.simps iterate_Suc_end iterate.simps(1))

lemma iterate_stage_bound: "0 \<le> q \<Longrightarrow> 0 < n \<Longrightarrow> iterate (\<lambda>x. chain_stage x q) n x mod 2 ^ 31 = iterate (\<lambda>x. chain_stage x q) n x"
proof -
  assume q: "0 \<le> q" and n: "0 < n"
  then obtain k where "n = Suc k" by (cases n) auto
  then show ?thesis using q by (simp only: iterate_Suc_end chain_stage_eq) simp
qed

lemma offset_seed_mod: "offset_seed seed j mod 2 ^ 31 = (seed + j) mod 2 ^ 31"
proof -
  have "sint (w :: 64 word) mod 2 ^ 31 = uint w mod 2 ^ 31" for w
  proof -
    have "sint w mod 2 ^ 64 = uint w"
      using uint_sint [of w] by (simp add: take_bit_eq_mod)
    then show ?thesis by (metis mod_64_31)
  qed
  then have "offset_seed seed j mod 2 ^ 31 = uint (word_of_int seed + word_of_int j :: 64 word) mod 2 ^ 31"
    by (simp add: offset_seed_def)
  also have "\<dots> = (seed + j) mod 2 ^ 31"
    by (simp add: uint_plus_mod uint_of_int_mod mod_simps mod_mod_cancel)
  finally show ?thesis .
qed

lemma sum_list_mod_map:
  "(\<And>x. x \<in> set xs \<Longrightarrow> f x mod m = g x mod (m :: int)) \<Longrightarrow> sum_list (map f xs) mod m = sum_list (map g xs) mod m"
proof (induction xs)
  case Nil
  then show ?case by simp
next
  case (Cons x xs)
  then have "f x mod m = g x mod m" "sum_list (map f xs) mod m = sum_list (map g xs) mod m" by auto
  from mod_add_cong [OF this] show ?case by simp
qed

lemma sum_list_shift: "sum_list (map (\<lambda>j. a + j) xs) = int (length xs) * a + sum_list (xs :: int list)"
  by (induction xs) (simp_all add: algebra_simps)

lemma fanout_seeds:
  assumes "0 \<le> q" "1 \<le> count"
  shows "join_masked (map (\<lambda>j. iterate (\<lambda>x. chain_stage x q) steps (offset_seed seed j)) [0..count - 1])
     = (count * (seed + int steps * tri q) + tri count) mod 2 ^ 31"
proof -
  have one: "iterate (\<lambda>x. chain_stage x q) steps (offset_seed seed j) mod 2 ^ 31
      = (seed + int steps * tri q + j) mod 2 ^ 31" for j
  proof -
    have "iterate (\<lambda>x. chain_stage x q) steps (offset_seed seed j) mod 2 ^ 31
        = (offset_seed seed j mod 2 ^ 31 + int steps * tri q) mod 2 ^ 31"
      using iterate_stage [OF assms(1)] by (simp add: mod_simps)
    then show ?thesis by (simp only: offset_seed_mod) (simp add: mod_simps algebra_simps)
  qed
  have "sum_list (map (\<lambda>j. iterate (\<lambda>x. chain_stage x q) steps (offset_seed seed j)) [0..count - 1]) mod 2 ^ 31
      = sum_list (map (\<lambda>j. seed + int steps * tri q + j) [0..count - 1]) mod 2 ^ 31"
    by (rule sum_list_mod_map) (rule one)
  also have "sum_list (map (\<lambda>j. seed + int steps * tri q + j) [0..count - 1])
      = count * (seed + int steps * tri q) + tri count"
    using assms(2) sum_upto [of 0 count] by (simp add: sum_list_shift)
  finally show ?thesis by (simp only: join_masked_eq)
qed

text \<open>
  \<open>fanout_sum(n, parts)\<close> does not depend on how the range is split: for every accepted number of
  parts it is \<open>n (n - 1) / 2 mod 2^31\<close>.
\<close>

theorem fanout_split_free:
  assumes "0 \<le> n" and "1 \<le> parts" and "parts \<le> PARTS_MAX"
  shows "fanout_sum n parts = Completed_with (OVInt ((n * (n - 1) div 2) mod 2 ^ 31))"
  using fanout_value [OF assms] by (simp add: tri_def)

lemma fanout_split_free_witness: "fanout_sum 100 7 = fanout_sum 100 1"
  using fanout_split_free [of 100 7] fanout_split_free [of 100 1] by (simp add: PARTS_MAX_def)

lemma chain_guard_iff: "chain_guard steps q \<longleftrightarrow> \<not> (0 \<le> steps \<and> steps \<le> CHAIN_STEPS_MAX \<and> 0 \<le> q \<and> q \<le> CHAIN_QUANTUM_MAX)"
  by (auto simp: chain_guard_def)

text \<open>
  C12. The chain operations do equal work: the continuation chain \<open>chain_sum_then\<close>, the native loop
  \<open>chain_sum_loop\<close>, and a fold of one-stage calls give the same result on every accepted input, namely
  \<open>seed + steps q (q - 1) / 2 mod 2^31\<close> (the seed itself when there is no step).
\<close>

theorem chain_ops_agree:
  assumes "0 \<le> steps" and "steps \<le> CHAIN_STEPS_MAX" and "0 \<le> q" and "q \<le> CHAIN_QUANTUM_MAX"
  shows "chain_sum_then seed steps q = chain_sum_loop seed steps q
    \<and> chain_sum_loop seed steps q = Completed_with (OVInt
        (if steps = 0 then seed else (seed + steps * (q * (q - 1) div 2)) mod 2 ^ 31))
    \<and> (0 < steps \<longrightarrow> (\<exists>y. chain_sum_loop seed (steps - 1) q = Completed_with (OVInt y)
          \<and> chain_sum_loop seed steps q = chain_sum_loop y 1 q))"
proof -
  have "chain_sum_then seed steps q = chain_sum_loop seed steps q"
    by (simp add: chain_sum_then_def chain_sum_loop_def then_chain_iterate)
  moreover have "chain_sum_loop seed steps q = Completed_with (OVInt
        (if steps = 0 then seed else (seed + steps * (q * (q - 1) div 2)) mod 2 ^ 31))"
    using assms iterate_stage [OF assms(3), of "nat steps" seed] iterate_stage_bound [OF assms(3), of "nat steps" seed]
    by (simp add: chain_sum_loop_def chain_guard_iff tri_def)
  moreover have "\<exists>y. chain_sum_loop seed (steps - 1) q = Completed_with (OVInt y)
          \<and> chain_sum_loop seed steps q = chain_sum_loop y 1 q" if "0 < steps"
  proof -
    have "nat steps = Suc (nat (steps - 1))" using that by simp
    then have "iterate (\<lambda>x. chain_stage x q) (nat steps) seed
        = chain_stage (iterate (\<lambda>x. chain_stage x q) (nat (steps - 1)) seed) q"
      by (simp only: iterate_Suc_end)
    then show ?thesis
      using assms that by (simp add: chain_sum_loop_def chain_guard_iff CHAIN_STEPS_MAX_def)
  qed
  ultimately show ?thesis by blast
qed

lemma chain_ops_agree_witness: "chain_sum_then 5 3 10 = Completed_with (OVInt 140)"
  using chain_ops_agree [of 3 10 5] by (simp add: CHAIN_STEPS_MAX_def CHAIN_QUANTUM_MAX_def)

lemma fanout_form:
  assumes "1 \<le> count" "count \<le> CHAIN_FANOUT_K_MAX" "\<not> chain_guard steps q"
  shows "chain_fanout seed count steps q
     = Completed_with (OVInt ((count * (seed + steps * tri q) + tri count) mod 2 ^ 31))"
  using assms fanout_seeds [of q count "nat steps" seed] by (simp add: chain_fanout_def chain_guard_iff)

lemma stage_value: "0 \<le> q \<Longrightarrow> 0 \<le> chain_stage x q \<and> chain_stage x q < 2 ^ 31"
  by (simp add: chain_stage_eq)

lemma overlap_arm_eq:
  assumes "0 \<le> q" "q \<le> CHAIN_QUANTUM_MAX" "mode = 0 \<or> mode = 1"
  shows "overlap_arm mode q x = (x + tri q) mod 2 ^ 31"
proof (cases "mode = 0")
  case True
  then show ?thesis using assms(1) by (simp add: overlap_arm_def chain_stage_eq)
next
  case False
  obtain acc where acc: "run_masked_checkpoint_loop no_stop q = Some acc" "uint acc = tri q mod 2 ^ 31"
    using run_masked_sum [OF assms(1)] assms(2)
    by (auto simp: INT_MAX_def BUSY_SUM_STRIDE_def CHAIN_QUANTUM_MAX_def min_absorb2)
  have "no_stop = (\<lambda>k final. False)" by (intro ext) (simp add: no_stop_def)
  then have "overlap_arm mode q x = sint ((word_of_int x + acc) AND BUSY_SUM_MASK)"
    using False acc(1) by (simp add: overlap_arm_def run_masked_checkpoint_loop_def Let_def)
  moreover have "uint ((word_of_int x + acc) AND BUSY_SUM_MASK) = (x + uint acc) mod 2 ^ 31"
    using masked_value [of x "uint acc"] by simp
  ultimately show ?thesis by (simp add: sint_masked acc(2) mod_simps)
qed

text \<open>
  The fan-in operations are deterministic: whatever order their tasks finish in, \<open>chain_fanout\<close>,
  \<open>barrier_fanin\<close> (which is \<open>chain_fanout\<close> with one step), \<open>diamond_fanin\<close> and \<open>overlap_probe\<close> (in
  either mode) complete with one value, a fixed polynomial of the arguments modulo \<open>2^31\<close>.
\<close>

theorem fan_in_values:
  assumes "1 \<le> leaves" and "leaves \<le> FANIN_LEAVES_MAX" and "0 \<le> q" and "q \<le> CHAIN_QUANTUM_MAX"
    and "0 \<le> steps" and "steps \<le> CHAIN_STEPS_MAX" and "mode = 0 \<or> mode = 1"
  shows "chain_fanout seed leaves steps q = Completed_with (OVInt
           ((leaves * (seed + steps * (q * (q - 1) div 2)) + leaves * (leaves - 1) div 2) mod 2 ^ 31))
    \<and> barrier_fanin seed leaves q = chain_fanout seed leaves 1 q
    \<and> diamond_fanin seed q = Completed_with (OVInt ((2 * seed + 5 * (q * (q - 1) div 2) + 3) mod 2 ^ 31))
    \<and> overlap_probe seed q mode = Completed_with (OVInt ((2 * seed + 2 * (q * (q - 1) div 2) + 1) mod 2 ^ 31))"
proof -
  have g: "\<not> chain_guard steps q" "\<not> chain_guard 1 q"
    using assms by (auto simp: chain_guard_iff CHAIN_STEPS_MAX_def)
  have k: "leaves \<le> CHAIN_FANOUT_K_MAX" using assms(2) by (simp add: CHAIN_FANOUT_K_MAX_def FANIN_LEAVES_MAX_def)
  have "chain_fanout seed leaves steps q = Completed_with (OVInt
           ((leaves * (seed + steps * (q * (q - 1) div 2)) + leaves * (leaves - 1) div 2) mod 2 ^ 31))"
    using fanout_form [OF assms(1) k g(1)] by (simp add: tri_def)
  moreover have "barrier_fanin seed leaves q = chain_fanout seed leaves 1 q"
    using assms(1-4) k g(2) by (simp add: barrier_fanin_def chain_fanout_def)
  moreover have "diamond_fanin seed q = Completed_with (OVInt ((2 * seed + 5 * (q * (q - 1) div 2) + 3) mod 2 ^ 31))"
  proof -
    let ?a = "chain_stage seed q"
    let ?b = "chain_stage (?a + 1) q" and ?c = "chain_stage (?a + 2) q"
    have join: "sint ((word_of_int ?b + word_of_int ?c :: 64 word) AND BUSY_SUM_MASK) = (?b + ?c) mod 2 ^ 31"
      using masked_value [of ?b ?c] by (simp add: sint_masked)
    have "chain_stage ((?b + ?c) mod 2 ^ 31) q
        = ((seed + tri q + 1 + tri q) + (seed + tri q + 2 + tri q) + tri q) mod 2 ^ 31"
    proof -
      let ?u = "seed + tri q"
      have "?u mod 2 ^ 31 = ?u - 2 ^ 31 * (?u div 2 ^ 31)" by (simp add: minus_mult_div_eq_mod)
      then have "?u mod 2 ^ 31 + 1 + tri q + (?u mod 2 ^ 31 + 2 + tri q) + tri q
          = (?u + 1 + tri q + (?u + 2 + tri q) + tri q) + (- 2 * (?u div 2 ^ 31)) * 2 ^ 31"
        by (simp only:) (simp add: algebra_simps)
      then have "(?u mod 2 ^ 31 + 1 + tri q + (?u mod 2 ^ 31 + 2 + tri q) + tri q) mod 2 ^ 31
          = (?u + 1 + tri q + (?u + 2 + tri q) + tri q) mod 2 ^ 31"
        by (simp only: mod_mult_self1)
      then show ?thesis by (simp only: chain_stage_eq [OF assms(3)] mod_simps)
    qed
    also have "\<dots> = (2 * seed + 5 * tri q + 3) mod 2 ^ 31" by (simp add: algebra_simps)
    finally have "chain_stage ((?b + ?c) mod 2 ^ 31) q = (2 * seed + 5 * tri q + 3) mod 2 ^ 31" .
    then show ?thesis using assms(3,4) by (simp add: diamond_fanin_def Let_def join tri_def)
  qed
  moreover have "overlap_probe seed q mode = Completed_with (OVInt ((2 * seed + 2 * (q * (q - 1) div 2) + 1) mod 2 ^ 31))"
  proof -
    have m: "overlap_arm mode q x = (x + tri q) mod 2 ^ 31" for x
      by (rule overlap_arm_eq [OF assms(3,4,7)])
    have "uint ((word_of_int (overlap_arm mode q seed) + word_of_int (overlap_arm mode q (offset_seed seed 1)) :: 64 word)
        AND BUSY_SUM_MASK) = ((seed + tri q) mod 2 ^ 31 + (offset_seed seed 1 + tri q) mod 2 ^ 31) mod 2 ^ 31"
      by (simp only: masked_value m)
    also have "\<dots> = ((seed + 2 * tri q) + offset_seed seed 1) mod 2 ^ 31"
      by (simp only: mod_simps) (simp add: algebra_simps)
    also have "\<dots> = ((seed + 2 * tri q) + (seed + 1)) mod 2 ^ 31"
      by (rule mod_add_cong [OF refl offset_seed_mod])
    also have "\<dots> = (2 * seed + 2 * tri q + 1) mod 2 ^ 31" by (simp add: algebra_simps)
    finally show ?thesis
      using assms(3,4,7) by (auto simp: overlap_probe_def sint_masked tri_def)
  qed
  ultimately show ?thesis by blast
qed

lemma fan_in_values_witness: "diamond_fanin 10 4 = Completed_with (OVInt 53)"
  using fan_in_values [of 1 4 0 0 10] by (simp add: FANIN_LEAVES_MAX_def CHAIN_QUANTUM_MAX_def CHAIN_STEPS_MAX_def)

end
