(* ===== verification/RuntimeBoundary.thy ===== *)
theory RuntimeBoundary
  imports RuntimeOpsProps
begin

text \<open>
  What the Python validators guarantee to the native operations: a validated call never reaches a
  native guard, and what is left undefined at the boundary.
\<close>

subsection \<open>What the boundary guarantees\<close>

lemma has_type_int64: "has_type v ''int64'' \<longleftrightarrow> (\<exists>n. v = VInt n \<and> INT64_MIN \<le> n \<and> n \<le> INT64_MAX)"
  by (simp add: has_type_def)

lemma ints_of_types:
  assumes "list_all2 has_type args (replicate n ''int64'')"
  shows "\<exists>xs. args = map VInt xs \<and> length xs = n"
  using assms
proof (induction n arbitrary: args)
  case 0
  then show ?case by simp
next
  case (Suc n)
  then obtain m rest where "args = VInt m # rest" "list_all2 has_type rest (replicate n ''int64'')"
    by (auto simp: list_all2_Cons2 has_type_int64)
  moreover from this obtain xs where "rest = map VInt xs" "length xs = n" using Suc.IH by blast
  ultimately show ?case by (intro exI [of _ "m # xs"]) simp
qed

lemma registry_int_ops:
  assumes "map_of registry op = Some types" "op \<noteq> ''scale_double''"
  shows "types = replicate (length types) ''int64''"
  using assms by (auto simp: registry_def numeral_2_eq_2 numeral_3_eq_3 eval_nat_numeral split: if_splits)

lemma not_stopped_completes: "checkpoint_loop (\<lambda>k final. False) n n_chk todo acc \<noteq> None"
  by (induction todo arbitrary: acc) (simp_all add: Let_def)

lemma not_stopped_parks: "park_loop (\<lambda>k final. False) n_chk r todo \<noteq> None"
proof (induction todo arbitrary: r)
  case 0
  then show ?case by simp
next
  case (Suc todo)
  obtain a b where "park_loop (\<lambda>k final. False) n_chk (r - r) todo = Some a"
      and "park_loop (\<lambda>k final. False) n_chk (r - PARK_MS_STRIDE) todo = Some b"
    using Suc.IH [of "r - r"] Suc.IH [of "r - PARK_MS_STRIDE"] by blast
  then show ?case by (cases "r < PARK_MS_STRIDE") (simp_all add: Let_def)
qed

text \<open>An outcome the boundary has made possible: no guard was hit, and a stop was asked for if it says so.\<close>

definition admitted :: "(int \<Rightarrow> bool \<Rightarrow> bool) \<Rightarrow> string \<Rightarrow> op_outcome \<Rightarrow> bool" where
  "admitted stop op r \<longleftrightarrow> r \<noteq> Failed_op \<and> (r = Undefined \<longrightarrow> op = ''square'' \<or> op = ''add'')
     \<and> (r = Cancelled_op \<longrightarrow> (\<exists>k final. stop k final))"

lemma admitted_value [simp]: "admitted stop op (Completed_with v)"
  by (simp add: admitted_def)

lemma admitted_Undefined [simp]: "admitted stop op Undefined \<longleftrightarrow> op = ''square'' \<or> op = ''add''"
  by (simp add: admitted_def)

lemma run_loop_admitted:
  "admitted stop op (busy_sum stop n)"
proof (cases "\<exists>k final. stop k final")
  case True
  then show ?thesis by (simp add: admitted_def busy_sum_def split: option.split)
next
  case False
  then have "stop = (\<lambda>k final. False)" by (intro ext) simp
  then have "run_masked_checkpoint_loop stop n \<noteq> None"
    by (simp only: run_masked_checkpoint_loop_def Let_def not_stopped_completes) simp
  then show ?thesis by (auto simp: busy_sum_def)
qed

lemma park_admitted:
  assumes "0 \<le> ms" "ms \<le> PARK_MS_MAX"
  shows "admitted stop op (park_ms stop ms)"
proof (cases "\<exists>k final. stop k final")
  case True
  then show ?thesis using assms by (simp add: admitted_def park_ms_def split: option.split)
next
  case False
  then have "stop = (\<lambda>k final. False)" by (intro ext) simp
  then have "park_loop stop (park_ms_checkpoints ms) ms (nat (park_ms_checkpoints ms)) \<noteq> None"
    by (simp only: not_stopped_parks) simp
  then show ?thesis using assms by (auto simp: park_ms_def)
qed

lemma outside_int [simp]: "outside (VInt n) lo hi \<longleftrightarrow> n < lo \<or> hi < n"
  by (simp add: outside_def)

lemma int_op_admitted:
  assumes "map_of registry op = Some types" "op \<noteq> ''scale_double''" "op \<noteq> ''boom''"
    and len: "length xs = length types" and dom: "\<not> domain_bad op (map VInt xs)"
  shows "admitted stop op (run_op stop op (map OVInt xs))"
proof -
  have ops: "op \<in> {''square'', ''add'', ''busy_sum'', ''chain_sum_loop'', ''fanout_sum'', ''park_ms'',
      ''chain_sum_then'', ''chain_fanout'', ''barrier_fanin'', ''diamond_fanin'', ''overlap_probe''}"
    using assms(1-3) by (auto simp: registry_def split: if_splits)
  show ?thesis using ops assms(1) len dom
    by (elim insertE emptyE; clarsimp simp: registry_def length_Suc_conv)
      (simp_all add: run_op_def on_ints_def eval_nat_numeral as_int64_def domain_bad_def
        signed_result_def run_loop_admitted park_admitted
        chain_guard_def fanout_sum_def chain_sum_loop_def chain_sum_then_def chain_fanout_def
        barrier_fanin_def diamond_fanin_def overlap_probe_def Let_def not_less, blast)
qed

lemma validated_admitted:
  assumes "validate_call (VStr op) args registry = Inr out" and "op \<noteq> ''boom''"
  shows "admitted stop op (run_op stop op (map marshal out))"
proof -
  obtain types where ty: "map_of registry op = Some types" "out = args" "list_all2 has_type args types"
      "domain_reads op \<le> length args" "\<not> domain_bad op args"
    using validate_call_Inr [OF assms(1)] by auto
  show ?thesis
  proof (cases "op = ''scale_double''")
    case True
    then have "list_all2 has_type args [''double'', ''double'']" using ty(1,3) by (simp add: registry_def)
    then obtain x y where "args = [VFloat (Fin x), VFloat (Fin y)]"
      by (auto simp: list_all2_Cons2 has_type_def)
    then show ?thesis using True ty(2) by (simp add: run_op_def as_double_def)
  next
    case False
    have "list_all2 has_type args (replicate (length types) ''int64'')"
      using ty(3) registry_int_ops [OF ty(1) False] by metis
    then obtain xs where xs: "args = map VInt xs" "length xs = length types"
      using ints_of_types by blast
    then have "map marshal out = map OVInt xs" using ty(2) by simp
    then show ?thesis using int_op_admitted [OF ty(1) False assms(2) xs(2)] ty(5) xs(1) by simp
  qed
qed

text \<open>
  C13. A call the boundary lets through never reaches a native guard: for every registered operation
  but \<open>boom\<close>, marshalled validated arguments neither fail the tag checks nor the domain re-checks; the
  outcome is a value, or a cancellation that was asked for, or (for \<open>square\<close> and \<open>add\<close> only) undefined.
\<close>

theorem validated_calls_pass_guards:
  assumes "validate_call (VStr op) args registry = Inr out" and "op \<noteq> ''boom''"
  shows "admitted stop op (run_op stop op (map marshal out))"
  using assms by (rule validated_admitted)

lemma validated_calls_pass_guards_witness:
  "admitted no_stop ''busy_sum'' (run_op no_stop ''busy_sum'' (map marshal [VInt 5]))"
  by (rule validated_calls_pass_guards [of "''busy_sum''" "[VInt 5]" "[VInt 5]"])
    (simp_all add: validate_call_def registry_def validate_typed_args_def validate_one_def
      type_validator_def validate_int64_def check_domain_def domain_bad_def domain_reads_def bound_defs)

text \<open>
  The boundary does not keep \<open>square\<close> and \<open>add\<close> inside the signed 64-bit range: every 64-bit
  integer passes validation, but the native result is defined (and then exact) only for
  \<open>\<bar>n\<bar> \<le> 3037000499\<close> and for \<open>x + y\<close> in the range.
\<close>

theorem int64_results_defined:
  assumes "int64_ok n" and "int64_ok x" and "int64_ok y"
  shows "validate_call (VStr ''square'') [VInt n] registry = Inr [VInt n]
    \<and> run_op stop ''square'' (map marshal [VInt n])
        = (if \<bar>n\<bar> \<le> 3037000499 then Completed_with (OVInt (n\<^sup>2)) else Undefined)
    \<and> validate_call (VStr ''add'') [VInt x, VInt y] registry = Inr [VInt x, VInt y]
    \<and> run_op stop ''add'' (map marshal [VInt x, VInt y])
        = (if int64_ok (x + y) then Completed_with (OVInt (x + y)) else Undefined)"
proof -
  have sq: "int64_ok (n * n) \<longleftrightarrow> \<bar>n\<bar> \<le> 3037000499"
  proof
    assume "int64_ok (n * n)"
    then have le: "\<bar>n\<bar> * \<bar>n\<bar> \<le> 2 ^ 63 - 1" by (simp add: int64_ok_def bound_defs abs_mult_self_eq)
    show "\<bar>n\<bar> \<le> 3037000499"
    proof (rule ccontr)
      assume "\<not> ?thesis"
      then have "3037000500 \<le> \<bar>n\<bar>" by simp
      then have "3037000500 * 3037000500 \<le> \<bar>n\<bar> * \<bar>n\<bar>" by (intro mult_mono) simp_all
      then show False using le by simp
    qed
  next
    assume "\<bar>n\<bar> \<le> 3037000499"
    then have "\<bar>n\<bar> * \<bar>n\<bar> \<le> 3037000499 * 3037000499" by (intro mult_mono) simp_all
    moreover have "- 9223372036854775808 \<le> n * n" by (rule order_trans [of _ 0]) simp_all
    ultimately show "int64_ok (n * n)" by (simp add: int64_ok_def bound_defs abs_mult_self_eq)
  qed
  have "validate_int64 (VInt i) = Inr (VInt i)" if "int64_ok i" for i
    using that by (simp add: validate_int64_def int64_ok_def)
  then show ?thesis
    using assms
    by (simp add: validate_call_def registry_def validate_typed_args_def validate_one_def
        type_validator_def check_domain_def domain_reads_def domain_bad_def run_op_def on_ints_def
        numeral_2_eq_2 as_int64_def signed_result_def sq power2_eq_square)
qed

lemma int64_results_defined_witness:
  "validate_call (VStr ''square'') [VInt 4294967296] registry = Inr [VInt 4294967296]
    \<and> run_op no_stop ''square'' (map marshal [VInt 4294967296]) = Undefined"
  using int64_results_defined [of 4294967296 0 0 no_stop] by (simp add: int64_ok_def bound_defs)

subsection \<open>The counter actor\<close>

text \<open>The abstract counter: what a method does to an unbounded integer, and its reply.\<close>

definition counter_step :: "int \<Rightarrow> string \<times> pyval list \<Rightarrow> int" where
  "counter_step v c =
     (if fst c = ''add'' then v + the_int (hd (snd c))
      else if fst c = ''reset'' then the_int (hd (snd c)) else v)"

text \<open>The calls of one lane, in order, on the native counter.\<close>

fun counter_run :: "(int \<Rightarrow> bool \<Rightarrow> bool) \<Rightarrow> (string \<times> pyval list) list \<Rightarrow> int \<Rightarrow> int \<times> op_outcome list" where
  "counter_run stop [] v = (v, [])"
| "counter_run stop (c # cs) v =
     (case counter_method stop (fst c) (map marshal (snd c)) v of
        (v', r) \<Rightarrow> (case counter_run stop cs v' of (v'', rs) \<Rightarrow> (v'', r # rs)))"

definition valid_counter_call :: "string \<times> pyval list \<Rightarrow> bool" where
  "valid_counter_call c \<longleftrightarrow> (case validate_actor_call (VStr ''counter'') (VStr (fst c)) (snd c) actor_registry of
     Inr out \<Rightarrow> out = snd c | Inl e \<Rightarrow> False)"

lemma valid_counter_cases:
  assumes "valid_counter_call c"
  obtains x where "c = (''add'', [VInt x])" | "c = (''get'', [])" | x where "c = (''reset'', [VInt x])"
    | n where "c = (''busy_get'', [VInt n])" "0 \<le> n"
proof -
  have v: "validate_actor_call (VStr ''counter'') (VStr (fst c)) (snd c) actor_registry = Inr (snd c)"
    using assms by (auto simp: valid_counter_call_def split: sum.splits)
  obtain types where t: "map_of [(''add'', [''int64'']), (''get'', []), (''reset'', [''int64'']), (''busy_get'', [''int64''])]
        (fst c) = Some types"
      "validate_typed_args (snd c) types = Inr (snd c)" "check_method (fst c) (snd c) = Inr (snd c)"
    using v by (auto simp: validate_actor_call_def actor_registry_def rbind_eq_Inr
        dest: validate_typed_args_Inr split: option.splits if_splits)
  have "list_all2 has_type (snd c) types" using validate_typed_args_Inr [OF t(2)] by simp
  then show ?thesis
    using t(1,3) that by (cases c)
      (auto simp: list_all2_Cons2 has_type_int64 check_method_def not_less split: if_splits)
qed

lemma counter_one:
  assumes "valid_counter_call c" and "counter_method stop (fst c) (map marshal (snd c)) v = (v', r)" and "r \<noteq> Undefined"
  shows "v' = counter_step v c \<and> (r = Completed_with (OVInt v') \<or> r = Cancelled_op \<and> (\<exists>k final. stop k final))"
  using assms(1)
proof (cases rule: valid_counter_cases)
  case (4 n)
  show ?thesis
  proof (cases "run_masked_checkpoint_loop stop n")
    case None
    have "\<exists>k final. stop k final"
    proof (rule ccontr)
      assume "\<not> ?thesis"
      then have "stop = (\<lambda>k final. False)" by (intro ext) simp
      then show False using None by (simp only: run_masked_checkpoint_loop_def Let_def not_stopped_completes)
    qed
    then show ?thesis using 4 None assms(2) by (auto simp: counter_method_def as_int64_def counter_step_def)
  next
    case (Some acc)
    then show ?thesis using 4 assms(2) by (auto simp: counter_method_def as_int64_def counter_step_def)
  qed
qed (use assms(2,3) in \<open>auto simp: counter_method_def as_int64_def counter_step_def split: if_splits\<close>)

text \<open>
  C14. The counter actor implements an unbounded counter: over any sequence of validated calls none of
  which overflows, the value kept is the one the sequence of \<open>add\<close> and \<open>reset\<close> calls gives, no call
  fails, and each reply is the value after that call (or the call was cancelled at a checkpoint).
\<close>

theorem counter_refines:
  assumes "list_all valid_counter_call calls" and "counter_run stop calls v = (v', rs)"
    and "Undefined \<notin> set rs"
  shows "v' = foldl counter_step v calls \<and> length rs = length calls
    \<and> (\<forall>i < length calls. rs ! i = Completed_with (OVInt (foldl counter_step v (take (Suc i) calls)))
          \<or> rs ! i = Cancelled_op \<and> (\<exists>k final. stop k final))"
  using assms
proof (induction calls arbitrary: v v' rs)
  case Nil
  then show ?case by simp
next
  case (Cons c cs)
  obtain u r where m: "counter_method stop (fst c) (map marshal (snd c)) v = (u, r)" by (cases "counter_method stop (fst c) (map marshal (snd c)) v")
  obtain w ss where rest: "counter_run stop cs u = (w, ss)" by (cases "counter_run stop cs u")
  have eq: "v' = w" "rs = r # ss" using Cons.prems(2) by (simp_all add: m rest)
  have one: "u = counter_step v c" "r = Completed_with (OVInt u) \<or> r = Cancelled_op \<and> (\<exists>k final. stop k final)"
    using counter_one [OF _ m] Cons.prems eq by auto
  have IH: "w = foldl counter_step u cs \<and> length ss = length cs
    \<and> (\<forall>i < length cs. ss ! i = Completed_with (OVInt (foldl counter_step u (take (Suc i) cs)))
          \<or> ss ! i = Cancelled_op \<and> (\<exists>k final. stop k final))"
    by (rule Cons.IH [OF _ rest]) (use Cons.prems eq in auto)
  have "(r # ss) ! i = Completed_with (OVInt (foldl counter_step v (take (Suc i) (c # cs))))
          \<or> (r # ss) ! i = Cancelled_op \<and> (\<exists>k final. stop k final)" if "i < length (c # cs)" for i
    using that IH one by (cases i) auto
  then show ?case using IH eq one(1) by simp
qed

lemma counter_refines_witness:
  "counter_run no_stop [(''add'', [VInt 2]), (''reset'', [VInt 7]), (''get'', [])] 5
     = (7, [Completed_with (OVInt 7), Completed_with (OVInt 7), Completed_with (OVInt 7)])
   \<and> foldl counter_step 5 [(''add'', [VInt 2]), (''reset'', [VInt 7]), (''get'', [])] = 7"
proof -
  let ?calls = "[(''add'', [VInt 2]), (''reset'', [VInt 7]), (''get'', [])]"
  have run: "counter_run no_stop ?calls 5
     = (7, [Completed_with (OVInt 7), Completed_with (OVInt 7), Completed_with (OVInt 7)])"
    by (simp add: counter_method_def as_int64_def int64_ok_def bound_defs)
  have "list_all valid_counter_call ?calls"
    by (simp add: valid_counter_call_def validate_actor_call_def actor_registry_def validate_typed_args_def
        validate_one_def type_validator_def validate_int64_def check_method_def bound_defs)
  then show ?thesis using counter_refines [of ?calls no_stop 5, OF _ run] run by simp
qed

end
