(* ===== verification/RuntimeLane.thy ===== *)
theory RuntimeLane
  imports RuntimeOps CancelToken
begin

text \<open>
  The runtime lane (\<open>python/src/rayx/runtime_lane.hpp\<close>): a FIFO queue, one consumer, and the cancel
  token of each request (\<open>runtime_cancel.hpp\<close>). A lane is serial (the default, and every actor lane)
  or non-blocking: then an asynchronous operation is dispatched and retired by a continuation, and up
  to \<open>rl_max\<close> of them are in flight. A request is named by its cell (token, promise). The task
  closures of \<open>_rayx.cpp\<close> run in segments, with one poll of the token between two segments. How long a
  segment takes is not modelled, nor the text of an error.
\<close>

subsection \<open>Requests\<close>

datatype job = JOp string "op_value list" | JMethod string "op_value list"

datatype policy = Inline | Async

definition op_policy :: "string \<Rightarrow> policy" where
  "op_policy op = (if op \<in> {''square'', ''add'', ''boom'', ''scale_double''} then Inline else Async)"

definition method_policy :: "string \<Rightarrow> policy" where
  "method_policy m = (if m \<in> {''add'', ''get'', ''reset''} then Inline else Async)"

definition method_checkpoints :: "string \<Rightarrow> op_value list \<Rightarrow> int" where
  "method_checkpoints m a = (if m = ''busy_get''
     then (case as_int64 a 0 of Some n \<Rightarrow> busy_sum_checkpoints n | None \<Rightarrow> 1) else 1)"

fun job_checkpoints :: "job \<Rightarrow> int" where
  "job_checkpoints (JOp op a) = checkpoint_count op a"
| "job_checkpoints (JMethod m a) = method_checkpoints m a"

fun job_policy :: "job \<Rightarrow> policy" where
  "job_policy (JOp op a) = op_policy op"
| "job_policy (JMethod m a) = method_policy m"

text \<open>The body run to its end, never stopped: the actor's new state and the outcome.\<close>

definition never :: "int \<Rightarrow> bool \<Rightarrow> bool" where
  "never k final = False"

fun job_finish :: "job \<Rightarrow> int \<Rightarrow> int \<times> op_outcome" where
  "job_finish (JOp op a) v = (v, run_op never op a)"
| "job_finish (JMethod m a) v = counter_method never m a v"

text \<open>A body that throws does so at its entry: it polls no boundary.\<close>

definition job_segments :: "job \<Rightarrow> int \<Rightarrow> int" where
  "job_segments j v = (if snd (job_finish j v) = Failed_op then 1 else job_checkpoints j)"

record rresult =
  rr_actor_id :: string
  rr_start_ns :: int
  rr_end_ns :: int
  rr_status :: string
  rr_error :: string
  rr_has_value :: bool
  rr_value :: op_value

record rcell =
  rc_job :: job
  rc_tok :: rtoken
  rc_pend :: bool
  rc_proms :: "rresult list"

text \<open>
  A task in service: dispatched, in segment \<open>k\<close>, about to poll the boundary before segment \<open>k\<close>, its body
  over, its token marked, or its promise set (and the lane not yet told).
\<close>

datatype task =
    TStart
  | TSegment int int
  | TBoundary int int
  | TBody rresult
  | TFulfil rresult
  | TSettled

datatype rworker = RIdle | RPopped nat | RServing nat task | RClear | RExited

record rlane =
  rl_actor_id :: string
  rl_nonblocking :: bool
  rl_max :: int
  rl_queue :: "nat list"
  rl_stop :: bool
  rl_active :: bool
  rl_active_tok :: "nat option"
  rl_worker :: rworker
  rl_flight :: "(nat \<times> task) list"
  rl_cells :: "rcell list"
  rl_state :: int
  rl_now :: int
  rl_log :: "nat list"

definition new_rlane :: "string \<Rightarrow> bool \<Rightarrow> int \<Rightarrow> int \<Rightarrow> int \<Rightarrow> rlane" where
  "new_rlane actor nonblocking max_inflight state t = \<lparr>rl_actor_id = actor, rl_nonblocking = nonblocking,
     rl_max = (if max_inflight < 1 then 1 else max_inflight), rl_queue = [], rl_stop = False,
     rl_active = False, rl_active_tok = None, rl_worker = RIdle, rl_flight = [], rl_cells = [],
     rl_state = state, rl_now = t, rl_log = []\<rparr>"

text \<open>\<open>make_op_task\<close>/\<open>make_method_task\<close>: the row of an outcome. An overflow is not detected: the code
  goes on and reports whatever 64 bits the addition or product left, which is all the row of an
  \<open>Undefined\<close> outcome says; what a compiler may do besides is outside the model.\<close>

definition task_row :: "string \<Rightarrow> int \<Rightarrow> int \<Rightarrow> op_outcome \<Rightarrow> rresult" where
  "task_row actor start stop r = \<lparr>rr_actor_id = actor, rr_start_ns = start, rr_end_ns = stop,
     rr_status = (case r of Completed_with v \<Rightarrow> ''completed'' | Undefined \<Rightarrow> ''completed''
       | Cancelled_op \<Rightarrow> ''cancelled'' | Failed_op \<Rightarrow> ''failed''),
     rr_error = (if r = Failed_op then ''operation failed'' else ''''),
     rr_has_value = (case r of Completed_with v \<Rightarrow> True | Undefined \<Rightarrow> True | _ \<Rightarrow> False),
     rr_value = (case r of Completed_with v \<Rightarrow> v | Undefined \<Rightarrow> OVInt (unspecified_int64 [start, stop])
       | _ \<Rightarrow> OVInt 0)\<rparr>"

subsection \<open>Client operations\<close>

definition rl_push :: "job \<Rightarrow> rlane \<Rightarrow> rlane" where
  "rl_push j l = l\<lparr>rl_queue := rl_queue l @ [length (rl_cells l)],
     rl_cells := rl_cells l @ [\<lparr>rc_job = j, rc_tok = new_rtoken, rc_pend = False, rc_proms = []\<rparr>]\<rparr>"

definition rl_submit :: "job \<Rightarrow> rlane \<Rightarrow> rlane \<times> nat" where
  "rl_submit j l = (rl_push j l, length (rl_cells l))"

definition rl_try_submit :: "job \<Rightarrow> int \<Rightarrow> rlane \<Rightarrow> rlane \<times> nat option" where
  "rl_try_submit j max_queue_depth l =
     (if int (length (rl_queue l)) \<ge> max_queue_depth then (l, None)
      else (rl_push j l, Some (length (rl_cells l))))"

definition rl_stats :: "rlane \<Rightarrow> string \<times> int \<times> bool" where
  "rl_stats l = (rl_actor_id l, int (length (rl_queue l)),
     if rl_nonblocking l then rl_flight l \<noteq> [] else rl_active l)"

definition upd_cell :: "nat \<Rightarrow> (rcell \<Rightarrow> rcell) \<Rightarrow> rlane \<Rightarrow> rlane" where
  "upd_cell i f l = l\<lparr>rl_cells := (rl_cells l)[i := f (rl_cells l ! i)]\<rparr>"

text \<open>\<open>cancel()\<close>: the phase change under the token's mutex, then the promise outside it.\<close>

definition rcancel_cell :: "rcell \<Rightarrow> rcell \<times> bool" where
  "rcancel_cell c = (case rcancel (rc_tok c) of (t, did, now) \<Rightarrow>
     (c\<lparr>rc_tok := t, rc_pend := rc_pend c \<or> now\<rparr>, did))"

definition rsettle_cell :: "string \<Rightarrow> int \<Rightarrow> rcell \<Rightarrow> rcell" where
  "rsettle_cell actor t c = (if rc_pend c
     then c\<lparr>rc_pend := False, rc_proms := rc_proms c @ [task_row actor t t Cancelled_op]\<rparr> else c)"

definition rl_cancel :: "nat \<Rightarrow> rlane \<Rightarrow> rlane \<times> bool" where
  "rl_cancel i l = (case rcancel_cell (rl_cells l ! i) of (c, did) \<Rightarrow> (upd_cell i (\<lambda>_. c) l, did))"

definition rl_settle :: "nat \<Rightarrow> rlane \<Rightarrow> rlane" where
  "rl_settle i l = upd_cell i (rsettle_cell (rl_actor_id l) (rl_now l)) l"

definition cancel_fully :: "nat \<Rightarrow> rlane \<Rightarrow> rlane" where
  "cancel_fully i l = rl_settle i (fst (rl_cancel i l))"

text \<open>\<open>cancel_pending\<close>: the tokens are collected under the lock, then cancelled one by one.\<close>

definition pending_toks :: "rlane \<Rightarrow> nat list" where
  "pending_toks l = rl_queue l @ (case rl_active_tok l of None \<Rightarrow> [] | Some i \<Rightarrow> [i]) @ map fst (rl_flight l)"

definition cancel_pending :: "rlane \<Rightarrow> rlane" where
  "cancel_pending l = fold cancel_fully (pending_toks l) l"

definition rl_request_stop :: "rlane \<Rightarrow> rlane" where
  "rl_request_stop l = l\<lparr>rl_stop := True\<rparr>"

subsection \<open>The service slot\<close>

text \<open>One step of a task of request \<open>i\<close>, on the consumer or on an HPX worker of its own.\<close>

fun task_step :: "nat \<Rightarrow> task \<Rightarrow> rlane \<Rightarrow> rlane \<times> task" where
  "task_step i TStart l = (l, TSegment 0 (rl_now l))"
| "task_step i (TSegment k start) l =
     (let j = rc_job (rl_cells l ! i) in
      if k + 1 < job_segments j (rl_state l) then (l, TBoundary (k + 1) start)
      else (case job_finish j (rl_state l) of (v, r) \<Rightarrow>
        (l\<lparr>rl_state := v\<rparr>, TBody (task_row (rl_actor_id l) start (rl_now l) r))))"
| "task_step i (TBoundary k start) l =
     (let c = rl_cells l ! i in
      case rstop_at_boundary (k = job_checkpoints (rc_job c) - 1) (rc_tok c) of (t, stop) \<Rightarrow>
        (upd_cell i (\<lambda>c. c\<lparr>rc_tok := t\<rparr>) l,
         if stop then TBody (task_row (rl_actor_id l) start (rl_now l) Cancelled_op)
         else TSegment k start))"
| "task_step i (TBody r) l =
     (if rr_status r \<noteq> ''cancelled'' then upd_cell i (\<lambda>c. c\<lparr>rc_tok := mark_finished (rc_tok c)\<rparr>) l else l,
      TFulfil r)"
| "task_step i (TFulfil r) l = (upd_cell i (\<lambda>c. c\<lparr>rc_proms := rc_proms c @ [r]\<rparr>) l, TSettled)"
| "task_step i TSettled l = (l, TSettled)"

definition clear_active :: "rlane \<Rightarrow> rlane" where
  "clear_active l = l\<lparr>rl_active_tok := None, rl_active := False, rl_worker := RIdle\<rparr>"

subsection \<open>The consumer\<close>

text \<open>The head of the loop: wait, pop. \<open>None\<close>: it sleeps, or has returned.\<close>

definition pop_item :: "rlane \<Rightarrow> rlane option" where
  "pop_item l = (case rl_queue l of
       [] \<Rightarrow> if rl_stop l then Some (l\<lparr>rl_worker := RExited\<rparr>) else None
     | i # q \<Rightarrow>
         if rl_nonblocking l
         then (if rl_stop l \<or> int (length (rl_flight l)) < rl_max l
               then Some (l\<lparr>rl_queue := q, rl_worker := RPopped i, rl_log := rl_log l @ [i]\<rparr>) else None)
         else Some (l\<lparr>rl_queue := q, rl_active := True, rl_active_tok := Some i,
                rl_worker := RPopped i, rl_log := rl_log l @ [i]\<rparr>))"

text \<open>\<open>begin_service\<close> and the dispatch.\<close>

definition dispatch_item :: "nat \<Rightarrow> rlane \<Rightarrow> rlane" where
  "dispatch_item i l =
     (let c = rl_cells l ! i in
      case rbegin_service (job_checkpoints (rc_job c)) (rc_tok c) of (t, ok) \<Rightarrow>
        if \<not> ok then l\<lparr>rl_worker := (if rl_nonblocking l then RIdle else RClear)\<rparr>
        else
          let l = upd_cell i (\<lambda>c. c\<lparr>rc_tok := t\<rparr>) l in
          if rl_nonblocking l \<and> job_policy (rc_job c) = Async
          then l\<lparr>rl_flight := rl_flight l @ [(i, TStart)], rl_worker := RIdle\<rparr>
          else l\<lparr>rl_worker := RServing i TStart\<rparr>)"

definition consumer_step :: "rlane \<Rightarrow> rlane option" where
  "consumer_step l = (case rl_worker l of
       RIdle \<Rightarrow> pop_item l
     | RPopped i \<Rightarrow> Some (dispatch_item i l)
     | RServing i TSettled \<Rightarrow> Some (if rl_nonblocking l then l\<lparr>rl_worker := RIdle\<rparr> else l\<lparr>rl_worker := RClear\<rparr>)
     | RServing i s \<Rightarrow> (case task_step i s l of (l', s') \<Rightarrow> Some (l'\<lparr>rl_worker := RServing i s'\<rparr>))
     | RClear \<Rightarrow> Some (clear_active l)
     | RExited \<Rightarrow> None)"

text \<open>A task in flight moves on; once its promise is set the continuation gives its slot back.\<close>

definition flight_step :: "nat \<Rightarrow> rlane \<Rightarrow> rlane option" where
  "flight_step n l =
     (if n < length (rl_flight l) then
        (case rl_flight l ! n of (i, s) \<Rightarrow>
           if s = TSettled then Some (l\<lparr>rl_flight := take n (rl_flight l) @ drop (Suc n) (rl_flight l)\<rparr>)
           else (case task_step i s l of (l', s') \<Rightarrow> Some (l'\<lparr>rl_flight := (rl_flight l')[n := (i, s')]\<rparr>)))
      else None)"

text \<open>
  Every interleaving of clients, consumer, tasks and the clock. The engine never submits to a lane it
  has stopped. The jobs submitted through the Python boundary do not fail on a guard (\<open>job_ok\<close>).
\<close>

definition job_ok :: "job \<Rightarrow> bool" where
  "job_ok j \<longleftrightarrow> (job_checkpoints j > 1 \<longrightarrow> (\<forall>v. snd (job_finish j v) \<noteq> Failed_op))"

inductive rl_step :: "rlane \<Rightarrow> rlane \<Rightarrow> bool" where
  Submit: "\<not> rl_stop l \<Longrightarrow> job_ok j \<Longrightarrow> rl_step l (rl_push j l)"
| Cancel: "i < length (rl_cells l) \<Longrightarrow> rl_step l (fst (rl_cancel i l))"
| Settle: "i < length (rl_cells l) \<Longrightarrow> rl_step l (rl_settle i l)"
| Stop: "rl_step l (rl_request_stop l)"
| Tick: "0 \<le> d \<Longrightarrow> rl_step l (l\<lparr>rl_now := rl_now l + d\<rparr>)"
| Consumer: "consumer_step l = Some l' \<Longrightarrow> rl_step l l'"
| Flight: "flight_step n l = Some l' \<Longrightarrow> rl_step l l'"

inductive rl_reachable :: "string \<Rightarrow> bool \<Rightarrow> int \<Rightarrow> int \<Rightarrow> rlane \<Rightarrow> bool" for actor nb mi v where
  New: "rl_reachable actor nb mi v (new_rlane actor nb mi v t)"
| Step: "rl_reachable actor nb mi v l \<Longrightarrow> rl_step l l' \<Longrightarrow> rl_reachable actor nb mi v l'"

subsection \<open>Stopping\<close>

text \<open>
  \<open>stop_and_join\<close> returns when the consumer has returned and nothing is in flight. \<open>rl_work\<close> bounds the
  steps this takes; the tasks in flight may move in any order, here the first moves first.
\<close>

definition any_step :: "rlane \<Rightarrow> rlane option" where
  "any_step l = (case consumer_step l of Some l' \<Rightarrow> Some l' | None \<Rightarrow> flight_step 0 l)"

fun rl_drain :: "nat \<Rightarrow> rlane \<Rightarrow> rlane" where
  "rl_drain 0 l = l"
| "rl_drain (Suc n) l = (case any_step l of None \<Rightarrow> l | Some l' \<Rightarrow> rl_drain n l')"

text \<open>Steps a task still has before it settles.\<close>

fun task_work :: "job \<Rightarrow> task \<Rightarrow> nat" where
  "task_work j TStart = 2 * nat (job_checkpoints j) + 8"
| "task_work j (TSegment k start) = 2 * nat (job_checkpoints j - k) + 5"
| "task_work j (TBoundary k start) = 2 * nat (job_checkpoints j - k) + 6"
| "task_work j (TBody r) = 3"
| "task_work j (TFulfil r) = 2"
| "task_work j TSettled = 1"

definition cell_job :: "rlane \<Rightarrow> nat \<Rightarrow> job" where
  "cell_job l i = rc_job (rl_cells l ! i)"

definition rworker_work :: "rlane \<Rightarrow> nat" where
  "rworker_work l = (case rl_worker l of RIdle \<Rightarrow> 1 | RPopped i \<Rightarrow> task_work (cell_job l i) TStart + 4
     | RServing i s \<Rightarrow> task_work (cell_job l i) s + 3 | RClear \<Rightarrow> 2 | RExited \<Rightarrow> 0)"

definition rl_work :: "rlane \<Rightarrow> nat" where
  "rl_work l = rworker_work l + (\<Sum>(i, s) \<leftarrow> rl_flight l. task_work (cell_job l i) s)
     + (\<Sum>i \<leftarrow> rl_queue l. task_work (cell_job l i) TStart + 4)"

definition stop_and_join :: "rlane \<Rightarrow> rlane" where
  "stop_and_join l = (let l' = rl_request_stop l in rl_drain (rl_work l') l')"

end
