(* ===== verification/RuntimeLaneInv.thy ===== *)
theory RuntimeLaneInv
  imports RuntimeLane RuntimeOpsProps
begin

text \<open>
  The invariant of a runtime lane over every interleaving: each request is in one stage, its promise is
  set at most once, and its row agrees with its token.
\<close>

subsection \<open>Stages of a request\<close>

definition row_form :: "string \<Rightarrow> rresult \<Rightarrow> bool" where
  "row_form a r \<longleftrightarrow> rr_actor_id r = a \<and> rr_start_ns r \<le> rr_end_ns r
     \<and> rr_status r \<in> {''completed'', ''failed'', ''cancelled''}
     \<and> rr_has_value r = (rr_status r = ''completed'') \<and> (rr_error r = '''') = (rr_status r \<noteq> ''failed'')"

definition clean :: "rcell \<Rightarrow> bool" where
  "clean c \<longleftrightarrow> \<not> rc_pend c \<and> rc_proms c = []"

definition rc_skipped :: "string \<Rightarrow> rcell \<Rightarrow> bool" where
  "rc_skipped a c \<longleftrightarrow> rt_phase (rc_tok c) = RCancelled \<and>
     (rc_pend c \<and> rc_proms c = [] \<or> \<not> rc_pend c \<and> (\<exists>t. rc_proms c = [task_row a t t Cancelled_op]))"

definition rc_waiting :: "string \<Rightarrow> rcell \<Rightarrow> bool" where
  "rc_waiting a c \<longleftrightarrow> rc_skipped a c \<or> clean c \<and> rt_phase (rc_tok c) = RQueued"

definition settled_as :: "rcell \<Rightarrow> rresult \<Rightarrow> rphase \<Rightarrow> bool" where
  "settled_as c r p \<longleftrightarrow> (if rr_status r = ''cancelled'' then rt_phase (rc_tok c) = RCancelled
     else rt_phase (rc_tok c) = p)"

definition rc_done :: "string \<Rightarrow> rcell \<Rightarrow> bool" where
  "rc_done a c \<longleftrightarrow> rc_skipped a c
     \<or> \<not> rc_pend c \<and> (\<exists>r. rc_proms c = [r] \<and> row_form a r \<and> settled_as c r RCompleted)"

text \<open>The token of a task with boundaries \<open>ahead\<close>, or none.\<close>

definition serving_tok :: "bool \<Rightarrow> rcell \<Rightarrow> bool" where
  "serving_tok ahead c \<longleftrightarrow> rt_phase (rc_tok c) = RRunning \<and> rt_cancellable (rc_tok c) = ahead
     \<or> rt_phase (rc_tok c) = RStopRequested \<and> ahead"

definition checks :: "rcell \<Rightarrow> int" where
  "checks c = job_checkpoints (rc_job c)"

fun task_ok :: "string \<Rightarrow> int \<Rightarrow> task \<Rightarrow> rcell \<Rightarrow> bool" where
  "task_ok a now TStart c = (clean c \<and> serving_tok (1 < checks c) c)"
| "task_ok a now (TSegment k start) c = (clean c \<and> 0 \<le> k \<and> k < checks c \<and> start \<le> now
     \<and> serving_tok (k < checks c - 1) c)"
| "task_ok a now (TBoundary k start) c = (clean c \<and> 1 \<le> k \<and> k < checks c \<and> start \<le> now
     \<and> serving_tok True c)"
| "task_ok a now (TBody r) c = (clean c \<and> row_form a r \<and> settled_as c r RRunning
     \<and> (rr_status r \<noteq> ''cancelled'' \<longrightarrow> \<not> rt_cancellable (rc_tok c)))"
| "task_ok a now (TFulfil r) c = (clean c \<and> row_form a r \<and> settled_as c r RCompleted)"
| "task_ok a now TSettled c = rc_done a c"

lemmas stage_defs = clean_def rc_skipped_def rc_waiting_def settled_as_def rc_done_def serving_tok_def

lemma row_form_task_row: "s \<le> e \<Longrightarrow> row_form a (task_row a s e r)"
  by (cases r) (simp_all add: row_form_def task_row_def)

lemma task_row_cancelled [simp]: "rr_status (task_row a s e r) = ''cancelled'' \<longleftrightarrow> r = Cancelled_op"
  by (cases r) (simp_all add: task_row_def)

lemma task_row_simps [simp]:
  "rr_actor_id (task_row a s e r) = a" "rr_start_ns (task_row a s e r) = s" "rr_end_ns (task_row a s e r) = e"
  by (simp_all add: task_row_def)

subsection \<open>A client's cancellation keeps the stage\<close>

lemma rcancel_cell_job [simp]: "rc_job (fst (rcancel_cell c)) = rc_job c"
  by (simp add: rcancel_cell_def split: prod.split)

lemma rsettle_cell_job [simp]: "rc_job (rsettle_cell a t c) = rc_job c"
  by (simp add: rsettle_cell_def)

lemma rcancel_skipped: "rc_skipped a c \<Longrightarrow> fst (rcancel_cell c) = c"
  by (simp add: rc_skipped_def rcancel_cell_def rcancel_def)

lemma rsettle_clean: "\<not> rc_pend c \<Longrightarrow> rsettle_cell a t c = c"
  by (simp add: rsettle_cell_def)

lemma rsettle_skipped: "rc_skipped a c \<Longrightarrow> rc_skipped a (rsettle_cell a t c)"
  by (auto simp: rc_skipped_def rsettle_cell_def)

lemma cancel_stage:
  "rc_waiting a c \<Longrightarrow> rc_waiting a (fst (rcancel_cell c))"
  "rc_done a c \<Longrightarrow> rc_done a (fst (rcancel_cell c))"
proof -
  show "rc_waiting a c \<Longrightarrow> rc_waiting a (fst (rcancel_cell c))"
    using rcancel_skipped [of a c]
    by (auto simp: rc_waiting_def) (auto simp: rc_skipped_def clean_def rcancel_cell_def rcancel_def)
  assume d: "rc_done a c"
  show "rc_done a (fst (rcancel_cell c))"
  proof (cases "rc_skipped a c")
    case True
    then show ?thesis using d by (simp add: rcancel_skipped)
  next
    case False
    then have "rt_phase (rc_tok c) = RCancelled \<or> rt_phase (rc_tok c) = RCompleted"
      using d by (auto simp: rc_done_def settled_as_def split: if_splits)
    then have "fst (rcancel_cell c) = c" by (auto simp: rcancel_cell_def rcancel_def)
    then show ?thesis using d by simp
  qed
qed

lemma cancel_task:
  assumes "task_ok a now s c"
  shows "task_ok a now s (fst (rcancel_cell c))"
proof (cases "rt_phase (rc_tok c) = RQueued \<or> rt_phase (rc_tok c) = RRunning \<and> rt_cancellable (rc_tok c)")
  case True
  then show ?thesis
    using assms cancel_stage(2) [of a c]
    by (cases s) (auto simp: rcancel_cell_def rcancel_def checks_def clean_def serving_tok_def settled_as_def split: if_splits)
next
  case False
  then have "fst (rcancel_cell c) = c" by (auto simp: rcancel_cell_def rcancel_def)
  then show ?thesis using assms by simp
qed

lemma settle_stage:
  "rc_waiting a c \<Longrightarrow> rc_waiting a (rsettle_cell a t c)"
  "rc_done a c \<Longrightarrow> rc_done a (rsettle_cell a t c)"
  using rsettle_skipped [of a c t] by (auto simp: rc_waiting_def rc_done_def clean_def rsettle_clean)

lemma settle_task: "task_ok a now s c \<Longrightarrow> task_ok a now s (rsettle_cell a t c)"
  using settle_stage(2) [of a c t] by (cases s) (auto simp: clean_def rsettle_clean)

lemma task_ok_later: "task_ok a now s c \<Longrightarrow> now \<le> now' \<Longrightarrow> task_ok a now' s c"
  by (cases s) auto

subsection \<open>The invariant\<close>

definition rheld :: "rlane \<Rightarrow> nat list" where
  "rheld l = (case rl_worker l of RPopped i \<Rightarrow> [i] | RServing i s \<Rightarrow> [i] | _ \<Rightarrow> [])"

definition busy :: "rlane \<Rightarrow> nat list" where
  "busy l = rheld l @ map fst (rl_flight l)"

fun worker_ok :: "rworker \<Rightarrow> rlane \<Rightarrow> bool" where
  "worker_ok (RPopped i) l = rc_waiting (rl_actor_id l) (rl_cells l ! i)"
| "worker_ok (RServing i s) l = task_ok (rl_actor_id l) (rl_now l) s (rl_cells l ! i)"
| "worker_ok RExited l = (rl_stop l \<and> rl_queue l = [])"
| "worker_ok w l = True"

definition mode_ok :: "rlane \<Rightarrow> bool" where
  "mode_ok l \<longleftrightarrow> (if rl_nonblocking l
     then rl_active_tok l = None \<and> \<not> rl_active l \<and> rl_worker l \<noteq> RClear
       \<and> (\<not> rl_stop l \<longrightarrow> int (length (rl_flight l)) + (if \<exists>i. rl_worker l = RPopped i then 1 else 0) \<le> rl_max l)
     else rl_flight l = [] \<and> rl_active l = (rl_worker l \<notin> {RIdle, RExited})
       \<and> (rheld l \<noteq> [] \<longrightarrow> rl_active_tok l = Some (hd (rheld l)))
       \<and> (rl_active_tok l \<noteq> None \<longrightarrow> rl_active l \<and> the (rl_active_tok l) < length (rl_cells l)))"

definition rl_inv :: "rlane \<Rightarrow> bool" where
  "rl_inv l \<longleftrightarrow> rl_log l @ rl_queue l = [0..<length (rl_cells l)]
     \<and> (\<forall>i \<in> set (rl_queue l). rc_waiting (rl_actor_id l) (rl_cells l ! i))
     \<and> distinct (busy l) \<and> set (busy l) \<subseteq> set (rl_log l)
     \<and> (\<forall>i \<in> set (rl_log l) - set (busy l). rc_done (rl_actor_id l) (rl_cells l ! i))
     \<and> worker_ok (rl_worker l) l
     \<and> (\<forall>(i, s) \<in> set (rl_flight l). task_ok (rl_actor_id l) (rl_now l) s (rl_cells l ! i))
     \<and> (\<forall>c \<in> set (rl_cells l). job_ok (rc_job c))
     \<and> mode_ok l"

lemma busy_checkpoints_pos: "1 \<le> busy_sum_checkpoints n"
  by (auto simp: busy_sum_checkpoints_def Let_def INT_MAX_def BUSY_SUM_STRIDE_def div_pos_pos_trivial
      intro: pos_imp_zdiv_nonneg_iff [THEN iffD2])

lemma park_checkpoints_pos: "1 \<le> park_ms_checkpoints n"
  by (auto simp: park_ms_checkpoints_def Let_def INT_MAX_def PARK_MS_STRIDE_def
      intro: pos_imp_zdiv_nonneg_iff [THEN iffD2])

lemma checks_pos: "1 \<le> job_checkpoints j"
  by (cases j) (auto simp: checkpoint_count_def method_checkpoints_def busy_checkpoints_pos
      park_checkpoints_pos split: option.split)

lemma rl_inv_new: "rl_inv (new_rlane actor nb mi v t)"
  by (simp add: rl_inv_def new_rlane_def busy_def rheld_def mode_ok_def)

subsection \<open>Every step keeps the invariant\<close>

lemma job_segments_le: "job_ok j \<Longrightarrow> job_segments j v = job_checkpoints j"
  using checks_pos [of j] by (auto simp: job_ok_def job_segments_def)

lemma outcome_not_cancelled: "snd (job_finish j v) \<noteq> Cancelled_op"
proof -
  have nv: "never = (\<lambda>k final. False)" by (intro ext) (simp add: never_def)
  have loop: "checkpoint_loop never n m t acc \<noteq> None" for n m t acc
    by (induction t arbitrary: acc) (simp_all add: Let_def nv)
  have park: "park_loop never m r t \<noteq> None" for m r t
  proof (induction t arbitrary: r)
    case (Suc t)
    obtain p q where "park_loop never m (r - r) t = Some p" "park_loop never m (r - PARK_MS_STRIDE) t = Some q"
      using Suc.IH [of "r - r"] Suc.IH [of "r - PARK_MS_STRIDE"] by blast
    then show ?case by (cases "r < PARK_MS_STRIDE") (simp_all add: Let_def nv)
  qed simp
  have on: "(\<And>xs. f xs \<noteq> Cancelled_op) \<Longrightarrow> on_ints n f a \<noteq> Cancelled_op" for f n a
    by (simp add: on_ints_def split: option.split)
  have bs: "busy_sum never n \<noteq> Cancelled_op" for n
    using loop by (auto simp: busy_sum_def run_masked_checkpoint_loop_def Let_def split: option.splits)
  have pk: "park_ms never n \<noteq> Cancelled_op" for n
    using park [of "park_ms_checkpoints n" n "nat (park_ms_checkpoints n)"] by (auto simp: park_ms_def)
  have vals: "signed_result m \<noteq> Cancelled_op" "chain_sum_loop x y z \<noteq> Cancelled_op" "fanout_sum x y \<noteq> Cancelled_op"
      "chain_sum_then x y z \<noteq> Cancelled_op" "chain_fanout x y z w \<noteq> Cancelled_op"
      "barrier_fanin x y z \<noteq> Cancelled_op" "diamond_fanin x y \<noteq> Cancelled_op" "overlap_probe x y z \<noteq> Cancelled_op"
    for m x y z w
    by (simp_all add: signed_result_def chain_sum_loop_def fanout_sum_def chain_sum_then_def
        chain_fanout_def barrier_fanin_def diamond_fanin_def overlap_probe_def Let_def)
  have op: "run_op never op a \<noteq> Cancelled_op" for op a
    unfolding run_op_def by (simp add: on bs pk vals split: option.split)
  show ?thesis
  proof (cases j)
    case (JMethod m a)
    have "\<exists>acc. run_masked_checkpoint_loop never n = Some acc" for n
      using loop by (auto simp: run_masked_checkpoint_loop_def Let_def)
    then show ?thesis using JMethod
      by (auto simp: counter_method_def split: option.splits)
      (metis option.distinct(1))
  qed (simp add: op)
qed

lemma task_step_ok:
  assumes ok: "task_ok (rl_actor_id l) (rl_now l) s (rl_cells l ! i)" and job: "job_ok (rc_job (rl_cells l ! i))"
    and i: "i < length (rl_cells l)" and st: "task_step i s l = (l', s')"
  shows "\<exists>c'. l' = l\<lparr>rl_cells := (rl_cells l)[i := c'], rl_state := rl_state l'\<rparr>
     \<and> rc_job c' = rc_job (rl_cells l ! i) \<and> task_ok (rl_actor_id l) (rl_now l) s' c'"
proof -
  let ?c = "rl_cells l ! i"
  have same: "l = l\<lparr>rl_cells := (rl_cells l)[i := ?c], rl_state := rl_state l\<rparr>" by simp
  show ?thesis
  proof (cases s)
    case TStart
    then have "l' = l" "s' = TSegment 0 (rl_now l)" using st by auto
    moreover have "task_ok (rl_actor_id l) (rl_now l) s' ?c"
      using ok TStart checks_pos [of "rc_job ?c"] \<open>s' = _\<close> by (simp add: checks_def)
    ultimately show ?thesis using same by (intro exI [of _ ?c]) simp
  next
    case (TSegment k start)
    show ?thesis
    proof (cases "k + 1 < checks ?c")
      case True
      then have "l' = l" "s' = TBoundary (k + 1) start"
        using st TSegment job by (auto simp: Let_def job_segments_le checks_def)
      moreover have "task_ok (rl_actor_id l) (rl_now l) s' ?c"
        using ok TSegment True \<open>s' = _\<close> by simp
      ultimately show ?thesis using same by (intro exI [of _ ?c]) simp
    next
      case False
      obtain v r where vr: "job_finish (rc_job ?c) (rl_state l) = (v, r)" by fastforce
      then have r: "r \<noteq> Cancelled_op" using outcome_not_cancelled [of "rc_job ?c" "rl_state l"] by simp
      have "l' = l\<lparr>rl_state := v\<rparr>" "s' = TBody (task_row (rl_actor_id l) start (rl_now l) r)"
        using st TSegment False job vr by (auto simp: Let_def job_segments_le checks_def)
      moreover have "task_ok (rl_actor_id l) (rl_now l) s' ?c"
        using ok TSegment False r \<open>s' = _\<close>
        by (auto simp: row_form_task_row settled_as_def serving_tok_def)
      ultimately show ?thesis by (intro exI [of _ ?c]) simp
    qed
  next
    case (TBoundary k start)
    obtain t stop where t: "rstop_at_boundary (k = checks ?c - 1) (rc_tok ?c) = (t, stop)" by fastforce
    have "l' = upd_cell i (\<lambda>c. c\<lparr>rc_tok := t\<rparr>) l"
        "s' = (if stop then TBody (task_row (rl_actor_id l) start (rl_now l) Cancelled_op) else TSegment k start)"
      using st TBoundary t by (auto simp: Let_def checks_def)
    moreover have "task_ok (rl_actor_id l) (rl_now l) s' (?c\<lparr>rc_tok := t\<rparr>)"
      using ok TBoundary t \<open>s' = _\<close>
      by (auto simp: row_form_task_row settled_as_def serving_tok_def rstop_at_boundary_def clean_def checks_def
          split: if_splits)
    ultimately show ?thesis by (intro exI [of _ "?c\<lparr>rc_tok := t\<rparr>"]) (simp add: upd_cell_def)
  next
    case (TBody r)
    let ?c' = "if rr_status r \<noteq> ''cancelled'' then ?c\<lparr>rc_tok := mark_finished (rc_tok ?c)\<rparr> else ?c"
    have "l' = l\<lparr>rl_cells := (rl_cells l)[i := ?c'], rl_state := rl_state l'\<rparr>" "s' = TFulfil r"
      using st TBody by (auto simp: upd_cell_def)
    moreover have "task_ok (rl_actor_id l) (rl_now l) s' ?c'"
      using ok TBody \<open>s' = _\<close> by (auto simp: clean_def settled_as_def mark_finished_def)
    ultimately show ?thesis by (intro exI [of _ ?c']) simp
  next
    case (TFulfil r)
    let ?c' = "?c\<lparr>rc_proms := rc_proms ?c @ [r]\<rparr>"
    have "l' = l\<lparr>rl_cells := (rl_cells l)[i := ?c'], rl_state := rl_state l'\<rparr>" "s' = TSettled"
      using st TFulfil by (auto simp: upd_cell_def)
    moreover have "task_ok (rl_actor_id l) (rl_now l) s' ?c'"
      using ok TFulfil \<open>s' = _\<close> by (auto simp: clean_def settled_as_def rc_done_def)
    ultimately show ?thesis by (intro exI [of _ ?c']) simp
  next
    case TSettled
    then have "l' = l" "s' = TSettled" using st by auto
    then show ?thesis using ok TSettled same by (intro exI [of _ ?c]) simp
  qed
qed

text \<open>The cell of a busy request changes, or the request leaves.\<close>

lemma inv_busy_step:
  assumes inv: "rl_inv l" and i: "i \<in> set (busy l)"
    and same: "rl_actor_id l' = rl_actor_id l" "rl_log l' = rl_log l" "rl_queue l' = rl_queue l"
    and cells: "rl_cells l' = (rl_cells l)[i := c']" and job: "rc_job c' = rc_job (rl_cells l ! i)"
    and dist: "distinct (busy l')" and sub: "set (busy l') \<subseteq> set (busy l)" "set (busy l) \<subseteq> insert i (set (busy l'))"
    and fin: "i \<notin> set (busy l') \<Longrightarrow> rc_done (rl_actor_id l) c'"
    and w: "worker_ok (rl_worker l') l'"
    and fl: "\<And>k s. (k, s) \<in> set (rl_flight l') \<Longrightarrow> task_ok (rl_actor_id l') (rl_now l') s (rl_cells l' ! k)"
    and m: "mode_ok l'"
  shows "rl_inv l'"
proof -
  have ids: "set (rl_log l) \<union> set (rl_queue l) = {..<length (rl_cells l)}" and d: "distinct (rl_log l @ rl_queue l)"
  proof -
    have eq: "rl_log l @ rl_queue l = [0..<length (rl_cells l)]" using inv by (simp add: rl_inv_def)
    then have "set (rl_log l @ rl_queue l) = {..<length (rl_cells l)}" by (simp only: eq) auto
    then show "set (rl_log l) \<union> set (rl_queue l) = {..<length (rl_cells l)}" by simp
    show "distinct (rl_log l @ rl_queue l)" by (simp only: eq distinct_upt)
  qed
  have il: "i \<in> set (rl_log l)" using inv i by (auto simp: rl_inv_def)
  have inq: "i \<notin> set (rl_queue l)" using d il by auto
  have "i < length (rl_cells l)" using ids il by blast
  have "\<forall>k \<in> set (rl_queue l'). rc_waiting (rl_actor_id l') (rl_cells l' ! k)"
  proof
    fix k assume k: "k \<in> set (rl_queue l')"
    then have "k \<noteq> i" using inq by (auto simp: same)
    then show "rc_waiting (rl_actor_id l') (rl_cells l' ! k)"
      using inv k by (simp add: rl_inv_def same cells)
  qed
  moreover have "\<forall>k \<in> set (rl_log l') - set (busy l'). rc_done (rl_actor_id l') (rl_cells l' ! k)"
  proof
    fix k assume k: "k \<in> set (rl_log l') - set (busy l')"
    show "rc_done (rl_actor_id l') (rl_cells l' ! k)"
    proof (cases "k = i")
      case True
      then show ?thesis using k fin \<open>i < _\<close> by (simp add: same cells)
    next
      case False
      then have "k \<in> set (rl_log l) - set (busy l)" using k sub(2) by (auto simp: same)
      then show ?thesis using inv False by (simp add: rl_inv_def same cells)
    qed
  qed
  moreover have "\<forall>c \<in> set (rl_cells l'). job_ok (rc_job c)"
  proof -
    have old: "\<forall>c \<in> set (rl_cells l). job_ok (rc_job c)" using inv by (simp add: rl_inv_def)
    then have "job_ok (rc_job c')" using job \<open>i < _\<close> by simp
    then show ?thesis using old set_update_subset_insert [of "rl_cells l" i c'] by (auto simp: cells)
  qed
  moreover have "set (busy l') \<subseteq> set (rl_log l')" using inv sub(1) by (auto simp: rl_inv_def same)
  ultimately show ?thesis
    using inv dist w fl m by (auto simp: rl_inv_def same cells)
qed

lemma ids_of_inv:
  assumes "rl_inv l"
  shows "set (rl_log l) \<union> set (rl_queue l) = {..<length (rl_cells l)}"
    and "distinct (rl_log l)" and "distinct (rl_queue l)" and "set (rl_log l) \<inter> set (rl_queue l) = {}"
proof -
  have eq: "rl_log l @ rl_queue l = [0..<length (rl_cells l)]" using assms by (simp add: rl_inv_def)
  then have "set (rl_log l @ rl_queue l) = {..<length (rl_cells l)}" by (simp only: eq) auto
  then show "set (rl_log l) \<union> set (rl_queue l) = {..<length (rl_cells l)}" by simp
  have "distinct (rl_log l @ rl_queue l)" by (simp only: eq distinct_upt)
  then show "distinct (rl_log l)" "distinct (rl_queue l)" "set (rl_log l) \<inter> set (rl_queue l) = {}" by simp_all
qed

lemma busy_lt: "rl_inv l \<Longrightarrow> i \<in> set (busy l) \<Longrightarrow> i < length (rl_cells l)"
  using ids_of_inv(1) [of l] by (auto simp: rl_inv_def)

text \<open>A client changes a cell in a way that keeps its stage.\<close>

lemma rl_inv_client:
  assumes inv: "rl_inv l" and i: "i < length (rl_cells l)"
    and job: "rc_job c' = rc_job (rl_cells l ! i)"
    and wt: "rc_waiting (rl_actor_id l) (rl_cells l ! i) \<Longrightarrow> rc_waiting (rl_actor_id l) c'"
    and dn: "rc_done (rl_actor_id l) (rl_cells l ! i) \<Longrightarrow> rc_done (rl_actor_id l) c'"
    and tk: "\<And>s. task_ok (rl_actor_id l) (rl_now l) s (rl_cells l ! i) \<Longrightarrow> task_ok (rl_actor_id l) (rl_now l) s c'"
  shows "rl_inv (l\<lparr>rl_cells := (rl_cells l)[i := c']\<rparr>)"
proof -
  let ?l = "l\<lparr>rl_cells := (rl_cells l)[i := c']\<rparr>"
  have nth: "P (rl_cells l ! k) \<Longrightarrow> (P (rl_cells l ! i) \<Longrightarrow> P c') \<Longrightarrow> P (rl_cells ?l ! k)" for P k
    using i by (cases "k = i") auto
  have "worker_ok (rl_worker ?l) ?l"
  proof (cases "rl_worker l")
    case (RPopped k)
    then show ?thesis using inv nth [of "rc_waiting (rl_actor_id l)" k] wt by (simp add: rl_inv_def)
  next
    case (RServing k s)
    then show ?thesis using inv nth [of "task_ok (rl_actor_id l) (rl_now l) s" k] tk by (simp add: rl_inv_def)
  qed (use inv in \<open>simp_all add: rl_inv_def\<close>)
  moreover have "\<forall>k \<in> set (rl_queue ?l). rc_waiting (rl_actor_id ?l) (rl_cells ?l ! k)"
    using inv nth [of "rc_waiting (rl_actor_id l)"] wt by (simp add: rl_inv_def)
  moreover have "busy ?l = busy l" by (simp add: busy_def rheld_def)
  moreover have "\<forall>k \<in> set (rl_log ?l) - set (busy l). rc_done (rl_actor_id ?l) (rl_cells ?l ! k)"
    using inv nth [of "rc_done (rl_actor_id l)"] dn by (simp add: rl_inv_def)
  moreover have "\<forall>(k, s) \<in> set (rl_flight ?l). task_ok (rl_actor_id ?l) (rl_now ?l) s (rl_cells ?l ! k)"
  proof clarify
    fix k s assume "(k, s) \<in> set (rl_flight ?l)"
    then show "task_ok (rl_actor_id ?l) (rl_now ?l) s (rl_cells ?l ! k)"
      using inv nth [of "task_ok (rl_actor_id l) (rl_now l) s" k] tk by (auto simp: rl_inv_def)
  qed
  moreover have "\<forall>c \<in> set (rl_cells ?l). job_ok (rc_job c)"
  proof -
    have old: "\<forall>c \<in> set (rl_cells l). job_ok (rc_job c)" using inv by (simp add: rl_inv_def)
    then have "job_ok (rc_job c')" using job i by simp
    then show ?thesis using old set_update_subset_insert [of "rl_cells l" i c'] by auto
  qed
  moreover have "mode_ok ?l = mode_ok l" by (simp add: mode_ok_def rheld_def)
  ultimately show ?thesis using inv by (simp add: rl_inv_def)
qed

lemma inv_cancel: "rl_inv l \<Longrightarrow> i < length (rl_cells l) \<Longrightarrow> rl_inv (fst (rl_cancel i l))"
  by (auto simp: rl_cancel_def upd_cell_def prod.case_eq_if intro!: rl_inv_client cancel_stage cancel_task)

lemma inv_settle: "rl_inv l \<Longrightarrow> i < length (rl_cells l) \<Longrightarrow> rl_inv (rl_settle i l)"
  by (auto simp: rl_settle_def upd_cell_def intro!: rl_inv_client settle_stage settle_task)

lemma inv_push:
  assumes inv: "rl_inv l" and "\<not> rl_stop l" and j: "job_ok j"
  shows "rl_inv (rl_push j l)"
proof -
  let ?l = "rl_push j l" and ?n = "length (rl_cells l)"
  note ids = ids_of_inv [OF inv]
  have old: "k < ?n \<Longrightarrow> rl_cells ?l ! k = rl_cells l ! k" for k by (simp add: rl_push_def nth_append)
  have lt: "k \<in> set (rl_log l) \<or> k \<in> set (rl_queue l) \<Longrightarrow> k < ?n" for k using ids(1) by blast
  have blt: "k \<in> set (busy l) \<Longrightarrow> k < ?n" for k using busy_lt [OF inv] .
  have b: "busy ?l = busy l" by (simp add: busy_def rheld_def rl_push_def)
  have "rl_log ?l @ rl_queue ?l = [0..<length (rl_cells ?l)]"
    using inv by (simp add: rl_push_def rl_inv_def flip: append_assoc)
  moreover have "\<forall>k \<in> set (rl_queue ?l). rc_waiting (rl_actor_id ?l) (rl_cells ?l ! k)"
  proof
    fix k assume "k \<in> set (rl_queue ?l)"
    then consider "k \<in> set (rl_queue l)" | "k = ?n" by (auto simp: rl_push_def)
    then show "rc_waiting (rl_actor_id ?l) (rl_cells ?l ! k)"
    proof cases
      case 1
      then show ?thesis using inv old [OF lt] by (simp add: rl_inv_def rl_push_def)
    next
      case 2
      then show ?thesis by (simp add: rl_push_def rc_waiting_def clean_def new_rtoken_def nth_append)
    qed
  qed
  moreover have "\<forall>k \<in> set (rl_log ?l) - set (busy ?l). rc_done (rl_actor_id ?l) (rl_cells ?l ! k)"
    using inv old [OF lt] by (simp add: rl_inv_def rl_push_def busy_def rheld_def)
  moreover have "worker_ok (rl_worker ?l) ?l"
  proof (cases "rl_worker l")
    case (RPopped k)
    then show ?thesis using inv old [OF blt, of k] by (simp add: rl_inv_def rl_push_def busy_def rheld_def)
  next
    case (RServing k s)
    then show ?thesis using inv old [OF blt, of k] by (simp add: rl_inv_def rl_push_def busy_def rheld_def)
  next
    case RExited
    then show ?thesis using inv assms(2) by (simp add: rl_inv_def)
  qed (use inv in \<open>simp_all add: rl_inv_def rl_push_def\<close>)
  moreover have "\<forall>(k, s) \<in> set (rl_flight ?l). task_ok (rl_actor_id ?l) (rl_now ?l) s (rl_cells ?l ! k)"
  proof clarify
    fix k s assume "(k, s) \<in> set (rl_flight ?l)"
    then have f: "(k, s) \<in> set (rl_flight l)" by (simp add: rl_push_def)
    then have "k < ?n" using blt [of k] by (force simp: busy_def)
    then show "task_ok (rl_actor_id ?l) (rl_now ?l) s (rl_cells ?l ! k)"
      using inv f old by (auto simp: rl_inv_def rl_push_def)
  qed
  moreover have "\<forall>c \<in> set (rl_cells ?l). job_ok (rc_job c)"
    using inv j by (simp add: rl_inv_def rl_push_def)
  moreover have "mode_ok ?l"
    using inv by (auto simp: rl_inv_def mode_ok_def rheld_def rl_push_def less_Suc_eq)
  moreover have "distinct (busy ?l)" using inv by (simp only: b rl_inv_def)
  moreover have "set (busy ?l) \<subseteq> set (rl_log ?l)"
    using inv by (simp only: b rl_inv_def) (simp add: rl_push_def)
  ultimately show ?thesis by (simp add: rl_inv_def)
qed

lemma inv_stop: "rl_inv l \<Longrightarrow> rl_inv (rl_request_stop l)"
proof -
  assume inv: "rl_inv l"
  let ?l = "rl_request_stop l"
  have "busy ?l = busy l" by (simp add: busy_def rheld_def rl_request_stop_def)
  moreover have "mode_ok l \<Longrightarrow> mode_ok ?l"
    by (auto simp: mode_ok_def rheld_def rl_request_stop_def)
  moreover have "worker_ok (rl_worker l) l \<Longrightarrow> worker_ok (rl_worker ?l) ?l"
    by (cases "rl_worker l") (simp_all add: rl_request_stop_def)
  ultimately show ?thesis using inv by (simp add: rl_inv_def rl_request_stop_def)
qed

lemma inv_tick:
  assumes "rl_inv l" "0 \<le> d"
  shows "rl_inv (l\<lparr>rl_now := rl_now l + d\<rparr>)"
proof -
  let ?l = "l\<lparr>rl_now := rl_now l + d\<rparr>"
  have later: "task_ok a (rl_now l) s c \<Longrightarrow> task_ok a (rl_now ?l) s c" for a s c
    using task_ok_later assms(2) by simp
  have "worker_ok (rl_worker ?l) ?l"
    using assms(1) later by (cases "rl_worker l") (simp_all add: rl_inv_def)
  moreover have "\<forall>(k, s) \<in> set (rl_flight ?l). task_ok (rl_actor_id ?l) (rl_now ?l) s (rl_cells ?l ! k)"
    using assms(1) later by (auto simp: rl_inv_def)
  moreover have "busy ?l = busy l" "mode_ok ?l = mode_ok l" by (simp_all add: busy_def rheld_def mode_ok_def)
  ultimately show ?thesis using assms(1) by (simp add: rl_inv_def)
qed

lemma inv_pop:
  assumes inv: "rl_inv l" and w: "rl_worker l = RIdle" and pop: "pop_item l = Some l'"
  shows "rl_inv l'"
proof (cases "rl_queue l")
  case Nil
  then have l': "l' = l\<lparr>rl_worker := RExited\<rparr>" "rl_stop l" using pop by (auto simp: pop_item_def split: if_splits)
  have "busy l' = busy l" by (simp add: busy_def rheld_def l'(1) w)
  moreover have "mode_ok l'" using inv w l' by (auto simp: rl_inv_def mode_ok_def rheld_def)
  ultimately show ?thesis using inv l' Nil by (auto simp: rl_inv_def)
next
  case (Cons i q)
  note ids = ids_of_inv [OF inv]
  have l': "l' = (if rl_nonblocking l then l\<lparr>rl_queue := q, rl_worker := RPopped i, rl_log := rl_log l @ [i]\<rparr>
      else l\<lparr>rl_queue := q, rl_active := True, rl_active_tok := Some i, rl_worker := RPopped i, rl_log := rl_log l @ [i]\<rparr>)"
    and cap: "rl_nonblocking l \<longrightarrow> rl_stop l \<or> int (length (rl_flight l)) < rl_max l"
    using pop Cons by (auto simp: pop_item_def split: if_splits)
  have same: "rl_actor_id l' = rl_actor_id l" "rl_cells l' = rl_cells l" "rl_now l' = rl_now l"
      "rl_flight l' = rl_flight l" "rl_log l' = rl_log l @ [i]" "rl_queue l' = q" "rl_worker l' = RPopped i"
    by (simp_all add: l')
  have b: "busy l' = i # map fst (rl_flight l)" "busy l = map fst (rl_flight l)"
    by (simp_all add: busy_def rheld_def same w)
  have i: "i \<notin> set (rl_log l)" "i < length (rl_cells l)" using ids(1,4) Cons by auto
  then have nb: "i \<notin> fst ` set (rl_flight l)" using inv b(2) by (auto simp: rl_inv_def)
  have "rl_log l' @ rl_queue l' = [0..<length (rl_cells l')]" using inv Cons by (simp add: rl_inv_def same)
  moreover have "distinct (busy l')" using inv b nb by (simp add: rl_inv_def)
  moreover have "set (busy l') \<subseteq> set (rl_log l')" using inv b by (auto simp: rl_inv_def same)
  moreover have "\<forall>k \<in> set (rl_log l') - set (busy l'). rc_done (rl_actor_id l') (rl_cells l' ! k)"
    using inv b by (auto simp: rl_inv_def same)
  moreover have "worker_ok (rl_worker l') l'" using inv Cons by (simp add: same rl_inv_def)
  moreover have "mode_ok l'"
    using inv w cap i(2) by (auto simp: rl_inv_def mode_ok_def rheld_def l')
  ultimately show ?thesis using inv Cons by (simp add: rl_inv_def same)
qed

lemma waiting_begin:
  assumes "rc_waiting a c" "rbegin_service (checks c) (rc_tok c) = (t, ok)"
  shows "if ok then task_ok a now TStart (c\<lparr>rc_tok := t\<rparr>) else t = rc_tok c \<and> rc_done a c"
  using assms
  by (auto simp: rc_waiting_def rbegin_service_def checks_def clean_def serving_tok_def rc_done_def
      rc_skipped_def split: if_splits)

lemma inv_dispatch:
  assumes inv: "rl_inv l" and w: "rl_worker l = RPopped i"
  shows "rl_inv (dispatch_item i l)"
proof -
  let ?l = "dispatch_item i l" and ?c = "rl_cells l ! i" and ?j = "rc_job (rl_cells l ! i)"
  have b: "busy l = i # map fst (rl_flight l)" by (simp add: busy_def rheld_def w)
  then have ib: "i \<in> set (busy l)" and il: "i < length (rl_cells l)" using busy_lt [OF inv] by simp_all
  have fresh: "i \<notin> fst ` set (rl_flight l)" using inv b by (simp add: rl_inv_def)
  have wt: "rc_waiting (rl_actor_id l) ?c" using inv w by (simp add: rl_inv_def)
  have fl: "task_ok (rl_actor_id l) (rl_now l) s (rl_cells l ! k)" if "(k, s) \<in> set (rl_flight l)" for k s
    using inv that by (auto simp: rl_inv_def)
  have m: "mode_ok l" and d: "distinct (map fst (rl_flight l))" using inv b by (simp_all add: rl_inv_def)
  obtain t ok where t: "rbegin_service (checks ?c) (rc_tok ?c) = (t, ok)" by fastforce
  note bgn = waiting_begin [OF wt t, of "rl_now l"]
  show ?thesis
  proof (cases ok)
    case False
    then have l': "?l = l\<lparr>rl_worker := (if rl_nonblocking l then RIdle else RClear)\<rparr>"
      using t by (simp add: dispatch_item_def checks_def)
    have busy': "busy ?l = map fst (rl_flight l)" by (simp add: l' busy_def rheld_def)
    have "mode_ok ?l" using m w by (auto simp: l' mode_ok_def rheld_def)
    then show ?thesis
      using inv bgn False fl d b busy'
      by (intro inv_busy_step [OF inv ib, where c' = ?c]) (auto simp: l')
  next
    case True
    let ?c' = "?c\<lparr>rc_tok := t\<rparr>" and ?n = "rl_nonblocking l \<and> job_policy ?j = Async"
    have l': "?l = (if ?n then l\<lparr>rl_cells := (rl_cells l)[i := ?c'], rl_flight := rl_flight l @ [(i, TStart)], rl_worker := RIdle\<rparr>
        else l\<lparr>rl_cells := (rl_cells l)[i := ?c'], rl_worker := RServing i TStart\<rparr>)"
      using t True by (simp add: dispatch_item_def checks_def upd_cell_def Let_def)
    have ok: "task_ok (rl_actor_id l) (rl_now l) TStart ?c'" using bgn True by simp
    have fl': "task_ok (rl_actor_id l) (rl_now l) s ((rl_cells l)[i := ?c'] ! k)" if "(k, s) \<in> set (rl_flight l)" for k s
    proof -
      have "k \<noteq> i" using fresh that by force
      then show ?thesis using fl [OF that] by simp
    qed
    show ?thesis
    proof (cases ?n)
      case True
      have "mode_ok ?l" using m w True by (auto simp: l' mode_ok_def rheld_def)
      then show ?thesis
        using True il ok fl' d fresh b
        by (intro inv_busy_step [OF inv ib, where c' = ?c']) (auto simp: l' busy_def rheld_def)
    next
      case False
      then have l'': "?l = l\<lparr>rl_cells := (rl_cells l)[i := ?c'], rl_worker := RServing i TStart\<rparr>" by (simp only: l' if_False)
      have "mode_ok ?l" using m w by (auto simp: l'' mode_ok_def rheld_def)
      then show ?thesis
        using il ok fl' d fresh b
        by (intro inv_busy_step [OF inv ib, where c' = ?c']) (auto simp: l'' busy_def rheld_def)
    qed
  qed
qed

lemma inv_serve:
  assumes inv: "rl_inv l" and w: "rl_worker l = RServing i s" and st: "task_step i s l = (l', s')"
  shows "rl_inv (l'\<lparr>rl_worker := RServing i s'\<rparr>)"
proof -
  have b: "busy l = i # map fst (rl_flight l)" by (simp add: busy_def rheld_def w)
  then have ib: "i \<in> set (busy l)" and il: "i < length (rl_cells l)" using busy_lt [OF inv] by simp_all
  have ok: "task_ok (rl_actor_id l) (rl_now l) s (rl_cells l ! i)" and j: "job_ok (rc_job (rl_cells l ! i))"
    using inv w il by (auto simp: rl_inv_def)
  obtain c' v where c': "l' = l\<lparr>rl_cells := (rl_cells l)[i := c'], rl_state := v\<rparr>"
      "rc_job c' = rc_job (rl_cells l ! i)" "task_ok (rl_actor_id l) (rl_now l) s' c'"
    using task_step_ok [OF ok j il st] by blast
  let ?l = "l'\<lparr>rl_worker := RServing i s'\<rparr>"
  have l: "rl_actor_id ?l = rl_actor_id l" "rl_log ?l = rl_log l" "rl_queue ?l = rl_queue l"
      "rl_cells ?l = (rl_cells l)[i := c']" "rl_flight ?l = rl_flight l" "rl_now ?l = rl_now l"
    by (simp_all add: c'(1))
  have b': "busy ?l = busy l" using l(5) by (simp add: busy_def rheld_def w)
  have "mode_ok ?l"
  proof -
    have "mode_ok l" using inv by (simp add: rl_inv_def)
    then show ?thesis using w by (auto simp: c'(1) mode_ok_def rheld_def split: if_splits)
  qed
  moreover have "task_ok (rl_actor_id ?l) (rl_now ?l) s (rl_cells ?l ! k)" if "(k, s) \<in> set (rl_flight ?l)" for k s
  proof -
    have fresh: "i \<notin> fst ` set (rl_flight l)" using inv b by (simp add: rl_inv_def)
    have "(k, s) \<in> set (rl_flight l)" using that l(5) by simp
    moreover from this have "k \<noteq> i" using fresh by force
    ultimately show ?thesis using inv by (auto simp: l rl_inv_def)
  qed
  moreover have "worker_ok (rl_worker ?l) ?l" using c'(3) il l by simp
  moreover have "distinct (busy ?l)" using inv by (simp only: b' rl_inv_def)
  ultimately show ?thesis
    using c'(2) ib b' by (intro inv_busy_step [OF inv ib l(1-4) c'(2)]) auto
qed

lemma inv_unserve:
  assumes inv: "rl_inv l" and w: "rl_worker l = RServing i TSettled"
  shows "rl_inv (l\<lparr>rl_worker := (if rl_nonblocking l then RIdle else RClear)\<rparr>)"
proof -
  let ?l = "l\<lparr>rl_worker := (if rl_nonblocking l then RIdle else RClear)\<rparr>"
  have b: "busy l = i # map fst (rl_flight l)" "busy ?l = map fst (rl_flight l)"
    by (simp_all add: busy_def rheld_def w)
  have "mode_ok ?l" using inv w by (auto simp: rl_inv_def mode_ok_def rheld_def)
  moreover have "rc_done (rl_actor_id l) (rl_cells l ! i)" using inv w by (simp add: rl_inv_def)
  moreover have "distinct (map fst (rl_flight l))" using inv b by (simp add: rl_inv_def)
  moreover have "task_ok (rl_actor_id l) (rl_now l) s (rl_cells l ! k)" if "(k, s) \<in> set (rl_flight l)" for k s
    using inv that by (auto simp: rl_inv_def)
  ultimately show ?thesis
    using b by (intro inv_busy_step [OF inv, of i _ "rl_cells l ! i"]) auto
qed

lemma inv_clear:
  assumes inv: "rl_inv l" and w: "rl_worker l = RClear"
  shows "rl_inv (clear_active l)"
proof -
  have "busy (clear_active l) = busy l" by (simp add: busy_def rheld_def w clear_active_def)
  moreover have "mode_ok (clear_active l)" using inv w by (auto simp: rl_inv_def mode_ok_def rheld_def clear_active_def)
  ultimately show ?thesis using inv by (simp add: rl_inv_def clear_active_def)
qed

lemma inv_consumer:
  assumes inv: "rl_inv l" and st: "consumer_step l = Some l'"
  shows "rl_inv l'"
proof (cases "rl_worker l")
  case RIdle
  then show ?thesis using inv_pop [OF inv] st by (simp add: consumer_step_def)
next
  case (RPopped i)
  then show ?thesis using inv_dispatch [OF inv] st by (simp add: consumer_step_def)
next
  case (RServing i s)
  show ?thesis
  proof (cases "s = TSettled")
    case True
    then show ?thesis using inv_unserve [OF inv, of i] RServing st by (simp add: consumer_step_def split: if_splits)
  next
    case False
    obtain m s' where m: "task_step i s l = (m, s')" by fastforce
    then have "l' = m\<lparr>rl_worker := RServing i s'\<rparr>"
      using st RServing False by (cases s) (auto simp: consumer_step_def)
    then show ?thesis using inv_serve [OF inv RServing m] by simp
  qed
next
  case RClear
  then show ?thesis using inv_clear [OF inv] st by (simp add: consumer_step_def)
next
  case RExited
  then show ?thesis using st by (simp add: consumer_step_def)
qed

lemma inv_flight:
  assumes inv: "rl_inv l" and st: "flight_step n l = Some l'"
  shows "rl_inv l'"
proof -
  have n: "n < length (rl_flight l)" using st by (simp add: flight_step_def split: if_splits)
  obtain i s where elt: "rl_flight l ! n = (i, s)" by fastforce
  have mem: "(i, s) \<in> set (rl_flight l)" using n elt by (metis nth_mem)
  have ib: "i \<in> set (busy l)" using mem by (force simp: busy_def)
  have il: "i < length (rl_cells l)" using busy_lt [OF inv ib] .
  have d: "distinct (rheld l @ map fst (rl_flight l))" using inv by (simp only: rl_inv_def busy_def)
  have nb: "rl_nonblocking l" using inv n by (auto simp: rl_inv_def mode_ok_def split: if_splits)
  have m: "mode_ok l" using inv by (simp add: rl_inv_def)
  have ok: "task_ok (rl_actor_id l) (rl_now l) s (rl_cells l ! i)" and j: "job_ok (rc_job (rl_cells l ! i))"
    using inv mem il by (auto simp: rl_inv_def)
  have wk: "worker_ok (rl_worker l) l" using inv by (simp add: rl_inv_def)
  have hn: "i \<notin> set (rheld l)" using d mem by force
  show ?thesis
  proof (cases "s = TSettled")
    case True
    let ?f = "take n (rl_flight l) @ drop (Suc n) (rl_flight l)"
    have l': "l' = l\<lparr>rl_flight := ?f\<rparr>" using st n elt True by (simp add: flight_step_def)
    have split: "rl_flight l = take n (rl_flight l) @ (i, s) # drop (Suc n) (rl_flight l)"
      using id_take_nth_drop [OF n] elt by simp
    have sets: "set (rl_flight l) = insert (i, s) (set ?f)" by (subst split) auto
    have d': "distinct (rheld l @ map fst ?f)" using d by (subst (asm) split) auto
    have bl: "busy l' = rheld l @ map fst ?f" by (simp add: l' busy_def rheld_def)
    have sub: "set (busy l') \<subseteq> set (busy l)" "set (busy l) \<subseteq> insert i (set (busy l'))"
    proof -
      have sb: "set (busy l) = set (rheld l) \<union> fst ` set (rl_flight l)" by (simp add: busy_def)
      show "set (busy l') \<subseteq> set (busy l)" "set (busy l) \<subseteq> insert i (set (busy l'))"
        unfolding sb sets bl by auto
    qed
    have "mode_ok l'"
      using m nb n by (auto simp: l' mode_ok_def)
    moreover have "worker_ok (rl_worker l') l'" using wk by (cases "rl_worker l") (simp_all add: l')
    moreover have "task_ok (rl_actor_id l') (rl_now l') s' (rl_cells l' ! k)" if "(k, s') \<in> set (rl_flight l')" for k s'
    proof -
      have "(k, s') \<in> set (rl_flight l)" using that sets by (simp add: l')
      then show ?thesis using inv by (auto simp: rl_inv_def l')
    qed
    ultimately show ?thesis
      using ok True d' bl sub by (intro inv_busy_step [OF inv ib, where c' = "rl_cells l ! i"]) (auto simp: l')
  next
    case False
    obtain m' s' where m': "task_step i s l = (m', s')" by fastforce
    then have l'0: "l' = m'\<lparr>rl_flight := (rl_flight m')[n := (i, s')]\<rparr>"
      using st n elt False by (simp add: flight_step_def)
    obtain c' v where c': "m' = l\<lparr>rl_cells := (rl_cells l)[i := c'], rl_state := v\<rparr>"
        "rc_job c' = rc_job (rl_cells l ! i)" "task_ok (rl_actor_id l) (rl_now l) s' c'"
      using task_step_ok [OF ok j il m'] by blast
    let ?f = "(rl_flight l)[n := (i, s')]"
    have l': "l' = l\<lparr>rl_cells := (rl_cells l)[i := c'], rl_state := v, rl_flight := ?f\<rparr>"
      by (simp add: l'0 c'(1))
    have fst: "map fst ?f = map fst (rl_flight l)"
      using n elt by (simp add: map_update list_update_same_conv)
    have bl: "busy l' = busy l" by (simp only: busy_def) (simp add: l' rheld_def fst)
    have "mode_ok l'" using m nb by (simp add: l' mode_ok_def)
    moreover have "worker_ok (rl_worker l') l'"
      using wk hn by (cases "rl_worker l") (simp_all add: l' rheld_def)
    moreover have "task_ok (rl_actor_id l') (rl_now l') s'' (rl_cells l' ! k)" if "(k, s'') \<in> set (rl_flight l')" for k s''
    proof -
      from that have "(k, s'') \<in> set ?f" by (simp add: l')
      then obtain p where p: "p < length (rl_flight l)" "?f ! p = (k, s'')" by (auto simp: in_set_conv_nth)
      show ?thesis
      proof (cases "p = n")
        case True
        then show ?thesis using p c'(3) il by (simp add: l')
      next
        case False
        then have kp: "rl_flight l ! p = (k, s'')" using p by simp
        have "distinct (map fst (rl_flight l))" using d by simp
        then have "map fst (rl_flight l) ! p \<noteq> map fst (rl_flight l) ! n"
          using False p(1) n by (simp only: nth_eq_iff_index_eq length_map) simp
        then have "k \<noteq> i" using kp elt p(1) n by simp
        moreover have "(k, s'') \<in> set (rl_flight l)" using kp p(1) by (metis nth_mem)
        ultimately show ?thesis using inv by (auto simp: rl_inv_def l')
      qed
    qed
    moreover have "distinct (busy l')" using inv by (simp only: bl rl_inv_def)
    ultimately show ?thesis
      using ib bl by (intro inv_busy_step [OF inv ib _ _ _ _ c'(2)]) (auto simp: l')
  qed
qed

lemma inv_step: "rl_step l l' \<Longrightarrow> rl_inv l \<Longrightarrow> rl_inv l'"
proof (induction rule: rl_step.induct)
  case (Submit l j)
  then show ?case using inv_push by blast
next
  case (Cancel i l)
  then show ?case using inv_cancel by blast
next
  case (Settle i l)
  then show ?case using inv_settle by blast
next
  case (Stop l)
  then show ?case using inv_stop by blast
next
  case (Tick d l)
  then show ?case using inv_tick by blast
next
  case (Consumer l l')
  then show ?case using inv_consumer by blast
next
  case (Flight n l l')
  then show ?case using inv_flight by blast
qed

lemma rl_reachable_inv: "rl_reachable a nb mi v l \<Longrightarrow> rl_inv l"
proof (induction rule: rl_reachable.induct)
  case (New t)
  then show ?case by (rule rl_inv_new)
next
  case (Step l l')
  then show ?case using inv_step by blast
qed

end
