(* ===== verification/RuntimeLaneProps.thy ===== *)
theory RuntimeLaneProps
  imports RuntimeLaneInv RuntimeBoundary
begin

text \<open>
  What a runtime lane promises, in both modes: one row per request, agreeing with its token; the bound
  on what is in flight; the order of service; and that stopping a lane settles every request.
\<close>

subsection \<open>One row per request\<close>

lemma stage_cases:
  assumes inv: "rl_inv l" and i: "i < length (rl_cells l)"
  obtains "rc_waiting (rl_actor_id l) (rl_cells l ! i)"
    | s where "task_ok (rl_actor_id l) (rl_now l) s (rl_cells l ! i)"
    | "rc_done (rl_actor_id l) (rl_cells l ! i)"
proof -
  have "i \<in> set (rl_log l) \<union> set (rl_queue l)" using ids_of_inv(1) [OF inv] i by blast
  then consider "i \<in> set (rl_queue l)" | "i \<in> set (rl_log l) - set (busy l)"
    | "i \<in> set (rheld l)" | "i \<in> set (map fst (rl_flight l))" by (auto simp: busy_def)
  then show ?thesis
  proof cases
    case 1
    then show ?thesis using inv that(1) by (simp add: rl_inv_def)
  next
    case 2
    then show ?thesis using inv that(3) by (simp add: rl_inv_def)
  next
    case 3
    then show ?thesis using inv that by (cases "rl_worker l") (auto simp: rl_inv_def rheld_def)
  next
    case 4
    then show ?thesis using inv that(2) by (auto simp: rl_inv_def)
  qed
qed

lemma row_form_skip: "row_form a (task_row a t t Cancelled_op)"
  by (rule row_form_task_row) simp

lemma cell_row:
  assumes "rl_inv l" "i < length (rl_cells l)"
  shows "length (rc_proms (rl_cells l ! i)) \<le> 1"
    and "r \<in> set (rc_proms (rl_cells l ! i)) \<Longrightarrow> row_form (rl_actor_id l) r
      \<and> (rr_status r = ''cancelled'') = ris_cancelled (rc_tok (rl_cells l ! i))"
proof -
  let ?c = "rl_cells l ! i" and ?a = "rl_actor_id l"
  have skip: "rc_skipped ?a ?c \<Longrightarrow> length (rc_proms ?c) \<le> 1 \<and> (\<forall>r \<in> set (rc_proms ?c). row_form ?a r
      \<and> (rr_status r = ''cancelled'') = ris_cancelled (rc_tok ?c))"
    by (auto simp: rc_skipped_def row_form_skip ris_cancelled_def)
  have fin: "rc_done ?a ?c \<Longrightarrow> length (rc_proms ?c) \<le> 1 \<and> (\<forall>r \<in> set (rc_proms ?c). row_form ?a r
      \<and> (rr_status r = ''cancelled'') = ris_cancelled (rc_tok ?c))"
    using skip by (auto simp: rc_done_def settled_as_def ris_cancelled_def split: if_splits)
  have clean: "clean ?c \<Longrightarrow> length (rc_proms ?c) \<le> 1 \<and> (\<forall>r \<in> set (rc_proms ?c). row_form ?a r
      \<and> (rr_status r = ''cancelled'') = ris_cancelled (rc_tok ?c))"
    by (simp add: clean_def)
  have "length (rc_proms ?c) \<le> 1 \<and> (\<forall>r \<in> set (rc_proms ?c). row_form ?a r
      \<and> (rr_status r = ''cancelled'') = ris_cancelled (rc_tok ?c))"
  proof (rule stage_cases [OF assms])
    assume "rc_waiting ?a ?c"
    then show ?thesis using skip clean unfolding rc_waiting_def by blast
  next
    fix s assume "task_ok ?a (rl_now l) s ?c"
    then show ?thesis using clean fin by (cases s) auto
  next
    assume "rc_done ?a ?c"
    then show ?thesis using fin by blast
  qed
  then show "length (rc_proms ?c) \<le> 1"
    and "r \<in> set (rc_proms ?c) \<Longrightarrow> row_form ?a r \<and> (rr_status r = ''cancelled'') = ris_cancelled (rc_tok ?c)"
    by blast+
qed

lemma reachable_actor: "rl_reachable a nb mi v l \<Longrightarrow>
  rl_actor_id l = a \<and> rl_nonblocking l = nb \<and> rl_max l = (if mi < 1 then 1 else mi)"
proof (induction rule: rl_reachable.induct)
  case (New t)
  then show ?case by (simp add: new_rlane_def)
next
  case (Step l l')
  have task: "task_step i s m = (m', s') \<Longrightarrow> rl_actor_id m' = rl_actor_id m
      \<and> rl_nonblocking m' = rl_nonblocking m \<and> rl_max m' = rl_max m" for i s m m' s'
    by (cases s) (auto simp: Let_def upd_cell_def split: if_splits prod.splits)
  have "rl_actor_id l' = rl_actor_id l \<and> rl_nonblocking l' = rl_nonblocking l \<and> rl_max l' = rl_max l"
    using Step.hyps(2)
  proof cases
    case Consumer
    then show ?thesis using task
      by (auto simp: consumer_step_def pop_item_def dispatch_item_def upd_cell_def clear_active_def Let_def
          split: rworker.splits task.splits list.splits if_splits prod.splits)
  next
    case (Flight n)
    then show ?thesis using task by (auto simp: flight_step_def split: if_splits prod.splits)
  qed (simp_all add: rl_push_def rl_cancel_def rl_settle_def upd_cell_def rl_request_stop_def split: prod.splits)
  then show ?case using Step.IH by simp
qed

text \<open>
  C16. A runtime request has at most one row, over every interleaving of clients, consumer, continuations
  and shutdown, in both lane modes. The row carries the lane's id, does not end before it starts, has a
  value exactly when it completed and an error exactly when it failed; and it is a cancelled row exactly
  when \<open>cancelled()\<close> says so.
\<close>

theorem runtime_row_once:
  assumes "rl_reachable a nb mi v l" and "i < length (rl_cells l)"
  shows "length (rc_proms (rl_cells l ! i)) \<le> 1
    \<and> (\<forall>r. r \<in> set (rc_proms (rl_cells l ! i)) \<longrightarrow>
       rr_actor_id r = a \<and> rr_start_ns r \<le> rr_end_ns r
       \<and> rr_has_value r = (rr_status r = ''completed'') \<and> (rr_error r = '''') = (rr_status r \<noteq> ''failed'')
       \<and> (rr_status r = ''cancelled'') = ris_cancelled (rc_tok (rl_cells l ! i)))"
  using cell_row [OF rl_reachable_inv [OF assms(1)] assms(2)] reachable_actor [OF assms(1)]
  by (auto simp: row_form_def)

text \<open>A lane with one request, cancelled while it was queued.\<close>

definition rdemo_lane :: rlane where
  "rdemo_lane = cancel_fully 0 (rl_push (JOp ''square'' [OVInt 3]) (new_rlane ''rt-hpx-0'' False 1 0 100))"

lemma rdemo_reachable: "rl_reachable ''rt-hpx-0'' False 1 0 rdemo_lane"
proof -
  let ?n = "new_rlane ''rt-hpx-0'' False 1 0 100"
  let ?p = "rl_push (JOp ''square'' [OVInt 3]) ?n"
  have "rl_reachable ''rt-hpx-0'' False 1 0 ?n" by (rule rl_reachable.New)
  moreover have "rl_step ?n ?p"
    by (rule rl_step.Submit) (simp_all add: new_rlane_def job_ok_def checkpoint_count_def)
  ultimately have "rl_reachable ''rt-hpx-0'' False 1 0 ?p" by (rule rl_reachable.Step)
  moreover have "rl_step ?p (fst (rl_cancel 0 ?p))" by (rule rl_step.Cancel) (simp add: rl_push_def)
  ultimately have "rl_reachable ''rt-hpx-0'' False 1 0 (fst (rl_cancel 0 ?p))" by (rule rl_reachable.Step)
  moreover have "rl_step (fst (rl_cancel 0 ?p)) rdemo_lane" unfolding rdemo_lane_def cancel_fully_def
    by (rule rl_step.Settle) (simp add: rl_push_def rl_cancel_def upd_cell_def split: prod.split)
  ultimately show ?thesis by (rule rl_reachable.Step)
qed

lemma rdemo_cells: "rl_cells rdemo_lane = [\<lparr>rc_job = JOp ''square'' [OVInt 3],
    rc_tok = \<lparr>rt_phase = RCancelled, rt_cancellable = False\<rparr>, rc_pend = False,
    rc_proms = [task_row ''rt-hpx-0'' 100 100 Cancelled_op]\<rparr>]"
  by (simp add: rdemo_lane_def cancel_fully_def rl_cancel_def rcancel_cell_def rcancel_def rl_settle_def
      upd_cell_def rsettle_cell_def rl_push_def new_rlane_def new_rtoken_def)

lemma runtime_row_once_witness:
  "length (rc_proms (rl_cells rdemo_lane ! 0)) = 1 \<and> length (rc_proms (rl_cells rdemo_lane ! 0)) \<le> 1"
  using runtime_row_once [OF rdemo_reachable, of 0] by (simp add: rdemo_cells)

subsection \<open>Bounds and order\<close>

text \<open>
  A non-blocking lane never has more operations in flight than its cap, until it is stopped (then
  the consumer drains its queue without waiting for slots); a serial lane has none in flight.
\<close>

theorem inflight_bounded:
  assumes "rl_reachable a nb mi v l"
  shows "(nb \<and> \<not> rl_stop l \<longrightarrow> int (length (rl_flight l)) \<le> max 1 mi) \<and> (\<not> nb \<longrightarrow> rl_flight l = [])"
proof -
  have "mode_ok l" using rl_reachable_inv [OF assms] by (simp add: rl_inv_def)
  then show ?thesis using reachable_actor [OF assms] by (auto simp: mode_ok_def split: if_splits)
qed

lemma inflight_bounded_witness: "rl_flight rdemo_lane = []"
  using inflight_bounded [OF rdemo_reachable] by simp

definition held_last :: "rlane \<Rightarrow> bool" where
  "held_last l \<longleftrightarrow> (rheld l = [] \<or> rl_log l \<noteq> [] \<and> rheld l = [last (rl_log l)])"

lemma upd_cell_jobs:
  assumes "\<And>c. rc_job (f c) = rc_job c"
  shows "map rc_job (rl_cells (upd_cell i f l)) = map rc_job (rl_cells l)"
proof (cases "i < length (rl_cells l)")
  case True
  then have "(map rc_job (rl_cells l))[i := rc_job (rl_cells l ! i)] = map rc_job (rl_cells l)"
    by (metis list_update_id nth_map)
  then show ?thesis by (simp add: upd_cell_def map_update assms)
qed (simp add: upd_cell_def list_update_beyond)

lemma task_step_frame:
  assumes "task_step i s l = (l', s')"
  shows "rl_log l' = rl_log l \<and> rl_queue l' = rl_queue l \<and> rl_worker l' = rl_worker l \<and> rl_stop l' = rl_stop l
    \<and> rl_flight l' = rl_flight l \<and> rl_nonblocking l' = rl_nonblocking l"
    and "map rc_job (rl_cells l') = map rc_job (rl_cells l)"
proof -
  show "rl_log l' = rl_log l \<and> rl_queue l' = rl_queue l \<and> rl_worker l' = rl_worker l \<and> rl_stop l' = rl_stop l
    \<and> rl_flight l' = rl_flight l \<and> rl_nonblocking l' = rl_nonblocking l"
    using assms by (cases s) (auto simp: Let_def upd_cell_def split: if_splits prod.splits)
  show "map rc_job (rl_cells l') = map rc_job (rl_cells l)"
    using assms by (cases s) (auto simp: Let_def upd_cell_jobs split: if_splits prod.splits)
qed

lemma consumer_serving:
  assumes "consumer_step l = Some l'" "rl_worker l = RServing i s" "s \<noteq> TSettled"
  obtains m s' where "task_step i s l = (m, s')" "l' = m\<lparr>rl_worker := RServing i s'\<rparr>"
  using assms by (cases s) (auto simp: consumer_step_def split: prod.splits)

lemma flight_cases:
  assumes "flight_step n l = Some l'"
  obtains i where "n < length (rl_flight l)" "rl_flight l ! n = (i, TSettled)"
      "l' = l\<lparr>rl_flight := take n (rl_flight l) @ drop (Suc n) (rl_flight l)\<rparr>"
    | i s m s' where "n < length (rl_flight l)" "rl_flight l ! n = (i, s)" "s \<noteq> TSettled"
        "task_step i s l = (m, s')" "l' = m\<lparr>rl_flight := (rl_flight m)[n := (i, s')]\<rparr>"
  using assms by (auto simp: flight_step_def split: if_splits prod.splits)

lemma held_last_reachable: "rl_reachable a nb mi v l \<Longrightarrow> held_last l"
proof (induction rule: rl_reachable.induct)
  case (New t)
  then show ?case by (simp add: held_last_def rheld_def new_rlane_def)
next
  case (Step l l')
  have keep: "rl_log l' = rl_log l \<Longrightarrow> rheld l' = rheld l \<or> rheld l' = [] \<Longrightarrow> held_last l'"
    using Step.IH by (auto simp: held_last_def)
  show ?case using Step.hyps(2)
  proof cases
    case Consumer
    show ?thesis
    proof (cases "rl_worker l")
      case RIdle
      then show ?thesis using Consumer
        by (auto simp: consumer_step_def pop_item_def held_last_def rheld_def split: list.splits if_splits)
    next
      case (RPopped i)
      then show ?thesis using Consumer keep
        by (auto simp: consumer_step_def dispatch_item_def upd_cell_def rheld_def Let_def split: prod.splits if_splits)
    next
      case (RServing i s)
      show ?thesis
      proof (cases "s = TSettled")
        case True
        then show ?thesis using Consumer RServing keep by (auto simp: consumer_step_def rheld_def split: if_splits)
      next
        case False
        obtain m s' where m: "task_step i s l = (m, s')" "l' = m\<lparr>rl_worker := RServing i s'\<rparr>"
          using consumer_serving [OF Consumer RServing False] by blast
        show ?thesis using keep task_step_frame(1) [OF m(1)] RServing m(2) by (simp add: rheld_def)
      qed
    next
      case RClear
      then show ?thesis using Consumer keep by (auto simp: consumer_step_def clear_active_def rheld_def)
    next
      case RExited
      then show ?thesis using Consumer by (simp add: consumer_step_def)
    qed
  next
    case (Flight n)
    then show ?thesis
    proof (cases rule: flight_cases)
      case (1 i)
      then show ?thesis using keep by (simp add: rheld_def)
    next
      case (2 i s m s')
      then show ?thesis using keep task_step_frame [OF 2(4)] by (simp add: rheld_def)
    qed
  qed (use Step.IH in \<open>auto simp: held_last_def rheld_def rl_push_def rl_cancel_def rl_settle_def upd_cell_def rl_request_stop_def
      split: prod.splits\<close>)
qed

text \<open>
  Service order: requests leave the queue in submission order, in both modes; on a serial lane a
  request is taken only after every earlier one is over (its row set, or cancelled while queued), so
  at most one is in service.
\<close>

theorem service_order:
  assumes "rl_reachable a nb mi v l"
  shows "rl_log l = [0..<length (rl_log l)]
    \<and> (\<not> nb \<longrightarrow> (\<forall>i j. i < j \<longrightarrow> j < length (rl_log l) \<longrightarrow> rc_done a (rl_cells l ! i)))"
proof -
  note inv = rl_reachable_inv [OF assms]
  have "rl_log l @ rl_queue l = [0..<length (rl_cells l)]" using inv by (simp add: rl_inv_def)
  then have "rl_log l = take (length (rl_log l)) [0..<length (rl_cells l)]" "length (rl_log l) \<le> length (rl_cells l)"
    by (metis append_eq_conv_conj, metis length_append length_upt le_add1 diff_zero)
  then have log: "rl_log l = [0..<length (rl_log l)]" by (metis add_0 take_upt)
  have "rc_done a (rl_cells l ! i)" if nb: "\<not> nb" and ij: "i < j" "j < length (rl_log l)" for i j
  proof -
    have fl: "rl_flight l = []" and act: "rl_actor_id l = a"
      using inv nb reachable_actor [OF assms] by (auto simp: rl_inv_def mode_ok_def)
    have "i \<in> set (rl_log l)" using ij by (subst log) simp
    moreover have "i \<notin> set (busy l)"
    proof -
      have "rheld l = [] \<or> rheld l = [last (rl_log l)]" using held_last_reachable [OF assms] by (auto simp: held_last_def)
      moreover have "last (rl_log l) = length (rl_log l) - 1"
        using ij last_upt [of 0 "length (rl_log l)"] by (subst log) linarith
      ultimately show ?thesis using fl ij by (auto simp: busy_def)
    qed
    ultimately show ?thesis using inv act by (auto simp: rl_inv_def)
  qed
  then show ?thesis using log by blast
qed

lemma service_order_witness: "rl_log rdemo_lane = [0..<length (rl_log rdemo_lane)]"
  using service_order [OF rdemo_reachable] by blast

subsection \<open>A settled cancellation is final\<close>

definition settled_at :: "nat \<Rightarrow> rlane \<Rightarrow> bool" where
  "settled_at i l \<longleftrightarrow> i < length (rl_cells l) \<and> ris_cancelled (rc_tok (rl_cells l ! i))"

lemma settled_upd:
  assumes "settled_at i l" and "\<And>c. c = rl_cells l ! k \<Longrightarrow> k = i \<Longrightarrow> ris_cancelled (rc_tok c) \<Longrightarrow> ris_cancelled (rc_tok (f c))"
  shows "settled_at i (upd_cell k f l)"
  using assms by (cases "k = i") (simp_all add: settled_at_def upd_cell_def)

lemma settled_task:
  assumes "settled_at i l" "task_step k s l = (l', s')"
  shows "settled_at i l'"
proof (cases s)
  case (TBoundary b start)
  obtain t stop where t: "rstop_at_boundary (b = job_checkpoints (rc_job (rl_cells l ! k)) - 1) (rc_tok (rl_cells l ! k)) = (t, stop)"
    by fastforce
  then have l': "l' = upd_cell k (\<lambda>c. c\<lparr>rc_tok := t\<rparr>) l" using assms(2) TBoundary by (auto simp: Let_def)
  show ?thesis unfolding l'
    by (rule settled_upd [OF assms(1)])
      (use t in \<open>auto simp: rstop_at_boundary_def ris_cancelled_def split: if_splits\<close>)
next
  case (TBody r)
  then show ?thesis using assms by (auto intro!: settled_upd simp: mark_finished_def ris_cancelled_def split: if_splits)
next
  case (TFulfil r)
  then show ?thesis using assms by (auto intro!: settled_upd)
next
  case (TSegment b start)
  then show ?thesis using assms by (auto simp: Let_def settled_at_def split: if_splits prod.splits)
qed (use assms in auto)

lemma settled_dispatch:
  assumes "settled_at i l" "rl_inv l" "rl_worker l = RPopped k"
  shows "settled_at i (dispatch_item k l)"
proof -
  have wt: "rc_waiting (rl_actor_id l) (rl_cells l ! k)" using assms(2,3) by (simp add: rl_inv_def)
  show ?thesis
  proof (cases "k = i")
    case True
    then have "rt_phase (rc_tok (rl_cells l ! k)) = RCancelled"
      using wt assms(1) by (auto simp: settled_at_def rc_waiting_def rc_skipped_def ris_cancelled_def)
    then show ?thesis using assms(1) by (simp add: dispatch_item_def rbegin_service_def settled_at_def)
  next
    case False
    then show ?thesis using assms(1)
      by (auto simp: dispatch_item_def settled_at_def upd_cell_def Let_def split: prod.splits)
  qed
qed

lemma settled_step:
  assumes "rl_step l l'" "settled_at i l" "rl_inv l"
  shows "settled_at i l'"
  using assms(1)
proof cases
  case (Submit j)
  then show ?thesis using assms(2) by (simp add: settled_at_def rl_push_def nth_append)
next
  case (Cancel k)
  obtain c did where c: "rcancel_cell (rl_cells l ! k) = (c, did)" by fastforce
  then have l': "l' = upd_cell k (\<lambda>_. c) l" using Cancel by (simp add: rl_cancel_def)
  show ?thesis unfolding l'
    by (rule settled_upd [OF assms(2)]) (use c in \<open>auto simp: rcancel_cell_def rcancel_def ris_cancelled_def split: if_splits\<close>)
next
  case (Settle k)
  then show ?thesis using assms(2) by (auto simp: rl_settle_def rsettle_cell_def intro!: settled_upd)
next
  case Consumer
  show ?thesis
  proof (cases "rl_worker l")
    case RIdle
    then show ?thesis using Consumer assms(2)
      by (auto simp: consumer_step_def pop_item_def settled_at_def split: list.splits if_splits)
  next
    case (RPopped k)
    then show ?thesis using Consumer settled_dispatch [OF assms(2,3)] by (simp add: consumer_step_def)
  next
    case (RServing k s)
    show ?thesis
    proof (cases "s = TSettled")
      case True
      then show ?thesis using Consumer RServing assms(2) by (auto simp: consumer_step_def settled_at_def split: if_splits)
    next
      case False
      then obtain m s' where "task_step k s l = (m, s')" "l' = m\<lparr>rl_worker := RServing k s'\<rparr>"
        using consumer_serving [OF Consumer RServing] by blast
      then show ?thesis using settled_task [OF assms(2)] by (simp add: settled_at_def)
    qed
  next
    case RClear
    then show ?thesis using Consumer assms(2) by (auto simp: consumer_step_def clear_active_def settled_at_def)
  next
    case RExited
    then show ?thesis using Consumer by (simp add: consumer_step_def)
  qed
next
  case (Flight n)
  then show ?thesis
  proof (cases rule: flight_cases)
    case (1 k)
    then show ?thesis using assms(2) by (simp add: settled_at_def)
  next
    case (2 k s m s')
    then show ?thesis using settled_task [OF assms(2) 2(4)] by (simp add: settled_at_def)
  qed
qed (use assms(2) in \<open>simp_all add: settled_at_def rl_request_stop_def\<close>)

text \<open>
  C17. A \<open>cancel()\<close> of a runtime future that returned \<open>True\<close> is final: in every later state of its lane
  the request is cancelled, and the row it gets is a cancelled one, never a completed or a failed row.
\<close>

theorem runtime_cancel_final:
  assumes "rl_reachable a nb mi v l" and "i < length (rl_cells l)" and "snd (rl_cancel i l)"
    and "rl_step\<^sup>*\<^sup>* (fst (rl_cancel i l)) l'"
  shows "i < length (rl_cells l') \<and> ris_cancelled (rc_tok (rl_cells l' ! i))
    \<and> (\<forall>r. r \<in> set (rc_proms (rl_cells l' ! i)) \<longrightarrow> rr_status r = ''cancelled'' \<and> \<not> rr_has_value r)"
proof -
  have reach: "rl_reachable a nb mi v (fst (rl_cancel i l))"
    using assms(1) rl_step.Cancel [OF assms(2)] by (rule rl_reachable.Step)
  have first: "settled_at i (fst (rl_cancel i l))"
    using assms(2,3) by (auto simp: rl_cancel_def rcancel_cell_def rcancel_def settled_at_def upd_cell_def
        ris_cancelled_def split: if_splits)
  have "rl_reachable a nb mi v l' \<and> settled_at i l'"
    using assms(4)
  proof (induction rule: rtranclp_induct)
    case base
    then show ?case using reach first by simp
  next
    case (step y z)
    then show ?case using rl_reachable.Step settled_step rl_reachable_inv by blast
  qed
  then have l': "rl_reachable a nb mi v l'" "settled_at i l'" by simp_all
  then show ?thesis
    using cell_row(2) [OF rl_reachable_inv [OF l'(1)], of i] by (auto simp: settled_at_def row_form_def)
qed

lemma runtime_cancel_final_witness:
  "let l = rl_push (JOp ''square'' [OVInt 3]) (new_rlane ''rt-hpx-0'' False 1 0 100) in
     snd (rl_cancel 0 l) \<and> ris_cancelled (rc_tok (rl_cells (fst (rl_cancel 0 l)) ! 0))"
proof -
  let ?n = "new_rlane ''rt-hpx-0'' False 1 0 100"
  let ?p = "rl_push (JOp ''square'' [OVInt 3]) ?n"
  have "rl_step ?n ?p"
    by (rule rl_step.Submit) (simp_all add: new_rlane_def job_ok_def checkpoint_count_def)
  with rl_reachable.New have r: "rl_reachable ''rt-hpx-0'' False 1 0 ?p" by (rule rl_reachable.Step)
  have c: "snd (rl_cancel 0 ?p)"
    by (simp add: rl_cancel_def rcancel_cell_def rcancel_def rl_push_def new_rlane_def new_rtoken_def)
  show ?thesis
    unfolding Let_def using c runtime_cancel_final [OF r _ c rtranclp.rtrancl_refl] by (simp add: rl_push_def)
qed

subsection \<open>Stopping a lane\<close>

lemma cell_job_map: "map rc_job (rl_cells l') = map rc_job (rl_cells l) \<Longrightarrow> i < length (rl_cells l) \<Longrightarrow> cell_job l' i = cell_job l i"
  unfolding cell_job_def by (metis length_map nth_map)

lemma task_step_work:
  assumes "task_step i s l = (l', s')" "s \<noteq> TSettled" "job_ok (cell_job l i)"
    and "task_ok a now s (rl_cells l ! i)"
  shows "task_work (cell_job l i) s' < task_work (cell_job l i) s"
  using assms checks_pos [of "cell_job l i"]
  by (cases s) (auto simp: Let_def job_segments_le cell_job_def checks_def split: if_splits prod.splits)

text \<open>The work left, for given jobs of the requests.\<close>

fun wwork :: "(nat \<Rightarrow> job) \<Rightarrow> rworker \<Rightarrow> nat" where
  "wwork J RIdle = 1"
| "wwork J (RPopped i) = task_work (J i) TStart + 4"
| "wwork J (RServing i s) = task_work (J i) s + 3"
| "wwork J RClear = 2"
| "wwork J RExited = 0"

definition jwork :: "(nat \<Rightarrow> job) \<Rightarrow> rlane \<Rightarrow> nat" where
  "jwork J l = wwork J (rl_worker l) + (\<Sum>(i, s) \<leftarrow> rl_flight l. task_work (J i) s)
     + (\<Sum>i \<leftarrow> rl_queue l. task_work (J i) TStart + 4)"

lemma rl_work_jwork: "rl_work l = jwork (cell_job l) l"
  by (cases "rl_worker l") (simp_all add: rl_work_def jwork_def rworker_work_def)

lemma jwork_cong:
  assumes "rl_inv l" "\<And>i. i < length (rl_cells l) \<Longrightarrow> J i = K i"
  shows "jwork J l = jwork K l"
proof -
  have q: "k \<in> set (rl_queue l) \<Longrightarrow> J k = K k" for k
    using ids_of_inv(1) [OF assms(1)] assms(2) by blast
  have b: "k \<in> set (busy l) \<Longrightarrow> J k = K k" for k using busy_lt [OF assms(1)] assms(2) by blast
  have f: "(k, s) \<in> set (rl_flight l) \<Longrightarrow> J k = K k" for k s using b [of k] by (force simp: busy_def)
  have "wwork J (rl_worker l) = wwork K (rl_worker l)"
    using b by (cases "rl_worker l") (simp_all add: busy_def rheld_def)
  moreover have "(\<Sum>(i, s) \<leftarrow> rl_flight l. task_work (J i) s) = (\<Sum>(i, s) \<leftarrow> rl_flight l. task_work (K i) s)"
    using f by (auto intro!: arg_cong [where f = sum_list] map_cong)
  moreover have "(\<Sum>i \<leftarrow> rl_queue l. task_work (J i) TStart + 4) = (\<Sum>i \<leftarrow> rl_queue l. task_work (K i) TStart + 4)"
    using q by (auto intro!: arg_cong [where f = sum_list] map_cong)
  ultimately show ?thesis by (simp add: jwork_def)
qed

lemma sum_at:
  "n < length xs \<Longrightarrow> sum_list (map f xs) = f (xs ! n) + sum_list (map f (take n xs @ drop (Suc n) xs))"
  for f :: "'a \<Rightarrow> nat"
proof -
  assume n: "n < length xs"
  have "sum_list (map f xs) = sum_list (map f (take n xs @ xs ! n # drop (Suc n) xs))"
    using id_take_nth_drop [OF n] by simp
  then show ?thesis by simp
qed

lemma sum_update:
  "n < length xs \<Longrightarrow> f y < f (xs ! n) \<Longrightarrow> sum_list (map f (xs[n := y])) < sum_list (map f xs)"
  for f :: "'a \<Rightarrow> nat"
  using sum_at [of n xs f] by (simp add: upd_conv_take_nth_drop)

lemma flight_work:
  assumes inv: "rl_inv l" and st: "flight_step n l = Some l'"
  shows "jwork (cell_job l) l' < jwork (cell_job l) l"
  using st
proof (cases rule: flight_cases)
  case (1 i)
  let ?f = "\<lambda>(i, s). task_work (cell_job l i) s"
  have "sum_list (map ?f (rl_flight l)) = ?f (rl_flight l ! n) + sum_list (map ?f (rl_flight l'))"
    using sum_at [OF 1(1), of ?f] 1(3) by simp
  then show ?thesis using 1(2,3) by (simp add: jwork_def)
next
  case (2 i s m s')
  note fr = task_step_frame(1) [OF 2(4)]
  have mem: "(i, s) \<in> set (rl_flight l)" using 2(1,2) by (metis nth_mem)
  have il: "i < length (rl_cells l)" using busy_lt [OF inv, of i] mem by (force simp: busy_def)
  have ok: "task_ok (rl_actor_id l) (rl_now l) s (rl_cells l ! i)" and j: "job_ok (cell_job l i)"
    using inv mem il by (auto simp: rl_inv_def cell_job_def)
  have w: "task_work (cell_job l i) s' < task_work (cell_job l i) s" by (rule task_step_work [OF 2(4,3) j ok])
  have "sum_list (map (\<lambda>(i, s). task_work (cell_job l i) s) ((rl_flight l)[n := (i, s')]))
      < sum_list (map (\<lambda>(i, s). task_work (cell_job l i) s) (rl_flight l))"
    using sum_update [OF 2(1), of "\<lambda>(i, s). task_work (cell_job l i) s" "(i, s')"] 2(2) w by simp
  then show ?thesis using fr by (simp add: jwork_def 2(5))
qed

lemma consumer_work:
  assumes inv: "rl_inv l" and st: "consumer_step l = Some l'"
  shows "jwork (cell_job l) l' < jwork (cell_job l) l"
proof (cases "rl_worker l")
  case RIdle
  then show ?thesis using st
    by (auto simp: consumer_step_def pop_item_def jwork_def split: list.splits if_splits)
next
  case (RPopped i)
  then show ?thesis using st
    by (auto simp: consumer_step_def dispatch_item_def upd_cell_def Let_def jwork_def split: prod.splits if_splits)
next
  case (RServing i s)
  show ?thesis
  proof (cases "s = TSettled")
    case True
    then show ?thesis using st RServing by (auto simp: consumer_step_def jwork_def split: if_splits)
  next
    case False
    obtain m s' where m: "task_step i s l = (m, s')" "l' = m\<lparr>rl_worker := RServing i s'\<rparr>"
      using consumer_serving [OF st RServing False] by blast
    note fr = task_step_frame(1) [OF m(1)]
    have il: "i < length (rl_cells l)" using busy_lt [OF inv, of i] RServing by (simp add: busy_def rheld_def)
    have ok: "task_ok (rl_actor_id l) (rl_now l) s (rl_cells l ! i)" and j: "job_ok (cell_job l i)"
      using inv il RServing by (auto simp: rl_inv_def cell_job_def)
    have "task_work (cell_job l i) s' < task_work (cell_job l i) s" by (rule task_step_work [OF m(1) False j ok])
    then show ?thesis using fr RServing by (simp add: jwork_def m(2))
  qed
next
  case RClear
  then show ?thesis using st by (auto simp: consumer_step_def clear_active_def jwork_def)
next
  case RExited
  then show ?thesis using st by (simp add: consumer_step_def)
qed

lemma step_jobs:
  assumes "consumer_step l = Some l' \<or> flight_step n l = Some l'"
  shows "map rc_job (rl_cells l') = map rc_job (rl_cells l) \<and> rl_stop l' = rl_stop l
    \<and> rl_actor_id l' = rl_actor_id l"
  using assms
proof
  assume st: "consumer_step l = Some l'"
  show ?thesis
  proof (cases "rl_worker l")
    case (RPopped i)
    obtain t ok where t: "rbegin_service (job_checkpoints (rc_job (rl_cells l ! i))) (rc_tok (rl_cells l ! i)) = (t, ok)"
      by fastforce
    have "map rc_job (rl_cells (upd_cell i (\<lambda>c. c\<lparr>rc_tok := t\<rparr>) l)) = map rc_job (rl_cells l)"
      by (rule upd_cell_jobs) simp
    then show ?thesis using RPopped st t
      by (cases ok; cases "rl_nonblocking l \<and> job_policy (rc_job (rl_cells l ! i)) = Async")
        (auto simp: consumer_step_def dispatch_item_def Let_def upd_cell_def)
  next
    case (RServing i s)
    show ?thesis
    proof (cases "s = TSettled")
      case False
      obtain m s' where m: "task_step i s l = (m, s')" "l' = m\<lparr>rl_worker := RServing i s'\<rparr>"
        using consumer_serving [OF st RServing False] by blast
      moreover have "rl_actor_id m = rl_actor_id l"
        using m(1) by (cases s) (auto simp: Let_def upd_cell_def split: if_splits prod.splits)
      ultimately show ?thesis using task_step_frame [OF m(1)] by simp
    qed (use st RServing in \<open>auto simp: consumer_step_def split: if_splits\<close>)
  qed (use st in \<open>auto simp: consumer_step_def pop_item_def clear_active_def split: list.splits if_splits\<close>)
next
  assume "flight_step n l = Some l'"
  then show ?thesis
  proof (cases rule: flight_cases)
    case (2 i s m s')
    moreover have "rl_actor_id m = rl_actor_id l"
      using 2(4) by (cases s) (auto simp: Let_def upd_cell_def split: if_splits prod.splits)
    ultimately show ?thesis using task_step_frame [OF 2(4)] by simp
  qed simp
qed

lemma any_step_work:
  assumes inv: "rl_inv l" and st: "any_step l = Some l'"
  shows "rl_work l' < rl_work l \<and> rl_inv l' \<and> rl_stop l' = rl_stop l \<and> rl_actor_id l' = rl_actor_id l
    \<and> length (rl_cells l') = length (rl_cells l)"
proof -
  have st': "consumer_step l = Some l' \<or> flight_step 0 l = Some l'"
    using st by (auto simp: any_step_def split: option.splits)
  then have inv': "rl_inv l'" and w: "jwork (cell_job l) l' < jwork (cell_job l) l"
    using inv_consumer [OF inv] inv_flight [OF inv] consumer_work [OF inv] flight_work [OF inv] by blast+
  note jobs = step_jobs [OF st']
  then have len: "length (rl_cells l') = length (rl_cells l)" by (metis length_map)
  have "jwork (cell_job l') l' = jwork (cell_job l) l'"
  proof (rule jwork_cong [OF inv'])
    fix i assume "i < length (rl_cells l')"
    then show "cell_job l' i = cell_job l i" using cell_job_map [of l' l i] jobs len by simp
  qed
  then show ?thesis using w inv' jobs len by (simp add: rl_work_jwork)
qed

lemma any_step_None:
  assumes "rl_stop l" "any_step l = None" "rl_inv l"
  shows "rl_worker l = RExited \<and> rl_flight l = [] \<and> rl_queue l = []"
proof -
  have c: "consumer_step l = None" and f: "flight_step 0 l = None"
    using assms(2) by (auto simp: any_step_def split: option.splits)
  have "rl_worker l = RExited"
    using c assms(1) by (auto simp: consumer_step_def pop_item_def
        split: rworker.splits task.splits list.splits if_splits prod.splits)
  moreover have "rl_flight l = []"
    using f by (cases "rl_flight l") (auto simp: flight_step_def split: if_splits prod.splits)
  ultimately show ?thesis using assms(3) by (simp add: rl_inv_def)
qed

lemma drain_settles:
  assumes "rl_inv l" "rl_stop l" "rl_work l \<le> n"
  shows "rl_inv (rl_drain n l) \<and> rl_worker (rl_drain n l) = RExited \<and> rl_flight (rl_drain n l) = []
    \<and> rl_queue (rl_drain n l) = [] \<and> length (rl_cells (rl_drain n l)) = length (rl_cells l)
    \<and> rl_actor_id (rl_drain n l) = rl_actor_id l"
  using assms
proof (induction n arbitrary: l)
  case 0
  have "any_step l = None" using any_step_work [OF 0(1)] 0(3) by (cases "any_step l") auto
  then show ?case using any_step_None [OF 0(2)] 0(1) by simp
next
  case (Suc n)
  show ?case
  proof (cases "any_step l")
    case None
    then show ?thesis using any_step_None [OF Suc.prems(2)] Suc.prems(1) by simp
  next
    case (Some l')
    then show ?thesis using any_step_work [OF Suc.prems(1) Some] Suc.IH [of l'] Suc.prems by simp
  qed
qed

text \<open>
  C19. Stopping a lane settles it, whatever state it is in: \<open>stop_and_join\<close> returns after at most
  \<open>rl_work\<close> steps with the consumer returned, nothing queued and nothing in flight; no request is
  dropped, and each has its row, unless a \<open>cancel()\<close> that won it is still about to set it.
\<close>

theorem stop_settles:
  assumes "rl_reachable a nb mi v l"
  shows "rl_worker (stop_and_join l) = RExited \<and> rl_queue (stop_and_join l) = [] \<and> rl_flight (stop_and_join l) = []
    \<and> length (rl_cells (stop_and_join l)) = length (rl_cells l)
    \<and> (\<forall>i. i < length (rl_cells l) \<longrightarrow> (\<exists>r. rc_proms (rl_cells (stop_and_join l) ! i) = [r])
          \<or> rc_pend (rl_cells (stop_and_join l) ! i))"
proof -
  let ?s = "rl_request_stop l" and ?d = "stop_and_join l"
  have "rl_inv ?s" using inv_stop [OF rl_reachable_inv [OF assms]] .
  then have d: "rl_inv ?d \<and> rl_worker ?d = RExited \<and> rl_flight ?d = [] \<and> rl_queue ?d = []
      \<and> length (rl_cells ?d) = length (rl_cells ?s) \<and> rl_actor_id ?d = rl_actor_id ?s"
    unfolding stop_and_join_def Let_def by (rule drain_settles) (simp_all add: rl_request_stop_def)
  have "(\<exists>r. rc_proms (rl_cells ?d ! i) = [r]) \<or> rc_pend (rl_cells ?d ! i)" if i: "i < length (rl_cells l)" for i
  proof -
    have "i < length (rl_cells ?d)" using i d by (simp add: rl_request_stop_def)
    then have "i \<in> set (rl_log ?d)" using ids_of_inv(1) [of ?d] d by auto
    moreover have "busy ?d = []" using d by (simp add: busy_def rheld_def)
    ultimately have "rc_done (rl_actor_id ?d) (rl_cells ?d ! i)" using d by (auto simp: rl_inv_def)
    then show ?thesis by (auto simp: rc_done_def rc_skipped_def)
  qed
  then show ?thesis using d by (simp add: rl_request_stop_def)
qed

lemma stop_settles_witness:
  "rl_worker (stop_and_join rdemo_lane) = RExited \<and> length (rl_cells (stop_and_join rdemo_lane)) = 1"
  using stop_settles [OF rdemo_reachable] by (simp add: rdemo_cells)

end
