(* ===== verification/BridgeSlot.thy ===== *)
theory BridgeSlot
  imports Prelude
begin

text \<open>
  The endpoint-to-runtime bridge slot (\<open>RuntimeBridgeSlot\<close> in \<open>python/src/rayx/_rayx.cpp\<close>): one mutex
  guards a published flag, a draining flag and the number of requests in flight. A runtime publishes
  the slot when its lanes are live and drains it before it tears them down.
\<close>

record slot =
  sl_bridge :: bool
  sl_draining :: bool
  sl_inflight :: int

definition new_slot :: slot where
  "new_slot = \<lparr>sl_bridge = False, sl_draining = False, sl_inflight = 0\<rparr>"

datatype unavailable = CALL_RUNTIME_ABSENT | CALL_RUNTIME_DRAINING

definition slot_publish :: "slot \<Rightarrow> slot" where
  "slot_publish s = s\<lparr>sl_bridge := True, sl_draining := False\<rparr>"

definition slot_acquire :: "slot \<Rightarrow> slot \<times> unavailable option" where
  "slot_acquire s =
     (if \<not> sl_bridge s
      then (s, Some (if sl_draining s then CALL_RUNTIME_DRAINING else CALL_RUNTIME_ABSENT))
      else (s\<lparr>sl_inflight := sl_inflight s + 1\<rparr>, None))"

definition slot_release :: "slot \<Rightarrow> slot" where
  "slot_release s = (if sl_inflight s > 0 then s\<lparr>sl_inflight := sl_inflight s - 1\<rparr> else s)"

text \<open>\<open>drain_and_unpublish\<close>: the part under the lock, then the wait until nothing is in flight.\<close>

definition slot_begin_drain :: "slot \<Rightarrow> slot" where
  "slot_begin_drain s = s\<lparr>sl_draining := True, sl_bridge := False\<rparr>"

definition slot_drained :: "slot \<Rightarrow> bool" where
  "slot_drained s = (sl_inflight s = 0)"

lemmas slot_defs = new_slot_def slot_publish_def slot_acquire_def slot_release_def
  slot_begin_drain_def slot_drained_def

text \<open>
  Every interleaving of requests with the lives of runtimes. \<open>br_engine\<close>: the engine exists (its lanes
  are live); \<open>br_holders\<close>: the requests between \<open>acquire\<close> and \<open>release\<close>, each of which uses the engine.
  One runtime at a time (the process owner's rule) publishes, drains, and is then torn down.
\<close>

record bridge_state =
  br_slot :: slot
  br_engine :: bool
  br_leaving :: bool
  br_holders :: nat

inductive bridge_step :: "bridge_state \<Rightarrow> bridge_state \<Rightarrow> bool" where
  Publish: "\<not> br_engine b \<Longrightarrow> bridge_step b (b\<lparr>br_slot := slot_publish (br_slot b), br_engine := True, br_leaving := False\<rparr>)"
| Acquire: "slot_acquire (br_slot b) = (s, None) \<Longrightarrow> bridge_step b (b\<lparr>br_slot := s, br_holders := Suc (br_holders b)\<rparr>)"
| Refuse: "slot_acquire (br_slot b) = (s, Some u) \<Longrightarrow> bridge_step b (b\<lparr>br_slot := s\<rparr>)"
| Release: "br_holders b = Suc n \<Longrightarrow> bridge_step b (b\<lparr>br_slot := slot_release (br_slot b), br_holders := n\<rparr>)"
| BeginDrain: "br_engine b \<Longrightarrow> \<not> br_leaving b
    \<Longrightarrow> bridge_step b (b\<lparr>br_slot := slot_begin_drain (br_slot b), br_leaving := True\<rparr>)"
| TearDown: "br_engine b \<Longrightarrow> br_leaving b \<Longrightarrow> slot_drained (br_slot b)
    \<Longrightarrow> bridge_step b (b\<lparr>br_engine := False\<rparr>)"

inductive bridge_reachable :: "bridge_state \<Rightarrow> bool" where
  New: "bridge_reachable \<lparr>br_slot = new_slot, br_engine = False, br_leaving = False, br_holders = 0\<rparr>"
| Step: "bridge_reachable b \<Longrightarrow> bridge_step b b' \<Longrightarrow> bridge_reachable b'"

definition bridge_inv :: "bridge_state \<Rightarrow> bool" where
  "bridge_inv b \<longleftrightarrow> sl_inflight (br_slot b) = int (br_holders b)
     \<and> sl_bridge (br_slot b) = (br_engine b \<and> \<not> br_leaving b)
     \<and> (\<not> br_engine b \<longrightarrow> br_holders b = 0)
     \<and> (br_leaving b \<longrightarrow> sl_draining (br_slot b))
     \<and> (br_engine b \<and> \<not> br_leaving b \<longrightarrow> \<not> sl_draining (br_slot b))"

lemma bridge_inv_step: "bridge_step b b' \<Longrightarrow> bridge_inv b \<Longrightarrow> bridge_inv b'"
proof (induction rule: bridge_step.induct)
  case (Acquire b s)
  then show ?case by (cases "sl_bridge (br_slot b)") (auto simp: bridge_inv_def slot_acquire_def)
next
  case (Refuse b s u)
  then show ?case by (cases "sl_bridge (br_slot b)") (auto simp: bridge_inv_def slot_acquire_def)
qed (auto simp: bridge_inv_def slot_defs)

lemma bridge_reachable_inv: "bridge_reachable b \<Longrightarrow> bridge_inv b"
proof (induction rule: bridge_reachable.induct)
  case New
  then show ?case by (simp add: bridge_inv_def new_slot_def)
next
  case (Step b b')
  then show ?case using bridge_inv_step by blast
qed

text \<open>
  The drain gate keeps a runtime alive under its requests: over every interleaving, while a request
  holds the bridge the engine exists; a runtime is torn down only when none does; and once its drain
  has begun no request gets in (each is told the runtime is draining) until another runtime publishes.
\<close>

theorem bridge_gate:
  assumes "bridge_reachable b"
  shows "(br_holders b > 0 \<longrightarrow> br_engine b)
    \<and> (slot_drained (br_slot b) \<longleftrightarrow> br_holders b = 0)
    \<and> (br_leaving b \<longrightarrow> snd (slot_acquire (br_slot b)) = Some CALL_RUNTIME_DRAINING)
    \<and> (snd (slot_acquire (br_slot b)) = None \<longleftrightarrow> br_engine b \<and> \<not> br_leaving b)"
  using bridge_reachable_inv [OF assms] by (auto simp: bridge_inv_def slot_defs)

lemma bridge_gate_witness:
  "let b = \<lparr>br_slot = \<lparr>sl_bridge = True, sl_draining = False, sl_inflight = 1\<rparr>,
     br_engine = True, br_leaving = False, br_holders = 1\<rparr>
   in bridge_reachable b \<and> br_engine b \<and> \<not> slot_drained (br_slot b)"
proof -
  let ?b0 = "\<lparr>br_slot = new_slot, br_engine = False, br_leaving = False, br_holders = 0\<rparr>"
  let ?b1 = "\<lparr>br_slot = \<lparr>sl_bridge = True, sl_draining = False, sl_inflight = 0\<rparr>,
     br_engine = True, br_leaving = False, br_holders = 0\<rparr>"
  let ?b2 = "\<lparr>br_slot = \<lparr>sl_bridge = True, sl_draining = False, sl_inflight = 1\<rparr>,
     br_engine = True, br_leaving = False, br_holders = 1\<rparr>"
  have "bridge_step ?b0 ?b1" using bridge_step.Publish [of ?b0] by (simp add: slot_defs)
  with bridge_reachable.New have r1: "bridge_reachable ?b1" by (rule bridge_reachable.Step)
  have "bridge_step ?b1 ?b2"
    using bridge_step.Acquire [of ?b1 "\<lparr>sl_bridge = True, sl_draining = False, sl_inflight = 1\<rparr>"]
    by (simp add: slot_defs)
  with r1 have r2: "bridge_reachable ?b2" by (rule bridge_reachable.Step)
  show ?thesis unfolding Let_def using r2 bridge_gate [OF r2] by simp
qed

end
