(* ===== verification/RuntimeEngine.thy ===== *)
theory RuntimeEngine
  imports RuntimeLaneProps BridgeSlot ProcessOwner HarnessEngine
begin

text \<open>
  The native runtime engine: \<open>_RuntimeEngine\<close> and \<open>_RuntimeFuture\<close> of \<open>python/src/rayx/_rayx.cpp\<close>. The
  operation lanes come first in \<open>re_lanes\<close>; every actor adds its own lane, and \<open>re_actors\<close> maps its id
  to that lane and its type. Cells outlive their lane, as the shared states behind futures do. A call
  that would block returns \<open>Blocked\<close>.
\<close>

subsection \<open>State\<close>

record rfuture =
  rf_lane :: nat
  rf_id :: nat
  rf_valid :: bool

record rengine =
  re_running :: bool
  re_nops :: nat
  re_lanes :: "rlane list"
  re_actors :: "(string \<times> nat \<times> string) list"
  re_rr :: nat
  re_cap :: int
  re_futs :: "rfuture list"

text \<open>What the engine shares with the rest of the process: who holds HPX, and the bridge slot.\<close>

type_synonym process = "owner \<times> slot"

definition re_cell :: "rengine \<Rightarrow> nat \<Rightarrow> rcell" where
  "re_cell e k = rl_cells (re_lanes e ! rf_lane (re_futs e ! k)) ! rf_id (re_futs e ! k)"

definition upd_rlane :: "nat \<Rightarrow> rlane \<Rightarrow> rengine \<Rightarrow> rengine" where
  "upd_rlane i l e = e\<lparr>re_lanes := (re_lanes e)[i := l]\<rparr>"

text \<open>\<open>ids\<close> are the random actor ids drawn for the lanes, \<open>t\<close> the time.\<close>

definition runtime_engine_new ::
    "bool \<Rightarrow> string list \<Rightarrow> int \<Rightarrow> int \<Rightarrow> int \<Rightarrow> int \<Rightarrow> bool \<Rightarrow> int \<Rightarrow> process \<Rightarrow> (process \<times> rengine) py" where
  "runtime_engine_new start_ok ids t hpx_threads num_lanes cap nonblocking max_inflight ws =
     (if hpx_threads < 1 then Inl ValueError
      else if num_lanes < 1 then Inl ValueError
      else if cap \<noteq> - 1 \<and> cap < 1 then Inl ValueError
      else if nonblocking \<and> max_inflight < 1 then Inl ValueError
      else rbind (attach start_ok ARuntime hpx_threads (fst ws)) (\<lambda>w.
        Inr ((w, slot_publish (snd ws)), \<lparr>re_running = True, re_nops = nat num_lanes,
          re_lanes = map (\<lambda>i. new_rlane (ids ! i) nonblocking max_inflight 0 t) [0..<nat num_lanes],
          re_actors = [], re_rr = 0, re_cap = cap, re_futs = []\<rparr>)))"

subsection \<open>Submission\<close>

text \<open>Marshalling: \<open>bool\<close> is refused before \<open>int\<close>; an \<open>int\<close> that does not fit fails the cast.\<close>

definition marshal_one :: "pyval \<Rightarrow> op_value py" where
  "marshal_one v = (if is_bool v then Inl ValueError
     else if is_int v then (if int64_ok (the_int v) then Inr (OVInt (the_int v)) else Inl RuntimeError)
     else (case v of VFloat f \<Rightarrow> Inr (OVDouble f) | _ \<Rightarrow> Inl ValueError))"

definition marshal_args :: "pyval list \<Rightarrow> op_value list py" where
  "marshal_args args = mapM_idx (\<lambda>i. marshal_one) 0 args"

definition re_rr_lane :: "rengine \<Rightarrow> nat" where
  "re_rr_lane e = re_rr e mod re_nops e"

definition re_rr_advance :: "rengine \<Rightarrow> rengine" where
  "re_rr_advance e = e\<lparr>re_rr := (re_rr e + 1) mod 2 ^ 64\<rparr>"

definition re_add_future :: "nat \<Rightarrow> nat \<Rightarrow> rengine \<Rightarrow> rengine" where
  "re_add_future i k e = e\<lparr>re_futs := re_futs e @ [\<lparr>rf_lane = i, rf_id = k, rf_valid = True\<rparr>]\<rparr>"

text \<open>\<open>submit\<close> or \<open>try_submit\<close> on lane \<open>i\<close>. \<open>None\<close>: the lane is full, nothing was created.\<close>

definition enqueue_job :: "nat \<Rightarrow> job \<Rightarrow> rengine \<Rightarrow> rengine \<times> nat option" where
  "enqueue_job i j e =
     (if 0 \<le> re_cap e
      then (case rl_try_submit j (re_cap e) (re_lanes e ! i) of
          (l, None) \<Rightarrow> (upd_rlane i l e, None)
        | (l, Some k) \<Rightarrow> (re_add_future i k (upd_rlane i l e), Some (length (re_futs e))))
      else (case rl_submit j (re_lanes e ! i) of (l, k) \<Rightarrow>
        (re_add_future i k (upd_rlane i l e), Some (length (re_futs e)))))"

definition engine_submit_operation ::
    "string \<Rightarrow> pyval list \<Rightarrow> rengine \<Rightarrow> (rengine \<times> nat option) py" where
  "engine_submit_operation op args e =
     (if \<not> re_running e then Inl RuntimeError
      else (case map_of registry op of None \<Rightarrow> Inl ValueError
        | Some types \<Rightarrow>
            if length args \<noteq> length types then Inl ValueError
            else rbind (marshal_args args) (\<lambda>targs.
              Inr (enqueue_job (re_rr_lane e) (JOp op targs) (re_rr_advance e)))))"

text \<open>The bridge's dispatch: no admission bound, no Python value.\<close>

definition dispatch_op_typed :: "string \<Rightarrow> op_value list \<Rightarrow> rengine \<Rightarrow> (rengine \<times> nat) py" where
  "dispatch_op_typed op args e =
     (case map_of registry op of None \<Rightarrow> Inl ValueError
      | Some types \<Rightarrow>
          if length args \<noteq> length types then Inl ValueError
          else (case rl_submit (JOp op args) (re_lanes e ! re_rr_lane e) of (l, k) \<Rightarrow>
            Inr (re_add_future (re_rr_lane e) k (upd_rlane (re_rr_lane e) l (re_rr_advance e)), length (re_futs e))))"

subsection \<open>Actors\<close>

text \<open>The \<open>counter\<close> factory: the initial value.\<close>

definition counter_factory :: "op_value list \<Rightarrow> int py" where
  "counter_factory a = (case as_int64 a 0 of None \<Rightarrow> Inl ValueError | Some v \<Rightarrow> Inr v)"

definition engine_create_actor ::
    "string \<Rightarrow> int \<Rightarrow> string \<Rightarrow> pyval list \<Rightarrow> rengine \<Rightarrow> (rengine \<times> string) py" where
  "engine_create_actor aid t actor_type args e =
     (if \<not> re_running e then Inl RuntimeError
      else (case map_of actor_registry actor_type of None \<Rightarrow> Inl ValueError
        | Some (init_types, methods) \<Rightarrow>
            if length args \<noteq> length init_types then Inl ValueError
            else rbind (marshal_args args) (\<lambda>a.
              rbind (counter_factory a) (\<lambda>v.
              if map_of (re_actors e) aid \<noteq> None then Inl RuntimeError
              else Inr (e\<lparr>re_lanes := re_lanes e @ [new_rlane aid False 1 v t],
                re_actors := (aid, length (re_lanes e), actor_type) # re_actors e\<rparr>, aid)))))"

definition engine_call_actor_method ::
    "string \<Rightarrow> string \<Rightarrow> pyval list \<Rightarrow> rengine \<Rightarrow> (rengine \<times> nat option) py" where
  "engine_call_actor_method aid mth args e =
     (if \<not> re_running e then Inl RuntimeError
      else (case map_of (re_actors e) aid of None \<Rightarrow> Inl ValueError
        | Some (i, actor_type) \<Rightarrow> (case map_of actor_registry actor_type of None \<Rightarrow> Inl IndexError
          | Some (init_types, methods) \<Rightarrow> (case map_of methods mth of None \<Rightarrow> Inl ValueError
            | Some types \<Rightarrow>
                if length args \<noteq> length types then Inl ValueError
                else rbind (marshal_args args) (\<lambda>targs. Inr (enqueue_job i (JMethod mth targs) e))))))"

text \<open>\<open>cancel_pending\<close>, then \<open>stop_and_join\<close>: how a lane is torn down.\<close>

definition teardown_lane :: "rlane \<Rightarrow> rlane" where
  "teardown_lane l = stop_and_join (cancel_pending l)"

definition engine_release_actor :: "string \<Rightarrow> rengine \<Rightarrow> rengine py" where
  "engine_release_actor aid e =
     (if \<not> re_running e then Inl RuntimeError
      else (case map_of (re_actors e) aid of None \<Rightarrow> Inl ValueError
        | Some (i, actor_type) \<Rightarrow>
            Inr (upd_rlane i (teardown_lane (re_lanes e ! i)) e
              \<lparr>re_actors := filter (\<lambda>a. fst a \<noteq> aid) (re_actors e)\<rparr>)))"

subsection \<open>Futures\<close>

definition re_ready_now :: "rengine \<Rightarrow> nat \<Rightarrow> bool" where
  "re_ready_now e k = (rc_proms (re_cell e k) \<noteq> [])"

definition rt_set_valid :: "nat \<Rightarrow> bool \<Rightarrow> rengine \<Rightarrow> rengine" where
  "rt_set_valid k b e = e\<lparr>re_futs := (re_futs e)[k := (re_futs e ! k)\<lparr>rf_valid := b\<rparr>]\<rparr>"

definition rt_future_result :: "nat \<Rightarrow> rengine \<Rightarrow> rengine \<times> rresult outcome" where
  "rt_future_result k e =
     (if \<not> rf_valid (re_futs e ! k) then (e, Raises RuntimeError)
      else (case rc_proms (re_cell e k) of [] \<Rightarrow> (e, Blocked)
            | r # rs \<Rightarrow> (rt_set_valid k False e, Returns r)))"

definition rt_future_ready :: "nat \<Rightarrow> rengine \<Rightarrow> bool py" where
  "rt_future_ready k e =
     (if \<not> rf_valid (re_futs e ! k) then Inl RuntimeError else Inr (re_ready_now e k))"

definition rt_future_cancel :: "nat \<Rightarrow> rengine \<Rightarrow> rengine \<times> bool" where
  "rt_future_cancel k e =
     (let i = rf_lane (re_futs e ! k); r = rf_id (re_futs e ! k) in
      case rl_cancel r (re_lanes e ! i) of (l, did) \<Rightarrow> (upd_rlane i (rl_settle r l) e, did))"

definition rt_future_cancelled :: "nat \<Rightarrow> rengine \<Rightarrow> bool" where
  "rt_future_cancelled k e = ris_cancelled (rc_tok (re_cell e k))"

subsection \<open>Waiting, observing, stopping\<close>

fun rt_borrow :: "nat list \<Rightarrow> nat list \<Rightarrow> rengine \<Rightarrow> unit py" where
  "rt_borrow seen [] e = Inr ()"
| "rt_borrow seen (k # ks) e =
     (if \<not> rf_valid (re_futs e ! k) then Inl RuntimeError
      else if k \<in> set seen then Inl ValueError
      else rt_borrow (k # seen) ks e)"

definition rt_ready_indices :: "nat list \<Rightarrow> rengine \<Rightarrow> nat list" where
  "rt_ready_indices ks e = filter (\<lambda>i. re_ready_now e (ks ! i)) [0..<length ks]"

definition runtime_engine_wait :: "nat list \<Rightarrow> int \<Rightarrow> rengine \<Rightarrow> nat list outcome" where
  "runtime_engine_wait ks num_returns e =
     (if \<not> re_running e then Raises RuntimeError
      else if ks = [] then Raises ValueError
      else if num_returns < 1 then Raises ValueError
      else if int (length ks) < num_returns then Raises ValueError
      else (case rt_borrow [] ks e of Inl x \<Rightarrow> Raises x
        | Inr _ \<Rightarrow> if int (length (rt_ready_indices ks e)) < num_returns then Blocked
                  else Returns (rt_ready_indices ks e)))"

definition runtime_engine_num_lanes :: "rengine \<Rightarrow> int" where
  "runtime_engine_num_lanes e = (if re_running e then int (re_nops e) else 0)"

definition runtime_engine_lane_stats :: "rengine \<Rightarrow> (string \<times> int \<times> bool) list py" where
  "runtime_engine_lane_stats e =
     (if \<not> re_running e then Inl RuntimeError else Inr (map rl_stats (take (re_nops e) (re_lanes e))))"

definition engine_actor_stats :: "string \<Rightarrow> rengine \<Rightarrow> (string \<times> int \<times> bool) py" where
  "engine_actor_stats aid e =
     (if \<not> re_running e then Inl RuntimeError
      else (case map_of (re_actors e) aid of None \<Rightarrow> Inl ValueError
        | Some (i, actor_type) \<Rightarrow> Inr (rl_stats (re_lanes e ! i))))"

text \<open>
  \<open>shutdown\<close>: stop admitting bridge requests and wait for those in flight (\<open>Blocked\<close> until then), then
  tear down the actor lanes, the operation lanes, and detach from HPX. Lanes torn down before (of
  released actors) have nothing left to do.
\<close>

definition runtime_engine_shutdown :: "rengine \<times> process \<Rightarrow> (rengine \<times> process) \<times> unit outcome" where
  "runtime_engine_shutdown ep = (case ep of (e, w, s) \<Rightarrow>
     if \<not> re_running e then (ep, Returns ())
     else let s' = slot_begin_drain s in
       if \<not> slot_drained s' then ((e\<lparr>re_running := False\<rparr>, w, s'), Blocked)
       else ((e\<lparr>re_running := False, re_actors := [], re_lanes := map teardown_lane (re_lanes e)\<rparr>,
              detach ARuntime w, s'), Returns ()))"

end
