(* ===== verification/RuntimeFacade.thy ===== *)
theory RuntimeFacade
  imports RuntimeEngine
begin

text \<open>
  The Python face of the runtime (\<open>python/src/rayx/runtime/__init__.py\<close>): \<open>OperationResult\<close>,
  \<open>RuntimeFuture\<close>, \<open>ActorHandle\<close> and \<open>Runtime\<close>. A runtime value carries every future and handle made
  from it; each is named by its position. \<open>t\<close> is what \<open>time.perf_counter_ns()\<close> returns in the call.
\<close>

subsection \<open>Objects\<close>

record rrow =
  row_actor_id :: string
  row_submit_ns :: int
  row_start_ns :: int
  row_end_ns :: int
  row_total_ms :: pyfloat
  row_queue_wait_ms :: pyfloat
  row_service_ms_observed :: pyfloat
  row_status :: string
  row_error :: pyval

record operation_result =
  or_value :: pyval
  or_has_value :: bool
  or_status :: string
  or_error :: pyval
  or_row :: rrow

record pyrfuture =
  pf_rf :: nat
  pf_submit_ns :: int
  pf_retired :: bool

record handle =
  hd_actor_id :: string
  hd_actor_type :: string
  hd_released :: bool

record pyruntime =
  pr_closed :: bool
  pr_native :: rengine
  pr_futs :: "pyrfuture list"
  pr_handles :: "handle list"

text \<open>What a caller may pass for a future or a handle.\<close>

datatype rfut_arg = RFut nat | RNotFuture

datatype handle_arg = AHandle nat | ANotHandle

definition pr_with :: "rengine \<Rightarrow> pyruntime \<Rightarrow> pyruntime" where
  "pr_with e pr = pr\<lparr>pr_native := e\<rparr>"

subsection \<open>\<open>OperationResult\<close>\<close>

abbreviation "OperationFailedError \<equiv> Rt RT_OperationFailedError"
abbreviation "OperationCancelledError \<equiv> Rt RT_OperationCancelledError"
abbreviation "RuntimeQueueFullError \<equiv> Rt RT_QueueFullError"

definition result_value :: "operation_result \<Rightarrow> pyval py" where
  "result_value r =
     (if or_status r = ''completed'' \<and> or_has_value r then Inr (or_value r)
      else if or_status r = ''cancelled'' then Inl OperationCancelledError
      else Inl OperationFailedError)"

definition result_row :: "operation_result \<Rightarrow> rrow" where
  "result_row r = or_row r"

definition result_status :: "operation_result \<Rightarrow> string" where
  "result_status r = or_status r"

text \<open>The native value on the Python side.\<close>

fun op_value_py :: "op_value \<Rightarrow> pyval" where
  "op_value_py (OVInt n) = VInt n"
| "op_value_py (OVDouble f) = VFloat f"

subsection \<open>\<open>RuntimeFuture\<close>\<close>

definition rfut_ready :: "nat \<Rightarrow> pyruntime \<Rightarrow> bool py" where
  "rfut_ready k pr = rt_future_ready (pf_rf (pr_futs pr ! k)) (pr_native pr)"

definition rfut_cancel :: "nat \<Rightarrow> pyruntime \<Rightarrow> pyruntime \<times> bool" where
  "rfut_cancel k pr = (case rt_future_cancel (pf_rf (pr_futs pr ! k)) (pr_native pr) of
     (e, did) \<Rightarrow> (pr_with e pr, did))"

definition rfut_cancelled :: "nat \<Rightarrow> pyruntime \<Rightarrow> bool" where
  "rfut_cancelled k pr = rt_future_cancelled (pf_rf (pr_futs pr ! k)) (pr_native pr)"

definition rt_ns_to_ms :: "int \<Rightarrow> pyfloat py" where
  "rt_ns_to_ms n = (case float_of_int n of None \<Rightarrow> Inl OverflowError | Some f \<Rightarrow> Inr (fdiv_pos f 1000000))"

definition rt_service_ms :: "rresult \<Rightarrow> pyfloat" where
  "rt_service_ms r = fdiv_pos (b64_round (of_int (rr_end_ns r - rr_start_ns r))) 1000000"

definition build_result :: "pyrfuture \<Rightarrow> int \<Rightarrow> rresult \<Rightarrow> operation_result py" where
  "build_result f recv_ns r =
     rbind (rt_ns_to_ms (recv_ns - pf_submit_ns f)) (\<lambda>total_ms.
       let service_ms = rt_service_ms r;
           wait = fsub total_ms service_ms;
           err = (if rr_error r = '''' then VNone else VStr (rr_error r))
       in Inr \<lparr>or_value = (if rr_has_value r then op_value_py (rr_value r) else VNone),
         or_has_value = rr_has_value r, or_status = rr_status r, or_error = err,
         or_row = \<lparr>row_actor_id = rr_actor_id r, row_submit_ns = pf_submit_ns f,
           row_start_ns = rr_start_ns r, row_end_ns = rr_end_ns r, row_total_ms = total_ms,
           row_queue_wait_ms = (if flt wait (Fin 0) then Fin 0 else wait),
           row_service_ms_observed = service_ms, row_status = rr_status r, row_error = err\<rparr>\<rparr>)"

definition rfut_result :: "nat \<Rightarrow> int option \<Rightarrow> int \<Rightarrow> pyruntime \<Rightarrow> pyruntime \<times> operation_result outcome" where
  "rfut_result k recv_ns t pr =
     (case rt_future_result (pf_rf (pr_futs pr ! k)) (pr_native pr) of
        (e, Blocked) \<Rightarrow> (pr, Blocked)
      | (e, Raises x) \<Rightarrow> (pr, Raises x)
      | (e, Returns r) \<Rightarrow>
          (pr\<lparr>pr_native := e, pr_futs := (pr_futs pr)[k := (pr_futs pr ! k)\<lparr>pf_retired := True\<rparr>]\<rparr>,
           (case build_result (pr_futs pr ! k) (case recv_ns of None \<Rightarrow> t | Some n \<Rightarrow> n) r of
              Inl x \<Rightarrow> Raises x | Inr res \<Rightarrow> Returns res)))"

definition rfut_repr_retired :: "nat \<Rightarrow> pyruntime \<Rightarrow> bool" where
  "rfut_repr_retired k pr = pf_retired (pr_futs pr ! k)"

subsection \<open>Construction\<close>

definition validate_num_lanes :: "pyval \<Rightarrow> int py" where
  "validate_num_lanes v = (if is_bool v \<or> \<not> is_int v then Inl TypeError
     else if the_int v < 1 then Inl ValueError else Inr (the_int v))"

definition validate_cap :: "pyval \<Rightarrow> int py" where
  "validate_cap v = (if v = VNone then Inr (- 1)
     else if is_bool v \<or> \<not> is_int v then Inl TypeError
     else if the_int v < 1 then Inl ValueError else Inr (the_int v))"

definition runtime_init ::
    "bool \<Rightarrow> string list \<Rightarrow> int \<Rightarrow> pyval \<Rightarrow> pyval \<Rightarrow> pyval \<Rightarrow> pyval \<Rightarrow> pyval \<Rightarrow> process \<Rightarrow> (process \<times> pyruntime) py" where
  "runtime_init start_ok ids t num_lanes hpx_threads cap_arg nonblocking inflight ws =
     rbind (validate_num_lanes num_lanes) (\<lambda>n.
     rbind (validate_nonblocking_options nonblocking inflight) (\<lambda>(flag, mi).
     rbind (validate_cap cap_arg) (\<lambda>cap.
     rbind (cross_int32 hpx_threads) (\<lambda>h.
     rbind (cross_int32 (VInt n)) (\<lambda>n.
     rbind (cross_int32 (VInt cap)) (\<lambda>cap.
     rbind (cross_int32 (VInt mi)) (\<lambda>mi.
     rbind (runtime_engine_new start_ok ids t h n cap flag mi ws) (\<lambda>(ws, e).
       Inr (ws, \<lparr>pr_closed = False, pr_native = e, pr_futs = [], pr_handles = []\<rparr>)))))))))"

subsection \<open>Operations and actors\<close>

text \<open>The end of a submission: the native future (\<open>None\<close>: a full lane) becomes a \<open>RuntimeFuture\<close>.\<close>

definition wrap_future :: "int \<Rightarrow> (rengine \<times> nat option) py \<Rightarrow> pyruntime \<Rightarrow> pyruntime \<times> nat py" where
  "wrap_future t r pr = (case r of Inl x \<Rightarrow> (pr, Inl x)
     | Inr (e, None) \<Rightarrow> (pr_with e pr, Inl RuntimeQueueFullError)
     | Inr (e, Some k) \<Rightarrow> ((pr_with e pr)\<lparr>pr_futs := pr_futs pr @
           [\<lparr>pf_rf = k, pf_submit_ns = t, pf_retired = False\<rparr>]\<rparr>, Inr (length (pr_futs pr))))"

definition submit_operation :: "int \<Rightarrow> pyval \<Rightarrow> pyval list \<Rightarrow> pyruntime \<Rightarrow> pyruntime \<times> nat py" where
  "submit_operation t op_id args pr =
     (if pr_closed pr then (pr, Inl RuntimeError)
      else (case validate_call op_id args registry of Inl x \<Rightarrow> (pr, Inl x)
        | Inr validated \<Rightarrow> (case op_id of
              VStr op \<Rightarrow> wrap_future t (engine_submit_operation op validated (pr_native pr)) pr
            | _ \<Rightarrow> (pr, Inl TypeError))))"

definition create_actor :: "string \<Rightarrow> int \<Rightarrow> pyval \<Rightarrow> pyval list \<Rightarrow> pyruntime \<Rightarrow> pyruntime \<times> nat py" where
  "create_actor aid t actor_type args pr =
     (if pr_closed pr then (pr, Inl RuntimeError)
      else (case validate_actor_create actor_type args actor_registry of Inl x \<Rightarrow> (pr, Inl x)
        | Inr validated \<Rightarrow> (case actor_type of
              VStr a \<Rightarrow> (case engine_create_actor aid t a validated (pr_native pr) of Inl x \<Rightarrow> (pr, Inl x)
                | Inr (e, actor_id) \<Rightarrow> ((pr_with e pr)\<lparr>pr_handles := pr_handles pr @
                    [\<lparr>hd_actor_id = actor_id, hd_actor_type = a, hd_released = False\<rparr>]\<rparr>,
                    Inr (length (pr_handles pr))))
            | _ \<Rightarrow> (pr, Inl TypeError))))"

definition handle_stats :: "nat \<Rightarrow> pyruntime \<Rightarrow> (string \<times> int \<times> bool) py" where
  "handle_stats h pr =
     (if pr_closed pr then Inl RuntimeError
      else if hd_released (pr_handles pr ! h) then Inl RuntimeError
      else engine_actor_stats (hd_actor_id (pr_handles pr ! h)) (pr_native pr))"

definition handle_call :: "int \<Rightarrow> nat \<Rightarrow> pyval \<Rightarrow> pyval list \<Rightarrow> pyruntime \<Rightarrow> pyruntime \<times> nat py" where
  "handle_call t h method_id args pr =
     (if pr_closed pr then (pr, Inl RuntimeError)
      else let hd = pr_handles pr ! h in
        if hd_released hd then (pr, Inl RuntimeError)
        else (case validate_actor_call (VStr (hd_actor_type hd)) method_id args actor_registry of
            Inl x \<Rightarrow> (pr, Inl x)
          | Inr validated \<Rightarrow> (case method_id of
                VStr mth \<Rightarrow> wrap_future t
                   (engine_call_actor_method (hd_actor_id hd) mth validated (pr_native pr)) pr
              | _ \<Rightarrow> (pr, Inl TypeError))))"

definition release_actor :: "handle_arg \<Rightarrow> pyruntime \<Rightarrow> pyruntime \<times> unit py" where
  "release_actor a pr =
     (if pr_closed pr then (pr, Inl RuntimeError)
      else (case a of ANotHandle \<Rightarrow> (pr, Inl TypeError)
        | AHandle h \<Rightarrow>
            if hd_released (pr_handles pr ! h) then (pr, Inl RuntimeError)
            else (case engine_release_actor (hd_actor_id (pr_handles pr ! h)) (pr_native pr) of
                Inl x \<Rightarrow> (pr, Inl x)
              | Inr e \<Rightarrow> ((pr_with e pr)\<lparr>pr_handles := (pr_handles pr)[h :=
                   (pr_handles pr ! h)\<lparr>hd_released := True\<rparr>]\<rparr>, Inr ()))))"

subsection \<open>Collections\<close>

fun all_rfuts :: "rfut_arg list \<Rightarrow> bool" where
  "all_rfuts [] = True"
| "all_rfuts (RFut k # as) = all_rfuts as"
| "all_rfuts (RNotFuture # as) = False"

fun rfs_of :: "rfut_arg list \<Rightarrow> pyruntime \<Rightarrow> nat list" where
  "rfs_of [] pr = []"
| "rfs_of (RFut k # as) pr = pf_rf (pr_futs pr ! k) # rfs_of as pr"
| "rfs_of (RNotFuture # as) pr = rfs_of as pr"

definition rsplit :: "(nat \<Rightarrow> bool) \<Rightarrow> 'a list \<Rightarrow> 'a list \<times> 'a list" where
  "rsplit p xs = (map ((!) xs) (filter p [0..<length xs]), map ((!) xs) (filter (\<lambda>i. \<not> p i) [0..<length xs]))"

fun rcheck_distinct :: "nat list \<Rightarrow> nat list \<Rightarrow> unit py" where
  "rcheck_distinct seen [] = Inr ()"
| "rcheck_distinct seen (k # ks) =
     (if k \<in> set seen then Inl ValueError else rcheck_distinct (k # seen) ks)"

fun rprobe :: "nat list \<Rightarrow> rengine \<Rightarrow> bool list py" where
  "rprobe [] e = Inr []"
| "rprobe (k # ks) e = rbind (rt_future_ready k e) (\<lambda>b. rbind (rprobe ks e) (\<lambda>bs. Inr (b # bs)))"

text \<open>The checks both modes share.\<close>

definition wait_checks :: "rfut_arg list \<Rightarrow> pyval \<Rightarrow> int py" where
  "wait_checks futures num_returns =
     (if futures = [] then Inl ValueError
      else if is_bool num_returns \<or> \<not> is_int num_returns then Inl TypeError
      else if the_int num_returns < 1 then Inl ValueError
      else if the_int num_returns > int (length futures) then Inl ValueError
      else if \<not> all_rfuts futures then Inl TypeError
      else Inr (the_int num_returns))"

definition rwait_blocking :: "rfut_arg list \<Rightarrow> int \<Rightarrow> pyruntime \<Rightarrow> (rfut_arg list \<times> rfut_arg list) outcome" where
  "rwait_blocking futures n pr =
     (case cross_int32 (VInt n) of Inl x \<Rightarrow> Raises x
      | Inr n \<Rightarrow> (case runtime_engine_wait (rfs_of futures pr) n (pr_native pr) of
          Raises x \<Rightarrow> Raises x | Blocked \<Rightarrow> Blocked
        | Returns idx \<Rightarrow> Returns (rsplit (\<lambda>i. i \<in> set idx) futures)))"

definition rwait_poll :: "rfut_arg list \<Rightarrow> pyruntime \<Rightarrow> (rfut_arg list \<times> rfut_arg list) py" where
  "rwait_poll futures pr =
     (if pr_closed pr then Inl RuntimeError
      else rbind (rcheck_distinct [] (rfs_of futures pr)) (\<lambda>_.
           rbind (rprobe (rfs_of futures pr) (pr_native pr)) (\<lambda>bs. Inr (rsplit (\<lambda>i. bs ! i) futures))))"

definition runtime_wait :: "rfut_arg list \<Rightarrow> pyval \<Rightarrow> pyval \<Rightarrow> pyruntime \<Rightarrow> (rfut_arg list \<times> rfut_arg list) outcome" where
  "runtime_wait futures num_returns timeout pr =
     (case wait_checks futures num_returns of Inl x \<Rightarrow> Raises x
      | Inr n \<Rightarrow>
          if timeout = VNone then rwait_blocking futures n pr
          else (case rt_validate_timeout timeout of Inl x \<Rightarrow> Raises x
            | Inr s \<Rightarrow> if flt (Fin 0) s then Raises NotImplementedError
              else (case rwait_poll futures pr of Inl x \<Rightarrow> Raises x | Inr p \<Rightarrow> Returns p)))"

text \<open>The generator, over the states in which its waits are attempted, as in the harness.\<close>

fun runtime_as_completed :: "pyruntime list \<Rightarrow> rfut_arg list \<Rightarrow> rfut_arg list \<times> rfut_arg list \<times> exc option" where
  "runtime_as_completed prs [] = ([], [], None)"
| "runtime_as_completed [] inflight = ([], inflight, None)"
| "runtime_as_completed (pr # prs) inflight = (case runtime_wait inflight (VInt 1) VNone pr of
       Blocked \<Rightarrow> runtime_as_completed prs inflight
     | Raises x \<Rightarrow> ([], inflight, Some x)
     | Returns (ready, inflight') \<Rightarrow> (case runtime_as_completed prs inflight' of
         (ys, fl, x) \<Rightarrow> (ready @ ys, fl, x)))"

fun runtime_get_list :: "nat list \<Rightarrow> int option \<Rightarrow> int \<Rightarrow> pyruntime \<Rightarrow> pyruntime \<times> operation_result list outcome" where
  "runtime_get_list [] recv t pr = (pr, Returns [])"
| "runtime_get_list (k # ks) recv t pr = (case rfut_result k recv t pr of
       (pr', Blocked) \<Rightarrow> (pr', Blocked)
     | (pr', Raises x) \<Rightarrow> (pr', Raises x)
     | (pr', Returns r) \<Rightarrow> (case runtime_get_list ks recv t pr' of
           (pr'', Returns rs) \<Rightarrow> (pr'', Returns (r # rs))
         | (pr'', q) \<Rightarrow> (pr'', q)))"

text \<open>A \<open>get\<close> that would block has not returned: its effects are taken together when every row is there.\<close>

definition runtime_get :: "nat list \<Rightarrow> int option \<Rightarrow> int \<Rightarrow> pyruntime \<Rightarrow> pyruntime \<times> operation_result list outcome" where
  "runtime_get ks recv t pr = (case runtime_get_list ks recv t pr of (pr', Blocked) \<Rightarrow> (pr, Blocked) | r \<Rightarrow> r)"

subsection \<open>Observation and shutdown\<close>

definition runtime_num_lanes :: "pyruntime \<Rightarrow> int py" where
  "runtime_num_lanes pr = (if pr_closed pr then Inl RuntimeError else Inr (runtime_engine_num_lanes (pr_native pr)))"

definition runtime_lane_stats :: "pyruntime \<Rightarrow> (string \<times> int \<times> bool) list py" where
  "runtime_lane_stats pr = (if pr_closed pr then Inl RuntimeError else runtime_engine_lane_stats (pr_native pr))"

definition runtime_shutdown :: "pyruntime \<times> process \<Rightarrow> (pyruntime \<times> process) \<times> unit outcome" where
  "runtime_shutdown pw = (case pw of (pr, ws) \<Rightarrow>
     if pr_closed pr then (pw, Returns ())
     else (case runtime_engine_shutdown (pr_native pr, ws) of ((e, ws'), r) \<Rightarrow>
       ((pr\<lparr>pr_closed := True, pr_native := e\<rparr>, ws'), r)))"

text \<open>\<open>__exit__\<close> returns \<open>False\<close>: the exception of the block goes on. \<open>__del__\<close> shuts down what is open.\<close>

definition runtime_exit :: "pyruntime \<times> process \<Rightarrow> ((pyruntime \<times> process) \<times> unit outcome) \<times> bool" where
  "runtime_exit pw = (runtime_shutdown pw, False)"

definition runtime_del :: "pyruntime \<times> process \<Rightarrow> pyruntime \<times> process" where
  "runtime_del pw = (if pr_closed (fst pw) then pw else fst (runtime_shutdown pw))"

end
