(* ===== verification/RuntimeFacadeInv.thy ===== *)
theory RuntimeFacadeInv
  imports RuntimeFacade
begin

text \<open>
  The invariant of a Python runtime over every sequence of calls, bridge requests, lane steps and clock
  ticks: its lanes are reachable lanes, and every future names a request of one of them.
\<close>

subsection \<open>Lanes of an engine\<close>

definition some_reachable :: "rlane \<Rightarrow> bool" where
  "some_reachable l \<longleftrightarrow> (\<exists>a nb mi v. rl_reachable a nb mi v l)"

definition unpended :: "rlane \<Rightarrow> bool" where
  "unpended l \<longleftrightarrow> (\<forall>c \<in> set (rl_cells l). \<not> rc_pend c)"

definition lane_fine :: "rlane \<Rightarrow> bool" where
  "lane_fine l \<longleftrightarrow> some_reachable l \<and> unpended l"

lemma some_reachable_step: "some_reachable l \<Longrightarrow> rl_step l l' \<Longrightarrow> some_reachable l'"
  unfolding some_reachable_def using rl_reachable.Step by blast

lemma some_reachable_inv: "some_reachable l \<Longrightarrow> rl_inv l"
  unfolding some_reachable_def using rl_reachable_inv by blast

lemma lane_fine_new: "lane_fine (new_rlane a nb mi v t)"
  unfolding lane_fine_def some_reachable_def
proof
  show "\<exists>a' nb' mi' v'. rl_reachable a' nb' mi' v' (new_rlane a nb mi v t)"
    by (intro exI) (rule rl_reachable.New)
  show "unpended (new_rlane a nb mi v t)" by (simp add: unpended_def new_rlane_def)
qed

lemma lane_fine_push:
  assumes "lane_fine l" "\<not> rl_stop l" "job_ok j"
  shows "lane_fine (rl_push j l)"
  using assms some_reachable_step [OF _ rl_step.Submit]
  by (auto simp: lane_fine_def unpended_def) (auto simp: rl_push_def)

lemma unpended_upd: "unpended l \<Longrightarrow> (i < length (rl_cells l) \<Longrightarrow> \<not> rc_pend (f (rl_cells l ! i))) \<Longrightarrow> unpended (upd_cell i f l)"
proof -
  assume u: "unpended l" and f: "i < length (rl_cells l) \<Longrightarrow> \<not> rc_pend (f (rl_cells l ! i))"
  show ?thesis
  proof (cases "i < length (rl_cells l)")
    case True
    then show ?thesis using u f set_update_subset_insert [of "rl_cells l" i "f (rl_cells l ! i)"]
      by (auto simp: unpended_def upd_cell_def)
  qed (use u in \<open>simp add: unpended_def upd_cell_def list_update_beyond\<close>)
qed

lemma unpended_task: "unpended l \<Longrightarrow> task_step i s l = (l', s') \<Longrightarrow> unpended l'"
  by (cases s) (auto simp: Let_def split: if_splits prod.splits intro!: unpended_upd, auto simp: unpended_def)

lemma unpended_consumer:
  assumes "unpended l" "consumer_step l = Some l'"
  shows "unpended l'"
proof (cases "rl_worker l")
  case RIdle
  then show ?thesis using assms by (auto simp: consumer_step_def pop_item_def unpended_def split: list.splits if_splits)
next
  case (RPopped i)
  obtain t ok where t: "rbegin_service (job_checkpoints (rc_job (rl_cells l ! i))) (rc_tok (rl_cells l ! i)) = (t, ok)"
    by fastforce
  have "unpended (upd_cell i (\<lambda>c. c\<lparr>rc_tok := t\<rparr>) l)"
    by (rule unpended_upd [OF assms(1)]) (use assms(1) in \<open>auto simp: unpended_def\<close>)
  then show ?thesis using RPopped assms t
    by (auto simp: consumer_step_def dispatch_item_def Let_def unpended_def split: if_splits)
next
  case (RServing i s)
  show ?thesis
  proof (cases "s = TSettled")
    case True
    then show ?thesis using assms RServing by (auto simp: consumer_step_def unpended_def split: if_splits)
  next
    case False
    then obtain m s' where "task_step i s l = (m, s')" "l' = m\<lparr>rl_worker := RServing i s'\<rparr>"
      using consumer_serving [OF assms(2) RServing] by blast
    then show ?thesis using unpended_task [OF assms(1)] by (simp add: unpended_def)
  qed
next
  case RClear
  then show ?thesis using assms by (auto simp: consumer_step_def clear_active_def unpended_def)
next
  case RExited
  then show ?thesis using assms by (simp add: consumer_step_def)
qed

lemma unpended_flight: "unpended l \<Longrightarrow> flight_step n l = Some l' \<Longrightarrow> unpended l'"
  by (erule flight_cases) (use unpended_task in \<open>fastforce simp: unpended_def\<close>)+

lemma step_cells:
  assumes "consumer_step l = Some l' \<or> flight_step n l = Some l'"
  shows "length (rl_cells l') = length (rl_cells l)"
  using step_jobs [OF assms] by (metis length_map)

lemma lane_fine_consumer: "lane_fine l \<Longrightarrow> consumer_step l = Some l' \<Longrightarrow> lane_fine l'"
  unfolding lane_fine_def using some_reachable_step rl_step.Consumer unpended_consumer by blast

lemma lane_fine_flight: "lane_fine l \<Longrightarrow> flight_step n l = Some l' \<Longrightarrow> lane_fine l'"
  unfolding lane_fine_def using some_reachable_step rl_step.Flight unpended_flight by blast

lemma lane_fine_tick:
  assumes "lane_fine l" "0 \<le> d"
  shows "lane_fine (l\<lparr>rl_now := rl_now l + d\<rparr>)"
  using assms some_reachable_step [OF _ rl_step.Tick [OF assms(2)]] by (simp add: lane_fine_def unpended_def)

lemma cancel_fully_unpended:
  assumes "unpended l"
  shows "unpended (cancel_fully i l)"
proof -
  have "\<not> rc_pend (rsettle_cell a t c)" for a t c by (simp add: rsettle_cell_def)
  then show ?thesis
    using assms by (cases "i < length (rl_cells l)")
      (auto simp: cancel_fully_def rl_settle_def rl_cancel_def upd_cell_def unpended_def split: prod.splits
        dest!: set_update_subset_insert [THEN subsetD])
qed

lemma cancel_fully_frame:
  "length (rl_cells (cancel_fully i l)) = length (rl_cells l)" "rl_stop (cancel_fully i l) = rl_stop l"
  "rl_queue (cancel_fully i l) = rl_queue l" "rl_worker (cancel_fully i l) = rl_worker l"
  "rl_flight (cancel_fully i l) = rl_flight l" "rl_active_tok (cancel_fully i l) = rl_active_tok l"
  by (simp_all add: cancel_fully_def rl_settle_def rl_cancel_def upd_cell_def split: prod.split)

lemma lane_fine_cancel:
  assumes "lane_fine l" "i < length (rl_cells l)"
  shows "lane_fine (cancel_fully i l)"
proof -
  have "some_reachable (fst (rl_cancel i l))"
    using assms some_reachable_step rl_step.Cancel unfolding lane_fine_def by blast
  moreover have "i < length (rl_cells (fst (rl_cancel i l)))"
    using assms(2) by (simp add: rl_cancel_def upd_cell_def split: prod.split)
  ultimately have "some_reachable (cancel_fully i l)"
    unfolding cancel_fully_def using some_reachable_step rl_step.Settle by blast
  then show ?thesis using assms(1) cancel_fully_unpended by (simp add: lane_fine_def)
qed

subsection \<open>Tearing a lane down\<close>

lemma settled_cancel_fully:
  assumes "settled_at k l" "lane_fine l" "i < length (rl_cells l)"
  shows "settled_at k (cancel_fully i l)"
proof -
  have "rl_inv l" using assms(2) some_reachable_inv by (simp add: lane_fine_def)
  then have "settled_at k (fst (rl_cancel i l))" "rl_inv (fst (rl_cancel i l))"
    using settled_step [OF rl_step.Cancel [OF assms(3)] assms(1)] inv_cancel assms(3) by blast+
  moreover have "i < length (rl_cells (fst (rl_cancel i l)))"
    using assms(3) by (simp add: rl_cancel_def upd_cell_def split: prod.split)
  ultimately show ?thesis unfolding cancel_fully_def using settled_step rl_step.Settle by blast
qed

lemma cancel_fully_settles:
  assumes "rc_waiting (rl_actor_id l) (rl_cells l ! i)" "i < length (rl_cells l)"
  shows "settled_at i (cancel_fully i l)"
  using assms by (auto simp: cancel_fully_def rl_settle_def rl_cancel_def rcancel_cell_def rcancel_def
      upd_cell_def settled_at_def rsettle_cell_def ris_cancelled_def rc_waiting_def rc_skipped_def)

lemma fold_cancel:
  assumes "lane_fine l" "list_all (\<lambda>i. i < length (rl_cells l)) is"
  shows "lane_fine (fold cancel_fully is l) \<and> length (rl_cells (fold cancel_fully is l)) = length (rl_cells l)
    \<and> rl_stop (fold cancel_fully is l) = rl_stop l \<and> rl_queue (fold cancel_fully is l) = rl_queue l
    \<and> (\<forall>k. settled_at k l \<longrightarrow> settled_at k (fold cancel_fully is l))
    \<and> (\<forall>k. k \<in> set is \<inter> set (rl_queue l) \<longrightarrow> settled_at k (fold cancel_fully is l))"
  using assms
proof (induction "is" arbitrary: l)
  case Nil
  then show ?case by simp
next
  case (Cons i "is")
  let ?l = "cancel_fully i l"
  have i: "i < length (rl_cells l)" using Cons.prems by simp
  have fine: "lane_fine ?l" by (rule lane_fine_cancel [OF Cons.prems(1) i])
  have IH: "lane_fine (fold cancel_fully is ?l) \<and> length (rl_cells (fold cancel_fully is ?l)) = length (rl_cells ?l)
    \<and> rl_stop (fold cancel_fully is ?l) = rl_stop ?l \<and> rl_queue (fold cancel_fully is ?l) = rl_queue ?l
    \<and> (\<forall>k. settled_at k ?l \<longrightarrow> settled_at k (fold cancel_fully is ?l))
    \<and> (\<forall>k. k \<in> set is \<inter> set (rl_queue ?l) \<longrightarrow> settled_at k (fold cancel_fully is ?l))"
    by (rule Cons.IH [OF fine]) (use Cons.prems in \<open>simp add: cancel_fully_frame\<close>)
  have "settled_at i ?l" if "i \<in> set (rl_queue l)"
    using that Cons.prems(1) some_reachable_inv [of l] cancel_fully_settles [OF _ i]
    by (simp add: lane_fine_def rl_inv_def)
  moreover have "settled_at k l \<longrightarrow> settled_at k ?l" for k
    using settled_cancel_fully [OF _ Cons.prems(1) i] by blast
  ultimately show ?case using IH by (auto simp: cancel_fully_frame)
qed

lemma pending_in_range:
  assumes "lane_fine l"
  shows "list_all (\<lambda>i. i < length (rl_cells l)) (pending_toks l)"
proof -
  have inv: "rl_inv l" using assms some_reachable_inv by (simp add: lane_fine_def)
  have "i < length (rl_cells l)" if "i \<in> set (rl_queue l)" for i using ids_of_inv(1) [OF inv] that by blast
  moreover have "i < length (rl_cells l)" if "i \<in> fst ` set (rl_flight l)" for i
    using busy_lt [OF inv, of i] that by (simp add: busy_def)
  moreover have "i < length (rl_cells l)" if "rl_active_tok l = Some i" for i
    using inv that by (auto simp: rl_inv_def mode_ok_def split: if_splits)
  ultimately show ?thesis by (auto simp: pending_toks_def list_all_iff split: option.split)
qed

lemma any_step_cases: "any_step l = Some l' \<Longrightarrow> consumer_step l = Some l' \<or> flight_step 0 l = Some l'"
  by (auto simp: any_step_def split: option.splits)

lemma drain_fine: "lane_fine l \<Longrightarrow> lane_fine (rl_drain n l) \<and> (\<forall>k. settled_at k l \<longrightarrow> settled_at k (rl_drain n l))"
proof (induction n arbitrary: l)
  case (Suc n)
  show ?case
  proof (cases "any_step l")
    case (Some l')
    then have st: "consumer_step l = Some l' \<or> flight_step 0 l = Some l'" by (rule any_step_cases)
    then have fine: "lane_fine l'" using lane_fine_consumer lane_fine_flight Suc.prems by blast
    have "rl_step l l'" using st rl_step.Consumer rl_step.Flight by blast
    then have "settled_at k l \<longrightarrow> settled_at k l'" for k
      using settled_step some_reachable_inv Suc.prems unfolding lane_fine_def by blast
    then show ?thesis using Suc.IH [OF fine] Some by simp
  qed (use Suc.prems in simp)
qed simp

text \<open>A torn down lane has a row for every request; those still queued when it began are cancelled.\<close>

lemma teardown_rows:
  assumes "lane_fine l"
  shows "lane_fine (teardown_lane l) \<and> length (rl_cells (teardown_lane l)) = length (rl_cells l)
    \<and> rl_worker (teardown_lane l) = RExited \<and> rl_queue (teardown_lane l) = []
    \<and> (\<forall>k. k < length (rl_cells l) \<longrightarrow> (\<exists>r. rc_proms (rl_cells (teardown_lane l) ! k) = [r]))
    \<and> (\<forall>k. settled_at k l \<or> k \<in> set (rl_queue l) \<longrightarrow> (\<exists>r. rc_proms (rl_cells (teardown_lane l) ! k) = [r]
           \<and> rr_status r = ''cancelled''))"
proof -
  let ?c = "cancel_pending l" and ?t = "teardown_lane l"
  have c: "lane_fine ?c" "length (rl_cells ?c) = length (rl_cells l)"
      "\<And>k. settled_at k l \<or> k \<in> set (rl_queue l) \<Longrightarrow> settled_at k ?c"
    using fold_cancel [OF assms pending_in_range [OF assms]] by (auto simp: cancel_pending_def pending_toks_def)
  let ?s = "rl_request_stop ?c"
  have s: "lane_fine ?s" "rl_inv ?s" "rl_stop ?s" "length (rl_cells ?s) = length (rl_cells l)"
    using c some_reachable_step [OF _ rl_step.Stop, of ?c] some_reachable_inv [of ?s]
    by (simp_all add: lane_fine_def unpended_def rl_request_stop_def)
  have t: "?t = rl_drain (rl_work ?s) ?s" by (simp add: teardown_lane_def stop_and_join_def Let_def)
  have d: "rl_inv ?t \<and> rl_worker ?t = RExited \<and> rl_flight ?t = [] \<and> rl_queue ?t = []
      \<and> length (rl_cells ?t) = length (rl_cells ?s) \<and> rl_actor_id ?t = rl_actor_id ?s"
    unfolding t by (rule drain_settles [OF s(2,3)]) simp
  have f: "lane_fine ?t" "\<And>k. settled_at k ?s \<Longrightarrow> settled_at k ?t"
    unfolding t using drain_fine [OF s(1)] by blast+
  have row: "\<exists>r. rc_proms (rl_cells ?t ! k) = [r]" if k: "k < length (rl_cells l)" for k
  proof -
    have kt: "k < length (rl_cells ?t)" using k d s(4) by simp
    then have "k \<in> set (rl_log ?t)" using ids_of_inv(1) [of ?t] d by auto
    moreover have "busy ?t = []" using d by (simp add: busy_def rheld_def)
    ultimately have "rc_done (rl_actor_id ?t) (rl_cells ?t ! k)" using d by (auto simp: rl_inv_def)
    moreover have "\<not> rc_pend (rl_cells ?t ! k)" using f(1) kt by (simp add: lane_fine_def unpended_def)
    ultimately show ?thesis by (auto simp: rc_done_def rc_skipped_def)
  qed
  have canc: "\<exists>r. rc_proms (rl_cells ?t ! k) = [r] \<and> rr_status r = ''cancelled''"
    if "settled_at k l \<or> k \<in> set (rl_queue l)" for k
  proof -
    have "settled_at k ?s" using c(3) [OF that] by (simp add: settled_at_def rl_request_stop_def)
    then have st: "settled_at k ?t" by (rule f(2))
    then have "k < length (rl_cells l)" using d s(4) by (simp add: settled_at_def)
    then obtain r where r: "rc_proms (rl_cells ?t ! k) = [r]" using row by blast
    then show ?thesis using cell_row(2) [of ?t k r] d st by (auto simp: settled_at_def)
  qed
  show ?thesis using d s(4) f(1) row canc by simp
qed

subsection \<open>Validated calls become jobs that do not fail on a guard\<close>

lemma marshal_typed:
  assumes "list_all2 has_type args types"
  shows "marshal_args args = Inr (map marshal args)"
  unfolding marshal_args_def
proof (rule mapM_idx_all_Inr)
  fix k assume k: "k < length args"
  then have "has_type (args ! k) (types ! k)" using list_all2_nthD [OF assms] by blast
  then show "marshal_one (args ! k) = Inr (map marshal args ! k)"
    using k by (auto simp: has_type_def marshal_one_def int64_ok_def)
qed simp

lemma validated_job:
  assumes "validate_call (VStr op) args registry = Inr out"
  shows "out = args \<and> job_ok (JOp op (map marshal args)) \<and> marshal_args args = Inr (map marshal args)
    \<and> (\<exists>types. map_of registry op = Some types \<and> length args = length types)"
proof -
  obtain types where ty: "map_of registry op = Some types" "out = args" "list_all2 has_type args types"
    using validate_call_Inr [OF assms] by auto
  have "job_ok (JOp op (map marshal args))"
  proof (cases "op = ''boom''")
    case True
    then show ?thesis by (simp add: job_ok_def checkpoint_count_def)
  next
    case False
    then have "admitted never op (run_op never op (map marshal args))"
      using validated_admitted [OF assms] ty(2) by simp
    then show ?thesis by (simp add: job_ok_def admitted_def)
  qed
  then show ?thesis using ty marshal_typed [OF ty(3)] list_all2_lengthD [OF ty(3)] by blast
qed

lemma validated_method:
  assumes "validate_actor_call (VStr a) (VStr mth) args actor_registry = Inr out"
  shows "out = args \<and> job_ok (JMethod mth (map marshal args)) \<and> marshal_args args = Inr (map marshal args)
    \<and> (\<exists>init methods types. map_of actor_registry a = Some (init, methods) \<and> map_of methods mth = Some types
         \<and> length args = length types)"
proof -
  obtain init methods types where ty: "map_of actor_registry a = Some (init, methods)" "map_of methods mth = Some types"
      "validate_typed_args args types = Inr out"
    using assms by (auto simp: validate_actor_call_def rbind_eq_Inr check_method_def split: option.splits prod.splits if_splits)
  have out: "out = args" "list_all2 has_type args types" using validate_typed_args_Inr [OF ty(3)] by simp_all
  have a: "a = ''counter''" using ty(1) by (auto simp: actor_registry_def split: if_splits)
  have "valid_counter_call (mth, args)" using assms out by (simp add: valid_counter_call_def a)
  then have "job_ok (JMethod mth (map marshal args))"
  proof (cases rule: valid_counter_cases)
    case (4 n)
    have "snd (counter_method never ''busy_get'' [OVInt n] v) \<noteq> Failed_op" for v
      by (simp add: counter_method_def as_int64_def split: option.split)
    then show ?thesis using 4 by (simp add: job_ok_def)
  qed (simp_all add: job_ok_def method_checkpoints_def)
  then show ?thesis using ty out marshal_typed [OF out(2)] list_all2_lengthD [OF out(2)] by blast
qed

subsection \<open>The invariant of a runtime\<close>

definition ref_ok :: "rlane list \<Rightarrow> rfuture \<Rightarrow> bool" where
  "ref_ok ls f \<longleftrightarrow> rf_lane f < length ls \<and> rf_id f < length (rl_cells (ls ! rf_lane f))"

definition actor_ok :: "rengine \<Rightarrow> string \<times> nat \<times> string \<Rightarrow> bool" where
  "actor_ok e x \<longleftrightarrow> re_nops e \<le> fst (snd x) \<and> fst (snd x) < length (re_lanes e)
     \<and> \<not> rl_stop (re_lanes e ! fst (snd x))"

definition lanes_live :: "rengine \<Rightarrow> bool" where
  "lanes_live e \<longleftrightarrow> 0 < re_nops e \<and> re_nops e \<le> length (re_lanes e)
     \<and> (\<forall>i < re_nops e. \<not> rl_stop (re_lanes e ! i)) \<and> list_all (actor_ok e) (re_actors e)
     \<and> distinct (map (fst \<circ> snd) (re_actors e)) \<and> distinct (map fst (re_actors e))"

lemma actor_lane:
  assumes "lanes_live e" "map_of (re_actors e) a = Some (i, ty)"
  shows "re_nops e \<le> i \<and> i < length (re_lanes e) \<and> \<not> rl_stop (re_lanes e ! i)"
  using assms(1) map_of_SomeD [OF assms(2)] by (force simp: lanes_live_def list_all_iff actor_ok_def)

definition re_inv :: "rengine \<Rightarrow> bool" where
  "re_inv e \<longleftrightarrow> list_all lane_fine (re_lanes e) \<and> list_all (ref_ok (re_lanes e)) (re_futs e)
     \<and> (re_running e \<longrightarrow> lanes_live e)
     \<and> (\<not> re_running e \<longrightarrow> list_all (\<lambda>l. rl_worker l = RExited) (re_lanes e))"

definition pr_inv :: "pyruntime \<Rightarrow> bool" where
  "pr_inv pr \<longleftrightarrow> re_inv (pr_native pr) \<and> pr_closed pr = (\<not> re_running (pr_native pr))
     \<and> distinct (map pf_rf (pr_futs pr))
     \<and> list_all (\<lambda>f. pf_rf f < length (re_futs (pr_native pr))
          \<and> pf_retired f = (\<not> rf_valid (re_futs (pr_native pr) ! pf_rf f))) (pr_futs pr)"

text \<open>One lane of an engine moves: cells only grow, and a live lane stays live.\<close>

definition lane_grows :: "rlane \<Rightarrow> rlane \<Rightarrow> bool" where
  "lane_grows l l' \<longleftrightarrow> lane_fine l' \<and> length (rl_cells l) \<le> length (rl_cells l')"

lemma ref_ok_grows:
  assumes "list_all (ref_ok ls) fs" "i < length ls" "length (rl_cells (ls ! i)) \<le> length (rl_cells l')"
  shows "list_all (ref_ok (ls[i := l'])) fs"
proof -
  have "ref_ok (ls[i := l']) f" if "ref_ok ls f" for f
    using that assms(2,3) by (cases "rf_lane f = i") (auto simp: ref_ok_def)
  then show ?thesis using assms(1) by (simp add: list_all_iff)
qed

lemma re_inv_lane:
  assumes inv: "re_inv e" and i: "i < length (re_lanes e)"
    and g: "lane_grows (re_lanes e ! i) l'" and live: "rl_stop l' = rl_stop (re_lanes e ! i)"
    and run: "re_running e \<or> rl_worker l' = rl_worker (re_lanes e ! i)"
  shows "re_inv (upd_rlane i l' e)"
proof -
  have "list_all lane_fine ((re_lanes e)[i := l'])"
    using inv g list_update_all [OF i, of lane_fine l'] by (simp add: re_inv_def lane_grows_def list_all_iff)
  moreover have "list_all (ref_ok ((re_lanes e)[i := l'])) (re_futs e)"
    using inv g i by (auto simp: re_inv_def lane_grows_def intro: ref_ok_grows)
  moreover have "rl_stop ((re_lanes e)[i := l'] ! k) = rl_stop (re_lanes e ! k)" if "k < length (re_lanes e)" for k
    using live that by (cases "k = i") simp_all
  then have "re_running e \<longrightarrow> lanes_live (upd_rlane i l' e)"
    using inv by (auto simp: re_inv_def lanes_live_def upd_rlane_def actor_ok_def list_all_iff)
  moreover have "list_all (\<lambda>l. rl_worker l = RExited) ((re_lanes e)[i := l'])" if "\<not> re_running e"
  proof -
    have old: "list_all (\<lambda>l. rl_worker l = RExited) (re_lanes e)" using inv that by (simp add: re_inv_def)
    then have "rl_worker l' = RExited" using run that i by (simp add: list_all_length)
    then show ?thesis using old list_update_all [OF i, of "\<lambda>l. rl_worker l = RExited" l'] by (simp add: list_all_iff)
  qed
  ultimately show ?thesis by (simp add: re_inv_def upd_rlane_def)
qed

lemma re_inv_future:
  assumes "re_inv e" "i < length (re_lanes e)" "k < length (rl_cells (re_lanes e ! i))"
  shows "re_inv (re_add_future i k e)"
  using assms by (simp add: re_inv_def re_add_future_def ref_ok_def lanes_live_def actor_ok_def list_all_iff)

lemma lane_of: "re_inv e \<Longrightarrow> i < length (re_lanes e) \<Longrightarrow> lane_fine (re_lanes e ! i)"
  by (simp add: re_inv_def list_all_length)

lemma push_grows: "lane_fine l \<Longrightarrow> \<not> rl_stop l \<Longrightarrow> job_ok j \<Longrightarrow> lane_grows l (rl_push j l)"
  using lane_fine_push by (simp add: lane_grows_def) (simp add: rl_push_def)

lemma enqueue_cases:
  assumes "enqueue_job i j e = (e', r)"
  obtains "r = None" "e' = upd_rlane i (re_lanes e ! i) e" "0 \<le> re_cap e"
      "re_cap e \<le> int (length (rl_queue (re_lanes e ! i)))"
    | "r = Some (length (re_futs e))"
      "e' = re_add_future i (length (rl_cells (re_lanes e ! i))) (upd_rlane i (rl_push j (re_lanes e ! i)) e)"
      "re_cap e < 0 \<or> int (length (rl_queue (re_lanes e ! i))) < re_cap e"
  using assms by (auto simp: enqueue_job_def rl_try_submit_def rl_submit_def split: if_splits)

lemma enqueue_inv:
  assumes inv: "re_inv e" and run: "re_running e" and i: "i < length (re_lanes e)"
    and live: "\<not> rl_stop (re_lanes e ! i)" and j: "job_ok j" and enq: "enqueue_job i j e = (e', r)"
  shows "re_inv e' \<and> re_running e' \<and> length (re_futs e') = length (re_futs e) + (if r = None then 0 else 1)
    \<and> (\<forall>k < length (re_futs e). re_futs e' ! k = re_futs e ! k)
    \<and> (\<forall>k. r = Some k \<longrightarrow> k = length (re_futs e) \<and> rf_valid (re_futs e' ! k))"
  using enq
proof (cases rule: enqueue_cases)
  case 1
  then show ?thesis using inv run by (simp add: upd_rlane_def)
next
  case 2
  have g: "lane_grows (re_lanes e ! i) (rl_push j (re_lanes e ! i))"
    by (rule push_grows [OF lane_of [OF inv i] live j])
  have "re_inv (upd_rlane i (rl_push j (re_lanes e ! i)) e)"
    by (rule re_inv_lane [OF inv i g]) (simp_all add: rl_push_def run)
  then have "re_inv e'" unfolding 2(2)
    by (rule re_inv_future) (use i in \<open>simp_all add: upd_rlane_def rl_push_def\<close>)
  then show ?thesis using run 2 by (simp add: re_add_future_def upd_rlane_def nth_append)
qed

lemma re_inv_cursor: "re_inv (re_rr_advance e) = re_inv e"
  by (simp add: re_inv_def re_rr_advance_def lanes_live_def actor_ok_def list_all_iff)

lemma rr_live:
  assumes "re_inv e" "re_running e"
  shows "re_rr_lane e < length (re_lanes e) \<and> \<not> rl_stop (re_lanes e ! re_rr_lane e)"
proof -
  have "re_rr_lane e < re_nops e" using assms by (simp add: re_inv_def lanes_live_def re_rr_lane_def)
  then show ?thesis using assms by (simp add: re_inv_def lanes_live_def)
qed

text \<open>What a submission does, as seen from Python.\<close>

lemma pr_inv_wrap:
  assumes inv: "pr_inv pr" and e: "re_inv e \<and> re_running e = re_running (pr_native pr)
      \<and> length (re_futs e) = length (re_futs (pr_native pr)) + (if r = None then 0 else 1)
      \<and> (\<forall>k < length (re_futs (pr_native pr)). re_futs e ! k = re_futs (pr_native pr) ! k)
      \<and> (\<forall>k. r = Some k \<longrightarrow> k = length (re_futs (pr_native pr)) \<and> rf_valid (re_futs e ! k))"
  shows "pr_inv (fst (wrap_future t (Inr (e, r)) pr))"
proof -
  let ?ok = "\<lambda>f. pf_rf f < length (re_futs e) \<and> pf_retired f = (\<not> rf_valid (re_futs e ! pf_rf f))"
  have old: "list_all ?ok (pr_futs pr)"
    unfolding list_all_iff
  proof
    fix f assume "f \<in> set (pr_futs pr)"
    then have f: "pf_rf f < length (re_futs (pr_native pr))"
        "pf_retired f = (\<not> rf_valid (re_futs (pr_native pr) ! pf_rf f))"
      using inv by (simp_all add: pr_inv_def list_all_iff)
    moreover have "re_futs e ! pf_rf f = re_futs (pr_native pr) ! pf_rf f" using e f(1) by blast
    ultimately show "?ok f" using e by simp
  qed
  have base: "re_inv e" "pr_closed pr = (\<not> re_running e)" "distinct (map pf_rf (pr_futs pr))"
    using inv e by (simp_all add: pr_inv_def)
  show ?thesis
  proof (cases r)
    case None
    then show ?thesis using old base by (simp add: wrap_future_def pr_inv_def pr_with_def)
  next
    case (Some k)
    have k: "k = length (re_futs (pr_native pr))" "rf_valid (re_futs e ! k)" using e Some by blast+
    have "k \<notin> pf_rf ` set (pr_futs pr)" using inv k(1) by (auto simp: pr_inv_def list_all_iff)
    moreover have "k < length (re_futs e)" using e k(1) Some by simp
    ultimately show ?thesis using old base k(2) Some
      by (simp add: wrap_future_def pr_inv_def pr_with_def)
  qed
qed

lemma submit_native:
  assumes inv: "pr_inv pr" and v: "validate_call (VStr op) args registry = Inr out" and opn: "\<not> pr_closed pr"
  shows "\<exists>e r. engine_submit_operation op out (pr_native pr) = Inr (e, r)
    \<and> enqueue_job (re_rr_lane (pr_native pr)) (JOp op (map marshal args)) (re_rr_advance (pr_native pr)) = (e, r)"
proof -
  note job = validated_job [OF v]
  have "re_running (pr_native pr)" using inv opn by (simp add: pr_inv_def)
  then show ?thesis using job
    by (cases "enqueue_job (re_rr_lane (pr_native pr)) (JOp op (map marshal args)) (re_rr_advance (pr_native pr))")
      (auto simp: engine_submit_operation_def)
qed

lemma pr_inv_submit:
  assumes inv: "pr_inv pr"
  shows "pr_inv (fst (submit_operation t op_id args pr))"
proof (cases "pr_closed pr \<or> (\<exists>x. validate_call op_id args registry = Inl x)")
  case True
  then show ?thesis using inv by (auto simp: submit_operation_def)
next
  case False
  then obtain out where v: "validate_call op_id args registry = Inr out" by (cases "validate_call op_id args registry") auto
  then obtain op where op: "op_id = VStr op" using validate_call_Inr [OF v] by blast
  let ?n = "pr_native pr"
  have run: "re_running ?n" and ri: "re_inv ?n" using inv False by (auto simp: pr_inv_def)
  obtain e r where er: "engine_submit_operation op out ?n = Inr (e, r)"
      "enqueue_job (re_rr_lane ?n) (JOp op (map marshal args)) (re_rr_advance ?n) = (e, r)"
    using submit_native [OF inv, of op args out] v op False by auto
  have job: "job_ok (JOp op (map marshal args))" using validated_job v op by blast
  have "re_inv e \<and> re_running e \<and> length (re_futs e) = length (re_futs (re_rr_advance ?n)) + (if r = None then 0 else 1)
    \<and> (\<forall>k < length (re_futs (re_rr_advance ?n)). re_futs e ! k = re_futs (re_rr_advance ?n) ! k)
    \<and> (\<forall>k. r = Some k \<longrightarrow> k = length (re_futs (re_rr_advance ?n)) \<and> rf_valid (re_futs e ! k))"
    by (rule enqueue_inv [OF _ _ _ _ job er(2)])
      (use ri run rr_live [OF ri run] in \<open>simp_all add: re_inv_cursor\<close>, simp_all add: re_rr_advance_def)
  then have "pr_inv (fst (wrap_future t (Inr (e, r)) pr))"
    using run by (intro pr_inv_wrap [OF inv]) (simp add: re_rr_advance_def)
  then show ?thesis using False v op er(1) by (simp add: submit_operation_def)
qed

lemma pr_inv_call:
  assumes inv: "pr_inv pr"
  shows "pr_inv (fst (handle_call t h mth args pr))"
proof -
  let ?n = "pr_native pr" and ?hd = "pr_handles pr ! h"
  show ?thesis
  proof (cases "\<exists>e r. handle_call t h mth args pr = wrap_future t (Inr (e, r)) pr \<and> \<not> pr_closed pr
      \<and> (\<exists>i j. map_of (re_actors ?n) (hd_actor_id ?hd) = Some i \<and> job_ok j \<and> enqueue_job (fst i) j ?n = (e, r))")
    case True
    then obtain e r i ty j where w: "handle_call t h mth args pr = wrap_future t (Inr (e, r)) pr" "\<not> pr_closed pr"
        "map_of (re_actors ?n) (hd_actor_id ?hd) = Some (i, ty)" "job_ok j" "enqueue_job i j ?n = (e, r)" by auto
    have run: "re_running ?n" and ri: "re_inv ?n" using inv w(2) by (auto simp: pr_inv_def)
    have i: "i < length (re_lanes ?n)" "\<not> rl_stop (re_lanes ?n ! i)"
      using ri run actor_lane [OF _ w(3)] by (auto simp: re_inv_def)
    have "re_inv e \<and> re_running e \<and> length (re_futs e) = length (re_futs ?n) + (if r = None then 0 else 1)
      \<and> (\<forall>k < length (re_futs ?n). re_futs e ! k = re_futs ?n ! k)
      \<and> (\<forall>k. r = Some k \<longrightarrow> k = length (re_futs ?n) \<and> rf_valid (re_futs e ! k))"
      by (rule enqueue_inv [OF ri run i w(4,5)])
    then have "pr_inv (fst (wrap_future t (Inr (e, r)) pr))" using run by (intro pr_inv_wrap [OF inv]) simp
    then show ?thesis using w(1) by simp
  next
    case False
    have "fst (handle_call t h mth args pr) = pr"
    proof (rule ccontr)
      assume ne: "fst (handle_call t h mth args pr) \<noteq> pr"
      obtain m out e r where c: "\<not> pr_closed pr" "mth = VStr m"
          "validate_actor_call (VStr (hd_actor_type ?hd)) (VStr m) args actor_registry = Inr out"
          "engine_call_actor_method (hd_actor_id ?hd) m out ?n = Inr (e, r)"
          "handle_call t h mth args pr = wrap_future t (Inr (e, r)) pr"
        using ne by (auto simp: handle_call_def Let_def wrap_future_def split: if_splits sum.splits pyval.splits)
      note job = validated_method [OF c(3)]
      have "\<exists>i. map_of (re_actors ?n) (hd_actor_id ?hd) = Some i
          \<and> enqueue_job (fst i) (JMethod m (map marshal args)) ?n = (e, r)"
        using c(4) job by (auto simp: engine_call_actor_method_def split: if_splits option.splits)
      then show False using False c(1,5) job by blast
    qed
    then show ?thesis using inv by simp
  qed
qed

lemma re_inv_new_lane:
  assumes inv: "re_inv e" and run: "re_running e" and fresh: "map_of (re_actors e) aid = None"
    and l: "lane_fine l" "\<not> rl_stop l"
  shows "re_inv (e\<lparr>re_lanes := re_lanes e @ [l], re_actors := (aid, length (re_lanes e), ty) # re_actors e\<rparr>)"
proof -
  let ?e = "e\<lparr>re_lanes := re_lanes e @ [l], re_actors := (aid, length (re_lanes e), ty) # re_actors e\<rparr>"
  have live: "lanes_live e" using inv run by (simp add: re_inv_def)
  have "list_all (ref_ok (re_lanes e @ [l])) (re_futs e)"
    using inv by (auto simp: re_inv_def list_all_iff ref_ok_def nth_append)
  moreover have "lanes_live ?e"
  proof -
    have old: "list_all (actor_ok ?e) (re_actors e)"
      using live by (auto simp: lanes_live_def list_all_iff actor_ok_def nth_append)
    moreover have "length (re_lanes e) \<notin> (fst \<circ> snd) ` set (re_actors e)"
      using live by (auto simp: lanes_live_def list_all_iff actor_ok_def)
    moreover have "aid \<notin> fst ` set (re_actors e)" using fresh by (simp add: map_of_eq_None_iff)
    moreover have "actor_ok ?e (aid, length (re_lanes e), ty)"
      using live l(2) by (simp add: actor_ok_def lanes_live_def)
    ultimately show ?thesis using live by (simp add: lanes_live_def nth_append)
  qed
  ultimately show ?thesis using inv l run by (simp add: re_inv_def)
qed

lemma pr_inv_native:
  assumes inv: "pr_inv pr" and "re_inv e" "re_running e = re_running (pr_native pr)" "re_futs e = re_futs (pr_native pr)"
  shows "pr_inv ((pr_with e pr)\<lparr>pr_handles := hs\<rparr>)" and "pr_inv (pr_with e pr)"
  using assms by (simp_all add: pr_inv_def pr_with_def)

lemma pr_inv_create:
  assumes inv: "pr_inv pr"
  shows "pr_inv (fst (create_actor aid t ty args pr))"
proof (cases "fst (create_actor aid t ty args pr) = pr")
  case False
  then obtain a out where v: "\<not> pr_closed pr" "validate_actor_create ty args actor_registry = Inr out" "ty = VStr a"
    by (auto simp: create_actor_def split: if_splits sum.splits pyval.splits)
  then obtain e aid' where n: "engine_create_actor aid t a out (pr_native pr) = Inr (e, aid')"
    using False by (cases "engine_create_actor aid t a out (pr_native pr)") (auto simp: create_actor_def)
  then have "aid' = aid" by (auto simp: engine_create_actor_def rbind_eq_Inr split: if_splits option.splits)
  then have c: "\<not> pr_closed pr" "engine_create_actor aid t a out (pr_native pr) = Inr (e, aid)"
      "\<exists>hs. fst (create_actor aid t ty args pr) = (pr_with e pr)\<lparr>pr_handles := hs\<rparr>"
    using v n by (auto simp: create_actor_def)
  have run: "re_running (pr_native pr)" and ri: "re_inv (pr_native pr)" using inv c(1) by (auto simp: pr_inv_def)
  obtain v where e: "e = (pr_native pr)\<lparr>re_lanes := re_lanes (pr_native pr) @ [new_rlane aid False 1 v t],
      re_actors := (aid, length (re_lanes (pr_native pr)), a) # re_actors (pr_native pr)\<rparr>"
    using c(2) by (auto simp: engine_create_actor_def rbind_eq_Inr split: if_splits option.splits prod.splits)
  have fresh: "map_of (re_actors (pr_native pr)) aid = None"
    using c(2) by (cases "map_of (re_actors (pr_native pr)) aid")
      (auto simp: engine_create_actor_def rbind_eq_Inr split: if_splits option.splits prod.splits)
  have "re_inv e" unfolding e
    by (rule re_inv_new_lane [OF ri run fresh lane_fine_new]) (simp add: new_rlane_def)
  then show ?thesis using c(3) pr_inv_native(1) [OF inv] e by auto
qed (use inv in simp)

text \<open>Releasing an actor tears its lane down and touches no other.\<close>

lemma release_native:
  assumes inv: "re_inv e" and rel: "engine_release_actor aid e = Inr e'"
  obtains i ty where "map_of (re_actors e) aid = Some (i, ty)" "re_running e" "i < length (re_lanes e)"
      "e' = (upd_rlane i (teardown_lane (re_lanes e ! i)) e)\<lparr>re_actors := filter (\<lambda>a. fst a \<noteq> aid) (re_actors e)\<rparr>"
      "re_inv e'"
proof -
  obtain i ty where i: "map_of (re_actors e) aid = Some (i, ty)" and run: "re_running e"
    and e': "e' = (upd_rlane i (teardown_lane (re_lanes e ! i)) e)\<lparr>re_actors := filter (\<lambda>a. fst a \<noteq> aid) (re_actors e)\<rparr>"
    using rel by (auto simp: engine_release_actor_def split: if_splits option.splits)
  have live: "lanes_live e" using inv run by (simp add: re_inv_def)
  note il = actor_lane [OF live i]
  have fine: "lane_fine (re_lanes e ! i)" using lane_of [OF inv] il by blast
  note td = teardown_rows [OF fine]
  have mem: "(aid, i, ty) \<in> set (re_actors e)" by (rule map_of_SomeD [OF i])
  have "list_all lane_fine ((re_lanes e)[i := teardown_lane (re_lanes e ! i)])"
  proof -
    have "lane_fine (teardown_lane (re_lanes e ! i))" using td by blast
    moreover have "\<forall>l \<in> set (re_lanes e). lane_fine l" using inv by (simp add: re_inv_def list_all_iff)
    ultimately show ?thesis using il list_update_all [of i "re_lanes e" lane_fine] by (simp add: list_all_iff)
  qed
  moreover have "list_all (ref_ok ((re_lanes e)[i := teardown_lane (re_lanes e ! i)])) (re_futs e)"
    using inv td il by (auto simp: re_inv_def intro: ref_ok_grows)
  moreover have "lanes_live e'"
  proof -
    have other: "fst (snd x) \<noteq> i" if "x \<in> set (re_actors e)" "fst x \<noteq> aid" for x
    proof
      assume "fst (snd x) = i"
      then have "x = (aid, i, ty)"
        using live that(1) mem unfolding lanes_live_def distinct_map inj_on_def by (metis comp_apply fst_conv snd_conv)
      then show False using that(2) by simp
    qed
    have "list_all (actor_ok e') (filter (\<lambda>a. fst a \<noteq> aid) (re_actors e))"
      unfolding list_all_iff
    proof
      fix x assume x: "x \<in> set (filter (\<lambda>a. fst a \<noteq> aid) (re_actors e))"
      then have "fst (snd x) \<noteq> i" "actor_ok e x" using other live by (auto simp: lanes_live_def list_all_iff)
      then show "actor_ok e' x" by (simp add: actor_ok_def e' upd_rlane_def)
    qed
    moreover have "\<not> rl_stop (re_lanes e' ! k)" if "k < re_nops e" for k
      using live il that by (simp add: lanes_live_def e' upd_rlane_def)
    ultimately show ?thesis using live by (simp add: lanes_live_def e' upd_rlane_def distinct_map_filter)
  qed
  ultimately have "re_inv e'" using run by (simp add: re_inv_def e' upd_rlane_def)
  then show ?thesis using that i run il e' by blast
qed

lemma pr_inv_release:
  assumes inv: "pr_inv pr"
  shows "pr_inv (fst (release_actor a pr))"
proof (cases "fst (release_actor a pr) = pr")
  case False
  then obtain h e where c: "engine_release_actor (hd_actor_id (pr_handles pr ! h)) (pr_native pr) = Inr e"
      "\<exists>hs. fst (release_actor a pr) = (pr_with e pr)\<lparr>pr_handles := hs\<rparr>"
    by (auto simp: release_actor_def split: if_splits sum.splits handle_arg.splits)
  have ri: "re_inv (pr_native pr)" using inv by (simp add: pr_inv_def)
  obtain i ty where "e = (upd_rlane i (teardown_lane (re_lanes (pr_native pr) ! i)) (pr_native pr))\<lparr>re_actors :=
      filter (\<lambda>a. fst a \<noteq> hd_actor_id (pr_handles pr ! h)) (re_actors (pr_native pr))\<rparr>" "re_inv e"
    using release_native [OF ri c(1)] by blast
  then show ?thesis using c(2) pr_inv_native(1) [OF inv] by (auto simp: upd_rlane_def)
qed (use inv in simp)

lemma fut_ref:
  assumes "pr_inv pr" "k < length (pr_futs pr)"
  shows "pf_rf (pr_futs pr ! k) < length (re_futs (pr_native pr))"
    and "ref_ok (re_lanes (pr_native pr)) (re_futs (pr_native pr) ! pf_rf (pr_futs pr ! k))"
    and "pf_retired (pr_futs pr ! k) = (\<not> rf_valid (re_futs (pr_native pr) ! pf_rf (pr_futs pr ! k)))"
  using assms by (auto simp: pr_inv_def re_inv_def list_all_length)

lemma cancel_native:
  assumes "re_inv e" "ref_ok (re_lanes e) (re_futs e ! k)"
  shows "re_inv (fst (rt_future_cancel k e)) \<and> re_running (fst (rt_future_cancel k e)) = re_running e
    \<and> re_futs (fst (rt_future_cancel k e)) = re_futs e"
proof -
  let ?i = "rf_lane (re_futs e ! k)" and ?r = "rf_id (re_futs e ! k)"
  have i: "?i < length (re_lanes e)" "?r < length (rl_cells (re_lanes e ! ?i))" using assms(2) by (simp_all add: ref_ok_def)
  have c: "fst (rt_future_cancel k e) = upd_rlane ?i (cancel_fully ?r (re_lanes e ! ?i)) e"
    by (simp add: rt_future_cancel_def cancel_fully_def Let_def split: prod.split)
  have "lane_grows (re_lanes e ! ?i) (cancel_fully ?r (re_lanes e ! ?i))"
    using lane_fine_cancel [OF lane_of [OF assms(1) i(1)] i(2)] by (simp add: lane_grows_def cancel_fully_frame)
  then have "re_inv (upd_rlane ?i (cancel_fully ?r (re_lanes e ! ?i)) e)"
    by (rule re_inv_lane [OF assms(1) i(1)]) (simp_all add: cancel_fully_frame)
  then show ?thesis unfolding c by (simp add: upd_rlane_def)
qed

lemma pr_inv_cancel:
  assumes "pr_inv pr" "k < length (pr_futs pr)"
  shows "pr_inv (fst (rfut_cancel k pr))"
proof -
  let ?k = "pf_rf (pr_futs pr ! k)"
  have "re_inv (pr_native pr)" using assms(1) by (simp add: pr_inv_def)
  then have "re_inv (fst (rt_future_cancel ?k (pr_native pr)))
      \<and> re_running (fst (rt_future_cancel ?k (pr_native pr))) = re_running (pr_native pr)
      \<and> re_futs (fst (rt_future_cancel ?k (pr_native pr))) = re_futs (pr_native pr)"
    using fut_ref(2) [OF assms] by (rule cancel_native)
  then show ?thesis using pr_inv_native(2) [OF assms(1)] by (auto simp: rfut_cancel_def split: prod.split)
qed

lemma rfut_result_cases:
  assumes "rfut_result k recv t pr = (pr', r)"
  obtains "pr' = pr" "\<not> rf_valid (re_futs (pr_native pr) ! pf_rf (pr_futs pr ! k))" "r = Raises RuntimeError"
    | "pr' = pr" "rf_valid (re_futs (pr_native pr) ! pf_rf (pr_futs pr ! k))"
        "rc_proms (re_cell (pr_native pr) (pf_rf (pr_futs pr ! k))) = []" "r = Blocked"
    | row rs where "rf_valid (re_futs (pr_native pr) ! pf_rf (pr_futs pr ! k))"
        "rc_proms (re_cell (pr_native pr) (pf_rf (pr_futs pr ! k))) = row # rs"
        "pr' = pr\<lparr>pr_native := rt_set_valid (pf_rf (pr_futs pr ! k)) False (pr_native pr),
           pr_futs := (pr_futs pr)[k := (pr_futs pr ! k)\<lparr>pf_retired := True\<rparr>]\<rparr>"
        "r = (case build_result (pr_futs pr ! k) (case recv of None \<Rightarrow> t | Some n \<Rightarrow> n) row of
            Inl x \<Rightarrow> Raises x | Inr res \<Rightarrow> Returns res)"
  using assms by (auto simp: rfut_result_def rt_future_result_def split: if_splits list.splits)

lemma pr_inv_result:
  assumes inv: "pr_inv pr" and k: "k < length (pr_futs pr)"
  shows "pr_inv (fst (rfut_result k recv t pr))"
proof -
  obtain pr' r where e: "rfut_result k recv t pr = (pr', r)" by fastforce
  show ?thesis
  proof (cases rule: rfut_result_cases [OF e])
    case (3 row rs)
    let ?n = "pr_native pr" and ?k = "pf_rf (pr_futs pr ! k)"
    let ?fs = "(pr_futs pr)[k := (pr_futs pr ! k)\<lparr>pf_retired := True\<rparr>]"
    have kn: "?k < length (re_futs ?n)" using fut_ref(1) [OF inv k] .
    have "list_all (ref_ok (re_lanes ?n)) (re_futs (rt_set_valid ?k False ?n))"
    proof -
      have "ref_ok (re_lanes ?n) ((re_futs ?n ! ?k)\<lparr>rf_valid := False\<rparr>)" using fut_ref(2) [OF inv k] by (simp add: ref_ok_def)
      moreover have "\<forall>f \<in> set (re_futs ?n). ref_ok (re_lanes ?n) f"
        using inv by (simp add: pr_inv_def re_inv_def list_all_iff)
      ultimately show ?thesis using list_update_all [OF kn, of "ref_ok (re_lanes ?n)"]
        by (simp add: rt_set_valid_def list_all_iff)
    qed
    then have ri: "re_inv (rt_set_valid ?k False ?n)"
      using inv by (simp add: pr_inv_def re_inv_def rt_set_valid_def lanes_live_def actor_ok_def list_all_iff)
    have rfs: "map pf_rf ?fs = map pf_rf (pr_futs pr)"
      using k by (simp add: map_update) (metis list_update_id nth_map)
    have dis: "distinct (map pf_rf (pr_futs pr))" using inv by (simp add: pr_inv_def)
    have "pf_rf (?fs ! m) < length (re_futs ?n)
        \<and> pf_retired (?fs ! m) = (\<not> rf_valid (re_futs (rt_set_valid ?k False ?n) ! pf_rf (?fs ! m)))"
      if m: "m < length (pr_futs pr)" for m
    proof (cases "m = k")
      case True
      then show ?thesis using k kn by (simp add: rt_set_valid_def)
    next
      case False
      then have "pf_rf (pr_futs pr ! m) \<noteq> ?k"
        using dis m k by (metis distinct_conv_nth length_map nth_map)
      then show ?thesis using False fut_ref [OF inv m] by (simp add: rt_set_valid_def)
    qed
    then have "list_all (\<lambda>f. pf_rf f < length (re_futs (rt_set_valid ?k False ?n))
        \<and> pf_retired f = (\<not> rf_valid (re_futs (rt_set_valid ?k False ?n) ! pf_rf f))) ?fs"
      by (simp add: list_all_length rt_set_valid_def)
    moreover have "re_running (rt_set_valid ?k False ?n) = re_running ?n" by (simp add: rt_set_valid_def)
    moreover have "pr_closed pr = (\<not> re_running ?n)" using inv by (simp add: pr_inv_def)
    ultimately show ?thesis using ri rfs dis by (simp only: e fst_conv 3(3) pr_inv_def) simp
  qed (use e inv in simp_all)
qed

definition lane_move :: "rlane \<Rightarrow> rlane \<Rightarrow> bool" where
  "lane_move l l' \<longleftrightarrow> consumer_step l = Some l' \<or> (\<exists>n. flight_step n l = Some l')
     \<or> (\<exists>d. 0 \<le> d \<and> l' = l\<lparr>rl_now := rl_now l + d\<rparr>)"

lemma lane_move_grows:
  assumes "lane_move l l'" "lane_fine l"
  shows "lane_grows l l' \<and> rl_stop l' = rl_stop l"
  using assms(1) unfolding lane_move_def
proof (elim disjE exE)
  assume st: "consumer_step l = Some l'"
  show ?thesis using lane_fine_consumer [OF assms(2) st] step_cells [OF disjI1 [OF st]] step_jobs [OF disjI1 [OF st]]
    by (simp add: lane_grows_def)
next
  fix n assume st: "flight_step n l = Some l'"
  show ?thesis using lane_fine_flight [OF assms(2) st] step_cells [OF disjI2 [OF st]] step_jobs [OF disjI2 [OF st]]
    by (simp add: lane_grows_def)
next
  fix d assume "0 \<le> d \<and> l' = l\<lparr>rl_now := rl_now l + d\<rparr>"
  then show ?thesis using lane_fine_tick [OF assms(2), of d] by (simp add: lane_grows_def)
qed

lemma pr_inv_move:
  assumes inv: "pr_inv pr" and opn: "\<not> pr_closed pr" and i: "i < length (re_lanes (pr_native pr))"
    and mv: "lane_move (re_lanes (pr_native pr) ! i) l'"
  shows "pr_inv (pr_with (upd_rlane i l' (pr_native pr)) pr)"
proof -
  have ri: "re_inv (pr_native pr)" and run: "re_running (pr_native pr)" using inv opn by (auto simp: pr_inv_def)
  note g = lane_move_grows [OF mv lane_of [OF ri i]]
  have "re_inv (upd_rlane i l' (pr_native pr))" by (rule re_inv_lane [OF ri i]) (use g run in auto)
  then show ?thesis by (intro pr_inv_native(2) [OF inv]) (simp_all add: upd_rlane_def)
qed

text \<open>A bridge request: a future no Python object holds.\<close>

lemma pr_inv_bridge:
  assumes inv: "pr_inv pr" and opn: "\<not> pr_closed pr" and j: "job_ok (JOp op args)"
    and d: "dispatch_op_typed op args (pr_native pr) = Inr (e, k)"
  shows "pr_inv (pr_with e pr)"
proof -
  let ?n = "pr_native pr" and ?i = "re_rr_lane (pr_native pr)"
  have ri: "re_inv ?n" and run: "re_running ?n" using inv opn by (auto simp: pr_inv_def)
  note live = rr_live [OF ri run]
  let ?l = "rl_push (JOp op args) (re_lanes ?n ! ?i)"
  have e: "e = re_add_future ?i (length (rl_cells (re_lanes ?n ! ?i))) (upd_rlane ?i ?l (re_rr_advance ?n))"
    using d by (auto simp: dispatch_op_typed_def rl_submit_def split: option.splits if_splits)
  have lanes: "re_lanes (re_rr_advance ?n) = re_lanes ?n" by (simp add: re_rr_advance_def)
  have g: "lane_grows (re_lanes (re_rr_advance ?n) ! ?i) ?l"
    unfolding lanes using push_grows [OF lane_of [OF ri]] live j by blast
  have "re_inv (upd_rlane ?i ?l (re_rr_advance ?n))"
    by (rule re_inv_lane [OF _ _ g])
      (use ri live run in \<open>simp_all add: re_inv_cursor lanes\<close>, simp_all add: rl_push_def re_rr_advance_def)
  then have "re_inv e" unfolding e
    by (rule re_inv_future) (use live in \<open>simp_all add: upd_rlane_def rl_push_def lanes\<close>)
  moreover have "re_running e" "re_futs e = re_futs ?n @ [\<lparr>rf_lane = ?i, rf_id = length (rl_cells (re_lanes ?n ! ?i)), rf_valid = True\<rparr>]"
    using run by (simp_all add: e re_add_future_def upd_rlane_def re_rr_advance_def)
  ultimately show ?thesis using inv run
    by (auto simp: pr_inv_def pr_with_def list_all_iff nth_append)
qed

lemma pr_inv_shutdown:
  assumes inv: "pr_inv pr" and sh: "runtime_shutdown (pr, ws) = ((pr', ws'), Returns ())"
  shows "pr_inv pr'"
proof (cases "pr_closed pr")
  case True
  then show ?thesis using inv sh by (simp add: runtime_shutdown_def)
next
  case False
  let ?n = "pr_native pr"
  have ri: "re_inv ?n" and run: "re_running ?n" using inv False by (auto simp: pr_inv_def)
  have pr': "pr' = pr\<lparr>pr_closed := True, pr_native := ?n\<lparr>re_running := False, re_actors := [],
      re_lanes := map teardown_lane (re_lanes ?n)\<rparr>\<rparr>"
    using sh False run by (auto simp: runtime_shutdown_def runtime_engine_shutdown_def Let_def split: prod.splits if_splits)
  have td: "lane_fine (teardown_lane l) \<and> length (rl_cells (teardown_lane l)) = length (rl_cells l)
      \<and> rl_worker (teardown_lane l) = RExited" if "l \<in> set (re_lanes ?n)" for l
    using teardown_rows [of l] ri that by (simp add: re_inv_def list_all_iff)
  have "list_all (ref_ok (map teardown_lane (re_lanes ?n))) (re_futs ?n)"
    using ri td by (auto simp: re_inv_def list_all_iff ref_ok_def)
  then have "re_inv (pr_native pr')" using td by (simp add: re_inv_def pr' list_all_iff)
  then show ?thesis using inv by (simp add: pr_inv_def pr')
qed

lemma pr_inv_init:
  assumes "runtime_init ok ids t a b c d f ws = Inr (ws', pr)"
  shows "pr_inv pr"
proof -
  obtain n nb mi cap where n: "pr = \<lparr>pr_closed = False, pr_native = \<lparr>re_running = True, re_nops = nat n,
          re_lanes = map (\<lambda>i. new_rlane (ids ! i) nb mi 0 t) [0..<nat n],
          re_actors = [], re_rr = 0, re_cap = cap, re_futs = []\<rparr>, pr_futs = [], pr_handles = []\<rparr>" "1 \<le> n"
    using assms by (auto simp: runtime_init_def runtime_engine_new_def rbind_eq_Inr split: if_splits prod.splits)
  have stop: "\<not> rl_stop (new_rlane (ids ! i) nb mi 0 t)" for i by (simp add: new_rlane_def)
  show ?thesis using n(2) lane_fine_new stop
    by (simp add: n(1) pr_inv_def re_inv_def lanes_live_def list_all_iff)
qed

text \<open>
  Every state a runtime can be in, from its construction through any calls of its clients, bridge
  requests, and moves of its lanes, to its shutdown.
\<close>

inductive pr_reachable :: "pyruntime \<Rightarrow> bool" where
  Init: "runtime_init ok ids t a b c d f ws = Inr (ws', pr) \<Longrightarrow> pr_reachable pr"
| Submit: "pr_reachable pr \<Longrightarrow> pr_reachable (fst (submit_operation t op_id args pr))"
| Create: "pr_reachable pr \<Longrightarrow> pr_reachable (fst (create_actor aid t ty args pr))"
| Call: "pr_reachable pr \<Longrightarrow> pr_reachable (fst (handle_call t h mth args pr))"
| Release: "pr_reachable pr \<Longrightarrow> pr_reachable (fst (release_actor a pr))"
| Result: "pr_reachable pr \<Longrightarrow> k < length (pr_futs pr) \<Longrightarrow> pr_reachable (fst (rfut_result k recv t pr))"
| Cancel: "pr_reachable pr \<Longrightarrow> k < length (pr_futs pr) \<Longrightarrow> pr_reachable (fst (rfut_cancel k pr))"
| Bridge: "pr_reachable pr \<Longrightarrow> \<not> pr_closed pr \<Longrightarrow> job_ok (JOp op xs)
    \<Longrightarrow> dispatch_op_typed op xs (pr_native pr) = Inr (e, n) \<Longrightarrow> pr_reachable (pr_with e pr)"
| Move: "pr_reachable pr \<Longrightarrow> \<not> pr_closed pr \<Longrightarrow> i < length (re_lanes (pr_native pr))
    \<Longrightarrow> lane_move (re_lanes (pr_native pr) ! i) l' \<Longrightarrow> pr_reachable (pr_with (upd_rlane i l' (pr_native pr)) pr)"
| Shutdown: "pr_reachable pr \<Longrightarrow> runtime_shutdown (pr, ws) = ((pr', ws'), Returns ()) \<Longrightarrow> pr_reachable pr'"

lemma pr_reachable_inv: "pr_reachable pr \<Longrightarrow> pr_inv pr"
proof (induction rule: pr_reachable.induct)
  case (Init ok ids t a b c d f ws ws' pr)
  then show ?case by (rule pr_inv_init)
next
  case (Submit pr t op_id args)
  then show ?case using pr_inv_submit by blast
next
  case (Create pr aid t ty args)
  then show ?case using pr_inv_create by blast
next
  case (Call pr t h mth args)
  then show ?case using pr_inv_call by blast
next
  case (Release pr a)
  then show ?case using pr_inv_release by blast
next
  case (Result pr k recv t)
  then show ?case using pr_inv_result by blast
next
  case (Cancel pr k)
  then show ?case using pr_inv_cancel by blast
next
  case (Bridge pr op xs e n)
  then show ?case using pr_inv_bridge by blast
next
  case (Move pr i l')
  then show ?case using pr_inv_move by blast
next
  case (Shutdown pr ws pr' ws')
  then show ?case using pr_inv_shutdown by blast
qed

end
