(* ===== verification/RuntimeProps.thy ===== *)
theory RuntimeProps
  imports RuntimeFacadeInv "HOL-Library.Multiset"
begin

text \<open>
  What users of \<open>rayx.Runtime\<close> rely on, in every state a runtime can reach: results read once and
  honestly, the readiness partition of \<open>wait\<close>, bounded admission, and what releasing an actor and
  shutting down leave behind.
\<close>

subsection \<open>A runtime to try the properties on\<close>

definition demo_runtime :: pyruntime where
  "demo_runtime = \<lparr>pr_closed = False,
     pr_native = \<lparr>re_running = True, re_nops = 1, re_lanes = [new_rlane ''a'' False 1 0 0],
       re_actors = [], re_rr = 0, re_cap = 1, re_futs = []\<rparr>, pr_futs = [], pr_handles = []\<rparr>"

lemma demo_runtime_reachable: "pr_reachable demo_runtime"
proof -
  have "\<exists>ws'. runtime_init True [''a''] 0 (VInt 1) (VInt 1) (VInt 1) (VBool False) VNone (new_owner, new_slot)
      = Inr (ws', demo_runtime)"
    by (simp add: runtime_init_def validate_num_lanes_def validate_nonblocking_options_def validate_cap_def
        cross_int32_def runtime_engine_new_def new_owner_def start_hpx_locked_def demo_runtime_def)
  then show ?thesis using pr_reachable.Init by blast
qed

definition demo_runtime1 :: pyruntime where
  "demo_runtime1 = fst (submit_operation 7 (VStr ''square'') [VInt 3] demo_runtime)"

lemma square_call: "validate_call (VStr ''square'') [VInt 3] registry = Inr [VInt 3]"
    "map_of registry ''square'' = Some [''int64'']" "marshal_args [VInt 3] = Inr [OVInt 3]"
  by (simp_all add: validate_call_def registry_def validate_typed_args_def validate_one_def
      type_validator_def validate_int64_def check_domain_def domain_bad_def domain_reads_def
      marshal_args_def marshal_one_def int64_ok_def bound_defs)

lemma demo_runtime1_eq: "demo_runtime1 = \<lparr>pr_closed = False,
     pr_native = \<lparr>re_running = True, re_nops = 1,
       re_lanes = [rl_push (JOp ''square'' [OVInt 3]) (new_rlane ''a'' False 1 0 0)],
       re_actors = [], re_rr = 1, re_cap = 1, re_futs = [\<lparr>rf_lane = 0, rf_id = 0, rf_valid = True\<rparr>]\<rparr>,
     pr_futs = [\<lparr>pf_rf = 0, pf_submit_ns = 7, pf_retired = False\<rparr>], pr_handles = []\<rparr>"
  by (simp add: demo_runtime1_def submit_operation_def demo_runtime_def square_call engine_submit_operation_def
      enqueue_job_def re_rr_lane_def re_rr_advance_def rl_try_submit_def new_rlane_def wrap_future_def
      pr_with_def re_add_future_def upd_rlane_def)

definition demo_runtime2 :: pyruntime where
  "demo_runtime2 = fst (rfut_cancel 0 demo_runtime1)"

lemma demo_runtime2_eq: "demo_runtime2 = \<lparr>pr_closed = False,
     pr_native = \<lparr>re_running = True, re_nops = 1,
       re_lanes = [cancel_fully 0 (rl_push (JOp ''square'' [OVInt 3]) (new_rlane ''a'' False 1 0 0))],
       re_actors = [], re_rr = 1, re_cap = 1, re_futs = [\<lparr>rf_lane = 0, rf_id = 0, rf_valid = True\<rparr>]\<rparr>,
     pr_futs = [\<lparr>pf_rf = 0, pf_submit_ns = 7, pf_retired = False\<rparr>], pr_handles = []\<rparr>"
  by (simp add: demo_runtime2_def demo_runtime1_eq rfut_cancel_def rt_future_cancel_def Let_def pr_with_def
      upd_rlane_def cancel_fully_def split: prod.split)

lemma demo_runtime1_reachable: "pr_reachable demo_runtime1" "pr_reachable demo_runtime2"
    "length (pr_futs demo_runtime1) = 1" "length (pr_futs demo_runtime2) = 1"
proof -
  show one: "pr_reachable demo_runtime1"
    unfolding demo_runtime1_def by (rule pr_reachable.Submit [OF demo_runtime_reachable])
  show "pr_reachable demo_runtime2"
    unfolding demo_runtime2_def by (rule pr_reachable.Cancel [OF one]) (simp add: demo_runtime1_eq)
qed (simp_all add: demo_runtime1_eq demo_runtime2_eq)

subsection \<open>Results\<close>

lemma rfut_cell:
  assumes "pr_reachable pr" and "k < length (pr_futs pr)"
  shows "length (rc_proms (re_cell (pr_native pr) (pf_rf (pr_futs pr ! k)))) \<le> 1"
    and "r \<in> set (rc_proms (re_cell (pr_native pr) (pf_rf (pr_futs pr ! k))))
      \<Longrightarrow> (\<exists>a. row_form a r) \<and> (rr_status r = ''cancelled'') = rfut_cancelled k pr"
    and "\<not> rc_pend (re_cell (pr_native pr) (pf_rf (pr_futs pr ! k)))"
proof -
  note inv = pr_reachable_inv [OF assms(1)]
  let ?f = "re_futs (pr_native pr) ! pf_rf (pr_futs pr ! k)"
  have ref: "rf_lane ?f < length (re_lanes (pr_native pr))"
      "rf_id ?f < length (rl_cells (re_lanes (pr_native pr) ! rf_lane ?f))"
    using fut_ref(2) [OF inv assms(2)] by (simp_all add: ref_ok_def)
  have fine: "lane_fine (re_lanes (pr_native pr) ! rf_lane ?f)"
    using inv ref(1) by (simp add: pr_inv_def lane_of)
  have li: "rl_inv (re_lanes (pr_native pr) ! rf_lane ?f)"
    using fine by (simp add: lane_fine_def some_reachable_inv)
  show "length (rc_proms (re_cell (pr_native pr) (pf_rf (pr_futs pr ! k)))) \<le> 1"
    using cell_row(1) [OF li ref(2)] by (simp add: re_cell_def)
  show "\<not> rc_pend (re_cell (pr_native pr) (pf_rf (pr_futs pr ! k)))"
    using fine ref(2) by (simp add: lane_fine_def unpended_def re_cell_def)
  assume "r \<in> set (rc_proms (re_cell (pr_native pr) (pf_rf (pr_futs pr ! k))))"
  then show "(\<exists>a. row_form a r) \<and> (rr_status r = ''cancelled'') = rfut_cancelled k pr"
    using cell_row(2) [OF li ref(2)] by (auto simp: re_cell_def rfut_cancelled_def rt_future_cancelled_def)
qed

text \<open>
  A runtime future is retired once, and its result is honest: a value can be read exactly when the
  operation completed; \<open>value\<close> raises \<open>OperationCancelledError\<close> exactly when \<open>cancelled()\<close> is true and
  \<open>OperationFailedError\<close> exactly for a failure, which has an error text. The queue wait is not
  negative. Afterwards \<open>result()\<close> and \<open>ready()\<close> raise, and no other future has changed.
\<close>

theorem runtime_result_once:
  assumes "pr_reachable pr" and "k < length (pr_futs pr)"
    and "rfut_result k recv t pr = (pr', Returns res)"
  shows "(case result_value res of Inr v \<Rightarrow> or_status res = ''completed'' \<and> v = or_value res
          | Inl x \<Rightarrow> or_status res = ''cancelled'' \<and> x = OperationCancelledError \<and> rfut_cancelled k pr
              \<or> or_status res = ''failed'' \<and> x = OperationFailedError)
    \<and> (or_status res = ''cancelled'') = rfut_cancelled k pr
    \<and> (or_error res = VNone) = (or_status res \<noteq> ''failed'')
    \<and> row_status (result_row res) = result_status res \<and> row_start_ns (or_row res) \<le> row_end_ns (or_row res)
    \<and> \<not> flt (row_queue_wait_ms (or_row res)) (Fin 0)
    \<and> rfut_result k recv' t' pr' = (pr', Raises RuntimeError) \<and> rfut_ready k pr' = Inl RuntimeError
    \<and> rfut_repr_retired k pr'
    \<and> (\<forall>m. m < length (pr_futs pr) \<longrightarrow> m \<noteq> k \<longrightarrow> rfut_ready m pr' = rfut_ready m pr)"
proof -
  let ?k = "pf_rf (pr_futs pr ! k)" and ?n = "pr_native pr"
  note inv = pr_reachable_inv [OF assms(1)]
  obtain r rs where r: "rc_proms (re_cell ?n ?k) = r # rs"
    and pr': "pr' = pr\<lparr>pr_native := rt_set_valid ?k False ?n, pr_futs := (pr_futs pr)[k := (pr_futs pr ! k)\<lparr>pf_retired := True\<rparr>]\<rparr>"
    and res: "build_result (pr_futs pr ! k) (case recv of None \<Rightarrow> t | Some n \<Rightarrow> n) r = Inr res"
    by (rule rfut_result_cases [OF assms(3)]) (auto split: sum.splits)
  obtain a where row: "row_form a r" "(rr_status r = ''cancelled'') = rfut_cancelled k pr"
    using rfut_cell(2) [OF assms(1,2), of r] r by auto
  have kn: "?k < length (re_futs ?n)" using fut_ref(1) [OF inv assms(2)] .
  have fields: "or_status res = rr_status r" "or_has_value res = rr_has_value r"
      "or_error res = (if rr_error r = '''' then VNone else VStr (rr_error r))"
      "row_status (or_row res) = rr_status r" "row_start_ns (or_row res) = rr_start_ns r"
      "row_end_ns (or_row res) = rr_end_ns r" "\<not> flt (row_queue_wait_ms (or_row res)) (Fin 0)"
    using res by (auto simp: build_result_def rbind_eq_Inr Let_def split: if_splits)
  have "case result_value res of Inr v \<Rightarrow> or_status res = ''completed'' \<and> v = or_value res
          | Inl x \<Rightarrow> or_status res = ''cancelled'' \<and> x = OperationCancelledError \<and> rfut_cancelled k pr
              \<or> or_status res = ''failed'' \<and> x = OperationFailedError"
    using row fields by (auto simp: result_value_def row_form_def)
  moreover have "(or_error res = VNone) = (or_status res \<noteq> ''failed'')"
    using row(1) fields by (auto simp: row_form_def)
  moreover have "rfut_ready m pr' = rfut_ready m pr" if "m < length (pr_futs pr)" "m \<noteq> k" for m
  proof -
    have "pf_rf (pr_futs pr ! m) \<noteq> ?k"
      using inv that assms(2) nth_eq_iff_index_eq [of "map pf_rf (pr_futs pr)" m k] by (simp add: pr_inv_def)
    then have "re_futs (rt_set_valid ?k False ?n) ! pf_rf (pr_futs pr ! m) = re_futs ?n ! pf_rf (pr_futs pr ! m)"
        "re_lanes (rt_set_valid ?k False ?n) = re_lanes ?n" by (simp_all add: rt_set_valid_def)
    moreover have "pr_futs pr' ! m = pr_futs pr ! m" "pr_native pr' = rt_set_valid ?k False ?n"
      using that(2) by (simp_all add: pr')
    ultimately show ?thesis
      by (simp add: rfut_ready_def rt_future_ready_def re_ready_now_def re_cell_def)
  qed
  moreover have nv: "\<not> rf_valid (re_futs (pr_native pr') ! pf_rf (pr_futs pr' ! k))"
    using assms(2) kn by (simp add: pr' rt_set_valid_def)
  moreover have "rfut_result k recv' t' pr' = (pr', Raises RuntimeError)" "rfut_ready k pr' = Inl RuntimeError"
    using nv by (simp_all add: rfut_result_def rt_future_result_def rfut_ready_def rt_future_ready_def)
  moreover have "rfut_repr_retired k pr'" using assms(2) by (simp add: rfut_repr_retired_def pr')
  moreover have "row_status (result_row res) = result_status res" "row_start_ns (or_row res) \<le> row_end_ns (or_row res)"
    using row(1) fields by (simp_all add: result_row_def result_status_def row_form_def)
  moreover have "(or_status res = ''cancelled'') = rfut_cancelled k pr" using row(2) fields(1) by simp
  ultimately show ?thesis using fields(7) by (intro conjI) blast+
qed

lemma runtime_result_once_witness:
  "\<exists>res. snd (rfut_result 0 (Some 7) 0 demo_runtime2) = Returns res \<and> result_value res = Inl OperationCancelledError
     \<and> rfut_repr_retired 0 (fst (rfut_result 0 (Some 7) 0 demo_runtime2))"
proof -
  let ?r = "rfut_result 0 (Some 7) 0 demo_runtime2"
  obtain pr' res where res: "?r = (pr', Returns res)" "or_status res = ''cancelled''"
    by (simp add: demo_runtime2_eq rfut_result_def rt_future_result_def re_cell_def cancel_fully_def rl_cancel_def
        rcancel_cell_def rcancel_def rl_settle_def upd_cell_def rsettle_cell_def rl_push_def new_rlane_def
        new_rtoken_def build_result_def rt_ns_to_ms_def task_row_def Let_def)
  note c = runtime_result_once [OF demo_runtime1_reachable(2) _ res(1), simplified demo_runtime1_reachable(4)]
  have "result_value res = Inl OperationCancelledError" using c res(2) by (cases "result_value res") auto
  then show ?thesis using res(1) c by simp
qed

subsection \<open>Bounded admission\<close>

text \<open>
  Admission: a valid call on an open runtime is refused with \<open>QueueFullError\<close> exactly when a cap is
  set and the queue of the lane whose turn it is has reached it; then no future and no request exist.
  Otherwise one request joins the end of that lane's queue and no other lane's, and its future is new
  and not ready. Either way the round-robin cursor moves on by one.
\<close>

theorem runtime_admission:
  assumes "pr_reachable pr" and "\<not> pr_closed pr" and "validate_call (VStr op) args registry = Inr out"
    and "submit_operation t (VStr op) args pr = (pr', r)"
  shows "let e = pr_native pr; i = re_rr_lane e; q = rl_queue (re_lanes e ! i) in
    re_rr (pr_native pr') = (re_rr e + 1) mod 2 ^ 64 \<and>
    (if 0 \<le> re_cap e \<and> re_cap e \<le> int (length q)
     then r = Inl RuntimeQueueFullError \<and> pr_futs pr' = pr_futs pr \<and> re_lanes (pr_native pr') = re_lanes e
     else r = Inr (length (pr_futs pr)) \<and> length (pr_futs pr') = length (pr_futs pr) + 1
       \<and> rfut_ready (length (pr_futs pr)) pr' = Inr False
       \<and> (\<exists>k. rl_queue (re_lanes (pr_native pr') ! i) = q @ [k])
       \<and> (\<forall>j. j \<noteq> i \<longrightarrow> re_lanes (pr_native pr') ! j = re_lanes e ! j))"
proof -
  let ?e = "pr_native pr" and ?i = "re_rr_lane (pr_native pr)"
  have inv: "pr_inv pr" by (rule pr_reachable_inv [OF assms(1)])
  then have run: "re_running ?e" using assms(2) by (simp add: pr_inv_def)
  have i: "?i < length (re_lanes ?e)" using rr_live [OF _ run] inv by (simp add: pr_inv_def)
  obtain e f where n: "engine_submit_operation op out ?e = Inr (e, f)"
    and enq: "enqueue_job ?i (JOp op (map marshal args)) (re_rr_advance ?e) = (e, f)"
    using submit_native [OF inv assms(3,2)] by blast
  have w: "(pr', r) = wrap_future t (Inr (e, f)) pr"
    using assms(2-4) n by (simp add: submit_operation_def)
  have adv: "re_lanes (re_rr_advance ?e) = re_lanes ?e" "re_cap (re_rr_advance ?e) = re_cap ?e"
      "re_futs (re_rr_advance ?e) = re_futs ?e" "re_rr (re_rr_advance ?e) = (re_rr ?e + 1) mod 2 ^ 64"
    by (simp_all add: re_rr_advance_def)
  show ?thesis
  proof (cases rule: enqueue_cases [OF enq])
    case 1
    then show ?thesis using w by (simp add: Let_def wrap_future_def pr_with_def upd_rlane_def adv)
  next
    case 2
    let ?p = "rl_push (JOp op (map marshal args)) (re_lanes ?e ! ?i)"
    have lanes: "re_lanes e = (re_lanes ?e)[?i := ?p]" and rr: "re_rr e = (re_rr ?e + 1) mod 2 ^ 64"
      and futs: "re_futs e = re_futs ?e @ [\<lparr>rf_lane = ?i, rf_id = length (rl_cells (re_lanes ?e ! ?i)), rf_valid = True\<rparr>]"
      using 2(2) by (simp_all add: re_add_future_def upd_rlane_def adv)
    have pr': "pr' = (pr_with e pr)\<lparr>pr_futs := pr_futs pr @ [\<lparr>pf_rf = length (re_futs ?e), pf_submit_ns = t, pf_retired = False\<rparr>]\<rparr>"
        "r = Inr (length (pr_futs pr))" using w 2(1) by (simp_all add: wrap_future_def adv)
    have "rfut_ready (length (pr_futs pr)) pr' = Inr False"
      using i by (simp add: pr'(1) pr_with_def rfut_ready_def rt_future_ready_def re_ready_now_def re_cell_def futs lanes)
        (simp add: rl_push_def)
    moreover have "rl_queue (re_lanes (pr_native pr') ! ?i) = rl_queue (re_lanes ?e ! ?i) @ [length (rl_cells (re_lanes ?e ! ?i))]"
      using i by (simp add: pr'(1) pr_with_def lanes) (simp add: rl_push_def)
    moreover have "\<not> (0 \<le> re_cap ?e \<and> re_cap ?e \<le> int (length (rl_queue (re_lanes ?e ! ?i))))" using 2(3) by (auto simp: adv)
    ultimately show ?thesis using pr' rr lanes by (simp add: Let_def pr_with_def)
  qed
qed

lemma runtime_admission_witness:
  "snd (submit_operation 8 (VStr ''square'') [VInt 3] demo_runtime1) = Inl RuntimeQueueFullError"
proof -
  obtain pr' r where s: "submit_operation 8 (VStr ''square'') [VInt 3] demo_runtime1 = (pr', r)" by fastforce
  have "length (rl_queue (re_lanes (pr_native demo_runtime1) ! re_rr_lane (pr_native demo_runtime1))) = 1"
    by (simp add: demo_runtime1_eq re_rr_lane_def rl_push_def new_rlane_def)
  then show ?thesis
    using runtime_admission [OF demo_runtime1_reachable(1) _ square_call(1) s] s by (simp add: demo_runtime1_eq Let_def)
qed

subsection \<open>Waiting\<close>

definition rown :: "pyruntime \<Rightarrow> nat list \<Rightarrow> bool" where
  "rown pr ks \<longleftrightarrow> (\<forall>k \<in> set ks. k < length (pr_futs pr))"

definition rf_ix :: "pyruntime \<Rightarrow> nat \<Rightarrow> nat" where
  "rf_ix pr k = pf_rf (pr_futs pr ! k)"

lemma rfs_of_map: "rfs_of (map RFut ks) pr = map (rf_ix pr) ks"
  by (induction ks) (simp_all add: rf_ix_def)

lemma rf_ix_inj:
  assumes "pr_inv pr" "k < length (pr_futs pr)" "m < length (pr_futs pr)"
  shows "(rf_ix pr k = rf_ix pr m) = (k = m)"
  using assms nth_eq_iff_index_eq [of "map pf_rf (pr_futs pr)" k m] by (simp add: pr_inv_def rf_ix_def)

lemma rown_distinct: "pr_inv pr \<Longrightarrow> rown pr ks \<Longrightarrow> distinct (map (rf_ix pr) ks) = distinct ks"
  using rf_ix_inj by (auto simp: distinct_map inj_on_def rown_def)

lemma rt_borrow_Inr: "(rt_borrow seen ks e = Inr ()) = ((\<forall>k \<in> set ks. rf_valid (re_futs e ! k)) \<and> distinct ks \<and> set ks \<inter> set seen = {})"
  by (induction ks arbitrary: seen) auto

lemma rcheck_distinct_Inr: "(rcheck_distinct seen ks = Inr ()) = (distinct ks \<and> set ks \<inter> set seen = {})"
  by (induction ks arbitrary: seen) auto

lemma rprobe_Inr: "rprobe ks e = Inr bs \<Longrightarrow> (\<forall>k \<in> set ks. rf_valid (re_futs e ! k)) \<and> bs = map (re_ready_now e) ks"
  by (induction ks arbitrary: bs) (auto simp: rbind_eq_Inr rt_future_ready_def split: if_splits)

lemma rsplit_parts:
  "mset (fst (rsplit p xs)) + mset (snd (rsplit p xs)) = mset xs"
  "x \<in> set (fst (rsplit p xs)) \<Longrightarrow> \<exists>i < length xs. x = xs ! i \<and> p i"
  "x \<in> set (snd (rsplit p xs)) \<Longrightarrow> \<exists>i < length xs. x = xs ! i \<and> \<not> p i"
proof -
  have "mset (fst (rsplit p xs)) + mset (snd (rsplit p xs))
      = image_mset ((!) xs) (filter_mset p (mset [0..<length xs]) + filter_mset (\<lambda>i. \<not> p i) (mset [0..<length xs]))"
    by (simp add: rsplit_def)
  also have "\<dots> = mset (map ((!) xs) [0..<length xs])" by (metis mset_map multiset_partition)
  finally show "mset (fst (rsplit p xs)) + mset (snd (rsplit p xs)) = mset xs" by (simp only: map_nth)
qed (auto simp: rsplit_def)

text \<open>A \<open>wait\<close> that returned split the futures by readiness, found them valid and distinct.\<close>

lemma rwait_returns:
  assumes inv: "pr_inv pr" and own: "rown pr ks"
    and w: "runtime_wait (map RFut ks) num_returns timeout pr = Returns (r, p)"
  shows "(\<exists>q. (\<forall>i < length ks. q i = re_ready_now (pr_native pr) (rf_ix pr (ks ! i))) \<and> (r, p) = rsplit q (map RFut ks))
    \<and> distinct ks \<and> (\<forall>k \<in> set ks. rf_valid (re_futs (pr_native pr) ! rf_ix pr k))
    \<and> (timeout = VNone \<longrightarrow> the_int num_returns \<le> int (length r))"
proof (cases "timeout = VNone")
  case True
  let ?e = "pr_native pr" and ?xs = "map (rf_ix pr) ks"
  let ?ix = "rt_ready_indices ?xs ?e"
  obtain n where n: "n = the_int num_returns" "rt_borrow [] ?xs ?e = Inr ()" "\<not> int (length ?ix) < n"
      "(r, p) = rsplit (\<lambda>i. i \<in> set ?ix) (map RFut ks)"
    using w True by (auto simp: runtime_wait_def wait_checks_def rwait_blocking_def runtime_engine_wait_def
        cross_int32_Inr rfs_of_map split: if_splits sum.splits outcome.splits)
  have ix: "(i \<in> set ?ix) = re_ready_now ?e (rf_ix pr (ks ! i))" if "i < length ks" for i
    using that by (simp add: rt_ready_indices_def)
  have "filter (\<lambda>i. i \<in> set ?ix) [0..<length ks] = ?ix"
    unfolding rt_ready_indices_def by (rule filter_cong) auto
  then have "length r = length ?ix" using n(4) by (simp add: rsplit_def)
  moreover have "distinct ks" "\<forall>k \<in> set ks. rf_valid (re_futs ?e ! rf_ix pr k)"
    using n(2) rown_distinct [OF inv own] by (auto simp: rt_borrow_Inr)
  ultimately show ?thesis using n ix by (intro conjI exI [of _ "\<lambda>i. i \<in> set ?ix"]) auto
next
  case False
  then have wp: "rwait_poll (map RFut ks) pr = Inr (r, p)"
    using w by (auto simp: runtime_wait_def split: if_splits sum.splits)
  then obtain bs where b: "rcheck_distinct [] (map (rf_ix pr) ks) = Inr ()"
      "rprobe (map (rf_ix pr) ks) (pr_native pr) = Inr bs" "(r, p) = rsplit (\<lambda>i. bs ! i) (map RFut ks)"
    by (auto simp: rwait_poll_def rbind_eq_Inr rfs_of_map split: if_splits)
  then show ?thesis using False rprobe_Inr [OF b(2)] rown_distinct [OF inv own] b(1)
    by (intro conjI exI [of _ "\<lambda>i. bs ! i"]) (auto simp: rcheck_distinct_Inr)
qed

text \<open>
  A runtime \<open>wait\<close> that returns, blocking or polling, partitions the very futures it was given, each
  once: those that are ready and those that are not. None of them is consumed, and the blocking form
  has at least \<open>num_returns\<close> ready ones.
\<close>

theorem runtime_wait_partitions:
  assumes "pr_reachable pr" and "rown pr ks"
    and "runtime_wait (map RFut ks) num_returns timeout pr = Returns (r, p)"
  shows "mset r + mset p = mset (map RFut ks) \<and> distinct ks
    \<and> (\<forall>k. RFut k \<in> set r \<longrightarrow> rfut_ready k pr = Inr True)
    \<and> (\<forall>k. RFut k \<in> set p \<longrightarrow> rfut_ready k pr = Inr False)
    \<and> (timeout = VNone \<longrightarrow> the_int num_returns \<le> int (length r))"
proof -
  note w = rwait_returns [OF pr_reachable_inv [OF assms(1)] assms(2,3)]
  obtain q where q: "\<forall>i < length ks. q i = re_ready_now (pr_native pr) (rf_ix pr (ks ! i))"
      "(r, p) = rsplit q (map RFut ks)" using w by blast
  have parts: "r = fst (rsplit q (map RFut ks))" "p = snd (rsplit q (map RFut ks))" using q(2) by (metis fst_conv snd_conv)+
  have rdy: "rfut_ready k pr = Inr (re_ready_now (pr_native pr) (rf_ix pr k))" if "k \<in> set ks" for k
    using w that by (simp add: rfut_ready_def rt_future_ready_def rf_ix_def)
  have "rfut_ready k pr = Inr True" if "RFut k \<in> set r" for k
    using rsplit_parts(2) [of "RFut k" q "map RFut ks"] that parts(1) q(1) rdy by force
  moreover have "rfut_ready k pr = Inr False" if "RFut k \<in> set p" for k
    using rsplit_parts(3) [of "RFut k" q "map RFut ks"] that parts(2) q(1) rdy by force
  moreover have "mset r + mset p = mset (map RFut ks)" unfolding parts by (rule rsplit_parts(1))
  ultimately show ?thesis using w by blast
qed

lemma runtime_wait_partitions_witness:
  "\<exists>r p. runtime_wait (map RFut [0]) (VInt 1) VNone demo_runtime2 = Returns (r, p) \<and> mset r + mset p = {#RFut 0#}
     \<and> 1 \<le> length r"
proof -
  have own: "rown demo_runtime2 [0]" by (simp add: rown_def demo_runtime1_reachable(4))
  have "\<exists>rp. runtime_wait (map RFut [0]) (VInt 1) VNone demo_runtime2 = Returns rp"
    by (simp add: demo_runtime2_eq runtime_wait_def wait_checks_def rwait_blocking_def cross_int32_def
        runtime_engine_wait_def rt_ready_indices_def re_ready_now_def re_cell_def cancel_fully_def rl_cancel_def
        rcancel_cell_def rcancel_def rl_settle_def upd_cell_def rsettle_cell_def rl_push_def new_rlane_def
        new_rtoken_def)
  then obtain r p where "runtime_wait (map RFut [0]) (VInt 1) VNone demo_runtime2 = Returns (r, p)" by auto
  with runtime_wait_partitions [OF demo_runtime1_reachable(2) own this] show ?thesis by auto
qed

subsection \<open>Releasing an actor\<close>

text \<open>The request behind a future is still in the queue of its lane.\<close>

definition rfut_queued :: "nat \<Rightarrow> pyruntime \<Rightarrow> bool" where
  "rfut_queued k pr = (let f = re_futs (pr_native pr) ! rf_ix pr k in
     rf_id f \<in> set (rl_queue (re_lanes (pr_native pr) ! rf_lane f)))"

definition rfut_lane :: "nat \<Rightarrow> pyruntime \<Rightarrow> nat" where
  "rfut_lane k pr = rf_lane (re_futs (pr_native pr) ! rf_ix pr k)"

lemma rfut_torn_down:
  assumes inv: "pr_inv pr" and k: "k < length (pr_futs pr)"
    and futs: "pr_futs pr' ! k = pr_futs pr ! k" "re_futs (pr_native pr') = re_futs (pr_native pr)"
    and lane: "re_lanes (pr_native pr') ! rfut_lane k pr = teardown_lane (re_lanes (pr_native pr) ! rfut_lane k pr)"
  shows "(\<not> pf_retired (pr_futs pr ! k) \<longrightarrow> rfut_ready k pr' = Inr True) \<and> (rfut_queued k pr \<longrightarrow> rfut_cancelled k pr')"
proof -
  let ?f = "re_futs (pr_native pr) ! pf_rf (pr_futs pr ! k)"
  let ?l = "re_lanes (pr_native pr) ! rf_lane ?f"
  have ref: "rf_lane ?f < length (re_lanes (pr_native pr))" "rf_id ?f < length (rl_cells ?l)"
    using fut_ref(2) [OF inv k] by (simp_all add: ref_ok_def)
  have fine: "lane_fine ?l" using inv ref(1) by (simp add: pr_inv_def lane_of)
  note td = teardown_rows [OF fine]
  have cell: "re_cell (pr_native pr') (pf_rf (pr_futs pr ! k)) = rl_cells (teardown_lane ?l) ! rf_id ?f"
    using lane by (simp add: re_cell_def futs rfut_lane_def rf_ix_def)
  have "rc_proms (re_cell (pr_native pr') (pf_rf (pr_futs pr ! k))) \<noteq> []" using td ref(2) cell by force
  moreover have "rfut_cancelled k pr'" if q: "rfut_queued k pr"
  proof -
    obtain r where r: "rc_proms (rl_cells (teardown_lane ?l) ! rf_id ?f) = [r]" "rr_status r = ''cancelled''"
      using td q by (auto simp: rfut_queued_def Let_def rf_ix_def)
    moreover have "rl_inv (teardown_lane ?l)" "rf_id ?f < length (rl_cells (teardown_lane ?l))"
      using td some_reachable_inv ref(2) by (auto simp: lane_fine_def)
    ultimately show ?thesis using cell_row(2) [of "teardown_lane ?l" "rf_id ?f" r] cell
      by (simp add: rfut_cancelled_def rt_future_cancelled_def futs(1))
  qed
  ultimately show ?thesis using fut_ref(3) [OF inv k]
    by (simp add: rfut_ready_def rt_future_ready_def futs re_ready_now_def)
qed

text \<open>
  Releasing an actor kills its handle and settles its calls, and nothing else: the handle's
  \<open>stats\<close>, calls and a second release raise \<open>RuntimeError\<close>; every future of the actor that was not
  retired is ready, and the calls that were still queued are cancelled; futures and lanes of others
  are as they were.
\<close>

theorem release_settles_actor:
  assumes "pr_reachable pr" and "h < length (pr_handles pr)"
    and "release_actor (AHandle h) pr = (pr', Inr ())"
  shows "handle_stats h pr' = Inl RuntimeError \<and> handle_call t h mth args pr' = (pr', Inl RuntimeError)
    \<and> release_actor (AHandle h) pr' = (pr', Inl RuntimeError)
    \<and> (\<exists>i. (\<exists>ty. map_of (re_actors (pr_native pr)) (hd_actor_id (pr_handles pr ! h)) = Some (i, ty))
       \<and> (\<forall>j. j \<noteq> i \<longrightarrow> re_lanes (pr_native pr') ! j = re_lanes (pr_native pr) ! j)
       \<and> (\<forall>k < length (pr_futs pr). rfut_lane k pr \<noteq> i \<longrightarrow> rfut_ready k pr' = rfut_ready k pr)
       \<and> (\<forall>k < length (pr_futs pr). rfut_lane k pr = i \<longrightarrow>
             (\<not> pf_retired (pr_futs pr ! k) \<longrightarrow> rfut_ready k pr' = Inr True)
             \<and> (rfut_queued k pr \<longrightarrow> rfut_cancelled k pr')))"
proof -
  note inv = pr_reachable_inv [OF assms(1)]
  let ?n = "pr_native pr" and ?aid = "hd_actor_id (pr_handles pr ! h)"
  obtain e where rel: "engine_release_actor ?aid ?n = Inr e" and opn: "\<not> pr_closed pr"
    and pr': "pr' = (pr_with e pr)\<lparr>pr_handles := (pr_handles pr)[h := (pr_handles pr ! h)\<lparr>hd_released := True\<rparr>]\<rparr>"
    using assms(3) by (auto simp: release_actor_def split: if_splits sum.splits)
  obtain i ty where i: "map_of (re_actors ?n) ?aid = Some (i, ty)" "i < length (re_lanes ?n)"
    and e: "e = (upd_rlane i (teardown_lane (re_lanes ?n ! i)) ?n)\<lparr>re_actors := filter (\<lambda>a. fst a \<noteq> ?aid) (re_actors ?n)\<rparr>"
    using release_native [OF _ rel] inv unfolding pr_inv_def by blast
  have dead: "hd_released (pr_handles pr' ! h)" "\<not> pr_closed pr'" using assms(2) opn by (simp_all add: pr' pr_with_def)
  have nat: "pr_futs pr' = pr_futs pr" "re_futs (pr_native pr') = re_futs ?n"
      "re_lanes (pr_native pr') = (re_lanes ?n)[i := teardown_lane (re_lanes ?n ! i)]"
    by (simp_all add: pr' pr_with_def e upd_rlane_def)
  have other: "rfut_ready k pr' = rfut_ready k pr" if "rfut_lane k pr \<noteq> i" for k
    using that by (simp add: rfut_ready_def rt_future_ready_def re_ready_now_def re_cell_def nat rfut_lane_def rf_ix_def)
  have own: "(\<not> pf_retired (pr_futs pr ! k) \<longrightarrow> rfut_ready k pr' = Inr True) \<and> (rfut_queued k pr \<longrightarrow> rfut_cancelled k pr')"
    if "k < length (pr_futs pr)" "rfut_lane k pr = i" for k
    by (rule rfut_torn_down [OF inv that(1)]) (simp_all add: nat that(2) i(2))
  have "handle_stats h pr' = Inl RuntimeError" "handle_call t h mth args pr' = (pr', Inl RuntimeError)"
      "release_actor (AHandle h) pr' = (pr', Inl RuntimeError)"
    using dead by (simp_all add: handle_stats_def handle_call_def release_actor_def Let_def)
  then show ?thesis using i(1) nat(3) other own by (intro conjI exI [of _ i]) auto
qed

definition demo_runtime3 :: pyruntime where
  "demo_runtime3 = fst (create_actor ''b'' 0 (VStr ''counter'') [VInt 5] demo_runtime)"

lemma demo_runtime3_eq: "demo_runtime3 = \<lparr>pr_closed = False,
     pr_native = \<lparr>re_running = True, re_nops = 1, re_lanes = [new_rlane ''a'' False 1 0 0, new_rlane ''b'' False 1 5 0],
       re_actors = [(''b'', 1, ''counter'')], re_rr = 0, re_cap = 1, re_futs = []\<rparr>, pr_futs = [],
     pr_handles = [\<lparr>hd_actor_id = ''b'', hd_actor_type = ''counter'', hd_released = False\<rparr>]\<rparr>"
  by (simp add: demo_runtime3_def demo_runtime_def create_actor_def validate_actor_create_def actor_registry_def
      validate_typed_args_def validate_one_def type_validator_def validate_int64_def engine_create_actor_def
      marshal_args_def marshal_one_def int64_ok_def bound_defs counter_factory_def as_int64_def pr_with_def)

lemma release_settles_actor_witness:
  "handle_stats 0 (fst (release_actor (AHandle 0) demo_runtime3)) = Inl RuntimeError
     \<and> snd (release_actor (AHandle 0) demo_runtime3) = Inr ()"
proof -
  have reach: "pr_reachable demo_runtime3"
    unfolding demo_runtime3_def by (rule pr_reachable.Create [OF demo_runtime_reachable])
  have "snd (release_actor (AHandle 0) demo_runtime3) = Inr ()"
    by (simp add: demo_runtime3_eq release_actor_def engine_release_actor_def)
  then obtain pr' where r: "release_actor (AHandle 0) demo_runtime3 = (pr', Inr ())"
    by (cases "release_actor (AHandle 0) demo_runtime3") simp
  show ?thesis using release_settles_actor [OF reach _ r] r by (simp add: demo_runtime3_eq)
qed

subsection \<open>Shutdown\<close>

text \<open>
  The process owner while a runtime is open: it was attached by the runtime's construction, and since
  then endpoints and refused engines came and went. Only the runtime's own shutdown detaches it.
\<close>

inductive runtime_attached :: "owner \<Rightarrow> bool" where
  Opened: "owner_reachable w \<Longrightarrow> attach ok ARuntime n w = Inr w' \<Longrightarrow> runtime_attached w'"
| Other: "runtime_attached w \<Longrightarrow> attach ok k n w = Inr w' \<Longrightarrow> runtime_attached w'"
| Gone: "runtime_attached w \<Longrightarrow> k \<noteq> ARuntime \<Longrightarrow> runtime_attached (detach k w)"

lemma runtime_init_attached:
  assumes "owner_reachable w" and "runtime_init ok ids t a b c d f (w, s) = Inr ((w', s'), pr)"
  shows "runtime_attached w'"
proof -
  have "\<exists>n. attach ok ARuntime n w = Inr w'"
    using assms(2) by (auto simp: runtime_init_def runtime_engine_new_def rbind_eq_Inr simp del: attach.simps split: if_splits prod.splits)
  then show ?thesis using runtime_attached.Opened [OF assms(1)] by blast
qed

lemma attached_owner: "runtime_attached w \<Longrightarrow> owner_inv w \<and> ow_runtime w"
proof (induction rule: runtime_attached.induct)
  case (Opened w ok n w')
  then show ?case
    using attach_inv [OF owner_reachable_inv] by (fastforce simp: rbind_eq_Inr split: if_splits)
next
  case (Other w ok k n w')
  have "owner_inv w'" using Other attach_inv by blast
  moreover have "ow_runtime w'"
    using Other by (cases k) (auto simp: rbind_eq_Inr start_hpx_locked_def split: if_splits)
  ultimately show ?case ..
next
  case (Gone w k)
  have "owner_inv (detach k w)" using Gone detach_inv by blast
  moreover have "ow_runtime (detach k w)" using Gone by (cases k) (auto simp: stop_hpx_locked_def Let_def)
  ultimately show ?case ..
qed

lemma attached_detach:
  assumes "runtime_attached w"
  shows "\<not> ow_runtime (detach ARuntime w) \<and> \<not> ow_started (detach ARuntime w)
    \<and> ow_refcount (detach ARuntime w) = 0 \<and> ow_endpoints (detach ARuntime w) = ow_endpoints w"
  using attached_owner [OF assms] by (auto simp: owner_defs)

lemma closed_runtime_wait:
  assumes "pr_closed pr" and "\<not> re_running (pr_native pr)"
  shows "\<exists>x. runtime_wait fs n tm pr = Raises x"
    and "wait_checks fs n = Inr m \<Longrightarrow> m < 2 ^ 31 \<Longrightarrow> runtime_wait fs n VNone pr = Raises RuntimeError"
    and "wait_checks fs n = Inr m \<Longrightarrow> rt_validate_timeout tm = Inr q \<Longrightarrow> \<not> flt (Fin 0) q
      \<Longrightarrow> runtime_wait fs n tm pr = Raises RuntimeError"
proof -
  have b: "\<exists>x. rwait_blocking fs m pr = Raises x" for m
    using assms(2) by (auto simp: rwait_blocking_def runtime_engine_wait_def split: sum.splits)
  show "\<exists>x. runtime_wait fs n tm pr = Raises x"
    using b assms(1) by (auto simp: runtime_wait_def rwait_poll_def split: sum.splits)
  show "runtime_wait fs n VNone pr = Raises RuntimeError" if "wait_checks fs n = Inr m" "m < 2 ^ 31"
    using that assms(2)
    by (auto simp: runtime_wait_def rwait_blocking_def runtime_engine_wait_def cross_int32_def wait_checks_def split: if_splits)
  show "runtime_wait fs n tm pr = Raises RuntimeError"
    if "wait_checks fs n = Inr m" "rt_validate_timeout tm = Inr q" "\<not> flt (Fin 0) q"
  proof -
    have "tm \<noteq> VNone" using that(2) by (auto simp: rt_validate_timeout_def real_number_def)
    then show ?thesis using that assms(1) by (simp add: runtime_wait_def rwait_poll_def)
  qed
qed

lemma all_rfuts_map [simp]: "all_rfuts (map RFut ks)"
  by (induction ks) simp_all

lemma closed_runtime_as_completed:
  assumes "pr_closed pr" and "\<not> re_running (pr_native pr)" and "ks \<noteq> []"
  shows "runtime_as_completed (pr # prs) (map RFut ks) = ([], map RFut ks, Some RuntimeError)"
proof -
  obtain k ks' where ks: "ks = k # ks'" using assms(3) by (cases ks) auto
  have "runtime_wait (map RFut ks) (VInt 1) VNone pr = Raises RuntimeError"
    by (rule closed_runtime_wait(2) [OF assms(1,2), of _ _ 1]) (auto simp: wait_checks_def ks)
  then show ?thesis by (simp add: ks)
qed

text \<open>
  C18. Shutdown settles everything: afterwards every future not retired is ready and the calls that
  were still queued are cancelled, operation and actor lanes alike. The process no longer holds HPX
  for a runtime, HPX is stopped and the endpoints attached beside it stay; the bridge is closed. Every
  operation of the runtime and of its actor handles raises and changes nothing: \<open>RuntimeError\<close>,
  \<open>wait\<close> and \<open>as_completed\<close> included once their arguments pass their checks. A second shutdown
  changes nothing.
\<close>

theorem runtime_shutdown_settles:
  assumes "pr_reachable pr" and "\<not> pr_closed pr" and "runtime_attached w"
    and "runtime_shutdown (pr, w, s) = ((pr', w', s'), Returns ())"
  shows "(\<forall>k < length (pr_futs pr'). (\<not> pf_retired (pr_futs pr' ! k) \<longrightarrow> rfut_ready k pr' = Inr True)
            \<and> (rfut_queued k pr \<longrightarrow> rfut_cancelled k pr'))
    \<and> pr_futs pr' = pr_futs pr \<and> w' = detach ARuntime w \<and> \<not> sl_bridge s'
    \<and> \<not> ow_runtime w' \<and> \<not> ow_started w' \<and> ow_refcount w' = 0 \<and> ow_endpoints w' = ow_endpoints w
    \<and> submit_operation t op args pr' = (pr', Inl RuntimeError)
    \<and> create_actor aid t ty args pr' = (pr', Inl RuntimeError)
    \<and> handle_call t h mth args pr' = (pr', Inl RuntimeError) \<and> handle_stats h pr' = Inl RuntimeError
    \<and> release_actor a pr' = (pr', Inl RuntimeError)
    \<and> (\<exists>x. runtime_wait fs n tm pr' = Raises x)
    \<and> (\<forall>m. wait_checks fs n = Inr m \<and> m < 2 ^ 31 \<longrightarrow> runtime_wait fs n VNone pr' = Raises RuntimeError)
    \<and> (\<forall>m q. wait_checks fs n = Inr m \<and> rt_validate_timeout tm = Inr q \<and> \<not> flt (Fin 0) q
          \<longrightarrow> runtime_wait fs n tm pr' = Raises RuntimeError)
    \<and> (ks \<noteq> [] \<longrightarrow> runtime_as_completed (pr' # prs) (map RFut ks) = ([], map RFut ks, Some RuntimeError))
    \<and> runtime_num_lanes pr' = Inl RuntimeError \<and> runtime_lane_stats pr' = Inl RuntimeError
    \<and> runtime_shutdown (pr', w', s') = ((pr', w', s'), Returns ())"
proof -
  note inv = pr_reachable_inv [OF assms(1)]
  let ?n = "pr_native pr"
  have run: "re_running ?n" using inv assms(2) by (simp add: pr_inv_def)
  have pr': "pr' = pr\<lparr>pr_closed := True, pr_native := ?n\<lparr>re_running := False, re_actors := [], re_lanes := map teardown_lane (re_lanes ?n)\<rparr>\<rparr>"
    and ws: "w' = detach ARuntime w" "s' = slot_begin_drain s"
    using assms(2,4) run by (auto simp: runtime_shutdown_def runtime_engine_shutdown_def Let_def split: if_splits prod.splits)
  have "(\<not> pf_retired (pr_futs pr ! k) \<longrightarrow> rfut_ready k pr' = Inr True) \<and> (rfut_queued k pr \<longrightarrow> rfut_cancelled k pr')"
    if k: "k < length (pr_futs pr)" for k
  proof (rule rfut_torn_down [OF inv k])
    have "rfut_lane k pr < length (re_lanes ?n)" using fut_ref(2) [OF inv k] by (simp add: ref_ok_def rfut_lane_def rf_ix_def)
    then show "re_lanes (pr_native pr') ! rfut_lane k pr = teardown_lane (re_lanes ?n ! rfut_lane k pr)" by (simp add: pr')
  qed (simp_all add: pr')
  moreover have c: "pr_closed pr'" "\<not> re_running (pr_native pr')" "pr_futs pr' = pr_futs pr" by (simp_all add: pr')
  moreover have "\<not> sl_bridge s'" by (simp add: ws slot_begin_drain_def)
  ultimately show ?thesis
    using ws(1) attached_detach [OF assms(3)] closed_runtime_wait [OF c(1,2)] closed_runtime_as_completed [OF c(1,2)]
    by (simp del: detach.simps add: submit_operation_def create_actor_def handle_call_def handle_stats_def
        release_actor_def runtime_num_lanes_def runtime_lane_stats_def runtime_shutdown_def)
qed

lemma runtime_shutdown_settles_witness:
  "\<exists>w pr' w' s'. attach True ARuntime 4 new_owner = Inr w \<and> ow_started w
     \<and> runtime_shutdown (demo_runtime1, w, new_slot) = ((pr', w', s'), Returns ()) \<and> \<not> ow_started w'
     \<and> rfut_ready 0 pr' = Inr True \<and> rfut_cancelled 0 pr'"
proof -
  obtain w where w: "attach True ARuntime 4 new_owner = Inr w" "ow_started w"
    by (simp add: new_owner_def start_hpx_locked_def)
  have att: "runtime_attached w" by (rule runtime_attached.Opened [OF owner_reachable.New w(1)])
  have "snd (runtime_shutdown (demo_runtime1, w, new_slot)) = Returns ()"
    by (simp add: demo_runtime1_eq runtime_shutdown_def runtime_engine_shutdown_def slot_defs)
  then obtain pr' w' s' where sh: "runtime_shutdown (demo_runtime1, w, new_slot) = ((pr', w', s'), Returns ())"
    by (metis prod.collapse)
  have "rfut_queued 0 demo_runtime1"
    by (simp add: rfut_queued_def demo_runtime1_eq rf_ix_def rl_push_def new_rlane_def)
  then show ?thesis
    using runtime_shutdown_settles [OF demo_runtime1_reachable(1) _ att sh] sh w by (simp add: demo_runtime1_eq) metis
qed

end
