(* ===== verification/RuntimeActor.thy ===== *)
theory RuntimeActor
  imports RuntimeLaneProps
begin

text \<open>
  What an actor's lane means: its calls take effect one after the other in submission order, on the
  state the earlier ones left, and a cancelled call takes no effect. The effects are read off the
  rows: a request took effect once it has a row that is not a cancellation, in its promise or still
  carried by the task that serves it.
\<close>

subsection \<open>Effects, read off the rows\<close>

fun carried :: "task \<Rightarrow> rresult list" where
  "carried (TBody r) = [r]"
| "carried (TFulfil r) = [r]"
| "carried s = []"

definition carried_for :: "nat \<Rightarrow> rworker \<Rightarrow> rresult list" where
  "carried_for i w = (case w of RServing k s \<Rightarrow> (if k = i then carried s else []) | _ \<Rightarrow> [])"

definition live_row :: "rresult \<Rightarrow> bool" where
  "live_row r = (rr_status r \<noteq> ''cancelled'')"

definition live_rows :: "rlane \<Rightarrow> nat \<Rightarrow> rresult list" where
  "live_rows l i = filter live_row (rc_proms (rl_cells l ! i) @ carried_for i (rl_worker l))"

definition effect_of :: "rlane \<Rightarrow> nat \<Rightarrow> int \<Rightarrow> int" where
  "effect_of l i v = (if live_rows l i \<noteq> [] then fst (job_finish (cell_job l i) v) else v)"

definition effects :: "rlane \<Rightarrow> nat list \<Rightarrow> int \<Rightarrow> int" where
  "effects l is v = foldl (\<lambda>v i. effect_of l i v) v is"

definition linear :: "int \<Rightarrow> rlane \<Rightarrow> bool" where
  "linear v l \<longleftrightarrow> rl_state l = effects l [0..<length (rl_log l)] v
     \<and> (\<forall>i < length (rl_log l). \<forall>r \<in> set (live_rows l i). \<exists>s e. r = task_row (rl_actor_id l) s e
          (snd (job_finish (cell_job l i) (effects l [0..<i] v))))"

lemma effects_cong:
  "\<forall>i \<in> set is. live_rows l' i = live_rows l i \<and> cell_job l' i = cell_job l i \<Longrightarrow> effects l' is v = effects l is v"
  by (induction "is" arbitrary: v) (simp_all add: effects_def effect_of_def)

lemma effects_snoc: "effects l (is @ [i]) v = effect_of l i (effects l is v)"
  by (simp add: effects_def)

text \<open>A step that serves nothing: the state and the rows that are not cancellations stay.\<close>

lemma linear_quiet:
  assumes lin: "linear v l" and st: "rl_state l' = rl_state l" "rl_actor_id l' = rl_actor_id l"
    and keep: "\<And>i. i < length (rl_log l) \<Longrightarrow> live_rows l' i = live_rows l i \<and> cell_job l' i = cell_job l i"
    and log: "length (rl_log l') = length (rl_log l)
      \<or> length (rl_log l') = Suc (length (rl_log l)) \<and> live_rows l' (length (rl_log l)) = []"
  shows "linear v l'"
proof -
  have eff: "effects l' [0..<i] v = effects l [0..<i] v" if "i \<le> length (rl_log l)" for i
    using that keep by (intro effects_cong) auto
  have "rl_state l' = effects l' [0..<length (rl_log l')] v"
    using log lin eff [of "length (rl_log l)"] st by (auto simp: linear_def effects_snoc effect_of_def)
  moreover have "\<exists>s e. r = task_row (rl_actor_id l') s e (snd (job_finish (cell_job l' i) (effects l' [0..<i] v)))"
    if "i < length (rl_log l')" "r \<in> set (live_rows l' i)" for i r
  proof -
    have i: "i < length (rl_log l)" using that log by (cases "i = length (rl_log l)") auto
    then show ?thesis using that(2) lin keep [OF i] eff [of i] st by (simp add: linear_def)
  qed
  ultimately show ?thesis unfolding linear_def by blast
qed

subsection \<open>Every step keeps it\<close>

lemma live_settle: "filter live_row (rc_proms (rsettle_cell a t c)) = filter live_row (rc_proms c)"
  by (simp add: rsettle_cell_def live_row_def)

lemma proms_cancel: "rc_proms (fst (rcancel_cell c)) = rc_proms c"
  by (simp add: rcancel_cell_def split: prod.split)

lemma live_upd:
  assumes "filter live_row (rc_proms (f (rl_cells l ! k))) = filter live_row (rc_proms (rl_cells l ! k))"
    and "carried_for i (rl_worker l') = carried_for i (rl_worker l)" and "rl_cells l' = rl_cells (upd_cell k f l)"
  shows "live_rows l' i = live_rows l i"
  using assms by (cases "k = i"; cases "k < length (rl_cells l)") (simp_all add: live_rows_def upd_cell_def list_update_beyond)

lemma cell_job_upd:
  assumes "\<And>c. rc_job (f c) = rc_job c" and "rl_cells l' = rl_cells (upd_cell k f l)"
  shows "cell_job l' i = cell_job l i"
  using assms by (cases "k = i"; cases "k < length (rl_cells l)") (simp_all add: cell_job_def upd_cell_def list_update_beyond)

lemma linear_upd:
  assumes "linear v l" and "\<And>c. rc_job (f c) = rc_job c"
    and "filter live_row (rc_proms (f (rl_cells l ! k))) = filter live_row (rc_proms (rl_cells l ! k))"
    and "rl_cells l' = rl_cells (upd_cell k f l)" "rl_state l' = rl_state l" "rl_actor_id l' = rl_actor_id l"
    and "\<And>i. carried_for i (rl_worker l') = carried_for i (rl_worker l)" "rl_log l' = rl_log l"
  shows "linear v l'"
  using assms(1,5,6)
proof (rule linear_quiet)
  fix i
  show "live_rows l' i = live_rows l i \<and> cell_job l' i = cell_job l i"
    using live_upd [OF assms(3,7,4)] cell_job_upd [OF assms(2,4)] by blast
qed (simp add: assms(8))

lemma linear_same:
  assumes "linear v l" "rl_cells l' = rl_cells l" "rl_state l' = rl_state l" "rl_actor_id l' = rl_actor_id l"
    and "\<And>i. carried_for i (rl_worker l') = carried_for i (rl_worker l)" "rl_log l' = rl_log l"
  shows "linear v l'"
  by (rule linear_upd [OF assms(1), of "\<lambda>c. c" 0]) (simp_all add: assms upd_cell_def)

text \<open>The step in which a body ends: the request served is the last one popped, and its effect is last.\<close>

lemma linear_body:
  assumes lin: "linear v l" and i: "rl_log l = [0..<Suc i]" and clean: "live_rows l i = []"
    and fin: "job_finish (cell_job l i) (rl_state l) = (w, r)"
    and l': "l' = l\<lparr>rl_state := w, rl_worker := RServing i (TBody (task_row (rl_actor_id l) s e r))\<rparr>"
    and work: "\<And>k. carried_for k (rl_worker l) = []"
  shows "linear v l'"
proof -
  have r: "r \<noteq> Cancelled_op" using outcome_not_cancelled [of "cell_job l i" "rl_state l"] fin by simp
  have rows: "live_rows l' k = (if k = i then [task_row (rl_actor_id l) s e r] else live_rows l k)" for k
    using clean r work [of k] by (simp add: live_rows_def l' carried_for_def live_row_def)
  have job: "cell_job l' k = cell_job l k" for k by (simp add: l' cell_job_def)
  have eff: "effects l' [0..<k] v = effects l [0..<k] v" if "k \<le> i" for k
    using that rows job by (intro effects_cong) auto
  have st: "rl_state l = effects l [0..<i] v" using lin i clean by (simp add: linear_def effects_snoc effect_of_def)
  have "w = effects l' [0..<Suc i] v"
    using fin st by (simp add: effects_snoc effect_of_def rows job eff)
  moreover have "\<exists>s e. q = task_row (rl_actor_id l) s e (snd (job_finish (cell_job l k) (effects l [0..<k] v)))"
    if "k \<le> i" "q \<in> set (live_rows l' k)" for k q
  proof (cases "k = i")
    case True
    then show ?thesis using that fin st by (auto simp: rows)
  next
    case False
    then show ?thesis using that lin i by (auto simp: rows linear_def)
  qed
  ultimately show ?thesis unfolding linear_def using i eff job by (simp add: l' less_Suc_eq_le)
qed

lemma linear_task:
  assumes lin: "linear v l" and inv: "rl_inv l" and w: "rl_worker l = RServing i s" "s \<noteq> TSettled"
    and log: "rl_log l = [0..<Suc i]" and t: "task_step i s l = (m, s')"
  shows "linear v (m\<lparr>rl_worker := RServing i s'\<rparr>)"
proof -
  have ok: "task_ok (rl_actor_id l) (rl_now l) s (rl_cells l ! i)" using inv w by (simp add: rl_inv_def)
  have i: "i < length (rl_cells l)" using busy_lt [OF inv, of i] w by (simp add: busy_def rheld_def)
  show ?thesis
  proof (cases s)
    case TStart
    then show ?thesis using t w by (intro linear_same [OF lin]) (auto simp: carried_for_def)
  next
    case (TSegment k start)
    show ?thesis
    proof (cases "k + 1 < job_segments (cell_job l i) (rl_state l)")
      case True
      then show ?thesis using t w TSegment
        by (intro linear_same [OF lin]) (auto simp: carried_for_def Let_def cell_job_def)
    next
      case False
      obtain u r where f: "job_finish (cell_job l i) (rl_state l) = (u, r)" by fastforce
      have "m = l\<lparr>rl_state := u\<rparr>" "s' = TBody (task_row (rl_actor_id l) start (rl_now l) r)"
        using t TSegment False f by (auto simp: Let_def cell_job_def)
      moreover have "live_rows l i = []" using ok TSegment w by (simp add: live_rows_def carried_for_def clean_def)
      moreover have "carried_for k (rl_worker l) = []" for k using w TSegment by (simp add: carried_for_def)
      ultimately show ?thesis by (intro linear_body [OF lin log _ f]) auto
    qed
  next
    case (TBoundary k start)
    obtain tk stop where b: "rstop_at_boundary (k = job_checkpoints (rc_job (rl_cells l ! i)) - 1) (rc_tok (rl_cells l ! i)) = (tk, stop)"
      by fastforce
    let ?m = "upd_cell i (\<lambda>c. c\<lparr>rc_tok := tk\<rparr>) l"
    have m: "m = ?m" "s' = (if stop then TBody (task_row (rl_actor_id l) start (rl_now l) Cancelled_op) else TSegment k start)"
      using t TBoundary b by (auto simp: Let_def)
    have empty: "live_rows l i = []" using ok TBoundary w by (simp add: live_rows_def carried_for_def clean_def)
    show ?thesis
    proof (rule linear_quiet [OF lin])
      fix j
      have "live_rows (m\<lparr>rl_worker := RServing i s'\<rparr>) j = live_rows l j"
        using i w TBoundary by (cases "j = i") (simp_all add: m live_rows_def carried_for_def upd_cell_def live_row_def)
      then show "live_rows (m\<lparr>rl_worker := RServing i s'\<rparr>) j = live_rows l j
          \<and> cell_job (m\<lparr>rl_worker := RServing i s'\<rparr>) j = cell_job l j"
        using cell_job_upd [of "\<lambda>c. c\<lparr>rc_tok := tk\<rparr>"] by (simp add: m)
    qed (simp_all add: m upd_cell_def)
  next
    case (TBody r)
    then have "m = l \<or> m = upd_cell i (\<lambda>c. c\<lparr>rc_tok := mark_finished (rc_tok c)\<rparr>) l" and s': "s' = TFulfil r"
      using t by (auto split: if_splits)
    then show ?thesis
    proof (elim disjE)
      assume "m = l"
      then show ?thesis using w TBody s' by (intro linear_same [OF lin]) (simp_all add: carried_for_def)
    next
      assume "m = upd_cell i (\<lambda>c. c\<lparr>rc_tok := mark_finished (rc_tok c)\<rparr>) l"
      then show ?thesis using w TBody s'
        by (intro linear_upd [OF lin, of "\<lambda>c. c\<lparr>rc_tok := mark_finished (rc_tok c)\<rparr>" i])
          (simp_all add: carried_for_def upd_cell_def)
    qed
  next
    case (TFulfil r)
    then have m: "m = upd_cell i (\<lambda>c. c\<lparr>rc_proms := rc_proms c @ [r]\<rparr>) l" "s' = TSettled" using t by simp_all
    have "live_rows (m\<lparr>rl_worker := RServing i s'\<rparr>) j = live_rows l j" for j
      using i w TFulfil by (cases "j = i") (simp_all add: m live_rows_def carried_for_def upd_cell_def)
    moreover have "cell_job (m\<lparr>rl_worker := RServing i s'\<rparr>) j = cell_job l j" for j
      using cell_job_upd [of "\<lambda>c. c\<lparr>rc_proms := rc_proms c @ [r]\<rparr>"] by (simp add: m)
    ultimately show ?thesis by (intro linear_quiet [OF lin]) (simp_all add: m upd_cell_def)
  next
    case TSettled
    then show ?thesis using w(2) by simp
  qed
qed

lemma linear_consumer:
  assumes lin: "linear v l" and inv: "rl_inv l" and serial: "\<not> rl_nonblocking l" and last: "held_last l"
    and st: "consumer_step l = Some l'"
  shows "linear v l'"
proof (cases "rl_worker l")
  case RIdle
  then have pop: "pop_item l = Some l'" using st by (simp add: consumer_step_def)
  show ?thesis
  proof (cases "rl_queue l")
    case Nil
    then show ?thesis using pop RIdle
      by (intro linear_same [OF lin]) (auto simp: pop_item_def carried_for_def split: if_splits)
  next
    case (Cons i q)
    have log: "rl_log l @ i # q = [0..<length (rl_cells l)]" using inv Cons by (simp add: rl_inv_def)
    then have i: "i = length (rl_log l)"
      by (metis append_Cons length_append list.size(4) nth_append_length nth_upt plus_nat.add_0 less_add_Suc1 length_upt diff_zero add_Suc_right)
    have wt: "rc_waiting (rl_actor_id l) (rl_cells l ! i)" using inv Cons by (simp add: rl_inv_def)
    then have rows: "live_rows l i = []" using RIdle
      by (auto simp: live_rows_def carried_for_def rc_waiting_def rc_skipped_def clean_def live_row_def)
    have l': "l' = l\<lparr>rl_queue := q, rl_active := True, rl_active_tok := Some i, rl_worker := RPopped i, rl_log := rl_log l @ [i]\<rparr>"
      using pop serial Cons by (simp add: pop_item_def)
    have "live_rows l' j = live_rows l j" "cell_job l' j = cell_job l j" for j
      using RIdle by (simp_all add: l' live_rows_def carried_for_def cell_job_def)
    then show ?thesis by (intro linear_quiet [OF lin]) (use rows i in \<open>simp_all add: l'\<close>)
  qed
next
  case (RPopped i)
  then have l': "l' = dispatch_item i l" using st by (simp add: consumer_step_def)
  obtain tk ok where b: "rbegin_service (job_checkpoints (rc_job (rl_cells l ! i))) (rc_tok (rl_cells l ! i)) = (tk, ok)" by fastforce
  show ?thesis
  proof (cases ok)
    case False
    then show ?thesis using RPopped b serial
      by (intro linear_same [OF lin]) (simp_all add: l' dispatch_item_def Let_def carried_for_def)
  next
    case True
    then show ?thesis using RPopped b serial
      by (intro linear_upd [OF lin, of "\<lambda>c. c\<lparr>rc_tok := tk\<rparr>" i])
        (simp_all add: l' dispatch_item_def Let_def carried_for_def upd_cell_def)
  qed
next
  case (RServing i s)
  show ?thesis
  proof (cases "s = TSettled")
    case True
    then show ?thesis using st RServing serial
      by (intro linear_same [OF lin]) (auto simp: consumer_step_def carried_for_def)
  next
    case False
    have "rl_log l \<noteq> []" "i = last (rl_log l)" using last RServing by (simp_all add: held_last_def rheld_def)
    moreover have "rl_log l = [0..<length (rl_log l)]"
      using inv by (metis append_eq_conv_conj rl_inv_def take_upt le_add1 length_append length_upt plus_nat.add_0 minus_nat.diff_0)
    ultimately have log: "rl_log l = [0..<Suc i]" by (metis last_upt length_greater_0_conv Suc_pred' upt_eq_Nil_conv not_less_eq_eq le0 diff_Suc_1)
    obtain m s' where t: "task_step i s l = (m, s')" "l' = m\<lparr>rl_worker := RServing i s'\<rparr>"
      using consumer_serving [OF st RServing False] .
    show ?thesis unfolding t(2) by (rule linear_task [OF lin inv RServing False log t(1)])
  qed
next
  case RClear
  then show ?thesis using st
    by (intro linear_same [OF lin]) (auto simp: consumer_step_def clear_active_def carried_for_def)
next
  case RExited
  then show ?thesis using st by (simp add: consumer_step_def)
qed

lemma linear_step:
  assumes st: "rl_step l l'" and lin: "linear v l" and inv: "rl_inv l" and serial: "\<not> rl_nonblocking l" and last: "held_last l"
  shows "linear v l'"
  using st
proof cases
  case (Submit j)
  have "length (rl_log l) \<le> length (rl_cells l)"
    using inv by (metis length_append length_upt le_add1 diff_zero rl_inv_def)
  then have "live_rows l' i = live_rows l i \<and> cell_job l' i = cell_job l i" if "i < length (rl_log l)" for i
    using that Submit(1) by (simp add: rl_push_def live_rows_def cell_job_def nth_append)
  then show ?thesis by (intro linear_quiet [OF lin]) (simp_all add: Submit(1) rl_push_def)
next
  case (Cancel i)
  have "l' = upd_cell i (\<lambda>_. fst (rcancel_cell (rl_cells l ! i))) l"
    using Cancel by (simp add: rl_cancel_def split: prod.split)
  then have "l' = upd_cell i (\<lambda>c. fst (rcancel_cell c)) l" by (simp add: upd_cell_def)
  then show ?thesis
    by (intro linear_upd [OF lin, of "\<lambda>c. fst (rcancel_cell c)" i]) (simp_all add: proms_cancel upd_cell_def)
next
  case (Settle i)
  then show ?thesis
    by (intro linear_upd [OF lin, of "rsettle_cell (rl_actor_id l) (rl_now l)" i])
      (simp_all add: rl_settle_def live_settle upd_cell_def)
next
  case Stop
  then show ?thesis by (intro linear_same [OF lin]) (simp_all add: rl_request_stop_def)
next
  case (Tick d)
  then show ?thesis by (intro linear_same [OF lin]) simp_all
next
  case Consumer
  then show ?thesis by (rule linear_consumer [OF lin inv serial last])
next
  case (Flight n)
  moreover have "rl_flight l = []" using inv serial by (simp add: rl_inv_def mode_ok_def)
  ultimately show ?thesis by (simp add: flight_step_def)
qed

lemma linear_reachable: "rl_reachable a False mi v l \<Longrightarrow> linear v l"
proof (induction rule: rl_reachable.induct)
  case (New t)
  then show ?case by (simp add: linear_def new_rlane_def effects_def)
next
  case (Step l l')
  then show ?case
    using linear_step [OF Step.hyps(2) Step.IH rl_reachable_inv [OF Step.hyps(1)]]
      reachable_actor [OF Step.hyps(1)] held_last_reachable [OF Step.hyps(1)] by simp
qed

text \<open>
  C15. An actor's calls are linear: at any moment the actor's state is what the calls served so far
  leave when they are run one after the other in the order of their submission, from the initial
  value, the cancelled ones left out; and every row that is not a cancellation reports the outcome
  its call has in that run. The run is one in which no call served overflows, which C++ leaves
  undefined.
\<close>

theorem actor_linear:
  assumes "rl_reachable a False mi v l"
    and "\<forall>i < length (rl_log l). live_rows l i \<noteq> [] \<longrightarrow>
      snd (job_finish (cell_job l i) (effects l [0..<i] v)) \<noteq> Undefined"
  shows "rl_state l = effects l [0..<length (rl_log l)] v
    \<and> (\<forall>i < length (rl_log l). \<forall>r \<in> set (rc_proms (rl_cells l ! i)). rr_status r \<noteq> ''cancelled'' \<longrightarrow>
        (\<exists>s e. r = task_row a s e (snd (job_finish (cell_job l i) (effects l [0..<i] v)))))"
  using linear_reachable [OF assms(1)] reachable_actor [OF assms(1)]
  by (auto simp: linear_def live_rows_def live_row_def)

definition demo_actor :: rlane where
  "demo_actor = rl_drain 8 (rl_push (JMethod ''get'' []) (rl_push (JMethod ''add'' [OVInt 3]) (new_rlane ''c'' False 1 5 0)))"

lemma drain_reachable: "rl_reachable a nb mi v l \<Longrightarrow> rl_reachable a nb mi v (rl_drain n l)"
proof (induction n arbitrary: l)
  case (Suc n)
  then show ?case
    using rl_reachable.Step [OF Suc.prems] rl_step.Consumer rl_step.Flight
    by (auto simp: any_step_def split: option.splits)
qed simp

lemma actor_linear_witness:
  "rl_log demo_actor = [0] \<and> rl_state demo_actor = 8 \<and> effects demo_actor [0..<1] 5 = 8"
proof -
  have ok: "job_ok (JMethod ''add'' [OVInt 3])" "job_ok (JMethod ''get'' [])"
    by (simp_all add: job_ok_def method_checkpoints_def)
  have "rl_reachable ''c'' False 1 5 demo_actor"
    unfolding demo_actor_def
  proof (rule drain_reachable)
    let ?n = "new_rlane ''c'' False 1 5 0"
    have "rl_reachable ''c'' False 1 5 (rl_push (JMethod ''add'' [OVInt 3]) ?n)"
      by (rule rl_reachable.Step [OF rl_reachable.New rl_step.Submit [OF _ ok(1)]]) (simp add: new_rlane_def)
    then show "rl_reachable ''c'' False 1 5 (rl_push (JMethod ''get'' []) (rl_push (JMethod ''add'' [OVInt 3]) ?n))"
      by (rule rl_reachable.Step [OF _ rl_step.Submit [OF _ ok(2)]]) (simp add: new_rlane_def rl_push_def)
  qed
  moreover have d: "rl_log demo_actor = [0]" "rl_state demo_actor = 8"
    by (simp_all add: demo_actor_def numeral_eq_Suc any_step_def consumer_step_def pop_item_def new_rlane_def rl_push_def
        dispatch_item_def rbegin_service_def new_rtoken_def job_segments_def counter_method_def method_checkpoints_def
        upd_cell_def clear_active_def as_int64_def int64_ok_def bound_defs Let_def nth_append)
  moreover have "cell_job demo_actor 0 = JMethod ''add'' [OVInt 3]"
    by (simp add: demo_actor_def cell_job_def numeral_eq_Suc any_step_def consumer_step_def pop_item_def new_rlane_def
        rl_push_def dispatch_item_def rbegin_service_def new_rtoken_def job_segments_def counter_method_def
        method_checkpoints_def upd_cell_def clear_active_def as_int64_def int64_ok_def bound_defs Let_def nth_append)
  ultimately have "rl_state demo_actor = effects demo_actor [0..<length (rl_log demo_actor)] 5"
    using actor_linear [of "''c''" 1 5 demo_actor]
    by (simp add: effects_def counter_method_def as_int64_def int64_ok_def bound_defs)
  then show ?thesis using d by simp
qed

end
