(* ===== verification/PyStruct.thy ===== *)
theory PyStruct
  imports PyNumber "HOL-Library.Word"
begin

text \<open>
  What the wire codec uses of Python's \<open>struct\<close> module, big-endian and without padding: fields
  \<open>H\<close>, \<open>B\<close>, \<open>q\<close> and \<open><n>s\<close>; a value that does not fit its field raises \<open>struct.error\<close>. Also the
  ASCII encoding of \<open>str\<close>. A byte is an 8-bit word.
\<close>

type_synonym byte = "8 word"

subsection \<open>Integers as bytes\<close>

fun put_be :: "nat \<Rightarrow> int \<Rightarrow> byte list" where
  "put_be 0 v = []"
| "put_be (Suc n) v = put_be n (v div 256) @ [word_of_int v]"

definition get_be :: "byte list \<Rightarrow> int" where
  "get_be bs = foldl (\<lambda>a b. a * 256 + uint b) 0 bs"

definition signed64 :: "int \<Rightarrow> int" where
  "signed64 u = (if u < 2 ^ 63 then u else u - 2 ^ 64)"

lemma put_be_length [simp]: "length (put_be n v) = n"
  by (induction n arbitrary: v) simp_all

lemma get_be_snoc [simp]: "get_be (bs @ [b]) = get_be bs * 256 + uint b"
  by (simp add: get_be_def)

lemma get_be_Nil [simp]: "get_be [] = 0"
  by (simp add: get_be_def)

lemma uint_byte: "uint (word_of_int x :: byte) = x mod 256"
  by (simp add: unsigned_of_int take_bit_eq_mod)

lemma get_be_single [simp]: "get_be [b] = uint b"
  using get_be_snoc [of "[]" b] by simp

lemma get_put_be: "get_be (put_be n v) = v mod 256 ^ n"
proof (induction n arbitrary: v)
  case (Suc n)
  have "v mod 256 ^ Suc n = 256 * (v div 256 mod 256 ^ n) + v mod 256"
    using zmod_zmult2_eq [of "256 ^ n" v 256] by simp
  then show ?case using Suc by (simp only: put_be.simps get_be_snoc uint_byte)
qed simp

lemma byte_range: "0 \<le> uint (b :: byte)" "uint (b :: byte) < 256"
  using uint_lt2p [of b] by simp_all

lemma get_be_range: "0 \<le> get_be bs \<and> get_be bs < 256 ^ length bs"
proof (induction bs rule: rev_induct)
  case (snoc b bs)
  then show ?case using byte_range [of b] by simp
qed simp

lemma put_get_be: "put_be (length bs) (get_be bs) = bs"
proof (induction bs rule: rev_induct)
  case (snoc b bs)
  have "(get_be bs * 256 + uint b) div 256 = get_be bs" using byte_range [of b] by simp
  moreover have "word_of_int (get_be bs * 256 + uint b) = b"
  proof -
    have "uint (word_of_int (get_be bs * 256 + uint b) :: byte) = uint b"
      unfolding uint_byte using byte_range [of b] by simp
    then show ?thesis by (simp only: word_uint_eq_iff)
  qed
  ultimately show ?case using snoc by simp
qed simp

lemma signed64_mod:
  assumes "- (2 ^ 63) \<le> v" "v < 2 ^ 63"
  shows "signed64 (v mod 2 ^ 64) = v"
proof (cases "0 \<le> v")
  case False
  then have "v mod 2 ^ 64 = v + 2 ^ 64"
    using assms mod_pos_pos_trivial [of "v + 2 ^ 64" "2 ^ 64"] by simp
  then show ?thesis using assms by (simp add: signed64_def)
qed (use assms in \<open>simp add: signed64_def\<close>)

lemma signed64_range: "0 \<le> u \<Longrightarrow> u < 2 ^ 64 \<Longrightarrow> - (2 ^ 63) \<le> signed64 u \<and> signed64 u < 2 ^ 63"
  by (simp add: signed64_def)

lemma put_be_mod: "put_be n (v mod 256 ^ n) = put_be n v"
  by (metis get_put_be put_be_length put_get_be)

lemma put_be_signed: "put_be 8 (signed64 u) = put_be 8 u"
proof -
  have "signed64 u mod 256 ^ 8 = u mod 256 ^ 8"
    using mod_diff_right_eq [of u "2 ^ 64" "2 ^ 64"] by (simp add: signed64_def)
  then show ?thesis by (metis put_be_mod)
qed

subsection \<open>Formats\<close>

datatype fmt = Fs nat | FH | FB | Fq

datatype sval = SInt int | SBytes "byte list"

fun fmt_size :: "fmt \<Rightarrow> nat" where
  "fmt_size (Fs n) = n"
| "fmt_size FH = 2"
| "fmt_size FB = 1"
| "fmt_size Fq = 8"

definition calcsize :: "fmt list \<Rightarrow> nat" where
  "calcsize fs = sum_list (map fmt_size fs)"

fun pack_one :: "fmt \<Rightarrow> sval \<Rightarrow> byte list py" where
  "pack_one (Fs n) (SBytes b) = Inr (take n (b @ replicate n 0))"
| "pack_one FH (SInt v) = (if 0 \<le> v \<and> v < 2 ^ 16 then Inr (put_be 2 v) else Inl StructError)"
| "pack_one FB (SInt v) = (if 0 \<le> v \<and> v < 2 ^ 8 then Inr (put_be 1 v) else Inl StructError)"
| "pack_one Fq (SInt v) = (if - (2 ^ 63) \<le> v \<and> v < 2 ^ 63 then Inr (put_be 8 v) else Inl StructError)"
| "pack_one f v = Inl StructError"

fun struct_pack :: "fmt list \<Rightarrow> sval list \<Rightarrow> byte list py" where
  "struct_pack [] [] = Inr []"
| "struct_pack (f # fs) (v # vs) = rbind (pack_one f v) (\<lambda>b. rbind (struct_pack fs vs) (\<lambda>bs. Inr (b @ bs)))"
| "struct_pack fs vs = Inl StructError"

fun unpack_one :: "fmt \<Rightarrow> byte list \<Rightarrow> sval" where
  "unpack_one (Fs n) b = SBytes b"
| "unpack_one FH b = SInt (get_be b)"
| "unpack_one FB b = SInt (get_be b)"
| "unpack_one Fq b = SInt (signed64 (get_be b))"

text \<open>For a buffer of the format's size; the callers check the size first.\<close>

fun struct_unpack :: "fmt list \<Rightarrow> byte list \<Rightarrow> sval list" where
  "struct_unpack [] b = []"
| "struct_unpack (f # fs) b = unpack_one f (take (fmt_size f) b) # struct_unpack fs (drop (fmt_size f) b)"

fun fits :: "fmt \<Rightarrow> sval \<Rightarrow> bool" where
  "fits (Fs n) (SBytes b) = (length b = n)"
| "fits FH (SInt v) = (0 \<le> v \<and> v < 2 ^ 16)"
| "fits FB (SInt v) = (0 \<le> v \<and> v < 2 ^ 8)"
| "fits Fq (SInt v) = (- (2 ^ 63) \<le> v \<and> v < 2 ^ 63)"
| "fits f v = False"

lemma calcsize_simps [simp]: "calcsize [] = 0" "calcsize (f # fs) = fmt_size f + calcsize fs"
  by (simp_all add: calcsize_def)

lemma pack_one_fits: "fits f v \<Longrightarrow> \<exists>b. pack_one f v = Inr b \<and> length b = fmt_size f \<and> unpack_one f b = v"
  using signed64_mod by (induction f v rule: fits.induct) (auto simp: get_put_be uint_byte)

lemma pack_unpack:
  "list_all2 fits fs vs \<Longrightarrow> \<exists>b. struct_pack fs vs = Inr b \<and> length b = calcsize fs \<and> struct_unpack fs b = vs"
proof (induction fs vs rule: list_all2_induct)
  case (Cons f fs v vs)
  then show ?case using pack_one_fits [OF Cons(1)] by auto
qed simp

lemma unpack_one_fits:
  assumes "length b = fmt_size f"
  shows "fits f (unpack_one f b) \<and> pack_one f (unpack_one f b) = Inr b"
proof (cases f)
  case FH
  then show ?thesis using assms get_be_range [of b] put_get_be [of b] by simp
next
  case FB
  then have "length b = 1" using assms by simp
  then have "0 \<le> get_be b \<and> get_be b < 256" "put_be 1 (get_be b) = b"
    using get_be_range [of b] put_get_be [of b] by (metis power_one_right, metis)
  then show ?thesis using FB by simp
next
  case Fq
  then have "length b = 8" using assms by simp
  then have "0 \<le> get_be b \<and> get_be b < 2 ^ 64" "put_be 8 (get_be b) = b"
    using get_be_range [of b] put_get_be [of b] by (simp, metis)
  then show ?thesis using Fq signed64_range [of "get_be b"] by (simp add: put_be_signed del: put_be.simps)
qed (use assms in simp)

lemma unpack_pack:
  "length b = calcsize fs \<Longrightarrow> list_all2 fits fs (struct_unpack fs b) \<and> struct_pack fs (struct_unpack fs b) = Inr b"
proof (induction fs arbitrary: b)
  case (Cons f fs)
  then show ?case using unpack_one_fits [of "take (fmt_size f) b" f] Cons.IH [of "drop (fmt_size f) b"] by simp
qed simp

subsection \<open>ASCII\<close>

definition ascii_encode :: "string \<Rightarrow> byte list py" where
  "ascii_encode s = (if \<forall>c \<in> set s. of_char c < (128 :: nat) then Inr (map of_char s) else Inl UnicodeEncodeError)"

definition ascii_decode :: "byte list \<Rightarrow> string py" where
  "ascii_decode bs = (if \<forall>b \<in> set bs. b < 128 then Inr (map (\<lambda>b. char_of (unat b)) bs) else Inl UnicodeDecodeError)"

definition is_ascii :: "string \<Rightarrow> bool" where
  "is_ascii s \<longleftrightarrow> (\<forall>c \<in> set s. of_char c < (128 :: nat))"

lemma of_char_byte: "unat (of_char c :: byte) = (of_char c :: nat)"
proof -
  have "(of_char c :: byte) = of_nat (of_char c)" by (simp only: of_nat_of_char)
  then show ?thesis using nat_of_char_less_256 [of c] by (simp add: unat_of_nat del: nat_of_char_less_256)
qed

lemma ascii_roundtrip: "is_ascii s \<Longrightarrow> ascii_encode s = Inr (map of_char s) \<and> ascii_decode (map of_char s) = Inr s"
proof -
  assume a: "is_ascii s"
  have "(of_char c :: byte) < 128" if "c \<in> set s" for c
    using a that of_char_byte [of c] by (simp add: is_ascii_def word_less_nat_alt)
  then show ?thesis using a by (simp add: ascii_encode_def ascii_decode_def is_ascii_def of_char_byte comp_def)
qed

end
