(* ===== verification/EndpointWire.thy ===== *)
theory EndpointWire
  imports PyStruct
begin

text \<open>
  The wire codec of the endpoint transport, in both languages: the Python codec
  (\<open>python/src/rayx/endpoint/_wire.py\<close>) over \<open>struct\<close> formats, and the native one
  (\<open>wire_*\<close> of \<open>endpoint_seam.hpp\<close>) over bytes and 64-bit words. Each frame's codec is an
  instance of the interface \<open>frame_codec\<close>; the two codecs are shown to agree.
\<close>

subsection \<open>Constants and formats\<close>

definition WIRE_MAGIC :: "byte list" where
  "WIRE_MAGIC = map of_char ''RAYX''"

definition WIRE_PROTO_VERSION :: int where
  "WIRE_PROTO_VERSION = 2"

definition WIRE_MSG_PING :: int where
  "WIRE_MSG_PING = 1"

definition WIRE_MSG_CALL_OP :: int where
  "WIRE_MSG_CALL_OP = 2"

definition WIRE_ID_LEN :: nat where
  "WIRE_ID_LEN = 23"

definition WIRE_MAX_CALL_ARGS :: nat where
  "WIRE_MAX_CALL_ARGS = 2"

definition WIRE_REQ_FMT :: "fmt list" where
  "WIRE_REQ_FMT = [Fs 4, FH, FB, FB, Fs 23, Fq]"

definition WIRE_RESP_FMT :: "fmt list" where
  "WIRE_RESP_FMT = [Fs 4, FH, FB, FB, Fq]"

definition WIRE_REQ_SIZE :: nat where
  "WIRE_REQ_SIZE = calcsize WIRE_REQ_FMT"

definition WIRE_RESP_SIZE :: nat where
  "WIRE_RESP_SIZE = calcsize WIRE_RESP_FMT"

definition WIRE_CALLOP_REQ_FMT :: "fmt list" where
  "WIRE_CALLOP_REQ_FMT = [Fs 4, FH, FB, FB, Fs 23, FH, FB, FB] @ concat (replicate WIRE_MAX_CALL_ARGS [FB, Fq])"

definition WIRE_CALLOP_RESP_FMT :: "fmt list" where
  "WIRE_CALLOP_RESP_FMT = [Fs 4, FH, FB, FB, Fq]"

definition WIRE_CALLOP_REQ_SIZE :: nat where
  "WIRE_CALLOP_REQ_SIZE = calcsize WIRE_CALLOP_REQ_FMT"

definition WIRE_CALLOP_RESP_SIZE :: nat where
  "WIRE_CALLOP_RESP_SIZE = calcsize WIRE_CALLOP_RESP_FMT"

definition WIRE_OK :: int where "WIRE_OK = 0"
definition WIRE_PEER_CLOSED :: int where "WIRE_PEER_CLOSED = 1"
definition WIRE_NOT_FOUND :: int where "WIRE_NOT_FOUND = 3"
definition WIRE_PROTO_ERR :: int where "WIRE_PROTO_ERR = 4"

lemmas wire_defs = WIRE_PROTO_VERSION_def WIRE_MSG_PING_def WIRE_MSG_CALL_OP_def WIRE_ID_LEN_def
  WIRE_MAX_CALL_ARGS_def WIRE_REQ_FMT_def WIRE_RESP_FMT_def WIRE_CALLOP_REQ_FMT_def WIRE_CALLOP_RESP_FMT_def
  WIRE_OK_def WIRE_PEER_CLOSED_def WIRE_NOT_FOUND_def WIRE_PROTO_ERR_def

lemma wire_sizes: "WIRE_REQ_SIZE = 39" "WIRE_RESP_SIZE = 16" "WIRE_CALLOP_REQ_SIZE = 53" "WIRE_CALLOP_RESP_SIZE = 16"
  by (simp_all add: WIRE_REQ_SIZE_def WIRE_RESP_SIZE_def WIRE_CALLOP_REQ_SIZE_def WIRE_CALLOP_RESP_SIZE_def
      wire_defs numeral_eq_Suc)

lemma magic_length [simp]: "length WIRE_MAGIC = 4"
  by (simp add: WIRE_MAGIC_def)

subsection \<open>The Python codec\<close>

definition target_bytes :: "string \<Rightarrow> byte list py" where
  "target_bytes target_id = rbind (ascii_encode target_id) (\<lambda>tid.
     if length tid \<noteq> WIRE_ID_LEN then Inl ValueError else Inr tid)"

definition encode_request :: "int \<Rightarrow> string \<Rightarrow> int \<Rightarrow> byte list py" where
  "encode_request proto target_id nonce = rbind (target_bytes target_id) (\<lambda>tid.
     struct_pack WIRE_REQ_FMT [SBytes WIRE_MAGIC, SInt proto, SInt WIRE_MSG_PING, SInt 0, SBytes tid, SInt nonce])"

definition decode_request :: "byte list \<Rightarrow> (int \<times> int \<times> string \<times> int) py" where
  "decode_request buf =
     (if length buf \<noteq> WIRE_REQ_SIZE then Inl ValueError
      else (case struct_unpack WIRE_REQ_FMT buf of
          [SBytes magic, SInt proto, SInt msg, SInt reserved, SBytes tid, SInt nonce] \<Rightarrow>
            if magic \<noteq> WIRE_MAGIC then Inl ValueError
            else rbind (ascii_decode tid) (\<lambda>target. Inr (proto, msg, target, nonce))
        | _ \<Rightarrow> Inl StructError))"

definition encode_response :: "int \<Rightarrow> int \<Rightarrow> int \<Rightarrow> byte list py" where
  "encode_response proto status val =
     struct_pack WIRE_RESP_FMT [SBytes WIRE_MAGIC, SInt proto, SInt status, SInt 0, SInt val]"

definition decode_response :: "byte list \<Rightarrow> (int \<times> int \<times> int) py" where
  "decode_response buf =
     (if length buf \<noteq> WIRE_RESP_SIZE then Inl ValueError
      else (case struct_unpack WIRE_RESP_FMT buf of
          [SBytes magic, SInt proto, SInt status, SInt reserved, SInt val] \<Rightarrow>
            if magic \<noteq> WIRE_MAGIC then Inl ValueError else Inr (proto, status, val)
        | _ \<Rightarrow> Inl StructError))"

fun flatten_slots :: "(int \<times> int) list \<Rightarrow> sval list" where
  "flatten_slots [] = []"
| "flatten_slots ((tag, bits) # slots) = SInt tag # SInt bits # flatten_slots slots"

definition encode_call_op :: "int \<Rightarrow> string \<Rightarrow> int \<Rightarrow> (int \<times> int) list \<Rightarrow> byte list py" where
  "encode_call_op proto target_id op_code args = rbind (target_bytes target_id) (\<lambda>tid.
     if length args > WIRE_MAX_CALL_ARGS then Inl ValueError
     else let argc = length args;
              slots = args @ replicate (WIRE_MAX_CALL_ARGS - argc) (0, 0)
          in struct_pack WIRE_CALLOP_REQ_FMT
              ([SBytes WIRE_MAGIC, SInt proto, SInt WIRE_MSG_CALL_OP, SInt 0, SBytes tid, SInt op_code,
                SInt (int argc), SInt 0] @ flatten_slots slots))"

fun slots_of :: "sval list \<Rightarrow> (int \<times> int) list" where
  "slots_of (SInt tag # SInt bits # rest) = (tag, bits) # slots_of rest"
| "slots_of _ = []"

definition decode_call_op :: "byte list \<Rightarrow> (int \<times> int \<times> string \<times> int \<times> nat \<times> (int \<times> int) list) py" where
  "decode_call_op buf =
     (if length buf \<noteq> WIRE_CALLOP_REQ_SIZE then Inl ValueError
      else (case struct_unpack WIRE_CALLOP_REQ_FMT buf of
          SBytes magic # SInt proto # SInt msg # SInt rsv # SBytes tid # SInt op_code # SInt argc # SInt rsv2 # rest \<Rightarrow>
            if magic \<noteq> WIRE_MAGIC then Inl ValueError
            else let slots = slots_of rest; n = min (nat argc) WIRE_MAX_CALL_ARGS in
              rbind (ascii_decode tid) (\<lambda>target. Inr (proto, msg, target, op_code, n, take n slots))
        | _ \<Rightarrow> Inl StructError))"

definition encode_call_resp :: "int \<Rightarrow> int \<Rightarrow> int \<Rightarrow> int \<Rightarrow> byte list py" where
  "encode_call_resp proto status result_tag result_bits =
     struct_pack WIRE_CALLOP_RESP_FMT [SBytes WIRE_MAGIC, SInt proto, SInt status, SInt result_tag, SInt result_bits]"

definition decode_call_resp :: "byte list \<Rightarrow> (int \<times> int \<times> int \<times> int) py" where
  "decode_call_resp buf =
     (if length buf \<noteq> WIRE_CALLOP_RESP_SIZE then Inl ValueError
      else (case struct_unpack WIRE_CALLOP_RESP_FMT buf of
          [SBytes magic, SInt proto, SInt status, SInt result_tag, SInt result_bits] \<Rightarrow>
            if magic \<noteq> WIRE_MAGIC then Inl ValueError else Inr (proto, status, result_tag, result_bits)
        | _ \<Rightarrow> Inl StructError))"

subsection \<open>What a frame's codec promises\<close>

text \<open>
  \<open>enc\<close> puts a message of the frame (\<open>ok\<close>) into \<open>size\<close> bytes, and refuses any other; \<open>dec\<close> reads the
  message back as \<open>seen\<close> (with its message type), and refuses a buffer of any other size or without
  the magic. \<open>frame_contract\<close> is what the users of a codec get from that.
\<close>

definition frame_contract ::
    "('m \<Rightarrow> byte list py) \<Rightarrow> (byte list \<Rightarrow> 'r py) \<Rightarrow> ('m \<Rightarrow> 'r) \<Rightarrow> ('m \<Rightarrow> bool) \<Rightarrow> nat \<Rightarrow> bool" where
  "frame_contract enc dec seen ok sz \<longleftrightarrow>
     (\<forall>m. (\<exists>b. enc m = Inr b) = ok m)
     \<and> (\<forall>m b. enc m = Inr b \<longrightarrow> length b = sz \<and> dec b = Inr (seen m))
     \<and> (\<forall>m m' b. enc m = Inr b \<and> enc m' = Inr b \<longrightarrow> m = m')
     \<and> (\<forall>m b n. enc m = Inr b \<and> n < sz \<longrightarrow> dec (take n b) = Inl ValueError)
     \<and> (\<forall>b. length b \<noteq> sz \<or> take 4 b \<noteq> WIRE_MAGIC \<longrightarrow> dec b = Inl ValueError)"

locale frame_codec =
  fixes enc :: "'m \<Rightarrow> byte list py" and dec :: "byte list \<Rightarrow> 'r py" and seen :: "'m \<Rightarrow> 'r"
    and ok :: "'m \<Rightarrow> bool" and size :: nat
  assumes enc_dec: "ok m \<Longrightarrow> \<exists>b. enc m = Inr b \<and> length b = size \<and> dec b = Inr (seen m)"
    and enc_ok: "enc m = Inr b \<Longrightarrow> ok m"
    and dec_size: "length b \<noteq> size \<Longrightarrow> dec b = Inl ValueError"
    and dec_magic: "length b = size \<Longrightarrow> take 4 b \<noteq> WIRE_MAGIC \<Longrightarrow> dec b = Inl ValueError"
    and seen_inj: "seen m = seen m' \<Longrightarrow> m = m'"
begin

lemma roundtrip: "enc m = Inr b \<Longrightarrow> dec b = Inr (seen m) \<and> length b = size"
  using enc_dec enc_ok by (metis sum.inject(2))

lemma enc_injective: "enc m = Inr b \<Longrightarrow> enc m' = Inr b \<Longrightarrow> m = m'"
  using roundtrip seen_inj by (metis sum.inject(2))

lemma enc_iff: "(\<exists>b. enc m = Inr b) = ok m"
  using enc_dec enc_ok by blast

lemma truncated: "enc m = Inr b \<Longrightarrow> n < size \<Longrightarrow> dec (take n b) = Inl ValueError"
  using roundtrip [of m b] by (intro dec_size) simp

lemma contract: "frame_contract enc dec seen ok size"
  using enc_iff roundtrip enc_injective truncated dec_size dec_magic by (fastforce simp: frame_contract_def)

end

text \<open>The messages of the four frames.\<close>

definition u16 :: "int \<Rightarrow> bool" where "u16 v \<longleftrightarrow> 0 \<le> v \<and> v < 2 ^ 16"
definition u8 :: "int \<Rightarrow> bool" where "u8 v \<longleftrightarrow> 0 \<le> v \<and> v < 2 ^ 8"
definition i64 :: "int \<Rightarrow> bool" where "i64 v \<longleftrightarrow> - (2 ^ 63) \<le> v \<and> v < 2 ^ 63"
definition wire_id :: "string \<Rightarrow> bool" where "wire_id s \<longleftrightarrow> is_ascii s \<and> length s = WIRE_ID_LEN"

lemmas range_defs = u16_def u8_def i64_def

fun request_ok :: "int \<times> string \<times> int \<Rightarrow> bool" where
  "request_ok (proto, target, nonce) = (u16 proto \<and> wire_id target \<and> i64 nonce)"

fun response_ok :: "int \<times> int \<times> int \<Rightarrow> bool" where
  "response_ok (proto, status, val) = (u16 proto \<and> u8 status \<and> i64 val)"

fun call_op_ok :: "int \<times> string \<times> int \<times> (int \<times> int) list \<Rightarrow> bool" where
  "call_op_ok (proto, target, op_code, args) = (u16 proto \<and> wire_id target \<and> u16 op_code
     \<and> length args \<le> WIRE_MAX_CALL_ARGS \<and> list_all (\<lambda>(tag, bits). u8 tag \<and> i64 bits) args)"

fun call_resp_ok :: "int \<times> int \<times> int \<times> int \<Rightarrow> bool" where
  "call_resp_ok (proto, status, tag, bits) = (u16 proto \<and> u8 status \<and> u8 tag \<and> i64 bits)"

lemma target_ok: "wire_id s \<Longrightarrow> target_bytes s = Inr (map of_char s) \<and> ascii_decode (map of_char s) = Inr s"
  using ascii_roundtrip [of s] by (simp add: target_bytes_def wire_id_def)

lemma target_Inr: "target_bytes s = Inr b \<Longrightarrow> wire_id s \<and> b = map of_char s"
  by (auto simp: target_bytes_def wire_id_def rbind_eq_Inr ascii_encode_def is_ascii_def split: if_splits)

lemma pack_Inr: "struct_pack fs vs = Inr b \<Longrightarrow> list_all2 (\<lambda>f v. \<exists>b. pack_one f v = Inr b) fs vs"
  by (induction fs vs arbitrary: b rule: struct_pack.induct) (auto simp: rbind_eq_Inr)

lemma pack_one_Inr: "(\<exists>b. pack_one f (SInt v) = Inr b) = (case f of Fs n \<Rightarrow> False | FH \<Rightarrow> u16 v | FB \<Rightarrow> u8 v | Fq \<Rightarrow> i64 v)"
  by (cases f) (simp_all add: range_defs)

lemma struct_roundtrip:
  assumes "list_all2 fits fs vs"
  obtains b where "struct_pack fs vs = Inr b" "length b = calcsize fs" "struct_unpack fs b = vs"
  using pack_unpack [OF assms] by blast

interpretation ping_request: frame_codec
  "\<lambda>(proto, target, nonce). encode_request proto target nonce" decode_request
  "\<lambda>(proto, target, nonce). (proto, WIRE_MSG_PING, target, nonce)" request_ok WIRE_REQ_SIZE
proof unfold_locales
  fix m :: "int \<times> string \<times> int"
  obtain proto target nonce where m: "m = (proto, target, nonce)" by (cases m)
  {
    assume "request_ok m"
    then have ok: "u16 proto" "wire_id target" "i64 nonce" by (simp_all add: m)
    have "list_all2 fits WIRE_REQ_FMT [SBytes WIRE_MAGIC, SInt proto, SInt WIRE_MSG_PING, SInt 0,
        SBytes (map of_char target), SInt nonce]"
      using ok by (simp add: wire_defs range_defs wire_id_def)
    then obtain b where b: "struct_pack WIRE_REQ_FMT [SBytes WIRE_MAGIC, SInt proto, SInt WIRE_MSG_PING, SInt 0,
        SBytes (map of_char target), SInt nonce] = Inr b" "length b = WIRE_REQ_SIZE"
      "struct_unpack WIRE_REQ_FMT b = [SBytes WIRE_MAGIC, SInt proto, SInt WIRE_MSG_PING, SInt 0,
        SBytes (map of_char target), SInt nonce]"
      by (rule struct_roundtrip) (simp add: WIRE_REQ_SIZE_def)
    then show "\<exists>b. (case m of (proto, target, nonce) \<Rightarrow> encode_request proto target nonce) = Inr b
        \<and> length b = WIRE_REQ_SIZE \<and> decode_request b = Inr (case m of (proto, target, nonce) \<Rightarrow> (proto, WIRE_MSG_PING, target, nonce))"
      using target_ok [OF ok(2)] by (simp add: m encode_request_def decode_request_def)
  }
  fix b
  assume "(case m of (proto, target, nonce) \<Rightarrow> encode_request proto target nonce) = Inr b"
  then have e: "wire_id target" "struct_pack WIRE_REQ_FMT [SBytes WIRE_MAGIC, SInt proto, SInt WIRE_MSG_PING, SInt 0,
      SBytes (map of_char target), SInt nonce] = Inr b"
    using target_Inr [of target] by (auto simp: m encode_request_def rbind_eq_Inr simp del: struct_pack.simps)
  show "request_ok m"
    using pack_Inr [OF e(2)] e(1) by (simp add: m WIRE_REQ_FMT_def pack_one_Inr del: pack_one.simps)
qed (auto simp: decode_request_def WIRE_REQ_FMT_def)

interpretation ping_response: frame_codec
  "\<lambda>(proto, status, val). encode_response proto status val" decode_response "\<lambda>m. m" response_ok WIRE_RESP_SIZE
proof unfold_locales
  fix m :: "int \<times> int \<times> int"
  obtain proto status val where m: "m = (proto, status, val)" by (cases m)
  {
    assume "response_ok m"
    then have "list_all2 fits WIRE_RESP_FMT [SBytes WIRE_MAGIC, SInt proto, SInt status, SInt 0, SInt val]"
      by (simp add: m wire_defs range_defs)
    then obtain b where "struct_pack WIRE_RESP_FMT [SBytes WIRE_MAGIC, SInt proto, SInt status, SInt 0, SInt val] = Inr b"
      "length b = WIRE_RESP_SIZE"
      "struct_unpack WIRE_RESP_FMT b = [SBytes WIRE_MAGIC, SInt proto, SInt status, SInt 0, SInt val]"
      by (rule struct_roundtrip) (simp add: WIRE_RESP_SIZE_def)
    then show "\<exists>b. (case m of (proto, status, val) \<Rightarrow> encode_response proto status val) = Inr b
        \<and> length b = WIRE_RESP_SIZE \<and> decode_response b = Inr m"
      by (simp add: m encode_response_def decode_response_def)
  }
  fix b
  assume "(case m of (proto, status, val) \<Rightarrow> encode_response proto status val) = Inr b"
  then show "response_ok m" using pack_Inr [of WIRE_RESP_FMT]
    by (fastforce simp: m encode_response_def WIRE_RESP_FMT_def pack_one_Inr simp del: pack_one.simps struct_pack.simps)
qed (auto simp: decode_response_def WIRE_RESP_FMT_def)

interpretation call_response: frame_codec
  "\<lambda>(proto, status, tag, bits). encode_call_resp proto status tag bits" decode_call_resp "\<lambda>m. m" call_resp_ok WIRE_CALLOP_RESP_SIZE
proof unfold_locales
  fix m :: "int \<times> int \<times> int \<times> int"
  obtain proto status tag bits where m: "m = (proto, status, tag, bits)" by (cases m)
  {
    assume "call_resp_ok m"
    then have "list_all2 fits WIRE_CALLOP_RESP_FMT [SBytes WIRE_MAGIC, SInt proto, SInt status, SInt tag, SInt bits]"
      by (simp add: m wire_defs range_defs)
    then obtain b where "struct_pack WIRE_CALLOP_RESP_FMT [SBytes WIRE_MAGIC, SInt proto, SInt status, SInt tag, SInt bits] = Inr b"
      "length b = WIRE_CALLOP_RESP_SIZE"
      "struct_unpack WIRE_CALLOP_RESP_FMT b = [SBytes WIRE_MAGIC, SInt proto, SInt status, SInt tag, SInt bits]"
      by (rule struct_roundtrip) (simp add: WIRE_CALLOP_RESP_SIZE_def)
    then show "\<exists>b. (case m of (proto, status, tag, bits) \<Rightarrow> encode_call_resp proto status tag bits) = Inr b
        \<and> length b = WIRE_CALLOP_RESP_SIZE \<and> decode_call_resp b = Inr m"
      by (simp add: m encode_call_resp_def decode_call_resp_def)
  }
  fix b
  assume "(case m of (proto, status, tag, bits) \<Rightarrow> encode_call_resp proto status tag bits) = Inr b"
  then show "call_resp_ok m" using pack_Inr [of WIRE_CALLOP_RESP_FMT]
    by (fastforce simp: m encode_call_resp_def WIRE_CALLOP_RESP_FMT_def pack_one_Inr simp del: pack_one.simps struct_pack.simps)
qed (auto simp: decode_call_resp_def WIRE_CALLOP_RESP_FMT_def)

text \<open>The argument slots of a call, at most two.\<close>

lemma slots_flatten: "slots_of (flatten_slots xs) = xs"
  by (induction xs rule: flatten_slots.induct) simp_all

definition padded :: "(int \<times> int) list \<Rightarrow> (int \<times> int) list" where
  "padded args = args @ replicate (WIRE_MAX_CALL_ARGS - length args) (0, 0)"

lemma padded_cases:
  assumes "length args \<le> WIRE_MAX_CALL_ARGS"
  obtains a b c d where "padded args = [(a, b), (c, d)]"
    "list_all (\<lambda>(tag, bits). u8 tag \<and> i64 bits) args = (u8 a \<and> i64 b \<and> u8 c \<and> i64 d)"
proof -
  have z: "u8 0" "i64 0" by (simp_all add: range_defs)
  have "length args = 0 \<or> length args = 1 \<or> length args = 2" using assms unfolding WIRE_MAX_CALL_ARGS_def by linarith
  then consider "args = []" | x where "args = [x]" | x y where "args = [x, y]"
    by (auto simp: length_Suc_conv numeral_2_eq_2)
  then show ?thesis
  proof cases
    case 1
    then show ?thesis using z by (intro that [of 0 0 0 0]) (simp_all add: padded_def WIRE_MAX_CALL_ARGS_def numeral_2_eq_2)
  next
    case (2 x)
    then show ?thesis using z by (cases x) (auto intro!: that simp: padded_def WIRE_MAX_CALL_ARGS_def numeral_2_eq_2)
  next
    case (3 x y)
    then show ?thesis by (cases x; cases y) (auto intro!: that simp: padded_def WIRE_MAX_CALL_ARGS_def numeral_2_eq_2)
  qed
qed

definition call_fields :: "int \<Rightarrow> string \<Rightarrow> int \<Rightarrow> (int \<times> int) list \<Rightarrow> sval list" where
  "call_fields proto target op_code args = [SBytes WIRE_MAGIC, SInt proto, SInt WIRE_MSG_CALL_OP, SInt 0,
     SBytes (map of_char target), SInt op_code, SInt (int (length args)), SInt 0] @ flatten_slots (padded args)"

lemma encode_call_op_fields: "encode_call_op proto target op_code args = Inr b \<longleftrightarrow> wire_id target
    \<and> length args \<le> WIRE_MAX_CALL_ARGS \<and> struct_pack WIRE_CALLOP_REQ_FMT (call_fields proto target op_code args) = Inr b"
  using target_ok [of target] target_Inr [of target]
  by (auto simp: encode_call_op_def rbind_eq_Inr call_fields_def padded_def Let_def split: if_splits)

lemma call_fields_fit:
  assumes "length args \<le> WIRE_MAX_CALL_ARGS" "wire_id target"
  shows "list_all2 fits WIRE_CALLOP_REQ_FMT (call_fields proto target op_code args) = call_op_ok (proto, target, op_code, args)"
proof -
  obtain a b c d where p: "padded args = [(a, b), (c, d)]"
    "list_all (\<lambda>(tag, bits). u8 tag \<and> i64 bits) args = (u8 a \<and> i64 b \<and> u8 c \<and> i64 d)"
    using padded_cases [OF assms(1)] .
  show ?thesis using assms p(2)
    by (simp add: call_fields_def p(1) wire_defs numeral_2_eq_2 wire_id_def) (auto simp: range_defs)
qed

interpretation call_request: frame_codec
  "\<lambda>(proto, target, op_code, args). encode_call_op proto target op_code args" decode_call_op
  "\<lambda>(proto, target, op_code, args). (proto, WIRE_MSG_CALL_OP, target, op_code, length args, args)"
  call_op_ok WIRE_CALLOP_REQ_SIZE
proof unfold_locales
  fix m :: "int \<times> string \<times> int \<times> (int \<times> int) list"
  obtain proto target op_code args where m: "m = (proto, target, op_code, args)" by (cases m)
  {
    assume ok: "call_op_ok m"
    then have id: "wire_id target" "length args \<le> WIRE_MAX_CALL_ARGS" by (simp_all add: m)
    then obtain b where b: "struct_pack WIRE_CALLOP_REQ_FMT (call_fields proto target op_code args) = Inr b"
      "length b = WIRE_CALLOP_REQ_SIZE" "struct_unpack WIRE_CALLOP_REQ_FMT b = call_fields proto target op_code args"
      using ok m call_fields_fit [OF id(2,1)] struct_roundtrip [of WIRE_CALLOP_REQ_FMT]
      by (metis WIRE_CALLOP_REQ_SIZE_def)
    have "take (length args) (padded args) = args" by (simp add: padded_def)
    then have "decode_call_op b = Inr (proto, WIRE_MSG_CALL_OP, target, op_code, length args, args)"
      using b(2,3) id target_ok [OF id(1)] by (simp add: decode_call_op_def call_fields_def slots_flatten min_absorb1)
    then show "\<exists>b. (case m of (proto, target, op_code, args) \<Rightarrow> encode_call_op proto target op_code args) = Inr b
        \<and> length b = WIRE_CALLOP_REQ_SIZE \<and> decode_call_op b
          = Inr (case m of (proto, target, op_code, args) \<Rightarrow> (proto, WIRE_MSG_CALL_OP, target, op_code, length args, args))"
      using b id encode_call_op_fields by (auto simp: m)
  }
  fix b
  assume "(case m of (proto, target, op_code, args) \<Rightarrow> encode_call_op proto target op_code args) = Inr b"
  then have e: "wire_id target" "length args \<le> WIRE_MAX_CALL_ARGS"
      "struct_pack WIRE_CALLOP_REQ_FMT (call_fields proto target op_code args) = Inr b"
    by (simp_all add: m encode_call_op_fields)
  obtain a x c y where p: "padded args = [(a, x), (c, y)]"
    "list_all (\<lambda>(tag, bits). u8 tag \<and> i64 bits) args = (u8 a \<and> i64 x \<and> u8 c \<and> i64 y)"
    using padded_cases [OF e(2)] .
  show "call_op_ok m"
    using pack_Inr [OF e(3)] e(1,2) p
    by (simp add: m call_fields_def wire_defs numeral_2_eq_2 pack_one_Inr del: pack_one.simps)
qed (auto simp: decode_call_op_def WIRE_CALLOP_REQ_FMT_def)

text \<open>
  C20. The Python codec round-trips, frame by frame (both requests and both responses). A message is
  encoded exactly when its fields are in range: a 16-bit version and operation code, 8-bit status and
  tags, signed 64-bit values, a target of 23 ASCII characters, at most two arguments. Then the frame
  has its fixed size and decodes to the same message, and no two messages share a frame. Every
  truncation of a frame, every buffer of another size and every buffer without the magic is rejected
  with \<open>ValueError\<close>.
\<close>

theorem wire_roundtrip:
  "frame_contract (\<lambda>(p, t, n). encode_request p t n) decode_request
      (\<lambda>(p, t, n). (p, WIRE_MSG_PING, t, n)) (\<lambda>(p, t, n). u16 p \<and> wire_id t \<and> i64 n) 39
    \<and> frame_contract (\<lambda>(p, s, v). encode_response p s v) decode_response
      (\<lambda>m. m) (\<lambda>(p, s, v). u16 p \<and> u8 s \<and> i64 v) 16
    \<and> frame_contract (\<lambda>(p, t, c, xs). encode_call_op p t c xs) decode_call_op
      (\<lambda>(p, t, c, xs). (p, WIRE_MSG_CALL_OP, t, c, length xs, xs))
      (\<lambda>(p, t, c, xs). u16 p \<and> wire_id t \<and> u16 c \<and> length xs \<le> 2 \<and> list_all (\<lambda>(g, x). u8 g \<and> i64 x) xs) 53
    \<and> frame_contract (\<lambda>(p, s, g, v). encode_call_resp p s g v) decode_call_resp
      (\<lambda>m. m) (\<lambda>(p, s, g, v). u16 p \<and> u8 s \<and> u8 g \<and> i64 v) 16"
proof -
  have ok: "(\<lambda>(p, t, n). u16 p \<and> wire_id t \<and> i64 n) = request_ok"
      "(\<lambda>(p, s, v). u16 p \<and> u8 s \<and> i64 v) = response_ok"
      "(\<lambda>(p, t, c, xs). u16 p \<and> wire_id t \<and> u16 c \<and> length xs \<le> 2 \<and> list_all (\<lambda>(g, x). u8 g \<and> i64 x) xs) = call_op_ok"
      "(\<lambda>(p, s, g, v). u16 p \<and> u8 s \<and> u8 g \<and> i64 v) = call_resp_ok"
    by (auto simp: fun_eq_iff WIRE_MAX_CALL_ARGS_def)
  show ?thesis
    unfolding ok using ping_request.contract ping_response.contract call_request.contract call_response.contract
    unfolding wire_sizes by blast
qed

lemma wire_roundtrip_witness:
  "\<exists>b. encode_request 2 ''rtb-ep-0123456789abcdef'' (- 5) = Inr b
     \<and> decode_request b = Inr (2, 1, ''rtb-ep-0123456789abcdef'', - 5) \<and> length b = 39"
proof -
  have c: "frame_contract (\<lambda>(p, t, n). encode_request p t n) decode_request
      (\<lambda>(p, t, n). (p, WIRE_MSG_PING, t, n)) (\<lambda>(p, t, n). u16 p \<and> wire_id t \<and> i64 n) 39"
    using wire_roundtrip by blast
  have "u16 2 \<and> wire_id ''rtb-ep-0123456789abcdef'' \<and> i64 (- 5)"
    by (simp add: range_defs wire_id_def is_ascii_def WIRE_ID_LEN_def of_char_def)
  then obtain b where b: "encode_request 2 ''rtb-ep-0123456789abcdef'' (- 5) = Inr b"
    using c by (fastforce simp: frame_contract_def)
  then have "decode_request b = Inr (2, WIRE_MSG_PING, ''rtb-ep-0123456789abcdef'', - 5) \<and> length b = 39"
    using c by (fastforce simp: frame_contract_def)
  then show ?thesis using b by (simp add: WIRE_MSG_PING_def)
qed

end
