(* ===== verification/EndpointValidate.thy ===== *)
theory EndpointValidate
  imports EndpointWire
begin

text \<open>
  The endpoint package's pure validators (\<open>python/src/rayx/endpoint/_validate.py\<close>). A validated
  metadata dict has exactly the six keys, so it is a record here.
\<close>

definition INT64_LOW :: int where "INT64_LOW = - (2 ^ 63)"
definition INT64_HIGH :: int where "INT64_HIGH = 2 ^ 63 - 1"

definition METADATA_KEYS :: "string list" where
  "METADATA_KEYS = [''endpoint_id'', ''pid'', ''host'', ''proto_version'', ''transport_kind'', ''transport_addr'']"

definition TRANSPORT_KINDS :: "string list" where
  "TRANSPORT_KINDS = [''none'', ''unix'', ''tcp'']"

subsection \<open>Endpoint ids\<close>

definition hex_lower :: "char \<Rightarrow> bool" where
  "hex_lower c = (c \<in> set ''0123456789abcdef'')"

definition id_form :: "string \<Rightarrow> bool" where
  "id_form s = (take 7 s = ''rtb-ep-'' \<and> length s = 23 \<and> list_all hex_lower (drop 7 s))"

text \<open>\<open>match\<close> with \<open>^...$\<close>: \<open>$\<close> also matches before a newline that ends the string.\<close>

definition ENDPOINT_ID_RE :: "string \<Rightarrow> bool" where
  "ENDPOINT_ID_RE s = (id_form s \<or> (s \<noteq> [] \<and> last s = CHR 0x0A \<and> id_form (butlast s)))"

definition validate_endpoint_id :: "pyval \<Rightarrow> string py" where
  "validate_endpoint_id token = (case token of
       VStr s \<Rightarrow> if ENDPOINT_ID_RE s then Inr s else Inl ValueError
     | _ \<Rightarrow> Inl TypeError)"

subsection \<open>Metadata\<close>

record peer_meta =
  md_endpoint_id :: string
  md_pid :: int
  md_host :: string
  md_proto_version :: int
  md_transport_kind :: string
  md_transport_addr :: string

definition meta_dict :: "peer_meta \<Rightarrow> pyval" where
  "meta_dict m = VDict [(KStr ''endpoint_id'', VStr (md_endpoint_id m)), (KStr ''pid'', VInt (md_pid m)),
     (KStr ''host'', VStr (md_host m)), (KStr ''proto_version'', VInt (md_proto_version m)),
     (KStr ''transport_kind'', VStr (md_transport_kind m)), (KStr ''transport_addr'', VStr (md_transport_addr m))]"

text \<open>The message of the key error sorts the keys, which fails on keys of different types.\<close>

fun is_kstr :: "pykey \<Rightarrow> bool" where
  "is_kstr (KStr s) = True"
| "is_kstr (KInt n) = False"

definition key_error :: "pykey list \<Rightarrow> exc" where
  "key_error ks = (if list_ex is_kstr ks \<and> list_ex (\<lambda>k. \<not> is_kstr k) ks then TypeError else ValueError)"

definition meta_nonneg :: "pyval \<Rightarrow> int py" where
  "meta_nonneg v = (if is_bool v \<or> \<not> is_int v then Inl TypeError
     else if the_int v < 0 then Inl ValueError else Inr (the_int v))"

definition meta_str :: "pyval \<Rightarrow> string py" where
  "meta_str v = (case v of VStr s \<Rightarrow> Inr s | _ \<Rightarrow> Inl TypeError)"

definition dict_get :: "(pykey \<times> pyval) list \<Rightarrow> string \<Rightarrow> pyval" where
  "dict_get d k = (case map_of d (KStr k) of Some v \<Rightarrow> v | None \<Rightarrow> VNone)"

definition validate_metadata :: "pyval \<Rightarrow> peer_meta py" where
  "validate_metadata meta = (case meta of
       VDict d \<Rightarrow>
         if set (map fst d) \<noteq> set (map KStr METADATA_KEYS) then Inl (key_error (map fst d))
         else rbind (validate_endpoint_id (dict_get d ''endpoint_id'')) (\<lambda>eid.
           rbind (meta_nonneg (dict_get d ''pid'')) (\<lambda>pid.
           rbind (meta_str (dict_get d ''host'')) (\<lambda>host.
           if host = [] then Inl ValueError
           else rbind (meta_nonneg (dict_get d ''proto_version'')) (\<lambda>proto.
           rbind (meta_str (dict_get d ''transport_kind'')) (\<lambda>kind.
           if kind \<notin> set TRANSPORT_KINDS then Inl ValueError
           else rbind (meta_str (dict_get d ''transport_addr'')) (\<lambda>addr.
           if kind = ''none'' \<and> addr \<noteq> [] then Inl ValueError
           else if kind \<noteq> ''none'' \<and> addr = [] then Inl ValueError
           else Inr \<lparr>md_endpoint_id = eid, md_pid = pid, md_host = host, md_proto_version = proto,
             md_transport_kind = kind, md_transport_addr = addr\<rparr>))))))
     | _ \<Rightarrow> Inl TypeError)"

definition validate_nonce :: "pyval \<Rightarrow> int py" where
  "validate_nonce nonce = (if is_bool nonce \<or> \<not> is_int nonce then Inl TypeError
     else if the_int nonce < INT64_LOW \<or> the_int nonce > INT64_HIGH then Inl ValueError
     else Inr (the_int nonce))"

subsection \<open>What passes\<close>

definition meta_ok :: "peer_meta \<Rightarrow> bool" where
  "meta_ok m = (ENDPOINT_ID_RE (md_endpoint_id m) \<and> 0 \<le> md_pid m \<and> md_host m \<noteq> [] \<and> 0 \<le> md_proto_version m
     \<and> md_transport_kind m \<in> set TRANSPORT_KINDS \<and> (md_transport_kind m = ''none'' \<longleftrightarrow> md_transport_addr m = []))"

lemma hex_ascii: "hex_lower c \<Longrightarrow> of_char c < (128 :: nat)"
  by (auto simp: hex_lower_def)

lemma prefix_ascii: "list_all (\<lambda>c. of_char c < (128 :: nat)) ''rtb-ep-''"
  by (simp add: of_char_def)

lemma id_form_wire:
  assumes s: "id_form s"
  shows "wire_id s"
proof -
  have "list_all (\<lambda>c. of_char c < (128 :: nat)) (take 7 s)" using s prefix_ascii by (simp only: id_form_def)
  moreover have "list_all (\<lambda>c. of_char c < (128 :: nat)) (drop 7 s)"
    using s hex_ascii by (simp only: id_form_def list_all_iff) blast
  ultimately have "list_all (\<lambda>c. of_char c < (128 :: nat)) (take 7 s @ drop 7 s)" by (simp only: list_all_append)
  then have "is_ascii s" by (simp only: append_take_drop_id is_ascii_def list_all_iff)
  then show ?thesis using s by (simp only: wire_id_def id_form_def WIRE_ID_LEN_def)
qed


lemma validate_meta_dict: "validate_metadata (meta_dict m) = Inr m \<longleftrightarrow> meta_ok m"
  by (auto simp: validate_metadata_def meta_dict_def METADATA_KEYS_def dict_get_def validate_endpoint_id_def
      meta_nonneg_def meta_str_def meta_ok_def TRANSPORT_KINDS_def)

text \<open>
  The metadata that crosses the bootstrap: what passes validation is exactly six well-formed fields
  (a transport address exactly when there is a transport), and validating the dict an endpoint hands
  out returns it unchanged exactly when its fields are well formed.
\<close>

theorem metadata_validated:
  "(validate_metadata v = Inr m \<longrightarrow> meta_ok m \<and> validate_metadata (meta_dict m) = Inr m)
    \<and> (validate_metadata (meta_dict m) = Inr m \<longleftrightarrow> meta_ok m)"
proof -
  have "meta_ok m" if v: "validate_metadata v = Inr m"
  proof (cases v)
    case (VDict d)
    then show ?thesis using v
      by (auto simp: validate_metadata_def rbind_eq_Inr validate_endpoint_id_def meta_nonneg_def meta_str_def meta_ok_def
          split: if_splits pyval.splits)
  qed (use v in \<open>simp_all add: validate_metadata_def\<close>)
  then show ?thesis using validate_meta_dict [of m] by blast
qed

definition demo_meta :: peer_meta where
  "demo_meta = \<lparr>md_endpoint_id = ''rtb-ep-0123456789abcdef'', md_pid = 41, md_host = ''n1'', md_proto_version = 2,
     md_transport_kind = ''unix'', md_transport_addr = ''/tmp/ep.sock''\<rparr>"

lemma demo_meta_ok: "meta_ok demo_meta"
  by (simp add: meta_ok_def demo_meta_def ENDPOINT_ID_RE_def id_form_def hex_lower_def TRANSPORT_KINDS_def)

lemma metadata_validated_witness: "validate_metadata (meta_dict demo_meta) = Inr demo_meta"
  using metadata_validated [of VNone demo_meta] demo_meta_ok by blast

text \<open>
  A validated endpoint id can be sent: it has the minted form and encodes into a request frame.
  The one exception is an id followed by a newline, which the pattern accepts and the encoder refuses.
\<close>

theorem validated_id_sendable:
  assumes "validate_endpoint_id v = Inr s"
  shows "(id_form s \<and> target_bytes s = Inr (map of_char s))
    \<or> (\<exists>t. s = t @ [CHR 0x0A] \<and> id_form t \<and> target_bytes s = Inl ValueError)"
proof -
  have re: "ENDPOINT_ID_RE s" using assms by (auto simp: validate_endpoint_id_def split: pyval.splits if_splits)
  show ?thesis
  proof (cases "id_form s")
    case True
    then show ?thesis using target_ok [OF id_form_wire [OF True]] by blast
  next
    case False
    then have t: "s = butlast s @ [CHR 0x0A]" "id_form (butlast s)"
      using re append_butlast_last_id [of s] by (auto simp: ENDPOINT_ID_RE_def)
    have len: "length s = 24" using t(2) by (subst t(1)) (simp add: id_form_def)
    have "is_ascii (butlast s)" using id_form_wire [OF t(2)] by (simp add: wire_id_def)
    then have "is_ascii s" by (subst t(1)) (simp add: is_ascii_def of_char_def)
    then have "target_bytes s = Inl ValueError"
      using len ascii_roundtrip [of s] by (simp add: target_bytes_def WIRE_ID_LEN_def ascii_encode_def)
    then show ?thesis using t by blast
  qed
qed

lemma validated_id_sendable_witness:
  "\<exists>s. validate_endpoint_id (VStr (''rtb-ep-0123456789abcdef'' @ [CHR 0x0A])) = Inr s \<and> target_bytes s = Inl ValueError"
proof -
  let ?s = "''rtb-ep-0123456789abcdef'' @ [CHR 0x0A]"
  have v: "validate_endpoint_id (VStr ?s) = Inr ?s"
    by (simp add: validate_endpoint_id_def ENDPOINT_ID_RE_def id_form_def hex_lower_def)
  have "\<not> id_form ?s" by (simp add: id_form_def)
  then show ?thesis using validated_id_sendable [OF v] v by blast
qed

end
