(* ===== verification/EndpointCodec.thy ===== *)
theory EndpointCodec
  imports EndpointWire
begin

unbundle bit_operations_syntax

text \<open>
  The native mirror of the wire codec and of the endpoint-id hash (\<open>endpoint_seam.hpp\<close>), over 64-bit
  words, and its agreement with the Python side.
\<close>

subsection \<open>Integers on the wire\<close>

definition wire_put_u16 :: "16 word \<Rightarrow> byte list" where
  "wire_put_u16 v = [ucast (drop_bit 8 v), ucast v]"

definition wire_get_u16 :: "byte list \<Rightarrow> 16 word" where
  "wire_get_u16 p = push_bit 8 (ucast (p ! 0)) OR ucast (p ! 1)"

definition wire_put_i64 :: "64 word \<Rightarrow> byte list" where
  "wire_put_i64 v = map (\<lambda>i. ucast (drop_bit (8 * (7 - i)) v)) [0..<8]"

definition wire_get_i64 :: "byte list \<Rightarrow> 64 word" where
  "wire_get_i64 p = foldl (\<lambda>u b. push_bit 8 u OR ucast b) 0 p"

subsection \<open>Frames\<close>

definition wire_id_field :: "byte list \<Rightarrow> byte list" where
  "wire_id_field target = take WIRE_ID_LEN (target @ replicate WIRE_ID_LEN 0)"

definition wire_encode_request :: "int \<Rightarrow> byte list \<Rightarrow> 64 word \<Rightarrow> byte list" where
  "wire_encode_request proto target nonce =
     WIRE_MAGIC @ wire_put_u16 (word_of_int proto) @ [word_of_int WIRE_MSG_PING, 0] @ wire_id_field target @ wire_put_i64 nonce"

definition magic_ok :: "byte list \<Rightarrow> bool" where
  "magic_ok b = (take 4 b = WIRE_MAGIC)"

definition wire_decode_request :: "byte list \<Rightarrow> (int \<times> int \<times> byte list \<times> 64 word) option" where
  "wire_decode_request b = (if \<not> magic_ok b then None
     else Some (uint (wire_get_u16 (take 2 (drop 4 b))), uint (b ! 6), take WIRE_ID_LEN (drop 8 b),
       wire_get_i64 (take 8 (drop (8 + WIRE_ID_LEN) b))))"

definition wire_encode_response :: "int \<Rightarrow> int \<Rightarrow> 64 word \<Rightarrow> byte list" where
  "wire_encode_response proto status val =
     WIRE_MAGIC @ wire_put_u16 (word_of_int proto) @ [word_of_int status, 0] @ wire_put_i64 val"

definition wire_decode_response :: "byte list \<Rightarrow> (int \<times> int \<times> 64 word) option" where
  "wire_decode_response b = (if \<not> magic_ok b then None
     else Some (uint (wire_get_u16 (take 2 (drop 4 b))), uint (b ! 6), wire_get_i64 (take 8 (drop 8 b))))"

definition wire_decode_prefix :: "byte list \<Rightarrow> (int \<times> int) option" where
  "wire_decode_prefix b = (if \<not> magic_ok b then None
     else Some (uint (wire_get_u16 (take 2 (drop 4 b))), uint (b ! 6)))"

definition wire_slot :: "int \<times> 64 word \<Rightarrow> byte list" where
  "wire_slot a = word_of_int (fst a) # wire_put_i64 (snd a)"

definition wire_encode_call_op :: "int \<Rightarrow> byte list \<Rightarrow> int \<Rightarrow> (int \<times> 64 word) list \<Rightarrow> byte list" where
  "wire_encode_call_op proto target op_code args =
     (let args = take WIRE_MAX_CALL_ARGS args in
      WIRE_MAGIC @ wire_put_u16 (word_of_int proto) @ [word_of_int WIRE_MSG_CALL_OP, 0] @ wire_id_field target
        @ wire_put_u16 (word_of_int op_code) @ [of_nat (length args), 0]
        @ concat (map wire_slot args) @ replicate (9 * (WIRE_MAX_CALL_ARGS - length args)) 0)"

definition wire_read_slot :: "byte list \<Rightarrow> nat \<Rightarrow> int \<times> 64 word" where
  "wire_read_slot b i = (uint (b ! (35 + i * 9)), wire_get_i64 (take 8 (drop (36 + i * 9) b)))"

definition wire_decode_call_op :: "byte list \<Rightarrow> (int \<times> int \<times> byte list \<times> int \<times> nat \<times> (int \<times> 64 word) list) option" where
  "wire_decode_call_op b = (if \<not> magic_ok b then None
     else Some (uint (wire_get_u16 (take 2 (drop 4 b))), uint (b ! 6), take WIRE_ID_LEN (drop 8 b),
       uint (wire_get_u16 (take 2 (drop 31 b))), min (unat (b ! 33)) WIRE_MAX_CALL_ARGS,
       map (wire_read_slot b) [0..<WIRE_MAX_CALL_ARGS]))"

definition wire_encode_call_resp :: "int \<Rightarrow> int \<Rightarrow> int \<Rightarrow> 64 word \<Rightarrow> byte list" where
  "wire_encode_call_resp proto status tag bits =
     WIRE_MAGIC @ wire_put_u16 (word_of_int proto) @ [word_of_int status, word_of_int tag] @ wire_put_i64 bits"

definition wire_decode_call_resp :: "byte list \<Rightarrow> (int \<times> int \<times> int \<times> 64 word) option" where
  "wire_decode_call_resp b = (if \<not> magic_ok b then None
     else Some (uint (wire_get_u16 (take 2 (drop 4 b))), uint (b ! 6), uint (b ! 7), wire_get_i64 (take 8 (drop 8 b))))"

subsection \<open>Bytes of words\<close>

lemma byte_of_drop: "(ucast (drop_bit k (v :: 'a :: len word)) :: byte) = word_of_int (uint v div 2 ^ k)"
proof -
  have "uint (drop_bit k v) = uint v div 2 ^ k"
    unfolding unsigned_drop_bit_eq by (simp add: drop_bit_eq_div take_bit_int_eq_self [OF uint_ge_0 uint_lt2p])
  then show ?thesis by (simp only: ucast_eq)
qed

lemma put_be_map: "put_be n v = map (\<lambda>i. word_of_int (v div 256 ^ (n - 1 - i))) [0..<n]"
proof (induction n arbitrary: v)
  case (Suc n)
  have "map (\<lambda>i. word_of_int (v div 256 div 256 ^ (n - 1 - i))) [0..<n]
      = (map (\<lambda>i. word_of_int (v div 256 ^ (n - i))) [0..<n] :: byte list)"
  proof (rule map_cong [OF refl])
    fix i assume "i \<in> set [0..<n]"
    then have "n - i = Suc (n - 1 - i)" by auto
    then show "(word_of_int (v div 256 div 256 ^ (n - 1 - i)) :: byte) = word_of_int (v div 256 ^ (n - i))"
      by (simp add: zdiv_zmult2_eq)
  qed
  then show ?case using Suc [of "v div 256"] by simp
qed simp

lemma put_i64_be: "wire_put_i64 v = put_be 8 (uint v)"
proof -
  have "(2 :: int) ^ (8 * (7 - i)) = 256 ^ (7 - i)" for i by (simp add: power_mult)
  then show ?thesis unfolding put_be_map wire_put_i64_def by (simp add: byte_of_drop)
qed

lemma put_u16_be: "wire_put_u16 v = put_be 2 (uint v)"
  using byte_of_drop [of 8 v] byte_of_drop [of 0 v] by (simp add: wire_put_u16_def numeral_2_eq_2)

lemma or_byte: "push_bit 8 u OR ucast (b :: byte) = u * 256 + (ucast b :: 'a :: len word)"
proof -
  have "push_bit 8 u AND (ucast b :: 'a word) = 0"
    by (rule bit_eqI) (auto simp: bit_simps dest: bit_imp_le_length)
  then have "push_bit 8 u OR ucast b = push_bit 8 u + (ucast b :: 'a word)"
    by (simp add: disjunctive_add_eq_or)
  then show ?thesis by (simp add: push_bit_eq_mult mult.commute)
qed

lemma get_i64_be: "wire_get_i64 p = word_of_int (get_be p)"
proof (induction p rule: rev_induct)
  case (snoc b p)
  have "(ucast b :: 64 word) = word_of_int (uint b)" by simp
  then show ?case using snoc by (simp add: wire_get_i64_def or_byte)
qed (simp add: wire_get_i64_def)

lemma get_u16_be: "length p = 2 \<Longrightarrow> uint (wire_get_u16 p) = get_be p"
proof -
  assume "length p = 2"
  then obtain a b where p: "p = [a, b]" by (auto simp: length_Suc_conv numeral_2_eq_2)
  have "wire_get_u16 p = word_of_int (uint a * 256 + uint b)" by (simp add: p wire_get_u16_def or_byte)
  moreover have "get_be p = uint a * 256 + uint b" using get_be_snoc [of "[a]" b] by (simp add: p)
  moreover have "0 \<le> get_be p \<and> get_be p < 2 ^ 16" using get_be_range [of p] by (simp add: p)
  ultimately show ?thesis by (simp only: unsigned_of_int take_bit_eq_mod) simp
qed

subsection \<open>The two codecs agree\<close>

lemma u16_bytes: "u16 p \<Longrightarrow> wire_put_u16 (word_of_int p) = put_be 2 p"
  using put_be_mod [of 2 p] by (simp add: put_u16_be unsigned_of_int take_bit_eq_mod u16_def del: put_be.simps)

lemma i64_bytes: "wire_put_i64 (word_of_int v) = put_be 8 v"
  using put_be_mod [of 8 v] by (simp add: put_i64_be unsigned_of_int take_bit_eq_mod del: put_be.simps)

lemma u8_byte: "put_be 1 v = [word_of_int v]"
  by simp

lemma signed64_word: "0 \<le> u \<Longrightarrow> u < 2 ^ 64 \<Longrightarrow> (word_of_int (signed64 u) :: 64 word) = word_of_int u"
  by (simp add: signed64_def)

text \<open>What the Python encoders produce, spelled out.\<close>

lemma pack_request:
  assumes "u16 p" "i64 n" "length t = 23" "u8 m"
  shows "struct_pack WIRE_REQ_FMT [SBytes WIRE_MAGIC, SInt p, SInt m, SInt 0, SBytes t, SInt n]
    = Inr (WIRE_MAGIC @ put_be 2 p @ [word_of_int m, 0] @ t @ put_be 8 n)"
  using assms u8_byte by (simp add: WIRE_REQ_FMT_def range_defs del: put_be.simps)

lemma pack_short:
  assumes "u16 p" "i64 n" "u8 m" "u8 r"
  shows "struct_pack WIRE_RESP_FMT [SBytes WIRE_MAGIC, SInt p, SInt m, SInt r, SInt n]
    = Inr (WIRE_MAGIC @ put_be 2 p @ [word_of_int m, word_of_int r] @ put_be 8 n)"
  using assms u8_byte by (simp add: WIRE_RESP_FMT_def range_defs del: put_be.simps)

lemma pack_call:
  assumes "u16 p" "u16 c" "length t = 23" "u8 m" "u8 k" "u8 a" "u8 d" "i64 x" "i64 y"
  shows "struct_pack WIRE_CALLOP_REQ_FMT ([SBytes WIRE_MAGIC, SInt p, SInt m, SInt 0, SBytes t, SInt c, SInt k, SInt 0]
      @ [SInt a, SInt x, SInt d, SInt y])
    = Inr (WIRE_MAGIC @ put_be 2 p @ [word_of_int m, 0] @ t @ put_be 2 c @ [word_of_int k, 0]
        @ (word_of_int a # put_be 8 x) @ (word_of_int d # put_be 8 y))"
  using assms u8_byte by (simp add: WIRE_CALLOP_REQ_FMT_def WIRE_MAX_CALL_ARGS_def numeral_2_eq_2 range_defs del: put_be.simps)

text \<open>The encoders: the fields the Python encoder accepts give the same bytes natively.\<close>

lemma encoders_agree:
  "(encode_request p t n = Inr b \<longrightarrow> wire_encode_request p (map of_char t) (word_of_int n) = b)
    \<and> (encode_response p s n = Inr b \<longrightarrow> wire_encode_response p s (word_of_int n) = b)
    \<and> (encode_call_op p t c xs = Inr b \<longrightarrow>
         wire_encode_call_op p (map of_char t) c (map (\<lambda>(tag, bits). (tag, word_of_int bits)) xs) = b)
    \<and> (encode_call_resp p s g n = Inr b \<longrightarrow> wire_encode_call_resp p s g (word_of_int n) = b)"
proof (intro conjI impI)
  assume e: "encode_request p t n = Inr b"
  then have ok: "u16 p" "wire_id t" "i64 n" using ping_request.enc_ok [of "(p, t, n)" b] by simp_all
  have len: "length (map of_char t :: byte list) = 23" "u8 WIRE_MSG_PING"
    using ok(2) by (simp_all add: wire_id_def WIRE_ID_LEN_def u8_def WIRE_MSG_PING_def)
  show "wire_encode_request p (map of_char t) (word_of_int n) = b"
    using e target_ok [OF ok(2)] pack_request [OF ok(1,3) len] len(1)
    by (simp add: encode_request_def wire_encode_request_def wire_id_field_def WIRE_ID_LEN_def u16_bytes [OF ok(1)] i64_bytes
        del: put_be.simps struct_pack.simps)
next
  assume e: "encode_response p s n = Inr b"
  then have ok: "u16 p" "u8 s" "i64 n" using ping_response.enc_ok [of "(p, s, n)" b] by simp_all
  have z: "u8 0" by (simp add: u8_def)
  show "wire_encode_response p s (word_of_int n) = b"
    using e pack_short [OF ok(1,3,2) z]
    by (simp add: encode_response_def wire_encode_response_def u16_bytes [OF ok(1)] i64_bytes del: put_be.simps struct_pack.simps)
next
  assume e: "encode_call_resp p s g n = Inr b"
  then have ok: "u16 p" "u8 s" "u8 g" "i64 n" using call_response.enc_ok [of "(p, s, g, n)" b] by simp_all
  show "wire_encode_call_resp p s g (word_of_int n) = b"
    using e pack_short [OF ok(1,4,2,3)]
    by (simp add: encode_call_resp_def wire_encode_call_resp_def WIRE_CALLOP_RESP_FMT_def WIRE_RESP_FMT_def
        u16_bytes [OF ok(1)] i64_bytes del: put_be.simps struct_pack.simps)
next
  assume e: "encode_call_op p t c xs = Inr b"
  then have ok: "u16 p" "wire_id t" "u16 c" "length xs \<le> WIRE_MAX_CALL_ARGS"
      "list_all (\<lambda>(tag, bits). u8 tag \<and> i64 bits) xs" using call_request.enc_ok [of "(p, t, c, xs)" b] by simp_all
  obtain a x d y where pd: "padded xs = [(a, x), (d, y)]"
    "list_all (\<lambda>(tag, bits). u8 tag \<and> i64 bits) xs = (u8 a \<and> i64 x \<and> u8 d \<and> i64 y)"
    using padded_cases [OF ok(4)] .
  have len: "length (map of_char t :: byte list) = 23" "u8 WIRE_MSG_CALL_OP" "u8 (int (length xs))"
    using ok(2,4) by (simp_all add: wire_id_def WIRE_ID_LEN_def u8_def WIRE_MSG_CALL_OP_def WIRE_MAX_CALL_ARGS_def)
  have r: "u8 a" "u8 d" "i64 x" "i64 y" using pd(2) ok(5) by simp_all
  have b: "b = WIRE_MAGIC @ put_be 2 p @ [word_of_int WIRE_MSG_CALL_OP, 0] @ map of_char t @ put_be 2 c
      @ [word_of_int (int (length xs)), 0] @ (word_of_int a # put_be 8 x) @ (word_of_int d # put_be 8 y)"
    using e pack_call [OF ok(1,3) len r] unfolding encode_call_op_fields call_fields_def pd(1) by simp
  have slots: "concat (map wire_slot (map (\<lambda>(tag, bits). (tag, word_of_int bits)) xs))
      @ replicate (9 * (WIRE_MAX_CALL_ARGS - length xs)) 0 = (word_of_int a # put_be 8 x) @ (word_of_int d # put_be 8 y)"
  proof -
    have zero: "put_be 8 0 = replicate 8 0" by (simp add: numeral_eq_Suc)
    consider "xs = []" | "xs = [(a, x)]" | "xs = [(a, x), (d, y)]"
    proof -
      have "length xs = 0 \<or> length xs = 1 \<or> length xs = 2" using ok(4) unfolding WIRE_MAX_CALL_ARGS_def by linarith
      then show thesis using pd(1) that
        by (auto simp: length_Suc_conv numeral_2_eq_2 padded_def WIRE_MAX_CALL_ARGS_def)
    qed
    then show ?thesis
      using pd(1) zero by cases
        (auto simp: padded_def WIRE_MAX_CALL_ARGS_def numeral_2_eq_2 wire_slot_def i64_bytes numeral_eq_Suc simp del: put_be.simps)
  qed
  show "wire_encode_call_op p (map of_char t) c (map (\<lambda>(tag, bits). (tag, word_of_int bits)) xs) = b"
    using slots ok(4) len(1) unfolding b wire_encode_call_op_def Let_def u16_bytes [OF ok(1)] u16_bytes [OF ok(3)]
    by (simp add: wire_id_field_def WIRE_ID_LEN_def del: put_be.simps)
qed

text \<open>The decoders: one field each, then frame by frame.\<close>

lemma signed64_sint:
  assumes "0 \<le> k" and "k < 2 ^ 64"
  shows "signed64 k = sint (word_of_int k :: 64 word)"
proof (cases "k < 2 ^ 63")
  case True
  then have "signed_take_bit 63 k = k" using assms by (intro signed_take_bit_int_eq_self) simp_all
  then show ?thesis using True by (simp add: signed64_def signed_of_int)
next
  case False
  have "signed_take_bit 63 k = signed_take_bit 63 (k - 2 ^ 64)"
    by (simp add: signed_take_bit_eq_iff_take_bit_eq take_bit_eq_mod)
  also have "\<dots> = k - 2 ^ 64" using False assms by (intro signed_take_bit_int_eq_self) simp_all
  finally show ?thesis using False by (simp add: signed64_def signed_of_int)
qed

lemma get_i64_signed: "length p = 8 \<Longrightarrow> signed64 (get_be p) = sint (wire_get_i64 p)"
  using get_be_range [of p] signed64_sint [of "get_be p"] by (simp add: get_i64_be)

lemma get_u8: "n < length b \<Longrightarrow> get_be (take (Suc 0) (drop n b)) = uint (b ! n)"
  by (simp add: take_Suc_conv_app_nth hd_drop_conv_nth flip: Cons_nth_drop_Suc)

lemmas field_reads = get_u8 get_u16_be [symmetric] get_i64_signed magic_ok_def

lemma decode_request_native:
  assumes "length b = WIRE_REQ_SIZE"
  shows "decode_request b = (case wire_decode_request b of None \<Rightarrow> Inl ValueError
     | Some (p, m, tid, n) \<Rightarrow> rbind (ascii_decode tid) (\<lambda>t. Inr (p, m, t, sint n)))"
  using assms
  by (simp add: decode_request_def wire_decode_request_def WIRE_REQ_FMT_def wire_sizes field_reads WIRE_ID_LEN_def)

lemma decode_response_native:
  assumes "length b = WIRE_RESP_SIZE"
  shows "decode_response b = (case wire_decode_response b of None \<Rightarrow> Inl ValueError
     | Some (p, s, v) \<Rightarrow> Inr (p, s, sint v))"
  using assms
  by (simp add: decode_response_def wire_decode_response_def WIRE_RESP_FMT_def wire_sizes field_reads)

lemma decode_call_resp_native:
  assumes "length b = WIRE_CALLOP_RESP_SIZE"
  shows "decode_call_resp b = (case wire_decode_call_resp b of None \<Rightarrow> Inl ValueError
     | Some (p, s, g, v) \<Rightarrow> Inr (p, s, g, sint v))"
  using assms
  by (simp add: decode_call_resp_def wire_decode_call_resp_def WIRE_CALLOP_RESP_FMT_def wire_sizes field_reads)

lemma decode_call_op_native:
  assumes "length b = WIRE_CALLOP_REQ_SIZE"
  shows "decode_call_op b = (case wire_decode_call_op b of None \<Rightarrow> Inl ValueError
     | Some (p, m, tid, c, k, xs) \<Rightarrow>
         rbind (ascii_decode tid) (\<lambda>t. Inr (p, m, t, c, k, map (\<lambda>(g, x). (g, sint x)) (take k xs))))"
proof -
  have two: "[0..<WIRE_MAX_CALL_ARGS] = [0, 1]" by (simp add: WIRE_MAX_CALL_ARGS_def numeral_2_eq_2)
  have fmt: "WIRE_CALLOP_REQ_FMT = [Fs 4, FH, FB, FB, Fs 23, FH, FB, FB, FB, Fq, FB, Fq]"
    by (simp add: WIRE_CALLOP_REQ_FMT_def WIRE_MAX_CALL_ARGS_def numeral_2_eq_2)
  show ?thesis
    using assms
    by (simp add: decode_call_op_def wire_decode_call_op_def fmt two wire_sizes field_reads WIRE_ID_LEN_def
        wire_read_slot_def Let_def flip: take_map)
qed

lemma decode_prefix_native:
  "wire_decode_prefix (take 7 b) = (if length b < 7 then wire_decode_prefix b else map_option (\<lambda>(p, m, tid, n). (p, m)) (wire_decode_request b))"
  "7 \<le> length b \<Longrightarrow> wire_decode_prefix (take 7 b) = map_option (\<lambda>(p, m, tid, c, k, xs). (p, m)) (wire_decode_call_op b)"
  by (auto simp: wire_decode_prefix_def wire_decode_request_def wire_decode_call_op_def magic_ok_def take_drop min_def)

text \<open>
  C21. The native and the Python codec write and read the same bytes. Whatever the Python encoders
  accept, the native encoders turn into the same bytes. On every buffer of a frame's size the native
  decoder refuses exactly the buffers without the magic, which Python refuses with \<open>ValueError\<close>, and
  otherwise both read the same fields, the native 64-bit words as the signed integers of Python. The
  one difference in what is accepted is stated: where the target id is not ASCII, Python raises its
  decode error and the native side carries the bytes on. The listener, which reads a 7-byte prefix
  first, sees the version and type the full frame has.
\<close>

theorem codecs_agree:
  "(encode_request p t n = Inr b \<longrightarrow> wire_encode_request p (map of_char t) (word_of_int n) = b)
    \<and> (encode_response p s n = Inr b \<longrightarrow> wire_encode_response p s (word_of_int n) = b)
    \<and> (encode_call_op p t c xs = Inr b \<longrightarrow>
         wire_encode_call_op p (map of_char t) c (map (\<lambda>(tag, bits). (tag, word_of_int bits)) xs) = b)
    \<and> (encode_call_resp p s g n = Inr b \<longrightarrow> wire_encode_call_resp p s g (word_of_int n) = b)
    \<and> (length d = WIRE_REQ_SIZE \<longrightarrow>
         (wire_decode_request d = None) = (take 4 d \<noteq> WIRE_MAGIC)
         \<and> decode_request d = (case wire_decode_request d of None \<Rightarrow> Inl ValueError
             | Some (p, m, tid, n) \<Rightarrow> rbind (ascii_decode tid) (\<lambda>t. Inr (p, m, t, sint n)))
         \<and> wire_decode_prefix (take 7 d) = map_option (\<lambda>(p, m, tid, n). (p, m)) (wire_decode_request d))
    \<and> (length d = WIRE_RESP_SIZE \<longrightarrow>
         (wire_decode_response d = None) = (take 4 d \<noteq> WIRE_MAGIC)
         \<and> decode_response d = (case wire_decode_response d of None \<Rightarrow> Inl ValueError
             | Some (p, s, v) \<Rightarrow> Inr (p, s, sint v)))
    \<and> (length d = WIRE_CALLOP_REQ_SIZE \<longrightarrow>
         (wire_decode_call_op d = None) = (take 4 d \<noteq> WIRE_MAGIC)
         \<and> decode_call_op d = (case wire_decode_call_op d of None \<Rightarrow> Inl ValueError
             | Some (p, m, tid, c, k, ys) \<Rightarrow>
                 rbind (ascii_decode tid) (\<lambda>t. Inr (p, m, t, c, k, map (\<lambda>(g, x). (g, sint x)) (take k ys))))
         \<and> wire_decode_prefix (take 7 d) = map_option (\<lambda>(p, m, tid, c, k, ys). (p, m)) (wire_decode_call_op d))
    \<and> (length d = WIRE_CALLOP_RESP_SIZE \<longrightarrow>
         (wire_decode_call_resp d = None) = (take 4 d \<noteq> WIRE_MAGIC)
         \<and> decode_call_resp d = (case wire_decode_call_resp d of None \<Rightarrow> Inl ValueError
             | Some (p, s, g, v) \<Rightarrow> Inr (p, s, g, sint v)))"
proof -
  have none: "(wire_decode_request d = None) = (take 4 d \<noteq> WIRE_MAGIC)"
      "(wire_decode_response d = None) = (take 4 d \<noteq> WIRE_MAGIC)"
      "(wire_decode_call_op d = None) = (take 4 d \<noteq> WIRE_MAGIC)"
      "(wire_decode_call_resp d = None) = (take 4 d \<noteq> WIRE_MAGIC)"
    by (simp_all add: wire_decode_request_def wire_decode_response_def wire_decode_call_op_def
        wire_decode_call_resp_def magic_ok_def)
  show ?thesis
    using encoders_agree [of p t n b s c xs g] none decode_request_native [of d] decode_response_native [of d]
      decode_call_op_native [of d] decode_call_resp_native [of d] decode_prefix_native [of d]
    by (simp add: wire_sizes)
qed

lemma codecs_agree_witness:
  "\<exists>b. encode_request 2 ''rtb-ep-0123456789abcdef'' (- 5) = Inr b
     \<and> wire_encode_request 2 (map of_char ''rtb-ep-0123456789abcdef'') (- 5) = b
     \<and> (\<exists>p m tid n. wire_decode_request b = Some (p, m, tid, n)
          \<and> rbind (ascii_decode tid) (\<lambda>t. Inr (p, m, t, sint n)) = Inr (2, WIRE_MSG_PING, ''rtb-ep-0123456789abcdef'', - 5))"
proof -
  have "request_ok (2, ''rtb-ep-0123456789abcdef'', - 5)"
    by (simp add: range_defs wire_id_def is_ascii_def WIRE_ID_LEN_def of_char_def)
  then obtain b where b: "encode_request 2 ''rtb-ep-0123456789abcdef'' (- 5) = Inr b"
    using ping_request.enc_iff [of "(2, ''rtb-ep-0123456789abcdef'', - 5)"] by auto
  then have d: "decode_request b = Inr (2, WIRE_MSG_PING, ''rtb-ep-0123456789abcdef'', - 5)" "length b = WIRE_REQ_SIZE"
    using ping_request.roundtrip [of "(2, ''rtb-ep-0123456789abcdef'', - 5)" b] by simp_all
  from codecs_agree [of 2 "''rtb-ep-0123456789abcdef''" "- 5" b _ _ _ _ b] show ?thesis
    using b d by (cases "wire_decode_request b") auto
qed

subsection \<open>Native round trips\<close>

lemma get_put_i64: "wire_get_i64 (wire_put_i64 v) = v"
  using uint_lt2p [of v] by (simp add: get_i64_be put_i64_be get_put_be del: put_be.simps)

lemma get_put_u16: "uint (wire_get_u16 (wire_put_u16 v)) = uint v"
  using uint_lt2p [of v] by (simp add: get_u16_be put_u16_be get_put_be del: put_be.simps)

lemma put_lengths [simp]: "length (wire_put_u16 v) = 2" "length (wire_put_i64 n) = 8"
  by (simp_all add: put_u16_be put_i64_be del: put_be.simps)

lemma id_field: "length t = WIRE_ID_LEN \<Longrightarrow> wire_id_field t = t"
  by (simp add: wire_id_field_def)

lemma native_sizes:
  "length t = WIRE_ID_LEN \<Longrightarrow> length (wire_encode_request p t n) = WIRE_REQ_SIZE"
  "length (wire_encode_response p s n) = WIRE_RESP_SIZE"
  "length (wire_encode_call_resp p s g n) = WIRE_CALLOP_RESP_SIZE"
  by (simp_all add: wire_encode_request_def wire_encode_response_def wire_encode_call_resp_def id_field wire_sizes WIRE_ID_LEN_def)

lemma native_request:
  assumes "length t = WIRE_ID_LEN"
  shows "wire_decode_request (wire_encode_request p t n) = Some (p mod 2 ^ 16, WIRE_MSG_PING, t, n)"
    and "wire_decode_prefix (wire_encode_request p t n) = Some (p mod 2 ^ 16, WIRE_MSG_PING)"
proof -
  let ?b = "wire_encode_request p t n"
  have parts: "take 4 ?b = WIRE_MAGIC" "take 2 (drop 4 ?b) = wire_put_u16 (word_of_int p)" "?b ! 6 = word_of_int WIRE_MSG_PING"
      "take WIRE_ID_LEN (drop 8 ?b) = t" "take 8 (drop (8 + WIRE_ID_LEN) ?b) = wire_put_i64 n"
    using assms by (simp_all add: wire_encode_request_def id_field WIRE_ID_LEN_def nth_append)
  have p: "uint (wire_get_u16 (wire_put_u16 (word_of_int p))) = p mod 2 ^ 16"
    by (simp only: get_put_u16) (simp add: unsigned_of_int take_bit_eq_mod)
  show "wire_decode_request ?b = Some (p mod 2 ^ 16, WIRE_MSG_PING, t, n)"
    by (simp only: wire_decode_request_def magic_ok_def parts p get_put_i64) (simp add: WIRE_MSG_PING_def)
  show "wire_decode_prefix ?b = Some (p mod 2 ^ 16, WIRE_MSG_PING)"
    by (simp only: wire_decode_prefix_def magic_ok_def parts p) (simp add: WIRE_MSG_PING_def)
qed

lemma native_response:
  "wire_decode_response (wire_encode_response p s n) = Some (p mod 2 ^ 16, s mod 2 ^ 8, n)"
proof -
  let ?b = "wire_encode_response p s n"
  have parts: "take 4 ?b = WIRE_MAGIC" "take 2 (drop 4 ?b) = wire_put_u16 (word_of_int p)" "?b ! 6 = word_of_int s"
      "take 8 (drop 8 ?b) = wire_put_i64 n"
    by (simp_all add: wire_encode_response_def nth_append)
  have p: "uint (wire_get_u16 (wire_put_u16 (word_of_int p))) = p mod 2 ^ 16"
    by (simp only: get_put_u16) (simp add: unsigned_of_int take_bit_eq_mod)
  show ?thesis
    by (simp only: wire_decode_response_def magic_ok_def parts p get_put_i64) (simp add: uint_byte)
qed

lemma native_call_resp:
  "wire_decode_call_resp (wire_encode_call_resp p s g n) = Some (p mod 2 ^ 16, s mod 2 ^ 8, g mod 2 ^ 8, n)"
proof -
  let ?b = "wire_encode_call_resp p s g n"
  have parts: "take 4 ?b = WIRE_MAGIC" "take 2 (drop 4 ?b) = wire_put_u16 (word_of_int p)" "?b ! 6 = word_of_int s"
      "?b ! 7 = word_of_int g" "take 8 (drop 8 ?b) = wire_put_i64 n"
    by (simp_all add: wire_encode_call_resp_def nth_append)
  have p: "uint (wire_get_u16 (wire_put_u16 (word_of_int p))) = p mod 2 ^ 16"
    by (simp only: get_put_u16) (simp add: unsigned_of_int take_bit_eq_mod)
  show ?thesis
    by (simp only: wire_decode_call_resp_def magic_ok_def parts p get_put_i64) (simp add: uint_byte)
qed

lemma native_call_op:
  assumes t: "length t = WIRE_ID_LEN" and a: "length args \<le> WIRE_MAX_CALL_ARGS"
  shows "wire_decode_call_op (wire_encode_call_op p t c args) = Some (p mod 2 ^ 16, WIRE_MSG_CALL_OP, t, c mod 2 ^ 16,
      length args, map (\<lambda>(tag, bits). (tag mod 2 ^ 8, bits)) args @ replicate (WIRE_MAX_CALL_ARGS - length args) (0, 0))"
    and "wire_decode_prefix (wire_encode_call_op p t c args) = Some (p mod 2 ^ 16, WIRE_MSG_CALL_OP)"
    and "length (wire_encode_call_op p t c args) = WIRE_CALLOP_REQ_SIZE"
proof -
  let ?b = "wire_encode_call_op p t c args"
  let ?s = "concat (map wire_slot args) @ replicate (9 * (WIRE_MAX_CALL_ARGS - length args)) 0"
  have b: "?b = WIRE_MAGIC @ wire_put_u16 (word_of_int p) @ [word_of_int WIRE_MSG_CALL_OP, 0] @ t
      @ wire_put_u16 (word_of_int c) @ [of_nat (length args), 0] @ ?s"
    using a by (simp add: wire_encode_call_op_def id_field [OF t])
  have slot: "length (wire_slot s) = 9" for s by (simp add: wire_slot_def)
  have ls: "length ?s = 18"
    using a by (simp add: slot length_concat comp_def sum_list_triv WIRE_MAX_CALL_ARGS_def)
  have "length args = 0 \<or> length args = 1 \<or> length args = 2" using a unfolding WIRE_MAX_CALL_ARGS_def by linarith
  then have len: "length args \<in> {0, 1, 2}" by simp
  have tl: "drop 35 ?b = ?s" using t by (simp add: b WIRE_ID_LEN_def)
  have zero: "wire_get_i64 (replicate 8 0) = 0" using get_put_i64 [of 0] by (simp add: wire_put_i64_def numeral_eq_Suc)
  have rd: "wire_read_slot ?b i = (uint (?s ! (i * 9)), wire_get_i64 (take 8 (drop (1 + i * 9) ?s)))" if "i < 2" for i
  proof -
    have "length ?b = 53" using ls t by (simp add: b WIRE_ID_LEN_def)
    then have "?b ! (35 + i * 9) = ?s ! (i * 9)" using that by (simp flip: tl)
    moreover have "drop (36 + i * 9) ?b = drop (1 + i * 9) ?s" by (simp flip: tl add: add.commute)
    ultimately show ?thesis by (simp add: wire_read_slot_def)
  qed
  have slots: "map (wire_read_slot ?b) [0..<WIRE_MAX_CALL_ARGS]
      = map (\<lambda>(tag, bits). (tag mod 2 ^ 8, bits)) args @ replicate (WIRE_MAX_CALL_ARGS - length args) (0, 0)"
  proof -
    have two: "[0..<WIRE_MAX_CALL_ARGS] = [0, 1]" by (simp add: WIRE_MAX_CALL_ARGS_def numeral_2_eq_2)
    consider "args = []" | x where "args = [x]" | x y where "args = [x, y]"
      using len by (auto simp: length_Suc_conv numeral_2_eq_2)
    moreover have "map (wire_read_slot ?b) [0, 1] = [(uint (?s ! 0), wire_get_i64 (take 8 (drop 1 ?s))),
        (uint (?s ! 9), wire_get_i64 (take 8 (drop 10 ?s)))]"
      using rd [of 0] rd [of 1] by simp
    ultimately show ?thesis unfolding two
      by cases (auto simp: wire_slot_def WIRE_MAX_CALL_ARGS_def get_put_i64 zero uint_byte nth_append numeral_2_eq_2
          split: prod.split)
  qed
  have parts: "take 4 ?b = WIRE_MAGIC" "take 2 (drop 4 ?b) = wire_put_u16 (word_of_int p)" "?b ! 6 = word_of_int WIRE_MSG_CALL_OP"
      "take WIRE_ID_LEN (drop 8 ?b) = t" "take 2 (drop 31 ?b) = wire_put_u16 (word_of_int c)" "?b ! 33 = of_nat (length args)"
    using t by (simp_all add: b WIRE_ID_LEN_def nth_append)
  have pu: "uint (wire_get_u16 (wire_put_u16 (word_of_int x))) = x mod 2 ^ 16" for x
    by (simp only: get_put_u16) (simp add: unsigned_of_int take_bit_eq_mod)
  have n: "min (unat (of_nat (length args) :: byte)) WIRE_MAX_CALL_ARGS = length args"
    using len by (auto simp: WIRE_MAX_CALL_ARGS_def)
  show "wire_decode_call_op ?b = Some (p mod 2 ^ 16, WIRE_MSG_CALL_OP, t, c mod 2 ^ 16,
      length args, map (\<lambda>(tag, bits). (tag mod 2 ^ 8, bits)) args @ replicate (WIRE_MAX_CALL_ARGS - length args) (0, 0))"
    by (simp only: wire_decode_call_op_def magic_ok_def parts pu slots n) (simp add: WIRE_MSG_CALL_OP_def)
  show "wire_decode_prefix ?b = Some (p mod 2 ^ 16, WIRE_MSG_CALL_OP)"
    by (simp only: wire_decode_prefix_def magic_ok_def parts pu) (simp add: WIRE_MSG_CALL_OP_def)
  show "length ?b = WIRE_CALLOP_REQ_SIZE" using ls t by (simp add: b wire_sizes WIRE_ID_LEN_def)
qed

end
