(* ===== verification/EndpointSeam.thy ===== *)
theory EndpointSeam
  imports EndpointCodec
begin

unbundle bit_operations_syntax

text \<open>
  Endpoint identity and the ping: the id hash in both languages, the seam and its handshake, the
  process-local registry with its tombstones (\<open>endpoint_seam.hpp\<close>), and one request served over the
  transport (\<open>serve_one\<close> and \<open>ping_remote\<close> of \<open>endpoint_transport.hpp\<close>). What a socket delivers is a
  parameter.
\<close>

subsection \<open>The id hash\<close>

text \<open>Native: 64-bit FNV-1a. Python: the same over unbounded integers, masked.\<close>

definition fnv_offset :: int where "fnv_offset = 0xcbf29ce484222325"
definition fnv_prime :: int where "fnv_prime = 0x100000001b3"
definition U64_MASK :: int where "U64_MASK = 2 ^ 64 - 1"

definition endpoint_id_hash_native :: "byte list \<Rightarrow> 64 word" where
  "endpoint_id_hash_native s = foldl (\<lambda>h c. (h XOR ucast c) * word_of_int fnv_prime) (word_of_int fnv_offset) s"

definition endpoint_id_hash :: "string \<Rightarrow> int py" where
  "endpoint_id_hash endpoint_id = rbind (ascii_encode endpoint_id) (\<lambda>bs.
     let h = foldl (\<lambda>h b. ((h XOR uint b) * fnv_prime) AND U64_MASK) fnv_offset bs
     in Inr (if h \<ge> 2 ^ 63 then h - 2 ^ 64 else h))"

lemma hash_step: "uint ((h XOR ucast (b :: byte)) * word_of_int fnv_prime :: 64 word)
    = ((uint h XOR uint b) * fnv_prime) AND U64_MASK"
proof -
  have m: "x AND U64_MASK = x mod 2 ^ 64" for x :: int
    using take_bit_eq_mask [of 64 x] by (simp add: U64_MASK_def mask_eq_exp_minus_1 take_bit_eq_mod)
  have "uint (ucast b :: 64 word) = uint b" by (simp add: unsigned_ucast_eq take_bit_int_eq_self_iff byte_range less_trans [OF byte_range(2)])
  then have "uint (h XOR ucast b) = uint h XOR uint b" by (simp add: unsigned_xor_eq)
  then show ?thesis unfolding m by (simp add: uint_word_ariths fnv_prime_def)
qed

lemma sint_signed64: "sint (w :: 64 word) = signed64 (uint w)"
proof (cases "uint w < 2 ^ 63")
  case False
  have "(uint w + 2 ^ 63) mod 2 ^ 64 = (uint w - 2 ^ 63 + 2 ^ 64) mod 2 ^ 64" by (simp add: algebra_simps)
  also have "\<dots> = uint w - 2 ^ 63"
    using False uint_lt2p [of w] by (simp only: mod_add_self2) (simp add: mod_pos_pos_trivial)
  finally show ?thesis using False
    by (simp add: sint_uint signed64_def signed_take_bit_eq_take_bit_shift take_bit_eq_mod)
next
  case True
  then show ?thesis
    using uint_ge_0 [of w] by (simp add: sint_uint signed64_def signed_take_bit_eq_take_bit_shift take_bit_eq_mod mod_pos_pos_trivial)
qed

text \<open>
  The two implementations of the id hash agree on every ASCII id, and the Python one is always a
  signed 64-bit value: the native one read as \<open>int64\<close>.
\<close>

theorem hash_agrees:
  assumes "is_ascii s"
  shows "endpoint_id_hash s = Inr (sint (endpoint_id_hash_native (map of_char s)))
    \<and> (\<exists>h. endpoint_id_hash s = Inr h \<and> i64 h)"
proof -
  let ?f = "\<lambda>h b. ((h XOR uint (b :: byte)) * fnv_prime) AND U64_MASK"
  have fold: "foldl ?f (uint h) bs = uint (foldl (\<lambda>h c. (h XOR ucast c) * word_of_int fnv_prime) h bs)"
    for h :: "64 word" and bs :: "byte list"
    by (induction bs arbitrary: h) (simp, simp only: foldl.simps hash_step [symmetric])
  have off: "uint (word_of_int fnv_offset :: 64 word) = fnv_offset" by (simp add: fnv_offset_def)
  let ?w = "endpoint_id_hash_native (map of_char s)"
  have "endpoint_id_hash s = Inr (if uint ?w \<ge> 2 ^ 63 then uint ?w - 2 ^ 64 else uint ?w)"
    using ascii_roundtrip [OF assms] fold [of "word_of_int fnv_offset" "map of_char s"]
    unfolding endpoint_id_hash_def endpoint_id_hash_native_def off by (simp add: Let_def)
  moreover have "sint ?w = (if uint ?w \<ge> 2 ^ 63 then uint ?w - 2 ^ 64 else uint ?w)"
    using sint_signed64 [of ?w] by (auto simp: signed64_def)
  ultimately show ?thesis using sint_lt [of ?w] sint_ge [of ?w] by (simp add: i64_def)
qed

lemma hash_agrees_witness:
  "is_ascii ''rtb-ep-0123456789abcdef'' \<and> (\<exists>h. endpoint_id_hash ''rtb-ep-0123456789abcdef'' = Inr h \<and> i64 h)"
proof -
  have "is_ascii ''rtb-ep-0123456789abcdef''" by (simp add: is_ascii_def of_char_def)
  then show ?thesis using hash_agrees by blast
qed

subsection \<open>The seam\<close>

definition ENDPOINT_PROTO_VERSION :: int where "ENDPOINT_PROTO_VERSION = 2"
definition ENDPOINT_PING_XOR :: "64 word" where "ENDPOINT_PING_XOR = 0x52415958"

record seam =
  sm_id :: "byte list"
  sm_pid :: int
  sm_closed :: bool

definition on_ping :: "seam \<Rightarrow> 64 word \<Rightarrow> 64 word" where
  "on_ping s nonce = nonce XOR ENDPOINT_PING_XOR XOR endpoint_id_hash_native (sm_id s)"

text \<open>
  The handshake loses nothing and names the peer: applying it twice gives the nonce back, two
  nonces never share a response, and for any nonce two peers answer alike exactly when their ids hash
  alike.
\<close>

theorem ping_handshake:
  "on_ping s (on_ping s n) = n \<and> (on_ping s n = on_ping s m \<longleftrightarrow> n = m)
    \<and> (on_ping s n = on_ping s' n \<longleftrightarrow> endpoint_id_hash_native (sm_id s) = endpoint_id_hash_native (sm_id s'))"
proof -
  have right: "(x XOR k) XOR k = x" for x k :: "64 word" by (simp add: xor.assoc)
  have left: "x XOR (x XOR k) = k" for x k :: "64 word" by (simp flip: xor.assoc)
  define K where "K s = ENDPOINT_PING_XOR XOR endpoint_id_hash_native (sm_id s)" for s :: seam
  have ping: "on_ping s n = n XOR K s" for s :: seam and n by (simp add: on_ping_def K_def xor.assoc)
  have "K s = K s' \<longleftrightarrow> endpoint_id_hash_native (sm_id s) = endpoint_id_hash_native (sm_id s')"
    unfolding K_def using left by metis
  moreover have "n XOR K s = n XOR K s' \<longleftrightarrow> K s = K s'" using left by metis
  moreover have "n XOR K s = m XOR K s \<longleftrightarrow> n = m" using right by metis
  ultimately show ?thesis unfolding ping using right by blast
qed

subsection \<open>The registry\<close>

text \<open>The seams are shared objects; the map holds references to them.\<close>

record seam_registry =
  rg_seams :: "seam list"
  rg_map :: "(byte list \<times> nat) list"
  rg_closed :: "byte list list"

definition new_registry :: seam_registry where
  "new_registry = \<lparr>rg_seams = [], rg_map = [], rg_closed = []\<rparr>"

datatype lookup_status = LOOKUP_ABSENT | LOOKUP_LIVE nat | LOOKUP_CLOSED

definition register_seam :: "nat \<Rightarrow> seam_registry \<Rightarrow> seam_registry" where
  "register_seam i r = (let eid = sm_id (rg_seams r ! i) in
     r\<lparr>rg_map := (eid, i) # filter (\<lambda>x. fst x \<noteq> eid) (rg_map r), rg_closed := filter (\<lambda>x. x \<noteq> eid) (rg_closed r)\<rparr>)"

definition unregister :: "byte list \<Rightarrow> seam_registry \<Rightarrow> seam_registry" where
  "unregister eid r = r\<lparr>rg_map := filter (\<lambda>x. fst x \<noteq> eid) (rg_map r), rg_closed := List.insert eid (rg_closed r)\<rparr>"

definition resolve :: "byte list \<Rightarrow> seam_registry \<Rightarrow> nat option" where
  "resolve eid r = (case map_of (rg_map r) eid of None \<Rightarrow> None
     | Some i \<Rightarrow> if sm_closed (rg_seams r ! i) then None else Some i)"

definition lookup_seam :: "byte list \<Rightarrow> seam_registry \<Rightarrow> lookup_status" where
  "lookup_seam eid r = (case map_of (rg_map r) eid of
       Some i \<Rightarrow> if sm_closed (rg_seams r ! i) then LOOKUP_CLOSED else LOOKUP_LIVE i
     | None \<Rightarrow> if eid \<in> set (rg_closed r) then LOOKUP_CLOSED else LOOKUP_ABSENT)"

definition clear_tombstones :: "seam_registry \<Rightarrow> seam_registry" where
  "clear_tombstones r = r\<lparr>rg_closed := []\<rparr>"

definition close_seam :: "nat \<Rightarrow> seam_registry \<Rightarrow> seam_registry" where
  "close_seam i r = r\<lparr>rg_seams := (rg_seams r)[i := (rg_seams r ! i)\<lparr>sm_closed := True\<rparr>]\<rparr>"

lemma resolve_lookup: "resolve eid r = (case lookup_seam eid r of LOOKUP_LIVE i \<Rightarrow> Some i | _ \<Rightarrow> None)"
  by (simp add: resolve_def lookup_seam_def split: option.split)

subsection \<open>Status codes\<close>

definition PING_OK :: int where "PING_OK = 0"
definition PING_PEER_CLOSED :: int where "PING_PEER_CLOSED = 1"
definition PING_CONN_CLOSED :: int where "PING_CONN_CLOSED = 2"
definition PING_NOT_FOUND :: int where "PING_NOT_FOUND = 3"
definition PING_PROTO_ERR :: int where "PING_PROTO_ERR = 4"
definition PING_TIMEOUT :: int where "PING_TIMEOUT = 5"

definition CALL_OK :: int where "CALL_OK = 0"
definition CALL_PEER_CLOSED :: int where "CALL_PEER_CLOSED = 1"
definition CALL_CONN_CLOSED :: int where "CALL_CONN_CLOSED = 2"
definition CALL_NOT_FOUND :: int where "CALL_NOT_FOUND = 3"
definition CALL_PROTO_ERR :: int where "CALL_PROTO_ERR = 4"
definition CALL_TIMEOUT :: int where "CALL_TIMEOUT = 5"
definition STATUS_RUNTIME_ABSENT :: int where "STATUS_RUNTIME_ABSENT = 6"
definition STATUS_RUNTIME_DRAINING :: int where "STATUS_RUNTIME_DRAINING = 7"
definition CALL_OP_UNKNOWN :: int where "CALL_OP_UNKNOWN = 8"
definition CALL_OP_BADARGS :: int where "CALL_OP_BADARGS = 9"
definition CALL_OP_FAILED :: int where "CALL_OP_FAILED = 10"
definition CALL_INTERNAL :: int where "CALL_INTERNAL = 11"

lemmas status_defs = PING_OK_def PING_PEER_CLOSED_def PING_CONN_CLOSED_def PING_NOT_FOUND_def PING_PROTO_ERR_def
  PING_TIMEOUT_def CALL_OK_def CALL_PEER_CLOSED_def CALL_CONN_CLOSED_def CALL_NOT_FOUND_def CALL_PROTO_ERR_def
  CALL_TIMEOUT_def STATUS_RUNTIME_ABSENT_def STATUS_RUNTIME_DRAINING_def CALL_OP_UNKNOWN_def CALL_OP_BADARGS_def
  CALL_OP_FAILED_def CALL_INTERNAL_def

subsection \<open>Serving one request\<close>

text \<open>A dispatch result: status, tag and bits.\<close>

type_synonym call_result = "int \<times> int \<times> 64 word"

type_synonym call_handler = "int \<Rightarrow> (int \<times> 64 word) list \<Rightarrow> call_result"

definition serve_ping :: "seam_registry \<Rightarrow> byte list \<Rightarrow> byte list option" where
  "serve_ping r req = (case wire_decode_request req of None \<Rightarrow> None
     | Some (proto, msg, target, nonce) \<Rightarrow> Some
         (if proto \<noteq> ENDPOINT_PROTO_VERSION \<or> msg \<noteq> WIRE_MSG_PING
          then wire_encode_response ENDPOINT_PROTO_VERSION WIRE_PROTO_ERR 0
          else (case lookup_seam target r of
              LOOKUP_LIVE i \<Rightarrow> wire_encode_response ENDPOINT_PROTO_VERSION WIRE_OK (on_ping (rg_seams r ! i) nonce)
            | LOOKUP_CLOSED \<Rightarrow> wire_encode_response ENDPOINT_PROTO_VERSION WIRE_PEER_CLOSED 0
            | LOOKUP_ABSENT \<Rightarrow> wire_encode_response ENDPOINT_PROTO_VERSION WIRE_NOT_FOUND 0)))"

definition serve_call_op :: "call_handler option \<Rightarrow> seam_registry \<Rightarrow> byte list \<Rightarrow> byte list option" where
  "serve_call_op handler r req = (case wire_decode_call_op req of None \<Rightarrow> None
     | Some (proto, msg, target, op_code, argc, args) \<Rightarrow> Some
         (if proto \<noteq> ENDPOINT_PROTO_VERSION
          then wire_encode_call_resp ENDPOINT_PROTO_VERSION CALL_PROTO_ERR 0 0
          else (case (case lookup_seam target r of
                  LOOKUP_LIVE i \<Rightarrow> (case handler of None \<Rightarrow> (STATUS_RUNTIME_ABSENT, 0, 0)
                    | Some h \<Rightarrow> h op_code (take (min argc WIRE_MAX_CALL_ARGS) args))
                | LOOKUP_CLOSED \<Rightarrow> (CALL_PEER_CLOSED, 0, 0)
                | LOOKUP_ABSENT \<Rightarrow> (CALL_NOT_FOUND, 0, 0)) of
              (st, tag, bits) \<Rightarrow> wire_encode_call_resp ENDPOINT_PROTO_VERSION st tag bits)))"

text \<open>\<open>input\<close> is what the client sends before it closes or the deadline passes. \<open>None\<close>: no reply.\<close>

definition serve_one :: "call_handler option \<Rightarrow> seam_registry \<Rightarrow> byte list \<Rightarrow> byte list option" where
  "serve_one handler r input =
     (if length input < 7 then None
      else (case wire_decode_prefix (take 7 input) of None \<Rightarrow> None
        | Some (proto, msg) \<Rightarrow>
            if msg = WIRE_MSG_PING
            then (if length input < WIRE_REQ_SIZE then None else serve_ping r (take WIRE_REQ_SIZE input))
            else if msg = WIRE_MSG_CALL_OP
            then (if length input < WIRE_CALLOP_REQ_SIZE then None
                  else serve_call_op handler r (take WIRE_CALLOP_REQ_SIZE input))
            else None))"

subsection \<open>The client's side\<close>

text \<open>One bounded round trip to a socket: the deadline passes, the peer is gone, or bytes come back.\<close>

datatype wire_reply = NetTimeout | NetClosed | NetBytes "byte list"

type_synonym net = "string \<Rightarrow> byte list \<Rightarrow> wire_reply"

definition ping_remote :: "net \<Rightarrow> string \<Rightarrow> byte list \<Rightarrow> 64 word \<Rightarrow> int \<times> 64 word" where
  "ping_remote net path peer_id nonce =
     (case net path (wire_encode_request ENDPOINT_PROTO_VERSION peer_id nonce) of
        NetTimeout \<Rightarrow> (PING_TIMEOUT, 0)
      | NetClosed \<Rightarrow> (PING_CONN_CLOSED, 0)
      | NetBytes resp \<Rightarrow> (case wire_decode_response resp of None \<Rightarrow> (PING_CONN_CLOSED, 0)
          | Some (proto, status, val) \<Rightarrow>
              if proto \<noteq> ENDPOINT_PROTO_VERSION then (PING_PROTO_ERR, 0)
              else if status = WIRE_OK then (PING_OK, val)
              else if status = WIRE_PEER_CLOSED then (PING_PEER_CLOSED, 0)
              else if status = WIRE_NOT_FOUND then (PING_NOT_FOUND, 0)
              else if status = WIRE_PROTO_ERR then (PING_PROTO_ERR, 0)
              else (PING_CONN_CLOSED, 0)))"

definition call_op_remote :: "net \<Rightarrow> string \<Rightarrow> byte list \<Rightarrow> int \<Rightarrow> (int \<times> 64 word) list \<Rightarrow> call_result" where
  "call_op_remote net path peer_id op_code args =
     (case net path (wire_encode_call_op ENDPOINT_PROTO_VERSION peer_id op_code (take WIRE_MAX_CALL_ARGS args)) of
        NetTimeout \<Rightarrow> (CALL_TIMEOUT, 0, 0)
      | NetClosed \<Rightarrow> (CALL_CONN_CLOSED, 0, 0)
      | NetBytes resp \<Rightarrow> (case wire_decode_call_resp resp of None \<Rightarrow> (CALL_CONN_CLOSED, 0, 0)
          | Some (proto, st, tag, bits) \<Rightarrow>
              if proto \<noteq> ENDPOINT_PROTO_VERSION then (CALL_PROTO_ERR, 0, 0) else (st, tag, bits)))"

text \<open>A peer that serves every request that reaches it, at its socket path.\<close>

definition served_by :: "call_handler option \<Rightarrow> seam_registry \<Rightarrow> byte list \<Rightarrow> wire_reply" where
  "served_by handler r req = (case serve_one handler r req of None \<Rightarrow> NetClosed | Some b \<Rightarrow> NetBytes b)"

lemma prefix_take: "7 \<le> length b \<Longrightarrow> wire_decode_prefix (take 7 b) = wire_decode_prefix b"
  by (simp add: wire_decode_prefix_def magic_ok_def drop_take min_def)

lemma serve_ping_frame:
  assumes "length t = WIRE_ID_LEN"
  shows "serve_one h r (wire_encode_request p t n) = serve_ping r (wire_encode_request p t n)"
proof -
  have len: "length (wire_encode_request p t n) = 39" using native_sizes(1) [OF assms] by (simp add: wire_sizes)
  then show ?thesis using native_request(2) [OF assms, of p n]
    by (simp add: serve_one_def prefix_take wire_sizes)
qed

lemma serve_call_frame:
  assumes "length t = WIRE_ID_LEN" "length args \<le> WIRE_MAX_CALL_ARGS"
  shows "serve_one h r (wire_encode_call_op p t c args) = serve_call_op h r (wire_encode_call_op p t c args)"
  using native_call_op(2,3) [OF assms, of p c]
  by (simp add: serve_one_def prefix_take wire_sizes WIRE_MSG_PING_def WIRE_MSG_CALL_OP_def)

lemma remote_ping_is_local:
  assumes "length t = WIRE_ID_LEN" and "\<And>req. net path req = served_by h r req"
  shows "ping_remote net path t n = (case lookup_seam t r of
      LOOKUP_LIVE i \<Rightarrow> (PING_OK, on_ping (rg_seams r ! i) n)
    | LOOKUP_CLOSED \<Rightarrow> (PING_PEER_CLOSED, 0) | LOOKUP_ABSENT \<Rightarrow> (PING_NOT_FOUND, 0))"
  using native_request(1) [OF assms(1), of ENDPOINT_PROTO_VERSION n]
  by (simp add: ping_remote_def assms(2) served_by_def serve_ping_frame [OF assms(1)] serve_ping_def
      native_response ENDPOINT_PROTO_VERSION_def WIRE_MSG_PING_def WIRE_OK_def WIRE_PEER_CLOSED_def
      WIRE_NOT_FOUND_def WIRE_PROTO_ERR_def split: lookup_status.split)

end
