(* ===== verification/EndpointFacade.thy ===== *)
theory EndpointFacade
  imports EndpointValidate EndpointSeam ProcessOwner PyNumber
begin

text \<open>
  The public endpoint layer: \<open>Endpoint\<close>, \<open>Connection\<close>, \<open>connect\<close> and \<open>shutdown\<close> of
  \<open>python/src/rayx/endpoint/__init__.py\<close> over \<open>_Endpoint\<close>, \<open>_Connection\<close> and the transport count of
  \<open>_rayx.cpp\<close>. One \<open>eworld\<close> is one process. The pid, the host name, the random id, the socket a
  listener gets and what the network delivers are arguments.
\<close>

subsection \<open>State\<close>

record native_endpoint =
  ne_seam :: nat
  ne_transport :: bool
  ne_addr :: string
  ne_closed :: bool

record pyendpoint =
  ep_native :: nat
  ep_id :: string
  ep_pid :: int
  ep_proto :: int
  ep_host :: string
  ep_transport_kind :: string
  ep_transport_addr :: string
  ep_closed :: bool

text \<open>
  A local connection holds a weak reference to the seam; every owner of a seam closes it before it
  lets go, so a dead reference reads as a closed seam.
\<close>

datatype conn_peer = LocalPeer nat | RemotePeer string "byte list" int

record pyconn =
  cn_peer :: conn_peer
  cn_native_closed :: bool
  cn_closed :: bool

record eworld =
  ew_owner :: owner
  ew_registry :: seam_registry
  ew_transport_rc :: int
  ew_listener :: "string option"
  ew_natives :: "native_endpoint list"
  ew_endpoints :: "pyendpoint list"
  ew_conns :: "pyconn list"

definition new_eworld :: eworld where
  "new_eworld = \<lparr>ew_owner = new_owner, ew_registry = new_registry, ew_transport_rc = 0, ew_listener = None,
     ew_natives = [], ew_endpoints = [], ew_conns = []\<rparr>"

subsection \<open>Native layer\<close>

text \<open>\<open>listen\<close>: the socket path a new listener gets, or \<open>None\<close> when it cannot start.\<close>

definition endpoint_transport_acquire :: "string option \<Rightarrow> eworld \<Rightarrow> eworld \<times> string py" where
  "endpoint_transport_acquire listen w = (case ew_listener w of
       Some path \<Rightarrow> (w\<lparr>ew_transport_rc := ew_transport_rc w + 1\<rparr>, Inr path)
     | None \<Rightarrow> (case listen of
           None \<Rightarrow> (w, Inl RuntimeError)
         | Some path \<Rightarrow> (w\<lparr>ew_listener := Some path, ew_transport_rc := ew_transport_rc w + 1\<rparr>, Inr path)))"

definition endpoint_transport_release :: "eworld \<Rightarrow> eworld" where
  "endpoint_transport_release w =
     (if 0 < ew_transport_rc w
      then (let w' = w\<lparr>ew_transport_rc := ew_transport_rc w - 1\<rparr> in
            if ew_transport_rc w' = 0 then w'\<lparr>ew_listener := None\<rparr> else w')
      else w)"

definition add_seam :: "byte list \<Rightarrow> int \<Rightarrow> eworld \<Rightarrow> eworld \<times> nat" where
  "add_seam eid pid w = (let r = ew_registry w; i = length (rg_seams r) in
     (w\<lparr>ew_registry := register_seam i (r\<lparr>rg_seams := rg_seams r @ [\<lparr>sm_id = eid, sm_pid = pid, sm_closed = False\<rparr>]\<rparr>)\<rparr>, i))"

definition native_endpoint_new :: "byte list \<Rightarrow> int \<Rightarrow> string option \<Rightarrow> bool \<Rightarrow> eworld \<Rightarrow> eworld \<times> nat py" where
  "native_endpoint_new eid pid listen transport w =
     (case attach True AEndpoint 0 (ew_owner w) of
        Inl e \<Rightarrow> (w, Inl e)
      | Inr own \<Rightarrow> (case add_seam eid pid (w\<lparr>ew_owner := own\<rparr>) of (w1, i) \<Rightarrow>
          (case (if transport then endpoint_transport_acquire listen w1 else (w1, Inr [])) of
             (w2, Inl e) \<Rightarrow> (w2\<lparr>ew_registry := unregister eid (ew_registry w2), ew_owner := detach AEndpoint (ew_owner w2)\<rparr>, Inl e)
           | (w2, Inr path) \<Rightarrow>
               (w2\<lparr>ew_natives := ew_natives w2 @ [\<lparr>ne_seam = i, ne_transport = transport, ne_addr = path, ne_closed = False\<rparr>]\<rparr>,
                Inr (length (ew_natives w2))))))"

definition native_seam :: "eworld \<Rightarrow> nat \<Rightarrow> seam" where
  "native_seam w k = rg_seams (ew_registry w) ! ne_seam (ew_natives w ! k)"

definition native_endpoint_close :: "nat \<Rightarrow> eworld \<Rightarrow> eworld" where
  "native_endpoint_close k w = (let n = ew_natives w ! k in
     if ne_closed n then w
     else let w1 = w\<lparr>ew_natives := (ew_natives w)[k := n\<lparr>ne_closed := True\<rparr>],
                ew_registry := unregister (sm_id (native_seam w k)) (close_seam (ne_seam n) (ew_registry w))\<rparr>;
              w2 = (if ne_transport n then endpoint_transport_release w1 else w1);
              w3 = w2\<lparr>ew_owner := detach AEndpoint (ew_owner w2)\<rparr>
          in if ow_endpoints (ew_owner w3) = 0
             then w3\<lparr>ew_registry := clear_tombstones (ew_registry w3)\<rparr> else w3)"

definition endpoint_shutdown :: "eworld \<Rightarrow> eworld" where
  "endpoint_shutdown w =
     (if ow_endpoints (ew_owner w) \<noteq> 0 then w
      else let w1 = (if ew_transport_rc w = 0 \<and> ew_listener w \<noteq> None then w\<lparr>ew_listener := None\<rparr> else w)
           in w1\<lparr>ew_registry := clear_tombstones (ew_registry w1)\<rparr>)"

subsection \<open>\<open>Endpoint\<close>\<close>

definition bytes_str :: "byte list \<Rightarrow> string" where "bytes_str bs = map (\<lambda>b. char_of (unat b)) bs"

definition reraise :: "exc list \<Rightarrow> exc \<Rightarrow> 'a py \<Rightarrow> 'a py" where
  "reraise cs to r = (case r of Inl e \<Rightarrow> Inl (if list_ex (\<lambda>c. caught_by c e) cs then to else e) | Inr x \<Rightarrow> Inr x)"

definition endpoint_init :: "byte list \<Rightarrow> int \<Rightarrow> string \<Rightarrow> string option \<Rightarrow> bool \<Rightarrow> eworld \<Rightarrow> eworld \<times> nat py" where
  "endpoint_init eid pid host listen transport w =
     (case native_endpoint_new eid pid listen transport w of
        (w1, Inl e) \<Rightarrow> (w1, reraise [RuntimeError] EndpointError (Inl e))
      | (w1, Inr k) \<Rightarrow> (let n = ew_natives w1 ! k; s = native_seam w1 k in
          (w1\<lparr>ew_endpoints := ew_endpoints w1 @ [\<lparr>ep_native = k, ep_id = bytes_str (sm_id s), ep_pid = sm_pid s,
             ep_proto = ENDPOINT_PROTO_VERSION, ep_host = host,
             ep_transport_kind = (if ne_transport n then ''unix'' else ''none''),
             ep_transport_addr = ne_addr n, ep_closed = False\<rparr>]\<rparr>, Inr (length (ew_endpoints w1)))))"

definition endpoint_meta :: "pyendpoint \<Rightarrow> peer_meta" where
  "endpoint_meta p = \<lparr>md_endpoint_id = ep_id p, md_pid = ep_pid p, md_host = ep_host p, md_proto_version = ep_proto p,
     md_transport_kind = ep_transport_kind p, md_transport_addr = ep_transport_addr p\<rparr>"

definition endpoint_metadata :: "nat \<Rightarrow> eworld \<Rightarrow> pyval py" where
  "endpoint_metadata k w = (let p = ew_endpoints w ! k in
     if ep_closed p then Inl EndpointClosedError else Inr (meta_dict (endpoint_meta p)))"

definition endpoint_close :: "nat \<Rightarrow> eworld \<Rightarrow> eworld" where
  "endpoint_close k w = (let p = ew_endpoints w ! k in
     if ep_closed p then w
     else native_endpoint_close (ep_native p) (w\<lparr>ew_endpoints := (ew_endpoints w)[k := p\<lparr>ep_closed := True\<rparr>]\<rparr>))"

text \<open>\<open>__exit__\<close> closes and lets the exception of the block propagate.\<close>

definition endpoint_exit :: "nat \<Rightarrow> eworld \<Rightarrow> eworld \<times> bool" where
  "endpoint_exit k w = (endpoint_close k w, False)"

definition process_hpx_active :: "eworld \<Rightarrow> bool" where
  "process_hpx_active w = ow_started (ew_owner w)"

subsection \<open>\<open>connect\<close>\<close>

definition CONNECT_OK :: int where "CONNECT_OK = 0"
definition CONNECT_TIMEOUT :: int where "CONNECT_TIMEOUT = 5"
definition CONNECT_UNREACHABLE :: int where "CONNECT_UNREACHABLE = 6"

text \<open>
  \<open>timeout * 1000\<close> and \<open>int\<close> of it; no check comes before them. A text or sequence times 1000 is its
  thousandfold repetition, which \<open>int\<close> then reads (a text of digits) or refuses.
\<close>

definition repeat_1000 :: "'a list \<Rightarrow> 'a list" where
  "repeat_1000 xs = concat (replicate 1000 xs)"

fun times_1000 :: "pyval \<Rightarrow> pyval py" where
  "times_1000 (VInt n) = Inr (VInt (n * 1000))"
| "times_1000 (VBool b) = Inr (VInt (if b then 1000 else 0))"
| "times_1000 (VFloat f) = Inr (VFloat (fmul f (Fin 1000)))"
| "times_1000 (VStr s) = Inr (VStr (repeat_1000 s))"
| "times_1000 (VList xs) = Inr (VList (repeat_1000 xs))"
| "times_1000 (VTuple xs) = Inr (VTuple (repeat_1000 xs))"
| "times_1000 _ = Inl TypeError"

definition deadline_ms :: "pyval \<Rightarrow> int py" where
  "deadline_ms timeout = rbind (times_1000 timeout) (\<lambda>p. rbind (py_int p) (\<lambda>n. Inr (max 1 n)))"

definition new_conn :: "conn_peer \<Rightarrow> pyconn" where
  "new_conn p = \<lparr>cn_peer = p, cn_native_closed = False, cn_closed = False\<rparr>"

definition str_bytes :: "string \<Rightarrow> byte list" where "str_bytes s = map of_char s"

definition endpoint_connect_local :: "string \<Rightarrow> eworld \<Rightarrow> pyconn option" where
  "endpoint_connect_local peer_id w =
     map_option (\<lambda>i. new_conn (LocalPeer i)) (resolve (str_bytes peer_id) (ew_registry w))"

definition endpoint_connect_unix :: "(string \<Rightarrow> int \<Rightarrow> int) \<Rightarrow> string \<Rightarrow> string \<Rightarrow> int \<Rightarrow> int \<times> pyconn option" where
  "endpoint_connect_unix probe peer_id path timeout_ms = (let status = probe path timeout_ms in
     if status = 0 then (0, Some (new_conn (RemotePeer path (str_bytes peer_id) timeout_ms))) else (status, None))"

definition connect_remote :: "(string \<Rightarrow> int \<Rightarrow> int) \<Rightarrow> peer_meta \<Rightarrow> pyval \<Rightarrow> pyconn py" where
  "connect_remote probe m timeout =
     (if md_transport_kind m = ''none'' then Inl EndpointUnreachableError
      else if md_transport_kind m = ''unix'' then
        rbind (deadline_ms timeout) (\<lambda>d. rbind (cross_int64 (VInt d)) (\<lambda>d.
          case endpoint_connect_unix probe (md_endpoint_id m) (md_transport_addr m) d of
            (status, conn) \<Rightarrow>
              if status = CONNECT_OK then (case conn of Some c \<Rightarrow> Inr c | None \<Rightarrow> Inl TypeError)
              else if status = CONNECT_TIMEOUT then Inl EndpointTimeoutError
              else if status = CONNECT_UNREACHABLE then Inl EndpointUnreachableError
              else Inl EndpointError))
      else Inl EndpointUnreachableError)"

definition connect :: "int \<Rightarrow> string \<Rightarrow> (string \<Rightarrow> int \<Rightarrow> int) \<Rightarrow> pyval \<Rightarrow> pyval \<Rightarrow> eworld \<Rightarrow> pyconn py" where
  "connect pid host probe peer_metadata timeout w =
     rbind (reraise [ValueError, TypeError] EndpointValidationError (validate_metadata peer_metadata)) (\<lambda>m.
       if md_proto_version m \<noteq> ENDPOINT_PROTO_VERSION then Inl EndpointProtocolError
       else if md_host m \<noteq> host then Inl EndpointUnreachableError
       else if md_pid m = pid then
         (case endpoint_connect_local (md_endpoint_id m) w of None \<Rightarrow> Inl EndpointNotFoundError | Some c \<Rightarrow> Inr c)
       else connect_remote probe m timeout)"

text \<open>The new connection object.\<close>

definition open_connection :: "pyconn \<Rightarrow> eworld \<Rightarrow> eworld \<times> nat" where
  "open_connection c w = (w\<lparr>ew_conns := ew_conns w @ [c]\<rparr>, length (ew_conns w))"

subsection \<open>\<open>Connection\<close>\<close>

definition native_ping :: "(int \<Rightarrow> net) \<Rightarrow> seam_registry \<Rightarrow> pyconn \<Rightarrow> 64 word \<Rightarrow> int \<times> 64 word" where
  "native_ping net r c nonce =
     (if cn_native_closed c then (PING_CONN_CLOSED, 0)
      else (case cn_peer c of
          RemotePeer path peer_id timeout_ms \<Rightarrow> ping_remote (net timeout_ms) path peer_id nonce
        | LocalPeer i \<Rightarrow> let s = rg_seams r ! i in
            if sm_closed s then (PING_PEER_CLOSED, 0) else (PING_OK, on_ping s nonce)))"

definition conn_ping :: "(int \<Rightarrow> net) \<Rightarrow> seam_registry \<Rightarrow> pyconn \<Rightarrow> pyval \<Rightarrow> int py" where
  "conn_ping net r c nonce =
     rbind (reraise [ValueError, TypeError] EndpointValidationError (validate_nonce nonce)) (\<lambda>_.
     if cn_closed c then Inl EndpointClosedError
     else rbind (cross_int64 nonce) (\<lambda>n.
       case native_ping net r c (word_of_int n) of (status, val) \<Rightarrow>
         if status = PING_OK then Inr (sint val)
         else if status = PING_PEER_CLOSED then Inl EndpointClosedError
         else if status = PING_CONN_CLOSED then Inl EndpointClosedError
         else if status = PING_NOT_FOUND then Inl EndpointNotFoundError
         else if status = PING_PROTO_ERR then Inl EndpointProtocolError
         else if status = PING_TIMEOUT then Inl EndpointTimeoutError
         else Inl EndpointError))"

definition BRIDGE_OPS :: "(string \<times> int \<times> nat) list" where
  "BRIDGE_OPS = [(''square'', 1, 1), (''add'', 2, 2), (''fanout_sum'', 3, 2)]"

definition bridge_arg :: "nat \<Rightarrow> pyval \<Rightarrow> int py" where
  "bridge_arg i a = (if is_bool a \<or> \<not> is_int a then Inl EndpointValidationError
     else if INT64_LOW \<le> the_int a \<and> the_int a \<le> INT64_HIGH then Inr (the_int a) else Inl EndpointValidationError)"

definition native_call_op ::
    "(int \<Rightarrow> net) \<Rightarrow> call_handler \<Rightarrow> seam_registry \<Rightarrow> pyconn \<Rightarrow> int \<Rightarrow> int list \<Rightarrow> call_result" where
  "native_call_op net dispatch r c op_code args = (let av = map (\<lambda>v. (0, word_of_int v)) args in
     if cn_native_closed c then (CALL_CONN_CLOSED, 0, 0)
     else (case cn_peer c of
         RemotePeer path peer_id timeout_ms \<Rightarrow> call_op_remote (net timeout_ms) path peer_id op_code av
       | LocalPeer i \<Rightarrow> if sm_closed (rg_seams r ! i) then (CALL_PEER_CLOSED, 0, 0) else dispatch op_code av))"

text \<open>A \<open>double\<close> from its 64 bits.\<close>

definition float_of_bits :: "64 word \<Rightarrow> pyfloat" where
  "float_of_bits b = (let neg = bit b 63; e = uint (take_bit 11 (drop_bit 52 b)); m = of_int (uint (take_bit 52 b)) :: rat in
     if e = 2047 then (if m = 0 then (if neg then NInf else PInf) else NaN)
     else let x = (if e = 0 then m * pow2 (- 1074) else (2 ^ 52 + m) * pow2 (e - 1075)) in Fin (if neg then - x else x))"

definition call_value :: "call_result \<Rightarrow> pyval" where
  "call_value cr = (case cr of (st, tag, bits) \<Rightarrow>
     if st \<noteq> CALL_OK then VNone else if tag = 0 then VInt (sint bits) else VFloat (float_of_bits bits))"

definition conn_call_op ::
    "(int \<Rightarrow> net) \<Rightarrow> call_handler \<Rightarrow> seam_registry \<Rightarrow> pyconn \<Rightarrow> pyval \<Rightarrow> pyval list \<Rightarrow> pyval py" where
  "conn_call_op net dispatch r c op_id args =
     (if \<not> is_hashable op_id then Inl TypeError
      else (case (case op_id of VStr s \<Rightarrow> map_of BRIDGE_OPS s | _ \<Rightarrow> None) of
          None \<Rightarrow> Inl EndpointValidationError
        | Some (op_code, arity) \<Rightarrow>
            if length args \<noteq> arity then Inl EndpointValidationError
            else rbind (mapM_idx bridge_arg 0 args) (\<lambda>iargs.
              if cn_closed c then Inl EndpointClosedError
              else let cr = native_call_op net dispatch r c op_code iargs; status = fst cr in
                if status = CALL_OK then Inr (call_value cr)
                else if status = CALL_PEER_CLOSED \<or> status = CALL_CONN_CLOSED then Inl EndpointClosedError
                else if status = CALL_NOT_FOUND then Inl EndpointNotFoundError
                else if status = CALL_PROTO_ERR then Inl EndpointProtocolError
                else if status = CALL_TIMEOUT then Inl EndpointTimeoutError
                else if status = STATUS_RUNTIME_ABSENT \<or> status = STATUS_RUNTIME_DRAINING
                then Inl EndpointRuntimeUnavailableError
                else if status = CALL_OP_UNKNOWN then Inl EndpointOperationError
                else if status = CALL_OP_BADARGS then Inl EndpointValidationError
                else if status = CALL_OP_FAILED then Inl EndpointOperationError
                else if status = CALL_INTERNAL then Inl EndpointOperationError
                else Inl EndpointError)))"

definition conn_close :: "nat \<Rightarrow> eworld \<Rightarrow> eworld" where
  "conn_close k w = (let c = ew_conns w ! k in
     if cn_closed c then w else w\<lparr>ew_conns := (ew_conns w)[k := c\<lparr>cn_closed := True, cn_native_closed := True\<rparr>]\<rparr>)"

definition conn_exit :: "nat \<Rightarrow> eworld \<Rightarrow> eworld \<times> bool" where
  "conn_exit k w = (conn_close k w, False)"

end
