(* ===== verification/EndpointFacadeInv.thy ===== *)
theory EndpointFacadeInv
  imports EndpointFacade
begin

text \<open>
  The endpoints of a process over its whole life: every order of opening, closing and dropping
  endpoints and connections beside whatever engine or runtime comes and goes. The registry holds
  exactly the open endpoints, the listener runs exactly while one of them uses it.
\<close>

subsection \<open>The registry\<close>

definition reg_inv :: "seam_registry \<Rightarrow> nat set \<Rightarrow> bool" where
  "reg_inv r L \<longleftrightarrow> distinct (map sm_id (rg_seams r)) \<and> (\<forall>i \<in> L. i < length (rg_seams r) \<and> \<not> sm_closed (rg_seams r ! i))
     \<and> (\<forall>eid i. map_of (rg_map r) eid = Some i \<longleftrightarrow> i \<in> L \<and> sm_id (rg_seams r ! i) = eid)"

lemma map_of_filter_neq: "map_of (filter (\<lambda>x. fst x \<noteq> a) xs) = (map_of xs)(a := None)"
  by (induction xs) auto

lemma sm_id_inj:
  "distinct (map sm_id ss) \<Longrightarrow> i < length ss \<Longrightarrow> j < length ss \<Longrightarrow> sm_id (ss ! i) = sm_id (ss ! j) \<Longrightarrow> i = j"
  using nth_eq_iff_index_eq [of "map sm_id ss" i j] by simp

lemma reg_inv_new: "reg_inv new_registry {}"
  by (simp add: reg_inv_def new_registry_def)

lemma reg_inv_clear: "reg_inv (clear_tombstones r) L = reg_inv r L"
  by (simp add: reg_inv_def clear_tombstones_def)

lemma reg_inv_add:
  assumes r: "reg_inv r L" and fresh: "\<forall>s \<in> set (rg_seams r). sm_id s \<noteq> eid"
    and n: "n = length (rg_seams r)" and s: "sm_id s = eid" "\<not> sm_closed s"
  shows "reg_inv (register_seam n (r\<lparr>rg_seams := rg_seams r @ [s]\<rparr>)) (insert n L)"
proof -
  have none: "map_of (rg_map r) eid \<noteq> Some i" for i
    using r fresh nth_mem by (auto simp: reg_inv_def)
  show ?thesis
    using r fresh s none unfolding reg_inv_def n
    by (auto simp: register_seam_def Let_def map_of_filter_neq nth_append less_Suc_eq)
qed

lemma reg_inv_unregister:
  assumes r: "reg_inv r L" and i: "i < length (rg_seams r)" and eid: "eid = sm_id (rg_seams r ! i)"
  shows "reg_inv (unregister eid r) (L - {i})"
proof -
  have inj: "j \<in> L \<Longrightarrow> sm_id (rg_seams r ! j) = eid \<longleftrightarrow> j = i" for j
    using r i sm_id_inj [of "rg_seams r" j i] by (auto simp: reg_inv_def eid)
  show ?thesis using r inj by (auto simp: reg_inv_def unregister_def map_of_filter_neq)
qed

lemma reg_inv_close:
  assumes r: "reg_inv r L" and i: "i \<notin> L"
  shows "reg_inv (close_seam i r) L"
proof -
  have ids: "map sm_id (rg_seams (close_seam i r)) = map sm_id (rg_seams r)"
    by (cases "i < length (rg_seams r)") (simp_all add: close_seam_def map_update list_update_same_conv list_update_beyond)
  have "j < length (rg_seams r) \<Longrightarrow> sm_id (rg_seams (close_seam i r) ! j) = sm_id (rg_seams r ! j)" for j
    using arg_cong [OF ids, of "\<lambda>xs. xs ! j"] by (simp add: close_seam_def)
  moreover have "j \<in> L \<Longrightarrow> rg_seams (close_seam i r) ! j = rg_seams r ! j" for j
    using i by (cases "j = i") (simp_all add: close_seam_def)
  ultimately show ?thesis using r ids unfolding reg_inv_def
    by (auto simp: close_seam_def)
qed

lemma close_unregister:
  "i < length (rg_seams r) \<Longrightarrow> unregister eid (close_seam i r) = close_seam i (unregister eid r)"
  by (simp add: unregister_def close_seam_def)

lemma reg_inv_leave:
  assumes r: "reg_inv r L" and i: "i < length (rg_seams r)"
  shows "reg_inv (unregister (sm_id (rg_seams r ! i)) (close_seam i r)) (L - {i})"
  unfolding close_unregister [OF i]
  by (rule reg_inv_close [OF reg_inv_unregister [OF r i refl]]) simp

lemma reg_inv_lookup:
  assumes r: "reg_inv r L" and i: "i < length (rg_seams r)"
  shows "lookup_seam (sm_id (rg_seams r ! i)) r = LOOKUP_LIVE i \<longleftrightarrow> i \<in> L"
    and "i \<notin> L \<Longrightarrow> lookup_seam (sm_id (rg_seams r ! i)) r
      = (if sm_id (rg_seams r ! i) \<in> set (rg_closed r) then LOOKUP_CLOSED else LOOKUP_ABSENT)"
proof -
  let ?e = "sm_id (rg_seams r ! i)"
  have m: "map_of (rg_map r) ?e = (if i \<in> L then Some i else None)"
  proof -
    have at: "map_of (rg_map r) ?e = Some j \<longleftrightarrow> j \<in> L \<and> sm_id (rg_seams r ! j) = ?e" for j
      using r unfolding reg_inv_def by blast
    have inj: "j \<in> L \<Longrightarrow> sm_id (rg_seams r ! j) = ?e \<Longrightarrow> j = i" for j
      using r i sm_id_inj [of "rg_seams r" j i] unfolding reg_inv_def by blast
    show ?thesis
    proof (cases "map_of (rg_map r) ?e")
      case None
      then show ?thesis using at [of i] by simp
    next
      case (Some j)
      then show ?thesis using at [of j] inj [of j] by auto
    qed
  qed
  have "i \<in> L \<Longrightarrow> \<not> sm_closed (rg_seams r ! i)" using r by (simp add: reg_inv_def)
  then show "lookup_seam ?e r = LOOKUP_LIVE i \<longleftrightarrow> i \<in> L" by (simp add: lookup_seam_def m)
  show "i \<notin> L \<Longrightarrow> lookup_seam ?e r = (if ?e \<in> set (rg_closed r) then LOOKUP_CLOSED else LOOKUP_ABSENT)"
    by (simp add: lookup_seam_def m)
qed

subsection \<open>The process\<close>

inductive eworld_reachable :: "int \<Rightarrow> string \<Rightarrow> eworld \<Rightarrow> bool" for pid host where
  New: "eworld_reachable pid host new_eworld"
| Open: "eworld_reachable pid host w \<Longrightarrow> id_form s \<Longrightarrow> listen \<noteq> Some [] \<Longrightarrow> \<forall>m \<in> set (rg_seams (ew_registry w)). sm_id m \<noteq> str_bytes s
    \<Longrightarrow> eworld_reachable pid host (fst (endpoint_init (str_bytes s) pid host listen transport w))"
| Close: "eworld_reachable pid host w \<Longrightarrow> k < length (ew_endpoints w) \<Longrightarrow> eworld_reachable pid host (endpoint_close k w)"
| Drop: "eworld_reachable pid host w \<Longrightarrow> k < length (ew_natives w) \<Longrightarrow> eworld_reachable pid host (native_endpoint_close k w)"
| Shutdown: "eworld_reachable pid host w \<Longrightarrow> eworld_reachable pid host (endpoint_shutdown w)"
| Attach: "eworld_reachable pid host w \<Longrightarrow> kind \<noteq> AEndpoint \<Longrightarrow> attach ok kind n (ew_owner w) = Inr own
    \<Longrightarrow> eworld_reachable pid host (w\<lparr>ew_owner := own\<rparr>)"
| Detach: "eworld_reachable pid host w \<Longrightarrow> kind \<noteq> AEndpoint
    \<Longrightarrow> eworld_reachable pid host (w\<lparr>ew_owner := detach kind (ew_owner w)\<rparr>)"
| Connect: "eworld_reachable pid host w \<Longrightarrow> connect pid host probe meta timeout w = Inr c
    \<Longrightarrow> eworld_reachable pid host (fst (open_connection c w))"
| Disconnect: "eworld_reachable pid host w \<Longrightarrow> k < length (ew_conns w) \<Longrightarrow> eworld_reachable pid host (conn_close k w)"

definition open_natives :: "native_endpoint list \<Rightarrow> nat" where
  "open_natives ns = length (filter (\<lambda>n. \<not> ne_closed n) ns)"

definition transports :: "native_endpoint list \<Rightarrow> nat" where
  "transports ns = length (filter (\<lambda>n. ne_transport n \<and> \<not> ne_closed n) ns)"

definition live_seams :: "native_endpoint list \<Rightarrow> nat set" where
  "live_seams ns = {ne_seam n | n. n \<in> set ns \<and> \<not> ne_closed n}"

definition natives_inv :: "eworld \<Rightarrow> bool" where
  "natives_inv w \<longleftrightarrow> ow_endpoints (ew_owner w) = int (open_natives (ew_natives w))
     \<and> ew_transport_rc w = int (transports (ew_natives w))
     \<and> (ew_listener w \<noteq> None \<longleftrightarrow> 0 < ew_transport_rc w) \<and> ew_listener w \<noteq> Some []
     \<and> (\<forall>n \<in> set (ew_natives w). ne_transport n \<and> \<not> ne_closed n \<longrightarrow> ew_listener w = Some (ne_addr n))
     \<and> distinct (map ne_seam (ew_natives w))
     \<and> (\<forall>n \<in> set (ew_natives w). ne_seam n < length (rg_seams (ew_registry w))
         \<and> sm_closed (rg_seams (ew_registry w) ! ne_seam n) = ne_closed n)"

definition object_ok :: "int \<Rightarrow> string \<Rightarrow> eworld \<Rightarrow> nat \<Rightarrow> bool" where
  "object_ok pid host w k \<longleftrightarrow> (let p = ew_endpoints w ! k; n = ew_natives w ! k in
     ep_native p = k \<and> id_form (ep_id p) \<and> sm_id (native_seam w k) = str_bytes (ep_id p)
     \<and> ep_pid p = pid \<and> ep_host p = host \<and> ep_proto p = ENDPOINT_PROTO_VERSION
     \<and> ep_transport_kind p = (if ne_transport n then ''unix'' else ''none'')
     \<and> ep_transport_addr p = ne_addr n \<and> (ne_transport n \<longleftrightarrow> ne_addr n \<noteq> [])
     \<and> (ep_closed p \<longrightarrow> ne_closed n))"

definition eworld_inv :: "int \<Rightarrow> string \<Rightarrow> eworld \<Rightarrow> bool" where
  "eworld_inv pid host w \<longleftrightarrow> owner_inv (ew_owner w) \<and> natives_inv w
     \<and> reg_inv (ew_registry w) (live_seams (ew_natives w))
     \<and> length (ew_endpoints w) = length (ew_natives w) \<and> (\<forall>k < length (ew_endpoints w). object_ok pid host w k)"


subsection \<open>Preservation\<close>

lemma length_filter_update:
  "k < length xs \<Longrightarrow> length (filter P (xs[k := x])) + (if P (xs ! k) then 1 else 0) = length (filter P xs) + (if P x then 1 else 0)"
proof (induction xs arbitrary: k)
  case (Cons a xs)
  then show ?case by (cases k) (auto split: if_splits)
qed simp

lemma live_seams_append: "live_seams (ns @ [n]) = (if ne_closed n then live_seams ns else insert (ne_seam n) (live_seams ns))"
  by (auto simp: live_seams_def)

lemma live_seams_close:
  assumes "distinct (map ne_seam ns)" "k < length ns"
  shows "live_seams (ns[k := (ns ! k)\<lparr>ne_closed := True\<rparr>]) = live_seams ns - {ne_seam (ns ! k)}"
proof -
  have inj: "j < length ns \<Longrightarrow> ne_seam (ns ! j) = ne_seam (ns ! k) \<longleftrightarrow> j = k" for j
    using assms nth_eq_iff_index_eq [of "map ne_seam ns" j k] by simp
  have at: "i \<in> live_seams ms \<longleftrightarrow> (\<exists>j < length ms. ne_seam (ms ! j) = i \<and> \<not> ne_closed (ms ! j))" for i ms
    by (auto simp: live_seams_def in_set_conv_nth)
  have upd: "i \<in> live_seams (ns[k := (ns ! k)\<lparr>ne_closed := True\<rparr>])
      \<longleftrightarrow> (\<exists>j < length ns. j \<noteq> k \<and> ne_seam (ns ! j) = i \<and> \<not> ne_closed (ns ! j))" for i
    unfolding at length_list_update using assms(2) by (intro ex_cong1) (auto simp: nth_list_update split: if_splits)
  show ?thesis
  proof (rule set_eqI)
    fix i
    show "i \<in> live_seams (ns[k := (ns ! k)\<lparr>ne_closed := True\<rparr>]) \<longleftrightarrow> i \<in> live_seams ns - {ne_seam (ns ! k)}"
      unfolding Diff_iff at [of i ns] upd singleton_iff using inj by (metis (no_types))
  qed
qed

lemma eworld_inv_new: "eworld_inv pid host new_eworld"
  using new_owner_inv reg_inv_new
  by (simp add: eworld_inv_def natives_inv_def new_eworld_def new_owner_def new_registry_def open_natives_def
      transports_def live_seams_def)

lemma endpoint_kept:
  assumes "attach ok kind n own = Inr own'" "kind \<noteq> AEndpoint"
  shows "ow_endpoints own' = ow_endpoints own"
  using assms by (cases kind) (auto simp: start_hpx_locked_def rbind_eq_Inr split: if_splits)

lemma endpoint_kept_detach: "kind \<noteq> AEndpoint \<Longrightarrow> ow_endpoints (detach kind own) = ow_endpoints own"
  by (cases kind) (auto simp: stop_hpx_locked_def Let_def)

lemma eworld_inv_owner:
  assumes "eworld_inv pid host w" "owner_inv own" "ow_endpoints own = ow_endpoints (ew_owner w)"
  shows "eworld_inv pid host (w\<lparr>ew_owner := own\<rparr>)"
  using assms by (simp add: eworld_inv_def natives_inv_def object_ok_def native_seam_def Let_def)

lemma eworld_inv_conns: "eworld_inv pid host (w\<lparr>ew_conns := cs\<rparr>) = eworld_inv pid host w"
  by (simp add: eworld_inv_def natives_inv_def object_ok_def native_seam_def Let_def)

lemma eworld_inv_shutdown:
  assumes "eworld_inv pid host w"
  shows "eworld_inv pid host (endpoint_shutdown w)"
proof (cases "ow_endpoints (ew_owner w) = 0")
  case True
  have "\<not> (ew_transport_rc w = 0 \<and> ew_listener w \<noteq> None)" using assms by (auto simp: eworld_inv_def natives_inv_def)
  then have "endpoint_shutdown w = w\<lparr>ew_registry := clear_tombstones (ew_registry w)\<rparr>"
    using True by (auto simp: endpoint_shutdown_def)
  then show ?thesis using assms
    by (simp add: eworld_inv_def natives_inv_def object_ok_def native_seam_def Let_def reg_inv_clear)
      (simp add: clear_tombstones_def)
qed (use assms in \<open>simp add: endpoint_shutdown_def\<close>)


definition closed_native :: "nat \<Rightarrow> eworld \<Rightarrow> native_endpoint list" where
  "closed_native k w = (ew_natives w)[k := (ew_natives w ! k)\<lparr>ne_closed := True\<rparr>]"

lemma close_counts:
  assumes "k < length (ew_natives w)" "\<not> ne_closed (ew_natives w ! k)"
  shows "Suc (open_natives (closed_native k w)) = open_natives (ew_natives w)"
    and "transports (closed_native k w) + (if ne_transport (ew_natives w ! k) then 1 else 0) = transports (ew_natives w)"
  using assms length_filter_update [OF assms(1), of "\<lambda>n. \<not> ne_closed n" "(ew_natives w ! k)\<lparr>ne_closed := True\<rparr>"]
    length_filter_update [OF assms(1), of "\<lambda>n. ne_transport n \<and> \<not> ne_closed n" "(ew_natives w ! k)\<lparr>ne_closed := True\<rparr>"]
  by (simp_all add: open_natives_def transports_def closed_native_def)

definition left_registry :: "nat \<Rightarrow> eworld \<Rightarrow> seam_registry" where
  "left_registry k w = (let i = ne_seam (ew_natives w ! k);
     r = unregister (sm_id (native_seam w k)) (close_seam i (ew_registry w)) in
     if ow_endpoints (ew_owner w) = 1 then clear_tombstones r else r)"

lemma native_close_eq:
  assumes w: "natives_inv w" and k: "k < length (ew_natives w)" "\<not> ne_closed (ew_natives w ! k)"
  shows "native_endpoint_close k w = w\<lparr>ew_natives := closed_native k w, ew_registry := left_registry k w,
     ew_transport_rc := int (transports (closed_native k w)),
     ew_listener := (if transports (closed_native k w) = 0 then None else ew_listener w),
     ew_owner := (ew_owner w)\<lparr>ow_endpoints := int (open_natives (closed_native k w))\<rparr>\<rparr>"
proof -
  let ?t = "ne_transport (ew_natives w ! k)"
  have o: "ow_endpoints (ew_owner w) = int (open_natives (closed_native k w)) + 1"
    using w close_counts(1) [OF k] by (simp add: natives_inv_def)
  have t: "ew_transport_rc w = int (transports (closed_native k w)) + (if ?t then 1 else 0)"
    using w close_counts(2) [OF k] by (auto simp: natives_inv_def)
  have l: "\<not> ?t \<Longrightarrow> transports (closed_native k w) = 0 \<Longrightarrow> ew_listener w = None"
    using w t by (auto simp: natives_inv_def)
  show ?thesis
  proof (cases ?t)
    case True
    then show ?thesis using k(2) o t
      by (simp add: native_endpoint_close_def Let_def endpoint_transport_release_def left_registry_def closed_native_def)
  next
    case False
    then show ?thesis using k(2) o t l
      by (simp add: native_endpoint_close_def Let_def left_registry_def closed_native_def)
  qed
qed

lemma left_registry_facts:
  "length (rg_seams (left_registry k w)) = length (rg_seams (ew_registry w))"
  "rg_seams (left_registry k w) = rg_seams (close_seam (ne_seam (ew_natives w ! k)) (ew_registry w))"
  by (simp_all add: left_registry_def Let_def clear_tombstones_def unregister_def close_seam_def)

lemma left_registry_inv:
  assumes "natives_inv w" "reg_inv (ew_registry w) (live_seams (ew_natives w))" "k < length (ew_natives w)"
  shows "reg_inv (left_registry k w) (live_seams (closed_native k w))"
proof -
  have d: "distinct (map ne_seam (ew_natives w))" and i: "ne_seam (ew_natives w ! k) < length (rg_seams (ew_registry w))"
    using assms by (simp_all add: natives_inv_def)
  show ?thesis using reg_inv_leave [OF assms(2) i]
    unfolding left_registry_def closed_native_def live_seams_close [OF d assms(3)] native_seam_def Let_def
    by (simp add: reg_inv_clear)
qed

lemma native_close_natives_inv:
  assumes w: "natives_inv w" and k: "k < length (ew_natives w)" "\<not> ne_closed (ew_natives w ! k)"
  shows "natives_inv (native_endpoint_close k w)"
proof -
  let ?ns = "closed_native k w"
  let ?i = "ne_seam (ew_natives w ! k)"
  have d: "distinct (map ne_seam (ew_natives w))" and i: "?i < length (rg_seams (ew_registry w))"
    using w k by (simp_all add: natives_inv_def)
  have ids: "map ne_seam ?ns = map ne_seam (ew_natives w)"
    using k by (simp add: closed_native_def map_update list_update_same_conv)
  have at: "j < length (ew_natives w) \<Longrightarrow> ?ns ! j = (if j = k then (ew_natives w ! k)\<lparr>ne_closed := True\<rparr> else ew_natives w ! j)" for j
    by (simp add: closed_native_def nth_list_update)
  have inj: "j < length (ew_natives w) \<Longrightarrow> j \<noteq> k \<Longrightarrow> ne_seam (ew_natives w ! j) \<noteq> ?i" for j
    using d k(1) nth_eq_iff_index_eq [of "map ne_seam (ew_natives w)" j k] by simp
  have old: "ne_seam (ew_natives w ! j) < length (rg_seams (ew_registry w))
      \<and> sm_closed (rg_seams (ew_registry w) ! ne_seam (ew_natives w ! j)) = ne_closed (ew_natives w ! j)
      \<and> (ne_transport (ew_natives w ! j) \<and> \<not> ne_closed (ew_natives w ! j) \<longrightarrow> ew_listener w = Some (ne_addr (ew_natives w ! j)))"
    if "j < length (ew_natives w)" for j using w that by (simp add: natives_inv_def)
  have elem: "n = (ew_natives w ! k)\<lparr>ne_closed := True\<rparr> \<or> (\<exists>j < length (ew_natives w). j \<noteq> k \<and> n = ew_natives w ! j)"
    if "n \<in> set ?ns" for n
  proof -
    obtain j where j: "j < length (ew_natives w)" "n = ?ns ! j"
      using \<open>n \<in> set ?ns\<close> by (auto simp: in_set_conv_nth closed_native_def)
    then show ?thesis using at [OF j(1)] by (cases "j = k") auto
  qed
  have seams: "ne_seam n < length (rg_seams (left_registry k w)) \<and> sm_closed (rg_seams (left_registry k w) ! ne_seam n) = ne_closed n"
    if "n \<in> set ?ns" for n
    using elem [OF that]
  proof (elim disjE exE conjE)
    assume "n = (ew_natives w ! k)\<lparr>ne_closed := True\<rparr>"
    then show ?thesis using i by (simp add: left_registry_facts close_seam_def)
  next
    fix j assume "j < length (ew_natives w)" "j \<noteq> k" "n = ew_natives w ! j"
    then show ?thesis using old [of j] inj [of j] by (simp add: left_registry_facts close_seam_def)
  qed
  have some: "transports ?ns = 0 \<Longrightarrow> n \<in> set ?ns \<Longrightarrow> ne_transport n \<Longrightarrow> ne_closed n" for n
    by (auto simp: transports_def filter_empty_conv)
  have listening: "n \<in> set ?ns \<Longrightarrow> ne_transport n \<Longrightarrow> \<not> ne_closed n \<Longrightarrow> ew_listener w = Some (ne_addr n)" for n
    using elem [of n] old by auto
  have l: "0 < transports ?ns \<Longrightarrow> ew_listener w \<noteq> None" "ew_listener w \<noteq> Some []"
    using w close_counts(2) [OF k] by (auto simp: natives_inv_def)
  show ?thesis unfolding native_close_eq [OF w k] natives_inv_def
    using seams some listening l d ids by (auto simp del: ids)
qed


lemma eworld_inv_close:
  assumes w: "owner_inv (ew_owner w)" "natives_inv w" "reg_inv (ew_registry w) (live_seams (ew_natives w))"
    "length (ew_endpoints w) = length (ew_natives w)" and k: "k < length (ew_natives w)"
    and ok: "\<And>j. j < length (ew_natives w) \<Longrightarrow> j \<noteq> k \<Longrightarrow> object_ok pid host w j"
      "object_ok pid host (w\<lparr>ew_natives := closed_native k w\<rparr>) k"
  shows "eworld_inv pid host (native_endpoint_close k w)"
proof (cases "ne_closed (ew_natives w ! k)")
  case True
  then have "(ew_natives w ! k)\<lparr>ne_closed := True\<rparr> = ew_natives w ! k" by (cases "ew_natives w ! k") simp
  then have "closed_native k w = ew_natives w" by (simp add: closed_native_def)
  then have "object_ok pid host w j" if "j < length (ew_natives w)" for j
    using ok(1) [OF that] ok(2) by (cases "j = k") simp_all
  then show ?thesis using w True by (simp add: eworld_inv_def native_endpoint_close_def Let_def)
next
  case False
  note eq = native_close_eq [OF w(2) k False]
  have seams: "sm_id (rg_seams (left_registry k w) ! i) = sm_id (rg_seams (ew_registry w) ! i)" for i
    unfolding left_registry_facts close_seam_def
    by (cases "i = ne_seam (ew_natives w ! k)"; cases "i < length (rg_seams (ew_registry w))") (simp_all add: list_update_beyond)
  have "object_ok pid host (native_endpoint_close k w) j" if j: "j < length (ew_natives w)" for j
  proof (cases "j = k")
    case True
    then show ?thesis using ok(2) k unfolding eq object_ok_def Let_def native_seam_def
      by (simp add: seams)
  next
    case False
    then show ?thesis using ok(1) [OF j] unfolding eq object_ok_def Let_def native_seam_def
      by (simp add: seams closed_native_def)
  qed
  moreover have "owner_inv (ew_owner (native_endpoint_close k w))"
    using w(1,2) close_counts(1) [OF k False] unfolding eq by (auto simp: natives_inv_def owner_inv_def)
  moreover have "reg_inv (left_registry k w) (live_seams (closed_native k w))"
    by (rule left_registry_inv [OF w(2,3) k])
  ultimately show ?thesis using native_close_natives_inv [OF w(2) k False] w(4)
    unfolding eworld_inv_def by (simp add: eq closed_native_def)
qed

lemma eworld_inv_drop:
  assumes "eworld_inv pid host w" "k < length (ew_natives w)"
  shows "eworld_inv pid host (native_endpoint_close k w)"
proof -
  have w: "owner_inv (ew_owner w)" "natives_inv w" "reg_inv (ew_registry w) (live_seams (ew_natives w))"
    "length (ew_endpoints w) = length (ew_natives w)" and ok: "\<And>j. j < length (ew_natives w) \<Longrightarrow> object_ok pid host w j"
    using assms(1) by (simp_all add: eworld_inv_def)
  have "object_ok pid host (w\<lparr>ew_natives := closed_native k w\<rparr>) k"
    using ok [OF assms(2)] assms(2) by (simp add: object_ok_def closed_native_def native_seam_def Let_def)
  with w assms(2) ok show ?thesis by (intro eworld_inv_close) simp_all
qed

lemma eworld_inv_endpoint_close:
  assumes inv: "eworld_inv pid host w" and k: "k < length (ew_endpoints w)"
  shows "eworld_inv pid host (endpoint_close k w)"
proof (cases "ep_closed (ew_endpoints w ! k)")
  case True
  then show ?thesis using inv by (simp add: endpoint_close_def Let_def)
next
  case False
  let ?w = "w\<lparr>ew_endpoints := (ew_endpoints w)[k := (ew_endpoints w ! k)\<lparr>ep_closed := True\<rparr>]\<rparr>"
  have k': "k < length (ew_natives w)" using inv k by (simp add: eworld_inv_def)
  have ok: "\<And>j. j < length (ew_natives w) \<Longrightarrow> object_ok pid host w j" using inv by (simp add: eworld_inv_def)
  have "endpoint_close k w = native_endpoint_close k ?w"
    using ok [OF k'] False by (simp add: endpoint_close_def object_ok_def Let_def)
  moreover have "eworld_inv pid host (native_endpoint_close k ?w)"
  proof (rule eworld_inv_close)
    show "object_ok pid host (?w\<lparr>ew_natives := closed_native k ?w\<rparr>) k"
      using ok [OF k'] k k' by (simp add: object_ok_def closed_native_def native_seam_def Let_def)
    show "object_ok pid host ?w j" if "j < length (ew_natives ?w)" "j \<noteq> k" for j
      using ok [of j] that by (simp add: object_ok_def native_seam_def Let_def)
  qed (use inv k' in \<open>simp_all add: eworld_inv_def natives_inv_def\<close>)
  ultimately show ?thesis by simp
qed


lemma attach_endpoint: "attach ok AEndpoint n own = (if ow_engine own then Inl RuntimeError
    else Inr (own\<lparr>ow_endpoints := ow_endpoints own + 1\<rparr>))"
  by simp

lemma id_form_bytes: "id_form s \<Longrightarrow> bytes_str (str_bytes s) = s"
proof -
  assume "id_form s"
  then have "is_ascii s" using id_form_wire by (simp add: wire_id_def)
  then have "map (\<lambda>b. char_of (unat b)) (map of_char s :: byte list) = s"
    using ascii_roundtrip [of s] by (auto simp: ascii_decode_def split: if_splits)
  then show ?thesis by (simp add: bytes_str_def str_bytes_def)
qed

definition opened :: "byte list \<Rightarrow> int \<Rightarrow> string \<Rightarrow> string \<Rightarrow> bool \<Rightarrow> eworld \<Rightarrow> eworld" where
  "opened eid pid host path transport w = (let i = length (rg_seams (ew_registry w)); k = length (ew_natives w) in
     w\<lparr>ew_owner := (ew_owner w)\<lparr>ow_endpoints := ow_endpoints (ew_owner w) + 1\<rparr>,
       ew_registry := register_seam i ((ew_registry w)\<lparr>rg_seams := rg_seams (ew_registry w) @ [\<lparr>sm_id = eid, sm_pid = pid, sm_closed = False\<rparr>]\<rparr>),
       ew_transport_rc := ew_transport_rc w + (if transport then 1 else 0),
       ew_listener := (if transport then Some path else ew_listener w),
       ew_natives := ew_natives w @ [\<lparr>ne_seam = i, ne_transport = transport, ne_addr = path, ne_closed = False\<rparr>],
       ew_endpoints := ew_endpoints w @ [\<lparr>ep_native = k, ep_id = bytes_str eid, ep_pid = pid,
         ep_proto = ENDPOINT_PROTO_VERSION, ep_host = host, ep_transport_kind = (if transport then ''unix'' else ''none''),
         ep_transport_addr = path, ep_closed = False\<rparr>]\<rparr>)"

definition opens_at :: "string option \<Rightarrow> bool \<Rightarrow> eworld \<Rightarrow> string option" where
  "opens_at listen transport w =
     (if ow_engine (ew_owner w) then None else if \<not> transport then Some []
      else case ew_listener w of Some path \<Rightarrow> Some path | None \<Rightarrow> listen)"

lemma register_seam_seams: "rg_seams (register_seam i r) = rg_seams r"
  by (simp add: register_seam_def Let_def)

lemma endpoint_init_ok:
  assumes "opens_at listen transport w = Some path" and "length (ew_endpoints w) = length (ew_natives w)"
  shows "endpoint_init eid pid host listen transport w = (opened eid pid host path transport w, Inr (length (ew_natives w)))"
proof -
  have "native_endpoint_new eid pid listen transport w
    = ((opened eid pid host path transport w)\<lparr>ew_endpoints := ew_endpoints w\<rparr>, Inr (length (ew_natives w)))"
    using assms(1) by (auto simp: opens_at_def native_endpoint_new_def attach_endpoint add_seam_def Let_def
        endpoint_transport_acquire_def opened_def split: if_splits option.splits)
  then show ?thesis using assms(2)
    by (simp add: endpoint_init_def opened_def native_seam_def register_seam_seams Let_def)
qed

lemma opens_at_None: "opens_at listen transport w = None \<longleftrightarrow>
    ow_engine (ew_owner w) \<or> (transport \<and> ew_listener w = None \<and> listen = None)"
  by (auto simp: opens_at_def split: option.splits)

definition failed_registry :: "byte list \<Rightarrow> int \<Rightarrow> eworld \<Rightarrow> seam_registry" where
  "failed_registry eid pid w = unregister eid (register_seam (length (rg_seams (ew_registry w)))
     ((ew_registry w)\<lparr>rg_seams := rg_seams (ew_registry w) @ [\<lparr>sm_id = eid, sm_pid = pid, sm_closed = False\<rparr>]\<rparr>))"

lemma endpoint_init_fails:
  assumes "opens_at listen transport w = None" and "0 \<le> ow_endpoints (ew_owner w)"
  shows "endpoint_init eid pid host listen transport w = (if ow_engine (ew_owner w) then w
    else w\<lparr>ew_registry := failed_registry eid pid w\<rparr>, Inl EndpointError)"
proof (cases "ow_engine (ew_owner w)")
  case True
  then show ?thesis by (simp add: endpoint_init_def reraise_def native_endpoint_new_def attach_endpoint)
next
  case False
  then have "transport" "ew_listener w = None" "listen = None" using assms(1) by (auto simp: opens_at_None)
  then show ?thesis using False assms(2)
    by (simp add: endpoint_init_def reraise_def native_endpoint_new_def attach_endpoint add_seam_def Let_def
      endpoint_transport_acquire_def failed_registry_def)
qed

lemma unregister_seams: "rg_seams (unregister e r) = rg_seams r"
  by (simp add: unregister_def)

lemma eworld_inv_grow:
  assumes inv: "eworld_inv pid host w" and r: "rg_seams r = rg_seams (ew_registry w) @ [s]" "reg_inv r (live_seams (ew_natives w))"
  shows "eworld_inv pid host (w\<lparr>ew_registry := r\<rparr>)"
proof -
  have "ne_seam (ew_natives w ! k) < length (rg_seams (ew_registry w))" if "k < length (ew_natives w)" for k
    using inv that by (simp add: eworld_inv_def natives_inv_def)
  then have "object_ok pid host (w\<lparr>ew_registry := r\<rparr>) k = object_ok pid host w k" if "k < length (ew_natives w)" for k
    using that by (simp add: object_ok_def native_seam_def r(1) nth_append)
  moreover have "natives_inv (w\<lparr>ew_registry := r\<rparr>)"
    using inv by (auto simp: eworld_inv_def natives_inv_def r(1) nth_append)
  ultimately show ?thesis using inv r(2) by (simp add: eworld_inv_def)
qed

lemma eworld_inv_open:
  assumes inv: "eworld_inv pid host w" and s: "id_form s" and listen: "listen \<noteq> Some []"
    and fresh: "\<forall>m \<in> set (rg_seams (ew_registry w)). sm_id m \<noteq> str_bytes s"
  shows "eworld_inv pid host (fst (endpoint_init (str_bytes s) pid host listen transport w))"
proof -
  let ?n = "length (rg_seams (ew_registry w))"
  let ?s = "\<lparr>sm_id = str_bytes s, sm_pid = pid, sm_closed = False\<rparr>"
  let ?r = "register_seam ?n ((ew_registry w)\<lparr>rg_seams := rg_seams (ew_registry w) @ [?s]\<rparr>)"
  have len: "length (ew_endpoints w) = length (ew_natives w)" and own: "owner_inv (ew_owner w)"
    and nat: "natives_inv w" and ok: "\<And>k. k < length (ew_natives w) \<Longrightarrow> object_ok pid host w k"
    and reg: "reg_inv (ew_registry w) (live_seams (ew_natives w))"
    using inv by (simp_all add: eworld_inv_def)
  have r: "reg_inv ?r (insert ?n (live_seams (ew_natives w)))"
    by (rule reg_inv_add [OF reg fresh refl]) simp_all
  have seams: "rg_seams ?r = rg_seams (ew_registry w) @ [?s]" by (simp add: register_seam_seams)
  have n: "?n \<notin> live_seams (ew_natives w)" using nat by (auto simp: live_seams_def natives_inv_def)
  have below: "ne_seam m < ?n" if "m \<in> set (ew_natives w)" for m using nat that by (simp add: natives_inv_def)
  show ?thesis
  proof (cases "opens_at listen transport w")
    case None
    have "reg_inv (unregister (str_bytes s) ?r) (live_seams (ew_natives w))"
      using reg_inv_unregister [OF r, of ?n "str_bytes s"] n by (simp add: register_seam_seams nth_append)
    then have "eworld_inv pid host (w\<lparr>ew_registry := failed_registry (str_bytes s) pid w\<rparr>)"
      unfolding failed_registry_def by (intro eworld_inv_grow [OF inv, of _ ?s]) (simp_all add: unregister_seams register_seam_seams)
    moreover have "0 \<le> ow_endpoints (ew_owner w)" using nat by (simp add: natives_inv_def)
    ultimately show ?thesis using endpoint_init_fails [OF None, of "str_bytes s" pid host] inv by simp
  next
    case (Some path)
    let ?w = "opened (str_bytes s) pid host path transport w"
    have path: "transport \<longleftrightarrow> path \<noteq> []" "ew_listener w = None \<or> \<not> transport \<or> ew_listener w = Some path"
      and free: "\<not> ow_engine (ew_owner w)"
      using Some listen nat by (auto simp: opens_at_def natives_inv_def split: if_splits option.splits)
    have counts: "open_natives (ew_natives ?w) = Suc (open_natives (ew_natives w))"
      "transports (ew_natives ?w) = transports (ew_natives w) + (if transport then 1 else 0)"
      by (simp_all add: opened_def Let_def open_natives_def transports_def)
    have listening: "m \<in> set (ew_natives w) \<Longrightarrow> ne_transport m \<Longrightarrow> \<not> ne_closed m \<Longrightarrow> transport \<Longrightarrow> ne_addr m = path" for m
      using nat path(2) by (auto simp: natives_inv_def)
    have new: "ew_natives ?w = ew_natives w @ [\<lparr>ne_seam = ?n, ne_transport = transport, ne_addr = path, ne_closed = False\<rparr>]"
      "rg_seams (ew_registry ?w) = rg_seams (ew_registry w) @ [?s]"
      by (simp_all add: opened_def Let_def register_seam_seams)
    have "natives_inv ?w" unfolding natives_inv_def counts
    proof (intro conjI)
      show "ow_endpoints (ew_owner ?w) = int (Suc (open_natives (ew_natives w)))"
        "ew_transport_rc ?w = int (transports (ew_natives w) + (if transport then 1 else 0))"
        "(ew_listener ?w \<noteq> None) = (0 < ew_transport_rc ?w)" "ew_listener ?w \<noteq> Some []"
        using nat path(1) by (simp_all add: natives_inv_def opened_def Let_def)
      show "\<forall>m \<in> set (ew_natives ?w). ne_transport m \<and> \<not> ne_closed m \<longrightarrow> ew_listener ?w = Some (ne_addr m)"
        unfolding new(1) using nat listening by (auto simp: natives_inv_def opened_def Let_def)
      have "?n \<notin> ne_seam ` set (ew_natives w)" using below by force
      then show "distinct (map ne_seam (ew_natives ?w))" unfolding new(1) using nat by (simp add: natives_inv_def)
      show "\<forall>m \<in> set (ew_natives ?w). ne_seam m < length (rg_seams (ew_registry ?w))
          \<and> sm_closed (rg_seams (ew_registry ?w) ! ne_seam m) = ne_closed m"
        unfolding new using nat by (auto simp: natives_inv_def nth_append)
    qed
    moreover have "owner_inv (ew_owner ?w)" using own free
      by (simp add: opened_def Let_def owner_inv_def)
    moreover have "reg_inv (ew_registry ?w) (live_seams (ew_natives ?w))"
      using r by (simp add: opened_def Let_def live_seams_append)
    moreover have "object_ok pid host ?w k" if "k < length (ew_endpoints ?w)" for k
    proof (cases "k = length (ew_natives w)")
      case True
      then show ?thesis using path(1) s len
        by (simp add: object_ok_def native_seam_def opened_def Let_def register_seam_seams id_form_bytes nth_append)
    next
      case False
      then have k: "k < length (ew_natives w)" using that len by (simp add: opened_def Let_def)
      then show ?thesis using ok [OF k] len below [OF nth_mem [OF k]]
        by (simp add: object_ok_def native_seam_def opened_def Let_def register_seam_seams nth_append)
    qed
    ultimately show ?thesis using len endpoint_init_ok [OF Some len]
      unfolding eworld_inv_def by (simp add: opened_def Let_def)
  qed
qed


lemma eworld_reachable_inv: "eworld_reachable pid host w \<Longrightarrow> eworld_inv pid host w"
proof (induction rule: eworld_reachable.induct)
  case New
  then show ?case by (rule eworld_inv_new)
next
  case (Open w s listen transport)
  then show ?case by (intro eworld_inv_open)
next
  case (Close w k)
  then show ?case by (intro eworld_inv_endpoint_close)
next
  case (Drop w k)
  then show ?case by (intro eworld_inv_drop)
next
  case (Shutdown w)
  then show ?case by (intro eworld_inv_shutdown)
next
  case (Attach w kind ok n own)
  then show ?case using attach_inv endpoint_kept by (intro eworld_inv_owner) (auto simp: eworld_inv_def)
next
  case (Detach w kind)
  then show ?case using detach_inv endpoint_kept_detach by (intro eworld_inv_owner) (auto simp: eworld_inv_def)
next
  case (Connect w probe meta timeout c)
  then show ?case by (simp add: open_connection_def eworld_inv_conns)
next
  case (Disconnect w k)
  then show ?case by (simp add: conn_close_def eworld_inv_conns Let_def)
qed

subsection \<open>What the registry and the listener hold\<close>

definition endpoint_open :: "eworld \<Rightarrow> nat \<Rightarrow> bool" where
  "endpoint_open w k = (\<not> ne_closed (ew_natives w ! k))"

lemma live_iff:
  assumes "natives_inv w" "k < length (ew_natives w)"
  shows "ne_seam (ew_natives w ! k) \<in> live_seams (ew_natives w) \<longleftrightarrow> endpoint_open w k"
proof -
  have "j < length (ew_natives w) \<Longrightarrow> ne_seam (ew_natives w ! j) = ne_seam (ew_natives w ! k) \<longleftrightarrow> j = k" for j
    using assms nth_eq_iff_index_eq [of "map ne_seam (ew_natives w)" j k] by (simp add: natives_inv_def)
  then show ?thesis using assms(2) unfolding live_seams_def endpoint_open_def in_set_conv_nth by auto metis
qed

lemma open_transport:
  "0 < transports (ew_natives w) \<longleftrightarrow> (\<exists>k < length (ew_natives w). endpoint_open w k \<and> ne_transport (ew_natives w ! k))"
  unfolding transports_def endpoint_open_def length_greater_0_conv filter_empty_conv by (auto simp: set_conv_nth)

text \<open>
  C23. In every state a process can reach, the registry resolves an endpoint's id exactly while the
  endpoint is open (a closed one reads as closed or absent, never live); the transport listener runs
  exactly while an open endpoint uses it, at the address that endpoint's metadata names; and the process
  owner counts exactly the open endpoints.
\<close>

theorem registry_exact:
  assumes "eworld_reachable pid host w"
  shows "(\<forall>k < length (ew_endpoints w).
      (lookup_seam (str_bytes (ep_id (ew_endpoints w ! k))) (ew_registry w) = LOOKUP_LIVE (ne_seam (ew_natives w ! k))
        \<longleftrightarrow> endpoint_open w k)
      \<and> (\<not> endpoint_open w k \<longrightarrow> resolve (str_bytes (ep_id (ew_endpoints w ! k))) (ew_registry w) = None)
      \<and> (ep_closed (ew_endpoints w ! k) \<longrightarrow> \<not> endpoint_open w k)
      \<and> (endpoint_open w k \<and> ep_transport_kind (ew_endpoints w ! k) = ''unix''
          \<longrightarrow> ew_listener w = Some (ep_transport_addr (ew_endpoints w ! k))))
    \<and> (ew_listener w \<noteq> None \<longleftrightarrow> (\<exists>k < length (ew_natives w). endpoint_open w k \<and> ne_transport (ew_natives w ! k)))
    \<and> ow_endpoints (ew_owner w) = int (card {k. k < length (ew_natives w) \<and> endpoint_open w k})"
proof -
  have inv: "owner_inv (ew_owner w)" "natives_inv w" "reg_inv (ew_registry w) (live_seams (ew_natives w))"
    "length (ew_endpoints w) = length (ew_natives w)" "\<And>k. k < length (ew_natives w) \<Longrightarrow> object_ok pid host w k"
    using eworld_reachable_inv [OF assms] by (simp_all add: eworld_inv_def)
  have each: "(lookup_seam (str_bytes (ep_id (ew_endpoints w ! k))) (ew_registry w) = LOOKUP_LIVE (ne_seam (ew_natives w ! k))
        \<longleftrightarrow> endpoint_open w k)
      \<and> (\<not> endpoint_open w k \<longrightarrow> resolve (str_bytes (ep_id (ew_endpoints w ! k))) (ew_registry w) = None)
      \<and> (ep_closed (ew_endpoints w ! k) \<longrightarrow> \<not> endpoint_open w k)
      \<and> (endpoint_open w k \<and> ep_transport_kind (ew_endpoints w ! k) = ''unix''
          \<longrightarrow> ew_listener w = Some (ep_transport_addr (ew_endpoints w ! k)))"
    if k: "k < length (ew_natives w)" for k
  proof -
    have ok: "object_ok pid host w k" by (rule inv(5) [OF k])
    then have eid: "str_bytes (ep_id (ew_endpoints w ! k)) = sm_id (rg_seams (ew_registry w) ! ne_seam (ew_natives w ! k))"
      by (simp add: object_ok_def native_seam_def Let_def)
    have i: "ne_seam (ew_natives w ! k) < length (rg_seams (ew_registry w))"
      and addr: "ne_transport (ew_natives w ! k) \<and> \<not> ne_closed (ew_natives w ! k) \<longrightarrow> ew_listener w = Some (ne_addr (ew_natives w ! k))"
      using inv(2) k by (simp_all add: natives_inv_def)
    note look = reg_inv_lookup [OF inv(3) i, unfolded live_iff [OF inv(2) k]]
    show ?thesis unfolding eid
    proof (intro conjI impI)
      show "resolve (sm_id (rg_seams (ew_registry w) ! ne_seam (ew_natives w ! k))) (ew_registry w) = None"
        if "\<not> endpoint_open w k" using look(2) [OF that] by (simp add: resolve_lookup)
      show "\<not> endpoint_open w k" if "ep_closed (ew_endpoints w ! k)"
        using that ok by (simp add: object_ok_def endpoint_open_def Let_def)
      show "ew_listener w = Some (ep_transport_addr (ew_endpoints w ! k))"
        if "endpoint_open w k \<and> ep_transport_kind (ew_endpoints w ! k) = ''unix''"
        using that ok addr by (auto simp: object_ok_def endpoint_open_def Let_def split: if_splits)
    qed (rule look(1))
  qed
  have "ow_endpoints (ew_owner w) = int (card {k. k < length (ew_natives w) \<and> endpoint_open w k})"
    using inv(2) by (simp add: natives_inv_def open_natives_def endpoint_open_def length_filter_conv_card)
  moreover have "ew_listener w \<noteq> None \<longleftrightarrow> (\<exists>k < length (ew_natives w). endpoint_open w k \<and> ne_transport (ew_natives w ! k))"
    unfolding open_transport [symmetric] using inv(2) by (auto simp: natives_inv_def)
  ultimately show ?thesis using each inv(4) by auto
qed


lemma registry_exact_witness:
  "let w = fst (endpoint_init (str_bytes ''rtb-ep-0123456789abcdef'') 7 ''n1'' (Some ''/tmp/s'') True new_eworld) in
     ew_listener w = Some ''/tmp/s'' \<and> ow_endpoints (ew_owner w) = 1 \<and> endpoint_open w 0
     \<and> lookup_seam (str_bytes ''rtb-ep-0123456789abcdef'') (ew_registry w) = LOOKUP_LIVE 0"
proof -
  let ?e = "''rtb-ep-0123456789abcdef''"
  let ?w = "fst (endpoint_init (str_bytes ?e) 7 ''n1'' (Some ''/tmp/s'') True new_eworld)"
  have f: "id_form ?e" by (simp add: id_form_def hex_lower_def)
  have "eworld_reachable 7 ''n1'' ?w"
    by (rule eworld_reachable.Open [OF eworld_reachable.New f]) (simp_all add: new_eworld_def new_registry_def)
  note r = registry_exact [OF this]
  have w: "?w = opened (str_bytes ?e) 7 ''n1'' ''/tmp/s'' True new_eworld"
    using endpoint_init_ok [of "Some ''/tmp/s''" True new_eworld "''/tmp/s''" "str_bytes ?e" 7 "''n1''"]
    by (simp add: opens_at_def new_eworld_def new_owner_def)
  have o: "endpoint_open ?w 0" "length (ew_endpoints ?w) = 1" "ep_id (ew_endpoints ?w ! 0) = ?e"
    "ne_seam (ew_natives ?w ! 0) = 0" "ew_listener ?w = Some ''/tmp/s''" "ow_endpoints (ew_owner ?w) = 1"
    unfolding w using id_form_bytes [OF f]
    by (simp_all add: endpoint_open_def opened_def Let_def new_eworld_def new_owner_def new_registry_def)
  have "lookup_seam (str_bytes ?e) (ew_registry ?w) = LOOKUP_LIVE 0" using r o(1-4) by auto
  then show ?thesis unfolding Let_def using o by simp
qed

end
