(* ===== verification/EndpointProps.thy ===== *)
theory EndpointProps
  imports EndpointFacadeInv
begin

text \<open>
  What a user of the endpoint layer sees: from the metadata of an endpoint to a connection and its ping, in
  one process and between two, after a close, and the errors each call can raise.
\<close>

subsection \<open>Errors\<close>

lemma validate_metadata_exc: "validate_metadata v = Inl e \<Longrightarrow> e = TypeError \<or> e = ValueError"
  by (cases v) (auto simp: validate_metadata_def rbind_eq_Inl key_error_def validate_endpoint_id_def meta_nonneg_def
      meta_str_def split: if_splits pyval.splits)

lemma validate_nonce_exc: "validate_nonce v = Inl e \<Longrightarrow> e = TypeError \<or> e = ValueError"
  by (auto simp: validate_nonce_def split: if_splits)

lemma validate_nonce_Inr: "validate_nonce v = Inr n \<longleftrightarrow> v = VInt n \<and> i64 n"
  by (cases v) (auto simp: validate_nonce_def i64_def INT64_LOW_def INT64_HIGH_def)

lemma reraise_exc:
  assumes "reraise [ValueError, TypeError] EndpointValidationError r = Inl e" "\<And>x. r = Inl x \<Longrightarrow> x = TypeError \<or> x = ValueError"
  shows "e = EndpointValidationError"
  using assms by (cases r) (auto simp: reraise_def)

lemma reraise_Inr: "reraise cs to (Inr x) = Inr x"
  by (simp add: reraise_def)

lemma reraise_eq_Inr: "reraise cs to r = Inr x \<longleftrightarrow> r = Inr x"
  by (cases r) (simp_all add: reraise_def)

lemma cross_i64: "i64 n \<Longrightarrow> cross_int64 (VInt n) = Inr n"
  by (simp add: cross_int64_def i64_def)

lemma bridge_arg_exc: "mapM_idx bridge_arg i args = Inl e \<Longrightarrow> e = EndpointValidationError"
  by (induction args arbitrary: i) (auto simp: rbind_eq_Inl bridge_arg_def split: if_splits)

lemma connect_errors:
  assumes "connect pid host probe v timeout w = Inl e"
  shows "caught_by EndpointError e
    \<or> (\<exists>m. validate_metadata v = Inr m \<and> md_transport_kind m = ''unix'' \<and> md_pid m \<noteq> pid \<and> md_host m = host
        \<and> (deadline_ms timeout = Inl e \<or> (\<exists>d. deadline_ms timeout = Inr d \<and> cross_int64 (VInt d) = Inl e)))"
proof (cases "validate_metadata v")
  case (Inl x)
  then have "e = EndpointValidationError" using assms validate_metadata_exc [OF Inl]
    by (auto simp: connect_def reraise_def)
  then show ?thesis using endpoint_family by simp
next
  case (Inr m)
  show ?thesis using assms Inr endpoint_family
    by (auto simp: connect_def reraise_Inr connect_remote_def endpoint_connect_unix_def rbind_eq_Inl Let_def
        CONNECT_OK_def CONNECT_TIMEOUT_def CONNECT_UNREACHABLE_def split: if_splits option.splits prod.splits)
qed

lemma ping_errors:
  assumes "conn_ping net r c v = Inl e"
  shows "caught_by EndpointError e"
proof (cases "validate_nonce v")
  case (Inl x)
  then have "e = EndpointValidationError" using assms validate_nonce_exc [OF Inl]
    by (auto simp: conn_ping_def reraise_def)
  then show ?thesis using endpoint_family by simp
next
  case (Inr n)
  then have v: "v = VInt n" "i64 n" by (simp_all add: validate_nonce_Inr)
  show ?thesis using assms Inr endpoint_family
    by (auto simp: conn_ping_def reraise_Inr v(1) cross_i64 [OF v(2)] split: if_splits prod.splits)
qed

lemma call_errors:
  assumes "conn_call_op net dispatch r c op args = Inl e" "is_hashable op"
  shows "caught_by EndpointError e"
  using assms endpoint_family bridge_arg_exc [of 0 args]
  by (auto simp: conn_call_op_def rbind_eq_Inl Let_def split: if_splits option.splits)

lemma int_of_str_exc: "int_of_str s = Inl e \<Longrightarrow> e = ValueError"
  by (auto simp: int_of_str_def split: prod.splits if_splits)

lemma deadline_exc: "deadline_ms timeout = Inl e \<Longrightarrow> e \<in> {TypeError, ValueError, OverflowError}"
proof -
  have int: "py_int v = Inl e \<Longrightarrow> e \<in> {TypeError, ValueError, OverflowError}" for v
    using int_of_str_exc by (cases v rule: py_int.cases) auto
  have "times_1000 timeout = Inl e \<Longrightarrow> e = TypeError" by (cases timeout) simp_all
  then show "deadline_ms timeout = Inl e \<Longrightarrow> e \<in> {TypeError, ValueError, OverflowError}"
    using int by (auto simp: deadline_ms_def rbind_eq_Inl)
qed

lemma cross_int64_exc: "cross_int64 v = Inl e \<Longrightarrow> e = TypeError"
  by (simp add: cross_int64_def split: if_splits)

text \<open>
  C25. The errors of the endpoint layer: whatever the peer, the network and the arguments do, \<open>ping\<close>
  raises only endpoint errors, a bridge call does too (an operation name that cannot be hashed apart),
  and so does \<open>connect\<close>, except where \<open>int(timeout * 1000)\<close> itself raises or gives no 64-bit number,
  which it only computes on the way to another process: then the error is that \<open>TypeError\<close>,
  \<open>ValueError\<close> (a NaN, or a text that, repeated a thousand times, is no number) or \<open>OverflowError\<close>.
  Of what \<open>ping\<close> raises only a rejected argument is also a \<open>ValueError\<close>.
\<close>

theorem endpoint_errors:
  "(conn_ping net r c v = Inl e \<longrightarrow> caught_by EndpointError e)
    \<and> (conn_call_op net dispatch r c op args = Inl e \<and> is_hashable op \<longrightarrow> caught_by EndpointError e)
    \<and> (connect pid host probe v timeout w = Inl e \<and> \<not> caught_by EndpointError e \<longrightarrow>
        (deadline_ms timeout = Inl e \<or> (\<exists>d. deadline_ms timeout = Inr d \<and> cross_int64 (VInt d) = Inl e))
        \<and> e \<in> {TypeError, ValueError, OverflowError}
        \<and> (\<exists>m. validate_metadata v = Inr m \<and> md_pid m \<noteq> pid))
    \<and> (conn_ping net r c v = Inl e \<and> caught_by ValueError e \<longrightarrow> validate_nonce v \<noteq> Inr n)"
proof -
  have "\<not> caught_by ValueError e" if p: "conn_ping net r c v = Inl e" and n: "validate_nonce v = Inr n"
  proof -
    have v: "v = VInt n" "i64 n" using n by (simp_all add: validate_nonce_Inr)
    show ?thesis using p n endpoint_value_errors
      by (auto simp: conn_ping_def reraise_Inr v(1) cross_i64 [OF v(2)] split: if_splits prod.splits)
  qed
  then show ?thesis using deadline_exc [of timeout] cross_int64_exc
      ping_errors [of net r c v e] call_errors [of net dispatch r c op args e] connect_errors [of pid host probe v timeout w e] by blast
qed

lemma endpoint_errors_witness:
  "\<exists>e. connect 7 ''n1'' (\<lambda>path d. 0) (meta_dict demo_meta) (VFloat PInf) new_eworld = Inl e \<and> \<not> caught_by EndpointError e
     \<and> deadline_ms (VFloat PInf) = Inl e"
proof -
  have m: "validate_metadata (meta_dict demo_meta) = Inr demo_meta" by (simp add: validate_meta_dict demo_meta_ok)
  have "connect 7 ''n1'' (\<lambda>path d. 0) (meta_dict demo_meta) (VFloat PInf) new_eworld = Inl OverflowError"
    unfolding connect_def m
    by (simp add: reraise_Inr demo_meta_def ENDPOINT_PROTO_VERSION_def connect_remote_def deadline_ms_def)
  moreover have "\<not> caught_by EndpointError OverflowError" by (simp add: caught_by_def eval_nat_numeral)
  moreover have "deadline_ms (VFloat PInf) = Inl OverflowError" by (simp add: deadline_ms_def)
  ultimately show ?thesis
    using endpoint_errors [where pid = 7 and host = "''n1''" and probe = "\<lambda>path d. 0" and v = "meta_dict demo_meta"
        and timeout = "VFloat PInf" and w = new_eworld and e = OverflowError] by auto
qed

subsection \<open>From metadata to a ping\<close>

lemma open_facts:
  assumes "eworld_reachable pid host w" "k < length (ew_endpoints w)" "endpoint_open w k" "0 \<le> pid" "host \<noteq> []"
  shows "meta_ok (endpoint_meta (ew_endpoints w ! k))"
    and "endpoint_metadata k w = Inr (meta_dict (endpoint_meta (ew_endpoints w ! k)))"
    and "lookup_seam (str_bytes (ep_id (ew_endpoints w ! k))) (ew_registry w) = LOOKUP_LIVE (ne_seam (ew_natives w ! k))"
    and "\<not> sm_closed (native_seam w k)"
    and "ep_pid (ew_endpoints w ! k) = pid" "ep_host (ew_endpoints w ! k) = host"
      "ep_proto (ew_endpoints w ! k) = ENDPOINT_PROTO_VERSION" "id_form (ep_id (ew_endpoints w ! k))"
      "\<not> ep_closed (ew_endpoints w ! k)" "ep_native (ew_endpoints w ! k) = k"
      "sm_id (native_seam w k) = str_bytes (ep_id (ew_endpoints w ! k))"
    and "k < length (ew_natives w)" "natives_inv w"
    and "ne_transport (ew_natives w ! k) \<Longrightarrow> ep_transport_kind (ew_endpoints w ! k) = ''unix''"
proof -
  have inv: "natives_inv w" "reg_inv (ew_registry w) (live_seams (ew_natives w))" and k: "k < length (ew_natives w)"
    and ok: "object_ok pid host w k"
    using eworld_reachable_inv [OF assms(1)] assms(2) by (simp_all add: eworld_inv_def)
  show "k < length (ew_natives w)" "natives_inv w" by (fact k inv(1))+
  show o: "ep_pid (ew_endpoints w ! k) = pid" "ep_host (ew_endpoints w ! k) = host"
      "ep_proto (ew_endpoints w ! k) = ENDPOINT_PROTO_VERSION" "id_form (ep_id (ew_endpoints w ! k))"
      "\<not> ep_closed (ew_endpoints w ! k)" "ep_native (ew_endpoints w ! k) = k"
      "sm_id (native_seam w k) = str_bytes (ep_id (ew_endpoints w ! k))"
    using ok assms(3) by (auto simp: object_ok_def endpoint_open_def Let_def)
  have i: "ne_seam (ew_natives w ! k) < length (rg_seams (ew_registry w))" and cl: "\<not> sm_closed (native_seam w k)"
    using inv(1) k assms(3) by (simp_all add: natives_inv_def native_seam_def endpoint_open_def)
  show "\<not> sm_closed (native_seam w k)" by (fact cl)
  show "lookup_seam (str_bytes (ep_id (ew_endpoints w ! k))) (ew_registry w) = LOOKUP_LIVE (ne_seam (ew_natives w ! k))"
    using reg_inv_lookup(1) [OF inv(2) i] live_iff [OF inv(1) k] assms(3) o(7) by (simp add: native_seam_def)
  show "meta_ok (endpoint_meta (ew_endpoints w ! k))"
    using ok assms(4,5) by (auto simp: object_ok_def endpoint_meta_def meta_ok_def ENDPOINT_ID_RE_def TRANSPORT_KINDS_def
        ENDPOINT_PROTO_VERSION_def Let_def)
  show "endpoint_metadata k w = Inr (meta_dict (endpoint_meta (ew_endpoints w ! k)))"
    using o(5) by (simp add: endpoint_metadata_def Let_def)
  show "ne_transport (ew_natives w ! k) \<Longrightarrow> ep_transport_kind (ew_endpoints w ! k) = ''unix''"
    using ok by (simp add: object_ok_def Let_def)
qed

lemma close_open:
  assumes "natives_inv w" "k < length (ew_natives w)" "endpoint_open w k" "k < length (ew_endpoints w)"
    "\<not> ep_closed (ew_endpoints w ! k)" "ep_native (ew_endpoints w ! k) = k"
  shows "ew_registry (endpoint_close k w) = left_registry k w"
proof -
  let ?w = "w\<lparr>ew_endpoints := (ew_endpoints w)[k := (ew_endpoints w ! k)\<lparr>ep_closed := True\<rparr>]\<rparr>"
  have n: "natives_inv ?w" "k < length (ew_natives ?w)" "\<not> ne_closed (ew_natives ?w ! k)"
    using assms(1-3) by (simp_all add: natives_inv_def endpoint_open_def)
  have "ew_registry (native_endpoint_close k ?w) = left_registry k ?w" unfolding native_close_eq [OF n] by simp
  then show ?thesis using assms(5,6) by (simp add: endpoint_close_def left_registry_def native_seam_def Let_def)
qed

lemma closed_lookup:
  assumes "i = ne_seam (ew_natives w ! k)" "i < length (rg_seams (ew_registry w))"
  shows "sm_closed (rg_seams (left_registry k w) ! i)"
    and "lookup_seam (sm_id (native_seam w k)) (left_registry k w)
      = (if ow_endpoints (ew_owner w) = 1 then LOOKUP_ABSENT else LOOKUP_CLOSED)"
    and "resolve (sm_id (native_seam w k)) (left_registry k w) = None"
proof -
  show "sm_closed (rg_seams (left_registry k w) ! i)"
    using assms by (simp add: left_registry_facts close_seam_def)
  show l: "lookup_seam (sm_id (native_seam w k)) (left_registry k w)
      = (if ow_endpoints (ew_owner w) = 1 then LOOKUP_ABSENT else LOOKUP_CLOSED)"
    by (simp add: left_registry_def Let_def lookup_seam_def clear_tombstones_def unregister_def map_of_filter_neq)
  show "resolve (sm_id (native_seam w k)) (left_registry k w) = None"
    unfolding resolve_lookup l by simp
qed

text \<open>
  Bootstrap within a process: for an open endpoint of any reachable state, its metadata connects
  (whatever the timeout), the connection's ping returns the endpoint's own transform of the nonce, and
  after the endpoint closes the same ping and a new connect report it closed and not found.
\<close>

theorem connect_ping_close:
  assumes "eworld_reachable pid host w" "k < length (ew_endpoints w)" "endpoint_open w k" "0 \<le> pid" "host \<noteq> []"
    "i64 n"
  shows "\<exists>m c. endpoint_metadata k w = Inr m \<and> connect pid host probe m timeout w = Inr c
    \<and> conn_ping net (ew_registry w) c (VInt n) = Inr (sint (on_ping (native_seam w k) (word_of_int n)))
    \<and> conn_ping net (ew_registry (endpoint_close k w)) c (VInt n) = Inl EndpointClosedError
    \<and> connect pid host probe m timeout (endpoint_close k w) = Inl EndpointNotFoundError
    \<and> endpoint_metadata k (endpoint_close k w) = Inl EndpointClosedError"
proof -
  note f = open_facts [OF assms(1-5)]
  let ?p = "ew_endpoints w ! k"
  let ?i = "ne_seam (ew_natives w ! k)"
  let ?c = "new_conn (LocalPeer ?i)"
  have md: "md_endpoint_id (endpoint_meta ?p) = ep_id ?p" "md_pid (endpoint_meta ?p) = pid" "md_host (endpoint_meta ?p) = host"
    "md_proto_version (endpoint_meta ?p) = ENDPOINT_PROTO_VERSION" using f(5-7) by (simp_all add: endpoint_meta_def)
  have v: "validate_metadata (meta_dict (endpoint_meta ?p)) = Inr (endpoint_meta ?p)" using f(1) by (simp add: validate_meta_dict)
  have i: "?i < length (rg_seams (ew_registry w))" using f(12,13) by (simp add: natives_inv_def)
  have conn: "connect pid host probe (meta_dict (endpoint_meta ?p)) timeout w' =
      (case resolve (str_bytes (ep_id ?p)) (ew_registry w') of None \<Rightarrow> Inl EndpointNotFoundError | Some i \<Rightarrow> Inr (new_conn (LocalPeer i)))" for w'
    unfolding connect_def v reraise_Inr by (simp add: md endpoint_connect_local_def split: option.split)
  have live: "connect pid host probe (meta_dict (endpoint_meta ?p)) timeout w = Inr ?c"
    unfolding conn by (simp add: resolve_lookup f(3))
  have reg: "ew_registry (endpoint_close k w) = left_registry k w"
    by (rule close_open [OF f(13,12) assms(3,2) f(9,10)])
  have gone: "connect pid host probe (meta_dict (endpoint_meta ?p)) timeout (endpoint_close k w) = Inl EndpointNotFoundError"
    unfolding conn reg using closed_lookup(3) [OF refl i] f(11) by simp
  have vn: "validate_nonce (VInt n) = Inr n" using assms(6) by (simp add: validate_nonce_Inr)
  have ping: "conn_ping net (ew_registry w) ?c (VInt n) = Inr (sint (on_ping (native_seam w k) (word_of_int n)))"
    using f(4) by (simp add: conn_ping_def vn reraise_Inr new_conn_def cross_i64 [OF assms(6)] native_ping_def Let_def
        native_seam_def)
  have closed: "conn_ping net (ew_registry (endpoint_close k w)) ?c (VInt n) = Inl EndpointClosedError"
    unfolding reg using closed_lookup(1) [OF refl i]
    by (simp add: conn_ping_def vn reraise_Inr new_conn_def cross_i64 [OF assms(6)] native_ping_def Let_def status_defs)
  have "endpoint_metadata k (endpoint_close k w) = Inl EndpointClosedError"
  proof -
    let ?w = "w\<lparr>ew_endpoints := (ew_endpoints w)[k := ?p\<lparr>ep_closed := True\<rparr>]\<rparr>"
    have "natives_inv ?w" using f(13) by (simp add: natives_inv_def)
    then have "ew_endpoints (native_endpoint_close k ?w) = ew_endpoints ?w"
      using native_close_eq [of ?w k] f(12) assms(3) by (simp add: endpoint_open_def)
    then show ?thesis using f(9,10) assms(2) by (simp add: endpoint_metadata_def endpoint_close_def Let_def)
  qed
  then show ?thesis using live gone ping closed f(2) by blast
qed


definition demo_eworld :: eworld where
  "demo_eworld = fst (endpoint_init (str_bytes ''rtb-ep-0123456789abcdef'') 7 ''n1'' (Some ''/tmp/s'') True new_eworld)"

lemma demo_eworld: "eworld_reachable 7 ''n1'' demo_eworld"
  "demo_eworld = opened (str_bytes ''rtb-ep-0123456789abcdef'') 7 ''n1'' ''/tmp/s'' True new_eworld"
  "endpoint_open demo_eworld 0" "length (ew_endpoints demo_eworld) = 1" "ne_transport (ew_natives demo_eworld ! 0)"
  "ep_transport_addr (ew_endpoints demo_eworld ! 0) = ''/tmp/s''"
proof -
  have f: "id_form ''rtb-ep-0123456789abcdef''" by (simp add: id_form_def hex_lower_def)
  show "eworld_reachable 7 ''n1'' demo_eworld" unfolding demo_eworld_def
    by (rule eworld_reachable.Open [OF eworld_reachable.New f]) (simp_all add: new_eworld_def new_registry_def)
  show e: "demo_eworld = opened (str_bytes ''rtb-ep-0123456789abcdef'') 7 ''n1'' ''/tmp/s'' True new_eworld"
    using endpoint_init_ok [of "Some ''/tmp/s''" True new_eworld "''/tmp/s''" "str_bytes ''rtb-ep-0123456789abcdef''" 7 "''n1''"]
    by (simp add: demo_eworld_def opens_at_def new_eworld_def new_owner_def)
  show "endpoint_open demo_eworld 0" "length (ew_endpoints demo_eworld) = 1" "ne_transport (ew_natives demo_eworld ! 0)"
    "ep_transport_addr (ew_endpoints demo_eworld ! 0) = ''/tmp/s''"
    unfolding e by (simp_all add: endpoint_open_def opened_def Let_def new_eworld_def)
qed

lemma connect_ping_close_witness:
  "\<exists>m c. endpoint_metadata 0 demo_eworld = Inr m \<and> connect 7 ''n1'' (\<lambda>path d. 6) m VNone demo_eworld = Inr c
     \<and> conn_ping (\<lambda>t path req. NetClosed) (ew_registry demo_eworld) c (VInt 5)
         = Inr (sint (on_ping (native_seam demo_eworld 0) 5))"
proof -
  have "i64 5" by (simp add: i64_def)
  then show ?thesis
    using connect_ping_close [of 7 "''n1''" demo_eworld 0 5 "\<lambda>path d. 6" VNone "\<lambda>t path req. NetClosed"] demo_eworld
    by auto
qed

text \<open>
  C22. Between two processes of a node: connecting to an open transport endpoint by its metadata and
  pinging it over its socket returns exactly what its own seam computes, as a ping inside its process
  would; once it has closed, while the process still listens for another endpoint, the same ping
  reports it closed.
\<close>

theorem cross_process_ping:
  assumes "eworld_reachable pid host w" "k < length (ew_endpoints w)" "endpoint_open w k" "0 \<le> pid" "host \<noteq> []"
    "i64 n" "ne_transport (ew_natives w ! k)" "my_pid \<noteq> pid" "deadline_ms timeout = Inr d" "d < 2 ^ 63"
    "probe (ep_transport_addr (ew_endpoints w ! k)) d = 0"
    "\<And>req. net d (ep_transport_addr (ew_endpoints w ! k)) req = served_by h (ew_registry w) req"
    "\<And>req. later d (ep_transport_addr (ew_endpoints w ! k)) req = served_by h (ew_registry (endpoint_close k w)) req"
  shows "\<exists>m c. endpoint_metadata k w = Inr m \<and> connect my_pid host probe m timeout mine = Inr c
    \<and> conn_ping net r c (VInt n) = Inr (sint (on_ping (native_seam w k) (word_of_int n)))
    \<and> (ow_endpoints (ew_owner w) > 1 \<longrightarrow> conn_ping later r c (VInt n) = Inl EndpointClosedError)"
proof -
  note f = open_facts [OF assms(1-5)]
  let ?p = "ew_endpoints w ! k"
  let ?a = "ep_transport_addr ?p"
  let ?t = "str_bytes (ep_id ?p)"
  let ?c = "new_conn (RemotePeer ?a ?t d)"
  have md: "md_endpoint_id (endpoint_meta ?p) = ep_id ?p" "md_pid (endpoint_meta ?p) = pid" "md_host (endpoint_meta ?p) = host"
    "md_proto_version (endpoint_meta ?p) = ENDPOINT_PROTO_VERSION" "md_transport_kind (endpoint_meta ?p) = ''unix''"
    "md_transport_addr (endpoint_meta ?p) = ?a"
    using f(5-7) f(14) [OF assms(7)] by (simp_all add: endpoint_meta_def)
  have v: "validate_metadata (meta_dict (endpoint_meta ?p)) = Inr (endpoint_meta ?p)" using f(1) by (simp add: validate_meta_dict)
  have "1 \<le> d" using assms(9) by (auto simp: deadline_ms_def rbind_eq_Inr)
  then have x: "cross_int64 (VInt d) = Inr d" using assms(10) by (simp add: cross_int64_def)
  have c: "connect my_pid host probe (meta_dict (endpoint_meta ?p)) timeout mine = Inr ?c"
    unfolding connect_def v reraise_Inr using assms(8,11)
    by (simp add: md connect_remote_def assms(9) x endpoint_connect_unix_def CONNECT_OK_def)
  have len: "length ?t = WIRE_ID_LEN" using f(8) by (simp add: str_bytes_def id_form_def WIRE_ID_LEN_def)
  have vn: "validate_nonce (VInt n) = Inr n" using assms(6) by (simp add: validate_nonce_Inr)
  have ping: "conn_ping nt r ?c (VInt n) = (case lookup_seam ?t rg of
      LOOKUP_LIVE i \<Rightarrow> Inr (sint (on_ping (rg_seams rg ! i) (word_of_int n)))
    | LOOKUP_CLOSED \<Rightarrow> Inl EndpointClosedError | LOOKUP_ABSENT \<Rightarrow> Inl EndpointNotFoundError)"
    if "\<And>req. nt d ?a req = served_by h rg req" for nt rg
    using remote_ping_is_local [of ?t "nt d" ?a h rg "word_of_int n", OF len that]
    by (simp add: conn_ping_def vn reraise_Inr new_conn_def cross_i64 [OF assms(6)] native_ping_def status_defs
        split: lookup_status.split)
  have i: "ne_seam (ew_natives w ! k) < length (rg_seams (ew_registry w))" using f(12,13) by (simp add: natives_inv_def)
  have reg: "ew_registry (endpoint_close k w) = left_registry k w"
    by (rule close_open [OF f(13,12) assms(3,2) f(9,10)])
  have "conn_ping net r ?c (VInt n) = Inr (sint (on_ping (native_seam w k) (word_of_int n)))"
    using ping [of net, OF assms(12)] f(3) by (simp add: native_seam_def)
  moreover have "conn_ping later r ?c (VInt n) = Inl EndpointClosedError" if "ow_endpoints (ew_owner w) > 1"
    using ping [of later, OF assms(13)] that closed_lookup(2) [OF refl i] f(11) by (simp add: reg)
  ultimately show ?thesis using c f(2) by blast
qed

lemma cross_process_ping_witness:
  "\<exists>m c. endpoint_metadata 0 demo_eworld = Inr m \<and> connect 9 ''n1'' (\<lambda>path d. 0) m (VInt 5) new_eworld = Inr c
     \<and> conn_ping (\<lambda>t path. served_by None (ew_registry demo_eworld)) new_registry c (VInt 5)
         = Inr (sint (on_ping (native_seam demo_eworld 0) 5))"
proof -
  have "i64 5" by (simp add: i64_def)
  moreover have "deadline_ms (VInt 5) = Inr 5000" by (simp add: deadline_ms_def)
  ultimately show ?thesis
    using cross_process_ping [of 7 "''n1''" demo_eworld 0 5 9 "VInt 5" 5000 "\<lambda>path d. 0"
        "\<lambda>t path. served_by None (ew_registry demo_eworld)" None
        "\<lambda>t path. served_by None (ew_registry (endpoint_close 0 demo_eworld))" new_eworld new_registry] demo_eworld
    by auto
qed

end
