(* ===== verification/EndpointBridge.thy ===== *)
theory EndpointBridge
  imports EndpointProps RuntimeEngine
begin

text \<open>
  The endpoint-to-runtime bridge: \<open>bridge_dispatch\<close> of \<open>_rayx.cpp\<close>, which serves \<open>Connection._call_op\<close>
  both inside the process and behind the socket. What the operation's future yields is an argument
  (\<open>answer\<close>), the row the runtime's lane computes for the operation.
\<close>

subsection \<open>The closed operation table\<close>

definition BRIDGE_FANOUT_N_MAX :: int where "BRIDGE_FANOUT_N_MAX = 1000000"

definition bridge_op :: "int \<Rightarrow> (string \<times> nat) option" where
  "bridge_op op_code = (if op_code = 1 then Some (''square'', 1) else if op_code = 2 then Some (''add'', 2)
     else if op_code = 3 then Some (''fanout_sum'', 2) else None)"

text \<open>The checks before the slot is touched, in order: a status, or the operation and its arguments.\<close>

definition bridge_request :: "int \<Rightarrow> (int \<times> 64 word) list \<Rightarrow> int + (string \<times> op_value list)" where
  "bridge_request op_code args = (case bridge_op op_code of None \<Rightarrow> Inl CALL_OP_UNKNOWN
     | Some (op_id, arity) \<Rightarrow>
         if length args \<noteq> arity then Inl CALL_OP_BADARGS
         else if op_code = 3 \<and> fst (args ! 0) = 0 \<and> sint (snd (args ! 0)) > BRIDGE_FANOUT_N_MAX then Inl CALL_OP_BADARGS
         else if \<exists>a \<in> set args. fst a \<noteq> 0 then Inl CALL_OP_BADARGS
         else Inr (op_id, map (\<lambda>a. OVInt (sint (snd a))) args))"

text \<open>The 64 bits of a \<open>double\<close>.\<close>

definition bits_of_float :: "pyfloat \<Rightarrow> 64 word" where
  "bits_of_float f = (case f of NaN \<Rightarrow> 0x7FF8000000000000 | PInf \<Rightarrow> 0x7FF0000000000000 | NInf \<Rightarrow> 0xFFF0000000000000
     | Fin q \<Rightarrow> if q = 0 then 0
         else let a = \<bar>q\<bar>; e = ilog2 a; s = (if q < 0 then 2 ^ 63 else 0) in
           word_of_int (s + (if e < - 1022 then \<lfloor>a / pow2 (- 1074)\<rfloor>
             else (e + 1023) * 2 ^ 52 + \<lfloor>a / pow2 (e - 52)\<rfloor> - 2 ^ 52)))"

definition bridge_result :: "rresult \<Rightarrow> call_result" where
  "bridge_result r = (if rr_status r = ''completed'' \<and> rr_has_value r
     then (case rr_value r of OVInt v \<Rightarrow> (CALL_OK, 0, word_of_int v) | OVDouble d \<Rightarrow> (CALL_OK, 1, bits_of_float d))
     else (CALL_OP_FAILED, 0, 0))"

definition unavailable_status :: "unavailable \<Rightarrow> int" where
  "unavailable_status u = (case u of CALL_RUNTIME_ABSENT \<Rightarrow> STATUS_RUNTIME_ABSENT | CALL_RUNTIME_DRAINING \<Rightarrow> STATUS_RUNTIME_DRAINING)"

text \<open>The slot is released on every path that acquired it.\<close>

definition bridge_dispatch ::
    "(string \<Rightarrow> op_value list \<Rightarrow> rresult) \<Rightarrow> slot \<times> rengine \<Rightarrow> int \<Rightarrow> (int \<times> 64 word) list \<Rightarrow> (slot \<times> rengine) \<times> call_result" where
  "bridge_dispatch answer se op_code args = (case bridge_request op_code args of
       Inl st \<Rightarrow> (se, st, 0, 0)
     | Inr (op_id, oa) \<Rightarrow> (case slot_acquire (fst se) of
           (s, Some u) \<Rightarrow> ((s, snd se), unavailable_status u, 0, 0)
         | (s, None) \<Rightarrow> (case dispatch_op_typed op_id oa (snd se) of
               Inl x \<Rightarrow> ((slot_release s, snd se), if x = ValueError then CALL_OP_BADARGS else CALL_INTERNAL, 0, 0)
             | Inr (e, f) \<Rightarrow> ((slot_release s, e), bridge_result (answer op_id oa)))))"

definition bridge_handler :: "(string \<Rightarrow> op_value list \<Rightarrow> rresult) \<Rightarrow> slot \<times> rengine \<Rightarrow> call_handler" where
  "bridge_handler answer se op_code args = snd (bridge_dispatch answer se op_code args)"

subsection \<open>One call\<close>

lemma bridge_slot_balanced:
  assumes "0 \<le> sl_inflight (fst se)"
  shows "fst (fst (bridge_dispatch answer se op_code args)) = fst se"
  using assms by (auto simp: bridge_dispatch_def slot_acquire_def slot_release_def split: sum.split if_splits)

lemma bridge_ops_registered:
  "bridge_op c = Some (op, n) \<Longrightarrow> map_of registry op = Some (replicate n ''int64'') \<and> n \<le> WIRE_MAX_CALL_ARGS"
proof -
  assume "bridge_op c = Some (op, n)"
  then have "op = ''square'' \<and> n = 1 \<or> op = ''add'' \<and> n = 2 \<or> op = ''fanout_sum'' \<and> n = 2"
    by (auto simp: bridge_op_def split: if_splits)
  then show ?thesis
    by (elim disjE conjE) (simp_all add: registry_def WIRE_MAX_CALL_ARGS_def numeral_2_eq_2)
qed

lemma bridge_table:
  "map_of BRIDGE_OPS op = Some (c, n) \<Longrightarrow> bridge_op c = Some (op, n) \<and> 0 \<le> c \<and> c < 2 ^ 16"
  by (auto simp: BRIDGE_OPS_def bridge_op_def split: if_splits)

definition int_args :: "int list \<Rightarrow> (int \<times> 64 word) list" where
  "int_args ns = map (\<lambda>v. (0, word_of_int v)) ns"

definition fanout_bound :: "string \<Rightarrow> int list \<Rightarrow> bool" where
  "fanout_bound op ns \<longleftrightarrow> (op = ''fanout_sum'' \<longrightarrow> ns ! 0 \<le> BRIDGE_FANOUT_N_MAX)"

lemma sint_i64: "i64 n \<Longrightarrow> sint (word_of_int n :: 64 word) = n"
  by (simp add: signed_of_int signed_take_bit_int_eq_self i64_def)

lemma bridge_request_ints:
  assumes "bridge_op c = Some (op, length ns)" "\<forall>n \<in> set ns. i64 n"
  shows "bridge_request c (int_args ns) = (if fanout_bound op ns then Inr (op, map OVInt ns) else Inl CALL_OP_BADARGS)"
proof -
  have m: "map (\<lambda>a. OVInt (sint (snd a))) (int_args ns) = map OVInt ns"
    using assms(2) by (simp add: int_args_def sint_i64)
  have "op = ''fanout_sum'' \<longleftrightarrow> c = 3" "c = 3 \<Longrightarrow> ns \<noteq> []" using assms(1) by (auto simp: bridge_op_def split: if_splits)
  then have b: "c = 3 \<and> fst (int_args ns ! 0) = 0 \<and> sint (snd (int_args ns ! 0)) > BRIDGE_FANOUT_N_MAX \<longleftrightarrow> \<not> fanout_bound op ns"
    using assms(2) by (auto simp: fanout_bound_def int_args_def sint_i64 not_le nth_mem)
  have "\<forall>a \<in> set (int_args ns). fst a = 0" by (simp add: int_args_def)
  then show ?thesis using assms(1) b m by (auto simp: bridge_request_def int_args_def)
qed

lemma bridge_dispatch_ints:
  assumes "bridge_op c = Some (op, length ns)" "\<forall>n \<in> set ns. i64 n"
  shows "bridge_handler answer se c (int_args ns) = (if \<not> fanout_bound op ns then (CALL_OP_BADARGS, 0, 0)
    else case snd (slot_acquire (fst se)) of Some u \<Rightarrow> (unavailable_status u, 0, 0)
      | None \<Rightarrow> bridge_result (answer op (map OVInt ns)))"
  using bridge_ops_registered [OF assms(1)]
  by (auto simp: bridge_handler_def bridge_dispatch_def bridge_request_ints [OF assms] slot_acquire_def dispatch_op_typed_def
      split: prod.split)

text \<open>Over the wire the same handler answers the same result: statuses and tags are one byte.\<close>

lemma remote_call_is_local:
  assumes "length t = WIRE_ID_LEN" "length ns \<le> WIRE_MAX_CALL_ARGS" "\<And>req. net path req = served_by (Some h) r req"
    "lookup_seam t r = LOOKUP_LIVE i" "0 \<le> c" "c < 2 ^ 16"
    "h c (int_args ns) = (st, tag, bits)" "0 \<le> st" "st < 2 ^ 8" "0 \<le> tag" "tag < 2 ^ 8"
  shows "call_op_remote net path t c (int_args ns) = (st, tag, bits)"
proof -
  have len: "length (int_args ns) \<le> WIRE_MAX_CALL_ARGS" using assms(2) by (simp add: int_args_def)
  have tags: "map (\<lambda>(tag, bits). (tag mod 2 ^ 8, bits)) (int_args ns) = int_args ns" by (simp add: int_args_def)
  have mods: "c mod 2 ^ 16 = c" "st mod 2 ^ 8 = st" "tag mod 2 ^ 8 = tag" using assms(5,6,8-11) by simp_all
  have args: "take (min (length (int_args ns)) WIRE_MAX_CALL_ARGS) (int_args ns @ replicate (WIRE_MAX_CALL_ARGS - length (int_args ns)) (0, 0))
      = int_args ns" using len by (simp add: min_def)
  have "served_by (Some h) r (wire_encode_call_op ENDPOINT_PROTO_VERSION t c (int_args ns))
      = NetBytes (wire_encode_call_resp ENDPOINT_PROTO_VERSION st tag bits)"
    unfolding served_by_def serve_call_frame [OF assms(1) len] serve_call_op_def native_call_op(1) [OF assms(1) len] tags mods(1)
    by (simp add: ENDPOINT_PROTO_VERSION_def assms(4,7) args del: take_append)
  moreover have "take WIRE_MAX_CALL_ARGS (int_args ns) = int_args ns" using len by simp
  ultimately show ?thesis
    unfolding call_op_remote_def assms(3) using mods(2,3) by (simp add: native_call_resp ENDPOINT_PROTO_VERSION_def)
qed

subsection \<open>End to end\<close>

text \<open>The connection reaches the process whose registry is \<open>r\<close> and whose runtime answers with \<open>h\<close>.\<close>

definition reaches :: "(int \<Rightarrow> net) \<Rightarrow> call_handler \<Rightarrow> seam_registry \<Rightarrow> pyconn \<Rightarrow> bool" where
  "reaches net h r c \<longleftrightarrow> \<not> cn_closed c \<and> \<not> cn_native_closed c \<and> (case cn_peer c of
       LocalPeer i \<Rightarrow> \<not> sm_closed (rg_seams r ! i)
     | RemotePeer path t d \<Rightarrow> length t = WIRE_ID_LEN \<and> (\<forall>req. net d path req = served_by (Some h) r req)
         \<and> (\<exists>i. lookup_seam t r = LOOKUP_LIVE i))"

lemma bridge_args_ok: "\<forall>n \<in> set ns. i64 n \<Longrightarrow> mapM_idx bridge_arg i (map VInt ns) = Inr ns"
  by (induction ns arbitrary: i) (auto simp: bridge_arg_def i64_def INT64_LOW_def INT64_HIGH_def)

lemma reached_call:
  assumes "reaches net h r con" "map_of BRIDGE_OPS op = Some (c, length ns)" "\<forall>n \<in> set ns. i64 n"
    "h c (int_args ns) = (st, tag, bits)" "0 \<le> st" "st < 2 ^ 8" "0 \<le> tag" "tag < 2 ^ 8"
  shows "native_call_op net h r con c ns = (st, tag, bits)"
proof (cases "cn_peer con")
  case (LocalPeer i)
  then show ?thesis using assms(1,4) by (simp add: reaches_def native_call_op_def int_args_def Let_def)
next
  case (RemotePeer path t d)
  then obtain i where r: "length t = WIRE_ID_LEN" "\<And>req. net d path req = served_by (Some h) r req" "lookup_seam t r = LOOKUP_LIVE i"
    using assms(1) by (auto simp: reaches_def)
  have c: "0 \<le> c" "c < 2 ^ 16" "length ns \<le> WIRE_MAX_CALL_ARGS"
    using bridge_table [OF assms(2)] bridge_ops_registered by auto
  show ?thesis
    using remote_call_is_local [of t ns "net d" path h r i c st tag bits, OF r(1) c(3) r(2,3) c(1,2) assms(4-8)] assms(1) RemotePeer
    by (simp add: reaches_def native_call_op_def int_args_def Let_def)
qed

lemmas result_defs = bridge_result_def task_row_def status_defs

text \<open>
  C24. A bridged call is the runtime operation, wherever the peer runs: in the process or behind its
  socket, a call within the closed table returns the operation's own value when it completes in range,
  reports a failed operation and an absent or draining runtime as such, and refuses a \<open>fanout_sum\<close> past
  its bound; and it leaves the drain gate balanced.
\<close>

theorem bridge_call_faithful:
  assumes "reaches net (bridge_handler answer se) r con" "map_of BRIDGE_OPS op = Some (c, length ns)"
    "\<forall>n \<in> set ns. i64 n" "answer op (map OVInt ns) = task_row actor t0 t1 (run_op stop op (map OVInt ns))"
    "0 \<le> sl_inflight (fst se)"
  shows "(\<not> fanout_bound op ns \<longrightarrow> conn_call_op net (bridge_handler answer se) r con (VStr op) (map VInt ns) = Inl EndpointValidationError)
    \<and> (fanout_bound op ns \<and> snd (slot_acquire (fst se)) \<noteq> None \<longrightarrow>
        conn_call_op net (bridge_handler answer se) r con (VStr op) (map VInt ns) = Inl EndpointRuntimeUnavailableError)
    \<and> (fanout_bound op ns \<and> snd (slot_acquire (fst se)) = None \<longrightarrow>
        (\<forall>v. run_op stop op (map OVInt ns) = Completed_with (OVInt v) \<and> i64 v
          \<longrightarrow> conn_call_op net (bridge_handler answer se) r con (VStr op) (map VInt ns) = Inr (VInt v))
        \<and> (run_op stop op (map OVInt ns) = Failed_op
          \<longrightarrow> conn_call_op net (bridge_handler answer se) r con (VStr op) (map VInt ns) = Inl EndpointOperationError))
    \<and> fst (fst (bridge_dispatch answer se c (int_args ns))) = fst se"
proof -
  let ?h = "bridge_handler answer se"
  have op: "bridge_op c = Some (op, length ns)" using bridge_table [OF assms(2)] by simp
  note h = bridge_dispatch_ints [OF op assms(3), of answer se]
  have call: "conn_call_op net ?h r con (VStr op) (map VInt ns) = (let cr = native_call_op net ?h r con c ns; status = fst cr in
      if status = CALL_OK then Inr (call_value cr)
      else if status = CALL_PEER_CLOSED \<or> status = CALL_CONN_CLOSED then Inl EndpointClosedError
      else if status = CALL_NOT_FOUND then Inl EndpointNotFoundError
      else if status = CALL_PROTO_ERR then Inl EndpointProtocolError
      else if status = CALL_TIMEOUT then Inl EndpointTimeoutError
      else if status = STATUS_RUNTIME_ABSENT \<or> status = STATUS_RUNTIME_DRAINING then Inl EndpointRuntimeUnavailableError
      else if status = CALL_OP_UNKNOWN then Inl EndpointOperationError
      else if status = CALL_OP_BADARGS then Inl EndpointValidationError
      else if status = CALL_OP_FAILED then Inl EndpointOperationError
      else if status = CALL_INTERNAL then Inl EndpointOperationError else Inl EndpointError)"
    using assms(1) bridge_args_ok [OF assms(3), of 0] by (simp add: conn_call_op_def assms(2) reaches_def Let_def)
  note native = reached_call [OF assms(1-3)]
  have bound: "conn_call_op net ?h r con (VStr op) (map VInt ns) = Inl EndpointValidationError" if "\<not> fanout_bound op ns"
    unfolding call using that h native [of CALL_OP_BADARGS 0 0] by (simp add: status_defs)
  have absent: "conn_call_op net ?h r con (VStr op) (map VInt ns) = Inl EndpointRuntimeUnavailableError"
    if "fanout_bound op ns" "snd (slot_acquire (fst se)) = Some u" for u
    unfolding call using that h native [of "unavailable_status u" 0 0] by (cases u) (simp_all add: status_defs unavailable_status_def)
  have answered: "?h c (int_args ns) = bridge_result (answer op (map OVInt ns))"
    if "fanout_bound op ns" "snd (slot_acquire (fst se)) = None" using that h by simp
  have val: "conn_call_op net ?h r con (VStr op) (map VInt ns) = Inr (VInt v)"
    if "fanout_bound op ns" "snd (slot_acquire (fst se)) = None" "run_op stop op (map OVInt ns) = Completed_with (OVInt v)" "i64 v" for v
    unfolding call using answered [OF that(1,2)] that(3) native [of CALL_OK 0 "word_of_int v"] sint_i64 [OF that(4)]
    by (simp add: assms(4) result_defs call_value_def)
  have fail: "conn_call_op net ?h r con (VStr op) (map VInt ns) = Inl EndpointOperationError"
    if "fanout_bound op ns" "snd (slot_acquire (fst se)) = None" "run_op stop op (map OVInt ns) = Failed_op"
    unfolding call using answered [OF that(1,2)] that(3) native [of CALL_OP_FAILED 0 0]
    by (simp add: assms(4) result_defs)
  show ?thesis using bound absent val fail bridge_slot_balanced [OF assms(5)] by blast
qed

definition demo_bridge :: "slot \<times> rengine" where
  "demo_bridge = (slot_publish new_slot, \<lparr>re_running = True, re_nops = 1, re_lanes = [new_rlane ''lane'' False 1 0 0],
     re_actors = [], re_rr = 0, re_cap = - 1, re_futs = []\<rparr>)"

lemma bridge_call_faithful_witness:
  "let h = bridge_handler (\<lambda>op a. task_row ''lane'' 0 1 (run_op (\<lambda>_ _. False) op a)) demo_bridge in
     conn_call_op (\<lambda>d path. served_by (Some h) (ew_registry demo_eworld)) h (ew_registry demo_eworld)
       (new_conn (RemotePeer ''/tmp/s'' (str_bytes ''rtb-ep-0123456789abcdef'') 5)) (VStr ''add'') (map VInt [2, 3]) = Inr (VInt 5)"
proof -
  let ?a = "\<lambda>op a. task_row ''lane'' 0 1 (run_op (\<lambda>_ _. False) op a)"
  let ?h = "bridge_handler ?a demo_bridge"
  let ?t = "str_bytes ''rtb-ep-0123456789abcdef''"
  let ?net = "\<lambda>d path. served_by (Some ?h) (ew_registry demo_eworld)"
  have "length ?t = WIRE_ID_LEN" by (simp add: str_bytes_def WIRE_ID_LEN_def)
  moreover have "lookup_seam ?t (ew_registry demo_eworld) = LOOKUP_LIVE 0"
    unfolding demo_eworld(2) by (simp add: opened_def Let_def lookup_seam_def register_seam_def new_eworld_def new_registry_def)
  ultimately have reach: "reaches ?net ?h (ew_registry demo_eworld) (new_conn (RemotePeer ''/tmp/s'' ?t 5))"
    by (simp add: reaches_def new_conn_def)
  have tab: "map_of BRIDGE_OPS ''add'' = Some (2, length [2 :: int, 3])" by (simp add: BRIDGE_OPS_def)
  have ok: "\<forall>n \<in> set [2 :: int, 3]. i64 n" by (simp add: i64_def)
  have run: "run_op (\<lambda>_ _. False) ''add'' (map OVInt [2, 3]) = Completed_with (OVInt 5)"
    by (simp add: run_op_def on_ints_def as_int64_def numeral_2_eq_2 signed_result_def int64_ok_def INT64_MIN_def INT64_MAX_def)
  have slot: "fanout_bound ''add'' [2, 3]" "snd (slot_acquire (fst demo_bridge)) = None" "0 \<le> sl_inflight (fst demo_bridge)" "i64 5"
    by (simp_all add: fanout_bound_def demo_bridge_def slot_publish_def new_slot_def slot_acquire_def i64_def)
  show ?thesis unfolding Let_def
    using bridge_call_faithful [OF reach tab ok refl slot(3)] run slot by blast
qed

end
