(* ===== verification/PyIo.thy ===== *)
theory PyIo
  imports HarnessEngine
begin

text \<open>
  Python code that talks to the outside: a function of the world's state \<open>'s\<close> that leaves a new state and
  an outcome. \<open>Blocked\<close> is a call that does not return. \<open>runs m s P\<close> is total correctness: from \<open>s\<close> the
  program returns, and \<open>P\<close> holds of the state and the value.
\<close>

type_synonym ('s, 'a) io = "'s \<Rightarrow> 's \<times> 'a outcome"

definition io_ret :: "'a \<Rightarrow> ('s, 'a) io" where
  "io_ret x s = (s, Returns x)"

definition io_raise :: "exc \<Rightarrow> ('s, 'a) io" where
  "io_raise x s = (s, Raises x)"

definition io_block :: "('s, 'a) io" where
  "io_block s = (s, Blocked)"

definition io_bind :: "('s, 'a) io \<Rightarrow> ('a \<Rightarrow> ('s, 'b) io) \<Rightarrow> ('s, 'b) io" where
  "io_bind m k s = (case m s of
       (s', Returns x) \<Rightarrow> k x s'
     | (s', Raises e) \<Rightarrow> (s', Raises e)
     | (s', Blocked) \<Rightarrow> (s', Blocked))"

definition io_py :: "'a py \<Rightarrow> ('s, 'a) io" where
  "io_py r = (case r of Inl e \<Rightarrow> io_raise e | Inr x \<Rightarrow> io_ret x)"

text \<open>\<open>try: m finally: fin\<close>. An exception of \<open>fin\<close> replaces what \<open>m\<close> gave.\<close>

definition io_finally :: "('s, 'a) io \<Rightarrow> ('s, 'b) io \<Rightarrow> ('s, 'a) io" where
  "io_finally m fin s = (case m s of
       (s', Blocked) \<Rightarrow> (s', Blocked)
     | (s', r) \<Rightarrow> (case fin s' of
           (s'', Returns _) \<Rightarrow> (s'', r)
         | (s'', Raises e) \<Rightarrow> (s'', Raises e)
         | (s'', Blocked) \<Rightarrow> (s'', Blocked)))"

text \<open>\<open>try: m except Exception as exc: handler(exc)\<close>.\<close>

definition io_except :: "('s, 'a) io \<Rightarrow> (exc \<Rightarrow> ('s, 'a) io) \<Rightarrow> ('s, 'a) io" where
  "io_except m h s = (case m s of (s', Raises e) \<Rightarrow> h e s' | r \<Rightarrow> r)"

text \<open>A comprehension whose element has effects.\<close>

fun io_list :: "('a \<Rightarrow> ('s, 'b) io) \<Rightarrow> 'a list \<Rightarrow> ('s, 'b list) io" where
  "io_list f [] = io_ret []"
| "io_list f (x # xs) = io_bind (f x) (\<lambda>y. io_bind (io_list f xs) (\<lambda>ys. io_ret (y # ys)))"

subsection \<open>Total correctness\<close>

definition runs :: "('s, 'a) io \<Rightarrow> 's \<Rightarrow> ('s \<Rightarrow> 'a \<Rightarrow> bool) \<Rightarrow> bool" where
  "runs m s P = (case m s of (s', Returns x) \<Rightarrow> P s' x | _ \<Rightarrow> False)"

named_theorems wp

lemma runs_ret [wp]: "runs (io_ret x) s P = P s x"
  by (simp add: runs_def io_ret_def)

lemma runs_bind [wp]: "runs (io_bind m k) s P = runs m s (\<lambda>s' x. runs (k x) s' P)"
  by (auto simp: runs_def io_bind_def split: outcome.splits)

lemma runs_py [wp]: "runs (io_py r) s P = (\<exists>x. r = Inr x \<and> P s x)"
  by (cases r) (simp_all add: io_py_def runs_def io_ret_def io_raise_def)

lemma runs_raise [wp]: "\<not> runs (io_raise e) s P"
  by (simp add: runs_def io_raise_def)

lemma runs_finally [wp]: "runs (io_finally m fin) s P = runs m s (\<lambda>s' x. runs fin s' (\<lambda>s'' _. P s'' x))"
  by (auto simp: runs_def io_finally_def split: outcome.splits prod.splits)

lemma runs_except: "runs m s P \<Longrightarrow> runs (io_except m h) s P"
  by (auto simp: runs_def io_except_def split: outcome.splits)

lemma runs_mono: "runs m s P \<Longrightarrow> (\<And>s' x. P s' x \<Longrightarrow> Q s' x) \<Longrightarrow> runs m s Q"
  by (auto simp: runs_def split: outcome.splits)

lemma runs_iff: "runs m s P \<longleftrightarrow> (\<exists>s' x. m s = (s', Returns x) \<and> P s' x)"
  by (cases "m s") (auto simp: runs_def split: outcome.splits)

lemma runs_if: "(b \<Longrightarrow> runs m s P) \<Longrightarrow> (\<not> b \<Longrightarrow> runs m' s P) \<Longrightarrow> runs (if b then m else m') s P"
  by simp

end
