(* ===== verification/PyText.thy ===== *)
theory PyText
  imports PyNumber "HOL-Library.Char_ord" "HOL-Library.List_Lexorder"
begin

text \<open>
  Python's text forms of numbers, as the drivers use them: \<open>str\<close> of an integer, zero padding, and \<open>repr\<close>
  of a float (the shortest decimal that reads back as the same double).
\<close>

definition digit_char :: "nat \<Rightarrow> char" where
  "digit_char d = char_of (48 + d)"

fun nat_str :: "nat \<Rightarrow> string" where
  "nat_str n = (if n < 10 then [digit_char n] else nat_str (n div 10) @ [digit_char (n mod 10)])"

declare nat_str.simps [simp del]

definition int_str :: "int \<Rightarrow> string" where
  "int_str n = (if n < 0 then ''-'' @ nat_str (nat (- n)) else nat_str (nat n))"

text \<open>\<open>f"{n:06d}"\<close> of a natural number.\<close>

definition pad6 :: "nat \<Rightarrow> string" where
  "pad6 n = (let s = nat_str n in replicate (6 - length s) (CHR ''0'') @ s)"

subsection \<open>Floats\<close>

definition pow10 :: "int \<Rightarrow> rat" where
  "pow10 e = (if 0 \<le> e then 10 ^ nat e else 1 / 10 ^ nat (- e))"

text \<open>The decimal exponent, searched from \<open>e\<close>; those of doubles lie between -324 and 308.\<close>

fun dec_exp :: "nat \<Rightarrow> int \<Rightarrow> rat \<Rightarrow> int" where
  "dec_exp 0 e a = e"
| "dec_exp (Suc n) e a = (if a < pow10 e then dec_exp n (e - 1) a else if pow10 (e + 1) \<le> a then dec_exp n (e + 1) a else e)"

definition reads_back :: "rat \<Rightarrow> rat \<Rightarrow> bool" where
  "reads_back a c = (b64_round c = Fin a)"

text \<open>The nearest decimals of \<open>p\<close> digits below and above; the nearer one that reads back.\<close>

definition try_digits :: "rat \<Rightarrow> int \<Rightarrow> nat \<Rightarrow> int option" where
  "try_digits a e p = (let u = pow10 (e - int p + 1); lo = \<lfloor>a / u\<rfloor>; hi = lo + 1;
     near = (if a / u - of_int lo \<le> 1 / 2 then lo else hi); far = (if near = lo then hi else lo) in
     if reads_back a (of_int near * u) then Some near
     else if reads_back a (of_int far * u) then Some far else None)"

fun shortest :: "nat \<Rightarrow> rat \<Rightarrow> int \<Rightarrow> nat \<Rightarrow> int \<times> nat" where
  "shortest 0 a e p = (round_half_even (a / pow10 (e - int p + 1)), p)"
| "shortest (Suc n) a e p = (case try_digits a e p of Some m \<Rightarrow> (m, p) | None \<Rightarrow> shortest n a e (Suc p))"

text \<open>\<open>m * 10^k\<close> in positional or scientific form.\<close>

definition decimal_str :: "string \<Rightarrow> int \<Rightarrow> string" where
  "decimal_str ds e =
     (if - 4 \<le> e \<and> e < 16 then
        (if e < 0 then ''0.'' @ replicate (nat (- e) - 1) (CHR ''0'') @ ds
         else if int (length ds) \<le> e + 1 then ds @ replicate (nat (e + 1) - length ds) (CHR ''0'') @ ''.0''
         else take (nat (e + 1)) ds @ ''.'' @ drop (nat (e + 1)) ds)
      else let x = nat_str (nat \<bar>e\<bar>) in
        take 1 ds @ (if length ds = 1 then [] else ''.'' @ drop 1 ds) @ ''e'' @ (if e < 0 then ''-'' else ''+'')
          @ (if length x < 2 then ''0'' else []) @ x)"

text \<open>Rounding up to the next power of ten leaves a zero.\<close>

definition strip_zeros :: "string \<Rightarrow> string" where
  "strip_zeros ds = rev (dropWhile (\<lambda>c. c = CHR ''0'') (rev ds))"

definition float_str :: "pyfloat \<Rightarrow> string" where
  "float_str f = (case f of NaN \<Rightarrow> ''nan'' | PInf \<Rightarrow> ''inf'' | NInf \<Rightarrow> ''-inf''
     | Fin q \<Rightarrow> if q = 0 then ''0.0''
         else let a = \<bar>q\<bar>; e = dec_exp 400 0 a; mp = shortest 16 a e 1; ds = nat_str (nat (fst mp)) in
           (if q < 0 then ''-'' else []) @ decimal_str (strip_zeros ds) (e + int (length ds) - int (snd mp)))"

definition is_integer :: "pyfloat \<Rightarrow> bool" where
  "is_integer f = (case f of Fin q \<Rightarrow> of_int \<lfloor>q\<rfloor> = q | _ \<Rightarrow> False)"

subsection \<open>Distinct numbers have distinct texts\<close>

definition digit_val :: "char \<Rightarrow> nat" where "digit_val c = of_char c - 48"

definition str_val :: "string \<Rightarrow> nat" where "str_val s = foldl (\<lambda>v c. v * 10 + digit_val c) 0 s"

lemma digit_val: "d < 10 \<Longrightarrow> digit_val (digit_char d) = d"
  by (simp add: digit_val_def digit_char_def)

lemma str_val_nat: "str_val (nat_str n) = n"
proof (induction n rule: nat_str.induct)
  case (1 n)
  show ?case
  proof (cases "n < 10")
    case True
    then show ?thesis by (subst nat_str.simps) (simp add: str_val_def digit_val)
  next
    case False
    then have "str_val (nat_str n) = str_val (nat_str (n div 10)) * 10 + digit_val (digit_char (n mod 10))"
      by (subst nat_str.simps) (simp add: str_val_def)
    then show ?thesis using 1 [OF False] by (simp add: digit_val)
  qed
qed

lemma str_val_pad: "str_val (replicate k (CHR ''0'') @ s) = str_val s"
proof -
  have "foldl (\<lambda>v c. v * 10 + digit_val c) 0 (replicate k (CHR ''0'')) = 0"
    by (induction k) (simp_all add: digit_val_def)
  then show ?thesis by (simp add: str_val_def)
qed

lemma pad6_inj: "pad6 m = pad6 n \<Longrightarrow> m = n"
proof -
  have "str_val (pad6 k) = k" for k by (simp add: pad6_def Let_def str_val_pad str_val_nat)
  then show "pad6 m = pad6 n \<Longrightarrow> m = n" by metis
qed

subsection \<open>Padded numbers sort like the numbers\<close>

fun fixed_str :: "nat \<Rightarrow> nat \<Rightarrow> string" where
  "fixed_str 0 n = []"
| "fixed_str (Suc k) n = fixed_str k (n div 10) @ [digit_char (n mod 10)]"

lemma fixed_length [simp]: "length (fixed_str k n) = k"
  by (induction k arbitrary: n) simp_all

lemma fixed_zero: "fixed_str k 0 = replicate k (CHR ''0'')"
proof (induction k)
  case (Suc k)
  have "digit_char 0 = CHR ''0''" by code_simp
  then show ?case using Suc by (simp add: replicate_append_same)
qed simp

lemma fixed_pad: "n < 10 ^ k \<Longrightarrow> 0 < k \<Longrightarrow> replicate (k - length (nat_str n)) (CHR ''0'') @ nat_str n = fixed_str k n \<and> length (nat_str n) \<le> k"
proof (induction k arbitrary: n)
  case (Suc k)
  show ?case
  proof (cases "n < 10")
    case True
    then show ?thesis by (subst (1 2 3) nat_str.simps) (simp add: fixed_zero)
  next
    case False
    then have k: "n div 10 < 10 ^ k" "0 < k" using Suc.prems by (auto simp: less_mult_imp_div_less intro: gr0I)
    then show ?thesis
      using Suc.IH [OF k] False by (subst (1 2 3) nat_str.simps) simp
  qed
qed simp

lemma pad6_fixed: "n < 10 ^ 6 \<Longrightarrow> pad6 n = fixed_str 6 n"
  using fixed_pad [of n 6] by (simp add: pad6_def Let_def)

lemma less_append_same: "length xs = length ys \<Longrightarrow> (xs :: 'a :: linorder list) < ys \<Longrightarrow> xs @ us < ys @ vs"
proof (induction xs ys rule: list_induct2)
  case (Cons x xs y ys)
  then show ?case by auto
qed simp

lemma less_append_prefix: "(us :: 'a :: linorder list) < vs \<Longrightarrow> xs @ us < xs @ vs"
  by (induction xs) simp_all

lemma digit_char_mono: "a < b \<Longrightarrow> b < 10 \<Longrightarrow> digit_char a < digit_char b"
  by (simp add: less_char_def digit_char_def)

lemma fixed_less: "m < n \<Longrightarrow> n < 10 ^ k \<Longrightarrow> fixed_str k m < fixed_str k n"
proof (induction k arbitrary: m n)
  case (Suc k)
  show ?case
  proof (cases "m div 10 = n div 10")
    case True
    have "m div 10 * 10 + m mod 10 < n div 10 * 10 + n mod 10" using Suc.prems(1) by simp
    then have "m mod 10 < n mod 10" unfolding True by linarith
    then show ?thesis using True by (simp add: less_append_prefix digit_char_mono)
  next
    case False
    then have "m div 10 < n div 10" using div_le_mono [of m n 10] Suc.prems(1) by simp
    moreover have "n div 10 < 10 ^ k" using Suc.prems(2) by (simp add: less_mult_imp_div_less)
    ultimately show ?thesis using Suc.IH by (simp add: less_append_same)
  qed
qed simp

lemma pad6_less: "m < n \<Longrightarrow> n < 10 ^ 6 \<Longrightarrow> pad6 m < pad6 n"
  using fixed_less [of m n 6] by (simp add: pad6_fixed)

end
