(* ===== verification/PyFloatScale.thy ===== *)
theory PyFloatScale
  imports PyFloat
begin

text \<open>
  Rounding and powers of two: the binary exponent is what its name says, a value that has been rounded
  rounds to itself, and scaling by a power of two commutes with rounding while nothing underflows.
\<close>

lemma pow2_powi: "pow2 e = 2 powi e"
  by (simp add: pow2_def power_int_def field_simps)

lemma pow2_add: "pow2 (a + b) = pow2 a * pow2 b"
  by (simp add: pow2_powi power_int_add)

lemma pow2_nonzero [simp]: "pow2 e \<noteq> 0"
  using pow2_pos [of e] by linarith

lemma pow2_less: "a < b \<Longrightarrow> pow2 a < pow2 b"
  by (simp add: pow2_powi power_int_strict_increasing)

lemma pow2_le: "a \<le> b \<Longrightarrow> pow2 a \<le> pow2 b"
  by (simp add: pow2_powi power_int_increasing)

lemma ilog2_bounds:
  assumes "0 < x"
  shows "pow2 (ilog2 x) \<le> x \<and> x < pow2 (ilog2 x + 1)"
proof -
  obtain p q where pq: "quotient_of x = (p, q)" by (cases "quotient_of x") auto
  then have q: "0 < q" and x: "x = of_int p / of_int q"
    using quotient_of_denom_pos quotient_of_div by blast+
  have p: "0 < p" using assms q unfolding x by (simp add: zero_less_divide_iff)
  define a b where "a = bitlen p" and "b = bitlen q"
  have int_bounds: "pow2 (bitlen n - 1) \<le> of_int n \<and> of_int n < pow2 (bitlen n)" if "0 < n" for n
  proof -
    have "1 \<le> bitlen n" using that bitlen_le_iff_power [of n 0] bitlen_nonneg [of n] by (cases "bitlen n = 0") auto
    moreover have "2 ^ nat (bitlen n - 1) \<le> n" "n < 2 ^ nat (bitlen n)" using bitlen_bounds [OF that] by simp_all
    then have "of_int (2 ^ nat (bitlen n - 1)) \<le> (of_int n :: rat)" "(of_int n :: rat) < of_int (2 ^ nat (bitlen n))"
      by (simp_all only: of_int_le_iff of_int_less_iff)
    ultimately show ?thesis by (simp add: pow2_def)
  qed
  have pb: "pow2 (a - 1) \<le> of_int p" "of_int p < pow2 a" using int_bounds [OF p] by (simp_all add: a_def)
  have qb: "pow2 (b - 1) \<le> of_int q" "of_int q < pow2 b" using int_bounds [OF q] by (simp_all add: b_def)
  have q': "0 < (of_int q :: rat)" using q by simp
  have up: "x < pow2 (a - b + 1)"
  proof -
    have "pow2 a = pow2 (a - b + 1) * pow2 (b - 1)" by (simp add: pow2_add [symmetric])
    also have "\<dots> \<le> pow2 (a - b + 1) * of_int q" using qb(1) by (simp add: mult_left_mono)
    finally show ?thesis using pb(2) q' unfolding x by (simp add: field_simps)
  qed
  have low: "pow2 (a - b - 1) \<le> x"
  proof -
    have "pow2 (a - b - 1) * of_int q \<le> pow2 (a - b - 1) * pow2 b" using qb(2) by (simp add: mult_left_mono)
    also have "\<dots> = pow2 (a - 1)" by (simp add: pow2_add [symmetric])
    finally show ?thesis using pb(1) q' unfolding x by (simp add: field_simps)
  qed
  have "ilog2 x = (if pow2 (a - b) \<le> x then a - b else a - b - 1)"
    by (simp add: ilog2_def pq a_def b_def Let_def)
  then show ?thesis using up low by simp
qed

lemma ilog2_unique:
  assumes "pow2 e \<le> x" "x < pow2 (e + 1)"
  shows "ilog2 x = e"
proof -
  have x: "0 < x" using assms(1) pow2_pos [of e] by linarith
  note b = ilog2_bounds [OF x]
  show ?thesis
  proof (rule ccontr)
    assume "ilog2 x \<noteq> e"
    then consider "ilog2 x + 1 \<le> e" | "e + 1 \<le> ilog2 x" by linarith
    then show False
    proof cases
      case 1
      then show False using b assms(1) pow2_le [OF 1] by linarith
    next
      case 2
      then show False using b assms(2) pow2_le [OF 2] by linarith
    qed
  qed
qed

lemma ilog2_scale: "0 < x \<Longrightarrow> ilog2 (x * pow2 k) = ilog2 x + k"
proof (rule ilog2_unique)
  assume x: "0 < x"
  show "pow2 (ilog2 x + k) \<le> x * pow2 k"
    using ilog2_bounds [OF x] by (simp add: pow2_add mult_right_mono)
  have "x * pow2 k < pow2 (ilog2 x + 1) * pow2 k"
    using ilog2_bounds [OF x] by simp
  then show "x * pow2 k < pow2 (ilog2 x + k + 1)" by (simp add: pow2_add ac_simps)
qed

lemma round_half_even_bounds: "of_int m \<le> x \<Longrightarrow> m \<le> round_half_even x" "x \<le> of_int m \<Longrightarrow> round_half_even x \<le> m"
proof -
  show "m \<le> round_half_even x" if "of_int m \<le> x"
  proof -
    have "m \<le> \<lfloor>x\<rfloor>" using that by (simp add: le_floor_iff)
    then show ?thesis by (auto simp: round_half_even_def Let_def)
  qed
  show "round_half_even x \<le> m" if "x \<le> of_int m"
  proof (cases "x = of_int m")
    case False
    then have "x < of_int m" using that by simp
    then have "\<lfloor>x\<rfloor> + 1 \<le> m" by (simp add: floor_less_iff less_iff_succ_less_eq [symmetric])
    then show ?thesis by (auto simp: round_half_even_def Let_def)
  qed simp
qed

text \<open>The significand of a value in the normal range.\<close>

lemma significand:
  assumes x: "0 < x" and normal: "- 1022 \<le> ilog2 x"
  shows "2 ^ 52 \<le> round_half_even (x / pow2 (ilog2 x - 52)) \<and> round_half_even (x / pow2 (ilog2 x - 52)) \<le> 2 ^ 53"
proof -
  have p: "0 < pow2 (ilog2 x - 52)" by simp
  have two: "pow2 52 = of_int (2 ^ 52)" "pow2 53 = of_int (2 ^ 53)" by (simp_all add: pow2_def)
  have "pow2 (ilog2 x) = pow2 52 * pow2 (ilog2 x - 52)" by (simp add: pow2_add [symmetric])
  then have "of_int (2 ^ 52) \<le> x / pow2 (ilog2 x - 52)" using ilog2_bounds [OF x] p two by (simp add: pos_le_divide_eq)
  moreover have "pow2 (ilog2 x + 1) = pow2 53 * pow2 (ilog2 x - 52)" by (simp add: pow2_add [symmetric] add.commute)
  then have "x / pow2 (ilog2 x - 52) \<le> of_int (2 ^ 53)" using ilog2_bounds [OF x] p two by (simp add: pos_divide_le_eq)
  ultimately show ?thesis using round_half_even_bounds by blast
qed

lemma b64_mag_normal:
  "- 1022 \<le> ilog2 x \<Longrightarrow> b64_mag x = of_int (round_half_even (x / pow2 (ilog2 x - 52))) * pow2 (ilog2 x - 52)"
  by (simp add: b64_mag_def b64_ulp_exp_def max_def)

lemma b64_mag_scale:
  assumes "0 < x" "- 1022 \<le> ilog2 x" "- 1022 \<le> ilog2 x + k"
  shows "b64_mag (x * pow2 k) = b64_mag x * pow2 k"
proof -
  have "x * pow2 k / pow2 (ilog2 x + k - 52) = x / pow2 (ilog2 x - 52)"
    using pow2_add [of "ilog2 x - 52" k] pow2_pos [of k] by (simp add: algebra_simps less_imp_neq [THEN not_sym])
  moreover have "ilog2 x + k - 52 = (ilog2 x - 52) + k" by simp
  then have "pow2 (ilog2 x + k - 52) = pow2 (ilog2 x - 52) * pow2 k" by (simp only: pow2_add)
  ultimately show ?thesis using assms by (simp add: b64_mag_normal ilog2_scale)
qed

lemma b64_mag_ilog2:
  assumes "0 < x" "- 1022 \<le> ilog2 x"
  shows "0 < b64_mag x" "ilog2 x \<le> ilog2 (b64_mag x)" "ilog2 (b64_mag x) \<le> ilog2 x + 1"
    "b64_mag (b64_mag x) = b64_mag x"
proof -
  define r where "r = round_half_even (x / pow2 (ilog2 x - 52))"
  have m: "b64_mag x = of_int r * pow2 (ilog2 x - 52)" using assms(2) by (simp add: b64_mag_normal r_def)
  have r: "2 ^ 52 \<le> r" "r \<le> 2 ^ 53" using significand [OF assms] by (simp_all add: r_def)
  show pos: "0 < b64_mag x" unfolding m using r(1) by simp
  show "ilog2 x \<le> ilog2 (b64_mag x)" "ilog2 (b64_mag x) \<le> ilog2 x + 1" "b64_mag (b64_mag x) = b64_mag x"
  proof -
    have "ilog2 (b64_mag x) = (if r = 2 ^ 53 then ilog2 x + 1 else ilog2 x)"
    proof (rule ilog2_unique)
      let ?e = "if r = 2 ^ 53 then ilog2 x + 1 else ilog2 x"
      have two: "pow2 52 = of_int (2 ^ 52)" "pow2 53 = of_int (2 ^ 53)" by (simp_all add: pow2_def)
      have e: "pow2 (ilog2 x) = of_int (2 ^ 52) * pow2 (ilog2 x - 52)" "pow2 (ilog2 x + 1) = of_int (2 ^ 53) * pow2 (ilog2 x - 52)"
        "pow2 (ilog2 x + 2) = 2 * of_int (2 ^ 53) * pow2 (ilog2 x - 52)"
        using pow2_add [of 52 "ilog2 x - 52"] pow2_add [of 53 "ilog2 x - 52"] pow2_add [of 54 "ilog2 x - 52"]
        by (simp_all add: pow2_def [of 52] pow2_def [of 53] pow2_def [of 54] add.commute)
      have mono: "a \<le> b \<Longrightarrow> of_int a * pow2 (ilog2 x - 52) \<le> of_int b * pow2 (ilog2 x - 52)"
        "a < b \<Longrightarrow> of_int a * pow2 (ilog2 x - 52) < of_int b * pow2 (ilog2 x - 52)" for a b :: int
        by (simp_all add: mult_right_mono)
      show "pow2 ?e \<le> b64_mag x" using r e(1,2) mono(1) [of "2 ^ 52" r] by (simp add: m)
      show "b64_mag x < pow2 (?e + 1)" using r e(2,3) mono(2) [of r "2 ^ 53"] mono(2) [of r "2 * 2 ^ 53"]
        by (auto simp: m add.assoc)
    qed
    then have e: "ilog2 (b64_mag x) = (if r = 2 ^ 53 then ilog2 x + 1 else ilog2 x)" .
    then show "ilog2 x \<le> ilog2 (b64_mag x)" "ilog2 (b64_mag x) \<le> ilog2 x + 1" by simp_all
    have "\<exists>s. b64_mag x / pow2 (ilog2 (b64_mag x) - 52) = of_int s"
    proof (cases "r = 2 ^ 53")
      case True
      have "pow2 (ilog2 x + 1 - 52) = 2 * pow2 (ilog2 x - 52)"
        using pow2_add [of 1 "ilog2 x - 52"] by (simp add: algebra_simps pow2_def [of 1])
      moreover have "ilog2 (b64_mag x) - 52 = ilog2 x + 1 - 52" using e True by simp
      ultimately have "b64_mag x / pow2 (ilog2 (b64_mag x) - 52) = of_int (2 ^ 52)"
        by (simp only: m) (simp add: True)
      then show ?thesis by blast
    next
      case False
      then have "ilog2 (b64_mag x) - 52 = ilog2 x - 52" using e by simp
      then have "b64_mag x / pow2 (ilog2 (b64_mag x) - 52) = of_int r" by (simp only: m) simp
      then show ?thesis by blast
    qed
    then obtain s where s: "b64_mag x / pow2 (ilog2 (b64_mag x) - 52) = of_int s" by blast
    then have "b64_mag x = of_int s * pow2 (ilog2 (b64_mag x) - 52)"
      by (metis (no_types) nonzero_divide_eq_eq pow2_pos less_irrefl)
    then show "b64_mag (b64_mag x) = b64_mag x"
      using e assms(2) s by (simp add: b64_mag_normal)
  qed
qed

text \<open>Dividing by \<open>2^64\<close> before or after rounding an unsigned 64-bit value makes no difference.\<close>

lemma round_div_2_64:
  assumes "0 \<le> n" "n < 2 ^ 64"
  shows "b64_round (of_int n / 2 ^ 64) = (case b64_round (of_int n) of Fin x \<Rightarrow> b64_round (x / 2 ^ 64) | y \<Rightarrow> y)"
proof (cases "n = 0")
  case False
  define x :: rat where "x = of_int n"
  have x: "0 < x" "pow2 0 \<le> x" "x < pow2 64"
    using False assms of_int_less_iff [of n "2 ^ 64", where 'a = rat] by (simp_all add: x_def pow2_def)
  have up: "ilog2 x \<le> 63"
    using ilog2_bounds [OF x(1)] x(3) pow2_le [of 64 "ilog2 x"] by linarith
  have low: "0 \<le> ilog2 x"
    using ilog2_bounds [OF x(1)] x(2) pow2_le [of "ilog2 x + 1" 0] by linarith
  have normal: "- 1022 \<le> ilog2 x" using low by simp
  note m = b64_mag_ilog2 [OF x(1) normal]
  have div: "y / 2 ^ 64 = y * pow2 (- 64)" for y :: rat by (simp add: pow2_def)
  have s1: "b64_mag (x * pow2 (- 64)) = b64_mag x * pow2 (- 64)" using x(1) low by (intro b64_mag_scale) simp_all
  have s2: "b64_mag (b64_mag x * pow2 (- 64)) = b64_mag x * pow2 (- 64)"
    using b64_mag_scale [OF m(1), of "- 64"] m low by simp
  have bound: "b64_mag x < pow2 65"
    using ilog2_bounds [OF m(1)] m(3) up pow2_le [of "ilog2 (b64_mag x) + 1" 65] by linarith
  have big: "pow2 65 \<le> 2 ^ 1024" "b64_mag x * pow2 (- 64) < 2 ^ 1024"
  proof -
    show "pow2 65 \<le> 2 ^ 1024" by (simp add: pow2_def)
    have "b64_mag x * pow2 (- 64) \<le> b64_mag x" using m(1) by (simp add: pow2_def)
    then show "b64_mag x * pow2 (- 64) < 2 ^ 1024" using bound \<open>pow2 65 \<le> 2 ^ 1024\<close> by linarith
  qed
  have pos: "0 < b64_mag x * pow2 (- 64)" "0 < x * pow2 (- 64)" using m(1) x(1) by simp_all
  have "b64_round x = Fin (b64_mag x)"
    using x(1) bound big(1) by (simp add: b64_round_def)
  moreover have "b64_round (b64_mag x * pow2 (- 64)) = Fin (b64_mag x * pow2 (- 64))"
    using pos big(2) s2 by (simp add: b64_round_def)
  moreover have "b64_round (x * pow2 (- 64)) = Fin (b64_mag x * pow2 (- 64))"
    using pos big(2) s1 x(1) by (simp add: b64_round_def)
  ultimately show ?thesis unfolding x_def [symmetric] div by (simp only: pyfloat.case)
qed simp

end
