(* ===== verification/BenchService.thy ===== *)
theory BenchService
  imports PyFloatScale "HOL-Library.Word"
begin

unbundle bit_operations_syntax

text \<open>
  The deterministic service-time sequence: \<open>service_for\<close> of \<open>bench/service_sequence.py\<close> over unbounded
  integers, and its native twin in \<open>hpx_impl/hpx_synthetic_baseline.cpp\<close> over \<open>uint64_t\<close> and \<open>double\<close>.
\<close>

record service_args =
  sa_pattern :: string
  sa_service_ms :: pyfloat
  sa_seed :: int
  sa_low :: pyfloat
  sa_high :: pyfloat
  sa_p_high :: pyfloat

definition MASK64 :: int where "MASK64 = 2 ^ 64 - 1"
definition GAMMA :: int where "GAMMA = 0x9E3779B97F4A7C15"
definition MIX1 :: int where "MIX1 = 0xBF58476D1CE4E5B9"
definition MIX2 :: int where "MIX2 = 0x94D049BB133111EB"

definition splitmix :: "int \<Rightarrow> int \<Rightarrow> int" where
  "splitmix seed idx =
     (let z = (seed + idx * GAMMA) AND MASK64;
          z = ((z XOR (z div 2 ^ 30)) * MIX1) AND MASK64;
          z = ((z XOR (z div 2 ^ 27)) * MIX2) AND MASK64
      in z XOR (z div 2 ^ 31))"

text \<open>\<open>z / 2 ** 64\<close> of two integers is one correctly rounded division.\<close>

definition service_for :: "int \<Rightarrow> 'z service_args_scheme \<Rightarrow> pyfloat" where
  "service_for idx a =
     (if sa_pattern a = ''fixed'' then sa_service_ms a
      else let draw = b64_round (of_int (splitmix (sa_seed a) idx) / 2 ^ 64)
           in if flt draw (sa_p_high a) then sa_high a else sa_low a)"

definition splitmix_native :: "int \<Rightarrow> int \<Rightarrow> 64 word" where
  "splitmix_native seed idx =
     (let z = word_of_int seed + word_of_int idx * word_of_int GAMMA;
          z = (z XOR drop_bit 30 z) * word_of_int MIX1;
          z = (z XOR drop_bit 27 z) * word_of_int MIX2
      in z XOR drop_bit 31 z)"

text \<open>The conversion rounds, the division by \<open>2^64\<close> of what it gave rounds again.\<close>

definition service_for_native :: "int \<Rightarrow> 'z service_args_scheme \<Rightarrow> pyfloat" where
  "service_for_native idx a =
     (if sa_pattern a = ''fixed'' then sa_service_ms a
      else let draw = fdiv_pos (b64_round (of_int (uint (splitmix_native (sa_seed a) idx)))) (2 ^ 64)
           in if flt draw (sa_p_high a) then sa_high a else sa_low a)"

subsection \<open>The two agree\<close>

lemma mask64: "x AND MASK64 = x mod 2 ^ 64"
  using take_bit_eq_mask [of 64 x] by (simp add: MASK64_def mask_eq_exp_minus_1 take_bit_eq_mod)

lemma uint_shift: "uint (drop_bit n (z :: 64 word)) = uint z div 2 ^ n"
proof -
  have "take_bit 64 (uint z) = uint z" using uint_lt2p [of z] by (simp add: take_bit_int_eq_self)
  then show ?thesis by (simp only: unsigned_drop_bit_eq) (simp add: drop_bit_eq_div)
qed

lemma mix_step: "uint ((z XOR drop_bit n z) * word_of_int m :: 64 word) = ((uint z XOR (uint z div 2 ^ n)) * m) AND MASK64"
  unfolding mask64 by (simp add: uint_word_ariths unsigned_xor_eq uint_shift mod_mult_right_eq unsigned_of_int take_bit_eq_mod)

lemma splitmix_agrees: "uint (splitmix_native seed idx) = splitmix seed idx"
proof -
  have start: "uint (word_of_int seed + word_of_int idx * word_of_int GAMMA :: 64 word) = (seed + idx * GAMMA) AND MASK64"
    unfolding mask64 by (simp add: uint_word_ariths unsigned_of_int take_bit_eq_mod mod_simps)
  show ?thesis
    by (simp only: splitmix_native_def splitmix_def Let_def unsigned_xor_eq uint_shift mix_step start)
qed

lemma splitmix_range: "0 \<le> splitmix seed idx \<and> splitmix seed idx < 2 ^ 64"
  using uint_lt2p [of "splitmix_native seed idx"] by (simp add: splitmix_agrees [symmetric])

text \<open>
  The Python and the native service sequence agree: for every seed, index and pattern both give the
  same service time, although one divides exactly and the other rounds twice; and it is always one of
  the configured times.
\<close>

theorem service_sequences_agree:
  "service_for_native idx a = service_for idx a
    \<and> service_for idx a \<in> {sa_service_ms a, sa_low a, sa_high a}"
proof -
  have "fdiv_pos (b64_round (of_int (uint (splitmix_native (sa_seed a) idx)))) (2 ^ 64)
      = b64_round (of_int (splitmix (sa_seed a) idx) / 2 ^ 64)"
    using round_div_2_64 [of "splitmix (sa_seed a) idx"] splitmix_range [of "sa_seed a" idx]
    unfolding splitmix_agrees by (simp split: pyfloat.splits)
  then show ?thesis by (simp add: service_for_native_def service_for_def Let_def)
qed

text \<open>
  The draw is documented to lie in \<open>[0, 1)\<close>, so that a probability of one always picks the high time;
  the division can round it up to one.
\<close>

lemma draw_reaches_one:
  "splitmix 14959274266131672512 0 = 2 ^ 64 - 1"
  "b64_round (of_int (2 ^ 64 - 1) / 2 ^ 64) = Fin 1"
proof -
  show "splitmix 14959274266131672512 0 = 2 ^ 64 - 1"
    unfolding splitmix_def Let_def mask64 MIX1_def MIX2_def by simp
  define x :: rat where "x = of_int (2 ^ 64 - 1) / 2 ^ 64"
  have e: "ilog2 x = - 1" by (rule ilog2_unique) (simp_all add: x_def pow2_def)
  have "\<lfloor>18446744073709551615 / 2048 :: rat\<rfloor> = 9007199254740991" by (rule floor_unique) simp_all
  then have "round_half_even (x / pow2 (- 53)) = 2 ^ 53"
    by (simp add: x_def pow2_def round_half_even_def Let_def)
  then have "b64_mag x = 1" by (simp add: b64_mag_def b64_ulp_exp_def e pow2_def)
  moreover have "0 < x" by (simp add: x_def)
  ultimately have "b64_round x = Fin 1" by (simp add: b64_round_def)
  then show "b64_round (of_int (2 ^ 64 - 1) / 2 ^ 64) = Fin 1" by (simp only: x_def)
qed

lemma probability_one_can_pick_low:
  "service_for 0 \<lparr>sa_pattern = ''bimodal'', sa_service_ms = Fin 0, sa_seed = 14959274266131672512,
     sa_low = Fin 1, sa_high = Fin 20, sa_p_high = Fin 1\<rparr> = Fin 1"
  by (simp only: service_for_def Let_def service_args.simps draw_reaches_one) simp

end
