(* ===== verification/BenchArgs.thy ===== *)
theory BenchArgs
  imports PyText BenchService
begin

text \<open>
  The command lines of the benchmark drivers (\<open>bench/run_*.py\<close>): the option tables, the conversions and
  checks of each \<open>parse_args\<close>, and the workload names derived from the arguments.

  The command line is a list of options with their texts, each written in full (\<open>--name=text\<close>). A
  usage error, for which argparse ends the process, is \<open>None\<close>. \<open>--out\<close> must be given; where the rows
  are written is not modelled. One record holds the arguments of every driver; a driver that lacks an
  option never reads its field.
\<close>

record dargs = service_args +
  da_work_mode :: string
  da_chunks :: int
  da_chunk_delay_ms :: pyfloat
  da_concurrency :: int
  da_requests :: int
  da_warmup_requests :: int
  da_retire_mode :: string
  da_workload :: "string option"
  da_num_lanes :: int
  da_hpx_threads :: int
  da_lane_impl :: string
  da_cap :: "int option"
  da_num_actors :: int
  da_num_cpus :: int
  da_num_cpus_per_actor :: int
  da_wait_batch :: int
  da_client_threads :: int
  da_api :: string
  da_actor_ready_timeout :: pyfloat

subsection \<open>\<open>argparse\<close>\<close>

datatype opt_type = OStr | OInt | OFloat

record opt =
  op_name :: string
  op_type :: opt_type
  op_choices :: "string list"
  op_default :: pyval

definition opt_value :: "opt \<Rightarrow> string \<Rightarrow> pyval option" where
  "opt_value q t = (case op_type q of
       OStr \<Rightarrow> if op_choices q \<noteq> [] \<and> t \<notin> set (op_choices q) then None else Some (VStr t)
     | OInt \<Rightarrow> (case int_of_str t of Inl _ \<Rightarrow> None | Inr n \<Rightarrow> Some (VInt n))
     | OFloat \<Rightarrow> (case float_of_str t of Inl _ \<Rightarrow> None | Inr f \<Rightarrow> Some (VFloat f)))"

type_synonym namespace = "string \<rightharpoonup> pyval"

fun parse_given :: "opt list \<Rightarrow> (string \<times> string) list \<Rightarrow> namespace \<Rightarrow> namespace option" where
  "parse_given qs [] ns = Some ns"
| "parse_given qs ((k, t) # rest) ns = (case find (\<lambda>q. op_name q = k) qs of None \<Rightarrow> None
     | Some q \<Rightarrow> (case opt_value q t of None \<Rightarrow> None | Some v \<Rightarrow> parse_given qs rest (ns(k \<mapsto> v))))"

definition parse_known :: "opt list \<Rightarrow> (string \<times> string) list \<Rightarrow> namespace option" where
  "parse_known qs argv = (if ''out'' \<notin> fst ` set argv then None
     else parse_given qs argv (map_of (map (\<lambda>q. (op_name q, op_default q)) qs)))"

definition ns_int :: "namespace \<Rightarrow> string \<Rightarrow> int" where
  "ns_int ns k = (case ns k of Some (VInt n) \<Rightarrow> n | _ \<Rightarrow> 0)"

definition ns_int_option :: "namespace \<Rightarrow> string \<Rightarrow> int option" where
  "ns_int_option ns k = (case ns k of Some (VInt n) \<Rightarrow> Some n | _ \<Rightarrow> None)"

text \<open>A float option whose default is written as an integer holds the equal float.\<close>

definition ns_float :: "namespace \<Rightarrow> string \<Rightarrow> pyfloat" where
  "ns_float ns k = (case ns k of Some (VFloat f) \<Rightarrow> f | Some (VInt n) \<Rightarrow> Fin (of_int n) | _ \<Rightarrow> Fin 0)"

definition ns_str :: "namespace \<Rightarrow> string \<Rightarrow> string" where
  "ns_str ns k = (case ns k of Some (VStr s) \<Rightarrow> s | _ \<Rightarrow> '''')"

definition ns_str_option :: "namespace \<Rightarrow> string \<Rightarrow> string option" where
  "ns_str_option ns k = (case ns k of Some (VStr s) \<Rightarrow> Some s | _ \<Rightarrow> None)"

definition args_of :: "namespace \<Rightarrow> dargs" where
  "args_of ns = \<lparr>sa_pattern = ns_str ns ''service-pattern'', sa_service_ms = ns_float ns ''service-ms'',
     sa_seed = ns_int ns ''seed'', sa_low = ns_float ns ''service-low'', sa_high = ns_float ns ''service-high'',
     sa_p_high = ns_float ns ''service-p-high'', da_work_mode = ns_str ns ''work-mode'',
     da_chunks = ns_int ns ''chunks'', da_chunk_delay_ms = ns_float ns ''chunk-delay-ms'',
     da_concurrency = ns_int ns ''concurrency'', da_requests = ns_int ns ''requests'',
     da_warmup_requests = ns_int ns ''warmup-requests'', da_retire_mode = ns_str ns ''retire-mode'',
     da_workload = ns_str_option ns ''workload'', da_num_lanes = ns_int ns ''num-lanes'',
     da_hpx_threads = ns_int ns ''hpx-threads'', da_lane_impl = ns_str ns ''lane-impl'',
     da_cap = ns_int_option ns ''max-queue-depth-per-lane'', da_num_actors = ns_int ns ''num-actors'',
     da_num_cpus = ns_int ns ''num-cpus'', da_num_cpus_per_actor = ns_int ns ''num-cpus-per-actor'',
     da_wait_batch = ns_int ns ''wait-batch'', da_client_threads = ns_int ns ''client-threads'',
     da_api = ns_str ns ''api'', da_actor_ready_timeout = ns_float ns ''actor-ready-timeout''\<rparr>"

definition str_opt :: "string \<Rightarrow> string list \<Rightarrow> string \<Rightarrow> opt" where
  "str_opt k cs d = \<lparr>op_name = k, op_type = OStr, op_choices = cs, op_default = VStr d\<rparr>"

definition none_opt :: "string \<Rightarrow> opt_type \<Rightarrow> opt" where
  "none_opt k ty = \<lparr>op_name = k, op_type = ty, op_choices = [], op_default = VNone\<rparr>"

definition int_opt :: "string \<Rightarrow> int \<Rightarrow> opt" where
  "int_opt k d = \<lparr>op_name = k, op_type = OInt, op_choices = [], op_default = VInt d\<rparr>"

definition float_opt :: "string \<Rightarrow> pyval \<Rightarrow> opt" where
  "float_opt k d = \<lparr>op_name = k, op_type = OFloat, op_choices = [], op_default = d\<rparr>"

subsection \<open>The five command lines\<close>

definition rayx_options :: "opt list" where
  "rayx_options = [str_opt ''work-mode'' [''sleep''] ''sleep'', float_opt ''service-ms'' (VInt 0), int_opt ''chunks'' 1,
     float_opt ''chunk-delay-ms'' (VFloat (Fin 0)), str_opt ''service-pattern'' [''fixed'', ''bimodal''] ''fixed'',
     float_opt ''service-low'' (VFloat (Fin 1)), float_opt ''service-high'' (VFloat (Fin 20)),
     float_opt ''service-p-high'' (VFloat (b64_round (1 / 10))), int_opt ''seed'' 0, int_opt ''concurrency'' 8,
     int_opt ''requests'' 500, int_opt ''warmup-requests'' 0,
     str_opt ''retire-mode'' [''one_by_one'', ''submit_all_get_all''] ''one_by_one'', int_opt ''num-lanes'' 1,
     int_opt ''hpx-threads'' 1, str_opt ''lane-impl'' [''std'', ''hpx''] ''std'',
     none_opt ''max-queue-depth-per-lane'' OInt, none_opt ''workload'' OStr, none_opt ''out'' OStr]"

definition bimodal_refused :: "dargs \<Rightarrow> bool" where
  "bimodal_refused a = (sa_pattern a = ''bimodal'' \<and>
     (flt (sa_low a) (Fin 0) \<or> flt (sa_high a) (Fin 0) \<or> \<not> (fle (Fin 0) (sa_p_high a) \<and> fle (sa_p_high a) (Fin 1))))"

definition rayx_refused :: "dargs \<Rightarrow> bool" where
  "rayx_refused a = (da_num_lanes a < 1 \<or> da_hpx_threads a < 1 \<or> da_chunks a < 1 \<or> flt (da_chunk_delay_ms a) (Fin 0)
     \<or> (case da_cap a of None \<Rightarrow> False | Some n \<Rightarrow> n < 1) \<or> bimodal_refused a)"

definition checked :: "(dargs \<Rightarrow> bool) \<Rightarrow> dargs \<Rightarrow> dargs option" where
  "checked refused a = (if refused a then None else Some a)"

definition rayx_parse_args :: "(string \<times> string) list \<Rightarrow> dargs option" where
  "rayx_parse_args argv = Option.bind (parse_known rayx_options argv) (\<lambda>ns. checked rayx_refused (args_of ns))"

definition hpx_options :: "opt list" where
  "hpx_options = [str_opt ''work-mode'' [''sleep'', ''spin''] ''sleep'', float_opt ''service-ms'' (VInt 0), int_opt ''chunks'' 1,
     float_opt ''chunk-delay-ms'' (VFloat (Fin 0)), str_opt ''service-pattern'' [''fixed'', ''bimodal''] ''fixed'',
     float_opt ''service-low'' (VFloat (Fin 1)), float_opt ''service-high'' (VFloat (Fin 20)),
     float_opt ''service-p-high'' (VFloat (b64_round (1 / 10))), int_opt ''seed'' 0, int_opt ''concurrency'' 8,
     int_opt ''requests'' 500, int_opt ''warmup-requests'' 0, int_opt ''num-lanes'' 1, int_opt ''hpx-threads'' 4,
     int_opt ''client-threads'' 1, str_opt ''retire-mode'' [''one_by_one'', ''batch_wait''] ''one_by_one'',
     int_opt ''wait-batch'' 8, str_opt ''api'' [''engine'', ''actor'', ''batch'', ''actor_batch''] ''engine'',
     none_opt ''workload'' OStr, none_opt ''out'' OStr]"

definition batch_api :: "dargs \<Rightarrow> bool" where
  "batch_api a = (da_api a = ''batch'' \<or> da_api a = ''actor_batch'')"

definition hpx_refused :: "dargs \<Rightarrow> bool" where
  "hpx_refused a = (flt (sa_service_ms a) (Fin 0) \<or> da_concurrency a < 1 \<or> da_num_lanes a < 1 \<or> da_hpx_threads a < 1
     \<or> da_client_threads a < 1 \<or> da_wait_batch a < 1 \<or> da_chunks a < 1 \<or> flt (da_chunk_delay_ms a) (Fin 0)
     \<or> batch_api a \<and> (1 < da_chunks a \<or> flt (Fin 0) (da_chunk_delay_ms a))
     \<or> 1 < da_client_threads a \<and> batch_api a
     \<or> da_retire_mode a = ''batch_wait'' \<and> (da_api a \<noteq> ''engine'' \<or> 1 < da_client_threads a)
     \<or> bimodal_refused a
     \<or> sa_pattern a = ''bimodal'' \<and> batch_api a \<and> (fle (sa_low a) (Fin 0) \<or> fle (sa_high a) (Fin 0)))"

definition hpx_parse_args :: "(string \<times> string) list \<Rightarrow> dargs option" where
  "hpx_parse_args argv = Option.bind (parse_known hpx_options argv) (\<lambda>ns. checked hpx_refused (args_of ns))"

definition ray_options :: "opt list" where
  "ray_options = [str_opt ''work-mode'' [''sleep''] ''sleep'', float_opt ''service-ms'' (VInt 0), int_opt ''chunks'' 1,
     float_opt ''chunk-delay-ms'' (VFloat (Fin 0)), str_opt ''service-pattern'' [''fixed'', ''bimodal''] ''fixed'',
     float_opt ''service-low'' (VFloat (Fin 1)), float_opt ''service-high'' (VFloat (Fin 20)),
     float_opt ''service-p-high'' (VFloat (b64_round (1 / 10))), int_opt ''seed'' 0, int_opt ''concurrency'' 8,
     int_opt ''num-actors'' 1, int_opt ''requests'' 500, int_opt ''warmup-requests'' 0,
     str_opt ''retire-mode'' [''one_by_one'', ''batch_wait'', ''submit_all_get_all''] ''one_by_one'',
     int_opt ''wait-batch'' 8, int_opt ''num-cpus'' 4, none_opt ''workload'' OStr, none_opt ''out'' OStr]"

definition ray_refused :: "dargs \<Rightarrow> bool" where
  "ray_refused a = (da_num_actors a < 1 \<or> da_chunks a < 1 \<or> flt (da_chunk_delay_ms a) (Fin 0) \<or> bimodal_refused a)"

definition ray_parse_args :: "(string \<times> string) list \<Rightarrow> dargs option" where
  "ray_parse_args argv = Option.bind (parse_known ray_options argv) (\<lambda>ns. checked ray_refused (args_of ns))"

definition host_options :: "opt list" where
  "host_options = [str_opt ''work-mode'' [''sleep''] ''sleep'', float_opt ''service-ms'' (VInt 0), int_opt ''chunks'' 1,
     float_opt ''chunk-delay-ms'' (VFloat (Fin 0)), str_opt ''service-pattern'' [''fixed'', ''bimodal''] ''fixed'',
     float_opt ''service-low'' (VFloat (Fin 1)), float_opt ''service-high'' (VFloat (Fin 20)),
     float_opt ''service-p-high'' (VFloat (b64_round (1 / 10))), int_opt ''seed'' 0, int_opt ''concurrency'' 8,
     int_opt ''requests'' 500, int_opt ''warmup-requests'' 0,
     str_opt ''retire-mode'' [''one_by_one'', ''submit_all_get_all''] ''one_by_one'', int_opt ''num-cpus'' 4,
     int_opt ''num-lanes'' 1, int_opt ''hpx-threads'' 1, str_opt ''lane-impl'' [''std'', ''hpx''] ''std'',
     none_opt ''max-queue-depth-per-lane'' OInt, none_opt ''workload'' OStr, none_opt ''out'' OStr]"

definition host_refused :: "dargs \<Rightarrow> bool" where
  "host_refused a = (da_num_lanes a < 1 \<or> da_hpx_threads a < 1 \<or> da_chunks a < 1 \<or> flt (da_chunk_delay_ms a) (Fin 0)
     \<or> (case da_cap a of None \<Rightarrow> False | Some n \<Rightarrow> n < 1) \<or> bimodal_refused a)"

definition host_parse_args :: "(string \<times> string) list \<Rightarrow> dargs option" where
  "host_parse_args argv = Option.bind (parse_known host_options argv) (\<lambda>ns. checked host_refused (args_of ns))"

definition multi_options :: "opt list" where
  "multi_options = [int_opt ''num-actors'' 2, int_opt ''hpx-threads'' 1, none_opt ''num-cpus-per-actor'' OInt,
     none_opt ''num-cpus'' OInt, int_opt ''num-lanes'' 1, str_opt ''work-mode'' [''spin'', ''sleep''] ''spin'',
     float_opt ''service-ms'' (VInt 5), str_opt ''service-pattern'' [''fixed''] ''fixed'', int_opt ''seed'' 0,
     int_opt ''requests'' 200, int_opt ''concurrency'' 8, int_opt ''warmup-requests'' 20,
     str_opt ''retire-mode'' [''one_by_one'', ''submit_all_get_all''] ''one_by_one'',
     str_opt ''lane-impl'' [''std'', ''hpx''] ''std'', float_opt ''actor-ready-timeout'' (VFloat (Fin 20)),
     none_opt ''workload'' OStr, none_opt ''out'' OStr]"

text \<open>The defaults the code fills in after parsing.\<close>

definition multi_defaults :: "namespace \<Rightarrow> dargs" where
  "multi_defaults ns =
     (let a = (args_of ns)\<lparr>da_chunks := 1, da_chunk_delay_ms := Fin 0\<rparr>;
          per_actor = (case ns_int_option ns ''num-cpus-per-actor'' of
             None \<Rightarrow> max (da_hpx_threads a) (da_num_lanes a) | Some n \<Rightarrow> n);
          cpus = (case ns_int_option ns ''num-cpus'' of None \<Rightarrow> da_num_actors a * per_actor | Some n \<Rightarrow> n)
      in a\<lparr>da_num_cpus_per_actor := per_actor, da_num_cpus := cpus\<rparr>)"

definition multi_refused :: "dargs \<Rightarrow> bool" where
  "multi_refused a = (da_num_actors a < 1 \<or> da_hpx_threads a < 1 \<or> da_num_cpus_per_actor a < 1 \<or> da_num_cpus a < 1
     \<or> da_num_lanes a < 1 \<or> fle (da_actor_ready_timeout a) (Fin 0))"

definition multi_parse_args :: "(string \<times> string) list \<Rightarrow> dargs option" where
  "multi_parse_args argv = Option.bind (parse_known multi_options argv) (\<lambda>ns. checked multi_refused (multi_defaults ns))"

subsection \<open>Workload names\<close>

definition fmt_ms :: "pyfloat \<Rightarrow> string" where
  "fmt_ms f = (case f of Fin q \<Rightarrow> if is_integer f then int_str \<lfloor>q\<rfloor> else float_str f | _ \<Rightarrow> float_str f)"

definition default_workload :: "pyfloat \<Rightarrow> string \<Rightarrow> string" where
  "default_workload service_ms suffix =
     (if service_ms = Fin 0 then ''noop_'' @ suffix else ''sleep_'' @ fmt_ms service_ms @ ''ms_'' @ suffix)"

text \<open>\<open>int(round(p * 100))\<close>.\<close>

definition percent :: "pyfloat \<Rightarrow> int py" where
  "percent p = (case fmul p (Fin 100) of Fin q \<Rightarrow> Inr (round_half_even q) | NaN \<Rightarrow> Inl ValueError | _ \<Rightarrow> Inl OverflowError)"

definition bimodal_name :: "dargs \<Rightarrow> string py" where
  "bimodal_name a = rbind (percent (sa_p_high a)) (\<lambda>p.
     Inr (''bimodal_lo'' @ fmt_ms (sa_low a) @ ''_hi'' @ fmt_ms (sa_high a) @ ''_p'' @ int_str p))"

definition truthy :: "string option \<Rightarrow> bool" where
  "truthy w = (w \<noteq> None \<and> w \<noteq> Some '''')"

definition window_suffix :: "dargs \<Rightarrow> string" where
  "window_suffix a = (if da_retire_mode a = ''submit_all_get_all'' then ''submit_all'' else ''c'' @ int_str (da_concurrency a))"

definition workload_with :: "string \<Rightarrow> dargs \<Rightarrow> string py" where
  "workload_with suffix a =
     (if truthy (da_workload a) then Inr (the (da_workload a))
      else if sa_pattern a = ''bimodal'' then rbind (bimodal_name a) (\<lambda>b. Inr (b @ ''_'' @ suffix))
      else Inr (default_workload (sa_service_ms a) suffix))"

definition rayx_workload :: "dargs \<Rightarrow> string py" where
  "rayx_workload a = workload_with (window_suffix a) a"

definition ray_workload :: "dargs \<Rightarrow> string py" where
  "ray_workload a = workload_with
     (if 1 < da_num_actors a then window_suffix a @ ''_a'' @ int_str (da_num_actors a) else window_suffix a) a"

definition host_workload :: "dargs \<Rightarrow> string py" where
  "host_workload a = workload_with (window_suffix a) a"

definition lanes_tag :: "dargs \<Rightarrow> string \<Rightarrow> string" where
  "lanes_tag a s = (if 1 < da_num_lanes a then s @ ''_l'' @ int_str (da_num_lanes a) else s)"

definition hpx_default_workload :: "dargs \<Rightarrow> string py" where
  "hpx_default_workload a =
     (let suffix = lanes_tag a (''c'' @ int_str (da_concurrency a));
          prefix = (if da_work_mode a = ''spin'' then ''spin'' else ''sleep'');
          timed = prefix @ ''_'' @ fmt_ms (sa_service_ms a) @ ''ms''
      in if sa_pattern a = ''bimodal'' then rbind (bimodal_name a) (\<lambda>base.
           Inr (if batch_api a then lanes_tag a (base @ ''_batch'') else base @ ''_'' @ suffix))
         else if batch_api a then Inr (lanes_tag a ((if sa_service_ms a = Fin 0 then ''noop'' else timed) @ ''_batch''))
         else if sa_service_ms a = Fin 0 then Inr (''noop_'' @ suffix)
         else Inr (timed @ ''_'' @ suffix))"

definition hpx_workload :: "dargs \<Rightarrow> string py" where
  "hpx_workload a = (if truthy (da_workload a) then Inr (the (da_workload a)) else hpx_default_workload a)"

definition multi_workload :: "dargs \<Rightarrow> string" where
  "multi_workload a =
     (if truthy (da_workload a) then the (da_workload a)
      else (if sa_service_ms a = Fin 0 then ''noop'' else da_work_mode a @ ''_'' @ fmt_ms (sa_service_ms a) @ ''ms'')
        @ ''_a'' @ int_str (da_num_actors a) @ ''_t'' @ int_str (da_hpx_threads a)
        @ ''_cpa'' @ int_str (da_num_cpus_per_actor a) @ ''_c'' @ int_str (da_num_cpus a))"

end
