(* ===== verification/BenchApi.thy ===== *)
theory BenchApi
  imports PyIo BenchArgs HarnessFacade "HOL-Library.AList" "HOL-Library.Multiset"
begin

text \<open>
  What the benchmark drivers share: the operations they call on the thing they measure (a \<open>rayx.Engine\<close>,
  or actors behind Ray), the rows they write, the loops that keep a window of requests in flight, and the
  contract under which those loops are correct.

  \<open>'s\<close> is the state of everything outside the driver, \<open>'q\<close> a request, \<open>'f\<close> a future or object reference
  and \<open>'r\<close> what it resolves to. A call that waits returns once the outside has moved far enough.
\<close>

subsection \<open>Interfaces\<close>

record ('s, 'q, 'f, 'r) api =
  ap_submit :: "'q \<Rightarrow> ('s, 'f) io"
  ap_wait :: "'f list \<Rightarrow> int \<Rightarrow> ('s, 'f list \<times> 'f list) io"
  ap_get :: "'f list \<Rightarrow> ('s, 'r list) io"
  ap_clock :: "('s, int) io"

text \<open>A submission to an engine: \<open>service_ms\<close>, \<open>work_mode\<close>, \<open>chunks\<close>, \<open>chunk_delay_ms\<close>. A batch has one
  scalar time and a count, or a list of times.\<close>

type_synonym engine_req = "pyfloat \<times> string \<times> int \<times> pyfloat"

datatype batch_service = Scalar pyfloat int | Varied "pyfloat list"

record ('s, 'f) engine_api = "('s, engine_req, 'f, hrow) api" +
  ap_result :: "'f \<Rightarrow> int option \<Rightarrow> ('s, hrow) io"
  ap_batch :: "batch_service \<Rightarrow> string \<Rightarrow> ('s, 'f list) io"
  ap_open :: "int \<Rightarrow> int \<Rightarrow> string \<Rightarrow> int option \<Rightarrow> ('s, unit) io"
  ap_shutdown :: "('s, unit) io"

subsection \<open>Rows\<close>

record drow =
  dr_schema_version :: string
  dr_run_id :: string
  dr_backend :: string
  dr_boundary :: string
  dr_workload :: string
  dr_request_id :: string
  dr_actor_id :: string
  dr_worker_id :: "string option"
  dr_status :: string
  dr_submit_ns :: int
  dr_start_ns :: int
  dr_end_ns :: int
  dr_total_ms :: pyfloat
  dr_queue_wait_ms :: pyfloat
  dr_service_ms_observed :: pyfloat
  dr_service_ms_requested :: pyfloat
  dr_chunks :: int
  dr_chunk_delay_ms :: pyfloat
  dr_work_mode :: string
  dr_retire_mode :: string
  dr_error :: pyval

text \<open>\<open>f"req-{idx:06d}"\<close>.\<close>

definition req_id :: "nat \<Rightarrow> string" where
  "req_id idx = ''req-'' @ pad6 idx"

definition svc :: "dargs \<Rightarrow> nat \<Rightarrow> pyfloat" where
  "svc args idx = service_for (int idx) args"

text \<open>\<open>records.sort(key=lambda r: r["request_id"])\<close>.\<close>

definition sort_rows :: "drow list \<Rightarrow> drow list" where
  "sort_rows rs = sort_key dr_request_id rs"

definition engine_request :: "dargs \<Rightarrow> nat \<Rightarrow> engine_req" where
  "engine_request args idx = (svc args idx, da_work_mode args, da_chunks args, da_chunk_delay_ms args)"

subsection \<open>Loops\<close>

text \<open>\<open>while c: body\<close>, at most \<open>fuel\<close> rounds; more rounds count as never returning.\<close>

fun io_while :: "nat \<Rightarrow> ('d \<Rightarrow> bool) \<Rightarrow> ('d \<Rightarrow> ('s, 'd) io) \<Rightarrow> 'd \<Rightarrow> ('s, 'd) io" where
  "io_while 0 c body d = (if c d then io_block else io_ret d)"
| "io_while (Suc n) c body d = (if c d then io_bind (body d) (io_while n c body) else io_ret d)"

text \<open>
  The indices still to submit stand for \<open>next_i\<close>. \<open>fl\<close> reads the requests in flight off the driver's
  state: a dict or a deque, in insertion order, as (future, what is remembered of it).

  \<open>while next_i < n and len(inflight) < window: submit(indices[next_i]); next_i += 1\<close>
\<close>

fun fill :: "('d \<Rightarrow> 'i list) \<Rightarrow> int \<Rightarrow> (nat \<Rightarrow> 'd \<Rightarrow> ('s, 'd) io) \<Rightarrow> nat list \<Rightarrow> 'd \<Rightarrow> ('s, nat list \<times> 'd) io" where
  "fill fl window sub [] d = io_ret ([], d)"
| "fill fl window sub (i # is) d =
     (if int (length (fl d)) < window then io_bind (sub i d) (fill fl window sub is) else io_ret (i # is, d))"

text \<open>\<open>for _ in range(k): if next_i < n: submit(indices[next_i]); next_i += 1\<close>\<close>

fun refill :: "nat \<Rightarrow> (nat \<Rightarrow> 'd \<Rightarrow> ('s, 'd) io) \<Rightarrow> nat list \<Rightarrow> 'd \<Rightarrow> ('s, nat list \<times> 'd) io" where
  "refill 0 sub rest d = io_ret (rest, d)"
| "refill (Suc k) sub rest d = (case rest of [] \<Rightarrow> refill k sub [] d
     | i # is \<Rightarrow> io_bind (sub i d) (refill k sub is))"

text \<open>\<open>inflight.pop(fut)\<close> of a dict.\<close>

definition dict_pop :: "'f \<Rightarrow> ('f \<times> 'e) list \<Rightarrow> ('e \<times> ('f \<times> 'e) list) option" where
  "dict_pop f d = (case map_of d f of None \<Rightarrow> None | Some e \<Rightarrow> Some (e, AList.delete f d))"

text \<open>
  Warmup and measurement between two clock readings: the shape of every \<open>run\<close>. The clock's values go
  into the printed summary only.
\<close>

definition measured :: "dargs \<Rightarrow> ('s, int) io \<Rightarrow> (int \<Rightarrow> bool \<Rightarrow> ('s, drow list) io) \<Rightarrow> ('s, drow list) io" where
  "measured args clock dispatch =
     io_bind (if 0 < da_warmup_requests args then io_bind (dispatch (da_warmup_requests args) False) (\<lambda>_. io_ret ())
              else io_ret ()) (\<lambda>_.
     io_bind clock (\<lambda>wall_start.
     io_bind (dispatch (da_requests args) True) (\<lambda>records.
     io_bind clock (\<lambda>wall_end. io_ret records))))"

subsection \<open>The contract\<close>

text \<open>The clock starts near zero; it reaches \<open>2^53\<close> nanoseconds after 104 days.\<close>

definition stamp :: "int \<Rightarrow> bool" where
  "stamp n = (0 \<le> n \<and> n < 2 ^ 53)"

text \<open>
  \<open>asked\<close> gives the request behind each future that is not retired yet. A submission below \<open>limit\<close>
  unretired futures returns a new future, a wait returns at least one of the futures it was given, and a
  future resolves to an answer to its own request.
\<close>

locale bench_api =
  fixes A :: "('s, 'q, 'f, 'r, 'z) api_scheme"
    and ok :: "'s \<Rightarrow> bool"
    and asked :: "'s \<Rightarrow> 'f \<rightharpoonup> 'q"
    and admits :: "'q \<Rightarrow> bool"
    and answers :: "'q \<Rightarrow> 'r \<Rightarrow> bool"
    and limit :: nat
  assumes asked_finite: "ok s \<Longrightarrow> finite (dom (asked s))"
    and submit_law: "ok s \<Longrightarrow> admits q \<Longrightarrow> card (dom (asked s)) < limit \<Longrightarrow>
      runs (ap_submit A q) s (\<lambda>s' f. ok s' \<and> asked s f = None \<and> asked s' = (asked s)(f \<mapsto> q))"
    and wait_law: "ok s \<Longrightarrow> fs \<noteq> [] \<Longrightarrow> distinct fs \<Longrightarrow> set fs \<subseteq> dom (asked s) \<Longrightarrow> 1 \<le> n \<Longrightarrow> n \<le> int (length fs) \<Longrightarrow> n < 2 ^ 31 \<Longrightarrow>
      runs (ap_wait A fs n) s (\<lambda>s' rp. ok s' \<and> asked s' = asked s \<and> fst rp \<noteq> [] \<and> distinct (fst rp)
        \<and> set (fst rp) \<subseteq> set fs)"
    and get_law: "ok s \<Longrightarrow> distinct fs \<Longrightarrow> set fs \<subseteq> dom (asked s) \<Longrightarrow>
      runs (ap_get A fs) s (\<lambda>s' rs. ok s' \<and> asked s' = asked s |` (- set fs)
        \<and> list_all2 (\<lambda>f r. answers (the (asked s f)) r) fs rs)"
    and clock_law: "ok s \<Longrightarrow> runs (ap_clock A) s (\<lambda>s' n. ok s' \<and> asked s' = asked s \<and> stamp n)"

text \<open>An engine's futures also resolve one at a time.\<close>

locale bench_engine = bench_api A ok asked admits answers limit
  for A :: "('s, 'f, 'z) engine_api_scheme"
    and ok :: "'s \<Rightarrow> bool"
    and asked :: "'s \<Rightarrow> 'f \<rightharpoonup> engine_req"
    and admits :: "engine_req \<Rightarrow> bool"
    and answers :: "engine_req \<Rightarrow> hrow \<Rightarrow> bool"
    and limit :: nat +
  assumes result_law: "ok s \<Longrightarrow> asked s f = Some q \<Longrightarrow> (\<And>n. recv = Some n \<Longrightarrow> stamp n) \<Longrightarrow>
      runs (ap_result A f recv) s (\<lambda>s' r. ok s' \<and> asked s' = (asked s)(f := None) \<and> answers q r)"

text \<open>An engine can be opened where \<open>opens\<close> says so; it starts with no future, and its shutdown returns.\<close>

locale bench_host = bench_engine A ok asked admits answers limit
  for A :: "('s, 'f, 'z) engine_api_scheme"
    and ok :: "'s \<Rightarrow> bool"
    and asked :: "'s \<Rightarrow> 'f \<rightharpoonup> engine_req"
    and admits :: "engine_req \<Rightarrow> bool"
    and answers :: "engine_req \<Rightarrow> hrow \<Rightarrow> bool"
    and limit :: nat +
  fixes opens :: "'s \<Rightarrow> int \<Rightarrow> int \<Rightarrow> string \<Rightarrow> int option \<Rightarrow> bool"
  assumes open_law: "opens s n h impl cap \<Longrightarrow> runs (ap_open A n h impl cap) s (\<lambda>s' _. ok s' \<and> asked s' = Map.empty)"
    and shutdown_law: "ok s \<Longrightarrow> runs (ap_shutdown A) s (\<lambda>_ _. True)"

end
