(* ===== verification/BenchWindow.thy ===== *)
theory BenchWindow
  imports BenchApi
begin

text \<open>
  The windowed loops, proved once against the contract: what is in flight, what was retired and what is
  still to submit always add up to the requested indices, and the window is full while work remains.
\<close>

lemma ns_to_ms_stamps: "stamp a \<Longrightarrow> stamp b \<Longrightarrow> \<exists>f. ns_to_ms (a - b) = Inr f"
  using float_of_int_small [of "a - b"] by (auto simp: stamp_def ns_to_ms_def)

subsection \<open>Requests in flight\<close>

text \<open>
  \<open>reqs i q\<close>: \<open>q\<close> is a request for index \<open>i\<close>; \<open>tagged i e\<close>: \<open>e\<close> is what the driver remembers of it.
\<close>

definition flights ::
    "('f \<rightharpoonup> 'q) \<Rightarrow> (nat \<Rightarrow> 'q \<Rightarrow> bool) \<Rightarrow> (nat \<Rightarrow> 'e \<Rightarrow> bool) \<Rightarrow> nat list \<Rightarrow> ('f \<times> 'e) list \<Rightarrow> bool" where
  "flights ask reqs tagged is infl = (distinct (map fst infl) \<and> dom ask = set (map fst infl)
     \<and> list_all2 (\<lambda>i fe. tagged i (snd fe) \<and> (\<exists>q. ask (fst fe) = Some q \<and> reqs i q)) is infl)"

lemma list_all2_mono_in:
  "list_all2 P xs ys \<Longrightarrow> (\<And>x y. y \<in> set ys \<Longrightarrow> P x y \<Longrightarrow> Q x y) \<Longrightarrow> list_all2 Q xs ys"
  by (auto simp: list_all2_conv_all_nth)

lemma flights_Nil: "flights ask reqs tagged [] [] = (ask = Map.empty)"
  by (auto simp: flights_def)

lemma flights_empty: "flights ask reqs tagged is [] \<Longrightarrow> is = [] \<and> ask = Map.empty"
  by (auto simp: flights_def)

lemma flights_length: "flights ask reqs tagged is infl \<Longrightarrow> length is = length infl"
  by (auto simp: flights_def dest: list_all2_lengthD)

lemma flights_card: "flights ask reqs tagged is infl \<Longrightarrow> card (dom ask) = length infl"
  using distinct_card [of "map fst infl"] by (simp add: flights_def)

lemma flights_add:
  assumes "flights ask reqs tagged is infl" and "ask f = None" and "tagged i e" and "reqs i q"
  shows "flights (ask(f \<mapsto> q)) reqs tagged (is @ [i]) (infl @ [(f, e)])"
proof -
  have new: "f \<notin> fst ` set infl" using assms(1,2) by (auto simp: flights_def)
  have "list_all2 (\<lambda>i fe. tagged i (snd fe) \<and> (\<exists>q'. (ask(f \<mapsto> q)) (fst fe) = Some q' \<and> reqs i q')) is infl"
    using assms(1) unfolding flights_def by (elim conjE list_all2_mono_in) (use new in auto)
  then have "list_all2 (\<lambda>i fe. tagged i (snd fe) \<and> (\<exists>q'. (ask(f \<mapsto> q)) (fst fe) = Some q' \<and> reqs i q'))
      (is @ [i]) (infl @ [(f, e)])"
    by (rule list_all2_appendI) (use assms in simp)
  moreover have "distinct (map fst (infl @ [(f, e)]))" using assms(1) new by (simp add: flights_def)
  moreover have "dom (ask(f \<mapsto> q)) = set (map fst (infl @ [(f, e)]))" using assms(1) by (simp add: flights_def)
  ultimately show ?thesis unfolding flights_def by blast
qed

text \<open>One leaves, from anywhere.\<close>

lemma flights_remove:
  assumes "flights ask reqs tagged is (xs @ (f, e) # ys)"
  obtains us i vs q where "is = us @ i # vs" "tagged i e" "ask f = Some q" "reqs i q" "length us = length xs"
    "flights (ask(f := None)) reqs tagged (us @ vs) (xs @ ys)"
proof -
  let ?R = "\<lambda>i fe. tagged i (snd fe) \<and> (\<exists>q. ask (fst fe) = Some q \<and> reqs i q)"
  have all: "list_all2 ?R is (xs @ (f, e) # ys)" using assms by (simp add: flights_def)
  obtain us ws where ws: "is = us @ ws" "list_all2 ?R us xs" "list_all2 ?R ws ((f, e) # ys)"
    using all by (auto simp: list_all2_append2)
  then obtain i vs where iv: "ws = i # vs" "?R i (f, e)" "list_all2 ?R vs ys" by (cases ws) auto
  have dist: "distinct (map fst (xs @ (f, e) # ys))" "dom ask = set (map fst (xs @ (f, e) # ys))"
    using assms by (simp_all add: flights_def)
  have keep: "list_all2 (\<lambda>i fe. tagged i (snd fe) \<and> (\<exists>q. (ask(f := None)) (fst fe) = Some q \<and> reqs i q)) as bs"
    if "list_all2 ?R as bs" "f \<notin> fst ` set bs" for as bs
    using that by (auto simp: list_all2_conv_all_nth)
  have "flights (ask(f := None)) reqs tagged (us @ vs) (xs @ ys)"
    using dist ws(2) iv(3) keep [of us xs] keep [of vs ys]
    by (auto simp: flights_def list_all2_appendI)
  moreover obtain q where "ask f = Some q" "reqs i q" using iv(2) by auto
  moreover have "length us = length xs" using ws(2) by (rule list_all2_lengthD)
  ultimately show ?thesis using that ws(1) iv by simp
qed

lemma delete_split:
  fixes xs ys :: "('f \<times> 'e) list"
  shows "distinct (map fst (xs @ (f, e) # ys)) \<Longrightarrow> AList.delete f (xs @ (f, e) # ys) = xs @ ys"
proof -
  have "filter (\<lambda>(k, _). f \<noteq> k) zs = zs" if "f \<notin> fst ` set zs" for zs :: "('f \<times> 'e) list"
    using that by (induction zs) auto
  then show "distinct (map fst (xs @ (f, e) # ys)) \<Longrightarrow> AList.delete f (xs @ (f, e) # ys) = xs @ ys"
    by (simp add: AList.delete_eq)
qed

lemma flights_pop:
  assumes "flights ask reqs tagged is infl" and "f \<in> fst ` set infl"
  obtains i e js q infl' where "dict_pop f infl = Some (e, infl')" "tagged i e" "ask f = Some q" "reqs i q"
    "mset is = add_mset i (mset js)" "flights (ask(f := None)) reqs tagged js infl'"
    "length infl = Suc (length infl')" "fst ` set infl' = fst ` set infl - {f}"
proof -
  obtain e where "(f, e) \<in> set infl" using assms(2) by auto
  then obtain xs ys where split: "infl = xs @ (f, e) # ys" by (meson split_list)
  have dist: "distinct (map fst infl)" using assms(1) by (simp add: flights_def)
  obtain us i vs q where r: "is = us @ i # vs" "tagged i e" "ask f = Some q" "reqs i q"
      "flights (ask(f := None)) reqs tagged (us @ vs) (xs @ ys)"
    using assms(1) unfolding split by (rule flights_remove)
  have "map_of infl f = Some e" using dist split by (intro map_of_is_SomeI) simp_all
  moreover have "AList.delete f infl = xs @ ys" using delete_split dist split by simp
  ultimately have pop: "dict_pop f infl = Some (e, xs @ ys)" by (simp add: dict_pop_def)
  have left: "fst ` set (xs @ ys) = fst ` set infl - {f}" using dist unfolding split by auto
  have ms: "mset is = add_mset i (mset (us @ vs))" using r(1) by simp
  have len: "length infl = Suc (length (xs @ ys))" unfolding split by simp
  show ?thesis by (rule that [OF pop r(2-4) ms r(5) len left])
qed

subsection \<open>Submitting\<close>

definition futs_in :: "('f \<times> 'e) list \<Rightarrow> 'f set" where "futs_in infl = fst ` set infl"

text \<open>A driver's submit step, on futures below the limit: it adds one request for its index at the end.\<close>

definition submits ::
    "('s \<Rightarrow> bool) \<Rightarrow> ('s \<Rightarrow> 'f \<rightharpoonup> 'q) \<Rightarrow> nat \<Rightarrow> nat set \<Rightarrow> (nat \<Rightarrow> 'q \<Rightarrow> bool) \<Rightarrow> (nat \<Rightarrow> 'e \<Rightarrow> bool)
      \<Rightarrow> ('d \<Rightarrow> ('f \<times> 'e) list) \<Rightarrow> (nat \<Rightarrow> 'd \<Rightarrow> ('s, 'd) io) \<Rightarrow> bool" where
  "submits ok asked limit I reqs tagged fl sub \<longleftrightarrow> (\<forall>s i d. ok s \<longrightarrow> i \<in> I \<longrightarrow>
     set (map fst (fl d)) \<subseteq> dom (asked s) \<longrightarrow> card (dom (asked s)) < limit \<longrightarrow>
     runs (sub i d) s (\<lambda>s' d'. ok s' \<and> (\<exists>f e q. asked s f = None \<and> asked s' = (asked s)(f \<mapsto> q)
       \<and> fl d' = fl d @ [(f, e)] \<and> tagged i e \<and> reqs i q)))"

text \<open>The same, where the step relies on a relation \<open>J\<close> of what is left to submit to the driver's state, and keeps it.\<close>

definition submits_at ::
    "('s \<Rightarrow> bool) \<Rightarrow> ('s \<Rightarrow> 'f \<rightharpoonup> 'q) \<Rightarrow> nat \<Rightarrow> (nat list \<Rightarrow> 'd \<Rightarrow> bool) \<Rightarrow> (nat \<Rightarrow> 'q \<Rightarrow> bool) \<Rightarrow> (nat \<Rightarrow> 'e \<Rightarrow> bool)
      \<Rightarrow> ('d \<Rightarrow> ('f \<times> 'e) list) \<Rightarrow> (nat \<Rightarrow> 'd \<Rightarrow> ('s, 'd) io) \<Rightarrow> bool" where
  "submits_at ok asked limit J reqs tagged fl sub \<longleftrightarrow> (\<forall>s i rest d. ok s \<longrightarrow> J (i # rest) d \<longrightarrow>
     set (map fst (fl d)) \<subseteq> dom (asked s) \<longrightarrow> card (dom (asked s)) < limit \<longrightarrow>
     runs (sub i d) s (\<lambda>s' d'. ok s' \<and> J rest d' \<and> (\<exists>f e q. asked s f = None \<and> asked s' = (asked s)(f \<mapsto> q)
       \<and> fl d' = fl d @ [(f, e)] \<and> tagged i e \<and> reqs i q)))"

lemma submits_within:
  "submits ok asked limit I reqs tagged fl sub \<Longrightarrow> submits_at ok asked limit (\<lambda>rest d. set rest \<subseteq> I) reqs tagged fl sub"
  unfolding submits_def submits_at_def by (fastforce elim!: runs_mono)

lemma submits_flights:
  assumes "submits_at ok asked limit J reqs tagged fl sub" and "ok s" and "J (i # rest) d"
    and "flights (asked s) reqs tagged is (fl d)" and "length (fl d) < limit"
  shows "runs (sub i d) s (\<lambda>s' d'. ok s' \<and> J rest d' \<and> flights (asked s') reqs tagged (is @ [i]) (fl d')
     \<and> length (fl d') = Suc (length (fl d)) \<and> futs_in (fl d) \<subseteq> futs_in (fl d'))"
proof -
  have pre: "set (map fst (fl d)) \<subseteq> dom (asked s)" "card (dom (asked s)) < limit"
    using assms(4,5) flights_card [OF assms(4)] by (simp_all add: flights_def)
  have "runs (sub i d) s (\<lambda>s' d'. ok s' \<and> J rest d' \<and> (\<exists>f e q. asked s f = None \<and> asked s' = (asked s)(f \<mapsto> q)
       \<and> fl d' = fl d @ [(f, e)] \<and> tagged i e \<and> reqs i q))"
    using assms(1-3) pre unfolding submits_at_def by blast
  then show ?thesis
    by (rule runs_mono) (use flights_add [OF assms(4)] in \<open>auto simp: futs_in_def\<close>)
qed

lemma fill_at_runs:
  assumes "submits_at ok asked limit J reqs tagged fl sub" and "window \<le> int limit"
    and "ok s" and "J rest d" and "flights (asked s) reqs tagged is (fl d)"
    and "int (length (fl d)) \<le> max 0 window"
  shows "runs (fill fl window sub rest d) s (\<lambda>s' (rest', d'). ok s' \<and> J rest' d' \<and>
     (\<exists>js. rest = js @ rest' \<and> flights (asked s') reqs tagged (is @ js) (fl d')) \<and>
     int (length (fl d')) \<le> max 0 window \<and> (rest' \<noteq> [] \<longrightarrow> window \<le> int (length (fl d'))))"
  using assms(3-)
proof (induction rest arbitrary: s d "is")
  case Nil
  then show ?case by (auto simp: runs_ret)
next
  case (Cons i rest)
  show ?case
  proof (cases "int (length (fl d)) < window")
    case False
    then show ?thesis using Cons.prems by (auto simp: runs_ret)
  next
    case True
    then have "length (fl d) < limit" using assms(2) by linarith
    then have one: "runs (sub i d) s (\<lambda>s' d'. ok s' \<and> J rest d' \<and> flights (asked s') reqs tagged (is @ [i]) (fl d')
         \<and> length (fl d') = Suc (length (fl d)) \<and> futs_in (fl d) \<subseteq> futs_in (fl d'))"
      using Cons.prems by (intro submits_flights [OF assms(1)])
    show ?thesis
      unfolding fill.simps using True
      apply (simp only: if_True runs_bind)
      apply (rule runs_mono [OF one])
      apply (rule runs_mono [OF Cons.IH])
      using Cons.prems True apply (auto split: prod.splits)
      done
  qed
qed

lemma fill_runs:
  assumes "submits ok asked limit I reqs tagged fl sub" and "window \<le> int limit"
    and "ok s" and "set rest \<subseteq> I" and "flights (asked s) reqs tagged is (fl d)"
    and "int (length (fl d)) \<le> max 0 window"
  shows "runs (fill fl window sub rest d) s (\<lambda>s' (rest', d'). ok s' \<and>
     (\<exists>js. rest = js @ rest' \<and> flights (asked s') reqs tagged (is @ js) (fl d')) \<and>
     int (length (fl d')) \<le> max 0 window \<and> (rest' \<noteq> [] \<longrightarrow> window \<le> int (length (fl d'))))"
  by (rule runs_mono [OF fill_at_runs [OF submits_within [OF assms(1)] assms(2-6)]]) (auto split: prod.splits)

lemma refill_at_runs:
  assumes "submits_at ok asked limit J reqs tagged fl sub"
    and "ok s" and "J rest d" and "flights (asked s) reqs tagged is (fl d)"
    and "length (fl d) + k \<le> limit"
  shows "runs (refill k sub rest d) s (\<lambda>s' (rest', d'). ok s' \<and> J rest' d' \<and>
     (\<exists>js. rest = js @ rest' \<and> flights (asked s') reqs tagged (is @ js) (fl d')
        \<and> length (fl d') = length (fl d) + length js) \<and>
     length (fl d') \<le> length (fl d) + k \<and> (rest' \<noteq> [] \<longrightarrow> length (fl d') = length (fl d) + k) \<and>
     futs_in (fl d) \<subseteq> futs_in (fl d'))"
  using assms(2-)
proof (induction k arbitrary: s d "is" rest)
  case 0
  then show ?case by (auto simp: runs_ret)
next
  case (Suc k)
  show ?case
  proof (cases rest)
    case Nil
    have "runs (refill k sub [] d) s (\<lambda>s' (rest', d'). ok s' \<and> J rest' d' \<and>
     (\<exists>js. [] = js @ rest' \<and> flights (asked s') reqs tagged (is @ js) (fl d')
        \<and> length (fl d') = length (fl d) + length js) \<and>
     length (fl d') \<le> length (fl d) + k \<and> (rest' \<noteq> [] \<longrightarrow> length (fl d') = length (fl d) + k) \<and>
     futs_in (fl d) \<subseteq> futs_in (fl d'))"
      using Suc.prems Nil by (intro Suc.IH) auto
    then show ?thesis unfolding Nil by (simp, elim runs_mono) (auto split: prod.splits)
  next
    case (Cons i is')
    have one: "runs (sub i d) s (\<lambda>s' d'. ok s' \<and> J is' d' \<and> flights (asked s') reqs tagged (is @ [i]) (fl d')
         \<and> length (fl d') = Suc (length (fl d)) \<and> futs_in (fl d) \<subseteq> futs_in (fl d'))"
      using Suc.prems Cons by (intro submits_flights [OF assms(1)]) auto
    show ?thesis
      unfolding Cons refill.simps list.case runs_bind
      apply (rule runs_mono [OF one])
      apply (rule runs_mono [OF Suc.IH])
      using Suc.prems Cons apply (auto split: prod.splits)
      done
  qed
qed

lemma refill_runs:
  assumes "submits ok asked limit I reqs tagged fl sub"
    and "ok s" and "set rest \<subseteq> I" and "flights (asked s) reqs tagged is (fl d)"
    and "length (fl d) + k \<le> limit"
  shows "runs (refill k sub rest d) s (\<lambda>s' (rest', d'). ok s' \<and>
     (\<exists>js. rest = js @ rest' \<and> flights (asked s') reqs tagged (is @ js) (fl d')
        \<and> length (fl d') = length (fl d) + length js) \<and>
     length (fl d') \<le> length (fl d) + k \<and> (rest' \<noteq> [] \<longrightarrow> length (fl d') = length (fl d) + k) \<and>
     futs_in (fl d) \<subseteq> futs_in (fl d'))"
  by (rule runs_mono [OF refill_at_runs [OF submits_within [OF assms(1)] assms(2-5)]]) (auto split: prod.splits)

subsection \<open>The loop rule\<close>

lemma while_runs:
  assumes "\<And>s d. I s d \<Longrightarrow> c d \<Longrightarrow> runs (body d) s (\<lambda>s' d'. I s' d' \<and> m d' < (m d :: nat))"
    and "I s d" and "m d \<le> fuel"
  shows "runs (io_while fuel c body d) s (\<lambda>s' d'. I s' d' \<and> \<not> c d')"
  using assms(2,3)
proof (induction fuel arbitrary: s d)
  case 0
  have "\<not> c d"
  proof
    assume "c d"
    then have "runs (body d) s (\<lambda>s' d'. I s' d' \<and> m d' < m d)" using assms(1) 0 by blast
    then show False using 0 by (auto simp: runs_iff)
  qed
  then show ?case using 0 by (simp add: runs_ret)
next
  case (Suc fuel)
  show ?case
  proof (cases "c d")
    case True
    have "runs (body d) s (\<lambda>s' d'. runs (io_while fuel c body d') s' (\<lambda>s' d'. I s' d' \<and> \<not> c d'))"
      by (rule runs_mono [OF assms(1) [OF Suc.prems(1) True]]) (use Suc in auto)
    then show ?thesis using True by (simp add: runs_bind)
  next
    case False
    then show ?thesis using Suc.prems by (simp add: runs_ret)
  qed
qed

subsection \<open>The invariant of a window\<close>

text \<open>What a loop has retired: one row per index, or nothing during warmup.\<close>

definition retired :: "(nat \<Rightarrow> drow \<Rightarrow> bool) \<Rightarrow> bool \<Rightarrow> nat list \<Rightarrow> drow list \<Rightarrow> bool" where
  "retired recd keep ds records = (if keep then list_all2 recd ds records else records = [])"

definition engine_row ::
    "(engine_req \<Rightarrow> hrow \<Rightarrow> bool) \<Rightarrow> dargs \<Rightarrow> (string \<Rightarrow> hrow \<Rightarrow> pyfloat \<Rightarrow> drow) \<Rightarrow> nat \<Rightarrow> drow \<Rightarrow> bool" where
  "engine_row answers args mk i rec =
     (\<exists>r. answers (engine_request args i) r \<and> rec = mk (req_id i) r (svc args i))"

text \<open>
  The invariant of a windowed loop: retired, in flight and still to submit make up the indices; the
  window is never exceeded, and is full while something is left to submit.
\<close>

definition window_inv ::
    "('f \<rightharpoonup> 'q) \<Rightarrow> (nat \<Rightarrow> 'q \<Rightarrow> bool) \<Rightarrow> (nat \<Rightarrow> 'e \<Rightarrow> bool) \<Rightarrow> (nat \<Rightarrow> drow \<Rightarrow> bool) \<Rightarrow> bool \<Rightarrow> int \<Rightarrow> nat list
      \<Rightarrow> nat list \<Rightarrow> ('f \<times> 'e) list \<Rightarrow> drow list \<Rightarrow> bool" where
  "window_inv ask reqs tagged recd keep window indices rest infl records =
     ((\<exists>is ds. flights ask reqs tagged is infl \<and> retired recd keep ds records
        \<and> mset ds + mset is + mset rest = mset indices)
      \<and> int (length infl) \<le> max 0 window \<and> (rest \<noteq> [] \<longrightarrow> window \<le> int (length infl)))"

lemma retired_snoc:
  "retired recd keep ds records \<Longrightarrow> recd i rec \<Longrightarrow>
     retired recd keep (ds @ [i]) (if keep then records @ [rec] else records)"
  by (auto simp: retired_def list_all2_appendI)

lemma window_start:
  assumes "submits_at ok asked limit J reqs tagged fl sub" and "window \<le> int limit"
    and "ok s" and "J indices d" and "asked s = Map.empty" and "fl d = []"
  shows "runs (fill fl window sub indices d) s (\<lambda>s' (rest, d'). ok s' \<and> J rest d' \<and>
     window_inv (asked s') reqs tagged recd keep window indices rest (fl d') []
     \<and> length rest + length (fl d') = length indices)"
proof -
  have "flights (asked s) reqs tagged [] (fl d)" using assms(5,6) by (simp add: flights_Nil)
  then have "runs (fill fl window sub indices d) s (\<lambda>s' (rest', d'). ok s' \<and> J rest' d' \<and>
     (\<exists>js. indices = js @ rest' \<and> flights (asked s') reqs tagged ([] @ js) (fl d')) \<and>
     int (length (fl d')) \<le> max 0 window \<and> (rest' \<noteq> [] \<longrightarrow> window \<le> int (length (fl d'))))"
    using assms by (intro fill_at_runs) auto
  then show ?thesis
  proof (rule runs_mono, clarsimp)
    fix s' rest js d'
    assume *: "ok s'" "flights (asked s') reqs tagged js (fl d')" "int (length (fl d')) \<le> max 0 window"
      "rest \<noteq> [] \<longrightarrow> window \<le> int (length (fl d'))" "indices = js @ rest"
    then show "window_inv (asked s') reqs tagged recd keep window (js @ rest) rest (fl d') []
      \<and> length (fl d') = length js"
      using flights_length [OF *(2)] by (auto simp: window_inv_def retired_def)
  qed
qed

text \<open>An emptied window of positive size has retired everything.\<close>

lemma window_end:
  assumes "window_inv ask reqs tagged recd keep window indices rest [] records" and "0 < window"
  obtains ds where "retired recd keep ds records" "mset ds = mset indices" "rest = []" "ask = Map.empty"
  using assms by (auto simp: window_inv_def dest!: flights_empty)

lemma window_keys:
  "window_inv ask reqs tagged recd keep window indices rest infl records \<Longrightarrow>
     distinct (map fst infl) \<and> dom ask = set (map fst infl)"
  by (auto simp: window_inv_def flights_def)

lemma window_pop:
  assumes "window_inv ask reqs tagged recd keep window indices rest infl records" and "f \<in> futs_in infl"
  obtains i e "is" q infl' ds where "dict_pop f infl = Some (e, infl')" "tagged i e" "ask f = Some q" "reqs i q"
    "flights (ask(f := None)) reqs tagged is infl'" "length infl = Suc (length infl')"
    "futs_in infl' = futs_in infl - {f}" "retired recd keep ds records"
    "mset ds + add_mset i (mset is) + mset rest = mset indices"
proof -
  obtain js ds where js: "flights ask reqs tagged js infl" "retired recd keep ds records"
      "mset ds + mset js + mset rest = mset indices"
    using assms(1) by (auto simp: window_inv_def)
  obtain i e "is" q infl' where p: "dict_pop f infl = Some (e, infl')" "tagged i e" "ask f = Some q" "reqs i q"
    "mset js = add_mset i (mset is)" "flights (ask(f := None)) reqs tagged is infl'"
    "length infl = Suc (length infl')" "fst ` set infl' = fst ` set infl - {f}"
    using js(1) assms(2) unfolding futs_in_def by (rule flights_pop)
  have "mset ds + add_mset i (mset is) + mset rest = mset indices" using js(3) p(5) by simp
  moreover have "futs_in infl' = futs_in infl - {f}" using p(8) by (simp add: futs_in_def)
  ultimately show ?thesis using that [OF p(1-4) p(6,7) _ js(2)] by blast
qed

text \<open>One request retired and one submitted in its place.\<close>

lemma window_turn:
  assumes "window_inv ask reqs tagged recd keep window indices rest infl records"
    and "retired recd keep (ds @ [i]) records'"
    and "flights ask' reqs tagged (is @ js) infl''" and "rest = js @ rest'"
    and "mset ds + add_mset i (mset is) + mset rest = mset indices"
    and "length infl = Suc (length infl')" "length infl'' \<le> length infl' + 1"
    and "rest' \<noteq> [] \<longrightarrow> length infl'' = length infl' + 1"
  shows "window_inv ask' reqs tagged recd keep window indices rest' infl'' records'"
proof -
  have "mset (ds @ [i]) + mset (is @ js) + mset rest' = mset indices" using assms(4,5) by (simp add: ac_simps)
  then show ?thesis using assms unfolding window_inv_def by fastforce
qed

text \<open>A windowed driver: fill, turn while something is in flight, return the records.\<close>

lemma windowed_at_runs:
  assumes sub: "submits_at ok asked limit J reqs tagged fl sb"
    and "0 < window" and "window \<le> int limit" and "ok s" and "asked s = Map.empty" and "J indices d0" and "fl d0 = []"
    and turn: "\<And>s rest d records. ok s \<Longrightarrow> fl d \<noteq> [] \<Longrightarrow> J rest d \<Longrightarrow>
      window_inv (asked s) reqs tagged recd keep window indices rest (fl d) records \<Longrightarrow>
      runs (body (rest, d, records)) s (\<lambda>s' (rest', d', records'). ok s' \<and> J rest' d'
        \<and> window_inv (asked s') reqs tagged recd keep window indices rest' (fl d') records'
        \<and> length rest' + length (fl d') < length rest + length (fl d))"
  shows "runs (io_bind (fill fl window sb indices d0) (\<lambda>(rest, d).
     io_bind (io_while (length indices) (\<lambda>(rest, d, records). fl d \<noteq> []) body (rest, d, []))
       (\<lambda>(rest, d, records). io_ret records))) s
     (\<lambda>s' records. ok s' \<and> asked s' = Map.empty \<and> (\<exists>ds. mset ds = mset indices \<and> retired recd keep ds records))"
proof -
  let ?inv = "\<lambda>s (rest, d, records). ok s \<and> J rest d
     \<and> window_inv (asked s) reqs tagged recd keep window indices rest (fl d) records"
  let ?m = "\<lambda>(rest, d, records). length rest + length (fl d)"
  have body: "runs (body st) s (\<lambda>s' st'. ?inv s' st' \<and> ?m st' < ?m st)"
    if "?inv s st" "(\<lambda>(rest, d, records). fl d \<noteq> []) st" for s st
  proof -
    obtain rest d records where st: "st = (rest, d, records)" by (cases st) auto
    show ?thesis unfolding st by (rule runs_mono [OF turn]) (use that st in auto)
  qed
  have loop: "runs (io_while (length indices) (\<lambda>(rest, d, records). fl d \<noteq> []) body (rest, d, [])) s'
      (\<lambda>s' st. ?inv s' st \<and> \<not> (\<lambda>(rest, d, records). fl d \<noteq> []) st)"
    if "ok s'" "J rest d" "window_inv (asked s') reqs tagged recd keep window indices rest (fl d) []"
      "length rest + length (fl d) = length indices" for s' rest d
    by (rule while_runs [where I = ?inv and m = ?m]) (use that body in auto)
  have "runs (fill fl window sb indices d0) s (\<lambda>s' (rest, d'). ok s' \<and> J rest d' \<and>
     window_inv (asked s') reqs tagged recd keep window indices rest (fl d') []
     \<and> length rest + length (fl d') = length indices)"
    by (rule window_start [OF sub assms(3,4,6,5,7)])
  then show ?thesis
    unfolding runs_bind
  proof (rule runs_mono, clarsimp simp: runs_bind)
    fix s' rest d
    assume *: "ok s'" "J rest d" "window_inv (asked s') reqs tagged recd keep window indices rest (fl d) []"
      "length rest + length (fl d) = length indices"
    show "runs (io_while (length indices) (\<lambda>(rest, d, records). fl d \<noteq> []) body (rest, d, [])) s'
        (\<lambda>s' st. runs (case st of (rest, d, records) \<Rightarrow> io_ret records) s' (\<lambda>s' records. ok s' \<and> asked s' = Map.empty
          \<and> (\<exists>ds. mset ds = mset indices \<and> retired recd keep ds records)))"
    proof (rule runs_mono [OF loop [OF *]])
      fix s2 st assume st: "?inv s2 st \<and> \<not> (\<lambda>(rest, d, records). fl d \<noteq> []) st"
      obtain rest2 d2 records where d: "st = (rest2, d2, records)" by (cases st) auto
      have e: "fl d2 = []" "ok s2" "window_inv (asked s2) reqs tagged recd keep window indices rest2 (fl d2) records"
        using st unfolding d by auto
      obtain ds where "retired recd keep ds records" "mset ds = mset indices" "asked s2 = Map.empty"
        by (rule window_end [OF e(3) [unfolded e(1)] assms(2)])
      then show "runs (case st of (rest, d, records) \<Rightarrow> io_ret records) s2 (\<lambda>s' records. ok s' \<and> asked s' = Map.empty
          \<and> (\<exists>ds. mset ds = mset indices \<and> retired recd keep ds records))"
        using e(2) by (auto simp: d runs_ret)
    qed
  qed
qed

lemma windowed_runs:
  assumes sub: "submits ok asked limit (set indices) reqs tagged (\<lambda>d. d) sb"
    and "0 < window" and "window \<le> int limit" and "ok s" and "asked s = Map.empty"
    and turn: "\<And>s rest infl records. ok s \<Longrightarrow> infl \<noteq> [] \<Longrightarrow> set rest \<subseteq> set indices \<Longrightarrow>
      window_inv (asked s) reqs tagged recd keep window indices rest infl records \<Longrightarrow>
      runs (body (rest, infl, records)) s (\<lambda>s' (rest', infl', records'). ok s'
        \<and> window_inv (asked s') reqs tagged recd keep window indices rest' infl' records'
        \<and> set rest' \<subseteq> set indices \<and> length rest' + length infl' < length rest + length infl)"
  shows "runs (io_bind (fill (\<lambda>d. d) window sb indices []) (\<lambda>(rest, infl).
     io_bind (io_while (length indices) (\<lambda>(rest, infl, records). infl \<noteq> []) body (rest, infl, []))
       (\<lambda>(rest, infl, records). io_ret records))) s
     (\<lambda>s' records. ok s' \<and> asked s' = Map.empty \<and> (\<exists>ds. mset ds = mset indices \<and> retired recd keep ds records))"
  by (rule windowed_at_runs [OF submits_within [OF sub] assms(2-5)]) (auto intro: runs_mono [OF turn])

text \<open>Records of every index up to a number, in some order.\<close>

definition covers :: "(nat \<Rightarrow> drow \<Rightarrow> bool) \<Rightarrow> bool \<Rightarrow> nat \<Rightarrow> drow list \<Rightarrow> bool" where
  "covers recd keep n records \<longleftrightarrow> (\<exists>ds. mset ds = mset [0..<n] \<and> retired recd keep ds records)"

lemma covers_in_order: "retired recd keep [0..<n] records \<Longrightarrow> covers recd keep n records"
  unfolding covers_def by blast

subsection \<open>Sorted rows\<close>

lemma req_id_less: "m < n \<Longrightarrow> n < 10 ^ 6 \<Longrightarrow> req_id m < req_id n"
  by (simp add: req_id_def pad6_less)

lemma sorted_req_ids: "n \<le> 10 ^ 6 \<Longrightarrow> sorted (map req_id [0..<n]) \<and> distinct (map req_id [0..<n])"
proof (induction n)
  case (Suc n)
  then have IH: "sorted (map req_id [0..<n])" "distinct (map req_id [0..<n])" by auto
  have less: "x \<in> set (map req_id [0..<n]) \<Longrightarrow> x < req_id n" for x using Suc.prems req_id_less by auto
  then show ?case using IH by (auto simp: sorted_append less_imp_le)
qed simp

text \<open>Up to a million requests the sorted file lists the requests in index order.\<close>

lemma sort_rows_in_order:
  assumes "retired recd True ds records" and "mset ds = mset [0..<n]" and "n \<le> 10 ^ 6"
    and id: "\<And>i r. recd i r \<Longrightarrow> dr_request_id r = req_id i"
  shows "list_all2 recd [0..<n] (sort_rows records)"
proof -
  have "list_all2 recd ds records" using assms(1) by (simp add: retired_def)
  moreover have "mset [0..<n] = mset ds" using assms(2) by simp
  ultimately obtain rs where rs: "list_all2 recd [0..<n] rs" "mset rs = mset records"
    using list_all2_reorder_left_invariance by metis
  have ids: "map dr_request_id rs = map req_id [0..<n]"
    using rs(1) id by (intro nth_equalityI) (auto simp: list_all2_conv_all_nth)
  have "distinct (map dr_request_id rs)" "sorted (map dr_request_id rs)"
    using sorted_req_ids [OF assms(3)] unfolding ids by simp_all
  moreover have "set records = set rs" using rs(2) by (metis set_mset_mset)
  ultimately have "sort_key dr_request_id records = rs"
    using rs(2) by (intro sort_key_inj_key_eq) (auto simp: distinct_map)
  then show ?thesis using rs(1) by (simp add: sort_rows_def)
qed

subsection \<open>Submitting a whole list\<close>

context bench_api
begin

lemma submit_list_runs:
  assumes "ok s" and "\<And>i. i \<in> set is \<Longrightarrow> admits (q i)" and "card (dom (asked s)) + length is \<le> limit"
  shows "runs (io_list (\<lambda>i. ap_submit A (q i)) is) s (\<lambda>s' fs. ok s' \<and> distinct fs \<and> length fs = length is
     \<and> (\<forall>f \<in> set fs. asked s f = None) \<and> asked s' = asked s ++ map_of (zip fs (map q is)))"
  using assms
proof (induction "is" arbitrary: s)
  case Nil
  then show ?case by (simp add: runs_ret)
next
  case (Cons i "is")
  have one: "runs (ap_submit A (q i)) s (\<lambda>s' f. ok s' \<and> asked s f = None \<and> asked s' = (asked s)(f \<mapsto> q i))"
    using Cons.prems by (intro submit_law) auto
  show ?case
    unfolding io_list.simps runs_bind
  proof (rule runs_mono [OF one], elim conjE)
    fix s' f
    assume f: "ok s'" "asked s f = None" "asked s' = (asked s)(f \<mapsto> q i)"
    have "card (dom (asked s')) + length is \<le> limit"
      using f(2,3) asked_finite [OF Cons.prems(1)] Cons.prems(3) by (simp add: domIff)
    then have "runs (io_list (\<lambda>i. ap_submit A (q i)) is) s' (\<lambda>s'' fs. ok s'' \<and> distinct fs \<and> length fs = length is
     \<and> (\<forall>f \<in> set fs. asked s' f = None) \<and> asked s'' = asked s' ++ map_of (zip fs (map q is)))"
      using Cons.prems f(1) by (intro Cons.IH) auto
    then show "runs (io_list (\<lambda>i. ap_submit A (q i)) is) s' (\<lambda>s' x. runs (io_ret (f # x)) s' (\<lambda>s' fs. ok s'
      \<and> distinct fs \<and> length fs = length (i # is) \<and> (\<forall>f \<in> set fs. asked s f = None)
      \<and> asked s' = asked s ++ map_of (zip fs (map q (i # is)))))"
    proof (rule runs_mono, elim conjE)
      fix s'' fs
      assume fs: "ok s''" "distinct fs" "length fs = length is" "\<forall>f \<in> set fs. asked s' f = None"
        "asked s'' = asked s' ++ map_of (zip fs (map q is))"
      have new: "f \<notin> set fs" "\<forall>g \<in> set fs. asked s g = None"
        using fs(4) f(3) by (auto split: if_splits)
      then have "asked s'' = asked s ++ map_of (zip (f # fs) (map q (i # is)))"
        using fs(3,5) f(3) by (auto simp: map_add_def fun_eq_iff split: option.splits dest!: map_of_SomeD set_zip_leftD)
      then show "runs (io_ret (f # fs)) s'' (\<lambda>s' fs. ok s'
        \<and> distinct fs \<and> length fs = length (i # is) \<and> (\<forall>f \<in> set fs. asked s f = None)
        \<and> asked s' = asked s ++ map_of (zip fs (map q (i # is))))"
        using fs(1-3) new f(2) by (simp add: runs_ret)
    qed
  qed
qed

text \<open>Warmup and measurement around any dispatch that keeps the contract.\<close>

lemma measured_runs:
  assumes disp: "\<And>s n keep. ok s \<Longrightarrow> asked s = Map.empty \<Longrightarrow>
      n = da_warmup_requests args \<and> 0 < n \<and> \<not> keep \<or> n = da_requests args \<and> keep \<Longrightarrow>
      runs (dispatch n keep) s (\<lambda>s' records. ok s' \<and> asked s' = Map.empty \<and> P n keep records)"
    and "ok s" and "asked s = Map.empty"
  shows "runs (measured args (ap_clock A) dispatch) s (\<lambda>s' records. ok s' \<and> asked s' = Map.empty
     \<and> P (da_requests args) True records)"
proof -
  let ?W = "\<lambda>s' _. ok s' \<and> asked s' = Map.empty"
  have warm: "runs (if 0 < da_warmup_requests args
      then io_bind (dispatch (da_warmup_requests args) False) (\<lambda>_. io_ret ()) else io_ret ()) s ?W"
    using assms(2,3) runs_mono [OF disp [OF assms(2,3), of "da_warmup_requests args" False]]
    by (auto simp: runs_bind runs_ret)
  have clock: "runs (ap_clock A) s' ?W" if "?W s' x" for s' x
    using that by (intro runs_mono [OF clock_law]) auto
  show ?thesis
    unfolding measured_def runs_bind
    apply (rule runs_mono [OF warm])
    apply (rule runs_mono [OF clock], assumption)
    apply (rule runs_mono [OF disp])
       apply (simp_all add: runs_ret)
    apply (rule runs_mono [OF clock_law])
     apply auto
    done
qed

end

end
