(* ===== verification/BenchRayx.thy ===== *)
theory BenchRayx
  imports BenchWindow
begin

text \<open>
  The driver of the standalone engine, \<open>bench/run_rayx_baseline.py\<close>: an as-completed window, or every
  request at once, over one \<open>rayx.Engine\<close>. \<open>run\<close> returns the rows it writes.
\<close>

definition rayx_make_record :: "dargs \<Rightarrow> string \<Rightarrow> string \<Rightarrow> string \<Rightarrow> hrow \<Rightarrow> pyfloat \<Rightarrow> drow" where
  "rayx_make_record args run_id workload rid row sv =
     \<lparr>dr_schema_version = ''1'', dr_run_id = run_id, dr_backend = ''rayx'', dr_boundary = ''rayx-local'',
      dr_workload = workload, dr_request_id = rid, dr_actor_id = hr_actor_id row, dr_worker_id = None,
      dr_status = hr_status row, dr_submit_ns = hr_submit_ns row, dr_start_ns = hr_start_ns row,
      dr_end_ns = hr_end_ns row, dr_total_ms = hr_total_ms row, dr_queue_wait_ms = hr_queue_wait_ms row,
      dr_service_ms_observed = hr_service_ms_observed row, dr_service_ms_requested = sv,
      dr_chunks = da_chunks args, dr_chunk_delay_ms = da_chunk_delay_ms args, dr_work_mode = da_work_mode args,
      dr_retire_mode = da_retire_mode args, dr_error = hr_error row\<rparr>"

subsection \<open>As completed\<close>

definition rayx_submit_one ::
    "('s, 'f, 'z) engine_api_scheme \<Rightarrow> dargs \<Rightarrow> nat \<Rightarrow> ('f \<times> string \<times> pyfloat) list
      \<Rightarrow> ('s, ('f \<times> string \<times> pyfloat) list) io" where
  "rayx_submit_one A args idx infl =
     io_bind (ap_submit A (engine_request args idx)) (\<lambda>fut. io_ret (AList.update fut (req_id idx, svc args idx) infl))"

text \<open>The state of the loop: indices still to submit, requests in flight, records.\<close>

type_synonym 'f rayx_loop = "nat list \<times> ('f \<times> string \<times> pyfloat) list \<times> drow list"

text \<open>\<open>for fut in ready: ...\<close>: retire one, record it, submit one.\<close>

fun rayx_retire ::
    "('s, 'f, 'z) engine_api_scheme \<Rightarrow> dargs \<Rightarrow> string \<Rightarrow> string \<Rightarrow> bool \<Rightarrow> 'f list \<Rightarrow> 'f rayx_loop
      \<Rightarrow> ('s, 'f rayx_loop) io" where
  "rayx_retire A args run_id workload keep [] st = io_ret st"
| "rayx_retire A args run_id workload keep (fut # ready) (rest, infl, records) =
     (case dict_pop fut infl of None \<Rightarrow> io_raise KeyError
      | Some ((rid, sv), infl') \<Rightarrow>
        io_bind (ap_result A fut None) (\<lambda>row.
        io_bind (refill 1 (rayx_submit_one A args) rest infl') (\<lambda>(rest', infl'').
          rayx_retire A args run_id workload keep ready (rest', infl'',
            if keep then records @ [rayx_make_record args run_id workload rid row sv] else records))))"

definition rayx_run_windowed ::
    "('s, 'f, 'z) engine_api_scheme \<Rightarrow> dargs \<Rightarrow> nat list \<Rightarrow> string \<Rightarrow> string \<Rightarrow> bool \<Rightarrow> ('s, drow list) io" where
  "rayx_run_windowed A args indices run_id workload keep =
     io_bind (fill (\<lambda>d. d) (da_concurrency args) (rayx_submit_one A args) indices []) (\<lambda>(rest, infl).
     io_bind (io_while (length indices) (\<lambda>(rest, infl, records). infl \<noteq> [])
       (\<lambda>(rest, infl, records). io_bind (ap_wait A (map fst infl) 1) (\<lambda>(ready, pending).
          rayx_retire A args run_id workload keep ready (rest, infl, records)))
       (rest, infl, [])) (\<lambda>(rest, infl, records). io_ret records))"

subsection \<open>All at once\<close>

definition rayx_run_submit_all ::
    "('s, 'f, 'z) engine_api_scheme \<Rightarrow> dargs \<Rightarrow> nat list \<Rightarrow> string \<Rightarrow> string \<Rightarrow> bool \<Rightarrow> ('s, drow list) io" where
  "rayx_run_submit_all A args indices run_id workload keep =
     io_bind (io_list (\<lambda>idx. ap_submit A (engine_request args idx)) indices) (\<lambda>futs.
     io_bind (ap_get A futs) (\<lambda>rows.
       let meta = map (\<lambda>idx. (req_id idx, svc args idx)) indices in
       io_ret (if keep then map (\<lambda>((rid, sv), row). rayx_make_record args run_id workload rid row sv) (zip meta rows)
               else [])))"

subsection \<open>The run\<close>

definition rayx_dispatch ::
    "('s, 'f, 'z) engine_api_scheme \<Rightarrow> dargs \<Rightarrow> nat list \<Rightarrow> string \<Rightarrow> string \<Rightarrow> bool \<Rightarrow> ('s, drow list) io" where
  "rayx_dispatch A args indices run_id workload keep =
     (if da_retire_mode args = ''one_by_one'' then rayx_run_windowed A args indices run_id workload keep
      else if da_retire_mode args = ''submit_all_get_all'' then rayx_run_submit_all A args indices run_id workload keep
      else io_raise ValueError)"

definition rayx_run :: "('s, 'f, 'z) engine_api_scheme \<Rightarrow> dargs \<Rightarrow> string \<Rightarrow> ('s, drow list) io" where
  "rayx_run A args run_id =
     io_bind (io_py (rayx_workload args)) (\<lambda>workload.
     io_bind (ap_open A (da_num_lanes args) (da_hpx_threads args) (da_lane_impl args) (da_cap args)) (\<lambda>_.
     io_bind (io_finally (measured args (ap_clock A) (\<lambda>n keep. rayx_dispatch A args [0..<nat n] run_id workload keep))
       (ap_shutdown A)) (\<lambda>records.
     io_ret (sort_rows records))))"


subsection \<open>One row per index\<close>

lemma update_new: "f \<notin> fst ` set d \<Longrightarrow> AList.update f e d = d @ [(f, e)]"
  by (induction d) auto

abbreviation "engine_reqs args \<equiv> (\<lambda>i q. q = engine_request args i)"
abbreviation "row_tag args \<equiv> (\<lambda>i e. e = (req_id i, svc args i))"

context bench_engine
begin

lemma rayx_submits:
  assumes "\<And>i. i \<in> I \<Longrightarrow> admits (engine_request args i)"
  shows "submits ok asked limit I (engine_reqs args) (row_tag args) (\<lambda>d. d) (rayx_submit_one A args)"
  unfolding submits_def rayx_submit_one_def runs_bind runs_ret
proof (intro allI impI)
  fix s i and d :: "('f \<times> string \<times> pyfloat) list"
  assume *: "ok s" "i \<in> I" "set (map fst d) \<subseteq> dom (asked s)" "card (dom (asked s)) < limit"
  show "runs (ap_submit A (engine_request args i)) s (\<lambda>s' x. ok s' \<and> (\<exists>f e q. asked s f = None
      \<and> asked s' = (asked s)(f \<mapsto> q) \<and> AList.update x (req_id i, svc args i) d = d @ [(f, e)]
      \<and> e = (req_id i, svc args i) \<and> q = engine_request args i))"
  proof (rule runs_mono [OF submit_law])
    fix s' x
    assume r: "ok s' \<and> asked s x = None \<and> asked s' = (asked s)(x \<mapsto> engine_request args i)"
    then have "AList.update x (req_id i, svc args i) d = d @ [(x, req_id i, svc args i)]"
      using *(3) by (intro update_new) auto
    then show "ok s' \<and> (\<exists>f e q. asked s f = None
      \<and> asked s' = (asked s)(f \<mapsto> q) \<and> AList.update x (req_id i, svc args i) d = d @ [(f, e)]
      \<and> e = (req_id i, svc args i) \<and> q = engine_request args i)"
      using r by blast
  qed (use * assms in auto)
qed

lemma rayx_retire_runs:
  assumes sub: "submits ok asked limit I (engine_reqs args) (row_tag args) (\<lambda>d. d) (rayx_submit_one A args)"
    and "window \<le> int limit"
    and "ok s" and "set rest \<subseteq> I" and "distinct ready" and "set ready \<subseteq> futs_in infl"
    and "window_inv (asked s) (engine_reqs args) (row_tag args) recd keep window indices rest infl records"
    and recd: "recd = engine_row answers args (rayx_make_record args run_id workload)"
  shows "runs (rayx_retire A args run_id workload keep ready (rest, infl, records)) s (\<lambda>s' (rest', infl', records').
     ok s' \<and> window_inv (asked s') (engine_reqs args) (row_tag args) recd keep window indices rest' infl' records'
     \<and> set rest' \<subseteq> I \<and> length rest' + length infl' + length ready = length rest + length infl)"
  using assms(3-7)
proof (induction ready arbitrary: s rest infl records)
  case Nil
  then show ?case by (simp add: runs_ret)
next
  case (Cons fut ready)
  obtain i e "is" q infl' ds where p: "dict_pop fut infl = Some (e, infl')" "e = (req_id i, svc args i)"
      "asked s fut = Some q" "q = engine_request args i"
      "flights ((asked s)(fut := None)) (engine_reqs args) (row_tag args) is infl'" "length infl = Suc (length infl')"
      "futs_in infl' = futs_in infl - {fut}" "retired recd keep ds records"
      "mset ds + add_mset i (mset is) + mset rest = mset indices"
    using Cons.prems(4,5) by (auto elim: window_pop)
  have limit: "length infl' + 1 \<le> limit"
    using Cons.prems(5) p(6) assms(2) unfolding window_inv_def by linarith
  let ?keep = "\<lambda>row. if keep then records @ [rayx_make_record args run_id workload (req_id i) row (svc args i)] else records"
  have rest_ok: "runs (refill 1 (rayx_submit_one A args) rest infl') s'
      (\<lambda>s'' x. runs (case x of (rest', infl'') \<Rightarrow> rayx_retire A args run_id workload keep ready (rest', infl'', ?keep row)) s''
        (\<lambda>s' (rest', infl', records'). ok s'
         \<and> window_inv (asked s') (engine_reqs args) (row_tag args) recd keep window indices rest' infl' records'
         \<and> set rest' \<subseteq> I \<and> length rest' + length infl' + length (fut # ready) = length rest + length infl))"
    if s': "ok s'" "asked s' = (asked s)(fut := None)" "answers q row" for s' row
  proof (rule runs_mono [OF refill_runs [OF sub s'(1) Cons.prems(2)]])
    show "flights (asked s') (engine_reqs args) (row_tag args) is infl'" using p(5) s'(2) by simp
    show "length infl' + 1 \<le> limit" by (rule limit)
    fix s'' x
    assume a: "case x of (rest', d') \<Rightarrow> ok s'' \<and>
       (\<exists>js. rest = js @ rest' \<and> flights (asked s'') (engine_reqs args) (row_tag args) (is @ js) d'
          \<and> length d' = length infl' + length js) \<and>
       length d' \<le> length infl' + 1 \<and> (rest' \<noteq> [] \<longrightarrow> length d' = length infl' + 1) \<and> futs_in infl' \<subseteq> futs_in d'"
    obtain rest' infl'' where x: "x = (rest', infl'')" by (cases x) auto
    obtain js where y: "ok s''" "rest = js @ rest'"
        "flights (asked s'') (engine_reqs args) (row_tag args) (is @ js) infl''"
        "length infl'' = length infl' + length js" "length infl'' \<le> length infl' + 1"
        "rest' \<noteq> [] \<longrightarrow> length infl'' = length infl' + 1" "futs_in infl' \<subseteq> futs_in infl''"
      using a unfolding x prod.case by (elim conjE exE) (rule that, assumption+)
    have "recd i (rayx_make_record args run_id workload (req_id i) row (svc args i))"
      using s'(3) p(4) unfolding recd engine_row_def by blast
    then have inv: "window_inv (asked s'') (engine_reqs args) (row_tag args) recd keep window indices rest' infl'' (?keep row)"
      using window_turn [OF Cons.prems(5) retired_snoc [OF p(8)] y(3) y(2) p(9) p(6) y(5) y(6)] by blast
    have "runs (rayx_retire A args run_id workload keep ready (rest', infl'', ?keep row)) s''
        (\<lambda>s' (rest'', infl', records'). ok s'
         \<and> window_inv (asked s') (engine_reqs args) (row_tag args) recd keep window indices rest'' infl' records'
         \<and> set rest'' \<subseteq> I \<and> length rest'' + length infl' + length ready = length rest' + length infl'')"
    proof (rule Cons.IH [OF y(1)])
      show "set rest' \<subseteq> I" using Cons.prems(2) y(2) by auto
      show "distinct ready" using Cons.prems(3) by simp
      show "set ready \<subseteq> futs_in infl''" using Cons.prems(3,4) p(7) y(7) by auto
    qed (rule inv)
    then show "runs (case x of (rest', infl'') \<Rightarrow> rayx_retire A args run_id workload keep ready (rest', infl'', ?keep row)) s''
        (\<lambda>s' (rest', infl', records'). ok s'
         \<and> window_inv (asked s') (engine_reqs args) (row_tag args) recd keep window indices rest' infl' records'
         \<and> set rest' \<subseteq> I \<and> length rest' + length infl' + length (fut # ready) = length rest + length infl)"
      unfolding x prod.case by (rule runs_mono) (use y(2,4) p(6) in auto)
  qed
  show ?case
    unfolding rayx_retire.simps p(1,2) option.case prod.case runs_bind
    by (rule runs_mono [OF result_law [OF Cons.prems(1) p(3)]]) (simp, rule rest_ok, simp_all del: refill.simps)
qed

lemma rayx_windowed_runs:
  assumes "\<And>i. i \<in> set indices \<Longrightarrow> admits (engine_request args i)"
    and "0 < da_concurrency args" and "da_concurrency args \<le> int limit"
    and "ok s" and "asked s = Map.empty"
  shows "runs (rayx_run_windowed A args indices run_id workload keep) s (\<lambda>s' records. ok s' \<and> asked s' = Map.empty
     \<and> (\<exists>ds. mset ds = mset indices
        \<and> retired (engine_row answers args (rayx_make_record args run_id workload)) keep ds records))"
proof -
  let ?recd = "engine_row answers args (rayx_make_record args run_id workload)"
  have sub: "submits ok asked limit (set indices) (engine_reqs args) (row_tag args) (\<lambda>d. d) (rayx_submit_one A args)"
    by (rule rayx_submits) (rule assms(1))
  show ?thesis
    unfolding rayx_run_windowed_def
  proof (rule windowed_runs [OF sub assms(2-5)])
    fix s rest infl records
    assume inv: "ok s" "infl \<noteq> []" "set rest \<subseteq> set indices"
      "window_inv (asked s) (engine_reqs args) (row_tag args) ?recd keep (da_concurrency args) indices rest infl records"
    have keys: "distinct (map fst infl)" "dom (asked s) = set (map fst infl)" using window_keys [OF inv(4)] by auto
    show "runs (case (rest, infl, records) of (rest, infl, records) \<Rightarrow> io_bind (ap_wait A (map fst infl) 1) (\<lambda>(ready, pending).
          rayx_retire A args run_id workload keep ready (rest, infl, records))) s
      (\<lambda>s' (rest', infl', records'). ok s'
         \<and> window_inv (asked s') (engine_reqs args) (row_tag args) ?recd keep (da_concurrency args) indices rest' infl' records'
         \<and> set rest' \<subseteq> set indices \<and> length rest' + length infl' < length rest + length infl)"
      unfolding prod.case runs_bind
    proof (rule runs_mono [OF wait_law [OF inv(1), of "map fst infl" 1]])
      show "1 \<le> int (length (map fst infl))" using inv(2) by (cases infl) auto
      fix s' rp
      assume r: "ok s' \<and> asked s' = asked s \<and> fst rp \<noteq> [] \<and> distinct (fst rp) \<and> set (fst rp) \<subseteq> set (map fst infl)"
      obtain ready pending where rp: "rp = (ready, pending)" by (cases rp) auto
      have "runs (rayx_retire A args run_id workload keep ready (rest, infl, records)) s'
         (\<lambda>s' (rest', infl', records'). ok s'
           \<and> window_inv (asked s') (engine_reqs args) (row_tag args) ?recd keep (da_concurrency args) indices rest' infl' records'
           \<and> set rest' \<subseteq> set indices \<and> length rest' + length infl' + length ready = length rest + length infl)"
        by (rule rayx_retire_runs [OF sub assms(3)]) (use r rp inv in \<open>auto simp: futs_in_def\<close>)
      then show "runs (case rp of (ready, pending) \<Rightarrow> rayx_retire A args run_id workload keep ready (rest, infl, records)) s'
          (\<lambda>s' (rest', infl', records'). ok s'
           \<and> window_inv (asked s') (engine_reqs args) (row_tag args) ?recd keep (da_concurrency args) indices rest' infl' records'
           \<and> set rest' \<subseteq> set indices \<and> length rest' + length infl' < length rest + length infl)"
        unfolding rp prod.case by (rule runs_mono) (use r rp in \<open>auto simp: neq_Nil_conv\<close>)
    qed (use inv(2) keys in auto)
  qed
qed

end

lemma engine_row_id:
  assumes "\<And>rid row sv. dr_request_id (mk rid row sv) = rid"
  shows "engine_row answers args mk i r \<Longrightarrow> dr_request_id r = req_id i"
  using assms by (auto simp: engine_row_def)

text \<open>What a mode needs of the arguments: a positive window within the limit, or room for everything.\<close>

definition fits :: "nat \<Rightarrow> dargs \<Rightarrow> nat \<Rightarrow> bool" where
  "fits limit args n = (if da_retire_mode args = ''one_by_one'' then 0 < da_concurrency args \<and> da_concurrency args \<le> int limit
     else n \<le> limit)"

context bench_engine
begin

lemma rayx_submit_all_runs:
  assumes adm: "\<And>i. i \<in> set indices \<Longrightarrow> admits (engine_request args i)" and "length indices \<le> limit"
    and "ok s" and "asked s = Map.empty"
  shows "runs (rayx_run_submit_all A args indices run_id workload keep) s (\<lambda>s' records. ok s' \<and> asked s' = Map.empty
     \<and> retired (engine_row answers args (rayx_make_record args run_id workload)) keep indices records)"
proof -
  let ?recd = "engine_row answers args (rayx_make_record args run_id workload)"
  have "runs (io_list (\<lambda>i. ap_submit A (engine_request args i)) indices) s (\<lambda>s' fs. ok s' \<and> distinct fs
     \<and> length fs = length indices \<and> (\<forall>f \<in> set fs. asked s f = None)
     \<and> asked s' = asked s ++ map_of (zip fs (map (engine_request args) indices)))"
    using assms by (intro submit_list_runs) auto
  then show ?thesis
    unfolding rayx_run_submit_all_def runs_bind
  proof (rule runs_mono, elim conjE)
    fix s' fs
    assume fs: "ok s'" "distinct fs" "length fs = length indices"
      "asked s' = asked s ++ map_of (zip fs (map (engine_request args) indices))"
    have ask: "asked s' = map_of (zip fs (map (engine_request args) indices))" using fs(4) assms(4) by simp
    then have dom: "dom (asked s') = set fs" using fs(3) by simp
    have at: "asked s' (fs ! k) = Some (engine_request args (indices ! k))" if "k < length fs" for k
      using that fs(2,3) unfolding ask by (simp add: map_of_zip_nth)
    have "runs (ap_get A fs) s' (\<lambda>s'' rs. ok s'' \<and> asked s'' = asked s' |` (- set fs)
        \<and> list_all2 (\<lambda>f r. answers (the (asked s' f)) r) fs rs)"
      using fs dom by (intro get_law) auto
    then show "runs (ap_get A fs) s' (\<lambda>s' x. runs (let meta = map (\<lambda>idx. (req_id idx, svc args idx)) indices in
       io_ret (if keep then map (\<lambda>((rid, sv), row). rayx_make_record args run_id workload rid row sv) (zip meta x)
               else [])) s' (\<lambda>s' records. ok s' \<and> asked s' = Map.empty \<and> retired ?recd keep indices records))"
    proof (rule runs_mono, elim conjE)
      fix s'' rs
      assume rs: "ok s''" "asked s'' = asked s' |` (- set fs)" "list_all2 (\<lambda>f r. answers (the (asked s' f)) r) fs rs"
      have "asked s'' = Map.empty" using rs(2) dom by (auto simp: restrict_map_def fun_eq_iff domIff)
      moreover have "list_all2 ?recd indices (map (\<lambda>((rid, sv), row). rayx_make_record args run_id workload rid row sv)
          (zip (map (\<lambda>idx. (req_id idx, svc args idx)) indices) rs))"
        using rs(3) fs(3) at by (auto simp: list_all2_conv_all_nth engine_row_def)
      ultimately show "runs (let meta = map (\<lambda>idx. (req_id idx, svc args idx)) indices in
       io_ret (if keep then map (\<lambda>((rid, sv), row). rayx_make_record args run_id workload rid row sv) (zip meta rs)
               else [])) s'' (\<lambda>s' records. ok s' \<and> asked s' = Map.empty \<and> retired ?recd keep indices records)"
        using rs(1) by (simp add: Let_def runs_ret retired_def)
    qed
  qed
qed

lemma rayx_dispatch_runs:
  assumes "\<And>i. i < n \<Longrightarrow> admits (engine_request args i)" and "fits limit args n"
    and "da_retire_mode args \<in> {''one_by_one'', ''submit_all_get_all''}"
    and "ok s" and "asked s = Map.empty"
  shows "runs (rayx_dispatch A args [0..<n] run_id workload keep) s (\<lambda>s' records. ok s' \<and> asked s' = Map.empty
     \<and> (\<exists>ds. mset ds = mset [0..<n]
        \<and> retired (engine_row answers args (rayx_make_record args run_id workload)) keep ds records))"
proof (cases "da_retire_mode args = ''one_by_one''")
  case True
  then have eq: "rayx_dispatch A args [0..<n] run_id workload keep = rayx_run_windowed A args [0..<n] run_id workload keep"
    by (simp add: rayx_dispatch_def)
  have "0 < da_concurrency args" "da_concurrency args \<le> int limit" using assms(2) True by (simp_all add: fits_def)
  then show ?thesis unfolding eq using assms(1,4,5) by (intro rayx_windowed_runs) auto
next
  case False
  then have "runs (rayx_run_submit_all A args [0..<n] run_id workload keep) s (\<lambda>s' records. ok s' \<and> asked s' = Map.empty
     \<and> retired (engine_row answers args (rayx_make_record args run_id workload)) keep [0..<n] records)"
    using assms unfolding fits_def by (intro rayx_submit_all_runs) auto
  then have "runs (rayx_run_submit_all A args [0..<n] run_id workload keep) s (\<lambda>s' records. ok s' \<and> asked s' = Map.empty
     \<and> (\<exists>ds. mset ds = mset [0..<n]
        \<and> retired (engine_row answers args (rayx_make_record args run_id workload)) keep ds records))"
    by (rule runs_mono) blast
  then show ?thesis using False assms(3) by (simp add: rayx_dispatch_def)
qed

end

context bench_host
begin

text \<open>The whole run: one row per request, in index order.\<close>

lemma rayx_run_runs:
  assumes adm: "\<And>i. admits (engine_request args i)"
    and fit: "fits limit args (nat (da_requests args))" "fits limit args (nat (da_warmup_requests args))"
    and mode: "da_retire_mode args \<in> {''one_by_one'', ''submit_all_get_all''}"
    and small: "da_requests args \<le> 10 ^ 6"
    and wl: "rayx_workload args = Inr workload"
    and op: "opens s (da_num_lanes args) (da_hpx_threads args) (da_lane_impl args) (da_cap args)"
  shows "runs (rayx_run A args run_id) s (\<lambda>s' rows.
     list_all2 (engine_row answers args (rayx_make_record args run_id workload)) [0..<nat (da_requests args)] rows)"
proof -
  let ?recd = "engine_row answers args (rayx_make_record args run_id workload)"
  have disp: "runs (rayx_dispatch A args [0..<nat n] run_id workload keep) s (\<lambda>s' records. ok s' \<and> asked s' = Map.empty
     \<and> (\<exists>ds. mset ds = mset [0..<nat n] \<and> retired ?recd keep ds records))"
    if "ok s" "asked s = Map.empty" "n = da_warmup_requests args \<and> 0 < n \<and> \<not> keep \<or> n = da_requests args \<and> keep" for s n keep
    using that adm fit mode by (intro rayx_dispatch_runs) auto
  have meas: "runs (measured args (ap_clock A) (\<lambda>n keep. rayx_dispatch A args [0..<nat n] run_id workload keep)) s'
      (\<lambda>s' records. ok s' \<and> asked s' = Map.empty
        \<and> (\<exists>ds. mset ds = mset [0..<nat (da_requests args)] \<and> retired ?recd True ds records))"
    if "ok s'" "asked s' = Map.empty" for s'
    using that
    by (intro measured_runs [where P = "\<lambda>n keep records. \<exists>ds. mset ds = mset [0..<nat n] \<and> retired ?recd keep ds records"] disp)
  show ?thesis
    unfolding rayx_run_def runs_bind runs_py wl
    apply (simp add: runs_bind)
    apply (rule runs_mono [OF open_law [OF op]])
    apply (simp only: runs_finally)
    apply (rule runs_mono [OF meas])
      apply (blast, blast)
    apply (elim conjE exE)
    apply (rule runs_mono [OF shutdown_law], assumption)
    apply (simp only: runs_ret)
    apply (erule (1) sort_rows_in_order)
    using small apply simp
    apply (erule engine_row_id [rotated])
    apply (simp add: rayx_make_record_def)
    done
qed

end

end
