(* ===== verification/BenchEngine.thy ===== *)
theory BenchEngine
  imports BenchRayx HarnessProps
begin

text \<open>
  The drivers' engine interface on the model of \<open>rayx.Engine\<close>. The world holds the engine, the process
  owner and the clock. A call that waits lets the lanes move first: as a schedule says, in any
  interleaving, and on to the end of all work when that was not enough for the call to return.
\<close>

subsection \<open>Lanes that run while the client waits\<close>

text \<open>One move of lane \<open>i\<close>: a step of its worker, or, inside a wait, time passes for every lane.\<close>

definition eng_advance :: "nat \<Rightarrow> pyengine \<Rightarrow> pyengine option" where
  "eng_advance i pe = (let l = en_lanes (pe_native pe) ! i in
     case worker_step l of
       Some l' \<Rightarrow> Some (with_native (upd_lane i l' (pe_native pe)) pe)
     | None \<Rightarrow> (case lane_advance l of None \<Rightarrow> None
         | Some l' \<Rightarrow> Some (with_native (tick_engine (ln_now l' - ln_now l) (pe_native pe)) pe)))"

fun eng_run :: "nat \<Rightarrow> nat \<Rightarrow> pyengine \<Rightarrow> pyengine" where
  "eng_run 0 i pe = pe"
| "eng_run (Suc n) i pe = (case eng_advance i pe of None \<Rightarrow> pe | Some pe' \<Rightarrow> eng_run n i pe')"

definition run_lane :: "nat \<Rightarrow> pyengine \<Rightarrow> pyengine" where
  "run_lane i pe = eng_run (lane_work (en_lanes (pe_native pe) ! i)) i pe"

text \<open>All lanes, one after the other, until nothing is left to do.\<close>

definition settle :: "pyengine \<Rightarrow> pyengine" where
  "settle pe = fold run_lane [0..<length (en_lanes (pe_native pe))] pe"

definition eng_steps :: "nat list \<Rightarrow> pyengine \<Rightarrow> pyengine" where
  "eng_steps sched pe = fold (\<lambda>i pe. if i < length (en_lanes (pe_native pe))
     then (case eng_advance i pe of None \<Rightarrow> pe | Some pe' \<Rightarrow> pe') else pe) sched pe"

lemma tick_lanes [simp]: "en_lanes (tick_engine d e) = map (\<lambda>l. l\<lparr>ln_now := ln_now l + d\<rparr>) (en_lanes e)"
  by (simp add: tick_engine_def)

lemma native_with [simp]: "pe_native (with_native e pe) = e"
  by (simp add: with_native_def)

text \<open>Nobody cancels: no token is cancelled or asked to stop.\<close>

definition quiet :: "lane \<Rightarrow> bool" where
  "quiet l = (\<forall>c \<in> set (ln_cells l). \<forall>t. cl_tok c = Some t \<longrightarrow> tk_phase t \<noteq> Cancelled \<and> tk_phase t \<noteq> StopRequested)"

definition eng_quiet :: "pyengine \<Rightarrow> bool" where
  "eng_quiet pe = (\<forall>l \<in> set (en_lanes (pe_native pe)). quiet l)"

lemma quiet_update:
  assumes "quiet l" and "\<And>t. cl_tok c = Some t \<Longrightarrow> tk_phase t \<noteq> Cancelled \<and> tk_phase t \<noteq> StopRequested"
    and "ln_cells l' = (ln_cells l)[i := c]"
  shows "quiet l'"
  using assms set_update_subset_insert [of "ln_cells l" i c] by (fastforce simp: quiet_def)

lemma quiet_tok: "quiet l \<Longrightarrow> cl_tok (ln_cells l ! i) = Some t \<Longrightarrow> i < length (ln_cells l) \<Longrightarrow>
    tk_phase t \<noteq> Cancelled \<and> tk_phase t \<noteq> StopRequested"
  by (auto simp: quiet_def)

lemma quiet_cells: "quiet l \<Longrightarrow> ln_cells l' = ln_cells l \<Longrightarrow> quiet l'"
  by (simp add: quiet_def)

lemma quiet_set_tok:
  "quiet l \<Longrightarrow> tk_phase t \<noteq> Cancelled \<Longrightarrow> tk_phase t \<noteq> StopRequested \<Longrightarrow> quiet (set_tok i t l)"
  by (erule quiet_update) (auto simp: set_tok_def)

lemma quiet_after_chunk:
  assumes "quiet l" and "it_id it < length (ln_cells l)"
  shows "quiet (after_chunk it c start l)"
proof -
  have "quiet (set_tok (it_id it) (mark_completed t) l)" if "cl_tok (ln_cells l ! it_id it) = Some t" for t
    using quiet_tok [OF assms(1) that assms(2)] by (intro quiet_set_tok [OF assms(1)]) (auto simp: mark_completed_def)
  then show ?thesis
    using assms(1) by (auto simp: after_chunk_def set_worker_def Let_def quiet_def split: option.splits)
qed

lemma quiet_step:
  assumes "lane_inv l" and "quiet l" and "worker_step l = Some l'"
  shows "quiet l'"
proof (cases "ln_worker l")
  case WIdle
  then show ?thesis using assms by (auto simp: worker_step_def set_worker_def quiet_def split: list.splits if_splits)
next
  case (WPopped it)
  then have i: "it_id it < length (ln_cells l)" using assms(1) by (auto simp: lane_inv_def item_ok_def)
  have "quiet (set_tok (it_id it) (fst (begin_service n t)) l)" if "cl_tok (ln_cells l ! it_id it) = Some t" for n t
    using quiet_tok [OF assms(2) that i] by (intro quiet_set_tok [OF assms(2)]) (auto simp: begin_service_def)
  then show ?thesis
    using WPopped assms(2,3)
    by (auto simp: worker_step_def service_start_def start_chunk_def set_worker_def quiet_def case_prod_unfold
        split: option.splits if_splits)
next
  case (WChunk it c start until)
  then have i: "it_id it < length (ln_cells l)" using assms(1) by (auto simp: lane_inv_def item_ok_def)
  then show ?thesis
    using WChunk assms(2,3) quiet_after_chunk [OF assms(2) i]
    by (auto simp: worker_step_def set_worker_def quiet_def split: if_splits)
next
  case (WGap it c start until)
  then have i: "it_id it < length (ln_cells l)" using assms(1) by (auto simp: lane_inv_def item_ok_def)
  then show ?thesis
    using WGap assms(2,3) quiet_after_chunk [OF assms(2) i] by (auto simp: worker_step_def split: if_splits)
next
  case (WBoundary it c start)
  then have i: "it_id it < length (ln_cells l)" using assms(1) by (auto simp: lane_inv_def item_ok_def)
  have "quiet (set_tok (it_id it) (fst (stop_at_boundary b t)) l)" if "cl_tok (ln_cells l ! it_id it) = Some t" for b t
    using quiet_tok [OF assms(2) that i] by (intro quiet_set_tok [OF assms(2)]) (auto simp: stop_at_boundary_def)
  then show ?thesis
    using WBoundary assms(2,3)
    by (auto simp: worker_step_def start_chunk_def set_worker_def quiet_def case_prod_unfold split: option.splits if_splits)
next
  case (WRefused it start)
  then show ?thesis using assms by (auto simp: worker_step_def set_worker_def quiet_def)
next
  case (WFulfil it r)
  then have i: "it_id it < length (ln_cells l)" using assms(1) by (auto simp: lane_inv_def item_ok_def)
  have "quiet (l\<lparr>ln_cells := (ln_cells l)[it_id it := (ln_cells l ! it_id it)\<lparr>cl_proms := p\<rparr>]\<rparr>)" for p
    using quiet_tok [OF assms(2) _ i] by (intro quiet_update [OF assms(2)]) auto
  then show ?thesis using WFulfil assms(3) by (auto simp: worker_step_def set_worker_def quiet_def)
next
  case WClear
  then show ?thesis using assms by (auto simp: worker_step_def set_worker_def quiet_def)
next
  case WExited
  then show ?thesis using assms by (simp add: worker_step_def)
qed

text \<open>What a move leaves alone, and that it leads to a reachable engine.\<close>

definition same_futs :: "pyengine \<Rightarrow> pyengine \<Rightarrow> bool" where
  "same_futs pe pe' \<longleftrightarrow> pe_futs pe' = pe_futs pe \<and> en_futs (pe_native pe') = en_futs (pe_native pe)
     \<and> pe_closed pe' = pe_closed pe \<and> en_cap (pe_native pe') = en_cap (pe_native pe)
     \<and> pe_cap_arg pe' = pe_cap_arg pe \<and> (eng_quiet pe \<longrightarrow> eng_quiet pe')
     \<and> lanes_extend (en_lanes (pe_native pe)) (en_lanes (pe_native pe'))"

lemma lanes_extend_refl [simp]: "lanes_extend ls ls"
  by (simp add: lanes_extend_def)

lemma same_futs_refl [simp]: "same_futs pe pe"
  by (simp add: same_futs_def)

lemma same_futs_trans: "same_futs a b \<Longrightarrow> same_futs b c \<Longrightarrow> same_futs a c"
  by (auto simp: same_futs_def intro: lanes_extend_trans)

lemma lane_inv_of: "pe_reachable pe \<Longrightarrow> i < length (en_lanes (pe_native pe)) \<Longrightarrow>
    lane_ok (en_running (pe_native pe)) (en_cap (pe_native pe)) (en_lanes (pe_native pe) ! i)
    \<and> lane_inv (en_lanes (pe_native pe) ! i)"
  using pe_inv_lanes [OF pe_reachable_inv] reachable_inv by (fastforce simp: lane_ok_def)

lemma advance_ok:
  assumes "pe_reachable pe" and "i < length (en_lanes (pe_native pe))" and "eng_advance i pe = Some pe'"
  shows "pe_reachable pe'" "same_futs pe pe'"
    "lane_work (en_lanes (pe_native pe') ! i) < lane_work (en_lanes (pe_native pe) ! i)"
    "\<And>j. j < length (en_lanes (pe_native pe)) \<Longrightarrow> j \<noteq> i \<Longrightarrow>
       \<exists>d. en_lanes (pe_native pe') ! j = (en_lanes (pe_native pe) ! j)\<lparr>ln_now := ln_now (en_lanes (pe_native pe) ! j) + d\<rparr>"
proof -
  let ?l = "en_lanes (pe_native pe) ! i"
  have l: "lane_ok (en_running (pe_native pe)) (en_cap (pe_native pe)) ?l" "lane_inv ?l"
    using lane_inv_of [OF assms(1,2)] by auto
  consider (work) l' where "worker_step ?l = Some l'" "pe' = with_native (upd_lane i l' (pe_native pe)) pe"
    | (tick) l' where "worker_step ?l = None" "lane_advance ?l = Some l'"
        "pe' = with_native (tick_engine (ln_now l' - ln_now ?l) (pe_native pe)) pe"
    using assms(3) by (auto simp: eng_advance_def Let_def split: option.splits)
  then have "pe_reachable pe' \<and> same_futs pe pe' \<and>
    lane_work (en_lanes (pe_native pe') ! i) < lane_work ?l \<and>
    (\<forall>j < length (en_lanes (pe_native pe)). j \<noteq> i \<longrightarrow>
       (\<exists>d. en_lanes (pe_native pe') ! j = (en_lanes (pe_native pe) ! j)\<lparr>ln_now := ln_now (en_lanes (pe_native pe) ! j) + d\<rparr>))"
  proof cases
    case work
    have ext: "cells_extend ?l l'" using lane_ok_work [OF l(1) work(1)] by simp
    have adv: "lane_advance ?l = Some l'" using work(1) by (simp add: lane_advance_def)
    have "pe_reachable pe'" unfolding work(2) by (rule pe_reachable.Work [OF assms(1,2) work(1)])
    moreover have "eng_quiet pe \<longrightarrow> eng_quiet pe'"
      using quiet_step [OF l(2) _ work(1)] assms(2) set_update_subset_insert [of "en_lanes (pe_native pe)" i l']
      by (fastforce simp: eng_quiet_def work(2) upd_lane_def)
    then have "same_futs pe pe'"
      using lanes_extend_update [OF ext] by (simp add: work(2) same_futs_def upd_lane_def with_native_def)
    moreover have "lane_work l' < lane_work ?l" using lane_advance_step [OF l(2) adv] by simp
    ultimately show ?thesis
      using assms(2) by (auto simp: work(2) upd_lane_def nth_list_update intro: exI [of _ 0])
  next
    case tick
    obtain until where l': "l' = ?l\<lparr>ln_now := until\<rparr>" "ln_now ?l < until"
      using tick(1,2) by (auto simp: lane_advance_def worker_step_def split: worker.splits if_splits)
    have reach: "pe_reachable pe'" unfolding tick(3) using l' by (intro pe_reachable.Tick [OF assms(1)]) simp
    moreover have "lanes_extend (en_lanes (pe_native pe)) (en_lanes (pe_native pe'))"
      unfolding tick(3) by (simp add: lanes_extend_def cells_extend_def)
    moreover have "eng_quiet pe \<longrightarrow> eng_quiet pe'" by (auto simp: eng_quiet_def tick(3) quiet_def)
    ultimately have "same_futs pe pe'"
      by (simp add: tick(3) same_futs_def with_native_def tick_engine_def)
    have "en_lanes (pe_native pe') ! i = l'" using assms(2) l' by (simp add: tick(3))
    then have "lane_work (en_lanes (pe_native pe') ! i) < lane_work ?l"
      using lane_advance_step [OF l(2) tick(2)] by simp
    then show ?thesis using reach \<open>same_futs pe pe'\<close> assms(2) by (auto simp: tick(3))
  qed
  then show "pe_reachable pe'" "same_futs pe pe'"
    "lane_work (en_lanes (pe_native pe') ! i) < lane_work ?l"
    "\<And>j. j < length (en_lanes (pe_native pe)) \<Longrightarrow> j \<noteq> i \<Longrightarrow>
       \<exists>d. en_lanes (pe_native pe') ! j = (en_lanes (pe_native pe) ! j)\<lparr>ln_now := ln_now (en_lanes (pe_native pe) ! j) + d\<rparr>"
    by blast+
qed

definition idle :: "lane \<Rightarrow> bool" where
  "idle l = (ln_worker l = WIdle \<and> ln_queue l = [])"

lemma idle_tick [simp]: "idle (l\<lparr>ln_now := t\<rparr>) = idle l"
  by (simp add: idle_def)

lemma advance_None:
  assumes "pe_reachable pe" and "\<not> pe_closed pe" and "i < length (en_lanes (pe_native pe))"
    and "eng_advance i pe = None"
  shows "idle (en_lanes (pe_native pe) ! i)"
proof -
  let ?l = "en_lanes (pe_native pe) ! i"
  have "en_running (pe_native pe)" using pe_reachable_inv [OF assms(1)] assms(2) by (simp add: pe_inv_def)
  then have "\<not> ln_stop ?l" "lane_inv ?l" using lane_inv_of [OF assms(1,3)] by (auto simp: lane_ok_def)
  then show ?thesis
    using assms(4)
    by (cases "ln_worker ?l")
      (auto simp: eng_advance_def lane_advance_def worker_step_def idle_def Let_def lane_inv_def
        split: option.splits list.splits if_splits prod.splits)
qed

lemma eng_run_ok:
  assumes "pe_reachable pe" and "\<not> pe_closed pe" and "i < length (en_lanes (pe_native pe))"
    and "lane_work (en_lanes (pe_native pe) ! i) \<le> fuel"
  shows "pe_reachable (eng_run fuel i pe) \<and> same_futs pe (eng_run fuel i pe)
    \<and> idle (en_lanes (pe_native (eng_run fuel i pe)) ! i)
    \<and> (\<forall>j < length (en_lanes (pe_native pe)). idle (en_lanes (pe_native pe) ! j) \<longrightarrow> idle (en_lanes (pe_native (eng_run fuel i pe)) ! j))"
  using assms
proof (induction fuel arbitrary: pe)
  case 0
  have "eng_advance i pe = None"
  proof (rule ccontr)
    assume "eng_advance i pe \<noteq> None"
    then obtain pe' where "eng_advance i pe = Some pe'" by auto
    then show False using advance_ok(3) [OF 0(1,3)] 0(4) by fastforce
  qed
  then show ?case using advance_None 0 by simp
next
  case (Suc fuel)
  show ?case
  proof (cases "eng_advance i pe")
    case None
    then show ?thesis using advance_None Suc.prems by simp
  next
    case (Some pe')
    note a = advance_ok [OF Suc.prems(1,3) Some]
    have len: "length (en_lanes (pe_native pe')) = length (en_lanes (pe_native pe))" "\<not> pe_closed pe'"
      using a(2) Suc.prems(2) by (simp_all add: same_futs_def lanes_extend_def)
    have keep: "idle (en_lanes (pe_native pe') ! j)"
      if "j < length (en_lanes (pe_native pe))" "idle (en_lanes (pe_native pe) ! j)" "j \<noteq> i" for j
      using a(4) [OF that(1,3)] that(2) by fastforce
    have "pe_reachable (eng_run fuel i pe') \<and> same_futs pe' (eng_run fuel i pe')
      \<and> idle (en_lanes (pe_native (eng_run fuel i pe')) ! i)
      \<and> (\<forall>j < length (en_lanes (pe_native pe')). idle (en_lanes (pe_native pe') ! j) \<longrightarrow> idle (en_lanes (pe_native (eng_run fuel i pe')) ! j))"
      using Suc.prems a(1,3) len by (intro Suc.IH) auto
    then show ?thesis
      using Some keep same_futs_trans [OF a(2)] len by (auto simp: le_less)
  qed
qed

lemmas run_lane_ok = eng_run_ok [OF _ _ _ order_refl, folded run_lane_def]

lemma steps_ok: "pe_reachable pe \<Longrightarrow> pe_reachable (eng_steps sched pe) \<and> same_futs pe (eng_steps sched pe)"
proof (induction sched arbitrary: pe)
  case Nil
  then show ?case by (simp add: eng_steps_def)
next
  case (Cons i sched)
  let ?pe = "if i < length (en_lanes (pe_native pe))
     then (case eng_advance i pe of None \<Rightarrow> pe | Some pe' \<Rightarrow> pe') else pe"
  have "pe_reachable ?pe \<and> same_futs pe ?pe"
    using Cons.prems advance_ok(1,2) [OF Cons.prems] by (auto split: option.splits)
  moreover have "eng_steps (i # sched) pe = eng_steps sched ?pe" by (simp add: eng_steps_def)
  ultimately show ?case using Cons.IH [of ?pe] same_futs_trans by metis
qed

lemma settle_ok:
  assumes "pe_reachable pe" and "\<not> pe_closed pe"
  shows "pe_reachable (settle pe) \<and> same_futs pe (settle pe)
    \<and> (\<forall>j < length (en_lanes (pe_native pe)). idle (en_lanes (pe_native (settle pe)) ! j))"
proof -
  define N where "N = length (en_lanes (pe_native pe))"
  have "pe_reachable (fold run_lane [0..<n] pe) \<and> same_futs pe (fold run_lane [0..<n] pe)
    \<and> (\<forall>j < n. idle (en_lanes (pe_native (fold run_lane [0..<n] pe)) ! j))" if "n \<le> N" for n
    using that
  proof (induction n)
    case 0
    then show ?case using assms by simp
  next
    case (Suc n)
    let ?pe = "fold run_lane [0..<n] pe"
    have IH: "pe_reachable ?pe" "same_futs pe ?pe" "\<forall>j < n. idle (en_lanes (pe_native ?pe) ! j)" using Suc by simp_all
    have len: "length (en_lanes (pe_native ?pe)) = N" "\<not> pe_closed ?pe"
      using IH(2) assms(2) by (simp_all add: same_futs_def lanes_extend_def N_def)
    have r: "pe_reachable (run_lane n ?pe) \<and> same_futs ?pe (run_lane n ?pe)
      \<and> idle (en_lanes (pe_native (run_lane n ?pe)) ! n)
      \<and> (\<forall>j < length (en_lanes (pe_native ?pe)). idle (en_lanes (pe_native ?pe) ! j) \<longrightarrow> idle (en_lanes (pe_native (run_lane n ?pe)) ! j))"
      using IH(1) len Suc.prems by (intro run_lane_ok) auto
    have eq: "fold run_lane [0..<Suc n] pe = run_lane n ?pe" by simp
    show ?case unfolding eq using r IH same_futs_trans [OF IH(2)] len Suc.prems by (auto simp: less_Suc_eq)
  qed
  from this [of N] show ?thesis by (simp add: settle_def N_def)
qed

text \<open>On an engine at rest every future is ready.\<close>

lemma idle_done:
  assumes "lane_inv l" and "idle l" and "i < length (ln_cells l)"
  shows "cell_done (ln_actor_id l) (ln_cells l ! i)"
proof -
  have "ln_log l = [0..<length (ln_cells l)]" using assms by (simp add: lane_inv_def idle_def)
  then show ?thesis using assms by (auto simp: lane_inv_def held_def idle_def)
qed


lemma settled_ready:
  assumes "pe_reachable pe" and "\<not> pe_closed pe" and "k < length (pe_futs pe)"
  shows "ef_ready_now (pe_native (settle pe)) k"
proof -
  note s = settle_ok [OF assms(1,2)]
  have reach: "pe_reachable (settle pe)" "k < length (pe_futs (settle pe))"
    using s assms(3) by (simp_all add: same_futs_def)
  note f = reach_fut [OF reach]
  let ?l = "en_lanes (pe_native (settle pe)) ! ef_lane (en_futs (pe_native (settle pe)) ! k)"
  have "length (en_lanes (pe_native (settle pe))) = length (en_lanes (pe_native pe))"
    using s by (simp add: same_futs_def lanes_extend_def)
  then have "idle ?l" using s f(1) by (simp add: fut_ok_def)
  then have "cell_done (ln_actor_id ?l) (en_cell (pe_native (settle pe)) k)"
    using idle_done f(1,3) by (simp add: en_cell_def fut_ok_def)
  then show ?thesis using cell_done_count f(5) by (fastforce simp: ef_ready_now_def)
qed

subsection \<open>The world\<close>

record bench_world =
  bw_engine :: "pyengine option"
  bw_owner :: owner
  bw_start_ok :: bool
  bw_ids :: "string list"
  bw_now :: int
  bw_time :: "nat \<Rightarrow> int"
  bw_reads :: nat
  bw_sched :: "nat \<Rightarrow> nat list"
  bw_calls :: nat

text \<open>The clock's next reading.\<close>

definition be_clock :: "(bench_world, int) io" where
  "be_clock w = (w\<lparr>bw_reads := Suc (bw_reads w)\<rparr>, Returns (bw_time w (bw_reads w)))"

definition be_engine :: "(bench_world, pyengine) io" where
  "be_engine w = (case bw_engine w of None \<Rightarrow> (w, Raises AttributeError) | Some pe \<Rightarrow> (w, Returns pe))"

definition be_put :: "pyengine \<Rightarrow> (bench_world, unit) io" where
  "be_put pe w = (w\<lparr>bw_engine := Some pe\<rparr>, Returns ())"

text \<open>The lanes move until the call can return.\<close>

definition move_until :: "(pyengine \<Rightarrow> bool) \<Rightarrow> nat list \<Rightarrow> pyengine \<Rightarrow> pyengine" where
  "move_until returns sched pe = (let pe' = eng_steps sched pe in if returns pe' then pe' else settle pe')"

definition be_until :: "(pyengine \<Rightarrow> bool) \<Rightarrow> (bench_world, pyengine) io" where
  "be_until returns = io_bind be_engine (\<lambda>pe. (\<lambda>w.
     let pe' = move_until returns (bw_sched w (bw_calls w)) pe
     in (w\<lparr>bw_engine := Some pe', bw_calls := Suc (bw_calls w)\<rparr>, Returns pe')))"

definition io_outcome :: "'a outcome \<Rightarrow> ('s, 'a) io" where
  "io_outcome r s = (s, r)"

lemma runs_outcome [wp]: "runs (io_outcome r) s P = (case r of Returns x \<Rightarrow> P s x | _ \<Rightarrow> False)"
  by (simp add: io_outcome_def runs_def)

definition be_submit :: "engine_req \<Rightarrow> (bench_world, nat) io" where
  "be_submit q = (case q of (service_ms, mode, chunks, delay) \<Rightarrow>
     io_bind be_engine (\<lambda>pe. io_bind be_clock (\<lambda>t.
       case eng_submit t (VFloat service_ms) (VStr mode) VNone (VInt chunks) (VFloat delay) pe of
         (pe', r) \<Rightarrow> io_bind (be_put pe') (\<lambda>_. io_py r))))"

fun fut_ix :: "fut_arg \<Rightarrow> nat" where
  "fut_ix (AFuture k) = k"
| "fut_ix ANot = 0"

definition be_wait :: "nat list \<Rightarrow> int \<Rightarrow> (bench_world, nat list \<times> nat list) io" where
  "be_wait ks n =
     io_bind (be_until (\<lambda>pe. eng_wait (futs ks) (VInt n) VNone pe \<noteq> Blocked)) (\<lambda>pe.
     io_bind (io_outcome (eng_wait (futs ks) (VInt n) VNone pe)) (\<lambda>(r, p).
       io_ret (map fut_ix r, map fut_ix p)))"

definition be_result :: "nat \<Rightarrow> int option \<Rightarrow> (bench_world, hrow) io" where
  "be_result k recv =
     io_bind (be_until (\<lambda>pe. ef_ready_now (pe_native pe) k)) (\<lambda>pe.
     io_bind be_clock (\<lambda>t. case fut_result k recv t pe of
       (pe', r) \<Rightarrow> io_bind (be_put pe') (\<lambda>_. io_outcome r)))"

definition be_get :: "nat list \<Rightarrow> (bench_world, hrow list) io" where
  "be_get ks =
     io_bind (be_until (\<lambda>pe. list_all (ef_ready_now (pe_native pe)) ks)) (\<lambda>pe.
     io_bind be_clock (\<lambda>t. case eng_get ks None t pe of
       (pe', r) \<Rightarrow> io_bind (be_put pe') (\<lambda>_. io_outcome r)))"

definition batch_args :: "batch_service \<Rightarrow> pyval \<times> pyval" where
  "batch_args b = (case b of Scalar s n \<Rightarrow> (VFloat s, VInt n) | Varied ss \<Rightarrow> (VList (map VFloat ss), VNone))"

definition be_batch :: "batch_service \<Rightarrow> string \<Rightarrow> (bench_world, nat list) io" where
  "be_batch b mode =
     io_bind be_engine (\<lambda>pe. io_bind be_clock (\<lambda>t. io_bind be_clock (\<lambda>now.
       case eng_submit_batch t now (fst (batch_args b)) (snd (batch_args b)) (VStr mode) pe of
         (pe', r) \<Rightarrow> io_bind (be_put pe') (\<lambda>_. io_py r))))"

definition cap_val :: "int option \<Rightarrow> pyval" where
  "cap_val cap = (case cap of None \<Rightarrow> VNone | Some n \<Rightarrow> VInt n)"

definition be_open :: "int \<Rightarrow> int \<Rightarrow> string \<Rightarrow> int option \<Rightarrow> (bench_world, unit) io" where
  "be_open n h impl cap w =
     (case eng_init (bw_start_ok w) (bw_ids w) (bw_now w) (VInt n) (VInt h) (cap_val cap) (VStr impl) (bw_owner w) of
        Inl x \<Rightarrow> (w, Raises x)
      | Inr (ow, pe) \<Rightarrow> (w\<lparr>bw_engine := Some pe, bw_owner := ow\<rparr>, Returns ()))"

definition be_shutdown :: "(bench_world, unit) io" where
  "be_shutdown = io_bind be_engine (\<lambda>pe. (\<lambda>w. case eng_shutdown (pe, bw_owner w) of
     (pe', ow) \<Rightarrow> (w\<lparr>bw_engine := Some pe', bw_owner := ow\<rparr>, Returns ())))"

definition model_engine :: "(bench_world, nat) engine_api" where
  "model_engine = \<lparr>ap_submit = be_submit, ap_wait = be_wait, ap_get = be_get, ap_clock = be_clock,
     ap_result = be_result, ap_batch = be_batch, ap_open = be_open, ap_shutdown = be_shutdown\<rparr>"

subsection \<open>The contract of the model\<close>

text \<open>An open engine without admission bound, a clock within bounds, futures stamped by it.\<close>

definition be_ok :: "bench_world \<Rightarrow> bool" where
  "be_ok w \<longleftrightarrow> (\<forall>i. stamp (bw_time w i)) \<and> (\<exists>pe. bw_engine w = Some pe \<and> pe_reachable pe \<and> \<not> pe_closed pe
     \<and> pe_cap_arg pe = VNone \<and> eng_quiet pe \<and> (\<forall>f \<in> set (pe_futs pe). stamp (fu_submit_ns f)))"

definition asked_of :: "request \<Rightarrow> engine_req" where
  "asked_of rq = (rq_service_ms rq, rq_work_mode rq, rq_chunks rq, rq_chunk_delay_ms rq)"

definition eng_asked :: "pyengine \<Rightarrow> nat \<rightharpoonup> engine_req" where
  "eng_asked pe k = (if k < length (pe_futs pe) \<and> \<not> fu_retired (pe_futs pe ! k)
     then Some (asked_of (cl_req (en_cell (pe_native pe) k))) else None)"

definition be_asked :: "bench_world \<Rightarrow> nat \<rightharpoonup> engine_req" where
  "be_asked w = (case bw_engine w of None \<Rightarrow> Map.empty | Some pe \<Rightarrow> eng_asked pe)"

definition be_admits :: "engine_req \<Rightarrow> bool" where
  "be_admits q = (case q of (service_ms, mode, chunks, delay) \<Rightarrow>
     submit_args (VFloat service_ms) (VStr mode) VNone (VInt chunks) (VFloat delay) = Inr q)"

text \<open>
  A row that answers a request: completed with every chunk asked for and no less than the active and
  parked time asked for.
\<close>

definition be_answers :: "engine_req \<Rightarrow> hrow \<Rightarrow> bool" where
  "be_answers q row = (case q of (service_ms, mode, chunks, delay) \<Rightarrow>
     hr_chunks row = chunks \<and> hr_error row = VNone \<and>
     hr_status row = ''completed'' \<and> hr_chunks_completed row = chunks
     \<and> chunks * wait_ns (fdiv_pos service_ms (of_int chunks)) + (chunks - 1) * wait_ns delay
         \<le> hr_end_ns row - hr_start_ns row)"

definition be_opens :: "bench_world \<Rightarrow> int \<Rightarrow> int \<Rightarrow> string \<Rightarrow> int option \<Rightarrow> bool" where
  "be_opens w n h impl cap \<longleftrightarrow> (\<forall>i. stamp (bw_time w i)) \<and> cap = None
     \<and> (\<exists>r. eng_init (bw_start_ok w) (bw_ids w) (bw_now w) (VInt n) (VInt h) VNone (VStr impl) (bw_owner w) = Inr r)"

lemma asked_cell:
  assumes "pe_reachable pe" and "same_futs pe pe'" and "k < length (pe_futs pe)"
  shows "cl_req (en_cell (pe_native pe') k) = cl_req (en_cell (pe_native pe) k)"
  using reach_fut(1) [OF assms(1,3)] assms(2)
  by (simp add: fut_ok_def same_futs_def lanes_extend_def cells_extend_def en_cell_def)

lemma same_futs_asked: "pe_reachable pe \<Longrightarrow> same_futs pe pe' \<Longrightarrow> eng_asked pe' = eng_asked pe"
  using asked_cell [of pe pe'] by (auto simp: eng_asked_def same_futs_def fun_eq_iff)

lemma move_ok:
  assumes "pe_reachable pe" and "\<not> pe_closed pe"
  shows "pe_reachable (move_until P sched pe) \<and> same_futs pe (move_until P sched pe)
    \<and> (P (move_until P sched pe)
       \<or> (\<forall>k < length (pe_futs pe). ef_ready_now (pe_native (move_until P sched pe)) k))"
proof -
  note st = steps_ok [OF assms(1), of sched]
  have "\<not> pe_closed (eng_steps sched pe)" "length (pe_futs (eng_steps sched pe)) = length (pe_futs pe)"
    using st assms(2) by (simp_all add: same_futs_def)
  then show ?thesis
    using st settle_ok [of "eng_steps sched pe"] settled_ready [of "eng_steps sched pe"] same_futs_trans
    by (auto simp: move_until_def Let_def)
qed

lemma be_until_runs:
  assumes "be_ok w"
  shows "runs (be_until P) w (\<lambda>w' pe. be_ok w' \<and> be_asked w' = be_asked w \<and> bw_engine w' = Some pe
     \<and> (P pe \<or> (\<forall>k < length (pe_futs pe). ef_ready_now (pe_native pe) k)))"
proof -
  obtain pe where pe: "bw_engine w = Some pe" "pe_reachable pe" "\<not> pe_closed pe" "pe_cap_arg pe = VNone" "eng_quiet pe"
      "\<forall>f \<in> set (pe_futs pe). stamp (fu_submit_ns f)" "\<forall>i. stamp (bw_time w i)"
    using assms by (auto simp: be_ok_def)
  define pe' where "pe' = move_until P (bw_sched w (bw_calls w)) pe"
  define w' where "w' = w\<lparr>bw_engine := Some pe', bw_calls := Suc (bw_calls w)\<rparr>"
  have m: "pe_reachable pe'" "same_futs pe pe'"
      "P pe' \<or> (\<forall>k < length (pe_futs pe'). ef_ready_now (pe_native pe') k)"
    using move_ok [OF pe(2,3), of P "bw_sched w (bw_calls w)"] by (simp_all add: pe'_def same_futs_def)
  have run: "be_until P w = (w', Returns pe')"
    by (simp add: be_until_def io_bind_def be_engine_def pe(1) Let_def w'_def pe'_def)
  have "be_ok w'" using pe m(1,2) by (simp add: be_ok_def w'_def same_futs_def)
  moreover have "be_asked w' = be_asked w"
    using pe(1) same_futs_asked [OF pe(2) m(2)] by (simp add: be_asked_def w'_def)
  moreover have "bw_engine w' = Some pe'" by (simp add: w'_def)
  ultimately show ?thesis using m(3) by (simp add: run runs_def)
qed

lemma be_clock_runs: "be_ok w \<Longrightarrow> runs be_clock w (\<lambda>w' n. be_ok w' \<and> be_asked w' = be_asked w
    \<and> bw_engine w' = bw_engine w \<and> stamp n)"
  by (auto simp: be_clock_def runs_def be_ok_def be_asked_def)

lemma asked_dom: "pe_reachable pe \<Longrightarrow> k \<in> dom (eng_asked pe) \<longleftrightarrow>
    k < length (pe_futs pe) \<and> ef_valid (en_futs (pe_native pe) ! k)"
  using reach_fut(1) [of pe k] by (auto simp: eng_asked_def fut_ok_def split: if_splits)

lemma wait_eq:
  assumes "pe_reachable pe" and "\<not> pe_closed pe" and "ks \<noteq> []" and "distinct ks" and "set ks \<subseteq> dom (eng_asked pe)"
    and "1 \<le> n" "n \<le> int (length ks)" "n < 2 ^ 31"
  shows "eng_wait (futs ks) (VInt n) VNone pe =
    (if int (length (ready_indices ks (pe_native pe))) < n then Blocked
     else Returns (partition_by (\<lambda>i. i \<in> set (ready_indices ks (pe_native pe))) (futs ks)))"
proof -
  have own: "own pe ks" "\<forall>k \<in> set ks. ef_valid (en_futs (pe_native pe) ! k)"
    using assms(5) asked_dom [OF assms(1)] by (auto simp: own_def)
  have "en_running (pe_native pe)" using pe_reachable_inv [OF assms(1)] assms(2) by (simp add: pe_inv_def)
  moreover have "borrow_futures [] ks (pe_native pe) = Inr ()"
    using own(2) assms(4) by (simp add: borrow_Inr_iff)
  moreover have "futs ks \<noteq> []" using assms(3) by (simp add: futs_def)
  ultimately show ?thesis
    using assms(3,6-8) cfs_of_futs [OF assms(1) own(1)]
    by (simp add: eng_wait_def wait_blocking_def engine_wait_def cross_int32_def)
qed

lemma partition_ix: "map fut_ix (fst (partition_by p (futs ks))) = map ((!) ks) (filter p [0..<length ks])"
  by (auto simp: partition_by_def futs_def)

lemma be_wait_runs:
  assumes "be_ok w" and "ks \<noteq> []" and "distinct ks" and "set ks \<subseteq> dom (be_asked w)"
    and "1 \<le> n" "n \<le> int (length ks)" "n < 2 ^ 31"
  shows "runs (be_wait ks n) w (\<lambda>w' rp. be_ok w' \<and> be_asked w' = be_asked w \<and> fst rp \<noteq> []
     \<and> distinct (fst rp) \<and> set (fst rp) \<subseteq> set ks)"
  unfolding be_wait_def runs_bind
proof (rule runs_mono [OF be_until_runs [OF assms(1)]], elim conjE)
  fix w' pe
  assume w': "be_ok w'" "be_asked w' = be_asked w" "bw_engine w' = Some pe"
    and ready: "eng_wait (futs ks) (VInt n) VNone pe \<noteq> Blocked \<or> (\<forall>k < length (pe_futs pe). ef_ready_now (pe_native pe) k)"
  have pe: "pe_reachable pe" "\<not> pe_closed pe" using w'(1,3) by (auto simp: be_ok_def)
  have sub: "set ks \<subseteq> dom (eng_asked pe)" using assms(4) w'(2,3) by (simp add: be_asked_def)
  note eq = wait_eq [OF pe assms(2,3) sub assms(5-7)]
  let ?ri = "ready_indices ks (pe_native pe)"
  have many: "n \<le> int (length ?ri)"
  proof (cases "\<forall>k < length (pe_futs pe). ef_ready_now (pe_native pe) k")
    case True
    have "\<And>i. i < length ks \<Longrightarrow> ks ! i < length (pe_futs pe)" using sub asked_dom [OF pe(1)] nth_mem by blast
    then have "?ri = [0..<length ks]" using True by (auto simp: ready_indices_def intro: filter_True)
    then show ?thesis using assms(6) by simp
  next
    case False
    then show ?thesis using ready eq by (auto split: if_splits)
  qed
  obtain r p where rp: "partition_by (\<lambda>i. i \<in> set ?ri) (futs ks) = (r, p)" by (cases "partition_by (\<lambda>i. i \<in> set ?ri) (futs ks)") auto
  have ix: "map fut_ix r = map ((!) ks) (filter (\<lambda>i. i \<in> set ?ri) [0..<length ks])"
    using partition_ix [of "\<lambda>i. i \<in> set ?ri" ks] rp by simp
  have flt: "filter (\<lambda>i. i \<in> set ?ri) [0..<length ks] = ?ri"
    unfolding ready_indices_def by (rule filter_cong) auto
  have "map fut_ix r \<noteq> []" using many assms(5) unfolding ix flt by auto
  moreover have "distinct (map fut_ix r)"
    unfolding ix flt using assms(3) by (auto simp: ready_indices_def distinct_map inj_on_def nth_eq_iff_index_eq)
  moreover have "set (map fut_ix r) \<subseteq> set ks" unfolding ix flt by (auto simp: ready_indices_def)
  ultimately show "runs (io_outcome (eng_wait (futs ks) (VInt n) VNone pe)) w'
      (\<lambda>s' x. runs (case x of (r, p) \<Rightarrow> io_ret (map fut_ix r, map fut_ix p)) s'
        (\<lambda>w' rp. be_ok w' \<and> be_asked w' = be_asked w \<and> fst rp \<noteq> [] \<and> distinct (fst rp) \<and> set (fst rp) \<subseteq> set ks))"
    using many w' eq rp by (simp add: io_outcome_def runs_def io_ret_def)
qed

lemma push_cells: "ln_cells (push_item rq tok l) ! length (ln_cells l) = x \<Longrightarrow> cl_req x = rq"
  by (auto simp: push_item_def)

lemma asked_of_single: "asked_of (single_request s m c d t) = (s, m, c, d)"
  by (simp add: asked_of_def single_request_def)

text \<open>An unbounded engine admits every well-formed request.\<close>

lemma submit_unbounded:
  assumes "pe_reachable pe" and "\<not> pe_closed pe" and "pe_cap_arg pe = VNone"
    and "submit_args a b l c d = Inr (s, m, k, e)"
  obtains pe' where "eng_submit t a b l c d pe = (pe', Inr (length (pe_futs pe)))"
    "pe_reachable pe'" "pe_closed pe' = pe_closed pe" "pe_cap_arg pe' = VNone" "eng_quiet pe \<longrightarrow> eng_quiet pe'"
    "pe_futs pe' = pe_futs pe @ [new_pyfuture (length (pe_futs pe)) t l k e]"
    "eng_asked pe' = (eng_asked pe)(length (pe_futs pe) \<mapsto> (s, m, k, e))"
proof -
  let ?e = "pe_native pe"
  note inv = pe_reachable_inv [OF assms(1)]
  have e: "en_running ?e" "en_cap ?e < 0" "en_lanes ?e \<noteq> []" "length (en_futs ?e) = length (pe_futs pe)"
    using inv assms(2,3) by (auto simp: pe_inv_def futs_ok_def)
  define i where "i = rr_lane ?e 0"
  define l0 where "l0 = en_lanes ?e ! i"
  define rq where "rq = single_request s m k e (ln_now l0)"
  define e' where "e' = add_future i (length (ln_cells l0)) True (upd_lane i (push_item rq True l0) (rr_advance 1 ?e))"
  define pe' where "pe' = add_pyfuture (new_pyfuture (length (pe_futs pe)) t l k e) (with_native e' pe)"
  have i: "i < length (en_lanes ?e)" using rr_lane_bound [OF e(3)] by (simp add: i_def)
  have "engine_submit s m k e ?e = Inr (e', Some (length (en_futs ?e)))"
    using e(1,2) by (simp add: engine_submit_def Let_def submit_def i_def l0_def rq_def e'_def rr_advance_def)
  then have eq: "eng_submit t a b l c d pe = (pe', Inr (length (pe_futs pe)))"
    using assms(4) e(4) by (simp add: eng_submit_def pe'_def)
  have "pe_reachable pe'" using pe_reachable.Submit [OF assms(1), of t a b l c d] eq by simp
  moreover have "eng_asked pe' = (eng_asked pe)(length (pe_futs pe) \<mapsto> (s, m, k, e))"
  proof
    fix j
    have new: "asked_of (cl_req (en_cell e' (length (pe_futs pe)))) = (s, m, k, e)"
      using e(4) i push_cells [of rq True l0] asked_of_single
      by (simp add: e'_def en_cell_def add_future_def upd_lane_def rr_advance_def rq_def nth_append)
    have old: "cl_req (en_cell e' j) = cl_req (en_cell ?e j)" if "j < length (pe_futs pe)"
      using reach_fut(1) [OF assms(1) that] that e(4) i
      by (auto simp: e'_def en_cell_def add_future_def upd_lane_def rr_advance_def nth_append fut_ok_def
          nth_list_update push_item_def l0_def)
    show "eng_asked pe' j = ((eng_asked pe)(length (pe_futs pe) \<mapsto> (s, m, k, e))) j"
      using new old by (auto simp: eng_asked_def pe'_def add_pyfuture_def with_native_def nth_append new_pyfuture_def)
  qed
  moreover have "eng_quiet pe'" if "eng_quiet pe"
  proof -
    have "quiet l0" using that i by (simp add: eng_quiet_def l0_def)
    then have "quiet (push_item rq True l0)" by (auto simp: quiet_def push_item_def new_token_def)
    then show ?thesis
      using that set_update_subset_insert [of "en_lanes ?e" i "push_item rq True l0"]
      by (auto simp: eng_quiet_def pe'_def add_pyfuture_def with_native_def e'_def add_future_def upd_lane_def rr_advance_def)
  qed
  moreover have "pe_futs pe' = pe_futs pe @ [new_pyfuture (length (pe_futs pe)) t l k e]"
      "pe_closed pe' = pe_closed pe" "pe_cap_arg pe' = VNone"
    using assms(3) by (simp_all add: pe'_def add_pyfuture_def with_native_def)
  ultimately show ?thesis using that eq by blast
qed

lemma be_engine_runs:
  assumes "be_ok w"
  shows "runs be_engine w (\<lambda>w' pe. w' = w \<and> bw_engine w = Some pe \<and> pe_reachable pe \<and> \<not> pe_closed pe
     \<and> pe_cap_arg pe = VNone \<and> (\<forall>f \<in> set (pe_futs pe). stamp (fu_submit_ns f)) \<and> eng_quiet pe)"
  using assms by (auto simp: be_ok_def be_engine_def runs_def)

lemma be_put_runs:
  assumes "be_ok w" and "pe_reachable pe" "\<not> pe_closed pe" "pe_cap_arg pe = VNone"
    "\<forall>f \<in> set (pe_futs pe). stamp (fu_submit_ns f)" "eng_quiet pe"
  shows "runs (be_put pe) w (\<lambda>w' _. be_ok w' \<and> be_asked w' = eng_asked pe)"
  using assms by (auto simp: be_ok_def be_put_def runs_def be_asked_def)

lemma be_submit_runs:
  assumes "be_ok w" and "be_admits q"
  shows "runs (be_submit q) w (\<lambda>w' f. be_ok w' \<and> be_asked w f = None \<and> be_asked w' = (be_asked w)(f \<mapsto> q))"
proof -
  obtain s m c d where q: "q = (s, m, c, d)" by (cases q) auto
  have args: "submit_args (VFloat s) (VStr m) VNone (VInt c) (VFloat d) = Inr (s, m, c, d)"
    using assms(2) by (simp add: be_admits_def q)
  show ?thesis
    unfolding be_submit_def q prod.case runs_bind
  proof (rule runs_mono [OF be_engine_runs [OF assms(1)]], elim conjE)
    fix w' pe
    assume w': "w' = w" and pe: "bw_engine w = Some pe" "pe_reachable pe" "\<not> pe_closed pe" "pe_cap_arg pe = VNone"
      "\<forall>f \<in> set (pe_futs pe). stamp (fu_submit_ns f)" "eng_quiet pe"
    show "runs be_clock w' (\<lambda>s' t. runs (case eng_submit t (VFloat s) (VStr m) VNone (VInt c) (VFloat d) pe of
        (pe', r) \<Rightarrow> io_bind (be_put pe') (\<lambda>_. io_py r)) s'
        (\<lambda>w' f. be_ok w' \<and> be_asked w f = None \<and> be_asked w' = (be_asked w)(f \<mapsto> (s, m, c, d))))"
    proof (rule runs_mono [OF be_clock_runs], unfold w', rule assms(1), elim conjE)
      fix w2 t
      assume w2: "be_ok w2" "stamp t"
      obtain pe' where p: "eng_submit t (VFloat s) (VStr m) VNone (VInt c) (VFloat d) pe = (pe', Inr (length (pe_futs pe)))"
        "pe_reachable pe'" "pe_closed pe' = pe_closed pe" "pe_cap_arg pe' = VNone" "eng_quiet pe \<longrightarrow> eng_quiet pe'"
        "pe_futs pe' = pe_futs pe @ [new_pyfuture (length (pe_futs pe)) t VNone c d]"
        "eng_asked pe' = (eng_asked pe)(length (pe_futs pe) \<mapsto> (s, m, c, d))"
        by (rule submit_unbounded [OF pe(2-4) args])
      have "runs (be_put pe') w2 (\<lambda>w' _. be_ok w' \<and> be_asked w' = eng_asked pe')"
        using p w2 pe by (intro be_put_runs) (auto simp: new_pyfuture_def)
      then show "runs (case eng_submit t (VFloat s) (VStr m) VNone (VInt c) (VFloat d) pe of
          (pe', r) \<Rightarrow> io_bind (be_put pe') (\<lambda>_. io_py r)) w2
          (\<lambda>w' f. be_ok w' \<and> be_asked w f = None \<and> be_asked w' = (be_asked w)(f \<mapsto> (s, m, c, d)))"
        unfolding p(1) prod.case runs_bind runs_py
        by (rule runs_mono) (use p(7) pe(1) in \<open>simp add: be_asked_def eng_asked_def\<close>)
    qed
  qed
qed

text \<open>A ready future that is not retired resolves to an answer to its request.\<close>

lemma result_ready:
  assumes reach: "pe_reachable pe" and quiet: "eng_quiet pe" and "eng_asked pe k = Some q" and "ef_ready_now (pe_native pe) k"
    and "stamp (fu_submit_ns (pe_futs pe ! k))" and "stamp (case recv of None \<Rightarrow> t | Some n \<Rightarrow> n)"
  obtains row pe' where "fut_result k recv t pe = (pe', Returns row)" "be_answers q row" "pe_reachable pe'"
    "pe_closed pe' = pe_closed pe" "pe_cap_arg pe' = pe_cap_arg pe" "eng_quiet pe'"
    "map fu_submit_ns (pe_futs pe') = map fu_submit_ns (pe_futs pe)"
    "eng_asked pe' = (eng_asked pe)(k := None)" "\<And>j. ef_ready_now (pe_native pe') j = ef_ready_now (pe_native pe) j"
proof -
  have k: "k < length (pe_futs pe)" "\<not> fu_retired (pe_futs pe ! k)"
      "q = asked_of (cl_req (en_cell (pe_native pe) k))"
    using assms(3) by (auto simp: eng_asked_def split: if_splits)
  note f = reach_fut [OF reach k(1)]
  obtain r rs where r: "cl_proms (en_cell (pe_native pe) k) = r # rs"
    using assms(4) by (auto simp: ef_ready_now_def neq_Nil_conv)
  obtain row where row: "build_row (pe_futs pe ! k) (case recv of None \<Rightarrow> t | Some n \<Rightarrow> n) r = Inr row"
    using ns_to_ms_stamps [OF assms(6,5)] by (auto simp: build_row_def Let_def)
  define pe' where "pe' = retire k (with_native (set_valid k False (pe_native pe)) pe)"
  have eq: "fut_result k recv t pe = (pe', Returns row)"
    using f(1) k(2) r row by (simp add: fut_result_def future_result_def fut_ok_def pe'_def)
  note rok = reach_row [OF reach k(1) r]
  have fields: "hr_status row = rs_status r" "hr_chunks_completed row = rs_chunks_completed r"
      "hr_chunks row = fu_chunks (pe_futs pe ! k)" "hr_start_ns row = rs_start_ns r" "hr_end_ns row = rs_end_ns r"
      "hr_error row = (if rs_error r = '''' then VNone else VStr (rs_error r))"
    using row by (auto simp: build_row_def rbind_eq_Inr Let_def)
  have chunks: "n_chunks (cl_req (en_cell (pe_native pe) k)) = fu_chunks (pe_futs pe ! k)"
      "rq_chunks (cl_req (en_cell (pe_native pe) k)) = fu_chunks (pe_futs pe ! k)"
    using f(1) by (auto simp: n_chunks_def fut_ok_def en_cell_def)
  have "quiet (en_lanes (pe_native pe) ! ef_lane (en_futs (pe_native pe) ! k))"
    using quiet f(1) by (simp add: eng_quiet_def fut_ok_def)
  then have tok: "cl_tok (en_cell (pe_native pe) k) = Some t \<Longrightarrow> tk_phase t \<noteq> Cancelled" for t
    using quiet_tok f(1) by (fastforce simp: en_cell_def fut_ok_def)
  have "be_answers q row"
    using rok f(4) fields chunks tok
    by (auto simp: be_answers_def k(3) asked_of_def row_ok_def chunk_ns_def gap_ns_def)
  moreover have "pe_reachable pe'" using pe_reachable.Result [OF reach k(1), of recv t] eq by simp
  moreover have "map fu_submit_ns (pe_futs pe') = map fu_submit_ns (pe_futs pe)"
    by (simp add: pe'_def retire_def with_native_def map_update list_update_same_conv k(1))
  moreover have "eng_asked pe' = (eng_asked pe)(k := None)"
    using k(1) f(2) by (auto simp: eng_asked_def pe'_def retire_def with_native_def set_valid_def en_cell_def
        nth_list_update fun_eq_iff)
  moreover have "ef_ready_now (pe_native pe') j = ef_ready_now (pe_native pe) j" for j
    using f(2) by (cases "j = k") (simp_all add: ef_ready_now_def pe'_def retire_def with_native_def set_valid_def en_cell_def)
  moreover have "pe_closed pe' = pe_closed pe" "pe_cap_arg pe' = pe_cap_arg pe" "eng_quiet pe'"
    using quiet by (simp_all add: pe'_def retire_def with_native_def eng_quiet_def set_valid_def)
  ultimately show ?thesis using that eq by blast
qed

lemma stamps_map:
  "map fu_submit_ns fs = map fu_submit_ns gs \<Longrightarrow> \<forall>f \<in> set gs. stamp (fu_submit_ns f) \<Longrightarrow> \<forall>f \<in> set fs. stamp (fu_submit_ns f)"
  by (metis (no_types, lifting) image_iff image_set)

lemma asked_stamp:
  "eng_asked pe k = Some q \<Longrightarrow> \<forall>f \<in> set (pe_futs pe). stamp (fu_submit_ns f) \<Longrightarrow> stamp (fu_submit_ns (pe_futs pe ! k))"
  by (auto simp: eng_asked_def split: if_splits)

lemma be_result_runs:
  assumes "be_ok w" and "be_asked w k = Some q" and "\<And>n. recv = Some n \<Longrightarrow> stamp n"
  shows "runs (be_result k recv) w (\<lambda>w' row. be_ok w' \<and> be_asked w' = (be_asked w)(k := None) \<and> be_answers q row)"
  unfolding be_result_def runs_bind
proof (rule runs_mono [OF be_until_runs [OF assms(1)]], elim conjE)
  fix w1 pe
  assume w1: "be_ok w1" "be_asked w1 = be_asked w" "bw_engine w1 = Some pe"
    and ready: "ef_ready_now (pe_native pe) k \<or> (\<forall>k < length (pe_futs pe). ef_ready_now (pe_native pe) k)"
  have pe: "pe_reachable pe" "\<not> pe_closed pe" "pe_cap_arg pe = VNone" "\<forall>f \<in> set (pe_futs pe). stamp (fu_submit_ns f)"
      "eng_quiet pe"
    using w1(1,3) by (auto simp: be_ok_def)
  have ask: "eng_asked pe = be_asked w" using w1(2,3) by (simp add: be_asked_def)
  have k: "eng_asked pe k = Some q" using ask assms(2) by simp
  then have rdy: "ef_ready_now (pe_native pe) k" using ready by (auto simp: eng_asked_def split: if_splits)
  show "runs be_clock w1 (\<lambda>s' t. runs (case fut_result k recv t pe of (pe', r) \<Rightarrow> io_bind (be_put pe') (\<lambda>_. io_outcome r)) s'
      (\<lambda>w' row. be_ok w' \<and> be_asked w' = (be_asked w)(k := None) \<and> be_answers q row))"
  proof (rule runs_mono [OF be_clock_runs [OF w1(1)]], elim conjE)
    fix w2 t
    assume w2: "be_ok w2" "stamp t"
    have st: "stamp (case recv of None \<Rightarrow> t | Some n \<Rightarrow> n)" using assms(3) w2(2) by (auto split: option.splits)
    obtain row pe' where r: "fut_result k recv t pe = (pe', Returns row)" "be_answers q row" "pe_reachable pe'"
      "pe_closed pe' = pe_closed pe" "pe_cap_arg pe' = pe_cap_arg pe"
      "map fu_submit_ns (pe_futs pe') = map fu_submit_ns (pe_futs pe)" "eng_asked pe' = (eng_asked pe)(k := None)" "eng_quiet pe'"
      using result_ready [OF pe(1,5) k rdy asked_stamp [OF k pe(4)] st] by metis
    have "runs (be_put pe') w2 (\<lambda>w' _. be_ok w' \<and> be_asked w' = eng_asked pe')"
      by (rule be_put_runs [OF w2(1) r(3)]) (use r pe stamps_map [OF r(6) pe(4)] in simp_all)
    then show "runs (case fut_result k recv t pe of (pe', r) \<Rightarrow> io_bind (be_put pe') (\<lambda>_. io_outcome r)) w2
      (\<lambda>w' row. be_ok w' \<and> be_asked w' = (be_asked w)(k := None) \<and> be_answers q row)"
      unfolding r(1) prod.case runs_bind
      by (rule runs_mono) (use r ask in \<open>simp add: io_outcome_def runs_def\<close>)
  qed
qed

lemma get_list_ready:
  assumes "pe_reachable pe" and "distinct ks" and "set ks \<subseteq> dom (eng_asked pe)"
    and "\<forall>k \<in> set ks. ef_ready_now (pe_native pe) k" and "\<forall>f \<in> set (pe_futs pe). stamp (fu_submit_ns f)" and "stamp t"
    and "eng_quiet pe"
  shows "\<exists>pe' rows. get_list ks None t pe = (pe', Returns rows) \<and> pe_reachable pe' \<and> pe_closed pe' = pe_closed pe
     \<and> pe_cap_arg pe' = pe_cap_arg pe \<and> (\<forall>f \<in> set (pe_futs pe'). stamp (fu_submit_ns f)) \<and> eng_quiet pe'
     \<and> eng_asked pe' = eng_asked pe |` (- set ks)
     \<and> list_all2 (\<lambda>k row. be_answers (the (eng_asked pe k)) row) ks rows"
  using assms
proof (induction ks arbitrary: pe)
  case Nil
  then show ?case by simp
next
  case (Cons k ks)
  obtain q where k: "eng_asked pe k = Some q" using Cons.prems(3) by auto
  have st: "stamp (case None of None \<Rightarrow> t | Some n \<Rightarrow> n)" using Cons.prems(6) by simp
  have rdy: "ef_ready_now (pe_native pe) k" using Cons.prems(4) by simp
  obtain row pe1 where r: "fut_result k None t pe = (pe1, Returns row)" "be_answers q row" "pe_reachable pe1"
      "pe_closed pe1 = pe_closed pe" "pe_cap_arg pe1 = pe_cap_arg pe"
      "map fu_submit_ns (pe_futs pe1) = map fu_submit_ns (pe_futs pe)" "eng_asked pe1 = (eng_asked pe)(k := None)" "eng_quiet pe1"
      "\<And>j. ef_ready_now (pe_native pe1) j = ef_ready_now (pe_native pe) j"
    using result_ready [OF Cons.prems(1,7) k rdy asked_stamp [OF k Cons.prems(5)] st] by metis
  have "\<exists>pe' rows. get_list ks None t pe1 = (pe', Returns rows) \<and> pe_reachable pe' \<and> pe_closed pe' = pe_closed pe1
     \<and> pe_cap_arg pe' = pe_cap_arg pe1 \<and> (\<forall>f \<in> set (pe_futs pe'). stamp (fu_submit_ns f)) \<and> eng_quiet pe'
     \<and> eng_asked pe' = eng_asked pe1 |` (- set ks)
     \<and> list_all2 (\<lambda>k row. be_answers (the (eng_asked pe1 k)) row) ks rows"
    using Cons.prems r stamps_map [OF r(6) Cons.prems(5)] by (intro Cons.IH) auto
  then obtain pe' rows where IH: "get_list ks None t pe1 = (pe', Returns rows)" "pe_reachable pe'"
     "pe_closed pe' = pe_closed pe1" "pe_cap_arg pe' = pe_cap_arg pe1" "\<forall>f \<in> set (pe_futs pe'). stamp (fu_submit_ns f)" "eng_quiet pe'"
     "eng_asked pe' = eng_asked pe1 |` (- set ks)" "list_all2 (\<lambda>k row. be_answers (the (eng_asked pe1 k)) row) ks rows"
    by blast
  have "list_all2 (\<lambda>k row. be_answers (the (eng_asked pe k)) row) ks rows"
    unfolding list_all2_conv_all_nth
  proof (intro conjI allI impI)
    show len: "length ks = length rows" using IH(8) by (rule list_all2_lengthD)
    fix i assume i: "i < length ks"
    then have "ks ! i \<noteq> k" using Cons.prems(2) by auto
    then show "be_answers (the (eng_asked pe (ks ! i))) (rows ! i)"
      using list_all2_nthD [OF IH(8) i] r(7) by simp
  qed
  moreover have "eng_asked pe' = eng_asked pe |` (- set (k # ks))"
    unfolding IH(7) r(7) by (auto simp: restrict_map_def fun_eq_iff)
  ultimately show ?case using IH(1-6) r(1,2,4,5) k by simp
qed

lemma be_get_runs:
  assumes "be_ok w" and "distinct ks" and "set ks \<subseteq> dom (be_asked w)"
  shows "runs (be_get ks) w (\<lambda>w' rows. be_ok w' \<and> be_asked w' = be_asked w |` (- set ks)
     \<and> list_all2 (\<lambda>k row. be_answers (the (be_asked w k)) row) ks rows)"
  unfolding be_get_def runs_bind
proof (rule runs_mono [OF be_until_runs [OF assms(1)]], elim conjE)
  fix w1 pe
  assume w1: "be_ok w1" "be_asked w1 = be_asked w" "bw_engine w1 = Some pe"
    and ready: "list_all (ef_ready_now (pe_native pe)) ks \<or> (\<forall>k < length (pe_futs pe). ef_ready_now (pe_native pe) k)"
  have pe: "pe_reachable pe" "\<not> pe_closed pe" "pe_cap_arg pe = VNone" "\<forall>f \<in> set (pe_futs pe). stamp (fu_submit_ns f)"
      "eng_quiet pe"
    using w1(1,3) by (auto simp: be_ok_def)
  have ask: "eng_asked pe = be_asked w" using w1(2,3) by (simp add: be_asked_def)
  have rdy: "\<forall>k \<in> set ks. ef_ready_now (pe_native pe) k"
    using ready assms(3) asked_dom [OF pe(1)] unfolding ask by (auto simp: list_all_iff)
  show "runs be_clock w1 (\<lambda>s' t. runs (case eng_get ks None t pe of (pe', r) \<Rightarrow> io_bind (be_put pe') (\<lambda>_. io_outcome r)) s'
      (\<lambda>w' rows. be_ok w' \<and> be_asked w' = be_asked w |` (- set ks)
        \<and> list_all2 (\<lambda>k row. be_answers (the (be_asked w k)) row) ks rows))"
  proof (rule runs_mono [OF be_clock_runs [OF w1(1)]], elim conjE)
    fix w2 t
    assume w2: "be_ok w2" "stamp t"
    obtain pe' rows where r: "get_list ks None t pe = (pe', Returns rows)" "pe_reachable pe'" "pe_closed pe' = pe_closed pe"
       "pe_cap_arg pe' = pe_cap_arg pe" "\<forall>f \<in> set (pe_futs pe'). stamp (fu_submit_ns f)" "eng_quiet pe'"
       "eng_asked pe' = eng_asked pe |` (- set ks)" "list_all2 (\<lambda>k row. be_answers (the (eng_asked pe k)) row) ks rows"
      using get_list_ready [OF pe(1) assms(2) _ rdy pe(4) w2(2) pe(5)] assms(3) unfolding ask by blast
    have "runs (be_put pe') w2 (\<lambda>w' _. be_ok w' \<and> be_asked w' = eng_asked pe')"
      by (rule be_put_runs [OF w2(1) r(2)]) (use r pe in simp_all)
    moreover have "eng_get ks None t pe = (pe', Returns rows)" using r(1) by (simp add: eng_get_def)
    ultimately show "runs (case eng_get ks None t pe of (pe', r) \<Rightarrow> io_bind (be_put pe') (\<lambda>_. io_outcome r)) w2
      (\<lambda>w' rows. be_ok w' \<and> be_asked w' = be_asked w |` (- set ks)
        \<and> list_all2 (\<lambda>k row. be_answers (the (be_asked w k)) row) ks rows)"
      using r(7,8) ask by (auto simp: runs_bind runs_outcome elim!: runs_mono)
  qed
qed

lemma be_open_runs: "be_opens w n h impl cap \<Longrightarrow> runs (be_open n h impl cap) w (\<lambda>w' _. be_ok w' \<and> be_asked w' = Map.empty)"
proof -
  assume op: "be_opens w n h impl cap"
  then obtain ow pe where i: "eng_init (bw_start_ok w) (bw_ids w) (bw_now w) (VInt n) (VInt h) VNone (VStr impl) (bw_owner w) = Inr (ow, pe)"
    "cap = None" "\<forall>i. stamp (bw_time w i)" by (auto simp: be_opens_def)
  have "pe_reachable pe" by (rule pe_reachable.Init [OF i(1)])
  moreover have "\<not> pe_closed pe" "pe_cap_arg pe = VNone" "pe_futs pe = []"
    using i(1) by (auto simp: eng_init_def rbind_eq_Inr)
  moreover have "eng_quiet pe"
    using i(1) by (auto simp: eng_init_def rbind_eq_Inr engine_new_def eng_quiet_def quiet_def new_lane_def split: if_splits)
  ultimately show "runs (be_open n h impl cap) w (\<lambda>w' _. be_ok w' \<and> be_asked w' = Map.empty)"
    using i by (auto simp: be_open_def cap_val_def runs_def be_ok_def be_asked_def eng_asked_def fun_eq_iff)
qed

lemma be_shutdown_runs: "be_ok w \<Longrightarrow> runs be_shutdown w (\<lambda>_ _. True)"
  by (auto simp: be_ok_def be_shutdown_def runs_def io_bind_def be_engine_def split: prod.splits)

lemma be_asked_finite: "be_ok w \<Longrightarrow> finite (dom (be_asked w))"
proof -
  assume "be_ok w"
  then obtain pe where pe: "bw_engine w = Some pe" by (auto simp: be_ok_def)
  have "dom (be_asked w) \<subseteq> {..<length (pe_futs pe)}" using pe by (auto simp: be_asked_def eng_asked_def split: if_splits)
  then show ?thesis by (rule finite_subset) simp
qed

text \<open>The engine model keeps the contract, whatever number of futures is outstanding.\<close>

interpretation eng: bench_host model_engine be_ok be_asked be_admits be_answers limit be_opens for limit
proof unfold_locales
  fix s fs n
  assume "be_ok s" "fs \<noteq> []" "distinct fs" "set fs \<subseteq> dom (be_asked s)" "1 \<le> n" "n \<le> int (length fs)" "n < 2 ^ 31"
  from be_wait_runs [OF this] show "runs (ap_wait model_engine fs n) s (\<lambda>s' rp. be_ok s' \<and> be_asked s' = be_asked s
      \<and> fst rp \<noteq> [] \<and> distinct (fst rp) \<and> set (fst rp) \<subseteq> set fs)"
    by (simp add: model_engine_def)
qed (auto simp: model_engine_def be_asked_finite intro: be_submit_runs be_get_runs be_result_runs be_open_runs
  be_shutdown_runs runs_mono [OF be_clock_runs])

end
