(* ===== verification/BenchProps.thy ===== *)
theory BenchProps
  imports BenchEngine
begin

text \<open>
  What the engine drivers write, on the model of \<open>rayx.Engine\<close>: an accepted command line is accepted by
  the engine too, and a run returns with one completed row per request.
\<close>

subsection \<open>Accepted arguments\<close>

definition choice_ok :: "namespace \<Rightarrow> opt \<Rightarrow> bool" where
  "choice_ok ns q = (op_type q = OStr \<and> op_choices q \<noteq> [] \<longrightarrow>
     (\<exists>s \<in> set (op_choices q). ns (op_name q) = Some (VStr s)))"

lemma parse_given_choices:
  assumes "distinct (map op_name qs)" and "\<forall>q \<in> set qs. choice_ok ns q" and "parse_given qs argv ns = Some ns'"
  shows "\<forall>q \<in> set qs. choice_ok ns' q"
  using assms(2,3)
proof (induction argv arbitrary: ns)
  case Nil
  then show ?case by simp
next
  case (Cons kt argv)
  obtain k t where kt: "kt = (k, t)" by (cases kt)
  obtain q v where q: "find (\<lambda>q. op_name q = k) qs = Some q" "opt_value q t = Some v"
      "parse_given qs argv (ns(k \<mapsto> v)) = Some ns'"
    using Cons.prems(2) unfolding kt by (auto split: option.splits)
  have mem: "q \<in> set qs" "op_name q = k" using q(1) by (auto simp: find_Some_iff)
  have "choice_ok (ns(k \<mapsto> v)) p" if "p \<in> set qs" for p
  proof (cases "p = q")
    case True
    then show ?thesis using q(2) mem(2) by (auto simp: choice_ok_def opt_value_def split: if_splits)
  next
    case False
    then have "op_name p \<noteq> k" using assms(1) that mem by (auto simp: distinct_map inj_on_def)
    then show ?thesis using Cons.prems(1) that by (simp add: choice_ok_def)
  qed
  then show ?case using Cons.IH q(3) by blast
qed

lemma parse_known_choices:
  assumes "parse_known qs argv = Some ns" and "distinct (map op_name qs)"
    and "\<forall>q \<in> set qs. op_type q = OStr \<and> op_choices q \<noteq> [] \<longrightarrow> (\<exists>s \<in> set (op_choices q). op_default q = VStr s)"
    and "q \<in> set qs" and "op_type q = OStr" and "op_choices q \<noteq> []"
  shows "ns_str ns (op_name q) \<in> set (op_choices q)"
proof -
  let ?d = "map_of (map (\<lambda>q. (op_name q, op_default q)) qs)"
  have "?d (op_name p) = Some (op_default p)" if "p \<in> set qs" for p
    using that assms(2) by (intro map_of_is_SomeI) (auto simp: comp_def)
  then have "\<forall>p \<in> set qs. choice_ok ?d p" using assms(3) by (auto simp: choice_ok_def)
  moreover have "parse_given qs argv ?d = Some ns" using assms(1) by (auto simp: parse_known_def split: if_splits)
  ultimately have "choice_ok ns q" using parse_given_choices [OF assms(2)] assms(4) by blast
  then show ?thesis using assms(5,6) by (auto simp: choice_ok_def ns_str_def)
qed

lemmas opt_defs = str_opt_def none_opt_def int_opt_def float_opt_def

lemma rayx_option_names: "distinct (map op_name rayx_options)"
  by (simp add: rayx_options_def opt_defs)

lemma rayx_parsed:
  assumes "rayx_parse_args argv = Some args"
  shows "da_work_mode args = ''sleep''" "da_retire_mode args \<in> {''one_by_one'', ''submit_all_get_all''}"
    "da_lane_impl args \<in> {''std'', ''hpx''}" "\<not> rayx_refused args"
proof -
  obtain ns where ns: "parse_known rayx_options argv = Some ns" "args = args_of ns" "\<not> rayx_refused args"
    using assms by (auto simp: rayx_parse_args_def checked_def bind_eq_Some_conv split: if_splits)
  note ch = parse_known_choices [OF ns(1) rayx_option_names]
  have def: "\<forall>q \<in> set rayx_options. op_type q = OStr \<and> op_choices q \<noteq> [] \<longrightarrow>
      (\<exists>s \<in> set (op_choices q). op_default q = VStr s)"
    by (simp add: rayx_options_def opt_defs)
  have mem: "str_opt ''work-mode'' [''sleep''] ''sleep'' \<in> set rayx_options"
      "str_opt ''retire-mode'' [''one_by_one'', ''submit_all_get_all''] ''one_by_one'' \<in> set rayx_options"
      "str_opt ''lane-impl'' [''std'', ''hpx''] ''std'' \<in> set rayx_options"
    by (simp_all add: rayx_options_def)
  show "da_work_mode args = ''sleep''" using ch [OF def mem(1)] by (simp add: ns(2) args_of_def str_opt_def)
  show "da_retire_mode args \<in> {''one_by_one'', ''submit_all_get_all''}"
    using ch [OF def mem(2)] by (simp add: ns(2) args_of_def str_opt_def)
  show "da_lane_impl args \<in> {''std'', ''hpx''}"
    using ch [OF def mem(3)] by (simp add: ns(2) args_of_def str_opt_def)
  show "\<not> rayx_refused args" by (rule ns(3))
qed

text \<open>The engine checks the same things, and that the delay is finite and the chunk count an \<open>int\<close> of C++.\<close>

lemma engine_admits:
  assumes "da_work_mode args \<in> {''sleep'', ''spin''}" and "1 \<le> da_chunks args" and "da_chunks args < 2 ^ 31"
    and "fisfinite (da_chunk_delay_ms args)" and "\<not> flt (da_chunk_delay_ms args) (Fin 0)"
  shows "be_admits (engine_request args i)"
  using assms
  by (auto simp: be_admits_def engine_request_def submit_args_def validate_label_def work_modes_def
      validate_chunks_def validate_chunk_delay_ms_def real_number_def cross_int32_def)

subsection \<open>The standalone engine driver\<close>

text \<open>
  C26. \<open>run_rayx_baseline.run\<close>: for an accepted command line without an admission bound, with a finite
  chunk delay, a positive window and at most a million requests, over any schedule of the lanes and any
  clock, the run returns, in both retire modes. It writes exactly one row per request, row \<open>i\<close> being
  request \<open>i\<close> with its own service time from the deterministic sequence, completed, and with at least the
  requested active and parked time between its start and end stamps.
\<close>

theorem rayx_run_rows:
  assumes args: "rayx_parse_args argv = Some args"
    and engine: "fisfinite (da_chunk_delay_ms args)" "da_chunks args < 2 ^ 31"
      "be_opens w (da_num_lanes args) (da_hpx_threads args) (da_lane_impl args) (da_cap args)"
    and window: "da_retire_mode args = ''one_by_one'' \<Longrightarrow> 0 < da_concurrency args"
    and small: "da_requests args \<le> 10 ^ 6"
    and name: "rayx_workload args = Inr workload"
  shows "\<exists>w' rows. rayx_run model_engine args run_id w = (w', Returns rows)
     \<and> length rows = nat (da_requests args)
     \<and> (\<forall>i < length rows. dr_request_id (rows ! i) = req_id i
          \<and> dr_service_ms_requested (rows ! i) = service_for (int i) args
          \<and> dr_status (rows ! i) = ''completed'' \<and> dr_chunks (rows ! i) = da_chunks args
          \<and> da_chunks args * wait_ns (fdiv_pos (service_for (int i) args) (of_int (da_chunks args)))
              + (da_chunks args - 1) * wait_ns (da_chunk_delay_ms args)
            \<le> dr_end_ns (rows ! i) - dr_start_ns (rows ! i))"
proof -
  note p = rayx_parsed [OF args]
  have adm: "be_admits (engine_request args i)" for i
    using p(1,4) engine by (intro engine_admits) (auto simp: rayx_refused_def)
  define limit where "limit = nat (da_concurrency args) + nat (da_requests args) + nat (da_warmup_requests args)"
  have fit: "fits limit args (nat (da_requests args))" "fits limit args (nat (da_warmup_requests args))"
    using window by (auto simp: fits_def limit_def)
  have "runs (rayx_run model_engine args run_id) w (\<lambda>_ rows.
     list_all2 (engine_row be_answers args (rayx_make_record args run_id workload)) [0..<nat (da_requests args)] rows)"
    using adm fit p(2) small name engine(3) by (rule eng.rayx_run_runs)
  then obtain w' rows where r: "rayx_run model_engine args run_id w = (w', Returns rows)"
      "list_all2 (engine_row be_answers args (rayx_make_record args run_id workload)) [0..<nat (da_requests args)] rows"
    by (auto simp: runs_iff)
  have row: "engine_row be_answers args (rayx_make_record args run_id workload) i (rows ! i)" if "i < length rows" for i
    using list_all2_nthD2 [OF r(2) that] list_all2_lengthD [OF r(2)] that by simp
  have "length rows = nat (da_requests args)" using list_all2_lengthD [OF r(2)] by simp
  then show ?thesis
    using r(1) row by (fastforce simp: engine_row_def rayx_make_record_def be_answers_def engine_request_def svc_def)
qed

definition demo_world :: bench_world where
  "demo_world = \<lparr>bw_engine = None, bw_owner = new_owner, bw_start_ok = True, bw_ids = [''a''], bw_now = 0,
     bw_time = (\<lambda>n. int (min n 1000)), bw_reads = 0, bw_sched = (\<lambda>_. [0, 0]), bw_calls = 0\<rparr>"

definition demo_argv :: "(string \<times> string) list" where
  "demo_argv = [(''requests'', ''3''), (''concurrency'', ''2''), (''out'', ''x'')]"

lemma demo_opens: "be_opens demo_world 1 1 ''std'' None"
proof -
  have "eng_init True [''a''] 0 (VInt 1) (VInt 1) VNone (VStr ''std'') new_owner
      = Inr (new_owner\<lparr>ow_started := True, ow_threads := 1, ow_refcount := 1, ow_engine := True\<rparr>,
         \<lparr>pe_cap_arg = VNone, pe_lane_impl = ''std'', pe_closed = False,
          pe_native = \<lparr>en_running = True, en_lanes = [new_lane ''a'' False 0], en_rr = 0, en_cap = - 1,
            en_bulk = True, en_futs = []\<rparr>, pe_futs = []\<rparr>)"
    by (simp add: eng_init_def validate_max_queue_depth_per_lane_def cross_int32_def engine_new_def
        start_hpx_locked_def new_owner_def)
  then show ?thesis by (auto simp: be_opens_def demo_world_def stamp_def)
qed

lemma demo_numbers:
  "int_of_str ''3'' = Inr 3" "int_of_str ''2'' = Inr 2"
  by (simp_all add: int_of_str_def strip_space_def is_space_def read_sign_def read_digits_def digit_of_def digits_value_def)

lemma demo_parse: "\<exists>args. rayx_parse_args demo_argv = Some args \<and> da_requests args = 3 \<and> da_concurrency args = 2
    \<and> da_chunks args = 1 \<and> da_chunk_delay_ms args = Fin 0 \<and> da_num_lanes args = 1 \<and> da_hpx_threads args = 1
    \<and> da_lane_impl args = ''std'' \<and> da_cap args = None \<and> rayx_workload args = Inr ''noop_c2''"
proof -
  have "digit_char 2 = CHR ''2''" by code_simp
  then have ws: "int_str 2 = ''2''" by (subst int_str_def) (simp add: nat_str.simps)
  show ?thesis
    by (simp add: rayx_parse_args_def parse_known_def demo_argv_def rayx_options_def opt_defs opt_value_def demo_numbers
        checked_def args_of_def ns_int_def ns_float_def ns_str_def ns_str_option_def ns_int_option_def rayx_refused_def
        bimodal_refused_def rayx_workload_def workload_with_def window_suffix_def truthy_def default_workload_def ws)
qed

lemma rayx_run_rows_witness:
  "\<exists>args w' rows. rayx_parse_args demo_argv = Some args \<and> rayx_run model_engine args ''r'' demo_world = (w', Returns rows)
     \<and> length rows = 3 \<and> dr_request_id (rows ! 2) = req_id 2"
proof -
  obtain args where a: "rayx_parse_args demo_argv = Some args" "da_requests args = 3" "da_concurrency args = 2"
      "da_chunks args = 1" "da_chunk_delay_ms args = Fin 0" "da_num_lanes args = 1" "da_hpx_threads args = 1"
      "da_lane_impl args = ''std''" "da_cap args = None" "rayx_workload args = Inr ''noop_c2''"
    using demo_parse by blast
  have op: "be_opens demo_world (da_num_lanes args) (da_hpx_threads args) (da_lane_impl args) (da_cap args)"
    using a demo_opens by simp
  have "\<exists>w' rows. rayx_run model_engine args ''r'' demo_world = (w', Returns rows)
     \<and> length rows = nat (da_requests args) \<and> (\<forall>i < length rows. dr_request_id (rows ! i) = req_id i
          \<and> dr_service_ms_requested (rows ! i) = service_for (int i) args
          \<and> dr_status (rows ! i) = ''completed'' \<and> dr_chunks (rows ! i) = da_chunks args
          \<and> da_chunks args * wait_ns (fdiv_pos (service_for (int i) args) (of_int (da_chunks args)))
              + (da_chunks args - 1) * wait_ns (da_chunk_delay_ms args)
            \<le> dr_end_ns (rows ! i) - dr_start_ns (rows ! i))"
    by (rule rayx_run_rows [OF a(1) _ _ op _ _ a(10)]) (use a in simp_all)
  then show ?thesis using a(1,2) by fastforce
qed

end
