(* ===== verification/BenchHpx.thy ===== *)
theory BenchHpx
  imports BenchWindow
begin

text \<open>
  The driver of the engine's Python front end, \<open>bench/run_hpx_python_baseline.py\<close>: a FIFO window, several
  client threads sharing one engine, an as-completed window with shared receive stamps, and one bulk
  batch. \<open>client.submit\<close> and \<open>client.remote\<close> (and the two batch calls) are the same operation of the
  interface: the actor forwards to its engine.
\<close>

definition hpx_make_record :: "dargs \<Rightarrow> string \<Rightarrow> string \<Rightarrow> string \<Rightarrow> string \<Rightarrow> hrow \<Rightarrow> pyfloat \<Rightarrow> drow" where
  "hpx_make_record args run_id workload retire_mode rid row sv =
     \<lparr>dr_schema_version = ''1'', dr_run_id = run_id, dr_backend = ''synthetic'', dr_boundary = ''hpx-python-frontend'',
      dr_workload = workload, dr_request_id = rid, dr_actor_id = hr_actor_id row, dr_worker_id = None,
      dr_status = hr_status row, dr_submit_ns = hr_submit_ns row, dr_start_ns = hr_start_ns row,
      dr_end_ns = hr_end_ns row, dr_total_ms = hr_total_ms row, dr_queue_wait_ms = hr_queue_wait_ms row,
      dr_service_ms_observed = hr_service_ms_observed row, dr_service_ms_requested = sv,
      dr_chunks = da_chunks args, dr_chunk_delay_ms = da_chunk_delay_ms args, dr_work_mode = da_work_mode args,
      dr_retire_mode = retire_mode, dr_error = hr_error row\<rparr>"

subsection \<open>First in, first out\<close>

type_synonym 'f deque = "('f \<times> string \<times> pyfloat) list"

definition hpx_submit :: "('s, 'f, 'z) engine_api_scheme \<Rightarrow> dargs \<Rightarrow> nat \<Rightarrow> 'f deque \<Rightarrow> ('s, 'f deque) io" where
  "hpx_submit A args idx infl =
     io_bind (ap_submit A (engine_request args idx)) (\<lambda>fut. io_ret (infl @ [(fut, req_id idx, svc args idx)]))"

type_synonym 'f hpx_loop = "nat list \<times> 'f deque \<times> drow list"

text \<open>\<open>mk\<close> builds the record of a request id, a row and a service time.\<close>

definition hpx_turn ::
    "('s, 'f, 'z) engine_api_scheme \<Rightarrow> dargs \<Rightarrow> (string \<Rightarrow> hrow \<Rightarrow> pyfloat \<Rightarrow> drow) \<Rightarrow> bool \<Rightarrow> 'f hpx_loop \<Rightarrow> ('s, 'f hpx_loop) io" where
  "hpx_turn A args mk keep st = (case st of (rest, infl, records) \<Rightarrow> (case infl of
       [] \<Rightarrow> io_raise IndexError
     | (fut, rid, sv) # infl' \<Rightarrow>
         io_bind (ap_result A fut None) (\<lambda>row.
         io_bind (refill 1 (hpx_submit A args) rest infl') (\<lambda>(rest', infl'').
           io_ret (rest', infl'', if keep then records @ [mk rid row sv] else records)))))"

definition hpx_run_one_by_one ::
    "('s, 'f, 'z) engine_api_scheme \<Rightarrow> dargs \<Rightarrow> nat list \<Rightarrow> string \<Rightarrow> string \<Rightarrow> string \<Rightarrow> bool \<Rightarrow> int \<Rightarrow> ('s, drow list) io" where
  "hpx_run_one_by_one A args indices run_id workload retire_mode keep window =
     io_bind (fill (\<lambda>d. d) window (hpx_submit A args) indices []) (\<lambda>(rest, infl).
     io_bind (io_while (length indices) (\<lambda>(rest, infl, records). infl \<noteq> [])
       (hpx_turn A args (hpx_make_record args run_id workload retire_mode) keep) (rest, infl, [])) (\<lambda>(rest, infl, records).
     io_ret records))"

subsection \<open>Client threads\<close>

text \<open>
  A thread is the same loop cut at its calls into the engine, each of which runs under the interpreter
  lock: filling its window, retiring the oldest request, submitting in its place.
\<close>

datatype client_phase = Filling | Retiring | Refilling

datatype 'f thread =
    Running client_phase "nat list" "'f deque" "drow list"
  | Returned "drow list"
  | Failed exc

definition thread_call ::
    "('s, 'f, 'z) engine_api_scheme \<Rightarrow> dargs \<Rightarrow> (string \<Rightarrow> hrow \<Rightarrow> pyfloat \<Rightarrow> drow) \<Rightarrow> bool \<Rightarrow> int
      \<Rightarrow> client_phase \<Rightarrow> nat list \<Rightarrow> 'f deque \<Rightarrow> drow list \<Rightarrow> ('s, 'f thread) io" where
  "thread_call A args mk keep window ph rest infl records = (case ph of
       Filling \<Rightarrow> (case rest of
           [] \<Rightarrow> io_ret (Running Retiring [] infl records)
         | i # is \<Rightarrow> if int (length infl) < window
             then io_bind (hpx_submit A args i infl) (\<lambda>infl'. io_ret (Running Filling is infl' records))
             else io_ret (Running Retiring rest infl records))
     | Retiring \<Rightarrow> (case infl of
           [] \<Rightarrow> io_ret (Returned records)
         | (fut, rid, sv) # infl' \<Rightarrow> io_bind (ap_result A fut None) (\<lambda>row.
             io_ret (Running Refilling rest infl' (if keep then records @ [mk rid row sv] else records))))
     | Refilling \<Rightarrow> (case rest of
           [] \<Rightarrow> io_ret (Running Retiring [] infl records)
         | i # is \<Rightarrow> io_bind (hpx_submit A args i infl) (\<lambda>infl'. io_ret (Running Retiring is infl' records))))"

text \<open>\<open>worker(k)\<close>: its exception is kept for the main thread. A call that blocks is tried again later.\<close>

definition thread_step ::
    "('s, 'f, 'z) engine_api_scheme \<Rightarrow> dargs \<Rightarrow> (string \<Rightarrow> hrow \<Rightarrow> pyfloat \<Rightarrow> drow) \<Rightarrow> bool \<Rightarrow> int list
      \<Rightarrow> nat \<Rightarrow> 's \<times> 'f thread list \<Rightarrow> 's \<times> 'f thread list" where
  "thread_step A args mk keep windows k sts = (case sts of (s, ts) \<Rightarrow>
     if length ts \<le> k then (s, ts) else (case ts ! k of
       Running ph rest infl records \<Rightarrow>
         (case thread_call A args mk keep (windows ! k) ph rest infl records s of
            (s', Returns th) \<Rightarrow> (s', ts[k := th])
          | (s', Raises x) \<Rightarrow> (s', ts[k := Failed x])
          | (s', Blocked) \<Rightarrow> (s', ts))
     | _ \<Rightarrow> (s, ts)))"

definition client_count :: "int \<Rightarrow> nat \<Rightarrow> nat" where
  "client_count client_threads n = nat (min client_threads (int (max 1 n)))"

definition client_windows :: "int \<Rightarrow> nat \<Rightarrow> int list" where
  "client_windows concurrency t =
     map (\<lambda>k. max 1 (concurrency div int t + (if int k < concurrency mod int t then 1 else 0))) [0..<t]"

definition client_blocks :: "nat list \<Rightarrow> nat \<Rightarrow> nat list list" where
  "client_blocks indices t =
     map (\<lambda>k. take (length indices * (k + 1) div t - length indices * k div t) (drop (length indices * k div t) indices)) [0..<t]"

fun thread_errors :: "'f thread list \<Rightarrow> exc list" where
  "thread_errors [] = []"
| "thread_errors (Failed x # ts) = x # thread_errors ts"
| "thread_errors (_ # ts) = thread_errors ts"

fun thread_rows :: "'f thread list \<Rightarrow> drow list" where
  "thread_rows [] = []"
| "thread_rows (Returned r # ts) = r @ thread_rows ts"
| "thread_rows (_ # ts) = thread_rows ts"

fun joined :: "'f thread \<Rightarrow> bool" where
  "joined (Running _ _ _ _) = False"
| "joined _ = True"

text \<open>\<open>sched\<close> is the order in which the threads get to run; the joins block while a thread has not ended.\<close>

definition hpx_run_threaded ::
    "nat list \<Rightarrow> ('s, 'f, 'z) engine_api_scheme \<Rightarrow> dargs \<Rightarrow> nat list \<Rightarrow> string \<Rightarrow> string \<Rightarrow> string \<Rightarrow> bool \<Rightarrow> int
      \<Rightarrow> ('s, drow list) io" where
  "hpx_run_threaded sched A args indices run_id workload retire_mode keep client_threads s =
     (let t = client_count client_threads (length indices);
          windows = client_windows (da_concurrency args) t;
          start = map (\<lambda>b. Running Filling b [] []) (client_blocks indices t);
          mk = hpx_make_record args run_id workload retire_mode
      in case fold (thread_step A args mk keep windows) sched (s, start) of (s', ts) \<Rightarrow>
        if \<not> list_all joined ts then (s', Blocked)
        else (case thread_errors ts of x # _ \<Rightarrow> (s', Raises x) | [] \<Rightarrow> (s', Returns (thread_rows ts))))"

subsection \<open>One bulk batch\<close>

fun hpx_batch_rows ::
    "('s, 'f, 'z) engine_api_scheme \<Rightarrow> dargs \<Rightarrow> (string \<Rightarrow> hrow \<Rightarrow> pyfloat \<Rightarrow> drow) \<Rightarrow> bool \<Rightarrow> pyfloat list option
      \<Rightarrow> nat \<Rightarrow> 'f list \<Rightarrow> ('s, drow list) io" where
  "hpx_batch_rows A args mk keep svc_list idx [] = io_ret []"
| "hpx_batch_rows A args mk keep svc_list idx (fut # futs) =
     io_bind (ap_result A fut None) (\<lambda>row.
     if \<not> keep then hpx_batch_rows A args mk keep svc_list (Suc idx) futs
     else io_bind (case svc_list of None \<Rightarrow> io_ret (sa_service_ms args)
           | Some ss \<Rightarrow> if idx < length ss then io_ret (ss ! idx) else io_raise IndexError) (\<lambda>sv.
         io_bind (hpx_batch_rows A args mk keep svc_list (Suc idx) futs) (\<lambda>rows. io_ret (mk (req_id idx) row sv # rows))))"

definition hpx_run_batch ::
    "('s, 'f, 'z) engine_api_scheme \<Rightarrow> dargs \<Rightarrow> int \<Rightarrow> string \<Rightarrow> string \<Rightarrow> string \<Rightarrow> bool \<Rightarrow> ('s, drow list) io" where
  "hpx_run_batch A args n run_id workload retire_mode keep =
     (let svc_list = (if sa_pattern args = ''bimodal'' then Some (map (svc args) [0..<nat n]) else None)
      in io_bind (ap_batch A (case svc_list of Some ss \<Rightarrow> Varied ss | None \<Rightarrow> Scalar (sa_service_ms args) n)
             (da_work_mode args)) (\<lambda>futures.
         hpx_batch_rows A args (hpx_make_record args run_id workload retire_mode) keep svc_list 0 futures))"

subsection \<open>As completed, with one receive stamp per sweep\<close>

text \<open>\<open>for req_id, fut, svc in retire\<close>.\<close>

fun hpx_retire_all ::
    "('s, 'f, 'z) engine_api_scheme \<Rightarrow> (string \<Rightarrow> hrow \<Rightarrow> pyfloat \<Rightarrow> drow) \<Rightarrow> bool \<Rightarrow> int \<Rightarrow> 'f deque \<Rightarrow> drow list
      \<Rightarrow> ('s, drow list) io" where
  "hpx_retire_all A mk keep recv [] records = io_ret records"
| "hpx_retire_all A mk keep recv ((fut, rid, sv) # es) records =
     io_bind (ap_result A fut (Some recv)) (\<lambda>row.
       hpx_retire_all A mk keep recv es (if keep then records @ [mk rid row sv] else records))"

text \<open>\<open>[by_id[id(f)] for f in ready[:k]]\<close>; the last entry of a future wins in the dict.\<close>

fun look_up_all :: "('f \<times> 'e) list \<Rightarrow> 'f list \<Rightarrow> ('f \<times> 'e) list py" where
  "look_up_all infl [] = Inr []"
| "look_up_all infl (f # fs) = (case map_of (rev infl) f of None \<Rightarrow> Inl KeyError
     | Some e \<Rightarrow> rbind (look_up_all infl fs) (\<lambda>es. Inr ((f, e) # es)))"

definition hpx_sweep ::
    "('s, 'f, 'z) engine_api_scheme \<Rightarrow> dargs \<Rightarrow> (string \<Rightarrow> hrow \<Rightarrow> pyfloat \<Rightarrow> drow) \<Rightarrow> bool \<Rightarrow> 'f hpx_loop \<Rightarrow> ('s, 'f hpx_loop) io" where
  "hpx_sweep A args mk keep st = (case st of (rest, infl, records) \<Rightarrow>
     io_bind (ap_wait A (map fst infl) 1) (\<lambda>(ready, not_ready).
     io_bind (ap_clock A) (\<lambda>recv.
     io_bind (io_py (look_up_all infl (take (nat (da_wait_batch args)) ready))) (\<lambda>retire.
     io_bind (hpx_retire_all A mk keep recv retire records) (\<lambda>records'.
     io_bind (refill (length retire) (hpx_submit A args) rest (filter (\<lambda>e. fst e \<notin> fst ` set retire) infl))
       (\<lambda>(rest', infl'). io_ret (rest', infl', records')))))))"

definition hpx_run_batch_wait ::
    "('s, 'f, 'z) engine_api_scheme \<Rightarrow> dargs \<Rightarrow> nat list \<Rightarrow> string \<Rightarrow> string \<Rightarrow> string \<Rightarrow> bool \<Rightarrow> ('s, drow list) io" where
  "hpx_run_batch_wait A args indices run_id workload retire_mode keep =
     io_bind (fill (\<lambda>d. d) (da_concurrency args) (hpx_submit A args) indices []) (\<lambda>(rest, infl).
     io_bind (io_while (length indices) (\<lambda>(rest, infl, records). infl \<noteq> [])
       (hpx_sweep A args (hpx_make_record args run_id workload retire_mode) keep) (rest, infl, [])) (\<lambda>(rest, infl, records).
     io_ret records))"

subsection \<open>The run\<close>

text \<open>One schedule per dispatch of client threads: warmup and measurement.\<close>

definition hpx_dispatch ::
    "nat list \<Rightarrow> nat list \<Rightarrow> ('s, 'f, 'z) engine_api_scheme \<Rightarrow> dargs \<Rightarrow> string \<Rightarrow> string \<Rightarrow> int \<Rightarrow> bool \<Rightarrow> ('s, drow list) io" where
  "hpx_dispatch warm_sched sched A args run_id workload n keep =
     (let indices = [0..<nat n]; retire_mode = da_retire_mode args in
      if batch_api args then hpx_run_batch A args n run_id workload ''batch'' keep
      else if retire_mode = ''batch_wait'' then hpx_run_batch_wait A args indices run_id workload retire_mode keep
      else if da_client_threads args = 1
        then hpx_run_one_by_one A args indices run_id workload retire_mode keep (da_concurrency args)
      else hpx_run_threaded (if keep then sched else warm_sched) A args indices run_id workload retire_mode keep
             (da_client_threads args))"

text \<open>\<open>Engine\<close> and \<open>SyntheticActor\<close> are built with the default lane implementation and no admission bound.\<close>

definition hpx_run :: "nat list \<Rightarrow> nat list \<Rightarrow> ('s, 'f, 'z) engine_api_scheme \<Rightarrow> dargs \<Rightarrow> string \<Rightarrow> ('s, drow list) io" where
  "hpx_run warm_sched sched A args run_id =
     io_bind (io_py (hpx_workload args)) (\<lambda>workload.
     io_bind (ap_open A (da_num_lanes args) (da_hpx_threads args) ''std'' None) (\<lambda>_.
     io_bind (io_finally (measured args (ap_clock A) (hpx_dispatch warm_sched sched A args run_id workload))
       (ap_shutdown A)) (\<lambda>records.
     io_ret (sort_rows records))))"

end
