(* ===== verification/BenchHpxInv.thy ===== *)
theory BenchHpxInv
  imports BenchHpx BenchRayx
begin

text \<open>
  The loops of the Python front-end driver against the contract. The FIFO window and the client threads
  keep the order of the indices; the as-completed window keeps them as a multiset.
\<close>

abbreviation "hpx_row answers args run_id workload mode \<equiv>
  engine_row answers args (hpx_make_record args run_id workload mode)"

lemma hpx_row_id: "hpx_row answers args run_id workload mode i r \<Longrightarrow> dr_request_id r = req_id i"
  by (auto simp: engine_row_def hpx_make_record_def)

definition fifo_inv ::
    "('f \<rightharpoonup> engine_req) \<Rightarrow> dargs \<Rightarrow> (nat \<Rightarrow> drow \<Rightarrow> bool) \<Rightarrow> bool \<Rightarrow> int \<Rightarrow> nat list \<Rightarrow> 'f hpx_loop \<Rightarrow> bool" where
  "fifo_inv ask args recd keep window indices st = (case st of (rest, infl, records) \<Rightarrow>
     (\<exists>ds is. flights ask (engine_reqs args) (row_tag args) is infl \<and> retired recd keep ds records \<and> ds @ is @ rest = indices)
     \<and> int (length infl) \<le> window \<and> (rest \<noteq> [] \<longrightarrow> window \<le> int (length infl)))"

text \<open>The oldest request leaves.\<close>

lemma flights_head:
  assumes "flights ask (engine_reqs args) (row_tag args) is ((f, e) # ys)"
  obtains i vs where "is = i # vs" "e = (req_id i, svc args i)" "ask f = Some (engine_request args i)"
    "flights (ask(f := None)) (engine_reqs args) (row_tag args) vs ys"
proof -
  have "flights ask (engine_reqs args) (row_tag args) is ([] @ (f, e) # ys)" using assms by simp
  then obtain us i vs q where r: "is = us @ i # vs" "e = (req_id i, svc args i)" "ask f = Some q"
      "q = engine_request args i" "length us = length ([] :: ('a \<times> string \<times> pyfloat) list)"
      "flights (ask(f := None)) (engine_reqs args) (row_tag args) (us @ vs) ([] @ ys)"
    by (rule flights_remove)
  then have "us = []" by simp
  then show ?thesis using that r by simp
qed

context bench_engine
begin

lemma hpx_submits:
  assumes "\<And>i. i \<in> I \<Longrightarrow> admits (engine_request args i)"
  shows "submits ok asked limit I (engine_reqs args) (row_tag args) (\<lambda>d. d) (hpx_submit A args)"
  unfolding submits_def hpx_submit_def runs_bind runs_ret
proof (intro allI impI)
  fix s i and d :: "('f \<times> string \<times> pyfloat) list"
  assume *: "ok s" "i \<in> I" "set (map fst d) \<subseteq> dom (asked s)" "card (dom (asked s)) < limit"
  show "runs (ap_submit A (engine_request args i)) s (\<lambda>s' x. ok s' \<and> (\<exists>f e q. asked s f = None
      \<and> asked s' = (asked s)(f \<mapsto> q) \<and> d @ [(x, req_id i, svc args i)] = d @ [(f, e)]
      \<and> e = (req_id i, svc args i) \<and> q = engine_request args i))"
  proof (rule runs_mono [OF submit_law])
    fix s' x
    assume "ok s' \<and> asked s x = None \<and> asked s' = (asked s)(x \<mapsto> engine_request args i)"
    then show "ok s' \<and> (\<exists>f e q. asked s f = None \<and> asked s' = (asked s)(f \<mapsto> q)
        \<and> d @ [(x, req_id i, svc args i)] = d @ [(f, e)] \<and> e = (req_id i, svc args i) \<and> q = engine_request args i)"
      by blast
  qed (use * assms in auto)
qed

lemma hpx_turn_runs:
  assumes sub: "submits ok asked limit (set indices) (engine_reqs args) (row_tag args) (\<lambda>d. d) (hpx_submit A args)"
    and "window \<le> int limit" and "ok s" and inv: "fifo_inv (asked s) args recd keep window indices (rest, infl, records)"
    and "infl \<noteq> []" and mk: "recd = engine_row answers args mk"
  shows "runs (hpx_turn A args mk keep (rest, infl, records)) s (\<lambda>s' (rest', infl', records').
     ok s' \<and> fifo_inv (asked s') args recd keep window indices (rest', infl', records')
     \<and> length rest' + length infl' < length rest + length infl)"
proof -
  obtain f e infl1 where infl: "infl = (f, e) # infl1" using assms(5) by (cases infl) auto
  obtain ds "is" where b: "flights (asked s) (engine_reqs args) (row_tag args) is infl" "retired recd keep ds records"
      "ds @ is @ rest = indices" using inv by (auto simp: fifo_inv_def)
  obtain i vs where h: "is = i # vs" "e = (req_id i, svc args i)" "asked s f = Some (engine_request args i)"
      "flights ((asked s)(f := None)) (engine_reqs args) (row_tag args) vs infl1"
    using b(1) unfolding infl by (rule flights_head)
  have len: "length infl1 + 1 \<le> limit" using inv assms(2) unfolding fifo_inv_def infl by auto
  have rest: "set rest \<subseteq> set indices" using b(3) by auto
  have step: "runs (refill 1 (hpx_submit A args) rest infl1) s' (\<lambda>s'' x. runs (case x of (rest', infl'') \<Rightarrow>
       io_ret (rest', infl'', if keep then records @ [mk (req_id i) row (svc args i)] else records)) s''
       (\<lambda>s' (rest', infl', records'). ok s' \<and> fifo_inv (asked s') args recd keep window indices (rest', infl', records')
     \<and> length rest' + length infl' < length rest + length infl))"
    if s': "ok s'" "asked s' = (asked s)(f := None)" "answers (engine_request args i) row" for s' row
  proof (rule runs_mono [OF refill_runs [OF sub s'(1) rest]])
    show "flights (asked s') (engine_reqs args) (row_tag args) vs infl1" using h(4) s'(2) by simp
    show "length infl1 + 1 \<le> limit" by (rule len)
    fix s'' x
    assume a: "case x of (rest', d') \<Rightarrow> ok s'' \<and>
       (\<exists>js. rest = js @ rest' \<and> flights (asked s'') (engine_reqs args) (row_tag args) (vs @ js) d'
          \<and> length d' = length infl1 + length js) \<and>
       length d' \<le> length infl1 + 1 \<and> (rest' \<noteq> [] \<longrightarrow> length d' = length infl1 + 1) \<and> futs_in infl1 \<subseteq> futs_in d'"
    obtain rest' infl'' where x: "x = (rest', infl'')" by (cases x) auto
    obtain js where y: "ok s''" "rest = js @ rest'"
        "flights (asked s'') (engine_reqs args) (row_tag args) (vs @ js) infl''"
        "length infl'' = length infl1 + length js" "length infl'' \<le> length infl1 + 1"
        "rest' \<noteq> [] \<longrightarrow> length infl'' = length infl1 + 1" "futs_in infl1 \<subseteq> futs_in infl''"
      using a unfolding x prod.case by (elim conjE exE) (rule that, assumption+)
    have "recd i (mk (req_id i) row (svc args i))" using s'(3) unfolding mk engine_row_def by blast
    then have keepd: "retired recd keep (ds @ [i]) (if keep then records @ [mk (req_id i) row (svc args i)] else records)"
      by (rule retired_snoc [OF b(2)])
    have "(ds @ [i]) @ (vs @ js) @ rest' = indices" using b(3) h(1) y(2) by simp
    then have "fifo_inv (asked s'') args recd keep window indices
        (rest', infl'', if keep then records @ [mk (req_id i) row (svc args i)] else records)"
      using keepd y(3,5,6) inv y(2) unfolding fifo_inv_def infl by fastforce
    then show "runs (case x of (rest', infl'') \<Rightarrow>
       io_ret (rest', infl'', if keep then records @ [mk (req_id i) row (svc args i)] else records)) s''
       (\<lambda>s' (rest', infl', records'). ok s' \<and> fifo_inv (asked s') args recd keep window indices (rest', infl', records')
     \<and> length rest' + length infl' < length rest + length infl)"
      using y(1,2,4) by (simp add: x runs_ret infl)
  qed
  show ?thesis
    unfolding hpx_turn_def prod.case infl list.case h(2) runs_bind
  proof (rule runs_mono [OF result_law [OF assms(3) h(3)]], goal_cases)
    case 1
    then show ?case by simp
  next
    case (2 s' row)
    then show ?case using step [of s' row, unfolded infl runs_bind [symmetric]] unfolding h(2) prod.case runs_bind by blast
  qed
qed

text \<open>Both FIFO and as-completed windows fill the same way.\<close>

lemma hpx_one_by_one_runs:
  assumes "\<And>i. i \<in> set indices \<Longrightarrow> admits (engine_request args i)"
    and "0 < window" and "window \<le> int limit" and "ok s" and "asked s = Map.empty"
  shows "runs (hpx_run_one_by_one A args indices run_id workload mode keep window) s (\<lambda>s' records.
     ok s' \<and> asked s' = Map.empty \<and> retired (hpx_row answers args run_id workload mode) keep indices records)"
proof -
  let ?recd = "hpx_row answers args run_id workload mode"
  let ?I = "\<lambda>s d. ok s \<and> fifo_inv (asked s) args ?recd keep window indices d"
  let ?m = "\<lambda>(rest, infl, records). length rest + length infl"
  let ?body = "hpx_turn A args (hpx_make_record args run_id workload mode) keep"
  have sub: "submits ok asked limit (set indices) (engine_reqs args) (row_tag args) (\<lambda>d. d) (hpx_submit A args)"
    by (rule hpx_submits) (rule assms(1))
  have turn: "runs (?body d) s (\<lambda>s' d'. ?I s' d' \<and> ?m d' < ?m d)"
    if "?I s d" "(\<lambda>(rest, infl, records). infl \<noteq> []) d" for s d
  proof -
    obtain rest infl records where d: "d = (rest, infl, records)" by (cases d) auto
    show ?thesis
      unfolding d by (rule runs_mono [OF hpx_turn_runs [OF sub assms(3), where recd = ?recd]]) (use that d in auto)
  qed
  have "runs (fill (\<lambda>d. d) window (hpx_submit A args) indices []) s (\<lambda>s' (rest', d'). ok s' \<and>
     (\<exists>js. indices = js @ rest' \<and> flights (asked s') (engine_reqs args) (row_tag args) ([] @ js) d') \<and>
     int (length d') \<le> max 0 window \<and> (rest' \<noteq> [] \<longrightarrow> window \<le> int (length d')))"
    by (rule fill_runs [OF sub assms(3,4)]) (use assms(2,5) in \<open>simp_all add: flights_Nil\<close>)
  then show ?thesis
    unfolding hpx_run_one_by_one_def runs_bind
  proof (rule runs_mono)
    fix s' x
    assume x: "case x of (rest', d') \<Rightarrow> ok s' \<and>
      (\<exists>js. indices = js @ rest' \<and> flights (asked s') (engine_reqs args) (row_tag args) ([] @ js) d') \<and>
      int (length d') \<le> max 0 window \<and> (rest' \<noteq> [] \<longrightarrow> window \<le> int (length d'))"
    obtain rest d' where xd: "x = (rest, d')" by (cases x) auto
    obtain js where *: "ok s'" "indices = js @ rest" "flights (asked s') (engine_reqs args) (row_tag args) ([] @ js) d'"
      "int (length d') \<le> max 0 window" "rest \<noteq> [] \<longrightarrow> window \<le> int (length d')"
      using x unfolding xd prod.case by blast
    have "length js = length d'" using flights_length [OF *(3)] by simp
    then have m: "?m (rest, d', [] :: drow list) \<le> length indices" using *(2) by simp
    have "fifo_inv (asked s') args ?recd keep window indices (rest, d', [])"
      using * assms(2) by (auto simp: fifo_inv_def retired_def)
    then have I: "?I s' (rest, d', [])" using *(1) by blast
    have "runs (io_while (length indices) (\<lambda>(rest, infl, records). infl \<noteq> []) ?body (rest, d', [])) s'
       (\<lambda>s' d. ?I s' d \<and> \<not> (\<lambda>(rest, infl, records). infl \<noteq> []) d)"
      by (rule while_runs [where I = ?I and m = ?m, OF turn I m])
    then show "runs (case x of (rest, infl) \<Rightarrow>
         io_bind (io_while (length indices) (\<lambda>(rest, infl, records). infl \<noteq> []) ?body (rest, infl, []))
       (\<lambda>(rest, infl, records). io_ret records)) s'
       (\<lambda>s' records. ok s' \<and> asked s' = Map.empty \<and> retired ?recd keep indices records)"
      unfolding xd prod.case runs_bind
    proof (rule runs_mono)
      fix s2 d assume d: "?I s2 d \<and> \<not> (\<lambda>(rest, infl, records). infl \<noteq> []) d"
      obtain rest2 records where d2: "d = (rest2, [], records)" using d by (cases d) auto
      have "rest2 = []" using d assms(2) unfolding d2 fifo_inv_def by auto
      then show "runs (case d of (rest, infl, records) \<Rightarrow> io_ret records) s2
         (\<lambda>s' records. ok s' \<and> asked s' = Map.empty \<and> retired ?recd keep indices records)"
        using d unfolding d2 fifo_inv_def by (auto simp: runs_ret dest!: flights_empty)
    qed
  qed
qed

end

subsection \<open>As completed\<close>

lemma runs_py_Inr: "runs (io_py (Inr x)) s P = P s x"
  by (simp add: runs_py)

lemma look_up_all_in:
  "distinct (map fst infl) \<Longrightarrow> set fs \<subseteq> futs_in infl \<Longrightarrow>
     look_up_all infl fs = Inr (map (\<lambda>f. (f, the (map_of infl f))) fs)"
proof (induction fs)
  case (Cons f fs)
  then obtain e where e: "(f, e) \<in> set infl" by (auto simp: futs_in_def)
  then have "map_of infl f = Some e" "map_of (rev infl) f = Some e"
    using Cons.prems(1) by (auto intro!: map_of_is_SomeI simp: rev_map [symmetric])
  then show ?case using Cons by simp
qed simp

lemma looked_up:
  assumes "distinct (map fst infl)" and "set fs \<subseteq> futs_in infl" and "distinct fs"
  shows "set (map (\<lambda>f. (f, the (map_of infl f))) fs) \<subseteq> set infl"
    "map fst (map (\<lambda>f. (f, the (map_of infl f))) fs) = fs"
proof -
  show "set (map (\<lambda>f. (f, the (map_of infl f))) fs) \<subseteq> set infl"
  proof clarsimp
    fix f assume "f \<in> set fs"
    then obtain e where "(f, e) \<in> set infl" using assms(2) by (auto simp: futs_in_def)
    then show "(f, the (map_of infl f)) \<in> set infl" using assms(1) by (metis map_of_is_SomeI option.sel)
  qed
  show "map fst (map (\<lambda>f. (f, the (map_of infl f))) fs) = fs" by (simp add: comp_def)
qed

lemma filter_other:
  "distinct (map fst (xs @ (f, e) # ys)) \<Longrightarrow> filter (\<lambda>d. fst d \<noteq> f) (xs @ (f, e) # ys) = xs @ ys"
  by (induction xs) (auto intro!: filter_True)

context bench_engine
begin

lemma hpx_retire_all_runs:
  assumes "ok s" and "flights (asked s) (engine_reqs args) (row_tag args) is infl"
    and "distinct (map fst es)" and "set es \<subseteq> set infl" and "stamp recv"
    and "retired (engine_row answers args mk) keep ds records"
  shows "runs (hpx_retire_all A mk keep recv es records) s (\<lambda>s' records'. ok s' \<and>
     (\<exists>is' js. flights (asked s') (engine_reqs args) (row_tag args) is' (filter (\<lambda>d. fst d \<notin> fst ` set es) infl)
        \<and> retired (engine_row answers args mk) keep (ds @ js) records' \<and> mset js + mset is' = mset is
        \<and> length js = length es))"
  using assms
proof (induction es arbitrary: s "is" infl ds records)
  case Nil
  then show ?case by (auto simp: runs_ret)
next
  case (Cons d es)
  obtain f rid sv where d: "d = (f, rid, sv)" by (cases d) auto
  have "(f, rid, sv) \<in> set infl" using Cons.prems(4) d by simp
  then obtain xs ys where split: "infl = xs @ (f, rid, sv) # ys" by (meson split_list)
  obtain us i vs q where r: "is = us @ i # vs" "(rid, sv) = (req_id i, svc args i)" "asked s f = Some q"
      "q = engine_request args i" "flights ((asked s)(f := None)) (engine_reqs args) (row_tag args) (us @ vs) (xs @ ys)"
    using Cons.prems(2) unfolding split by (rule flights_remove)
  have dist: "distinct (map fst infl)" using Cons.prems(2) by (simp add: flights_def)
  have sub: "set es \<subseteq> set (xs @ ys)" using Cons.prems(3,4) unfolding d split by force
  let ?keep = "\<lambda>row. if keep then records @ [mk rid row sv] else records"
  show ?case
    unfolding d hpx_retire_all.simps runs_bind
  proof (rule runs_mono [OF result_law [OF Cons.prems(1) r(3)]])
    show "stamp n" if "Some recv = Some n" for n using that Cons.prems(5) by simp
    fix s' row
    assume s': "ok s' \<and> asked s' = (asked s)(f := None) \<and> answers q row"
    have fl': "flights (asked s') (engine_reqs args) (row_tag args) (us @ vs) (xs @ ys)" using s' r(5) by metis
    have "engine_row answers args mk i (mk rid row sv)" using s' r(2,4) unfolding engine_row_def by blast
    then have keepd: "retired (engine_row answers args mk) keep (ds @ [i]) (?keep row)"
      by (rule retired_snoc [OF Cons.prems(6)])
    have "runs (hpx_retire_all A mk keep recv es (?keep row)) s' (\<lambda>s' records'. ok s' \<and>
     (\<exists>is' js. flights (asked s') (engine_reqs args) (row_tag args) is' (filter (\<lambda>d. fst d \<notin> fst ` set es) (xs @ ys))
        \<and> retired (engine_row answers args mk) keep ((ds @ [i]) @ js) records' \<and> mset js + mset is' = mset (us @ vs)
        \<and> length js = length es))"
      by (rule Cons.IH [OF _ fl' _ sub _ keepd]) (use s' Cons.prems in simp_all)
    then show "runs (hpx_retire_all A mk keep recv es (?keep row)) s' (\<lambda>s' records'. ok s' \<and>
     (\<exists>is' js. flights (asked s') (engine_reqs args) (row_tag args) is' (filter (\<lambda>d. fst d \<notin> fst ` set ((f, rid, sv) # es)) infl)
        \<and> retired (engine_row answers args mk) keep (ds @ js) records' \<and> mset js + mset is' = mset is
        \<and> length js = length ((f, rid, sv) # es)))"
    proof (rule runs_mono, elim conjE exE)
      fix s'' records' is' js
      assume *: "ok s''" "flights (asked s'') (engine_reqs args) (row_tag args) is' (filter (\<lambda>d. fst d \<notin> fst ` set es) (xs @ ys))"
        "retired (engine_row answers args mk) keep ((ds @ [i]) @ js) records'" "mset js + mset is' = mset (us @ vs)"
        "length js = length es"
      have "filter (\<lambda>d. fst d \<notin> fst ` set ((f, rid, sv) # es)) infl
          = filter (\<lambda>d. fst d \<notin> fst ` set es) (filter (\<lambda>d. fst d \<noteq> f) infl)"
        by (simp add: conj_commute)
      also have "\<dots> = filter (\<lambda>d. fst d \<notin> fst ` set es) (xs @ ys)"
        using filter_other dist unfolding split by metis
      finally have fl: "filter (\<lambda>d. fst d \<notin> fst ` set ((f, rid, sv) # es)) infl = filter (\<lambda>d. fst d \<notin> fst ` set es) (xs @ ys)" .
      have "retired (engine_row answers args mk) keep (ds @ i # js) records'" using *(3) by simp
      moreover have "mset (i # js) + mset is' = mset is" using *(4) r(1) by simp
      moreover have "length (i # js) = length ((f, rid, sv) # es)" using *(5) by simp
      ultimately show "ok s'' \<and> (\<exists>is' js. flights (asked s'') (engine_reqs args) (row_tag args) is'
           (filter (\<lambda>d. fst d \<notin> fst ` set ((f, rid, sv) # es)) infl)
        \<and> retired (engine_row answers args mk) keep (ds @ js) records' \<and> mset js + mset is' = mset is
        \<and> length js = length ((f, rid, sv) # es))"
        unfolding fl using *(1,2) by blast
    qed
  qed
qed

lemma hpx_sweep_runs:
  assumes sub: "submits ok asked limit (set indices) (engine_reqs args) (row_tag args) (\<lambda>d. d) (hpx_submit A args)"
    and "window \<le> int limit" and "ok s" and "infl \<noteq> []" and recd: "recd = engine_row answers args mk"
    and inv: "window_inv (asked s) (engine_reqs args) (row_tag args) recd keep window indices rest infl records"
    and "1 \<le> da_wait_batch args" and "set rest \<subseteq> set indices"
  shows "runs (hpx_sweep A args mk keep (rest, infl, records)) s (\<lambda>s' (rest', infl', records').
     ok s' \<and> window_inv (asked s') (engine_reqs args) (row_tag args) recd keep window indices rest' infl' records'
     \<and> set rest' \<subseteq> set indices \<and> length rest' + length infl' < length rest + length infl)"
proof -
  let ?Q = "\<lambda>s' (rest', infl', records').
     ok s' \<and> window_inv (asked s') (engine_reqs args) (row_tag args) recd keep window indices rest' infl' records'
     \<and> set rest' \<subseteq> set indices \<and> length rest' + length infl' < length rest + length infl"
  obtain "is" ds where fl: "flights (asked s) (engine_reqs args) (row_tag args) is infl" "retired recd keep ds records"
      "mset ds + mset is + mset rest = mset indices"
    using inv by (auto simp: window_inv_def)
  have keys: "distinct (map fst infl)" "dom (asked s) = set (map fst infl)" using window_keys [OF inv] by auto
  have room: "length infl \<le> limit" using inv assms(2,4) unfolding window_inv_def by (cases infl) auto
  have swept: "runs (io_bind (io_py (look_up_all infl (take (nat (da_wait_batch args)) ready))) (\<lambda>retire.
     io_bind (hpx_retire_all A mk keep recv retire records) (\<lambda>records'.
     io_bind (refill (length retire) (hpx_submit A args) rest (filter (\<lambda>e. fst e \<notin> fst ` set retire) infl))
       (\<lambda>(rest', infl'). io_ret (rest', infl', records'))))) s1 ?Q"
    if s1: "ok s1" "asked s1 = asked s" "ready \<noteq> []" "distinct ready" "set ready \<subseteq> set (map fst infl)" "stamp recv"
    for s1 ready recv
  proof -
    let ?rs = "take (nat (da_wait_batch args)) ready"
    let ?es = "map (\<lambda>f. (f, the (map_of infl f))) ?rs"
    have rs: "distinct ?rs" "set ?rs \<subseteq> futs_in infl" "?rs \<noteq> []"
      using s1(3-5) assms(7) set_take_subset [of "nat (da_wait_batch args)" ready] by (auto simp: futs_in_def)
    note es = looked_up [OF keys(1) rs(2,1)]
    have look: "look_up_all infl ?rs = Inr ?es" by (rule look_up_all_in [OF keys(1) rs(2)])
    have pos: "0 < length ?es" using rs(3) by simp
    have dist: "distinct (map fst ?es)" using rs(1) es(2) by simp
    have fst_es: "fst ` set ?es = set ?rs" using es(2) by (metis set_map)
    let ?infl = "filter (\<lambda>d. fst d \<notin> fst ` set ?es) infl"
    have "runs (hpx_retire_all A mk keep recv ?es records) s1 (\<lambda>s' records'. ok s' \<and>
     (\<exists>is' js. flights (asked s') (engine_reqs args) (row_tag args) is' ?infl
        \<and> retired recd keep (ds @ js) records' \<and> mset js + mset is' = mset is \<and> length js = length ?es))"
      unfolding recd
      by (rule hpx_retire_all_runs [OF s1(1) _ dist es(1) s1(6)]) (use fl s1(2) recd in simp_all)
    then show ?thesis
      unfolding runs_bind look runs_py_Inr
    proof (rule runs_mono, elim conjE exE)
      fix s2 records' is' js
      assume s2: "ok s2" "flights (asked s2) (engine_reqs args) (row_tag args) is' ?infl"
        "retired recd keep (ds @ js) records'" "mset js + mset is' = mset is" "length js = length ?es"
      have sizes: "length infl = length ?infl + length ?es"
        using flights_length [OF s2(2)] flights_length [OF fl(1)] arg_cong [OF s2(4), of size] s2(5) by simp
      have "runs (refill (length ?es) (hpx_submit A args) rest ?infl) s2 (\<lambda>s' (rest', d'). ok s' \<and>
         (\<exists>ks. rest = ks @ rest' \<and> flights (asked s') (engine_reqs args) (row_tag args) (is' @ ks) d'
            \<and> length d' = length ?infl + length ks) \<and>
         length d' \<le> length ?infl + length ?es \<and> (rest' \<noteq> [] \<longrightarrow> length d' = length ?infl + length ?es) \<and>
         futs_in ?infl \<subseteq> futs_in d')"
        by (rule refill_runs [OF sub s2(1) assms(8) s2(2)]) (use sizes room in simp)
      then show "runs (refill (length ?es) (hpx_submit A args) rest ?infl) s2 (\<lambda>s' x. runs (case x of
          (rest', infl') \<Rightarrow> io_ret (rest', infl', records')) s' ?Q)"
      proof (rule runs_mono)
        fix s3 x
        assume x3: "case x of (rest', d') \<Rightarrow> ok s3 \<and>
         (\<exists>ks. rest = ks @ rest' \<and> flights (asked s3) (engine_reqs args) (row_tag args) (is' @ ks) d'
            \<and> length d' = length ?infl + length ks) \<and>
         length d' \<le> length ?infl + length ?es \<and> (rest' \<noteq> [] \<longrightarrow> length d' = length ?infl + length ?es) \<and>
         futs_in ?infl \<subseteq> futs_in d'"
        obtain rest' d' where x: "x = (rest', d')" by (cases x) auto
        obtain ks where y: "ok s3" "rest = ks @ rest'"
            "flights (asked s3) (engine_reqs args) (row_tag args) (is' @ ks) d'" "length d' = length ?infl + length ks"
            "length d' \<le> length infl" "rest' \<noteq> [] \<longrightarrow> length d' = length infl"
          using x3 unfolding x prod.case sizes by blast
        have "mset (ds @ js) + mset (is' @ ks) + mset rest' = mset indices"
          using fl(3) s2(4) [symmetric] y(2) by (simp add: ac_simps)
        then have "window_inv (asked s3) (engine_reqs args) (row_tag args) recd keep window indices rest' d' records'"
          using s2(3) y(3,5,6) inv y(2) unfolding window_inv_def by fastforce
        moreover have "length rest' + length d' < length rest + length infl" using y(2,4) sizes pos by simp
        ultimately show "runs (case x of (rest', infl') \<Rightarrow> io_ret (rest', infl', records')) s3 ?Q"
          using y(1,2) assms(8) by (simp add: x runs_ret)
      qed
    qed
  qed
  show ?thesis
    unfolding hpx_sweep_def prod.case runs_bind
  proof (rule runs_mono [OF wait_law [OF assms(3), of "map fst infl" 1]])
    show "1 \<le> int (length (map fst infl))" using assms(4) by (cases infl) auto
    fix s1 rp
    assume r: "ok s1 \<and> asked s1 = asked s \<and> fst rp \<noteq> [] \<and> distinct (fst rp) \<and> set (fst rp) \<subseteq> set (map fst infl)"
    obtain ready pending where rp: "rp = (ready, pending)" by (cases rp) auto
    show "runs (case rp of (ready, not_ready) \<Rightarrow> io_bind (ap_clock A) (\<lambda>recv.
        io_bind (io_py (look_up_all infl (take (nat (da_wait_batch args)) ready))) (\<lambda>retire.
     io_bind (hpx_retire_all A mk keep recv retire records) (\<lambda>records'.
     io_bind (refill (length retire) (hpx_submit A args) rest (filter (\<lambda>e. fst e \<notin> fst ` set retire) infl))
       (\<lambda>(rest', infl'). io_ret (rest', infl', records')))))) s1 ?Q"
      unfolding rp prod.case runs_bind [of "ap_clock A"]
      by (rule runs_mono [OF clock_law], use r in simp, rule swept) (use r rp in auto)
  qed (use assms(4) keys in auto)
qed

lemma hpx_batch_wait_runs:
  assumes "\<And>i. i \<in> set indices \<Longrightarrow> admits (engine_request args i)"
    and "0 < da_concurrency args" and "da_concurrency args \<le> int limit" and "1 \<le> da_wait_batch args"
    and "ok s" and "asked s = Map.empty"
  shows "runs (hpx_run_batch_wait A args indices run_id workload mode keep) s (\<lambda>s' records. ok s' \<and> asked s' = Map.empty
     \<and> (\<exists>ds. mset ds = mset indices \<and> retired (hpx_row answers args run_id workload mode) keep ds records))"
proof -
  have sub: "submits ok asked limit (set indices) (engine_reqs args) (row_tag args) (\<lambda>d. d) (hpx_submit A args)"
    by (rule hpx_submits) (rule assms(1))
  show ?thesis
    unfolding hpx_run_batch_wait_def
    by (rule windowed_runs [OF sub assms(2,3,5,6)])
      (rule hpx_sweep_runs [OF sub assms(3) _ _ refl], (assumption | rule assms)+)
qed

end

end
