(* ===== verification/BenchThreads.thy ===== *)
theory BenchThreads
  imports BenchHpxInv BenchEngine
begin

text \<open>
  The client threads of the Python front-end driver: several windows on one engine, in any interleaving.
  Each thread's invariant speaks of its own futures only, so the steps of the others keep it; together
  the threads own exactly the futures that are not retired yet.
\<close>

subsection \<open>The threads' invariants\<close>

fun thread_futs :: "'f thread \<Rightarrow> 'f list" where
  "thread_futs (Running _ _ infl _) = map fst infl"
| "thread_futs _ = []"

fun thread_work :: "'f thread \<Rightarrow> nat" where
  "thread_work (Running ph rest infl _) = 1 + 3 * length rest + 2 * length infl + (if ph = Retiring then 0 else 1)"
| "thread_work _ = 0"

definition owns :: "('f \<rightharpoonup> engine_req) \<Rightarrow> dargs \<Rightarrow> nat list \<Rightarrow> 'f deque \<Rightarrow> bool" where
  "owns ask args is infl = list_all2 (\<lambda>i fe. snd fe = (req_id i, svc args i) \<and> ask (fst fe) = Some (engine_request args i)) is infl"

definition phase_ok :: "int \<Rightarrow> client_phase \<Rightarrow> nat list \<Rightarrow> nat \<Rightarrow> bool" where
  "phase_ok window ph rest n = (int n \<le> window \<and> (case ph of Filling \<Rightarrow> True
     | Retiring \<Rightarrow> rest \<noteq> [] \<longrightarrow> int n = window
     | Refilling \<Rightarrow> int n < window \<and> (rest \<noteq> [] \<longrightarrow> int n + 1 = window)))"

fun thread_ok ::
    "('f \<rightharpoonup> engine_req) \<Rightarrow> dargs \<Rightarrow> (nat \<Rightarrow> drow \<Rightarrow> bool) \<Rightarrow> bool \<Rightarrow> int \<Rightarrow> nat list \<Rightarrow> 'f thread \<Rightarrow> bool" where
  "thread_ok ask args recd keep window block (Running ph rest infl records) =
     ((\<exists>ds is. owns ask args is infl \<and> retired recd keep ds records \<and> ds @ is @ rest = block)
      \<and> phase_ok window ph rest (length infl))"
| "thread_ok ask args recd keep window block (Returned records) = retired recd keep block records"
| "thread_ok ask args recd keep window block (Failed x) = False"

lemma thread_okI:
  "owns ask args is infl \<Longrightarrow> retired recd keep ds records \<Longrightarrow> ds @ is @ rest = block \<Longrightarrow>
     phase_ok window ph rest (length infl) \<Longrightarrow> thread_ok ask args recd keep window block (Running ph rest infl records)"
  unfolding thread_ok.simps by blast

lemma owns_cong: "owns ask args is infl \<Longrightarrow> (\<And>f. f \<in> fst ` set infl \<Longrightarrow> ask' f = ask f) \<Longrightarrow> owns ask' args is infl"
  unfolding owns_def by (erule list_all2_mono_in) force

lemma thread_ok_cong:
  "thread_ok ask args recd keep window block th \<Longrightarrow> (\<And>f. f \<in> set (thread_futs th) \<Longrightarrow> ask' f = ask f) \<Longrightarrow>
     thread_ok ask' args recd keep window block th"
proof (cases th)
  case (Running ph rest infl records)
  assume "thread_ok ask args recd keep window block th" and "\<And>f. f \<in> set (thread_futs th) \<Longrightarrow> ask' f = ask f"
  then obtain ds "is" where b: "owns ask args is infl" "retired recd keep ds records" "ds @ is @ rest = block"
      "phase_ok window ph rest (length infl)" "\<And>f. f \<in> fst ` set infl \<Longrightarrow> ask' f = ask f"
    unfolding Running by auto
  show ?thesis unfolding Running by (rule thread_okI [OF owns_cong [OF b(1,5)] b(2-4)])
qed simp_all

lemma thread_ok_window: "thread_ok ask args recd keep window block th \<Longrightarrow> 0 \<le> window \<Longrightarrow>
    int (length (thread_futs th)) \<le> window"
  by (cases th) (auto simp: phase_ok_def)

text \<open>A call of one thread changes only what it owns.\<close>

definition own_change :: "('f \<rightharpoonup> engine_req) \<Rightarrow> 'f list \<Rightarrow> ('f \<rightharpoonup> engine_req) \<Rightarrow> 'f list \<Rightarrow> bool" where
  "own_change ask fs ask' fs' \<longleftrightarrow> ask' = ask \<and> fs' = fs
     \<or> (\<exists>f q. ask f = None \<and> ask' = ask(f \<mapsto> q) \<and> fs' = fs @ [f])
     \<or> (\<exists>f. fs = f # fs' \<and> ask' = ask(f := None))"

context bench_engine
begin

lemma hpx_submit_runs:
  assumes "ok s" and "admits (engine_request args i)" and "card (dom (asked s)) < limit"
  shows "runs (hpx_submit A args i infl) s (\<lambda>s' infl'. ok s' \<and> (\<exists>f. asked s f = None
     \<and> asked s' = (asked s)(f \<mapsto> engine_request args i) \<and> infl' = infl @ [(f, req_id i, svc args i)]))"
  unfolding hpx_submit_def runs_bind runs_ret
  by (rule runs_mono [OF submit_law [OF assms]]) blast

lemma thread_submits:
  assumes s: "ok s" and sub: "set infl' \<subseteq> set infl" and "owns (asked s) args is infl" and "set (map fst infl) \<subseteq> dom (asked s)"
    and "admits (engine_request args i)" and "card (dom (asked s)) < limit"
    and "retired recd keep ds records" and "ds @ is @ i # rest = block"
    and "phase_ok window ph rest (Suc (length infl))"
  shows "runs (io_bind (hpx_submit A args i infl) (\<lambda>infl'. io_ret (Running ph rest infl' records))) s
    (\<lambda>s' th. ok s' \<and> thread_ok (asked s') args recd keep window block th
      \<and> own_change (asked s) (map fst infl) (asked s') (thread_futs th)
      \<and> (\<exists>infl'. th = Running ph rest infl' records \<and> length infl' = Suc (length infl)))"
  unfolding runs_bind
proof (rule runs_mono [OF hpx_submit_runs [OF s assms(5,6)]], elim conjE exE)
  fix s' infl' f
  assume r: "ok s'" "asked s f = None" "asked s' = (asked s)(f \<mapsto> engine_request args i)"
    "infl' = infl @ [(f, req_id i, svc args i)]"
  have "f \<notin> fst ` set infl" using r(2) assms(4) by auto
  then have "owns (asked s') args is infl" by (intro owns_cong [OF assms(3)]) (auto simp: r(3))
  then have "owns (asked s') args (is @ [i]) infl'" unfolding owns_def r(4) by (rule list_all2_appendI) (simp add: r(3))
  then have "thread_ok (asked s') args recd keep window block (Running ph rest infl' records)"
    by (rule thread_okI [OF _ assms(7)]) (use assms(8,9) r(4) in simp_all)
  moreover have "own_change (asked s) (map fst infl) (asked s') (map fst infl')"
    unfolding own_change_def r(4) r(3) using r(2) by (metis list.map_disc_iff map_append list.simps(8,9) fst_conv)
  ultimately show "runs (io_ret (Running ph rest infl' records)) s' (\<lambda>s' th. ok s' \<and> thread_ok (asked s') args recd keep window block th
      \<and> own_change (asked s) (map fst infl) (asked s') (thread_futs th)
      \<and> (\<exists>infl'. th = Running ph rest infl' records \<and> length infl' = Suc (length infl)))"
    using r(1,4) by (simp add: runs_ret del: thread_ok.simps)
qed

lemma thread_call_runs:
  assumes s: "ok s" and recd: "recd = engine_row answers args mk"
    and inv: "thread_ok (asked s) args recd keep window block (Running ph rest infl records)"
    and dom: "set (map fst infl) \<subseteq> dom (asked s)" and dist: "distinct (map fst infl)"
    and adm: "\<And>i. i \<in> set block \<Longrightarrow> admits (engine_request args i)"
    and room: "int (length infl) < window \<Longrightarrow> card (dom (asked s)) < limit"
    and "0 < window"
  shows "runs (thread_call A args mk keep window ph rest infl records) s
    (\<lambda>s' th. ok s' \<and> thread_ok (asked s') args recd keep window block th
      \<and> own_change (asked s) (map fst infl) (asked s') (thread_futs th)
      \<and> thread_work th < thread_work (Running ph rest infl records))"
proof -
  obtain ds "is" where b: "owns (asked s) args is infl" "retired recd keep ds records" "ds @ is @ rest = block"
    using inv by auto
  have ph: "phase_ok window ph rest (length infl)" using inv by simp
  have next_one: "runs (io_bind (hpx_submit A args i infl) (\<lambda>infl'. io_ret (Running ph' is' infl' records))) s
    (\<lambda>s' th. ok s' \<and> thread_ok (asked s') args recd keep window block th
      \<and> own_change (asked s) (map fst infl) (asked s') (thread_futs th)
      \<and> thread_work th < thread_work (Running ph rest infl records))"
    if "rest = i # is'" "phase_ok window ph' is' (Suc (length infl))" "int (length infl) < window"
      "ph' = ph \<or> ph' = Retiring" for i is' ph'
    by (rule runs_mono [OF thread_submits [OF s subset_refl b(1) dom _ _ b(2)]])
      (use that b(3) adm room in \<open>auto split: if_splits\<close>)
  show ?thesis
  proof (cases ph)
    case Filling
    show ?thesis
    proof (cases rest)
      case Nil
      then show ?thesis using b ph s Filling by (auto simp: thread_call_def runs_ret phase_ok_def own_change_def)
    next
      case (Cons i is')
      show ?thesis
      proof (cases "int (length infl) < window")
        case True
        then show ?thesis using next_one [OF Cons _ True, of Filling] Filling Cons by (simp add: thread_call_def phase_ok_def)
      next
        case False
        then show ?thesis using b ph s Filling Cons by (auto simp: thread_call_def runs_ret phase_ok_def own_change_def)
      qed
    qed
  next
    case Refilling
    show ?thesis
    proof (cases rest)
      case Nil
      then show ?thesis using b ph s Refilling by (auto simp: thread_call_def runs_ret phase_ok_def own_change_def)
    next
      case (Cons i is')
      then have "int (length infl) < window" "int (length infl) + 1 = window"
        using ph Refilling by (auto simp: phase_ok_def)
      then show ?thesis using next_one [OF Cons, of Retiring] Refilling Cons by (simp add: thread_call_def phase_ok_def)
    qed
  next
    case Retiring
    show ?thesis
    proof (cases infl)
      case Nil
      then have "rest = []" "is = []" using ph Retiring assms(8) b(1) by (auto simp: phase_ok_def owns_def)
      then show ?thesis using Nil b s Retiring by (auto simp: thread_call_def runs_ret own_change_def)
    next
      case (Cons d infl')
      obtain f e where d: "d = (f, e)" by (cases d)
      then obtain i is' where i: "is = i # is'" "e = (req_id i, svc args i)" "asked s f = Some (engine_request args i)"
          "owns (asked s) args is' infl'"
        using b(1) unfolding Cons by (auto simp: owns_def list_all2_Cons2)
      have new: "f \<notin> fst ` set infl'" using dist unfolding Cons d by simp
      show ?thesis
        unfolding thread_call_def Retiring client_phase.case Cons list.case d i(2) prod.case runs_bind
      proof (rule runs_mono [OF result_law [OF s i(3)]], simp)
        fix s' row
        assume r: "ok s' \<and> asked s' = (asked s)(f := None) \<and> answers (engine_request args i) row"
        have "recd i (mk (req_id i) row (svc args i))" using r unfolding recd engine_row_def by blast
        then have keepd: "retired recd keep (ds @ [i]) (if keep then records @ [mk (req_id i) row (svc args i)] else records)"
          by (rule retired_snoc [OF b(2)])
        have own: "owns (asked s') args is' infl'" using new r by (intro owns_cong [OF i(4)]) auto
        have all: "(ds @ [i]) @ is' @ rest = block" using b(3) i(1) by simp
        have "phase_ok window Refilling rest (length infl')" using ph Retiring Cons by (auto simp: phase_ok_def)
        then have "thread_ok (asked s') args recd keep window block
            (Running Refilling rest infl' (if keep then records @ [mk (req_id i) row (svc args i)] else records))"
          by (intro thread_okI [OF own keepd all])
        moreover have "own_change (asked s) (map fst ((f, req_id i, svc args i) # infl')) (asked s') (map fst infl')"
          using r by (auto simp: own_change_def)
        ultimately show "runs (io_ret (Running Refilling rest infl'
              (if keep then records @ [mk (req_id i) row (svc args i)] else records))) s'
            (\<lambda>s' th. ok s' \<and> thread_ok (asked s') args recd keep window block th
              \<and> own_change (asked s) (map fst ((f, req_id i, svc args i) # infl')) (asked s') (thread_futs th)
              \<and> thread_work th < thread_work (Running Retiring rest ((f, req_id i, svc args i) # infl') records))"
          using r by (simp add: runs_ret)
      qed
    qed
  qed
qed

end

subsection \<open>The team\<close>

definition team_inv ::
    "('f \<rightharpoonup> engine_req) \<Rightarrow> dargs \<Rightarrow> (nat \<Rightarrow> drow \<Rightarrow> bool) \<Rightarrow> bool \<Rightarrow> int list \<Rightarrow> nat list list \<Rightarrow> 'f thread list \<Rightarrow> bool" where
  "team_inv ask args recd keep windows blocks ts \<longleftrightarrow> length blocks = length ts \<and> length windows = length ts
     \<and> (\<forall>k < length ts. thread_ok ask args recd keep (windows ! k) (blocks ! k) (ts ! k))
     \<and> distinct (concat (map thread_futs ts)) \<and> dom ask = set (concat (map thread_futs ts))"

lemma own_change_team:
  assumes "own_change ask fs ask' fs'" and "distinct (A @ fs @ B)" and "dom ask = set (A @ fs @ B)"
  shows "distinct (A @ fs' @ B)" "dom ask' = set (A @ fs' @ B)" "\<And>f. f \<in> set A \<union> set B \<Longrightarrow> ask' f = ask f"
proof -
  consider "ask' = ask" "fs' = fs"
    | (add) f q where "ask f = None" "ask' = ask(f \<mapsto> q)" "fs' = fs @ [f]"
    | (del) f where "fs = f # fs'" "ask' = ask(f := None)"
    using assms(1) unfolding own_change_def by auto
  then have "distinct (A @ fs' @ B) \<and> dom ask' = set (A @ fs' @ B) \<and> (\<forall>f \<in> set A \<union> set B. ask' f = ask f)"
  proof cases
    case 1
    then show ?thesis using assms(2,3) by simp
  next
    case add
    have "f \<notin> set (A @ fs @ B)" using add(1) assms(3) by auto
    then show ?thesis using assms(2,3) add(2,3) by auto
  next
    case del
    then show ?thesis using assms(2,3) by auto
  qed
  then show "distinct (A @ fs' @ B)" "dom ask' = set (A @ fs' @ B)" "\<And>f. f \<in> set A \<union> set B \<Longrightarrow> ask' f = ask f"
    by blast+
qed

text \<open>How many are in flight.\<close>

lemma team_card:
  assumes "team_inv ask args recd keep windows blocks ts"
  shows "int (card (dom ask)) = (\<Sum>k < length ts. int (length (thread_futs (ts ! k))))"
proof -
  have "card (dom ask) = length (concat (map thread_futs ts))"
    using assms distinct_card unfolding team_inv_def by metis
  also have "\<dots> = (\<Sum>k < length ts. length (thread_futs (ts ! k)))"
    by (simp add: length_concat sum_list_sum_nth atLeast0LessThan)
  finally show ?thesis by simp
qed

lemma team_bound:
  assumes "team_inv ask args recd keep windows blocks ts" and "\<And>w. w \<in> set windows \<Longrightarrow> 0 \<le> w"
  shows "int (card (dom ask)) \<le> sum_list windows"
    "k < length ts \<Longrightarrow> int (length (thread_futs (ts ! k))) < windows ! k \<Longrightarrow> int (card (dom ask)) < sum_list windows"
proof -
  have each: "int (length (thread_futs (ts ! k))) \<le> windows ! k" if "k < length ts" for k
    using assms(1) that unfolding team_inv_def by (intro thread_ok_window assms(2)) auto
  have total: "sum_list windows = (\<Sum>k < length ts. windows ! k)"
    using assms(1) by (simp add: team_inv_def sum_list_sum_nth atLeast0LessThan)
  show "int (card (dom ask)) \<le> sum_list windows"
    unfolding team_card [OF assms(1)] total by (rule sum_mono) (use each in simp)
  show "int (card (dom ask)) < sum_list windows"
    if "k < length ts" "int (length (thread_futs (ts ! k))) < windows ! k"
    unfolding team_card [OF assms(1)] total
    by (rule sum_strict_mono_ex1) (use each that in auto)
qed

context bench_engine
begin

definition team_pre where
  "team_pre args windows blocks \<longleftrightarrow> (\<forall>w \<in> set windows. 0 < w) \<and> sum_list windows \<le> int limit
     \<and> (\<forall>b \<in> set blocks. \<forall>i \<in> set b. admits (engine_request args i))"

lemma thread_step_ok:
  assumes "ok s" and recd: "recd = engine_row answers args mk"
    and inv: "team_inv (asked s) args recd keep windows blocks ts" and pre: "team_pre args windows blocks"
  shows "\<exists>s' ts'. thread_step A args mk keep windows k (s, ts) = (s', ts') \<and> ok s'
     \<and> team_inv (asked s') args recd keep windows blocks ts' \<and> length ts' = length ts
     \<and> (\<forall>j < length ts. thread_work (ts' ! j) \<le> thread_work (ts ! j) - (if j = k then 1 else 0))"
proof (cases "k < length ts")
  case False
  then show ?thesis using assms(1) inv by (auto simp: thread_step_def)
next
  case True
  have k: "thread_ok (asked s) args recd keep (windows ! k) (blocks ! k) (ts ! k)"
    using inv True by (simp add: team_inv_def)
  show ?thesis
  proof (cases "ts ! k")
    case (Running ph rest infl records)
    let ?pre = "concat (map thread_futs (take k ts))" and ?post = "concat (map thread_futs (drop (Suc k) ts))"
    have split: "ts = take k ts @ ts ! k # drop (Suc k) ts" using True by (simp add: id_take_nth_drop)
    have futs: "concat (map thread_futs ts) = ?pre @ map fst infl @ ?post"
      by (subst split) (simp add: Running)
    have all: "distinct (?pre @ map fst infl @ ?post)" "dom (asked s) = set (?pre @ map fst infl @ ?post)"
      using inv unfolding team_inv_def futs by auto
    have win: "0 < windows ! k" "\<And>w. w \<in> set windows \<Longrightarrow> 0 \<le> w"
      using inv True pre by (auto simp: team_inv_def team_pre_def less_imp_le)
    have room: "card (dom (asked s)) < limit" if "int (length infl) < windows ! k"
      using team_bound(2) [OF inv win(2) True] that pre by (simp add: Running team_pre_def)
    have adm: "admits (engine_request args i)" if "i \<in> set (blocks ! k)" for i
      using that pre inv True by (auto simp: team_pre_def team_inv_def)
    obtain s' th where call: "thread_call A args mk keep (windows ! k) ph rest infl records s = (s', Returns th)"
        and r: "ok s'" "thread_ok (asked s') args recd keep (windows ! k) (blocks ! k) th"
          "own_change (asked s) (map fst infl) (asked s') (thread_futs th)" "thread_work th < thread_work (ts ! k)"
      using thread_call_runs [OF assms(1) recd k [unfolded Running] _ _ adm room win(1)] all
      unfolding runs_iff Running by auto
    note team = own_change_team [OF r(3) all]
    have "concat (map thread_futs (ts[k := th])) = ?pre @ thread_futs th @ ?post"
      using True by (simp add: upd_conv_take_nth_drop)
    moreover have "thread_ok (asked s') args recd keep (windows ! j) (blocks ! j) (ts ! j)"
      if j: "j < length ts" "j \<noteq> k" for j
    proof (rule thread_ok_cong)
      show "thread_ok (asked s) args recd keep (windows ! j) (blocks ! j) (ts ! j)" using inv j by (simp add: team_inv_def)
      have "ts ! j \<in> set (take k ts) \<union> set (drop (Suc k) ts)"
      proof (cases "j < k")
        case True
        then show ?thesis using j by (auto simp: in_set_conv_nth intro!: exI [of _ j])
      next
        case False
        then show ?thesis using j by (auto simp: in_set_conv_nth intro!: exI [of _ "j - Suc k"])
      qed
      then have "set (thread_futs (ts ! j)) \<subseteq> set ?pre \<union> set ?post" by auto
      then show "asked s' f = asked s f" if "f \<in> set (thread_futs (ts ! j))" for f using team(3) that by blast
    qed
    ultimately have "team_inv (asked s') args recd keep windows blocks (ts[k := th])"
      using inv r(2) team(1,2) True unfolding team_inv_def by (auto simp: nth_list_update)
    moreover have "thread_step A args mk keep windows k (s, ts) = (s', ts[k := th])"
      using True call by (simp add: thread_step_def Running)
    ultimately show ?thesis using r(1,4) by (auto simp: nth_list_update)
  next
    case (Returned records)
    then show ?thesis using assms(1) inv True by (auto simp: thread_step_def)
  next
    case (Failed x)
    then show ?thesis using k by simp
  qed
qed

text \<open>Any schedule keeps the invariant, and every turn of a thread takes it closer to its end.\<close>

lemma threads_run:
  assumes "ok s" and recd: "recd = engine_row answers args mk"
    and "team_inv (asked s) args recd keep windows blocks ts" and pre: "team_pre args windows blocks"
  shows "\<exists>s' ts'. fold (thread_step A args mk keep windows) sched (s, ts) = (s', ts') \<and> ok s'
     \<and> team_inv (asked s') args recd keep windows blocks ts' \<and> length ts' = length ts
     \<and> (\<forall>j < length ts. thread_work (ts' ! j) \<le> thread_work (ts ! j) - count_list sched j)"
  using assms(1,3)
proof (induction sched arbitrary: s ts)
  case Nil
  then show ?case by simp
next
  case (Cons k sched)
  obtain s1 ts1 where 1: "thread_step A args mk keep windows k (s, ts) = (s1, ts1)" "ok s1"
      "team_inv (asked s1) args recd keep windows blocks ts1" "length ts1 = length ts"
      "\<forall>j < length ts. thread_work (ts1 ! j) \<le> thread_work (ts ! j) - (if j = k then 1 else 0)"
    using thread_step_ok [OF Cons.prems(1) recd Cons.prems(2) pre] by blast
  obtain s2 ts2 where 2: "fold (thread_step A args mk keep windows) sched (s1, ts1) = (s2, ts2)" "ok s2"
      "team_inv (asked s2) args recd keep windows blocks ts2" "length ts2 = length ts1"
      "\<forall>j < length ts1. thread_work (ts2 ! j) \<le> thread_work (ts1 ! j) - count_list sched j"
    using Cons.IH [OF 1(2,3)] by blast
  have "thread_work (ts2 ! j) \<le> thread_work (ts ! j) - count_list (k # sched) j" if "j < length ts" for j
    using 1(4,5) 2(5) that by (fastforce split: if_splits)
  then show ?case using 1 2 by simp
qed

end

subsection \<open>Windows and blocks\<close>

lemma sum_first: "0 \<le> r \<Longrightarrow> r \<le> int t \<Longrightarrow> (\<Sum>k < t. if int k < r then 1 else 0 :: int) = r"
proof (induction t arbitrary: r)
  case (Suc t)
  then show ?case using Suc.IH [of r] Suc.IH [of "r - 1"] by (cases "r = int (Suc t)") auto
qed simp

text \<open>The windows add up to the concurrency asked for, unless there are more threads than that.\<close>

lemma client_windows_sum:
  assumes "0 < t" and "0 \<le> c"
  shows "sum_list (client_windows c t) = max c (int t)"
proof -
  let ?w = "\<lambda>k. c div int t + (if int k < c mod int t then 1 else 0)"
  have sum: "sum_list (client_windows c t) = (\<Sum>k < t. max 1 (?w k))"
    by (simp add: client_windows_def sum_list_sum_nth atLeast0LessThan)
  have mod: "0 \<le> c mod int t" "c mod int t < int t" using assms by simp_all
  show ?thesis
  proof (cases "int t \<le> c")
    case True
    then have "1 \<le> c div int t" using assms(1) zdiv_mono1 [OF True, of "int t"] by simp
    then have "(\<Sum>k < t. max 1 (?w k)) = (\<Sum>k < t. ?w k)" by (intro sum.cong) auto
    also have "\<dots> = int t * (c div int t) + (\<Sum>k < t. if int k < c mod int t then 1 else 0)"
      by (simp add: sum.distrib)
    also have "\<dots> = c" using sum_first [of "c mod int t" t] mod by simp
    finally show ?thesis using sum True by simp
  next
    case False
    then have "c div int t = 0" using assms by (simp add: div_pos_pos_trivial)
    then have "(\<Sum>k < t. max 1 (?w k)) = (\<Sum>k < t. 1)" by (intro sum.cong) auto
    then show ?thesis using sum False by simp
  qed
qed

lemma concat_slices:
  "mono f \<Longrightarrow> f 0 = 0 \<Longrightarrow>
     concat (map (\<lambda>k. take (f (k + 1) - f k) (drop (f k) xs)) [0..<t]) = take (f t :: nat) xs"
proof (induction t)
  case (Suc t)
  have "f t \<le> f (Suc t)" using Suc.prems(1) by (simp add: monoD)
  then show ?case using Suc take_add [of "f t" "f (Suc t) - f t" xs] by simp
qed simp

text \<open>The blocks are the indices, cut up.\<close>

lemma client_blocks_concat: "0 < t \<Longrightarrow> concat (client_blocks indices t) = indices"
proof -
  assume t: "0 < t"
  have "mono (\<lambda>k. length indices * k div t)" by (intro monoI div_le_mono mult_le_mono2)
  from concat_slices [OF this, of indices t] t show ?thesis by (simp add: client_blocks_def)
qed

lemma retired_concat:
  "(\<And>k. k < length ts \<Longrightarrow> \<exists>r. ts ! k = Returned r \<and> retired recd keep (blocks ! k) r) \<Longrightarrow> length blocks = length ts \<Longrightarrow>
     retired recd keep (concat blocks) (thread_rows ts) \<and> thread_errors ts = [] \<and> list_all joined ts"
proof (induction ts arbitrary: blocks)
  case Nil
  then show ?case by (simp add: retired_def)
next
  case (Cons th ts)
  obtain b bs where b: "blocks = b # bs" using Cons.prems(2) by (cases blocks) auto
  obtain r where r: "th = Returned r" "retired recd keep b r" using Cons.prems(1) [of 0] b by auto
  have "retired recd keep (concat bs) (thread_rows ts) \<and> thread_errors ts = [] \<and> list_all joined ts"
  proof (rule Cons.IH)
    show "\<exists>r. ts ! k = Returned r \<and> retired recd keep (bs ! k) r" if "k < length ts" for k
      using Cons.prems(1) [of "Suc k"] that b by simp
    show "length bs = length ts" using Cons.prems(2) b by simp
  qed
  then show ?case using r b by (auto simp: retired_def list_all2_appendI split: if_splits)
qed

text \<open>Every thread gets to run often enough.\<close>

definition fair :: "nat \<Rightarrow> nat \<Rightarrow> nat list \<Rightarrow> bool" where
  "fair t n sched \<longleftrightarrow> (\<forall>k < t. 3 * n + 2 \<le> count_list sched k)"

context bench_engine
begin

text \<open>The threads as they are started.\<close>

lemma team_start:
  assumes adm: "\<And>i. i \<in> set indices \<Longrightarrow> admits (engine_request args i)"
    and "0 < t" and "0 \<le> da_concurrency args" and "da_concurrency args \<le> int limit" and "int t \<le> int limit"
    and "asked s = Map.empty"
  shows "team_inv (asked s) args recd keep (client_windows (da_concurrency args) t) (client_blocks indices t)
      (map (\<lambda>b. Running Filling b [] []) (client_blocks indices t) :: 'f thread list)"
    "team_pre args (client_windows (da_concurrency args) t) (client_blocks indices t)"
proof -
  let ?ws = "client_windows (da_concurrency args) t" and ?bs = "client_blocks indices t"
  let ?start = "map (\<lambda>b. Running Filling b [] []) ?bs :: 'f thread list"
  have all: "concat ?bs = indices" by (rule client_blocks_concat [OF assms(2)])
  have len: "length ?bs = t" "length ?ws = t" by (simp_all add: client_blocks_def client_windows_def)
  have pos: "\<forall>w \<in> set ?ws. 0 < w" by (auto simp: client_windows_def)
  have sub: "i \<in> set indices" if "b \<in> set ?bs" "i \<in> set b" for b i
    using that all by (metis UN_I set_concat)
  show "team_pre args ?ws ?bs"
    using pos client_windows_sum [OF assms(2,3)] assms(4,5) adm sub by (simp add: team_pre_def)
  have futs: "concat (map thread_futs ?start) = []" by simp
  have "thread_ok (asked s) args recd keep (?ws ! k) (?bs ! k) (?start ! k)" if "k < t" for k
    using that len pos by (auto simp: owns_def retired_def phase_ok_def less_imp_le intro!: thread_okI [of _ _ "[]" _ _ _ "[]"])
  then show "team_inv (asked s) args recd keep ?ws ?bs ?start"
    unfolding team_inv_def futs using len assms(6) by simp
qed

text \<open>At no moment are more requests in flight than the concurrency, or one per thread.\<close>

lemma threads_in_flight:
  assumes adm: "\<And>i. i \<in> set indices \<Longrightarrow> admits (engine_request args i)"
    and t: "0 < t" and c: "0 \<le> da_concurrency args" "da_concurrency args \<le> int limit" "int t \<le> int limit"
    and "ok s" and e: "asked s = Map.empty"
  shows "\<exists>s' ts. fold (thread_step A args mk keep (client_windows (da_concurrency args) t)) sched
       (s, map (\<lambda>b. Running Filling b [] []) (client_blocks indices t)) = (s', ts)
     \<and> int (card (dom (asked s'))) \<le> max (da_concurrency args) (int t)"
proof -
  let ?ws = "client_windows (da_concurrency args) t"
  note start = team_start [OF adm t c e]
  obtain s' ts where r: "fold (thread_step A args mk keep ?ws) sched
       (s, map (\<lambda>b. Running Filling b [] []) (client_blocks indices t)) = (s', ts)"
      "team_inv (asked s') args (engine_row answers args mk) keep ?ws (client_blocks indices t) ts"
    using threads_run [OF assms(6) refl start, where sched = sched] by blast
  have "int (card (dom (asked s'))) \<le> sum_list ?ws"
    by (rule team_bound(1) [OF r(2)]) (auto simp: client_windows_def)
  then show ?thesis using r(1) client_windows_sum [OF t c(1)] by auto
qed

text \<open>Any fair interleaving: all threads return, and the rows are in index order.\<close>

lemma hpx_threaded_runs:
  assumes adm: "\<And>i. i \<in> set indices \<Longrightarrow> admits (engine_request args i)"
    and "0 < client_threads" and "0 \<le> da_concurrency args" and "da_concurrency args \<le> int limit"
    and "int (client_count client_threads (length indices)) \<le> int limit"
    and fair: "fair (client_count client_threads (length indices)) (length indices) sched"
    and "ok s" and "asked s = Map.empty"
  shows "runs (hpx_run_threaded sched A args indices run_id workload mode keep client_threads) s (\<lambda>s' records.
     ok s' \<and> asked s' = Map.empty \<and> retired (hpx_row answers args run_id workload mode) keep indices records)"
proof -
  let ?t = "client_count client_threads (length indices)"
  let ?ws = "client_windows (da_concurrency args) ?t" and ?bs = "client_blocks indices ?t"
  let ?start = "map (\<lambda>b. Running Filling b [] []) ?bs :: 'f thread list"
  let ?recd = "hpx_row answers args run_id workload mode"
  have t: "0 < ?t" using assms(2) by (auto simp: client_count_def)
  have all: "concat ?bs = indices" by (rule client_blocks_concat [OF t])
  have len: "length ?bs = ?t" by (simp add: client_blocks_def)
  note start = team_start [OF adm t assms(3,4,5,8)]
  obtain s' ts where r: "fold (thread_step A args (hpx_make_record args run_id workload mode) keep ?ws) sched (s, ?start) = (s', ts)"
      "ok s'" "team_inv (asked s') args ?recd keep ?ws ?bs ts" "length ts = length ?start"
      "\<forall>j < length ?start. thread_work (ts ! j) \<le> thread_work (?start ! j) - count_list sched j"
    using threads_run [OF assms(7) refl start, where sched = sched] by blast
  have ended: "\<exists>rs. ts ! k = Returned rs \<and> retired ?recd keep (?bs ! k) rs" if "k < length ts" for k
  proof -
    have k: "k < ?t" using that r(4) len by simp
    have "length (?bs ! k) \<le> length indices"
      using k len member_le_sum_list [of "length (?bs ! k)" "map length ?bs"] length_concat [of ?bs] all by simp
    then have "thread_work (?start ! k) \<le> count_list sched k" using fair k len unfolding fair_def by fastforce
    then have "thread_work (ts ! k) = 0" using r(5) k len by (metis diff_is_0_eq le_zero_eq length_map)
    moreover have "thread_ok (asked s') args ?recd keep (?ws ! k) (?bs ! k) (ts ! k)" using r(3) that by (simp add: team_inv_def)
    ultimately show ?thesis by (cases "ts ! k") auto
  qed
  have fin: "retired ?recd keep (concat ?bs) (thread_rows ts) \<and> thread_errors ts = [] \<and> list_all joined ts"
    using ended by (rule retired_concat) (use r(4) in simp_all)
  have "set (concat (map thread_futs ts)) = {}"
    using ended by (fastforce simp: in_set_conv_nth)
  then have "asked s' = Map.empty" using r(3) unfolding team_inv_def by simp
  then show ?thesis
    using fin r(1,2) unfolding hpx_run_threaded_def runs_def Let_def all by simp
qed

end

end
