(* ===== verification/BenchBulk.thy ===== *)
theory BenchBulk
  imports BenchHpxInv BenchEngine
begin

text \<open>
  The bulk path: one batch submission, its futures collected in order. The engine's part of the contract
  is that a batch returns one new future per request, in input order; the model keeps it whichever lane
  each request goes to.
\<close>

subsection \<open>The contract of a batch\<close>

definition batch_reqs :: "batch_service \<Rightarrow> string \<Rightarrow> engine_req list" where
  "batch_reqs b mode = map (\<lambda>s. (s, mode, 1, Fin 0)) (case b of Scalar s n \<Rightarrow> replicate (nat n) s | Varied ss \<Rightarrow> ss)"

lemma svc_fixed: "sa_pattern args = ''fixed'' \<Longrightarrow> svc args i = sa_service_ms args"
  by (simp add: svc_def service_for_def)

definition hpx_batch_service :: "dargs \<Rightarrow> int \<Rightarrow> batch_service" where
  "hpx_batch_service args n =
     (if sa_pattern args = ''bimodal'' then Varied (map (svc args) [0..<nat n]) else Scalar (sa_service_ms args) n)"

locale bench_batch = bench_engine A ok asked admits answers limit
  for A :: "('s, 'f, 'z) engine_api_scheme"
    and ok :: "'s \<Rightarrow> bool"
    and asked :: "'s \<Rightarrow> 'f \<rightharpoonup> engine_req"
    and admits :: "engine_req \<Rightarrow> bool"
    and answers :: "engine_req \<Rightarrow> hrow \<Rightarrow> bool"
    and limit :: nat +
  fixes batch_admits :: "batch_service \<Rightarrow> string \<Rightarrow> bool"
  assumes batch_law: "ok s \<Longrightarrow> batch_admits b mode \<Longrightarrow> card (dom (asked s)) + length (batch_reqs b mode) \<le> limit \<Longrightarrow>
      runs (ap_batch A b mode) s (\<lambda>s' fs. ok s' \<and> distinct fs \<and> length fs = length (batch_reqs b mode)
        \<and> asked s' = asked s ++ map_of (zip fs (batch_reqs b mode)))"
begin

lemma hpx_batch_rows_runs:
  assumes "ok s" and "distinct fs" and "dom (asked s) = set fs"
    and "\<And>k. k < length fs \<Longrightarrow> asked s (fs ! k) = Some (engine_request args (idx + k))"
    and "case svc_list of None \<Rightarrow> \<forall>i. svc args i = sa_service_ms args
      | Some ss \<Rightarrow> idx + length fs \<le> length ss \<and> (\<forall>i < length ss. ss ! i = svc args i)"
  shows "runs (hpx_batch_rows A args mk keep svc_list idx fs) s (\<lambda>s' records. ok s' \<and> asked s' = Map.empty
     \<and> retired (engine_row answers args mk) keep [idx..<idx + length fs] records)"
  using assms
proof (induction fs arbitrary: s idx)
  case Nil
  then show ?case by (simp add: runs_ret retired_def)
next
  case (Cons f fs)
  let ?Q = "\<lambda>idx fs s' records. ok s' \<and> asked s' = Map.empty
     \<and> retired (engine_row answers args mk) keep [idx..<idx + length fs] records"
  have f: "asked s f = Some (engine_request args idx)" using Cons.prems(4) [of 0] by simp
  show ?case
    unfolding hpx_batch_rows.simps runs_bind
  proof (rule runs_mono [OF result_law [OF Cons.prems(1) f]], simp, elim conjE)
    fix s' row
    assume r: "ok s'" "asked s' = (asked s)(f := None)" "answers (engine_request args idx) row"
    have rec: "engine_row answers args mk idx (mk (req_id idx) row (svc args idx))" using r(3) unfolding engine_row_def by blast
    have rest: "runs (hpx_batch_rows A args mk keep svc_list (Suc idx) fs) s' (?Q (Suc idx) fs)"
    proof (rule Cons.IH [OF r(1)])
      show "dom (asked s') = set fs" using Cons.prems(2,3) r(2) by auto
      show "asked s' (fs ! k) = Some (engine_request args (Suc idx + k))" if "k < length fs" for k
        using Cons.prems(4) [of "Suc k"] Cons.prems(2) that r(2) by auto
    qed (use Cons.prems in \<open>auto split: option.splits\<close>)
    have up: "[idx..<idx + length (f # fs)] = idx # [Suc idx..<Suc idx + length fs]"
      by (subst upt_conv_Cons) simp_all
    have sv: "(case svc_list of None \<Rightarrow> io_ret (sa_service_ms args)
           | Some ss \<Rightarrow> if idx < length ss then io_ret (ss ! idx) else io_raise IndexError) = io_ret (svc args idx)"
      using Cons.prems(5) by (auto split: option.splits)
    show "runs (if \<not> keep then hpx_batch_rows A args mk keep svc_list (Suc idx) fs
        else io_bind (case svc_list of None \<Rightarrow> io_ret (sa_service_ms args)
           | Some ss \<Rightarrow> if idx < length ss then io_ret (ss ! idx) else io_raise IndexError) (\<lambda>sv.
         io_bind (hpx_batch_rows A args mk keep svc_list (Suc idx) fs) (\<lambda>rows. io_ret (mk (req_id idx) row sv # rows))))
        s' (?Q idx (f # fs))"
    proof (cases keep)
      case True
      then show ?thesis
        unfolding up sv
        apply (simp only: not_True_eq_False if_False runs_bind runs_ret)
        apply (rule runs_mono [OF rest [unfolded eqTrueI [OF True]]])
        using rec apply (simp add: retired_def)
        done
    next
      case False
      then have k: "keep = False" by simp
      show ?thesis unfolding k by (simp, rule runs_mono [OF rest [unfolded k]]) (simp add: retired_def)
    qed
  qed
qed

text \<open>The bulk path writes the requests in index order.\<close>

lemma hpx_batch_runs:
  assumes adm: "batch_admits (hpx_batch_service args n) (da_work_mode args)"
    and unchunked: "da_chunks args = 1" "da_chunk_delay_ms args = Fin 0"
    and pattern: "sa_pattern args \<in> {''fixed'', ''bimodal''}"
    and room: "nat n \<le> limit" and "ok s" and "asked s = Map.empty"
  shows "runs (hpx_run_batch A args n run_id workload mode keep) s (\<lambda>s' records. ok s' \<and> asked s' = Map.empty
     \<and> retired (hpx_row answers args run_id workload mode) keep [0..<nat n] records)"
proof -
  let ?ss = "if sa_pattern args = ''bimodal'' then Some (map (svc args) [0..<nat n]) else None"
  let ?b = "hpx_batch_service args n"
  have b: "(case ?ss of Some ss \<Rightarrow> Varied ss | None \<Rightarrow> Scalar (sa_service_ms args) n) = ?b"
    by (simp add: hpx_batch_service_def)
  have reqs: "batch_reqs ?b (da_work_mode args) = map (engine_request args) [0..<nat n]"
    using unchunked svc_fixed [of args] pattern
    by (cases "sa_pattern args = ''bimodal''")
      (simp_all add: batch_reqs_def hpx_batch_service_def engine_request_def map_replicate_trivial [symmetric] comp_def)
  have len: "length (batch_reqs ?b (da_work_mode args)) = nat n" unfolding reqs by simp
  have "runs (ap_batch A ?b (da_work_mode args)) s (\<lambda>s' fs. ok s' \<and> distinct fs \<and> length fs = nat n
        \<and> asked s' = asked s ++ map_of (zip fs (map (engine_request args) [0..<nat n])))"
    using batch_law [OF assms(6) adm] room assms(7) unfolding len unfolding reqs by simp
  then show ?thesis
    unfolding hpx_run_batch_def Let_def runs_bind b
  proof (rule runs_mono, elim conjE)
    fix s' fs
    assume r: "ok s'" "distinct fs" "length fs = nat n"
      "asked s' = asked s ++ map_of (zip fs (map (engine_request args) [0..<nat n]))"
    then have ask: "asked s' = map_of (zip fs (map (engine_request args) [0..<nat n]))" using assms(7) by simp
    have "runs (hpx_batch_rows A args (hpx_make_record args run_id workload mode) keep ?ss 0 fs) s' (\<lambda>s' records. ok s'
       \<and> asked s' = Map.empty \<and> retired (hpx_row answers args run_id workload mode) keep [0..<0 + length fs] records)"
    proof (rule hpx_batch_rows_runs [OF r(1,2)])
      show "dom (asked s') = set fs" using r(3) by (simp add: ask)
      show "asked s' (fs ! k) = Some (engine_request args (0 + k))" if "k < length fs" for k
        using that r(2,3) unfolding ask by (simp add: map_of_zip_nth)
    qed (use svc_fixed r(3) pattern in auto)
    then show "runs (hpx_batch_rows A args (hpx_make_record args run_id workload mode) keep ?ss 0 fs) s' (\<lambda>s' records. ok s'
       \<and> asked s' = Map.empty \<and> retired (hpx_row answers args run_id workload mode) keep [0..<nat n] records)"
      using r(3) by simp
  qed
qed

end

subsection \<open>The model's batch\<close>

lemma push_all_cells_eq:
  "ln_cells (push_all rqs l) = ln_cells l @ map (\<lambda>rq. \<lparr>cl_req = rq, cl_tok = None, cl_pend = False, cl_proms = []\<rparr>) rqs"
  by (induction rqs arbitrary: l) (simp_all add: push_item_def)

lemma quiet_push_all: "quiet l \<Longrightarrow> quiet (push_all rqs l)"
  by (auto simp: quiet_def push_all_cells_eq)

lemma spec_key_req:
  assumes "i < length rqs" and "route i < length ls"
  shows "fst (spec_key route ls i) < length ls"
    "cl_req (ln_cells (spec_lanes route rqs ls ! fst (spec_key route ls i)) ! snd (spec_key route ls i)) = rqs ! i"
  using assms group_nth_pos [of i rqs route "route i"]
  by (auto simp: spec_key_def spec_lanes_def push_all_cells_eq nth_append)

lemma spec_lanes_old:
  "k < length (ln_cells (ls ! l)) \<Longrightarrow> l < length ls \<Longrightarrow>
     ln_cells (spec_lanes route rqs ls ! l) ! k = ln_cells (ls ! l) ! k"
  by (simp add: spec_lanes_def push_all_cells_eq nth_append)

definition be_batch_admits :: "batch_service \<Rightarrow> string \<Rightarrow> bool" where
  "be_batch_admits b mode = (validate_work_mode (VStr mode) = Inr mode \<and> (case b of
       Scalar s n \<Rightarrow> 1 \<le> n \<and> n < 2 ^ 31
     | Varied ss \<Rightarrow> validate_batch_service_ms (VList (map VFloat ss)) VNone = Inr (Some ss) \<and> ss \<noteq> []))"

definition batch_times :: "batch_service \<Rightarrow> pyfloat list" where
  "batch_times b = (case b of Scalar s n \<Rightarrow> replicate (nat n) s | Varied ss \<Rightarrow> ss)"

lemma batch_native_admitted:
  assumes "be_batch_admits b mode" and "en_running e"
  shows "rbind (validate_batch_service_ms (fst (batch_args b)) (snd (batch_args b))) (\<lambda>svc_list.
     batch_native now (fst (batch_args b)) (snd (batch_args b)) mode svc_list e)
     = Inr (enqueue_round_robin (map (batch_request mode now) (batch_times b)) e)"
  using assms
  by (cases b) (auto simp: be_batch_admits_def batch_args_def batch_native_def batch_times_def cross_int32_def
      engine_submit_batch_def engine_submit_batch_varied_def rbind_def)


lemma batch_reqs_times: "batch_reqs b mode = map (\<lambda>s. (s, mode, 1, Fin 0)) (batch_times b)"
  by (simp add: batch_reqs_def batch_times_def)

lemma batch_unbounded:
  assumes "pe_reachable pe" and "\<not> pe_closed pe" and "pe_cap_arg pe = VNone" and "be_batch_admits b mode"
  obtains pe' where "eng_submit_batch t now (fst (batch_args b)) (snd (batch_args b)) (VStr mode) pe =
      (pe', Inr [length (pe_futs pe)..<length (pe_futs pe) + length (batch_reqs b mode)])"
    "pe_reachable pe'" "pe_closed pe' = pe_closed pe" "pe_cap_arg pe' = VNone" "eng_quiet pe \<longrightarrow> eng_quiet pe'"
    "\<forall>f \<in> set (pe_futs pe'). f \<in> set (pe_futs pe) \<or> fu_submit_ns f = t"
    "eng_asked pe' = eng_asked pe ++ map_of (zip [length (pe_futs pe)..<length (pe_futs pe) + length (batch_reqs b mode)]
       (batch_reqs b mode))"
proof -
  let ?e = "pe_native pe" and ?n = "length (pe_futs pe)" and ?route = "rr_lane (pe_native pe)"
  let ?ls = "en_lanes (pe_native pe)"
  define rqs where "rqs = map (batch_request mode now) (batch_times b)"
  have len: "length rqs = length (batch_reqs b mode)" by (simp add: rqs_def batch_reqs_times)
  have inv: "pe_inv pe" using assms(1) by (rule pe_reachable_inv)
  have e: "en_running ?e" "?ls \<noteq> []" "length (en_futs ?e) = ?n"
    using inv assms(2) by (auto simp: pe_inv_def futs_ok_def)
  have route: "?route i < length ?ls" for i using rr_lane_bound [OF e(2)] by simp
  have single: "enqueue_single ?route 0 rqs ?ls = (spec_lanes ?route rqs ?ls, map (spec_key ?route ?ls) [0..<length rqs])"
    by (rule enqueue_single_spec) (use route in simp)
  define e' where "e' = fst (enqueue_round_robin rqs ?e)"
  note enq = enqueue_round_robin_eq [OF e(2) single]
  have lanes': "en_lanes e' = spec_lanes ?route rqs ?ls"
    and futs': "en_futs e' = en_futs ?e @ map (\<lambda>(i, k). \<lparr>ef_lane = i, ef_id = k, ef_tok = False, ef_valid = True\<rparr>)
       (map (spec_key ?route ?ls) [0..<length rqs])"
    by (simp_all add: e'_def enq add_futures_eq rr_advance_def)
  define pe' where "pe' = wrap_batch t [?n..<?n + length rqs] (with_native e' pe)"
  have pe': "pe_futs pe' = pe_futs pe @ map (\<lambda>cf. new_pyfuture cf t VNone 1 (Fin 0)) [?n..<?n + length rqs]"
      "pe_native pe' = e'" "pe_closed pe' = pe_closed pe" "pe_cap_arg pe' = pe_cap_arg pe"
    by (simp_all add: pe'_def wrap_batch_eq with_native_def)
  have mode: "validate_work_mode (VStr mode) = Inr mode" using assms(4) by (simp add: be_batch_admits_def)
  have cfs: "enqueue_round_robin rqs ?e = (e', [?n..<?n + length rqs])"
    using enq e(3) by (simp add: e'_def)
  have eq: "eng_submit_batch t now (fst (batch_args b)) (snd (batch_args b)) (VStr mode) pe = (pe', Inr [?n..<?n + length rqs])"
    using assms(3) batch_native_admitted [OF assms(4) e(1), of now] mode cfs
    by (simp add: eng_submit_batch_def rqs_def pe'_def)
  have "pe_reachable pe'"
    using pe_reachable.Batch [OF assms(1), of t now "fst (batch_args b)" "snd (batch_args b)" "VStr mode"] eq by simp
  moreover have "eng_quiet pe'" if "eng_quiet pe"
    using that quiet_push_all by (auto simp: eng_quiet_def pe'(2) lanes' spec_lanes_def)
  moreover have "\<forall>f \<in> set (pe_futs pe'). f \<in> set (pe_futs pe) \<or> fu_submit_ns f = t"
    by (auto simp: pe'(1) new_pyfuture_def)
  moreover have "eng_asked pe' = eng_asked pe ++ map_of (zip [?n..<?n + length rqs] (batch_reqs b mode))"
  proof
    fix j
    consider (old) "j < ?n" | (new) i where "j = ?n + i" "i < length rqs" | (none) "?n + length rqs \<le> j"
      by (metis add_diff_inverse_nat less_diff_conv2 linorder_not_less not_less_iff_gr_or_eq nat_add_left_cancel_less)
    then show "eng_asked pe' j = (eng_asked pe ++ map_of (zip [?n..<?n + length rqs] (batch_reqs b mode))) j"
    proof cases
      case old
      have f: "fut_ok ?ls j (en_futs ?e ! j) (pe_futs pe ! j)" using reach_fut(1) [OF assms(1) old] .
      have "en_cell e' j = en_cell ?e j"
        using f old e(3) by (simp add: en_cell_def lanes' futs' nth_append fut_ok_def spec_lanes_old)
      moreover have "map_of (zip [?n..<?n + length rqs] (batch_reqs b mode)) j = None"
        using old len by (simp add: map_of_zip_is_None)
      ultimately show ?thesis using old by (simp add: eng_asked_def pe'(1,2) nth_append map_add_def)
    next
      case (new i)
      have "cl_req (en_cell e' j) = rqs ! i"
        using spec_key_req [OF new(2), of ?route ?ls] route new e(3)
        by (simp add: en_cell_def lanes' futs' nth_append case_prod_unfold)
      then have "asked_of (cl_req (en_cell e' j)) = batch_reqs b mode ! i"
        using new(2) by (simp add: rqs_def batch_reqs_times batch_request_def asked_of_single)
      moreover have "map_of (zip [?n..<?n + length rqs] (batch_reqs b mode)) ([?n..<?n + length rqs] ! i) = Some (batch_reqs b mode ! i)"
        using new(2) len by (intro map_of_zip_nth) simp_all
      ultimately show ?thesis
        using new by (simp add: eng_asked_def pe'(1,2) nth_append map_add_def new_pyfuture_def)
    next
      case none
      then have "map_of (zip [?n..<?n + length rqs] (batch_reqs b mode)) j = None"
        using len by (simp add: map_of_zip_is_None)
      then show ?thesis using none by (simp add: eng_asked_def pe'(1,2) map_add_def)
    qed
  qed
  ultimately show ?thesis using that [OF eq [unfolded len]] pe'(3,4) assms(3) unfolding len by simp
qed

lemma be_batch_runs:
  assumes "be_ok w" and "be_batch_admits b mode"
  shows "runs (be_batch b mode) w (\<lambda>w' fs. be_ok w' \<and> distinct fs \<and> length fs = length (batch_reqs b mode)
     \<and> be_asked w' = be_asked w ++ map_of (zip fs (batch_reqs b mode)))"
  unfolding be_batch_def runs_bind
proof (rule runs_mono [OF be_engine_runs [OF assms(1)]], elim conjE)
  fix w' pe
  assume w': "w' = w" and pe: "bw_engine w = Some pe" "pe_reachable pe" "\<not> pe_closed pe" "pe_cap_arg pe = VNone"
    "\<forall>f \<in> set (pe_futs pe). stamp (fu_submit_ns f)" "eng_quiet pe"
  let ?Q = "\<lambda>w' fs. be_ok w' \<and> distinct fs \<and> length fs = length (batch_reqs b mode)
     \<and> be_asked w' = be_asked w ++ map_of (zip fs (batch_reqs b mode))"
  have done_: "runs (case eng_submit_batch t now (fst (batch_args b)) (snd (batch_args b)) (VStr mode) pe of
         (pe', r) \<Rightarrow> io_bind (be_put pe') (\<lambda>_. io_py r)) w3 ?Q" if "be_ok w3" "stamp t" for w3 t now
  proof -
    obtain pe' where p: "eng_submit_batch t now (fst (batch_args b)) (snd (batch_args b)) (VStr mode) pe =
      (pe', Inr [length (pe_futs pe)..<length (pe_futs pe) + length (batch_reqs b mode)])"
    "pe_reachable pe'" "pe_closed pe' = pe_closed pe" "pe_cap_arg pe' = VNone" "eng_quiet pe \<longrightarrow> eng_quiet pe'"
    "\<forall>f \<in> set (pe_futs pe'). f \<in> set (pe_futs pe) \<or> fu_submit_ns f = t"
    "eng_asked pe' = eng_asked pe ++ map_of (zip [length (pe_futs pe)..<length (pe_futs pe) + length (batch_reqs b mode)]
       (batch_reqs b mode))"
      by (rule batch_unbounded [OF pe(2-4) assms(2)])
    have "runs (be_put pe') w3 (\<lambda>w' _. be_ok w' \<and> be_asked w' = eng_asked pe')"
      by (rule be_put_runs) (use p pe that in auto)
    then show ?thesis
      unfolding p(1) prod.case runs_bind runs_py
      by (rule runs_mono) (use p(7) pe(1) in \<open>simp add: be_asked_def\<close>)
  qed
  show "runs be_clock w' (\<lambda>s' t. runs be_clock s' (\<lambda>s' now. runs (case eng_submit_batch t now (fst (batch_args b))
      (snd (batch_args b)) (VStr mode) pe of (pe', r) \<Rightarrow> io_bind (be_put pe') (\<lambda>_. io_py r)) s' ?Q))"
    unfolding w' by (rule runs_mono [OF be_clock_runs [OF assms(1)]], rule runs_mono [OF be_clock_runs])
      (auto intro: done_)
qed

interpretation eng_bulk: bench_batch model_engine be_ok be_asked be_admits be_answers limit be_batch_admits for limit
  by unfold_locales (use be_batch_runs in \<open>simp add: model_engine_def\<close>)

end
