(* ===== verification/BenchHpxRun.thy ===== *)
theory BenchHpxRun
  imports BenchThreads BenchBulk
begin

text \<open>
  The whole run of the Python front-end driver, whichever way it dispatches, against the client's
  contract: an engine that can be opened, windowed and batched.
\<close>

locale bench_client =
  bench_host A ok asked admits answers limit opens + bench_batch A ok asked admits answers limit batch_admits
  for A :: "('s, 'f, 'z) engine_api_scheme"
    and ok :: "'s \<Rightarrow> bool"
    and asked :: "'s \<Rightarrow> 'f \<rightharpoonup> engine_req"
    and admits :: "engine_req \<Rightarrow> bool"
    and answers :: "engine_req \<Rightarrow> hrow \<Rightarrow> bool"
    and limit :: nat
    and opens :: "'s \<Rightarrow> int \<Rightarrow> int \<Rightarrow> string \<Rightarrow> int option \<Rightarrow> bool"
    and batch_admits :: "batch_service \<Rightarrow> string \<Rightarrow> bool"

text \<open>What the paths need: a window below the limit, a fair schedule of the client threads, a batch that
  is not chunked.\<close>

definition hpx_fits :: "nat \<Rightarrow> (batch_service \<Rightarrow> string \<Rightarrow> bool) \<Rightarrow> dargs \<Rightarrow> nat list \<Rightarrow> int \<Rightarrow> bool" where
  "hpx_fits limit batch_admits args sched n \<longleftrightarrow>
     (if batch_api args
      then da_chunks args = 1 \<and> da_chunk_delay_ms args = Fin 0 \<and> sa_pattern args \<in> {''fixed'', ''bimodal''}
        \<and> nat n \<le> limit \<and> batch_admits (hpx_batch_service args n) (da_work_mode args)
      else 0 < da_concurrency args \<and> da_concurrency args \<le> int limit \<and> 0 < da_client_threads args \<and> 1 \<le> da_wait_batch args
        \<and> (da_retire_mode args \<noteq> ''batch_wait'' \<and> da_client_threads args \<noteq> 1 \<longrightarrow>
             client_count (da_client_threads args) (nat n) \<le> limit
             \<and> fair (client_count (da_client_threads args) (nat n)) (nat n) sched))"

definition hpx_mode :: "dargs \<Rightarrow> string" where
  "hpx_mode args = (if batch_api args then ''batch'' else da_retire_mode args)"

context bench_client
begin

lemma hpx_dispatch_runs:
  assumes adm: "\<And>i. admits (engine_request args i)"
    and fit: "hpx_fits limit batch_admits args (if keep then sched else warm_sched) n"
    and "ok s" and "asked s = Map.empty"
  shows "runs (hpx_dispatch warm_sched sched A args run_id workload n keep) s (\<lambda>s' records. ok s' \<and> asked s' = Map.empty
     \<and> covers (hpx_row answers args run_id workload (hpx_mode args)) keep (nat n) records)"
proof -
  let ?P = "\<lambda>mode s' records. ok s' \<and> asked s' = Map.empty
     \<and> covers (hpx_row answers args run_id workload mode) keep (nat n) records"
  consider (batch) "batch_api args" | (wait) "\<not> batch_api args" "da_retire_mode args = ''batch_wait''"
    | (one) "\<not> batch_api args" "da_retire_mode args \<noteq> ''batch_wait''" "da_client_threads args = 1"
    | (many) "\<not> batch_api args" "da_retire_mode args \<noteq> ''batch_wait''" "da_client_threads args \<noteq> 1"
    by blast
  then show ?thesis
  proof cases
    case batch
    then have "runs (hpx_run_batch A args n run_id workload ''batch'' keep) s (?P ''batch'')"
      using fit assms(3,4) by (intro runs_mono [OF hpx_batch_runs]) (auto simp: hpx_fits_def covers_in_order)
    then show ?thesis using batch by (simp add: hpx_dispatch_def hpx_mode_def Let_def)
  next
    case wait
    then have "runs (hpx_run_batch_wait A args [0..<nat n] run_id workload (da_retire_mode args) keep) s (?P (da_retire_mode args))"
      unfolding covers_def using fit adm assms(3,4) by (intro hpx_batch_wait_runs) (auto simp: hpx_fits_def)
    then show ?thesis using wait by (simp add: hpx_dispatch_def hpx_mode_def Let_def)
  next
    case one
    then have "runs (hpx_run_one_by_one A args [0..<nat n] run_id workload (da_retire_mode args) keep (da_concurrency args))
        s (?P (da_retire_mode args))"
      using fit adm assms(3,4) by (intro runs_mono [OF hpx_one_by_one_runs]) (auto simp: hpx_fits_def covers_in_order)
    then show ?thesis using one by (simp add: hpx_dispatch_def hpx_mode_def Let_def)
  next
    case many
    then have "runs (hpx_run_threaded (if keep then sched else warm_sched) A args [0..<nat n] run_id workload
        (da_retire_mode args) keep (da_client_threads args)) s (?P (da_retire_mode args))"
      using fit adm assms(3,4) by (intro runs_mono [OF hpx_threaded_runs]) (auto simp: hpx_fits_def covers_in_order)
    then show ?thesis using many by (simp add: hpx_dispatch_def hpx_mode_def Let_def)
  qed
qed

lemma hpx_run_runs:
  assumes adm: "\<And>i. admits (engine_request args i)"
    and fit: "hpx_fits limit batch_admits args sched (da_requests args)"
    and warm: "0 < da_warmup_requests args \<Longrightarrow> hpx_fits limit batch_admits args warm_sched (da_warmup_requests args)"
    and small: "da_requests args \<le> 10 ^ 6"
    and wl: "hpx_workload args = Inr workload"
    and op: "opens s (da_num_lanes args) (da_hpx_threads args) ''std'' None"
  shows "runs (hpx_run warm_sched sched A args run_id) s (\<lambda>s' rows.
     list_all2 (hpx_row answers args run_id workload (hpx_mode args)) [0..<nat (da_requests args)] rows)"
proof -
  let ?recd = "hpx_row answers args run_id workload (hpx_mode args)"
  have meas: "runs (measured args (ap_clock A) (hpx_dispatch warm_sched sched A args run_id workload)) s'
      (\<lambda>s' records. ok s' \<and> asked s' = Map.empty
        \<and> covers ?recd True (nat (da_requests args)) records)"
    if "ok s'" "asked s' = Map.empty" for s'
    by (rule measured_runs [where P = "\<lambda>n keep records. covers ?recd keep (nat n) records"])
      (use that adm fit warm in \<open>auto intro!: hpx_dispatch_runs\<close>)
  show ?thesis
    unfolding hpx_run_def runs_bind runs_py wl
    apply (simp add: runs_bind)
    apply (rule runs_mono [OF open_law [OF op]])
    apply (simp only: runs_finally)
    apply (rule runs_mono [OF meas])
      apply (blast, blast)
    apply (unfold covers_def)
    apply (elim conjE exE)
    apply (rule runs_mono [OF shutdown_law], assumption)
    apply (simp only: runs_ret)
    apply (erule (1) sort_rows_in_order)
    using small apply simp
    apply (erule hpx_row_id)
    done
qed

end

interpretation client: bench_client model_engine be_ok be_asked be_admits be_answers limit be_opens be_batch_admits for limit
  by unfold_locales

end
