(* ===== verification/BenchHpxProps.thy ===== *)
theory BenchHpxProps
  imports BenchProps BenchHpxRun
begin

text \<open>What the Python front-end driver writes, on the model of \<open>rayx.Engine\<close>.\<close>

lemma hpx_option_names: "distinct (map op_name hpx_options)"
  by (simp add: hpx_options_def opt_defs)

lemma hpx_parsed:
  assumes "hpx_parse_args argv = Some args"
  shows "da_work_mode args \<in> {''sleep'', ''spin''}" "sa_pattern args \<in> {''fixed'', ''bimodal''}" "\<not> hpx_refused args"
proof -
  obtain ns where ns: "parse_known hpx_options argv = Some ns" "args = args_of ns" "\<not> hpx_refused args"
    using assms by (auto simp: hpx_parse_args_def checked_def bind_eq_Some_conv split: if_splits)
  note ch = parse_known_choices [OF ns(1) hpx_option_names]
  have def: "\<forall>q \<in> set hpx_options. op_type q = OStr \<and> op_choices q \<noteq> [] \<longrightarrow>
      (\<exists>s \<in> set (op_choices q). op_default q = VStr s)"
    by (simp add: hpx_options_def opt_defs)
  have mem: "str_opt ''work-mode'' [''sleep'', ''spin''] ''sleep'' \<in> set hpx_options"
      "str_opt ''service-pattern'' [''fixed'', ''bimodal''] ''fixed'' \<in> set hpx_options"
    by (simp_all add: hpx_options_def)
  show "da_work_mode args \<in> {''sleep'', ''spin''}" using ch [OF def mem(1)] by (simp add: ns(2) args_of_def str_opt_def)
  show "sa_pattern args \<in> {''fixed'', ''bimodal''}" using ch [OF def mem(2)] by (simp add: ns(2) args_of_def str_opt_def)
  show "\<not> hpx_refused args" by (rule ns(3))
qed

lemma no_delay: "fisfinite d \<Longrightarrow> \<not> flt d (Fin 0) \<Longrightarrow> \<not> flt (Fin 0) d \<Longrightarrow> d = Fin 0"
  by (cases d) auto

lemma batch_elements:
  "\<forall>s \<in> set ss. fisfinite s \<and> \<not> fle s (Fin 0) \<Longrightarrow> mapM_idx (\<lambda>i x. validate_batch_element x) k (map VFloat ss) = Inr ss"
  by (induction ss arbitrary: k) (simp_all add: validate_batch_element_def real_number_def)

text \<open>The engine admits the batch of an accepted command line.\<close>

lemma hpx_batch_admitted:
  assumes "da_work_mode args \<in> {''sleep'', ''spin''}" and "0 < n" and "n < 2 ^ 31"
    and "sa_pattern args = ''bimodal'' \<Longrightarrow> fisfinite (sa_low args) \<and> fisfinite (sa_high args)
      \<and> \<not> fle (sa_low args) (Fin 0) \<and> \<not> fle (sa_high args) (Fin 0)"
  shows "be_batch_admits (hpx_batch_service args n) (da_work_mode args)"
proof -
  have mode: "validate_work_mode (VStr (da_work_mode args)) = Inr (da_work_mode args)"
    using assms(1) by (auto simp: work_modes_def)
  show ?thesis
  proof (cases "sa_pattern args = ''bimodal''")
    case True
    have "fisfinite (svc args i) \<and> \<not> fle (svc args i) (Fin 0)" for i
      using True assms(4) [OF True] by (simp add: svc_def service_for_def Let_def)
    then have "\<forall>s \<in> set (map (svc args) [0..<nat n]). fisfinite s \<and> \<not> fle s (Fin 0)" by simp
    then have "validate_batch_list (map VFloat (map (svc args) [0..<nat n])) VNone = Inr (map (svc args) [0..<nat n])"
      using assms(2) by (simp only: validate_batch_list_def batch_elements) simp
    then show ?thesis using mode True assms(2) by (simp add: be_batch_admits_def hpx_batch_service_def)
  qed (use mode assms(2,3) in \<open>simp add: be_batch_admits_def hpx_batch_service_def\<close>)
qed

text \<open>
  C27. \<open>run_hpx_python_baseline.run\<close>: for an accepted command line with finite durations and at most a
  million requests, over any schedule of the lanes, any clock and any fair interleaving of the client
  threads, the run returns, whichever path it dispatches to: the FIFO window, client threads sharing the
  engine, the as-completed window, or one bulk batch. It writes exactly one row per request, row \<open>i\<close> being
  request \<open>i\<close> with its own service time, completed, with at least the requested active and parked time
  between its stamps, and tagged with the path that ran.
\<close>

theorem hpx_run_rows:
  assumes args: "hpx_parse_args argv = Some args"
    and engine: "fisfinite (da_chunk_delay_ms args)" "da_chunks args < 2 ^ 31"
      "be_opens w (da_num_lanes args) (da_hpx_threads args) ''std'' None"
    and small: "da_requests args \<le> 10 ^ 6" "da_warmup_requests args \<le> 10 ^ 6"
    and batch: "batch_api args \<Longrightarrow> 0 < da_requests args \<and> fisfinite (sa_low args) \<and> fisfinite (sa_high args)"
    and threads: "\<not> batch_api args \<Longrightarrow> da_client_threads args \<noteq> 1 \<Longrightarrow>
      fair (client_count (da_client_threads args) (nat (da_requests args))) (nat (da_requests args)) sched
      \<and> fair (client_count (da_client_threads args) (nat (da_warmup_requests args))) (nat (da_warmup_requests args)) warm_sched"
    and name: "hpx_workload args = Inr workload"
  shows "\<exists>w' rows. hpx_run warm_sched sched model_engine args run_id w = (w', Returns rows)
     \<and> length rows = nat (da_requests args)
     \<and> (\<forall>i < length rows. dr_request_id (rows ! i) = req_id i
          \<and> dr_service_ms_requested (rows ! i) = service_for (int i) args
          \<and> dr_status (rows ! i) = ''completed'' \<and> dr_chunks (rows ! i) = da_chunks args
          \<and> dr_retire_mode (rows ! i) = (if batch_api args then ''batch'' else da_retire_mode args)
          \<and> da_chunks args * wait_ns (fdiv_pos (service_for (int i) args) (of_int (da_chunks args)))
              + (da_chunks args - 1) * wait_ns (da_chunk_delay_ms args)
            \<le> dr_end_ns (rows ! i) - dr_start_ns (rows ! i))"
proof -
  note p = hpx_parsed [OF args]
  have adm: "be_admits (engine_request args i)" for i
    using p(1,3) engine by (intro engine_admits) (auto simp: hpx_refused_def)
  define limit where "limit = nat (da_concurrency args) + nat (da_requests args) + nat (da_warmup_requests args)
     + nat (da_client_threads args)"
  have fit: "hpx_fits limit be_batch_admits args sd n"
    if n: "n \<le> da_requests args \<or> n \<le> da_warmup_requests args" "batch_api args \<Longrightarrow> 0 < n" "n \<le> 10 ^ 6"
      and sd: "\<not> batch_api args \<Longrightarrow> da_client_threads args \<noteq> 1 \<Longrightarrow> fair (client_count (da_client_threads args) (nat n)) (nat n) sd"
    for n sd
  proof (cases "batch_api args")
    case True
    have "da_chunks args = 1" "da_chunk_delay_ms args = Fin 0"
      using True p(3) no_delay engine(1) by (auto simp: hpx_refused_def)
    moreover have "be_batch_admits (hpx_batch_service args n) (da_work_mode args)"
      using p True n batch by (intro hpx_batch_admitted) (auto simp: hpx_refused_def)
    ultimately show ?thesis using True n p(2) by (auto simp: hpx_fits_def limit_def)
  next
    case False
    have "client_count (da_client_threads args) (nat n) \<le> nat (da_client_threads args)" by (auto simp: client_count_def)
    then show ?thesis using False p(3) sd by (auto simp: hpx_fits_def hpx_refused_def limit_def)
  qed
  have "runs (hpx_run warm_sched sched model_engine args run_id) w (\<lambda>_ rows.
     list_all2 (hpx_row be_answers args run_id workload (hpx_mode args)) [0..<nat (da_requests args)] rows)"
    by (rule client.hpx_run_runs [OF adm fit fit])
      (use small batch threads name engine(3) in auto)
  then obtain w' rows where r: "hpx_run warm_sched sched model_engine args run_id w = (w', Returns rows)"
      "list_all2 (hpx_row be_answers args run_id workload (hpx_mode args)) [0..<nat (da_requests args)] rows"
    by (auto simp: runs_iff)
  have row: "hpx_row be_answers args run_id workload (hpx_mode args) i (rows ! i)" if "i < length rows" for i
    using list_all2_nthD2 [OF r(2) that] list_all2_lengthD [OF r(2)] that by simp
  have "length rows = nat (da_requests args)" using list_all2_lengthD [OF r(2)] by simp
  then show ?thesis
    using r(1) row
    by (fastforce simp: engine_row_def hpx_make_record_def be_answers_def engine_request_def svc_def hpx_mode_def)
qed

definition hpx_demo_argv :: "(string \<times> string) list" where
  "hpx_demo_argv = [(''requests'', ''3''), (''client-threads'', ''2''), (''hpx-threads'', ''1''), (''out'', ''x'')]"

definition demo_sched :: "nat list" where
  "demo_sched = concat (replicate 11 [1, 0])"

lemma demo_fair: "fair 2 3 demo_sched" "fair 1 0 demo_sched"
  by (auto simp: fair_def demo_sched_def less_Suc_eq numeral_eq_Suc)

lemma int_of_str_1: "int_of_str ''1'' = Inr 1"
  by (simp add: int_of_str_def strip_space_def is_space_def read_sign_def read_digits_def digit_of_def digits_value_def)

lemma hpx_demo_parse: "\<exists>args. hpx_parse_args hpx_demo_argv = Some args \<and> da_requests args = 3 \<and> da_warmup_requests args = 0
    \<and> da_client_threads args = 2 \<and> da_api args = ''engine'' \<and> da_chunks args = 1 \<and> da_chunk_delay_ms args = Fin 0
    \<and> da_num_lanes args = 1 \<and> da_hpx_threads args = 1 \<and> (\<exists>workload. hpx_workload args = Inr workload)"
proof -
  have "digit_char 8 = CHR ''8''" by code_simp
  then have ws: "int_str 8 = ''8''" by (subst int_str_def) (simp add: nat_str.simps)
  show ?thesis
    by (simp add: hpx_parse_args_def parse_known_def hpx_demo_argv_def hpx_options_def opt_defs opt_value_def demo_numbers
        int_of_str_1 checked_def args_of_def ns_int_def ns_float_def ns_str_def ns_str_option_def ns_int_option_def
        hpx_refused_def batch_api_def bimodal_refused_def hpx_workload_def hpx_default_workload_def truthy_def ws)
qed

lemma hpx_run_rows_witness:
  "\<exists>args w' rows. hpx_parse_args hpx_demo_argv = Some args
     \<and> hpx_run demo_sched demo_sched model_engine args ''r'' demo_world = (w', Returns rows)
     \<and> length rows = 3 \<and> dr_request_id (rows ! 2) = req_id 2"
proof -
  obtain args workload where a: "hpx_parse_args hpx_demo_argv = Some args" "da_requests args = 3" "da_warmup_requests args = 0"
      "da_client_threads args = 2" "da_api args = ''engine''" "da_chunks args = 1" "da_chunk_delay_ms args = Fin 0"
      "da_num_lanes args = 1" "da_hpx_threads args = 1" "hpx_workload args = Inr workload"
    using hpx_demo_parse by blast
  have op: "be_opens demo_world (da_num_lanes args) (da_hpx_threads args) ''std'' None"
    using a demo_opens by simp
  have nb: "\<not> batch_api args" using a(5) by (simp add: batch_api_def)
  have fair: "fair (client_count (da_client_threads args) (nat (da_requests args))) (nat (da_requests args)) demo_sched
      \<and> fair (client_count (da_client_threads args) (nat (da_warmup_requests args))) (nat (da_warmup_requests args)) demo_sched"
    using demo_fair by (simp add: a client_count_def)
  have "\<exists>w' rows. hpx_run demo_sched demo_sched model_engine args ''r'' demo_world = (w', Returns rows)
     \<and> length rows = nat (da_requests args)
     \<and> (\<forall>i < length rows. dr_request_id (rows ! i) = req_id i
          \<and> dr_service_ms_requested (rows ! i) = service_for (int i) args
          \<and> dr_status (rows ! i) = ''completed'' \<and> dr_chunks (rows ! i) = da_chunks args
          \<and> dr_retire_mode (rows ! i) = (if batch_api args then ''batch'' else da_retire_mode args)
          \<and> da_chunks args * wait_ns (fdiv_pos (service_for (int i) args) (of_int (da_chunks args)))
              + (da_chunks args - 1) * wait_ns (da_chunk_delay_ms args)
            \<le> dr_end_ns (rows ! i) - dr_start_ns (rows ! i))"
    by (rule hpx_run_rows [OF a(1) _ _ op _ _ _ fair a(10)]) (use a nb in simp_all)
  then show ?thesis using a(1,2) by fastforce
qed

text \<open>
  \<open>_run_one_by_one_threaded\<close>: at every moment of every interleaving of the client threads, the requests
  in flight number at most the concurrency asked for, or one per thread where there are more threads than
  that; the threads' windows sum to exactly this bound, and their blocks are the indices in order.
\<close>

theorem client_threads_in_flight:
  assumes adm: "\<And>i. i \<in> set indices \<Longrightarrow> be_admits (engine_request args i)"
    and "0 < client_threads" and "0 \<le> da_concurrency args"
    and "be_ok w" and "be_asked w = Map.empty"
  defines "t \<equiv> client_count client_threads (length indices)"
  shows "(\<exists>w' ts. fold (thread_step model_engine args mk keep (client_windows (da_concurrency args) t)) sched
       (w, map (\<lambda>b. Running Filling b [] []) (client_blocks indices t)) = (w', ts)
     \<and> int (card (dom (be_asked w'))) \<le> max (da_concurrency args) (int t))
    \<and> sum_list (client_windows (da_concurrency args) t) = max (da_concurrency args) (int t)
    \<and> concat (client_blocks indices t) = indices"
proof -
  have t: "0 < t" using assms(2) by (auto simp: t_def client_count_def)
  have "da_concurrency args \<le> int (nat (da_concurrency args) + t)" "int t \<le> int (nat (da_concurrency args) + t)" by simp_all
  from eng.threads_in_flight [OF adm t assms(3) this assms(4,5)] client_windows_sum [OF t assms(3)] client_blocks_concat [OF t]
  show ?thesis by simp
qed


lemma client_threads_in_flight_witness:
  "\<exists>w (args :: dargs). be_ok w \<and> be_asked w = Map.empty \<and> da_concurrency args = 1
     \<and> sum_list (client_windows (da_concurrency args) (client_count 3 (length [0::nat, 1, 2, 3]))) = 3"
proof -
  obtain args0 where a0: "hpx_parse_args hpx_demo_argv = Some args0" "da_chunks args0 = 1" "da_chunk_delay_ms args0 = Fin 0"
    using hpx_demo_parse by blast
  define args where "args = args0\<lparr>da_concurrency := 1\<rparr>"
  have adm: "be_admits (engine_request args i)" for i
    using hpx_parsed(1) [OF a0(1)] a0(2,3) by (intro engine_admits) (auto simp: args_def)
  obtain w where w: "be_ok w" "be_asked w = Map.empty"
    using be_open_runs [OF demo_opens] by (auto simp: runs_iff)
  have "sum_list (client_windows (da_concurrency args) (client_count 3 (length [0::nat, 1, 2, 3])))
      = max (da_concurrency args) (int (client_count 3 (length [0::nat, 1, 2, 3])))"
    using client_threads_in_flight [of "[0, 1, 2, 3]" args 3 w "\<lambda>_ _ _. undefined" False "[]"] adm w by (simp add: args_def)
  then have "sum_list (client_windows (da_concurrency args) (client_count 3 (length [0::nat, 1, 2, 3]))) = 3"
    by (simp add: args_def client_count_def)
  moreover have "da_concurrency args = 1" by (simp add: args_def)
  ultimately show ?thesis using w by blast
qed

end
