(* ===== verification/PyFloatOrder.thy ===== *)
theory PyFloatOrder
  imports PyFloatScale
begin

text \<open>
  Rounding is monotone, and the order of floats as a linear order, so that the library's \<open>sort\<close>, \<open>Min\<close>
  and \<open>Max\<close> stand for Python's \<open>sorted\<close>, \<open>min\<close> and \<open>max\<close> of values without a NaN. Between a NaN and
  anything else Python's comparisons are all false; the order here puts it last.
\<close>

instantiation pyfloat :: linorder
begin

definition less_eq_pyfloat :: "pyfloat \<Rightarrow> pyfloat \<Rightarrow> bool" where
  "a \<le> b \<longleftrightarrow> a = b \<or> flt a b \<or> b = NaN"

definition less_pyfloat :: "pyfloat \<Rightarrow> pyfloat \<Rightarrow> bool" where
  "a < b \<longleftrightarrow> flt a b \<or> b = NaN \<and> a \<noteq> NaN"

instance
proof
  fix x y z :: pyfloat
  show "(x < y) = (x \<le> y \<and> \<not> y \<le> x)"
    by (cases x; cases y) (auto simp: less_eq_pyfloat_def less_pyfloat_def)
  show "x \<le> x" by (simp add: less_eq_pyfloat_def)
  show "x \<le> y \<Longrightarrow> y \<le> z \<Longrightarrow> x \<le> z"
    by (cases x; cases y; cases z) (auto simp: less_eq_pyfloat_def)
  show "x \<le> y \<Longrightarrow> y \<le> x \<Longrightarrow> x = y"
    by (cases x; cases y) (auto simp: less_eq_pyfloat_def)
  show "x \<le> y \<or> y \<le> x"
    by (cases x; cases y) (auto simp: less_eq_pyfloat_def)
qed

end

lemma Fin_le [simp]: "Fin a \<le> Fin b \<longleftrightarrow> a \<le> b"
  by (auto simp: less_eq_pyfloat_def)

lemma le_fle: "a \<noteq> NaN \<Longrightarrow> b \<noteq> NaN \<Longrightarrow> a \<le> b \<longleftrightarrow> fle a b"
  by (auto simp: less_eq_pyfloat_def fle_def)

subsection \<open>Rounding is monotone\<close>

lemma ilog2_mono:
  assumes "0 < a" and "a \<le> b"
  shows "ilog2 a \<le> ilog2 b"
proof (rule ccontr)
  assume "\<not> ilog2 a \<le> ilog2 b"
  then have "pow2 (ilog2 b + 1) \<le> pow2 (ilog2 a)" by (intro pow2_le) simp
  then show False using ilog2_bounds [of a] ilog2_bounds [of b] assms by linarith
qed

lemma round_half_even_mono:
  assumes "x \<le> y"
  shows "round_half_even x \<le> round_half_even y"
proof (cases "\<lfloor>x\<rfloor> = \<lfloor>y\<rfloor>")
  case True
  then show ?thesis using assms by (auto simp: round_half_even_def Let_def)
next
  case False
  then have fl: "\<lfloor>x\<rfloor> + 1 \<le> \<lfloor>y\<rfloor>" using floor_mono [OF assms] by linarith
  have "round_half_even x \<le> \<lfloor>x\<rfloor> + 1" by (auto simp: round_half_even_def Let_def)
  moreover have "\<lfloor>y\<rfloor> \<le> round_half_even y" by (auto simp: round_half_even_def Let_def)
  ultimately show ?thesis using fl by linarith
qed

lemma b64_mag_mono:
  assumes "0 < a" and "a \<le> b"
  shows "b64_mag a \<le> b64_mag b"
proof -
  have b: "0 < b" using assms by linarith
  have log: "ilog2 a \<le> ilog2 b" by (rule ilog2_mono [OF assms])
  show ?thesis
  proof (cases "b64_ulp_exp a = b64_ulp_exp b")
    case True
    have "a / pow2 (b64_ulp_exp b) \<le> b / pow2 (b64_ulp_exp b)" using assms(2) by (simp add: divide_right_mono)
    then have "of_int (round_half_even (a / pow2 (b64_ulp_exp b))) \<le> (of_int (round_half_even (b / pow2 (b64_ulp_exp b))) :: rat)"
      by (simp only: of_int_le_iff round_half_even_mono)
    then show ?thesis by (simp add: b64_mag_def True mult_right_mono)
  next
    case False
    let ?E = "b64_ulp_exp a"
    have exps: "ilog2 a + 1 \<le> ilog2 b" "- 1022 \<le> ilog2 b" "0 \<le> ilog2 b - ?E"
      using False log by (auto simp: b64_ulp_exp_def max_def split: if_splits)
    have "a \<le> pow2 (ilog2 b)" using ilog2_bounds [OF assms(1)] pow2_le [OF exps(1)] by linarith
    also have "pow2 (ilog2 b) = pow2 (ilog2 b - ?E) * pow2 ?E" by (simp add: pow2_add [symmetric])
    finally have "a / pow2 ?E \<le> pow2 (ilog2 b - ?E)" by (simp add: pos_divide_le_eq)
    also have "pow2 (ilog2 b - ?E) = of_int (2 ^ nat (ilog2 b - ?E))" using exps(3) by (simp add: pow2_def)
    finally have "round_half_even (a / pow2 ?E) \<le> 2 ^ nat (ilog2 b - ?E)" by (rule round_half_even_bounds)
    then have "of_int (round_half_even (a / pow2 ?E)) \<le> (of_int (2 ^ nat (ilog2 b - ?E)) :: rat)" by (simp only: of_int_le_iff)
    also have "\<dots> = pow2 (ilog2 b - ?E)" using exps(3) by (simp add: pow2_def)
    finally have "b64_mag a \<le> pow2 (ilog2 b - ?E) * pow2 ?E" unfolding b64_mag_def by (rule mult_right_mono) simp
    also have "\<dots> = pow2 52 * pow2 (ilog2 b - 52)" by (simp add: pow2_add [symmetric])
    also have "\<dots> \<le> b64_mag b"
      unfolding b64_mag_normal [OF exps(2)]
    proof (rule mult_right_mono)
      have "of_int (2 ^ 52) \<le> (of_int (round_half_even (b / pow2 (ilog2 b - 52))) :: rat)"
        using significand [OF b exps(2)] by (simp only: of_int_le_iff)
      then show "pow2 52 \<le> of_int (round_half_even (b / pow2 (ilog2 b - 52)))" by (simp add: pow2_def)
    qed simp
    finally show ?thesis .
  qed
qed

lemma b64_round_mono:
  assumes "x \<le> y"
  shows "b64_round x \<le> b64_round y"
proof -
  have pos: "b64_round a \<le> b64_round b" if "0 < a" "a \<le> b" for a b
    using b64_mag_mono [OF that] that by (auto simp: b64_round_def less_eq_pyfloat_def)
  have zero: "Fin 0 \<le> b64_round a" "b64_round (- a) \<le> Fin 0" if "0 < a" for a
    using that b64_mag_nonneg [of a] by (auto simp: b64_round_def less_eq_pyfloat_def)
  have neg: "b64_round (- a) \<le> b64_round (- b)" if "0 < b" "b \<le> a" for a b
    using b64_mag_mono [OF that] that by (auto simp: b64_round_def less_eq_pyfloat_def)
  consider "0 < x" | "x = 0" | "x < 0" "y < 0" | "x < 0" "y = 0" | "x < 0" "0 < y" by linarith
  then show ?thesis
  proof cases
    case 1
    then show ?thesis by (rule pos [OF _ assms])
  next
    case 2
    then show ?thesis using assms zero(1) [of y] by (cases "y = 0") auto
  next
    case 3
    then show ?thesis using neg [of "- y" "- x"] assms by simp
  next
    case 4
    then show ?thesis using zero(2) [of "- x"] by simp
  next
    case 5
    then show ?thesis using zero(2) [of "- x"] zero(1) [of y] by (auto intro: order_trans)
  qed
qed

subsection \<open>Rounding twice\<close>

lemma b64_mag_idem:
  assumes "0 < x"
  shows "b64_mag x = 0 \<or> b64_mag (b64_mag x) = b64_mag x"
proof (cases "- 1022 \<le> ilog2 x")
  case True
  then show ?thesis using b64_mag_ilog2(4) [OF assms] by simp
next
  case False
  define k where "k = round_half_even (x / pow2 (- 1074))"
  have m: "b64_mag x = of_int k * pow2 (- 1074)" using False by (simp add: b64_mag_def b64_ulp_exp_def k_def)
  have "x \<le> pow2 (- 1022)" using ilog2_bounds [OF assms] pow2_le [of "ilog2 x + 1" "- 1022"] False by linarith
  also have "pow2 (- 1022) = of_int (2 ^ 52) * pow2 (- 1074)"
    using pow2_add [of 52 "- 1074"] by (simp add: pow2_def [of 52])
  finally have "x / pow2 (- 1074) \<le> of_int (2 ^ 52)" by (simp only: pos_divide_le_eq pow2_pos)
  then have le: "k \<le> 2 ^ 52" unfolding k_def by (rule round_half_even_bounds)
  have ge: "0 \<le> k" unfolding k_def using assms by (intro round_half_even_nonneg) simp
  show ?thesis
  proof (cases "k = 0")
    case True
    then show ?thesis using m by simp
  next
    case False
    have pos: "0 < b64_mag x" using False ge unfolding m by simp
    have "b64_mag x \<le> of_int (2 ^ 52) * pow2 (- 1074)"
      unfolding m by (rule mult_right_mono) (use le in \<open>simp_all only: of_int_le_iff pow2_nonneg\<close>)
    also have "\<dots> = pow2 (- 1022)" using pow2_add [of 52 "- 1074"] by (simp add: pow2_def [of 52])
    also have "\<dots> < pow2 (- 1021)" by (rule pow2_less) simp
    finally have "ilog2 (b64_mag x) \<le> - 1022"
      using ilog2_bounds [OF pos] pow2_le [of "- 1021" "ilog2 (b64_mag x)"] by linarith
    then have "b64_ulp_exp (b64_mag x) = - 1074" by (simp add: b64_ulp_exp_def)
    then have "b64_mag (b64_mag x) = of_int (round_half_even (b64_mag x / pow2 (- 1074))) * pow2 (- 1074)"
      by (simp add: b64_mag_def [of "b64_mag x"])
    also have "b64_mag x / pow2 (- 1074) = of_int k" by (simp add: m)
    finally show ?thesis by (simp add: m)
  qed
qed

lemma float_of_int_large: "\<bar>n\<bar> < 2 ^ 1000 \<Longrightarrow> \<exists>x. float_of_int n = Some (Fin x)"
proof (cases "n = 0")
  case False
  assume n: "\<bar>n\<bar> < 2 ^ 1000"
  let ?x = "of_int \<bar>n\<bar> :: rat"
  have x: "0 < ?x" "1 \<le> ?x" using False by simp_all
  have up: "pow2 (ilog2 ?x) \<le> ?x" "?x < pow2 (ilog2 ?x + 1)" using ilog2_bounds [OF x(1)] by auto
  have "?x < of_int (2 ^ 1000)" using n by (simp only: of_int_less_iff)
  then have "?x < pow2 1000" by (simp add: pow2_def)
  then have "ilog2 ?x < 1000" using up(1) pow2_le [of 1000 "ilog2 ?x"] by linarith
  moreover have "0 \<le> ilog2 ?x"
  proof (rule ccontr)
    assume "\<not> 0 \<le> ilog2 ?x"
    then have "pow2 (ilog2 ?x + 1) \<le> pow2 0" by (intro pow2_le) simp
    then show False using up(2) x(2) by (simp add: pow2_def)
  qed
  ultimately have e: "0 \<le> ilog2 ?x" "ilog2 ?x < 1000" by auto
  have "b64_mag ?x = of_int (round_half_even (?x / pow2 (ilog2 ?x - 52))) * pow2 (ilog2 ?x - 52)"
    using e by (intro b64_mag_normal) simp
  also have "\<dots> \<le> of_int (2 ^ 53) * pow2 (ilog2 ?x - 52)"
    using significand [OF x(1)] e by (intro mult_right_mono) (simp_all only: of_int_le_iff, simp_all)
  also have "\<dots> = pow2 (ilog2 ?x + 1)" using pow2_add [of 53 "ilog2 ?x - 52"]
    by (simp add: pow2_def [of 53] algebra_simps)
  also have "\<dots> < pow2 1024" using e by (intro pow2_less) simp
  finally have "b64_mag ?x < 2 ^ 1024" by (simp add: pow2_def)
  then show ?thesis using False by (simp add: float_of_int_def b64_round_def not_le)
qed simp

text \<open>The values a float can have, not too close to the largest.\<close>

definition moderate :: "pyfloat \<Rightarrow> bool" where
  "moderate f = (case f of Fin q \<Rightarrow> b64_round q = f \<and> \<bar>q\<bar> \<le> 2 ^ 990 | _ \<Rightarrow> False)"

lemma b64_round_idem: "b64_round x = Fin q \<Longrightarrow> b64_round q = Fin q"
proof -
  assume r: "b64_round x = Fin q"
  show ?thesis
  proof (cases "x = 0 \<or> q = 0")
    case False
    then have x: "x \<noteq> 0" "q \<noteq> 0" by auto
    then have q: "q = sgn x * b64_mag \<bar>x\<bar>" "b64_mag \<bar>x\<bar> < 2 ^ 1024"
      using r by (auto simp: b64_round_def not_le split: if_splits)
    have m: "0 < b64_mag \<bar>x\<bar>" "b64_mag (b64_mag \<bar>x\<bar>) = b64_mag \<bar>x\<bar>"
      using b64_mag_idem [of "\<bar>x\<bar>"] b64_mag_nonneg [of "\<bar>x\<bar>"] x q(1) by (auto simp: less_le)
    have "\<bar>q\<bar> = b64_mag \<bar>x\<bar>" "sgn q = sgn x" using q(1) m(1) x(1) by (auto simp: abs_mult sgn_mult)
    then show ?thesis using q m x by (simp add: b64_round_def not_le)
  qed (use r in auto)
qed

lemma b64_round_bounded:
  assumes "\<bar>x\<bar> \<le> of_int n" and "n < 2 ^ 1000"
  obtains q where "b64_round x = Fin q"
proof -
  have "0 \<le> (of_int n :: rat)" using assms(1) by linarith
  then have "\<bar>n\<bar> < 2 ^ 1000" "\<bar>- n\<bar> < 2 ^ 1000" using assms(2) by simp_all
  then obtain u l where "float_of_int n = Some (Fin u)" "float_of_int (- n) = Some (Fin l)"
    using float_of_int_large by blast
  then have "b64_round (of_int n) = Fin u" "b64_round (of_int (- n)) = Fin l"
    by (auto simp: float_of_int_def split: pyfloat.splits)
  then have "Fin l \<le> b64_round x" "b64_round x \<le> Fin u"
    using b64_round_mono [of "of_int (- n)" x] b64_round_mono [of x "of_int n"] assms(1) by auto
  then show ?thesis using that by (cases "b64_round x") (auto simp: less_eq_pyfloat_def)
qed

end
