(* ===== verification/BenchAnalyze.thy ===== *)
theory BenchAnalyze
  imports BenchWindow PyFloatOrder
begin

text \<open>
  \<open>bench/analyze_jsonl.py\<close>: the summary of a file of rows. Values are compared as floats without a NaN
  (the drivers write none), so \<open>sorted\<close>, \<open>min\<close> and \<open>max\<close> are those of the linear order.
\<close>

subsection \<open>Percentiles\<close>

text \<open>\<open>vals[i]\<close>: a negative index counts from the end.\<close>

definition py_index :: "'a list \<Rightarrow> int \<Rightarrow> 'a py" where
  "py_index vals i = (let j = (if i < 0 then i + int (length vals) else i) in
     if 0 \<le> j \<and> j < int (length vals) then Inr (vals ! nat j) else Inl IndexError)"

text \<open>\<open>int(f)\<close> truncates.\<close>

definition int_of_float :: "pyfloat \<Rightarrow> int py" where
  "int_of_float f = (case f of Fin q \<Rightarrow> Inr (if q < 0 then - \<lfloor>- q\<rfloor> else \<lfloor>q\<rfloor>) | NaN \<Rightarrow> Inl ValueError | _ \<Rightarrow> Inl OverflowError)"

text \<open>An \<open>int\<close> operand of a float operation.\<close>

definition to_float :: "int \<Rightarrow> pyfloat py" where
  "to_float n = (case float_of_int n of None \<Rightarrow> Inl OverflowError | Some f \<Rightarrow> Inr f)"

definition percentile :: "pyfloat list \<Rightarrow> int \<Rightarrow> pyfloat option py" where
  "percentile sorted_vals q =
     (if sorted_vals = [] then Inr None
      else if length sorted_vals = 1 then Inr (Some (sorted_vals ! 0))
      else
        rbind (to_float (int (length sorted_vals) - 1)) (\<lambda>last.
        let rank = fmul (fdiv_pos (Fin (of_int q)) 100) last in
        rbind (int_of_float rank) (\<lambda>lo.
        let hi = min (lo + 1) (int (length sorted_vals) - 1) in
        rbind (to_float lo) (\<lambda>flo.
        let frac = fsub rank flo in
        rbind (py_index sorted_vals lo) (\<lambda>a.
        rbind (py_index sorted_vals hi) (\<lambda>b.
        Inr (Some (fadd a (fmul (fsub b a) frac)))))))))"

record pcts_row =
  p50 :: "pyfloat option"
  p90 :: "pyfloat option"
  p99 :: "pyfloat option"

definition pcts :: "pyfloat list \<Rightarrow> pcts_row py" where
  "pcts vals = (let s = sort vals in
     rbind (percentile s 50) (\<lambda>a. rbind (percentile s 90) (\<lambda>b. rbind (percentile s 99) (\<lambda>c.
       Inr \<lparr>p50 = a, p90 = b, p99 = c\<rparr>))))"

subsection \<open>The summary\<close>

definition queue_wait_note :: "string \<Rightarrow> string" where
  "queue_wait_note boundary = ''boundary='' @ boundary @
     (if boundary = ''ray-actor-process'' then
        ''; total_ms is client-side authoritative; queue_wait_ms is approximate (= total_ms - service_ms_observed) '' @
        ''and includes all non-service time across the Ray process/runtime boundary, not just queueing.''
      else if boundary = ''hpx-intra-locality'' then
        ''; total_ms is client-side authoritative; queue_wait_ms is exact same-process steady-clock submit-to-start '' @
        ''time (= start_ns - submit_ns).''
      else
        ''; total_ms is client-side authoritative; queue_wait_ms interpretation depends on the boundary (exact for '' @
        ''same-process runs, approximate across process boundaries).'')"

record summary =
  sm_schema_version :: string
  sm_run_id :: string
  sm_backend :: string
  sm_boundary :: string
  sm_workload :: string
  sm_num_requests :: nat
  sm_completed :: nat
  sm_failed :: nat
  sm_cancelled :: nat
  sm_throughput :: pyfloat
  sm_total_ms :: pcts_row
  sm_queue_wait_ms :: pcts_row
  sm_service_ms :: pcts_row
  sm_total_ms_min :: "pyfloat option"
  sm_total_ms_max :: "pyfloat option"
  sm_notes :: string

text \<open>\<open>r["submit_ns"] + r["total_ms"] * 1e6\<close> for every row.\<close>

fun row_ends :: "drow list \<Rightarrow> pyfloat list py" where
  "row_ends [] = Inr []"
| "row_ends (r # rs) = rbind (to_float (dr_submit_ns r)) (\<lambda>f. rbind (row_ends rs) (\<lambda>es.
     Inr (fadd f (fmul (dr_total_ms r) (Fin 1000000)) # es)))"

text \<open>A quotient by a positive float.\<close>

definition fdiv_by :: "pyfloat \<Rightarrow> pyfloat \<Rightarrow> pyfloat" where
  "fdiv_by a b = (case b of Fin q \<Rightarrow> fdiv_pos a q | PInf \<Rightarrow> Fin 0 | _ \<Rightarrow> NaN)"

definition throughput :: "drow list \<Rightarrow> pyfloat py" where
  "throughput completed =
     (if completed = [] then Inr (Fin 0)
      else let span_start = Min (set (map dr_submit_ns completed)) in
        rbind (row_ends completed) (\<lambda>ends.
        rbind (to_float span_start) (\<lambda>start.
        let secs = fdiv_pos (fsub (Max (set ends)) start) 1000000000; least = b64_round (1 / 1000000000);
            span_s = (if flt secs least then least else secs)
        in rbind (to_float (int (length completed))) (\<lambda>n. Inr (fdiv_by n span_s)))))"

definition summarize :: "drow list \<Rightarrow> summary py" where
  "summarize rows =
     (case rows of [] \<Rightarrow> Inl ValueError
      | first # _ \<Rightarrow>
        let completed_rows = filter (\<lambda>r. dr_status r = ''completed'') rows;
            failed = length (filter (\<lambda>r. dr_status r = ''failed'') rows);
            cancelled = length (filter (\<lambda>r. dr_status r = ''cancelled'') rows);
            total_ms = map dr_total_ms completed_rows;
            queue_wait_ms = map dr_queue_wait_ms completed_rows;
            service_ms = map dr_service_ms_observed completed_rows
        in rbind (throughput completed_rows) (\<lambda>thr.
           rbind (pcts total_ms) (\<lambda>total_p.
           rbind (pcts queue_wait_ms) (\<lambda>qw_p.
           rbind (pcts service_ms) (\<lambda>svc_p.
           Inr \<lparr>sm_schema_version = ''1'', sm_run_id = dr_run_id first, sm_backend = dr_backend first,
             sm_boundary = dr_boundary first, sm_workload = dr_workload first, sm_num_requests = length rows,
             sm_completed = length completed_rows, sm_failed = failed, sm_cancelled = cancelled, sm_throughput = thr,
             sm_total_ms = total_p, sm_queue_wait_ms = qw_p, sm_service_ms = svc_p,
             sm_total_ms_min = (if total_ms = [] then None else Some (Min (set total_ms))),
             sm_total_ms_max = (if total_ms = [] then None else Some (Max (set total_ms))),
             sm_notes = queue_wait_note (dr_boundary first)\<rparr>)))))"

subsection \<open>A percentile is taken from the list\<close>

lemma to_float_small: "\<bar>n\<bar> < 2 ^ 53 \<Longrightarrow> to_float n = Inr (Fin (of_int n))"
  by (simp add: to_float_def float_of_int_small)

lemma b64_int: "\<bar>n\<bar> < 2 ^ 53 \<Longrightarrow> b64_round (of_int n) = Fin (of_int n)"
  using float_of_int_small [of n] by (auto simp: float_of_int_def split: pyfloat.splits)

lemma round_between:
  assumes "Fin a = b64_round a" and "Fin b = b64_round b" and "a \<le> x" and "x \<le> b"
  obtains r where "b64_round x = Fin r" "a \<le> r" "r \<le> b"
proof -
  have "Fin a \<le> b64_round x" "b64_round x \<le> Fin b"
    using b64_round_mono [OF assms(3)] b64_round_mono [OF assms(4)] assms(1,2) by simp_all
  then show ?thesis using that by (cases "b64_round x") (auto simp: less_eq_pyfloat_def)
qed

text \<open>The rank lies in the list, so the two indices do.\<close>

lemma rank_bounds:
  assumes "0 \<le> q" "q \<le> 100" and "0 < n" "n < 2 ^ 53"
  obtains r where "fmul (fdiv_pos (Fin (of_int q)) 100) (Fin (of_int n)) = Fin r" "0 \<le> r" "r \<le> of_int n"
proof -
  have one: "Fin 0 = b64_round 0" "Fin 1 = b64_round 1" "Fin (of_int n) = b64_round (of_int n)"
    using b64_int [of 1] b64_int [of n] assms(3,4) by simp_all
  have q: "0 \<le> (of_int q / 100 :: rat)" "(of_int q / 100 :: rat) \<le> 1" using assms(1,2) by simp_all
  obtain t where t: "b64_round (of_int q / 100) = Fin t" "0 \<le> t" "t \<le> 1" by (rule round_between [OF one(1,2) q])
  have tn: "0 \<le> t * of_int n" "t * of_int n \<le> of_int n"
    using t(2,3) assms(3) mult_right_mono [OF t(3), of "of_int n"] by simp_all
  obtain r where "b64_round (t * of_int n) = Fin r" "0 \<le> r" "r \<le> of_int n" by (rule round_between [OF one(1,3) tn])
  then show ?thesis using that t(1) by simp
qed

lemma percentile_at:
  assumes "0 \<le> q" "q \<le> 100" and "2 \<le> length vals" "length vals \<le> 2 ^ 53"
  obtains lo hi frac where "percentile vals q = Inr (Some (fadd (vals ! lo) (fmul (fsub (vals ! hi) (vals ! lo)) (Fin frac))))"
    "lo \<le> hi" "hi < length vals" "0 \<le> frac" "frac \<le> 1"
proof -
  let ?n = "int (length vals) - 1"
  have n: "0 < ?n" "?n < 2 ^ 53" using assms(3,4) by simp_all
  obtain r where r: "fmul (fdiv_pos (Fin (of_int q)) 100) (Fin (of_int ?n)) = Fin r" "0 \<le> r" "r \<le> of_int ?n"
    by (rule rank_bounds [OF assms(1,2) n])
  define lo where "lo = \<lfloor>r\<rfloor>"
  have lo: "0 \<le> lo" "lo \<le> ?n" using r(2) floor_mono [OF r(3)] unfolding lo_def by simp_all
  have one: "Fin 0 = b64_round 0" "Fin 1 = b64_round 1" using b64_int [of 1] by simp_all
  have fr: "0 \<le> r - of_int lo" "r - of_int lo \<le> 1" using floor_correct [of r] unfolding lo_def by linarith+
  obtain frac where frac: "b64_round (r - of_int lo) = Fin frac" "0 \<le> frac" "frac \<le> 1" by (rule round_between [OF one fr])
  define hi where "hi = min (lo + 1) ?n"
  have hi: "lo \<le> hi" "hi \<le> ?n" "0 \<le> hi" using lo n by (auto simp: hi_def)
  have "percentile vals q = Inr (Some (fadd (vals ! nat lo) (fmul (fsub (vals ! nat hi) (vals ! nat lo)) (Fin frac))))"
  proof -
    have ne: "vals \<noteq> []" "length vals \<noteq> 1" using assms(3) by auto
    moreover have "to_float ?n = Inr (Fin (of_int ?n))" "to_float lo = Inr (Fin (of_int lo))"
      using n lo by (intro to_float_small; simp)+
    moreover have "int_of_float (Fin r) = Inr lo" using r(2) by (simp add: int_of_float_def lo_def)
    moreover have "fsub (Fin r) (Fin (of_int lo)) = Fin frac" using frac(1) by (simp add: fsub_def)
    moreover have "py_index vals lo = Inr (vals ! nat lo)" "py_index vals hi = Inr (vals ! nat hi)"
      using lo hi ne(1) by (simp_all add: py_index_def)
    ultimately show ?thesis unfolding percentile_def Let_def by (simp only: r(1) if_False rbind_Inr hi_def [symmetric])
  qed
  then show ?thesis using that [of "nat lo" "nat hi" frac] lo hi frac n by auto
qed

text \<open>Of moderate values in order, no percentile is below the first.\<close>

lemma percentile_least:
  assumes "0 \<le> q" "q \<le> 100" and "vals \<noteq> []" "length vals \<le> 2 ^ 53" and "sorted vals" and "\<forall>v \<in> set vals. moderate v"
  obtains v where "percentile vals q = Inr (Some v)" "vals ! 0 \<le> v"
proof (cases "length vals = 1")
  case True
  then have "percentile vals q = Inr (Some (vals ! 0))" using assms(3) by (simp add: percentile_def)
  then show ?thesis using that by simp
next
  case False
  moreover have "0 < length vals" using assms(3) by simp
  ultimately have two: "2 \<le> length vals" by linarith
  obtain lo hi frac where p: "percentile vals q = Inr (Some (fadd (vals ! lo) (fmul (fsub (vals ! hi) (vals ! lo)) (Fin frac))))"
    "lo \<le> hi" "hi < length vals" "0 \<le> frac" "frac \<le> 1"
    by (rule percentile_at [OF assms(1,2) two assms(4)])
  have mod: "moderate (vals ! lo)" "moderate (vals ! hi)" using assms(6) p(2,3) by auto
  then obtain a b where ab: "vals ! lo = Fin a" "vals ! hi = Fin b" "b64_round a = Fin a" "\<bar>a\<bar> \<le> 2 ^ 990" "\<bar>b\<bar> \<le> 2 ^ 990"
    by (auto simp: moderate_def split: pyfloat.splits)
  have "vals ! lo \<le> vals ! hi" using assms(5) p(2,3) by (rule sorted_nth_mono)
  then have diff: "0 \<le> b - a" "\<bar>b - a\<bar> \<le> of_int (2 ^ 991)" using ab by auto
  obtain d where d: "b64_round (b - a) = Fin d" by (rule b64_round_bounded [OF diff(2)]) simp_all
  have "0 \<le> d" using b64_round_mono [OF diff(1)] d by simp
  then have df: "0 \<le> d * frac" "d * frac \<le> d" using p(4,5) mult_left_mono [OF p(5), of d] by simp_all
  have ends: "Fin 0 = b64_round 0" "Fin d = b64_round d" using b64_round_idem [OF d] by simp_all
  obtain m where m: "b64_round (d * frac) = Fin m" "0 \<le> m" by (rule round_between [OF ends df])
  have "Fin a \<le> b64_round (a + m)" using b64_round_mono [of a "a + m"] ab(3) m(2) by simp
  moreover have "fadd (vals ! lo) (fmul (fsub (vals ! hi) (vals ! lo)) (Fin frac)) = b64_round (a + m)"
    using ab(1,2) d m(1) by (simp add: fsub_def)
  moreover have "vals ! 0 \<le> vals ! lo" using assms(5) p(2,3) by (intro sorted_nth_mono) simp_all
  ultimately show ?thesis using that p(1) ab(1) by (metis order_trans)
qed

lemma percentile_total:
  assumes "0 \<le> q" "q \<le> 100" and "length vals \<le> 2 ^ 53"
  shows "\<exists>v. percentile vals q = Inr v \<and> (v = None \<longleftrightarrow> vals = [])"
proof -
  consider "vals = []" | "length vals = 1" | "2 \<le> length vals" by (cases vals; cases "tl vals") auto
  then show ?thesis
  proof cases
    case 3
    then have "vals \<noteq> []" by auto
    moreover obtain v where "percentile vals q = Inr (Some v)" by (rule percentile_at [OF assms(1,2) 3 assms(3)])
    ultimately show ?thesis by simp
  qed (auto simp: percentile_def)
qed

lemma sort_Nil: "sort vals = [] \<longleftrightarrow> vals = []"
  by (metis length_0_conv length_sort)

lemma pcts_total:
  assumes "length vals \<le> 2 ^ 53"
  obtains ps where "pcts vals = Inr ps" "p50 ps = None \<longleftrightarrow> vals = []" "p90 ps = None \<longleftrightarrow> vals = []" "p99 ps = None \<longleftrightarrow> vals = []"
proof -
  have l: "length (sort vals) \<le> 2 ^ 53" "sort vals = [] \<longleftrightarrow> vals = []"
    using assms by (simp_all add: sort_Nil)
  obtain a b c where "percentile (sort vals) 50 = Inr a" "a = None \<longleftrightarrow> vals = []"
    "percentile (sort vals) 90 = Inr b" "b = None \<longleftrightarrow> vals = []" "percentile (sort vals) 99 = Inr c" "c = None \<longleftrightarrow> vals = []"
    using percentile_total [of 50, OF _ _ l(1)] percentile_total [of 90, OF _ _ l(1)] percentile_total [of 99, OF _ _ l(1)] l(2)
    by auto
  then show ?thesis using that by (simp add: pcts_def Let_def)
qed

lemma sort_first: "vals \<noteq> [] \<Longrightarrow> sort vals ! 0 = Min (set vals)"
proof -
  assume "vals \<noteq> []"
  then obtain x xs where x: "sort vals = x # xs" by (cases "sort vals") (simp_all add: sort_Nil)
  then have "set vals = insert x (set xs)" "\<forall>y \<in> set xs. x \<le> y" by (metis list.simps(15) set_sort, metis sorted_sort sorted_simps(2))
  then have "Min (set vals) = x" by (intro Min_eqI) auto
  then show ?thesis using x by simp
qed

lemma pcts_least:
  assumes "vals \<noteq> []" "length vals \<le> 2 ^ 53" "\<forall>v \<in> set vals. moderate v"
  obtains a b c where "pcts vals = Inr \<lparr>p50 = Some a, p90 = Some b, p99 = Some c\<rparr>"
    "Min (set vals) \<le> a" "Min (set vals) \<le> b" "Min (set vals) \<le> c"
proof -
  have s: "sort vals \<noteq> []" "length (sort vals) \<le> 2 ^ 53" "sorted (sort vals)" "\<forall>v \<in> set (sort vals). moderate v"
    using assms by (simp_all add: sort_Nil)
  obtain a where a: "percentile (sort vals) 50 = Inr (Some a)" "sort vals ! 0 \<le> a" by (rule percentile_least [OF _ _ s, of 50]) simp_all
  obtain b where b: "percentile (sort vals) 90 = Inr (Some b)" "sort vals ! 0 \<le> b" by (rule percentile_least [OF _ _ s, of 90]) simp_all
  obtain c where c: "percentile (sort vals) 99 = Inr (Some c)" "sort vals ! 0 \<le> c" by (rule percentile_least [OF _ _ s, of 99]) simp_all
  show ?thesis using that a b c sort_first [OF assms(1)] by (simp add: pcts_def Let_def)
qed

subsection \<open>Throughput\<close>

lemma least_positive: "\<exists>q. b64_round (1 / 1000000000) = Fin q \<and> 0 < q"
proof -
  have p: "pow2 (- 30) \<le> (1 / 1000000000 :: rat)" by (simp add: pow2_def)
  have l: "ilog2 (pow2 (- 30)) = - 30" by (rule ilog2_unique) (simp_all add: pow2_def)
  have "pow2 (- 30) / pow2 (- 82) = of_int (2 ^ 52)" by (simp add: pow2_def)
  then have "b64_mag (pow2 (- 30)) = of_int (2 ^ 52) * pow2 (- 82)"
    using b64_mag_normal [of "pow2 (- 30)"] by (simp add: l del: of_int_numeral of_int_power)
  also have "\<dots> = pow2 (- 30)" by (simp add: pow2_def)
  finally have "b64_mag (pow2 (- 30)) = pow2 (- 30)" .
  then have small: "Fin (pow2 (- 30)) = b64_round (pow2 (- 30))" by (simp add: b64_round_def) (simp add: pow2_def)
  obtain r where "b64_round (1 / 1000000000) = Fin r" "pow2 (- 30) \<le> r" "r \<le> 1"
    by (rule round_between [OF small b64_int [of 1, simplified, symmetric] p]) simp
  then show ?thesis using pow2_pos [of "- 30"] by (intro exI [of _ r]) linarith
qed

lemma row_ends_eq:
  "row_ends rs = (if \<exists>r \<in> set rs. float_of_int (dr_submit_ns r) = None then Inl OverflowError
     else Inr (map (\<lambda>r. fadd (the (float_of_int (dr_submit_ns r))) (fmul (dr_total_ms r) (Fin 1000000))) rs))"
  by (induction rs) (auto simp: to_float_def split: option.splits)

lemma fadd_fin: "a \<noteq> NaN \<Longrightarrow> fadd a (Fin b) \<noteq> NaN" "a \<noteq> NaN \<Longrightarrow> fadd (Fin b) a \<noteq> NaN"
  by (cases a; simp)+

lemma throughput_ok:
  assumes "\<forall>r \<in> set rs. \<bar>dr_submit_ns r\<bar> < 2 ^ 53 \<and> moderate (dr_total_ms r)" and "length rs < 2 ^ 53"
  obtains t where "throughput rs = Inr t" "Fin 0 \<le> t"
proof (cases "rs = []")
  case True
  then show ?thesis using that by (simp add: throughput_def)
next
  case False
  let ?ends = "map (\<lambda>r. fadd (the (float_of_int (dr_submit_ns r))) (fmul (dr_total_ms r) (Fin 1000000))) rs"
  have ends: "row_ends rs = Inr ?ends" using assms(1) by (auto simp: row_ends_eq float_of_int_small)
  have fin: "e \<noteq> NaN" if e: "e \<in> set ?ends" for e
  proof -
    obtain r where r: "r \<in> set rs" "e = fadd (the (float_of_int (dr_submit_ns r))) (fmul (dr_total_ms r) (Fin 1000000))"
      using e by auto
    obtain q where "dr_total_ms r = Fin q" using assms(1) r(1) by (fastforce simp: moderate_def split: pyfloat.splits)
    then show ?thesis using assms(1) r by (simp add: float_of_int_small fadd_fin)
  qed
  have "Max (set ?ends) \<in> set ?ends" using False by (intro Max_in) simp_all
  then have mx: "Max (set ?ends) \<noteq> NaN" by (rule fin)
  let ?start = "Min (set (map dr_submit_ns rs))"
  have "?start \<in> set (map dr_submit_ns rs)" using False by (intro Min_in) simp_all
  then have "\<bar>?start\<bar> < 2 ^ 53" using assms(1) by auto
  then have start: "to_float ?start = Inr (Fin (of_int ?start))" by (rule to_float_small)
  have n: "to_float (int (length rs)) = Inr (Fin (of_int (int (length rs))))" using assms(2) by (intro to_float_small) simp
  obtain l where l: "b64_round (1 / 1000000000) = Fin l" "0 < l" using least_positive by blast
  let ?secs = "fdiv_pos (fsub (Max (set ?ends)) (Fin (of_int ?start))) 1000000000"
  have "fsub (Max (set ?ends)) (Fin (of_int ?start)) \<noteq> NaN" using mx by (simp add: fsub_def fadd_fin)
  then have "?secs \<noteq> NaN" by (cases "fsub (Max (set ?ends)) (Fin (of_int ?start))") simp_all
  then have "(\<exists>q. (if flt ?secs (Fin l) then Fin l else ?secs) = Fin q \<and> 0 < q) \<or> (if flt ?secs (Fin l) then Fin l else ?secs) = PInf"
    using l(2) by (cases ?secs) auto
  then obtain q where "(if flt ?secs (Fin l) then Fin l else ?secs) = Fin q \<and> 0 < q \<or> (if flt ?secs (Fin l) then Fin l else ?secs) = PInf" by blast
  then have "Fin 0 \<le> fdiv_by (Fin (of_int (int (length rs)))) (if flt ?secs (Fin l) then Fin l else ?secs)"
    using b64_round_mono [of 0 "of_int (int (length rs)) / q"] by (auto simp: fdiv_by_def)
  then show ?thesis using that False ends start n l(1) by (simp only: throughput_def if_False Let_def rbind_Inr)
qed

subsection \<open>The summary of a file\<close>

definition countable_rows :: "drow list \<Rightarrow> bool" where
  "countable_rows rows \<longleftrightarrow> rows \<noteq> [] \<and> length rows < 2 ^ 53
     \<and> (\<forall>r \<in> set rows. dr_status r = ''completed'' \<longrightarrow> \<bar>dr_submit_ns r\<bar> < 2 ^ 53 \<and> moderate (dr_total_ms r))"

lemma summarize_ok:
  assumes "countable_rows rows"
  obtains sm where "summarize rows = Inr sm" "sm_num_requests sm = length rows"
    "sm_completed sm = length (filter (\<lambda>r. dr_status r = ''completed'') rows)"
    "sm_failed sm = length (filter (\<lambda>r. dr_status r = ''failed'') rows)"
    "sm_cancelled sm = length (filter (\<lambda>r. dr_status r = ''cancelled'') rows)"
    "sm_run_id sm = dr_run_id (hd rows)" "sm_notes sm = queue_wait_note (dr_boundary (hd rows))" "Fin 0 \<le> sm_throughput sm"
    "sm_completed sm = 0 \<Longrightarrow> sm_total_ms_min sm = None"
    "0 < sm_completed sm \<Longrightarrow> \<exists>a b c m. sm_total_ms sm = \<lparr>p50 = Some a, p90 = Some b, p99 = Some c\<rparr>
       \<and> sm_total_ms_min sm = Some m \<and> m \<le> a \<and> m \<le> b \<and> m \<le> c \<and> (\<forall>x. sm_total_ms_max sm = Some x \<longrightarrow> m \<le> x)"
proof -
  let ?done = "filter (\<lambda>r. dr_status r = ''completed'') rows"
  have "length rows < 2 ^ 53" using assms by (simp add: countable_rows_def)
  then have len: "length ?done < 2 ^ 53" using length_filter_le [of "\<lambda>r. dr_status r = ''completed''" rows]
    by (rule order_le_less_trans [rotated])
  obtain t where t: "throughput ?done = Inr t" "Fin 0 \<le> t"
    by (rule throughput_ok [of ?done]) (use assms len in \<open>auto simp: countable_rows_def\<close>)
  have l: "length (map f ?done) \<le> 2 ^ 53" for f :: "drow \<Rightarrow> pyfloat" using len by simp
  obtain q where q: "pcts (map dr_queue_wait_ms ?done) = Inr q" by (rule pcts_total [OF l])
  obtain s where s: "pcts (map dr_service_ms_observed ?done) = Inr s" by (rule pcts_total [OF l])
  obtain p where p: "pcts (map dr_total_ms ?done) = Inr p" by (rule pcts_total [OF l])
  obtain first rest where rows: "rows = first # rest" using assms by (cases rows) (auto simp: countable_rows_def)
  let ?sm = "\<lparr>sm_schema_version = ''1'', sm_run_id = dr_run_id first, sm_backend = dr_backend first,
     sm_boundary = dr_boundary first, sm_workload = dr_workload first, sm_num_requests = length rows,
     sm_completed = length ?done, sm_failed = length (filter (\<lambda>r. dr_status r = ''failed'') rows),
     sm_cancelled = length (filter (\<lambda>r. dr_status r = ''cancelled'') rows), sm_throughput = t,
     sm_total_ms = p, sm_queue_wait_ms = q, sm_service_ms = s,
     sm_total_ms_min = (if map dr_total_ms ?done = [] then None else Some (Min (set (map dr_total_ms ?done)))),
     sm_total_ms_max = (if map dr_total_ms ?done = [] then None else Some (Max (set (map dr_total_ms ?done)))),
     sm_notes = queue_wait_note (dr_boundary first)\<rparr>"
  have sm: "summarize rows = Inr ?sm"
    using t(1) q s p unfolding summarize_def rows list.case Let_def by (simp only: rbind_Inr)
  have low: "\<exists>a b c m. p = \<lparr>p50 = Some a, p90 = Some b, p99 = Some c\<rparr> \<and> Min (set (map dr_total_ms ?done)) = m
      \<and> m \<le> a \<and> m \<le> b \<and> m \<le> c \<and> m \<le> Max (set (map dr_total_ms ?done))" if ne: "?done \<noteq> []"
  proof -
    have v: "map dr_total_ms ?done \<noteq> []" "\<forall>v \<in> set (map dr_total_ms ?done). moderate v"
      using ne assms by (auto simp: countable_rows_def)
    obtain a b c where "pcts (map dr_total_ms ?done) = Inr \<lparr>p50 = Some a, p90 = Some b, p99 = Some c\<rparr>"
      "Min (set (map dr_total_ms ?done)) \<le> a" "Min (set (map dr_total_ms ?done)) \<le> b" "Min (set (map dr_total_ms ?done)) \<le> c"
      by (rule pcts_least [OF v(1) l v(2)])
    moreover have "Min (set (map dr_total_ms ?done)) \<le> Max (set (map dr_total_ms ?done))"
      using v(1) by (intro Min_le Max_in) (simp_all only: finite_set set_empty not_False_eq_True)
    ultimately show ?thesis using p by simp
  qed
  have hd: "hd rows = first" by (simp add: rows)
  show ?thesis
  proof (rule that [OF sm])
    show "sm_total_ms_min ?sm = None" if "sm_completed ?sm = 0" using that by simp
    assume "0 < sm_completed ?sm"
    then have ne: "?done \<noteq> []" by (simp only: summary.simps length_greater_0_conv not_False_eq_True)
    then have "map dr_total_ms ?done \<noteq> []" by (simp only: map_is_Nil_conv not_False_eq_True)
    then show "\<exists>a b c m. sm_total_ms ?sm = \<lparr>p50 = Some a, p90 = Some b, p99 = Some c\<rparr> \<and> sm_total_ms_min ?sm = Some m
       \<and> m \<le> a \<and> m \<le> b \<and> m \<le> c \<and> (\<forall>x. sm_total_ms_max ?sm = Some x \<longrightarrow> m \<le> x)"
      using low [OF ne] by (simp only: summary.simps if_False option.inject) blast
  qed (simp_all add: hd t(2))
qed

end
