(* ===== verification/BenchServer.thy ===== *)
theory BenchServer
  imports BenchApi HarnessProps PyFloatOrder
begin

text \<open>
  The synthetic backend of \<open>ray_impl/ray_actor_baseline.py\<close>: what one actor does with one request. The
  actor's state holds its clock; \<open>sv_late n\<close> is the delay before its \<open>n\<close>-th reading of the clock or
  after its \<open>n\<close>-th sleep (\<open>time.sleep\<close> rounds up to nanoseconds and never wakes early). \<open>repr\<close>, the text
  of an exception, is a parameter.
\<close>

subsection \<open>Requests and results\<close>

record sreq =
  sq_request_id :: string
  sq_service_ms :: pyfloat
  sq_chunks :: int
  sq_chunk_delay_ms :: pyfloat
  sq_work_mode :: string

definition make_request :: "string \<Rightarrow> pyfloat \<Rightarrow> string \<Rightarrow> int \<Rightarrow> pyfloat \<Rightarrow> sreq" where
  "make_request request_id service_ms work_mode chunks chunk_delay_ms =
     \<lparr>sq_request_id = request_id, sq_service_ms = service_ms, sq_chunks = chunks,
      sq_chunk_delay_ms = chunk_delay_ms, sq_work_mode = work_mode\<rparr>"

text \<open>A hosted engine also reports the chunks it completed; the synthetic server has no such key.\<close>

record srow =
  sr_actor_id :: string
  sr_start_ns :: int
  sr_end_ns :: int
  sr_service_ms_observed :: pyfloat
  sr_status :: string
  sr_error :: pyval
  sr_chunks_completed :: "int option"

subsection \<open>\<open>SyntheticServer\<close>\<close>

record server =
  sv_actor_id :: string
  sv_now :: int
  sv_late :: "nat \<Rightarrow> nat"
  sv_events :: nat

definition elapse :: "int \<Rightarrow> server \<Rightarrow> server" where
  "elapse d sv = sv\<lparr>sv_now := sv_now sv + d + int (sv_late sv (sv_events sv)), sv_events := Suc (sv_events sv)\<rparr>"

text \<open>\<open>__init__\<close> keeps the id it draws.\<close>

definition server_init :: "string \<Rightarrow> (server, unit) io" where
  "server_init actor_id sv = (sv\<lparr>sv_actor_id := actor_id\<rparr>, Returns ())"

definition get_actor_id :: "(server, string) io" where
  "get_actor_id sv = (sv, Returns (sv_actor_id sv))"

text \<open>\<open>time.perf_counter_ns()\<close>.\<close>

definition srv_clock :: "(server, int) io" where
  "srv_clock sv = (elapse 0 sv, Returns (sv_now (elapse 0 sv)))"

text \<open>\<open>time.sleep(secs)\<close> of a positive number of seconds; more than 64-bit nanoseconds is an \<open>OverflowError\<close>.\<close>

definition sleep_ns :: "pyfloat \<Rightarrow> int" where
  "sleep_ns secs = (case secs of Fin q \<Rightarrow> \<lceil>q * 10 ^ 9\<rceil> | _ \<Rightarrow> 0)"

definition time_sleep :: "pyfloat \<Rightarrow> (server, unit) io" where
  "time_sleep secs = (case secs of
       Fin q \<Rightarrow> if sleep_ns secs < 2 ^ 63 then (\<lambda>sv. (elapse (sleep_ns secs) sv, Returns ())) else io_raise OverflowError
     | NaN \<Rightarrow> io_raise ValueError
     | _ \<Rightarrow> io_raise OverflowError)"

text \<open>\<open>for c in range(n)\<close>, with \<open>k\<close> rounds left.\<close>

fun serve_chunks :: "pyfloat \<Rightarrow> pyfloat \<Rightarrow> nat \<Rightarrow> (server, unit) io" where
  "serve_chunks per_chunk delay 0 = io_ret ()"
| "serve_chunks per_chunk delay (Suc k) =
     io_bind (if flt (Fin 0) per_chunk then time_sleep (fdiv_pos per_chunk 1000) else io_ret ()) (\<lambda>_.
     io_bind (if 0 < k \<and> flt (Fin 0) delay then time_sleep (fdiv_pos delay 1000) else io_ret ()) (\<lambda>_.
     serve_chunks per_chunk delay k))"

text \<open>\<open>service_ms_requested / n\<close>.\<close>

definition per_chunk_ms :: "pyfloat \<Rightarrow> int \<Rightarrow> pyfloat py" where
  "per_chunk_ms service_ms n = (case float_of_int n of Some (Fin r) \<Rightarrow> Inr (fdiv_pos service_ms r) | _ \<Rightarrow> Inl OverflowError)"

text \<open>The body of the \<open>try\<close>: the work, or an exception.\<close>

definition serve_work :: "sreq \<Rightarrow> (server, unit) io" where
  "serve_work rq =
     (if sq_work_mode rq \<noteq> ''sleep'' then io_raise ValueError
      else let n0 = (if sq_chunks rq = 0 then 1 else sq_chunks rq); n = (if n0 < 1 then 1 else n0) in
        io_bind (io_py (per_chunk_ms (sq_service_ms rq) n)) (\<lambda>per_chunk.
          serve_chunks per_chunk (sq_chunk_delay_ms rq) (nat n)))"

definition synth_serve :: "(exc \<Rightarrow> string) \<Rightarrow> sreq \<Rightarrow> (server, srow) io" where
  "synth_serve repr rq =
     io_bind srv_clock (\<lambda>start_ns.
     io_bind (io_except (io_bind (serve_work rq) (\<lambda>_. io_ret (''completed'', VNone)))
       (\<lambda>exc. io_ret (''failed'', VStr (repr exc)))) (\<lambda>(status, error).
     io_bind srv_clock (\<lambda>end_ns.
     io_bind (io_py (ns_to_ms (end_ns - start_ns))) (\<lambda>observed.
     (\<lambda>sv. (sv, Returns \<lparr>sr_actor_id = sv_actor_id sv, sr_start_ns = start_ns, sr_end_ns = end_ns,
        sr_service_ms_observed = observed, sr_status = status, sr_error = error, sr_chunks_completed = None\<rparr>))))))"

subsection \<open>How long it serves\<close>

text \<open>What a request asks for: a sleep for each chunk, with gaps between them.\<close>

definition sleep_of :: "pyfloat \<Rightarrow> int" where
  "sleep_of ms = (if flt (Fin 0) ms then sleep_ns (fdiv_pos ms 1000) else 0)"

definition sleepable :: "pyfloat \<Rightarrow> bool" where
  "sleepable ms \<longleftrightarrow> \<not> flt (Fin 0) ms \<or> (\<exists>q. fdiv_pos ms 1000 = Fin q) \<and> sleep_ns (fdiv_pos ms 1000) < 2 ^ 63"

text \<open>The delays of the machine are below \<open>2^53\<close> nanoseconds.\<close>

definition prompt :: "server \<Rightarrow> bool" where
  "prompt sv \<longleftrightarrow> (\<forall>n. int (sv_late sv n) < 2 ^ 53)"

text \<open>Time has passed: at least \<open>lo\<close>, at most \<open>hi\<close>; nothing else of the actor changes.\<close>

definition passed :: "int \<Rightarrow> int \<Rightarrow> server \<Rightarrow> server \<Rightarrow> bool" where
  "passed lo hi sv sv' \<longleftrightarrow> sv_now sv + lo \<le> sv_now sv' \<and> sv_now sv' \<le> sv_now sv + hi
     \<and> sv_actor_id sv' = sv_actor_id sv \<and> prompt sv'"

lemma passed_refl: "prompt sv \<Longrightarrow> passed 0 0 sv sv"
  by (simp add: passed_def)

lemma passed_trans: "passed a b sv1 sv2 \<Longrightarrow> passed c d sv2 sv3 \<Longrightarrow> passed (a + c) (b + d) sv1 sv3"
  by (auto simp: passed_def)

lemma passed_elapse: "prompt sv \<Longrightarrow> passed d (d + 2 ^ 53) sv (elapse d sv)"
  using less_imp_le by (auto simp: passed_def elapse_def prompt_def)

lemma clock_runs: "prompt sv \<Longrightarrow> runs srv_clock sv (\<lambda>sv' n. passed 0 (2 ^ 53) sv sv' \<and> n = sv_now sv')"
  using passed_elapse [of sv 0] by (simp add: srv_clock_def runs_def)

lemma sleep_of_nonneg: "0 \<le> sleep_of ms"
proof (cases ms)
  case (Fin q)
  show ?thesis
  proof (cases "b64_round (q / 1000)")
    case (Fin r)
    show ?thesis
    proof (cases "0 < q")
      case True
      then have "\<not> flt (Fin r) (Fin 0)" using b64_round_nonneg [of "q / 1000"] Fin by simp
      then have "0 \<le> r * 10 ^ 9" by simp
      then show ?thesis using \<open>ms = Fin q\<close> Fin True by (simp add: sleep_of_def sleep_ns_def)
    qed (simp add: \<open>ms = Fin q\<close> sleep_of_def)
  qed (simp_all add: \<open>ms = Fin q\<close> sleep_of_def sleep_ns_def)
qed (simp_all add: sleep_of_def sleep_ns_def)

lemma time_sleep_runs:
  assumes "sleepable ms" and "prompt sv"
  shows "runs (if flt (Fin 0) ms then time_sleep (fdiv_pos ms 1000) else io_ret ()) sv
     (\<lambda>sv' _. passed (sleep_of ms) (2 ^ 64) sv sv')"
proof (cases "flt (Fin 0) ms")
  case True
  then obtain q where q: "fdiv_pos ms 1000 = Fin q" "sleep_ns (fdiv_pos ms 1000) < 2 ^ 63"
    using assms(1) by (auto simp: sleepable_def)
  have "passed (sleep_ns (Fin q)) (2 ^ 64) sv (elapse (sleep_ns (Fin q)) sv)"
    using passed_elapse [OF assms(2), of "sleep_ns (Fin q)"] q by (simp add: passed_def)
  then show ?thesis using True q by (simp add: time_sleep_def runs_def sleep_of_def)
qed (use assms(2) passed_refl in \<open>auto simp: runs_ret sleep_of_def passed_def\<close>)

lemma serve_chunks_runs:
  assumes "sleepable per_chunk" and "sleepable delay" and "prompt sv"
  shows "runs (serve_chunks per_chunk delay k) sv (\<lambda>sv' _.
     passed (int k * sleep_of per_chunk + int (k - 1) * sleep_of delay) (int k * 2 ^ 65) sv sv')"
  using assms(3)
proof (induction k arbitrary: sv)
  case 0
  then show ?case by (simp add: runs_ret passed_refl)
next
  case (Suc k)
  show ?case
    unfolding serve_chunks.simps runs_bind
  proof (rule runs_mono [OF time_sleep_runs [OF assms(1) Suc.prems]])
    fix sv1 :: server assume 1: "passed (sleep_of per_chunk) (2 ^ 64) sv sv1"
    then have pr: "prompt sv1" by (simp add: passed_def)
    have gap: "runs (if 0 < k \<and> flt (Fin 0) delay then time_sleep (fdiv_pos delay 1000) else io_ret ()) sv1
       (\<lambda>sv2 _. passed (if 0 < k then sleep_of delay else 0) (2 ^ 64) sv1 sv2)"
      using time_sleep_runs [OF assms(2) pr] passed_refl [OF pr]
      by (cases "0 < k") (simp_all add: runs_ret passed_def)
    show "runs (if 0 < k \<and> flt (Fin 0) delay then time_sleep (fdiv_pos delay 1000) else io_ret ()) sv1
       (\<lambda>s' x. runs (serve_chunks per_chunk delay k) s' (\<lambda>sv' _.
          passed (int (Suc k) * sleep_of per_chunk + int (Suc k - 1) * sleep_of delay) (int (Suc k) * 2 ^ 65) sv sv'))"
    proof (rule runs_mono [OF gap])
      fix sv2 :: server assume 2: "passed (if 0 < k then sleep_of delay else 0) (2 ^ 64) sv1 sv2"
      then have "prompt sv2" by (simp add: passed_def)
      then show "runs (serve_chunks per_chunk delay k) sv2 (\<lambda>sv' _.
          passed (int (Suc k) * sleep_of per_chunk + int (Suc k - 1) * sleep_of delay) (int (Suc k) * 2 ^ 65) sv sv')"
      proof (rule runs_mono [OF Suc.IH])
        fix sv3 :: server assume 3: "passed (int k * sleep_of per_chunk + int (k - 1) * sleep_of delay) (int k * 2 ^ 65) sv2 sv3"
        from passed_trans [OF passed_trans [OF 1 2] 3]
        show "passed (int (Suc k) * sleep_of per_chunk + int (Suc k - 1) * sleep_of delay) (int (Suc k) * 2 ^ 65) sv sv3"
          by (cases k) (simp_all add: algebra_simps)
      qed
    qed
  qed
qed

text \<open>
  A request of the contract: sleep mode, a positive number of chunks, and durations a clock can sleep.
\<close>

definition serve_admits :: "sreq \<Rightarrow> bool" where
  "serve_admits rq \<longleftrightarrow> sq_work_mode rq = ''sleep'' \<and> 1 \<le> sq_chunks rq \<and> sq_chunks rq < 2 ^ 31
     \<and> (\<exists>per. per_chunk_ms (sq_service_ms rq) (sq_chunks rq) = Inr per \<and> sleepable per) \<and> sleepable (sq_chunk_delay_ms rq)"

text \<open>A completed row that took at least as long as all the sleeps.\<close>

definition serve_answers :: "sreq \<Rightarrow> srow \<Rightarrow> bool" where
  "serve_answers rq r \<longleftrightarrow> sr_status r = ''completed'' \<and> sr_error r = VNone
     \<and> ns_to_ms (sr_end_ns r - sr_start_ns r) = Inr (sr_service_ms_observed r)
     \<and> (\<exists>per. per_chunk_ms (sq_service_ms rq) (sq_chunks rq) = Inr per
        \<and> sq_chunks rq * sleep_of per + (sq_chunks rq - 1) * sleep_of (sq_chunk_delay_ms rq)
           \<le> sr_end_ns r - sr_start_ns r)"

lemma serve_work_runs:
  assumes "serve_admits rq" and "prompt sv"
  shows "\<exists>per. per_chunk_ms (sq_service_ms rq) (sq_chunks rq) = Inr per \<and> runs (serve_work rq) sv (\<lambda>sv' _.
     passed (sq_chunks rq * sleep_of per + (sq_chunks rq - 1) * sleep_of (sq_chunk_delay_ms rq)) (2 ^ 96) sv sv')"
proof -
  obtain per where per: "per_chunk_ms (sq_service_ms rq) (sq_chunks rq) = Inr per" "sleepable per"
    using assms(1) by (auto simp: serve_admits_def)
  define n where "n = nat (sq_chunks rq)"
  have n: "int n = sq_chunks rq" "int (n - 1) = sq_chunks rq - 1" "int n * 2 ^ 65 \<le> 2 ^ 96"
    using assms(1) by (auto simp: serve_admits_def n_def)
  have "runs (serve_chunks per (sq_chunk_delay_ms rq) n) sv (\<lambda>sv' _.
     passed (int n * sleep_of per + int (n - 1) * sleep_of (sq_chunk_delay_ms rq)) (int n * 2 ^ 65) sv sv')"
    using assms per(2) by (intro serve_chunks_runs) (simp_all add: serve_admits_def)
  then have "runs (serve_chunks per (sq_chunk_delay_ms rq) n) sv (\<lambda>sv' _.
     passed (sq_chunks rq * sleep_of per + (sq_chunks rq - 1) * sleep_of (sq_chunk_delay_ms rq)) (2 ^ 96) sv sv')"
    by (rule runs_mono) (use n in \<open>auto simp: passed_def\<close>)
  then show ?thesis
    using assms(1) per(1) by (intro exI [of _ per])
      (simp add: serve_work_def serve_admits_def runs_bind runs_py n_def Let_def)
qed

lemma synth_serve_runs:
  assumes "serve_admits rq" and "prompt sv"
  shows "runs (synth_serve repr rq) sv (\<lambda>sv' r. prompt sv' \<and> sv_actor_id sv' = sv_actor_id sv
     \<and> serve_answers rq r \<and> sr_actor_id r = sv_actor_id sv \<and> sr_end_ns r \<le> sv_now sv')"
  unfolding synth_serve_def runs_bind
proof (rule runs_mono [OF clock_runs [OF assms(2)]], elim conjE)
  fix sv1 start assume 1: "passed 0 (2 ^ 53) sv sv1" and start: "start = sv_now sv1"
  then have pr: "prompt sv1" by (simp add: passed_def)
  obtain per where per: "per_chunk_ms (sq_service_ms rq) (sq_chunks rq) = Inr per"
    and work: "runs (serve_work rq) sv1 (\<lambda>sv' _.
      passed (sq_chunks rq * sleep_of per + (sq_chunks rq - 1) * sleep_of (sq_chunk_delay_ms rq)) (2 ^ 96) sv1 sv')"
    using serve_work_runs [OF assms(1) pr] by blast
  let ?lo = "sq_chunks rq * sleep_of per + (sq_chunks rq - 1) * sleep_of (sq_chunk_delay_ms rq)"
  have tried: "runs (io_except (io_bind (serve_work rq) (\<lambda>_. io_ret (''completed'', VNone)))
       (\<lambda>exc. io_ret (''failed'', VStr (repr exc)))) sv1 (\<lambda>sv2 x. x = (''completed'', VNone) \<and> passed ?lo (2 ^ 96) sv1 sv2)"
    by (rule runs_except) (simp add: runs_bind runs_ret, rule runs_mono [OF work], simp)
  show "runs (io_except (io_bind (serve_work rq) (\<lambda>_. io_ret (''completed'', VNone)))
       (\<lambda>exc. io_ret (''failed'', VStr (repr exc)))) sv1 (\<lambda>s' x. runs (case x of (status, error) \<Rightarrow>
     io_bind srv_clock (\<lambda>end_ns.
     io_bind (io_py (ns_to_ms (end_ns - start))) (\<lambda>observed.
     (\<lambda>sv. (sv, Returns \<lparr>sr_actor_id = sv_actor_id sv, sr_start_ns = start, sr_end_ns = end_ns,
        sr_service_ms_observed = observed, sr_status = status, sr_error = error, sr_chunks_completed = None\<rparr>))))) s'
     (\<lambda>sv' r. prompt sv' \<and> sv_actor_id sv' = sv_actor_id sv \<and> serve_answers rq r \<and> sr_actor_id r = sv_actor_id sv
        \<and> sr_end_ns r \<le> sv_now sv'))"
  proof (rule runs_mono [OF tried], elim conjE)
    fix sv2 x assume x: "x = (''completed'', VNone :: pyval)" and 2: "passed ?lo (2 ^ 96) sv1 sv2"
    then have pr2: "prompt sv2" by (simp add: passed_def)
    show "runs (case x of (status, error) \<Rightarrow> io_bind srv_clock (\<lambda>end_ns.
     io_bind (io_py (ns_to_ms (end_ns - start))) (\<lambda>observed.
     (\<lambda>sv. (sv, Returns \<lparr>sr_actor_id = sv_actor_id sv, sr_start_ns = start, sr_end_ns = end_ns,
        sr_service_ms_observed = observed, sr_status = status, sr_error = error, sr_chunks_completed = None\<rparr>))))) sv2
     (\<lambda>sv' r. prompt sv' \<and> sv_actor_id sv' = sv_actor_id sv \<and> serve_answers rq r \<and> sr_actor_id r = sv_actor_id sv
        \<and> sr_end_ns r \<le> sv_now sv')"
      unfolding x prod.case runs_bind
    proof (rule runs_mono [OF clock_runs [OF pr2]], elim conjE)
      fix sv3 stop assume 3: "passed 0 (2 ^ 53) sv2 sv3" and stop: "stop = sv_now sv3"
      have lo: "?lo \<le> stop - start" "sv_actor_id sv3 = sv_actor_id sv" "prompt sv3"
        using 1 2 3 start stop by (auto simp: passed_def)
      have "stop - start \<le> 2 ^ 97" using 2 3 start stop by (simp add: passed_def)
      moreover have "0 \<le> ?lo"
        using assms(1) sleep_of_nonneg by (auto simp: serve_admits_def intro!: add_nonneg_nonneg mult_nonneg_nonneg)
      ultimately have "\<bar>stop - start\<bar> < 2 ^ 1000" using lo(1) by auto
      then obtain f where f: "ns_to_ms (stop - start) = Inr f"
        using float_of_int_large by (fastforce simp: ns_to_ms_def)
      show "runs (io_py (ns_to_ms (stop - start))) sv3 (\<lambda>s' observed.
         runs (\<lambda>sv. (sv, Returns \<lparr>sr_actor_id = sv_actor_id sv, sr_start_ns = start, sr_end_ns = stop,
           sr_service_ms_observed = observed, sr_status = ''completed'', sr_error = VNone, sr_chunks_completed = None\<rparr>)) s'
         (\<lambda>sv' r. prompt sv' \<and> sv_actor_id sv' = sv_actor_id sv \<and> serve_answers rq r \<and> sr_actor_id r = sv_actor_id sv
            \<and> sr_end_ns r \<le> sv_now sv'))"
        unfolding runs_py f using lo f per stop by (simp add: runs_def [of "\<lambda>sv. _ sv"] serve_answers_def)
    qed
  qed
qed

end
