(* ===== verification/BenchRay.thy ===== *)
theory BenchRay
  imports BenchWindow BenchServer
begin

text \<open>
  The drivers that measure actors behind Ray: \<open>bench/run_ray_baseline.py\<close> and the two hosting drivers.
  Ray itself is the parameter \<open>A\<close>: submitting a request to actor \<open>k\<close> (\<open>actors[k].serve.remote\<close>),
  \<open>ray.wait\<close>, \<open>ray.get\<close>, starting and stopping. The three files repeat the same loops over their own
  \<open>_submit\<close>; the loops are defined once here, over the number of actors and the worker identity recorded
  for each.
\<close>

type_synonym ray_call = "nat \<times> sreq"

text \<open>What \<open>.remote\<close> starts: the synthetic server, or a host of an engine (lanes, threads, lane kind,
  admission bound, reserved CPUs). \<open>ra_ids\<close> is \<open>ray.get\<close> of every actor's \<open>ids()\<close>, with \<open>None\<close> for
  \<open>GetTimeoutError\<close>.\<close>

datatype actor_class = Synthetic | Hosting int int string "int option" "int option"

record ('s, 'f) ray_api = "('s, ray_call, 'f, srow) api" +
  ra_init :: "int \<Rightarrow> ('s, unit) io"
  ra_actors :: "actor_class \<Rightarrow> nat \<Rightarrow> ('s, unit) io"
  ra_ids :: "nat \<Rightarrow> pyfloat option \<Rightarrow> ('s, (string \<times> string option) list option) io"
  ra_stop_actors :: "nat \<Rightarrow> ('s, bool list) io"
  ra_shutdown :: "('s, unit) io"

subsection \<open>Rows\<close>

text \<open>What the driver remembers of a reference: request id, submit time, service time, worker.\<close>

type_synonym ref_tag = "string \<times> int \<times> pyfloat \<times> string option"

type_synonym make_row = "string \<Rightarrow> int \<Rightarrow> srow \<Rightarrow> int \<Rightarrow> pyfloat \<Rightarrow> string option \<Rightarrow> drow py"

definition ray_make_record :: "dargs \<Rightarrow> string \<Rightarrow> string \<Rightarrow> string \<Rightarrow> make_row" where
  "ray_make_record args run_id workload retire_mode rid submit_ns result recv_ns sv worker =
     rbind (ns_to_ms (recv_ns - submit_ns)) (\<lambda>total_ms.
       Inr \<lparr>dr_schema_version = ''1'', dr_run_id = run_id, dr_backend = ''synthetic'', dr_boundary = ''ray-actor-process'',
         dr_workload = workload, dr_request_id = rid, dr_actor_id = sr_actor_id result, dr_worker_id = None,
         dr_status = sr_status result, dr_submit_ns = submit_ns, dr_start_ns = sr_start_ns result,
         dr_end_ns = sr_end_ns result, dr_total_ms = total_ms,
         dr_queue_wait_ms = clamp0 (fsub total_ms (sr_service_ms_observed result)),
         dr_service_ms_observed = sr_service_ms_observed result, dr_service_ms_requested = sv,
         dr_chunks = da_chunks args, dr_chunk_delay_ms = da_chunk_delay_ms args, dr_work_mode = da_work_mode args,
         dr_retire_mode = retire_mode, dr_error = sr_error result\<rparr>)"

text \<open>The hosting drivers record the outer actor as the worker.\<close>

definition host_make_record :: "dargs \<Rightarrow> string \<Rightarrow> string \<Rightarrow> make_row" where
  "host_make_record args run_id workload rid submit_ns result recv_ns sv worker =
     rbind (ns_to_ms (recv_ns - submit_ns)) (\<lambda>total_ms.
       Inr \<lparr>dr_schema_version = ''1'', dr_run_id = run_id, dr_backend = ''rayx'', dr_boundary = ''ray-actor-rayx-engine'',
         dr_workload = workload, dr_request_id = rid, dr_actor_id = sr_actor_id result, dr_worker_id = worker,
         dr_status = sr_status result, dr_submit_ns = submit_ns, dr_start_ns = sr_start_ns result,
         dr_end_ns = sr_end_ns result, dr_total_ms = total_ms,
         dr_queue_wait_ms = clamp0 (fsub total_ms (sr_service_ms_observed result)),
         dr_service_ms_observed = sr_service_ms_observed result, dr_service_ms_requested = sv,
         dr_chunks = da_chunks args, dr_chunk_delay_ms = da_chunk_delay_ms args, dr_work_mode = da_work_mode args,
         dr_retire_mode = da_retire_mode args, dr_error = sr_error result\<rparr>)"

subsection \<open>The loops\<close>

definition ray_request :: "dargs \<Rightarrow> nat \<Rightarrow> sreq" where
  "ray_request args idx = make_request (req_id idx) (svc args idx) (da_work_mode args) (da_chunks args) (da_chunk_delay_ms args)"

text \<open>The round-robin counter and the requests in flight.\<close>

type_synonym 'f ref_state = "nat \<times> ('f \<times> ref_tag) list"

definition ref_submit ::
    "('s, 'f, 'z) ray_api_scheme \<Rightarrow> nat \<Rightarrow> (nat \<Rightarrow> string option) \<Rightarrow> dargs \<Rightarrow> nat \<Rightarrow> 'f ref_state \<Rightarrow> ('s, 'f ref_state) io" where
  "ref_submit A n_actors worker args idx d = (case d of (rr, infl) \<Rightarrow>
     if n_actors = 0 then io_raise ZeroDivisionError
     else let k = rr mod n_actors in
       io_bind (ap_clock A) (\<lambda>submit_ns.
       io_bind (ap_submit A (k, ray_request args idx)) (\<lambda>ref.
       io_ret (rr + 1, AList.update ref (req_id idx, submit_ns, svc args idx, worker k) infl))))"

text \<open>\<open>for ref, result in zip(done, results)\<close>.\<close>

fun ref_retire ::
    "make_row \<Rightarrow> bool \<Rightarrow> int \<Rightarrow> ('f \<times> srow) list \<Rightarrow> ('f \<times> ref_tag) list \<Rightarrow> drow list
      \<Rightarrow> (('f \<times> ref_tag) list \<times> drow list) py" where
  "ref_retire mk keep recv_ns [] infl records = Inr (infl, records)"
| "ref_retire mk keep recv_ns ((ref, result) # ps) infl records =
     (case dict_pop ref infl of None \<Rightarrow> Inl KeyError
      | Some ((rid, submit_ns, sv, worker), infl') \<Rightarrow>
          if keep then rbind (mk rid submit_ns result recv_ns sv worker) (\<lambda>row.
            ref_retire mk keep recv_ns ps infl' (records @ [row]))
          else ref_retire mk keep recv_ns ps infl' records)"

definition ref_turn ::
    "('s, 'f, 'z) ray_api_scheme \<Rightarrow> nat \<Rightarrow> (nat \<Rightarrow> string option) \<Rightarrow> dargs \<Rightarrow> int \<Rightarrow> make_row \<Rightarrow> bool
      \<Rightarrow> nat list \<times> 'f ref_state \<times> drow list \<Rightarrow> ('s, nat list \<times> 'f ref_state \<times> drow list) io" where
  "ref_turn A n_actors worker args k mk keep st = (case st of (rest, (rr, infl), records) \<Rightarrow>
     io_bind (ap_wait A (map fst infl) (min k (int (length infl)))) (\<lambda>(ds, pending).
     io_bind (ap_get A ds) (\<lambda>results.
     io_bind (ap_clock A) (\<lambda>recv_ns.
     io_bind (io_py (ref_retire mk keep recv_ns (zip ds results) infl records)) (\<lambda>(infl', records').
     io_bind (refill (length ds) (ref_submit A n_actors worker args) rest (rr, infl')) (\<lambda>(rest', d).
     io_ret (rest', d, records')))))))"

definition ref_windowed ::
    "('s, 'f, 'z) ray_api_scheme \<Rightarrow> nat \<Rightarrow> (nat \<Rightarrow> string option) \<Rightarrow> dargs \<Rightarrow> nat list \<Rightarrow> int \<Rightarrow> make_row \<Rightarrow> bool
      \<Rightarrow> ('s, drow list) io" where
  "ref_windowed A n_actors worker args indices k mk keep =
     io_bind (fill snd (da_concurrency args) (ref_submit A n_actors worker args) indices (0, [])) (\<lambda>(rest, d).
     io_bind (io_while (length indices) (\<lambda>(rest, d, records). snd d \<noteq> []) (ref_turn A n_actors worker args k mk keep)
       (rest, d, [])) (\<lambda>(rest, d, records).
     io_ret records))"

text \<open>Each request goes into a dict of its own, of which the one entry is taken out again.\<close>

fun ref_submit_list ::
    "('s, 'f, 'z) ray_api_scheme \<Rightarrow> nat \<Rightarrow> (nat \<Rightarrow> string option) \<Rightarrow> dargs \<Rightarrow> nat list \<Rightarrow> nat \<Rightarrow> ('s, ('f \<times> ref_tag) list) io" where
  "ref_submit_list A n_actors worker args [] rr = io_ret []"
| "ref_submit_list A n_actors worker args (idx # is) rr =
     io_bind (ref_submit A n_actors worker args idx (rr, [])) (\<lambda>(rr', one).
       case one of [entry] \<Rightarrow> io_bind (ref_submit_list A n_actors worker args is rr') (\<lambda>es. io_ret (entry # es))
         | _ \<Rightarrow> io_raise ValueError)"

text \<open>\<open>meta[ref]\<close>: the last entry of a reference wins in the dict.\<close>

fun ref_rows :: "make_row \<Rightarrow> int \<Rightarrow> ('f \<rightharpoonup> ref_tag) \<Rightarrow> ('f \<times> srow) list \<Rightarrow> drow list py" where
  "ref_rows mk recv_ns meta [] = Inr []"
| "ref_rows mk recv_ns meta ((ref, result) # ps) = (case meta ref of None \<Rightarrow> Inl KeyError
     | Some (rid, submit_ns, sv, worker) \<Rightarrow> rbind (mk rid submit_ns result recv_ns sv worker) (\<lambda>row.
         rbind (ref_rows mk recv_ns meta ps) (\<lambda>rows. Inr (row # rows))))"

definition ref_submit_all ::
    "('s, 'f, 'z) ray_api_scheme \<Rightarrow> nat \<Rightarrow> (nat \<Rightarrow> string option) \<Rightarrow> dargs \<Rightarrow> nat list \<Rightarrow> make_row \<Rightarrow> bool \<Rightarrow> ('s, drow list) io" where
  "ref_submit_all A n_actors worker args indices mk keep =
     io_bind (ref_submit_list A n_actors worker args indices 0) (\<lambda>entries.
     io_bind (ap_get A (map fst entries)) (\<lambda>results.
     io_bind (ap_clock A) (\<lambda>recv_ns.
     if keep then io_py (ref_rows mk recv_ns (map_of (rev entries)) (zip (map fst entries) results)) else io_ret [])))"

subsection \<open>\<open>run_ray_baseline\<close>\<close>

definition ray_run_windowed ::
    "('s, 'f, 'z) ray_api_scheme \<Rightarrow> dargs \<Rightarrow> nat list \<Rightarrow> int \<Rightarrow> string \<Rightarrow> string \<Rightarrow> string \<Rightarrow> bool \<Rightarrow> ('s, drow list) io" where
  "ray_run_windowed A args indices k run_id workload retire_mode keep =
     ref_windowed A (nat (da_num_actors args)) (\<lambda>_. None) args indices k (ray_make_record args run_id workload retire_mode) keep"

definition ray_run_submit_all ::
    "('s, 'f, 'z) ray_api_scheme \<Rightarrow> dargs \<Rightarrow> nat list \<Rightarrow> string \<Rightarrow> string \<Rightarrow> string \<Rightarrow> bool \<Rightarrow> ('s, drow list) io" where
  "ray_run_submit_all A args indices run_id workload retire_mode keep =
     ref_submit_all A (nat (da_num_actors args)) (\<lambda>_. None) args indices (ray_make_record args run_id workload retire_mode) keep"

definition ray_dispatch ::
    "('s, 'f, 'z) ray_api_scheme \<Rightarrow> dargs \<Rightarrow> nat list \<Rightarrow> string \<Rightarrow> string \<Rightarrow> bool \<Rightarrow> ('s, drow list) io" where
  "ray_dispatch A args indices run_id workload keep = (let mode = da_retire_mode args in
     if mode = ''one_by_one'' then ray_run_windowed A args indices 1 run_id workload mode keep
     else if mode = ''batch_wait'' then ray_run_windowed A args indices (max 1 (da_wait_batch args)) run_id workload mode keep
     else if mode = ''submit_all_get_all'' then ray_run_submit_all A args indices run_id workload mode keep
     else io_raise ValueError)"

definition ray_run :: "('s, 'f, 'z) ray_api_scheme \<Rightarrow> dargs \<Rightarrow> string \<Rightarrow> ('s, drow list) io" where
  "ray_run A args run_id =
     io_bind (io_py (ray_workload args)) (\<lambda>workload.
     io_bind (ra_init A (da_num_cpus args)) (\<lambda>_.
     io_bind (io_finally
       (io_bind (ra_actors A Synthetic (nat (da_num_actors args))) (\<lambda>_.
        io_bind (ra_ids A (nat (da_num_actors args)) None) (\<lambda>actor_ids.
        measured args (ap_clock A) (\<lambda>n keep. ray_dispatch A args [0..<nat n] run_id workload keep))))
       (ra_shutdown A)) (\<lambda>records.
     io_ret (sort_rows records))))"

subsection \<open>\<open>run_ray_hosting_rayx\<close>\<close>

definition host_run_windowed ::
    "('s, 'f, 'z) ray_api_scheme \<Rightarrow> dargs \<Rightarrow> nat list \<Rightarrow> string \<Rightarrow> string \<Rightarrow> string \<Rightarrow> bool \<Rightarrow> ('s, drow list) io" where
  "host_run_windowed A args indices run_id workload ray_actor_id keep =
     ref_windowed A 1 (\<lambda>_. Some ray_actor_id) args indices 1 (host_make_record args run_id workload) keep"

definition host_run_submit_all ::
    "('s, 'f, 'z) ray_api_scheme \<Rightarrow> dargs \<Rightarrow> nat list \<Rightarrow> string \<Rightarrow> string \<Rightarrow> string \<Rightarrow> bool \<Rightarrow> ('s, drow list) io" where
  "host_run_submit_all A args indices run_id workload ray_actor_id keep =
     ref_submit_all A 1 (\<lambda>_. Some ray_actor_id) args indices (host_make_record args run_id workload) keep"

definition host_dispatch ::
    "('s, 'f, 'z) ray_api_scheme \<Rightarrow> dargs \<Rightarrow> nat list \<Rightarrow> string \<Rightarrow> string \<Rightarrow> string \<Rightarrow> bool \<Rightarrow> ('s, drow list) io" where
  "host_dispatch A args indices run_id workload ray_actor_id keep =
     (if da_retire_mode args = ''one_by_one'' then host_run_windowed A args indices run_id workload ray_actor_id keep
      else if da_retire_mode args = ''submit_all_get_all'' then host_run_submit_all A args indices run_id workload ray_actor_id keep
      else io_raise ValueError)"

text \<open>One actor: its ids are a list of one pair.\<close>

definition host_run :: "('s, 'f, 'z) ray_api_scheme \<Rightarrow> dargs \<Rightarrow> string \<Rightarrow> ('s, drow list) io" where
  "host_run A args run_id =
     io_bind (io_py (host_workload args)) (\<lambda>workload.
     io_bind (ra_init A (da_num_cpus args)) (\<lambda>_.
     io_bind (io_finally
       (io_bind (ra_actors A (Hosting (da_num_lanes args) (da_hpx_threads args) (da_lane_impl args) (da_cap args) None) 1) (\<lambda>_.
        io_bind (ra_ids A 1 None) (\<lambda>ids. case ids of
            Some [(ray_actor_id, lane_id)] \<Rightarrow>
              io_bind (measured args (ap_clock A) (\<lambda>n keep. host_dispatch A args [0..<nat n] run_id workload ray_actor_id keep)) (\<lambda>records.
              io_bind (ra_stop_actors A 1) (\<lambda>_. io_ret records))
          | _ \<Rightarrow> io_raise TypeError)))
       (ra_shutdown A)) (\<lambda>records.
     io_ret (sort_rows records))))"

subsection \<open>\<open>run_ray_hosting_rayx_multi\<close>\<close>

definition multi_run_windowed ::
    "('s, 'f, 'z) ray_api_scheme \<Rightarrow> dargs \<Rightarrow> string list \<Rightarrow> nat list \<Rightarrow> string \<Rightarrow> string \<Rightarrow> bool \<Rightarrow> ('s, drow list) io" where
  "multi_run_windowed A args actor_ids indices run_id workload keep =
     ref_windowed A (nat (da_num_actors args)) (\<lambda>k. Some (actor_ids ! k)) args indices 1 (host_make_record args run_id workload) keep"

definition multi_run_submit_all ::
    "('s, 'f, 'z) ray_api_scheme \<Rightarrow> dargs \<Rightarrow> string list \<Rightarrow> nat list \<Rightarrow> string \<Rightarrow> string \<Rightarrow> bool \<Rightarrow> ('s, drow list) io" where
  "multi_run_submit_all A args actor_ids indices run_id workload keep =
     ref_submit_all A (nat (da_num_actors args)) (\<lambda>k. Some (actor_ids ! k)) args indices (host_make_record args run_id workload) keep"

definition multi_dispatch ::
    "('s, 'f, 'z) ray_api_scheme \<Rightarrow> dargs \<Rightarrow> string list \<Rightarrow> nat list \<Rightarrow> string \<Rightarrow> string \<Rightarrow> bool \<Rightarrow> ('s, drow list) io" where
  "multi_dispatch A args actor_ids indices run_id workload keep =
     (if da_retire_mode args = ''one_by_one'' then multi_run_windowed A args actor_ids indices run_id workload keep
      else if da_retire_mode args = ''submit_all_get_all'' then multi_run_submit_all A args actor_ids indices run_id workload keep
      else io_raise ValueError)"

text \<open>What the run leaves: no file when the actors did not become ready in time, else the rows, whether
  every actor shut down, and the completed requests of each actor.\<close>

type_synonym actor_counts = "(string option \<times> nat) list"

record multi_report =
  mr_rows :: "drow list"
  mr_shutdown_ok :: bool
  mr_per_actor :: actor_counts

definition count_actor :: "actor_counts \<Rightarrow> drow \<Rightarrow> actor_counts" where
  "count_actor counts r = (if dr_status r = ''completed''
     then AList.update (dr_worker_id r) ((case map_of counts (dr_worker_id r) of None \<Rightarrow> 0 | Some c \<Rightarrow> c) + 1) counts
     else counts)"

definition per_actor :: "string list \<Rightarrow> drow list \<Rightarrow> actor_counts" where
  "per_actor actor_ids rows = foldl count_actor (foldl (\<lambda>d aid. AList.update (Some aid) 0 d) [] actor_ids) rows"

definition multi_run :: "('s, 'f, 'z) ray_api_scheme \<Rightarrow> dargs \<Rightarrow> string \<Rightarrow> ('s, multi_report option) io" where
  "multi_run A args run_id = (let workload = multi_workload args; n = nat (da_num_actors args) in
     io_bind (ra_init A (da_num_cpus args)) (\<lambda>_.
     io_bind (io_finally
       (io_bind (ra_actors A (Hosting (da_num_lanes args) (da_hpx_threads args) (da_lane_impl args) None
            (Some (da_num_cpus_per_actor args))) n) (\<lambda>_.
        io_bind (ap_clock A) (\<lambda>t0.
        io_bind (ra_ids A n (Some (da_actor_ready_timeout args))) (\<lambda>id_pairs. case id_pairs of
            None \<Rightarrow> io_ret None
          | Some pairs \<Rightarrow>
              io_bind (ap_clock A) (\<lambda>ready.
              io_bind (measured args (ap_clock A) (\<lambda>m keep. multi_dispatch A args (map fst pairs) [0..<nat m] run_id workload keep)) (\<lambda>records.
              io_bind (ra_stop_actors A n) (\<lambda>oks. io_ret (Some (map fst pairs, records, list_all id oks)))))))))
       (ra_shutdown A)) (\<lambda>out. case out of
         None \<Rightarrow> io_ret None
       | Some (actor_ids, records, ok) \<Rightarrow>
           io_ret (Some \<lparr>mr_rows = sort_rows records, mr_shutdown_ok = ok, mr_per_actor = per_actor actor_ids (sort_rows records)\<rparr>))))"

end
