(* ===== verification/BenchRayInv.thy ===== *)
theory BenchRayInv
  imports BenchRay BenchRayx
begin

text \<open>
  The Ray drivers' loops against the contract: every request is submitted to the actor its index selects,
  and every index is retired exactly once.
\<close>

subsection \<open>Rows and what is in flight\<close>

abbreviation "ray_reqs n_actors args \<equiv> (\<lambda>i q. q = (i mod n_actors, ray_request args i))"

definition ray_tag :: "nat \<Rightarrow> (nat \<Rightarrow> string option) \<Rightarrow> dargs \<Rightarrow> nat \<Rightarrow> ref_tag \<Rightarrow> bool" where
  "ray_tag n_actors worker args i e \<longleftrightarrow> (\<exists>submit_ns. stamp submit_ns
     \<and> e = (req_id i, submit_ns, svc args i, worker (i mod n_actors)))"

definition ray_row ::
    "(ray_call \<Rightarrow> srow \<Rightarrow> bool) \<Rightarrow> dargs \<Rightarrow> nat \<Rightarrow> (nat \<Rightarrow> string option) \<Rightarrow> make_row \<Rightarrow> nat \<Rightarrow> drow \<Rightarrow> bool" where
  "ray_row answers args n_actors worker mk i rec \<longleftrightarrow> (\<exists>r submit_ns recv_ns.
     answers (i mod n_actors, ray_request args i) r \<and> stamp submit_ns \<and> stamp recv_ns
     \<and> mk (req_id i) submit_ns r recv_ns (svc args i) (worker (i mod n_actors)) = Inr rec)"

definition makes_rows :: "make_row \<Rightarrow> bool" where
  "makes_rows mk \<longleftrightarrow> (\<forall>rid a r b sv w. stamp a \<longrightarrow> stamp b \<longrightarrow> (\<exists>rec. mk rid a r b sv w = Inr rec))"

lemma ray_makes_rows: "makes_rows (ray_make_record args run_id workload mode)"
  using ns_to_ms_stamps by (fastforce simp: makes_rows_def ray_make_record_def)

lemma host_makes_rows: "makes_rows (host_make_record args run_id workload)"
  using ns_to_ms_stamps by (fastforce simp: makes_rows_def host_make_record_def)

text \<open>The counter is the index of the next request.\<close>

definition counted :: "nat \<Rightarrow> nat list \<Rightarrow> 'f ref_state \<Rightarrow> bool" where
  "counted n rest d \<longleftrightarrow> fst d \<le> n \<and> rest = [fst d..<n]"

lemma counted_next: "counted n (i # rest) (rr, infl) \<Longrightarrow> i = rr \<and> i < n \<and> counted n rest (Suc rr, infl')"
  by (cases "rr < n") (auto simp: counted_def upt_conv_Cons)

text \<open>Retiring a batch of references whose values \<open>ray.get\<close> has returned.\<close>

lemma ref_retire_ok:
  assumes "flights ask (ray_reqs n_actors args) (ray_tag n_actors worker args) is infl"
    and "distinct (map fst ps)" and "fst ` set ps \<subseteq> fst ` set infl"
    and "\<And>f r. (f, r) \<in> set ps \<Longrightarrow> answers (the (ask f)) r"
    and "retired (ray_row answers args n_actors worker mk) keep ds records" and "makes_rows mk" and "stamp recv_ns"
  shows "\<exists>infl' records' is' js. ref_retire mk keep recv_ns ps infl records = Inr (infl', records')
     \<and> flights (ask |` (- (fst ` set ps))) (ray_reqs n_actors args) (ray_tag n_actors worker args) is' infl'
     \<and> retired (ray_row answers args n_actors worker mk) keep (ds @ js) records'
     \<and> mset js + mset is' = mset is \<and> length js = length ps"
  using assms(1-5)
proof (induction ps arbitrary: ask "is" infl ds records)
  case Nil
  then show ?case by auto
next
  case (Cons p ps)
  obtain f r where p: "p = (f, r)" by (cases p)
  have mem: "f \<in> fst ` set infl" using Cons.prems(3) p by simp
  obtain i e js q infl1 where o: "dict_pop f infl = Some (e, infl1)" "ray_tag n_actors worker args i e" "ask f = Some q"
      "q = (i mod n_actors, ray_request args i)" "mset is = add_mset i (mset js)"
      "flights (ask(f := None)) (ray_reqs n_actors args) (ray_tag n_actors worker args) js infl1"
      "length infl = Suc (length infl1)" "fst ` set infl1 = fst ` set infl - {f}"
    using Cons.prems(1) mem by (rule flights_pop)
  obtain submit_ns where e: "stamp submit_ns" "e = (req_id i, submit_ns, svc args i, worker (i mod n_actors))"
    using o(2) by (auto simp: ray_tag_def)
  have ans: "answers (i mod n_actors, ray_request args i) r" using Cons.prems(4) [of f r] p o(3,4) by simp
  obtain row where row: "mk (req_id i) submit_ns r recv_ns (svc args i) (worker (i mod n_actors)) = Inr row"
    using assms(6,7) e(1) unfolding makes_rows_def by blast
  have "ray_row answers args n_actors worker mk i row" using ans e(1) assms(7) row unfolding ray_row_def by blast
  then have keepd: "retired (ray_row answers args n_actors worker mk) keep (ds @ [i]) (if keep then records @ [row] else records)"
    by (rule retired_snoc [OF Cons.prems(5)])
  have new: "f \<notin> fst ` set ps" using Cons.prems(2) p by simp
  have "\<exists>infl' records' is' ks. ref_retire mk keep recv_ns ps infl1 (if keep then records @ [row] else records) = Inr (infl', records')
     \<and> flights ((ask(f := None)) |` (- (fst ` set ps))) (ray_reqs n_actors args) (ray_tag n_actors worker args) is' infl'
     \<and> retired (ray_row answers args n_actors worker mk) keep ((ds @ [i]) @ ks) records'
     \<and> mset ks + mset is' = mset js \<and> length ks = length ps"
  proof (rule Cons.IH [OF o(6) _ _ _ keepd])
    show "distinct (map fst ps)" using Cons.prems(2) by simp
    show "fst ` set ps \<subseteq> fst ` set infl1" using Cons.prems(3) new o(8) by auto
    show "answers (the ((ask(f := None)) g)) r'" if "(g, r') \<in> set ps" for g r'
      using that Cons.prems(4) [of g r'] new by force
  qed
  then obtain infl' records' is' ks where
     IH: "ref_retire mk keep recv_ns ps infl1 (if keep then records @ [row] else records) = Inr (infl', records')"
       "flights ((ask(f := None)) |` (- (fst ` set ps))) (ray_reqs n_actors args) (ray_tag n_actors worker args) is' infl'"
       "retired (ray_row answers args n_actors worker mk) keep ((ds @ [i]) @ ks) records'"
       "mset ks + mset is' = mset js" "length ks = length ps"
    by blast
  have A: "ref_retire mk keep recv_ns (p # ps) infl records = Inr (infl', records')"
    using IH(1) by (simp add: p o(1) e(2) row split: if_splits)
  have B: "ask |` (- (fst ` set (p # ps))) = (ask(f := None)) |` (- (fst ` set ps))"
    by (auto simp: p restrict_map_def fun_eq_iff)
  have C: "retired (ray_row answers args n_actors worker mk) keep (ds @ i # ks) records'" using IH(3) by simp
  have D: "mset (i # ks) + mset is' = mset is" using IH(4) o(5) by simp
  show ?case
    unfolding B
    by (intro exI [of _ infl'] exI [of _ records'] exI [of _ is'] exI [of _ "i # ks"] conjI A IH(2) C D) (simp add: IH(5))
qed

subsection \<open>The contract of Ray\<close>

text \<open>
  Ray as the drivers use it, beyond submitting, waiting and getting: it starts, places actors of a class
  it can host, tells their ids (or times out, where a timeout was given), stops them and shuts down.
  \<open>name k\<close> is the id of actor \<open>k\<close>, \<open>staff\<close> how many there are.
\<close>

locale bench_ray = bench_api A ok asked admits answers limit
  for A :: "('s, 'f, 'z) ray_api_scheme"
    and ok :: "'s \<Rightarrow> bool"
    and asked :: "'s \<Rightarrow> 'f \<rightharpoonup> ray_call"
    and admits :: "ray_call \<Rightarrow> bool"
    and answers :: "ray_call \<Rightarrow> srow \<Rightarrow> bool"
    and limit :: nat +
  fixes hosts :: "'s \<Rightarrow> actor_class \<Rightarrow> nat \<Rightarrow> bool"
    and placed :: "'s \<Rightarrow> nat \<Rightarrow> bool"
    and staff :: nat
    and name :: "nat \<Rightarrow> string"
  assumes hosts_size: "hosts s cl n \<Longrightarrow> n = staff"
    and init_law: "hosts s cl n \<Longrightarrow> runs (ra_init A c) s (\<lambda>s' _. hosts s' cl n)"
    and ray_clock_law: "placed s n \<Longrightarrow> runs (ap_clock A) s (\<lambda>s' _. placed s' n)"
    and actors_law: "hosts s cl n \<Longrightarrow> runs (ra_actors A cl n) s (\<lambda>s' _. placed s' n)"
    and ids_law: "placed s n \<Longrightarrow> runs (ra_ids A n timeout) s (\<lambda>s' ids. (ids = None \<longrightarrow> timeout \<noteq> None)
      \<and> (\<forall>ps. ids = Some ps \<longrightarrow> ok s' \<and> asked s' = Map.empty \<and> map fst ps = map name [0..<n]))"
    and stop_law: "ok s \<Longrightarrow> asked s = Map.empty \<Longrightarrow> runs (ra_stop_actors A staff) s (\<lambda>s' oks. oks = replicate staff True)"
    and shutdown_law: "runs (ra_shutdown A) s (\<lambda>_ _. True)"
begin

lemma ref_submit_runs:
  assumes "ok s" and "admits (rr mod n_actors, ray_request args i)" and "card (dom (asked s)) < limit" and "0 < n_actors"
    and "set (map fst infl) \<subseteq> dom (asked s)"
  shows "runs (ref_submit A n_actors worker args i (rr, infl)) s (\<lambda>s' d. ok s' \<and> (\<exists>f sub. asked s f = None
     \<and> asked s' = (asked s)(f \<mapsto> (rr mod n_actors, ray_request args i)) \<and> stamp sub
     \<and> d = (rr + 1, infl @ [(f, req_id i, sub, svc args i, worker (rr mod n_actors))])))"
proof -
  have lim: "card (dom (asked s')) < limit" if "asked s' = asked s" for s' using assms(3) that by simp
  show ?thesis
    unfolding ref_submit_def prod.case Let_def using assms(4)
  proof (simp add: runs_bind runs_ret, intro runs_mono [OF clock_law [OF assms(1)]], elim conjE)
    fix s1 sub assume 1: "ok s1" "asked s1 = asked s" "stamp sub"
    show "runs (ap_submit A (rr mod n_actors, ray_request args i)) s1 (\<lambda>s' x. ok s' \<and> (\<exists>f. asked s f = None
        \<and> asked s' = (asked s)(f \<mapsto> (rr mod n_actors, ray_request args i)) \<and> (\<exists>sub'. stamp sub'
        \<and> AList.update x (req_id i, sub, svc args i, worker (rr mod n_actors)) infl
          = infl @ [(f, req_id i, sub', svc args i, worker (rr mod n_actors))])))"
    proof (rule runs_mono [OF submit_law [OF 1(1) assms(2) lim [OF 1(2)]]], elim conjE)
      fix s2 f assume 2: "ok s2" "asked s1 f = None" "asked s2 = (asked s1)(f \<mapsto> (rr mod n_actors, ray_request args i))"
      have "f \<notin> fst ` set infl" using assms(5) 1(2) 2(2) by auto
      then have "AList.update f (req_id i, sub, svc args i, worker (rr mod n_actors)) infl
          = infl @ [(f, req_id i, sub, svc args i, worker (rr mod n_actors))]"
        by (rule update_new)
      then show "ok s2 \<and> (\<exists>fa. asked s fa = None
        \<and> asked s2 = (asked s)(fa \<mapsto> (rr mod n_actors, ray_request args i)) \<and> (\<exists>sub'. stamp sub'
        \<and> AList.update f (req_id i, sub, svc args i, worker (rr mod n_actors)) infl
          = infl @ [(fa, req_id i, sub', svc args i, worker (rr mod n_actors))]))"
        using 1 2 by auto
    qed
  qed
qed

lemma ref_submits:
  assumes "\<And>i. i < n \<Longrightarrow> admits (i mod n_actors, ray_request args i)" and "0 < n_actors"
  shows "submits_at ok asked limit (counted n) (ray_reqs n_actors args) (ray_tag n_actors worker args) snd
     (ref_submit A n_actors worker args)"
  unfolding submits_at_def
proof (intro allI impI)
  fix s i rest and d :: "'f ref_state"
  assume *: "ok s" "counted n (i # rest) d" "set (map fst (snd d)) \<subseteq> dom (asked s)" "card (dom (asked s)) < limit"
  obtain rr infl where d: "d = (rr, infl)" by (cases d)
  have i: "i = rr" "i < n" using *(2) counted_next unfolding d by fast+
  have next_ok: "counted n rest (Suc rr, infl')" for infl' using *(2) counted_next unfolding d by fast
  show "runs (ref_submit A n_actors worker args i d) s (\<lambda>s' d'. ok s' \<and> counted n rest d' \<and> (\<exists>f e q. asked s f = None
      \<and> asked s' = (asked s)(f \<mapsto> q) \<and> snd d' = snd d @ [(f, e)] \<and> ray_tag n_actors worker args i e
      \<and> q = (i mod n_actors, ray_request args i)))"
    unfolding d
    by (rule runs_mono [OF ref_submit_runs]) (use * i assms next_ok in \<open>auto simp: d ray_tag_def\<close>)
qed

lemma ref_turn_runs:
  assumes sub: "submits_at ok asked limit (counted n) (ray_reqs n_actors args) (ray_tag n_actors worker args) snd
     (ref_submit A n_actors worker args)"
    and "window \<le> int limit" and "ok s" and "infl \<noteq> []" and "counted n rest (rr, infl)"
    and inv: "window_inv (asked s) (ray_reqs n_actors args) (ray_tag n_actors worker args)
       (ray_row answers args n_actors worker mk) keep window indices rest infl records"
    and "makes_rows mk" and "1 \<le> k" and "k < 2 ^ 31"
  shows "runs (ref_turn A n_actors worker args k mk keep (rest, (rr, infl), records)) s (\<lambda>s' (rest', d', records').
     ok s' \<and> counted n rest' d'
     \<and> window_inv (asked s') (ray_reqs n_actors args) (ray_tag n_actors worker args)
         (ray_row answers args n_actors worker mk) keep window indices rest' (snd d') records'
     \<and> length rest' + length (snd d') < length rest + length infl)"
proof -
  let ?reqs = "ray_reqs n_actors args" and ?tag = "ray_tag n_actors worker args"
  let ?recd = "ray_row answers args n_actors worker mk"
  let ?Q = "\<lambda>s' (rest', d', records'). ok s' \<and> counted n rest' d'
     \<and> window_inv (asked s') ?reqs ?tag ?recd keep window indices rest' (snd d') records'
     \<and> length rest' + length (snd d') < length rest + length infl"
  obtain "is" ds where fl: "flights (asked s) ?reqs ?tag is infl" "retired ?recd keep ds records"
      "mset ds + mset is + mset rest = mset indices"
    using inv by (auto simp: window_inv_def)
  have keys: "distinct (map fst infl)" "dom (asked s) = set (map fst infl)" using window_keys [OF inv] by auto
  have room: "length infl \<le> limit" using inv assms(2,4) unfolding window_inv_def by (cases infl) auto
  have got: "runs (io_bind (ap_clock A) (\<lambda>recv_ns.
     io_bind (io_py (ref_retire mk keep recv_ns (zip dn results) infl records)) (\<lambda>(infl', records').
     io_bind (refill (length dn) (ref_submit A n_actors worker args) rest (rr, infl')) (\<lambda>(rest', d).
     io_ret (rest', d, records'))))) s2 ?Q"
    if s2: "ok s2" "asked s2 = asked s |` (- set dn)" "list_all2 (\<lambda>f r. answers (the (asked s f)) r) dn results"
      and dn: "dn \<noteq> []" "distinct dn" "set dn \<subseteq> set (map fst infl)" for s2 dn results
    unfolding runs_bind
  proof (rule runs_mono [OF clock_law [OF s2(1)]], elim conjE)
    fix s3 recv_ns assume 3: "ok s3" "asked s3 = asked s2" "stamp recv_ns"
    have len: "length dn = length results" using s2(3) by (rule list_all2_lengthD)
    have ps: "map fst (zip dn results) = dn" using len by simp
    have fst_ps: "fst ` set (zip dn results) = set dn" using arg_cong [OF ps, of set] by simp
    have ans: "answers (the (asked s f)) r" if "(f, r) \<in> set (zip dn results)" for f r
      using s2(3) that by (auto simp: list_all2_iff)
    obtain infl' records' is' js where r: "ref_retire mk keep recv_ns (zip dn results) infl records = Inr (infl', records')"
       "flights (asked s |` (- (fst ` set (zip dn results)))) ?reqs ?tag is' infl'"
       "retired ?recd keep (ds @ js) records'" "mset js + mset is' = mset is" "length js = length (zip dn results)"
      using ref_retire_ok [where answers = answers, OF fl(1) _ _ ans fl(2) assms(7) 3(3), of "zip dn results"] dn ps fst_ps by auto
    have fl': "flights (asked s3) ?reqs ?tag is' infl'" using r(2) 3(2) s2(2) unfolding fst_ps by simp
    have sizes: "length infl = length infl' + length dn"
      using flights_length [OF fl(1)] flights_length [OF fl'] arg_cong [OF r(4), of size] r(5) len by simp
    have pos: "0 < length dn" using dn(1) by simp
    have cnt: "counted n rest (rr, infl')" using assms(5) by (simp add: counted_def)
    have "runs (refill (length dn) (ref_submit A n_actors worker args) rest (rr, infl')) s3 (\<lambda>s' (rest', d'). ok s'
       \<and> counted n rest' d' \<and>
     (\<exists>ks. rest = ks @ rest' \<and> flights (asked s') ?reqs ?tag (is' @ ks) (snd d')
        \<and> length (snd d') = length (snd (rr, infl')) + length ks) \<and>
     length (snd d') \<le> length (snd (rr, infl')) + length dn \<and> (rest' \<noteq> [] \<longrightarrow> length (snd d') = length (snd (rr, infl')) + length dn) \<and>
     futs_in (snd (rr, infl')) \<subseteq> futs_in (snd d'))"
      by (rule refill_at_runs [OF sub 3(1) cnt]) (use fl' sizes room in simp_all)
    then show "runs (io_py (ref_retire mk keep recv_ns (zip dn results) infl records)) s3 (\<lambda>s' x. runs (case x of
        (infl', records') \<Rightarrow> io_bind (refill (length dn) (ref_submit A n_actors worker args) rest (rr, infl')) (\<lambda>(rest', d).
          io_ret (rest', d, records'))) s' ?Q)"
      unfolding r(1) runs_py
    proof (intro exI [of _ "(infl', records')"] conjI refl, unfold prod.case runs_bind, elim runs_mono)
      fix s4 x
      assume a: "case x of (rest', d') \<Rightarrow> ok s4 \<and> counted n rest' d' \<and>
         (\<exists>ks. rest = ks @ rest' \<and> flights (asked s4) ?reqs ?tag (is' @ ks) (snd d')
            \<and> length (snd d') = length (snd (rr, infl')) + length ks) \<and>
         length (snd d') \<le> length (snd (rr, infl')) + length dn \<and> (rest' \<noteq> [] \<longrightarrow> length (snd d') = length (snd (rr, infl')) + length dn) \<and>
         futs_in (snd (rr, infl')) \<subseteq> futs_in (snd d')"
      obtain rest' d' where x: "x = (rest', d')" by (cases x)
      obtain ks where y: "ok s4" "counted n rest' d'" "rest = ks @ rest'" "flights (asked s4) ?reqs ?tag (is' @ ks) (snd d')"
          "length (snd d') = length infl' + length ks" "length (snd d') \<le> length infl"
          "rest' \<noteq> [] \<longrightarrow> length (snd d') = length infl"
        using a unfolding x prod.case sizes snd_conv by blast
      have "mset (ds @ js) + mset (is' @ ks) + mset rest' = mset indices"
        using fl(3) r(4) [symmetric] y(3) by (simp add: ac_simps)
      then have "window_inv (asked s4) ?reqs ?tag ?recd keep window indices rest' (snd d') records'"
        using r(3) y(3,4,6,7) inv unfolding window_inv_def by fastforce
      moreover have "length rest' + length (snd d') < length rest + length infl" using y(3,5) sizes pos by simp
      ultimately show "runs (case x of (rest', d) \<Rightarrow> io_ret (rest', d, records')) s4 ?Q"
        using y(1,2) by (simp add: x runs_ret)
    qed
  qed
  show ?thesis
    unfolding ref_turn_def prod.case runs_bind [of "ap_wait A _ _"]
  proof (rule runs_mono [OF wait_law [OF assms(3), of "map fst infl" "min k (int (length infl))"]])
    show "1 \<le> min k (int (length infl))" using assms(4,8) by (cases infl) auto
    show "min k (int (length infl)) < 2 ^ 31" using assms(9) by simp
    fix s1 rp
    assume r: "ok s1 \<and> asked s1 = asked s \<and> fst rp \<noteq> [] \<and> distinct (fst rp) \<and> set (fst rp) \<subseteq> set (map fst infl)"
    obtain dn pending where rp: "rp = (dn, pending)" by (cases rp)
    have g: "runs (ap_get A dn) s1 (\<lambda>s' rs. ok s' \<and> asked s' = asked s1 |` (- set dn)
        \<and> list_all2 (\<lambda>f r. answers (the (asked s1 f)) r) dn rs)"
      by (rule get_law) (use r rp keys in auto)
    show "runs (case rp of (ds, pending) \<Rightarrow> io_bind (ap_get A ds) (\<lambda>results.
     io_bind (ap_clock A) (\<lambda>recv_ns.
     io_bind (io_py (ref_retire mk keep recv_ns (zip ds results) infl records)) (\<lambda>(infl', records').
     io_bind (refill (length ds) (ref_submit A n_actors worker args) rest (rr, infl')) (\<lambda>(rest', d).
     io_ret (rest', d, records')))))) s1 ?Q"
      unfolding rp prod.case runs_bind [of "ap_get A dn"]
      by (rule runs_mono [OF g], rule got) (use r rp in auto)
  qed (use assms(4) keys in auto)
qed

lemma ref_windowed_runs:
  assumes adm: "\<And>i. i < n \<Longrightarrow> admits (i mod n_actors, ray_request args i)" and "0 < n_actors"
    and "0 < da_concurrency args" and "da_concurrency args \<le> int limit"
    and "ok s" and "asked s = Map.empty" and "makes_rows mk" and "1 \<le> k" and "k < 2 ^ 31"
  shows "runs (ref_windowed A n_actors worker args [0..<n] k mk keep) s (\<lambda>s' records. ok s' \<and> asked s' = Map.empty
     \<and> (\<exists>ds. mset ds = mset [0..<n] \<and> retired (ray_row answers args n_actors worker mk) keep ds records))"
proof -
  have sub: "submits_at ok asked limit (counted n) (ray_reqs n_actors args) (ray_tag n_actors worker args) snd
     (ref_submit A n_actors worker args)"
    by (rule ref_submits [OF adm assms(2)])
  show ?thesis
    unfolding ref_windowed_def
  proof (rule windowed_at_runs [OF sub assms(3-6)])
    show "counted n [0..<n] (0, [])" by (simp add: counted_def)
    fix s rest records and d :: "'f ref_state"
    assume *: "ok s" "snd d \<noteq> []" "counted n rest d"
      "window_inv (asked s) (ray_reqs n_actors args) (ray_tag n_actors worker args)
         (ray_row answers args n_actors worker mk) keep (da_concurrency args) [0..<n] rest (snd d) records"
    obtain rr infl where d: "d = (rr, infl)" by (cases d)
    show "runs (ref_turn A n_actors worker args k mk keep (rest, d, records)) s (\<lambda>s' (rest', d', records').
     ok s' \<and> counted n rest' d'
     \<and> window_inv (asked s') (ray_reqs n_actors args) (ray_tag n_actors worker args)
         (ray_row answers args n_actors worker mk) keep (da_concurrency args) [0..<n] rest' (snd d') records'
     \<and> length rest' + length (snd d') < length rest + length (snd d))"
      unfolding d snd_conv
      by (rule ref_turn_runs [OF sub assms(4)]) (use * d assms in auto)
  qed simp
qed

end

end
