(* ===== verification/BenchRayRun.thy ===== *)
theory BenchRayRun
  imports BenchRayInv
begin

text \<open>The Ray drivers' other retire mode and their runs, against the contract.\<close>

abbreviation "ray_covers answers args n_actors worker mk \<equiv> covers (ray_row answers args n_actors worker mk)"

text \<open>The object store holds the window, or all the requests.\<close>

definition ray_fits :: "nat \<Rightarrow> dargs \<Rightarrow> nat \<Rightarrow> bool" where
  "ray_fits limit args n \<longleftrightarrow> (if da_retire_mode args = ''submit_all_get_all'' then n \<le> limit
     else 0 < da_concurrency args \<and> da_concurrency args \<le> int limit)"

lemma ref_rows_ok:
  assumes "list_all2 (\<lambda>i fe. ray_tag n_actors worker args i (snd fe) \<and> meta (fst fe) = Some (snd fe)) is es"
    and "list_all2 (\<lambda>i r. answers (i mod n_actors, ray_request args i) r) is results"
    and "makes_rows mk" and "stamp recv_ns"
  shows "\<exists>rows. ref_rows mk recv_ns meta (zip (map fst es) results) = Inr rows
     \<and> list_all2 (ray_row answers args n_actors worker mk) is rows"
  using assms(1,2)
proof (induction "is" arbitrary: es results)
  case Nil
  then show ?case by simp
next
  case (Cons i "is")
  obtain f e es' where es: "es = (f, e) # es'" "ray_tag n_actors worker args i e" "meta f = Some e"
      "list_all2 (\<lambda>i fe. ray_tag n_actors worker args i (snd fe) \<and> meta (fst fe) = Some (snd fe)) is es'"
    using Cons.prems(1) by (auto simp: list_all2_Cons1)
  obtain r rs where rs: "results = r # rs" "answers (i mod n_actors, ray_request args i) r"
      "list_all2 (\<lambda>i r. answers (i mod n_actors, ray_request args i) r) is rs"
    using Cons.prems(2) by (auto simp: list_all2_Cons1)
  obtain sub where sub: "stamp sub" "e = (req_id i, sub, svc args i, worker (i mod n_actors))"
    using es(2) by (auto simp: ray_tag_def)
  obtain row where row: "mk (req_id i) sub r recv_ns (svc args i) (worker (i mod n_actors)) = Inr row"
    using assms(3,4) sub(1) unfolding makes_rows_def by blast
  have "ray_row answers args n_actors worker mk i row" using rs(2) sub(1) assms(4) row unfolding ray_row_def by blast
  moreover obtain rows where "ref_rows mk recv_ns meta (zip (map fst es') rs) = Inr rows"
      "list_all2 (ray_row answers args n_actors worker mk) is rows"
    using Cons.IH [OF es(4) rs(3)] by blast
  ultimately show ?case by (simp add: es(1,3) rs(1) sub(2) row)
qed

context bench_ray
begin

lemma ref_submit_list_runs:
  assumes "\<And>i. i < n \<Longrightarrow> admits (i mod n_actors, ray_request args i)" and "0 < n_actors"
    and "ok s" and "flights (asked s) (ray_reqs n_actors args) (ray_tag n_actors worker args) js infl"
    and "counted n is (rr, [] :: ('f \<times> ref_tag) list)" and "length infl + length is \<le> limit"
  shows "runs (ref_submit_list A n_actors worker args is rr) s (\<lambda>s' es. ok s'
     \<and> flights (asked s') (ray_reqs n_actors args) (ray_tag n_actors worker args) (js @ is) (infl @ es))"
  using assms(3-)
proof (induction "is" arbitrary: s js infl rr)
  case Nil
  then show ?case by (simp add: runs_ret)
next
  case (Cons i "is")
  have i: "i = rr" "i < n" "counted n is (Suc rr, [] :: ('f \<times> ref_tag) list)"
    using Cons.prems(3) counted_next by fast+
  have card: "card (dom (asked s)) < limit" using flights_card [OF Cons.prems(2)] Cons.prems(4) by simp
  have one: "runs (ref_submit A n_actors worker args i (rr, [])) s (\<lambda>s' d. ok s' \<and> (\<exists>f sub. asked s f = None
     \<and> asked s' = (asked s)(f \<mapsto> (rr mod n_actors, ray_request args i)) \<and> stamp sub
     \<and> d = (rr + 1, [] @ [(f, req_id i, sub, svc args i, worker (rr mod n_actors))])))"
    by (rule ref_submit_runs) (use Cons.prems card i(1,2) assms(1,2) in auto)
  show ?case
    unfolding ref_submit_list.simps runs_bind
  proof (rule runs_mono [OF one], elim conjE exE)
    fix s' d f sub
    assume r: "ok s'" "asked s f = None" "asked s' = (asked s)(f \<mapsto> (rr mod n_actors, ray_request args i))" "stamp sub"
      "d = (rr + 1, [] @ [(f, req_id i, sub, svc args i, worker (rr mod n_actors))])"
    let ?entry = "(f, req_id i, sub, svc args i, worker (rr mod n_actors))"
    have fl: "flights (asked s') (ray_reqs n_actors args) (ray_tag n_actors worker args) (js @ [i]) (infl @ [?entry])"
      unfolding r(3) by (rule flights_add [OF Cons.prems(2) r(2)]) (use i(1) r(4) in \<open>auto simp: ray_tag_def\<close>)
    have "runs (ref_submit_list A n_actors worker args is (Suc rr)) s' (\<lambda>s' es. ok s'
     \<and> flights (asked s') (ray_reqs n_actors args) (ray_tag n_actors worker args) ((js @ [i]) @ is) ((infl @ [?entry]) @ es))"
      by (rule Cons.IH [OF r(1) fl i(3)]) (use Cons.prems(4) in simp)
    then show "runs (case d of (rr', one) \<Rightarrow> (case one of [entry] \<Rightarrow>
         io_bind (ref_submit_list A n_actors worker args is rr') (\<lambda>es. io_ret (entry # es)) | _ \<Rightarrow> io_raise ValueError)) s'
      (\<lambda>s' es. ok s' \<and> flights (asked s') (ray_reqs n_actors args) (ray_tag n_actors worker args) (js @ i # is) (infl @ es))"
      unfolding r(5) by (simp add: runs_bind runs_ret)
  qed
qed

lemma ref_submit_all_runs:
  assumes adm: "\<And>i. i < n \<Longrightarrow> admits (i mod n_actors, ray_request args i)" and "0 < n_actors" and "n \<le> limit"
    and "ok s" and "asked s = Map.empty" and "makes_rows mk"
  shows "runs (ref_submit_all A n_actors worker args [0..<n] mk keep) s (\<lambda>s' records. ok s' \<and> asked s' = Map.empty
     \<and> retired (ray_row answers args n_actors worker mk) keep [0..<n] records)"
proof -
  let ?reqs = "ray_reqs n_actors args" and ?tag = "ray_tag n_actors worker args"
  have none: "flights (asked s) ?reqs ?tag [] []" using assms(5) by (simp add: flights_Nil)
  have "runs (ref_submit_list A n_actors worker args [0..<n] 0) s (\<lambda>s' es. ok s'
     \<and> flights (asked s') ?reqs ?tag ([] @ [0..<n]) ([] @ es))"
    by (rule ref_submit_list_runs [OF adm assms(2,4) none]) (use assms(3) in \<open>simp_all add: counted_def\<close>)
  then show ?thesis
    unfolding ref_submit_all_def runs_bind
  proof (rule runs_mono, elim conjE)
    fix s1 es assume 1: "ok s1" "flights (asked s1) ?reqs ?tag ([] @ [0..<n]) ([] @ es)"
    have fl: "distinct (map fst es)" "dom (asked s1) = set (map fst es)"
        "list_all2 (\<lambda>i fe. ?tag i (snd fe) \<and> (\<exists>q. asked s1 (fst fe) = Some q \<and> ?reqs i q)) [0..<n] es"
      using 1(2) by (auto simp: flights_def)
    have "runs (ap_get A (map fst es)) s1 (\<lambda>s' rs. ok s' \<and> asked s' = asked s1 |` (- set (map fst es))
        \<and> list_all2 (\<lambda>f r. answers (the (asked s1 f)) r) (map fst es) rs)"
      by (rule get_law) (use 1(1) fl in auto)
    then show "runs (ap_get A (map fst es)) s1 (\<lambda>s' results. runs (ap_clock A) s' (\<lambda>s' recv_ns. runs (if keep
        then io_py (ref_rows mk recv_ns (map_of (rev es)) (zip (map fst es) results)) else io_ret []) s'
        (\<lambda>s' records. ok s' \<and> asked s' = Map.empty \<and> retired (ray_row answers args n_actors worker mk) keep [0..<n] records)))"
    proof (rule runs_mono, elim conjE)
      fix s2 results assume 2: "ok s2" "asked s2 = asked s1 |` (- set (map fst es))"
        "list_all2 (\<lambda>f r. answers (the (asked s1 f)) r) (map fst es) results"
      have emp: "asked s2 = Map.empty" using 2(2) fl(2) by (auto simp: restrict_map_def fun_eq_iff domIff)
      have "map_of (rev es) (fst fe) = Some (snd fe)" if "fe \<in> set es" for fe
        using that fl(1) by (intro map_of_is_SomeI) (auto simp: rev_map [symmetric])
      then have metas: "list_all2 (\<lambda>i fe. ?tag i (snd fe) \<and> map_of (rev es) (fst fe) = Some (snd fe)) [0..<n] es"
        using fl(3) by (elim list_all2_mono_in) auto
      have ans: "list_all2 (\<lambda>i r. answers (i mod n_actors, ray_request args i) r) [0..<n] results"
        using fl(3) 2(3) by (fastforce simp: list_all2_conv_all_nth)
      show "runs (ap_clock A) s2 (\<lambda>s' recv_ns. runs (if keep
        then io_py (ref_rows mk recv_ns (map_of (rev es)) (zip (map fst es) results)) else io_ret []) s'
        (\<lambda>s' records. ok s' \<and> asked s' = Map.empty \<and> retired (ray_row answers args n_actors worker mk) keep [0..<n] records))"
      proof (rule runs_mono [OF clock_law [OF 2(1)]], elim conjE)
        fix s3 recv_ns assume 3: "ok s3" "asked s3 = asked s2" "stamp recv_ns"
        obtain rows where "ref_rows mk recv_ns (map_of (rev es)) (zip (map fst es) results) = Inr rows"
            "list_all2 (ray_row answers args n_actors worker mk) [0..<n] rows"
          using ref_rows_ok [OF metas ans assms(6) 3(3)] by blast
        then show "runs (if keep
            then io_py (ref_rows mk recv_ns (map_of (rev es)) (zip (map fst es) results)) else io_ret []) s3
            (\<lambda>s' records. ok s' \<and> asked s' = Map.empty \<and> retired (ray_row answers args n_actors worker mk) keep [0..<n] records)"
          using 3 emp by (simp add: runs_py runs_ret retired_def)
      qed
    qed
  qed
qed

text \<open>The three dispatches, and the runs.\<close>

lemma ref_windowed_covers:
  assumes "\<And>i. i < n \<Longrightarrow> admits (i mod n_actors, ray_request args i)" and "0 < n_actors"
    and "da_retire_mode args \<noteq> ''submit_all_get_all''" and "ray_fits limit args n"
    and "ok s" and "asked s = Map.empty" and "makes_rows mk" and "1 \<le> k" and "k < 2 ^ 31"
  shows "runs (ref_windowed A n_actors worker args [0..<n] k mk keep) s (\<lambda>s' records. ok s' \<and> asked s' = Map.empty
     \<and> ray_covers answers args n_actors worker mk keep n records)"
  unfolding covers_def by (rule ref_windowed_runs) (use assms in \<open>auto simp: ray_fits_def\<close>)

lemma ref_submit_all_covers:
  assumes "\<And>i. i < n \<Longrightarrow> admits (i mod n_actors, ray_request args i)" and "0 < n_actors"
    and "da_retire_mode args = ''submit_all_get_all''" and "ray_fits limit args n"
    and "ok s" and "asked s = Map.empty" and "makes_rows mk"
  shows "runs (ref_submit_all A n_actors worker args [0..<n] mk keep) s (\<lambda>s' records. ok s' \<and> asked s' = Map.empty
     \<and> ray_covers answers args n_actors worker mk keep n records)"
  by (rule runs_mono [OF ref_submit_all_runs]) (use assms in \<open>auto simp: ray_fits_def covers_in_order\<close>)

lemma ray_dispatch_runs:
  assumes adm: "\<And>i. i < n \<Longrightarrow> admits (i mod nat (da_num_actors args), ray_request args i)" and "0 < da_num_actors args"
    and mode: "da_retire_mode args \<in> {''one_by_one'', ''batch_wait'', ''submit_all_get_all''}" and fit: "ray_fits limit args n"
    and "da_wait_batch args < 2 ^ 31" and "ok s" and "asked s = Map.empty"
  shows "runs (ray_dispatch A args [0..<n] run_id workload keep) s (\<lambda>s' records. ok s' \<and> asked s' = Map.empty
     \<and> ray_covers answers args (nat (da_num_actors args)) (\<lambda>_. None)
         (ray_make_record args run_id workload (da_retire_mode args)) keep n records)"
proof -
  have pos: "0 < nat (da_num_actors args)" using assms(2) by simp
  have win: "runs (ray_run_windowed A args [0..<n] k run_id workload (da_retire_mode args) keep) s (\<lambda>s' records. ok s' \<and> asked s' = Map.empty
     \<and> ray_covers answers args (nat (da_num_actors args)) (\<lambda>_. None)
         (ray_make_record args run_id workload (da_retire_mode args)) keep n records)"
    if "da_retire_mode args \<noteq> ''submit_all_get_all''" "1 \<le> k" "k < 2 ^ 31" for k
    unfolding ray_run_windowed_def
    by (rule ref_windowed_covers [OF adm pos that(1) fit assms(6,7) ray_makes_rows that(2,3)])
  have all: "runs (ray_run_submit_all A args [0..<n] run_id workload (da_retire_mode args) keep) s (\<lambda>s' records. ok s' \<and> asked s' = Map.empty
     \<and> ray_covers answers args (nat (da_num_actors args)) (\<lambda>_. None)
         (ray_make_record args run_id workload (da_retire_mode args)) keep n records)"
    if "da_retire_mode args = ''submit_all_get_all''"
    unfolding ray_run_submit_all_def
    by (rule ref_submit_all_covers [OF adm pos that fit assms(6,7) ray_makes_rows])
  show ?thesis
    using mode win [of 1] win [of "max 1 (da_wait_batch args)"] all assms(5)
    by (auto simp: ray_dispatch_def Let_def)
qed

lemma host_dispatch_runs:
  assumes adm: "\<And>i. i < n \<Longrightarrow> admits (i mod 1, ray_request args i)"
    and mode: "da_retire_mode args \<in> {''one_by_one'', ''submit_all_get_all''}" and fit: "ray_fits limit args n"
    and "ok s" and "asked s = Map.empty"
  shows "runs (host_dispatch A args [0..<n] run_id workload aid keep) s (\<lambda>s' records. ok s' \<and> asked s' = Map.empty
     \<and> ray_covers answers args 1 (\<lambda>_. Some aid) (host_make_record args run_id workload) keep n records)"
proof (cases "da_retire_mode args = ''submit_all_get_all''")
  case True
  from ref_submit_all_covers [OF adm zero_less_one True fit assms(4,5) host_makes_rows]
  show ?thesis using True by (simp add: host_dispatch_def host_run_submit_all_def)
next
  case False
  have "1 \<le> (1 :: int)" "(1 :: int) < 2 ^ 31" by simp_all
  from ref_windowed_covers [OF adm zero_less_one False fit assms(4,5) host_makes_rows this]
  show ?thesis using False mode by (simp add: host_dispatch_def host_run_windowed_def)
qed

lemma multi_dispatch_runs:
  assumes adm: "\<And>i. i < n \<Longrightarrow> admits (i mod nat (da_num_actors args), ray_request args i)" and "0 < da_num_actors args"
    and mode: "da_retire_mode args \<in> {''one_by_one'', ''submit_all_get_all''}" and fit: "ray_fits limit args n"
    and "ok s" and "asked s = Map.empty"
  shows "runs (multi_dispatch A args actor_ids [0..<n] run_id workload keep) s (\<lambda>s' records. ok s' \<and> asked s' = Map.empty
     \<and> ray_covers answers args (nat (da_num_actors args)) (\<lambda>k. Some (actor_ids ! k)) (host_make_record args run_id workload) keep n records)"
proof (cases "da_retire_mode args = ''submit_all_get_all''")
  case True
  have pos: "0 < nat (da_num_actors args)" using assms(2) by simp
  from ref_submit_all_covers [OF adm pos True fit assms(5,6) host_makes_rows]
  show ?thesis using True by (simp add: multi_dispatch_def multi_run_submit_all_def)
next
  case False
  have pos: "0 < nat (da_num_actors args)" "1 \<le> (1 :: int)" "(1 :: int) < 2 ^ 31" using assms(2) by simp_all
  from ref_windowed_covers [OF adm pos(1) False fit assms(5,6) host_makes_rows pos(2,3)]
  show ?thesis using False mode by (simp add: multi_dispatch_def multi_run_windowed_def)
qed

end

lemma ray_row_id:
  assumes "\<And>rid a r b sv w rec. mk rid a r b sv w = Inr rec \<Longrightarrow> dr_request_id rec = rid"
  shows "ray_row answers args n_actors worker mk i rec \<Longrightarrow> dr_request_id rec = req_id i"
  using assms by (auto simp: ray_row_def)

lemma ray_record_id: "ray_make_record args run_id workload mode rid a r b sv w = Inr rec \<Longrightarrow> dr_request_id rec = rid"
  by (auto simp: ray_make_record_def rbind_eq_Inr)

lemma host_record_id: "host_make_record args run_id workload rid a r b sv w = Inr rec \<Longrightarrow> dr_request_id rec = rid"
  by (auto simp: host_make_record_def rbind_eq_Inr)

lemma ray_rows_id:
  "ray_row answers args n_actors worker (ray_make_record args run_id workload mode) i rec \<Longrightarrow> dr_request_id rec = req_id i"
  "ray_row answers args n_actors worker (host_make_record args run_id workload) i rec \<Longrightarrow> dr_request_id rec = req_id i"
  by (auto intro: ray_row_id ray_record_id host_record_id)

lemma covers_sorted:
  "covers recd True n records \<Longrightarrow> n \<le> 10 ^ 6 \<Longrightarrow> (\<And>i r. recd i r \<Longrightarrow> dr_request_id r = req_id i) \<Longrightarrow>
     list_all2 recd [0..<n] (sort_rows records)"
  unfolding covers_def by (elim exE conjE) (rule sort_rows_in_order)

context bench_ray
begin

lemma measured_covers:
  assumes "\<And>s n keep. ok s \<Longrightarrow> asked s = Map.empty \<Longrightarrow>
      n = da_warmup_requests args \<and> 0 < n \<and> \<not> keep \<or> n = da_requests args \<and> keep \<Longrightarrow>
      runs (dispatch n keep) s (\<lambda>s' records. ok s' \<and> asked s' = Map.empty \<and> covers recd keep (nat n) records)"
    and "ok s" and "asked s = Map.empty"
  shows "runs (measured args (ap_clock A) dispatch) s (\<lambda>s' records. ok s' \<and> asked s' = Map.empty
     \<and> covers recd True (nat (da_requests args)) records)"
  by (rule measured_runs [where P = "\<lambda>n keep records. covers recd keep (nat n) records"]) (rule assms; assumption)+

lemma ray_run_runs:
  assumes adm: "\<And>i. admits (i mod nat (da_num_actors args), ray_request args i)" and "0 < da_num_actors args"
    and mode: "da_retire_mode args \<in> {''one_by_one'', ''batch_wait'', ''submit_all_get_all''}"
    and fit: "ray_fits limit args (nat (da_requests args))" "ray_fits limit args (nat (da_warmup_requests args))"
    and "da_wait_batch args < 2 ^ 31" and small: "da_requests args \<le> 10 ^ 6"
    and wl: "ray_workload args = Inr workload" and start: "hosts s Synthetic (nat (da_num_actors args))"
  shows "runs (ray_run A args run_id) s (\<lambda>s' rows. list_all2 (ray_row answers args (nat (da_num_actors args)) (\<lambda>_. None)
     (ray_make_record args run_id workload (da_retire_mode args))) [0..<nat (da_requests args)] rows)"
proof -
  let ?recd = "ray_row answers args (nat (da_num_actors args)) (\<lambda>_. None) (ray_make_record args run_id workload (da_retire_mode args))"
  have disp: "runs (ray_dispatch A args [0..<nat n] run_id workload keep) s (\<lambda>s' records. ok s' \<and> asked s' = Map.empty
      \<and> covers ?recd keep (nat n) records)"
    if "ok s" "asked s = Map.empty" "n = da_warmup_requests args \<and> 0 < n \<and> \<not> keep \<or> n = da_requests args \<and> keep" for s n keep
  proof (rule ray_dispatch_runs [OF adm assms(2) mode _ assms(6) that(1,2)])
    show "ray_fits limit args (nat n)" using that(3) fit by blast
  qed
  have meas: "runs (measured args (ap_clock A) (\<lambda>n keep. ray_dispatch A args [0..<nat n] run_id workload keep)) s'
      (\<lambda>s' records. covers ?recd True (nat (da_requests args)) records)"
    if "ok s'" "asked s' = Map.empty" for s'
    by (rule runs_mono [OF measured_covers [OF disp that]]) auto
  have ids: "runs (ra_ids A (nat (da_num_actors args)) None) s' (\<lambda>s' ids. ok s' \<and> asked s' = Map.empty)"
    if "placed s' (nat (da_num_actors args))" for s'
    by (rule runs_mono [OF ids_law [OF that]]) auto
  show ?thesis
    unfolding ray_run_def runs_bind runs_py wl
    apply (simp add: runs_bind)
    apply (rule runs_mono [OF init_law [OF start]])
    apply (simp only: runs_finally runs_bind)
    apply (rule runs_mono [OF actors_law], assumption)
    apply (rule runs_mono [OF ids], assumption)
    apply (elim conjE)
    apply (rule runs_mono [OF meas], assumption+)
    apply (rule runs_mono [OF shutdown_law])
    apply (simp only: runs_ret)
    apply (erule covers_sorted)
    using small apply simp
    apply (erule ray_rows_id)
    done
qed

lemma host_run_runs:
  assumes adm: "\<And>i. admits (0, ray_request args i)"
    and mode: "da_retire_mode args \<in> {''one_by_one'', ''submit_all_get_all''}"
    and fit: "ray_fits limit args (nat (da_requests args))" "ray_fits limit args (nat (da_warmup_requests args))"
    and small: "da_requests args \<le> 10 ^ 6" and wl: "host_workload args = Inr workload"
    and start: "hosts s (Hosting (da_num_lanes args) (da_hpx_threads args) (da_lane_impl args) (da_cap args) None) 1"
  shows "runs (host_run A args run_id) s (\<lambda>s' rows. list_all2 (ray_row answers args 1 (\<lambda>_. Some (name 0))
     (host_make_record args run_id workload)) [0..<nat (da_requests args)] rows)"
proof -
  let ?recd = "ray_row answers args 1 (\<lambda>_. Some (name 0)) (host_make_record args run_id workload)"
  let ?tail = "\<lambda>ids. case ids of
            Some [(ray_actor_id, lane_id)] \<Rightarrow>
              io_bind (measured args (ap_clock A) (\<lambda>n keep. host_dispatch A args [0..<nat n] run_id workload ray_actor_id keep)) (\<lambda>records.
              io_bind (ra_stop_actors A 1) (\<lambda>_. io_ret records))
          | _ \<Rightarrow> io_raise TypeError"
  have disp: "runs (host_dispatch A args [0..<nat n] run_id workload (name 0) keep) s (\<lambda>s' records. ok s' \<and> asked s' = Map.empty
      \<and> covers ?recd keep (nat n) records)"
    if "ok s" "asked s = Map.empty" "n = da_warmup_requests args \<and> 0 < n \<and> \<not> keep \<or> n = da_requests args \<and> keep" for s n keep
  proof (rule host_dispatch_runs [OF _ mode _ that(1,2)])
    show "ray_fits limit args (nat n)" using that(3) fit by blast
    show "admits (i mod 1, ray_request args i)" for i using adm [of i] by (simp only: mod_by_1)
  qed
  have tail: "runs (?tail ids) s' (\<lambda>s' records. covers ?recd True (nat (da_requests args)) records)"
    if t: "ok s'" "asked s' = Map.empty" "ids = Some ps" "map fst ps = map name [0..<1]" for s' ids ps
  proof -
    obtain lane where ids: "ids = Some [(name 0, lane)]" using t(3,4) by auto
    show ?thesis
      unfolding ids option.case list.case prod.case runs_bind runs_ret
    proof (rule runs_mono [OF measured_covers [OF disp t(1,2)]], assumption+, elim conjE)
      fix s1 records assume 1: "ok s1" "asked s1 = Map.empty" "covers ?recd True (nat (da_requests args)) records"
      show "runs (ra_stop_actors A 1) s1 (\<lambda>_ _. covers ?recd True (nat (da_requests args)) records)"
        by (rule runs_mono [OF stop_law [OF 1(1,2), folded hosts_size [OF start]]]) (rule 1(3))
    qed
  qed
  have ids: "runs (ra_ids A 1 None) s' (\<lambda>s' ids. ok s' \<and> asked s' = Map.empty \<and> (\<exists>ps. ids = Some ps \<and> map fst ps = map name [0..<1]))"
    if "placed s' 1" for s'
    by (rule runs_mono [OF ids_law [OF that]]) auto
  show ?thesis
    unfolding host_run_def runs_bind runs_py wl
    apply (simp only: sum.inject simp_thms ex_simps)
    apply (rule runs_mono [OF init_law [OF start]])
    apply (simp only: runs_finally runs_bind)
    apply (rule runs_mono [OF actors_law], assumption)
    apply (rule runs_mono [OF ids], assumption)
    apply (elim conjE exE)
    apply (rule runs_mono [OF tail], assumption+)
    apply (rule runs_mono [OF shutdown_law])
    apply (simp only: runs_ret)
    apply (erule covers_sorted)
    using small apply simp
    apply (erule ray_rows_id)
    done
qed

lemma multi_run_runs:
  assumes adm: "\<And>i. admits (i mod nat (da_num_actors args), ray_request args i)" and pos: "0 < da_num_actors args"
    and mode: "da_retire_mode args \<in> {''one_by_one'', ''submit_all_get_all''}"
    and fit: "ray_fits limit args (nat (da_requests args))" "ray_fits limit args (nat (da_warmup_requests args))"
    and small: "da_requests args \<le> 10 ^ 6"
    and start: "hosts s (Hosting (da_num_lanes args) (da_hpx_threads args) (da_lane_impl args) None
      (Some (da_num_cpus_per_actor args))) (nat (da_num_actors args))"
  shows "runs (multi_run A args run_id) s (\<lambda>s' out. case out of None \<Rightarrow> True
     | Some rep \<Rightarrow> let ids = map name [0..<nat (da_num_actors args)] in
         list_all2 (ray_row answers args (nat (da_num_actors args)) (\<lambda>k. Some (ids ! k))
           (host_make_record args run_id (multi_workload args))) [0..<nat (da_requests args)] (mr_rows rep)
         \<and> mr_shutdown_ok rep \<and> mr_per_actor rep = per_actor ids (mr_rows rep))"
proof -
  let ?N = "nat (da_num_actors args)" and ?wl = "multi_workload args"
  let ?ids = "map name [0..<nat (da_num_actors args)]"
  let ?recd = "ray_row answers args ?N (\<lambda>k. Some (?ids ! k)) (host_make_record args run_id ?wl)"
  let ?got = "\<lambda>out. out = None \<or> (\<exists>records. out = Some (?ids, records, True) \<and> covers ?recd True (nat (da_requests args)) records)"
  let ?tail = "\<lambda>id_pairs. case id_pairs of None \<Rightarrow> io_ret None
     | Some pairs \<Rightarrow> io_bind (ap_clock A) (\<lambda>ready.
         io_bind (measured args (ap_clock A) (\<lambda>m keep. multi_dispatch A args (map fst pairs) [0..<nat m] run_id ?wl keep)) (\<lambda>records.
         io_bind (ra_stop_actors A ?N) (\<lambda>oks. io_ret (Some (map fst pairs, records, list_all id oks)))))"
  have disp: "runs (multi_dispatch A args ?ids [0..<nat n] run_id ?wl keep) s (\<lambda>s' records. ok s' \<and> asked s' = Map.empty
      \<and> covers ?recd keep (nat n) records)"
    if "ok s" "asked s = Map.empty" "n = da_warmup_requests args \<and> 0 < n \<and> \<not> keep \<or> n = da_requests args \<and> keep" for s n keep
  proof (rule multi_dispatch_runs [OF adm pos mode _ that(1,2)])
    show "ray_fits limit args (nat n)" using that(3) fit by blast
  qed
  have stop: "runs (ra_stop_actors A ?N) s1 (\<lambda>_ oks. ?got (Some (?ids, records, list_all id oks)))"
    if "ok s1" "asked s1 = Map.empty" "covers ?recd True (nat (da_requests args)) records" for s1 records
    by (rule runs_mono [OF stop_law [OF that(1,2), folded hosts_size [OF start]]]) (use that(3) in \<open>auto simp: list_all_iff\<close>)
  have tail: "runs (?tail id_pairs) s' (\<lambda>_ out. ?got out)"
    if t: "\<forall>ps. id_pairs = Some ps \<longrightarrow> ok s' \<and> asked s' = Map.empty \<and> map fst ps = ?ids" for s' id_pairs
  proof (cases id_pairs)
    case (Some ps)
    then have ps: "ok s'" "asked s' = Map.empty" "map fst ps = ?ids" using t by auto
    show ?thesis
      unfolding Some option.case runs_bind runs_ret ps(3)
    proof (rule runs_mono [OF clock_law [OF ps(1)]], elim conjE)
      fix s1 assume 1: "ok s1" "asked s1 = asked s'"
      show "runs (measured args (ap_clock A) (\<lambda>m keep. multi_dispatch A args ?ids [0..<nat m] run_id ?wl keep)) s1
         (\<lambda>s2 records. runs (ra_stop_actors A ?N) s2 (\<lambda>_ oks. ?got (Some (?ids, records, list_all id oks))))"
        by (rule runs_mono [OF measured_covers [OF disp 1(1)]], assumption+)
          (simp only: 1(2) ps(2), elim conjE, rule stop)
    qed
  qed (simp add: runs_ret)
  have last: "runs (case out of None \<Rightarrow> io_ret None | Some (actor_ids, records, ok) \<Rightarrow>
           io_ret (Some \<lparr>mr_rows = sort_rows records, mr_shutdown_ok = ok, mr_per_actor = per_actor actor_ids (sort_rows records)\<rparr>)) s2
      (\<lambda>s' out. case out of None \<Rightarrow> True | Some rep \<Rightarrow> let ids = ?ids in list_all2 (ray_row answers args ?N (\<lambda>k. Some (ids ! k))
           (host_make_record args run_id ?wl)) [0..<nat (da_requests args)] (mr_rows rep)
         \<and> mr_shutdown_ok rep \<and> mr_per_actor rep = per_actor ids (mr_rows rep))"
    if g: "?got out" for out s2
  proof (cases out)
    case (Some x)
    then obtain records where r: "out = Some (?ids, records, True)" "covers ?recd True (nat (da_requests args)) records"
      using g by auto
    have "list_all2 ?recd [0..<nat (da_requests args)] (sort_rows records)"
      by (rule covers_sorted [OF r(2)]) (use small ray_rows_id(2) in auto)
    then show ?thesis by (simp add: r(1) runs_ret)
  qed (simp add: runs_ret)
  show ?thesis
    unfolding multi_run_def Let_def [of ?wl] Let_def [of ?N] runs_bind
    apply (rule runs_mono [OF init_law [OF start]])
    apply (simp only: runs_finally runs_bind)
    apply (rule runs_mono [OF actors_law], assumption)
    apply (rule runs_mono [OF ray_clock_law], assumption)
    apply (rule runs_mono [OF ids_law], assumption, elim conjE)
    apply (rule runs_mono [OF tail], assumption)
    apply (rule runs_mono [OF shutdown_law])
    apply (erule last)
    done
qed

end

end
