(* ===== verification/BenchHost.thy ===== *)
theory BenchHost
  imports BenchEngine BenchServer
begin

text \<open>
  \<open>RayxHostActor\<close> of \<open>bench/run_ray_hosting_rayx.py\<close>: a Ray actor that owns one \<open>rayx.Engine\<close>. The
  actor's process is a world of its own: engine, process owner, clock and lanes. After \<open>shutdown\<close> the
  actor's \<open>engine\<close> is \<open>None\<close>.
\<close>

record host =
  ha_ray_id :: string
  ha_world :: bench_world

definition in_world :: "(bench_world, 'a) io \<Rightarrow> (host, 'a) io" where
  "in_world m h = (case m (ha_world h) of (w, r) \<Rightarrow> (h\<lparr>ha_world := w\<rparr>, r))"

lemma runs_in_world: "runs (in_world m) h P = runs m (ha_world h) (\<lambda>w x. P (h\<lparr>ha_world := w\<rparr>) x)"
  by (auto simp: runs_def in_world_def split: prod.splits)

text \<open>\<open>__init__\<close>; the actor's id is drawn before the engine is built.\<close>

definition host_init :: "string \<Rightarrow> int \<Rightarrow> int \<Rightarrow> string \<Rightarrow> int option \<Rightarrow> (host, unit) io" where
  "host_init ray_id num_lanes hpx_threads lane_impl cap h =
     in_world (be_open num_lanes hpx_threads lane_impl cap) (h\<lparr>ha_ray_id := ray_id\<rparr>)"

definition host_ids :: "(host, string \<times> string option) io" where
  "host_ids =
     io_bind (in_world be_engine) (\<lambda>pe.
     io_bind (io_py (eng_lane_stats pe)) (\<lambda>lane.
     (\<lambda>h. (h, Returns (ha_ray_id h, case lane of [] \<Rightarrow> None | (actor_id, _) # _ \<Rightarrow> Some actor_id)))))"

definition serve_row :: "hrow \<Rightarrow> srow" where
  "serve_row row = \<lparr>sr_actor_id = hr_actor_id row, sr_start_ns = hr_start_ns row, sr_end_ns = hr_end_ns row,
     sr_service_ms_observed = hr_service_ms_observed row, sr_status = hr_status row, sr_error = hr_error row,
     sr_chunks_completed = Some (hr_chunks_completed row)\<rparr>"

text \<open>The request as the drivers send it has every key.\<close>

definition host_serve :: "sreq \<Rightarrow> (host, srow) io" where
  "host_serve rq =
     io_bind (in_world (be_submit (sq_service_ms rq, sq_work_mode rq, sq_chunks rq, sq_chunk_delay_ms rq))) (\<lambda>fut.
     io_bind (in_world (be_result fut None)) (\<lambda>row.
     io_ret (serve_row row)))"

text \<open>
  A second engine in the same process. It would be a local of the method, apart from the hosted one, and
  is shut down again if it could be built.
\<close>

definition try_second_engine :: "(exc \<Rightarrow> string) \<Rightarrow> (host, bool \<times> string option) io" where
  "try_second_engine repr h = (let w = ha_world h in
     case eng_init (bw_start_ok w) (bw_ids w) (bw_now w) (VInt 1) (VInt 1) VNone (VStr ''std'') (bw_owner w) of
       Inl exc \<Rightarrow> (h, Returns (True, Some (repr exc)))
     | Inr (ow, stray) \<Rightarrow> (h\<lparr>ha_world := w\<lparr>bw_owner := snd (eng_shutdown (stray, ow))\<rparr>\<rparr>, Returns (False, None)))"

definition host_shutdown :: "(host, bool) io" where
  "host_shutdown h = (case bw_engine (ha_world h) of
       None \<Rightarrow> (h, Returns True)
     | Some pe \<Rightarrow> (case in_world be_shutdown h of
           (h', Returns _) \<Rightarrow> (h'\<lparr>ha_world := (ha_world h')\<lparr>bw_engine := None\<rparr>\<rparr>, Returns True)
         | (h', Raises e) \<Rightarrow> (h', Raises e)
         | (h', Blocked) \<Rightarrow> (h', Blocked)))"

subsection \<open>What the hosted engine guarantees\<close>

text \<open>The actor is serving: its engine is open and no request of an earlier call is left.\<close>

definition host_ok :: "string \<Rightarrow> host \<Rightarrow> bool" where
  "host_ok name h \<longleftrightarrow> ha_ray_id h = name \<and> be_ok (ha_world h)"

definition host_admits :: "sreq \<Rightarrow> bool" where
  "host_admits rq = be_admits (sq_service_ms rq, sq_work_mode rq, sq_chunks rq, sq_chunk_delay_ms rq)"

text \<open>The row of a future of the hosted engine that answers the request.\<close>

definition host_answers :: "sreq \<Rightarrow> srow \<Rightarrow> bool" where
  "host_answers rq r \<longleftrightarrow> (\<exists>row. be_answers (sq_service_ms rq, sq_work_mode rq, sq_chunks rq, sq_chunk_delay_ms rq) row
     \<and> r = serve_row row)"

lemma host_serve_runs:
  assumes "host_ok name h" and "host_admits rq"
  shows "runs (host_serve rq) h (\<lambda>h' r. host_ok name h' \<and> be_asked (ha_world h') = be_asked (ha_world h) \<and> host_answers rq r)"
  unfolding host_serve_def runs_bind runs_in_world runs_ret
proof (rule runs_mono [OF be_submit_runs])
  let ?q = "(sq_service_ms rq, sq_work_mode rq, sq_chunks rq, sq_chunk_delay_ms rq)"
  show "be_ok (ha_world h)" "be_admits ?q" using assms by (simp_all add: host_ok_def host_admits_def)
  fix w f
  assume 1: "be_ok w \<and> be_asked (ha_world h) f = None \<and> be_asked w = (be_asked (ha_world h))(f \<mapsto> ?q)"
  have "runs (be_result f None) w (\<lambda>w' row. be_ok w' \<and> be_asked w' = (be_asked w)(f := None) \<and> be_answers ?q row)"
    by (rule be_result_runs) (use 1 in auto)
  then show "runs (be_result f None) (ha_world (h\<lparr>ha_world := w\<rparr>)) (\<lambda>w' row. host_ok name (h\<lparr>ha_world := w, ha_world := w'\<rparr>)
      \<and> be_asked (ha_world (h\<lparr>ha_world := w, ha_world := w'\<rparr>)) = be_asked (ha_world h) \<and> host_answers rq (serve_row row))"
    by (simp, elim runs_mono) (use 1 assms(1) in \<open>auto simp: host_ok_def host_answers_def fun_eq_iff\<close>)
qed

lemma host_init_runs:
  "be_opens (ha_world h) n t impl cap \<Longrightarrow> runs (host_init ray_id n t impl cap) h (\<lambda>h' _. host_ok ray_id h')"
proof -
  assume op: "be_opens (ha_world h) n t impl cap"
  have "runs (in_world (be_open n t impl cap)) (h\<lparr>ha_ray_id := ray_id\<rparr>) (\<lambda>h' _. host_ok ray_id h')"
    unfolding runs_in_world using be_open_runs [OF op] by (auto simp: host_ok_def elim!: runs_mono)
  then show ?thesis by (simp add: host_init_def runs_def)
qed

lemma host_ids_runs: "host_ok name h \<Longrightarrow> runs host_ids h (\<lambda>h' ids. h' = h \<and> fst ids = name)"
proof -
  assume h: "host_ok name h"
  then obtain pe where pe: "bw_engine (ha_world h) = Some pe" "pe_reachable pe" "\<not> pe_closed pe"
    by (auto simp: host_ok_def be_ok_def)
  have "en_running (pe_native pe)" using pe_reachable_inv [OF pe(2)] pe(3) by (simp add: pe_inv_def)
  then show ?thesis
    using h pe(1) by (simp add: host_ids_def runs_def io_bind_def in_world_def be_engine_def io_py_def io_ret_def
      eng_lane_stats_def engine_lane_stats_def host_ok_def)
qed

lemma host_shutdown_runs: "host_ok name h \<Longrightarrow> runs host_shutdown h (\<lambda>h' b. b \<and> bw_engine (ha_world h') = None)"
proof -
  assume "host_ok name h"
  then have ok: "be_ok (ha_world h)" by (simp add: host_ok_def)
  then obtain w where w: "be_shutdown (ha_world h) = (w, Returns ())"
    using be_shutdown_runs [OF ok] by (auto simp: runs_iff)
  show ?thesis
    using ok by (auto simp: be_ok_def host_shutdown_def in_world_def w runs_def)
qed

lemma host_shutdown_again: "bw_engine (ha_world h) = None \<Longrightarrow> host_shutdown h = (h, Returns True)"
  by (simp add: host_shutdown_def)

subsection \<open>One engine per process\<close>

text \<open>The engine of a world is open; a call leaves the process as it was.\<close>

definition engine_open :: "bench_world \<Rightarrow> nat \<Rightarrow> bool" where
  "engine_open w k \<longleftrightarrow> (\<exists>pe. bw_engine w = Some pe \<and> pe_reachable pe \<and> \<not> pe_closed pe \<and> k \<le> length (pe_futs pe))"

definition same_process :: "bench_world \<Rightarrow> bench_world \<Rightarrow> bool" where
  "same_process w w' \<longleftrightarrow> bw_owner w' = bw_owner w \<and> bw_start_ok w' = bw_start_ok w \<and> bw_ids w' = bw_ids w \<and> bw_now w' = bw_now w"

lemma same_process_refl: "same_process w w"
  by (simp add: same_process_def)

lemma same_process_trans: "same_process a b \<Longrightarrow> same_process b c \<Longrightarrow> same_process a c"
  by (simp add: same_process_def)

lemma eng_submit_open:
  "\<not> pe_closed pe \<Longrightarrow> \<not> pe_closed (fst (eng_submit t a b c d f pe))"
  "snd (eng_submit t a b c d f pe) = Inr k \<Longrightarrow> Suc k \<le> length (pe_futs (fst (eng_submit t a b c d f pe)))"
  by (auto simp: eng_submit_def add_pyfuture_def with_native_def split: sum.splits option.splits)

lemma fut_result_open: "\<not> pe_closed pe \<Longrightarrow> \<not> pe_closed (fst (fut_result k recv t pe))"
  by (auto simp: fut_result_def retire_def with_native_def split: outcome.splits prod.splits sum.splits)

lemma be_submit_open:
  assumes "engine_open w 0"
  shows "engine_open (fst (be_submit q w)) 0" "same_process w (fst (be_submit q w))"
    "snd (be_submit q w) = Returns f \<Longrightarrow> engine_open (fst (be_submit q w)) (Suc f)"
proof -
  obtain s m c d where q: "q = (s, m, c, d)" by (cases q) auto
  obtain pe where pe: "bw_engine w = Some pe" "pe_reachable pe" "\<not> pe_closed pe" using assms by (auto simp: engine_open_def)
  let ?r = "eng_submit (bw_time w (bw_reads w)) (VFloat s) (VStr m) VNone (VInt c) (VFloat d) pe"
  have run: "be_submit q w = (w\<lparr>bw_reads := Suc (bw_reads w), bw_engine := Some (fst ?r)\<rparr>,
      case snd ?r of Inl e \<Rightarrow> Raises e | Inr k \<Rightarrow> Returns k)"
    by (simp add: be_submit_def q io_bind_def be_engine_def pe(1) be_clock_def be_put_def io_py_def io_raise_def io_ret_def
      split: prod.splits sum.splits)
  have "pe_reachable (fst ?r)" by (rule pe_reachable.Submit [OF pe(2)])
  then show "engine_open (fst (be_submit q w)) 0" "same_process w (fst (be_submit q w))"
    "snd (be_submit q w) = Returns f \<Longrightarrow> engine_open (fst (be_submit q w)) (Suc f)"
    using eng_submit_open(1) [OF pe(3)] eng_submit_open(2)
    by (auto simp: run engine_open_def same_process_def split: sum.splits)
qed

lemma be_result_open:
  assumes "engine_open w (Suc k)"
  shows "engine_open (fst (be_result k recv w)) 0" "same_process w (fst (be_result k recv w))"
proof -
  obtain pe where pe: "bw_engine w = Some pe" "pe_reachable pe" "\<not> pe_closed pe" "k < length (pe_futs pe)"
    using assms by (auto simp: engine_open_def)
  let ?pe = "move_until (\<lambda>pe. ef_ready_now (pe_native pe) k) (bw_sched w (bw_calls w)) pe"
  let ?r = "fut_result k recv (bw_time w (bw_reads w)) ?pe"
  have m: "pe_reachable ?pe" "\<not> pe_closed ?pe" "k < length (pe_futs ?pe)"
    using move_ok [OF pe(2,3)] pe(3,4) by (simp_all add: same_futs_def)
  have run: "be_result k recv w = (w\<lparr>bw_engine := Some (fst ?r), bw_calls := Suc (bw_calls w), bw_reads := Suc (bw_reads w)\<rparr>, snd ?r)"
    by (simp add: be_result_def io_bind_def be_until_def be_engine_def pe(1) be_clock_def be_put_def io_outcome_def Let_def
      split: prod.splits outcome.splits)
  have "pe_reachable (fst ?r)" by (rule pe_reachable.Result [OF m(1,3)])
  then show "engine_open (fst (be_result k recv w)) 0" "same_process w (fst (be_result k recv w))"
    using fut_result_open [OF m(2)] by (auto simp: run engine_open_def same_process_def)
qed

text \<open>The hosted engine holds the process.\<close>

definition hosting :: "host \<Rightarrow> bool" where
  "hosting h \<longleftrightarrow> engine_open (ha_world h) 0 \<and> ow_engine (bw_owner (ha_world h)) \<and> owner_inv (bw_owner (ha_world h))"

lemma host_serve_hosting: "hosting h \<Longrightarrow> hosting (fst (host_serve rq h)) \<and> same_process (ha_world h) (ha_world (fst (host_serve rq h)))"
proof -
  assume h: "hosting h"
  let ?q = "(sq_service_ms rq, sq_work_mode rq, sq_chunks rq, sq_chunk_delay_ms rq)"
  let ?w = "ha_world h"
  have op: "engine_open ?w 0" using h by (simp add: hosting_def)
  obtain w1 r1 where 1: "be_submit ?q ?w = (w1, r1)" by fastforce
  have sub: "engine_open w1 0" "same_process ?w w1" "\<And>f. r1 = Returns f \<Longrightarrow> engine_open w1 (Suc f)"
    using be_submit_open [OF op, of ?q] by (simp_all add: 1)
  have "engine_open (ha_world (fst (host_serve rq h))) 0 \<and> same_process ?w (ha_world (fst (host_serve rq h)))"
  proof (cases r1)
    case (Returns f)
    obtain w2 r2 where 2: "be_result f None w1 = (w2, r2)" by fastforce
    have "engine_open w2 0" "same_process w1 w2" using be_result_open [OF sub(3) [OF Returns], of None] by (simp_all add: 2)
    then show ?thesis
      using same_process_trans [OF sub(2)] by (simp add: host_serve_def io_bind_def in_world_def 1 2 Returns io_ret_def split: outcome.splits)
  qed (use sub in \<open>simp_all add: host_serve_def io_bind_def in_world_def 1\<close>)
  then show ?thesis using h by (simp add: hosting_def same_process_def)
qed

lemma host_init_hosting:
  assumes "host_init ray_id n t impl cap h = (h', Returns u)" and "owner_inv (bw_owner (ha_world h))"
  shows "hosting h'" "bw_start_ok (ha_world h') = bw_start_ok (ha_world h)"
proof -
  obtain ow pe where i: "eng_init (bw_start_ok (ha_world h)) (bw_ids (ha_world h)) (bw_now (ha_world h)) (VInt n) (VInt t)
       (cap_val cap) (VStr impl) (bw_owner (ha_world h)) = Inr (ow, pe)"
     and h': "ha_world h' = (ha_world h)\<lparr>bw_engine := Some pe, bw_owner := ow\<rparr>"
    using assms(1) by (auto simp: host_init_def in_world_def be_open_def split: sum.splits)
  have at: "ow_engine ow \<and> owner_inv ow"
    if "attach (bw_start_ok (ha_world h)) AEngine n' (bw_owner (ha_world h)) = Inr ow" for n'
    using attach_inv [OF assms(2) that] that by (auto simp: rbind_eq_Inr split: if_splits)
  have "pe_reachable pe" "\<not> pe_closed pe" using i pe_reachable.Init [OF i] by (auto simp: eng_init_def rbind_eq_Inr)
  moreover have "ow_engine ow \<and> owner_inv ow"
    using i at by (auto simp: eng_init_def engine_new_def rbind_eq_Inr split: if_splits)
  ultimately show "hosting h'" "bw_start_ok (ha_world h') = bw_start_ok (ha_world h)"
    by (auto simp: hosting_def h' engine_open_def)
qed

text \<open>Validation passes and every engine that could be attached is.\<close>

lemma second_init:
  "eng_init start_ok ids t (VInt 1) (VInt 1) VNone (VStr ''std'') w = rbind (engine_new start_ok ids t 1 1 (- 1) ''std'' w)
     (\<lambda>we. Inr (fst we, \<lparr>pe_cap_arg = VNone, pe_lane_impl = ''std'', pe_closed = False, pe_native = snd we, pe_futs = []\<rparr>))"
  by (simp add: eng_init_def validate_max_queue_depth_per_lane_def cross_int32_def)

lemma second_rejected: "hosting h \<Longrightarrow> try_second_engine repr h = (h, Returns (True, Some (repr RuntimeError)))"
  by (simp add: try_second_engine_def Let_def second_init engine_new_def hosting_def)

text \<open>Calls of the actor before its shutdown, each with whatever outcome.\<close>

datatype host_call = CallServe sreq | CallIds | CallSecond

fun host_step :: "(exc \<Rightarrow> string) \<Rightarrow> host_call \<Rightarrow> host \<Rightarrow> host" where
  "host_step repr (CallServe rq) h = fst (host_serve rq h)"
| "host_step repr CallIds h = fst (host_ids h)"
| "host_step repr CallSecond h = fst (try_second_engine repr h)"

lemma host_ids_state: "fst (host_ids h) = h"
  by (auto simp: host_ids_def io_bind_def in_world_def be_engine_def io_py_def io_raise_def io_ret_def split: option.splits sum.splits)

lemma host_step_hosting: "hosting h \<Longrightarrow> hosting (host_step repr c h) \<and> same_process (ha_world h) (ha_world (host_step repr c h))"
  by (cases c) (simp_all add: host_serve_hosting host_ids_state second_rejected same_process_refl)

lemma host_steps_hosting:
  "hosting h \<Longrightarrow> hosting (fold (host_step repr) cs h) \<and> same_process (ha_world h) (ha_world (fold (host_step repr) cs h))"
proof (induction cs arbitrary: h)
  case (Cons c cs)
  then show ?case using host_step_hosting [OF Cons.prems, of repr c] same_process_trans by fastforce
qed (simp add: same_process_refl)

text \<open>A shutdown frees the process.\<close>

definition process_free :: "owner \<Rightarrow> bool" where
  "process_free ow \<longleftrightarrow> owner_inv ow \<and> \<not> ow_engine ow \<and> \<not> ow_runtime ow \<and> ow_endpoints ow = 0"

lemma free_again: "owner_inv ow \<Longrightarrow> ow_engine ow \<Longrightarrow> process_free (detach AEngine ow)"
  by (auto simp: process_free_def owner_defs)

lemma shutdown_frees:
  assumes "hosting h"
  obtains h' where "host_shutdown h = (h', Returns True)" "bw_engine (ha_world h') = None"
    "process_free (bw_owner (ha_world h'))" "bw_start_ok (ha_world h') = bw_start_ok (ha_world h)"
proof -
  obtain pe where pe: "bw_engine (ha_world h) = Some pe" "pe_reachable pe" "\<not> pe_closed pe"
    and ow: "ow_engine (bw_owner (ha_world h))" "owner_inv (bw_owner (ha_world h))"
    using assms by (auto simp: hosting_def engine_open_def)
  have "en_running (pe_native pe)" using pe_reachable_inv [OF pe(2)] pe(3) by (simp add: pe_inv_def)
  then have "snd (eng_shutdown (pe, bw_owner (ha_world h))) = detach AEngine (bw_owner (ha_world h))"
    using pe(3) by (simp add: eng_shutdown_def engine_shutdown_def)
  then have "be_shutdown (ha_world h) = ((ha_world h)\<lparr>bw_engine := Some (fst (eng_shutdown (pe, bw_owner (ha_world h)))),
      bw_owner := detach AEngine (bw_owner (ha_world h))\<rparr>, Returns ())"
    by (simp add: be_shutdown_def io_bind_def be_engine_def pe(1) case_prod_unfold)
  then show ?thesis using that pe(1) free_again [OF ow(2,1)] by (simp add: host_shutdown_def in_world_def)
qed

lemma second_accepted:
  assumes "process_free (bw_owner (ha_world h))" and "bw_start_ok (ha_world h)"
  obtains h' where "try_second_engine repr h = (h', Returns (False, None))" "process_free (bw_owner (ha_world h'))"
proof -
  let ?w = "ha_world h"
  obtain ow where at: "attach True AEngine 1 (bw_owner ?w) = Inr ow" "ow_engine ow" "owner_inv ow"
    using assms(1) attach_inv [of "bw_owner ?w" True AEngine 1]
    by (auto simp: process_free_def start_hpx_locked_def owner_inv_def)
  have "eng_init (bw_start_ok ?w) (bw_ids ?w) (bw_now ?w) (VInt 1) (VInt 1) VNone (VStr ''std'') (bw_owner ?w) =
      Inr (ow, \<lparr>pe_cap_arg = VNone, pe_lane_impl = ''std'', pe_closed = False,
        pe_native = \<lparr>en_running = True, en_lanes = map (\<lambda>i. new_lane (bw_ids ?w ! i) False (bw_now ?w)) [0..<nat 1],
          en_rr = 0, en_cap = - 1, en_bulk = True, en_futs = []\<rparr>, pe_futs = []\<rparr>)"
    unfolding second_init engine_new_def using assms(2) at(1) by simp
  then show ?thesis
    using that free_again [OF at(3,2)] by (simp add: try_second_engine_def eng_shutdown_def engine_shutdown_def)
qed

text \<open>
  One engine per hosting actor: once a \<open>RayxHostActor\<close> is built, whatever it serves, \<open>try_second_engine\<close>
  is refused and changes nothing, until \<open>shutdown\<close>, which can be repeated and leaves the process to a next engine.
\<close>

theorem hosted_engine_exclusive:
  assumes "host_init ray_id n t impl cap h = (h0, Returns u)" and "owner_reachable (bw_owner (ha_world h))"
    and "bw_start_ok (ha_world h)" and "h1 = fold (host_step repr) calls h0"
  shows "try_second_engine repr h1 = (h1, Returns (True, Some (repr RuntimeError)))
    \<and> (\<exists>h2 h3. host_shutdown h1 = (h2, Returns True) \<and> host_shutdown h2 = (h2, Returns True)
       \<and> \<not> ow_started (bw_owner (ha_world h2))
       \<and> try_second_engine repr h2 = (h3, Returns (False, None)) \<and> \<not> ow_started (bw_owner (ha_world h3)))"
proof -
  have "hosting h0" "bw_start_ok (ha_world h0)"
    using host_init_hosting [OF assms(1) owner_reachable_inv [OF assms(2)]] assms(3) by auto
  then have h1: "hosting h1" "bw_start_ok (ha_world h1)"
    using host_steps_hosting [of h0 repr calls] assms(4) by (auto simp: same_process_def)
  obtain h2 where h2: "host_shutdown h1 = (h2, Returns True)" "bw_engine (ha_world h2) = None"
    "process_free (bw_owner (ha_world h2))" "bw_start_ok (ha_world h2)"
    using shutdown_frees [OF h1(1)] h1(2) by metis
  obtain h3 where h3: "try_second_engine repr h2 = (h3, Returns (False, None))" "process_free (bw_owner (ha_world h3))"
    using second_accepted [OF h2(3,4)] .
  show ?thesis
    using second_rejected [OF h1(1)] h2 h3 host_shutdown_again [OF h2(2)] by (auto simp: process_free_def owner_inv_def)
qed

definition fresh_world :: bench_world where
  "fresh_world = \<lparr>bw_engine = None, bw_owner = new_owner, bw_start_ok = True, bw_ids = [''a'', ''b'', ''c'', ''d''], bw_now = 0,
     bw_time = (\<lambda>_. 1), bw_reads = 0, bw_sched = (\<lambda>_. []), bw_calls = 0\<rparr>"

lemma hosted_engine_exclusive_witness:
  "\<exists>h0 h1. host_init ''ray-1'' 2 4 ''std'' None \<lparr>ha_ray_id = ''ray'', ha_world = fresh_world\<rparr> = (h0, Returns ())
    \<and> h1 = fst (host_serve (make_request ''r'' (Fin 1) ''sleep'' 1 (Fin 0)) h0)
    \<and> try_second_engine (\<lambda>_. ''RuntimeError'') h1 = (h1, Returns (True, Some ''RuntimeError''))"
proof -
  let ?h = "\<lparr>ha_ray_id = ''ray'', ha_world = fresh_world\<rparr>"
  obtain h0 where i: "host_init ''ray-1'' 2 4 ''std'' None ?h = (h0, Returns ())"
    by (simp add: host_init_def in_world_def be_open_def fresh_world_def cap_val_def eng_init_def
      validate_max_queue_depth_per_lane_def cross_int32_def engine_new_def new_owner_def start_hpx_locked_def)
  have "owner_reachable (bw_owner (ha_world ?h))" "bw_start_ok (ha_world ?h)"
    by (simp_all add: fresh_world_def owner_reachable.New)
  from hosted_engine_exclusive [OF i this refl, of "\<lambda>_. ''RuntimeError''" "[CallServe (make_request ''r'' (Fin 1) ''sleep'' 1 (Fin 0))]"]
  show ?thesis using i by simp
qed

end
