(* ===== verification/BenchRayModel.thy ===== *)
theory BenchRayModel
  imports BenchRayRun BenchHost
begin

text \<open>
  The Ray contract is about two parties: Ray, and the actors the drivers give it. This theory states what
  an actor class owes (\<open>ray_class\<close>), gives a Ray that runs such actors one call at a time, each in its own
  process, and hands the completed references out in any order, and interprets the contract for both
  actor classes of the source: the synthetic server and the host of an engine.
\<close>

subsection \<open>A Ray that runs the actors' own code\<close>

text \<open>
  \<open>rw_procs k\<close> is the process the \<open>k\<close>-th actor is placed in. A call runs when it is submitted; its value
  waits in the object store until it is got. \<open>rw_pick\<close> says which of the given references a wait returns
  first.
\<close>

record 'a ray_world =
  rw_procs :: "nat \<Rightarrow> 'a"
  rw_store :: "nat \<rightharpoonup> ray_call \<times> srow outcome"
  rw_next :: nat
  rw_time :: "nat \<Rightarrow> int"
  rw_reads :: nat
  rw_pick :: "nat \<Rightarrow> nat"
  rw_waits :: nat

definition on_proc :: "nat \<Rightarrow> ('a, 'b) io \<Rightarrow> ('a ray_world, 'b) io" where
  "on_proc k m w = (case m (rw_procs w k) of (a, r) \<Rightarrow> (w\<lparr>rw_procs := (rw_procs w)(k := a)\<rparr>, r))"

definition rm_submit :: "(sreq \<Rightarrow> ('a, srow) io) \<Rightarrow> ray_call \<Rightarrow> ('a ray_world, nat) io" where
  "rm_submit serve c w = (case serve (snd c) (rw_procs w (fst c)) of (a, r) \<Rightarrow>
     (w\<lparr>rw_procs := (rw_procs w)(fst c := a), rw_store := (rw_store w)(rw_next w \<mapsto> (c, r)), rw_next := Suc (rw_next w)\<rparr>,
      Returns (rw_next w)))"

definition rm_wait :: "nat list \<Rightarrow> int \<Rightarrow> ('a ray_world, nat list \<times> nat list) io" where
  "rm_wait fs n w = (let order = rotate (rw_pick w (rw_waits w)) fs in
     (w\<lparr>rw_waits := Suc (rw_waits w)\<rparr>, Returns (take (nat n) order, drop (nat n) order)))"

text \<open>A value is dropped with its reference.\<close>

fun rm_get :: "nat list \<Rightarrow> ('a ray_world, srow list) io" where
  "rm_get [] w = (w, Returns [])"
| "rm_get (f # fs) w = (case rw_store w f of
     Some (_, Returns r) \<Rightarrow> io_bind (rm_get fs) (\<lambda>rs. io_ret (r # rs)) (w\<lparr>rw_store := (rw_store w)(f := None)\<rparr>)
   | Some (_, Raises e) \<Rightarrow> (w, Raises e)
   | _ \<Rightarrow> (w, Blocked))"

definition rm_clock :: "('a ray_world, int) io" where
  "rm_clock w = (w\<lparr>rw_reads := Suc (rw_reads w)\<rparr>, Returns (rw_time w (rw_reads w)))"

definition ray_of ::
    "(actor_class \<Rightarrow> ('a, unit) io) \<Rightarrow> (sreq \<Rightarrow> ('a, srow) io) \<Rightarrow> ('a, string \<times> string option) io \<Rightarrow> ('a, bool) io
      \<Rightarrow> ('a ray_world, nat) ray_api" where
  "ray_of start serve actor_ids stop = \<lparr>ap_submit = rm_submit serve, ap_wait = rm_wait, ap_get = rm_get, ap_clock = rm_clock,
     ra_init = (\<lambda>_. io_ret ()),
     ra_actors = (\<lambda>cl n. io_bind (io_list (\<lambda>k. on_proc k (start cl)) [0..<n]) (\<lambda>_. io_ret ())),
     ra_ids = (\<lambda>n timeout. io_bind (io_list (\<lambda>k. on_proc k actor_ids) [0..<n]) (\<lambda>ids. io_ret (Some ids))),
     ra_stop_actors = (\<lambda>n. io_list (\<lambda>k. on_proc k stop) [0..<n]),
     ra_shutdown = io_ret ()\<rparr>"

subsection \<open>What an actor class owes\<close>

text \<open>
  \<open>startable cl k a\<close>: process \<open>a\<close> can start the \<open>k\<close>-th actor. \<open>ready k a\<close>: it runs it, under the id
  \<open>name k\<close>, and answers the requests it admits.
\<close>

locale ray_class =
  fixes start :: "actor_class \<Rightarrow> ('a, unit) io"
    and serve :: "sreq \<Rightarrow> ('a, srow) io"
    and actor_ids :: "('a, string \<times> string option) io"
    and stop :: "('a, bool) io"
    and startable :: "actor_class \<Rightarrow> nat \<Rightarrow> 'a \<Rightarrow> bool"
    and ready :: "nat \<Rightarrow> 'a \<Rightarrow> bool"
    and admits :: "sreq \<Rightarrow> bool"
    and answers :: "nat \<Rightarrow> sreq \<Rightarrow> srow \<Rightarrow> bool"
    and name :: "nat \<Rightarrow> string"
  assumes start_law: "startable cl k a \<Longrightarrow> runs (start cl) a (\<lambda>a' _. ready k a')"
    and serve_law: "ready k a \<Longrightarrow> admits rq \<Longrightarrow> runs (serve rq) a (\<lambda>a' r. ready k a' \<and> answers k rq r)"
    and ids_law: "ready k a \<Longrightarrow> runs actor_ids a (\<lambda>a' ids. ready k a' \<and> fst ids = name k)"
    and stop_law: "ready k a \<Longrightarrow> runs stop a (\<lambda>a' b. b)"

text \<open>Actors below \<open>n\<close> satisfy \<open>P\<close>; the clock keeps its bounds; stored values answer their calls.\<close>

definition rw_base :: "'a ray_world \<Rightarrow> bool" where
  "rw_base w \<longleftrightarrow> (\<forall>i. stamp (rw_time w i)) \<and> dom (rw_store w) \<subseteq> {..<rw_next w}"

definition rw_all :: "nat \<Rightarrow> (nat \<Rightarrow> 'a \<Rightarrow> bool) \<Rightarrow> 'a ray_world \<Rightarrow> bool" where
  "rw_all n P w \<longleftrightarrow> rw_base w \<and> rw_store w = Map.empty \<and> (\<forall>k < n. P k (rw_procs w k))"

definition rw_asked :: "'a ray_world \<Rightarrow> nat \<rightharpoonup> ray_call" where
  "rw_asked w f = map_option fst (rw_store w f)"

definition rw_serving :: "nat \<Rightarrow> (nat \<Rightarrow> 'a \<Rightarrow> bool) \<Rightarrow> (nat \<Rightarrow> sreq \<Rightarrow> srow \<Rightarrow> bool) \<Rightarrow> 'a ray_world \<Rightarrow> bool" where
  "rw_serving n ready answers w \<longleftrightarrow> rw_base w \<and> (\<forall>k < n. ready k (rw_procs w k))
     \<and> (\<forall>f c r. rw_store w f = Some (c, r) \<longrightarrow> (\<exists>row. r = Returns row \<and> answers (fst c) (snd c) row))"

lemma rw_asked_dom: "dom (rw_asked w) = dom (rw_store w)"
  by (simp add: rw_asked_def dom_def)

text \<open>One call on each process in turn.\<close>

lemma on_proc_runs: "runs (on_proc k m) w P = runs m (rw_procs w k) (\<lambda>a x. P (w\<lparr>rw_procs := (rw_procs w)(k := a)\<rparr>) x)"
  by (auto simp: runs_def on_proc_def split: prod.splits)

lemma on_procs_runs:
  assumes "\<And>k a. k < n \<Longrightarrow> P k a \<Longrightarrow> runs m a (\<lambda>a' x. Q k a' \<and> R k x)"
    and "j \<le> n" and "\<forall>k < j. Q k (rw_procs w k)" and "\<forall>k. j \<le> k \<and> k < n \<longrightarrow> P k (rw_procs w k)"
    and "rw_base w" and "rw_store w = Map.empty"
  shows "runs (io_list (\<lambda>k. on_proc k m) [j..<n]) w (\<lambda>w' xs. rw_all n Q w' \<and> list_all2 R [j..<n] xs)"
  using assms(2-)
proof (induction "n - j" arbitrary: j w)
  case 0
  then show ?case by (simp add: runs_ret rw_all_def)
next
  case (Suc d)
  then have j: "j < n" "[j..<n] = j # [Suc j..<n]" by (simp_all add: upt_conv_Cons)
  show ?case
    unfolding j(2) io_list.simps runs_bind on_proc_runs runs_ret
  proof (rule runs_mono [OF assms(1) [OF j(1)]])
    show "P j (rw_procs w j)" using Suc.prems j(1) by simp
    fix a x assume a: "Q j a \<and> R j x"
    have "runs (io_list (\<lambda>k. on_proc k m) [Suc j..<n]) (w\<lparr>rw_procs := (rw_procs w)(j := a)\<rparr>)
       (\<lambda>w' xs. rw_all n Q w' \<and> list_all2 R [Suc j..<n] xs)"
      by (rule Suc.hyps(1)) (use Suc.hyps(2) Suc.prems a in \<open>auto simp: less_Suc_eq rw_base_def\<close>)
    then show "runs (io_list (\<lambda>k. on_proc k m) [Suc j..<n]) (w\<lparr>rw_procs := (rw_procs w)(j := a)\<rparr>)
       (\<lambda>w' xs. rw_all n Q w' \<and> list_all2 R (j # [Suc j..<n]) (x # xs))"
      by (rule runs_mono) (use a in simp)
  qed
qed

subsection \<open>Such a Ray keeps the contract\<close>

lemma rm_wait_runs:
  assumes "rw_serving n ready answers w" and "distinct fs" and "1 \<le> m" and "m \<le> int (length fs)"
  shows "runs (rm_wait fs m) w (\<lambda>w' rp. rw_serving n ready answers w' \<and> rw_asked w' = rw_asked w \<and> fst rp \<noteq> [] \<and> distinct (fst rp)
     \<and> set (fst rp) \<subseteq> set fs)"
proof -
  let ?order = "rotate (rw_pick w (rw_waits w)) fs"
  have "take (nat m) ?order \<noteq> []" using assms(3,4) by auto
  moreover have "set (take (nat m) ?order) \<subseteq> set fs" using set_take_subset [of "nat m" ?order] by simp
  ultimately show ?thesis
    using assms(1,2) by (simp add: rm_wait_def Let_def runs_def rw_serving_def rw_base_def rw_asked_def fun_eq_iff)
qed

lemma rm_get_runs:
  assumes "rw_serving n ready answers w" and "distinct fs" and "set fs \<subseteq> dom (rw_asked w)"
  shows "runs (rm_get fs) w (\<lambda>w' rs. rw_serving n ready answers w' \<and> rw_asked w' = rw_asked w |` (- set fs)
     \<and> list_all2 (\<lambda>f r. answers (fst (the (rw_asked w f))) (snd (the (rw_asked w f))) r) fs rs)"
  using assms
proof (induction fs arbitrary: w)
  case Nil
  then show ?case by (simp add: runs_def)
next
  case (Cons f fs)
  obtain c row where f: "rw_store w f = Some (c, Returns row)" "answers (fst c) (snd c) row"
    using Cons.prems(1,3) unfolding rw_serving_def rw_asked_def by (fastforce simp: dom_def)
  let ?w = "w\<lparr>rw_store := (rw_store w)(f := None)\<rparr>"
  have ask: "rw_asked ?w = (rw_asked w)(f := None)" by (auto simp: rw_asked_def fun_eq_iff)
  have "rw_serving n ready answers ?w" using Cons.prems(1) by (auto simp: rw_serving_def rw_base_def)
  then have IH: "runs (rm_get fs) ?w (\<lambda>w' rs. rw_serving n ready answers w' \<and> rw_asked w' = rw_asked ?w |` (- set fs)
     \<and> list_all2 (\<lambda>f r. answers (fst (the (rw_asked ?w f))) (snd (the (rw_asked ?w f))) r) fs rs)"
    by (rule Cons.IH) (use Cons.prems(2,3) ask in auto)
  have "runs (io_bind (rm_get fs) (\<lambda>rs. io_ret (row # rs))) ?w (\<lambda>w' rs. rw_serving n ready answers w'
     \<and> rw_asked w' = rw_asked w |` (- set (f # fs))
     \<and> list_all2 (\<lambda>f r. answers (fst (the (rw_asked w f))) (snd (the (rw_asked w f))) r) (f # fs) rs)"
    unfolding runs_bind runs_ret
  proof (rule runs_mono [OF IH], elim conjE, intro conjI)
    fix w' rs
    assume r: "rw_asked w' = rw_asked ?w |` (- set fs)"
      "list_all2 (\<lambda>f r. answers (fst (the (rw_asked ?w f))) (snd (the (rw_asked ?w f))) r) fs rs"
    show "rw_asked w' = rw_asked w |` (- set (f # fs))" unfolding r(1) ask by (auto simp: restrict_map_def fun_eq_iff)
    have "list_all2 (\<lambda>f r. answers (fst (the (rw_asked w f))) (snd (the (rw_asked w f))) r) fs rs"
      by (rule list.rel_mono_strong [OF r(2)]) (use Cons.prems(2) ask in \<open>auto split: if_splits\<close>)
    then show "list_all2 (\<lambda>f r. answers (fst (the (rw_asked w f))) (snd (the (rw_asked w f))) r) (f # fs) (row # rs)"
      using f by (simp add: rw_asked_def)
  qed
  then show ?case using f(1) by (simp add: runs_def)
qed

lemma empty_serving: "rw_all n ready w \<Longrightarrow> rw_serving n ready answers w \<and> rw_asked w = Map.empty"
  by (simp add: rw_all_def rw_serving_def rw_asked_def fun_eq_iff)

lemma all_named: "list_all2 (\<lambda>k p. fst p = name k) ks ps \<Longrightarrow> map fst ps = map name ks"
  by (induction rule: list_all2_induct) simp_all

lemma all_true: "list_all2 (\<lambda>_ b. b) [0..<n] bs \<Longrightarrow> bs = replicate n True"
  by (auto simp: list_all2_conv_all_nth list_eq_iff_nth_eq)

context ray_class
begin

lemma rm_submit_runs:
  assumes "rw_serving n ready answers w" and "fst c < n" and "admits (snd c)"
  shows "runs (rm_submit serve c) w (\<lambda>w' f. rw_serving n ready answers w' \<and> rw_asked w f = None \<and> rw_asked w' = (rw_asked w)(f \<mapsto> c))"
proof -
  obtain a r where s: "serve (snd c) (rw_procs w (fst c)) = (a, Returns r)" "ready (fst c) a" "answers (fst c) (snd c) r"
    using serve_law [of "fst c" "rw_procs w (fst c)" "snd c"] assms by (auto simp: rw_serving_def runs_iff)
  have free: "rw_store w (rw_next w) = None" using assms(1) by (auto simp: rw_serving_def rw_base_def)
  let ?w = "w\<lparr>rw_procs := (rw_procs w)(fst c := a), rw_store := (rw_store w)(rw_next w \<mapsto> (c, Returns r)), rw_next := Suc (rw_next w)\<rparr>"
  have run: "rm_submit serve c w = (?w, Returns (rw_next w))" by (simp add: rm_submit_def s(1))
  have "rw_base ?w" using assms(1) by (auto simp: rw_serving_def rw_base_def less_Suc_eq)
  then have "rw_serving n ready answers ?w" using assms(1) s(2,3) unfolding rw_serving_def by (cases c) simp
  moreover have "rw_asked ?w = (rw_asked w)(rw_next w \<mapsto> c)" by (simp add: rw_asked_def fun_eq_iff)
  ultimately show ?thesis using free by (simp add: run runs_def rw_asked_def)
qed

end

sublocale ray_class \<subseteq> serial: bench_ray "ray_of start serve actor_ids stop" "rw_serving n ready answers" rw_asked
    "\<lambda>c. fst c < n \<and> admits (snd c)" "\<lambda>c. answers (fst c) (snd c)" limit
    "\<lambda>w cl m. m = n \<and> rw_all n (startable cl) w" "\<lambda>w m. m = n \<and> rw_all n ready w" n name
  for n limit
proof unfold_locales
  let ?R = "ray_of start serve actor_ids stop"
  fix s :: "'a ray_world" and cl m timeout c
  {
    assume "rw_serving n ready answers s"
    then show "finite (dom (rw_asked s))"
      unfolding rw_serving_def rw_base_def rw_asked_dom by (elim conjE finite_subset) simp
  next
    assume "rw_serving n ready answers s"
    then show "runs (ap_clock ?R) s (\<lambda>s' t. rw_serving n ready answers s' \<and> rw_asked s' = rw_asked s \<and> stamp t)"
      by (simp add: ray_of_def rm_clock_def runs_def rw_serving_def rw_base_def rw_asked_def fun_eq_iff)
  next
    assume "m = n \<and> rw_all n ready s"
    then show "runs (ap_clock ?R) s (\<lambda>s' _. m = n \<and> rw_all n ready s')"
      by (simp add: ray_of_def rm_clock_def runs_def rw_all_def rw_base_def)
  next
    assume a: "m = n \<and> rw_all n (startable cl) s"
    have "runs (io_list (\<lambda>k. on_proc k (start cl)) [0..<n]) s (\<lambda>s' xs. rw_all n ready s' \<and> list_all2 (\<lambda>_ _. True) [0..<n] xs)"
      by (rule on_procs_runs [where P = "startable cl"]) (use a in \<open>auto simp: rw_all_def intro: runs_mono [OF start_law]\<close>)
    then show "runs (ra_actors ?R cl m) s (\<lambda>s' _. m = n \<and> rw_all n ready s')"
      using a by (auto simp: ray_of_def runs_bind runs_ret elim: runs_mono)
  next
    assume a: "m = n \<and> rw_all n ready s"
    have "runs (io_list (\<lambda>k. on_proc k actor_ids) [0..<n]) s (\<lambda>s' xs. rw_all n ready s' \<and> list_all2 (\<lambda>k p. fst p = name k) [0..<n] xs)"
      by (rule on_procs_runs [where P = ready, OF ids_law]) (use a in \<open>auto simp: rw_all_def\<close>)
    then show "runs (ra_ids ?R m timeout) s (\<lambda>s' ids. (ids = None \<longrightarrow> timeout \<noteq> None)
        \<and> (\<forall>ps. ids = Some ps \<longrightarrow> rw_serving n ready answers s' \<and> rw_asked s' = Map.empty \<and> map fst ps = map name [0..<m]))"
      using a by (simp add: ray_of_def runs_bind runs_ret, elim runs_mono conjE) (simp add: empty_serving [where answers = answers] all_named)
  next
    assume a: "rw_serving n ready answers s" "rw_asked s = Map.empty"
    then have "rw_store s = Map.empty" by (auto simp: rw_asked_def fun_eq_iff)
    then have "runs (io_list (\<lambda>k. on_proc k stop) [0..<n]) s (\<lambda>s' xs. rw_all n (\<lambda>_ _. True) s' \<and> list_all2 (\<lambda>_ b. b) [0..<n] xs)"
      by (intro on_procs_runs [where P = ready]) (use a in \<open>auto simp: rw_serving_def intro: runs_mono [OF stop_law]\<close>)
    then show "runs (ra_stop_actors ?R n) s (\<lambda>s' oks. oks = replicate n True)"
      by (simp add: ray_of_def, elim runs_mono conjE) (simp add: all_true)
  }
qed (auto simp: ray_of_def runs_ret intro: rm_submit_runs rm_wait_runs rm_get_runs)

subsection \<open>The two actor classes\<close>

text \<open>A process knows the id its actor will draw. An actor of the other class cannot be placed in it.\<close>

definition synth_start :: "actor_class \<Rightarrow> (server, unit) io" where
  "synth_start cl sv = (case cl of Synthetic \<Rightarrow> server_init (sv_actor_id sv) sv | _ \<Rightarrow> (sv, Raises TypeError))"

definition synth_ids :: "(server, string \<times> string option) io" where
  "synth_ids = io_bind get_actor_id (\<lambda>i. io_ret (i, None))"

definition synth_ready :: "(nat \<Rightarrow> string) \<Rightarrow> nat \<Rightarrow> server \<Rightarrow> bool" where
  "synth_ready name k sv \<longleftrightarrow> prompt sv \<and> sv_actor_id sv = name k"

definition synth_answers :: "(nat \<Rightarrow> string) \<Rightarrow> nat \<Rightarrow> sreq \<Rightarrow> srow \<Rightarrow> bool" where
  "synth_answers name k rq r \<longleftrightarrow> serve_answers rq r \<and> sr_actor_id r = name k"

definition synth_ray :: "(exc \<Rightarrow> string) \<Rightarrow> (server ray_world, nat) ray_api" where
  "synth_ray repr = ray_of synth_start (synth_serve repr) synth_ids (io_ret True)"

interpretation synth: ray_class synth_start "synth_serve repr" synth_ids "io_ret True"
    "\<lambda>cl k sv. cl = Synthetic \<and> synth_ready name k sv" "synth_ready name" serve_admits "synth_answers name" name
  for repr name
proof unfold_locales
  fix k sv rq assume "synth_ready name k sv" "serve_admits rq"
  then show "runs (synth_serve repr rq) sv (\<lambda>a' r. synth_ready name k a' \<and> synth_answers name k rq r)"
    by (intro runs_mono [OF synth_serve_runs]) (auto simp: synth_ready_def synth_answers_def)
qed (auto simp: synth_ready_def synth_start_def server_init_def synth_ids_def get_actor_id_def runs_def io_bind_def io_ret_def prompt_def)

definition host_start :: "actor_class \<Rightarrow> (host, unit) io" where
  "host_start cl h = (case cl of Hosting n t impl cap cpus \<Rightarrow> host_init (ha_ray_id h) n t impl cap h | _ \<Rightarrow> (h, Raises TypeError))"

definition host_startable :: "(nat \<Rightarrow> string) \<Rightarrow> actor_class \<Rightarrow> nat \<Rightarrow> host \<Rightarrow> bool" where
  "host_startable name cl k h \<longleftrightarrow> ha_ray_id h = name k \<and> (case cl of Synthetic \<Rightarrow> False
     | Hosting n t impl cap cpus \<Rightarrow> be_opens (ha_world h) n t impl cap)"

definition host_ray :: "(host ray_world, nat) ray_api" where
  "host_ray = ray_of host_start host_serve host_ids host_shutdown"

interpretation hosted: ray_class host_start host_serve host_ids host_shutdown
    "host_startable name" "\<lambda>k. host_ok (name k)" host_admits "\<lambda>_. host_answers" name
  for name
proof unfold_locales
  fix cl k h assume "host_startable name cl k h"
  then show "runs (host_start cl) h (\<lambda>h' _. host_ok (name k) h')"
    by (cases cl) (auto simp: host_startable_def host_start_def runs_def dest!: host_init_runs [of _ _ _ _ _ "name k", unfolded runs_def])
next
  fix k h rq assume "host_ok (name k) h"
  then show "runs host_ids h (\<lambda>h' ids. host_ok (name k) h' \<and> fst ids = name k)"
    and "runs host_shutdown h (\<lambda>_ b. b)"
    and "host_admits rq \<Longrightarrow> runs (host_serve rq) h (\<lambda>h' r. host_ok (name k) h' \<and> host_answers rq r)"
    by (blast intro: runs_mono [OF host_ids_runs] runs_mono [OF host_shutdown_runs] runs_mono [OF host_serve_runs])+
qed

end
