(* ===== verification/BenchRayProps.thy ===== *)
theory BenchRayProps
  imports BenchRayModel BenchProps
begin

text \<open>
  What the Ray drivers write, for any Ray that keeps its contract: one row per request, from the actor the
  request's index selects.
\<close>

subsection \<open>Accepted command lines\<close>

lemma ray_option_names: "distinct (map op_name ray_options)"
  by (simp add: ray_options_def opt_defs)

lemma ray_parsed:
  assumes "ray_parse_args argv = Some args"
  shows "da_work_mode args = ''sleep''" "da_retire_mode args \<in> {''one_by_one'', ''batch_wait'', ''submit_all_get_all''}"
    "\<not> ray_refused args"
proof -
  obtain ns where ns: "parse_known ray_options argv = Some ns" "args = args_of ns" "\<not> ray_refused args"
    using assms by (auto simp: ray_parse_args_def checked_def bind_eq_Some_conv split: if_splits)
  note ch = parse_known_choices [OF ns(1) ray_option_names]
  have def: "\<forall>q \<in> set ray_options. op_type q = OStr \<and> op_choices q \<noteq> [] \<longrightarrow>
      (\<exists>s \<in> set (op_choices q). op_default q = VStr s)"
    by (simp add: ray_options_def opt_defs)
  have mem: "str_opt ''work-mode'' [''sleep''] ''sleep'' \<in> set ray_options"
      "str_opt ''retire-mode'' [''one_by_one'', ''batch_wait'', ''submit_all_get_all''] ''one_by_one'' \<in> set ray_options"
    by (simp_all add: ray_options_def)
  show "da_work_mode args = ''sleep''" using ch [OF def mem(1)] by (simp add: ns(2) args_of_def str_opt_def)
  show "da_retire_mode args \<in> {''one_by_one'', ''batch_wait'', ''submit_all_get_all''}"
    using ch [OF def mem(2)] by (simp add: ns(2) args_of_def str_opt_def)
  show "\<not> ray_refused args" by (rule ns(3))
qed

lemma multi_option_names: "distinct (map op_name multi_options)"
  by (simp add: multi_options_def opt_defs)

lemma multi_parsed:
  assumes "multi_parse_args argv = Some args"
  shows "da_work_mode args \<in> {''spin'', ''sleep''}" "da_retire_mode args \<in> {''one_by_one'', ''submit_all_get_all''}"
    "da_chunks args = 1" "da_chunk_delay_ms args = Fin 0" "\<not> multi_refused args"
proof -
  obtain ns where ns: "parse_known multi_options argv = Some ns" "args = multi_defaults ns" "\<not> multi_refused args"
    using assms by (auto simp: multi_parse_args_def checked_def bind_eq_Some_conv split: if_splits)
  note ch = parse_known_choices [OF ns(1) multi_option_names]
  have def: "\<forall>q \<in> set multi_options. op_type q = OStr \<and> op_choices q \<noteq> [] \<longrightarrow>
      (\<exists>s \<in> set (op_choices q). op_default q = VStr s)"
    by (simp add: multi_options_def opt_defs)
  have mem: "str_opt ''work-mode'' [''spin'', ''sleep''] ''spin'' \<in> set multi_options"
      "str_opt ''retire-mode'' [''one_by_one'', ''submit_all_get_all''] ''one_by_one'' \<in> set multi_options"
    by (simp_all add: multi_options_def)
  show "da_work_mode args \<in> {''spin'', ''sleep''}"
    using ch [OF def mem(1)] by (simp add: ns(2) multi_defaults_def Let_def args_of_def str_opt_def)
  show "da_retire_mode args \<in> {''one_by_one'', ''submit_all_get_all''}"
    using ch [OF def mem(2)] by (simp add: ns(2) multi_defaults_def Let_def args_of_def str_opt_def)
  show "da_chunks args = 1" "da_chunk_delay_ms args = Fin 0" by (simp_all add: ns(2) multi_defaults_def Let_def)
  show "\<not> multi_refused args" by (rule ns(3))
qed

subsection \<open>Synthetic servers\<close>

lemma ray_request_fields:
  "sq_service_ms (ray_request args i) = service_for (int i) args" "sq_chunks (ray_request args i) = da_chunks args"
  "sq_chunk_delay_ms (ray_request args i) = da_chunk_delay_ms args" "sq_work_mode (ray_request args i) = da_work_mode args"
  by (simp_all add: ray_request_def make_request_def svc_def)

text \<open>The rows of a run, as the contract gives them.\<close>

lemma ray_run_served:
  assumes ray: "bench_ray A ok asked (\<lambda>c. fst c < n \<and> serve_admits (snd c)) (\<lambda>c. synth_answers name (fst c) (snd c))
      limit hosts placed n name"
    and args: "ray_parse_args argv = Some args" and start: "hosts s Synthetic (nat (da_num_actors args))"
    and sleeps: "da_chunks args < 2 ^ 31" "sleepable (da_chunk_delay_ms args)"
      "\<And>i. \<exists>per. per_chunk_ms (service_for (int i) args) (da_chunks args) = Inr per \<and> sleepable per"
    and fit: "ray_fits limit args (nat (da_requests args))" "ray_fits limit args (nat (da_warmup_requests args))"
    and small: "da_wait_batch args < 2 ^ 31" "da_requests args \<le> 10 ^ 6"
    and workload: "ray_workload args = Inr workload"
  obtains s' rows where "ray_run A args run_id s = (s', Returns rows)"
    "list_all2 (ray_row (\<lambda>c. synth_answers name (fst c) (snd c)) args (nat (da_num_actors args)) (\<lambda>_. None)
        (ray_make_record args run_id workload (da_retire_mode args))) [0..<nat (da_requests args)] rows"
proof -
  note p = ray_parsed [OF args]
  have pos: "0 < da_num_actors args" "1 \<le> da_chunks args" using p(3) by (auto simp: ray_refused_def)
  have n: "nat (da_num_actors args) = n" by (rule bench_ray.hosts_size [OF ray start])
  have adm: "fst (i mod nat (da_num_actors args), ray_request args i) < n \<and> serve_admits (snd (i mod nat (da_num_actors args), ray_request args i))" for i
    using pos sleeps p(1) n by (auto simp: serve_admits_def ray_request_fields)
  show ?thesis
    using bench_ray.ray_run_runs [OF ray adm pos(1) p(2) fit small workload start, of run_id] that unfolding runs_iff by blast
qed

text \<open>
  C28. \<open>run_ray_baseline.run\<close> over synthetic servers: for any Ray that keeps the contract (references are
  new, a wait returns some of the references it was given, a value is the actor's answer to that call), for an
  accepted command line with durations a clock can sleep, the run returns, in every retire mode. It writes exactly
  one row per request, row \<open>i\<close> being request \<open>i\<close>, served by actor \<open>i mod num_actors\<close>, completed, with at least the
  requested active and parked time between its stamps.
\<close>

theorem ray_run_rows:
  assumes ray: "bench_ray A ok asked (\<lambda>c. fst c < n \<and> serve_admits (snd c)) (\<lambda>c. synth_answers name (fst c) (snd c))
      limit hosts placed n name"
    and args: "ray_parse_args argv = Some args" and start: "hosts s Synthetic (nat (da_num_actors args))"
    and sleeps: "da_chunks args < 2 ^ 31" "sleepable (da_chunk_delay_ms args)"
      "\<And>i. \<exists>per. per_chunk_ms (service_for (int i) args) (da_chunks args) = Inr per \<and> sleepable per"
    and fit: "ray_fits limit args (nat (da_requests args))" "ray_fits limit args (nat (da_warmup_requests args))"
    and small: "da_wait_batch args < 2 ^ 31" "da_requests args \<le> 10 ^ 6"
    and workload: "ray_workload args = Inr workload"
  shows "\<exists>s' rows. ray_run A args run_id s = (s', Returns rows) \<and> length rows = nat (da_requests args)
     \<and> (\<forall>i < length rows. dr_request_id (rows ! i) = req_id i
          \<and> dr_actor_id (rows ! i) = name (i mod nat (da_num_actors args))
          \<and> dr_status (rows ! i) = ''completed'' \<and> dr_service_ms_requested (rows ! i) = service_for (int i) args
          \<and> (\<exists>per. per_chunk_ms (service_for (int i) args) (da_chunks args) = Inr per
             \<and> da_chunks args * sleep_of per + (da_chunks args - 1) * sleep_of (da_chunk_delay_ms args)
               \<le> dr_end_ns (rows ! i) - dr_start_ns (rows ! i)))"
proof -
  obtain s' rows where r: "ray_run A args run_id s = (s', Returns rows)"
      "list_all2 (ray_row (\<lambda>c. synth_answers name (fst c) (snd c)) args (nat (da_num_actors args)) (\<lambda>_. None)
        (ray_make_record args run_id workload (da_retire_mode args))) [0..<nat (da_requests args)] rows"
    by (rule ray_run_served [OF assms])
  have len: "length rows = nat (da_requests args)" using list_all2_lengthD [OF r(2)] by simp
  have row: "ray_row (\<lambda>c. synth_answers name (fst c) (snd c)) args (nat (da_num_actors args)) (\<lambda>_. None)
        (ray_make_record args run_id workload (da_retire_mode args)) i (rows ! i)" if "i < length rows" for i
    using list_all2_nthD2 [OF r(2) that] len that by simp
  have "dr_request_id rec = req_id i
          \<and> dr_actor_id rec = name (i mod nat (da_num_actors args))
          \<and> dr_status rec = ''completed'' \<and> dr_service_ms_requested rec = service_for (int i) args
          \<and> (\<exists>per. per_chunk_ms (service_for (int i) args) (da_chunks args) = Inr per
             \<and> da_chunks args * sleep_of per + (da_chunks args - 1) * sleep_of (da_chunk_delay_ms args)
               \<le> dr_end_ns rec - dr_start_ns rec)"
    if "ray_row (\<lambda>c. synth_answers name (fst c) (snd c)) args (nat (da_num_actors args)) (\<lambda>_. None)
        (ray_make_record args run_id workload (da_retire_mode args)) i rec" for i rec
    using that
    by (auto simp: ray_row_def ray_make_record_def rbind_eq_Inr synth_answers_def serve_answers_def ray_request_fields svc_def)
  note row = this [OF row]
  then show ?thesis using r(1) len by blast
qed

lemma demo_stamp: "stamp (int (min n 1000))"
  by (simp add: stamp_def min_def)

text \<open>A Ray with three actors; the counters stay below the clock's bound.\<close>

definition demo_ray_world :: "(nat \<Rightarrow> 'a) \<Rightarrow> 'a ray_world" where
  "demo_ray_world procs = \<lparr>rw_procs = procs, rw_store = Map.empty, rw_next = 0, rw_time = (\<lambda>n. int (min n 1000)), rw_reads = 0,
     rw_pick = (\<lambda>n. n), rw_waits = 0\<rparr>"

definition demo_name :: "nat \<Rightarrow> string" where
  "demo_name k = (if k = 0 then ''ray-0'' else if k = 1 then ''ray-1'' else ''ray-2'')"

definition demo_server :: "nat \<Rightarrow> server" where
  "demo_server k = \<lparr>sv_actor_id = demo_name k, sv_now = 0, sv_late = (\<lambda>_. 1), sv_events = 0\<rparr>"

definition ray_demo_argv :: "(string \<times> string) list" where
  "ray_demo_argv = [(''requests'', ''3''), (''concurrency'', ''2''), (''num-actors'', ''2''), (''out'', ''x'')]"

lemma ray_demo_parse: "\<exists>args. ray_parse_args ray_demo_argv = Some args \<and> da_requests args = 3 \<and> da_concurrency args = 2
    \<and> da_num_actors args = 2 \<and> da_chunks args = 1 \<and> da_chunk_delay_ms args = Fin 0 \<and> sa_service_ms args = Fin 0
    \<and> sa_pattern args = ''fixed'' \<and> da_wait_batch args = 8 \<and> da_warmup_requests args = 0
    \<and> da_retire_mode args = ''one_by_one'' \<and> ray_workload args = Inr ''noop_c2_a2''"
proof -
  have "digit_char 2 = CHR ''2''" by code_simp
  then have ws: "int_str 2 = ''2''" by (subst int_str_def) (simp add: nat_str.simps)
  show ?thesis
    by (simp add: ray_parse_args_def parse_known_def ray_demo_argv_def ray_options_def opt_defs opt_value_def demo_numbers
        checked_def args_of_def ns_int_def ns_float_def ns_str_def ns_str_option_def ns_int_option_def ray_refused_def
        bimodal_refused_def ray_workload_def workload_with_def window_suffix_def truthy_def default_workload_def ws)
qed

lemma ray_demo_start: "rw_all 2 (\<lambda>k sv. Synthetic = Synthetic \<and> synth_ready demo_name k sv) (demo_ray_world demo_server)"
  by (simp add: rw_all_def rw_base_def demo_ray_world_def demo_stamp synth_ready_def demo_server_def prompt_def)

lemma ray_demo_sleeps:
  assumes "da_chunks args = 1" "da_chunk_delay_ms args = Fin 0" "sa_service_ms args = Fin 0" "sa_pattern args = ''fixed''"
  shows "sleepable (da_chunk_delay_ms args)"
    "\<exists>per. per_chunk_ms (service_for (int i) args) (da_chunks args) = Inr per \<and> sleepable per"
  by (simp_all add: assms sleepable_def service_for_def per_chunk_ms_def float_of_int_small [of 1, simplified])

lemma ray_run_rows_witness:
  "\<exists>args s' rows. ray_parse_args ray_demo_argv = Some args
     \<and> ray_run (synth_ray (\<lambda>_. ''error'')) args ''r'' (demo_ray_world demo_server) = (s', Returns rows)
     \<and> length rows = 3 \<and> dr_request_id (rows ! 1) = req_id 1 \<and> dr_actor_id (rows ! 1) = ''ray-1''"
proof -
  obtain args where a: "ray_parse_args ray_demo_argv = Some args" "da_requests args = 3" "da_concurrency args = 2"
      "da_num_actors args = 2" "da_chunks args = 1" "da_chunk_delay_ms args = Fin 0" "sa_service_ms args = Fin 0"
      "sa_pattern args = ''fixed''" "da_wait_batch args = 8" "da_warmup_requests args = 0"
      "da_retire_mode args = ''one_by_one''" "ray_workload args = Inr ''noop_c2_a2''"
    using ray_demo_parse by blast
  have "\<exists>s' rows. ray_run (ray_of synth_start (synth_serve (\<lambda>_. ''error'')) synth_ids (io_ret True)) args ''r'' (demo_ray_world demo_server)
       = (s', Returns rows) \<and> length rows = nat (da_requests args)
     \<and> (\<forall>i < length rows. dr_request_id (rows ! i) = req_id i
          \<and> dr_actor_id (rows ! i) = demo_name (i mod nat (da_num_actors args))
          \<and> dr_status (rows ! i) = ''completed'' \<and> dr_service_ms_requested (rows ! i) = service_for (int i) args
          \<and> (\<exists>per. per_chunk_ms (service_for (int i) args) (da_chunks args) = Inr per
             \<and> da_chunks args * sleep_of per + (da_chunks args - 1) * sleep_of (da_chunk_delay_ms args)
               \<le> dr_end_ns (rows ! i) - dr_start_ns (rows ! i)))"
    by (rule ray_run_rows [OF synth.serial.bench_ray_axioms [where name = demo_name and n = 2 and repr = "\<lambda>_. ''error''" and limit = 5] a(1)])
      (use ray_demo_start ray_demo_sleeps [of args] a in \<open>simp_all add: ray_fits_def\<close>)
  then show ?thesis using a(1,2,4) by (fastforce simp: synth_ray_def demo_name_def)
qed

subsection \<open>Actors that host an engine\<close>

lemma count_rows:
  assumes "\<And>r. r \<in> set rows \<Longrightarrow> dr_status r = ''completed''" and "map_of counts k = Some m"
  shows "map_of (foldl count_actor counts rows) k = Some (m + length (filter (\<lambda>r. dr_worker_id r = k) rows))"
  using assms
proof (induction rows arbitrary: counts m)
  case (Cons r rows)
  have "dr_status r = ''completed''" using Cons.prems(1) by simp
  then have "map_of (count_actor counts r) k = Some (if dr_worker_id r = k then Suc m else m)"
    using Cons.prems(2) by (auto simp: count_actor_def update_conv' split: option.splits)
  then show ?case using Cons.IH [of "count_actor counts r"] Cons.prems(1) by auto
qed simp

lemma zero_counts: "map_of counts (Some a) = Some 0 \<or> a \<in> set ids \<Longrightarrow>
    map_of (foldl (\<lambda>d aid. AList.update (Some aid) 0 d) counts ids) (Some a) = Some 0"
  by (induction ids arbitrary: counts) (auto simp: update_conv')

lemma per_actor_share:
  assumes "length rows = m" and "\<And>i. i < m \<Longrightarrow> dr_status (rows ! i) = ''completed''"
    and "\<And>i. i < m \<Longrightarrow> dr_worker_id (rows ! i) = Some (name (i mod n))" and "inj_on name {..<n}" and "k < n"
  shows "map_of (per_actor (map name [0..<n]) rows) (Some (name k)) = Some (card {i. i < m \<and> i mod n = k})"
proof -
  have "length (filter (\<lambda>r. dr_worker_id r = Some (name k)) rows) = card {i. i < length rows \<and> dr_worker_id (rows ! i) = Some (name k)}"
    by (simp add: length_filter_conv_card)
  also have "{i. i < length rows \<and> dr_worker_id (rows ! i) = Some (name k)} = {i. i < m \<and> i mod n = k}"
    using assms(1,3,5) inj_on_eq_iff [OF assms(4)] by (auto simp: lessThan_iff)
  finally show ?thesis
    using count_rows [of rows _ "Some (name k)" 0] zero_counts [of "[]" "name k" "map name [0..<n]"] assms(1,2,5)
    by (auto simp: per_actor_def in_set_conv_nth)
qed

text \<open>
  \<open>run_ray_hosting_rayx_multi.run\<close> over hosted engines: for any Ray that keeps the contract and an accepted
  command line, the run returns without a report only if the actors were not ready in time. Otherwise it writes one row
  per request in order, row \<open>i\<close> completed by worker \<open>i mod num_actors\<close> with at least the requested active time, every
  actor has shut down, and each is credited with exactly its round-robin share of the requests.
\<close>

theorem multi_run_rows:
  assumes ray: "bench_ray A ok asked (\<lambda>c. fst c < n \<and> host_admits (snd c)) (\<lambda>c. host_answers (snd c))
      limit hosts placed n name"
    and args: "multi_parse_args argv = Some args"
    and start: "hosts s (Hosting (da_num_lanes args) (da_hpx_threads args) (da_lane_impl args) None
      (Some (da_num_cpus_per_actor args))) (nat (da_num_actors args))"
    and fit: "ray_fits limit args (nat (da_requests args))" "ray_fits limit args (nat (da_warmup_requests args))"
    and small: "da_requests args \<le> 10 ^ 6" and ids: "inj_on name {..<n}"
  shows "\<exists>s' out. multi_run A args run_id s = (s', Returns out) \<and> (\<forall>rep. out = Some rep \<longrightarrow>
       length (mr_rows rep) = nat (da_requests args) \<and> mr_shutdown_ok rep
     \<and> (\<forall>i < length (mr_rows rep). dr_request_id (mr_rows rep ! i) = req_id i
          \<and> dr_worker_id (mr_rows rep ! i) = Some (name (i mod n)) \<and> dr_status (mr_rows rep ! i) = ''completed''
          \<and> wait_ns (fdiv_pos (service_for (int i) args) 1) \<le> dr_end_ns (mr_rows rep ! i) - dr_start_ns (mr_rows rep ! i))
     \<and> (\<forall>k < n. map_of (mr_per_actor rep) (Some (name k)) = Some (card {i. i < nat (da_requests args) \<and> i mod n = k})))"
proof -
  note p = multi_parsed [OF args]
  have pos: "0 < da_num_actors args" using p(5) by (auto simp: multi_refused_def)
  have n: "nat (da_num_actors args) = n" by (rule bench_ray.hosts_size [OF ray start])
  have q: "(sq_service_ms (ray_request args i), sq_work_mode (ray_request args i), sq_chunks (ray_request args i),
      sq_chunk_delay_ms (ray_request args i)) = engine_request args i" for i
    by (simp add: ray_request_def make_request_def engine_request_def)
  have "be_admits (engine_request args i)" for i
    using p by (intro engine_admits) auto
  then have adm: "fst (i mod nat (da_num_actors args), ray_request args i) < n \<and> host_admits (snd (i mod nat (da_num_actors args), ray_request args i))" for i
    using pos n by (simp add: host_admits_def q)
  let ?row = "ray_row (\<lambda>c. host_answers (snd c)) args n (\<lambda>k. Some (map name [0..<n] ! k)) (host_make_record args run_id (multi_workload args))"
  obtain s' out where r: "multi_run A args run_id s = (s', Returns out)"
    "case out of None \<Rightarrow> True | Some rep \<Rightarrow> let ids = map name [0..<n] in
         list_all2 (ray_row (\<lambda>c. host_answers (snd c)) args n (\<lambda>k. Some (ids ! k))
           (host_make_record args run_id (multi_workload args))) [0..<nat (da_requests args)] (mr_rows rep)
         \<and> mr_shutdown_ok rep \<and> mr_per_actor rep = per_actor ids (mr_rows rep)"
    using bench_ray.multi_run_runs [OF ray adm pos p(2) fit small start, of run_id] unfolding runs_iff n by blast
  have fields: "dr_request_id rec = req_id i \<and> dr_worker_id rec = Some (name (i mod n)) \<and> dr_status rec = ''completed''
          \<and> wait_ns (fdiv_pos (service_for (int i) args) 1) \<le> dr_end_ns rec - dr_start_ns rec" if "?row i rec" for i rec
  proof -
    have "i mod n < n" using pos n by simp
    then show ?thesis
      using that p(3,4)
      by (auto simp: ray_row_def host_make_record_def rbind_eq_Inr host_answers_def q be_answers_def engine_request_def serve_row_def svc_def)
  qed
  have "length (mr_rows rep) = nat (da_requests args) \<and> mr_shutdown_ok rep
     \<and> (\<forall>i < length (mr_rows rep). dr_request_id (mr_rows rep ! i) = req_id i
          \<and> dr_worker_id (mr_rows rep ! i) = Some (name (i mod n)) \<and> dr_status (mr_rows rep ! i) = ''completed''
          \<and> wait_ns (fdiv_pos (service_for (int i) args) 1) \<le> dr_end_ns (mr_rows rep ! i) - dr_start_ns (mr_rows rep ! i))
     \<and> (\<forall>k < n. map_of (mr_per_actor rep) (Some (name k)) = Some (card {i. i < nat (da_requests args) \<and> i mod n = k}))"
    if "out = Some rep" for rep
  proof -
    have rep: "list_all2 ?row [0..<nat (da_requests args)] (mr_rows rep)" "mr_shutdown_ok rep"
        "mr_per_actor rep = per_actor (map name [0..<n]) (mr_rows rep)"
      using r(2) that by (simp_all add: Let_def)
    have len: "length (mr_rows rep) = nat (da_requests args)" using list_all2_lengthD [OF rep(1)] by simp
    have row: "?row i (mr_rows rep ! i)" if "i < length (mr_rows rep)" for i
      using list_all2_nthD2 [OF rep(1) that] len that by simp
    show ?thesis
      using len rep(2,3) fields [OF row] per_actor_share [OF len _ _ ids] by simp
  qed
  then show ?thesis using r(1) by blast
qed

definition demo_host :: "nat \<Rightarrow> host" where
  "demo_host k = \<lparr>ha_ray_id = demo_name k, ha_world = demo_world\<rparr>"

definition multi_demo_argv :: "(string \<times> string) list" where
  "multi_demo_argv = [(''requests'', ''3''), (''concurrency'', ''2''), (''out'', ''x'')]"

lemma multi_demo_ns: "\<exists>ns. parse_known multi_options multi_demo_argv = Some ns \<and> ns ''requests'' = Some (VInt 3)
    \<and> ns ''concurrency'' = Some (VInt 2) \<and> ns ''num-actors'' = Some (VInt 2) \<and> ns ''num-lanes'' = Some (VInt 1)
    \<and> ns ''hpx-threads'' = Some (VInt 1) \<and> ns ''lane-impl'' = Some (VStr ''std'') \<and> ns ''num-cpus'' = Some VNone
    \<and> ns ''num-cpus-per-actor'' = Some VNone \<and> ns ''retire-mode'' = Some (VStr ''one_by_one'')
    \<and> ns ''actor-ready-timeout'' = Some (VFloat (Fin 20))"
  by (simp add: parse_known_def multi_demo_argv_def multi_options_def opt_defs opt_value_def demo_numbers)

lemma multi_demo_parse: "\<exists>args. multi_parse_args multi_demo_argv = Some args \<and> da_requests args = 3 \<and> da_concurrency args = 2
    \<and> da_num_actors args = 2 \<and> da_num_lanes args = 1 \<and> da_hpx_threads args = 1 \<and> da_lane_impl args = ''std''
    \<and> da_retire_mode args = ''one_by_one'' \<and> da_num_cpus_per_actor args = 1"
proof -
  obtain ns where ns: "parse_known multi_options multi_demo_argv = Some ns" "ns ''requests'' = Some (VInt 3)"
    "ns ''concurrency'' = Some (VInt 2)" "ns ''num-actors'' = Some (VInt 2)" "ns ''num-lanes'' = Some (VInt 1)"
    "ns ''hpx-threads'' = Some (VInt 1)" "ns ''lane-impl'' = Some (VStr ''std'')" "ns ''num-cpus'' = Some VNone"
    "ns ''num-cpus-per-actor'' = Some VNone" "ns ''retire-mode'' = Some (VStr ''one_by_one'')"
    "ns ''actor-ready-timeout'' = Some (VFloat (Fin 20))"
    using multi_demo_ns by blast
  show ?thesis
    by (simp add: multi_parse_args_def ns checked_def multi_refused_def multi_defaults_def args_of_def ns_int_def
      ns_float_def ns_str_def ns_int_option_def fle_def)
qed

lemma multi_run_rows_witness:
  "\<exists>args s' out. multi_parse_args multi_demo_argv = Some args
     \<and> multi_run host_ray args ''r'' (demo_ray_world demo_host) = (s', Returns out)
     \<and> (\<forall>rep. out = Some rep \<longrightarrow> length (mr_rows rep) = 3 \<and> dr_worker_id (mr_rows rep ! 2) = Some ''ray-0''
        \<and> map_of (mr_per_actor rep) (Some ''ray-1'') = Some (card {i :: nat. i < 3 \<and> i mod 2 = 1}))"
proof -
  obtain args where a: "multi_parse_args multi_demo_argv = Some args" "da_requests args = 3" "da_concurrency args = 2"
      "da_num_actors args = 2" "da_num_lanes args = 1" "da_hpx_threads args = 1" "da_lane_impl args = ''std''"
      "da_retire_mode args = ''one_by_one''" "da_num_cpus_per_actor args = 1"
    using multi_demo_parse by blast
  have start: "nat (da_num_actors args) = 2 \<and> rw_all 2 (host_startable demo_name (Hosting (da_num_lanes args) (da_hpx_threads args)
      (da_lane_impl args) None (Some (da_num_cpus_per_actor args)))) (demo_ray_world demo_host)"
    using demo_opens by (simp add: a rw_all_def rw_base_def demo_ray_world_def demo_stamp host_startable_def demo_host_def)
  have inj: "inj_on demo_name {..<2}" by (auto simp: inj_on_def demo_name_def)
  have fit: "ray_fits 5 args m" for m by (simp add: ray_fits_def a)
  have "\<exists>s' out. multi_run (ray_of host_start host_serve host_ids host_shutdown) args ''r'' (demo_ray_world demo_host) = (s', Returns out)
     \<and> (\<forall>rep. out = Some rep \<longrightarrow>
       length (mr_rows rep) = nat (da_requests args) \<and> mr_shutdown_ok rep
     \<and> (\<forall>i < length (mr_rows rep). dr_request_id (mr_rows rep ! i) = req_id i
          \<and> dr_worker_id (mr_rows rep ! i) = Some (demo_name (i mod 2)) \<and> dr_status (mr_rows rep ! i) = ''completed''
          \<and> wait_ns (fdiv_pos (service_for (int i) args) 1) \<le> dr_end_ns (mr_rows rep ! i) - dr_start_ns (mr_rows rep ! i))
     \<and> (\<forall>k < 2. map_of (mr_per_actor rep) (Some (demo_name k)) = Some (card {i. i < nat (da_requests args) \<and> i mod 2 = k})))"
    by (rule multi_run_rows [OF hosted.serial.bench_ray_axioms [where name = demo_name and n = 2 and limit = 5] a(1) start fit fit _ inj])
      (simp add: a)
  then obtain s' out where r: "multi_run host_ray args ''r'' (demo_ray_world demo_host) = (s', Returns out)"
     "\<And>rep. out = Some rep \<Longrightarrow> length (mr_rows rep) = 3 \<and> dr_worker_id (mr_rows rep ! 2) = Some (demo_name (2 mod 2))
        \<and> map_of (mr_per_actor rep) (Some (demo_name 1)) = Some (card {i. i < nat 3 \<and> i mod 2 = 1})"
    by (auto simp: host_ray_def a(2))
  have names: "demo_name (2 mod 2) = ''ray-0''" "demo_name 1 = ''ray-1''" "nat 3 = 3" by (simp_all add: demo_name_def)
  show ?thesis using a(1) r unfolding names by blast
qed

end
