(* ===== verification/BenchAnalyzeProps.thy ===== *)
theory BenchAnalyzeProps
  imports BenchAnalyze BenchRayProps
begin

text \<open>
  What a summary says of the rows: its counts and bounds, that the order of the file's lines does not
  matter, and that it reports a run of the Ray driver as that run went.
\<close>

text \<open>
  C29. \<open>summarize\<close>, of at least one row: no percentile lookup is out of range and no other exception is raised. Every
  row is counted once, the three counts sum to the number of rows exactly when no row has another status, the
  throughput is not negative, and, if a request completed, no percentile of \<open>total_ms\<close> is below its minimum.
\<close>

theorem summarize_sound:
  assumes "countable_rows rows"
  shows "\<exists>sm. summarize rows = Inr sm \<and> sm_num_requests sm = length rows
     \<and> sm_completed sm + sm_failed sm + sm_cancelled sm \<le> sm_num_requests sm
     \<and> (sm_completed sm + sm_failed sm + sm_cancelled sm = sm_num_requests sm
          \<longleftrightarrow> (\<forall>r \<in> set rows. dr_status r \<in> {''completed'', ''failed'', ''cancelled''}))
     \<and> Fin 0 \<le> sm_throughput sm
     \<and> (0 < sm_completed sm \<longrightarrow> (\<exists>a b c m. sm_total_ms sm = \<lparr>p50 = Some a, p90 = Some b, p99 = Some c\<rparr>
          \<and> sm_total_ms_min sm = Some m \<and> m \<le> a \<and> m \<le> b \<and> m \<le> c))"
proof -
  obtain sm where sm: "summarize rows = Inr sm" "sm_num_requests sm = length rows"
    "sm_completed sm = length (filter (\<lambda>r. dr_status r = ''completed'') rows)"
    "sm_failed sm = length (filter (\<lambda>r. dr_status r = ''failed'') rows)"
    "sm_cancelled sm = length (filter (\<lambda>r. dr_status r = ''cancelled'') rows)" "Fin 0 \<le> sm_throughput sm"
    "0 < sm_completed sm \<Longrightarrow> \<exists>a b c m. sm_total_ms sm = \<lparr>p50 = Some a, p90 = Some b, p99 = Some c\<rparr>
       \<and> sm_total_ms_min sm = Some m \<and> m \<le> a \<and> m \<le> b \<and> m \<le> c \<and> (\<forall>x. sm_total_ms_max sm = Some x \<longrightarrow> m \<le> x)"
    using summarize_ok [OF assms] by metis
  let ?n = "\<lambda>st rs. length (filter (\<lambda>r. dr_status r = st) rs)"
  have "?n ''completed'' rs + ?n ''failed'' rs + ?n ''cancelled'' rs \<le> length rs
     \<and> (?n ''completed'' rs + ?n ''failed'' rs + ?n ''cancelled'' rs = length rs
          \<longleftrightarrow> (\<forall>r \<in> set rs. dr_status r \<in> {''completed'', ''failed'', ''cancelled''}))" for rs
    by (induction rs) auto
  note parts = this [of rows, folded sm(2-5)]
  show ?thesis
    by (intro exI [of _ sm] conjI sm(1,2,6) parts [THEN conjunct1] parts [THEN conjunct2] impI) (drule sm(7), blast)
qed

definition demo_row :: "string \<Rightarrow> drow" where
  "demo_row st = \<lparr>dr_schema_version = ''1'', dr_run_id = ''r'', dr_backend = ''rayx'', dr_boundary = ''b'', dr_workload = ''w'',
     dr_request_id = req_id 0, dr_actor_id = ''a'', dr_worker_id = None, dr_status = st, dr_submit_ns = 5, dr_start_ns = 6,
     dr_end_ns = 7, dr_total_ms = Fin 3, dr_queue_wait_ms = Fin 1, dr_service_ms_observed = Fin 2, dr_service_ms_requested = Fin 2,
     dr_chunks = 1, dr_chunk_delay_ms = Fin 0, dr_work_mode = ''sleep'', dr_retire_mode = ''one_by_one'', dr_error = VNone\<rparr>"

lemma summarize_sound_witness:
  "\<exists>sm. summarize [demo_row ''completed'', demo_row ''odd''] = Inr sm \<and> sm_num_requests sm = 2
     \<and> sm_completed sm + sm_failed sm + sm_cancelled sm \<noteq> 2"
proof -
  have "b64_round 3 = Fin 3" using b64_int [of 3] by simp
  then have "countable_rows [demo_row ''completed'', demo_row ''odd'']"
    by (simp add: countable_rows_def demo_row_def moderate_def)
  from summarize_sound [OF this] show ?thesis by (fastforce simp: demo_row_def)
qed

subsection \<open>The order of the lines\<close>

lemma sort_mset: "mset (xs :: 'a :: linorder list) = mset ys \<Longrightarrow> sort xs = sort ys"
  by (intro properties_for_sort) simp_all

lemma throughput_mset:
  assumes "mset xs = mset ys"
  shows "throughput xs = throughput ys"
proof -
  have s: "set xs = set ys" "length xs = length ys" using mset_eq_setD [OF assms] mset_eq_length [OF assms] by auto
  show ?thesis
    using s by (auto simp: throughput_def row_ends_eq Let_def cong: if_cong)
qed

text \<open>
  The order of the lines in a file does not matter to its summary, as long as the first line names the same run, when
  no duration is a NaN (for which Python's own sort has no defined order).
\<close>

theorem summarize_order:
  assumes "mset rows' = mset rows"
    and "map (\<lambda>r. (dr_run_id r, dr_backend r, dr_boundary r, dr_workload r)) (take 1 rows')
       = map (\<lambda>r. (dr_run_id r, dr_backend r, dr_boundary r, dr_workload r)) (take 1 rows)"
    and "\<forall>r \<in> set rows. NaN \<notin> {dr_total_ms r, dr_queue_wait_ms r, dr_service_ms_observed r}"
  shows "summarize rows' = summarize rows"
proof (cases rows)
  case Nil
  then show ?thesis using assms(1) by simp
next
  case (Cons x xs)
  then obtain y ys where y: "rows' = y # ys" using assms(1) by (cases rows') auto
  let ?done = "filter (\<lambda>r. dr_status r = ''completed'')"
  have dn: "mset (?done rows') = mset (?done rows)" using assms(1) by simp
  have "length (filter P rows') = length (filter P rows)" for P
    using assms(1) by (metis mset_filter size_mset)
  moreover have "length rows' = length rows" using assms(1) by (rule mset_eq_length)
  moreover have "throughput (?done rows') = throughput (?done rows)" by (rule throughput_mset [OF dn])
  moreover have ps: "mset (map f (?done rows')) = mset (map f (?done rows))" for f :: "drow \<Rightarrow> pyfloat"
    using dn by (simp only: mset_map)
  have "pcts (map f (?done rows')) = pcts (map f (?done rows))" for f :: "drow \<Rightarrow> pyfloat"
    unfolding pcts_def sort_mset [OF ps] ..
  moreover have "set (map f (?done rows')) = set (map f (?done rows))" for f :: "drow \<Rightarrow> pyfloat"
    by (rule mset_eq_setD [OF ps])
  moreover have "map f (?done rows') = [] \<longleftrightarrow> map f (?done rows) = []" for f :: "drow \<Rightarrow> pyfloat"
    using mset_eq_length [OF ps [of f]] by (metis length_0_conv)
  ultimately have "summarize rows' = (case rows' of [] \<Rightarrow> Inl ValueError | first # _ \<Rightarrow> summarize rows)"
    using assms(2) unfolding y Cons summarize_def list.case Let_def by (simp only:) simp
  then show ?thesis by (simp add: y)
qed

lemma summarize_order_witness:
  "summarize [demo_row ''failed'', demo_row ''completed''] = summarize [demo_row ''completed'', demo_row ''failed'']"
  by (rule summarize_order) (simp_all add: demo_row_def)

subsection \<open>From a run to its summary\<close>

lemma stamps_moderate:
  assumes "stamp a" and "stamp b" and "ns_to_ms (b - a) = Inr t"
  shows "moderate t"
proof -
  have n: "\<bar>b - a\<bar> < 2 ^ 53" using assms(1,2) by (auto simp: stamp_def)
  then have t: "t = b64_round (of_int (b - a) / 1000000)"
    using assms(3) float_of_int_small [OF n] by (simp add: ns_to_ms_def)
  define x where "x = (of_int (b - a) / 1000000 :: rat)"
  have "\<bar>of_int (b - a)\<bar> < (of_int (2 ^ 53) :: rat)" using n by (simp only: of_int_abs [symmetric] of_int_less_iff)
  then have x: "of_int (- (2 ^ 52)) \<le> x" "x \<le> of_int (2 ^ 52)" by (auto simp: x_def abs_less_iff)
  have ends: "Fin (of_int (- (2 ^ 52))) = b64_round (of_int (- (2 ^ 52)))" "Fin (of_int (2 ^ 52)) = b64_round (of_int (2 ^ 52))"
    using b64_int [of "- (2 ^ 52)"] b64_int [of "2 ^ 52"] by simp_all
  obtain r where r: "b64_round x = Fin r" "of_int (- (2 ^ 52)) \<le> r" "r \<le> of_int (2 ^ 52)"
    by (rule round_between [OF ends x])
  have "\<bar>r\<bar> \<le> 2 ^ 990" using r(2,3) by (simp add: abs_le_iff)
  then show ?thesis using t r(1) b64_round_idem [OF r(1)] by (simp add: moderate_def x_def)
qed

text \<open>
  C30. The Ray baseline from command line to summary: for any Ray that keeps the contract, the rows of a run of at least one
  request can be summarised, and the summary says what the run did: every request completed, none failed or was cancelled,
  its name and the caveat of its boundary, and a minimum that no percentile of \<open>total_ms\<close> is below.
\<close>

theorem ray_run_summary:
  assumes ray: "bench_ray A ok asked (\<lambda>c. fst c < n \<and> serve_admits (snd c)) (\<lambda>c. synth_answers name (fst c) (snd c))
      limit hosts placed n name"
    and args: "ray_parse_args argv = Some args" and start: "hosts s Synthetic (nat (da_num_actors args))"
    and sleeps: "da_chunks args < 2 ^ 31" "sleepable (da_chunk_delay_ms args)"
      "\<And>i. \<exists>per. per_chunk_ms (service_for (int i) args) (da_chunks args) = Inr per \<and> sleepable per"
    and fit: "ray_fits limit args (nat (da_requests args))" "ray_fits limit args (nat (da_warmup_requests args))"
    and small: "da_wait_batch args < 2 ^ 31" "da_requests args \<le> 10 ^ 6"
    and workload: "ray_workload args = Inr workload"
    and some: "0 < da_requests args"
  shows "\<exists>s' rows sm. ray_run A args run_id s = (s', Returns rows) \<and> summarize rows = Inr sm
     \<and> int (sm_completed sm) = da_requests args \<and> sm_num_requests sm = sm_completed sm
     \<and> sm_failed sm = 0 \<and> sm_cancelled sm = 0 \<and> sm_run_id sm = run_id
     \<and> sm_notes sm = queue_wait_note ''ray-actor-process''
     \<and> (\<exists>a b c m. sm_total_ms sm = \<lparr>p50 = Some a, p90 = Some b, p99 = Some c\<rparr> \<and> sm_total_ms_min sm = Some m
          \<and> m \<le> a \<and> m \<le> b \<and> m \<le> c)"
proof -
  let ?row = "ray_row (\<lambda>c. synth_answers name (fst c) (snd c)) args (nat (da_num_actors args)) (\<lambda>_. None)
        (ray_make_record args run_id workload (da_retire_mode args))"
  obtain s' rows where r: "ray_run A args run_id s = (s', Returns rows)" "list_all2 ?row [0..<nat (da_requests args)] rows"
    by (rule ray_run_served [OF ray args start sleeps fit small workload])
  have fields: "dr_status rec = ''completed'' \<and> dr_run_id rec = run_id \<and> dr_boundary rec = ''ray-actor-process''
      \<and> stamp (dr_submit_ns rec) \<and> moderate (dr_total_ms rec)" if "?row i rec" for i rec
    using that stamps_moderate by (auto simp: ray_row_def ray_make_record_def rbind_eq_Inr synth_answers_def serve_answers_def)
  have len: "length rows = nat (da_requests args)" using list_all2_lengthD [OF r(2)] by simp
  have all: "dr_status rec = ''completed'' \<and> dr_run_id rec = run_id \<and> dr_boundary rec = ''ray-actor-process''
      \<and> stamp (dr_submit_ns rec) \<and> moderate (dr_total_ms rec)" if "rec \<in> set rows" for rec
    using that r(2) fields by (auto simp: list_all2_conv_all_nth in_set_conv_nth)
  have ne: "rows \<noteq> []" using len some by auto
  have cr: "countable_rows rows" using ne len small(2) all by (auto simp: countable_rows_def stamp_def)
  obtain sm where sm: "summarize rows = Inr sm" "sm_num_requests sm = length rows"
    "sm_completed sm = length (filter (\<lambda>r. dr_status r = ''completed'') rows)"
    "sm_failed sm = length (filter (\<lambda>r. dr_status r = ''failed'') rows)"
    "sm_cancelled sm = length (filter (\<lambda>r. dr_status r = ''cancelled'') rows)"
    "sm_run_id sm = dr_run_id (hd rows)" "sm_notes sm = queue_wait_note (dr_boundary (hd rows))"
    "0 < sm_completed sm \<Longrightarrow> \<exists>a b c m. sm_total_ms sm = \<lparr>p50 = Some a, p90 = Some b, p99 = Some c\<rparr>
       \<and> sm_total_ms_min sm = Some m \<and> m \<le> a \<and> m \<le> b \<and> m \<le> c \<and> (\<forall>x. sm_total_ms_max sm = Some x \<longrightarrow> m \<le> x)"
    using summarize_ok [OF cr] by metis
  have parts: "filter (\<lambda>r. dr_status r = ''completed'') rows = rows" "filter (\<lambda>r. dr_status r = ''failed'') rows = []"
      "filter (\<lambda>r. dr_status r = ''cancelled'') rows = []" "dr_run_id (hd rows) = run_id" "dr_boundary (hd rows) = ''ray-actor-process''"
    using all ne by (auto simp: filter_id_conv filter_empty_conv)
  have "0 < sm_completed sm" using sm(3) parts(1) ne by simp
  then show ?thesis
    using r(1) sm(1-7) sm(8) len some unfolding parts by fastforce
qed

lemma ray_run_summary_witness:
  "\<exists>args s' rows sm. ray_parse_args ray_demo_argv = Some args
     \<and> ray_run (synth_ray (\<lambda>_. ''error'')) args ''r'' (demo_ray_world demo_server) = (s', Returns rows)
     \<and> summarize rows = Inr sm \<and> sm_completed sm = 3"
proof -
  obtain args where a: "ray_parse_args ray_demo_argv = Some args" "da_requests args = 3" "da_concurrency args = 2"
      "da_num_actors args = 2" "da_chunks args = 1" "da_chunk_delay_ms args = Fin 0" "sa_service_ms args = Fin 0"
      "sa_pattern args = ''fixed''" "da_wait_batch args = 8" "da_warmup_requests args = 0"
      "da_retire_mode args = ''one_by_one''" "ray_workload args = Inr ''noop_c2_a2''"
    using ray_demo_parse by blast
  have "\<exists>s' rows sm. ray_run (ray_of synth_start (synth_serve (\<lambda>_. ''error'')) synth_ids (io_ret True)) args ''r''
       (demo_ray_world demo_server) = (s', Returns rows) \<and> summarize rows = Inr sm
     \<and> int (sm_completed sm) = da_requests args \<and> sm_num_requests sm = sm_completed sm
     \<and> sm_failed sm = 0 \<and> sm_cancelled sm = 0 \<and> sm_run_id sm = ''r''
     \<and> sm_notes sm = queue_wait_note ''ray-actor-process''
     \<and> (\<exists>a b c m. sm_total_ms sm = \<lparr>p50 = Some a, p90 = Some b, p99 = Some c\<rparr> \<and> sm_total_ms_min sm = Some m
          \<and> m \<le> a \<and> m \<le> b \<and> m \<le> c)"
    by (rule ray_run_summary [OF synth.serial.bench_ray_axioms [where name = demo_name and n = 2 and
        repr = "\<lambda>_. ''error''" and limit = 5] a(1)])
      (use ray_demo_start ray_demo_sleeps [of args] a in \<open>simp_all add: ray_fits_def\<close>)
  then show ?thesis using a(1,2) unfolding synth_ray_def by fastforce
qed

end
