(* ===== verification/PyFloat32.thy ===== *)
theory PyFloat32
  imports PyFloatOrder PyFloatScale PyValue "HOL-Library.Word"
begin

text \<open>
  IEEE 754 binary32: the bit pattern of a value, as \<open>struct.pack("<f", x)\<close> and a C++ \<open>float\<close> have it, and the
  value of a bit pattern.
\<close>

text \<open>The pattern of a positive rational, sign bit clear, rounded to nearest even. A carry out of the
  significand moves into the exponent by itself.\<close>

definition f32_mag_bits :: "rat \<Rightarrow> int" where
  "f32_mag_bits a = (let e = max (- 126) (ilog2 a); m = round_half_even (a / pow2 (e - 23)) in
     if m < 2 ^ 23 then m else (e + 127) * 2 ^ 23 + (m - 2 ^ 23))"

definition f32_inf :: int where
  "f32_inf = 255 * 2 ^ 23"

text \<open>\<open>struct.unpack("<I", struct.pack("<f", x))[0]\<close>: a finite value too large for a \<open>float\<close> is an \<open>OverflowError\<close>.\<close>

definition f32_pack :: "pyfloat \<Rightarrow> int py" where
  "f32_pack x = (case x of
       Fin q \<Rightarrow> if q = 0 then Inr 0
         else if f32_inf \<le> f32_mag_bits \<bar>q\<bar> then Inl OverflowError
         else Inr (f32_mag_bits \<bar>q\<bar> + (if q < 0 then 2 ^ 31 else 0))
     | PInf \<Rightarrow> Inr f32_inf | NInf \<Rightarrow> Inr (2 ^ 31 + f32_inf) | NaN \<Rightarrow> Inr (f32_inf + 2 ^ 22))"

text \<open>The value of a pattern; the two zeros are one value.\<close>

definition f32_value :: "int \<Rightarrow> pyfloat" where
  "f32_value bits = (let s = bits div 2 ^ 31; e = bits div 2 ^ 23 mod 256; m = bits mod 2 ^ 23;
       v = (if e = 0 then of_int m * pow2 (- 149) else of_int (2 ^ 23 + m) * pow2 (e - 150))
     in if e = 255 then (if m \<noteq> 0 then NaN else if s = 0 then PInf else NInf)
        else Fin (if s = 0 then v else - v))"

text \<open>\<open>struct.unpack("<f", struct.pack("<I", bits))[0]\<close>.\<close>

definition f32_unpack :: "int \<Rightarrow> pyfloat py" where
  "f32_unpack bits = (if 0 \<le> bits \<and> bits < 2 ^ 32 then Inr (f32_value bits) else Inl StructError)"

text \<open>A C++ \<open>float\<close> with an exactly representable or rounded value, by its bits.\<close>

definition float32 :: "rat \<Rightarrow> 32 word" where
  "float32 q = (if q = 0 then 0
     else word_of_int (min f32_inf (f32_mag_bits \<bar>q\<bar>) + (if q < 0 then 2 ^ 31 else 0)))"

definition float32_value :: "32 word \<Rightarrow> pyfloat" where
  "float32_value w = f32_value (uint w)"

subsection \<open>Exact values\<close>

lemma f32_mag_nonneg: "0 \<le> a \<Longrightarrow> 0 \<le> f32_mag_bits a"
proof -
  assume "0 \<le> a"
  then have "0 \<le> round_half_even (a / pow2 k)" for k by (intro round_half_even_nonneg) (simp add: divide_nonneg_pos)
  then show ?thesis by (auto simp: f32_mag_bits_def Let_def not_less)
qed

text \<open>A positive value with at most 24 significant bits in the normal range has the pattern of itself.\<close>

lemma f32_exact:
  assumes a: "0 < a" and e: "- 126 \<le> ilog2 a" "ilog2 a \<le> 127" and m: "a / pow2 (ilog2 a - 23) = of_int m"
  shows "f32_mag_bits a < f32_inf" "f32_value (f32_mag_bits a) = Fin a" "f32_value (f32_mag_bits a + 2 ^ 31) = Fin (- a)"
proof -
  let ?e = "ilog2 a"
  have two: "pow2 23 = of_int (2 ^ 23)" "pow2 24 = of_int (2 ^ 24)" by (simp_all add: pow2_def)
  have am: "a = of_int m * pow2 (?e - 23)" using m by (simp add: field_simps)
  have "pow2 23 * pow2 (?e - 23) \<le> of_int m * pow2 (?e - 23)" "of_int m * pow2 (?e - 23) < pow2 24 * pow2 (?e - 23)"
    using ilog2_bounds [OF a] by (simp_all add: am [symmetric] pow2_add [symmetric] add.commute)
  then have "of_int (2 ^ 23) \<le> (of_int m :: rat)" "(of_int m :: rat) < of_int (2 ^ 24)"
    unfolding two by (simp_all only: mult_le_cancel_right_pos mult_less_cancel_right_pos pow2_pos)
  then have m': "2 ^ 23 \<le> m" "m < 2 ^ 24" by (simp_all only: of_int_le_iff of_int_less_iff)
  have bits: "f32_mag_bits a = (?e + 127) * 2 ^ 23 + (m - 2 ^ 23)"
    using e m m' by (simp add: f32_mag_bits_def Let_def max_absorb2)
  have split: "(k * 2 ^ 23 + r) div 2 ^ 23 = k \<and> (k * 2 ^ 23 + r) mod 2 ^ 23 = r" if "0 \<le> r" "r < 2 ^ 23" for k r :: int
    using that by simp
  have d: "f32_mag_bits a div 2 ^ 23 = ?e + 127" "f32_mag_bits a mod 2 ^ 23 = m - 2 ^ 23"
    unfolding bits using split [of "m - 2 ^ 23" "?e + 127"] m' by simp_all
  show lt: "f32_mag_bits a < f32_inf" using e m' by (simp add: bits f32_inf_def)
  have nn: "0 \<le> f32_mag_bits a" using a by (simp add: f32_mag_nonneg)
  have s: "f32_mag_bits a div 2 ^ 31 = 0" using lt nn by (simp add: f32_inf_def)
  show "f32_value (f32_mag_bits a) = Fin a"
    using e s d by (simp add: f32_value_def Let_def am [symmetric])
  have d': "(f32_mag_bits a + 2 ^ 31) div 2 ^ 23 = ?e + 127 + 256" "(f32_mag_bits a + 2 ^ 31) mod 2 ^ 23 = m - 2 ^ 23"
    "(f32_mag_bits a + 2 ^ 31) div 2 ^ 31 = 1"
    using d s div_mult_self2 [of "2 ^ 23" "f32_mag_bits a" 256] mod_mult_self2 [of "f32_mag_bits a" "2 ^ 23" 256] by simp_all
  show "f32_value (f32_mag_bits a + 2 ^ 31) = Fin (- a)"
  proof -
    have "(?e + 127 + 256) mod 256 = ?e + 127" using e by (simp only: mod_add_self2) simp
    then show ?thesis using e d' by (simp add: f32_value_def Let_def am [symmetric])
  qed
qed

text \<open>Multiples of an eighth below 128 in magnitude: exact as a double and as a float.\<close>

lemma eighths:
  assumes n: "0 < n" "n < 1024"
  shows "b64_mag (of_int n / 8) = of_int n / 8" "- 126 \<le> ilog2 (of_int n / 8)" "ilog2 (of_int n / 8) \<le> 127"
    "\<exists>m. of_int n / 8 / pow2 (ilog2 (of_int n / 8) - 23) = of_int m"
proof -
  have n8: "of_int n / 8 = of_int n * pow2 (- 3)" by (simp add: pow2_def)
  have lo: "0 \<le> ilog2 (of_int n)"
  proof (rule ccontr)
    assume "\<not> 0 \<le> ilog2 (of_int n)"
    then have "pow2 (ilog2 (of_int n) + 1) \<le> pow2 0" by (intro pow2_le) simp
    then have "(of_int n :: rat) < 1" using ilog2_bounds [of "of_int n"] n by (simp add: pow2_def [of 0])
    then show False using n by simp
  qed
  have hi: "ilog2 (of_int n) < 10"
  proof (rule ccontr)
    assume "\<not> ilog2 (of_int n) < 10"
    then have "pow2 10 \<le> pow2 (ilog2 (of_int n))" by (intro pow2_le) simp
    then have "of_int 1024 \<le> (of_int n :: rat)" using ilog2_bounds [of "of_int n"] n by (simp add: pow2_def [of 10])
    then show False using n by (simp only: of_int_le_iff)
  qed
  have l: "ilog2 (of_int n / 8) = ilog2 (of_int n) - 3" using ilog2_scale [of "of_int n" "- 3"] n by (simp add: n8)
  show "- 126 \<le> ilog2 (of_int n / 8)" "ilog2 (of_int n / 8) \<le> 127" using lo hi l by simp_all
  show "b64_mag (of_int n / 8) = of_int n / 8"
    using b64_mag_scale [of "of_int n" "- 3"] b64_mag_small_int [of n] n lo by (simp add: n8)
  have "pow2 (- 3) = pow2 (23 - ilog2 (of_int n)) * pow2 (ilog2 (of_int n) - 26)"
    by (simp flip: pow2_add)
  then have "of_int n * pow2 (- 3) / pow2 (ilog2 (of_int n) - 26) = of_int n * pow2 (23 - ilog2 (of_int n))"
    by (simp only:) simp
  then have "of_int n / 8 / pow2 (ilog2 (of_int n / 8) - 23) = of_int n * pow2 (23 - ilog2 (of_int n))"
    unfolding l unfolding n8 by simp
  also have "\<dots> = of_int (n * 2 ^ nat (23 - ilog2 (of_int n)))" using hi by (simp add: pow2_def)
  finally show "\<exists>m. of_int n / 8 / pow2 (ilog2 (of_int n / 8) - 23) = of_int m" by blast
qed

end
