(* ===== verification/ExpTopk.thy ===== *)
theory ExpTopk
  imports PyFloat32 "HOL-Library.Product_Lexorder" "HOL-Library.Multiset"
begin

text \<open>
  The distributed top-k of \<open>experiments/68_vocab_sharded_topk\<close>: the deterministic logits, the total order of
  candidates, the shard-local selection and the merge in C++ (\<open>shared_topk.hpp\<close>), and the oracle they are checked
  against in Python (\<open>run_exp68.py\<close>).
\<close>

subsection \<open>The oracle\<close>

definition grid_value :: "int \<Rightarrow> int \<Rightarrow> int" where
  "grid_value token_id seed =
     (let h = (token_id * 2654435761) mod 2 ^ 32;
          h = (h + (seed * 40503) mod 2 ^ 32) mod 2 ^ 32
      in h mod 131 - 65)"

text \<open>\<open>grid / 8.0\<close> is exact; the pattern of its float never overflows.\<close>

definition logit_bits :: "int \<Rightarrow> int \<Rightarrow> int py" where
  "logit_bits token_id seed = f32_pack (fdiv_pos (Fin (of_int (grid_value token_id seed))) 8)"

type_synonym cand = "int \<times> int"

text \<open>\<open>key=lambda c: (-f32(c[1]), c[0])\<close>.\<close>

definition cand_key :: "cand \<Rightarrow> pyfloat \<times> int" where
  "cand_key c = (fneg (f32_value (snd c)), fst c)"

fun oracle_cands :: "int list \<Rightarrow> int \<Rightarrow> cand list py" where
  "oracle_cands [] seed = Inr []"
| "oracle_cands (t # ts) seed = rbind (logit_bits t seed) (\<lambda>b. rbind (oracle_cands ts seed) (\<lambda>cs. Inr ((t, b) # cs)))"

text \<open>\<open>cand[:k]\<close>: a negative \<open>k\<close> counts from the end.\<close>

definition py_prefix :: "int \<Rightarrow> 'a list \<Rightarrow> 'a list" where
  "py_prefix k xs = take (nat (if k < 0 then max 0 (k + int (length xs)) else k)) xs"

definition oracle_topk :: "int \<Rightarrow> int \<Rightarrow> int \<Rightarrow> int \<Rightarrow> cand list py" where
  "oracle_topk lo hi seed k = rbind (oracle_cands [lo..hi - 1] seed) (\<lambda>cs. Inr (py_prefix k (sort_key cand_key cs)))"

text \<open>Adjacent candidates in order; an impossible pattern is an exception of \<open>struct\<close>.\<close>

fun is_sorted_total_order :: "cand list \<Rightarrow> bool py" where
  "is_sorted_total_order (c0 # c1 # cs) =
     rbind (f32_unpack (snd c0)) (\<lambda>l0. rbind (f32_unpack (snd c1)) (\<lambda>l1.
       if flt l0 l1 then Inr False
       else if l0 = l1 \<and> l0 \<noteq> NaN \<and> fst c1 \<le> fst c0 then Inr False
       else is_sorted_total_order (c1 # cs)))"
| "is_sorted_total_order _ = Inr True"

subsection \<open>The native selection\<close>

definition grid_value_native :: "64 word \<Rightarrow> 64 word \<Rightarrow> int" where
  "grid_value_native token_id seed =
     (let h = (ucast token_id :: 32 word) * 2654435761 + ucast seed * 40503 in uint (h mod 131) - 65)"

definition logit_bits_native :: "64 word \<Rightarrow> 64 word \<Rightarrow> 32 word" where
  "logit_bits_native token_id seed = float32 (of_int (grid_value_native token_id seed) / 8)"

type_synonym ncand = "64 word \<times> 32 word"

definition better :: "ncand \<Rightarrow> ncand \<Rightarrow> bool" where
  "better a b = (let la = float32_value (snd a); lb = float32_value (snd b) in
     if \<not> (la = lb \<and> la \<noteq> NaN) then flt lb la else fst a <s fst b)"

text \<open>\<open>std::stable_sort\<close> with a strict weak order: an element goes before the first it is not after.\<close>

fun insert_by :: "('a \<Rightarrow> 'a \<Rightarrow> bool) \<Rightarrow> 'a \<Rightarrow> 'a list \<Rightarrow> 'a list" where
  "insert_by before x [] = [x]"
| "insert_by before x (y # ys) = (if before y x then y # insert_by before x ys else x # y # ys)"

definition stable_sort :: "('a \<Rightarrow> 'a \<Rightarrow> bool) \<Rightarrow> 'a list \<Rightarrow> 'a list" where
  "stable_sort before xs = foldr (insert_by before) xs []"

text \<open>
  \<open>static_cast<int>(all.size())\<close> keeps the low 32 bits of the size. \<open>max_size()\<close> of a vector of 16-byte pairs
  is \<open>2 ^ 59 - 1\<close>; a \<open>reserve\<close>, \<open>insert\<close> or \<open>resize\<close> beyond it throws \<open>std::length_error\<close>, a \<open>ValueError\<close> in
  Python. That memory runs out before is not modelled.
\<close>

definition size_as_int :: "'a list \<Rightarrow> int" where
  "size_as_int xs = signed_take_bit 31 (int (length xs))"

definition cand_max_size :: int where
  "cand_max_size = 2 ^ 59 - 1"

text \<open>\<open>if (static_cast<int>(size) > k) resize(k)\<close>: a negative \<open>k\<close> is converted to a length no vector can have.\<close>

definition first_k :: "int \<Rightarrow> 'a list \<Rightarrow> 'a list py" where
  "first_k k xs = (if k < size_as_int xs then if k < 0 then Inl ValueError else Inr (take (nat k) xs) else Inr xs)"

text \<open>The \<open>reserve(hi - lo)\<close> comes first; where \<open>hi - lo\<close> leaves 64 bits, its \<open>size_t\<close> is over the limit too.\<close>

definition local_topk :: "64 word \<Rightarrow> 64 word \<Rightarrow> 64 word \<Rightarrow> int \<Rightarrow> ncand list py" where
  "local_topk lo hi seed k =
     (if cand_max_size < sint hi - sint lo then Inl ValueError
      else first_k k (stable_sort better
        (map (\<lambda>t. (word_of_int t, logit_bits_native (word_of_int t) seed)) [sint lo..sint hi - 1])))"

definition merge_topk :: "ncand list \<Rightarrow> ncand list \<Rightarrow> int \<Rightarrow> ncand list py" where
  "merge_topk a b k =
     (if cand_max_size < int (length a) + int (length b) then Inl ValueError
      else first_k k (stable_sort better (a @ b)))"

subsection \<open>Both sides compute the same logits\<close>

lemma grid_range: "- 65 \<le> grid_value t s \<and> grid_value t s \<le> 65"
  using pos_mod_bound [of 131 "((t * 2654435761) mod 2 ^ 32 + (s * 40503) mod 2 ^ 32) mod 2 ^ 32"]
  by (simp add: grid_value_def Let_def)

lemma grid_value_mod: "grid_value t s = (t * 2654435761 + s * 40503) mod 2 ^ 32 mod 131 - 65"
  by (simp add: grid_value_def Let_def mod_add_eq)

lemma grid_values_agree: "grid_value_native t s = grid_value (sint t) (sint s)"
proof -
  have u: "uint (ucast w :: 32 word) = sint w mod 2 ^ 32" for w :: "64 word"
  proof -
    have "uint (ucast w :: 32 word) = take_bit 32 (uint w)" by (simp add: unsigned_ucast_eq)
    also have "uint w = take_bit 64 (sint w)" using uint_sint [of w] by simp
    also have "take_bit 32 (take_bit 64 (sint w)) = take_bit 32 (sint w)" by simp
    also have "take_bit 32 (sint w) = sint w mod 2 ^ 32" by (rule take_bit_eq_mod)
    finally show ?thesis .
  qed
  show ?thesis
    by (simp add: grid_value_native_def grid_value_mod Let_def uint_mod uint_word_ariths u mod_simps)
qed

text \<open>The pattern of \<open>g / 8\<close> for a grid value.\<close>

definition grid_pattern :: "int \<Rightarrow> int" where
  "grid_pattern g = (if g = 0 then 0 else f32_mag_bits \<bar>of_int g / 8\<bar> + (if g < 0 then 2 ^ 31 else 0))"

lemma grid_eighth:
  assumes "\<bar>g\<bar> \<le> 65"
  shows "b64_round (of_int g / 8) = Fin (of_int g / 8)"
proof (cases "g = 0")
  case False
  let ?x = "of_int g / 8 :: rat"
  have a: "\<bar>?x\<bar> = of_int \<bar>g\<bar> / 8" by simp
  have m: "b64_mag \<bar>?x\<bar> = \<bar>?x\<bar>" using eighths(1) [of "\<bar>g\<bar>"] False assms unfolding a by simp
  have "\<bar>?x\<bar> < 2 ^ 1024" using assms by (simp add: divide_less_eq flip: of_int_abs)
  moreover have "?x \<noteq> 0" "sgn ?x * \<bar>?x\<bar> = ?x" using False by (simp_all add: sgn_mult_abs)
  ultimately show ?thesis unfolding b64_round_def m by simp
qed simp

lemma grid_pattern_sound:
  assumes g: "\<bar>g\<bar> \<le> 65"
  shows "f32_value (grid_pattern g) = Fin (of_int g / 8)" "0 \<le> grid_pattern g" "grid_pattern g < 2 ^ 32"
    "f32_pack (fdiv_pos (Fin (of_int g)) 8) = Inr (grid_pattern g)" "uint (float32 (of_int g / 8)) = grid_pattern g"
proof -
  consider (zero) "g = 0" | (nonzero) "g \<noteq> 0" by blast
  then have "f32_value (grid_pattern g) = Fin (of_int g / 8) \<and> 0 \<le> grid_pattern g \<and> grid_pattern g < 2 ^ 32
    \<and> f32_pack (fdiv_pos (Fin (of_int g)) 8) = Inr (grid_pattern g) \<and> uint (float32 (of_int g / 8)) = grid_pattern g"
  proof cases
    case zero
    then show ?thesis by (simp add: grid_pattern_def f32_value_def Let_def f32_pack_def float32_def)
  next
    case nonzero
    let ?a = "\<bar>of_int g / 8\<bar> :: rat"
    have n: "?a = of_int \<bar>g\<bar> / 8" "0 < ?a" using nonzero by simp_all
    from nonzero g have n': "0 < \<bar>g\<bar>" "\<bar>g\<bar> < 1024" by simp_all
    obtain m where m: "?a / pow2 (ilog2 ?a - 23) = of_int m" using eighths(4) [OF n'] unfolding n(1) by blast
    define M where "M = f32_mag_bits ?a"
    note ex = f32_exact [OF n(2) eighths(2) [OF n', folded n(1)] eighths(3) [OF n', folded n(1)] m, folded M_def]
    have M: "0 \<le> M" "M < f32_inf" "f32_inf < 2 ^ 31" using ex(1) by (simp_all add: M_def f32_mag_nonneg f32_inf_def)
    have pat: "grid_pattern g = M + (if g < 0 then 2 ^ 31 else 0)" using nonzero by (simp only: grid_pattern_def M_def if_False)
    have v: "f32_value (grid_pattern g) = Fin (of_int g / 8)"
      using ex by (cases "g < 0") (simp_all add: pat)
    have b: "0 \<le> grid_pattern g" "grid_pattern g < 2 ^ 32" using M by (simp_all add: pat)
    have q: "(of_int g / 8 :: rat) \<noteq> 0" "(of_int g / 8 :: rat) < 0 \<longleftrightarrow> g < 0" using nonzero by (simp_all add: divide_less_0_iff)
    have pk: "f32_pack (fdiv_pos (Fin (of_int g)) 8) = Inr (grid_pattern g)"
      unfolding f32_pack_def fdiv_pos.simps grid_eighth [OF g] pyfloat.case M_def [symmetric] pat q(2) using q(1) M by simp
    have "float32 (of_int g / 8) = word_of_int (grid_pattern g)"
      unfolding float32_def M_def [symmetric] pat q(2) using q(1) M by simp
    then have w: "uint (float32 (of_int g / 8)) = grid_pattern g" using b by (simp add: uint_word_of_int)
    show ?thesis using v b pk w by blast
  qed
  then show "f32_value (grid_pattern g) = Fin (of_int g / 8)" "0 \<le> grid_pattern g" "grid_pattern g < 2 ^ 32"
    "f32_pack (fdiv_pos (Fin (of_int g)) 8) = Inr (grid_pattern g)" "uint (float32 (of_int g / 8)) = grid_pattern g" by blast+
qed

lemma grid_abs: "\<bar>grid_value t s\<bar> \<le> 65"
  using grid_range [of t s] by (simp add: abs_le_iff)

lemma oracle_cands_eq: "oracle_cands ts s = Inr (map (\<lambda>t. (t, grid_pattern (grid_value t s))) ts)"
  by (induction ts) (simp_all only: oracle_cands.simps logit_bits_def grid_pattern_sound(4) [OF grid_abs] rbind_Inr list.map)

subsection \<open>Selection by a key\<close>

text \<open>Inserting and sorting with a comparison that agrees with a key is the library's insertion and sorting by that key.\<close>

lemma insert_by_key:
  "(\<And>y. y \<in> set ys \<Longrightarrow> before y x \<longleftrightarrow> f y < f x) \<Longrightarrow> insert_by before x ys = insort_key f x ys"
  by (induction ys) (auto simp: not_le)

lemma stable_sort_key:
  "(\<And>a b. a \<in> set xs \<Longrightarrow> b \<in> set xs \<Longrightarrow> before a b \<longleftrightarrow> f a < f b) \<Longrightarrow> stable_sort before xs = sort_key f xs"
proof (induction xs)
  case (Cons x xs)
  then have "stable_sort before xs = sort_key f xs" by simp
  then show ?case using Cons.prems insert_by_key [of "sort_key f xs" before x f] by (simp add: stable_sort_def)
qed (simp add: stable_sort_def)

lemma sort_key_map: "sort_key f (map g xs) = map g (sort_key (\<lambda>x. f (g x)) xs)"
proof (induction xs)
  case (Cons x xs)
  have "insort_key f (g x) (map g ys) = map g (insort_key (\<lambda>x. f (g x)) x ys)" for ys by (induction ys) simp_all
  then show ?case using Cons by simp
qed simp

text \<open>Only the first \<open>k\<close> elements of the list matter for the first \<open>k\<close> after an insertion.\<close>

lemma take_insort_key: "take k (insort_key f x ys) = take k (insort_key f x (take k ys))"
proof (induction ys arbitrary: k)
  case (Cons y ys)
  then show ?case by (cases k) (simp_all add: take_Cons' split: nat.split)
qed simp

lemma take_sort_append: "take k (sort_key f (xs @ ys)) = take k (sort_key f (xs @ take k (sort_key f ys)))"
proof (induction xs)
  case Nil
  have "sorted (map f (take k (sort_key f ys)))" by (simp add: take_map [symmetric] sorted_wrt_take)
  then show ?case by (simp add: sort_key_id_if_sorted)
next
  case (Cons x xs)
  then show ?case
    using take_insort_key [of k f x "sort_key f (xs @ ys)"] take_insort_key [of k f x "sort_key f (xs @ take k (sort_key f ys))"]
    by simp
qed

lemma sort_key_append_commute: "inj_on f (set (xs @ ys)) \<Longrightarrow> sort_key f (xs @ ys) = sort_key f (ys @ xs)"
  by (rule sort_key_inj_key_eq) auto

text \<open>The first \<open>k\<close> of the whole are the first \<open>k\<close> of what the parts keep.\<close>

theorem take_sort_merge:
  assumes inj: "inj_on f (set (xs @ ys))"
  shows "take k (sort_key f (take k (sort_key f xs) @ take k (sort_key f ys))) = take k (sort_key f (xs @ ys))"
proof -
  let ?xs = "take k (sort_key f xs)" and ?ys = "take k (sort_key f ys)"
  have "set ?xs \<subseteq> set xs" "set ?ys \<subseteq> set ys" using set_take_subset [of k] by (metis set_sort)+
  then have "set (?xs @ ys) \<subseteq> set (xs @ ys)" by auto
  then have sub: "inj_on f (set (?xs @ ys))" "inj_on f (set (ys @ xs))"
    using inj inj_on_subset by (blast, simp add: Un_commute)
  have "take k (sort_key f (?xs @ ?ys)) = take k (sort_key f (ys @ ?xs))"
    using take_sort_append [of k f ?xs ys] sort_key_append_commute [OF sub(1)] by simp
  also have "\<dots> = take k (sort_key f (xs @ ys))"
    using take_sort_append [of k f ys xs] sort_key_append_commute [OF sub(2)] by simp
  finally show ?thesis .
qed

text \<open>What the first \<open>k\<close> of a list sorted by an injective key are.\<close>

lemma take_sort_best:
  assumes inj: "inj_on f (set xs)" and d: "distinct xs"
  shows "sorted_wrt (\<lambda>a b. f a < f b) (take k (sort_key f xs))"
    "\<forall>a \<in> set (take k (sort_key f xs)). \<forall>b \<in> set xs - set (take k (sort_key f xs)). f a < f b"
proof -
  let ?s = "sort_key f xs"
  have "sorted_wrt (<) (map f ?s)"
    using inj d by (simp add: strict_sorted_iff distinct_map)
  then have s: "sorted_wrt (\<lambda>a b. f a < f b) ?s" by (simp add: sorted_wrt_map)
  then show "sorted_wrt (\<lambda>a b. f a < f b) (take k ?s)" by (rule sorted_wrt_take)
  from s have "sorted_wrt (\<lambda>a b. f a < f b) (take k ?s @ drop k ?s)" by simp
  then have "\<forall>a \<in> set (take k ?s). \<forall>b \<in> set (drop k ?s). f a < f b" unfolding sorted_wrt_append by blast
  moreover have "set xs - set (take k ?s) \<subseteq> set (drop k ?s)"
    using set_append [of "take k ?s" "drop k ?s"] by auto
  ultimately show "\<forall>a \<in> set (take k ?s). \<forall>b \<in> set xs - set (take k ?s). f a < f b" by blast
qed

subsection \<open>The native selection is the oracle's\<close>

definition cand_of :: "ncand \<Rightarrow> cand" where
  "cand_of c = (sint (fst c), uint (snd c))"

text \<open>The candidates of a shard, as \<open>local_topk\<close> generates them.\<close>

definition shard_cands :: "64 word \<Rightarrow> 64 word \<Rightarrow> 64 word \<Rightarrow> ncand list" where
  "shard_cands lo hi seed = map (\<lambda>t. (word_of_int t, logit_bits_native (word_of_int t) seed)) [sint lo..sint hi - 1]"

lemma sint_between:
  assumes "t \<in> set [sint (lo :: 64 word)..sint (hi :: 64 word) - 1]"
  shows "sint (word_of_int t :: 64 word) = t"
  using assms sint_greater_eq [of lo] sint_less [of hi] by (simp add: sint_sbintrunc' signed_take_bit_int_eq_self)

lemma logit_native: "uint (logit_bits_native t s) = grid_pattern (grid_value (sint t) (sint s))"
  by (simp add: logit_bits_native_def grid_values_agree grid_pattern_sound(5) [OF grid_abs])

lemma cands_agree:
  "map cand_of (shard_cands lo hi seed) = map (\<lambda>t. (t, grid_pattern (grid_value t (sint seed)))) [sint lo..sint hi - 1]"
  using sint_between [of _ lo hi] by (simp add: shard_cands_def cand_of_def logit_native)

lemma cand_key_inj: "inj_on cand_key (set (map (\<lambda>t. (t, f t)) ts))"
  by (auto simp: inj_on_def cand_key_def)

lemma shard_key_inj: "inj_on (\<lambda>c. cand_key (cand_of c)) (set (shard_cands lo hi seed))"
  using sint_between [of _ lo hi] by (auto simp: inj_on_def shard_cands_def cand_key_def cand_of_def)

lemma shard_finite: "c \<in> set (shard_cands lo hi seed) \<Longrightarrow> \<exists>q. float32_value (snd c) = Fin q"
  unfolding shard_cands_def float32_value_def set_map
  by (elim imageE, rule exI) (simp only: snd_conv logit_native grid_pattern_sound(1) [OF grid_abs])

lemma better_key:
  "float32_value (snd a) = Fin p \<Longrightarrow> float32_value (snd b) = Fin q
    \<Longrightarrow> better a b \<longleftrightarrow> cand_key (cand_of a) < cand_key (cand_of b)"
  by (auto simp: better_def cand_key_def cand_of_def float32_value_def Let_def word_sless_alt less_prod_def less_pyfloat_def)

lemma stable_sort_shards:
  assumes "set cs \<subseteq> set (shard_cands lo hi seed) \<union> set (shard_cands lo' hi' seed)"
  shows "stable_sort better cs = sort_key (\<lambda>c. cand_key (cand_of c)) cs"
proof (rule stable_sort_key)
  fix a b assume "a \<in> set cs" "b \<in> set cs"
  then obtain p q where "float32_value (snd a) = Fin p" "float32_value (snd b) = Fin q"
    using assms shard_finite by blast
  then show "better a b \<longleftrightarrow> cand_key (cand_of a) < cand_key (cand_of b)" by (rule better_key)
qed

lemma size_as_int_small: "int (length xs) < 2 ^ 31 \<Longrightarrow> size_as_int xs = int (length xs)"
  unfolding size_as_int_def by (rule signed_take_bit_int_eq_self) simp_all

lemma first_k_take: "0 \<le> k \<Longrightarrow> int (length xs) < 2 ^ 31 \<Longrightarrow> first_k k xs = Inr (take (nat k) xs)"
  by (simp add: first_k_def size_as_int_small)

text \<open>From \<open>2 ^ 31\<close> candidates on the cast is negative and nothing is cut.\<close>

lemma first_k_wraps:
  assumes "0 \<le> k" and "2 ^ 31 \<le> int (length xs)" and "int (length xs) < 2 ^ 32"
  shows "first_k k xs = Inr xs"
proof -
  have "signed_take_bit 31 (int (length xs)) = signed_take_bit 31 (int (length xs) - 2 ^ 32)"
    by (simp add: signed_take_bit_eq_iff_take_bit_eq take_bit_eq_mod)
  also have "\<dots> = int (length xs) - 2 ^ 32" using assms(2,3) by (intro signed_take_bit_int_eq_self) simp_all
  finally show ?thesis using assms by (simp add: first_k_def size_as_int_def)
qed

lemma stable_sort_length [simp]: "length (stable_sort before xs) = length xs"
proof -
  have "length (insert_by before x ys) = Suc (length ys)" for x ys by (induction ys) simp_all
  then show ?thesis by (induction xs) (simp_all add: stable_sort_def)
qed

lemma py_prefix_take: "0 \<le> k \<Longrightarrow> py_prefix k xs = take (nat k) xs"
  by (simp add: py_prefix_def)

text \<open>The \<open>k\<close> best of a list of native candidates.\<close>

definition best_of :: "int \<Rightarrow> ncand list \<Rightarrow> ncand list" where
  "best_of k cs = take (nat k) (sort_key (\<lambda>c. cand_key (cand_of c)) cs)"

lemma shard_cands_length: "int (length (shard_cands lo hi seed)) = max 0 (sint hi - sint lo)"
  by (simp add: shard_cands_def)

lemma local_topk_key:
  assumes "0 \<le> k" "sint hi - sint lo < 2 ^ 31"
  shows "local_topk lo hi seed k = Inr (best_of k (shard_cands lo hi seed))"
proof -
  have "int (length (stable_sort better (shard_cands lo hi seed))) < 2 ^ 31"
    using assms(2) by (simp add: shard_cands_length)
  moreover have "\<not> cand_max_size < sint hi - sint lo" using assms(2) by (simp add: cand_max_size_def)
  ultimately show ?thesis
    using stable_sort_shards [of "shard_cands lo hi seed" lo hi seed lo hi] first_k_take [OF assms(1)]
    by (simp only: local_topk_def best_of_def if_False Un_absorb subset_refl simp_thms shard_cands_def [symmetric])
qed

lemma best_of_length: "length (best_of k cs) \<le> length cs"
  by (simp add: best_of_def)

text \<open>The oracle over an interval, in the terms of its candidates.\<close>

definition interval_cands :: "int \<Rightarrow> int \<Rightarrow> int \<Rightarrow> cand list" where
  "interval_cands lo hi seed = map (\<lambda>t. (t, grid_pattern (grid_value t seed))) [lo..hi - 1]"

lemma oracle_topk_key:
  "0 \<le> k \<Longrightarrow> oracle_topk lo hi seed k = Inr (take (nat k) (sort_key cand_key (interval_cands lo hi seed)))"
  by (simp add: oracle_topk_def oracle_cands_eq py_prefix_take interval_cands_def)

lemma oracle_topk_best:
  assumes "0 \<le> k"
  shows "oracle_topk (sint lo) (sint hi) (sint seed) k = Inr (map cand_of (best_of k (shard_cands lo hi seed)))"
proof -
  have "interval_cands (sint lo) (sint hi) (sint seed) = map cand_of (shard_cands lo hi seed)"
    by (simp only: interval_cands_def cands_agree)
  then show ?thesis using assms by (simp only: oracle_topk_key best_of_def sort_key_map take_map)
qed

lemma upto_split: "(lo :: int) \<le> mid \<Longrightarrow> mid \<le> hi \<Longrightarrow> [lo..hi - 1] = [lo..mid - 1] @ [mid..hi - 1]"
  using upto_split1 [of lo mid "hi - 1"] by (cases "mid = hi") simp_all

lemma merge_topk_shards:
  assumes k: "0 \<le> k" and m: "sint lo \<le> sint mid" "sint mid \<le> sint hi" and n: "sint hi - sint lo < 2 ^ 31"
  shows "merge_topk (best_of k (shard_cands lo mid seed)) (best_of k (shard_cands mid hi seed)) k
      = Inr (best_of k (shard_cands lo hi seed))"
    and "merge_topk (best_of k (shard_cands mid hi seed)) (best_of k (shard_cands lo mid seed)) k
      = Inr (best_of k (shard_cands lo hi seed))"
proof -
  let ?f = "\<lambda>c. cand_key (cand_of c)" and ?A = "shard_cands lo mid seed" and ?B = "shard_cands mid hi seed"
  have whole: "shard_cands lo hi seed = ?A @ ?B"
    unfolding shard_cands_def upto_split [OF m] map_append by (rule refl)
  then have inj: "inj_on ?f (set (?A @ ?B))" "inj_on ?f (set (?B @ ?A))"
    using shard_key_inj [of lo hi seed] by (simp_all add: Un_commute)
  have sub: "set (best_of k cs) \<subseteq> set cs" for cs
    using set_take_subset [of "nat k" "sort_key ?f cs"] by (simp add: best_of_def)
  have srt: "stable_sort better (best_of k ?A @ best_of k ?B) = sort_key ?f (best_of k ?A @ best_of k ?B)"
    "stable_sort better (best_of k ?B @ best_of k ?A) = sort_key ?f (best_of k ?B @ best_of k ?A)"
    by (rule stable_sort_shards [where lo = lo and hi = mid and lo' = mid and hi' = hi], use sub in auto)+
  have "int (length (best_of k ?A)) + int (length (best_of k ?B)) \<le> sint hi - sint lo"
    using best_of_length [of k ?A] best_of_length [of k ?B] shard_cands_length [of lo mid seed]
      shard_cands_length [of mid hi seed] m by linarith
  then have len: "int (length (best_of k ?A)) + int (length (best_of k ?B)) < 2 ^ 31" using n by linarith
  have max: "\<not> cand_max_size < int (length (best_of k ?A)) + int (length (best_of k ?B))"
    "\<not> cand_max_size < int (length (best_of k ?B)) + int (length (best_of k ?A))"
    using len by (simp_all add: cand_max_size_def)
  have lens: "int (length (sort_key ?f (best_of k ?A @ best_of k ?B))) < 2 ^ 31"
    "int (length (sort_key ?f (best_of k ?B @ best_of k ?A))) < 2 ^ 31"
    using len by (simp_all add: add.commute)
  show "merge_topk (best_of k ?A) (best_of k ?B) k = Inr (best_of k (shard_cands lo hi seed))"
    unfolding merge_topk_def if_not_P [OF max(1)] srt first_k_take [OF k lens(1)]
    unfolding best_of_def take_sort_merge [OF inj(1)] whole by (rule refl)
  show "merge_topk (best_of k ?B) (best_of k ?A) k = Inr (best_of k (shard_cands lo hi seed))"
    unfolding merge_topk_def if_not_P [OF max(2)] srt first_k_take [OF k lens(2)]
    unfolding best_of_def take_sort_merge [OF inj(2)] whole sort_key_append_commute [OF inj(1)] by (rule refl)
qed

subsection \<open>The oracle is the best \<open>k\<close>\<close>

text \<open>\<open>a\<close> ranks before \<open>b\<close>: a higher logit, or the same logit and a lower token.\<close>

definition ranks_before :: "int \<Rightarrow> int \<Rightarrow> int \<Rightarrow> bool" where
  "ranks_before seed a b = (grid_value b seed < grid_value a seed \<or> grid_value a seed = grid_value b seed \<and> a < b)"

lemma interval_key_less:
  assumes "c \<in> set (interval_cands lo hi seed)" "d \<in> set (interval_cands lo hi seed)"
  shows "cand_key c < cand_key d \<longleftrightarrow> ranks_before seed (fst c) (fst d)"
proof -
  obtain s t where cd: "c = (s, grid_pattern (grid_value s seed))" "d = (t, grid_pattern (grid_value t seed))"
    using assms by (auto simp: interval_cands_def)
  have "cand_key (u, grid_pattern (grid_value u seed)) = (Fin (- (of_int (grid_value u seed) / 8)), u)" for u
    by (simp add: cand_key_def grid_pattern_sound(1) [OF grid_abs])
  then show ?thesis
    unfolding cd by (auto simp: less_prod_def less_pyfloat_def ranks_before_def divide_strict_right_mono)
qed

lemma sorted_cands:
  assumes "sorted_wrt (\<lambda>c d. cand_key c < cand_key d) cs" "set cs \<subseteq> set (interval_cands lo hi seed)"
  shows "is_sorted_total_order cs = Inr True"
  using assms
proof (induction cs)
  case (Cons c0 ds)
  then have IH: "is_sorted_total_order ds = Inr True" by simp
  show ?case
  proof (cases ds)
    case (Cons c1 cs)
    obtain s t where c: "c0 = (s, grid_pattern (grid_value s seed))" "c1 = (t, grid_pattern (grid_value t seed))"
      using \<open>set (c0 # ds) \<subseteq> _\<close> Cons by (auto simp: interval_cands_def)
    have rb: "ranks_before seed s t"
      using Cons.prems interval_key_less [of c0 lo hi seed c1] by (simp add: Cons c)
    have u: "f32_unpack (grid_pattern (grid_value u seed)) = Inr (Fin (of_int (grid_value u seed) / 8))" for u
      using grid_pattern_sound(1-3) [OF grid_abs, of u seed] by (simp add: f32_unpack_def)
    show ?thesis using IH rb unfolding Cons c by (auto simp: u ranks_before_def divide_less_cancel)
  qed simp
qed simp

lemma oracle_topk_exact:
  assumes "0 \<le> k"
  shows "\<exists>cs. oracle_topk lo hi seed k = Inr cs \<and> int (length cs) = min k (max 0 (hi - lo))
    \<and> is_sorted_total_order cs = Inr True
    \<and> (\<forall>c \<in> set cs. lo \<le> fst c \<and> fst c < hi \<and> logit_bits (fst c) seed = Inr (snd c)
        \<and> f32_value (snd c) = Fin (of_int (grid_value (fst c) seed) / 8))
    \<and> (\<forall>c \<in> set cs. \<forall>t. lo \<le> t \<and> t < hi \<and> t \<notin> fst ` set cs \<longrightarrow> ranks_before seed (fst c) t)"
proof -
  let ?I = "interval_cands lo hi seed" let ?cs = "take (nat k) (sort_key cand_key ?I)"
  have inj: "inj_on cand_key (set ?I)" unfolding interval_cands_def by (rule cand_key_inj)
  have d: "distinct ?I" by (simp add: interval_cands_def distinct_map inj_on_def)
  have sub: "set ?cs \<subseteq> set ?I" using set_take_subset [of "nat k" "sort_key cand_key ?I"] by simp
  have el: "lo \<le> fst c \<and> fst c < hi \<and> logit_bits (fst c) seed = Inr (snd c)
      \<and> f32_value (snd c) = Fin (of_int (grid_value (fst c) seed) / 8)" if "c \<in> set ?cs" for c
    using that sub by (auto simp: interval_cands_def logit_bits_def grid_pattern_sound(4) [OF grid_abs, simplified]
        grid_pattern_sound(1) [OF grid_abs])
  have best: "ranks_before seed (fst c) t" if "c \<in> set ?cs" "lo \<le> t" "t < hi" "t \<notin> fst ` set ?cs" for c t
  proof -
    let ?d = "(t, grid_pattern (grid_value t seed))"
    have "?d \<in> set ?I" "?d \<notin> set ?cs" using that(2-4) by (auto simp: interval_cands_def image_iff)
    then have "cand_key c < cand_key ?d" using take_sort_best(2) [OF inj d, of "nat k"] that(1) by blast
    moreover have "c \<in> set ?I" using that(1) sub by blast
    ultimately show ?thesis using interval_key_less [of c lo hi seed ?d] \<open>?d \<in> set ?I\<close> by simp
  qed
  have "int (length ?cs) = min k (max 0 (hi - lo))"
    using assms by (auto simp: interval_cands_def of_nat_min min_def max_def)
  moreover have "is_sorted_total_order ?cs = Inr True"
    using take_sort_best(1) [OF inj d] sub by (rule sorted_cands)
  ultimately show ?thesis using oracle_topk_key [OF assms, of lo hi seed] el best by blast
qed

end
