(* ===== verification/ExpMarkers.thy ===== *)
theory ExpMarkers
  imports PyNumber PyValue
begin

text \<open>
  Evidence as the experiments read it: dicts, lists and scalars of JSON, looked up with \<open>get\<close>, defaulted with \<open>or {}\<close>,
  compared with \<open>==\<close> and judged by their truth value, with the exception each of these raises on a value of
  another type.
\<close>

fun is_true :: "pyval \<Rightarrow> bool" where
  "is_true VNone = False"
| "is_true (VBool b) = b"
| "is_true (VInt n) = (n \<noteq> 0)"
| "is_true (VFloat f) = (f \<noteq> Fin 0)"
| "is_true (VStr s) = (s \<noteq> [])"
| "is_true (VList vs) = (vs \<noteq> [])"
| "is_true (VTuple vs) = (vs \<noteq> [])"
| "is_true (VDict d) = (d \<noteq> [])"
| "is_true (VObj _) = True"

fun val_num :: "pyval \<Rightarrow> pyfloat option" where
  "val_num (VInt n) = Some (Fin (of_int n))"
| "val_num (VBool b) = Some (Fin (if b then 1 else 0))"
| "val_num (VFloat f) = Some f"
| "val_num _ = None"

text \<open>\<open>==\<close>: numbers by value whatever their type, containers element by element.\<close>

fun val_eq :: "pyval \<Rightarrow> pyval \<Rightarrow> bool" where
  "val_eq (VList xs) (VList ys) = list_all2 val_eq xs ys"
| "val_eq (VTuple xs) (VTuple ys) = list_all2 val_eq xs ys"
| "val_eq (VDict d) (VDict e) = (length d = length e \<and>
     list_all (\<lambda>p. case map_of e (fst p) of None \<Rightarrow> False | Some v \<Rightarrow> val_eq (snd p) v) d)"
| "val_eq (VStr s) (VStr t) = (s = t)"
| "val_eq (VObj i) (VObj j) = (i = j)"
| "val_eq VNone VNone = True"
| "val_eq a b = (case val_num a of None \<Rightarrow> False | Some x \<Rightarrow>
     (case val_num b of None \<Rightarrow> False | Some y \<Rightarrow> x = y \<and> x \<noteq> NaN))"

text \<open>\<open>d.get(k)\<close>, \<open>d.get(k, v)\<close>, \<open>d[k]\<close> with a \<open>str\<close> key, and \<open>v or {}\<close>.\<close>

definition get_key_or :: "pyval \<Rightarrow> string \<Rightarrow> pyval \<Rightarrow> pyval py" where
  "get_key_or m k v = (case m of
       VDict d \<Rightarrow> Inr (case map_of d (KStr k) of None \<Rightarrow> v | Some x \<Rightarrow> x)
     | _ \<Rightarrow> Inl AttributeError)"

definition get_key :: "pyval \<Rightarrow> string \<Rightarrow> pyval py" where
  "get_key m k = get_key_or m k VNone"

definition dict_index :: "pyval \<Rightarrow> string \<Rightarrow> pyval py" where
  "dict_index m k = (case m of
       VDict d \<Rightarrow> (case map_of d (KStr k) of None \<Rightarrow> Inl KeyError | Some x \<Rightarrow> Inr x)
     | _ \<Rightarrow> Inl TypeError)"

definition or_empty :: "pyval \<Rightarrow> pyval" where
  "or_empty v = (if is_true v then v else VDict [])"

definition sub_dict :: "pyval \<Rightarrow> string \<Rightarrow> pyval py" where
  "sub_dict m k = rbind (get_key m k) (\<lambda>v. Inr (or_empty v))"

text \<open>\<open>for x in v\<close>: a dict gives its keys, a \<open>str\<close> its characters.\<close>

fun iter_values :: "pyval \<Rightarrow> pyval list py" where
  "iter_values (VList vs) = Inr vs"
| "iter_values (VTuple vs) = Inr vs"
| "iter_values (VDict d) = Inr (map (\<lambda>p. case fst p of KStr s \<Rightarrow> VStr s | KInt n \<Rightarrow> VInt n) d)"
| "iter_values (VStr s) = Inr (map (\<lambda>c. VStr [c]) s)"
| "iter_values _ = Inl TypeError"

fun mapM :: "('a \<Rightarrow> 'b py) \<Rightarrow> 'a list \<Rightarrow> 'b list py" where
  "mapM f [] = Inr []"
| "mapM f (x # xs) = rbind (f x) (\<lambda>y. rbind (mapM f xs) (\<lambda>ys. Inr (y # ys)))"

text \<open>\<open>max(a, b)\<close> and \<open>x >= n\<close> of two numbers or two strings; lists, which are never ordered here, count as unordered.\<close>

fun str_less :: "string \<Rightarrow> string \<Rightarrow> bool" where
  "str_less s [] = False"
| "str_less [] (d # t) = True"
| "str_less (c # s) (d # t) = ((of_char c :: nat) < of_char d \<or> c = d \<and> str_less s t)"

definition val_less :: "pyval \<Rightarrow> pyval \<Rightarrow> bool py" where
  "val_less a b = (case val_num a of
       Some x \<Rightarrow> (case val_num b of Some y \<Rightarrow> Inr (flt x y) | None \<Rightarrow> Inl TypeError)
     | None \<Rightarrow> (case (a, b) of (VStr s, VStr t) \<Rightarrow> Inr (str_less s t)
        | _ \<Rightarrow> Inl TypeError))"

definition val_max :: "pyval \<Rightarrow> pyval \<Rightarrow> pyval py" where
  "val_max a b = rbind (val_less a b) (\<lambda>l. Inr (if l then b else a))"

definition val_ge :: "pyval \<Rightarrow> int \<Rightarrow> bool py" where
  "val_ge x n = (case val_num x of Some f \<Rightarrow> Inr (fle (Fin (of_int n)) f) | None \<Rightarrow> Inl TypeError)"

subsection \<open>Tests\<close>

text \<open>\<open>a and b\<close> of two tests: the second is made only when the first holds.\<close>

definition pand :: "bool py \<Rightarrow> bool py \<Rightarrow> bool py" where
  "pand a b = rbind a (\<lambda>x. if x then b else Inr False)"

fun all_of :: "bool py list \<Rightarrow> bool py" where
  "all_of [] = Inr True"
| "all_of (t # ts) = pand t (all_of ts)"

text \<open>Tests of a key of a dict.\<close>

definition got :: "pyval \<Rightarrow> string \<Rightarrow> bool py" where
  "got m k = rbind (get_key m k) (\<lambda>v. Inr (is_true v))"

definition got_eq :: "pyval \<Rightarrow> string \<Rightarrow> pyval \<Rightarrow> bool py" where
  "got_eq m k x = rbind (get_key m k) (\<lambda>v. Inr (val_eq v x))"

definition got_is :: "pyval \<Rightarrow> string \<Rightarrow> pyval \<Rightarrow> bool py" where
  "got_is m k x = rbind (get_key m k) (\<lambda>v. Inr (v = x))"

text \<open>\<open>v not in (None, 0)\<close>.\<close>

definition non_root :: "pyval \<Rightarrow> bool" where
  "non_root v = (v \<noteq> VNone \<and> \<not> val_eq v (VInt 0))"

definition got_non_root :: "pyval \<Rightarrow> string \<Rightarrow> bool py" where
  "got_non_root m k = rbind (get_key m k) (\<lambda>v. Inr (non_root v))"

subsection \<open>Gates\<close>

text \<open>A dict of gates, in the order they are assigned, and its evaluation.\<close>

type_synonym gates = "(string \<times> bool) list"

fun run_gates :: "(string \<times> bool py) list \<Rightarrow> gates py" where
  "run_gates [] = Inr []"
| "run_gates (g # gs) = rbind (snd g) (\<lambda>b. rbind (run_gates gs) (\<lambda>rest. Inr ((fst g, b) # rest)))"

definition gate :: "gates \<Rightarrow> string \<Rightarrow> bool" where
  "gate g name = (map_of g name = Some True)"

definition all_gates :: "gates \<Rightarrow> bool" where
  "all_gates g = list_all snd g"

lemma run_gates_names: "run_gates gs = Inr g \<Longrightarrow> map fst g = map fst gs"
  by (induction gs arbitrary: g) (auto simp: rbind_eq_Inr)

lemma run_gates_append:
  "run_gates (gs @ hs) = rbind (run_gates gs) (\<lambda>g. rbind (run_gates hs) (\<lambda>h. Inr (g @ h)))"
  by (induction gs) (auto simp: rbind_assoc rbind_def split: sum.splits)

text \<open>A gate holds exactly when its test does.\<close>

lemma run_gates_gate:
  "run_gates gs = Inr g \<Longrightarrow> distinct (map fst gs) \<Longrightarrow> (n, t) \<in> set gs \<Longrightarrow> gate g n \<longleftrightarrow> t = Inr True"
proof (induction gs arbitrary: g)
  case (Cons h gs)
  then obtain b rest where h: "snd h = Inr b" "run_gates gs = Inr rest" "g = (fst h, b) # rest"
    by (auto simp: rbind_eq_Inr)
  show ?case
  proof (cases "(n, t) = h")
    case True
    with h Cons.prems show ?thesis by (auto simp: gate_def)
  next
    case False
    with Cons.prems have "(n, t) \<in> set gs" "fst h \<noteq> n" by (auto simp: image_iff)
    with h Cons show ?thesis by (simp add: gate_def)
  qed
qed simp

lemma all_gates_gate: "all_gates g \<Longrightarrow> n \<in> fst ` set g \<Longrightarrow> gate g n"
  by (induction g) (auto simp: all_gates_def gate_def)

lemma run_gates_all:
  assumes "run_gates gs = Inr g"
  shows "all_gates g \<longleftrightarrow> (\<forall>h \<in> set gs. snd h = Inr True)"
  using assms
proof (induction gs arbitrary: g)
  case (Cons h gs)
  then obtain b rest where "snd h = Inr b" "run_gates gs = Inr rest" "g = (fst h, b) # rest"
    by (auto simp: rbind_eq_Inr)
  with Cons.IH [OF this(2)] show ?case by (auto simp: all_gates_def)
qed (simp add: all_gates_def)

lemma run_gates_true: "(\<And>h. h \<in> set gs \<Longrightarrow> snd h = Inr True) \<Longrightarrow> run_gates gs = Inr (map (\<lambda>p. (fst p, True)) gs)"
  by (induction gs) auto

lemma all_of_True: "all_of ts = Inr True \<longleftrightarrow> (\<forall>t \<in> set ts. t = Inr True)"
  by (induction ts) (auto simp: pand_def rbind_eq_Inr)

lemma mapM_map: "(\<And>x. x \<in> set xs \<Longrightarrow> f (g x) = Inr (h x)) \<Longrightarrow> mapM f (map g xs) = Inr (map h xs)"
  by (induction xs) simp_all

lemma val_eq_int [simp]: "val_eq (VInt m) (VInt n) \<longleftrightarrow> m = n"
  by simp

end
