(* ===== verification/ExpGates.thy ===== *)
theory ExpGates
  imports ExpTopk ExpMarkers
begin

text \<open>
  The evaluation of one repetition of \<open>experiments/68_vocab_sharded_topk/run_exp68.py\<close>: the gates of a matrix case
  against the oracle, the topology and lifecycle gates, the verdict and the failure class. A dict of gates is the list
  of its items in the order they are assigned.
\<close>

subsection \<open>Candidates\<close>

definition norm_cand :: "pyval \<Rightarrow> cand py" where
  "norm_cand d = rbind (dict_index d ''token_id'') (\<lambda>v. rbind (py_int v) (\<lambda>t.
     rbind (dict_index d ''logit_bits'') (\<lambda>w. rbind (py_int w) (\<lambda>b. Inr (t, b)))))"

definition norm_cands :: "pyval \<Rightarrow> cand list py" where
  "norm_cands v = (if is_true v then rbind (iter_values v) (mapM norm_cand) else Inr [])"

definition got_cands :: "pyval \<Rightarrow> string \<Rightarrow> cand list py" where
  "got_cands m k = rbind (get_key m k) norm_cands"

subsection \<open>The build that was run\<close>

definition expected_hpx_commit :: string where
  "expected_hpx_commit = ''20bc3d4bf3068383edcb63be13f22e9ff95842fa''"

fun py_find :: "string \<Rightarrow> string \<Rightarrow> nat option" where
  "py_find [] t = (if t = [] then Some 0 else None)"
| "py_find (c # s) t = (if take (length t) (c # s) = t then Some 0 else map_option Suc (py_find s t))"

definition strip_char :: "char \<Rightarrow> string \<Rightarrow> string" where
  "strip_char c s = rev (dropWhile (\<lambda>x. x = c) (rev (dropWhile (\<lambda>x. x = c) s)))"

definition extract_git_sha :: "pyval \<Rightarrow> string option py" where
  "extract_git_sha cv = (if \<not> is_true cv then Inr None else (case cv of
       VStr s \<Rightarrow> (case py_find s ''Git:'' of
           None \<Rightarrow> Inr None
         | Some i \<Rightarrow> (let rest = strip_space (drop (i + 4) s);
              tok = takeWhile (\<lambda>c. \<not> is_space c) rest;
              sha = strip_char (CHR '','') (strip_space tok)
            in Inr (if sha = [] then None else Some sha)))
     | _ \<Rightarrow> Inl AttributeError))"

definition commit_matches :: "pyval \<Rightarrow> bool py" where
  "commit_matches cv = rbind (extract_git_sha cv) (\<lambda>sha. Inr (case sha of None \<Rightarrow> False
     | Some s \<Rightarrow> 10 \<le> length s \<and> take (length s) expected_hpx_commit = s))"

subsection \<open>One case of the matrix\<close>

record topk_case =
  c_name :: string
  c_V :: int
  c_split :: int
  c_k :: int
  c_seed :: int

definition partition_ok :: "int \<Rightarrow> int \<Rightarrow> bool" where
  "partition_ok V sp = (0 < sp \<and> sp < V)"

definition comp_ok :: "pyval \<Rightarrow> bool py" where
  "comp_ok c = all_of [got c ''action_dispatched'', got c ''future_ready'', got c ''continuation_executed'',
     got c ''result_delivered'']"

definition case_tests :: "topk_case \<Rightarrow> cand list \<Rightarrow> cand list \<Rightarrow> cand list \<Rightarrow> cand list \<Rightarrow> cand list \<Rightarrow> cand list \<Rightarrow> cand list
    \<Rightarrow> pyval \<Rightarrow> pyval \<Rightarrow> pyval \<Rightarrow> pyval \<Rightarrow> pyval \<Rightarrow> pyval \<Rightarrow> pyval \<Rightarrow> pyval \<Rightarrow> (string \<times> bool py) list" where
  "case_tests c orc_a orc_b orc_g a_local b_local a_global b_global ac bc a_comp b_comp a_loc b_loc a_pid b_pid = [
     (''shard_partition_ok'', Inr (partition_ok (c_V c) (c_split c))),
     (''local_topk_a_correct'', Inr (a_local = orc_a)),
     (''local_topk_b_correct'', Inr (b_local = orc_b)),
     (''local_topk_order_ok'', pand (is_sorted_total_order a_local) (is_sorted_total_order b_local)),
     (''a_fetch_b_ready'', all_of [got ac ''ready'', got ac ''target_found'']),
     (''a_peer_is_b'', all_of [got_eq ac ''peer_locality'' b_loc, got_eq ac ''peer_pid'' b_pid]),
     (''a_own_is_a'', all_of [got_eq ac ''own_locality'' a_loc, got_eq ac ''own_pid'' a_pid]),
     (''a_merge_ids_match'', Inr (map fst a_global = map fst orc_g)),
     (''a_merge_equals_oracle'', Inr (a_global = orc_g)),
     (''b_fetch_a_ready'', all_of [got bc ''ready'', got bc ''target_found'']),
     (''b_peer_is_a'', all_of [got_eq bc ''peer_locality'' a_loc, got_eq bc ''peer_pid'' a_pid]),
     (''b_own_is_b'', all_of [got_eq bc ''own_locality'' b_loc, got_eq bc ''own_pid'' b_pid]),
     (''b_merge_ids_match'', Inr (map fst b_global = map fst orc_g)),
     (''b_merge_equals_oracle'', Inr (b_global = orc_g)),
     (''coordinator_symmetry'', Inr (a_global = b_global)),
     (''global_token_ids_exact'', Inr (map fst a_global = map fst orc_g \<and> map fst b_global = map fst orc_g)),
     (''float32_bits_exact'', Inr (map snd a_global = map snd orc_g \<and> map snd b_global = map snd orc_g)),
     (''hpx_composition_a'', comp_ok a_comp),
     (''hpx_composition_b'', comp_ok b_comp),
     (''no_application_on_root'', all_of [got_non_root ac ''peer_locality'', got_non_root ac ''own_locality'',
        got_non_root bc ''peer_locality'', got_non_root bc ''own_locality''])]"

definition eval_case :: "topk_case \<Rightarrow> pyval \<Rightarrow> gates py" where
  "eval_case c cr =
     rbind (oracle_topk 0 (c_split c) (c_seed c) (c_k c)) (\<lambda>orc_a.
     rbind (oracle_topk (c_split c) (c_V c) (c_seed c) (c_k c)) (\<lambda>orc_b.
     rbind (oracle_topk 0 (c_V c) (c_seed c) (c_k c)) (\<lambda>orc_g.
     rbind (got_cands cr ''a_local'') (\<lambda>a_local. rbind (got_cands cr ''b_local'') (\<lambda>b_local.
     rbind (sub_dict cr ''a_coord'') (\<lambda>ac. rbind (sub_dict cr ''b_coord'') (\<lambda>bc.
     rbind (got_cands ac ''global_topk'') (\<lambda>a_global. rbind (got_cands bc ''global_topk'') (\<lambda>b_global.
     rbind (sub_dict ac ''hpx_composition'') (\<lambda>a_comp. rbind (sub_dict bc ''hpx_composition'') (\<lambda>b_comp.
     rbind (get_key cr ''a_loc'') (\<lambda>a_loc. rbind (get_key cr ''b_loc'') (\<lambda>b_loc.
     rbind (get_key cr ''a_pid'') (\<lambda>a_pid. rbind (get_key cr ''b_pid'') (\<lambda>b_pid.
     run_gates (case_tests c orc_a orc_b orc_g a_local b_local a_global b_global ac bc a_comp b_comp a_loc b_loc
       a_pid b_pid))))))))))))))))"

subsection \<open>Topology and lifecycle\<close>

text \<open>\<open>a == b == c\<close>: an operand is evaluated when the comparisons before it held.\<close>

fun chain_from :: "pyval \<Rightarrow> pyval py list \<Rightarrow> bool py" where
  "chain_from x [] = Inr True"
| "chain_from x (b # bs) = rbind b (\<lambda>y. if val_eq x y then chain_from y bs else Inr False)"

definition chain_eq :: "pyval py \<Rightarrow> pyval py list \<Rightarrow> bool py" where
  "chain_eq a bs = rbind a (\<lambda>x. chain_from x bs)"

definition hpx_version_of :: "pyval \<Rightarrow> pyval py" where
  "hpx_version_of ident = rbind (sub_dict ident ''hpx_version_info'') (\<lambda>v. get_key v ''hpx_complete_version'')"

definition membership_of :: "pyval \<Rightarrow> pyval py" where
  "membership_of start = rbind (get_key start ''membership'') (\<lambda>v. Inr (if is_true v then v else VInt 0))"

definition no_children :: "pyval \<Rightarrow> bool py list" where
  "no_children report = [got report ''checked'', got_eq report ''hpx_children'' (VList [])]"

definition slice_a_tests :: "pyval \<Rightarrow> pyval \<Rightarrow> pyval \<Rightarrow> pyval \<Rightarrow> pyval \<Rightarrow> pyval \<Rightarrow> pyval \<Rightarrow> pyval \<Rightarrow> pyval \<Rightarrow> pyval \<Rightarrow> pyval \<Rightarrow> pyval
    \<Rightarrow> pyval \<Rightarrow> pyval \<Rightarrow> pyval \<Rightarrow> pyval \<Rightarrow> (string \<times> bool py) list" where
  "slice_a_tests m ai bi as bs ac bc rr rf a_pid b_pid a_loc b_loc a_cv b_cv membership_max = [
     (''fixed_hpx_commit'', all_of [commit_matches a_cv, commit_matches b_cv,
        rbind (get_key rr ''hpx_complete_version'') commit_matches]),
     (''actor_a_started_in_worker'', all_of [got as ''started'', Inr (a_loc \<noteq> VNone)]),
     (''actor_b_started_in_worker'', all_of [got bs ''started'', Inr (b_loc \<noteq> VNone)]),
     (''two_distinct_ray_processes'', Inr (a_pid \<noteq> VNone \<and> b_pid \<noteq> VNone \<and> \<not> val_eq a_pid b_pid)),
     (''distinct_nonzero_localities'', Inr (non_root a_loc \<and> non_root b_loc \<and> \<not> val_eq a_loc b_loc)),
     (''both_in_process_no_hpx_child'', all_of (no_children ac @ no_children bc)),
     (''shared_island_membership'', all_of [Inr (is_true a_loc), Inr (is_true b_loc), val_ge membership_max 3]),
     (''no_static_locality_count'', got m ''argv_audit_ok''),
     (''root_isolated_workfree'', all_of [got_eq rr ''locality_id'' (VInt 0),
        rbind (get_key_or rf ''max_membership'' (VInt 0)) (\<lambda>v. val_ge v 3)]),
     (''all_shards_disjoint_complete'', got m ''all_partitions_ok''),
     (''hostname_identity'', all_of [got ai ''hostname'', chain_eq (get_key ai ''hostname'')
        [get_key bi ''hostname'', get_key rr ''hostname'', get_key m ''controller_hostname'']]),
     (''evidence_complete'', all_of [Inr (is_true a_pid), Inr (is_true b_pid), Inr (is_true a_loc), Inr (is_true b_loc),
        Inr (is_true a_cv), Inr (is_true b_cv), Inr (is_true rr), Inr (is_true rf), got m ''cases''])]"

definition eval_slice_a :: "pyval \<Rightarrow> gates py" where
  "eval_slice_a m =
     rbind (sub_dict m ''a_identity'') (\<lambda>ai. rbind (sub_dict m ''b_identity'') (\<lambda>bi.
     rbind (sub_dict m ''a_start'') (\<lambda>as. rbind (sub_dict m ''b_start'') (\<lambda>bs.
     rbind (sub_dict m ''a_child_report'') (\<lambda>ac. rbind (sub_dict m ''b_child_report'') (\<lambda>bc.
     rbind (sub_dict m ''root_ready'') (\<lambda>rr. rbind (sub_dict m ''root_final'') (\<lambda>rf.
     rbind (get_key ai ''pid'') (\<lambda>a_pid. rbind (get_key bi ''pid'') (\<lambda>b_pid.
     rbind (get_key as ''locality_id'') (\<lambda>a_loc. rbind (get_key bs ''locality_id'') (\<lambda>b_loc.
     rbind (hpx_version_of ai) (\<lambda>a_cv. rbind (hpx_version_of bi) (\<lambda>b_cv.
     rbind (membership_of as) (\<lambda>am. rbind (membership_of bs) (\<lambda>bm. rbind (val_max am bm) (\<lambda>mm.
     run_gates (slice_a_tests m ai bi as bs ac bc rr rf a_pid b_pid a_loc b_loc a_cv b_cv mm))))))))))))))))))"

definition recreated :: "pyval \<Rightarrow> pyval \<Rightarrow> bool py" where
  "recreated r pid = all_of [got r ''ok'', got r ''pid'', rbind (get_key r ''pid'') (\<lambda>v. Inr (\<not> val_eq v pid))]"

definition clean_stop :: "pyval \<Rightarrow> string \<Rightarrow> string \<Rightarrow> bool py list" where
  "clean_stop m rc err = [got_eq m rc (VInt 0), rbind (get_key m err) (\<lambda>v. Inr (\<not> is_true v))]"

definition slice_f_tests :: "pyval \<Rightarrow> pyval \<Rightarrow> pyval \<Rightarrow> pyval \<Rightarrow> pyval \<Rightarrow> pyval \<Rightarrow> pyval \<Rightarrow> (string \<times> bool py) list" where
  "slice_f_tests m rf rr a_pid b_pid ar br = [
     (''actor_a_graceful_leave'', got_eq m ''a_stop_rc'' (VInt 0)),
     (''actor_b_graceful_leave'', got_eq m ''b_stop_rc'' (VInt 0)),
     (''clean_hpx_stop_both'', all_of (clean_stop m ''a_stop_rc'' ''a_stop_error'' @ clean_stop m ''b_stop_rc'' ''b_stop_error'')),
     (''root_finalized_clean'', all_of [got_eq m ''root_exit_path'' (VStr ''finalized_clean''),
        got_is rf ''leave_observed'' (VBool True), got_eq rf ''final_membership'' (VInt 1)]),
     (''heartbeat_completion_lifecycle'', all_of [rbind (get_key rr ''wall_ms'') (\<lambda>v. Inr (v \<noteq> VNone)),
        got_is rf ''leave_observed'' (VBool True)]),
     (''actor_a_recreation'', recreated ar a_pid),
     (''actor_b_recreation'', recreated br b_pid),
     (''no_orphans'', all_of [got_eq m ''orphans'' (VList []), got_is m ''actor_pids_gone'' (VBool True)]),
     (''all_waits_bounded'', got m ''all_waits_bounded''),
     (''ray_no_actor_payload_path'', got m ''operation_over_hpx_not_ray'')]"

definition eval_slice_f :: "pyval \<Rightarrow> gates py" where
  "eval_slice_f m =
     rbind (sub_dict m ''root_final'') (\<lambda>rf. rbind (sub_dict m ''root_ready'') (\<lambda>rr.
     rbind (sub_dict m ''a_identity'') (\<lambda>ai. rbind (get_key ai ''pid'') (\<lambda>a_pid.
     rbind (sub_dict m ''b_identity'') (\<lambda>bi. rbind (get_key bi ''pid'') (\<lambda>b_pid.
     rbind (sub_dict m ''a_recreate'') (\<lambda>ar. rbind (sub_dict m ''b_recreate'') (\<lambda>br.
     run_gates (slice_f_tests m rf rr a_pid b_pid ar br)))))))))"

subsection \<open>Verdict and failure class\<close>

definition rep_verdict :: "gates \<Rightarrow> gates \<Rightarrow> gates list \<Rightarrow> bool" where
  "rep_verdict ga gf case_gates = (all_gates ga \<and> all_gates gf \<and> list_all all_gates case_gates)"

text \<open>The first check of a list that fails names the class.\<close>

fun first_failed :: "(bool \<times> string) list \<Rightarrow> string option" where
  "first_failed [] = None"
| "first_failed (c # cs) = (if fst c then first_failed cs else Some (snd c))"

definition topology_class :: "gates \<Rightarrow> string option" where
  "topology_class ga = first_failed [
     (gate ga ''evidence_complete'', ''invalid_instrumentation''),
     (gate ga ''all_shards_disjoint_complete'', ''invalid_shard_partition''),
     (gate ga ''actor_a_started_in_worker'' \<and> gate ga ''actor_b_started_in_worker'', ''lifecycle_failed''),
     (gate ga ''both_in_process_no_hpx_child'', ''lifecycle_failed''),
     (gate ga ''two_distinct_ray_processes'' \<and> gate ga ''distinct_nonzero_localities''
        \<and> gate ga ''shared_island_membership'', ''invalid_instrumentation'')]"

definition case_class :: "gates \<Rightarrow> string option" where
  "case_class cg = first_failed [
     (gate cg ''shard_partition_ok'', ''invalid_shard_partition''),
     (gate cg ''local_topk_order_ok'', ''tie_break_contract_failed''),
     (gate cg ''local_topk_a_correct'', ''local_topk_a_failed''),
     (gate cg ''local_topk_b_correct'', ''local_topk_b_failed''),
     (gate cg ''a_fetch_b_ready'', ''a_fetch_b_failed''),
     (gate cg ''b_fetch_a_ready'', ''b_fetch_a_failed''),
     (gate cg ''a_peer_is_b'' \<and> gate cg ''a_own_is_a'' \<and> gate cg ''b_peer_is_a'' \<and> gate cg ''b_own_is_b'',
        ''ray_payload_path_confounded''),
     (gate cg ''no_application_on_root'', ''root_executed_application_work''),
     (gate cg ''hpx_composition_a'' \<and> gate cg ''hpx_composition_b'', ''hpx_composition_not_evidenced''),
     (gate cg ''a_merge_ids_match'', ''a_merge_failed''),
     (gate cg ''b_merge_ids_match'', ''b_merge_failed''),
     (gate cg ''coordinator_symmetry'', ''coordinator_asymmetry''),
     (gate cg ''float32_bits_exact'', ''float32_bit_mismatch''),
     (gate cg ''a_merge_equals_oracle'' \<and> gate cg ''b_merge_equals_oracle'', ''global_oracle_mismatch'')]"

fun cases_class :: "gates list \<Rightarrow> string option" where
  "cases_class [] = None"
| "cases_class (cg # cgs) = (case case_class cg of Some f \<Rightarrow> Some f | None \<Rightarrow> cases_class cgs)"

definition lifecycle_class :: "gates \<Rightarrow> string option" where
  "lifecycle_class gf = first_failed [
     (gate gf ''actor_a_recreation'' \<and> gate gf ''actor_b_recreation'', ''actor_recreation_failed''),
     (gate gf ''no_orphans'', ''orphan_detected''),
     (all_gates gf, ''lifecycle_failed'')]"

definition failure_class :: "gates \<Rightarrow> gates \<Rightarrow> (string \<times> gates) list \<Rightarrow> string" where
  "failure_class ga gf cases_eval = (case topology_class ga of Some f \<Rightarrow> f | None \<Rightarrow>
     (case cases_class (map snd cases_eval) of Some f \<Rightarrow> f | None \<Rightarrow>
     (case lifecycle_class gf of Some f \<Rightarrow> f | None \<Rightarrow>
       if rep_verdict ga gf (map snd cases_eval) then ''pass'' else ''invalid_instrumentation'')))"

end
