(* ===== verification/ExpActors.thy ===== *)
theory ExpActors
  imports ExpGates
begin

text \<open>
  The two actors of \<open>experiments/68_vocab_sharded_topk\<close>: the operations of \<open>actor_ext.cpp\<close> and of the action in
  \<open>topk_action.hpp\<close>, the methods of \<open>HpxActor\<close> that call them, and one case of \<open>run_rep\<close>. HPX delivers an action to
  the process whose locality it names and runs the continuation with its reply, or the wait ends first; which of the
  two happens is a parameter.
\<close>

subsection \<open>The extension\<close>

definition cand_to_py :: "ncand \<Rightarrow> pyval" where
  "cand_to_py c = VDict [(KStr ''token_id'', VInt (sint (fst c))), (KStr ''logit_bits'', VInt (uint (snd c))),
     (KStr ''logit'', VFloat (float32_value (snd c)))]"

definition cands_to_py :: "ncand list \<Rightarrow> pyval" where
  "cands_to_py v = VList (map cand_to_py v)"

text \<open>A process of the HPX runtime: its locality, process id and host.\<close>

record hpx_member =
  hm_locality :: "32 word"
  hm_pid :: "64 word"
  hm_host :: string

record topk_reply =
  tr_cands :: "ncand list"
  tr_pid :: "64 word"
  tr_locality :: "32 word"
  tr_host :: string

definition exp68_local_topk :: "hpx_member \<Rightarrow> 64 word \<Rightarrow> 64 word \<Rightarrow> 64 word \<Rightarrow> int \<Rightarrow> topk_reply py" where
  "exp68_local_topk self lo hi seed k = rbind (local_topk lo hi seed k)
     (\<lambda>cs. Inr \<lparr> tr_cands = cs, tr_pid = hm_pid self, tr_locality = hm_locality self, tr_host = hm_host self \<rparr>)"

definition ext_local_topk :: "64 word \<Rightarrow> 64 word \<Rightarrow> 64 word \<Rightarrow> int \<Rightarrow> pyval py" where
  "ext_local_topk lo hi seed k = rbind (local_topk lo hi seed k) (\<lambda>v. Inr (cands_to_py v))"

definition comp_flags :: "bool \<Rightarrow> pyval" where
  "comp_flags b = VDict [(KStr ''action_dispatched'', VBool b), (KStr ''future_ready'', VBool b),
     (KStr ''continuation_executed'', VBool b), (KStr ''result_delivered'', VBool b)]"

definition coord_dict :: "bool \<Rightarrow> bool \<Rightarrow> ncand list \<Rightarrow> ncand list \<Rightarrow> topk_reply \<Rightarrow> hpx_member \<Rightarrow> pyval" where
  "coord_dict found ready global own_topk reply self = VDict [
     (KStr ''target_found'', VBool found), (KStr ''ready'', VBool ready),
     (KStr ''global_topk'', cands_to_py global), (KStr ''own_topk'', cands_to_py own_topk),
     (KStr ''peer_topk'', cands_to_py (tr_cands reply)), (KStr ''peer_pid'', VInt (sint (tr_pid reply))),
     (KStr ''peer_locality'', VInt (uint (tr_locality reply))), (KStr ''peer_host'', VStr (tr_host reply)),
     (KStr ''own_pid'', VInt (sint (hm_pid self))), (KStr ''own_locality'', VInt (uint (hm_locality self))),
     (KStr ''own_host'', VStr (hm_host self)), (KStr ''hpx_composition'', comp_flags ready)]"

definition no_reply :: topk_reply where
  "no_reply = \<lparr> tr_cands = [], tr_pid = - 1, tr_locality = 0xFFFFFFFF, tr_host = [] \<rparr>"

text \<open>\<open>members\<close> is what \<open>find_all_localities\<close> returns; the last one with the peer's number is the target.\<close>

definition ext_coordinate :: "bool \<Rightarrow> hpx_member \<Rightarrow> hpx_member list \<Rightarrow> bool \<Rightarrow> 32 word \<Rightarrow> 64 word \<Rightarrow> 64 word
    \<Rightarrow> 64 word \<Rightarrow> 64 word \<Rightarrow> 64 word \<Rightarrow> int \<Rightarrow> pyval py" where
  "ext_coordinate started self members in_time peer_loc own_lo own_hi peer_lo peer_hi seed k =
     (if \<not> started then Inl RuntimeError
      else rbind (local_topk own_lo own_hi seed k) (\<lambda>own.
        case find (\<lambda>p. hm_locality p = peer_loc) (rev members) of
          None \<Rightarrow> Inr (coord_dict False False [] own no_reply self)
        | Some peer \<Rightarrow>
            if \<not> in_time then Inr (coord_dict True False [] own no_reply self)
            else rbind (exp68_local_topk peer peer_lo peer_hi seed k) (\<lambda>reply.
              rbind (merge_topk own (tr_cands reply) k) (\<lambda>global.
                Inr (coord_dict True True global own reply self)))))"

subsection \<open>The actor\<close>

text \<open>An argument of \<open>std::uint32_t\<close>; the other arguments cross as \<open>PyNumber\<close> has it.\<close>

definition cross_uint32 :: "pyval \<Rightarrow> int py" where
  "cross_uint32 v = (if is_int v \<and> 0 \<le> the_int v \<and> the_int v < 2 ^ 32 then Inr (the_int v) else Inl TypeError)"

text \<open>\<open>HpxActor.local_topk\<close> and \<open>coordinate\<close>: an exception is a dict with its text, which is a parameter.\<close>

definition error_dict :: "(exc \<Rightarrow> string) \<Rightarrow> (pykey \<times> pyval) list \<Rightarrow> exc \<Rightarrow> pyval" where
  "error_dict txt d e = VDict (d @ [(KStr ''error'', VStr (txt e))])"

definition actor_local_topk :: "(exc \<Rightarrow> string) \<Rightarrow> pyval \<Rightarrow> pyval \<Rightarrow> pyval \<Rightarrow> pyval \<Rightarrow> pyval" where
  "actor_local_topk txt lo hi seed k =
     (case rbind (py_int lo) (\<lambda>lo. rbind (py_int hi) (\<lambda>hi. rbind (py_int seed) (\<lambda>seed. rbind (py_int k) (\<lambda>k.
         rbind (cross_int64 (VInt lo)) (\<lambda>lo. rbind (cross_int64 (VInt hi)) (\<lambda>hi.
         rbind (cross_int64 (VInt seed)) (\<lambda>seed. rbind (cross_int32 (VInt k)) (\<lambda>k.
         ext_local_topk (word_of_int lo) (word_of_int hi) (word_of_int seed) k)))))))) of
       Inr v \<Rightarrow> v | Inl e \<Rightarrow> error_dict txt [] e)"

definition actor_coordinate :: "(exc \<Rightarrow> string) \<Rightarrow> bool \<Rightarrow> hpx_member \<Rightarrow> hpx_member list \<Rightarrow> bool \<Rightarrow> pyval \<Rightarrow> pyval \<Rightarrow> pyval
    \<Rightarrow> pyval \<Rightarrow> pyval \<Rightarrow> pyval \<Rightarrow> pyval \<Rightarrow> pyval" where
  "actor_coordinate txt started self members in_time peer_loc own_lo own_hi peer_lo peer_hi seed k =
     (case rbind (mapM py_int [peer_loc, own_lo, own_hi, peer_lo, peer_hi, seed, k]) (\<lambda>ns.
         rbind (cross_uint32 (VInt (ns ! 0))) (\<lambda>p. rbind (mapM (\<lambda>n. cross_int64 (VInt n)) (take 5 (tl ns))) (\<lambda>ws.
         rbind (cross_int32 (VInt (ns ! 6))) (\<lambda>k.
         ext_coordinate started self members in_time (word_of_int p) (word_of_int (ws ! 0)) (word_of_int (ws ! 1))
           (word_of_int (ws ! 2)) (word_of_int (ws ! 3)) (word_of_int (ws ! 4)) k)))) of
       Inr v \<Rightarrow> v
     | Inl e \<Rightarrow> error_dict txt [(KStr ''ready'', VBool False), (KStr ''target_found'', VBool False)] e)"

text \<open>\<open>_ray_get\<close>: the value of a call, or the dict of the exception Ray raised.\<close>

definition ray_get_marker :: "(exc \<Rightarrow> string) \<Rightarrow> pyval py \<Rightarrow> pyval" where
  "ray_get_marker txt r = (case r of Inr v \<Rightarrow> v
     | Inl e \<Rightarrow> error_dict txt [(KStr ''ok'', VBool False), (KStr ''started'', VBool False), (KStr ''ready'', VBool False)] e)"

subsection \<open>One case\<close>

text \<open>The calls of an actor as \<open>run_rep\<close> makes them, with Ray's outcome of each.\<close>

record topk_actor =
  ta_local :: "int \<Rightarrow> int \<Rightarrow> int \<Rightarrow> int \<Rightarrow> pyval py"
  ta_coordinate :: "pyval \<Rightarrow> int \<Rightarrow> int \<Rightarrow> int \<Rightarrow> int \<Rightarrow> int \<Rightarrow> int \<Rightarrow> pyval py"

definition run_case :: "(exc \<Rightarrow> string) \<Rightarrow> topk_actor \<Rightarrow> topk_actor \<Rightarrow> pyval \<Rightarrow> pyval \<Rightarrow> pyval \<Rightarrow> pyval \<Rightarrow> topk_case \<Rightarrow> pyval py" where
  "run_case txt a b a_loc b_loc a_pid b_pid c =
     (let V = c_V c; sp = c_split c; k = c_k c; seed = c_seed c;
        a_local = ray_get_marker txt (ta_local a 0 sp seed k);
        b_local = ray_get_marker txt (ta_local b sp V seed k);
        a_coord = ray_get_marker txt (ta_coordinate a b_loc 0 sp sp V seed k);
        b_coord = ray_get_marker txt (ta_coordinate b a_loc sp V 0 sp seed k)
      in rbind (oracle_topk 0 V seed k) (\<lambda>orc. Inr (VDict [
        (KStr ''name'', VStr (c_name c)), (KStr ''V'', VInt V), (KStr ''split'', VInt sp), (KStr ''k'', VInt k),
        (KStr ''seed'', VInt seed), (KStr ''shard_a'', VList [VInt 0, VInt sp]), (KStr ''shard_b'', VList [VInt sp, VInt V]),
        (KStr ''a_loc'', a_loc), (KStr ''b_loc'', b_loc), (KStr ''a_pid'', a_pid), (KStr ''b_pid'', b_pid),
        (KStr ''a_local'', a_local), (KStr ''b_local'', b_local), (KStr ''a_coord'', a_coord), (KStr ''b_coord'', b_coord),
        (KStr ''oracle_global'', VList (map (\<lambda>c. VList [VInt (fst c), VInt (snd c)]) orc))])))"

text \<open>The native actor: Ray delivers every call, HPX was started in it, and every fetch is answered in time.\<close>

definition native_actor :: "(exc \<Rightarrow> string) \<Rightarrow> hpx_member \<Rightarrow> hpx_member list \<Rightarrow> topk_actor" where
  "native_actor txt self members = \<lparr>
     ta_local = (\<lambda>lo hi seed k. Inr (actor_local_topk txt (VInt lo) (VInt hi) (VInt seed) (VInt k))),
     ta_coordinate = (\<lambda>p ol oh pl ph seed k. Inr (actor_coordinate txt True self members True p (VInt ol) (VInt oh)
        (VInt pl) (VInt ph) (VInt seed) (VInt k))) \<rparr>"

end
