(* ===== verification/ExpTopkProps.thy ===== *)
theory ExpTopkProps
  imports ExpActors
begin

text \<open>
  What the sharded top-k experiment establishes: the merge of the shards is the oracle's list, the oracle's list is the
  best \<open>k\<close>, native actors pass every gate, a passing case carries the oracle's list in both directions, and the verdict
  and the failure class agree.
\<close>

subsection \<open>The calls of native actors\<close>

lemma norm_cands_native: "norm_cands (cands_to_py cs) = Inr (map cand_of cs)"
proof -
  have "mapM norm_cand (map cand_to_py cs) = Inr (map cand_of cs)"
    by (rule mapM_map) (simp add: norm_cand_def cand_to_py_def dict_index_def cand_of_def)
  then show ?thesis by (simp add: norm_cands_def cands_to_py_def)
qed

definition int64_range :: "int \<Rightarrow> bool" where
  "int64_range n = (- (2 ^ 63) \<le> n \<and> n < 2 ^ 63)"

lemma int64_word: "int64_range n \<Longrightarrow> sint (word_of_int n :: 64 word) = n"
  by (simp add: int64_range_def sint_sbintrunc' signed_take_bit_int_eq_self)

lemma cross_int64_range: "int64_range n \<Longrightarrow> cross_int64 (VInt n) = Inr n"
  by (simp add: int64_range_def cross_int64_def)

text \<open>The native answer for a shard.\<close>

definition shard_best :: "int \<Rightarrow> int \<Rightarrow> int \<Rightarrow> int \<Rightarrow> ncand list" where
  "shard_best lo hi seed k = best_of k (shard_cands (word_of_int lo) (word_of_int hi) (word_of_int seed))"

lemma oracle_shard:
  "0 \<le> k \<Longrightarrow> int64_range lo \<Longrightarrow> int64_range hi \<Longrightarrow> int64_range seed
    \<Longrightarrow> oracle_topk lo hi seed k = Inr (map cand_of (shard_best lo hi seed k))"
  using oracle_topk_best [of k "word_of_int lo" "word_of_int hi" "word_of_int seed"]
  by (simp add: int64_word shard_best_def)

lemma local_topk_shard:
  "0 \<le> k \<Longrightarrow> int64_range lo \<Longrightarrow> int64_range hi \<Longrightarrow> hi - lo < 2 ^ 31
    \<Longrightarrow> local_topk (word_of_int lo) (word_of_int hi) (word_of_int seed) k = Inr (shard_best lo hi seed k)"
  by (simp add: local_topk_key shard_best_def int64_word)

lemma merge_shards:
  assumes "0 \<le> k" "int64_range lo" "int64_range mid" "int64_range hi" "lo \<le> mid" "mid \<le> hi" "hi - lo < 2 ^ 31"
  shows "merge_topk (shard_best lo mid seed k) (shard_best mid hi seed k) k = Inr (shard_best lo hi seed k)"
    and "merge_topk (shard_best mid hi seed k) (shard_best lo mid seed k) k = Inr (shard_best lo hi seed k)"
  unfolding shard_best_def using assms by (auto intro!: merge_topk_shards simp: int64_word)

lemma actor_local_topk_native:
  assumes "0 \<le> k" "k < 2 ^ 31" "int64_range lo" "int64_range hi" "int64_range seed" "hi - lo < 2 ^ 31"
  shows "actor_local_topk txt (VInt lo) (VInt hi) (VInt seed) (VInt k) = cands_to_py (shard_best lo hi seed k)"
proof -
  have "cross_int32 (VInt k) = Inr k" using assms by (simp add: cross_int32_def)
  then show ?thesis
    using assms by (simp add: actor_local_topk_def cross_int64_range ext_local_topk_def local_topk_shard)
qed

definition reply_of :: "hpx_member \<Rightarrow> ncand list \<Rightarrow> topk_reply" where
  "reply_of p cs = \<lparr> tr_cands = cs, tr_pid = hm_pid p, tr_locality = hm_locality p, tr_host = hm_host p \<rparr>"

lemma find_member:
  assumes "distinct (map hm_locality members)" "p \<in> set members"
  shows "find (\<lambda>q. hm_locality q = hm_locality p) (rev members) = Some p"
proof -
  have "find (\<lambda>q. hm_locality q = hm_locality p) ms = Some p"
    if "distinct (map hm_locality ms)" "p \<in> set ms" for ms
    using that by (induction ms) (auto simp: image_iff)
  from this [of "rev members"] assms show ?thesis by (simp add: rev_map [symmetric])
qed

lemma actor_coordinate_native:
  assumes k: "0 \<le> k" "k < 2 ^ 31" and m: "distinct (map hm_locality members)" "peer \<in> set members"
    and r: "int64_range ol" "int64_range oh" "int64_range pl" "int64_range ph" "int64_range seed"
      "oh - ol < 2 ^ 31" "ph - pl < 2 ^ 31"
    and g: "merge_topk (shard_best ol oh seed k) (shard_best pl ph seed k) k = Inr global"
  shows "actor_coordinate txt True self members True (VInt (uint (hm_locality peer))) (VInt ol) (VInt oh) (VInt pl) (VInt ph)
      (VInt seed) (VInt k)
    = coord_dict True True global (shard_best ol oh seed k) (reply_of peer (shard_best pl ph seed k)) self"
proof -
  have "cross_int32 (VInt k) = Inr k" using k by (simp add: cross_int32_def)
  moreover have "cross_uint32 (VInt (uint (hm_locality peer))) = Inr (uint (hm_locality peer))"
    using uint_range_size [of "hm_locality peer"] by (simp add: cross_uint32_def word_size)
  ultimately show ?thesis
    using k r g by (simp add: actor_coordinate_def cross_int64_range ext_coordinate_def local_topk_shard find_member [OF m]
        exp68_local_topk_def reply_of_def)
qed

subsection \<open>A case run by native actors\<close>

lemma got_cands_key: "map_of d (KStr key) = Some v \<Longrightarrow> got_cands (VDict d) key = norm_cands v"
  by (simp add: got_cands_def get_key_def get_key_or_def)

lemma coord_cands: "got_cands (coord_dict f r global own reply self) ''global_topk'' = Inr (map cand_of global)"
  unfolding coord_dict_def by (subst got_cands_key [where v = "cands_to_py global"]) (simp_all add: norm_cands_native)

lemma coord_get [simp]:
  "get_key (coord_dict f r global own reply self) ''ready'' = Inr (VBool r)"
  "get_key (coord_dict f r global own reply self) ''target_found'' = Inr (VBool f)"
  "get_key (coord_dict f r global own reply self) ''peer_locality'' = Inr (VInt (uint (tr_locality reply)))"
  "get_key (coord_dict f r global own reply self) ''own_locality'' = Inr (VInt (uint (hm_locality self)))"
  "get_key (coord_dict f r global own reply self) ''peer_pid'' = Inr (VInt (sint (tr_pid reply)))"
  "get_key (coord_dict f r global own reply self) ''own_pid'' = Inr (VInt (sint (hm_pid self)))"
  "get_key (coord_dict f r global own reply self) ''hpx_composition'' = Inr (comp_flags r)"
  "or_empty (coord_dict f r global own reply self) = coord_dict f r global own reply self"
  by (simp_all add: coord_dict_def get_key_def get_key_or_def or_empty_def)

lemma comp_ok_flags: "comp_ok (comp_flags b) = Inr b"
  by (cases b) (simp_all add: comp_ok_def comp_flags_def got_def get_key_def get_key_or_def pand_def)

lemma sorted_shard:
  assumes "0 \<le> k" "int64_range lo" "int64_range hi" "int64_range seed"
  shows "is_sorted_total_order (map cand_of (shard_best lo hi seed k)) = Inr True"
  using oracle_topk_exact [OF assms(1), of lo hi seed] oracle_shard [OF assms] by auto

definition case_dict :: "topk_case \<Rightarrow> pyval \<Rightarrow> pyval \<Rightarrow> pyval \<Rightarrow> pyval \<Rightarrow> pyval \<Rightarrow> pyval \<Rightarrow> pyval \<Rightarrow> pyval \<Rightarrow> cand list \<Rightarrow> pyval" where
  "case_dict c a_loc b_loc a_pid b_pid a_local b_local a_coord b_coord orc = VDict [
     (KStr ''name'', VStr (c_name c)), (KStr ''V'', VInt (c_V c)), (KStr ''split'', VInt (c_split c)), (KStr ''k'', VInt (c_k c)),
     (KStr ''seed'', VInt (c_seed c)), (KStr ''shard_a'', VList [VInt 0, VInt (c_split c)]),
     (KStr ''shard_b'', VList [VInt (c_split c), VInt (c_V c)]),
     (KStr ''a_loc'', a_loc), (KStr ''b_loc'', b_loc), (KStr ''a_pid'', a_pid), (KStr ''b_pid'', b_pid),
     (KStr ''a_local'', a_local), (KStr ''b_local'', b_local), (KStr ''a_coord'', a_coord), (KStr ''b_coord'', b_coord),
     (KStr ''oracle_global'', VList (map (\<lambda>c. VList [VInt (fst c), VInt (snd c)]) orc))]"

lemma case_dict_key:
  "get_key (case_dict c al bl ap bp a b ac bc orc) ''a_loc'' = Inr al"
  "get_key (case_dict c al bl ap bp a b ac bc orc) ''b_loc'' = Inr bl"
  "get_key (case_dict c al bl ap bp a b ac bc orc) ''a_pid'' = Inr ap"
  "get_key (case_dict c al bl ap bp a b ac bc orc) ''b_pid'' = Inr bp"
  "sub_dict (case_dict c al bl ap bp a b ac bc orc) ''a_coord'' = Inr (or_empty ac)"
  "sub_dict (case_dict c al bl ap bp a b ac bc orc) ''b_coord'' = Inr (or_empty bc)"
  "got_cands (case_dict c al bl ap bp a b ac bc orc) ''a_local'' = norm_cands a"
  "got_cands (case_dict c al bl ap bp a b ac bc orc) ''b_local'' = norm_cands b"
  by (simp_all add: case_dict_def get_key_def get_key_or_def sub_dict_def got_cands_def)

lemma run_case_dict:
  "run_case txt a b a_loc b_loc a_pid b_pid c =
    rbind (oracle_topk 0 (c_V c) (c_seed c) (c_k c)) (\<lambda>orc. Inr (case_dict c a_loc b_loc a_pid b_pid
      (ray_get_marker txt (ta_local a 0 (c_split c) (c_seed c) (c_k c)))
      (ray_get_marker txt (ta_local b (c_split c) (c_V c) (c_seed c) (c_k c)))
      (ray_get_marker txt (ta_coordinate a b_loc 0 (c_split c) (c_split c) (c_V c) (c_seed c) (c_k c)))
      (ray_get_marker txt (ta_coordinate b a_loc (c_split c) (c_V c) 0 (c_split c) (c_seed c) (c_k c))) orc))"
  by (simp add: run_case_def case_dict_def Let_def)

lemma comp_dict: "or_empty (comp_flags b) = comp_flags b"
  by (simp add: or_empty_def comp_flags_def)

lemma sub_comp: "sub_dict (coord_dict f r global own reply self) ''hpx_composition'' = Inr (comp_flags r)"
  by (simp add: sub_dict_def comp_dict)

text \<open>The case dict of native actors passes every test.\<close>

lemma native_tests:
  fixes A B :: hpx_member and c :: topk_case
  defines "V \<equiv> c_V c" and "sp \<equiv> c_split c" and "k \<equiv> c_k c" and "seed \<equiv> c_seed c"
  assumes p: "0 < sp" "sp < V" and loc: "hm_locality A \<noteq> 0" "hm_locality B \<noteq> 0"
    and srt: "is_sorted_total_order (map cand_of (shard_best 0 sp seed k)) = Inr True"
      "is_sorted_total_order (map cand_of (shard_best sp V seed k)) = Inr True"
  shows "h \<in> set (case_tests c (map cand_of (shard_best 0 sp seed k)) (map cand_of (shard_best sp V seed k))
       (map cand_of G) (map cand_of (shard_best 0 sp seed k)) (map cand_of (shard_best sp V seed k)) (map cand_of G) (map cand_of G)
       (coord_dict True True G own (reply_of B cs) A) (coord_dict True True G own' (reply_of A cs') B)
       (comp_flags True) (comp_flags True) (VInt (uint (hm_locality A))) (VInt (uint (hm_locality B)))
       (VInt (sint (hm_pid A))) (VInt (sint (hm_pid B)))) \<Longrightarrow> snd h = Inr True"
proof -
  have nr: "(unsigned (hm_locality A) :: rat) \<noteq> 0" "(unsigned (hm_locality B) :: rat) \<noteq> 0" using loc by (simp_all add: unsigned_eq_0_iff)
  show "h \<in> set (case_tests c (map cand_of (shard_best 0 sp seed k)) (map cand_of (shard_best sp V seed k))
       (map cand_of G) (map cand_of (shard_best 0 sp seed k)) (map cand_of (shard_best sp V seed k)) (map cand_of G) (map cand_of G)
       (coord_dict True True G own (reply_of B cs) A) (coord_dict True True G own' (reply_of A cs') B)
       (comp_flags True) (comp_flags True) (VInt (uint (hm_locality A))) (VInt (uint (hm_locality B)))
       (VInt (sint (hm_pid A))) (VInt (sint (hm_pid B)))) \<Longrightarrow> snd h = Inr True"
    unfolding case_tests_def set_simps
    by (elim insertE emptyE, insert p srt nr)
      (simp_all add: partition_ok_def V_def sp_def pand_def got_def got_eq_def got_non_root_def non_root_def comp_ok_flags reply_of_def)
qed

lemma ray_get_ok [simp]: "ray_get_marker txt (Inr v) = v"
  by (simp add: ray_get_marker_def)

lemma eval_case_dict:
  "eval_case c (case_dict c a_loc b_loc a_pid b_pid a_local b_local a_coord b_coord orc) =
     rbind (oracle_topk 0 (c_split c) (c_seed c) (c_k c)) (\<lambda>orc_a.
     rbind (oracle_topk (c_split c) (c_V c) (c_seed c) (c_k c)) (\<lambda>orc_b.
     rbind (oracle_topk 0 (c_V c) (c_seed c) (c_k c)) (\<lambda>orc_g.
     rbind (norm_cands a_local) (\<lambda>al. rbind (norm_cands b_local) (\<lambda>bl.
     rbind (got_cands (or_empty a_coord) ''global_topk'') (\<lambda>ag. rbind (got_cands (or_empty b_coord) ''global_topk'') (\<lambda>bg.
     rbind (sub_dict (or_empty a_coord) ''hpx_composition'') (\<lambda>acomp. rbind (sub_dict (or_empty b_coord) ''hpx_composition'') (\<lambda>bcomp.
     run_gates (case_tests c orc_a orc_b orc_g al bl ag bg (or_empty a_coord) (or_empty b_coord) acomp bcomp a_loc b_loc
       a_pid b_pid))))))))))"
  by (simp add: eval_case_def case_dict_key)

lemma native_case_run:
  assumes part: "0 < c_split c" "c_split c < c_V c" "c_V c < 2 ^ 31"
    and k: "0 \<le> c_k c" "c_k c < 2 ^ 31" and seed: "- (2 ^ 63) \<le> c_seed c" "c_seed c < 2 ^ 63"
    and m: "distinct (map hm_locality members)" "A \<in> set members" "B \<in> set members"
    and loc: "hm_locality A \<noteq> 0" "hm_locality B \<noteq> 0"
  shows "\<exists>oa ob og a_local b_local cr g.
    cr = case_dict c (VInt (uint (hm_locality A))) (VInt (uint (hm_locality B))) (VInt (sint (hm_pid A))) (VInt (sint (hm_pid B)))
      a_local b_local (coord_dict True True og oa (reply_of B ob) A) (coord_dict True True og ob (reply_of A oa) B) (map cand_of og)
    \<and> run_case txt (native_actor txt A members) (native_actor txt B members) (VInt (uint (hm_locality A)))
      (VInt (uint (hm_locality B))) (VInt (sint (hm_pid A))) (VInt (sint (hm_pid B))) c = Inr cr
    \<and> oracle_topk 0 (c_split c) (c_seed c) (c_k c) = Inr (map cand_of oa)
    \<and> oracle_topk (c_split c) (c_V c) (c_seed c) (c_k c) = Inr (map cand_of ob)
    \<and> eval_case c cr = Inr g \<and> all_gates g"
proof -
  let ?V = "c_V c" and ?s = "c_split c" and ?k = "c_k c" and ?sd = "c_seed c"
  have r: "int64_range 0" "int64_range ?s" "int64_range ?V" "int64_range ?sd"
    using part seed by (simp_all add: int64_range_def)
  note orc = oracle_shard [OF k(1)]
  have mg: "merge_topk (shard_best 0 ?s ?sd ?k) (shard_best ?s ?V ?sd ?k) ?k = Inr (shard_best 0 ?V ?sd ?k)"
    "merge_topk (shard_best ?s ?V ?sd ?k) (shard_best 0 ?s ?sd ?k) ?k = Inr (shard_best 0 ?V ?sd ?k)"
    using merge_shards [of ?k 0 ?s ?V] k r part by simp_all
  define ac where "ac = coord_dict True True (shard_best 0 ?V ?sd ?k) (shard_best 0 ?s ?sd ?k)
    (reply_of B (shard_best ?s ?V ?sd ?k)) A"
  define bc where "bc = coord_dict True True (shard_best 0 ?V ?sd ?k) (shard_best ?s ?V ?sd ?k)
    (reply_of A (shard_best 0 ?s ?sd ?k)) B"
  let ?cr = "case_dict c (VInt (uint (hm_locality A))) (VInt (uint (hm_locality B))) (VInt (sint (hm_pid A)))
    (VInt (sint (hm_pid B))) (cands_to_py (shard_best 0 ?s ?sd ?k)) (cands_to_py (shard_best ?s ?V ?sd ?k)) ac bc
    (map cand_of (shard_best 0 ?V ?sd ?k))"
  have run: "run_case txt (native_actor txt A members) (native_actor txt B members) (VInt (uint (hm_locality A)))
      (VInt (uint (hm_locality B))) (VInt (sint (hm_pid A))) (VInt (sint (hm_pid B))) c = Inr ?cr"
    using k r part by (simp add: run_case_dict native_actor_def orc actor_local_topk_native ac_def bc_def
        actor_coordinate_native [OF k m(1) m(3) _ _ _ _ _ _ _ mg(1)] actor_coordinate_native [OF k m(1) m(2) _ _ _ _ _ _ _ mg(2)])
  let ?T = "case_tests c (map cand_of (shard_best 0 ?s ?sd ?k)) (map cand_of (shard_best ?s ?V ?sd ?k))
      (map cand_of (shard_best 0 ?V ?sd ?k)) (map cand_of (shard_best 0 ?s ?sd ?k)) (map cand_of (shard_best ?s ?V ?sd ?k))
      (map cand_of (shard_best 0 ?V ?sd ?k)) (map cand_of (shard_best 0 ?V ?sd ?k)) ac bc
      (comp_flags True) (comp_flags True) (VInt (uint (hm_locality A))) (VInt (uint (hm_locality B)))
      (VInt (sint (hm_pid A))) (VInt (sint (hm_pid B)))"
  have tests: "run_gates ?T = Inr (map (\<lambda>p. (fst p, True)) ?T)"
    unfolding ac_def bc_def
    using native_tests [OF part(1,2) loc sorted_shard sorted_shard] k r by (intro run_gates_true) blast
  have "eval_case c ?cr = run_gates ?T"
    using r by (simp add: eval_case_dict orc norm_cands_native ac_def bc_def coord_cands sub_comp)
  with tests have "\<exists>g. eval_case c ?cr = Inr g \<and> all_gates g" by (auto simp: all_gates_def list_all_iff)
  then show ?thesis using run orc r unfolding ac_def bc_def by blast
qed

text \<open>Two native actors on distinct localities other than the root, whose fetches are answered in time, pass every
  gate of every case: the candidates they compute and merge are the oracle's, bit by bit.\<close>

theorem native_case_passes:
  assumes "0 < c_split c" "c_split c < c_V c" "c_V c < 2 ^ 31"
    and "0 \<le> c_k c" "c_k c < 2 ^ 31" and "- (2 ^ 63) \<le> c_seed c" "c_seed c < 2 ^ 63"
    and "distinct (map hm_locality members)" "A \<in> set members" "B \<in> set members"
    and "hm_locality A \<noteq> 0" "hm_locality B \<noteq> 0"
  shows "\<exists>cr g. run_case txt (native_actor txt A members) (native_actor txt B members) (VInt (uint (hm_locality A)))
      (VInt (uint (hm_locality B))) (VInt (sint (hm_pid A))) (VInt (sint (hm_pid B))) c = Inr cr
    \<and> eval_case c cr = Inr g \<and> all_gates g"
  using native_case_run [OF assms] by blast

text \<open>The case \<open>tiny_k3\<close> of the matrix.\<close>

definition tiny_k3 :: topk_case where
  "tiny_k3 = \<lparr> c_name = ''tiny_k3'', c_V = 8, c_split = 4, c_k = 3, c_seed = 7 \<rparr>"

lemma native_case_passes_witness:
  "\<exists>cr g. run_case (\<lambda>_. []) (native_actor (\<lambda>_. []) \<lparr> hm_locality = 1, hm_pid = 5001, hm_host = ''a'' \<rparr>
        [\<lparr> hm_locality = 1, hm_pid = 5001, hm_host = ''a'' \<rparr>, \<lparr> hm_locality = 2, hm_pid = 5002, hm_host = ''a'' \<rparr>])
      (native_actor (\<lambda>_. []) \<lparr> hm_locality = 2, hm_pid = 5002, hm_host = ''a'' \<rparr>
        [\<lparr> hm_locality = 1, hm_pid = 5001, hm_host = ''a'' \<rparr>, \<lparr> hm_locality = 2, hm_pid = 5002, hm_host = ''a'' \<rparr>])
      (VInt 1) (VInt 2) (VInt 5001) (VInt 5002) tiny_k3 = Inr cr
    \<and> eval_case tiny_k3 cr = Inr g \<and> all_gates g"
  using native_case_passes [of tiny_k3
      "[\<lparr> hm_locality = 1, hm_pid = 5001, hm_host = ''a'' \<rparr>, \<lparr> hm_locality = 2, hm_pid = 5002, hm_host = ''a'' \<rparr>]"
      "\<lparr> hm_locality = 1, hm_pid = 5001, hm_host = ''a'' \<rparr>" "\<lparr> hm_locality = 2, hm_pid = 5002, hm_host = ''a'' \<rparr>" "\<lambda>_. []"]
  by (simp add: tiny_k3_def)

subsection \<open>The merge of the shards\<close>

text \<open>C31. Merging the local top-k of two adjacent shards of a vocabulary of fewer than \<open>2 ^ 31\<close> tokens, wherever it
  lies in the 64-bit range, in either order, is the local top-k of the whole vocabulary, and it is the list of the
  Python oracle. (From \<open>2 ^ 31\<close> candidates on the code's \<open>int\<close> of the size is negative and nothing is cut.)\<close>

theorem sharded_topk:
  assumes "0 \<le> k" "sint lo \<le> sint mid" "sint mid \<le> sint hi" "sint hi - sint lo < 2 ^ 31"
  shows "\<exists>a b g. local_topk lo mid seed k = Inr a \<and> local_topk mid hi seed k = Inr b \<and> local_topk lo hi seed k = Inr g
    \<and> merge_topk a b k = Inr g \<and> merge_topk b a k = Inr g
    \<and> oracle_topk (sint lo) (sint hi) (sint seed) k = Inr (map cand_of g)"
proof -
  have "sint mid - sint lo < 2 ^ 31" "sint hi - sint mid < 2 ^ 31" using assms(2-4) by linarith+
  then show ?thesis
    using merge_topk_shards [OF assms] local_topk_key [OF assms(1)] assms(4) oracle_topk_best [OF assms(1)] by blast
qed

lemma sharded_topk_witness:
  "\<exists>a b g. local_topk 0 4 7 3 = Inr a \<and> local_topk 4 8 7 3 = Inr b \<and> local_topk 0 8 7 3 = Inr g
    \<and> merge_topk a b 3 = Inr g \<and> merge_topk b a 3 = Inr g \<and> oracle_topk 0 8 7 3 = Inr (map cand_of g)"
  using sharded_topk [of 3 0 4 8 7] by simp

text \<open>C32. The oracle is what it is meant to be: the \<open>k\<close> best tokens of the interval under the total order (a higher logit
  first, then a lower token), each with the exact bit pattern of its logit, in that order.\<close>

theorem oracle_is_best_k:
  assumes "0 \<le> k"
  shows "\<exists>cs. oracle_topk lo hi seed k = Inr cs \<and> int (length cs) = min k (max 0 (hi - lo))
    \<and> is_sorted_total_order cs = Inr True
    \<and> (\<forall>c \<in> set cs. lo \<le> fst c \<and> fst c < hi \<and> logit_bits (fst c) seed = Inr (snd c)
        \<and> f32_value (snd c) = Fin (of_int (grid_value (fst c) seed) / 8))
    \<and> (\<forall>c \<in> set cs. \<forall>t. lo \<le> t \<and> t < hi \<and> t \<notin> fst ` set cs \<longrightarrow>
        grid_value t seed < grid_value (fst c) seed \<or> grid_value (fst c) seed = grid_value t seed \<and> fst c < t)"
  using oracle_topk_exact [OF assms] unfolding ranks_before_def .

lemma oracle_is_best_k_witness:
  "\<exists>cs. oracle_topk 0 8 7 3 = Inr cs \<and> length cs = 3 \<and> is_sorted_total_order cs = Inr True
    \<and> (\<forall>c \<in> set cs. \<forall>t. 0 \<le> t \<and> t < 8 \<and> t \<notin> fst ` set cs \<longrightarrow>
        grid_value t 7 < grid_value (fst c) 7 \<or> grid_value (fst c) 7 = grid_value t 7 \<and> fst c < t)"
  using oracle_is_best_k [of 3 0 8 7] by auto

subsection \<open>What a passing case establishes\<close>

text \<open>The tests of a case, once its evidence was read.\<close>

lemma eval_case_tests:
  assumes "eval_case c cr = Inr g"
  obtains oa ob og al bl ac bc ag bg acomp bcomp a_loc b_loc a_pid b_pid where
    "oracle_topk 0 (c_V c) (c_seed c) (c_k c) = Inr og"
    "sub_dict cr ''a_coord'' = Inr ac" "sub_dict cr ''b_coord'' = Inr bc"
    "got_cands ac ''global_topk'' = Inr ag" "got_cands bc ''global_topk'' = Inr bg"
    "get_key cr ''a_loc'' = Inr a_loc" "get_key cr ''b_loc'' = Inr b_loc"
    "run_gates (case_tests c oa ob og al bl ag bg ac bc acomp bcomp a_loc b_loc a_pid b_pid) = Inr g"
  using assms unfolding eval_case_def by (auto simp: rbind_eq_Inr)

lemma in_case_tests:
  "(''shard_partition_ok'', Inr (partition_ok (c_V c) (c_split c)))
     \<in> set (case_tests c oa ob og al bl ag bg ac bc acomp bcomp a_loc b_loc a_pid b_pid)"
  "(''a_merge_equals_oracle'', Inr (ag = og)) \<in> set (case_tests c oa ob og al bl ag bg ac bc acomp bcomp a_loc b_loc a_pid b_pid)"
  "(''b_merge_equals_oracle'', Inr (bg = og)) \<in> set (case_tests c oa ob og al bl ag bg ac bc acomp bcomp a_loc b_loc a_pid b_pid)"
  "(''a_peer_is_b'', all_of [got_eq ac ''peer_locality'' b_loc, got_eq ac ''peer_pid'' b_pid])
     \<in> set (case_tests c oa ob og al bl ag bg ac bc acomp bcomp a_loc b_loc a_pid b_pid)"
  "(''b_peer_is_a'', all_of [got_eq bc ''peer_locality'' a_loc, got_eq bc ''peer_pid'' a_pid])
     \<in> set (case_tests c oa ob og al bl ag bg ac bc acomp bcomp a_loc b_loc a_pid b_pid)"
  by (simp_all add: case_tests_def)

text \<open>A case whose gates all hold carries the oracle's list from both coordinators, each reporting the other's
  locality as its peer, whatever the evidence is.\<close>

theorem passing_case_exact:
  assumes "eval_case c cr = Inr g" and "all_gates g"
  shows "0 < c_split c \<and> c_split c < c_V c \<and> (\<exists>ac bc a_loc b_loc cs.
    sub_dict cr ''a_coord'' = Inr ac \<and> sub_dict cr ''b_coord'' = Inr bc
    \<and> oracle_topk 0 (c_V c) (c_seed c) (c_k c) = Inr cs
    \<and> got_cands ac ''global_topk'' = Inr cs \<and> got_cands bc ''global_topk'' = Inr cs
    \<and> get_key cr ''a_loc'' = Inr a_loc \<and> get_key cr ''b_loc'' = Inr b_loc
    \<and> got_eq ac ''peer_locality'' b_loc = Inr True \<and> got_eq bc ''peer_locality'' a_loc = Inr True)"
proof -
  obtain oa ob og al bl ac bc ag bg acomp bcomp a_loc b_loc a_pid b_pid where
    e: "oracle_topk 0 (c_V c) (c_seed c) (c_k c) = Inr og"
      "sub_dict cr ''a_coord'' = Inr ac" "sub_dict cr ''b_coord'' = Inr bc"
      "got_cands ac ''global_topk'' = Inr ag" "got_cands bc ''global_topk'' = Inr bg"
      "get_key cr ''a_loc'' = Inr a_loc" "get_key cr ''b_loc'' = Inr b_loc"
    and t: "run_gates (case_tests c oa ob og al bl ag bg ac bc acomp bcomp a_loc b_loc a_pid b_pid) = Inr g"
    using eval_case_tests [OF assms(1)] by metis
  have "\<forall>h \<in> set (case_tests c oa ob og al bl ag bg ac bc acomp bcomp a_loc b_loc a_pid b_pid). snd h = Inr True"
    using run_gates_all [OF t] assms(2) by blast
  note all = bspec [OF this]
  have "partition_ok (c_V c) (c_split c)" "ag = og" "bg = og"
    "got_eq ac ''peer_locality'' b_loc = Inr True" "got_eq bc ''peer_locality'' a_loc = Inr True"
    using all [OF in_case_tests(1)] all [OF in_case_tests(2)] all [OF in_case_tests(3)]
      all [OF in_case_tests(4)] all [OF in_case_tests(5)] by (simp_all add: all_of_True del: all_of.simps)
  with e show ?thesis by (auto simp: partition_ok_def)
qed

lemma tiny_k3_gates: "\<exists>cr g. eval_case tiny_k3 cr = Inr g \<and> all_gates g"
  using native_case_run [of tiny_k3
      "[\<lparr> hm_locality = 1, hm_pid = 5001, hm_host = ''a'' \<rparr>, \<lparr> hm_locality = 2, hm_pid = 5002, hm_host = ''a'' \<rparr>]"
      "\<lparr> hm_locality = 1, hm_pid = 5001, hm_host = ''a'' \<rparr>" "\<lparr> hm_locality = 2, hm_pid = 5002, hm_host = ''a'' \<rparr>" "\<lambda>_. []"]
  by (auto simp: tiny_k3_def)

lemma passing_case_exact_witness:
  "\<exists>cr g ac bc cs. eval_case tiny_k3 cr = Inr g \<and> all_gates g
    \<and> sub_dict cr ''a_coord'' = Inr ac \<and> sub_dict cr ''b_coord'' = Inr bc \<and> oracle_topk 0 8 7 3 = Inr cs
    \<and> got_cands ac ''global_topk'' = Inr cs \<and> got_cands bc ''global_topk'' = Inr cs"
proof -
  obtain cr g where "eval_case tiny_k3 cr = Inr g" "all_gates g" using tiny_k3_gates by blast
  moreover have "c_V tiny_k3 = 8" "c_seed tiny_k3 = 7" "c_k tiny_k3 = 3" by (simp_all add: tiny_k3_def)
  ultimately show ?thesis using passing_case_exact [of tiny_k3 cr g] by metis
qed

text \<open>A call that did not answer: Ray raised, or the actor returned the dict of its exception.\<close>

definition failed_call :: "(exc \<Rightarrow> string) \<Rightarrow> pyval py \<Rightarrow> bool" where
  "failed_call txt r = (\<exists>e. r = Inl e \<or> r = Inr (error_dict txt [] e))"

lemma failed_call_cands: "failed_call txt r \<Longrightarrow> norm_cands (ray_get_marker txt r) = Inl TypeError"
  by (auto simp: failed_call_def ray_get_marker_def error_dict_def norm_cands_def norm_cand_def dict_index_def)

text \<open>C33. A shard call of either actor that fails, in the actor or in Ray, is recorded as a dict with the error. Evaluating
  the case then always raises, so the failure class for a wrong shard is never reached: \<open>TypeError\<close>, on the dict's keys,
  unless only B's call failed and A's answer could not be read either, which is read first.\<close>

theorem failed_shard_call_raises:
  assumes "0 \<le> c_k c" and "run_case txt a b a_loc b_loc a_pid b_pid c = Inr cr"
    and "failed_call txt (ta_local a 0 (c_split c) (c_seed c) (c_k c))
      \<or> failed_call txt (ta_local b (c_split c) (c_V c) (c_seed c) (c_k c))"
  shows "eval_case c cr = Inl TypeError
    \<or> (\<exists>x. eval_case c cr = Inl x \<and> norm_cands (ray_get_marker txt (ta_local a 0 (c_split c) (c_seed c) (c_k c))) = Inl x
        \<and> \<not> failed_call txt (ta_local a 0 (c_split c) (c_seed c) (c_k c)))"
proof (cases "norm_cands (ray_get_marker txt (ta_local a 0 (c_split c) (c_seed c) (c_k c)))")
  case (Inl x)
  then have "eval_case c cr = Inl x" using assms(2)
    by (auto simp: run_case_dict rbind_eq_Inr eval_case_dict oracle_topk_key [OF assms(1)])
  then show ?thesis using Inl failed_call_cands by fastforce
next
  case (Inr cs)
  then have "failed_call txt (ta_local b (c_split c) (c_V c) (c_seed c) (c_k c))"
    using assms(3) failed_call_cands by fastforce
  then show ?thesis using Inr assms(2) failed_call_cands
    by (auto simp: run_case_dict rbind_eq_Inr eval_case_dict oracle_topk_key [OF assms(1)])
qed

definition silent_actor :: "pyval py \<Rightarrow> topk_actor" where
  "silent_actor r = \<lparr> ta_local = \<lambda>_ _ _ _. r, ta_coordinate = \<lambda>_ _ _ _ _ _ _. Inl RuntimeError \<rparr>"

lemma failed_shard_call_raises_witness:
  "list_all (\<lambda>(ra, rb). \<exists>cr. run_case (\<lambda>_. ''x'') (silent_actor ra) (silent_actor rb) (VInt 1) (VInt 2) (VInt 3) (VInt 4)
      tiny_k3 = Inr cr \<and> eval_case tiny_k3 cr = Inl TypeError)
    [(Inl RuntimeError, Inr (VList [])), (Inr (VList []), Inl RuntimeError)]"
proof -
  have run: "\<exists>cr. run_case (\<lambda>_. ''x'') (silent_actor ra) (silent_actor rb) (VInt 1) (VInt 2) (VInt 3) (VInt 4) tiny_k3 = Inr cr"
    for ra rb using oracle_topk_key [of 3 0 8 7] by (auto simp: run_case_dict tiny_k3_def silent_actor_def)
  obtain cr where r: "run_case (\<lambda>_. ''x'') (silent_actor (Inl RuntimeError)) (silent_actor (Inr (VList [])))
      (VInt 1) (VInt 2) (VInt 3) (VInt 4) tiny_k3 = Inr cr" using run by blast
  obtain cr' where r': "run_case (\<lambda>_. ''x'') (silent_actor (Inr (VList []))) (silent_actor (Inl RuntimeError))
      (VInt 1) (VInt 2) (VInt 3) (VInt 4) tiny_k3 = Inr cr'" using run by blast
  have "eval_case tiny_k3 cr = Inl TypeError"
    using failed_shard_call_raises [OF _ r] by (auto simp: tiny_k3_def silent_actor_def failed_call_def)
  moreover have "eval_case tiny_k3 cr' = Inl TypeError"
    using failed_shard_call_raises [OF _ r']
    by (auto simp: tiny_k3_def silent_actor_def failed_call_def ray_get_marker_def norm_cands_def)
  ultimately show ?thesis using r r' by simp
qed

subsection \<open>Verdict and failure class\<close>

lemma first_failed_class: "first_failed cs = Some f \<Longrightarrow> f \<in> snd ` set cs"
  by (induction cs) (auto split: if_splits)

lemma first_failed_not: "list_all (\<lambda>s. s \<noteq> f) (map snd cs) \<Longrightarrow> first_failed cs \<noteq> Some f"
  using first_failed_class [of cs f] by (auto simp: list_all_iff)

lemma first_failed_None: "first_failed cs = None \<longleftrightarrow> list_all fst cs"
  by (induction cs) auto

lemma class_not_pass: "topology_class ga \<noteq> Some ''pass''" "case_class cg \<noteq> Some ''pass''" "lifecycle_class gf \<noteq> Some ''pass''"
  unfolding topology_class_def case_class_def lifecycle_class_def
  by (rule first_failed_not, simp only: list.map snd_conv, code_simp)+

lemma cases_class_not_pass: "cases_class cgs \<noteq> Some ''pass''"
  by (induction cgs) (auto split: option.splits simp: class_not_pass)

lemma pass_verdict: "failure_class ga gf ces = ''pass'' \<Longrightarrow> rep_verdict ga gf (map snd ces)"
  using class_not_pass(1) [of ga] class_not_pass(3) [of gf] cases_class_not_pass [of "map snd ces"]
  by (auto simp: failure_class_def split: option.splits if_splits)

lemma gates_named: "run_gates ts = Inr g \<Longrightarrow> all_gates g \<Longrightarrow> list_all (\<lambda>n. n \<in> fst ` set ts) ns \<Longrightarrow> list_all (gate g) ns"
  using all_gates_gate [of g] run_gates_names [of ts g] by (auto simp: list_all_iff) (metis list.set_map)

lemma slice_a_gates:
  assumes "eval_slice_a m = Inr ga" "all_gates ga"
  shows "topology_class ga = None"
proof -
  obtain ai bi as bs ac bc rr rf ap bp al bl acv bcv mm where
    t: "run_gates (slice_a_tests m ai bi as bs ac bc rr rf ap bp al bl acv bcv mm) = Inr ga"
    using assms(1) unfolding eval_slice_a_def by (auto simp: rbind_eq_Inr)
  show ?thesis
    using gates_named [OF t assms(2), of "[''evidence_complete'', ''all_shards_disjoint_complete'',
      ''actor_a_started_in_worker'', ''actor_b_started_in_worker'', ''both_in_process_no_hpx_child'',
      ''two_distinct_ray_processes'', ''distinct_nonzero_localities'', ''shared_island_membership'']"]
    by (simp add: slice_a_tests_def topology_class_def)
qed

lemma slice_f_gates:
  assumes "eval_slice_f m = Inr gf" "all_gates gf"
  shows "lifecycle_class gf = None"
proof -
  obtain rf rr ap bp ar br where t: "run_gates (slice_f_tests m rf rr ap bp ar br) = Inr gf"
    using assms(1) unfolding eval_slice_f_def by (auto simp: rbind_eq_Inr)
  show ?thesis
    using gates_named [OF t assms(2), of "[''actor_a_recreation'', ''actor_b_recreation'', ''no_orphans'']"] assms(2)
    by (simp add: slice_f_tests_def lifecycle_class_def)
qed

lemma case_gates:
  assumes "eval_case c cr = Inr cg" "all_gates cg"
  shows "case_class cg = None"
proof -
  obtain oa ob og al bl ac bc ag bg acomp bcomp a_loc b_loc a_pid b_pid where
    t: "run_gates (case_tests c oa ob og al bl ag bg ac bc acomp bcomp a_loc b_loc a_pid b_pid) = Inr cg"
    using eval_case_tests [OF assms(1)] by metis
  show ?thesis
    using gates_named [OF t assms(2), of "[''shard_partition_ok'', ''local_topk_order_ok'', ''local_topk_a_correct'',
      ''local_topk_b_correct'', ''a_fetch_b_ready'', ''b_fetch_a_ready'', ''a_peer_is_b'', ''a_own_is_a'', ''b_peer_is_a'',
      ''b_own_is_b'', ''no_application_on_root'', ''hpx_composition_a'', ''hpx_composition_b'', ''a_merge_ids_match'',
      ''b_merge_ids_match'', ''coordinator_symmetry'', ''float32_bits_exact'', ''a_merge_equals_oracle'', ''b_merge_equals_oracle'']"]
    by (simp add: case_tests_def case_class_def)
qed

lemma cases_class_None: "cases_class cgs = None \<longleftrightarrow> list_all (\<lambda>g. case_class g = None) cgs"
  by (induction cgs) (auto split: option.splits)

text \<open>The failure class is \<open>pass\<close> exactly when the verdict holds, for gates that the evaluation produced.\<close>

theorem failure_class_pass:
  assumes "eval_slice_a m = Inr ga" "eval_slice_f m = Inr gf" "\<forall>p \<in> set ces. \<exists>c cr. eval_case c cr = Inr (snd p)"
  shows "failure_class ga gf ces = ''pass'' \<longleftrightarrow> rep_verdict ga gf (map snd ces)"
proof
  assume v: "rep_verdict ga gf (map snd ces)"
  have "list_all (\<lambda>g. case_class g = None) (map snd ces)"
    using v assms(3) case_gates by (fastforce simp: rep_verdict_def list_all_iff)
  then have "cases_class (map snd ces) = None" unfolding cases_class_None .
  then show "failure_class ga gf ces = ''pass''"
    using v slice_a_gates [OF assms(1)] slice_f_gates [OF assms(2)]
    by (simp add: failure_class_def rep_verdict_def)
qed (rule pass_verdict)

text \<open>The evidence of a clean repetition, as the self-test builds it, with the cases as an argument.\<close>

definition synthetic_ident :: "int \<Rightarrow> pyval" where
  "synthetic_ident pid = VDict [(KStr ''pid'', VInt pid), (KStr ''hostname'', VStr ''host0''),
     (KStr ''hpx_version_info'', VDict [(KStr ''hpx_complete_version'',
        VStr (''HPX: V2.0.0 (AGAS: V3.0), Git: '' @ take 10 expected_hpx_commit))])]"

definition synthetic_markers :: "pyval list \<Rightarrow> pyval" where
  "synthetic_markers cases = VDict [
     (KStr ''controller_hostname'', VStr ''host0''), (KStr ''argv_audit_ok'', VBool True),
     (KStr ''actor_hpx_threads'', VInt 2), (KStr ''actor_ray_num_cpus'', VInt 2),
     (KStr ''operation_over_hpx_not_ray'', VBool True), (KStr ''all_waits_bounded'', VBool True),
     (KStr ''no_python_polling'', VBool True), (KStr ''all_partitions_ok'', VBool True),
     (KStr ''a_identity'', synthetic_ident 5001), (KStr ''b_identity'', synthetic_ident 5002),
     (KStr ''a_start'', VDict [(KStr ''started'', VBool True), (KStr ''locality_id'', VInt 1), (KStr ''membership'', VInt 2),
        (KStr ''pid'', VInt 5001)]),
     (KStr ''b_start'', VDict [(KStr ''started'', VBool True), (KStr ''locality_id'', VInt 2), (KStr ''membership'', VInt 3),
        (KStr ''pid'', VInt 5002)]),
     (KStr ''a_child_report'', VDict [(KStr ''checked'', VBool True), (KStr ''hpx_children'', VList [])]),
     (KStr ''b_child_report'', VDict [(KStr ''checked'', VBool True), (KStr ''hpx_children'', VList [])]),
     (KStr ''root_ready'', VDict [(KStr ''locality_id'', VInt 0), (KStr ''hostname'', VStr ''host0''), (KStr ''wall_ms'', VInt 1000),
        (KStr ''hpx_complete_version'', VStr (''HPX: V2.0.0 (AGAS: V3.0), Git: '' @ take 10 expected_hpx_commit))]),
     (KStr ''root_final'', VDict [(KStr ''max_membership'', VInt 3), (KStr ''final_membership'', VInt 1),
        (KStr ''leave_observed'', VBool True)]),
     (KStr ''a_stop_rc'', VInt 0), (KStr ''a_stop_error'', VNone), (KStr ''b_stop_rc'', VInt 0), (KStr ''b_stop_error'', VNone),
     (KStr ''a_recreate'', VDict [(KStr ''ok'', VBool True), (KStr ''pid'', VInt 6001)]),
     (KStr ''b_recreate'', VDict [(KStr ''ok'', VBool True), (KStr ''pid'', VInt 6002)]),
     (KStr ''root_exit_path'', VStr ''finalized_clean''), (KStr ''actor_pids_gone'', VBool True), (KStr ''orphans'', VList []),
     (KStr ''cases'', VList cases)]"

lemma synthetic_commit:
  "commit_matches (VStr (''HPX: V2.0.0 (AGAS: V3.0), Git: '' @ take 10 expected_hpx_commit)) = Inr True"
  by code_simp

lemmas marker_defs = get_key_def get_key_or_def sub_dict_def or_empty_def got_def got_eq_def got_is_def pand_def non_root_def

lemma synthetic_slices:
  assumes "cs \<noteq> []"
  shows "\<exists>ga. eval_slice_a (synthetic_markers cs) = Inr ga \<and> all_gates ga"
    and "\<exists>gf. eval_slice_f (synthetic_markers cs) = Inr gf \<and> all_gates gf"
  using assms synthetic_commit
  by (simp_all add: eval_slice_a_def eval_slice_f_def slice_a_tests_def slice_f_tests_def synthetic_markers_def synthetic_ident_def
      marker_defs hpx_version_of_def membership_of_def val_max_def val_less_def val_ge_def fle_def chain_eq_def no_children_def
      clean_stop_def recreated_def all_gates_def)

lemma failure_class_pass_witness:
  "\<exists>cr ga gf cg. eval_slice_a (synthetic_markers [cr]) = Inr ga \<and> eval_slice_f (synthetic_markers [cr]) = Inr gf
    \<and> eval_case tiny_k3 cr = Inr cg \<and> failure_class ga gf [(''tiny_k3'', cg)] = ''pass''"
proof -
  obtain cr cg where c: "eval_case tiny_k3 cr = Inr cg" "all_gates cg" using tiny_k3_gates by blast
  obtain ga gf where s: "eval_slice_a (synthetic_markers [cr]) = Inr ga" "all_gates ga"
    "eval_slice_f (synthetic_markers [cr]) = Inr gf" "all_gates gf" using synthetic_slices [of "[cr]"] by blast
  have "failure_class ga gf [(''tiny_k3'', cg)] = ''pass'' \<longleftrightarrow> rep_verdict ga gf (map snd [(''tiny_k3'', cg)])"
    using c(1) by (intro failure_class_pass [OF s(1) s(3)]) auto
  with s c show ?thesis by (auto simp: rep_verdict_def)
qed

end
