(* ===== verification/ExpNodelist.thy ===== *)
theory ExpNodelist
  imports PyText ExpMarkers
begin

text \<open>
  The expansion of a Slurm node list in \<open>experiments/68_vocab_sharded_topk/run_exp68.py\<close>, used when \<open>scontrol\<close> gives no
  answer, and the lists it reads back.
\<close>

subsection \<open>The expansion\<close>

text \<open>The commas outside brackets separate the parts.\<close>

fun split_parts :: "string \<Rightarrow> int \<Rightarrow> string \<Rightarrow> string list" where
  "split_parts [] depth cur = (if cur \<noteq> [] then [cur] else [])"
| "split_parts (ch # s) depth cur =
     (if ch = CHR ''['' then split_parts s (depth + 1) (cur @ [ch])
      else if ch = CHR '']'' then split_parts s (depth - 1) (cur @ [ch])
      else if ch = CHR '','' \<and> depth = 0 then cur # split_parts s depth []
      else split_parts s depth (cur @ [ch]))"

fun split_on :: "char \<Rightarrow> string \<Rightarrow> string list" where
  "split_on c [] = [[]]"
| "split_on c (x # s) = (if x = c then [] # split_on c s
     else (case split_on c s of [] \<Rightarrow> [[x]] | t # ts \<Rightarrow> (x # t) # ts))"

text \<open>The pattern of a bracketed part: a prefix without an opening bracket, a body that is not empty and has no
  closing one, and a suffix that is one line.\<close>

definition match_bracket :: "string \<Rightarrow> (string \<times> string \<times> string) option" where
  "match_bracket part = (let prefix = takeWhile (\<lambda>c. c \<noteq> CHR ''['') part; r = drop (length prefix) part in
     case r of [] \<Rightarrow> None
     | _ # r \<Rightarrow> (let body = takeWhile (\<lambda>c. c \<noteq> CHR '']'') r; suffix = drop (length body) r in
         case suffix of [] \<Rightarrow> None
         | _ # suffix \<Rightarrow> if body = [] \<or> CHR 0x0A \<in> set suffix then None else Some (prefix, body, suffix)))"

text \<open>\<open>str(n).zfill(width)\<close> of a number that is not negative.\<close>

definition zfill :: "nat \<Rightarrow> string \<Rightarrow> string" where
  "zfill width s = replicate (width - length s) (CHR ''0'') @ s"

definition expand_token :: "string \<Rightarrow> string \<Rightarrow> string \<Rightarrow> string list py" where
  "expand_token prefix suffix token = (let token = strip_space token in
     if CHR ''-'' \<in> set token then
       (let lo = takeWhile (\<lambda>c. c \<noteq> CHR ''-'') token; hi = drop (Suc (length lo)) token
        in rbind (int_of_str lo) (\<lambda>l. rbind (int_of_str hi) (\<lambda>h.
             Inr (map (\<lambda>n. prefix @ zfill (length lo) (nat_str (nat n)) @ suffix) [l..h]))))
     else Inr (if token \<noteq> [] then [prefix @ token @ suffix] else []))"

definition expand_part :: "string \<Rightarrow> string list py" where
  "expand_part part = (let part = strip_space part in
     if part = [] then Inr []
     else case match_bracket part of None \<Rightarrow> Inr [part]
     | Some (prefix, body, suffix) \<Rightarrow> rbind (mapM (expand_token prefix suffix) (split_on (CHR '','') body)) (\<lambda>rs. Inr (concat rs)))"

definition expand_nodelist_pure :: "string \<Rightarrow> string list py" where
  "expand_nodelist_pure s = rbind (mapM expand_part (split_parts (strip_space s) 0 [])) (\<lambda>rs. Inr (concat rs))"

subsection \<open>Padded numbers\<close>

definition digits_only :: "string \<Rightarrow> bool" where
  "digits_only s = (\<forall>c \<in> set s. 48 \<le> (of_char c :: nat) \<and> of_char c \<le> (57 :: nat))"

lemma digit_char_range: "d < 10 \<Longrightarrow> of_char (digit_char d) = 48 + d"
  by (simp add: digit_char_def)

lemma digits_nat_str: "digits_only (nat_str n)"
proof (induction n rule: nat_str.induct)
  case (1 n)
  show ?case
  proof (cases "n < 10")
    case True
    then show ?thesis by (subst nat_str.simps) (simp add: digits_only_def digit_char_range)
  next
    case False
    then have "digits_only (nat_str (n div 10))" using 1 by simp
    then show ?thesis using False by (subst nat_str.simps) (auto simp: digits_only_def digit_char_range)
  qed
qed

lemma nat_str_nonempty: "nat_str n \<noteq> []"
  by (subst nat_str.simps) simp

lemma digits_zfill: "digits_only (zfill w (nat_str n))"
  using digits_nat_str [of n] by (auto simp: zfill_def digits_only_def)

lemma zfill_nonempty: "zfill w (nat_str n) \<noteq> []"
  by (simp add: zfill_def nat_str_nonempty)

lemma zfill_length: "n < 10 ^ w \<Longrightarrow> 0 < w \<Longrightarrow> length (zfill w (nat_str n)) = w"
  using fixed_pad [of n w] by (simp add: zfill_def)

lemma digits_no_space: "digits_only s \<Longrightarrow> strip_space s = s"
proof -
  assume d: "digits_only s"
  have "dropWhile is_space t = t" if "digits_only t" for t
    using that by (cases t) (auto simp: digits_only_def is_space_def)
  from this [of s] this [of "rev s"] d show ?thesis by (simp add: strip_space_def digits_only_def)
qed

lemma digits_from_digits: "digits_only s \<Longrightarrow> digits_from s = (map digit_val s, [])"
  by (induction s) (auto simp: digits_only_def digit_of_def digit_val_def)

lemma digits_value_str: "digits_value (map digit_val s) = int (str_val s)"
proof -
  have "fold (\<lambda>d v. 10 * v + int d) (map digit_val s) (int k) = int (foldl (\<lambda>v c. v * 10 + digit_val c) k s)" for k
  proof (induction s arbitrary: k)
    case (Cons c s)
    have "10 * int k + int (digit_val c) = int (k * 10 + digit_val c)" by simp
    then show ?case using Cons [of "k * 10 + digit_val c"] by (simp only: list.map fold_simps foldl_Cons)
  qed simp
  from this [of 0] show ?thesis by (simp add: digits_value_def str_val_def)
qed

text \<open>The digits Python converts to an int at most.\<close>

definition max_digits :: nat where
  "max_digits = 4300"

lemma max_digits_small: "n < 100 \<Longrightarrow> (n :: nat) < 10 ^ max_digits"
proof -
  assume "n < 100"
  have "(10 :: nat) ^ 2 \<le> 10 ^ max_digits" by (intro power_increasing) (simp_all add: max_digits_def)
  with \<open>n < 100\<close> show ?thesis by simp
qed

lemma int_of_digits:
  assumes d: "digits_only s" and "s \<noteq> []" "length s \<le> max_digits"
  shows "int_of_str s = Inr (int (str_val s))"
proof -
  obtain c cs where s: "s = c # cs" using assms(2) by (cases s) auto
  then have c: "digit_of c \<noteq> None" "c \<noteq> CHR ''-''" "c \<noteq> CHR ''+''" using d by (auto simp: digits_only_def digit_of_def)
  have "read_sign s = (1, s)" using c by (simp add: read_sign_def s)
  moreover have "read_digits s = (map digit_val s, [])"
    using digits_from_digits [OF d] c by (simp add: read_digits_def s)
  ultimately show ?thesis
    using assms by (simp add: int_of_str_def digits_no_space [OF d] digits_value_str max_digits_def)
qed

lemma int_of_zfill:
  assumes "w \<le> max_digits" "n < 10 ^ max_digits"
  shows "int_of_str (zfill w (nat_str n)) = Inr (int n)"
proof -
  have "length (nat_str n) \<le> max_digits" using fixed_pad [OF assms(2)] by (simp add: max_digits_def)
  then have "length (zfill w (nat_str n)) \<le> max_digits" using assms(1) by (simp add: zfill_def)
  then show ?thesis
    using int_of_digits [OF digits_zfill zfill_nonempty, of w n] str_val_pad [of _ "nat_str n"]
    by (simp add: zfill_def str_val_nat)
qed

subsection \<open>Reading a node list back\<close>

text \<open>
  A node list as Slurm writes it: single hosts, and a prefix and a suffix around bracketed single
  numbers and ranges, each padded with zeros to a width of its own (\<open>medusa[00-01,11]\<close>).
\<close>

datatype node_num = One nat nat | Span nat nat nat

datatype node_part = Host string | Nodes string "node_num list" string

fun comma_joined :: "string list \<Rightarrow> string" where
  "comma_joined [] = []"
| "comma_joined [x] = x"
| "comma_joined (x # y # ys) = x @ CHR '','' # comma_joined (y # ys)"

fun num_token :: "node_num \<Rightarrow> string" where
  "num_token (One w n) = zfill w (nat_str n)"
| "num_token (Span w lo hi) = zfill w (nat_str lo) @ CHR ''-'' # zfill w (nat_str hi)"

fun print_part :: "node_part \<Rightarrow> string" where
  "print_part (Host h) = h"
| "print_part (Nodes p es s) = p @ CHR ''['' # comma_joined (map num_token es) @ CHR '']'' # s"

fun nums_of :: "node_num \<Rightarrow> string list" where
  "nums_of (One w n) = [zfill w (nat_str n)]"
| "nums_of (Span w lo hi) = map (\<lambda>n. zfill w (nat_str n)) [lo..<Suc hi]"

fun hosts_of :: "node_part \<Rightarrow> string list" where
  "hosts_of (Host h) = [h]"
| "hosts_of (Nodes p es s) = concat (map (\<lambda>e. map (\<lambda>x. p @ x @ s) (nums_of e)) es)"

definition clean_name :: "string \<Rightarrow> bool" where
  "clean_name s = (\<forall>c \<in> set s. \<not> is_space c \<and> c \<noteq> CHR ''['' \<and> c \<noteq> CHR '']'' \<and> c \<noteq> CHR '','')"

fun wf_num :: "node_num \<Rightarrow> bool" where
  "wf_num (One w n) = True"
| "wf_num (Span w lo hi) = (0 < w \<and> w \<le> max_digits \<and> lo < 10 ^ w \<and> hi < 10 ^ max_digits)"

fun wf_part :: "node_part \<Rightarrow> bool" where
  "wf_part (Host h) = (clean_name h \<and> h \<noteq> [])"
| "wf_part (Nodes p es s) = (clean_name p \<and> clean_name s \<and> es \<noteq> [] \<and> list_all wf_num es)"

lemma no_space_strip: "(\<And>c. c \<in> set s \<Longrightarrow> \<not> is_space c) \<Longrightarrow> strip_space s = s"
proof -
  assume n: "\<And>c. c \<in> set s \<Longrightarrow> \<not> is_space c"
  have "dropWhile is_space t = t" if "set t \<subseteq> set s" for t using that n by (cases t) auto
  from this [of s] this [of "rev s"] show ?thesis by (simp add: strip_space_def)
qed

lemma zfill_clean: "c \<in> set (zfill w (nat_str n)) \<Longrightarrow>
    \<not> is_space c \<and> c \<noteq> CHR ''['' \<and> c \<noteq> CHR '']'' \<and> c \<noteq> CHR '','' \<and> c \<noteq> CHR ''-''"
  using digits_zfill [of w n] by (auto simp: digits_only_def is_space_def)

lemma token_clean: "c \<in> set (num_token e) \<Longrightarrow> \<not> is_space c \<and> c \<noteq> CHR ''['' \<and> c \<noteq> CHR '']'' \<and> c \<noteq> CHR '',''"
  using zfill_clean by (cases e) (auto simp: is_space_def)

lemma token_nonempty: "num_token e \<noteq> []"
  by (cases e) (simp_all add: zfill_nonempty)

lemma joined_set: "c \<in> set (comma_joined ts) \<Longrightarrow> c = CHR '','' \<or> (\<exists>t \<in> set ts. c \<in> set t)"
  by (induction ts rule: comma_joined.induct) auto

lemma split_on_clean: "c \<notin> set t \<Longrightarrow> split_on c t = [t]"
  by (induction t) auto

lemma split_on_append: "c \<notin> set t \<Longrightarrow> split_on c (t @ c # s) = t # split_on c s"
  by (induction t) auto

lemma split_on_joined: "ts \<noteq> [] \<Longrightarrow> (\<And>t. t \<in> set ts \<Longrightarrow> CHR '','' \<notin> set t) \<Longrightarrow> split_on (CHR '','') (comma_joined ts) = ts"
  by (induction ts rule: comma_joined.induct) (simp_all add: split_on_clean split_on_append)

lemma expand_num_token:
  assumes "wf_num e"
  shows "expand_token p s (num_token e) = Inr (map (\<lambda>x. p @ x @ s) (nums_of e))"
proof -
  have st: "strip_space (num_token e) = num_token e" by (rule no_space_strip) (use token_clean in blast)
  have nd: "CHR ''-'' \<notin> set (zfill w (nat_str n))" for w n using zfill_clean by blast
  show ?thesis
  proof (cases e)
    case (One w n)
    then show ?thesis using st nd by (simp add: expand_token_def zfill_nonempty)
  next
    case (Span w lo hi)
    have wf: "0 < w" "w \<le> max_digits" "lo < 10 ^ w" "hi < 10 ^ max_digits" using assms Span by simp_all
    have "(10 :: nat) ^ w \<le> 10 ^ max_digits" using wf(2) by (intro power_increasing) simp_all
    then have lo: "int_of_str (zfill w (nat_str lo)) = Inr (int lo)" using wf by (intro int_of_zfill) linarith+
    have hi: "int_of_str (zfill w (nat_str hi)) = Inr (int hi)" using wf by (intro int_of_zfill)
    have tw: "takeWhile (\<lambda>c. c \<noteq> CHR ''-'') (num_token e) = zfill w (nat_str lo)"
      unfolding Span num_token.simps using nd by (subst takeWhile_append2) auto
    have len: "length (zfill w (nat_str lo)) = w" using wf by (simp add: zfill_length)
    then have dr: "drop (Suc w) (num_token e) = zfill w (nat_str hi)" by (simp add: Span)
    have "[int lo..int hi] = map int [lo..<Suc hi]" by (rule nth_equalityI) (auto simp: nth_append)
    then have up: "map (\<lambda>n. p @ zfill w (nat_str (nat n)) @ s) [int lo..int hi] = map (\<lambda>x. p @ x @ s) (nums_of e)"
      by (simp add: Span)
    have m: "CHR ''-'' \<in> set (num_token e)" by (simp add: Span)
    show ?thesis unfolding expand_token_def Let_def st tw if_P [OF m] len dr lo hi rbind_Inr up by (rule refl)
  qed
qed

lemma joined_nums_clean:
  "c \<in> set (comma_joined (map num_token es)) \<Longrightarrow> \<not> is_space c \<and> c \<noteq> CHR ''['' \<and> c \<noteq> CHR '']''"
  using joined_set [of c] token_clean by (fastforce simp: is_space_def)

lemma joined_nonempty: "ts \<noteq> [] \<Longrightarrow> (\<And>t. t \<in> set ts \<Longrightarrow> t \<noteq> []) \<Longrightarrow> comma_joined ts \<noteq> []"
  by (induction ts rule: comma_joined.induct) auto

lemma print_no_space: "wf_part q \<Longrightarrow> c \<in> set (print_part q) \<Longrightarrow> \<not> is_space c"
  using joined_nums_clean by (cases q) (auto simp: clean_name_def is_space_def)

lemma print_nonempty: "wf_part q \<Longrightarrow> print_part q \<noteq> []"
  by (cases q) auto

lemma match_bracket_parts:
  assumes "CHR ''['' \<notin> set p" "CHR '']'' \<notin> set b" "b \<noteq> []" "CHR 0x0A \<notin> set s"
  shows "match_bracket (p @ CHR ''['' # b @ CHR '']'' # s) = Some (p, b, s)"
proof -
  have t: "takeWhile (\<lambda>c. c \<noteq> CHR ''['') (p @ CHR ''['' # r) = p" for r
    using assms(1) by (subst takeWhile_append2) auto
  have u: "takeWhile (\<lambda>c. c \<noteq> CHR '']'') (b @ CHR '']'' # s) = b"
    using assms(2) by (subst takeWhile_append2) auto
  have d: "drop (length x) (x @ y) = y" for x y :: string by simp
  show ?thesis unfolding match_bracket_def t Let_def d list.case u using assms(3,4) by simp
qed

lemma match_print:
  assumes "wf_part (Nodes p es s)"
  shows "match_bracket (print_part (Nodes p es s)) = Some (p, comma_joined (map num_token es), s)"
proof -
  have n: "clean_name p" "clean_name s" "es \<noteq> []" using assms by simp_all
  then have "c \<in> set s \<Longrightarrow> \<not> is_space c" for c unfolding clean_name_def by blast
  moreover have "is_space (CHR 0x0A)" by (simp add: is_space_def)
  ultimately have s: "CHR 0x0A \<notin> set s" by blast
  have "CHR ''['' \<notin> set p" using n(1) unfolding clean_name_def by blast
  moreover have "CHR '']'' \<notin> set (comma_joined (map num_token es))" using joined_nums_clean by blast
  moreover have "comma_joined (map num_token es) \<noteq> []" using n(3) token_nonempty by (intro joined_nonempty) auto
  ultimately show ?thesis using match_bracket_parts s by simp
qed

lemma expand_print: "wf_part q \<Longrightarrow> expand_part (print_part q) = Inr (hosts_of q)"
proof (cases q)
  case (Host h)
  assume "wf_part q"
  moreover from this have "strip_space h = h" using Host by (intro no_space_strip) (auto simp: clean_name_def)
  moreover have "match_bracket h = None" if "clean_name h"
  proof -
    have "takeWhile (\<lambda>c. c \<noteq> CHR ''['') h = h" using that by (simp add: clean_name_def takeWhile_eq_all_conv)
    then show ?thesis unfolding match_bracket_def by (simp only:) simp
  qed
  ultimately show ?thesis using Host by (simp add: expand_part_def)
next
  case (Nodes p es s)
  assume wf: "wf_part q"
  have st: "strip_space (print_part q) = print_part q" by (rule no_space_strip) (use print_no_space wf in blast)
  have "split_on (CHR '','') (comma_joined (map num_token es)) = map num_token es"
    using wf Nodes token_clean by (intro split_on_joined) auto
  moreover have "mapM (expand_token p s) (map num_token es) = Inr (map (\<lambda>e. map (\<lambda>x. p @ x @ s) (nums_of e)) es)"
    using wf Nodes expand_num_token by (intro mapM_map) (simp add: list_all_iff)
  ultimately show ?thesis
    using st print_nonempty [OF wf] match_print [of p es s] wf Nodes by (simp add: expand_part_def Let_def)
qed

lemma split_parts_through:
  "\<forall>c \<in> set u. c \<noteq> CHR ''['' \<and> c \<noteq> CHR '']'' \<and> (d = 0 \<longrightarrow> c \<noteq> CHR '','')
    \<Longrightarrow> split_parts (u @ s) d cur = split_parts s d (cur @ u)"
proof (induction u arbitrary: cur)
  case (Cons c u)
  then have "split_parts ((c # u) @ s) d cur = split_parts (u @ s) d (cur @ [c])" by auto
  then show ?case using Cons.IH [of "cur @ [c]"] Cons.prems by simp
qed simp

lemma split_parts_name: "clean_name h \<Longrightarrow> split_parts (h @ s) 0 cur = split_parts s 0 (cur @ h)"
  by (rule split_parts_through) (simp add: clean_name_def)

lemma split_print:
  assumes wf: "wf_part q"
  shows "split_parts (print_part q @ t) 0 [] = split_parts t 0 (print_part q)"
proof (cases q)
  case (Host h)
  then show ?thesis using split_parts_name [of h t "[]"] wf by simp
next
  case (Nodes p es s)
  let ?b = "comma_joined (map num_token es)"
  have n: "clean_name p" "clean_name s" using wf Nodes by simp_all
  have b: "\<forall>c \<in> set ?b. c \<noteq> CHR ''['' \<and> c \<noteq> CHR '']'' \<and> ((1 :: int) = 0 \<longrightarrow> c \<noteq> CHR '','')"
    using joined_nums_clean [of _ es] by simp
  have "split_parts (p @ CHR ''['' # ?b @ CHR '']'' # s @ t) 0 [] = split_parts (CHR ''['' # ?b @ CHR '']'' # s @ t) 0 p"
    using split_parts_name [OF n(1), of "CHR ''['' # ?b @ CHR '']'' # s @ t" "[]"] by (simp only: append_Nil)
  also have "\<dots> = split_parts (?b @ CHR '']'' # s @ t) 1 (p @ [CHR ''[''])" by simp
  also have "\<dots> = split_parts (CHR '']'' # s @ t) 1 ((p @ [CHR ''['']) @ ?b)" by (rule split_parts_through [OF b])
  also have "\<dots> = split_parts (s @ t) 0 (p @ CHR ''['' # ?b @ [CHR '']''])" by simp
  also have "\<dots> = split_parts t 0 ((p @ CHR ''['' # ?b @ [CHR '']'']) @ s)" by (rule split_parts_name [OF n(2)])
  finally show ?thesis using Nodes by (simp only: print_part.simps append_assoc append_Cons append_Nil)
qed

lemma split_joined: "list_all wf_part ps \<Longrightarrow> split_parts (comma_joined (map print_part ps)) 0 [] = map print_part ps"
proof (induction ps)
  case (Cons q ps)
  then have IH: "split_parts (comma_joined (map print_part ps)) 0 [] = map print_part ps" and q: "wf_part q" by simp_all
  show ?case
  proof (cases ps)
    case Nil
    then show ?thesis using split_print [OF q, of "[]"] print_nonempty [OF q] by simp
  next
    case (Cons r rs)
    then have "comma_joined (map print_part (q # ps)) = print_part q @ CHR '','' # comma_joined (map print_part ps)" by simp
    then show ?thesis using split_print [OF q] IH by simp
  qed
qed simp

text \<open>C35. A Slurm node list expands to exactly its hosts, in order: a host by itself, and for every single number and
  every number of a range in brackets, padded to its width, the prefix, the number and the suffix.\<close>

theorem nodelist_roundtrip:
  assumes "list_all wf_part ps"
  shows "expand_nodelist_pure (comma_joined (map print_part ps)) = Inr (concat (map hosts_of ps))"
proof -
  have "strip_space (comma_joined (map print_part ps)) = comma_joined (map print_part ps)"
    using assms print_no_space joined_set [of _ "map print_part ps"]
    by (intro no_space_strip) (fastforce simp: list_all_iff is_space_def)
  moreover have "mapM expand_part (map print_part ps) = Inr (map hosts_of ps)"
    using assms expand_print by (intro mapM_map) (simp add: list_all_iff)
  ultimately show ?thesis using split_joined [OF assms] by (simp add: expand_nodelist_pure_def)
qed

lemma nodelist_roundtrip_witness:
  "expand_nodelist_pure ''login,medusa[00-01,11],n[8-10]-ib''
    = Inr [''login'', ''medusa00'', ''medusa01'', ''medusa11'', ''n8-ib'', ''n9-ib'', ''n10-ib'']"
proof -
  let ?ps = "[Host ''login'', Nodes ''medusa'' [Span 2 0 1, One 2 11] [], Nodes ''n'' [Span 1 8 10] ''-ib'']"
  have "1 \<le> max_digits" "2 \<le> max_digits" by (simp_all add: max_digits_def)
  then have "list_all wf_part ?ps" using max_digits_small [of 1] max_digits_small [of 10]
    by (simp add: clean_name_def is_space_def)
  moreover have "comma_joined (map print_part ?ps) = ''login,medusa[00-01,11],n[8-10]-ib''"
    "concat (map hosts_of ?ps) = [''login'', ''medusa00'', ''medusa01'', ''medusa11'', ''n8-ib'', ''n9-ib'', ''n10-ib'']"
    by code_simp+
  ultimately show ?thesis using nodelist_roundtrip [of ?ps] by (simp only:)
qed

end
