(* ===== verification/ExpCrossnode.thy ===== *)
theory ExpCrossnode
  imports ExpTopkProps ExpNodelist
begin

text \<open>
  The three-node phase of \<open>experiments/68_vocab_sharded_topk\<close>: the placement gates and the evaluation that adds them to
  the local one.
\<close>

subsection \<open>Host names\<close>

definition char_lower :: "char \<Rightarrow> char" where
  "char_lower c = (let n = of_char c :: nat in
     if 65 \<le> n \<and> n \<le> 90 \<or> 192 \<le> n \<and> n \<le> 222 \<and> n \<noteq> 215 then char_of (n + 32) else c)"

definition short :: "pyval \<Rightarrow> string py" where
  "short h = (if \<not> is_true h then Inr [] else (case h of
       VStr s \<Rightarrow> Inr (map char_lower (strip_space (takeWhile (\<lambda>c. c \<noteq> CHR ''.'') s)))
     | _ \<Rightarrow> Inl AttributeError))"

definition got_short :: "pyval \<Rightarrow> string \<Rightarrow> string py" where
  "got_short m k = rbind (get_key m k) short"

definition same_short :: "string py \<Rightarrow> string py \<Rightarrow> bool py" where
  "same_short a b = rbind a (\<lambda>x. rbind b (\<lambda>y. Inr (x = y)))"

subsection \<open>The gates\<close>

fun py_len :: "pyval \<Rightarrow> nat py" where
  "py_len (VList vs) = Inr (length vs)"
| "py_len (VTuple vs) = Inr (length vs)"
| "py_len (VDict d) = Inr (length d)"
| "py_len (VStr s) = Inr (length s)"
| "py_len _ = Inl TypeError"

definition or_list :: "pyval \<Rightarrow> pyval" where
  "or_list v = (if is_true v then v else VList [])"

definition hard_placed :: "pyval \<Rightarrow> pyval \<Rightarrow> string \<Rightarrow> string \<Rightarrow> bool py" where
  "hard_placed ap expect nid node = all_of [got_is ap ''placement_soft'' (VBool False), got ap ''node_id'',
     rbind (get_key ap ''node_id'') (\<lambda>v. rbind (get_key expect nid) (\<lambda>w. Inr (val_eq v w))),
     same_short (got_short ap ''hostname'') (got_short expect node)]"

definition nonempty_short :: "string py \<Rightarrow> bool py" where
  "nonempty_short s = rbind s (\<lambda>x. Inr (x \<noteq> []))"

definition not_py :: "bool py \<Rightarrow> bool py" where
  "not_py b = rbind b (\<lambda>x. Inr (\<not> x))"

definition in_list :: "string py \<Rightarrow> string list \<Rightarrow> bool py" where
  "in_list s xs = rbind s (\<lambda>x. Inr (x \<in> set xs))"

definition crossnode_a_tests :: "pyval \<Rightarrow> pyval \<Rightarrow> pyval \<Rightarrow> pyval \<Rightarrow> pyval \<Rightarrow> string list \<Rightarrow> (string \<times> bool py) list" where
  "crossnode_a_tests m expect ap_a ap_b rr nodes_short = [
     (''three_node_slurm_allocation'', all_of [got expect ''slurm_job_id'',
        rbind (get_key expect ''nodes'') (\<lambda>v. rbind (py_len (or_list v)) (\<lambda>n. Inr (3 \<le> n))),
        in_list (got_short expect ''nodeR'') nodes_short, in_list (got_short expect ''nodeA'') nodes_short,
        in_list (got_short expect ''nodeB'') nodes_short]),
     (''root_on_root_node'', same_short (got_short rr ''hostname'') (got_short expect ''nodeR'')),
     (''actor_a_hard_placed'', hard_placed ap_a expect ''nodeA_nid'' ''nodeA''),
     (''actor_b_hard_placed'', hard_placed ap_b expect ''nodeB_nid'' ''nodeB''),
     (''actor_nodes_distinct'', all_of [nonempty_short (got_short ap_a ''hostname''), nonempty_short (got_short ap_b ''hostname''),
        not_py (same_short (got_short ap_a ''hostname'') (got_short ap_b ''hostname''))]),
     (''three_roles_three_nodes'', all_of [
        rbind (got_short expect ''nodeR'') (\<lambda>r. rbind (got_short expect ''nodeA'') (\<lambda>a. rbind (got_short expect ''nodeB'') (\<lambda>b.
          Inr (distinct [r, a, b])))),
        rbind (got_short rr ''hostname'') (\<lambda>r. rbind (got_short ap_a ''hostname'') (\<lambda>a. rbind (got_short ap_b ''hostname'') (\<lambda>b.
          Inr (r \<noteq> a \<and> r \<noteq> b))))]),
     (''endpoints_pinned_subnet'', got m ''endpoints_subnet_ok''),
     (''remote_orphan_check_ran'', got m ''remote_orphan_check_ran''),
     (''evidence_fields_complete_crossnode'', all_of [got ap_a ''node_id'', got ap_b ''node_id'', got rr ''hostname'',
        got expect ''nodeA_nid'', got expect ''nodeB_nid''])]"

definition eval_crossnode_slice_a :: "pyval \<Rightarrow> pyval \<Rightarrow> gates py" where
  "eval_crossnode_slice_a m expect =
     rbind (eval_slice_a m) (\<lambda>g0. rbind (sub_dict m ''a_placement'') (\<lambda>ap_a. rbind (sub_dict m ''b_placement'') (\<lambda>ap_b.
     rbind (sub_dict m ''root_ready'') (\<lambda>rr. rbind (get_key expect ''nodes'') (\<lambda>ns. rbind (iter_values (or_list ns)) (\<lambda>nl.
     rbind (mapM short nl) (\<lambda>nodes_short. rbind (run_gates (crossnode_a_tests m expect ap_a ap_b rr nodes_short)) (\<lambda>g.
     Inr (filter (\<lambda>p. fst p \<noteq> ''hostname_identity'') g0 @ g)))))))))"

definition crossnode_case_tests :: "pyval \<Rightarrow> pyval \<Rightarrow> pyval \<Rightarrow> pyval \<Rightarrow> cand list \<Rightarrow> cand list \<Rightarrow> (string \<times> bool py) list" where
  "crossnode_case_tests ac bc nodeA nodeB orc_a orc_b = [
     (''a_peer_host_is_b'', same_short (got_short ac ''peer_host'') (short nodeB)),
     (''b_peer_host_is_a'', same_short (got_short bc ''peer_host'') (short nodeA)),
     (''a_crosses_nodes'', not_py (same_short (short nodeA) (short nodeB))),
     (''b_crosses_nodes'', not_py (same_short (short nodeA) (short nodeB))),
     (''b_to_a_transfer_bits_exact'', rbind (got_cands ac ''peer_topk'') (\<lambda>x. Inr (x = orc_b))),
     (''a_to_b_transfer_bits_exact'', rbind (got_cands bc ''peer_topk'') (\<lambda>x. Inr (x = orc_a)))]"

definition eval_case_crossnode :: "topk_case \<Rightarrow> pyval \<Rightarrow> pyval \<Rightarrow> pyval \<Rightarrow> gates py" where
  "eval_case_crossnode c cr nodeA nodeB =
     rbind (eval_case c cr) (\<lambda>cg.
     rbind (oracle_topk 0 (c_split c) (c_seed c) (c_k c)) (\<lambda>orc_a.
     rbind (oracle_topk (c_split c) (c_V c) (c_seed c) (c_k c)) (\<lambda>orc_b.
     rbind (sub_dict cr ''a_coord'') (\<lambda>ac. rbind (sub_dict cr ''b_coord'') (\<lambda>bc.
     rbind (run_gates (crossnode_case_tests ac bc nodeA nodeB orc_a orc_b)) (\<lambda>g. Inr (cg @ g)))))))"

definition eval_crossnode_slice_f :: "pyval \<Rightarrow> gates py" where
  "eval_crossnode_slice_f m = rbind (eval_slice_f m) (\<lambda>g0. rbind (run_gates [
     (''actor_a_recreation_on_node'', got m ''a_recreate_on_node''),
     (''actor_b_recreation_on_node'', got m ''b_recreate_on_node'')]) (\<lambda>g. Inr (g0 @ g)))"

definition rep_verdict_crossnode :: "gates \<Rightarrow> gates \<Rightarrow> gates list \<Rightarrow> bool" where
  "rep_verdict_crossnode ga gf case_gates = (all_gates ga \<and> all_gates gf \<and> list_all all_gates case_gates)"

definition crossnode_topology_class :: "gates \<Rightarrow> string option" where
  "crossnode_topology_class ga = first_failed [
     (gate ga ''three_node_slurm_allocation'', ''three_node_allocation_unavailable''),
     (gate ga ''evidence_complete'' \<and> gate ga ''evidence_fields_complete_crossnode'', ''invalid_instrumentation''),
     (gate ga ''root_on_root_node'' \<and> gate ga ''actor_a_hard_placed'' \<and> gate ga ''actor_b_hard_placed''
        \<and> gate ga ''actor_nodes_distinct'' \<and> gate ga ''three_roles_three_nodes'', ''actor_placement_invalid''),
     (gate ga ''actor_a_started_in_worker'' \<and> gate ga ''actor_b_started_in_worker'', ''lifecycle_failed''),
     (gate ga ''both_in_process_no_hpx_child'', ''lifecycle_failed''),
     (gate ga ''shared_island_membership'', ''shared_island_join_failed''),
     (gate ga ''two_distinct_ray_processes'' \<and> gate ga ''distinct_nonzero_localities'', ''invalid_instrumentation''),
     (gate ga ''all_shards_disjoint_complete'', ''invalid_shard_partition'')]"

definition crossnode_case_class :: "gates \<Rightarrow> string option" where
  "crossnode_case_class cg = first_failed [
     (gate cg ''shard_partition_ok'', ''invalid_shard_partition''),
     (gate cg ''local_topk_order_ok'', ''tie_break_contract_failed''),
     (gate cg ''local_topk_a_correct'', ''local_topk_a_failed''),
     (gate cg ''local_topk_b_correct'', ''local_topk_b_failed''),
     (gate cg ''a_fetch_b_ready'', ''a_fetch_b_failed''),
     (gate cg ''b_fetch_a_ready'', ''b_fetch_a_failed''),
     (gate cg ''a_peer_is_b'' \<and> gate cg ''a_own_is_a'' \<and> gate cg ''b_peer_is_a'' \<and> gate cg ''b_own_is_b''
        \<and> gate cg ''a_peer_host_is_b'' \<and> gate cg ''b_peer_host_is_a'' \<and> gate cg ''a_crosses_nodes'',
        ''actor_placement_invalid''),
     (gate cg ''no_application_on_root'', ''root_executed_application_work''),
     (gate cg ''hpx_composition_a'' \<and> gate cg ''hpx_composition_b'', ''hpx_composition_not_evidenced''),
     (gate cg ''b_to_a_transfer_bits_exact'' \<and> gate cg ''a_to_b_transfer_bits_exact'', ''cross_node_float32_bit_mismatch''),
     (gate cg ''a_merge_ids_match'', ''a_merge_failed''),
     (gate cg ''b_merge_ids_match'', ''b_merge_failed''),
     (gate cg ''coordinator_symmetry'', ''coordinator_asymmetry''),
     (gate cg ''float32_bits_exact'', ''cross_node_float32_bit_mismatch''),
     (gate cg ''a_merge_equals_oracle'' \<and> gate cg ''b_merge_equals_oracle'', ''global_oracle_mismatch'')]"

fun crossnode_cases_class :: "gates list \<Rightarrow> string option" where
  "crossnode_cases_class [] = None"
| "crossnode_cases_class (cg # cgs) = (case crossnode_case_class cg of Some f \<Rightarrow> Some f | None \<Rightarrow> crossnode_cases_class cgs)"

definition crossnode_lifecycle_class :: "gates \<Rightarrow> string option" where
  "crossnode_lifecycle_class gf = first_failed [
     (gate gf ''actor_a_recreation'' \<and> gate gf ''actor_b_recreation'' \<and> gate gf ''actor_a_recreation_on_node''
        \<and> gate gf ''actor_b_recreation_on_node'', ''actor_recreation_failed''),
     (gate gf ''no_orphans'', ''orphan_detected''),
     (all_gates gf, ''lifecycle_failed'')]"

definition failure_class_crossnode :: "gates \<Rightarrow> gates \<Rightarrow> (string \<times> gates) list \<Rightarrow> string" where
  "failure_class_crossnode ga gf cases_eval = (case crossnode_topology_class ga of Some f \<Rightarrow> f | None \<Rightarrow>
     (case crossnode_cases_class (map snd cases_eval) of Some f \<Rightarrow> f | None \<Rightarrow>
     (case crossnode_lifecycle_class gf of Some f \<Rightarrow> f | None \<Rightarrow>
       if rep_verdict_crossnode ga gf (map snd cases_eval) then ''pass'' else ''invalid_instrumentation'')))"

subsection \<open>Cases on two nodes\<close>

lemma coord_peer:
  "got_cands (coord_dict f r global own reply self) ''peer_topk'' = Inr (map cand_of (tr_cands reply))"
  "get_key (coord_dict f r global own reply self) ''peer_host'' = Inr (VStr (tr_host reply))"
  by (simp_all add: coord_dict_def got_cands_def get_key_def get_key_or_def norm_cands_native)

lemma short_str: "short (VStr s) = Inr (map char_lower (strip_space (takeWhile (\<lambda>c. c \<noteq> CHR ''.'') s)))"
  by (auto simp: short_def strip_space_def)

lemma native_crossnode_run:
  assumes "0 < c_split c" "c_split c < c_V c" "c_V c < 2 ^ 31"
    and "0 \<le> c_k c" "c_k c < 2 ^ 31" and "- (2 ^ 63) \<le> c_seed c" "c_seed c < 2 ^ 63"
    and "distinct (map hm_locality members)" "A \<in> set members" "B \<in> set members"
    and "hm_locality A \<noteq> 0" "hm_locality B \<noteq> 0"
    and host: "short (VStr (hm_host A)) \<noteq> short (VStr (hm_host B))"
  shows "\<exists>cr g. run_case txt (native_actor txt A members) (native_actor txt B members) (VInt (uint (hm_locality A)))
      (VInt (uint (hm_locality B))) (VInt (sint (hm_pid A))) (VInt (sint (hm_pid B))) c = Inr cr
    \<and> eval_case_crossnode c cr (VStr (hm_host A)) (VStr (hm_host B)) = Inr g \<and> all_gates g"
proof -
  obtain oa ob og a_local b_local cr g where cr:
    "cr = case_dict c (VInt (uint (hm_locality A))) (VInt (uint (hm_locality B))) (VInt (sint (hm_pid A))) (VInt (sint (hm_pid B)))
      a_local b_local (coord_dict True True og oa (reply_of B ob) A) (coord_dict True True og ob (reply_of A oa) B) (map cand_of og)"
    and run: "run_case txt (native_actor txt A members) (native_actor txt B members) (VInt (uint (hm_locality A)))
      (VInt (uint (hm_locality B))) (VInt (sint (hm_pid A))) (VInt (sint (hm_pid B))) c = Inr cr"
    and o: "oracle_topk 0 (c_split c) (c_seed c) (c_k c) = Inr (map cand_of oa)"
      "oracle_topk (c_split c) (c_V c) (c_seed c) (c_k c) = Inr (map cand_of ob)"
    and g: "eval_case c cr = Inr g" "all_gates g"
    using native_case_run [OF assms(1-12), of "txt"] by blast
  let ?T = "crossnode_case_tests (coord_dict True True og oa (reply_of B ob) A) (coord_dict True True og ob (reply_of A oa) B)
    (VStr (hm_host A)) (VStr (hm_host B)) (map cand_of oa) (map cand_of ob)"
  have t: "h \<in> set ?T \<Longrightarrow> snd h = Inr True" for h
    using host by (auto simp: crossnode_case_tests_def got_short_def coord_peer reply_of_def same_short_def not_py_def short_str)
  have "eval_case_crossnode c cr (VStr (hm_host A)) (VStr (hm_host B)) = Inr (g @ map (\<lambda>p. (fst p, True)) ?T)"
    unfolding eval_case_crossnode_def using g(1) o run_gates_true [OF t] by (simp add: cr case_dict_key)
  with run g(2) show ?thesis by (auto simp: all_gates_def list_all_iff)
qed

text \<open>C34. Native actors on hosts with distinct short names pass the cross-node gates of every case of a vocabulary of
  fewer than \<open>2 ^ 31\<close> tokens (the bound within which the native code's \<open>int\<close> of a size is exact): the candidates
  each receives from the other are the other's shard, bit by bit.\<close>

theorem native_crossnode_passes:
  assumes "0 < c_split c" "c_split c < c_V c" "c_V c < 2 ^ 31"
    and "0 \<le> c_k c" "c_k c < 2 ^ 31" and "- (2 ^ 63) \<le> c_seed c" "c_seed c < 2 ^ 63"
    and "distinct (map hm_locality members)" "A \<in> set members" "B \<in> set members"
    and "hm_locality A \<noteq> 0" "hm_locality B \<noteq> 0" "short (VStr (hm_host A)) \<noteq> short (VStr (hm_host B))"
  shows "\<exists>cr g. run_case txt (native_actor txt A members) (native_actor txt B members) (VInt (uint (hm_locality A)))
      (VInt (uint (hm_locality B))) (VInt (sint (hm_pid A))) (VInt (sint (hm_pid B))) c = Inr cr
    \<and> eval_case_crossnode c cr (VStr (hm_host A)) (VStr (hm_host B)) = Inr g \<and> all_gates g"
  using assms by (rule native_crossnode_run)

definition node_a :: hpx_member where
  "node_a = \<lparr> hm_locality = 1, hm_pid = 5001, hm_host = ''medusa01.cluster'' \<rparr>"

definition node_b :: hpx_member where
  "node_b = \<lparr> hm_locality = 2, hm_pid = 5002, hm_host = ''medusa11'' \<rparr>"

lemma nodes_differ: "short (VStr (hm_host node_a)) \<noteq> short (VStr (hm_host node_b))"
  by code_simp

lemma native_crossnode_passes_witness:
  "\<exists>cr g. run_case (\<lambda>_. []) (native_actor (\<lambda>_. []) node_a [node_a, node_b]) (native_actor (\<lambda>_. []) node_b [node_a, node_b])
      (VInt 1) (VInt 2) (VInt 5001) (VInt 5002) tiny_k3 = Inr cr
    \<and> eval_case_crossnode tiny_k3 cr (VStr ''medusa01.cluster'') (VStr ''medusa11'') = Inr g \<and> all_gates g"
proof -
  have "0 < c_split tiny_k3" "c_split tiny_k3 < c_V tiny_k3" "c_V tiny_k3 < 2 ^ 31" "0 \<le> c_k tiny_k3" "c_k tiny_k3 < 2 ^ 31"
    "- (2 ^ 63) \<le> c_seed tiny_k3" "c_seed tiny_k3 < 2 ^ 63" "distinct (map hm_locality [node_a, node_b])"
    "node_a \<in> set [node_a, node_b]" "node_b \<in> set [node_a, node_b]" "hm_locality node_a \<noteq> 0" "hm_locality node_b \<noteq> 0"
    by (simp_all add: tiny_k3_def node_a_def node_b_def)
  from native_crossnode_passes [OF this nodes_differ, of "\<lambda>_. []"] show ?thesis by (simp add: node_a_def node_b_def)
qed

subsection \<open>Verdict and failure class\<close>

lemma crossnode_class_not_pass:
  "crossnode_topology_class ga \<noteq> Some ''pass''" "crossnode_case_class cg \<noteq> Some ''pass''" "crossnode_lifecycle_class gf \<noteq> Some ''pass''"
  unfolding crossnode_topology_class_def crossnode_case_class_def crossnode_lifecycle_class_def
  by (rule first_failed_not, simp only: list.map snd_conv, code_simp)+

lemma crossnode_cases_not_pass: "crossnode_cases_class cgs \<noteq> Some ''pass''"
  by (induction cgs) (auto split: option.splits simp: crossnode_class_not_pass)

lemma crossnode_pass_verdict: "failure_class_crossnode ga gf ces = ''pass'' \<Longrightarrow> rep_verdict_crossnode ga gf (map snd ces)"
  using crossnode_class_not_pass(1) [of ga] crossnode_class_not_pass(3) [of gf] crossnode_cases_not_pass [of "map snd ces"]
  by (auto simp: failure_class_crossnode_def split: option.splits if_splits)

lemma crossnode_cases_None: "crossnode_cases_class cgs = None \<longleftrightarrow> list_all (\<lambda>g. crossnode_case_class g = None) cgs"
  by (induction cgs) (auto split: option.splits)

lemma gates_in: "all_gates g \<Longrightarrow> set ns \<subseteq> fst ` set g \<Longrightarrow> list_all (gate g) ns"
  unfolding list_all_iff by (intro ballI all_gates_gate) blast+

lemma crossnode_a_gates:
  assumes "eval_crossnode_slice_a m expect = Inr ga" "all_gates ga"
  shows "crossnode_topology_class ga = None"
proof -
  obtain g0 g ai bi as bs ac bc rr rf ap bp al bl acv bcv mm pa pb rr' ns where
    ga: "ga = filter (\<lambda>p. fst p \<noteq> ''hostname_identity'') g0 @ g"
    and t: "run_gates (slice_a_tests m ai bi as bs ac bc rr rf ap bp al bl acv bcv mm) = Inr g0"
      "run_gates (crossnode_a_tests m expect pa pb rr' ns) = Inr g"
    using assms(1) unfolding eval_crossnode_slice_a_def eval_slice_a_def by (auto simp: rbind_eq_Inr)
  have "map fst ga = filter (\<lambda>n. n \<noteq> ''hostname_identity'') (map fst g0) @ map fst g" by (simp add: ga filter_map o_def)
  then have "fst ` set ga = set (filter (\<lambda>n. n \<noteq> ''hostname_identity'') (map fst g0) @ map fst g)" by (metis list.set_map)
  then have "set [''three_node_slurm_allocation'', ''evidence_complete'', ''evidence_fields_complete_crossnode'',
      ''root_on_root_node'', ''actor_a_hard_placed'', ''actor_b_hard_placed'', ''actor_nodes_distinct'', ''three_roles_three_nodes'',
      ''actor_a_started_in_worker'', ''actor_b_started_in_worker'', ''both_in_process_no_hpx_child'', ''shared_island_membership'',
      ''two_distinct_ray_processes'', ''distinct_nonzero_localities'', ''all_shards_disjoint_complete''] \<subseteq> fst ` set ga"
    unfolding run_gates_names [OF t(1)] run_gates_names [OF t(2)] by (simp add: slice_a_tests_def crossnode_a_tests_def)
  from gates_in [OF assms(2) this] show ?thesis by (simp add: crossnode_topology_class_def)
qed

lemma crossnode_f_gates:
  assumes "eval_crossnode_slice_f m = Inr gf" "all_gates gf"
  shows "crossnode_lifecycle_class gf = None"
proof -
  obtain g0 a b rf rr ap bp ar br where gf: "gf = g0 @ [(''actor_a_recreation_on_node'', a), (''actor_b_recreation_on_node'', b)]"
    and t: "run_gates (slice_f_tests m rf rr ap bp ar br) = Inr g0"
    using assms(1) unfolding eval_crossnode_slice_f_def eval_slice_f_def by (auto simp: rbind_eq_Inr)
  have "fst ` set g0 = fst ` set (slice_f_tests m rf rr ap bp ar br)" using run_gates_names [OF t] by (metis list.set_map)
  then have "set [''actor_a_recreation'', ''actor_b_recreation'', ''actor_a_recreation_on_node'', ''actor_b_recreation_on_node'',
      ''no_orphans''] \<subseteq> fst ` set gf"
    unfolding gf set_append image_Un by (simp add: slice_f_tests_def)
  from gates_in [OF assms(2) this] assms(2) show ?thesis by (simp add: crossnode_lifecycle_class_def)
qed

lemma crossnode_case_gates:
  assumes "eval_case_crossnode c cr nA nB = Inr cg" "all_gates cg"
  shows "crossnode_case_class cg = None"
proof -
  obtain g0 g oa ob ac bc where cg: "cg = g0 @ g" and e: "eval_case c cr = Inr g0"
    and t': "run_gates (crossnode_case_tests ac bc nA nB oa ob) = Inr g"
    using assms(1) unfolding eval_case_crossnode_def by (auto simp: rbind_eq_Inr)
  obtain oa' ob' og al bl ac' bc' ag bg acomp bcomp a_loc b_loc a_pid b_pid where
    t: "run_gates (case_tests c oa' ob' og al bl ag bg ac' bc' acomp bcomp a_loc b_loc a_pid b_pid) = Inr g0"
    using eval_case_tests [OF e] by metis
  have "map fst cg = map fst g0 @ map fst g" by (simp add: cg)
  then have "fst ` set cg = set (map fst g0 @ map fst g)" by (metis list.set_map)
  then have "set [''shard_partition_ok'', ''local_topk_order_ok'', ''local_topk_a_correct'',
      ''local_topk_b_correct'', ''a_fetch_b_ready'', ''b_fetch_a_ready'', ''a_peer_is_b'', ''a_own_is_a'', ''b_peer_is_a'',
      ''b_own_is_b'', ''a_peer_host_is_b'', ''b_peer_host_is_a'', ''a_crosses_nodes'', ''no_application_on_root'',
      ''hpx_composition_a'', ''hpx_composition_b'', ''b_to_a_transfer_bits_exact'', ''a_to_b_transfer_bits_exact'',
      ''a_merge_ids_match'', ''b_merge_ids_match'', ''coordinator_symmetry'', ''float32_bits_exact'', ''a_merge_equals_oracle'',
      ''b_merge_equals_oracle''] \<subseteq> fst ` set cg"
    unfolding run_gates_names [OF t] run_gates_names [OF t'] by (simp add: case_tests_def crossnode_case_tests_def)
  from gates_in [OF assms(2) this] show ?thesis by (simp add: crossnode_case_class_def)
qed

text \<open>The failure class of a cross-node repetition is \<open>pass\<close> exactly when its verdict holds.\<close>

lemma failure_class_crossnode_pass:
  assumes "eval_crossnode_slice_a m expect = Inr ga" "eval_crossnode_slice_f m = Inr gf"
    "\<forall>p \<in> set ces. \<exists>c cr nA nB. eval_case_crossnode c cr nA nB = Inr (snd p)"
  shows "failure_class_crossnode ga gf ces = ''pass'' \<longleftrightarrow> rep_verdict_crossnode ga gf (map snd ces)"
proof
  assume v: "rep_verdict_crossnode ga gf (map snd ces)"
  have "list_all (\<lambda>g. crossnode_case_class g = None) (map snd ces)"
    using v assms(3) crossnode_case_gates by (fastforce simp: rep_verdict_crossnode_def list_all_iff)
  then have "crossnode_cases_class (map snd ces) = None" unfolding crossnode_cases_None .
  then show "failure_class_crossnode ga gf ces = ''pass''"
    using v crossnode_a_gates [OF assms(1)] crossnode_f_gates [OF assms(2)]
    by (simp add: failure_class_crossnode_def rep_verdict_crossnode_def)
qed (rule crossnode_pass_verdict)

end
