(* ===== verification/ExpWaits.thy ===== *)
theory ExpWaits
  imports PyText ExpMarkers
begin

text \<open>
  The bounded waits of \<open>experiments/68_vocab_sharded_topk/run_exp68.py\<close>: polling loops that sleep between two looks and
  give up at a deadline, the classification of how the root process ended, and the command lines the harness builds
  with their audit. \<open>now i\<close> is the value of \<open>time.time()\<close> at the \<open>i\<close>-th turn of a loop and \<open>probe i\<close> what a look sees
  there; a clock that stood still would let a loop run forever, so a loop is a partial function.
\<close>

partial_function (option) poll_loop :: "(nat \<Rightarrow> pyfloat) \<Rightarrow> pyfloat \<Rightarrow> (nat \<Rightarrow> 'a option) \<Rightarrow> nat \<Rightarrow> ('a option \<times> nat) option" where
  "poll_loop now deadline probe i =
     (if flt (now i) deadline then (case probe i of Some r \<Rightarrow> Some (Some r, i)
        | None \<Rightarrow> poll_loop now deadline probe (Suc i))
      else Some (None, i))"

text \<open>\<open>_wait_proc\<close>: the exit code seen before the deadline, or the one after the process group was killed.\<close>

definition wait_proc :: "(nat \<Rightarrow> pyfloat) \<Rightarrow> pyfloat \<Rightarrow> (nat \<Rightarrow> int option) \<Rightarrow> int option \<Rightarrow> (bool \<times> int option \<times> bool) option" where
  "wait_proc now deadline rc after_kill = (case poll_loop now deadline rc 0 of
       None \<Rightarrow> None
     | Some (Some r, _) \<Rightarrow> Some (True, Some r, False)
     | Some (None, _) \<Rightarrow> Some (False, after_kill, True))"

text \<open>\<open>_wait_for_file\<close>: the file is there, or one of the processes ended, and then one more look after a pause.\<close>

definition wait_for_file :: "(nat \<Rightarrow> pyfloat) \<Rightarrow> pyfloat \<Rightarrow> (nat \<Rightarrow> bool) \<Rightarrow> (nat \<Rightarrow> bool) \<Rightarrow> (nat \<Rightarrow> bool) \<Rightarrow> bool option" where
  "wait_for_file now timeout exists ended exists_later =
     (case poll_loop (\<lambda>i. now (Suc i)) (fadd (now 0) timeout)
         (\<lambda>i. if exists i then Some True else if ended i then Some (exists_later i) else None) 0 of
       None \<Rightarrow> None
     | Some (Some b, _) \<Rightarrow> Some b
     | Some (None, i) \<Rightarrow> Some (exists i))"

definition wait_pid_gone :: "(nat \<Rightarrow> pyfloat) \<Rightarrow> pyfloat \<Rightarrow> (nat \<Rightarrow> bool) \<Rightarrow> bool option" where
  "wait_pid_gone now timeout alive =
     (case poll_loop (\<lambda>i. now (Suc i)) (fadd (now 0) timeout) (\<lambda>i. if alive i then None else Some True) 0 of
       None \<Rightarrow> None
     | Some (Some b, _) \<Rightarrow> Some b
     | Some (None, i) \<Rightarrow> Some (\<not> alive i))"

definition exit_path :: "bool \<Rightarrow> int option \<Rightarrow> bool \<Rightarrow> string" where
  "exit_path exited rc killed =
     (if killed then ''hung_killed_by_harness''
      else if exited \<and> rc = Some 0 then ''finalized_clean''
      else if exited then ''self_terminated_nonzero''
      else ''unknown'')"

subsection \<open>Every wait ends\<close>

text \<open>The clock of a loop that sleeps 50 ms between two readings advances by at least 40 ms.\<close>

definition ticking :: "(nat \<Rightarrow> pyfloat) \<Rightarrow> (nat \<Rightarrow> rat) \<Rightarrow> bool" where
  "ticking now t = (\<forall>i. now i = Fin (t i) \<and> t i + 1 / 25 \<le> t (Suc i))"

lemma ticking_grows: "ticking now t \<Longrightarrow> t i + of_nat n / 25 \<le> t (i + n)"
proof (induction n)
  case (Suc n)
  then have "t (i + n) + 1 / 25 \<le> t (Suc (i + n))" by (simp add: ticking_def)
  with Suc show ?case by (simp add: add_divide_distrib)
qed simp

text \<open>The loop looks at most once for every 40 ms until the deadline; it ends with the first thing seen before the
  deadline, or with nothing at the first reading past it.\<close>

lemma poll_loop_ends:
  assumes c: "ticking now t" and n: "d \<le> t i + of_nat n / 25"
  shows "\<exists>r j. poll_loop now (Fin d) probe i = Some (r, j) \<and> i \<le> j \<and> j \<le> i + n \<and> (\<forall>k \<in> {i..<j}. t k < d \<and> probe k = None)
    \<and> (case r of Some x \<Rightarrow> t j < d \<and> probe j = Some x | None \<Rightarrow> d \<le> t j)"
  using n
proof (induction n arbitrary: i)
  case 0
  have "now i = Fin (t i)" using c by (simp add: ticking_def)
  then show ?case using 0 by (subst poll_loop.simps) simp
next
  case (Suc n)
  have now: "now i = Fin (t i)" and step: "t i + 1 / 25 \<le> t (Suc i)" using c by (simp_all add: ticking_def)
  show ?case
  proof (cases "t i < d \<and> probe i = None")
    case True
    have "d \<le> t (Suc i) + of_nat n / 25" using Suc.prems step by (simp add: add_divide_distrib)
    from Suc.IH [OF this] obtain r j where
      r: "poll_loop now (Fin d) probe (Suc i) = Some (r, j)" "Suc i \<le> j" "j \<le> Suc i + n"
        "\<forall>k \<in> {Suc i..<j}. t k < d \<and> probe k = None" "case r of Some x \<Rightarrow> t j < d \<and> probe j = Some x | None \<Rightarrow> d \<le> t j"
      by blast
    have "poll_loop now (Fin d) probe i = Some (r, j)" using True now r(1) by (subst poll_loop.simps) simp
    moreover have "\<forall>k \<in> {i..<j}. t k < d \<and> probe k = None" using True r(2,4) by (auto simp: le_less_Suc_eq Suc_le_eq dest: le_neq_implies_less)
    ultimately show ?thesis using r(2,3,5) by (intro exI [of _ r] exI [of _ j]) auto
  next
    case False
    then consider "d \<le> t i" | x where "t i < d" "probe i = Some x" by fastforce
    then show ?thesis
    proof cases
      case 1
      then have "poll_loop now (Fin d) probe i = Some (None, i)" using now by (subst poll_loop.simps) simp
      with 1 show ?thesis by (intro exI [of _ None] exI [of _ i]) simp
    next
      case (2 x)
      then have "poll_loop now (Fin d) probe i = Some (Some x, i)" using now by (subst poll_loop.simps) simp
      with 2 show ?thesis by (intro exI [of _ "Some x"] exI [of _ i]) simp
    qed
  qed
qed

lemma enough_turns: "\<exists>n. d \<le> t i + of_nat n / (25 :: rat)"
proof -
  obtain n where "(d - t i) * 25 < of_nat n" using reals_Archimedean2 by blast
  then have "d \<le> t i + of_nat n / 25" by (simp add: field_simps)
  then show ?thesis ..
qed

text \<open>C36. Waiting for a process ends, and its outcome is classified: \<open>finalized_clean\<close> exactly when the first exit code
  seen before the deadline is zero, \<open>hung_killed_by_harness\<close> exactly when none is seen, and never \<open>unknown\<close>.\<close>

theorem root_exit_classified:
  assumes "ticking now t"
  shows "\<exists>e r k. wait_proc now (Fin d) rc after = Some (e, r, k) \<and> exit_path e r k \<noteq> ''unknown''
    \<and> (exit_path e r k = ''finalized_clean'' \<longleftrightarrow> (\<exists>i. t i < d \<and> rc i = Some 0 \<and> (\<forall>j < i. rc j = None)))
    \<and> (exit_path e r k = ''hung_killed_by_harness'' \<longleftrightarrow> (\<forall>i. t i < d \<longrightarrow> rc i = None))"
proof -
  obtain n where "d \<le> t 0 + of_nat n / 25" using enough_turns [of d t 0] by blast
  from poll_loop_ends [OF assms this, of rc] obtain r j where
    l: "poll_loop now (Fin d) rc 0 = Some (r, j)" "\<forall>k < j. t k < d \<and> rc k = None"
      "case r of Some x \<Rightarrow> t j < d \<and> rc j = Some x | None \<Rightarrow> d \<le> t j" by auto
  have mono: "t i \<le> t k" if "i \<le> k" for i k
  proof -
    have "t i \<le> t i + of_nat (k - i) / 25" by simp
    also have "\<dots> \<le> t k" using ticking_grows [OF assms, of i "k - i"] that by simp
    finally show ?thesis .
  qed
  show ?thesis
  proof (cases r)
    case None
    then have dj: "d \<le> t j" using l(3) by simp
    have none: "rc i = None" if "t i < d" for i
    proof -
      have "i < j" using that dj mono [of j i] by (meson leD leI le_less_trans)
      then show ?thesis using l(2) by blast
    qed
    have w: "wait_proc now (Fin d) rc after = Some (False, after, True)" using None l(1) by (simp add: wait_proc_def)
    have n: "\<not> (\<exists>i. t i < d \<and> rc i = Some 0 \<and> (\<forall>j < i. rc j = None))" using none by fastforce
    show ?thesis using w none n by (intro exI [of _ False] exI [of _ after] exI [of _ True]) (simp add: exit_path_def)
  next
    case (Some x)
    then have j: "t j < d" "rc j = Some x" using l(3) by simp_all
    have w: "wait_proc now (Fin d) rc after = Some (True, Some x, False)" using Some l(1) by (simp add: wait_proc_def)
    have "(\<exists>i. t i < d \<and> rc i = Some 0 \<and> (\<forall>k < i. rc k = None)) \<longleftrightarrow> x = 0"
    proof
      assume "\<exists>i. t i < d \<and> rc i = Some 0 \<and> (\<forall>k < i. rc k = None)"
      then obtain i where i: "rc i = Some 0" "\<forall>k < i. rc k = None" by blast
      have "i = j" using i j(2) l(2) by (metis linorder_neqE_nat option.distinct(1))
      then show "x = 0" using i(1) j(2) by simp
    qed (use j l(2) in blast)
    moreover have "\<not> (\<forall>i. t i < d \<longrightarrow> rc i = None)" using j by fastforce
    ultimately show ?thesis using w by (intro exI [of _ True] exI [of _ "Some x"] exI [of _ False]) (simp add: exit_path_def)
  qed
qed

text \<open>A root that ends with code 0 at the third look, well before a deadline of one second.\<close>

lemma root_exit_classified_witness:
  "\<exists>e r k. wait_proc (\<lambda>i. Fin (of_nat i / 20)) (Fin 1) (\<lambda>i. if i < 3 then None else Some 0) None = Some (e, r, k)
    \<and> exit_path e r k = ''finalized_clean''"
proof -
  let ?rc = "\<lambda>i :: nat. if i < 3 then None else Some (0 :: int)"
  have "ticking (\<lambda>i. Fin (of_nat i / 20)) (\<lambda>i. of_nat i / 20)" by (simp add: ticking_def field_simps)
  from root_exit_classified [OF this, of 1 ?rc None] obtain e r k where
    w: "wait_proc (\<lambda>i. Fin (of_nat i / 20)) (Fin 1) ?rc None = Some (e, r, k)"
    and c: "exit_path e r k = ''finalized_clean'' \<longleftrightarrow> (\<exists>i. of_nat i / 20 < (1 :: rat) \<and> ?rc i = Some 0 \<and> (\<forall>j < i. ?rc j = None))"
    by blast
  have "of_nat 3 / 20 < (1 :: rat) \<and> ?rc 3 = Some 0 \<and> (\<forall>j < 3. ?rc j = None)" by simp
  with w c show ?thesis by blast
qed

text \<open>Waiting for a file or for a process to go ends as well, with what the last look saw.\<close>

lemma wait_pid_gone_ends:
  assumes "ticking (\<lambda>i. now (Suc i)) t" "fadd (now 0) timeout = Fin d"
  shows "\<exists>b. wait_pid_gone now timeout alive = Some b \<and> (b \<longleftrightarrow> (\<exists>i. (\<forall>j < i. t j < d) \<and> \<not> alive i))"
proof -
  obtain n where "d \<le> t 0 + of_nat n / 25" using enough_turns [of d t 0] by blast
  from poll_loop_ends [OF assms(1) this, of "\<lambda>i. if alive i then None else Some True"] obtain r j where
    l: "poll_loop (\<lambda>i. now (Suc i)) (Fin d) (\<lambda>i. if alive i then None else Some True) 0 = Some (r, j)"
      "\<forall>k < j. t k < d \<and> alive k"
      "case r of Some x \<Rightarrow> t j < d \<and> (if alive j then None else Some True) = Some x | None \<Rightarrow> d \<le> t j" by (auto split: if_splits)
  show ?thesis
  proof (cases r)
    case None
    then have past: "d \<le> t j" using l(3) by simp
    have "(\<exists>i. (\<forall>j < i. t j < d) \<and> \<not> alive i) \<longleftrightarrow> \<not> alive j"
    proof
      assume "\<exists>i. (\<forall>j < i. t j < d) \<and> \<not> alive i"
      then obtain i where i: "\<forall>j < i. t j < d" "\<not> alive i" by blast
      have "i \<le> j" using i(1) past by (meson leI not_less)
      then show "\<not> alive j" using i(2) l(2) by (cases "i = j") auto
    qed (use l(2) in blast)
    then show ?thesis using None l(1) assms(2) by (simp add: wait_pid_gone_def)
  next
    case (Some x)
    then have "x" "\<not> alive j" using l(3) by (auto split: if_splits)
    then show ?thesis using Some l(1,2) assms(2) by (auto simp: wait_pid_gone_def)
  qed
qed

subsection \<open>Command lines\<close>

definition argv_audit :: "string list list \<Rightarrow> bool" where
  "argv_audit cmds = (\<forall>cmd \<in> set cmds. \<forall>a \<in> set cmd. take 16 a \<noteq> ''--hpx:localities'')"

definition hpx_host :: string where
  "hpx_host = ''localhost''"

definition peer_root_cmd :: "string \<Rightarrow> string \<Rightarrow> int \<Rightarrow> string list" where
  "peer_root_cmd peer boot p_root = [peer, ''--role'', ''root'', ''--bootstrap'', boot, ''--leave-timeout'', ''25'',
     ''--hpx:agas='' @ hpx_host @ '':'' @ int_str p_root, ''--hpx:hpx='' @ hpx_host @ '':'' @ int_str p_root,
     ''--hpx:expect-connecting-localities'', ''--hpx:threads=2'', ''--hpx:bind=none'', ''--hpx:ignore-batch-env'']"

definition actor_endpoints :: "int \<Rightarrow> int \<Rightarrow> string list" where
  "actor_endpoints p_root p_actor = [''--hpx:agas='' @ hpx_host @ '':'' @ int_str p_root,
     ''--hpx:hpx='' @ hpx_host @ '':'' @ int_str p_actor, ''--hpx:bind=none'', ''--hpx:ignore-batch-env'']"

text \<open>The command lines of a repetition pass the audit whatever the ports, for paths that are no such option.\<close>

lemma commands_audited:
  assumes "take 16 peer \<noteq> ''--hpx:localities''" "take 16 boot \<noteq> ''--hpx:localities''"
  shows "argv_audit [peer_root_cmd peer boot p_root, actor_endpoints p_root p_a, actor_endpoints p_root p_b]"
  using assms by (simp add: argv_audit_def peer_root_cmd_def actor_endpoints_def hpx_host_def)

end
