(* ===== verification/SupMachine.thy ===== *)
theory SupMachine
  imports ExpMarkers
begin

text \<open>
  The linear state machine of an arm (\<open>ArmStateMachine\<close> in
  \<open>experiments/70_hpx_locality_supervision/slice4_root_loss_event/run_slice4.py\<close>) over any list of states, and the
  contracts as locales: \<open>lifecycle\<close> for the list, \<open>publication_guard\<close> for whoever publishes under such a machine.
\<close>

datatype sup_error = InvalidTransition | BlindnessViolation | Raised exc

type_synonym 'a sup = "sup_error + 'a"

definition raising :: "'a py \<Rightarrow> 'a sup" where
  "raising r = (case r of Inl e \<Rightarrow> Inl (Raised e) | Inr x \<Rightarrow> Inr x)"

lemma raising_simps [simp]: "raising (Inl x) = Inl (Raised x)" "raising (Inr r) = Inr r"
  by (simp_all add: raising_def)

text \<open>A JSON file as one reading finds it: none, one that cannot be read, or a value. And \<open>d.get(k)\<close> of a value known to
  be a dict.\<close>

datatype witness_file = NoFile | BadFile | Doc pyval

definition item_of :: "(pykey \<times> pyval) list \<Rightarrow> string \<Rightarrow> pyval" where
  "item_of d k = (case map_of d (KStr k) of None \<Rightarrow> VNone | Some v \<Rightarrow> v)"

subsection \<open>The state machine\<close>

record arm_machine =
  am_state :: string
  am_history :: "(string \<times> pyfloat) list"
  am_rejected :: "(string \<times> string) list"

definition next_in :: "string list \<Rightarrow> string \<Rightarrow> string option" where
  "next_in states s = map_of (zip states (tl states)) s"

definition start_in :: "string list \<Rightarrow> pyfloat \<Rightarrow> arm_machine" where
  "start_in states t = \<lparr> am_state = hd states, am_history = [(hd states, t)], am_rejected = [] \<rparr>"

definition advance_in :: "string list \<Rightarrow> string \<Rightarrow> pyfloat \<Rightarrow> arm_machine \<Rightarrow> arm_machine \<times> unit sup" where
  "advance_in states to t m = (if next_in states (am_state m) \<noteq> Some to
     then (m\<lparr>am_rejected := am_rejected m @ [(am_state m, to)]\<rparr>, Inl InvalidTransition)
     else (m\<lparr>am_state := to, am_history := am_history m @ [(to, t)]\<rparr>, Inr ()))"

text \<open>The states visited are a prefix of the list.\<close>

definition in_order :: "string list \<Rightarrow> arm_machine \<Rightarrow> bool" where
  "in_order states m = (\<exists>n < length states. map fst (am_history m) = take (Suc n) states \<and> am_state m = states ! n)"

lemma next_in_nth:
  "distinct states \<Longrightarrow> n < length states \<Longrightarrow> next_in states (states ! n) = (if Suc n < length states then Some (states ! Suc n) else None)"
proof (induction states arbitrary: n)
  case (Cons s ss)
  show ?case
  proof (cases n)
    case 0
    then show ?thesis by (cases ss) (simp_all add: next_in_def)
  next
    case (Suc m)
    with Cons.prems have m: "m < length ss" "s \<noteq> ss ! m" by auto
    then have "next_in (s # ss) (ss ! m) = next_in ss (ss ! m)" by (cases ss) (auto simp: next_in_def)
    then show ?thesis using Cons m(1) Suc by simp
  qed
qed simp

locale lifecycle =
  fixes states :: "string list"
  assumes distinct_states: "distinct states" and some_state: "states \<noteq> []"
begin

lemma start_in_order: "in_order states (start_in states t)"
  using some_state by (cases states) (auto simp: in_order_def start_in_def)

lemma advance_in_order:
  assumes "in_order states m"
  shows "in_order states (fst (advance_in states to t m))"
proof (cases "next_in states (am_state m) = Some to")
  case False
  then show ?thesis using assms by (auto simp: advance_in_def in_order_def)
next
  case True
  obtain n where n: "n < length states" "map fst (am_history m) = take (Suc n) states" "am_state m = states ! n"
    using assms by (auto simp: in_order_def)
  then have "Suc n < length states" "to = states ! Suc n"
    using True next_in_nth [OF distinct_states n(1)] by (auto split: if_splits)
  then show ?thesis using True n
    by (auto simp: advance_in_def in_order_def take_Suc_conv_app_nth intro!: exI [of _ "Suc n"])
qed

text \<open>A machine in state number \<open>n\<close> has visited \<open>n + 1\<close> states, so it is never again in an earlier one.\<close>

lemma history_at:
  assumes "in_order states m" "am_state m = states ! n" "n < length states"
  shows "length (am_history m) = Suc n"
proof -
  obtain k where k: "k < length states" "map fst (am_history m) = take (Suc k) states" "am_state m = states ! k"
    using assms(1) by (auto simp: in_order_def)
  then have "k = n" using assms(2,3) distinct_states by (simp add: nth_eq_iff_index_eq)
  with arg_cong [OF k(2), of length] k(1) show ?thesis by simp
qed

lemma history_grows: "length (am_history m) \<le> length (am_history (fst (advance_in states to t m)))"
  by (simp add: advance_in_def)

end

subsection \<open>The guard on publishing\<close>

text \<open>What every publication guard owes: an operation leaves the machine alone or advances it; it publishes nothing, or
  one thing in the state the guard asks for, that clashes with nothing published before.\<close>

locale publication_guard = lifecycle states for states :: "string list" +
  fixes machine :: "'c \<Rightarrow> arm_machine" and published :: "'c \<Rightarrow> 'k list"
    and clash :: "'k \<Rightarrow> 'k \<Rightarrow> bool" and step :: "'o \<Rightarrow> 'c \<Rightarrow> 'c" and gate :: nat
  assumes step_machine: "machine (step op c) = machine c \<or> (\<exists>to t. machine (step op c) = fst (advance_in states to t (machine c)))"
    and step_published: "published (step op c) = published c \<or> am_state (machine c) = states ! gate
      \<and> (\<exists>k. published (step op c) = published c @ [k] \<and> (\<forall>j \<in> set (published c). \<not> clash k j))"
    and gate_state: "gate < length states"
begin

lemma step_ok:
  assumes "in_order states (machine c)" "sorted_wrt (\<lambda>x y. \<not> clash y x) (published c)"
    "published c \<noteq> [] \<longrightarrow> gate < length (am_history (machine c))"
  shows "in_order states (machine (step op c)) \<and> sorted_wrt (\<lambda>x y. \<not> clash y x) (published (step op c))
    \<and> (published (step op c) \<noteq> [] \<longrightarrow> gate < length (am_history (machine (step op c))))"
proof -
  have o: "in_order states (machine (step op c))" using step_machine [of op c] assms(1) advance_in_order by auto
  have h: "length (am_history (machine c)) \<le> length (am_history (machine (step op c)))"
    using step_machine [of op c] history_grows by auto
  consider "published (step op c) = published c"
    | k where "am_state (machine c) = states ! gate" "published (step op c) = published c @ [k]" "\<forall>j \<in> set (published c). \<not> clash k j"
    using step_published [of op c] by blast
  then show ?thesis
  proof cases
    case 1
    then show ?thesis using o h assms by auto
  next
    case 2
    then show ?thesis using o h assms history_at [OF assms(1) 2(1) gate_state] by (auto simp: sorted_wrt_append)
  qed
qed

text \<open>So over a whole run nothing that clashes is published, and once something is the machine is past every state before
  the one the guard asks for.\<close>

lemma run_ok:
  assumes "in_order states (machine c)" "published c = []"
  shows "in_order states (machine (fold step ops c)) \<and> sorted_wrt (\<lambda>x y. \<not> clash y x) (published (fold step ops c))
    \<and> (published (fold step ops c) \<noteq> [] \<longrightarrow> gate < length (am_history (machine (fold step ops c))))"
proof -
  have "in_order states (machine c) \<and> sorted_wrt (\<lambda>x y. \<not> clash y x) (published c)
      \<and> (published c \<noteq> [] \<longrightarrow> gate < length (am_history (machine c))) \<Longrightarrow>
    in_order states (machine (fold step ops c)) \<and> sorted_wrt (\<lambda>x y. \<not> clash y x) (published (fold step ops c))
      \<and> (published (fold step ops c) \<noteq> [] \<longrightarrow> gate < length (am_history (machine (fold step ops c))))" for c
    by (induction ops arbitrary: c) (simp_all add: step_ok)
  with assms show ?thesis by simp
qed

lemma no_return:
  assumes "in_order states m" "gate < length (am_history m)" "n < gate"
  shows "am_state m \<noteq> states ! n"
  using history_at [OF assms(1), of n] assms(2,3) gate_state by auto

end

end
