(* ===== verification/PyJson.thy ===== *)
theory PyJson
  imports PyText ExpMarkers
begin

text \<open>
  What a Python value comes back as after \<open>json.dump(v, f, sort_keys=True)\<close> and \<open>json.load(f)\<close>: tuples as lists,
  \<open>int\<close> keys as text, keys in order; or the exception of the dump. A nesting deeper than the interpreter's recursion
  limit is not modelled.
\<close>

subsection \<open>The image of a value\<close>

text \<open>The decimal text of an int; Python refuses more than 4300 digits.\<close>

definition json_int :: "int \<Rightarrow> string py" where
  "json_int n = (if 4300 < length (nat_str (nat \<bar>n\<bar>)) then Inl ValueError else Inr (int_str n))"

fun str_keyed :: "pykey \<times> 'a \<Rightarrow> bool" where
  "str_keyed (KStr k, _) = True"
| "str_keyed (KInt n, _) = False"

fun key_text :: "pykey \<Rightarrow> string" where
  "key_text (KStr k) = k"
| "key_text (KInt n) = []"

fun key_number :: "pykey \<Rightarrow> int" where
  "key_number (KStr k) = 0"
| "key_number (KInt n) = n"

text \<open>\<open>sorted(d.items())\<close>: keys of both kinds do not compare.\<close>

definition sorted_items :: "(pykey \<times> 'a) list \<Rightarrow> (pykey \<times> 'a) list py" where
  "sorted_items d = (if list_all str_keyed d then Inr (sort_key (\<lambda>p. key_text (fst p)) d)
     else if list_all (\<lambda>p. \<not> str_keyed p) d then Inr (sort_key (\<lambda>p. key_number (fst p)) d)
     else Inl TypeError)"

fun json_key :: "pykey \<Rightarrow> string py" where
  "json_key (KStr k) = Inr k"
| "json_key (KInt n) = json_int n"

definition json_item :: "pykey \<times> pyval py \<Rightarrow> (pykey \<times> pyval) py" where
  "json_item p = rbind (json_key (fst p)) (\<lambda>k. rbind (snd p) (\<lambda>v. Inr (KStr k, v)))"

definition json_object :: "(pykey \<times> pyval py) list \<Rightarrow> pyval py" where
  "json_object d = rbind (sorted_items d) (\<lambda>d. rbind (mapM json_item d) (\<lambda>d. Inr (VDict d)))"

definition json_array :: "pyval py list \<Rightarrow> pyval py" where
  "json_array rs = rbind (mapM (\<lambda>r. r) rs) (\<lambda>vs. Inr (VList vs))"

fun json_image :: "pyval \<Rightarrow> pyval py" where
  "json_image VNone = Inr VNone"
| "json_image (VBool b) = Inr (VBool b)"
| "json_image (VInt n) = rbind (json_int n) (\<lambda>_. Inr (VInt n))"
| "json_image (VFloat f) = Inr (VFloat f)"
| "json_image (VStr s) = Inr (VStr s)"
| "json_image (VList vs) = json_array (map json_image vs)"
| "json_image (VTuple vs) = json_array (map json_image vs)"
| "json_image (VDict d) = json_object (map (\<lambda>p. (fst p, json_image (snd p))) d)"
| "json_image (VObj _) = Inl TypeError"

subsection \<open>Values that come back equal\<close>

text \<open>No tuple, no object, only \<open>str\<close> keys, and each of them once.\<close>

fun json_stable :: "pyval \<Rightarrow> bool" where
  "json_stable (VInt n) = (length (nat_str (nat \<bar>n\<bar>)) \<le> 4300)"
| "json_stable (VList vs) = list_all json_stable vs"
| "json_stable (VTuple vs) = False"
| "json_stable (VDict d) = (list_all str_keyed d \<and> distinct (map fst d) \<and> list_all (\<lambda>p. json_stable (snd p)) d)"
| "json_stable (VObj _) = False"
| "json_stable _ = True"

lemma mapM_Inr_iff: "mapM f xs = Inr ys \<longleftrightarrow> list_all2 (\<lambda>x y. f x = Inr y) xs ys"
  by (induction xs arbitrary: ys) (auto simp: rbind_eq_Inr list_all2_Cons1)

lemma json_array_list: "list_all2 (\<lambda>r v. r = Inr v) rs vs \<Longrightarrow> json_array rs = Inr (VList vs)"
proof -
  assume "list_all2 (\<lambda>r v. r = Inr v) rs vs"
  then have "mapM (\<lambda>r. r) rs = Inr vs" by (simp add: mapM_Inr_iff)
  then show ?thesis by (simp add: json_array_def)
qed

lemma str_keyed_key: "str_keyed p \<longleftrightarrow> fst p = KStr (key_text (fst p))"
  by (cases p; cases "fst p") auto

lemma json_object_str:
  assumes "list_all str_keyed d" "\<And>p. p \<in> set d \<Longrightarrow> snd p = Inr (g (fst p))"
  shows "json_object d = Inr (VDict (map (\<lambda>p. (fst p, g (fst p))) (sort_key (\<lambda>p. key_text (fst p)) d)))"
proof -
  let ?s = "sort_key (\<lambda>p. key_text (fst p)) d"
  have "json_item p = Inr (fst p, g (fst p))" if "p \<in> set ?s" for p
  proof -
    have p: "p \<in> set d" using that by simp
    then have k: "fst p = KStr (key_text (fst p))" using assms(1) str_keyed_key [of p] by (simp add: list_all_iff)
    have "json_key (fst p) = Inr (key_text (fst p))" by (subst k) simp
    then show ?thesis using assms(2) [OF p] k by (simp add: json_item_def)
  qed
  then have "mapM json_item (map (\<lambda>p. p) ?s) = Inr (map (\<lambda>p. (fst p, g (fst p))) ?s)" by (intro mapM_map) simp
  then show ?thesis using assms(1) by (simp add: json_object_def sorted_items_def)
qed

lemma val_eq_refl_dict: "distinct (map fst d) \<Longrightarrow> val_eq (VDict d) (VDict d) \<Longrightarrow> p \<in> set d \<Longrightarrow> val_eq (snd p) (snd p)"
  by (cases p) (auto simp: list_all_iff)

lemma json_stable_eq: "json_stable v \<Longrightarrow> val_eq v v \<Longrightarrow> \<exists>v'. json_image v = Inr v' \<and> val_eq v' v"
proof (induction v rule: json_image.induct)
  case (3 n)
  then show ?case by (simp add: json_int_def)
next
  case (6 vs)
  have "\<forall>x \<in> set vs. \<exists>y. json_image x = Inr y \<and> val_eq y x"
    using 6 by (auto simp: list_all_iff list_all2_same)
  then obtain f where f: "\<forall>x \<in> set vs. json_image x = Inr (f x) \<and> val_eq (f x) x" by metis
  then have "list_all2 (\<lambda>r v. r = Inr v) (map json_image vs) (map f vs)"
    by (simp add: list_all2_map1 list_all2_map2 list_all2_same)
  then have "json_image (VList vs) = Inr (VList (map f vs))" using json_array_list by simp
  moreover have "val_eq (VList (map f vs)) (VList vs)" using f by (simp add: list_all2_map1 list_all2_same)
  ultimately show ?case by blast
next
  case (8 d)
  have s: "list_all str_keyed d" "distinct (map fst d)" using 8(2) by simp_all
  have "\<forall>p \<in> set d. \<exists>y. json_image (snd p) = Inr y \<and> val_eq y (snd p)"
    using 8(1,2) val_eq_refl_dict [OF s(2) 8(3)] by (auto simp: list_all_iff)
  then obtain f where f: "\<forall>p \<in> set d. json_image (snd p) = Inr (f p) \<and> val_eq (f p) (snd p)" by metis
  define g where "g = (\<lambda>k. f (k, the (map_of d k)))"
  have g: "g (fst p) = f p" if "p \<in> set d" for p
    using map_of_is_SomeI [OF s(2), of "fst p" "snd p"] that by (simp add: g_def)
  let ?d = "map (\<lambda>p. (fst p, json_image (snd p))) d"
  let ?r = "map (\<lambda>p. (fst p, g (fst p))) (sort_key (\<lambda>p. key_text (fst p)) ?d)"
  have "list_all str_keyed ?d" using s(1) by (auto simp: list_all_iff str_keyed_key)
  then have "json_object ?d = Inr (VDict ?r)" by (rule json_object_str) (use f g in auto)
  moreover have "val_eq (VDict ?r) (VDict d)"
  proof -
    have "\<exists>v. map_of d (fst q) = Some v \<and> val_eq (snd q) v" if q: "q \<in> set ?r" for q
    proof -
      obtain p where p: "p \<in> set d" "q = (fst p, g (fst p))" using q by auto
      then show ?thesis using map_of_is_SomeI [OF s(2), of "fst p" "snd p"] f g [OF p(1)] by simp
    qed
    then have "list_all (\<lambda>p. case map_of d (fst p) of None \<Rightarrow> False | Some v \<Rightarrow> val_eq (snd p) v) ?r"
      unfolding list_all_iff by fastforce
    then show ?thesis by simp
  qed
  ultimately show ?case by auto
qed simp_all

text \<open>A dict with distinct \<open>str\<close> keys keeps what each holds, as its image.\<close>

lemma json_dict_item:
  assumes "json_image (VDict d) = Inr v" "list_all str_keyed d" "distinct (map fst d)" "(KStr k, x) \<in> set d"
  shows "\<exists>d' y. v = VDict d' \<and> json_image x = Inr y \<and> map_of d' (KStr k) = Some y"
proof -
  let ?d = "map (\<lambda>p. (fst p, json_image (snd p))) d"
  let ?s = "sort_key (\<lambda>p. key_text (fst p)) ?d"
  have k: "list_all str_keyed ?d" using assms(2) by (auto simp: list_all_iff str_keyed_key)
  then obtain d' where d': "mapM json_item ?s = Inr d'" "v = VDict d'"
    using assms(1) by (auto simp: json_object_def sorted_items_def rbind_eq_Inr)
  have l: "list_all2 (\<lambda>p q. json_item p = Inr q) ?s d'" using d'(1) by (simp only: mapM_Inr_iff)
  have i: "fst q = fst p \<and> snd p = Inr (snd q)" if "json_item p = Inr q" "p \<in> set ?s" for p q
    using that k by (auto simp: json_item_def rbind_eq_Inr list_all_iff) (metis fst_conv json_key.simps(1) old.sum.inject(2) str_keyed.elims(2))+
  have "length d' = length ?s" and n: "\<And>n. n < length ?s \<Longrightarrow> json_item (?s ! n) = Inr (d' ! n)"
    using l by (simp_all only: list_all2_conv_all_nth)
  then have f: "map fst d' = map fst ?s"
    using i [OF n nth_mem] by (intro nth_equalityI) (simp_all only: length_map nth_map)
  have "distinct (map fst ?d)" using assms(3) by (simp add: o_def)
  then have "distinct (map fst ?s)" by (simp only: distinct_map set_sort distinct_sort)
  then have dd: "distinct (map fst d')" using f by simp
  have "(KStr k, json_image x) \<in> set ?s" using assms(4) by force
  then obtain n where n: "n < length ?s" "?s ! n = (KStr k, json_image x)" unfolding in_set_conv_nth by blast
  then have q: "json_item (KStr k, json_image x) = Inr (d' ! n)" "n < length d'" using l by (auto simp: list_all2_conv_all_nth)
  then have "fst (d' ! n) = KStr k" "json_image x = Inr (snd (d' ! n))"
    using i [OF q(1)] n by (metis fst_conv nth_mem, metis snd_conv nth_mem)
  moreover from this have "map_of d' (KStr k) = Some (snd (d' ! n))"
    using dd q(2) by (metis map_of_is_SomeI nth_mem prod.collapse)
  ultimately show ?thesis using d'(2) by blast
qed

end
