(* ===== verification/SupRoot.thy ===== *)
theory SupRoot
  imports SupMachine PyJson
begin

text \<open>
  The supervision of the root process in
  \<open>experiments/70_hpx_locality_supervision/slice4_root_loss_event/run_slice4.py\<close>: the state machine of an arm, the
  classifier that sees nothing but observable evidence, the observer that polls the root's witness files, and the guard
  on publishing a completion.
\<close>

subsection \<open>The state machine of an arm\<close>

definition sup_states :: "string list" where
  "sup_states = [''STARTING'', ''READY'', ''WORK_VERIFIED'', ''RESULT_VERIFIED'', ''ROOT_EVENT_CLASSIFIED'',
     ''CONNECTORS_OBSERVED'', ''ISLAND_DISPOSED'', ''FINALIZED'']"

definition next_state :: "string \<Rightarrow> string option" where
  "next_state s = next_in sup_states s"

definition machine_init :: "pyfloat \<Rightarrow> arm_machine" where
  "machine_init t = start_in sup_states t"

definition advance :: "string \<Rightarrow> pyfloat \<Rightarrow> arm_machine \<Rightarrow> arm_machine \<times> unit sup" where
  "advance to t m = advance_in sup_states to t m"

definition dispatch_states :: "string list" where
  "dispatch_states = [''READY'']"

definition dispatch_guard :: "arm_machine \<Rightarrow> bool" where
  "dispatch_guard m = (am_state m \<in> set dispatch_states)"

subsection \<open>The classifier\<close>

definition root_evidence_keys :: "string list" where
  "root_evidence_keys = [''epoch_id'', ''completion_witness_present'', ''completion_witness_epoch_match'', ''expected_refresh_s'',
     ''observed_silence_s'', ''classification_bound_s'', ''root_pid_alive'', ''witness_read_error'', ''observation_deadline_exceeded'']"

fun assert_root_blind :: "pyval \<Rightarrow> (pykey \<times> pyval) list sup" where
  "assert_root_blind (VDict d) = (if fst ` set d \<subseteq> KStr ` set root_evidence_keys then Inr d else Inl BlindnessViolation)"
| "assert_root_blind _ = Inl BlindnessViolation"

definition silence_reached :: "pyval \<Rightarrow> pyval \<Rightarrow> bool" where
  "silence_reached silence bound = (case (val_num silence, val_num bound) of
     (Some s, Some b) \<Rightarrow> fle b s | _ \<Rightarrow> False)"

definition root_label :: "(pykey \<times> pyval) list \<Rightarrow> string" where
  "root_label ev =
     (if is_true (item_of ev ''witness_read_error'') then ''observation_error''
      else if item_of ev ''completion_witness_present'' = VBool True \<and> item_of ev ''completion_witness_epoch_match'' = VBool True
        then ''explicit_completion''
      else if silence_reached (item_of ev ''observed_silence_s'') (item_of ev ''classification_bound_s'') then ''suspected_root_loss''
      else if item_of ev ''observation_deadline_exceeded'' = VBool True then ''observation_timeout''
      else ''pending'')"

record root_class =
  rc_event :: string
  rc_basis :: "(string \<times> pyval) list"
  rc_epoch :: pyval

definition classify_root_event :: "pyval \<Rightarrow> root_class sup" where
  "classify_root_event evidence = rbind (assert_root_blind evidence) (\<lambda>ev. Inr \<lparr> rc_event = root_label ev,
     rc_basis = [
       (''completion_witness_epoch_match'', VBool (item_of ev ''completion_witness_epoch_match'' = VBool True)),
       (''observed_silence_s'', item_of ev ''observed_silence_s''),
       (''classification_bound_s'', item_of ev ''classification_bound_s''),
       (''silence_bound_reached'', VBool (root_label ev = ''suspected_root_loss'')),
       (''root_pid_alive'', item_of ev ''root_pid_alive'')],
     rc_epoch = item_of ev ''epoch_id'' \<rparr>)"

definition root_evidence :: "pyval \<Rightarrow> bool \<Rightarrow> bool \<Rightarrow> pyfloat \<Rightarrow> pyfloat \<Rightarrow> pyfloat \<Rightarrow> pyval \<Rightarrow> bool \<Rightarrow> bool \<Rightarrow> pyval" where
  "root_evidence epoch present match refresh silence bound alive read_error deadline = VDict [
     (KStr ''epoch_id'', epoch), (KStr ''completion_witness_present'', VBool present),
     (KStr ''completion_witness_epoch_match'', VBool match), (KStr ''expected_refresh_s'', VFloat refresh),
     (KStr ''observed_silence_s'', VFloat silence), (KStr ''classification_bound_s'', VFloat bound),
     (KStr ''root_pid_alive'', alive), (KStr ''witness_read_error'', VBool read_error),
     (KStr ''observation_deadline_exceeded'', VBool deadline)]"

definition collect_root_evidence :: "pyval \<Rightarrow> bool \<Rightarrow> bool \<Rightarrow> pyfloat \<Rightarrow> pyfloat \<Rightarrow> pyfloat \<Rightarrow> pyval \<Rightarrow> bool \<Rightarrow> bool \<Rightarrow> pyval sup" where
  "collect_root_evidence epoch present match refresh silence bound alive read_error deadline =
     (let ev = root_evidence epoch present match refresh silence bound alive read_error deadline
      in rbind (assert_root_blind ev) (\<lambda>_. Inr ev))"

subsection \<open>The observer\<close>

record observer =
  ob_refresh :: pyfloat
  ob_bound :: pyfloat

text \<open>What the outside shows the observer: the clock at its readings (number 0 is \<open>t0\<close>, number \<open>i + 1\<close> that of turn
  \<open>i\<close>), the token of the alive witness before the first turn and at each turn (\<open>None\<close> when it cannot be read), the
  completion witness, and what the \<open>pid_alive\<close> the observer was given returns for an id, or raises (\<open>os.kill\<close> refuses an
  id that is no int, or no C int).\<close>

record root_world =
  rw_clock :: "nat \<Rightarrow> pyfloat"
  rw_first_token :: "nat option"
  rw_token :: "nat \<Rightarrow> nat option"
  rw_completion :: "nat \<Rightarrow> witness_file"
  rw_alive :: "nat \<Rightarrow> pyval \<Rightarrow> pyval py"

text \<open>\<open>_read_completion\<close>: present, epoch match, the document, read error.\<close>

definition read_completion :: "pyval \<Rightarrow> witness_file \<Rightarrow> (bool \<times> bool \<times> pyval option \<times> bool) sup" where
  "read_completion epoch f = (case f of
       NoFile \<Rightarrow> Inr (False, False, None, False)
     | BadFile \<Rightarrow> Inr (True, False, None, True)
     | Doc doc \<Rightarrow> rbind (raising (get_key doc ''epoch_id'')) (\<lambda>e. Inr (True, val_eq e epoch, Some doc, False)))"

definition doc_key :: "pyval \<Rightarrow> string \<Rightarrow> pyval" where
  "doc_key doc k = (case doc of VDict d \<Rightarrow> item_of d k | _ \<Rightarrow> VNone)"

text \<open>A witness of another root is not this root's completion.\<close>

definition other_root :: "pyval \<Rightarrow> pyval \<Rightarrow> bool" where
  "other_root doc ident = (ident \<noteq> VNone \<and> \<not> (doc_key doc ''root_identity'' = VNone \<or> val_eq (doc_key doc ''root_identity'') ident))"

definition root_pid :: "pyval \<Rightarrow> pyval" where
  "root_pid ident = (case ident of VDict d \<Rightarrow> item_of d ''pid'' | _ \<Rightarrow> VNone)"

record observe_state =
  os_token :: "nat option"
  os_advance :: pyfloat
  os_stale :: "pyval list"

record root_report =
  rr_event :: string
  rr_basis :: "(string \<times> pyval) list"
  rr_evidence :: pyval
  rr_stale :: "pyval list"
  rr_silence :: pyfloat
  rr_advance :: pyfloat
  rr_verbatim :: "pyval option"

definition note_token :: "nat option \<Rightarrow> pyfloat \<Rightarrow> observe_state \<Rightarrow> observe_state" where
  "note_token token now st = (if token \<noteq> None \<and> token \<noteq> os_token st
     then st\<lparr>os_token := token, os_advance := now\<rparr> else st)"

definition note_stale :: "bool \<Rightarrow> bool \<Rightarrow> pyval option \<Rightarrow> observe_state \<Rightarrow> observe_state" where
  "note_stale present match doc st = (case doc of
       Some d \<Rightarrow> if present \<and> \<not> match \<and> \<not> list_ex (val_eq (doc_key d ''epoch_id'')) (os_stale st)
         then st\<lparr>os_stale := os_stale st @ [doc_key d ''epoch_id'']\<rparr> else st
     | None \<Rightarrow> st)"

text \<open>One turn: the next state, or the report.\<close>

definition observe_turn :: "observer \<Rightarrow> root_world \<Rightarrow> pyval \<Rightarrow> pyval \<Rightarrow> pyfloat \<Rightarrow> nat \<Rightarrow> observe_state
    \<Rightarrow> (observe_state + root_report) sup" where
  "observe_turn ob w epoch ident bound i st0 =
     (let t0 = rw_clock w 0; now = rw_clock w (Suc i); st = note_token (rw_token w i) now st0 in
      rbind (read_completion epoch (rw_completion w i)) (\<lambda>(present, match, doc, cerr).
      let st = note_stale present match doc st;
          match = (match \<and> \<not> (case doc of Some d \<Rightarrow> other_root d ident | None \<Rightarrow> False));
          silence = fsub now (os_advance st)
      in rbind (raising (rw_alive w i (root_pid ident))) (\<lambda>alive.
         rbind (collect_root_evidence epoch present match (ob_refresh ob) silence (ob_bound ob) alive (cerr \<or> rw_token w i = None \<and> os_token st = None)
             (fle bound (fsub now t0))) (\<lambda>ev.
      rbind (classify_root_event ev) (\<lambda>res.
        if rc_event res \<noteq> ''pending''
        then Inr (Inr \<lparr> rr_event = rc_event res, rr_basis = rc_basis res, rr_evidence = ev, rr_stale = os_stale st,
               rr_silence = silence, rr_advance = os_advance st,
               rr_verbatim = (if rc_event res = ''explicit_completion'' then doc else None) \<rparr>)
        else Inr (Inl st))))))"

partial_function (option) observe_loop :: "observer \<Rightarrow> root_world \<Rightarrow> pyval \<Rightarrow> pyval \<Rightarrow> pyfloat \<Rightarrow> nat \<Rightarrow> observe_state \<Rightarrow> root_report sup option" where
  "observe_loop ob w epoch ident bound i st = (case observe_turn ob w epoch ident bound i st of
       Inl e \<Rightarrow> Some (Inl e)
     | Inr (Inr rep) \<Rightarrow> Some (Inr rep)
     | Inr (Inl st') \<Rightarrow> observe_loop ob w epoch ident bound (Suc i) st')"

definition observe_root_event :: "observer \<Rightarrow> root_world \<Rightarrow> pyval \<Rightarrow> pyval \<Rightarrow> pyfloat \<Rightarrow> root_report sup option" where
  "observe_root_event ob w epoch ident bound = observe_loop ob w epoch ident bound 0
     \<lparr> os_token = rw_first_token w, os_advance = rw_clock w 0, os_stale = [] \<rparr>"

subsection \<open>Publishing a completion\<close>

text \<open>The witness file holds the JSON image of the last document published: what a reading gives back.\<close>

definition completion_doc :: "pyval \<Rightarrow> pyval \<Rightarrow> pyval \<Rightarrow> pyval \<Rightarrow> pyval \<Rightarrow> pyval" where
  "completion_doc epoch ident payload at_wall at_mono = VDict [(KStr ''epoch_id'', epoch), (KStr ''root_identity'', ident),
     (KStr ''payload'', payload), (KStr ''published_wall_ms'', at_wall), (KStr ''published_mono'', at_mono)]"

datatype refusal = NotVerified | WrongState string | AlreadyPublished

record attempt =
  at_epoch :: pyval
  at_state :: string
  at_time :: pyfloat
  at_pid :: pyval
  at_refused :: "refusal option"

record contract =
  ct_machine :: arm_machine
  ct_attempts :: "attempt list"
  ct_published :: "pyval list"
  ct_file :: witness_file

text \<open>\<open>published\<close> is a dict with the epochs as keys. \<open>write\<close> is what the two clocks, the file system and the renaming give:
  the two times, or an exception; the document itself can refuse to be dumped. Either way the old witness stays.\<close>

definition try_publish_completion :: "pyval \<Rightarrow> pyval \<Rightarrow> pyval \<Rightarrow> bool \<Rightarrow> pyfloat \<Rightarrow> (pyval \<times> pyval) py \<Rightarrow> contract
    \<Rightarrow> contract \<times> attempt sup" where
  "try_publish_completion epoch ident payload verified t write c =
     (case get_key (or_empty ident) ''pid'' of
        Inl e \<Rightarrow> (c, Inl (Raised e))
      | Inr pid \<Rightarrow>
        (let att = \<lparr> at_epoch = epoch, at_state = am_state (ct_machine c), at_time = t, at_pid = pid, at_refused = None \<rparr>;
             refuse = (\<lambda>r. let a = att\<lparr>at_refused := Some r\<rparr> in (c\<lparr>ct_attempts := ct_attempts c @ [a]\<rparr>, Inr a))
         in if \<not> verified then refuse NotVerified
            else if am_state (ct_machine c) \<noteq> ''RESULT_VERIFIED'' then refuse (WrongState (am_state (ct_machine c)))
            else if \<not> is_hashable epoch then (c, Inl (Raised TypeError))
            else if list_ex (val_eq epoch) (ct_published c) then refuse AlreadyPublished
            else (case rbind write (\<lambda>(at_wall, at_mono). json_image (completion_doc epoch ident payload at_wall at_mono)) of
                Inl e \<Rightarrow> (c, Inl (Raised e))
              | Inr doc \<Rightarrow> (c\<lparr>ct_attempts := ct_attempts c @ [att], ct_published := ct_published c @ [epoch],
                   ct_file := Doc doc\<rparr>, Inr att))))"

subsection \<open>An actor's answer after the event\<close>

text \<open>A call's outcome: a value, or an exception by the name of its class.\<close>

definition is_infix :: "string \<Rightarrow> string \<Rightarrow> bool" where
  "is_infix s t = (\<exists>i \<in> set [0..<Suc (length t)]. take (length s) (drop i t) = s)"

definition classify_actor_observation :: "string + pyval \<Rightarrow> string" where
  "classify_actor_observation r = (case r of
       Inl name \<Rightarrow> if is_infix ''Timeout'' name then ''call_timeout''
         else if is_infix ''ActorDied'' name \<or> is_infix ''ActorUnavailable'' name \<or> is_infix ''RayActorError'' name
         then ''actor_unavailable'' else ''call_raised''
     | Inr (VDict d) \<Rightarrow> if is_true (item_of d ''error'') \<or> item_of d ''ok'' = VBool False
         then ''call_error_result'' else ''call_returned''
     | Inr _ \<Rightarrow> ''call_returned'')"

end
