(* ===== verification/SupRootProps.thy ===== *)
theory SupRootProps
  imports SupRoot
begin

text \<open>
  What the supervision of the root guarantees: every observation ends, a verdict means what it says, the process id has
  no say in it, and a completion is published at most once per epoch, after its result was verified, and is the one an
  observer of that epoch sees.
\<close>

subsection \<open>One turn\<close>

lemma root_evidence_blind: "assert_root_blind (root_evidence e p m rf s b a re dl) = Inr (
    [(KStr ''epoch_id'', e), (KStr ''completion_witness_present'', VBool p),
     (KStr ''completion_witness_epoch_match'', VBool m), (KStr ''expected_refresh_s'', VFloat rf),
     (KStr ''observed_silence_s'', VFloat s), (KStr ''classification_bound_s'', VFloat b),
     (KStr ''root_pid_alive'', a), (KStr ''witness_read_error'', VBool re),
     (KStr ''observation_deadline_exceeded'', VBool dl)])"
  by (simp add: root_evidence_def root_evidence_keys_def)

text \<open>The label of the evidence a turn collects.\<close>

definition turn_label :: "bool \<Rightarrow> bool \<Rightarrow> pyfloat \<Rightarrow> pyfloat \<Rightarrow> bool \<Rightarrow> bool \<Rightarrow> string" where
  "turn_label p m s b re dl = (if re then ''observation_error'' else if p \<and> m then ''explicit_completion''
     else if fle b s then ''suspected_root_loss'' else if dl then ''observation_timeout'' else ''pending'')"

definition turn_class :: "pyval \<Rightarrow> bool \<Rightarrow> bool \<Rightarrow> pyfloat \<Rightarrow> pyfloat \<Rightarrow> pyval \<Rightarrow> bool \<Rightarrow> bool \<Rightarrow> root_class" where
  "turn_class e p m s b a re dl = \<lparr> rc_event = turn_label p m s b re dl,
     rc_basis = [(''completion_witness_epoch_match'', VBool m), (''observed_silence_s'', VFloat s),
       (''classification_bound_s'', VFloat b), (''silence_bound_reached'', VBool (turn_label p m s b re dl = ''suspected_root_loss'')),
       (''root_pid_alive'', a)], rc_epoch = e \<rparr>"

lemma classify_evidence: "classify_root_event (root_evidence e p m rf s b a re dl) = Inr (turn_class e p m s b a re dl)"
  by (simp add: classify_root_event_def root_evidence_blind root_label_def item_of_def silence_reached_def turn_label_def turn_class_def)

definition turn_match :: "root_world \<Rightarrow> pyval \<Rightarrow> pyval \<Rightarrow> nat \<Rightarrow> bool" where
  "turn_match w epoch ident i = (case rw_completion w i of
     Doc (VDict d) \<Rightarrow> val_eq (item_of d ''epoch_id'') epoch \<and> \<not> other_root (VDict d) ident | _ \<Rightarrow> False)"

definition turn_state :: "root_world \<Rightarrow> pyval \<Rightarrow> nat \<Rightarrow> observe_state \<Rightarrow> observe_state" where
  "turn_state w epoch i st = (let st = note_token (rw_token w i) (rw_clock w (Suc i)) st in
     case rw_completion w i of Doc (VDict d) \<Rightarrow> note_stale True (val_eq (item_of d ''epoch_id'') epoch) (Some (VDict d)) st | _ \<Rightarrow> st)"

definition turn_event :: "observer \<Rightarrow> root_world \<Rightarrow> pyval \<Rightarrow> pyval \<Rightarrow> pyfloat \<Rightarrow> nat \<Rightarrow> observe_state \<Rightarrow> string" where
  "turn_event ob w epoch ident bound i st = (let st' = turn_state w epoch i st in
     turn_label (rw_completion w i \<noteq> NoFile) (turn_match w epoch ident i) (fsub (rw_clock w (Suc i)) (os_advance st')) (ob_bound ob)
       (rw_completion w i = BadFile \<or> rw_token w i = None \<and> os_token st' = None) (fle bound (fsub (rw_clock w (Suc i)) (rw_clock w 0))))"

definition readable :: "root_world \<Rightarrow> nat \<Rightarrow> bool" where
  "readable w i = (\<forall>v. rw_completion w i = Doc v \<longrightarrow> (\<exists>d. v = VDict d))"

lemma note_stale_fields [simp]:
  "os_token (note_stale p m d st) = os_token st" "os_advance (note_stale p m d st) = os_advance st"
  by (simp_all add: note_stale_def split: option.splits)

lemma note_stale_None [simp]: "note_stale p m None st = st"
  by (simp add: note_stale_def)

text \<open>A turn whose completion witness is a dict or none, and whose probe of the process does not raise, either goes on or
  reports its event.\<close>

lemma observe_turn_cases:
  assumes "readable w i" and al: "rw_alive w i (root_pid ident) = Inr al"
  shows "if turn_event ob w epoch ident bound i st = ''pending'' then observe_turn ob w epoch ident bound i st = Inr (Inl (turn_state w epoch i st))
    else \<exists>rep. observe_turn ob w epoch ident bound i st = Inr (Inr rep) \<and> rr_event rep = turn_event ob w epoch ident bound i st
      \<and> rr_silence rep = fsub (rw_clock w (Suc i)) (os_advance (turn_state w epoch i st))
      \<and> rr_stale rep = os_stale (turn_state w epoch i st)
      \<and> rr_verbatim rep = (if turn_event ob w epoch ident bound i st = ''explicit_completion''
          then case rw_completion w i of Doc d \<Rightarrow> Some d | _ \<Rightarrow> None else None)"
proof -
  have c: "collect_root_evidence e p m rf s b a re dl = Inr (root_evidence e p m rf s b a re dl)" for e p m rf s b a re dl
    by (simp add: collect_root_evidence_def Let_def root_evidence_blind)
  have ev: "rc_event (turn_class e p m s b a re dl) = turn_label p m s b re dl" for e p m s b a re dl
    by (simp add: turn_class_def)
  note unf = observe_turn_def Let_def read_completion_def c al turn_event_def turn_state_def turn_match_def classify_evidence ev
  show ?thesis
  proof (cases "rw_completion w i")
    case NoFile
    then show ?thesis by (simp add: unf)
  next
    case BadFile
    then show ?thesis by (simp add: unf)
  next
    case (Doc v)
    then obtain d where "v = VDict d" using assms by (auto simp: readable_def)
    with Doc show ?thesis by (simp add: unf get_key_def get_key_or_def item_of_def [symmetric])
  qed
qed

lemma turn_raises: "\<not> readable w i \<Longrightarrow> observe_turn ob w epoch ident bound i st = Inl (Raised AttributeError)"
  by (auto simp: readable_def observe_turn_def Let_def read_completion_def raising_def get_key_def get_key_or_def split: pyval.splits)

lemma read_completion_readable: "readable w i \<Longrightarrow> read_completion epoch (rw_completion w i) \<noteq> Inl x"
  by (auto simp: readable_def read_completion_def raising_def get_key_def get_key_or_def split: witness_file.splits)

lemma turn_probe_raises:
  assumes "readable w i" "rw_alive w i (root_pid ident) = Inl x"
  shows "observe_turn ob w epoch ident bound i st = Inl (Raised x)"
proof -
  obtain p m d e where "read_completion epoch (rw_completion w i) = Inr (p, m, d, e)"
    using read_completion_readable [OF assms(1), of epoch] by (cases "read_completion epoch (rw_completion w i)") auto
  then show ?thesis using assms(2) by (simp add: observe_turn_def Let_def raising_def)
qed

text \<open>A turn is quiet when neither the witness nor the probe makes it raise; what else it raises is one of the two.\<close>

definition turn_exc :: "root_world \<Rightarrow> pyval \<Rightarrow> nat \<Rightarrow> exc \<Rightarrow> bool" where
  "turn_exc w ident i x = (if readable w i then rw_alive w i (root_pid ident) = Inl x else x = AttributeError)"

definition quiet_turn :: "root_world \<Rightarrow> pyval \<Rightarrow> nat \<Rightarrow> bool" where
  "quiet_turn w ident i = (readable w i \<and> (\<exists>al. rw_alive w i (root_pid ident) = Inr al))"

lemma turn_not_quiet: "\<not> quiet_turn w ident i \<Longrightarrow> \<exists>x. turn_exc w ident i x \<and> observe_turn ob w epoch ident bound i st = Inl (Raised x)"
proof -
  assume n: "\<not> quiet_turn w ident i"
  show ?thesis
  proof (cases "readable w i")
    case True
    then obtain x where "rw_alive w i (root_pid ident) = Inl x"
      using n by (cases "rw_alive w i (root_pid ident)") (auto simp: quiet_turn_def)
    then show ?thesis using True turn_probe_raises by (auto simp: turn_exc_def)
  next
    case False
    then show ?thesis using turn_raises by (auto simp: turn_exc_def)
  qed
qed

lemma turn_quiet: "observe_turn ob w epoch ident bound i st = Inr r \<Longrightarrow> quiet_turn w ident i"
  by (rule ccontr) (use turn_not_quiet [of w ident i ob epoch bound st] in auto)

lemma label_classes: "turn_label p m s b re dl \<in>
    {''observation_error'', ''explicit_completion'', ''suspected_root_loss'', ''observation_timeout'', ''pending''}"
  by (simp add: turn_label_def)

subsection \<open>What a verdict means\<close>

lemma quiet_turn_cases:
  "quiet_turn w ident i \<Longrightarrow> if turn_event ob w epoch ident bound i st = ''pending'' then observe_turn ob w epoch ident bound i st = Inr (Inl (turn_state w epoch i st))
    else \<exists>rep. observe_turn ob w epoch ident bound i st = Inr (Inr rep) \<and> rr_event rep = turn_event ob w epoch ident bound i st
      \<and> rr_silence rep = fsub (rw_clock w (Suc i)) (os_advance (turn_state w epoch i st))
      \<and> rr_stale rep = os_stale (turn_state w epoch i st)
      \<and> rr_verbatim rep = (if turn_event ob w epoch ident bound i st = ''explicit_completion''
          then case rw_completion w i of Doc d \<Rightarrow> Some d | _ \<Rightarrow> None else None)"
  using observe_turn_cases unfolding quiet_turn_def by blast

text \<open>The token at a reading of the clock, and what the observer knows at turn \<open>i\<close>: the witness has not advanced since the reading it counts from.\<close>

definition token_at :: "root_world \<Rightarrow> nat \<Rightarrow> nat option" where
  "token_at w k = (case k of 0 \<Rightarrow> rw_first_token w | Suc j \<Rightarrow> rw_token w j)"

definition watching :: "root_world \<Rightarrow> nat \<Rightarrow> observe_state \<Rightarrow> bool" where
  "watching w i st = ((\<exists>k \<le> i. os_advance st = rw_clock w k \<and> os_token st = token_at w k \<and> (\<forall>j. k \<le> j \<and> j < i \<longrightarrow> rw_token w j \<in> {None, os_token st}))
     \<and> (os_token st = None \<longrightarrow> rw_first_token w = None \<and> (\<forall>j < i. rw_token w j = None)))"

lemma turn_state_fields:
  "os_token (turn_state w epoch i st) = os_token (note_token (rw_token w i) (rw_clock w (Suc i)) st)"
  "os_advance (turn_state w epoch i st) = os_advance (note_token (rw_token w i) (rw_clock w (Suc i)) st)"
  by (simp_all add: turn_state_def Let_def split: witness_file.splits pyval.splits)

lemma watching_step: "watching w i st \<Longrightarrow> watching w (Suc i) (turn_state w epoch i st)"
proof -
  assume w: "watching w i st"
  show ?thesis
  proof (cases "rw_token w i \<noteq> None \<and> rw_token w i \<noteq> os_token st")
    case True
    then have "os_token (turn_state w epoch i st) = rw_token w i" "os_advance (turn_state w epoch i st) = rw_clock w (Suc i)"
      by (simp_all add: turn_state_fields note_token_def)
    then show ?thesis using True by (auto simp: watching_def token_at_def intro: exI [of _ "Suc i"])
  next
    case False
    then have f: "os_token (turn_state w epoch i st) = os_token st" "os_advance (turn_state w epoch i st) = os_advance st"
      by (auto simp: turn_state_fields note_token_def)
    obtain k where k: "k \<le> i" "os_advance st = rw_clock w k" "os_token st = token_at w k" "\<forall>j. k \<le> j \<and> j < i \<longrightarrow> rw_token w j \<in> {None, os_token st}"
      using w by (auto simp: watching_def)
    have "\<forall>j. k \<le> j \<and> j < Suc i \<longrightarrow> rw_token w j \<in> {None, os_token st}" using k(4) False by (auto simp: less_Suc_eq)
    moreover have "os_token st = None \<longrightarrow> rw_first_token w = None \<and> (\<forall>j < Suc i. rw_token w j = None)"
      using w False by (auto simp: watching_def less_Suc_eq)
    ultimately show ?thesis using k(1-3) f unfolding watching_def by (metis le_SucI)
  qed
qed

text \<open>The meaning of each event, for a report made at turn \<open>i\<close>.\<close>

definition report_means :: "observer \<Rightarrow> root_world \<Rightarrow> pyval \<Rightarrow> pyval \<Rightarrow> pyfloat \<Rightarrow> nat \<Rightarrow> root_report \<Rightarrow> bool" where
  "report_means ob w epoch ident bound i rep =
     (rr_event rep \<in> {''observation_error'', ''explicit_completion'', ''suspected_root_loss'', ''observation_timeout''}
      \<and> (rr_event rep = ''observation_error'' \<longrightarrow> rw_completion w i = BadFile
          \<or> rw_first_token w = None \<and> (\<forall>j \<le> i. rw_token w j = None))
      \<and> (rr_event rep = ''explicit_completion'' \<longrightarrow> (\<exists>d. rw_completion w i = Doc (VDict d) \<and> rr_verbatim rep = Some (VDict d)
          \<and> val_eq (item_of d ''epoch_id'') epoch \<and> \<not> other_root (VDict d) ident))
      \<and> (rr_event rep = ''suspected_root_loss'' \<longrightarrow> (\<exists>k \<le> Suc i. rr_silence rep = fsub (rw_clock w (Suc i)) (rw_clock w k)
          \<and> fle (ob_bound ob) (rr_silence rep) \<and> (\<forall>j. k \<le> j \<and> j \<le> i \<longrightarrow> rw_token w j \<in> {None, token_at w k}))
          \<and> \<not> turn_match w epoch ident i)
      \<and> (rr_event rep = ''observation_timeout'' \<longrightarrow> fle bound (fsub (rw_clock w (Suc i)) (rw_clock w 0))))"

lemma turn_report_means:
  assumes w: "watching w i st" and r: "observe_turn ob w epoch ident bound i st = Inr (Inr rep)"
  shows "report_means ob w epoch ident bound i rep"
proof -
  note c = quiet_turn_cases [OF turn_quiet [OF r], of ob epoch bound st, unfolded r]
  have ne: "turn_event ob w epoch ident bound i st \<noteq> ''pending''" using c by (auto split: if_splits)
  let ?st = "turn_state w epoch i st"
  have e: "rr_event rep = turn_event ob w epoch ident bound i st" "rr_silence rep = fsub (rw_clock w (Suc i)) (os_advance ?st)"
    "rr_verbatim rep = (if turn_event ob w epoch ident bound i st = ''explicit_completion''
          then case rw_completion w i of Doc d \<Rightarrow> Some d | _ \<Rightarrow> None else None)"
    using c ne by auto
  have w': "watching w (Suc i) ?st" by (rule watching_step [OF w])
  then obtain k where k: "k \<le> Suc i" "os_advance ?st = rw_clock w k" "os_token ?st = token_at w k" "\<forall>j. k \<le> j \<and> j < Suc i \<longrightarrow> rw_token w j \<in> {None, os_token ?st}"
    unfolding watching_def by blast
  have loss: "\<exists>k \<le> Suc i. rr_silence rep = fsub (rw_clock w (Suc i)) (rw_clock w k)
      \<and> (\<forall>j. k \<le> j \<and> j \<le> i \<longrightarrow> rw_token w j \<in> {None, token_at w k})"
    using k e(2) by (intro exI [of _ k] conjI) (simp_all add: less_Suc_eq_le)
  have none: "os_token ?st = None \<Longrightarrow> rw_first_token w = None \<and> (\<forall>j \<le> i. rw_token w j = None)"
    using w' by (simp add: watching_def less_Suc_eq_le)
  have tm: "turn_match w epoch ident i \<Longrightarrow> \<exists>d. rw_completion w i = Doc (VDict d) \<and> val_eq (item_of d ''epoch_id'') epoch \<and> \<not> other_root (VDict d) ident"
    by (auto simp: turn_match_def split: witness_file.splits pyval.splits)
  show ?thesis
    unfolding report_means_def using ne e loss none tm
    by (auto simp: turn_event_def Let_def turn_label_def split: if_splits)
qed

lemma turn_goes_on:
  assumes "observe_turn ob w epoch ident bound i st = Inr (Inl st')"
  shows "quiet_turn w ident i \<and> st' = turn_state w epoch i st"
  using quiet_turn_cases [OF turn_quiet [OF assms], of ob epoch bound st] turn_quiet [OF assms] assms by (auto split: if_splits)

lemma turn_fails: "observe_turn ob w epoch ident bound i st = Inl e \<Longrightarrow> \<not> quiet_turn w ident i \<and> (\<exists>x. e = Raised x \<and> turn_exc w ident i x)"
  using turn_not_quiet [of w ident i ob epoch bound st] quiet_turn_cases [of w ident i ob epoch bound st]
  by (cases "quiet_turn w ident i") (auto split: if_splits)

lemma observe_loop_means:
  assumes "observe_loop ob w epoch ident bound i st = Some r"
  shows "watching w i st \<longrightarrow> (case r of Inl e \<Rightarrow> \<exists>x j. e = Raised x \<and> i \<le> j \<and> turn_exc w ident j x
    | Inr rep \<Rightarrow> \<exists>j \<ge> i. report_means ob w epoch ident bound j rep)"
  using assms
proof (induction ob w epoch ident bound i st r rule: observe_loop.raw_induct [rotated, consumes 1, case_names step])
  case (step loop ob w epoch ident bound i st r)
  show ?case
  proof
    assume w: "watching w i st"
    consider (e) e where "observe_turn ob w epoch ident bound i st = Inl e"
      | (rep) rep where "observe_turn ob w epoch ident bound i st = Inr (Inr rep)"
      | (on) st' where "observe_turn ob w epoch ident bound i st = Inr (Inl st')"
      by (metis sum.exhaust)
    then show "case r of Inl e \<Rightarrow> \<exists>x j. e = Raised x \<and> i \<le> j \<and> turn_exc w ident j x | Inr rep \<Rightarrow> \<exists>j \<ge> i. report_means ob w epoch ident bound j rep"
    proof cases
      case e
      then show ?thesis using step(2) turn_fails [OF e] by auto
    next
      case rep
      then show ?thesis using step(2) turn_report_means [OF w rep] by auto
    next
      case on
      then have "watching w (Suc i) st'" using turn_goes_on [OF on] watching_step [OF w] by simp
      moreover have "loop ob w epoch ident bound (Suc i) st' = Some r" using step(2) on by simp
      ultimately have "case r of Inl e \<Rightarrow> \<exists>x j. e = Raised x \<and> Suc i \<le> j \<and> turn_exc w ident j x | Inr rep \<Rightarrow> \<exists>j \<ge> Suc i. report_means ob w epoch ident bound j rep"
        using step(1) by blast
      then show ?thesis by (auto split: sum.splits intro: Suc_leD)
    qed
  qed
qed

lemma watching_start: "watching w 0 \<lparr> os_token = rw_first_token w, os_advance = rw_clock w 0, os_stale = [] \<rparr>"
  by (auto simp: watching_def token_at_def)

text \<open>C37. A verdict on the root means what it says: a completion was read that names this epoch and no other root; a
  suspected loss was declared after the witness had not advanced for the whole suspicion bound, with no such completion;
  an error is an unreadable witness, a timeout the observer's own deadline.\<close>

theorem root_verdict_sound:
  assumes "observe_root_event ob w epoch ident bound = Some (Inr rep)"
  shows "\<exists>i.
     (rr_event rep = ''observation_error'' \<and> (rw_completion w i = BadFile \<or> rw_first_token w = None \<and> (\<forall>j \<le> i. rw_token w j = None))
     \<or> rr_event rep = ''explicit_completion'' \<and> (\<exists>d. rw_completion w i = Doc (VDict d) \<and> rr_verbatim rep = Some (VDict d)
          \<and> val_eq (item_of d ''epoch_id'') epoch \<and> \<not> other_root (VDict d) ident)
     \<or> rr_event rep = ''suspected_root_loss'' \<and> (\<exists>k \<le> Suc i. rr_silence rep = fsub (rw_clock w (Suc i)) (rw_clock w k)
          \<and> fle (ob_bound ob) (rr_silence rep) \<and> (\<forall>j. k \<le> j \<and> j \<le> i \<longrightarrow> rw_token w j \<in> {None, token_at w k}))
          \<and> (\<forall>d. rw_completion w i = Doc (VDict d) \<longrightarrow> val_eq (item_of d ''epoch_id'') epoch \<longrightarrow> other_root (VDict d) ident)
     \<or> rr_event rep = ''observation_timeout'' \<and> fle bound (fsub (rw_clock w (Suc i)) (rw_clock w 0)))"
proof -
  from observe_loop_means [OF assms [unfolded observe_root_event_def]] watching_start [of w]
  obtain i where r: "report_means ob w epoch ident bound i rep" by auto
  have "rr_event rep \<in> {''observation_error'', ''explicit_completion'', ''suspected_root_loss'', ''observation_timeout''}"
    using r by (simp only: report_means_def)
  then consider "rr_event rep = ''observation_error''" | "rr_event rep = ''explicit_completion''"
    | "rr_event rep = ''suspected_root_loss''" | "rr_event rep = ''observation_timeout''" by blast
  then show ?thesis
  proof cases
    case 1
    then show ?thesis using r unfolding report_means_def by (intro exI [of _ i]) (simp only: simp_thms)
  next
    case 2
    then show ?thesis using r unfolding report_means_def by (intro exI [of _ i]) (simp only: simp_thms)
  next
    case 3
    then have m: "\<not> turn_match w epoch ident i" using r unfolding report_means_def by blast
    have "\<forall>d. rw_completion w i = Doc (VDict d) \<longrightarrow> val_eq (item_of d ''epoch_id'') epoch \<longrightarrow> other_root (VDict d) ident"
      using m by (auto simp: turn_match_def)
    moreover have "\<exists>k \<le> Suc i. rr_silence rep = fsub (rw_clock w (Suc i)) (rw_clock w k)
          \<and> fle (ob_bound ob) (rr_silence rep) \<and> (\<forall>j. k \<le> j \<and> j \<le> i \<longrightarrow> rw_token w j \<in> {None, token_at w k})"
      using 3 r unfolding report_means_def by blast
    ultimately show ?thesis using 3 by blast
  next
    case 4
    then show ?thesis using r unfolding report_means_def by (intro exI [of _ i]) (simp only: simp_thms)
  qed
qed

subsection \<open>Every observation ends\<close>

lemma deadline_decides:
  "fle bound (fsub (rw_clock w (Suc n)) (rw_clock w 0)) \<Longrightarrow> turn_event ob w epoch ident bound n st \<noteq> ''pending''"
  by (simp add: turn_event_def Let_def turn_label_def)

lemma observe_loop_ends:
  assumes "fle bound (fsub (rw_clock w (Suc n)) (rw_clock w 0))" "i \<le> n"
  shows "\<exists>r. observe_loop ob w epoch ident bound i st = Some r \<and> (case r of Inl e \<Rightarrow> \<exists>x. \<exists>j \<le> n. e = Raised x \<and> turn_exc w ident j x | Inr rep \<Rightarrow> True)"
  using assms(2)
proof (induction "n - i" arbitrary: i st rule: less_induct)
  case less
  show ?case
  proof (cases "observe_turn ob w epoch ident bound i st")
    case (Inl e)
    then show ?thesis using turn_fails [OF Inl] less.prems
      by (intro exI [of _ "Inl e"]) (auto simp: observe_loop.simps)
  next
    case (Inr s)
    show ?thesis
    proof (cases s)
      case (Inr rep)
      with \<open>observe_turn ob w epoch ident bound i st = Inr s\<close> show ?thesis
        by (intro exI [of _ "Inr rep"]) (simp add: observe_loop.simps)
    next
      case (Inl st')
      with Inr have on: "observe_turn ob w epoch ident bound i st = Inr (Inl st')" by simp
      have "i \<noteq> n"
      proof
        assume "i = n"
        then show False
          using quiet_turn_cases [of w ident i ob epoch bound st] turn_goes_on [OF on] on
            deadline_decides [OF assms(1), of ob epoch ident st] by auto
      qed
      then have "n - Suc i < n - i" "Suc i \<le> n" using less.prems by auto
      from less.hyps [OF this, of st'] show ?thesis using on by (simp add: observe_loop.simps [of ob w epoch ident bound i])
    qed
  qed
qed

text \<open>C38. The observer never waits past its deadline: once a reading of the clock is \<open>bound\<close> after the first one, it has
  answered, with one of the four events, never with \<open>pending\<close>; it raises only an \<open>AttributeError\<close> over a completion
  witness that holds something else than an object, or what the probe of the root's process id raised at one of its
  turns.\<close>

theorem observer_ends:
  assumes "fle bound (fsub (rw_clock w (Suc n)) (rw_clock w 0))"
  shows "\<exists>r. observe_root_event ob w epoch ident bound = Some r \<and> (case r of
      Inl e \<Rightarrow> \<exists>j \<le> n. e = Raised AttributeError \<and> (\<exists>v. rw_completion w j = Doc v \<and> (\<forall>d. v \<noteq> VDict d))
        \<or> (\<exists>x. rw_alive w j (root_pid ident) = Inl x \<and> e = Raised x)
    | Inr rep \<Rightarrow> rr_event rep \<in> {''observation_error'', ''explicit_completion'', ''suspected_root_loss'', ''observation_timeout''})"
proof -
  obtain r where r: "observe_root_event ob w epoch ident bound = Some r"
      "case r of Inl e \<Rightarrow> \<exists>x. \<exists>j \<le> n. e = Raised x \<and> turn_exc w ident j x | Inr rep \<Rightarrow> True"
    using observe_loop_ends [OF assms le0] unfolding observe_root_event_def by blast
  from observe_loop_means [OF r(1) [unfolded observe_root_event_def]] watching_start [of w]
  have m: "case r of Inl e \<Rightarrow> True | Inr rep \<Rightarrow> \<exists>j. report_means ob w epoch ident bound j rep"
    by (auto split: sum.splits)
  show ?thesis
  proof (cases r)
    case (Inl e)
    then obtain x j where "e = Raised x" "j \<le> n" "turn_exc w ident j x" using r(2) by auto
    then show ?thesis using r(1) Inl by (auto simp: turn_exc_def readable_def split: if_splits)
  next
    case (Inr rep)
    then obtain j where "report_means ob w epoch ident bound j rep" using m by auto
    then have "rr_event rep \<in> {''observation_error'', ''explicit_completion'', ''suspected_root_loss'', ''observation_timeout''}"
      by (simp only: report_means_def)
    then show ?thesis using r(1) Inr by simp
  qed
qed

subsection \<open>The process id has no say\<close>

definition same_verdict :: "root_report sup \<Rightarrow> root_report sup \<Rightarrow> bool" where
  "same_verdict r r' = (map_sum id rr_event r = map_sum id rr_event r' \<and> map_sum id rr_silence r = map_sum id rr_silence r'
     \<and> map_sum id rr_stale r = map_sum id rr_stale r' \<and> map_sum id rr_verbatim r = map_sum id rr_verbatim r')"

lemma turn_state_alive [simp]: "turn_state (w\<lparr>rw_alive := f\<rparr>) epoch i st = turn_state w epoch i st"
  by (simp add: turn_state_def)

lemma turn_event_alive [simp]: "turn_event ob (w\<lparr>rw_alive := f\<rparr>) epoch ident bound i st = turn_event ob w epoch ident bound i st"
  by (simp add: turn_event_def turn_match_def)

lemma readable_alive [simp]: "readable (w\<lparr>rw_alive := f\<rparr>) i = readable w i"
  by (simp add: readable_def)

definition probe_answers :: "root_world \<Rightarrow> pyval \<Rightarrow> bool" where
  "probe_answers w ident = (\<forall>i. \<exists>al. rw_alive w i (root_pid ident) = Inr al)"

lemma quiet_answers: "probe_answers w ident \<Longrightarrow> quiet_turn w ident i = readable w i"
  by (simp add: probe_answers_def quiet_turn_def)

lemma turn_alive:
  assumes "probe_answers w ident" "probe_answers (w\<lparr>rw_alive := f\<rparr>) ident"
  shows "case observe_turn ob w epoch ident bound i st of
     Inl e \<Rightarrow> observe_turn ob (w\<lparr>rw_alive := f\<rparr>) epoch ident bound i st = Inl e
   | Inr (Inl st') \<Rightarrow> observe_turn ob (w\<lparr>rw_alive := f\<rparr>) epoch ident bound i st = Inr (Inl st')
   | Inr (Inr rep) \<Rightarrow> \<exists>rep'. observe_turn ob (w\<lparr>rw_alive := f\<rparr>) epoch ident bound i st = Inr (Inr rep') \<and> same_verdict (Inr rep) (Inr rep')"
proof (cases "readable w i")
  case True
  then have "quiet_turn w ident i" "quiet_turn (w\<lparr>rw_alive := f\<rparr>) ident i"
    using assms quiet_answers by simp_all
  from quiet_turn_cases [OF this(1), of ob epoch bound st] quiet_turn_cases [OF this(2), of ob epoch bound st]
  show ?thesis by (auto simp: same_verdict_def split: if_splits)
next
  case False
  then show ?thesis using turn_raises [of w i] turn_raises [of "w\<lparr>rw_alive := f\<rparr>" i] by simp
qed

lemma observe_loop_alive:
  assumes "observe_loop ob w epoch ident bound i st = Some r"
  shows "probe_answers w ident \<longrightarrow> probe_answers (w\<lparr>rw_alive := f\<rparr>) ident \<longrightarrow>
    (\<exists>r'. observe_loop ob (w\<lparr>rw_alive := f\<rparr>) epoch ident bound i st = Some r' \<and> same_verdict r r')"
  using assms
proof (induction ob w epoch ident bound i st r rule: observe_loop.raw_induct [rotated, consumes 1, case_names step])
  case (step loop ob w epoch ident bound i st r)
  note u = observe_loop.simps [of ob "w\<lparr>rw_alive := f\<rparr>" epoch ident bound i st]
  show ?case
  proof (intro impI)
    assume p: "probe_answers w ident" "probe_answers (w\<lparr>rw_alive := f\<rparr>) ident"
    note t = turn_alive [where ob = ob and epoch = epoch and bound = bound and i = i and st = st, OF p]
    show "\<exists>r'. observe_loop ob (w\<lparr>rw_alive := f\<rparr>) epoch ident bound i st = Some r' \<and> same_verdict r r'"
      using step(2) step(1) t p by (auto simp: u same_verdict_def split: sum.splits)
  qed
qed

text \<open>What a probe that answers says of the root's process changes nothing of the event, the silence, the stale epochs or
  the witness reported: it is recorded only.\<close>

lemma pid_has_no_say:
  assumes "probe_answers w ident" "probe_answers (w\<lparr>rw_alive := f\<rparr>) ident"
  shows "rel_option same_verdict (observe_root_event ob w epoch ident bound) (observe_root_event ob (w\<lparr>rw_alive := f\<rparr>) epoch ident bound)"
proof (cases "observe_root_event ob w epoch ident bound")
  case (Some r)
  then obtain r' where "observe_root_event ob (w\<lparr>rw_alive := f\<rparr>) epoch ident bound = Some r'" "same_verdict r r'"
    using observe_loop_alive [of ob w epoch ident bound 0 _ r f] assms by (fastforce simp: observe_root_event_def)
  with Some show ?thesis by simp
next
  case None
  have "observe_root_event ob (w\<lparr>rw_alive := f\<rparr>) epoch ident bound = None"
  proof (rule ccontr)
    assume "observe_root_event ob (w\<lparr>rw_alive := f\<rparr>) epoch ident bound \<noteq> None"
    then obtain r where "observe_root_event ob (w\<lparr>rw_alive := f\<rparr>) epoch ident bound = Some r" by blast
    then obtain r' where "observe_root_event ob w epoch ident bound = Some r'"
      using observe_loop_alive [of ob "w\<lparr>rw_alive := f\<rparr>" epoch ident bound 0 _ r "rw_alive w"] assms
      by (fastforce simp: observe_root_event_def)
    with None show False by simp
  qed
  with None show ?thesis by simp
qed

subsection \<open>Publishing\<close>

text \<open>What the supervisor does with an arm's state machine and its publication guard, and a run of it.\<close>

datatype contract_op = Advance string pyfloat | Publish pyval pyval pyval bool pyfloat "(pyval \<times> pyval) py"

fun contract_step :: "contract_op \<Rightarrow> contract \<Rightarrow> contract" where
  "contract_step (Advance to t) c = c\<lparr>ct_machine := fst (advance to t (ct_machine c))\<rparr>"
| "contract_step (Publish epoch ident payload verified t write) c = fst (try_publish_completion epoch ident payload verified t write c)"

definition contract_init :: "pyfloat \<Rightarrow> witness_file \<Rightarrow> contract" where
  "contract_init t f = \<lparr> ct_machine = machine_init t, ct_attempts = [], ct_published = [], ct_file = f \<rparr>"

definition contract_run :: "contract_op list \<Rightarrow> contract \<Rightarrow> contract" where
  "contract_run ops c = fold contract_step ops c"

definition accepted :: "contract \<Rightarrow> attempt list" where
  "accepted c = filter (\<lambda>a. at_refused a = None) (ct_attempts c)"

text \<open>What a publication can do: nothing, record a refusal, or publish.\<close>

lemma publish_cases:
  obtains (raise) e where "try_publish_completion epoch ident payload verified t write c = (c, Inl e)"
  | (refused) a where "try_publish_completion epoch ident payload verified t write c = (c\<lparr>ct_attempts := ct_attempts c @ [a]\<rparr>, Inr a)"
      "at_refused a \<noteq> None"
  | (published) a x y v where "try_publish_completion epoch ident payload verified t write c = (c\<lparr>ct_attempts := ct_attempts c @ [a],
        ct_published := ct_published c @ [epoch], ct_file := Doc v\<rparr>, Inr a)"
      "json_image (completion_doc epoch ident payload x y) = Inr v"
      "at_refused a = None" "at_epoch a = epoch" "at_state a = ''RESULT_VERIFIED''" "am_state (ct_machine c) = ''RESULT_VERIFIED''"
      "verified" "\<not> list_ex (val_eq epoch) (ct_published c)" "is_hashable epoch"
proof -
  note d = try_publish_completion_def Let_def
  show thesis
  proof (cases "get_key (or_empty ident) ''pid''")
    case (Inl e)
    show thesis by (rule raise) (simp add: d Inl)
  next
    case get: (Inr pid)
    consider "\<not> verified" | "verified" "am_state (ct_machine c) \<noteq> ''RESULT_VERIFIED''"
      | "verified" "am_state (ct_machine c) = ''RESULT_VERIFIED''" "\<not> is_hashable epoch"
      | "verified" "am_state (ct_machine c) = ''RESULT_VERIFIED''" "is_hashable epoch" "list_ex (val_eq epoch) (ct_published c)"
      | "verified" "am_state (ct_machine c) = ''RESULT_VERIFIED''" "is_hashable epoch" "\<not> list_ex (val_eq epoch) (ct_published c)"
      by blast
    then show thesis
    proof cases
      case 1
      show thesis by (rule refused, simp add: d get 1, simp)
    next
      case 2
      show thesis by (rule refused, simp add: d get 2, simp)
    next
      case 3
      show thesis by (rule raise) (simp add: d get 3)
    next
      case 4
      show thesis by (rule refused, simp add: d get 4, simp)
    next
      case 5
      show thesis
      proof (cases "rbind write (\<lambda>(x, y). json_image (completion_doc epoch ident payload x y))")
        case (Inl e)
        show thesis by (rule raise) (simp add: d get Inl 5)
      next
        case (Inr v)
        then obtain x y where w: "json_image (completion_doc epoch ident payload x y) = Inr v" by (auto simp: rbind_eq_Inr)
        show thesis
          by (rule published [where v = v and x = x and y = y and a = "\<lparr> at_epoch = epoch, at_state = ''RESULT_VERIFIED'', at_time = t,
                at_pid = pid, at_refused = None \<rparr>"]) (simp_all add: d get Inr w 5)
      qed
    qed
  qed
qed

lemma completion_image:
  assumes "json_image (completion_doc epoch ident payload x y) = Inr v"
  shows "\<exists>d. v = VDict d \<and> json_image epoch = Inr (item_of d ''epoch_id'') \<and> json_image ident = Inr (item_of d ''root_identity'')"
proof -
  let ?d = "[(KStr ''epoch_id'', epoch), (KStr ''root_identity'', ident), (KStr ''payload'', payload),
     (KStr ''published_wall_ms'', x), (KStr ''published_mono'', y)]"
  have "json_image (VDict ?d) = Inr v" using assms by (simp only: completion_doc_def)
  moreover have "list_all str_keyed ?d" "distinct (map fst ?d)" by simp_all
  ultimately have g: "(KStr k, z) \<in> set ?d \<Longrightarrow> \<exists>d' u. v = VDict d' \<and> json_image z = Inr u \<and> map_of d' (KStr k) = Some u" for k z
    by (rule json_dict_item)
  from g [of "''epoch_id''" epoch] g [of "''root_identity''" ident] show ?thesis by (auto simp: item_of_def)
qed

interpretation root_line: lifecycle sup_states
  by unfold_locales (simp_all add: sup_states_def)

lemma root_states_at: "length sup_states = 8" "sup_states ! 1 = ''READY''" "sup_states ! 3 = ''RESULT_VERIFIED''"
  by (simp_all add: sup_states_def)

interpretation root_guard: publication_guard sup_states ct_machine ct_published val_eq contract_step 3
proof unfold_locales
  fix op c
  show "ct_machine (contract_step op c) = ct_machine c
      \<or> (\<exists>to t. ct_machine (contract_step op c) = fst (advance_in sup_states to t (ct_machine c)))"
  proof (cases op)
    case (Advance to t)
    then show ?thesis by (auto simp: advance_def)
  next
    case (Publish epoch ident payload verified t "write")
    then show ?thesis by (cases rule: publish_cases [of epoch ident payload verified t "write" c]) simp_all
  qed
  show "ct_published (contract_step op c) = ct_published c \<or> am_state (ct_machine c) = sup_states ! 3
      \<and> (\<exists>k. ct_published (contract_step op c) = ct_published c @ [k] \<and> (\<forall>j \<in> set (ct_published c). \<not> val_eq k j))"
  proof (cases op)
    case (Publish epoch ident payload verified t "write")
    then show ?thesis
      by (cases rule: publish_cases [of epoch ident payload verified t "write" c]) (simp_all add: root_states_at list_ex_iff)
  qed simp
  show "3 < length sup_states" by (simp add: root_states_at)
qed

text \<open>The attempts accepted are the epochs published, in the state the guard asks for, and the file holds the last.\<close>

definition contract_ok :: "witness_file \<Rightarrow> contract \<Rightarrow> bool" where
  "contract_ok f c = (ct_published c = map at_epoch (accepted c) \<and> (\<forall>a \<in> set (accepted c). at_state a = ''RESULT_VERIFIED'')
     \<and> (if accepted c = [] then ct_file c = f else \<exists>d. ct_file c = Doc (VDict d) \<and> json_image (at_epoch (last (accepted c))) = Inr (item_of d ''epoch_id'')))"

lemma accepted_simps:
  "accepted (c\<lparr>ct_machine := m\<rparr>) = accepted c"
  "accepted (c\<lparr>ct_attempts := ct_attempts c @ [a]\<rparr>) = accepted c @ (if at_refused a = None then [a] else [])"
  "accepted (c\<lparr>ct_attempts := ct_attempts c @ [a], ct_published := ps, ct_file := g\<rparr>) = accepted c @ (if at_refused a = None then [a] else [])"
  by (simp_all add: accepted_def)

lemma contract_step_ok: "contract_ok f c \<Longrightarrow> contract_ok f (contract_step op c)"
proof (cases op)
  case (Publish epoch ident payload verified t "write")
  assume ok: "contract_ok f c"
  show ?thesis
  proof (cases rule: publish_cases [of epoch ident payload verified t "write" c])
    case (published a x y v)
    then show ?thesis using ok Publish completion_image [OF published(2)] by (auto simp: contract_ok_def accepted_simps)
  qed (use ok Publish in \<open>auto simp: contract_ok_def accepted_simps\<close>)
qed (simp add: contract_ok_def accepted_simps)

lemma contract_run_ok: "contract_ok f (contract_run ops (contract_init t f))"
proof -
  have run: "contract_ok f c \<Longrightarrow> contract_ok f (fold contract_step ops c)" for c
    by (induction ops arbitrary: c) (simp_all add: contract_step_ok)
  show ?thesis unfolding contract_run_def by (rule run) (simp add: contract_ok_def contract_init_def accepted_def)
qed

text \<open>C39. Whatever a supervisor does with an arm, in whatever order: the arm only ever goes through its states in
  order; a completion is accepted only in \<open>RESULT_VERIFIED\<close> and for no epoch twice; once one is accepted no work is
  dispatched any more; and the witness file holds the last one accepted, its epoch as JSON gives it back, or what it held before if none was.\<close>

theorem completion_published_once:
  "let c = contract_run ops (contract_init t f) in
     (\<exists>n < 8. map fst (am_history (ct_machine c)) = take (Suc n) sup_states)
     \<and> sorted_wrt (\<lambda>x y. \<not> val_eq y x) (map at_epoch (accepted c))
     \<and> list_all (\<lambda>a. at_state a = ''RESULT_VERIFIED'') (accepted c)
     \<and> (if accepted c = [] then ct_file c = f
        else \<not> dispatch_guard (ct_machine c)
          \<and> (\<exists>d. ct_file c = Doc (VDict d) \<and> json_image (at_epoch (last (accepted c))) = Inr (item_of d ''epoch_id'')))"
proof -
  let ?c = "contract_run ops (contract_init t f)"
  have i: "in_order sup_states (ct_machine (contract_init t f))" "ct_published (contract_init t f) = []"
    by (simp_all add: contract_init_def machine_init_def root_line.start_in_order)
  have g: "in_order sup_states (ct_machine ?c)" "sorted_wrt (\<lambda>x y. \<not> val_eq y x) (ct_published ?c)"
    "ct_published ?c \<noteq> [] \<longrightarrow> 3 < length (am_history (ct_machine ?c))"
    using root_guard.run_ok [OF i, of ops] by (simp_all add: contract_run_def)
  have c: "contract_ok f ?c" by (rule contract_run_ok)
  have "\<not> dispatch_guard (ct_machine ?c)" if "accepted ?c \<noteq> []"
    using root_guard.no_return [OF g(1), of 1] g(3) c that
    by (simp only: root_states_at) (simp add: contract_ok_def dispatch_guard_def dispatch_states_def)
  moreover have "\<exists>n < 8. map fst (am_history (ct_machine ?c)) = take (Suc n) sup_states"
    using g(1) by (auto simp: in_order_def root_states_at)
  ultimately show ?thesis using c g(2) by (simp add: contract_ok_def Let_def list_all_iff)
qed

lemma first_turn_report:
  assumes "quiet_turn w ident 0" and ne: "ev \<noteq> ''pending''"
    and ev: "turn_event ob w epoch ident bound 0 \<lparr> os_token = rw_first_token w, os_advance = rw_clock w 0, os_stale = [] \<rparr> = ev"
  shows "\<exists>rep. observe_root_event ob w epoch ident bound = Some (Inr rep) \<and> rr_event rep = ev
    \<and> rr_verbatim rep = (if ev = ''explicit_completion'' then case rw_completion w 0 of Doc d \<Rightarrow> Some d | _ \<Rightarrow> None else None)"
  using quiet_turn_cases [OF assms(1), of ob epoch bound "\<lparr> os_token = rw_first_token w, os_advance = rw_clock w 0, os_stale = [] \<rparr>"] ne ev
  by (auto simp: observe_root_event_def observe_loop.simps [of ob w epoch ident bound 0])

lemma first_turn_completion:
  assumes f: "rw_completion w 0 = Doc (VDict d)" and t: "rw_token w 0 \<noteq> None"
    and e: "val_eq (item_of d ''epoch_id'') epoch" and o: "\<not> other_root (VDict d) ident"
    and al: "rw_alive w 0 (root_pid ident) = Inr al"
  shows "\<exists>rep. observe_root_event ob w epoch ident bound = Some (Inr rep) \<and> rr_event rep = ''explicit_completion''
    \<and> rr_verbatim rep = Some (VDict d)"
proof -
  let ?st = "\<lparr> os_token = rw_first_token w, os_advance = rw_clock w 0, os_stale = [] \<rparr>"
  have "turn_event ob w epoch ident bound 0 ?st = ''explicit_completion''"
    using assms by (auto simp: turn_event_def turn_label_def turn_match_def Let_def turn_state_fields note_token_def)
  moreover have "quiet_turn w ident 0" using f al by (simp add: quiet_turn_def readable_def)
  ultimately show ?thesis using first_turn_report [of w ident "''explicit_completion''" ob epoch bound] f by simp
qed

text \<open>C40. A completion that was accepted had its result verified in the right state. From then on an observer whose epoch
  and root equal what JSON gives back of those published reports it at its first look, the document verbatim, if its
  probe of the process answers; an observer of another epoch, or of another root, never reports a completion. Values of
  lists, scalars and dicts with text keys come back equal, so the observer of the very epoch and root published is of the
  first kind.\<close>

theorem accepted_completion_observed:
  assumes pub: "try_publish_completion epoch ident payload verified t wr c = (c', Inr a)" "at_refused a = None"
    and held: "rw_completion w = (\<lambda>_. ct_file c')" and tok: "rw_token w 0 \<noteq> None"
  shows "verified \<and> am_state (ct_machine c) = ''RESULT_VERIFIED''
    \<and> (\<exists>e i d. json_image epoch = Inr e \<and> json_image ident = Inr i \<and> ct_file c' = Doc d
      \<and> (\<forall>epoch' ident' al. val_eq e epoch' \<and> (i = VNone \<or> ident' = VNone \<or> val_eq i ident') \<and> rw_alive w 0 (root_pid ident') = Inr al \<longrightarrow>
          (\<exists>rep. observe_root_event ob w epoch' ident' bound = Some (Inr rep)
            \<and> rr_event rep = ''explicit_completion'' \<and> rr_verbatim rep = Some d))
      \<and> (\<forall>epoch' ident' rep. \<not> val_eq e epoch' \<or> i \<noteq> VNone \<and> ident' \<noteq> VNone \<and> \<not> val_eq i ident' \<longrightarrow>
          observe_root_event ob w epoch' ident' bound = Some (Inr rep) \<longrightarrow> rr_event rep \<noteq> ''explicit_completion'')
      \<and> (json_stable epoch \<and> val_eq epoch epoch \<longrightarrow> val_eq e epoch)
      \<and> (json_stable ident \<and> val_eq ident ident \<longrightarrow> val_eq i ident))"
proof (cases rule: publish_cases [of epoch ident payload verified t wr c])
  case (published b x y v)
  obtain d where d: "v = VDict d" "json_image epoch = Inr (item_of d ''epoch_id'')" "json_image ident = Inr (item_of d ''root_identity'')"
    using completion_image [OF published(2)] by blast
  have f: "rw_completion w k = Doc (VDict d)" "ct_file c' = Doc (VDict d)" for k
    using pub published(1) held d(1) by auto
  have g: "doc_key (VDict d) ''root_identity'' = item_of d ''root_identity''" by (simp add: doc_key_def)
  have seen: "\<exists>rep. observe_root_event ob w epoch' ident' bound = Some (Inr rep)
          \<and> rr_event rep = ''explicit_completion'' \<and> rr_verbatim rep = Some (VDict d)"
    if "val_eq (item_of d ''epoch_id'') epoch'" "item_of d ''root_identity'' = VNone \<or> ident' = VNone \<or> val_eq (item_of d ''root_identity'') ident'"
      "rw_alive w 0 (root_pid ident') = Inr al" for epoch' ident' al
    using first_turn_completion [OF f(1) tok that(1) _ that(3), of ob bound] that(2) g by (auto simp: other_root_def)
  have unseen: "rr_event rep \<noteq> ''explicit_completion''"
    if n: "\<not> val_eq (item_of d ''epoch_id'') epoch' \<or> item_of d ''root_identity'' \<noteq> VNone \<and> ident' \<noteq> VNone
        \<and> \<not> val_eq (item_of d ''root_identity'') ident'"
      and r: "observe_root_event ob w epoch' ident' bound = Some (Inr rep)" for epoch' ident' rep
  proof
    assume ex: "rr_event rep = ''explicit_completion''"
    obtain j where "report_means ob w epoch' ident' bound j rep"
      using observe_loop_means [OF r [unfolded observe_root_event_def]] watching_start [of w] by auto
    with ex obtain d' where "rw_completion w j = Doc (VDict d')" "val_eq (item_of d' ''epoch_id'') epoch'" "\<not> other_root (VDict d') ident'"
      unfolding report_means_def by blast
    then show False using n f(1) [of j] g by (auto simp: other_root_def)
  qed
  have own: "json_stable u \<and> val_eq u u \<longrightarrow> val_eq z u" if "json_image u = Inr z" for u z
    using json_stable_eq [of u] that by auto
  show ?thesis
    using published(6,7) d(2,3) f(2) seen unseen own [OF d(2)] own [OF d(3)]
    by (intro conjI exI [of _ "item_of d ''epoch_id''"] exI [of _ "item_of d ''root_identity''"] exI [of _ "VDict d"]) blast+
qed (use pub in auto)

subsection \<open>Concrete runs\<close>

text \<open>A root whose witness never advances, a clock that reads 6 s at every turn, and a completion witness.\<close>

definition silent_world :: "witness_file \<Rightarrow> root_world" where
  "silent_world f = \<lparr> rw_clock = (\<lambda>i. if i = 0 then Fin 0 else Fin 6), rw_first_token = Some 1, rw_token = (\<lambda>_. Some 1),
     rw_completion = (\<lambda>_. f), rw_alive = (\<lambda>_ _. Inr (VBool True)) \<rparr>"

lemma six_seconds: "fsub (Fin 6) (Fin 0) = Fin 6"
  by code_simp

lemma silence_reported: "\<exists>rep. observe_root_event \<lparr> ob_refresh = Fin 1, ob_bound = Fin 5 \<rparr> (silent_world NoFile) (VStr ''e1'')
    (VDict [(KStr ''pid'', VInt 7)]) (Fin 30) = Some (Inr rep) \<and> rr_event rep = ''suspected_root_loss''"
proof -
  let ?w = "silent_world NoFile"
  let ?ob = "\<lparr> ob_refresh = Fin 1, ob_bound = Fin 5 \<rparr>"
  let ?st = "\<lparr> os_token = Some 1, os_advance = Fin 0, os_stale = [] \<rparr>"
  have "turn_event ?ob ?w (VStr ''e1'') (VDict [(KStr ''pid'', VInt 7)]) (Fin 30) 0 ?st = ''suspected_root_loss''"
    by (simp add: turn_event_def turn_label_def turn_match_def Let_def turn_state_def note_token_def silent_world_def six_seconds fle_def)
  moreover have "quiet_turn ?w (VDict [(KStr ''pid'', VInt 7)]) 0" "rw_first_token ?w = Some 1" "rw_clock ?w 0 = Fin 0"
    by (simp_all add: quiet_turn_def readable_def silent_world_def)
  ultimately show ?thesis
    using first_turn_report [of ?w "VDict [(KStr ''pid'', VInt 7)]" "''suspected_root_loss''" ?ob "VStr ''e1''" "Fin 30"] by auto
qed

theorem root_verdict_sound_witness:
  "\<exists>rep i. observe_root_event \<lparr> ob_refresh = Fin 1, ob_bound = Fin 5 \<rparr> (silent_world NoFile) (VStr ''e1'')
      (VDict [(KStr ''pid'', VInt 7)]) (Fin 30) = Some (Inr rep) \<and> rr_event rep = ''suspected_root_loss''
    \<and> (\<exists>k \<le> Suc i. rr_silence rep = fsub (rw_clock (silent_world NoFile) (Suc i)) (rw_clock (silent_world NoFile) k)
      \<and> fle (Fin 5) (rr_silence rep))"
proof -
  obtain rep where r: "observe_root_event \<lparr> ob_refresh = Fin 1, ob_bound = Fin 5 \<rparr> (silent_world NoFile) (VStr ''e1'')
      (VDict [(KStr ''pid'', VInt 7)]) (Fin 30) = Some (Inr rep)" "rr_event rep = ''suspected_root_loss''"
    using silence_reported by blast
  show ?thesis using root_verdict_sound [OF r(1)] r by (auto intro!: exI [of _ rep])
qed

theorem observer_ends_witness:
  "\<exists>r. observe_root_event \<lparr> ob_refresh = Fin 1, ob_bound = Fin 5 \<rparr> (silent_world (Doc (VInt 3))) (VStr ''e1'') VNone (Fin 2) = Some r
    \<and> (\<forall>e. r = Inl e \<longrightarrow> e = Raised AttributeError)"
proof -
  let ?w = "silent_world (Doc (VInt 3))"
  have quiet: "rw_alive ?w j v = Inr (VBool True)" for j v by (simp add: silent_world_def)
  have "fle (Fin 2) (fsub (rw_clock (silent_world (Doc (VInt 3))) (Suc 0)) (rw_clock (silent_world (Doc (VInt 3))) 0))"
    by (simp add: silent_world_def six_seconds fle_def)
  from observer_ends [OF this, of "\<lparr> ob_refresh = Fin 1, ob_bound = Fin 5 \<rparr>" "VStr ''e1''" VNone]
  show ?thesis by (rule ex_forward) (auto simp: quiet split: sum.splits)
qed

definition verified_contract :: contract where
  "verified_contract = contract_run [Advance ''READY'' (Fin 1), Advance ''WORK_VERIFIED'' (Fin 2), Advance ''RESULT_VERIFIED'' (Fin 3)]
     (contract_init (Fin 0) NoFile)"

theorem accepted_completion_observed_witness:
  "\<exists>c' a rep. try_publish_completion (VTuple [VInt 1]) (VDict [(KInt 0, VInt 7)]) (VStr ''ok'') True (Fin 4)
       (Inr (VInt 1, VFloat (Fin 4))) verified_contract = (c', Inr a)
    \<and> observe_root_event \<lparr> ob_refresh = Fin 1, ob_bound = Fin 5 \<rparr> (silent_world (ct_file c')) (VList [VInt 1])
       (VDict [(KStr ''0'', VInt 7)]) (Fin 30) = Some (Inr rep) \<and> rr_event rep = ''explicit_completion''"
proof -
  let ?i = "VDict [(KInt 0, VInt 7)]"
  let ?j = "VDict [(KStr ''0'', VInt 7)]"
  have st: "am_state (ct_machine verified_contract) = ''RESULT_VERIFIED''" "ct_published verified_contract = []" by code_simp+
  have im: "json_image (VTuple [VInt 1]) = Inr (VList [VInt 1])" "json_image ?i = Inr ?j" by code_simp+
  have doc: "json_image (completion_doc (VTuple [VInt 1]) ?i (VStr ''ok'') (VInt 1) (VFloat (Fin 4)))
      = Inr (VDict [(KStr ''epoch_id'', VList [VInt 1]), (KStr ''payload'', VStr ''ok''), (KStr ''published_mono'', VFloat (Fin 4)),
          (KStr ''published_wall_ms'', VInt 1), (KStr ''root_identity'', ?j)])"
    by code_simp
  obtain c' a where p: "try_publish_completion (VTuple [VInt 1]) ?i (VStr ''ok'') True (Fin 4) (Inr (VInt 1, VFloat (Fin 4))) verified_contract = (c', Inr a)"
      "at_refused a = None"
    using st by (simp add: try_publish_completion_def Let_def get_key_def get_key_or_def or_empty_def doc)
  have w: "rw_completion (silent_world (ct_file c')) = (\<lambda>_. ct_file c')" "rw_token (silent_world (ct_file c')) 0 \<noteq> None"
    "rw_alive (silent_world (ct_file c')) 0 v = Inr (VBool True)" for v
    by (simp_all add: silent_world_def)
  have eq: "val_eq (VList [VInt 1]) (VList [VInt 1])" "val_eq ?j ?j" by simp_all
  from accepted_completion_observed [OF p w(1,2), of "\<lparr> ob_refresh = Fin 1, ob_bound = Fin 5 \<rparr>" "Fin 30"]
  obtain rep where "observe_root_event \<lparr> ob_refresh = Fin 1, ob_bound = Fin 5 \<rparr> (silent_world (ct_file c')) (VList [VInt 1]) ?j (Fin 30) = Some (Inr rep)"
      "rr_event rep = ''explicit_completion''"
    unfolding im using eq w(3) by (metis old.sum.inject(2))
  then show ?thesis using p(1) by blast
qed

end
