(* ===== verification/Spec2Isabelle.thy ===== *)
theory Spec2Isabelle
  imports HarnessProps RuntimeBoundary RuntimeProps RuntimeActor EndpointBridge BenchHpxProps BenchAnalyzeProps
    ExpCrossnode ExpWaits SupRootProps
begin

text \<open>
  RayX: a Python package over HPX that runs service lanes, a small task runtime and an endpoint layer in one process,
  the benchmark drivers that measure it beside Ray, and the experiments built on it. This development models the package
  under \<open>python/src/rayx\<close> (Python and the C++ behind it), the drivers under \<open>bench\<close>, the Ray backend under
  \<open>ray_impl\<close>, experiment 68 and the root supervision of experiment 70, and proves what makes each of them correct.

  \<^bold>\<open>How the parts interact\<close>

  A process has one owner of HPX (\<open>ProcessOwner\<close>): the harness (\<open>rayx.Engine\<close>) and the runtime (\<open>rayx.runtime\<close>)
  attach to it and exclude each other, an endpoint counts as a reference on either. The harness sends requests to
  service lanes (\<open>ServiceLane\<close>), each a worker thread with a FIFO queue; the runtime sends operations to runtime lanes
  (\<open>RuntimeLane\<close>), serial ones for actors and non-blocking ones for tasks. Both hand out futures, cells that are filled
  once, and both arbitrate cancellation with a token (\<open>CancelToken\<close>). The endpoint layer names a process, answers pings
  over a socket with the frames of \<open>EndpointWire\<close>, and through the bridge slot (\<open>BridgeSlot\<close>) lets a connection call
  an operation of the peer's runtime. The drivers open an engine or Ray actors, keep a window of requests in flight,
  write one row per request, and the analyzer summarises the rows. Experiment 68 has two actors select the \<open>k\<close> best
  tokens of their shards in C++, merges them, and judges the run in Python against an oracle. Experiment 70 (slice 4) lets
  a supervisor publish that its root completed, and an observer tell that completion from the loss of the root.

  \<^bold>\<open>The theories and the code\<close>

  \<^item> Shared: \<open>Prelude\<close> (results, sequencing, index loops), \<open>PyValue\<close> (dynamic values, exception classes of the three
    packages), \<open>PyFloat\<close>, \<open>PyFloatScale\<close>, \<open>PyFloatOrder\<close>, \<open>PyFloat32\<close> (IEEE 754 by rounding of rationals),
    \<open>PyNumber\<close>, \<open>PyText\<close> (\<open>int\<close>, \<open>float\<close>, \<open>str\<close>), \<open>PyStruct\<close> (the \<open>struct\<close> module), \<open>PyJson\<close> (what a value comes
    back as from a JSON file), \<open>PyIo\<close> (code that talks to the outside: a state and an outcome, which is a value, an
    exception or a call that never returns).
  \<^item> Harness: \<open>HarnessValidate\<close>, \<open>HarnessFacade\<close> (\<open>__init__.py\<close>: \<open>Future\<close>, \<open>Engine\<close>, \<open>SyntheticActor\<close>),
    \<open>HarnessEngine\<close> (\<open>_rayx.cpp\<close>: \<open>_Engine\<close>, \<open>_Future\<close>), \<open>ServiceLane\<close> (\<open>hpx_impl/service_lane.hpp\<close>);
    \<open>ServiceLaneInv\<close>, \<open>HarnessBatch\<close>, \<open>HarnessFacadeInv\<close>, \<open>HarnessProps\<close> hold the proofs.
  \<^item> Runtime: \<open>RuntimeValidate\<close> (\<open>runtime/_validate.py\<close>), \<open>RuntimeOps\<close> (\<open>runtime_ops.hpp\<close>, \<open>runtime_ops_hpx.hpp\<close>,
    \<open>runtime_actor_ops.hpp\<close>), \<open>RuntimeLane\<close> (\<open>runtime_lane.hpp\<close>, \<open>runtime_cancel.hpp\<close>), \<open>RuntimeEngine\<close> (\<open>_rayx.cpp\<close>),
    \<open>RuntimeFacade\<close> (\<open>runtime/__init__.py\<close>); proofs in \<open>RuntimeOpsProps\<close>, \<open>RuntimeBoundary\<close>, \<open>RuntimeLaneInv\<close>,
    \<open>RuntimeLaneProps\<close>, \<open>RuntimeActor\<close>, \<open>RuntimeFacadeInv\<close>, \<open>RuntimeProps\<close>.
  \<^item> Endpoints: \<open>EndpointWire\<close> (\<open>endpoint/_wire.py\<close>), \<open>EndpointCodec\<close> and \<open>EndpointSeam\<close> (\<open>endpoint_seam.hpp\<close>),
    \<open>EndpointValidate\<close> (\<open>endpoint/_validate.py\<close>), \<open>EndpointFacade\<close> (\<open>endpoint/__init__.py\<close>), \<open>EndpointBridge\<close>
    (\<open>bridge_dispatch\<close>); proofs in \<open>EndpointFacadeInv\<close> and \<open>EndpointProps\<close>.
  \<^item> Drivers: \<open>BenchService\<close> (\<open>service_sequence.py\<close>), \<open>BenchArgs\<close> (command lines), \<open>BenchApi\<close> (rows, and what a driver
    calls), \<open>BenchWindow\<close> (the windowed loop), \<open>BenchRayx\<close> (\<open>run_rayx_baseline.py\<close>), \<open>BenchHpx\<close>
    (\<open>run_hpx_python_baseline.py\<close>), \<open>BenchServer\<close> (\<open>ray_impl/ray_actor_baseline.py\<close>), \<open>BenchRay\<close>
    (\<open>run_ray_baseline.py\<close> and the hosting drivers), \<open>BenchHost\<close> (\<open>RayxHostActor\<close>), \<open>BenchAnalyze\<close>
    (\<open>analyze_jsonl.py\<close>); the remaining \<open>Bench\<close> theories hold the proofs.
  \<^item> Experiment 68: \<open>ExpTopk\<close> (\<open>shared_topk.hpp\<close> and the oracle), \<open>ExpMarkers\<close> (evidence as \<open>dict\<close>s), \<open>ExpGates\<close> (the
    gates, the verdict, the failure class), \<open>ExpActors\<close> (\<open>actor_ext.cpp\<close>, \<open>topk_action.hpp\<close>, \<open>HpxActor\<close>, one case of
    \<open>run_rep\<close>), \<open>ExpNodelist\<close>, \<open>ExpCrossnode\<close> (the three-node phase), \<open>ExpWaits\<close> (bounded waits, command lines);
    \<open>ExpTopkProps\<close> holds the proofs.
  \<^item> Experiment 70, slice 4 (\<open>slice4_root_loss_event/run_slice4.py\<close>): \<open>SupMachine\<close> (\<open>ArmStateMachine\<close> over any list of
    states, and the two locales), \<open>SupRoot\<close> (\<open>classify_root_event\<close>, \<open>ExternalRootLifecycleObserver\<close>,
    \<open>RootEventContract\<close>, \<open>classify_actor_observation\<close>); \<open>SupRootProps\<close> holds the proofs.

  A class is a record of its fields, a method a function of the record and its arguments that returns the changed record
  and its outcome, a raise or throw the left side of a sum. A futures' promise is a cell of the lane that fills it.
  Code that runs beside other code is a step relation over all its parts: \<open>lane_step\<close> and its runtime counterpart for
  clients, worker and clock, the client threads of \<open>BenchHpx\<close>, the bridge's requests and runtimes. Integers of C++ are
  words or bounded by the guards the code has, Python's are unbounded, and what crosses is narrowed where pybind11 narrows it.

  Where C++ leaves a result undefined the model leaves it open: an overflowing call of the counter actor gives unspecified
  64 bits (\<open>unspecified_int64\<close>), for the row and for the actor's state, and \<open>actor_linear\<close> excludes such calls. A lane
  promises to have slept or spun only where the requested time, in nanoseconds, is exact and fits the clock's 64 bits
  (\<open>wait_ns\<close>: below \<open>2 ^ 53\<close> ns). Each reading of a clock is a step of its own, also the two of a request refused for
  its work mode. The native selection of experiment 68 compares \<open>k\<close> with the size narrowed to an \<open>int\<close> and reserves its
  memory first, so its properties are for fewer than \<open>2 ^ 31\<close> tokens; a lemma shows that nothing is cut beyond.

  \<^bold>\<open>What the lemmas show\<close>

  \<^item> Lanes: over every interleaving a request gets at most one row, consistent with its outcome, its times and its token;
    a \<open>cancel()\<close> that returned true is final; a stopped lane ends with a row for every request; admission and in-flight
    bounds hold; an actor's calls take effect one after the other in submission order.
  \<^item> Front ends: results are read once, \<open>wait\<close> partitions, bulk and single submission agree, shutdown settles
    everything, a rejection creates nothing, a validated call never reaches a native guard, errors are of the documented
    classes.
  \<^item> Operations: closed forms and independence of chunking and of the number of parts; the counter actor refines an
    unbounded counter up to overflow.
  \<^item> Endpoints: every frame is encoded exactly when its fields are in range, round trips and is refused when cut, of
    another size or without the magic; the codecs write the same bytes and read the same fields, an id that is not ASCII
    apart; \<open>ping\<close>, calls and \<open>connect\<close> raise endpoint errors, a bad timeout apart; the registry resolves exactly the open endpoints;
    a ping or a bridged call returns what the peer computes.
  \<^item> Drivers: on every dispatch path and every schedule a run returns with exactly one row per request, and the summary
    reports it.
  \<^item> Experiment 68: the merge of the shards is the oracle's list and that is the best \<open>k\<close>; native actors pass every
    gate; a failed call of either actor makes the evaluation raise; the failure class is \<open>pass\<close> exactly when the verdict
    holds; node lists of hosts, numbers and ranges expand to their hosts; waits end.
  \<^item> Experiment 70: a verdict on the root means what it says, a probe of the process id that answers has no say in it,
    and the observer answers once its deadline has passed, unless the witness is no object or the probe raises; a completion
    is accepted once per epoch, in its state, and is what an observer reports whose epoch and root equal what JSON gives
    back of those published.

  \<^bold>\<open>Interfaces\<close>

  Contracts are locales, each interpreted on the model: \<open>cancel_arbiter\<close> (both tokens), \<open>frame_codec\<close> (the four frame
  kinds), \<open>bench_api\<close>, \<open>bench_engine\<close>, \<open>bench_host\<close>, \<open>bench_batch\<close> and \<open>bench_client\<close> (what a driver needs of an
  engine: interpreted on the model of \<open>rayx.Engine\<close>), \<open>bench_ray\<close> (what it needs of Ray and its actors) and
  \<open>ray_class\<close> (what an actor class owes), from which a Ray that runs one call at a time gives \<open>bench_ray\<close>; it is
  interpreted for the synthetic actor and for \<open>RayxHostActor\<close>. Properties about Ray hold for every Ray that meets the
  contract, and the interpretations show that one does. \<open>lifecycle\<close> and \<open>publication_guard\<close> hold what a linear state
  machine and a guard on publishing owe; both are interpreted on \<open>RootEventContract\<close>.

  \<^bold>\<open>Bounds and fuel\<close>

  Driver loops are \<open>io_while\<close> with the number of indices as fuel: each turn retires at least one, and the properties
  prove that the run returns, so the fuel is enough. Draining a lane is bounded by a measure of the work it still holds
  (\<open>lane_work\<close>). Client threads are run by an arbitrary list of turns; the properties hold for every list that is long
  and fair enough for all to end. The exception hierarchy is unfolded six levels, one more than it has. Searching the
  decimal exponent of a float makes at most 400 steps, more than doubles need. Polling loops are \<open>partial_function\<close>s, and
  return when the clock advances by at least 40 ms from one turn to the next; the observer of the root answers by the
  first turn whose reading of the clock is past its deadline.

  \<^bold>\<open>Not modelled, and why\<close>

  \<^item> HPX, pybind11, sockets, Ray, Slurm and the operating system are not part of the sources: their documented behaviour
    is an argument or a hypothesis. A blocking call that is never answered has the outcome \<open>Blocked\<close>.
  \<^item> The HPX variant of the service lane (\<open>hpx_lane.hpp\<close>) repeats \<open>service_lane.hpp\<close> with HPX's primitives. The native
    benchmark (\<open>hpx_synthetic_baseline.cpp\<close>) and the probes beside it measure the same lanes from C++; only the service
    sequence they share with the drivers is modelled.
  \<^item> Timing diagnostics: the cost probe of the engine, the execution witnesses of two operations.
  \<^item> Exception messages, \<open>repr\<close> texts, printing, the text of JSON and files, run ids, and argparse's splitting of the
    command line. Running out of memory or of the interpreter's stack.
  \<^item> Of experiment 70, the other slices, which carry their own copies of the state machine and of the guard, and of slice 4
    the bring-up of the island, the injected loss and the evaluation of the JSON a run leaves.
  \<^item> The other experiments and the examples drive the same engine, runtime and Ray through the interfaces above, mostly
    as measurements that start processes, read files and print tables; documents, tests and build files.

  Conventions: strings have code points below 256, the two zeros of a float are one value, dict keys are strings or
  integers, and a float order with a NaN is excluded by hypothesis where it matters.
\<close>

end
